(* ===== verification/Prelude.thy ===== *)
theory Prelude
  imports Main "HOL-Library.Word"
begin

text \<open>
  Shared vocabulary of the development: names for the machine integers of the source, fallible
  computations that thread a state (Rust methods that take \<open>&mut self\<close> and return a
  \<open>Result\<close>), and the few generic facts on lists and words that several components use.

  \<^item> A Rust \<open>Result<T, E>\<close> is \<open>'e + 't\<close>, \<open>Inl\<close> for \<open>Err\<close> and \<open>Inr\<close> for \<open>Ok\<close>.
  \<^item> A method on \<open>&mut self\<close> that may fail is a function from the state to the result
    paired with the state it leaves behind, so what an early return leaves behind is visible.
  \<^item> \<open>usize\<close> values that count or index are \<open>nat\<close>; every other integer keeps its width.
\<close>

section \<open>Machine integers\<close>

type_synonym u8 = "8 word"
type_synonym u16 = "16 word"
type_synonym u32 = "32 word"
type_synonym u64 = "64 word"
type_synonym i32 = "32 word"

text \<open>\<open>saturating_add\<close> and \<open>saturating_sub\<close> of the standard library.\<close>

definition saturating_add :: "'a::len word \<Rightarrow> 'a word \<Rightarrow> 'a word" where
  "saturating_add a b =
     (if unat a + unat b < 2 ^ LENGTH('a) then a + b else - 1)"

definition saturating_sub :: "'a::len word \<Rightarrow> 'a word \<Rightarrow> 'a word" where
  "saturating_sub a b = (if b \<le> a then a - b else 0)"

lemma unat_saturating_add:
  "unat (saturating_add a b) = min (unat a + unat b) (2 ^ LENGTH('a) - 1)"
  for a b :: "'a::len word"
proof (cases "unat a + unat b < 2 ^ LENGTH('a)")
  case True
  then show ?thesis
    by (simp add: saturating_add_def unat_word_ariths)
next
  case False
  then show ?thesis
    by (simp add: saturating_add_def unat_word_ariths unsigned_minus_1_eq_mask mask_eq_exp_minus_1)
qed

lemma unat_u8_lt [simp]: "unat (b :: u8) < 256"
  using unsigned_less [of b, where ?'a = nat] by simp

lemma unat_saturating_sub: "unat (saturating_sub a b) = unat a - unat b"
  by (auto simp: saturating_sub_def unat_sub word_le_nat_alt)

section \<open>Fallible state transformers\<close>

type_synonym ('s, 'e, 'a) sm = "'s \<Rightarrow> ('e + 'a) \<times> 's"

definition sm_return :: "'a \<Rightarrow> ('s, 'e, 'a) sm" where
  "sm_return a = (\<lambda>s. (Inr a, s))"

definition sm_fail :: "'e \<Rightarrow> ('s, 'e, 'a) sm" where
  "sm_fail e = (\<lambda>s. (Inl e, s))"

definition sm_bind :: "('s, 'e, 'a) sm \<Rightarrow> ('a \<Rightarrow> ('s, 'e, 'b) sm) \<Rightarrow> ('s, 'e, 'b) sm" where
  "sm_bind m f = (\<lambda>s. case m s of (Inl e, t) \<Rightarrow> (Inl e, t) | (Inr a, t) \<Rightarrow> f a t)"

definition sm_then :: "('s, 'e, 'a) sm \<Rightarrow> ('s, 'e, 'b) sm \<Rightarrow> ('s, 'e, 'b) sm" where
  "sm_then m k = sm_bind m (\<lambda>_. k)"

text \<open>An infallible \<open>&mut self\<close> method used inside a fallible one.\<close>

definition sm_do :: "('s \<Rightarrow> 's) \<Rightarrow> ('s, 'e, unit) sm" where
  "sm_do g = (\<lambda>s. (Inr (), g s))"

text \<open>A \<open>&self\<close> method that may fail, used inside a \<open>&mut self\<close> one.\<close>

definition sm_read :: "('s \<Rightarrow> 'e + 'a) \<Rightarrow> ('s, 'e, 'a) sm" where
  "sm_read f = (\<lambda>s. (f s, s))"

text \<open>An infallible \<open>&mut self\<close> method with a result.\<close>

definition sm_lift :: "('s \<Rightarrow> 'a \<times> 's) \<Rightarrow> ('s, 'e, 'a) sm" where
  "sm_lift g = (\<lambda>s. case g s of (a, t) \<Rightarrow> (Inr a, t))"

text \<open>The \<open>?\<close> operator on a \<open>Result\<close> with no state.\<close>

definition res_bind :: "'e + 'a \<Rightarrow> ('a \<Rightarrow> 'e + 'b) \<Rightarrow> 'e + 'b" where
  "res_bind m f = (case m of Inl e \<Rightarrow> Inl e | Inr a \<Rightarrow> f a)"

definition ok_or :: "'e \<Rightarrow> 'a option \<Rightarrow> 'e + 'a" where
  "ok_or e x = (case x of None \<Rightarrow> Inl e | Some a \<Rightarrow> Inr a)"

lemma sm_bind_Inr [simp]: "m s = (Inr a, t) \<Longrightarrow> sm_bind m f s = f a t"
  by (simp add: sm_bind_def)

lemma sm_bind_Inl [simp]: "m s = (Inl e, t) \<Longrightarrow> sm_bind m f s = (Inl e, t)"
  by (simp add: sm_bind_def)

lemma sm_return_app [simp]: "sm_return a s = (Inr a, s)"
  by (simp add: sm_return_def)

lemma sm_fail_app [simp]: "sm_fail e s = (Inl e, s)"
  by (simp add: sm_fail_def)

lemma sm_do_app [simp]: "sm_do g s = (Inr (), g s)"
  by (simp add: sm_do_def)

text \<open>A \<open>for\<close> loop whose body may return early.\<close>

fun sm_each :: "('a \<Rightarrow> ('s, 'e, 'b) sm) \<Rightarrow> 'a list \<Rightarrow> ('s, 'e, unit) sm" where
  "sm_each f [] = sm_return ()"
| "sm_each f (x # xs) = sm_then (f x) (sm_each f xs)"

lemma sm_read_app [simp]: "sm_read f s = (f s, s)"
  by (simp add: sm_read_def)

lemma sm_lift_app [simp]: "g s = (a, t) \<Longrightarrow> sm_lift g s = (Inr a, t)"
  by (simp add: sm_lift_def)

lemma sm_then_Inr [simp]: "m s = (Inr a, t) \<Longrightarrow> sm_then m k s = k t"
  by (simp add: sm_then_def)

lemma sm_then_Inl [simp]: "m s = (Inl e, t) \<Longrightarrow> sm_then m k s = (Inl e, t)"
  by (simp add: sm_then_def)

lemma sm_bind_ok:
  "sm_bind m f s = (Inr b, u) \<longleftrightarrow> (\<exists>a t. m s = (Inr a, t) \<and> f a t = (Inr b, u))"
  by (auto simp: sm_bind_def split: prod.splits sum.splits)

lemma sm_bind_inv:
  assumes "P s" and "\<And>t. P t \<Longrightarrow> P (snd (m t))" and "\<And>a t. P t \<Longrightarrow> P (snd (f a t))"
  shows "P (snd (sm_bind m f s))"
proof (cases "m s")
  case (Pair r t)
  have "P t" using assms(2)[OF assms(1)] Pair by simp
  then show ?thesis using assms(3) Pair by (cases r) (simp_all add: sm_bind_def)
qed

lemma sm_then_inv:
  assumes "P s" and "\<And>t. P t \<Longrightarrow> P (snd (m t))" and "\<And>t. P t \<Longrightarrow> P (snd (k t))"
  shows "P (snd (sm_then m k s))"
  unfolding sm_then_def by (rule sm_bind_inv) (use assms in auto)

lemma sm_each_inv:
  assumes "P s" and "\<And>x t. x \<in> set xs \<Longrightarrow> P t \<Longrightarrow> P (snd (f x t))"
  shows "P (snd (sm_each f xs s))"
  using assms
proof (induction xs arbitrary: s)
  case (Cons x xs)
  have "P (snd (sm_then (f x) (sm_each f xs) s))"
    by (rule sm_then_inv) (use Cons in auto)
  then show ?case by simp
qed simp

lemma sm_return_ok: "sm_return a s = (Inr b, t) \<longleftrightarrow> b = a \<and> t = s"
  by (auto simp: sm_return_def)

lemma res_bind_ok: "res_bind m f = Inr b \<longleftrightarrow> (\<exists>a. m = Inr a \<and> f a = Inr b)"
  by (auto simp: res_bind_def split: sum.splits)

lemma res_bind_simps [simp]: "res_bind (Inl e) f = Inl e" "res_bind (Inr a) f = f a"
  by (simp_all add: res_bind_def)

lemma ok_or_simps [simp]: "ok_or e None = Inl e" "ok_or e (Some a) = Inr a"
  by (simp_all add: ok_or_def)

lemma ok_or_Inr [simp]: "ok_or e x = Inr a \<longleftrightarrow> x = Some a"
  by (cases x) auto

section \<open>Lists\<close>

text \<open>\<open>Iterator::position\<close>: the index of the first element that satisfies a predicate.\<close>

fun position :: "('a \<Rightarrow> bool) \<Rightarrow> 'a list \<Rightarrow> nat option" where
  "position p [] = None"
| "position p (x # xs) = (if p x then Some 0 else map_option Suc (position p xs))"

lemma position_None_iff: "position p xs = None \<longleftrightarrow> (\<forall>x \<in> set xs. \<not> p x)"
  by (induction xs) auto

lemma position_SomeD:
  "position p xs = Some i \<Longrightarrow> i < length xs \<and> p (xs ! i) \<and> (\<forall>j < i. \<not> p (xs ! j))"
proof (induction xs arbitrary: i)
  case Nil
  then show ?case by simp
next
  case (Cons x xs)
  show ?case
  proof (cases "p x")
    case True
    with Cons.prems show ?thesis by simp
  next
    case False
    with Cons.prems obtain k where k: "position p xs = Some k" "i = Suc k"
      by (auto split: if_splits)
    from Cons.IH [OF k(1)] False k(2) show ?thesis
      by (auto simp: less_Suc_eq_0_disj)
  qed
qed

text \<open>\<open>Vec::insert\<close> and \<open>Vec::remove\<close> at an index in range.\<close>

definition insert_at :: "nat \<Rightarrow> 'a \<Rightarrow> 'a list \<Rightarrow> 'a list" where
  "insert_at i x xs = take i xs @ x # drop i xs"

definition remove_at :: "nat \<Rightarrow> 'a list \<Rightarrow> 'a list" where
  "remove_at i xs = take i xs @ drop (Suc i) xs"

lemma set_insert_at [simp]: "set (insert_at i x xs) = insert x (set xs)"
proof -
  have "set xs = set (take i xs) \<union> set (drop i xs)"
    by (metis append_take_drop_id set_append)
  then show ?thesis by (auto simp: insert_at_def)
qed

lemma length_insert_at [simp]: "length (insert_at i x xs) = Suc (length xs)"
  by (simp add: insert_at_def)

lemma distinct_insert_at: "distinct (insert_at i x xs) \<longleftrightarrow> distinct xs \<and> x \<notin> set xs"
proof -
  have "distinct (insert_at i x xs) \<longleftrightarrow> distinct (x # take i xs @ drop i xs)"
    unfolding insert_at_def by (simp only: distinct_append distinct.simps set_append list.set) auto
  then show ?thesis by auto
qed

text \<open>Reading after an update by index, out of range included.\<close>

lemma nth_update_total: "xs[i := y] ! j = (if j = i \<and> i < length xs then y else xs ! j)"
  by (cases "i < length xs") (auto simp: nth_list_update list_update_beyond)

lemma remove_at_split:
  "i < length xs \<Longrightarrow> xs = take i xs @ xs ! i # drop (Suc i) xs"
  by (rule id_take_nth_drop)

section \<open>Threading a state through a list\<close>

text \<open>\<open>iter().map(|x| ..)\<close> with a closure that updates a captured state.\<close>

fun map_st :: "('a \<Rightarrow> 's \<Rightarrow> 'b \<times> 's) \<Rightarrow> 'a list \<Rightarrow> 's \<Rightarrow> 'b list \<times> 's" where
  "map_st f [] s = ([], s)"
| "map_st f (x # xs) s =
     (let (y, t) = f x s; (ys, u) = map_st f xs t in (y # ys, u))"

lemma map_st_Cons_eq:
  "f x s = (y, t) \<Longrightarrow> map_st f xs t = (ys, u) \<Longrightarrow> map_st f (x # xs) s = (y # ys, u)"
  by simp

lemma map_st_length: "length (fst (map_st f xs s)) = length xs"
  by (induction xs arbitrary: s) (simp_all add: case_prod_beta Let_def)

section \<open>Sizes of lists in recursive data\<close>

lemma size_in_list: "x \<in> set xs \<Longrightarrow> size x \<le> size_list size xs"
  by (induction xs) auto

lemma size_list_rev: "size_list f (rev xs) = size_list f xs"
  by (simp add: size_list_conv_sum_list rev_map[symmetric])

end
