(* ===== verification/Rust_Utf8.thy ===== *)
theory Rust_Utf8
  imports Prelude
begin

text \<open>
  The byte level of Rust strings. A \<open>str\<close> is modelled as an Isabelle \<open>string\<close> whose
  characters are the bytes of its UTF-8 encoding, so \<open>length\<close> is \<open>str::len\<close> and a literal
  of ASCII characters is itself. \<open>str_bytes\<close> is \<open>as_bytes\<close>; \<open>utf8_valid\<close> is the acceptance
  condition of \<open>core::str::from_utf8\<close> (the well-formed byte sequences of the Unicode
  standard: no overlong forms, no surrogates, nothing above U+10FFFF).
\<close>

definition str_bytes :: "string \<Rightarrow> u8 list" where
  "str_bytes s = map (\<lambda>c. word_of_nat (of_char c)) s"

definition bytes_str :: "u8 list \<Rightarrow> string" where
  "bytes_str bs = map (\<lambda>b. char_of (unat b)) bs"

text \<open>A continuation byte, and the ranges of a second byte that depend on the first.\<close>

definition utf8_cont :: "u8 \<Rightarrow> bool" where
  "utf8_cont b \<longleftrightarrow> 0x80 \<le> b \<and> b \<le> 0xBF"

fun utf8_two :: "u8 \<Rightarrow> bool" where
  "utf8_two b \<longleftrightarrow> 0xC2 \<le> b \<and> b \<le> 0xDF"

definition utf8_three :: "u8 \<Rightarrow> u8 \<Rightarrow> bool" where
  "utf8_three b c \<longleftrightarrow>
     b = 0xE0 \<and> 0xA0 \<le> c \<and> c \<le> 0xBF
   \<or> 0xE1 \<le> b \<and> b \<le> 0xEC \<and> utf8_cont c
   \<or> b = 0xED \<and> 0x80 \<le> c \<and> c \<le> 0x9F
   \<or> 0xEE \<le> b \<and> b \<le> 0xEF \<and> utf8_cont c"

definition utf8_four :: "u8 \<Rightarrow> u8 \<Rightarrow> bool" where
  "utf8_four b c \<longleftrightarrow>
     b = 0xF0 \<and> 0x90 \<le> c \<and> c \<le> 0xBF
   \<or> 0xF1 \<le> b \<and> b \<le> 0xF3 \<and> utf8_cont c
   \<or> b = 0xF4 \<and> 0x80 \<le> c \<and> c \<le> 0x8F"

fun utf8_valid :: "u8 list \<Rightarrow> bool" where
  "utf8_valid [] = True"
| "utf8_valid (b # bs) =
     (if b < 0x80 then utf8_valid bs
      else (case bs of
        [] \<Rightarrow> False
      | c # cs \<Rightarrow>
          if utf8_two b then utf8_cont c \<and> utf8_valid cs
          else (case cs of
            [] \<Rightarrow> False
          | d # ds \<Rightarrow>
              if utf8_three b c then utf8_cont d \<and> utf8_valid ds
              else (case ds of
                [] \<Rightarrow> False
              | e # es \<Rightarrow> utf8_four b c \<and> utf8_cont d \<and> utf8_cont e \<and> utf8_valid es))))"

text \<open>The strings of the source are valid by their type; the model says so where it matters.\<close>

definition rust_str :: "string \<Rightarrow> bool" where
  "rust_str s \<longleftrightarrow> utf8_valid (str_bytes s)"

lemma str_bytes_append [simp]: "str_bytes (s @ t) = str_bytes s @ str_bytes t"
  by (simp add: str_bytes_def)

lemma length_str_bytes [simp]: "length (str_bytes s) = length s"
  by (simp add: str_bytes_def)

lemma length_bytes_str [simp]: "length (bytes_str bs) = length bs"
  by (simp add: bytes_str_def)

lemma bytes_str_inverse [simp]: "bytes_str (str_bytes s) = s"
proof -
  have "char_of (unat (word_of_nat (of_char c) :: u8)) = c" for c
    by (simp add: unat_of_nat)
  then show ?thesis by (simp add: bytes_str_def str_bytes_def comp_def)
qed

lemma str_bytes_inverse [simp]: "str_bytes (bytes_str bs) = bs"
proof -
  have "word_of_nat (of_char (char_of (unat b))) = b" for b :: u8
    by simp
  then show ?thesis by (simp add: bytes_str_def str_bytes_def comp_def)
qed

lemma str_bytes_inj: "str_bytes s = str_bytes t \<longleftrightarrow> s = t"
  by (metis bytes_str_inverse)

lemma rust_str_bytes_str [simp]: "rust_str (bytes_str bs) \<longleftrightarrow> utf8_valid bs"
  by (simp add: rust_str_def)

end
