(* ===== verification/Rust_Str.thy ===== *)
theory Rust_Str
  imports Rust_Utf8 "HOL-Library.Sublist"
begin

text \<open>
  The methods of Rust's \<open>str\<close> and \<open>u8\<close> that the source calls, on strings of UTF-8 bytes:
  ASCII case folding and classification, the Unicode white space that \<open>trim\<close> and
  \<open>split_whitespace\<close> recognise (by its byte sequences), splitting, and the code points that
  \<open>chars\<close> yields.
\<close>

section \<open>ASCII\<close>

definition byte_of :: "char \<Rightarrow> nat" where
  "byte_of c = of_char c"

lemma byte_of_Char [simp]:
  "byte_of (Char b0 b1 b2 b3 b4 b5 b6 b7) = of_char (Char b0 b1 b2 b3 b4 b5 b6 b7)"
  by (simp add: byte_of_def)

lemma byte_of_lt [simp]: "byte_of c < 256"
  by (simp add: byte_of_def)

lemma byte_of_inject [simp]: "byte_of c = byte_of d \<longleftrightarrow> c = d"
  by (simp add: byte_of_def)

lemma byte_of_char_of [simp]: "byte_of (char_of n) = n mod 256"
  by (simp add: byte_of_def)

definition ascii_char :: "char \<Rightarrow> bool" where
  "ascii_char c \<longleftrightarrow> byte_of c < 128"

definition ascii_upper :: "char \<Rightarrow> bool" where
  "ascii_upper c \<longleftrightarrow> 65 \<le> byte_of c \<and> byte_of c \<le> 90"

definition ascii_lower :: "char \<Rightarrow> bool" where
  "ascii_lower c \<longleftrightarrow> 97 \<le> byte_of c \<and> byte_of c \<le> 122"

definition ascii_digit :: "char \<Rightarrow> bool" where
  "ascii_digit c \<longleftrightarrow> 48 \<le> byte_of c \<and> byte_of c \<le> 57"

text \<open>\<open>u8::is_ascii_whitespace\<close>: tab, line feed, form feed, carriage return and space, without
  the vertical tab.\<close>

definition ascii_whitespace :: "char \<Rightarrow> bool" where
  "ascii_whitespace c \<longleftrightarrow> byte_of c \<in> {9, 10, 12, 13, 32}"

definition is_ascii :: "string \<Rightarrow> bool" where
  "is_ascii s \<longleftrightarrow> list_all ascii_char s"

definition lower_char :: "char \<Rightarrow> char" where
  "lower_char c = (if ascii_upper c then char_of (byte_of c + 32) else c)"

definition to_ascii_lowercase :: "string \<Rightarrow> string" where
  "to_ascii_lowercase s = map lower_char s"

definition eq_ignore_ascii_case :: "string \<Rightarrow> string \<Rightarrow> bool" where
  "eq_ignore_ascii_case a b \<longleftrightarrow> to_ascii_lowercase a = to_ascii_lowercase b"

lemma lower_char_idem [simp]: "lower_char (lower_char c) = lower_char c"
  by (simp add: lower_char_def ascii_upper_def)

lemma to_ascii_lowercase_idem [simp]:
  "to_ascii_lowercase (to_ascii_lowercase s) = to_ascii_lowercase s"
  by (simp add: to_ascii_lowercase_def)

lemma length_to_ascii_lowercase [simp]: "length (to_ascii_lowercase s) = length s"
  by (simp add: to_ascii_lowercase_def)

lemma to_ascii_lowercase_append [simp]:
  "to_ascii_lowercase (s @ t) = to_ascii_lowercase s @ to_ascii_lowercase t"
  by (simp add: to_ascii_lowercase_def)

lemma to_ascii_lowercase_Nil [simp]: "to_ascii_lowercase s = [] \<longleftrightarrow> s = []"
  by (simp add: to_ascii_lowercase_def)

lemma eq_ignore_ascii_case_lower [simp]:
  "eq_ignore_ascii_case (to_ascii_lowercase a) b = eq_ignore_ascii_case a b"
  "eq_ignore_ascii_case a (to_ascii_lowercase b) = eq_ignore_ascii_case a b"
  by (simp_all add: eq_ignore_ascii_case_def)

lemma eq_ignore_ascii_case_refl [simp]: "eq_ignore_ascii_case a a"
  by (simp add: eq_ignore_ascii_case_def)

section \<open>White space\<close>

text \<open>The characters with the Unicode property \<open>White_Space\<close> (\<open>char::is_whitespace\<close>), as the
  bytes of their encoding.\<close>

fun ws_bytes :: "nat list \<Rightarrow> bool" where
  "ws_bytes [a] \<longleftrightarrow> 9 \<le> a \<and> a \<le> 13 \<or> a = 32"
| "ws_bytes [a, b] \<longleftrightarrow> a = 0xC2 \<and> (b = 0x85 \<or> b = 0xA0)"
| "ws_bytes [a, b, c] \<longleftrightarrow>
     a = 0xE1 \<and> b = 0x9A \<and> c = 0x80
   \<or> a = 0xE2 \<and> b = 0x80 \<and> (0x80 \<le> c \<and> c \<le> 0x8A \<or> c = 0xA8 \<or> c = 0xA9 \<or> c = 0xAF)
   \<or> a = 0xE2 \<and> b = 0x81 \<and> c = 0x9F
   \<or> a = 0xE3 \<and> b = 0x80 \<and> c = 0x80"
| "ws_bytes _ \<longleftrightarrow> False"

text \<open>The length of the white space character a string starts (ends) with, or 0.\<close>

definition ws_len :: "string \<Rightarrow> nat" where
  "ws_len s =
     (if ws_bytes (map byte_of (take 1 s)) then 1
      else if length s \<ge> 2 \<and> ws_bytes (map byte_of (take 2 s)) then 2
      else if length s \<ge> 3 \<and> ws_bytes (map byte_of (take 3 s)) then 3
      else 0)"

definition ws_end_len :: "string \<Rightarrow> nat" where
  "ws_end_len s =
     (if ws_bytes (map byte_of (drop (length s - 1) s)) then 1
      else if length s \<ge> 2 \<and> ws_bytes (map byte_of (drop (length s - 2) s)) then 2
      else if length s \<ge> 3 \<and> ws_bytes (map byte_of (drop (length s - 3) s)) then 3
      else 0)"

lemma ws_len_le: "ws_len s \<le> length s"
  by (cases s) (auto simp: ws_len_def)

lemma ws_end_len_le: "ws_end_len s \<le> length s"
  by (cases s) (auto simp: ws_end_len_def)

lemma ws_len_Nil [simp]: "ws_len [] = 0"
  by (simp add: ws_len_def)

function trim_start :: "string \<Rightarrow> string" where
  "trim_start s = (if ws_len s = 0 then s else trim_start (drop (ws_len s) s))"
  by auto
termination
proof (relation "measure length")
  show "ws_len s \<noteq> 0 \<Longrightarrow> (drop (ws_len s) s, s) \<in> measure length" for s
    using ws_len_le[of s] by simp
qed simp

function trim_end :: "string \<Rightarrow> string" where
  "trim_end s = (if ws_end_len s = 0 then s else trim_end (take (length s - ws_end_len s) s))"
  by auto
termination
proof (relation "measure length")
  show "ws_end_len s \<noteq> 0 \<Longrightarrow> (take (length s - ws_end_len s) s, s) \<in> measure length" for s
    using ws_end_len_le[of s] by simp
qed simp

declare trim_start.simps [simp del] trim_end.simps [simp del]

definition trim :: "string \<Rightarrow> string" where
  "trim s = trim_end (trim_start s)"

text \<open>\<open>split_whitespace\<close>: the maximal runs without white space; \<open>acc\<close> is the current run,
  reversed.\<close>

function split_ws :: "string \<Rightarrow> string \<Rightarrow> string list" where
  "split_ws acc [] = (if acc = [] then [] else [rev acc])"
| "split_ws acc (c # cs) =
     (if ws_len (c # cs) = 0 then split_ws (c # acc) cs
      else (if acc = [] then [] else [rev acc]) @ split_ws [] (drop (ws_len (c # cs)) (c # cs)))"
  by pat_completeness auto
termination
proof (relation "measure (\<lambda>(_, s). length s)")
  show "ws_len (c # cs) \<noteq> 0 \<Longrightarrow>
      (([], drop (ws_len (c # cs)) (c # cs)), (acc, c # cs)) \<in> measure (\<lambda>(_, s). length s)"
    for acc c cs
    using ws_len_le[of "c # cs"] by simp
qed simp_all

definition split_whitespace :: "string \<Rightarrow> string list" where
  "split_whitespace s = split_ws [] s"

section \<open>Splitting and prefixes\<close>

text \<open>\<open>split(c)\<close>, \<open>split_once(c)\<close>, \<open>strip_prefix\<close> and \<open>contains\<close> for an ASCII separator.\<close>

fun split_on :: "char \<Rightarrow> string \<Rightarrow> string list" where
  "split_on d [] = [[]]"
| "split_on d (c # cs) =
     (if c = d then [] # split_on d cs
      else (case split_on d cs of [] \<Rightarrow> [[c]] | w # ws \<Rightarrow> (c # w) # ws))"

fun split_once :: "char \<Rightarrow> string \<Rightarrow> (string \<times> string) option" where
  "split_once d [] = None"
| "split_once d (c # cs) =
     (if c = d then Some ([], cs)
      else map_option (\<lambda>(a, b). (c # a, b)) (split_once d cs))"

definition starts_with :: "string \<Rightarrow> string \<Rightarrow> bool" where
  "starts_with p s \<longleftrightarrow> take (length p) s = p"

definition strip_prefix :: "string \<Rightarrow> string \<Rightarrow> string option" where
  "strip_prefix p s = (if starts_with p s then Some (drop (length p) s) else None)"

definition ends_with :: "string \<Rightarrow> string \<Rightarrow> bool" where
  "ends_with p s \<longleftrightarrow> length p \<le> length s \<and> drop (length s - length p) s = p"

definition strip_suffix :: "string \<Rightarrow> string \<Rightarrow> string option" where
  "strip_suffix p s = (if ends_with p s then Some (take (length s - length p) s) else None)"

fun join_str :: "string \<Rightarrow> string list \<Rightarrow> string" where
  "join_str d [] = []"
| "join_str d [w] = w"
| "join_str d (w # v # ws) = w @ d @ join_str d (v # ws)"

lemma split_on_not_Nil [simp]: "split_on d s \<noteq> []"
  by (induction s) (auto split: list.splits)

lemma split_on_parts: "w \<in> set (split_on d s) \<Longrightarrow> d \<notin> set w"
  by (induction s arbitrary: w) (auto split: if_splits list.splits)

lemma join_split_on: "join_str [d] (split_on d s) = s"
proof (induction s)
  case (Cons c cs)
  obtain w ws where w: "split_on d cs = w # ws"
    by (meson neq_Nil_conv split_on_not_Nil)
  then show ?case using Cons by (cases ws) auto
qed simp

lemma split_on_plain: "d \<notin> set w \<Longrightarrow> split_on d w = [w]"
  by (induction w) auto

lemma split_on_append: "d \<notin> set w \<Longrightarrow> split_on d (w @ d # s) = w # split_on d s"
  by (induction w) auto

lemma split_on_join:
  "ws \<noteq> [] \<Longrightarrow> \<forall>w \<in> set ws. d \<notin> set w \<Longrightarrow> split_on d (join_str [d] ws) = ws"
  by (induction "[d]" ws rule: join_str.induct) (auto simp: split_on_plain split_on_append)

lemma split_once_Some: "split_once d s = Some (a, b) \<longleftrightarrow> s = a @ d # b \<and> d \<notin> set a"
proof (induction s arbitrary: a)
  case (Cons c cs)
  show ?case by (cases a) (auto simp: Cons.IH)
qed auto

lemma split_once_None: "split_once d s = None \<longleftrightarrow> d \<notin> set s"
  by (induction s) auto

lemma starts_with_iff: "starts_with p s \<longleftrightarrow> (\<exists>t. s = p @ t)"
  unfolding starts_with_def by (metis append_eq_conv_conj append_take_drop_id)

section \<open>Code points\<close>

text \<open>The characters of a valid string (\<open>str::chars\<close>), as code points.\<close>

function utf8_chars :: "nat list \<Rightarrow> nat list" where
  "utf8_chars [] = []"
| "utf8_chars (a # s) =
     (if a < 0x80 then a # utf8_chars s
      else if a < 0xE0 then
        ((a - 0xC0) * 64 + (s ! 0 - 0x80)) # utf8_chars (drop 1 s)
      else if a < 0xF0 then
        ((a - 0xE0) * 4096 + (s ! 0 - 0x80) * 64 + (s ! 1 - 0x80)) # utf8_chars (drop 2 s)
      else
        ((a - 0xF0) * 262144 + (s ! 0 - 0x80) * 4096 + (s ! 1 - 0x80) * 64 + (s ! 2 - 0x80))
          # utf8_chars (drop 3 s))"
  by pat_completeness auto
termination by (relation "measure length") auto

definition str_chars :: "string \<Rightarrow> nat list" where
  "str_chars s = utf8_chars (map byte_of s)"

lemma utf8_chars_ascii: "\<forall>a \<in> set s. a < 128 \<Longrightarrow> utf8_chars s = s"
  by (induction s) auto

end
