(* ===== verification/Rust_Chars.thy ===== *)
theory Rust_Chars
  imports Rust_Str
begin

text \<open>
  Characters of Rust strings: a \<open>char\<close> is its code point, \<open>push_char\<close> is \<open>String::push\<close>,
  \<open>char_from_u32\<close> is \<open>char::from_u32\<close>, and a byte position is a character boundary when the
  byte there is not a continuation byte, which is what slicing and draining a \<open>str\<close> check.
\<close>

definition utf8_encode :: "nat \<Rightarrow> string" where
  "utf8_encode cp =
     (if cp < 0x80 then [char_of cp]
      else if cp < 0x800 then [char_of (0xC0 + cp div 64), char_of (0x80 + cp mod 64)]
      else if cp < 0x10000 then
        [char_of (0xE0 + cp div 4096), char_of (0x80 + cp div 64 mod 64), char_of (0x80 + cp mod 64)]
      else
        [char_of (0xF0 + cp div 262144), char_of (0x80 + cp div 4096 mod 64),
         char_of (0x80 + cp div 64 mod 64), char_of (0x80 + cp mod 64)])"

definition len_utf8 :: "nat \<Rightarrow> nat" where
  "len_utf8 cp = (if cp < 0x80 then 1 else if cp < 0x800 then 2 else if cp < 0x10000 then 3 else 4)"

definition push_char :: "string \<Rightarrow> nat \<Rightarrow> string" where
  "push_char s cp = s @ utf8_encode cp"

definition char_from_u32 :: "nat \<Rightarrow> nat option" where
  "char_from_u32 v = (if v < 0xD800 \<or> 0xE000 \<le> v \<and> v \<le> 0x10FFFF then Some v else None)"

definition cont_byte :: "char \<Rightarrow> bool" where
  "cont_byte c \<longleftrightarrow> 0x80 \<le> byte_of c \<and> byte_of c < 0xC0"

text \<open>A suffix of a string starts at a character boundary.\<close>

definition at_boundary :: "string \<Rightarrow> bool" where
  "at_boundary s \<longleftrightarrow> (case s of [] \<Rightarrow> True | c # _ \<Rightarrow> \<not> cont_byte c)"

text \<open>The first character of a string that starts at a boundary.\<close>

definition first_char :: "string \<Rightarrow> nat" where
  "first_char s = hd (str_chars s)"

definition ascii_alphabetic :: "char \<Rightarrow> bool" where
  "ascii_alphabetic c \<longleftrightarrow> ascii_upper c \<or> ascii_lower c"

definition hex_digit :: "char \<Rightarrow> bool" where
  "hex_digit c \<longleftrightarrow> ascii_digit c \<or> 65 \<le> byte_of c \<and> byte_of c \<le> 70 \<or> 97 \<le> byte_of c \<and> byte_of c \<le> 102"

lemma length_utf8_encode: "length (utf8_encode cp) = len_utf8 cp"
  by (simp add: utf8_encode_def len_utf8_def)

lemma utf8_encode_not_Nil [simp]: "utf8_encode cp \<noteq> []"
  by (simp add: utf8_encode_def)

lemma push_char_not_Nil [simp]: "push_char s cp \<noteq> []"
  by (simp add: push_char_def)

lemma len_utf8_pos [simp]: "0 < len_utf8 cp"
  by (simp add: len_utf8_def)

lemma char_of_byte_of [simp]: "char_of (byte_of c) = c"
  by (simp add: byte_of_def)

lemma push_char_ascii: "ascii_char c \<Longrightarrow> push_char s (byte_of c) = s @ [c]"
  by (simp add: push_char_def utf8_encode_def ascii_char_def)

lemma first_char_ascii: "ascii_char c \<Longrightarrow> first_char (c # s) = byte_of c"
  by (simp add: first_char_def str_chars_def ascii_char_def)

lemma at_boundary_ascii: "ascii_char c \<Longrightarrow> at_boundary (c # s)"
  by (simp add: at_boundary_def cont_byte_def ascii_char_def)

lemma at_boundary_Nil [simp]: "at_boundary []"
  by (simp add: at_boundary_def)

lemma at_boundary_is_ascii: "is_ascii s \<Longrightarrow> at_boundary s"
  by (cases s) (auto simp: is_ascii_def at_boundary_ascii)

lemma ascii_cons [simp]: "is_ascii (c # s) \<longleftrightarrow> ascii_char c \<and> is_ascii s"
  by (simp add: is_ascii_def)

end
