(* ===== verification/Interner.thy ===== *)
theory Interner
  imports Rust_Str
begin

text \<open>
  The string interner of \<open>silksurf-core/src/interner.rs\<close>: \<open>Atom\<close>, \<open>SilkInterner\<close> with \<open>intern\<close>
  and \<open>resolve\<close>, and the filter \<open>should_intern_identifier\<close>. The locale \<open>interner_iface\<close> is what
  the DOM relies on; its interpretation discharges the laws for the code's model.
\<close>

datatype atom = Atom (raw: u32)

record silk_interner =
  ids :: "string \<Rightarrow> atom option"
  interned :: "string list"

definition interner_new :: silk_interner where
  "interner_new = \<lparr>ids = Map.empty, interned = []\<rparr>"

text \<open>The cast \<open>self.values.len() as u32\<close> truncates, as \<open>word_of_nat\<close> does.\<close>

definition intern :: "string \<Rightarrow> silk_interner \<Rightarrow> atom \<times> silk_interner" where
  "intern v it =
     (case ids it v of
        Some existing \<Rightarrow> (existing, it)
      | None \<Rightarrow>
          let atom = Atom (word_of_nat (length (interned it)))
          in (atom, it\<lparr>interned := interned it @ [v], ids := (ids it)(v \<mapsto> atom)\<rparr>))"

text \<open>\<open>None\<close> is the panic of \<open>expect\<close>.\<close>

definition resolve :: "silk_interner \<Rightarrow> atom \<Rightarrow> string option" where
  "resolve it a =
     (if unat (raw a) < length (interned it) then Some (interned it ! unat (raw a)) else None)"

definition interner_len :: "silk_interner \<Rightarrow> nat" where
  "interner_len it = length (interned it)"

definition interner_is_empty :: "silk_interner \<Rightarrow> bool" where
  "interner_is_empty it \<longleftrightarrow> interned it = []"

definition MAX_INTERNED_LEN :: nat where "MAX_INTERNED_LEN = 24"

definition should_intern_identifier :: "string \<Rightarrow> bool" where
  "should_intern_identifier v =
     (let len = length v in
      if len = 0 \<or> len > MAX_INTERNED_LEN then False
      else if \<not> is_ascii v then False
      else \<not> list_ex ascii_whitespace v)"

section \<open>The invariant\<close>

text \<open>The map and the vector are inverse to each other, and every index fits an atom.\<close>

definition interner_inv :: "silk_interner \<Rightarrow> bool" where
  "interner_inv it \<longleftrightarrow>
     length (interned it) \<le> 2 ^ 32
   \<and> (\<forall>v a. ids it v = Some a \<longleftrightarrow>
         unat (raw a) < length (interned it) \<and> interned it ! unat (raw a) = v)"

definition interner_fits :: "silk_interner \<Rightarrow> bool" where
  "interner_fits it \<longleftrightarrow> length (interned it) \<le> 2 ^ 32"

lemma interner_inv_new [simp]: "interner_inv interner_new"
  by (simp add: interner_inv_def interner_new_def)

lemma interner_ids_resolve:
  "interner_inv it \<Longrightarrow> ids it v = Some a \<longleftrightarrow> resolve it a = Some v"
  unfolding interner_inv_def resolve_def by auto

lemma intern_inv:
  assumes inv: "interner_inv it" and fits: "interner_fits (snd (intern v it))"
  shows "interner_inv (snd (intern v it))"
proof (cases "ids it v")
  case (Some a)
  then show ?thesis using inv by (simp add: intern_def)
next
  case None
  let ?n = "length (interned it)"
  have n: "?n < 2 ^ 32" using fits None by (simp add: interner_fits_def intern_def Let_def)
  then have raw: "unat (word_of_nat ?n :: u32) = ?n" by (simp add: unat_of_nat)
  have fresh: "interned it ! i \<noteq> v" if "i < ?n" for i
  proof -
    have "unat (word_of_nat i :: u32) = i" using that n by (simp add: unat_of_nat)
    then have "ids it (interned it ! i) = Some (Atom (word_of_nat i))"
      using inv that by (simp add: interner_inv_def)
    then show ?thesis using None by auto
  qed
  have same: "a = Atom (word_of_nat ?n) \<longleftrightarrow> unat (raw a) = ?n" for a
    using raw by (metis atom.collapse atom.sel word_unat_eq_iff)
  have "(if w = v then Some (Atom (word_of_nat ?n)) else ids it w) = Some a \<longleftrightarrow>
      unat (raw a) < Suc ?n \<and> (interned it @ [v]) ! unat (raw a) = w" for w a
    using inv fresh same[of a]
    by (auto simp: interner_inv_def nth_append less_Suc_eq None)
  then show ?thesis
    using None n by (simp add: intern_def Let_def interner_inv_def)
qed

lemma intern_resolves:
  assumes "interner_inv it" and "interner_fits (snd (intern v it))"
  shows "resolve (snd (intern v it)) (fst (intern v it)) = Some v"
proof (cases "ids it v")
  case (Some a)
  then have "resolve it a = Some v" using interner_ids_resolve[OF assms(1)] by simp
  then show ?thesis using Some by (simp add: intern_def)
next
  case None
  have "unat (word_of_nat (length (interned it)) :: u32) = length (interned it)"
    using assms(2) None by (simp add: interner_fits_def intern_def Let_def unat_of_nat)
  then show ?thesis using None by (simp add: intern_def resolve_def Let_def)
qed

lemma intern_stable:
  "resolve it a = Some w \<Longrightarrow> resolve (snd (intern v it)) a = Some w"
  by (auto simp: intern_def resolve_def Let_def nth_append split: option.split if_splits)

lemma intern_fits: "interner_fits (snd (intern v it)) \<Longrightarrow> interner_fits it"
  by (simp add: intern_def interner_fits_def Let_def split: option.splits)

lemma intern_values_prefix: "prefix (interned it) (interned (snd (intern v it)))"
  by (simp add: intern_def Let_def split: option.split)

section \<open>The interface\<close>

locale interner_iface =
  fixes int :: "'v \<Rightarrow> 'i \<Rightarrow> 'a \<times> 'i"
    and res :: "'i \<Rightarrow> 'a \<Rightarrow> 'v option"
    and inv :: "'i \<Rightarrow> bool"
    and fits :: "'i \<Rightarrow> bool"
  assumes int_inv: "inv i \<Longrightarrow> fits (snd (int v i)) \<Longrightarrow> inv (snd (int v i))"
    and int_res: "inv i \<Longrightarrow> fits (snd (int v i)) \<Longrightarrow> res (snd (int v i)) (fst (int v i)) = Some v"
    and int_stable: "res i a = Some w \<Longrightarrow> res (snd (int v i)) a = Some w"
    and res_inj: "inv i \<Longrightarrow> res i a = Some v \<Longrightarrow> res i b = Some v \<Longrightarrow> a = b"
    and int_fits: "fits (snd (int v i)) \<Longrightarrow> fits i"
begin

lemma int_all_fits: "fits (snd (map_st int vs i)) \<Longrightarrow> fits i"
proof (induction vs arbitrary: i)
  case (Cons v vs)
  have "fits (snd (int v i))"
    by (rule Cons.IH) (use Cons.prems in \<open>simp add: case_prod_beta Let_def\<close>)
  then show ?case by (rule int_fits)
qed simp

lemma int_all:
  assumes "inv i" and "map_st int vs i = (as, j)" and "fits j"
  shows "inv j \<and> map (res j) as = map Some vs \<and> (\<forall>a w. res i a = Some w \<longrightarrow> res j a = Some w)"
  using assms
proof (induction vs arbitrary: i as)
  case Nil
  then show ?case by simp
next
  case (Cons v vs)
  obtain a k where a: "int v i = (a, k)" by (cases "int v i")
  obtain bs where bs: "map_st int vs k = (bs, j)" "as = a # bs"
    using Cons.prems(2) a by (cases "map_st int vs k") auto
  have "fits k" using int_all_fits[of vs k] bs(1) Cons.prems(3) by simp
  then have k: "inv k" "res k a = Some v"
    using int_inv[OF Cons.prems(1), of v] int_res[OF Cons.prems(1), of v] a by simp_all
  have stable: "res i b = Some w \<Longrightarrow> res k b = Some w" for b w
    using int_stable[of i b w v] a by simp
  show ?case
    using Cons.IH[OF k(1) bs(1) Cons.prems(3)] k(2) stable bs(2) by auto
qed

lemma int_all_injective:
  assumes "inv i" and "map_st int vs i = (as, j)" and "fits j"
    and "m < length vs" and "n < length vs"
  shows "as ! m = as ! n \<longleftrightarrow> vs ! m = vs ! n"
proof -
  have all: "inv j" "map (res j) as = map Some vs" using int_all[OF assms(1-3)] by blast+
  have len: "length as = length vs" using all(2) by (metis length_map)
  have "res j (as ! k) = Some (vs ! k)" if "k < length vs" for k
    using all(2) that len by (metis nth_map)
  then show ?thesis using res_inj[OF all(1)] assms(4,5) by (metis option.inject)
qed

end

lemma interner_resolve_inj:
  "interner_inv it \<Longrightarrow> resolve it a = Some v \<Longrightarrow> resolve it b = Some v \<Longrightarrow> a = b"
  by (metis interner_ids_resolve option.inject)

interpretation silk: interner_iface intern resolve interner_inv interner_fits
  by unfold_locales
    (auto intro: intern_inv intern_resolves intern_stable interner_resolve_inj intern_fits)

text \<open>Interning any list of strings, as long as the table stays within the 32 bits of an atom,
  gives atoms that resolve to the strings they stand for; two of them are equal exactly when the
  strings are; and every atom handed out before still resolves to its string.\<close>

theorem intern_faithful:
  assumes "interner_inv it" and "map_st intern vs it = (as, it')"
    and "length (interned it') \<le> 2 ^ 32"
  shows "map (resolve it') as = map Some vs
    \<and> (\<forall>m n. m < length vs \<and> n < length vs \<longrightarrow> (as ! m = as ! n \<longleftrightarrow> vs ! m = vs ! n))
    \<and> (\<forall>a w. resolve it a = Some w \<longrightarrow> resolve it' a = Some w)"
proof -
  have fits: "interner_fits it'" using assms(3) by (simp add: interner_fits_def)
  show ?thesis
    using silk.int_all[OF assms(1,2) fits] silk.int_all_injective[OF assms(1,2) fits] by blast
qed

theorem intern_faithful_witness:
  "map (resolve (snd (map_st intern [''a'', ''b'', ''a''] interner_new)))
      [Atom 0, Atom 1, Atom 0] = map Some [''a'', ''b'', ''a'']"
proof -
  have run: "map_st intern [''a'', ''b'', ''a''] interner_new
      = ([Atom 0, Atom 1, Atom 0], snd (map_st intern [''a'', ''b'', ''a''] interner_new))"
    by (simp add: intern_def interner_new_def Let_def)
  have "length (interned (snd (map_st intern [''a'', ''b'', ''a''] interner_new))) \<le> 2 ^ 32"
    by (simp add: intern_def interner_new_def Let_def)
  then show ?thesis using intern_faithful[OF interner_inv_new run] by blast
qed

end
