(* ===== verification/Dom_Names.thy ===== *)
theory Dom_Names
  imports Interner
begin

text \<open>
  The names of \<open>silksurf-dom/src/lib.rs\<close>: \<open>Namespace\<close>, \<open>TagName\<close> and \<open>AttributeName\<close> with
  \<open>from_str\<close>, \<open>from_str_in\<close>, \<open>as_str\<close> and \<open>matches\<close>, the \<open>Attribute\<close> record, and the name test of a
  custom shadow host. The string tables of the two \<open>from_str\<close> matches are lists of pairs; the
  constructors keep the source's variant names behind \<open>Tag\<close> and \<open>Attr\<close>.
\<close>

section \<open>Namespaces and tag names\<close>

datatype namespace = NsHtml | NsSvg | NsMathMl | NsOther string

datatype tag_name =
    TagHtml | TagHead | TagBody | TagTitle | TagMeta | TagLink | TagScript | TagStyle
  | TagDiv | TagSpan | TagP | TagA | TagImg | TagCanvas | TagTable | TagThead
  | TagTbody | TagTfoot | TagTr | TagTh | TagTd | TagUl | TagOl | TagLi
  | TagForm | TagInput | TagButton | TagTextarea | TagSelect | TagOption | TagHeader | TagFooter
  | TagSection | TagArticle | TagNav | TagMain | TagH1 | TagH2 | TagH3 | TagH4
  | TagH5 | TagH6 | TagBr | TagHr | TagPre | TagCode | TagSmall | TagStrong
  | TagEm | TagB | TagI
  | TagCustom string

definition tag_table :: "(string \<times> tag_name) list" where
  "tag_table =
     [(''html'', TagHtml), (''head'', TagHead), (''body'', TagBody),
      (''title'', TagTitle), (''meta'', TagMeta), (''link'', TagLink),
      (''script'', TagScript), (''style'', TagStyle), (''div'', TagDiv),
      (''span'', TagSpan), (''p'', TagP), (''a'', TagA),
      (''img'', TagImg), (''canvas'', TagCanvas), (''table'', TagTable),
      (''thead'', TagThead), (''tbody'', TagTbody), (''tfoot'', TagTfoot),
      (''tr'', TagTr), (''th'', TagTh), (''td'', TagTd),
      (''ul'', TagUl), (''ol'', TagOl), (''li'', TagLi),
      (''form'', TagForm), (''input'', TagInput), (''button'', TagButton),
      (''textarea'', TagTextarea), (''select'', TagSelect), (''option'', TagOption),
      (''header'', TagHeader), (''footer'', TagFooter), (''section'', TagSection),
      (''article'', TagArticle), (''nav'', TagNav), (''main'', TagMain),
      (''h1'', TagH1), (''h2'', TagH2), (''h3'', TagH3),
      (''h4'', TagH4), (''h5'', TagH5), (''h6'', TagH6),
      (''br'', TagBr), (''hr'', TagHr), (''pre'', TagPre),
      (''code'', TagCode), (''small'', TagSmall), (''strong'', TagStrong),
      (''em'', TagEm), (''b'', TagB), (''i'', TagI)]"

definition tag_from_str :: "string \<Rightarrow> tag_name" where
  "tag_from_str name =
     (let lower = to_ascii_lowercase name in
      case map_of tag_table lower of Some t \<Rightarrow> t | None \<Rightarrow> TagCustom lower)"

fun tag_as_str :: "tag_name \<Rightarrow> string" where
  "tag_as_str TagHtml = ''html''"
| "tag_as_str TagHead = ''head''"
| "tag_as_str TagBody = ''body''"
| "tag_as_str TagTitle = ''title''"
| "tag_as_str TagMeta = ''meta''"
| "tag_as_str TagLink = ''link''"
| "tag_as_str TagScript = ''script''"
| "tag_as_str TagStyle = ''style''"
| "tag_as_str TagDiv = ''div''"
| "tag_as_str TagSpan = ''span''"
| "tag_as_str TagP = ''p''"
| "tag_as_str TagA = ''a''"
| "tag_as_str TagImg = ''img''"
| "tag_as_str TagCanvas = ''canvas''"
| "tag_as_str TagTable = ''table''"
| "tag_as_str TagThead = ''thead''"
| "tag_as_str TagTbody = ''tbody''"
| "tag_as_str TagTfoot = ''tfoot''"
| "tag_as_str TagTr = ''tr''"
| "tag_as_str TagTh = ''th''"
| "tag_as_str TagTd = ''td''"
| "tag_as_str TagUl = ''ul''"
| "tag_as_str TagOl = ''ol''"
| "tag_as_str TagLi = ''li''"
| "tag_as_str TagForm = ''form''"
| "tag_as_str TagInput = ''input''"
| "tag_as_str TagButton = ''button''"
| "tag_as_str TagTextarea = ''textarea''"
| "tag_as_str TagSelect = ''select''"
| "tag_as_str TagOption = ''option''"
| "tag_as_str TagHeader = ''header''"
| "tag_as_str TagFooter = ''footer''"
| "tag_as_str TagSection = ''section''"
| "tag_as_str TagArticle = ''article''"
| "tag_as_str TagNav = ''nav''"
| "tag_as_str TagMain = ''main''"
| "tag_as_str TagH1 = ''h1''"
| "tag_as_str TagH2 = ''h2''"
| "tag_as_str TagH3 = ''h3''"
| "tag_as_str TagH4 = ''h4''"
| "tag_as_str TagH5 = ''h5''"
| "tag_as_str TagH6 = ''h6''"
| "tag_as_str TagBr = ''br''"
| "tag_as_str TagHr = ''hr''"
| "tag_as_str TagPre = ''pre''"
| "tag_as_str TagCode = ''code''"
| "tag_as_str TagSmall = ''small''"
| "tag_as_str TagStrong = ''strong''"
| "tag_as_str TagEm = ''em''"
| "tag_as_str TagB = ''b''"
| "tag_as_str TagI = ''i''"
| "tag_as_str (TagCustom name) = name"

section \<open>Attribute names\<close>

datatype attribute_name =
    AttrId | AttrClass | AttrHref | AttrSrc | AttrType | AttrRel
  | AttrTitle | AttrName | AttrLang | AttrAlt | AttrStyle
  | AttrCustom string

definition attr_table :: "(string \<times> attribute_name) list" where
  "attr_table =
     [(''id'', AttrId), (''class'', AttrClass), (''href'', AttrHref),
      (''src'', AttrSrc), (''type'', AttrType), (''rel'', AttrRel),
      (''title'', AttrTitle), (''name'', AttrName), (''lang'', AttrLang),
      (''alt'', AttrAlt), (''style'', AttrStyle)]"

definition attr_from_str :: "string \<Rightarrow> attribute_name" where
  "attr_from_str name =
     (let lower = to_ascii_lowercase name in
      case map_of attr_table lower of Some a \<Rightarrow> a | None \<Rightarrow> AttrCustom lower)"

fun attr_is_custom :: "attribute_name \<Rightarrow> bool" where
  "attr_is_custom (AttrCustom _) = True"
| "attr_is_custom _ = False"

definition attr_from_str_in :: "string \<Rightarrow> namespace \<Rightarrow> attribute_name" where
  "attr_from_str_in name ns =
     (let known = attr_from_str name in
      if ns = NsHtml \<or> \<not> attr_is_custom known then known else AttrCustom name)"

fun attr_as_str :: "attribute_name \<Rightarrow> string" where
  "attr_as_str AttrId = ''id''"
| "attr_as_str AttrClass = ''class''"
| "attr_as_str AttrHref = ''href''"
| "attr_as_str AttrSrc = ''src''"
| "attr_as_str AttrType = ''type''"
| "attr_as_str AttrRel = ''rel''"
| "attr_as_str AttrTitle = ''title''"
| "attr_as_str AttrName = ''name''"
| "attr_as_str AttrLang = ''lang''"
| "attr_as_str AttrAlt = ''alt''"
| "attr_as_str AttrStyle = ''style''"
| "attr_as_str (AttrCustom name) = name"

definition attr_matches :: "attribute_name \<Rightarrow> string \<Rightarrow> bool" where
  "attr_matches a name = eq_ignore_ascii_case (attr_as_str a) name"

record attribute =
  attr_name :: attribute_name
  attr_value :: string
  value_atom :: "atom option"
  value_atoms :: "atom list"
  class_strings :: "string list"

section \<open>Shadow hosts\<close>

definition custom_element_name_character :: "nat \<Rightarrow> bool" where
  "custom_element_name_character c \<longleftrightarrow>
     c \<in> {45, 46, 95, 0xB7} \<or> 48 \<le> c \<and> c \<le> 57 \<or> 97 \<le> c \<and> c \<le> 122
   \<or> 0xC0 \<le> c \<and> c \<le> 0xD6 \<or> 0xD8 \<le> c \<and> c \<le> 0xF6 \<or> 0xF8 \<le> c \<and> c \<le> 0x37D
   \<or> 0x37F \<le> c \<and> c \<le> 0x1FFF \<or> 0x200C \<le> c \<and> c \<le> 0x200D \<or> 0x203F \<le> c \<and> c \<le> 0x2040
   \<or> 0x2070 \<le> c \<and> c \<le> 0x218F \<or> 0x2C00 \<le> c \<and> c \<le> 0x2FEF \<or> 0x3001 \<le> c \<and> c \<le> 0xD7FF
   \<or> 0xF900 \<le> c \<and> c \<le> 0xFDCF \<or> 0xFDF0 \<le> c \<and> c \<le> 0xFFFD \<or> 0x10000 \<le> c \<and> c \<le> 0xEFFFF"

definition reserved_custom_names :: "string list" where
  "reserved_custom_names =
     [''annotation-xml'', ''color-profile'', ''font-face'', ''font-face-src'',
      ''font-face-uri'', ''font-face-format'', ''font-face-name'', ''missing-glyph'']"

definition valid_custom_shadow_host :: "string \<Rightarrow> bool" where
  "valid_custom_shadow_host name \<longleftrightarrow>
     CHR ''-'' \<in> set name
   \<and> (case name of [] \<Rightarrow> False | c # _ \<Rightarrow> ascii_lower c)
   \<and> list_all custom_element_name_character (str_chars name)
   \<and> name \<notin> set reserved_custom_names"

definition builtin_shadow_hosts :: "string list" where
  "builtin_shadow_hosts =
     [''article'', ''aside'', ''blockquote'', ''body'', ''div'', ''footer'', ''h1'', ''h2'',
      ''h3'', ''h4'', ''h5'', ''h6'', ''header'', ''main'', ''nav'', ''p'', ''section'', ''span'']"

section \<open>Names survive the tables\<close>

lemma tag_table_as_str: "map_of tag_table s = Some t \<Longrightarrow> tag_as_str t = s"
proof -
  have "list_all (\<lambda>(s, t). tag_as_str t = s) tag_table" by (simp add: tag_table_def)
  then show "map_of tag_table s = Some t \<Longrightarrow> tag_as_str t = s"
    by (auto simp: list_all_iff dest!: map_of_SomeD)
qed

lemma attr_table_as_str: "map_of attr_table s = Some a \<Longrightarrow> attr_as_str a = s"
proof -
  have "list_all (\<lambda>(s, a). attr_as_str a = s) attr_table" by (simp add: attr_table_def)
  then show "map_of attr_table s = Some a \<Longrightarrow> attr_as_str a = s"
    by (auto simp: list_all_iff dest!: map_of_SomeD)
qed

lemma tag_as_from [simp]: "tag_as_str (tag_from_str s) = to_ascii_lowercase s"
  by (simp add: tag_from_str_def Let_def tag_table_as_str split: option.split)

lemma attr_as_from [simp]: "attr_as_str (attr_from_str s) = to_ascii_lowercase s"
  by (simp add: attr_from_str_def Let_def attr_table_as_str split: option.split)

text \<open>A tag name is canonical when it is not a custom spelling of a known name.\<close>

definition tag_canonical :: "tag_name \<Rightarrow> bool" where
  "tag_canonical t \<longleftrightarrow> tag_from_str (tag_as_str t) = t"

lemma tag_from_str_canonical [simp]: "tag_canonical (tag_from_str s)"
  by (simp add: tag_canonical_def) (simp add: tag_from_str_def)

lemma attr_from_idem [simp]: "attr_from_str (attr_as_str (attr_from_str s)) = attr_from_str s"
  by (simp) (simp add: attr_from_str_def)

lemma attr_known_in_table:
  "\<not> attr_is_custom (attr_from_str s) \<Longrightarrow>
    map_of attr_table (to_ascii_lowercase s) = Some (attr_from_str s)"
  by (auto simp: attr_from_str_def Let_def split: option.splits)

lemma attr_from_str_in_as_str:
  "attr_as_str (attr_from_str_in s ns) =
     (if ns = NsHtml \<or> \<not> attr_is_custom (attr_from_str s) then to_ascii_lowercase s else s)"
  by (simp add: attr_from_str_in_def Let_def)

text \<open>Reading a name back in the same namespace gives the same attribute: what \<open>import_subtree\<close>
  relies on when it copies attributes through their strings.\<close>

lemma attr_from_str_in_idem [simp]:
  "attr_from_str_in (attr_as_str (attr_from_str_in s ns)) ns = attr_from_str_in s ns"
proof (cases "ns = NsHtml \<or> \<not> attr_is_custom (attr_from_str s)")
  case True
  then have "attr_from_str_in s ns = attr_from_str s" by (simp add: attr_from_str_in_def Let_def)
  then show ?thesis using True by (simp add: attr_from_str_in_def) (simp add: attr_from_str_def)
next
  case False
  then show ?thesis by (simp add: attr_from_str_in_def Let_def)
qed

lemma attr_from_str_in_html [simp]: "attr_from_str_in s NsHtml = attr_from_str s"
  by (simp add: attr_from_str_in_def)

end
