(* ===== verification/Dom_State.thy ===== *)
theory Dom_State
  imports Dom_Names
begin

text \<open>
  The state of the DOM arena of \<open>silksurf-dom/src/lib.rs\<close> and the parts of it that are not the
  tree: nodes and their kinds, the mutation log of \<open>mutation.rs\<close> with the two filters of
  \<open>queue_mutation\<close>, dirty tracking, mutation batches and the three generation counters, and the
  accessors. A \<open>NodeId\<close> is its index. The interner's \<open>RwLock\<close> is not modelled: one thread
  mutates the tree, so a locked access is a plain one.
\<close>

section \<open>Nodes\<close>

type_synonym node_id = nat

datatype node_kind =
    Document
  | DocumentFragment
  | Doctype "string option" "string option" "string option"
  | Element tag_name "string option" namespace "attribute list"
  | Text string
  | Comment string

record node =
  kind :: node_kind
  node_parent :: "node_id option"
  node_children :: "node_id list"

definition node_new :: "node_kind \<Rightarrow> node" where
  "node_new k = \<lparr>kind = k, node_parent = None, node_children = []\<rparr>"

datatype dom_error =
    UnknownNode node_id
  | AlreadyHasParent node_id
  | NotElement node_id
  | NotText node_id
  | NotChild node_id
  | HierarchyRequest node_id

text \<open>
  The outcome of an operation that does not return normally: an error value of the source, or
  no return at all. The source walks parent links with \<open>while let\<close>; on a cyclic arena such a
  walk would not end. That it always ends is a theorem, not part of the model.
\<close>

datatype dom_fault = Error dom_error | Diverges

section \<open>The mutation log\<close>

datatype mutation_kind =
    ChildListRecord (rec_added: "node_id list") (rec_removed: "node_id list")
      (rec_previous: "node_id option") (rec_next: "node_id option")
  | AttributesRecord string "string option"
  | CharacterDataRecord string

record mutation_record =
  target :: node_id
  change :: mutation_kind

record mutation_log =
  recording :: bool
  records :: "mutation_record list"
  added_nodes :: "node_id set"

definition mutation_log_default :: mutation_log where
  "mutation_log_default = \<lparr>recording = False, records = [], added_nodes = {}\<rparr>"

definition log_set_recording :: "bool \<Rightarrow> mutation_log \<Rightarrow> mutation_log" where
  "log_set_recording on l =
     (let l = l\<lparr>recording := on\<rparr> in
      if \<not> on then l\<lparr>records := [], added_nodes := {}\<rparr> else l)"

definition log_pending :: "mutation_log \<Rightarrow> nat" where
  "log_pending l = length (records l)"

definition log_take :: "mutation_log \<Rightarrow> mutation_record list \<times> mutation_log" where
  "log_take l = (records l, l\<lparr>added_nodes := {}, records := []\<rparr>)"

definition log_was_added :: "mutation_log \<Rightarrow> node_id \<Rightarrow> bool" where
  "log_was_added l i \<longleftrightarrow> i \<in> added_nodes l"

definition log_absorb :: "mutation_kind \<Rightarrow> mutation_log \<Rightarrow> mutation_log" where
  "log_absorb k l =
     (case k of
        ChildListRecord added _ _ _ \<Rightarrow> l\<lparr>added_nodes := added_nodes l \<union> set added\<rparr>
      | _ \<Rightarrow> l)"

definition log_push :: "mutation_record \<Rightarrow> mutation_log \<Rightarrow> mutation_log" where
  "log_push r l = (let l = log_absorb (change r) l in l\<lparr>records := records l @ [r]\<rparr>)"

section \<open>The arena\<close>

record checked_state =
  is_checked :: bool
  is_dirty :: bool

record dom =
  nodes :: "node list"
  interner :: silk_interner
  resolve_table :: "string list"
  dirty_nodes :: "node_id list"
  dirty_batch :: "node_id list"
  batch_depth :: nat
  generation :: u64
  structure_generation :: u64
  style_generation :: u64
  pending_structure_change :: bool
  pending_style_change :: bool
  mutations :: mutation_log
  document_root :: "node_id option"
  template_contents :: "node_id \<Rightarrow> node_id option"
  template_hosts :: "node_id \<Rightarrow> node_id option"
  checked_states :: "node_id \<Rightarrow> checked_state option"
  shadow_roots :: "node_id \<Rightarrow> node_id option"
  shadow_hosts :: "node_id \<Rightarrow> (node_id \<times> bool) option"

text \<open>\<open>Dom::new\<close>: \<open>instance\<close> is the value the global counter returns. The canvas surfaces are not
  part of the model; no operation modelled here reads or writes them.\<close>

definition dom_new :: "u32 \<Rightarrow> dom" where
  "dom_new inst =
     (let g = push_bit 32 (ucast inst :: u64) in
      \<lparr>nodes = [], interner = interner_new, resolve_table = [], dirty_nodes = [],
       dirty_batch = [], batch_depth = 0, generation = g, structure_generation = g,
       style_generation = g, pending_structure_change = False, pending_style_change = False,
       mutations = mutation_log_default, document_root = None, template_contents = Map.empty,
       template_hosts = Map.empty, checked_states = Map.empty, shadow_roots = Map.empty,
       shadow_hosts = Map.empty\<rparr>)"

type_synonym 'a dom_op = "(dom, dom_fault, 'a) sm"

section \<open>Generations and dirty nodes\<close>

definition commit_pending_generations :: "dom \<Rightarrow> dom" where
  "commit_pending_generations d =
     d\<lparr>structure_generation :=
         (if pending_structure_change d then structure_generation d + 1
          else structure_generation d),
       style_generation :=
         (if pending_style_change d then style_generation d + 1 else style_generation d),
       pending_structure_change := False,
       pending_style_change := False\<rparr>"

definition commit_unbatched_generations :: "dom \<Rightarrow> dom" where
  "commit_unbatched_generations d =
     (if batch_depth d = 0 then
        (let d = commit_pending_generations d in d\<lparr>generation := generation d + 1\<rparr>)
      else d)"

definition record_structure_change :: "dom \<Rightarrow> dom" where
  "record_structure_change d =
     commit_unbatched_generations
       (d\<lparr>pending_structure_change := True, pending_style_change := True\<rparr>)"

definition record_style_change :: "dom \<Rightarrow> dom" where
  "record_style_change d = commit_unbatched_generations (d\<lparr>pending_style_change := True\<rparr>)"

definition record_text_change :: "dom \<Rightarrow> dom" where
  "record_text_change d = commit_unbatched_generations d"

definition mark_dirty :: "node_id \<Rightarrow> dom \<Rightarrow> dom" where
  "mark_dirty i d =
     (if batch_depth d > 0 then d\<lparr>dirty_batch := dirty_batch d @ [i]\<rparr>
      else d\<lparr>dirty_nodes := dirty_nodes d @ [i]\<rparr>)"

text \<open>\<open>sort_unstable_by_key\<close> on plain indices, then \<open>dedup_by_key\<close> of equal neighbours.\<close>

definition flush_dirty_batch :: "dom \<Rightarrow> dom" where
  "flush_dirty_batch d =
     (if dirty_batch d = [] then d
      else d\<lparr>dirty_nodes := remdups_adj (sort (dirty_nodes d @ dirty_batch d)),
             dirty_batch := []\<rparr>)"

definition take_dirty_nodes :: "dom \<Rightarrow> node_id list \<times> dom" where
  "take_dirty_nodes d =
     (let d = (if batch_depth d = 0 then flush_dirty_batch d else d)
      in (dirty_nodes d, d\<lparr>dirty_nodes := []\<rparr>))"

definition materialize_resolve_table :: "dom \<Rightarrow> dom" where
  "materialize_resolve_table d =
     (let vs = interned (interner d);
          d = (if length vs > length (resolve_table d)
               then d\<lparr>resolve_table := resolve_table d @ drop (length (resolve_table d)) vs\<rparr>
               else d);
          d = commit_pending_generations d
      in d\<lparr>generation := generation d + 1\<rparr>)"

definition begin_mutation_batch :: "dom \<Rightarrow> dom" where
  "begin_mutation_batch d = d\<lparr>batch_depth := batch_depth d + 1\<rparr>"

definition end_mutation_batch :: "dom \<Rightarrow> dom" where
  "end_mutation_batch d =
     (if batch_depth d = 0 then d
      else
        (let d = d\<lparr>batch_depth := batch_depth d - 1\<rparr> in
         if batch_depth d = 0 then
           (let d = materialize_resolve_table (flush_dirty_batch d)
            in d\<lparr>generation := generation d + 1\<rparr>)
         else d))"

definition with_mutation_batch :: "(dom \<Rightarrow> 'r \<times> dom) \<Rightarrow> dom \<Rightarrow> 'r \<times> dom" where
  "with_mutation_batch f d =
     (let (r, d) = f (begin_mutation_batch d) in (r, end_mutation_batch d))"

section \<open>Interning\<close>

definition dom_intern :: "string \<Rightarrow> dom \<Rightarrow> atom \<times> dom" where
  "dom_intern v d = (let (a, it) = intern v (interner d) in (a, d\<lparr>interner := it\<rparr>))"

definition dom_resolve :: "dom \<Rightarrow> atom \<Rightarrow> string option" where
  "dom_resolve d a = resolve (interner d) a"

text \<open>\<open>None\<close> is the index panic of an atom newer than the table.\<close>

definition resolve_fast :: "dom \<Rightarrow> atom \<Rightarrow> string option" where
  "resolve_fast d a =
     (if unat (raw a) < length (resolve_table d) then Some (resolve_table d ! unat (raw a))
      else None)"

section \<open>Accessors\<close>

definition node_index :: "dom \<Rightarrow> node_id \<Rightarrow> dom_fault + nat" where
  "node_index d i = (if i < length (nodes d) then Inr i else Inl (Error (UnknownNode i)))"

definition node_at :: "dom \<Rightarrow> node_id \<Rightarrow> dom_fault + node" where
  "node_at d i = res_bind (node_index d i) (\<lambda>k. Inr (nodes d ! k))"

definition children :: "dom \<Rightarrow> node_id \<Rightarrow> dom_fault + node_id list" where
  "children d i = res_bind (node_index d i) (\<lambda>k. Inr (node_children (nodes d ! k)))"

definition parent :: "dom \<Rightarrow> node_id \<Rightarrow> dom_fault + node_id option" where
  "parent d i = res_bind (node_index d i) (\<lambda>k. Inr (node_parent (nodes d ! k)))"

definition first_opt :: "'a list \<Rightarrow> 'a option" where
  "first_opt xs = (case xs of [] \<Rightarrow> None | x # _ \<Rightarrow> Some x)"

definition last_opt :: "'a list \<Rightarrow> 'a option" where
  "last_opt xs = (if xs = [] then None else Some (last xs))"

definition get_opt :: "'a list \<Rightarrow> nat \<Rightarrow> 'a option" where
  "get_opt xs i = (if i < length xs then Some (xs ! i) else None)"

text \<open>\<open>checked_sub(1)\<close> followed by \<open>get\<close>: the element before an index.\<close>

definition before_opt :: "'a list \<Rightarrow> nat \<Rightarrow> 'a option" where
  "before_opt xs i = (if i = 0 then None else get_opt xs (i - 1))"

definition first_child :: "dom \<Rightarrow> node_id \<Rightarrow> dom_fault + node_id option" where
  "first_child d i = res_bind (node_index d i) (\<lambda>k. Inr (first_opt (node_children (nodes d ! k))))"

definition last_child :: "dom \<Rightarrow> node_id \<Rightarrow> dom_fault + node_id option" where
  "last_child d i = res_bind (node_index d i) (\<lambda>k. Inr (last_opt (node_children (nodes d ! k))))"

definition next_sibling :: "dom \<Rightarrow> node_id \<Rightarrow> dom_fault + node_id option" where
  "next_sibling d i =
     res_bind (parent d i) (\<lambda>p. case p of
        None \<Rightarrow> Inr None
      | Some p \<Rightarrow> res_bind (children d p) (\<lambda>siblings.
          Inr (case position (\<lambda>s. s = i) siblings of
                 None \<Rightarrow> None
               | Some idx \<Rightarrow> get_opt siblings (idx + 1))))"

definition previous_sibling :: "dom \<Rightarrow> node_id \<Rightarrow> dom_fault + node_id option" where
  "previous_sibling d i =
     res_bind (parent d i) (\<lambda>p. case p of
        None \<Rightarrow> Inr None
      | Some p \<Rightarrow> res_bind (children d p) (\<lambda>siblings.
          Inr (case position (\<lambda>s. s = i) siblings of
                 None \<Rightarrow> None
               | Some idx \<Rightarrow> before_opt siblings idx)))"

definition element_name :: "dom \<Rightarrow> node_id \<Rightarrow> dom_fault + string option" where
  "element_name d i = res_bind (node_index d i) (\<lambda>k.
     Inr (case kind (nodes d ! k) of Element name _ _ _ \<Rightarrow> Some (tag_as_str name) | _ \<Rightarrow> None))"

definition element_prefix :: "dom \<Rightarrow> node_id \<Rightarrow> dom_fault + string option" where
  "element_prefix d i = res_bind (node_index d i) (\<lambda>k.
     Inr (case kind (nodes d ! k) of Element _ pfx _ _ \<Rightarrow> pfx | _ \<Rightarrow> None))"

definition element_namespace :: "dom \<Rightarrow> node_id \<Rightarrow> namespace" where
  "element_namespace d i =
     (case node_index d i of
        Inl _ \<Rightarrow> NsHtml
      | Inr k \<Rightarrow> (case kind (nodes d ! k) of Element _ _ ns _ \<Rightarrow> ns | _ \<Rightarrow> NsHtml))"

definition attributes :: "dom \<Rightarrow> node_id \<Rightarrow> dom_fault + attribute list" where
  "attributes d i = res_bind (node_index d i) (\<lambda>k.
     case kind (nodes d ! k) of
       Element _ _ _ attrs \<Rightarrow> Inr attrs
     | _ \<Rightarrow> Inl (Error (NotElement i)))"

definition child_elements :: "dom \<Rightarrow> node_id \<Rightarrow> dom_fault + node_id list" where
  "child_elements d i = res_bind (children d i) (\<lambda>cs.
     Inr (filter (\<lambda>c. case element_name d c of Inr (Some _) \<Rightarrow> True | _ \<Rightarrow> False) cs))"

definition node_count :: "dom \<Rightarrow> nat" where
  "node_count d = length (nodes d)"

definition shadow_host :: "dom \<Rightarrow> node_id \<Rightarrow> (node_id \<times> bool) option" where
  "shadow_host d root = shadow_hosts d root"

section \<open>Connectedness and the record queue\<close>

definition MAX_CONNECTED_WALK :: nat where "MAX_CONNECTED_WALK = 1024"

definition connected_up :: "dom \<Rightarrow> node_id \<Rightarrow> node_id option" where
  "connected_up d i =
     (case (if i < length (nodes d) then node_parent (nodes d ! i) else None) of
        Some p \<Rightarrow> Some p
      | None \<Rightarrow> map_option fst (shadow_host d i))"

fun connected_walk :: "nat \<Rightarrow> dom \<Rightarrow> node_id \<Rightarrow> node_id \<Rightarrow> bool" where
  "connected_walk 0 d root current = False"
| "connected_walk (Suc n) d root current =
     (if current = root then True
      else (case connected_up d current of
              Some p \<Rightarrow> connected_walk n d root p
            | None \<Rightarrow> False))"

definition is_connected :: "dom \<Rightarrow> node_id \<Rightarrow> bool" where
  "is_connected d i =
     (case document_root d of
        None \<Rightarrow> False
      | Some root \<Rightarrow> connected_walk MAX_CONNECTED_WALK d root i)"

definition queue_mutation :: "node_id \<Rightarrow> mutation_kind \<Rightarrow> dom \<Rightarrow> dom" where
  "queue_mutation t k d =
     (if \<not> recording (mutations d) \<or> \<not> is_connected d t then d
      else if log_was_added (mutations d) t then d\<lparr>mutations := log_absorb k (mutations d)\<rparr>
      else d\<lparr>mutations := log_push \<lparr>target = t, change = k\<rparr> (mutations d)\<rparr>)"

definition set_mutation_recording :: "bool \<Rightarrow> dom \<Rightarrow> dom" where
  "set_mutation_recording on d = d\<lparr>mutations := log_set_recording on (mutations d)\<rparr>"

definition pending_mutation_records :: "dom \<Rightarrow> nat" where
  "pending_mutation_records d = log_pending (mutations d)"

definition take_mutation_records :: "dom \<Rightarrow> mutation_record list \<times> dom" where
  "take_mutation_records d =
     (let (rs, l) = log_take (mutations d) in (rs, d\<lparr>mutations := l\<rparr>))"

end
