(* ===== verification/Shell_State.thy ===== *)
theory Shell_State
  imports Rust_Chars Dom_State
begin

text \<open>
  The state of the browser shell (\<open>crates/silksurf-app/src/browser_types.rs\<close>): the frame on
  screen, the page behind it, the address bar, the session history and what of the window has to be
  painted again (\<open>redraw_geometry.rs\<close>, \<open>window_frame.rs\<close>, \<open>argb_raster.rs\<close>). Coordinates are \<open>f32\<close>
  values; their operations are parameters.
\<close>

section \<open>Redraw modes\<close>

record 'f rect =
  rect_x :: 'f
  rect_y :: 'f
  rect_width :: 'f
  rect_height :: 'f

text \<open>What \<open>union_rect\<close> asks of \<open>f32\<close>.\<close>

record 'f rect_ops =
  f_not_positive :: "'f \<Rightarrow> bool"
  f_min :: "'f \<Rightarrow> 'f \<Rightarrow> 'f"
  f_max :: "'f \<Rightarrow> 'f \<Rightarrow> 'f"
  f_add :: "'f \<Rightarrow> 'f \<Rightarrow> 'f"
  f_sub :: "'f \<Rightarrow> 'f \<Rightarrow> 'f"

definition union_rect :: "'f rect_ops \<Rightarrow> 'f rect \<Rightarrow> 'f rect \<Rightarrow> 'f rect" where
  "union_rect F a b =
     (if f_not_positive F (rect_width a) \<or> f_not_positive F (rect_height a) then b
      else if f_not_positive F (rect_width b) \<or> f_not_positive F (rect_height b) then a
      else
        (let x0 = f_min F (rect_x a) (rect_x b);
             y0 = f_min F (rect_y a) (rect_y b);
             x1 = f_max F (f_add F (rect_x a) (rect_width a)) (f_add F (rect_x b) (rect_width b));
             y1 = f_max F (f_add F (rect_y a) (rect_height a)) (f_add F (rect_y b) (rect_height b))
         in \<lparr>rect_x = x0, rect_y = y0, rect_width = f_sub F x1 x0, rect_height = f_sub F y1 y0\<rparr>))"

datatype 'f redraw_mode =
    Clean
  | Full
  | Scroll
  | Damage "'f rect"
  | PageInputFocus "'f rect"
  | DamageWithChrome "'f rect"
  | AddressFocusChrome
  | AddressFullTextChrome
  | AddressChrome
  | AddressTextChrome
  | NavigationStartChrome
  | StatusChrome
  | Chrome

text \<open>The rectangle of a mode that paints page content alone, and the modes that paint the chrome alone.\<close>

fun page_damage :: "'f redraw_mode \<Rightarrow> 'f rect option" where
  "page_damage (Damage r) = Some r"
| "page_damage (PageInputFocus r) = Some r"
| "page_damage _ = None"

fun chrome_damage :: "'f redraw_mode \<Rightarrow> 'f rect option" where
  "chrome_damage (DamageWithChrome r) = Some r"
| "chrome_damage _ = None"

definition chrome_only :: "'f redraw_mode \<Rightarrow> bool" where
  "chrome_only m \<longleftrightarrow>
     m \<in> {Chrome, AddressChrome, AddressFocusChrome, AddressFullTextChrome, AddressTextChrome,
          NavigationStartChrome, StatusChrome}"

text \<open>
  The arms of \<open>combine_redraw_mode\<close> for two modes of the chrome, in their order.
\<close>

definition combine_chrome :: "'f redraw_mode \<Rightarrow> 'f redraw_mode \<Rightarrow> 'f redraw_mode" where
  "combine_chrome current next' =
     (let either = (\<lambda>m. current = m \<or> next' = m);
          both_in = (\<lambda>M. current \<in> M \<and> next' \<in> M);
          texts = {AddressFullTextChrome, AddressTextChrome}
      in if either Chrome then Chrome
         else if either AddressChrome \<and>
                 both_in ({AddressChrome, AddressFocusChrome} \<union> texts) then AddressChrome
         else if (current = AddressFocusChrome \<and> next' \<in> texts)
                 \<or> (current \<in> texts \<and> next' = AddressFocusChrome) then AddressFullTextChrome
         else if current = NavigationStartChrome \<and> next' = NavigationStartChrome
           then NavigationStartChrome
         else if current = StatusChrome \<and> next' = StatusChrome then StatusChrome
         else if either StatusChrome then Chrome
         else if either NavigationStartChrome then Chrome
         else if current = AddressFocusChrome \<and> next' = AddressFocusChrome then AddressFocusChrome
         else if both_in texts \<and> either AddressFullTextChrome then AddressFullTextChrome
         else AddressTextChrome)"

definition combine_redraw_mode ::
    "'f rect_ops \<Rightarrow> 'f redraw_mode \<Rightarrow> 'f redraw_mode \<Rightarrow> 'f redraw_mode" where
  "combine_redraw_mode F current next' =
     (if current = Clean then next'
      else if next' = Clean then current
      else if current = Scroll then next'
      else if next' = Scroll then current
      else if current = Full \<or> next' = Full then Full
      else
        (case (page_damage current, page_damage next', chrome_damage current, chrome_damage next') of
           (Some a, Some b, _, _) \<Rightarrow> Damage (union_rect F a b)
         | (_, Some b, Some a, _) \<Rightarrow> DamageWithChrome (union_rect F a b)
         | (_, _, Some a, Some b) \<Rightarrow> DamageWithChrome (union_rect F a b)
         | (Some a, _, _, Some b) \<Rightarrow> DamageWithChrome (union_rect F a b)
         | (Some a, _, _, _) \<Rightarrow> DamageWithChrome a
         | (_, Some b, _, _) \<Rightarrow> DamageWithChrome b
         | (_, _, Some a, _) \<Rightarrow> DamageWithChrome a
         | (_, _, _, Some b) \<Rightarrow> DamageWithChrome b
         | (None, None, None, None) \<Rightarrow> combine_chrome current next'))"

section \<open>What a mode paints\<close>

text \<open>The draw calls of \<open>draw_browser_window_chrome\<close>; a seeded buffer holds no earlier frame.\<close>

datatype chrome_draw =
    DrawOverlays | DrawNavigationStart | DrawStatus | DrawAddress | DrawAddressFocus
  | DrawAddressFullText | DrawAddressText

fun draw_browser_window_chrome :: "bool \<Rightarrow> 'f redraw_mode \<Rightarrow> chrome_draw option" where
  "draw_browser_window_chrome seed Clean = None"
| "draw_browser_window_chrome seed Scroll = None"
| "draw_browser_window_chrome False AddressFocusChrome = Some DrawAddressFocus"
| "draw_browser_window_chrome False AddressFullTextChrome = Some DrawAddressFullText"
| "draw_browser_window_chrome False AddressChrome = Some DrawAddress"
| "draw_browser_window_chrome False AddressTextChrome = Some DrawAddressText"
| "draw_browser_window_chrome False NavigationStartChrome = Some DrawNavigationStart"
| "draw_browser_window_chrome False StatusChrome = Some DrawStatus"
| "draw_browser_window_chrome False (Damage r) = None"
| "draw_browser_window_chrome False (PageInputFocus r) = None"
| "draw_browser_window_chrome seed mode = Some DrawOverlays"

datatype chrome_action = Back | Forward | Home | Reload | Stop

text \<open>
  The parts of the chrome: the buttons, the status line and, of the address bar, its border, its text, the
  rest of the strip the text stands in, and the caret.
\<close>

datatype chrome_part =
  ButtonPart chrome_action | StatusPart | AddressBorder | AddressTyped | AddressRest | AddressCaret

fun chrome_draws :: "chrome_draw \<Rightarrow> chrome_part set" where
  "chrome_draws DrawOverlays = UNIV"
| "chrome_draws DrawNavigationStart = {ButtonPart Reload, ButtonPart Stop, StatusPart}"
| "chrome_draws DrawStatus = {StatusPart}"
| "chrome_draws DrawAddress = {AddressBorder, AddressTyped, AddressRest, AddressCaret}"
| "chrome_draws DrawAddressFocus = {AddressBorder, AddressCaret}"
| "chrome_draws DrawAddressFullText = {AddressTyped, AddressRest, AddressCaret}"
| "chrome_draws DrawAddressText = {AddressTyped, AddressCaret}"

definition chrome_parts :: "'f redraw_mode \<Rightarrow> chrome_part set" where
  "chrome_parts m = (case draw_browser_window_chrome False m of None \<Rightarrow> {} | Some c \<Rightarrow> chrome_draws c)"

text \<open>The page content a mode stands for: none, a rectangle, or all of it.\<close>

datatype 'f content = NoContent | RectContent "'f rect" | AllContent

definition mode_content :: "'f redraw_mode \<Rightarrow> 'f content" where
  "mode_content m = (case (m, page_damage m, chrome_damage m) of
     (Full, _, _) \<Rightarrow> AllContent
   | (_, Some r, _) \<Rightarrow> RectContent r
   | (_, _, Some r) \<Rightarrow> RectContent r
   | _ \<Rightarrow> NoContent)"

fun content_join :: "'f rect_ops \<Rightarrow> 'f content \<Rightarrow> 'f content \<Rightarrow> 'f content" where
  "content_join F NoContent c = c"
| "content_join F c NoContent = c"
| "content_join F AllContent c = AllContent"
| "content_join F c AllContent = AllContent"
| "content_join F (RectContent a) (RectContent b) = RectContent (union_rect F a b)"

definition focus_and_text :: "'f redraw_mode \<Rightarrow> 'f redraw_mode \<Rightarrow> bool" where
  "focus_and_text a b \<longleftrightarrow> a = AddressFocusChrome \<and> b \<in> {AddressFullTextChrome, AddressTextChrome}"

lemma content_combine: "mode_content (combine_redraw_mode F a b) = content_join F (mode_content a) (mode_content b)"
  by (cases a; cases b) (simp_all add: combine_redraw_mode_def combine_chrome_def mode_content_def)

lemma parts_combine:
  assumes "\<not> focus_and_text a b" "\<not> focus_and_text b a"
  shows "chrome_parts a \<union> chrome_parts b \<subseteq> chrome_parts (combine_redraw_mode F a b)"
  using assms
  by (cases a; cases b)
    (simp_all add: combine_redraw_mode_def combine_chrome_def chrome_parts_def focus_and_text_def)

text \<open>C36:
  Merging two redraws loses nothing: the merged mode stands for exactly the joined page content of both and
  paints every part of the chrome either of them paints, unless one is the focus of the address bar and the other
  its text.
\<close>

theorem merged_redraw_covers:
  assumes "\<not> focus_and_text a b" "\<not> focus_and_text b a"
  shows "mode_content (combine_redraw_mode F a b) = content_join F (mode_content a) (mode_content b)
    \<and> chrome_parts a \<union> chrome_parts b \<subseteq> chrome_parts (combine_redraw_mode F a b)"
  using content_combine parts_combine [OF assms] by blast

theorem merged_redraw_covers_witness:
  "mode_content (combine_redraw_mode \<lparr>f_not_positive = (\<lambda>x. x \<le> 0), f_min = min, f_max = max, f_add = (+), f_sub = (-)\<rparr>
       (StatusChrome :: int redraw_mode) AddressTextChrome) = NoContent
   \<and> {StatusPart, AddressTyped} \<subseteq> chrome_parts (combine_redraw_mode
       \<lparr>f_not_positive = (\<lambda>x. x \<le> 0), f_min = min, f_max = max, f_add = (+), f_sub = (-)\<rparr>
       (StatusChrome :: int redraw_mode) AddressTextChrome)"
  using merged_redraw_covers [of "StatusChrome :: int redraw_mode" AddressTextChrome
      "\<lparr>f_not_positive = (\<lambda>x. x \<le> 0), f_min = min, f_max = max, f_add = (+), f_sub = (-)\<rparr>"]
  by (simp add: focus_and_text_def mode_content_def chrome_parts_def)

text \<open>The exception: the border of a focused address bar is not painted when typing follows at once.\<close>

lemma focus_border_lost:
  "AddressBorder \<in> chrome_parts AddressFocusChrome
   \<and> AddressBorder \<notin> chrome_parts (combine_redraw_mode F AddressFocusChrome AddressTextChrome)"
  by (simp add: combine_redraw_mode_def combine_chrome_def chrome_parts_def)

section \<open>Damage on the surface\<close>

text \<open>Rectangles in native coordinates (\<open>crates/silksurf-gui/src/winit_backend.rs\<close>).\<close>

record surface_rect =
  dr_x :: u32
  dr_y :: u32
  dr_width :: u32
  dr_height :: u32

definition MAX_PRESENT_DAMAGE_RECTS :: nat where "MAX_PRESENT_DAMAGE_RECTS = 5"

definition damage_rects_push :: "surface_rect list \<Rightarrow> surface_rect \<Rightarrow> surface_rect list" where
  "damage_rects_push rs r =
     (if dr_width r = 0 \<or> dr_height r = 0 \<or> MAX_PRESENT_DAMAGE_RECTS \<le> length rs then rs else rs @ [r])"

datatype present_damage =
    PresentClean
  | PresentFull
  | PresentRect surface_rect
  | PresentRects "surface_rect list"

definition present_rects :: "surface_rect list \<Rightarrow> present_damage" where
  "present_rects rs =
     (case foldl damage_rects_push [] rs of
        [] \<Rightarrow> PresentClean
      | [r] \<Rightarrow> PresentRect r
      | rs' \<Rightarrow> PresentRects rs')"

definition NAV_BUTTON_Y :: u32 where "NAV_BUTTON_Y = 8"
definition NAV_BUTTON_WIDTH :: u32 where "NAV_BUTTON_WIDTH = 14"
definition NAV_BUTTON_HEIGHT :: u32 where "NAV_BUTTON_HEIGHT = 28"
definition RELOAD_BUTTON_X :: u32 where "RELOAD_BUTTON_X = 68"
definition STOP_BUTTON_X :: u32 where "STOP_BUTTON_X = 88"
definition ADDRESS_BAR_X :: u32 where "ADDRESS_BAR_X = 108"

definition zero_damage_rect :: surface_rect where
  "zero_damage_rect = \<lparr>dr_x = 0, dr_y = 0, dr_width = 0, dr_height = 0\<rparr>"

definition navigation_button_present_damage_rect :: "u32 \<Rightarrow> u32 \<Rightarrow> u32 \<Rightarrow> surface_rect" where
  "navigation_button_present_damage_rect x window_width window_height =
     \<lparr>dr_x = x, dr_y = NAV_BUTTON_Y,
      dr_width = min (saturating_sub window_width x) NAV_BUTTON_WIDTH,
      dr_height = min (saturating_sub window_height NAV_BUTTON_Y) NAV_BUTTON_HEIGHT\<rparr>"

definition browser_status_rect :: "u32 \<Rightarrow> u32 \<Rightarrow> (u32 \<times> u32 \<times> u32 \<times> u32) option" where
  "browser_status_rect window_width window_height =
     (if window_width = 0 \<or> window_height = 0 then None
      else
        (let x = max (min 1000 (saturating_sub window_width 100)) ADDRESS_BAR_X;
             y = min 8 (saturating_sub window_height 1);
             width = min (saturating_sub window_width x) 170;
             height = min 28 (saturating_sub window_height y)
         in if 0 < width \<and> 0 < height then Some (x, y, width, height) else None))"

definition browser_status_text_band_rect :: "u32 \<Rightarrow> u32 \<Rightarrow> surface_rect option" where
  "browser_status_text_band_rect window_width window_height =
     (case browser_status_rect window_width window_height of
        None \<Rightarrow> None
      | Some (x, y, width, height) \<Rightarrow>
          (let text_x = saturating_add x 10;
               text_y = saturating_add y 6;
               width = saturating_sub width 10;
               height = min (saturating_sub height 6) 7
           in if 0 < width \<and> 0 < height
              then Some \<lparr>dr_x = text_x, dr_y = text_y, dr_width = width, dr_height = height\<rparr>
              else None))"

definition browser_navigation_start_present_damage :: "u32 \<Rightarrow> u32 \<Rightarrow> present_damage" where
  "browser_navigation_start_present_damage window_width window_height =
     present_rects
       [navigation_button_present_damage_rect RELOAD_BUTTON_X window_width window_height,
        navigation_button_present_damage_rect STOP_BUTTON_X window_width window_height,
        (case browser_status_text_band_rect window_width window_height of
           Some r \<Rightarrow> r | None \<Rightarrow> zero_damage_rect)]"

section \<open>The browser\<close>

text \<open>
  The frame and the page. The records keep what the shell's own code reads and writes; the rest of
  each struct (hit targets, caches, the style sheets and the script context of the page) is the
  field of type variable.
\<close>

record 'x browser_frame =
  frame_url :: string
  frame_argb :: "u32 list"
  bitmap_height :: u32
  bitmap_raster_width :: u32
  current_view_retained_sent :: bool
  navigation_start_retained_sent :: bool
  scroll_viewport_caches :: "'x list"
  frame_rest :: 'x

record 'p page_runtime =
  page_dom :: dom
  page_document :: node_id
  page_rgba :: "u8 list"
  page_rest :: 'p

datatype pending_history_action = Push | MoveTo nat

datatype caret_motion = CaretBackward | CaretForward | CaretStart | CaretEnd

record retained_present =
  retained_tag :: u64
  retained_damage :: present_damage

record ('f, 'x, 'p) browser_state =
  frame :: "'x browser_frame"
  runtime :: "'p page_runtime option"
  navigation_pending :: bool
  status_text :: string
  hover_status_text :: "string option"
  history :: "string list"
  history_index :: nat
  pending_history :: "pending_history_action option"
  navigation_generation :: u64
  address_editing :: bool
  address_select_all :: bool
  address_text :: string
  address_cursor :: nat
  focused_input :: "node_id option"
  redraw_mode :: "'f redraw_mode"
  retained :: "retained_present option"

definition FRAME_WIDTH :: u32 where "FRAME_WIDTH = 1280"
definition FRAME_HEIGHT :: u32 where "FRAME_HEIGHT = 800"
definition NAVIGATION_START_RETAINED_TAG :: u64 where "NAVIGATION_START_RETAINED_TAG = 3"

text \<open>The window before a document exists; \<open>rest\<close> is the value of the fields left out.\<close>

definition initial_browser_state :: "'x \<Rightarrow> string \<Rightarrow> ('f, 'x, 'p) browser_state" where
  "initial_browser_state rest url =
     \<lparr>frame = \<lparr>frame_url = url,
        frame_argb = replicate (unat (FRAME_WIDTH * FRAME_HEIGHT)) 0xFFFFFFFF,
        bitmap_height = FRAME_HEIGHT, bitmap_raster_width = FRAME_WIDTH,
        current_view_retained_sent = False, navigation_start_retained_sent = False,
        scroll_viewport_caches = [], frame_rest = rest\<rparr>,
      runtime = None, navigation_pending = False, status_text = ''loading'',
      hover_status_text = None, history = [], history_index = 0, pending_history = None,
      navigation_generation = 0, address_editing = False, address_select_all = False,
      address_text = url, address_cursor = 0, focused_input = None, redraw_mode = Full,
      retained = None\<rparr>"

definition mark_redraw ::
    "'f rect_ops \<Rightarrow> 'f redraw_mode \<Rightarrow> ('f, 'x, 'p) browser_state \<Rightarrow> ('f, 'x, 'p) browser_state" where
  "mark_redraw F mode s =
     (let s = s\<lparr>retained := None\<rparr>;
          s = (if mode = Clean then s
               else
                 (let fr = (frame s)\<lparr>navigation_start_retained_sent := False\<rparr>;
                      fr = (case mode of PageInputFocus _ \<Rightarrow> fr
                            | _ \<Rightarrow> fr\<lparr>current_view_retained_sent := False\<rparr>)
                  in s\<lparr>frame := fr\<lparr>scroll_viewport_caches := []\<rparr>\<rparr>))
      in s\<lparr>redraw_mode := combine_redraw_mode F (redraw_mode s) mode\<rparr>)"

definition set_browser_status ::
    "'f rect_ops \<Rightarrow> string \<Rightarrow> ('f, 'x, 'p) browser_state \<Rightarrow> ('f, 'x, 'p) browser_state" where
  "set_browser_status F status s =
     (let s = s\<lparr>status_text := status, hover_status_text := None\<rparr>
      in if runtime s = None then mark_redraw F Full s else s)"

definition mark_navigation_loading ::
    "'f rect_ops \<Rightarrow> ('f, 'x, 'p) browser_state \<Rightarrow> ('f, 'x, 'p) browser_state" where
  "mark_navigation_loading F s =
     (let ready = (runtime s \<noteq> None \<and> navigation_start_retained_sent (frame s));
          s = mark_redraw F NavigationStartChrome (set_browser_status F ''loading'' s)
      in if ready then
           (let damage = browser_navigation_start_present_damage
                           (bitmap_raster_width (frame s)) (bitmap_height (frame s))
            in if damage = PresentClean then s
               else s\<lparr>retained := Some \<lparr>retained_tag = NAVIGATION_START_RETAINED_TAG,
                                         retained_damage = damage\<rparr>\<rparr>)
         else s)"

definition clear_page_input_focus :: "('f, 'x, 'p) browser_state \<Rightarrow> ('f, 'x, 'p) browser_state" where
  "clear_page_input_focus s = s\<lparr>focused_input := None\<rparr>"

end
