(* ===== verification/Css_Token.thy ===== *)
theory Css_Token
  imports Rust_Chars "HOL-Library.Word"
begin

text \<open>
  The CSS tokenizer (\<open>crates/silksurf-css/src/lib.rs\<close>). A byte position of the buffer is the
  suffix that starts there: \<open>start >= bytes.len()\<close> is \<open>s = []\<close>, \<open>bytes[start]\<close> is \<open>hd s\<close>, and a
  scan loop is \<open>takeWhile\<close> with \<open>dropWhile\<close>. Each parse routine returns the suffix it stops at.
  \<open>search\<close>, the substring find of the \<open>memchr\<close> crate, is a parameter of \<open>feed\<close>. Slicing and
  draining the buffer inside a character is a panic, and a branch of the model.
\<close>

section \<open>Tokens and character classes\<close>

datatype css_token =
    AtKeyword string | Ident string | Function string | Hash string | StringTok string
  | Number string | Percentage string | Dimension string string | Delim nat
  | Colon | Semicolon | Comma | CurlyOpen | CurlyClose | ParenOpen | ParenClose
  | BracketOpen | BracketClose | Whitespace | Cdo | Cdc | Url string | BadString | BadUrl
  | UnicodeRange "32 word" "32 word" | Eof

record css_tokenizer =
  buffer :: string

definition css_tokenizer_new :: css_tokenizer where
  "css_tokenizer_new = \<lparr>buffer = []\<rparr>"

definition is_whitespace :: "char \<Rightarrow> bool" where
  "is_whitespace c \<longleftrightarrow> byte_of c \<in> {0x20, 0x09, 0x0A, 0x0D, 0x0C}"

definition is_newline :: "char \<Rightarrow> bool" where
  "is_newline c \<longleftrightarrow> byte_of c \<in> {0x0A, 0x0D, 0x0C}"

definition is_name_start :: "char \<Rightarrow> bool" where
  "is_name_start c \<longleftrightarrow> ascii_lower c \<or> ascii_upper c \<or> c = CHR ''_''"

definition is_name_char :: "char \<Rightarrow> bool" where
  "is_name_char c \<longleftrightarrow>
     ascii_lower c \<or> ascii_upper c \<or> c = CHR ''_'' \<or> c = CHR ''-'' \<or> ascii_digit c"

definition is_hex_digit :: "char \<Rightarrow> bool" where
  "is_hex_digit c \<longleftrightarrow> hex_digit c"

definition hex_value :: "char \<Rightarrow> nat" where
  "hex_value c =
     (if ascii_digit c then byte_of c - 48
      else if 97 \<le> byte_of c \<and> byte_of c \<le> 102 then 10 + (byte_of c - 97)
      else if 65 \<le> byte_of c \<and> byte_of c \<le> 70 then 10 + (byte_of c - 65)
      else 0)"

definition is_non_printable :: "char \<Rightarrow> bool" where
  "is_non_printable c \<longleftrightarrow>
     byte_of c \<le> 0x08 \<or> byte_of c = 0x0B \<or> 0x0E \<le> byte_of c \<and> byte_of c \<le> 0x1F
       \<or> byte_of c = 0x7F"

abbreviation backslash :: char where "backslash \<equiv> CHR 0x5C"

section \<open>Escapes\<close>

datatype escape_parse = EscChar nat string | EscIgnored string | EscIncomplete

text \<open>At most six hexadecimal digits, so the \<open>u32\<close> accumulator stays below \<open>2 ^ 24\<close>.\<close>

definition hex_number :: "string \<Rightarrow> nat" where
  "hex_number ds = foldl (\<lambda>v b. v * 16 + hex_value b) 0 ds"

definition skip_escape_space :: "string \<Rightarrow> string" where
  "skip_escape_space s =
     (case s of
        [] \<Rightarrow> []
      | c # r \<Rightarrow>
          if is_whitespace c
          then (if c = CHR 0x0D \<and> r \<noteq> [] \<and> hd r = CHR 0x0A then tl r else r)
          else s)"

definition consume_escape :: "string \<Rightarrow> escape_parse" where
  "consume_escape s =
     (case s of
        [] \<Rightarrow> EscIncomplete
      | b # r \<Rightarrow>
          if is_newline b then
            EscIgnored (if b = CHR 0x0D \<and> r \<noteq> [] \<and> hd r = CHR 0x0A then tl r else r)
          else if is_hex_digit b then
            (let ds = takeWhile is_hex_digit (take 6 s)
             in EscChar (case char_from_u32 (hex_number ds) of Some ch \<Rightarrow> ch | None \<Rightarrow> 0xFFFD)
                  (skip_escape_space (drop (length ds) s)))
          else EscChar (byte_of b) r)"

definition is_valid_escape :: "string \<Rightarrow> bool" where
  "is_valid_escape s \<longleftrightarrow>
     (case s of b # c # _ \<Rightarrow> b = backslash \<and> \<not> is_newline c | _ \<Rightarrow> False)"

lemma skip_escape_space_le: "length (skip_escape_space s) \<le> length s"
  by (auto simp: skip_escape_space_def split: list.split)

lemma consume_escape_shorter:
  "consume_escape s = EscChar ch r \<Longrightarrow> length r < length s"
  "consume_escape s = EscIgnored r \<Longrightarrow> length r < length s"
proof -
  have hex: "length (skip_escape_space (drop (length (takeWhile is_hex_digit (take 6 (b # t)))) (b # t)))
      < Suc (length t)" if "is_hex_digit b" for b t
    using that skip_escape_space_le[of "drop (length (takeWhile is_hex_digit (take 6 (b # t)))) (b # t)"]
    by (auto simp: numeral_eq_Suc)
  show "length r < length s" if "consume_escape s = EscChar ch r"
    using that hex by (auto simp: consume_escape_def Let_def split: list.splits if_splits)
  show "length r < length s" if "consume_escape s = EscIgnored r"
    using that by (auto simp: consume_escape_def Let_def split: list.splits if_splits)
qed

section \<open>Strings\<close>

datatype string_parse = StrParsed string string | StrBad string | StrIncomplete

function string_slow :: "char \<Rightarrow> string \<Rightarrow> string \<Rightarrow> string_parse" where
  "string_slow quote s v =
     (case s of
        [] \<Rightarrow> StrIncomplete
      | b # r \<Rightarrow>
          if b = quote then StrParsed v r
          else if is_newline b then StrBad s
          else if b = backslash then
            (case consume_escape r of
               EscChar ch s' \<Rightarrow> string_slow quote s' (push_char v ch)
             | EscIgnored s' \<Rightarrow> string_slow quote s' v
             | EscIncomplete \<Rightarrow> StrIncomplete)
          else string_slow quote r (push_char v (byte_of b)))"
  by pat_completeness auto
termination
  by (relation "measure (\<lambda>(q, s, v). length s)") (auto dest!: consume_escape_shorter)

declare string_slow.simps [simp del]

text \<open>The bytes copied by the fast path lie between ASCII bytes of a valid string, so
  \<open>from_utf8_lossy\<close> is the identity on them.\<close>

definition parse_string :: "char \<Rightarrow> string \<Rightarrow> string_parse" where
  "parse_string quote s =
     (let plain = (\<lambda>b. b \<noteq> quote \<and> \<not> is_newline b \<and> b \<noteq> backslash)
      in case dropWhile plain s of
           [] \<Rightarrow> StrIncomplete
         | b # r \<Rightarrow>
             if b = quote then StrParsed (takeWhile plain s) r
             else if is_newline b then StrBad (b # r)
             else string_slow quote s [])"

section \<open>Names, identifiers and numbers\<close>

datatype name_parse = NameParsed string string | NameIncomplete | NameNone

definition name_end :: "string \<Rightarrow> string \<Rightarrow> name_parse" where
  "name_end v s = (if v = [] then NameNone else NameParsed v s)"

function name_slow :: "string \<Rightarrow> string \<Rightarrow> name_parse" where
  "name_slow s v =
     (case s of
        [] \<Rightarrow> name_end v s
      | b # r \<Rightarrow>
          if is_name_char b then name_slow r (push_char v (byte_of b))
          else if b = backslash then
            (if \<not> is_valid_escape s then name_end v s
             else case consume_escape r of
                    EscChar ch s' \<Rightarrow> name_slow s' (push_char v ch)
                  | EscIgnored s' \<Rightarrow> name_slow s' v
                  | EscIncomplete \<Rightarrow> NameIncomplete)
          else name_end v s)"
  by pat_completeness auto
termination
  by (relation "measure (\<lambda>(s, v). length s)") (auto dest!: consume_escape_shorter)

declare name_slow.simps [simp del]

definition parse_name :: "string \<Rightarrow> name_parse" where
  "parse_name s =
     (if s = [] then NameNone
      else
        (let run = takeWhile is_name_char s; rest = dropWhile is_name_char s
         in if run \<noteq> [] \<and> (rest = [] \<or> hd rest \<noteq> backslash) then NameParsed run rest
            else name_slow s []))"

definition starts_ident :: "string \<Rightarrow> bool" where
  "starts_ident s =
     (case s of
        [] \<Rightarrow> False
      | first # r \<Rightarrow>
          if is_name_start first then True
          else if first = CHR ''-'' then
            (case r of
               [] \<Rightarrow> False
             | second # _ \<Rightarrow>
                 second = CHR ''-'' \<or> is_name_start second \<or> second = backslash \<and> is_valid_escape r)
          else if first = backslash then is_valid_escape s
          else False)"

definition parse_ident :: "string \<Rightarrow> name_parse" where
  "parse_ident s = (if \<not> starts_ident s then NameNone else parse_name s)"

definition starts_number :: "string \<Rightarrow> bool" where
  "starts_number s =
     (case s of
        [] \<Rightarrow> False
      | first # r \<Rightarrow>
          if ascii_digit first then True
          else if first = CHR ''.'' then r \<noteq> [] \<and> ascii_digit (hd r)
          else if first = CHR ''+'' \<or> first = CHR ''-'' then
            (case r of
               [] \<Rightarrow> False
             | second # r' \<Rightarrow>
                 if ascii_digit second then True
                 else if second = CHR ''.'' then r' \<noteq> [] \<and> ascii_digit (hd r')
                 else False)
          else False)"

definition parse_number :: "string \<Rightarrow> (string \<times> string) option" where
  "parse_number s =
     (if s = [] then None
      else
        (let signed = (hd s = CHR ''+'' \<or> hd s = CHR ''-'');
             s1 = (if signed then tl s else s)
         in if signed \<and> s1 = [] then None
            else
              (let whole = takeWhile ascii_digit s1;
                   s2 = dropWhile ascii_digit s1;
                   dot = (s2 \<noteq> [] \<and> hd s2 = CHR ''.'');
                   frac = (if dot then takeWhile ascii_digit (tl s2) else []);
                   s3 = (if dot then dropWhile ascii_digit (tl s2) else s2)
               in if whole = [] \<and> frac = [] then None
                  else Some (take (length s - length s3) s, s3))))"

section \<open>Unicode ranges\<close>

text \<open>\<open>u32::from_str_radix(_, 16)\<close> on one to six hexadecimal digits.\<close>

definition u32_radix16 :: "string \<Rightarrow> 32 word" where
  "u32_radix16 ds = word_of_nat (hex_number ds)"

definition parse_unicode_range :: "string \<Rightarrow> (32 word \<times> 32 word \<times> string) option" where
  "parse_unicode_range s =
     (case s of
        first # second # r \<Rightarrow>
          if \<not> ((first = CHR ''U'' \<or> first = CHR ''u'') \<and> second = CHR ''+'') then None
          else
            (let digits = takeWhile is_hex_digit (take 6 r);
                 r1 = drop (length digits) r;
                 wild = length (takeWhile (\<lambda>b. b = CHR ''?'') (take (6 - length digits) r1));
                 r2 = drop wild r1
             in if digits = [] \<and> wild = 0 then None
                else if wild > 0 then
                  Some (u32_radix16 (digits @ replicate wild (CHR ''0'')),
                        u32_radix16 (digits @ replicate wild (CHR ''F'')), r2)
                else if r2 \<noteq> [] \<and> hd r2 = CHR ''-'' then
                  (let end_digits = takeWhile is_hex_digit (take 6 (tl r2))
                   in if end_digits = [] then None
                      else Some (u32_radix16 digits, u32_radix16 end_digits,
                                 drop (length end_digits) (tl r2)))
                else Some (u32_radix16 digits, u32_radix16 digits, r2))
      | _ \<Rightarrow> None)"

section \<open>URLs\<close>

datatype url_parse = UrlParsed string string | UrlBad string | UrlIncomplete

function consume_bad_url :: "string \<Rightarrow> string" where
  "consume_bad_url s =
     (case s of
        [] \<Rightarrow> []
      | b # r \<Rightarrow>
          if b = CHR '')'' then r
          else if b = backslash \<and> is_valid_escape s then
            (case consume_escape r of
               EscChar _ next \<Rightarrow> consume_bad_url next
             | EscIgnored next \<Rightarrow> consume_bad_url next
             | EscIncomplete \<Rightarrow> s)
          else consume_bad_url r)"
  by pat_completeness auto
termination
  by (relation "measure length") (auto dest!: consume_escape_shorter)

declare consume_bad_url.simps [simp del]

function url_loop :: "string \<Rightarrow> string \<Rightarrow> url_parse" where
  "url_loop s v =
     (case s of
        [] \<Rightarrow> UrlIncomplete
      | b # r \<Rightarrow>
          if b = CHR '')'' then UrlParsed v r
          else if is_whitespace b then
            (let s' = dropWhile is_whitespace s
             in if s' \<noteq> [] \<and> hd s' = CHR '')'' then UrlParsed v (tl s')
                else UrlBad (consume_bad_url s'))
          else if b = CHR 0x22 \<or> b = CHR 0x27 \<or> b = CHR ''('' \<or> is_non_printable b \<or> is_newline b then
            UrlBad (consume_bad_url s)
          else if b = backslash then
            (if \<not> is_valid_escape s then UrlBad (consume_bad_url r)
             else case consume_escape r of
                    EscChar ch next \<Rightarrow> url_loop next (push_char v ch)
                  | EscIgnored _ \<Rightarrow> UrlBad (consume_bad_url r)
                  | EscIncomplete \<Rightarrow> UrlIncomplete)
          else url_loop r (push_char v (byte_of b)))"
  by pat_completeness auto
termination
  by (relation "measure (\<lambda>(s, v). length s)") (auto dest!: consume_escape_shorter)

declare url_loop.simps [simp del]

definition parse_url :: "string \<Rightarrow> url_parse" where
  "parse_url s =
     (let s = dropWhile is_whitespace s
      in case s of
           [] \<Rightarrow> UrlIncomplete
         | b # r \<Rightarrow>
             if b = CHR 0x22 \<or> b = CHR 0x27 then
               (case parse_string b r of
                  StrParsed v next \<Rightarrow>
                    (let next = dropWhile is_whitespace next
                     in if next \<noteq> [] \<and> hd next = CHR '')'' then UrlParsed v (tl next)
                        else UrlBad (consume_bad_url next))
                | StrBad _ \<Rightarrow> UrlBad (consume_bad_url r)
                | StrIncomplete \<Rightarrow> UrlIncomplete)
             else if b = CHR '')'' then UrlParsed [] r
             else url_loop s [])"

section \<open>The tokenizer loop\<close>

text \<open>One iteration of \<open>while self.cursor < self.buffer.len()\<close>: go on from a later position with
  more tokens, leave the loop, or panic.\<close>

datatype feed_outcome = Go string "css_token list" | Leave | Panic

type_synonym search_fn = "string \<Rightarrow> string \<Rightarrow> nat option"

definition starts :: "string \<Rightarrow> string \<Rightarrow> bool" where
  "starts p s \<longleftrightarrow> take (length p) s = p"

text \<open>\<open>self.buffer[self.cursor..].chars().next().unwrap()\<close>, then past that character.\<close>

definition delim_step :: "string \<Rightarrow> css_token list \<Rightarrow> feed_outcome" where
  "delim_step s tokens =
     (if at_boundary s
      then let delim = first_char s in Go (drop (len_utf8 delim) s) (tokens @ [Delim delim])
      else Panic)"

definition comment_step :: "search_fn \<Rightarrow> string \<Rightarrow> css_token list \<Rightarrow> feed_outcome" where
  "comment_step search s tokens =
     (case search (drop 2 s) ''*/'' of
        Some pos \<Rightarrow>
          Go (drop (pos + 2) (drop 2 s))
            (if tokens \<noteq> [] \<and> last tokens = Whitespace then tokens else tokens @ [Whitespace])
      | None \<Rightarrow> Leave)"

definition string_step :: "string \<Rightarrow> css_token list \<Rightarrow> feed_outcome" where
  "string_step s tokens =
     (case parse_string (hd s) (tl s) of
        StrParsed v next \<Rightarrow> Go next (tokens @ [StringTok v])
      | StrBad next \<Rightarrow> Go next (tokens @ [BadString])
      | StrIncomplete \<Rightarrow> Leave)"

definition hash_step :: "string \<Rightarrow> css_token list \<Rightarrow> feed_outcome" where
  "hash_step s tokens =
     (case parse_name (tl s) of
        NameParsed v next \<Rightarrow> Go next (tokens @ [Hash v])
      | NameIncomplete \<Rightarrow> Leave
      | NameNone \<Rightarrow> Go (tl s) (tokens @ [Delim 35]))"

definition at_step :: "string \<Rightarrow> css_token list \<Rightarrow> feed_outcome" where
  "at_step s tokens =
     (case parse_ident (tl s) of
        NameParsed v next \<Rightarrow> Go next (tokens @ [AtKeyword v])
      | NameIncomplete \<Rightarrow> Leave
      | NameNone \<Rightarrow> Go (tl s) (tokens @ [Delim 64]))"

definition number_step :: "string \<Rightarrow> css_token list \<Rightarrow> feed_outcome" where
  "number_step s tokens =
     (case parse_number s of
        None \<Rightarrow> delim_step s tokens
      | Some (number, next) \<Rightarrow>
          if next \<noteq> [] \<and> hd next = CHR ''%'' then Go (tl next) (tokens @ [Percentage number])
          else case parse_ident next of
                 NameParsed unit next' \<Rightarrow> Go next' (tokens @ [Dimension number unit])
               | NameIncomplete \<Rightarrow> Leave
               | NameNone \<Rightarrow> Go next (tokens @ [Number number]))"

definition ident_step :: "string \<Rightarrow> css_token list \<Rightarrow> feed_outcome" where
  "ident_step s tokens =
     (case parse_ident s of
        NameParsed ident next \<Rightarrow>
          if next \<noteq> [] \<and> hd next = CHR ''('' then
            (if eq_ignore_ascii_case ident ''url'' then
               (case parse_url (tl next) of
                  UrlParsed v next' \<Rightarrow> Go next' (tokens @ [Url v])
                | UrlBad next' \<Rightarrow> Go next' (tokens @ [BadUrl])
                | UrlIncomplete \<Rightarrow> Leave)
             else Go (tl next) (tokens @ [Function ident]))
          else Go next (tokens @ [Ident ident])
      | NameIncomplete \<Rightarrow> Leave
      | NameNone \<Rightarrow> Go s tokens)"

fun punct_token :: "char \<Rightarrow> css_token option" where
  "punct_token c =
     (if c = CHR '':'' then Some Colon
      else if c = CHR '';'' then Some Semicolon
      else if c = CHR '','' then Some Comma
      else if c = CHR ''{'' then Some CurlyOpen
      else if c = CHR ''}'' then Some CurlyClose
      else if c = CHR ''('' then Some ParenOpen
      else if c = CHR '')'' then Some ParenClose
      else if c = CHR ''['' then Some BracketOpen
      else if c = CHR '']'' then Some BracketClose
      else None)"

definition punct_step :: "string \<Rightarrow> css_token list \<Rightarrow> feed_outcome" where
  "punct_step s tokens =
     (case punct_token (hd s) of
        Some t \<Rightarrow> Go (tl s) (tokens @ [t])
      | None \<Rightarrow> delim_step s tokens)"

definition feed_step :: "search_fn \<Rightarrow> string \<Rightarrow> css_token list \<Rightarrow> feed_outcome" where
  "feed_step search s tokens =
     (let current = hd s
      in if is_whitespace current then Go (dropWhile is_whitespace s) (tokens @ [Whitespace])
         else if starts ''/*'' s then comment_step search s tokens
         else if starts ''<!--'' s then Go (drop 4 s) (tokens @ [Cdo])
         else if starts ''-->'' s then Go (drop 3 s) (tokens @ [Cdc])
         else if current = CHR 0x22 \<or> current = CHR 0x27 then string_step s tokens
         else if current = CHR ''#'' then hash_step s tokens
         else if current = CHR ''@'' then at_step s tokens
         else case parse_unicode_range s of
                Some (lo, hi, next) \<Rightarrow> Go next (tokens @ [UnicodeRange lo hi])
              | None \<Rightarrow>
                  if starts_number s then number_step s tokens
                  else if starts_ident s then ident_step s tokens
                  else punct_step s tokens)"

datatype css_fault = CssPanic

partial_function (option) feed_loop ::
    "search_fn \<Rightarrow> string \<Rightarrow> css_token list \<Rightarrow> (css_fault + string \<times> css_token list) option" where
  "feed_loop search s tokens =
     (if s = [] then Some (Inr (s, tokens))
      else case feed_step search s tokens of
             Go s' tokens' \<Rightarrow> feed_loop search s' tokens'
           | Leave \<Rightarrow> Some (Inr (s, tokens))
           | Panic \<Rightarrow> Some (Inl CssPanic))"

declare feed_loop.simps [code]

text \<open>After the loop the consumed bytes are drained, which panics inside a character.\<close>

definition feed :: "search_fn \<Rightarrow> string \<Rightarrow> css_tokenizer
    \<Rightarrow> (css_fault + css_token list \<times> css_tokenizer) option" where
  "feed search input tk =
     (let buf = buffer tk @ input
      in case feed_loop search buf [] of
           None \<Rightarrow> None
         | Some (Inl e) \<Rightarrow> Some (Inl e)
         | Some (Inr (rest, tokens)) \<Rightarrow>
             if at_boundary rest then Some (Inr (tokens, tk\<lparr>buffer := rest\<rparr>))
             else Some (Inl CssPanic))"

definition finish :: "search_fn \<Rightarrow> css_tokenizer \<Rightarrow> (css_fault + css_token list \<times> css_tokenizer) option" where
  "finish search tk =
     (case feed search [] tk of
        Some (Inr (tokens, tk')) \<Rightarrow> Some (Inr (tokens @ [Eof], tk'))
      | r \<Rightarrow> r)"

end
