(* ===== verification/Css_Token_Safe.thy ===== *)
theory Css_Token_Safe
  imports Css_Token
begin

text \<open>
  The tokenizer returns, and where it panics. Every parse routine stops strictly later than it
  started, so the loop ends; it stops at a character boundary except right after an escape that
  took one byte of a longer character, so on valid text without such an escape \<open>feed\<close> never panics.
\<close>

section \<open>Progress\<close>

lemma suffix_tl_strict: "suffix t (tl s) \<Longrightarrow> s \<noteq> [] \<Longrightarrow> strict_suffix t s"
  using strict_suffix_tl suffix_order.le_less_trans by blast

lemma suffix_tl_trans: "suffix t (tl s) \<Longrightarrow> suffix t s"
  by (meson suffix_order.trans suffix_tl)

lemma strict_suffix_dropWhile: "s \<noteq> [] \<Longrightarrow> p (hd s) \<Longrightarrow> strict_suffix (dropWhile p s) s"
  by (cases s) (auto intro!: suffix_tl_strict simp: suffix_dropWhile)

lemma strict_suffix_drop: "0 < n \<Longrightarrow> s \<noteq> [] \<Longrightarrow> strict_suffix (drop n s) s"
  by (cases n) (auto simp: drop_Suc intro: suffix_tl_strict suffix_drop)

lemma skip_escape_space_suffix: "suffix (skip_escape_space s) s"
proof (cases s)
  case (Cons c r)
  then show ?thesis
    by (cases r) (auto simp: skip_escape_space_def suffix_ConsI)
qed (simp add: skip_escape_space_def)

lemma consume_escape_suffix:
  "consume_escape s = EscChar ch r \<Longrightarrow> strict_suffix r s"
  "consume_escape s = EscIgnored r \<Longrightarrow> strict_suffix r s"
proof -
  have suf: "suffix (skip_escape_space (drop n t)) (b # t)" for n b t
    by (meson skip_escape_space_suffix suffix_ConsI suffix_drop suffix_order.trans)
  show "strict_suffix r s" if "consume_escape s = EscChar ch r"
    using consume_escape_shorter(1)[OF that] that suf
    by (auto simp: consume_escape_def Let_def strict_suffix_def suffix_ConsI
        split: list.splits if_splits)
  show "strict_suffix r s" if "consume_escape s = EscIgnored r"
    using consume_escape_shorter(2)[OF that] that
    by (auto simp: consume_escape_def Let_def strict_suffix_def suffix_ConsI suffix_tl_trans
        split: list.splits if_splits)
qed

section \<open>Where the routines stop\<close>

text \<open>\<open>stops s t\<close>: the position \<open>t\<close> is strictly later than \<open>s\<close>, and at the end, before an ASCII
  byte or after one.\<close>

definition stops :: "string \<Rightarrow> string \<Rightarrow> bool" where
  "stops s t \<longleftrightarrow>
     (\<exists>p. s = p @ t \<and> p \<noteq> [] \<and> (t = [] \<or> ascii_char (hd t) \<or> ascii_char (last p)))"

definition stops_eq :: "string \<Rightarrow> string \<Rightarrow> bool" where
  "stops_eq s t \<longleftrightarrow> s = t \<or> stops s t"

lemma stops_strict: "stops s t \<Longrightarrow> strict_suffix t s"
  by (auto simp: stops_def strict_suffix_def suffix_def)

lemma stops_suffix: "stops u t \<Longrightarrow> suffix u s \<Longrightarrow> stops s t"
  by (auto simp: stops_def suffix_def)

lemma stops_Cons: "ascii_char c \<Longrightarrow> stops (c # s) s"
  by (auto simp: stops_def intro: exI[of _ "[c]"])

lemma stops_Nil: "s \<noteq> [] \<Longrightarrow> stops s []"
  by (simp add: stops_def)

lemma stops_hd: "strict_suffix t s \<Longrightarrow> t \<noteq> [] \<Longrightarrow> ascii_char (hd t) \<Longrightarrow> stops s t"
  by (auto simp: stops_def strict_suffix_def suffix_def)

lemma stops_trans: "stops s u \<Longrightarrow> stops u t \<Longrightarrow> stops s t"
  using stops_suffix stops_strict by (simp add: strict_suffix_def)

lemma stops_eq_Cons: "stops_eq r t \<Longrightarrow> t = [] \<or> ascii_char (hd t) \<or> t \<noteq> r \<or> ascii_char c \<Longrightarrow> stops (c # r) t"
  by (auto simp: stops_eq_def stops_def intro: exI[of _ "[c]"])

lemma ascii_classes:
  "is_newline c \<Longrightarrow> ascii_char c" "is_whitespace c \<Longrightarrow> ascii_char c" "is_name_char c \<Longrightarrow> ascii_char c"
  "is_hex_digit c \<Longrightarrow> ascii_char c" "ascii_digit c \<Longrightarrow> ascii_char c" "is_name_start c \<Longrightarrow> ascii_char c"
  by (auto simp: is_newline_def is_whitespace_def is_name_char_def is_hex_digit_def hex_digit_def
      is_name_start_def ascii_char_def ascii_upper_def ascii_lower_def ascii_digit_def)

fun str_ok :: "string \<Rightarrow> string_parse \<Rightarrow> bool" where
  "str_ok s (StrParsed v t) \<longleftrightarrow> stops s t"
| "str_ok s (StrBad t) \<longleftrightarrow> suffix t s \<and> t \<noteq> [] \<and> is_newline (hd t)"
| "str_ok s StrIncomplete \<longleftrightarrow> True"

lemma str_ok_suffix: "str_ok u x \<Longrightarrow> suffix u s \<Longrightarrow> str_ok s x"
  by (cases x) (auto intro: stops_suffix suffix_order.trans)

lemma escape_suffix_Cons:
  "consume_escape r = EscChar ch t \<Longrightarrow> suffix t (b # r)"
  "consume_escape r = EscIgnored t \<Longrightarrow> suffix t (b # r)"
  by (meson consume_escape_suffix strict_suffix_def suffix_ConsI)+

lemma string_slow_ok: "ascii_char q \<Longrightarrow> str_ok s (string_slow q s v)"
proof (induction q s v rule: string_slow.induct)
  case (1 q s v)
  show ?case
  proof (cases s)
    case (Cons b r)
    show ?thesis
    proof (cases "b = q \<or> is_newline b \<or> b \<noteq> backslash")
      case True
      have "str_ok s (string_slow q r (push_char v (byte_of b)))"
        if "b \<noteq> q" "\<not> is_newline b" "b \<noteq> backslash"
        using "1.IH"(3)[OF Cons that "1.prems"] by (rule str_ok_suffix) (simp add: Cons suffix_ConsI)
      then show ?thesis
        using True "1.prems" Cons by (subst string_slow.simps) (auto intro: stops_Cons)
    next
      case False
      show ?thesis
      proof (cases "consume_escape r")
        case (EscChar ch t)
        have "str_ok t (string_slow q t (push_char v ch))"
          using "1.IH"(1)[OF Cons] False EscChar "1.prems" by auto
        then have "str_ok s (string_slow q t (push_char v ch))"
          by (rule str_ok_suffix) (simp add: Cons escape_suffix_Cons(1)[OF EscChar])
        then show ?thesis using False EscChar Cons by (subst string_slow.simps) auto
      next
        case (EscIgnored t)
        have "str_ok t (string_slow q t v)"
          using "1.IH"(2)[OF Cons] False EscIgnored "1.prems" by auto
        then have "str_ok s (string_slow q t v)"
          by (rule str_ok_suffix) (simp add: Cons escape_suffix_Cons(2)[OF EscIgnored])
        then show ?thesis using False EscIgnored Cons by (subst string_slow.simps) auto
      next
        case EscIncomplete
        then show ?thesis using False Cons by (subst string_slow.simps) auto
      qed
    qed
  qed (subst string_slow.simps, simp)
qed

lemma parse_string_ok:
  assumes q: "ascii_char q" shows "str_ok s (parse_string q s)"
proof -
  define plain where "plain = (\<lambda>b. b \<noteq> q \<and> \<not> is_newline b \<and> b \<noteq> backslash)"
  have suf: "suffix (dropWhile plain s) s" by (rule suffix_dropWhile)
  show ?thesis
  proof (cases "dropWhile plain s")
    case Nil
    then show ?thesis
      unfolding parse_string_def Let_def plain_def[symmetric] by (simp only: Nil list.case str_ok.simps)
  next
    case (Cons b r)
    have "stops s r" if "b = q"
      using stops_suffix[OF stops_Cons[OF q, of r]] suf Cons that by simp
    then show ?thesis
      using Cons suf string_slow_ok[OF q, of s "[]"]
      unfolding parse_string_def Let_def plain_def[symmetric] by simp
  qed
qed

section \<open>Names and numbers\<close>

text \<open>No backslash stands directly before a character that is not ASCII.\<close>

fun escapes_ascii :: "string \<Rightarrow> bool" where
  "escapes_ascii (b # c # s) \<longleftrightarrow> (b = backslash \<longrightarrow> ascii_char c) \<and> escapes_ascii (c # s)"
| "escapes_ascii _ \<longleftrightarrow> True"

lemma escapes_ascii_Cons: "escapes_ascii (c # s) \<Longrightarrow> escapes_ascii s"
  by (cases s) auto

lemma escapes_ascii_suffix: "suffix t s \<Longrightarrow> escapes_ascii s \<Longrightarrow> escapes_ascii t"
proof -
  have "escapes_ascii (p @ t) \<Longrightarrow> escapes_ascii t" for p
    by (induction p) (auto dest: escapes_ascii_Cons)
  then show "suffix t s \<Longrightarrow> escapes_ascii s \<Longrightarrow> escapes_ascii t" by (auto simp: suffix_def)
qed

lemma ascii_escapes: "is_ascii s \<Longrightarrow> escapes_ascii s"
  by (induction s rule: escapes_ascii.induct) auto

lemma skip_escape_space_stops: "stops_eq s (skip_escape_space s)"
proof (cases s)
  case (Cons c r)
  show ?thesis
  proof (cases "c = CHR 0x0D \<and> r \<noteq> [] \<and> hd r = CHR 0x0A")
    case True
    then obtain r' where r: "r = CHR 0x0A # r'" by (cases r) auto
    have "stops (c # r) r'"
      using True by (auto simp: r stops_def ascii_char_def intro!: exI[of _ "[c, CHR 0x0A]"])
    then show ?thesis using True by (simp add: Cons r skip_escape_space_def stops_eq_def is_whitespace_def)
  next
    case False
    then show ?thesis
      by (auto simp: Cons skip_escape_space_def stops_eq_def intro!: stops_Cons ascii_classes(2))
  qed
qed (simp add: skip_escape_space_def stops_eq_def)

lemma takeWhile_take_drop:
  "takeWhile P (take n xs) @ drop (length (takeWhile P (take n xs))) xs = xs"
  by (induction xs arbitrary: n) (auto simp: take_Cons split: nat.split)

lemma consume_escape_stops:
  assumes e: "consume_escape (c # r) = EscChar ch t" and c: "ascii_char c"
  shows "stops (c # r) t"
proof (cases "is_hex_digit c")
  case True
  define ds where "ds = takeWhile is_hex_digit (take 6 (c # r))"
  define u where "u = drop (length ds) (c # r)"
  have split: "c # r = ds @ u"
    by (simp add: ds_def u_def takeWhile_take_drop)
  have ne: "ds \<noteq> []" using True by (simp add: ds_def numeral_eq_Suc)
  have "is_hex_digit (last ds)" using ne by (auto simp: ds_def dest: set_takeWhileD last_in_set)
  then have "stops (c # r) u" using ne split by (auto simp: stops_def ascii_classes)
  moreover have "t = skip_escape_space u"
    using e True by (auto simp: consume_escape_def Let_def ds_def u_def split: if_splits)
  ultimately show ?thesis
    using skip_escape_space_stops[of u] stops_trans by (auto simp: stops_eq_def)
next
  case False
  then show ?thesis using e c by (auto simp: consume_escape_def split: if_splits intro: stops_Cons)
qed

fun name_ok :: "bool \<Rightarrow> string \<Rightarrow> name_parse \<Rightarrow> bool" where
  "name_ok e s (NameParsed v t) \<longleftrightarrow> suffix t s \<and> (e \<longrightarrow> stops_eq s t)"
| "name_ok e s _ \<longleftrightarrow> True"

lemma name_ok_stops:
  "name_ok e u x \<Longrightarrow> suffix u s \<Longrightarrow> (e' \<Longrightarrow> e) \<Longrightarrow> (e' \<Longrightarrow> stops s u) \<Longrightarrow> name_ok e' s x"
  by (cases x) (auto simp: stops_eq_def intro: suffix_order.trans stops_trans)

lemma name_end_ok: "name_ok e s (name_end v s)"
  by (simp add: name_end_def stops_eq_def)

lemma escaped_stops:
  assumes "consume_escape r = EscChar ch t" and "escapes_ascii (backslash # r)"
  shows "stops (backslash # r) t"
proof -
  obtain c r' where r: "r = c # r'" using assms(1) by (cases r) (auto simp: consume_escape_def)
  then have "stops r t" using assms consume_escape_stops by auto
  then show ?thesis by (rule stops_suffix) (simp add: suffix_ConsI)
qed

lemma name_slow_ok: "name_ok (escapes_ascii s) s (name_slow s v)"
proof (induction s v rule: name_slow.induct)
  case (1 s v)
  show ?case
  proof (cases s)
    case Nil
    then show ?thesis by (subst name_slow.simps) (simp add: name_end_ok)
  next
    case (Cons b r)
    consider (name) "is_name_char b" | (stop) "\<not> is_name_char b" "b \<noteq> backslash \<or> \<not> is_valid_escape s"
      | (esc) "\<not> is_name_char b" "b = backslash" "is_valid_escape s" by blast
    then show ?thesis
    proof cases
      case name
      have "name_ok (escapes_ascii s) s (name_slow r (push_char v (byte_of b)))"
        using "1.IH"(1)[OF Cons name]
        by (rule name_ok_stops)
          (auto simp: Cons suffix_ConsI intro: escapes_ascii_Cons stops_Cons ascii_classes(3)[OF name])
      then show ?thesis using name Cons by (subst name_slow.simps) simp
    next
      case stop
      then show ?thesis using Cons by (subst name_slow.simps) (auto simp: name_end_ok)
    next
      case esc
      show ?thesis
      proof (cases "consume_escape r")
        case (EscChar ch t)
        have "name_ok (escapes_ascii t) t (name_slow t (push_char v ch))"
          using "1.IH"(2)[OF Cons] esc EscChar by simp
        then have "name_ok (escapes_ascii s) s (name_slow t (push_char v ch))"
          using escape_suffix_Cons(1)[OF EscChar, of b] escaped_stops[OF EscChar] esc Cons
          by (elim name_ok_stops) (auto intro: escapes_ascii_suffix)
        then show ?thesis using esc EscChar Cons by (subst name_slow.simps) simp
      next
        case (EscIgnored t)
        then have "\<not> is_valid_escape s"
          using esc Cons by (auto simp: is_valid_escape_def consume_escape_def Let_def split: list.splits if_splits)
        then show ?thesis using esc by simp
      next
        case EscIncomplete
        then show ?thesis using esc Cons by (subst name_slow.simps) simp
      qed
    qed
  qed
qed

lemma name_slow_strict:
  assumes "name_slow s [] = NameParsed w t" shows "strict_suffix t s \<and> w \<noteq> []"
proof -
  have w: "name_slow s v = NameParsed w t \<Longrightarrow> w \<noteq> []" for s v
    by (induction s v rule: name_slow.induct)
      (subst (asm) name_slow.simps,
        auto simp: name_end_def split: list.splits if_splits escape_parse.splits)
  have ok: "name_ok (escapes_ascii u) u (name_slow u v)" for u v by (rule name_slow_ok)
  have "length t < length s"
  proof (cases s)
    case Nil
    then show ?thesis using assms by (subst (asm) name_slow.simps) (simp add: name_end_def)
  next
    case (Cons b r)
    have "name_slow u v = NameParsed w t \<Longrightarrow> length t \<le> length u" for u v
      using ok[of u v] by (auto dest: suffix_length_le)
    then show ?thesis
      using assms Cons
      by (subst (asm) name_slow.simps)
        (fastforce simp: name_end_def dest: consume_escape_shorter split: if_splits escape_parse.splits)
  qed
  then show ?thesis using ok[of s "[]"] assms w[OF assms] by (auto simp: strict_suffix_def)
qed

lemma parse_name_ok: "name_ok (escapes_ascii s) s (parse_name s)"
proof -
  have "stops s (dropWhile is_name_char s)" if "takeWhile is_name_char s \<noteq> []"
    using that unfolding stops_def
    by (intro exI[of _ "takeWhile is_name_char s"])
      (auto dest!: last_in_set set_takeWhileD intro: ascii_classes)
  then show ?thesis
    using name_slow_ok by (simp add: parse_name_def Let_def stops_eq_def suffix_dropWhile)
qed

lemma parse_name_strict: "parse_name s = NameParsed w t \<Longrightarrow> strict_suffix t s \<and> w \<noteq> []"
  using name_slow_strict[of s w t]
  by (auto simp: parse_name_def Let_def strict_suffix_def suffix_dropWhile dropWhile_eq_self_iff
      takeWhile_eq_Nil_iff split: if_splits)

lemma parse_name_stops:
  "parse_name s = NameParsed w t \<Longrightarrow> escapes_ascii s \<Longrightarrow> stops s t"
  using parse_name_ok[of s] parse_name_strict[of s w t] by (auto simp: stops_eq_def)

lemma parse_ident_stops:
  "parse_ident s = NameParsed w t \<Longrightarrow> strict_suffix t s \<and> w \<noteq> []"
  "parse_ident s = NameParsed w t \<Longrightarrow> escapes_ascii s \<Longrightarrow> stops s t"
  using parse_name_strict parse_name_stops by (auto simp: parse_ident_def split: if_splits)

text \<open>An identifier start always yields an identifier or runs out of input, so the loop moves on.\<close>

lemma name_slow_some: "v \<noteq> [] \<Longrightarrow> name_slow s v \<noteq> NameNone"
  by (induction s v rule: name_slow.induct)
    (subst name_slow.simps, auto simp: name_end_def split: list.splits escape_parse.splits)

lemma starts_ident_parses:
  assumes "starts_ident s" shows "parse_name s \<noteq> NameNone"
proof (cases s)
  case Nil
  then show ?thesis using assms by (simp add: starts_ident_def)
next
  case (Cons b r)
  show ?thesis
  proof (cases "is_name_char b")
    case True
    have "name_slow s [] \<noteq> NameNone"
      using True Cons name_slow_some by (subst name_slow.simps) simp
    moreover have "s \<noteq> []" using Cons by simp
    ultimately show ?thesis by (simp add: parse_name_def Let_def)
  next
    case False
    have "is_name_start b \<Longrightarrow> is_name_char b" by (auto simp: is_name_start_def is_name_char_def)
    then have b: "b = backslash" "is_valid_escape s"
      using assms False Cons by (auto simp: starts_ident_def is_name_char_def split: if_splits)
    then have "\<And>t. consume_escape r \<noteq> EscIgnored t"
      using Cons by (auto simp: is_valid_escape_def consume_escape_def Let_def split: list.splits if_splits)
    then have "name_slow s [] \<noteq> NameNone"
      using b False Cons name_slow_some by (subst name_slow.simps) (auto split: escape_parse.splits)
    then show ?thesis using False Cons by (simp add: parse_name_def Let_def)
  qed
qed

text \<open>Numbers and Unicode ranges end after an ASCII byte.\<close>

lemma stops_run:
  assumes "\<And>c. P c \<Longrightarrow> ascii_char c" and "takeWhile P s \<noteq> []" shows "stops s (dropWhile P s)"
  unfolding stops_def
  using assms by (intro exI[of _ "takeWhile P s"]) (auto dest!: last_in_set set_takeWhileD)

lemma stops_eq_run: "(\<And>c. P c \<Longrightarrow> ascii_char c) \<Longrightarrow> stops_eq s (dropWhile P s)"
  using stops_run[of P s] takeWhile_dropWhile_id[of P s]
  by (cases "takeWhile P s = []") (auto simp: stops_eq_def simp del: takeWhile_dropWhile_id)

lemma stops_eq_run_max:
  assumes "\<And>c. P c \<Longrightarrow> ascii_char c"
  shows "stops_eq s (drop (length (takeWhile P (take n s))) s)"
proof (cases "takeWhile P (take n s) = []")
  case False
  then have "ascii_char (last (takeWhile P (take n s)))"
    using assms last_in_set set_takeWhileD by metis
  then show ?thesis
    using False takeWhile_take_drop[of P n s] unfolding stops_eq_def stops_def by metis
qed (simp add: stops_eq_def)

lemma stops_eq_trans: "stops_eq s u \<Longrightarrow> stops_eq u t \<Longrightarrow> stops_eq s t"
  by (auto simp: stops_eq_def intro: stops_trans)

lemma stops_eq_tl: "s = c # r \<Longrightarrow> ascii_char c \<Longrightarrow> stops_eq r t \<Longrightarrow> stops s t"
  by (auto simp: stops_eq_def intro: stops_Cons stops_trans)

lemma stops_eq_trans_stops: "stops s u \<Longrightarrow> stops_eq u t \<Longrightarrow> stops s t"
  by (auto simp: stops_eq_def intro: stops_trans)

lemma parse_number_stops:
  assumes "parse_number s = Some (n, t)" shows "stops s t"
proof -
  define s1 where "s1 = (if hd s = CHR ''+'' \<or> hd s = CHR ''-'' then tl s else s)"
  define s2 where "s2 = dropWhile ascii_digit s1"
  define dot where "dot = (s2 \<noteq> [] \<and> hd s2 = CHR ''.'')"
  have ne: "s \<noteq> []" using assms by (auto simp: parse_number_def)
  have t: "t = (if dot then dropWhile ascii_digit (tl s2) else s2)"
    and some: "takeWhile ascii_digit s1 \<noteq> [] \<or> dot"
    using assms unfolding parse_number_def Let_def
    by (auto simp: s1_def s2_def dot_def split: if_splits)
  have e1: "stops_eq s s1" using ne by (cases s) (auto simp: s1_def stops_eq_def ascii_char_def intro!: stops_Cons)
  have d: "\<And>c. ascii_digit c \<Longrightarrow> ascii_char c" by (rule ascii_classes)
  have e2: "stops_eq s1 s2" unfolding s2_def by (rule stops_eq_run[OF d])
  show ?thesis
  proof (cases dot)
    case True
    then obtain r where r: "s2 = CHR ''.'' # r" by (cases s2) (auto simp: dot_def)
    then have "stops s2 t"
      using True stops_eq_run[where s = r, OF d] t by (auto intro!: stops_eq_tl simp: ascii_char_def)
    then show ?thesis using e1 e2 by (auto simp: stops_eq_def intro: stops_trans)
  next
    case False
    then have "stops s1 s2" using some unfolding s2_def by (intro stops_run[OF d]) auto
    then show ?thesis using e1 t False by (auto simp: stops_eq_def intro: stops_trans)
  qed
qed

lemma parse_unicode_range_stops:
  assumes "parse_unicode_range s = Some (lo, hi, t)" shows "stops s t"
proof -
  obtain f r where s: "s = f # CHR ''+'' # r" and f: "f = CHR ''U'' \<or> f = CHR ''u''"
    using assms by (auto simp: parse_unicode_range_def split: list.splits if_splits)
  define r1 where "r1 = drop (length (takeWhile is_hex_digit (take 6 r))) r"
  define r2 where "r2 = drop (length (takeWhile (\<lambda>b. b = CHR ''?'')
    (take (6 - length (takeWhile is_hex_digit (take 6 r))) r1))) r1"
  have q: "\<And>c. c = CHR ''?'' \<Longrightarrow> ascii_char c" by (simp add: ascii_char_def)
  have "stops s r"
    unfolding s using f by (intro stops_eq_tl[OF refl]) (auto simp: stops_eq_def ascii_char_def intro!: stops_Cons)
  then have "stops s r1"
    unfolding r1_def by (rule stops_eq_trans_stops) (rule stops_eq_run_max[OF ascii_classes(4)])
  then have r2: "stops s r2"
    unfolding r2_def by (rule stops_eq_trans_stops) (rule stops_eq_run_max[OF q])
  have "t = r2 \<or> r2 \<noteq> [] \<and> hd r2 = CHR ''-'' \<and>
      t = drop (length (takeWhile is_hex_digit (take 6 (tl r2)))) (tl r2)"
    using assms f unfolding s parse_unicode_range_def Let_def r2_def r1_def
    by (auto split: if_splits)
  moreover have "stops r2 (drop (length (takeWhile is_hex_digit (take 6 (tl r2)))) (tl r2))"
    if dash: "r2 \<noteq> []" "hd r2 = CHR ''-''"
  proof -
    obtain r3 where "r2 = CHR ''-'' # r3" using dash by (cases r2) auto
    then show ?thesis
      by (intro stops_eq_tl) (auto simp: ascii_char_def intro: stops_eq_run_max[OF ascii_classes(4)])
  qed
  ultimately show ?thesis using r2 stops_trans by metis
qed

section \<open>URLs\<close>

lemma consume_bad_url_ok: "consume_bad_url s = [] \<or> stops s (consume_bad_url s)"
proof (induction s rule: consume_bad_url.induct)
  case (1 s)
  show ?case
  proof (cases s)
    case (Cons b r)
    show ?thesis
    proof (cases "b = backslash \<and> is_valid_escape s")
      case True
      then have eq: "consume_bad_url s =
          (case consume_escape r of EscChar _ t \<Rightarrow> consume_bad_url t
           | EscIgnored t \<Rightarrow> consume_bad_url t | EscIncomplete \<Rightarrow> s)"
        using Cons by (subst consume_bad_url.simps) auto
      have b: "b \<noteq> CHR '')''" using True by auto
      have "consume_escape r \<noteq> EscIncomplete"
        using True Cons by (auto simp: is_valid_escape_def consume_escape_def Let_def split: list.splits)
      then consider ch t where "consume_escape r = EscChar ch t" | t where "consume_escape r = EscIgnored t"
        by (cases "consume_escape r") auto
      then show ?thesis
      proof cases
        case 1
        moreover have "consume_bad_url s = consume_bad_url t" unfolding eq by (simp add: 1)
        ultimately show ?thesis
          using "1.IH"(1)[OF Cons b True 1] escape_suffix_Cons(1)[OF 1, of b] Cons
          by (auto intro: stops_suffix)
      next
        case 2
        moreover have "consume_bad_url s = consume_bad_url t" unfolding eq by (simp add: 2)
        ultimately show ?thesis
          using "1.IH"(2)[OF Cons b True 2] escape_suffix_Cons(2)[OF 2, of b] Cons
          by (auto intro: stops_suffix)
      qed
    next
      case False
      show ?thesis
        using "1.IH"(3)[OF Cons] False Cons stops_suffix[of r _ s]
        by (subst (1 2) consume_bad_url.simps)
          (auto simp: suffix_ConsI ascii_char_def intro!: stops_Cons)
    qed
  qed (subst consume_bad_url.simps, simp)
qed

lemma bad_url_stops: "suffix t s \<Longrightarrow> s \<noteq> [] \<Longrightarrow> stops s (consume_bad_url t)"
  using consume_bad_url_ok[of t] stops_suffix stops_Nil by fastforce

fun url_ok :: "string \<Rightarrow> url_parse \<Rightarrow> bool" where
  "url_ok s (UrlParsed v t) \<longleftrightarrow> stops s t"
| "url_ok s (UrlBad t) \<longleftrightarrow> t = [] \<or> stops s t"
| "url_ok s UrlIncomplete \<longleftrightarrow> True"

lemma url_ok_if: "(P \<Longrightarrow> url_ok s x) \<Longrightarrow> (\<not> P \<Longrightarrow> url_ok s y) \<Longrightarrow> url_ok s (if P then x else y)"
  by simp

lemma url_ok_suffix: "url_ok u x \<Longrightarrow> suffix u s \<Longrightarrow> url_ok s x"
  by (cases x) (auto intro: stops_suffix)

lemma url_bad: "suffix t s \<Longrightarrow> url_ok s (UrlBad (consume_bad_url t))"
  using consume_bad_url_ok[of t] by (auto intro: stops_suffix)

lemma stops_paren:
  assumes "suffix t s" and "t \<noteq> [] \<and> hd t = CHR '')''" shows "stops s (tl t)"
  using assms by (cases t) (auto simp: ascii_char_def intro!: stops_suffix[OF stops_Cons])

lemma url_loop_ok: "url_ok s (url_loop s v)"
proof (induction s v rule: url_loop.induct)
  case (1 s v)
  show ?case
  proof (cases s)
    case (Cons b r)
    have dw: "suffix (dropWhile is_whitespace s) s" by (rule suffix_dropWhile)
    have r: "suffix r s" by (simp add: Cons suffix_ConsI)
    have escaped: "url_ok s (case consume_escape r of
        EscChar ch t \<Rightarrow> url_loop t (push_char v ch)
      | EscIgnored _ \<Rightarrow> UrlBad (consume_bad_url r) | EscIncomplete \<Rightarrow> UrlIncomplete)"
      if c: "b \<noteq> CHR '')''" "\<not> is_whitespace b"
        "\<not> (b = CHR 0x22 \<or> b = CHR 0x27 \<or> b = CHR ''('' \<or> is_non_printable b \<or> is_newline b)"
        "b = backslash" "\<not> \<not> is_valid_escape s"
    proof (cases "consume_escape r")
      case (EscChar ch t)
      have "url_ok t (url_loop t (push_char v ch))" using "1.IH"(1)[OF Cons c EscChar] .
      then show ?thesis
        using escape_suffix_Cons(1)[OF EscChar, of b] Cons EscChar by (auto intro: url_ok_suffix)
    qed (simp_all add: url_bad[OF r] del: url_ok.simps(2))
    have eq: "url_loop s v =
       (if b = CHR '')'' then UrlParsed v r
        else if is_whitespace b then
          (if dropWhile is_whitespace s \<noteq> [] \<and> hd (dropWhile is_whitespace s) = CHR '')''
           then UrlParsed v (tl (dropWhile is_whitespace s))
           else UrlBad (consume_bad_url (dropWhile is_whitespace s)))
        else if b = CHR 0x22 \<or> b = CHR 0x27 \<or> b = CHR ''('' \<or> is_non_printable b \<or> is_newline b then
          UrlBad (consume_bad_url s)
        else if b = backslash then
          (if \<not> is_valid_escape s then UrlBad (consume_bad_url r)
           else case consume_escape r of
                  EscChar ch next \<Rightarrow> url_loop next (push_char v ch)
                | EscIgnored _ \<Rightarrow> UrlBad (consume_bad_url r)
                | EscIncomplete \<Rightarrow> UrlIncomplete)
        else url_loop r (push_char v (byte_of b)))"
      by (subst url_loop.simps) (simp only: Cons list.case Let_def)
    show ?thesis
      unfolding eq
    proof (intro url_ok_if)
      show "url_ok s (UrlParsed v r)" if "b = CHR '')''"
        using that by (simp add: Cons stops_Cons ascii_char_def)
      show "url_ok s (UrlBad (consume_bad_url s))" by (rule url_bad) simp
      show "url_ok s (url_loop r (push_char v (byte_of b)))"
        if "b \<noteq> CHR '')''" "\<not> is_whitespace b"
          "\<not> (b = CHR 0x22 \<or> b = CHR 0x27 \<or> b = CHR ''('' \<or> is_non_printable b \<or> is_newline b)"
          "b \<noteq> backslash"
        using "1.IH"(2)[OF Cons that] r by (rule url_ok_suffix)
    qed (use url_bad[OF r] url_bad[OF dw] stops_paren[OF dw] escaped in \<open>simp_all\<close>)
  qed (subst url_loop.simps, simp)
qed

lemma parse_url_ok: "url_ok s (parse_url s)"
proof -
  define t where "t = dropWhile is_whitespace s"
  have t: "suffix t s" unfolding t_def by (rule suffix_dropWhile)
  show ?thesis
  proof (cases t)
    case Nil
    then show ?thesis by (simp add: parse_url_def t_def[symmetric])
  next
    case (Cons b r)
    have r: "suffix r s" using t Cons suffix_ConsD by metis
    have quoted: "url_ok s (case parse_string b r of
         StrParsed v next \<Rightarrow>
           (let next = dropWhile is_whitespace next
            in if next \<noteq> [] \<and> hd next = CHR '')'' then UrlParsed v (tl next)
               else UrlBad (consume_bad_url next))
       | StrBad _ \<Rightarrow> UrlBad (consume_bad_url r)
       | StrIncomplete \<Rightarrow> UrlIncomplete)" if q: "b = CHR 0x22 \<or> b = CHR 0x27"
    proof (cases "parse_string b r")
      case (StrParsed v u)
      have "ascii_char b" using q by (auto simp: ascii_char_def)
      then have "suffix u r" using parse_string_ok[of b r] StrParsed stops_strict by (auto simp: strict_suffix_def)
      then have "suffix (dropWhile is_whitespace u) s"
        by (meson r suffix_dropWhile suffix_order.trans)
      then show ?thesis using StrParsed url_bad stops_paren by (auto simp: Let_def)
    qed (use r url_bad in \<open>auto\<close>)
    have "url_ok s (url_loop t [])" using url_loop_ok t by (rule url_ok_suffix)
    moreover have "b = CHR '')'' \<Longrightarrow> stops s r"
      using t Cons by (auto simp: ascii_char_def intro!: stops_suffix[OF stops_Cons])
    ultimately show ?thesis
      using quoted Cons unfolding parse_url_def Let_def t_def[symmetric] by (simp add: Let_def)
  qed
qed

section \<open>Each iteration moves on\<close>

lemma strict_suffix_tl_trans: "strict_suffix t (tl s) \<Longrightarrow> strict_suffix t s"
  by (meson suffix_order.less_le_trans suffix_tl)

lemma strict_suffix_tl_tl: "suffix t u \<Longrightarrow> strict_suffix u s \<Longrightarrow> strict_suffix t s"
  by (rule suffix_order.le_less_trans)

lemma delim_step_progress: "delim_step s ts = Go s' ts' \<Longrightarrow> s \<noteq> [] \<Longrightarrow> strict_suffix s' s"
  by (auto simp: delim_step_def Let_def strict_suffix_drop split: if_splits)

lemma string_step_progress:
  assumes "string_step s ts = Go s' ts'" "s \<noteq> []" "ascii_char (hd s)"
  shows "strict_suffix s' s"
  using assms parse_string_ok[of "hd s" "tl s"]
  by (auto simp: string_step_def suffix_tl_strict strict_suffix_tl_trans stops_strict
      split: string_parse.splits)

lemma hash_step_progress: "hash_step s ts = Go s' ts' \<Longrightarrow> s \<noteq> [] \<Longrightarrow> strict_suffix s' s"
  using parse_name_strict[of "tl s"]
  by (auto simp: hash_step_def strict_suffix_tl_trans split: name_parse.splits)

lemma at_step_progress: "at_step s ts = Go s' ts' \<Longrightarrow> s \<noteq> [] \<Longrightarrow> strict_suffix s' s"
  using parse_ident_stops(1)[of "tl s"]
  by (auto simp: at_step_def strict_suffix_tl_trans split: name_parse.splits)

lemma number_step_progress:
  assumes "number_step s ts = Go s' ts'" "s \<noteq> []" shows "strict_suffix s' s"
proof (cases "parse_number s")
  case None
  then show ?thesis using assms by (simp add: number_step_def delim_step_progress)
next
  case (Some r)
  obtain n t where r: "r = (n, t)" by (cases r)
  have t: "strict_suffix t s" using parse_number_stops Some r stops_strict by blast
  then show ?thesis
    using assms Some r parse_ident_stops(1)[of t] strict_suffix_tl_tl[OF suffix_tl t]
    by (auto simp: number_step_def split: if_splits name_parse.splits intro: suffix_order.strict_trans)
qed

lemma ident_step_progress:
  assumes "ident_step s ts = Go s' ts'" "starts_ident s" shows "strict_suffix s' s"
proof -
  have "parse_ident s \<noteq> NameNone" using assms(2) starts_ident_parses by (simp add: parse_ident_def)
  then obtain w t where p: "parse_ident s = NameParsed w t"
    using assms(1) by (cases "parse_ident s") (auto simp: ident_step_def)
  have t: "strict_suffix t s" using parse_ident_stops(1)[OF p] by simp
  have u: "strict_suffix (tl t) s" using strict_suffix_tl_tl[OF suffix_tl t] .
  have "url_ok (tl t) (parse_url (tl t))" by (rule parse_url_ok)
  moreover have "strict_suffix [] s" using assms(2) by (auto simp: starts_ident_def strict_suffix_def)
  ultimately show ?thesis
    using assms(1) p t u
    by (cases "parse_url (tl t)")
      (auto simp: ident_step_def split: if_splits dest!: stops_strict intro: suffix_order.strict_trans)
qed

lemma feed_step_progress:
  assumes "feed_step search s ts = Go s' ts'" and s: "s \<noteq> []"
  shows "strict_suffix s' s"
proof -
  have c: "comment_step search s ts = Go s' ts' \<Longrightarrow> strict_suffix s' s"
    using s by (auto simp: comment_step_def split: option.splits intro!: strict_suffix_drop)
  have p: "punct_step s ts = Go s' ts' \<Longrightarrow> strict_suffix s' s"
    using s by (auto simp: punct_step_def delim_step_progress split: option.splits)
  show ?thesis
  proof (cases "parse_unicode_range s")
    case None
    then show ?thesis
      using assms c p
      by (auto simp: feed_step_def Let_def strict_suffix_dropWhile strict_suffix_drop
          string_step_progress ascii_char_def hash_step_progress at_step_progress
          number_step_progress ident_step_progress split: if_splits)
  next
    case (Some r)
    obtain lo hi t where "r = (lo, hi, t)" by (cases r)
    then show ?thesis
      using assms c p Some parse_unicode_range_stops[of s lo hi t]
      by (auto simp: feed_step_def Let_def strict_suffix_dropWhile strict_suffix_drop stops_strict
          string_step_progress ascii_char_def hash_step_progress at_step_progress split: if_splits)
  qed
qed

lemma feed_loop_returns: "\<exists>r. feed_loop search s ts = Some r"
proof (induction "length s" arbitrary: s ts rule: less_induct)
  case less
  show ?case
  proof (cases "s = []")
    case False
    have "\<exists>r. feed_loop search s' ts' = Some r" if "feed_step search s ts = Go s' ts'" for s' ts'
      using less feed_step_progress[OF that False] suffix_length_less by blast
    then show ?thesis
      by (subst feed_loop.simps) (simp split: feed_outcome.split)
  qed (subst feed_loop.simps, simp)
qed

end
