(* ===== verification/Css_Token_Valid.thy ===== *)
theory Css_Token_Valid
  imports Css_Token_Safe
begin

text \<open>
  The tokenizer on valid text: positions stay at character boundaries as long as no backslash stands
  directly before a character outside ASCII, so \<open>feed\<close> returns tokens and keeps a valid rest.
  Such an escape makes it panic.
\<close>

section \<open>Cutting valid text\<close>

definition str_byte :: "char \<Rightarrow> u8" where
  "str_byte c = word_of_nat (of_char c)"

lemma str_bytes_Cons [simp]: "str_bytes (c # s) = str_byte c # str_bytes s" "str_bytes [] = []"
  by (simp_all add: str_bytes_def str_byte_def)

lemma unat_str_byte [simp]: "unat (str_byte c) = byte_of c"
  by (simp add: str_byte_def byte_of_def unat_of_nat)

lemma str_byte_less: "str_byte c < 0x80 \<longleftrightarrow> ascii_char c"
  by (simp add: word_less_nat_alt ascii_char_def)

lemma rust_str_Nil [simp]: "rust_str []"
  by (simp add: rust_str_def)

lemma str_byte_eq: "str_byte c = w \<longleftrightarrow> byte_of c = unat w"
  by (metis unat_str_byte word_unat_eq_iff)

lemma utf8_str_byte:
  "utf8_cont (str_byte c) \<longleftrightarrow> 128 \<le> byte_of c \<and> byte_of c \<le> 191"
  "utf8_two (str_byte a) \<longleftrightarrow> 194 \<le> byte_of a \<and> byte_of a \<le> 223"
  "utf8_three (str_byte a) (str_byte b) \<longleftrightarrow>
     224 \<le> byte_of a \<and> byte_of a \<le> 239 \<and> 128 \<le> byte_of b \<and> byte_of b \<le> 191
       \<and> (byte_of a = 224 \<longrightarrow> 160 \<le> byte_of b) \<and> (byte_of a = 237 \<longrightarrow> byte_of b \<le> 159)"
  "utf8_four (str_byte a) (str_byte b) \<longleftrightarrow>
     240 \<le> byte_of a \<and> byte_of a \<le> 244 \<and> 128 \<le> byte_of b \<and> byte_of b \<le> 191
       \<and> (byte_of a = 240 \<longrightarrow> 144 \<le> byte_of b) \<and> (byte_of a = 244 \<longrightarrow> byte_of b \<le> 143)"
  by (simp_all add: utf8_cont_def utf8_three_def utf8_four_def word_le_nat_alt str_byte_eq) arith+

lemma rust_str_Cons:
  "rust_str (a # s) \<longleftrightarrow>
     (if ascii_char a then rust_str s
      else (case s of
        [] \<Rightarrow> False
      | b # t \<Rightarrow>
          if utf8_two (str_byte a) then utf8_cont (str_byte b) \<and> rust_str t
          else (case t of
            [] \<Rightarrow> False
          | c # u \<Rightarrow>
              if utf8_three (str_byte a) (str_byte b) then utf8_cont (str_byte c) \<and> rust_str u
              else (case u of
                [] \<Rightarrow> False
              | e # v \<Rightarrow> utf8_four (str_byte a) (str_byte b) \<and> utf8_cont (str_byte c)
                           \<and> utf8_cont (str_byte e) \<and> rust_str v))))"
  unfolding rust_str_def str_bytes_Cons utf8_valid.simps(2) str_byte_less
  by (auto split: list.split)

lemma rust_str_at_boundary: "rust_str s \<Longrightarrow> at_boundary s"
  by (cases s) (auto simp: rust_str_Cons at_boundary_def cont_byte_def utf8_str_byte ascii_char_def
      simp del: utf8_two.simps split: list.splits if_splits)

lemma rust_str_char_cases:
  assumes "rust_str (a # s)"
  obtains (one) "byte_of a < 128" "rust_str s"
    | (two) b t where "s = b # t" "194 \<le> byte_of a" "byte_of a \<le> 223"
        "128 \<le> byte_of b" "byte_of b \<le> 191" "rust_str t"
    | (three) b c t where "s = b # c # t" "224 \<le> byte_of a" "byte_of a \<le> 239"
        "128 \<le> byte_of b" "byte_of b \<le> 191" "128 \<le> byte_of c" "byte_of c \<le> 191"
        "byte_of a = 224 \<Longrightarrow> 160 \<le> byte_of b" "rust_str t"
    | (four) b c e t where "s = b # c # e # t" "240 \<le> byte_of a" "byte_of a \<le> 244"
        "128 \<le> byte_of b" "byte_of b \<le> 191" "128 \<le> byte_of c" "byte_of c \<le> 191"
        "128 \<le> byte_of e" "byte_of e \<le> 191" "byte_of a = 240 \<Longrightarrow> 144 \<le> byte_of b" "rust_str t"
proof -
  show ?thesis
  proof (cases "ascii_char a")
    case True
    then show ?thesis using assms one by (simp add: rust_str_Cons ascii_char_def)
  next
    case False
    then obtain b t where s: "s = b # t" using assms by (cases s) (auto simp: rust_str_Cons)
    show ?thesis
    proof (cases "utf8_two (str_byte a)")
      case True
      then show ?thesis
        using assms two[OF s] False by (simp add: s rust_str_Cons utf8_str_byte del: utf8_two.simps)
    next
      case t2: False
      then obtain c u where t: "t = c # u" using assms False
        by (cases t) (auto simp: rust_str_Cons s)
      show ?thesis
      proof (cases "utf8_three (str_byte a) (str_byte b)")
        case True
        then show ?thesis
          using assms three[of b c u] False t2 True[unfolded utf8_str_byte]
          by (simp add: s t rust_str_Cons utf8_str_byte(1) del: utf8_two.simps)
      next
        case t3: False
        then obtain e v where u: "u = e # v" using assms False t2
          by (cases u) (auto simp: rust_str_Cons s t)
        then have "utf8_four (str_byte a) (str_byte b) \<and> utf8_cont (str_byte c)
            \<and> utf8_cont (str_byte e) \<and> rust_str v"
          using assms False t2 t3 by (simp add: s t rust_str_Cons del: utf8_two.simps)
        then show ?thesis using four[of b c e v] by (simp add: s t u utf8_str_byte(1,4))
      qed
    qed
  qed
qed

lemma rust_str_ascii_split:
  "rust_str (p @ c # s) \<Longrightarrow> ascii_char c \<Longrightarrow> rust_str (c # s)"
proof (induction "length p" arbitrary: p rule: less_induct)
  case less
  show ?case
  proof (cases p)
    case Nil
    then show ?thesis using less.prems by simp
  next
    case (Cons a q)
    then have "rust_str (a # (q @ c # s))" using less.prems by simp
    then show ?thesis
    proof (cases rule: rust_str_char_cases)
      case one
      then show ?thesis using less.hyps[of q] less.prems(2) Cons by simp
    next
      case (two b t)
      then obtain q1 where "q = b # q1" "t = q1 @ c # s"
        using less.prems(2) by (cases q) (auto simp: ascii_char_def)
      then show ?thesis using less.hyps[of q1] less.prems(2) two Cons by simp
    next
      case (three b d t)
      then obtain q1 where "q = b # d # q1" "t = q1 @ c # s"
        using less.prems(2) by (cases q; cases "tl q") (auto simp: ascii_char_def)
      then show ?thesis using less.hyps[of q1] less.prems(2) three Cons by simp
    next
      case (four b d e t)
      then obtain q1 where "q = b # d # e # q1" "t = q1 @ c # s"
        using less.prems(2) by (cases q; cases "tl q"; cases "tl (tl q)") (auto simp: ascii_char_def)
      then show ?thesis using less.hyps[of q1] less.prems(2) four Cons by simp
    qed
  qed
qed

lemma rust_str_after_ascii: "rust_str (p @ c # s) \<Longrightarrow> ascii_char c \<Longrightarrow> rust_str s"
  using rust_str_ascii_split by (auto simp: rust_str_Cons)

lemma rust_str_stops: "rust_str s \<Longrightarrow> stops s t \<Longrightarrow> rust_str t"
proof -
  assume s: "rust_str s" and "stops s t"
  then obtain p where p: "s = p @ t" "p \<noteq> []" "t = [] \<or> ascii_char (hd t) \<or> ascii_char (last p)"
    by (auto simp: stops_def)
  show "rust_str t"
  proof (cases "t = [] \<or> ascii_char (hd t)")
    case True
    then show ?thesis using s p(1) by (cases t) (auto intro: rust_str_ascii_split)
  next
    case False
    then have "ascii_char (last p)" using p by blast
    moreover have "s = butlast p @ last p # t" using p by simp
    ultimately show ?thesis using s rust_str_after_ascii by metis
  qed
qed

lemma rust_str_next_char:
  assumes "rust_str s" and "s \<noteq> []" shows "rust_str (drop (len_utf8 (first_char s)) s)"
proof -
  obtain a r where s: "s = a # r" using assms(2) by (cases s) auto
  have "rust_str (a # r)" using assms(1) s by simp
  then show ?thesis
  proof (cases rule: rust_str_char_cases)
    case one
    then show ?thesis by (simp add: s first_char_def str_chars_def len_utf8_def)
  next
    case (two b t)
    then have "128 \<le> (byte_of a - 192) * 64 + (byte_of b - 128)"
      "(byte_of a - 192) * 64 + (byte_of b - 128) < 2048" by auto
    then show ?thesis using two by (simp add: s first_char_def str_chars_def len_utf8_def)
  next
    case (three b c t)
    have "2048 \<le> (byte_of a - 224) * 4096 + (byte_of b - 128) * 64 + (byte_of c - 128)"
      using three by (cases "byte_of a = 224") auto
    then show ?thesis using three by (simp add: s first_char_def str_chars_def len_utf8_def numeral_3_eq_3)
  next
    case (four b c e t)
    have "65536 \<le> (byte_of a - 240) * 262144 + (byte_of b - 128) * 4096 + (byte_of c - 128) * 64
        + (byte_of e - 128)"
      using four by (cases "byte_of a = 240") auto
    then show ?thesis using four by (simp add: s first_char_def str_chars_def len_utf8_def)
  qed
qed

section \<open>The tokenizer on valid text\<close>

text \<open>What the code relies on of \<open>memmem::find\<close>: the position it returns is an occurrence.\<close>

definition search_sound :: "search_fn \<Rightarrow> bool" where
  "search_sound search \<longleftrightarrow> (\<forall>h n p. search h n = Some p \<longrightarrow> starts n (drop p h))"

definition step_safe :: "feed_outcome \<Rightarrow> bool" where
  "step_safe x \<longleftrightarrow> x \<noteq> Panic \<and> (\<forall>t ts. x = Go t ts \<longrightarrow> rust_str t)"

lemma step_safe_simps [simp]:
  "step_safe (Go t ts) \<longleftrightarrow> rust_str t" "step_safe Leave" "\<not> step_safe Panic"
  by (simp_all add: step_safe_def)

lemma delim_step_safe: "rust_str s \<Longrightarrow> s \<noteq> [] \<Longrightarrow> step_safe (delim_step s ts)"
  by (simp add: delim_step_def rust_str_at_boundary rust_str_next_char Let_def)

lemma starts_ascii_drop:
  assumes "starts p s" "rust_str s" "p \<noteq> []" "ascii_char (last p)"
  shows "rust_str (drop (length p) s)"
proof -
  have "s = p @ drop (length p) s" using assms(1) by (metis append_take_drop_id starts_def)
  also have "\<dots> = butlast p @ last p # drop (length p) s" using assms(3) by simp
  finally have "s = butlast p @ last p # drop (length p) s" .
  then show ?thesis using assms rust_str_after_ascii by metis
qed

lemma rust_str_tl: "rust_str (c # s) \<Longrightarrow> ascii_char c \<Longrightarrow> rust_str s"
  by (simp add: rust_str_Cons)

lemma starts_close: "starts ''*/'' h \<Longrightarrow> \<exists>u. h = CHR ''*'' # CHR ''/'' # u"
  by (cases h; cases "tl h") (auto simp: starts_def)

lemma comment_step_safe:
  assumes "search_sound search" "starts ''/*'' s" "rust_str s"
  shows "step_safe (comment_step search s ts)"
proof (cases "search (drop 2 s) ''*/''")
  case (Some p)
  have d: "rust_str (drop 2 s)"
    using starts_ascii_drop[OF assms(2,3)] by (simp add: ascii_char_def numeral_2_eq_2)
  have "starts ''*/'' (drop p (drop 2 s))"
    using assms(1) Some unfolding search_sound_def by blast
  then obtain u where u: "drop p (drop 2 s) = CHR ''*'' # CHR ''/'' # u"
    using starts_close by blast
  then have eq: "drop 2 s = (take p (drop 2 s) @ [CHR ''*'']) @ CHR ''/'' # u"
    by (metis append.assoc append_Cons append_Nil append_take_drop_id)
  have "rust_str ((take p (drop 2 s) @ [CHR ''*'']) @ CHR ''/'' # u)" using d eq by metis
  then have "rust_str u" by (rule rust_str_after_ascii) (simp add: ascii_char_def)
  moreover have "drop (p + 2) (drop 2 s) = u"
    by (metis u add.commute drop_drop drop0 drop_Suc_Cons numeral_2_eq_2)
  ultimately have "rust_str (drop (p + 2) (drop 2 s))" by simp
  then show ?thesis using Some by (simp add: comment_step_def)
qed (simp add: comment_step_def)

lemma string_step_safe:
  assumes "rust_str s" "s \<noteq> []" "ascii_char (hd s)" shows "step_safe (string_step s ts)"
proof -
  have tl: "rust_str (tl s)" using assms by (cases s) (auto simp: rust_str_Cons)
  have bad: "rust_str t" if "suffix t (tl s)" and t: "t \<noteq> []" "is_newline (hd t)" for t
  proof -
    obtain p where "tl s = p @ hd t # tl t" using \<open>suffix t (tl s)\<close> t by (auto simp: suffix_def)
    then have "rust_str (hd t # tl t)"
      using tl ascii_classes(1)[OF t(2)] by (metis rust_str_ascii_split)
    then show ?thesis using t(1) by simp
  qed
  have ok: "str_ok (tl s) (parse_string (hd s) (tl s))" by (rule parse_string_ok[OF assms(3)])
  show ?thesis
  proof (cases "parse_string (hd s) (tl s)")
    case (StrParsed v t)
    then show ?thesis using ok rust_str_stops[OF tl, of t] by (simp add: string_step_def)
  next
    case (StrBad t)
    then show ?thesis using ok bad by (simp add: string_step_def)
  qed (simp add: string_step_def)
qed

lemma hash_step_safe:
  assumes "rust_str (c # s)" "ascii_char c" "escapes_ascii s" shows "step_safe (hash_step (c # s) ts)"
  using parse_name_stops[OF _ assms(3)] rust_str_tl[OF assms(1,2)]
  by (auto simp: hash_step_def intro: rust_str_stops split: name_parse.split)

lemma at_step_safe:
  assumes "rust_str (c # s)" "ascii_char c" "escapes_ascii s" shows "step_safe (at_step (c # s) ts)"
  using parse_ident_stops(2)[OF _ assms(3)] rust_str_tl[OF assms(1,2)]
  by (auto simp: at_step_def intro: rust_str_stops split: name_parse.split)

lemma rust_str_tl_hd: "rust_str s \<Longrightarrow> s \<noteq> [] \<Longrightarrow> ascii_char (hd s) \<Longrightarrow> rust_str (tl s)"
  by (cases s) (auto simp: rust_str_Cons)

lemma number_step_safe:
  assumes "rust_str s" "s \<noteq> []" "escapes_ascii s" shows "step_safe (number_step s ts)"
proof (cases "parse_number s")
  case None
  then show ?thesis using assms by (simp add: number_step_def delim_step_safe)
next
  case (Some r)
  obtain n t where r: "r = (n, t)" by (cases r)
  have st: "stops s t" using parse_number_stops Some r by blast
  then have t: "rust_str t" using assms(1) rust_str_stops by blast
  have e: "escapes_ascii t"
    using st assms(3) escapes_ascii_suffix stops_strict by (auto simp: strict_suffix_def)
  show ?thesis
    using Some r t rust_str_stops[OF t] parse_ident_stops(2)[OF _ e] rust_str_tl_hd[OF t]
    by (auto simp: number_step_def ascii_char_def split: name_parse.split)
qed

lemma ident_step_safe:
  assumes "rust_str s" "escapes_ascii s" shows "step_safe (ident_step s ts)"
proof (cases "parse_ident s")
  case (NameParsed w t)
  have t: "rust_str t" using parse_ident_stops(2)[OF NameParsed] assms rust_str_stops by blast
  have "step_safe (case parse_url (tl t) of
      UrlParsed v u \<Rightarrow> Go u (ts @ [Url v]) | UrlBad u \<Rightarrow> Go u (ts @ [BadUrl]) | UrlIncomplete \<Rightarrow> Leave)"
    if "t \<noteq> []" "hd t = CHR ''(''"
    using parse_url_ok[of "tl t"] rust_str_tl_hd[OF t that(1)] that(2)
    by (cases "parse_url (tl t)") (auto simp: ascii_char_def intro: rust_str_stops)
  then show ?thesis
    using NameParsed t rust_str_tl_hd[OF t] by (auto simp: ident_step_def ascii_char_def)
qed (use assms in \<open>auto simp: ident_step_def\<close>)

lemma feed_step_safe:
  assumes search: "search_sound search" and s: "rust_str s" "escapes_ascii s" "s \<noteq> []"
  shows "step_safe (feed_step search s ts)"
proof -
  obtain c r where c: "s = c # r" using s(3) by (cases s) auto
  have e: "escapes_ascii r" using s(2) c escapes_ascii_Cons by blast
  have "ascii_char (hd s) \<Longrightarrow> rust_str (tl s)" using rust_str_tl_hd s by blast
  then have punct: "step_safe (punct_step s ts)"
    using s(1,3) by (auto simp: punct_step_def delim_step_safe ascii_char_def split: option.split if_splits)
  have ws: "rust_str (dropWhile is_whitespace s)" if "is_whitespace c"
    using stops_run[OF ascii_classes(2), of is_whitespace s] that c s(1) by (auto intro: rust_str_stops)
  have range: "rust_str t" if "parse_unicode_range s = Some (lo, hi, t)" for lo hi t
    using parse_unicode_range_stops[OF that] s(1) rust_str_stops by blast
  have rest: "step_safe (case parse_unicode_range s of
          Some (lo, hi, next) \<Rightarrow> Go next (ts @ [UnicodeRange lo hi])
        | None \<Rightarrow> if starts_number s then number_step s ts
                   else if starts_ident s then ident_step s ts else punct_step s ts)"
    using range punct number_step_safe[OF s(1,3,2)] ident_step_safe[OF s(1,2)]
    by (auto split: option.split)
  have "step_safe (string_step s ts)" if "c = CHR 0x22 \<or> c = CHR 0x27"
    using that string_step_safe[OF s(1,3)] c by (auto simp: ascii_char_def)
  moreover have "step_safe (hash_step s ts)" if "c = CHR ''#''"
    using hash_step_safe[of c r] e s c that by (auto simp: ascii_char_def)
  moreover have "step_safe (at_step s ts)" if "c = CHR ''@''"
    using at_step_safe[of c r] e s c that by (auto simp: ascii_char_def)
  moreover have "rust_str (drop 4 s)" if "starts ''<!--'' s"
    using starts_ascii_drop[OF that s(1)] by (simp add: ascii_char_def eval_nat_numeral)
  moreover have "rust_str (drop 3 s)" if "starts ''-->'' s"
    using starts_ascii_drop[OF that s(1)] by (simp add: ascii_char_def eval_nat_numeral)
  ultimately show ?thesis
    using comment_step_safe[OF search _ s(1)] ws rest
    unfolding feed_step_def Let_def c by (auto simp only: if_split step_safe_simps list.sel)
qed

lemma feed_loop_safe:
  assumes "search_sound search"
  shows "rust_str s \<Longrightarrow> escapes_ascii s \<Longrightarrow>
    \<exists>t ts'. feed_loop search s ts = Some (Inr (t, ts')) \<and> rust_str t \<and> suffix t s"
proof (induction "length s" arbitrary: s ts rule: less_induct)
  case less
  show ?case
  proof (cases "s = []")
    case True
    then show ?thesis by (subst feed_loop.simps) simp
  next
    case False
    have safe: "step_safe (feed_step search s ts)"
      using feed_step_safe assms less.prems False by blast
    show ?thesis
    proof (cases "feed_step search s ts")
      case (Go u us)
      have u: "strict_suffix u s" using feed_step_progress[OF Go False] .
      then obtain t ts' where "feed_loop search u us = Some (Inr (t, ts'))" "rust_str t" "suffix t u"
        using less.hyps[OF suffix_length_less[OF u], of us] safe Go escapes_ascii_suffix less.prems(2)
        by (auto simp: strict_suffix_def)
      moreover have "feed_loop search s ts = feed_loop search u us"
        using Go False by (subst feed_loop.simps) simp
      moreover have "suffix u s" using u by (simp add: strict_suffix_def)
      ultimately show ?thesis using suffix_order.trans by metis
    next
      case Leave
      then show ?thesis using False less.prems by (subst feed_loop.simps) simp
    next
      case Panic
      then show ?thesis using safe by simp
    qed
  qed
qed

section \<open>Properties\<close>

text \<open>Feeding text to the CSS tokenizer always returns, whatever the text and whatever the
  substring search answers.\<close>

theorem feed_returns: "\<exists>r. feed search input tk = Some r"
  using feed_loop_returns[of search "buffer tk @ input" "[]"]
  by (auto simp: feed_def Let_def split: sum.split)

lemma feed_ok:
  assumes "search_sound search" and "rust_str (buffer tk @ input)"
    and "escapes_ascii (buffer tk @ input)"
  shows "\<exists>tokens rest. feed search input tk = Some (Inr (tokens, tk\<lparr>buffer := rest\<rparr>))
    \<and> rust_str rest \<and> suffix rest (buffer tk @ input)"
  using feed_loop_safe[OF assms, of "[]"] rust_str_at_boundary by (auto simp: feed_def Let_def)

text \<open>C32: On valid text with no backslash directly before a character outside ASCII, \<open>feed\<close> does not
  panic: it returns tokens and keeps a suffix of the text, itself valid, for the next chunk.\<close>

theorem feed_safe:
  assumes "search_sound search" and "rust_str (buffer tk @ input)"
    and "escapes_ascii (buffer tk @ input)"
  shows "\<exists>tokens rest. feed search input tk = Some (Inr (tokens, tk\<lparr>buffer := rest\<rparr>))
    \<and> rust_str rest \<and> suffix rest (buffer tk @ input)"
  using assms by (rule feed_ok)

text \<open>A search that meets the contract.\<close>

fun search_naive :: "string \<Rightarrow> string \<Rightarrow> nat option" where
  "search_naive h n =
     (if starts n h then Some 0
      else (case h of [] \<Rightarrow> None | _ # h' \<Rightarrow> map_option Suc (search_naive h' n)))"

declare search_naive.simps [simp del]

lemma search_naive_sound: "search_sound search_naive"
proof -
  have "search_naive h n = Some p \<Longrightarrow> starts n (drop p h)" for h n p
  proof (induction h arbitrary: p)
    case Nil
    then show ?case by (subst (asm) search_naive.simps) (auto split: if_splits)
  next
    case (Cons c h)
    then show ?case by (subst (asm) search_naive.simps) (auto split: if_splits)
  qed
  then show ?thesis by (simp add: search_sound_def)
qed

theorem feed_safe_witness:
  "\<exists>tokens rest. feed search_naive ''a /* b */ { c: url(d); }'' css_tokenizer_new
      = Some (Inr (tokens, css_tokenizer_new\<lparr>buffer := rest\<rparr>))
    \<and> rust_str rest \<and> suffix rest (buffer css_tokenizer_new @ ''a /* b */ { c: url(d); }'')"
  by (rule feed_safe[OF search_naive_sound])
    (simp_all add: css_tokenizer_new_def rust_str_Cons ascii_char_def)

text \<open>A backslash before a character outside ASCII makes the tokenizer panic: the escape takes
  the first byte of the character and the next slice starts inside it.\<close>

theorem feed_panics_on_escape:
  "feed search [CHR 0x5C, CHR 0xC3, CHR 0xA9] css_tokenizer_new = Some (Inl CssPanic)"
proof -
  have "feed_step search [CHR 0x5C, CHR 0xC3, CHR 0xA9] [] = Go [CHR 0xA9] [Ident [CHR 0xC3, CHR 0x83]]"
    by code_simp
  moreover have "feed_step search [CHR 0xA9] [Ident [CHR 0xC3, CHR 0x83]] = Panic"
    by code_simp
  ultimately show ?thesis
    by (simp add: feed_def css_tokenizer_new_def feed_loop.simps)
qed

end
