(* ===== verification/Shell_Address.thy ===== *)
theory Shell_Address
  imports Shell_State Css_Token_Valid
begin

text \<open>
  Editing the address bar (\<open>crates/silksurf-app/src/input.rs\<close>). The caret is a byte offset into the
  text, clamped to a character boundary wherever it is used; \<open>String::insert\<close> and
  \<open>String::replace_range\<close> panic off a boundary, which is None here. The second half shows that the bar is
  an editor of characters: a text before the caret and a text after it. That valid text starts at a character
  boundary is a lemma of Css_Token_Valid.
\<close>

section \<open>Characters by byte offset\<close>

text \<open>\<open>str::is_char_boundary\<close>, and the two ends of every character of a string (\<open>char_indices\<close>).\<close>

definition is_char_boundary :: "string \<Rightarrow> nat \<Rightarrow> bool" where
  "is_char_boundary s i =
     (i = 0 \<or> (if i < length s then \<not> cont_byte (s ! i) else i = length s))"

definition char_starts :: "string \<Rightarrow> nat list" where
  "char_starts s = filter (\<lambda>i. i = 0 \<or> \<not> cont_byte (s ! i)) [0..<length s]"

definition char_ends :: "string \<Rightarrow> nat list" where
  "char_ends s = (if s = [] then [] else drop 1 (char_starts s) @ [length s])"

definition insert_str :: "string \<Rightarrow> nat \<Rightarrow> nat \<Rightarrow> string option" where
  "insert_str s i cp =
     (if is_char_boundary s i then Some (take i s @ utf8_encode cp @ drop i s) else None)"

definition remove_range :: "string \<Rightarrow> nat \<Rightarrow> nat \<Rightarrow> string option" where
  "remove_range s i j =
     (if i \<le> j \<and> is_char_boundary s i \<and> is_char_boundary s j then Some (take i s @ drop j s) else None)"

section \<open>The caret\<close>

definition ADDRESS_TEXT_MAX_CHARS :: nat where "ADDRESS_TEXT_MAX_CHARS = 2048"

definition previous_address_cursor :: "string \<Rightarrow> nat \<Rightarrow> nat" where
  "previous_address_cursor text cursor =
     (let cursor = min cursor (length text)
      in case last_opt (takeWhile (\<lambda>i. i < cursor) (char_starts text)) of Some i \<Rightarrow> i | None \<Rightarrow> 0)"

definition next_address_cursor :: "string \<Rightarrow> nat \<Rightarrow> nat" where
  "next_address_cursor text cursor =
     (let cursor = min cursor (length text)
      in case List.find (\<lambda>i. cursor < i) (char_ends text) of Some i \<Rightarrow> i | None \<Rightarrow> length text)"

definition clamp_address_cursor :: "string \<Rightarrow> nat \<Rightarrow> nat" where
  "clamp_address_cursor text cursor =
     (if length text \<le> cursor then length text
      else if is_char_boundary text cursor then cursor
      else previous_address_cursor text cursor)"

fun selected_address_caret :: "string \<Rightarrow> caret_motion \<Rightarrow> nat" where
  "selected_address_caret text CaretBackward = 0"
| "selected_address_caret text CaretStart = 0"
| "selected_address_caret text CaretForward = length text"
| "selected_address_caret text CaretEnd = length text"

section \<open>The operations\<close>

definition ascii_graphic :: "nat \<Rightarrow> bool" where
  "ascii_graphic cp \<longleftrightarrow> 33 \<le> cp \<and> cp \<le> 126"

definition address_paste_char_allowed :: "nat \<Rightarrow> bool" where
  "address_paste_char_allowed cp \<longleftrightarrow> ascii_graphic cp \<or> cp = 32"

definition clear_selected :: "('f, 'x, 'p) browser_state \<Rightarrow> ('f, 'x, 'p) browser_state" where
  "clear_selected s =
     (if address_select_all s
      then s\<lparr>address_text := [], address_select_all := False, address_cursor := 0\<rparr> else s)"

text \<open>One character at the caret.\<close>

definition insert_address_char ::
    "nat \<Rightarrow> ('f, 'x, 'p) browser_state \<Rightarrow> ('f, 'x, 'p) browser_state option" where
  "insert_address_char cp s =
     (let cursor = clamp_address_cursor (address_text s) (address_cursor s)
      in map_option (\<lambda>t. s\<lparr>address_text := t, address_cursor := cursor + len_utf8 cp\<rparr>)
           (insert_str (address_text s) cursor cp))"

definition push_address_char ::
    "nat \<Rightarrow> ('f, 'x, 'p) browser_state \<Rightarrow> (bool \<times> ('f, 'x, 'p) browser_state) option" where
  "push_address_char cp s =
     (if \<not> address_editing s \<or> \<not> (ascii_graphic cp \<or> cp = 32) then Some (False, s)
      else
        (let s = clear_selected s
         in if ADDRESS_TEXT_MAX_CHARS \<le> length (address_text s) then Some (False, s)
            else map_option (Pair True) (insert_address_char cp s)))"

definition edit_address_backspace ::
    "('f, 'x, 'p) browser_state \<Rightarrow> (bool \<times> ('f, 'x, 'p) browser_state) option" where
  "edit_address_backspace s =
     (if \<not> address_editing s then Some (False, s)
      else if address_select_all s then Some (True, clear_selected s)
      else
        (let cursor = clamp_address_cursor (address_text s) (address_cursor s);
             previous = previous_address_cursor (address_text s) cursor
         in if previous = cursor then Some (False, s\<lparr>address_cursor := cursor\<rparr>)
            else map_option (\<lambda>t. (True, s\<lparr>address_text := t, address_cursor := previous\<rparr>))
                   (remove_range (address_text s) previous cursor)))"

definition address_clipboard_text :: "('f, 'x, 'p) browser_state \<Rightarrow> string option" where
  "address_clipboard_text s =
     (if address_editing s \<and> address_text s \<noteq> [] then Some (address_text s) else None)"

fun paste_loop ::
    "nat list \<Rightarrow> bool \<Rightarrow> ('f, 'x, 'p) browser_state \<Rightarrow> (bool \<times> ('f, 'x, 'p) browser_state) option" where
  "paste_loop [] changed s = Some (changed, s)"
| "paste_loop (cp # cps) changed s =
     (if ADDRESS_TEXT_MAX_CHARS \<le> length (address_text s) then Some (changed, s)
      else case insert_address_char cp s of None \<Rightarrow> None | Some s \<Rightarrow> paste_loop cps True s)"

definition paste_address_text ::
    "string \<Rightarrow> ('f, 'x, 'p) browser_state \<Rightarrow> (bool \<times> ('f, 'x, 'p) browser_state) option" where
  "paste_address_text text s =
     (if \<not> address_editing s then Some (False, s)
      else paste_loop (filter address_paste_char_allowed (str_chars text))
             (address_select_all s) (clear_selected s))"

definition cut_address_text :: "('f, 'x, 'p) browser_state \<Rightarrow> bool \<times> ('f, 'x, 'p) browser_state" where
  "cut_address_text s =
     (if \<not> address_editing s \<or> \<not> address_select_all s \<or> address_text s = [] then (False, s)
      else (True, s\<lparr>address_text := [], address_select_all := False, address_cursor := 0\<rparr>))"

definition move_address_caret ::
    "caret_motion \<Rightarrow> ('f, 'x, 'p) browser_state \<Rightarrow> bool \<times> ('f, 'x, 'p) browser_state" where
  "move_address_caret motion s =
     (if \<not> address_editing s then (False, s)
      else
        (let text = address_text s;
             current =
               (if address_select_all s then selected_address_caret text motion
                else
                  (let cursor = clamp_address_cursor text (address_cursor s)
                   in case motion of
                        CaretBackward \<Rightarrow> previous_address_cursor text cursor
                      | CaretForward \<Rightarrow> next_address_cursor text cursor
                      | CaretStart \<Rightarrow> 0
                      | CaretEnd \<Rightarrow> length text))
         in (address_select_all s \<or> address_cursor s \<noteq> current,
             s\<lparr>address_select_all := False, address_cursor := current\<rparr>)))"

definition focus_address_bar :: "('f, 'x, 'p) browser_state \<Rightarrow> bool \<times> ('f, 'x, 'p) browser_state" where
  "focus_address_bar s =
     (let next_text = frame_url (frame s)
      in (\<not> address_editing s \<or> \<not> address_select_all s \<or> address_text s \<noteq> next_text,
          s\<lparr>address_editing := True, address_select_all := True, address_text := next_text,
            address_cursor := length next_text\<rparr>))"

section \<open>The editor of characters\<close>

text \<open>The characters of a string, each as its bytes.\<close>

function chars_of :: "string \<Rightarrow> string list" where
  "chars_of [] = []"
| "chars_of (b # bs) = (b # takeWhile cont_byte bs) # chars_of (dropWhile cont_byte bs)"
  by pat_completeness auto
termination by (relation "measure length") (auto simp: le_imp_less_Suc length_dropWhile_le)

text \<open>A text before the caret, a text after it, and whether all of it is selected.\<close>

record editor =
  ed_left :: "string list"
  ed_right :: "string list"
  ed_all :: bool

definition editor_of :: "('f, 'x, 'p) browser_state \<Rightarrow> editor" where
  "editor_of s =
     (let k = clamp_address_cursor (address_text s) (address_cursor s)
      in \<lparr>ed_left = chars_of (take k (address_text s)), ed_right = chars_of (drop k (address_text s)),
          ed_all = address_select_all s\<rparr>)"

datatype edit = TypeChar nat | Erase | Paste string | Cut | Caret caret_motion

definition ed_text :: "editor \<Rightarrow> string" where
  "ed_text e = concat (ed_left e @ ed_right e)"

definition ed_cleared :: "editor \<Rightarrow> editor" where
  "ed_cleared e = (if ed_all e then \<lparr>ed_left = [], ed_right = [], ed_all = False\<rparr> else e)"

definition ed_insert :: "nat \<Rightarrow> editor \<Rightarrow> editor" where
  "ed_insert cp e =
     (if ADDRESS_TEXT_MAX_CHARS \<le> length (ed_text e) then e else e\<lparr>ed_left := ed_left e @ [utf8_encode cp]\<rparr>)"

fun ed_move :: "caret_motion \<Rightarrow> editor \<Rightarrow> editor" where
  "ed_move CaretStart e = e\<lparr>ed_left := [], ed_right := ed_left e @ ed_right e\<rparr>"
| "ed_move CaretEnd e = e\<lparr>ed_left := ed_left e @ ed_right e, ed_right := []\<rparr>"
| "ed_move CaretBackward e =
     (if ed_left e = [] then e
      else e\<lparr>ed_left := butlast (ed_left e), ed_right := last (ed_left e) # ed_right e\<rparr>)"
| "ed_move CaretForward e =
     (case ed_right e of [] \<Rightarrow> e | c # cs \<Rightarrow> e\<lparr>ed_left := ed_left e @ [c], ed_right := cs\<rparr>)"

text \<open>A movement leaves a selection at its end that lies in the direction of the movement.\<close>

fun ed_collapse :: "caret_motion \<Rightarrow> caret_motion" where
  "ed_collapse CaretBackward = CaretStart"
| "ed_collapse CaretForward = CaretEnd"
| "ed_collapse m = m"

fun ed_step :: "edit \<Rightarrow> editor \<Rightarrow> editor" where
  "ed_step (TypeChar cp) e =
     (if address_paste_char_allowed cp then ed_insert cp (ed_cleared e) else e)"
| "ed_step Erase e =
     (if ed_all e then ed_cleared e else e\<lparr>ed_left := butlast (ed_left e)\<rparr>)"
| "ed_step (Paste text) e =
     fold ed_insert (filter address_paste_char_allowed (str_chars text)) (ed_cleared e)"
| "ed_step Cut e = (if ed_text e = [] then e else ed_cleared e)"
| "ed_step (Caret m) e = (if ed_all e then ed_move (ed_collapse m) (e\<lparr>ed_all := False\<rparr>) else ed_move m e)"

text \<open>The operations of the bar, one per edit.\<close>

fun edit_address ::
    "edit \<Rightarrow> ('f, 'x, 'p) browser_state \<Rightarrow> ('f, 'x, 'p) browser_state option" where
  "edit_address (TypeChar cp) s = map_option snd (push_address_char cp s)"
| "edit_address Erase s = map_option snd (edit_address_backspace s)"
| "edit_address (Paste text) s = map_option snd (paste_address_text text s)"
| "edit_address Cut s = Some (snd (cut_address_text s))"
| "edit_address (Caret m) s = Some (snd (move_address_caret m s))"

fun edit_all ::
    "edit list \<Rightarrow> ('f, 'x, 'p) browser_state \<Rightarrow> ('f, 'x, 'p) browser_state option" where
  "edit_all [] s = Some s"
| "edit_all (e # es) s = (case edit_address e s of None \<Rightarrow> None | Some s \<Rightarrow> edit_all es s)"

section \<open>Splitting into characters\<close>

definition char_str :: "string \<Rightarrow> bool" where
  "char_str c \<longleftrightarrow> c \<noteq> [] \<and> \<not> cont_byte (hd c) \<and> list_all cont_byte (tl c)"

lemma concat_chars_of [simp]: "concat (chars_of s) = s"
  by (induction s rule: chars_of.induct) auto

lemma chars_of_eq_Nil [simp]: "chars_of s = [] \<longleftrightarrow> s = []"
  by (cases s) auto

lemma at_boundary_iff: "at_boundary s \<longleftrightarrow> s = [] \<or> \<not> cont_byte (hd s)"
  by (cases s) (auto simp: at_boundary_def)

lemma at_boundary_dropWhile: "at_boundary (dropWhile cont_byte bs)"
  using hd_dropWhile [of cont_byte bs] by (auto simp: at_boundary_iff)

lemma chars_of_chars: "at_boundary s \<Longrightarrow> list_all char_str (chars_of s)"
proof (induction s rule: chars_of.induct)
  case (2 b bs)
  have "list_all cont_byte (takeWhile cont_byte bs)"
    by (auto simp: list_all_iff dest: set_takeWhileD)
  then show ?case
    using "2.IH" [OF at_boundary_dropWhile] "2.prems" by (simp add: char_str_def at_boundary_iff)
qed simp

lemma chars_of_append: "at_boundary t \<Longrightarrow> chars_of (s @ t) = chars_of s @ chars_of t"
proof (induction s rule: chars_of.induct)
  case (2 b bs)
  have split: "takeWhile cont_byte (bs @ t) = takeWhile cont_byte bs
      \<and> dropWhile cont_byte (bs @ t) = dropWhile cont_byte bs @ t"
  proof (cases "\<forall>x \<in> set bs. cont_byte x")
    case True
    then show ?thesis
      using "2.prems" by (cases t) (auto simp: at_boundary_def takeWhile_append dropWhile_append takeWhile_eq_all_conv [THEN iffD2])
  qed (auto simp: takeWhile_append dropWhile_append)
  show ?case using "2.IH" "2.prems" split by simp
qed simp

lemma chars_of_char: "char_str c \<Longrightarrow> chars_of c = [c]"
  by (cases c) (auto simp: char_str_def list_all_iff takeWhile_eq_all_conv)

lemma char_str_ascii: "address_paste_char_allowed cp \<Longrightarrow> char_str (utf8_encode cp) \<and> len_utf8 cp = 1"
  by (auto simp: address_paste_char_allowed_def ascii_graphic_def utf8_encode_def char_str_def
      cont_byte_def byte_of_def len_utf8_def)

section \<open>The caret stands between characters\<close>

lemma boundary_iff:
  "at_boundary s \<Longrightarrow> i \<le> length s \<Longrightarrow> is_char_boundary s i \<longleftrightarrow> at_boundary (drop i s)"
  by (cases "i = length s") (auto simp: is_char_boundary_def at_boundary_iff hd_drop_conv_nth hd_conv_nth)

lemma upt_split: "i \<le> j \<Longrightarrow> j \<le> k \<Longrightarrow> [i..<k] = [i..<j] @ [j..<k]"
  using upt_add_eq_append [of i j "k - j"] by simp

lemma takeWhile_less_starts:
  "c \<le> length s \<Longrightarrow> takeWhile (\<lambda>i. i < c) (char_starts s)
     = filter (\<lambda>i. i = 0 \<or> \<not> cont_byte (s ! i)) [0..<c]"
proof -
  assume c: "c \<le> length s"
  let ?P = "\<lambda>i. i = 0 \<or> \<not> cont_byte (s ! i)"
  have "[0..<length s] = [0..<c] @ [c..<length s]"
    by (rule upt_split) (use c in auto)
  moreover have "takeWhile (\<lambda>i. i < c) ys = []" if "\<forall>i \<in> set ys. c \<le> i" for ys
    using that by (cases ys) auto
  then have "takeWhile (\<lambda>i. i < c) (filter ?P [c..<length s]) = []" by simp
  moreover have "takeWhile (\<lambda>i. i < c) (filter ?P [0..<c] @ ys) = filter ?P [0..<c] @ takeWhile (\<lambda>i. i < c) ys" for ys
    by (rule takeWhile_append2) auto
  ultimately show ?thesis
    unfolding char_starts_def by (simp only: filter_append append_Nil2)
qed

text \<open>No character starts inside another.\<close>

lemma no_start_inside:
  assumes "char_str l" "j \<le> length l"
  shows "filter (\<lambda>i. i = 0 \<or> \<not> cont_byte ((p @ l @ r) ! i)) [length p + 1..<length p + j] = []"
proof -
  have "cont_byte ((p @ l @ r) ! i) \<and> i \<noteq> 0" if i: "length p + 1 \<le> i" "i < length p + j" for i
  proof -
  from i have "(p @ l @ r) ! i = tl l ! (i - length p - 1)" "i - length p - 1 < length (tl l)"
    using assms by (auto simp: nth_append nth_tl Suc_diff_Suc)
  then show ?thesis
    using assms i by (simp add: char_str_def list_all_length)
  qed
  then show ?thesis by (auto simp: filter_empty_conv)
qed

lemma previous_cursor_inside:
  assumes l: "char_str l" and j: "0 < j" "j \<le> length l"
  shows "previous_address_cursor (p @ l @ r) (length p + j) = length p"
proof -
  let ?P = "\<lambda>i. i = 0 \<or> \<not> cont_byte ((p @ l @ r) ! i)"
  have "[0..<length p + j] = [0..<length p] @ length p # [length p + 1..<length p + j]"
    using j upt_add_eq_append [of 0 "length p" j] by (simp add: upt_conv_Cons)
  moreover have "?P (length p)" using l by (cases l) (auto simp: char_str_def)
  ultimately have "filter ?P [0..<length p + j] = filter ?P [0..<length p] @ [length p]"
    using no_start_inside [OF l j(2), of p r] by simp
  then show ?thesis
    using j takeWhile_less_starts [of "length p + j" "p @ l @ r"]
    by (simp add: previous_address_cursor_def Let_def last_opt_def)
qed

lemma previous_cursor_char:
  "char_str l \<Longrightarrow> previous_address_cursor (p @ l @ r) (length p + length l) = length p"
  by (rule previous_cursor_inside) (auto simp: char_str_def)

lemma previous_cursor_0 [simp]: "previous_address_cursor s 0 = 0"
proof -
  have "takeWhile (\<lambda>i. i < 0) (char_starts s) = []" by (cases "char_starts s") auto
  then show ?thesis by (simp add: previous_address_cursor_def last_opt_def)
qed

lemma find_skip: "\<forall>x \<in> set xs. \<not> P x \<Longrightarrow> List.find P (xs @ ys) = List.find P ys"
  by (induction xs) auto

lemma next_cursor_char:
  assumes l: "char_str l" and r: "at_boundary r"
  shows "next_address_cursor (p @ l @ r) (length p) = length p + length l"
proof -
  let ?s = "p @ l @ r"
  let ?P = "\<lambda>i. i = 0 \<or> \<not> cont_byte (?s ! i)"
  let ?n = "length ?s" and ?a = "length p + length l"
  have pos: "0 < length l" using l by (simp add: char_str_def)
  have upt: "[0..<?n] = 0 # [1..<?n]" using pos by (simp add: upt_conv_Cons)
  have ends: "char_ends ?s = filter ?P [1..<?n] @ [?n]"
    using pos unfolding char_ends_def char_starts_def upt by auto
  have "[1..<?n] = [1..<length p + 1] @ [length p + 1..<?a] @ [?a..<?n]"
  proof -
    have "[1..<?n] = [1..<length p + 1] @ [length p + 1..<?n]"
      using pos by (intro upt_split) (simp_all add: Suc_le_eq)
    also have "[length p + 1..<?n] = [length p + 1..<?a] @ [?a..<?n]"
      using pos by (intro upt_split) (simp_all add: Suc_le_eq)
    finally show ?thesis by simp
  qed
  then have "char_ends ?s = filter ?P [1..<length p + 1] @ filter ?P [?a..<?n] @ [?n]"
    using ends no_start_inside [OF l order_refl, of p r] by simp
  moreover have "List.find (\<lambda>i. length p < i) (filter ?P [1..<length p + 1] @ ys)
      = List.find (\<lambda>i. length p < i) ys" for ys
    by (rule find_skip) auto
  moreover have "List.find (\<lambda>i. length p < i) (filter ?P [?a..<?n] @ [?n]) = Some ?a"
  proof (cases r)
    case (Cons b bs)
    then have "?P ?a" "?a < ?n" using r by (auto simp: at_boundary_def nth_append)
    then show ?thesis using pos by (simp add: upt_conv_Cons)
  qed (use pos in simp)
  ultimately show ?thesis by (simp add: next_address_cursor_def Let_def)
qed

lemma clamp_cases:
  assumes "at_boundary s"
  shows "clamp_address_cursor s c \<le> length s \<and> at_boundary (drop (clamp_address_cursor s c) s)"
proof (cases "length s \<le> c \<or> is_char_boundary s c")
  case True
  then show ?thesis
    using assms boundary_iff [of s c] by (auto simp: clamp_address_cursor_def at_boundary_def)
next
  case False
  then have c: "c < length s" "0 < c" and in_char: "\<not> at_boundary (drop c s)"
    using boundary_iff [OF assms, of c] by (auto simp: is_char_boundary_def)
  have start: "k < c \<and> (k = 0 \<or> \<not> cont_byte (s ! k))"
    if "last_opt (takeWhile (\<lambda>i. i < c) (char_starts s)) = Some k" for k
  proof -
    from that have "k \<in> set (filter (\<lambda>i. i = 0 \<or> \<not> cont_byte (s ! i)) [0..<c])"
      using c takeWhile_less_starts [of c s] by (auto simp: last_opt_def split: if_splits dest: last_in_set)
    then show ?thesis by simp
  qed
  show ?thesis
    using False c assms
    by (auto simp: clamp_address_cursor_def previous_address_cursor_def at_boundary_iff hd_drop_conv_nth
        split: option.split dest!: start)
qed

text \<open>What the bar holds is what the editor shows.\<close>

lemma editor_of_text:
  assumes "at_boundary (address_text s)"
  defines "e \<equiv> editor_of s"
  shows "address_text s = concat (ed_left e) @ concat (ed_right e)"
    and "clamp_address_cursor (address_text s) (address_cursor s) = length (concat (ed_left e))"
    and "list_all char_str (ed_left e)" and "list_all char_str (ed_right e)"
    and "ed_all e = address_select_all s"
proof -
  let ?t = "address_text s"
  let ?k = "clamp_address_cursor ?t (address_cursor s)"
  have k: "?k \<le> length ?t" "at_boundary (drop ?k ?t)"
    using clamp_cases [OF assms(1)] by auto
  have l: "at_boundary (take ?k ?t)"
    using assms(1) by (cases ?t; cases ?k) (auto simp: at_boundary_def)
  show "?t = concat (ed_left e) @ concat (ed_right e)" "?k = length (concat (ed_left e))"
    "ed_all e = address_select_all s"
    using k by (simp_all add: e_def editor_of_def Let_def)
  show "list_all char_str (ed_left e)" "list_all char_str (ed_right e)"
    using k l chars_of_chars by (simp_all add: e_def editor_of_def Let_def)
qed

lemma at_boundary_concat: "list_all char_str cs \<Longrightarrow> at_boundary (concat cs)"
  by (cases cs) (auto simp: at_boundary_iff char_str_def)

lemma chars_of_concat: "list_all char_str cs \<Longrightarrow> chars_of (concat cs) = cs"
  by (induction cs) (simp_all add: chars_of_append at_boundary_concat chars_of_char)

lemma editor_ofI:
  assumes "address_text s = concat L @ concat R" "address_cursor s = length (concat L)"
    "list_all char_str L" "list_all char_str R"
  shows "editor_of s = \<lparr>ed_left = L, ed_right = R, ed_all = address_select_all s\<rparr>"
    and "at_boundary (address_text s)"
proof -
  have bd: "at_boundary (concat R)" "at_boundary (concat L @ concat R)"
    using assms(3,4) at_boundary_concat [of R] at_boundary_concat [of "L @ R"] by simp_all
  then have "is_char_boundary (concat L @ concat R) (length (concat L))"
    using boundary_iff [OF bd(2), of "length (concat L)"] by simp
  then have "clamp_address_cursor (concat L @ concat R) (length (concat L)) = length (concat L)"
    by (simp add: clamp_address_cursor_def)
  then show "editor_of s = \<lparr>ed_left = L, ed_right = R, ed_all = address_select_all s\<rparr>"
    using assms chars_of_concat by (simp add: editor_of_def Let_def)
  show "at_boundary (address_text s)" using bd assms by simp
qed

section \<open>The bar is the editor\<close>

definition bar_ok :: "('f, 'x, 'p) browser_state \<Rightarrow> bool" where
  "bar_ok s \<longleftrightarrow> address_editing s \<and> at_boundary (address_text s)"

text \<open>The text as the editor has it, with the caret at the end of its left half.\<close>

lemma bar_parts:
  assumes "bar_ok s"
  obtains L R where "editor_of s = \<lparr>ed_left = L, ed_right = R, ed_all = address_select_all s\<rparr>"
    "address_text s = concat L @ concat R" "list_all char_str L" "list_all char_str R"
    "clamp_address_cursor (concat L @ concat R) (address_cursor s) = length (concat L)"
    "is_char_boundary (concat L @ concat R) (length (concat L))"
proof -
  note parts = editor_of_text [of s]
  have bd: "at_boundary (address_text s)" using assms by (simp add: bar_ok_def)
  let ?L = "ed_left (editor_of s)" and ?R = "ed_right (editor_of s)"
  have "is_char_boundary (concat ?L @ concat ?R) (length (concat ?L))"
    using boundary_iff [of "concat ?L @ concat ?R" "length (concat ?L)"] parts [OF bd] bd
    by (simp add: at_boundary_concat)
  then show ?thesis
    using that [of ?L ?R] parts [OF bd] by simp
qed

lemma editing_at:
  assumes "address_text s = concat L @ concat R" "address_cursor s = length (concat L)"
    "list_all char_str L" "list_all char_str R" "address_editing s"
  shows "editor_of s = \<lparr>ed_left = L, ed_right = R, ed_all = address_select_all s\<rparr> \<and> bar_ok s"
  using editor_ofI [OF assms(1-4)] assms(5) by (simp add: bar_ok_def)

lemma clear_refines:
  assumes "bar_ok s"
  shows "editor_of (clear_selected s) = ed_cleared (editor_of s) \<and> bar_ok (clear_selected s)"
proof (cases "address_select_all s")
  case True
  then show ?thesis
    using editing_at [of "clear_selected s" "[]" "[]"] assms editor_of_text(5) [of s]
    by (simp add: clear_selected_def ed_cleared_def bar_ok_def)
qed (use assms editor_of_text(5) [of s] in \<open>simp add: clear_selected_def ed_cleared_def bar_ok_def\<close>)

lemma bar_text: "bar_ok s \<Longrightarrow> ed_text (editor_of s) = address_text s"
  using editor_of_text(1) [of s] by (simp add: bar_ok_def ed_text_def)

lemma insert_refines:
  assumes ok: "bar_ok s" and cp: "address_paste_char_allowed cp"
  shows "\<exists>s'. insert_address_char cp s = Some s' \<and> bar_ok s' \<and>
    editor_of s' = (editor_of s)\<lparr>ed_left := ed_left (editor_of s) @ [utf8_encode cp]\<rparr>"
proof -
  from ok obtain L R where parts:
    "editor_of s = \<lparr>ed_left = L, ed_right = R, ed_all = address_select_all s\<rparr>"
    "address_text s = concat L @ concat R" "list_all char_str L" "list_all char_str R"
    "clamp_address_cursor (concat L @ concat R) (address_cursor s) = length (concat L)"
    "is_char_boundary (concat L @ concat R) (length (concat L))" by (rule bar_parts)
  let ?s = "s\<lparr>address_text := concat (L @ [utf8_encode cp]) @ concat R,
              address_cursor := length (concat (L @ [utf8_encode cp]))\<rparr>"
  have "insert_address_char cp s = Some ?s"
    using parts by (simp add: insert_address_char_def insert_str_def length_utf8_encode)
  moreover have "editor_of ?s = \<lparr>ed_left = L @ [utf8_encode cp], ed_right = R, ed_all = address_select_all ?s\<rparr>
      \<and> bar_ok ?s"
    using parts(3,4) ok char_str_ascii [OF cp] by (intro editing_at) (simp_all add: bar_ok_def)
  ultimately show ?thesis using parts(1) by auto
qed

lemma paste_refines:
  assumes "bar_ok s" "\<forall>cp \<in> set cps. address_paste_char_allowed cp"
  shows "\<exists>b s'. paste_loop cps c s = Some (b, s') \<and> bar_ok s' \<and> editor_of s' = fold ed_insert cps (editor_of s)"
  using assms
proof (induction cps arbitrary: s c)
  case (Cons cp cps)
  show ?case
  proof (cases "ADDRESS_TEXT_MAX_CHARS \<le> length (address_text s)")
    case True
    then have "ed_insert k (editor_of s) = editor_of s" for k
      using bar_text [OF Cons.prems(1)] by (simp add: ed_insert_def)
    then have "fold ed_insert ks (editor_of s) = editor_of s" for ks
      by (induction ks) simp_all
    from this [of "cp # cps"] show ?thesis using True Cons.prems by simp
  next
    case False
    obtain s' where "insert_address_char cp s = Some s'" "bar_ok s'"
      "editor_of s' = ed_insert cp (editor_of s)"
      using insert_refines [of s cp] Cons.prems False bar_text [of s] by (auto simp: ed_insert_def)
    then show ?thesis using Cons.IH [of s' True] Cons.prems False by auto
  qed
qed auto

lemma remove_before:
  assumes "list_all char_str L" "char_str l" "list_all char_str R"
  shows "remove_range (concat L @ l @ concat R) (length (concat L)) (length (concat L) + length l)
    = Some (concat L @ concat R)"
proof -
  have bd: "at_boundary (concat L @ l @ concat R)"
    using at_boundary_concat [of "L @ l # R"] assms by simp
  have "at_boundary (l @ concat R)" "at_boundary (concat R)"
    using at_boundary_concat [of "l # R"] at_boundary_concat [of R] assms by simp_all
  then show ?thesis
    using boundary_iff [OF bd, of "length (concat L)"] boundary_iff [OF bd, of "length (concat L) + length l"]
    by (simp add: remove_range_def)
qed

lemma erase_refines:
  assumes ok: "bar_ok s"
  shows "\<exists>b s'. edit_address_backspace s = Some (b, s') \<and> bar_ok s' \<and> editor_of s' = ed_step Erase (editor_of s)"
proof (cases "address_select_all s")
  case True
  then show ?thesis
    using ok clear_refines [OF ok] editor_of_text(5) [of s]
    by (auto simp: edit_address_backspace_def bar_ok_def)
next
  case False
  from ok obtain L R where parts:
    "editor_of s = \<lparr>ed_left = L, ed_right = R, ed_all = address_select_all s\<rparr>"
    "address_text s = concat L @ concat R" "list_all char_str L" "list_all char_str R"
    "clamp_address_cursor (concat L @ concat R) (address_cursor s) = length (concat L)"
    "is_char_boundary (concat L @ concat R) (length (concat L))" by (rule bar_parts)
  have editing: "address_editing s" using ok by (simp add: bar_ok_def)
  show ?thesis
  proof (cases L rule: rev_cases)
    case Nil
    then show ?thesis
      using parts False editing editing_at [of "s\<lparr>address_cursor := 0\<rparr>" "[]" R]
      by (auto simp: edit_address_backspace_def Let_def)
  next
    case (snoc M l)
    let ?s = "s\<lparr>address_text := concat M @ concat R, address_cursor := length (concat M)\<rparr>"
    have ml: "list_all char_str M" "char_str l" "0 < length l"
      using snoc parts(3) by (auto simp: char_str_def)
    have "previous_address_cursor (address_text s) (length (concat L)) = length (concat M)"
      using previous_cursor_char [OF ml(2), of "concat M" "concat R"] snoc parts(2) by simp
    then have "edit_address_backspace s = Some (True, ?s)"
      using parts False editing snoc ml remove_before [OF ml(1,2) parts(4)]
      by (simp add: edit_address_backspace_def Let_def)
    moreover have "editor_of ?s = \<lparr>ed_left = M, ed_right = R, ed_all = address_select_all ?s\<rparr> \<and> bar_ok ?s"
      using ml parts(4) editing by (intro editing_at) simp_all
    ultimately show ?thesis using parts(1) False snoc by auto
  qed
qed

lemma move_refines:
  assumes ok: "bar_ok s"
  shows "bar_ok (snd (move_address_caret m s)) \<and>
    editor_of (snd (move_address_caret m s)) = ed_step (Caret m) (editor_of s)"
proof -
  from ok obtain L R where parts:
    "editor_of s = \<lparr>ed_left = L, ed_right = R, ed_all = address_select_all s\<rparr>"
    "address_text s = concat L @ concat R" "list_all char_str L" "list_all char_str R"
    "clamp_address_cursor (concat L @ concat R) (address_cursor s) = length (concat L)"
    "is_char_boundary (concat L @ concat R) (length (concat L))" by (rule bar_parts)
  have editing: "address_editing s" using ok by (simp add: bar_ok_def)
  let ?s = "\<lambda>k. s\<lparr>address_select_all := False, address_cursor := k\<rparr>"
  have moved: "editor_of (?s (length (concat M))) = \<lparr>ed_left = M, ed_right = N, ed_all = False\<rparr>
      \<and> bar_ok (?s (length (concat M)))" if "L @ R = M @ N" for M N
  proof -
    have "list_all char_str (M @ N)" using parts(3,4) that [symmetric] by simp
    moreover have "concat L @ concat R = concat M @ concat N"
      using that by (metis concat_append)
    ultimately show ?thesis
      using editing_at [of "?s (length (concat M))" M N] parts(2) editing by simp
  qed
  have all_text: "length (concat (L @ R)) = length (address_text s)" using parts(2) by simp
  have ends: "editor_of (?s 0) = \<lparr>ed_left = [], ed_right = L @ R, ed_all = False\<rparr> \<and> bar_ok (?s 0)"
    "editor_of (?s (length (address_text s))) = \<lparr>ed_left = L @ R, ed_right = [], ed_all = False\<rparr>
      \<and> bar_ok (?s (length (address_text s)))"
    using moved [of "[]" "L @ R"] moved [of "L @ R" "[]"] all_text by simp_all
  have left: "editor_of (?s (previous_address_cursor (address_text s) (length (concat L))))
      = ed_move CaretBackward \<lparr>ed_left = L, ed_right = R, ed_all = False\<rparr>
      \<and> bar_ok (?s (previous_address_cursor (address_text s) (length (concat L))))"
  proof (cases L rule: rev_cases)
    case (snoc M l)
    then show ?thesis
      using previous_cursor_char [of l "concat M" "concat R"] parts(2,3) moved [of M "l # R"] by simp
  qed (use moved [of "[]" R] in simp)
  have right: "editor_of (?s (next_address_cursor (address_text s) (length (concat L))))
      = ed_move CaretForward \<lparr>ed_left = L, ed_right = R, ed_all = False\<rparr>
      \<and> bar_ok (?s (next_address_cursor (address_text s) (length (concat L))))"
  proof (cases R)
    case Nil
    then have "char_ends (address_text s) = [] \<or> (\<forall>i \<in> set (char_ends (address_text s)). i \<le> length (concat L))"
      using parts(2) by (auto simp: char_ends_def char_starts_def dest!: in_set_dropD)
    then have "List.find (\<lambda>i. length (concat L) < i) (char_ends (address_text s)) = None"
      by (auto simp: find_None_iff)
    then show ?thesis
      using Nil parts(2) ends(2) by (simp add: next_address_cursor_def)
  next
    case (Cons r N)
    then show ?thesis
      using next_cursor_char [of r "concat N" "concat L"] parts(2,4) at_boundary_concat [of N]
        moved [of "L @ [r]" N] by simp
  qed
  show ?thesis
    using parts(1,2,5) editing ends left right
    by (cases m; cases "address_select_all s") (simp_all add: move_address_caret_def Let_def)
qed

lemma edit_refines:
  assumes ok: "bar_ok s"
  shows "\<exists>s'. edit_address e s = Some s' \<and> bar_ok s' \<and> editor_of s' = ed_step e (editor_of s)"
proof (cases e)
  case (TypeChar cp)
  show ?thesis
  proof (cases "address_paste_char_allowed cp")
    case True
    have c: "bar_ok (clear_selected s)" "editor_of (clear_selected s) = ed_cleared (editor_of s)"
      using clear_refines [OF ok] by auto
    show ?thesis
      using TypeChar True insert_refines [OF c(1) True] c ok bar_text [OF c(1)]
      by (auto simp: push_address_char_def bar_ok_def address_paste_char_allowed_def Let_def ed_insert_def)
  next
    case False
    then show ?thesis
      using TypeChar ok by (auto simp: push_address_char_def address_paste_char_allowed_def)
  qed
next
  case (Paste t)
  show ?thesis
    using Paste ok clear_refines [OF ok]
      paste_refines [of "clear_selected s" "filter address_paste_char_allowed (str_chars t)" "address_select_all s"]
    by (auto simp: paste_address_text_def bar_ok_def)
next
  case Cut
  show ?thesis
    using Cut ok clear_refines [OF ok] bar_text [OF ok] editor_of_text(5) [of s]
    by (auto simp: cut_address_text_def bar_ok_def ed_cleared_def clear_selected_def)
next
  case Erase
  then show ?thesis using erase_refines [OF ok] by auto
next
  case (Caret m)
  then show ?thesis using move_refines [OF ok] by auto
qed

text \<open>C10:
  The address bar is an editor of characters: whatever is typed, erased, pasted, cut or moved over, in any
  order and from any caret offset, no operation panics off a character boundary, and the bar shows what the
  editor of characters shows: its text, its caret and its selection.
\<close>

theorem address_bar_refines:
  assumes "address_editing s" "rust_str (address_text s)"
  shows "\<exists>s'. edit_all edits s = Some s' \<and> editor_of s' = fold ed_step edits (editor_of s)
    \<and> address_text s' = ed_text (editor_of s')"
proof -
  have "bar_ok s" using assms rust_str_at_boundary by (simp add: bar_ok_def)
  then have "\<exists>s'. edit_all edits s = Some s' \<and> bar_ok s' \<and> editor_of s' = fold ed_step edits (editor_of s)"
  proof (induction edits arbitrary: s)
    case (Cons e es)
    obtain s' where "edit_address e s = Some s'" "bar_ok s'" "editor_of s' = ed_step e (editor_of s)"
      using edit_refines [OF Cons.prems] by blast
    then show ?case using Cons.IH [of s'] by simp
  qed simp
  then show ?thesis using bar_text by metis
qed

definition typing_state :: "(nat, nat, nat) browser_state" where
  "typing_state = (initial_browser_state 0 [CHR 0xC3, CHR 0xA9, CHR ''/''])
     \<lparr>address_editing := True, address_cursor := 1\<rparr>"

theorem address_bar_refines_witness:
  "\<exists>s'. edit_all [TypeChar 97, Caret CaretForward, Erase] typing_state = Some s'
     \<and> editor_of s' = fold ed_step [TypeChar 97, Caret CaretForward, Erase] (editor_of typing_state)
     \<and> address_text s' = ed_text (editor_of s')"
  by (rule address_bar_refines) (simp_all add: typing_state_def initial_browser_state_def rust_str_Cons
      utf8_str_byte ascii_char_def byte_of_def del: utf8_two.simps)

end
