(* ===== verification/Rust_Num.thy ===== *)
theory Rust_Num
  imports Rust_Str "HOL-Library.Word"
begin

text \<open>
  Numbers in text and trimming by characters, as the Rust standard library has them:
  \<open>str::parse\<close> of the integer types, \<open>trim_matches\<close> and its one-sided forms, and \<open>find\<close>.
\<close>

section \<open>Parsing integers\<close>

definition digits_value :: "string \<Rightarrow> int" where
  "digits_value ds = foldl (\<lambda>v c. v * 10 + (int (byte_of c) - 48)) 0 ds"

text \<open>\<open>str::parse::<u64>\<close>: an optional plus sign and decimal digits, within range.\<close>

definition parse_u64 :: "string \<Rightarrow> 64 word option" where
  "parse_u64 s =
     (let ds = (case s of c # r \<Rightarrow> if c = CHR ''+'' then r else s | [] \<Rightarrow> [])
      in if ds \<noteq> [] \<and> list_all ascii_digit ds \<and> digits_value ds < 2 ^ 64
         then Some (word_of_int (digits_value ds)) else None)"

text \<open>\<open>str::parse::<i64>\<close>: an optional sign and decimal digits, within range.\<close>

definition parse_i64 :: "string \<Rightarrow> int option" where
  "parse_i64 s =
     (let (neg, ds) = (case s of
            c # r \<Rightarrow> if c = CHR ''-'' then (True, r) else if c = CHR ''+'' then (False, r) else (False, s)
          | [] \<Rightarrow> (False, []));
          v = (if neg then - digits_value ds else digits_value ds)
      in if ds \<noteq> [] \<and> list_all ascii_digit ds \<and> - (2 ^ 63) \<le> v \<and> v < 2 ^ 63 then Some v else None)"

text \<open>\<open>str::parse::<u16>\<close>.\<close>

definition parse_u16 :: "string \<Rightarrow> 16 word option" where
  "parse_u16 s =
     (let ds = (case s of c # r \<Rightarrow> if c = CHR ''+'' then r else s | [] \<Rightarrow> [])
      in if ds \<noteq> [] \<and> list_all ascii_digit ds \<and> digits_value ds < 2 ^ 16
         then Some (word_of_int (digits_value ds)) else None)"

text \<open>The decimal text of a number, as \<open>Display\<close> writes it, and that parsing reads it back.\<close>

fun show_nat :: "nat \<Rightarrow> string" where
  "show_nat n =
     (if n < 10 then [char_of (48 + n)] else show_nat (n div 10) @ [char_of (48 + n mod 10)])"

declare show_nat.simps [simp del]

lemma digits_value_snoc: "digits_value (ds @ [c]) = digits_value ds * 10 + (int (byte_of c) - 48)"
  by (simp add: digits_value_def)

lemma show_nat_digits: "show_nat n \<noteq> [] \<and> list_all ascii_digit (show_nat n)"
proof (induction n rule: show_nat.induct)
  case (1 n)
  have d: "ascii_digit (char_of (48 + k))" if "k < 10" for k :: nat
    using that by (simp add: ascii_digit_def)
  show ?case
    using 1 d [of n] d [of "n mod 10"] by (subst (1 2) show_nat.simps) simp
qed

lemma digits_value_show: "digits_value (show_nat n) = int n"
proof (induction n rule: show_nat.induct)
  case (1 n)
  show ?case
  proof (cases "n < 10")
    case True
    then show ?thesis by (subst show_nat.simps) (simp add: digits_value_def)
  next
    case False
    have "n mod 10 < 10" by simp
    then have "digits_value (show_nat n) = int (n div 10) * 10 + int (n mod 10)"
      using False 1 by (subst show_nat.simps) (simp add: digits_value_snoc)
    also have "\<dots> = int (n div 10 * 10 + n mod 10)"
      by (simp only: of_nat_add of_nat_mult of_nat_numeral)
    also have "\<dots> = int n" by (simp only: div_mult_mod_eq)
    finally show ?thesis .
  qed
qed

lemma show_nat_hd: "show_nat n = c # r \<Longrightarrow> ascii_digit c"
  using show_nat_digits [of n] by simp

lemma parse_u16_show: "parse_u16 (show_nat (unat p)) = Some p"
proof -
  obtain c r where s: "show_nat (unat p) = c # r" using show_nat_digits [of "unat p"] by (cases "show_nat (unat p)") auto
  have "ascii_digit c" using show_nat_hd [OF s] .
  then have c: "c \<noteq> CHR ''+''" by (auto simp: ascii_digit_def)
  have "digits_value (show_nat (unat p)) < 2 ^ 16"
    unfolding digits_value_show using unsigned_less [of p, where ?'a = int] by simp
  moreover have "word_of_int (digits_value (show_nat (unat p))) = p"
    unfolding digits_value_show by simp
  ultimately show ?thesis
    using c s show_nat_digits [of "unat p"] by (simp add: parse_u16_def)
qed

section \<open>Trimming\<close>

definition trim_start_char :: "char \<Rightarrow> string \<Rightarrow> string" where
  "trim_start_char c s = dropWhile (\<lambda>x. x = c) s"

definition trim_end_char :: "char \<Rightarrow> string \<Rightarrow> string" where
  "trim_end_char c s = rev (dropWhile (\<lambda>x. x = c) (rev s))"

definition trim_char :: "char \<Rightarrow> string \<Rightarrow> string" where
  "trim_char c s = trim_end_char c (trim_start_char c s)"

section \<open>Splitting from the right\<close>

text \<open>\<open>rsplit_once\<close>.\<close>

definition rsplit_once :: "char \<Rightarrow> string \<Rightarrow> (string \<times> string) option" where
  "rsplit_once d s = map_option (\<lambda>(a, b). (rev b, rev a)) (split_once d (rev s))"

end
