(* ===== verification/Http_Date.thy ===== *)
theory Http_Date
  imports Prelude Rust_Num
begin

text \<open>
  The HTTP dates of the cookie jar and of the response cache (\<open>parse_http_date\<close> and \<open>days_from_civil\<close> in
  \<open>crates/silksurf-net/src/cookie.rs\<close> and \<open>cache.rs\<close>), on 64-bit words that wrap as a release build
  does, and the calendar they compute.
\<close>

section \<open>Text\<close>

text \<open>\<open>split_once\<close> for a text that is not empty.\<close>

primrec split_once_str :: "string \<Rightarrow> string \<Rightarrow> (string \<times> string) option" where
  "split_once_str p [] = None"
| "split_once_str p (c # cs) =
     (if starts_with p (c # cs) then Some ([], drop (length p) (c # cs))
      else map_option (\<lambda>(a, b). (c # a, b)) (split_once_str p cs))"

text \<open>The three numbers of a clock: the iterator over the parts between colons is read three times.\<close>

definition clock_fields :: "string \<Rightarrow> (u64 \<times> u64 \<times> u64) option" where
  "clock_fields hms =
     (case split_on (CHR '':'') hms of
        h # m # s # _ \<Rightarrow>
          (case (parse_u64 h, parse_u64 m, parse_u64 s) of
             (Some h, Some m, Some s) \<Rightarrow> Some (h, m, s) | _ \<Rightarrow> None)
      | _ \<Rightarrow> None)"

section \<open>Dates of cookies\<close>

definition month_names :: "string list" where
  "month_names = [''jan'', ''feb'', ''mar'', ''apr'', ''may'', ''jun'', ''jul'', ''aug'', ''sep'',
     ''oct'', ''nov'', ''dec'']"

definition month_index :: "string \<Rightarrow> u64 option" where
  "month_index name =
     (let lower = to_ascii_lowercase name
      in map_option (\<lambda>i. of_nat i + 1) (position (\<lambda>m. starts_with m lower) month_names))"

text \<open>The day count from March of year 0, as both files compute it.\<close>

definition civil_count :: "u64 \<Rightarrow> u64 \<Rightarrow> u64 \<Rightarrow> u64" where
  "civil_count year month day =
     (let y = (if month \<le> 2 then year - 1 else year);
          era = y div 400;
          yoe = y - era * 400;
          doy = (153 * (if 2 < month then month - 3 else month + 9) + 2) div 5 + day - 1;
          doe = yoe * 365 + yoe div 4 - yoe div 100 + doy
      in era * 146097 + doe)"

definition days_from_civil :: "u64 \<Rightarrow> u64 \<Rightarrow> u64 \<Rightarrow> u64 option" where
  "days_from_civil year month day =
     (if \<not> (1 \<le> month \<and> month \<le> 12) then None else Some (civil_count year month day - 719468))"

definition parse_http_date :: "string \<Rightarrow> u64 option" where
  "parse_http_date text =
     (let rest = trim (case split_once_str '', '' text of Some (_, r) \<Rightarrow> r | None \<Rightarrow> text)
      in case split_whitespace rest of
           d # m # y # t # _ \<Rightarrow>
             (case (parse_u64 d, month_index m, parse_u64 y, clock_fields t) of
                (Some day, Some month, Some year, Some (hour, minute, second)) \<Rightarrow>
                  if year < 1970 \<or> day = 0 \<or> 31 < day \<or> 23 < hour \<or> 59 < minute \<or> 60 < second then None
                  else map_option (\<lambda>days. days * 86400 + hour * 3600 + minute * 60 + second)
                         (days_from_civil year month day)
              | _ \<Rightarrow> None)
         | _ \<Rightarrow> None)"

section \<open>Dates of the cache\<close>

definition cache_month :: "string \<Rightarrow> u64 option" where
  "cache_month m =
     map_option (\<lambda>i. of_nat i + 1) (position (\<lambda>n. n = m)
       [''Jan'', ''Feb'', ''Mar'', ''Apr'', ''May'', ''Jun'', ''Jul'', ''Aug'', ''Sep'', ''Oct'',
        ''Nov'', ''Dec''])"

definition cache_days_from_civil :: "u64 \<Rightarrow> u64 \<Rightarrow> u64 \<Rightarrow> u64" where
  "cache_days_from_civil year month day = saturating_sub (civil_count year month day) 719468"

definition cache_http_date :: "string \<Rightarrow> u64 option" where
  "cache_http_date value =
     (case split_once_str '', '' (trim value) of
        None \<Rightarrow> None
      | Some (_, rest) \<Rightarrow>
          (case split_on (CHR '' '') rest of
             d # m # y # t # _ \<Rightarrow>
               (case (parse_u64 d, cache_month m, parse_u64 y, clock_fields t) of
                  (Some day, Some month, Some year, Some (hour, minute, second)) \<Rightarrow>
                    Some (cache_days_from_civil year month day * 86400 + hour * 3600 + minute * 60
                          + second)
                | _ \<Rightarrow> None)
           | _ \<Rightarrow> None))"

section \<open>The calendar\<close>

definition leap :: "nat \<Rightarrow> bool" where
  "leap y \<longleftrightarrow> 4 dvd y \<and> (\<not> 100 dvd y \<or> 400 dvd y)"

text \<open>Days before the first of January of a year, counted from year 0, and before a month.\<close>

primrec days_before_year :: "nat \<Rightarrow> nat" where
  "days_before_year 0 = 0"
| "days_before_year (Suc y) = days_before_year y + (if leap y then 366 else 365)"

definition month_lengths :: "nat \<Rightarrow> nat list" where
  "month_lengths y = [31, if leap y then 29 else 28, 31, 30, 31, 30, 31, 31, 30, 31, 30, 31]"

definition calendar_days :: "nat \<Rightarrow> nat \<Rightarrow> nat \<Rightarrow> nat" where
  "calendar_days y m d = days_before_year y + sum_list (take (m - 1) (month_lengths y)) + (d - 1)"

definition days_since_epoch :: "nat \<Rightarrow> nat \<Rightarrow> nat \<Rightarrow> nat" where
  "days_since_epoch y m d = calendar_days y m d - days_before_year 1970"

text \<open>How many multiples of \<open>n\<close> lie below \<open>y\<close>.\<close>

lemma multiples_below:
  assumes "0 < (n::nat)"
  shows "(y + n) div n = (y + n - 1) div n + (if n dvd y then 1 else 0)"
proof -
  obtain q r where y: "y = n * q + r" and r: "r < n"
    using assms by (metis mod_less_divisor mult_div_mod_eq)
  show ?thesis
  proof (cases "r = 0")
    case True
    obtain k where k: "n = Suc k" using assms by (cases n) auto
    have "y + n - 1 = k + n * q" using y True k by simp
    then have "(y + n - 1) div n = q" using k by (simp add: div_mult_self2 del: mult_Suc)
    with y True assms show ?thesis by simp
  next
    case False
    with y have "y + n - 1 = (r - 1) + n * Suc q" by simp
    then have "(y + n - 1) div n = q + 1"
      using r assms div_mult_self2 [of n "r - 1" "Suc q"] by (simp del: mult_Suc_right)
    moreover have "(y + n) div n = q + 1"
      using y r assms div_mult_self2 [of n r "Suc q"] by (simp add: ac_simps)
    moreover have "\<not> n dvd y" using y r False assms by (auto simp: dvd_add_right_iff dest: dvd_imp_le)
    ultimately show ?thesis by simp
  qed
qed

lemma multiples_step:
  assumes "n = Suc k"
  shows "(Suc y + k) div n = (y + k) div n + (if n dvd y then 1 else 0)"
  using multiples_below [of n y] assms by simp

lemma days_before_year_closed:
  "days_before_year y + (y + 99) div 100 = 365 * y + (y + 3) div 4 + (y + 399) div 400"
proof (induction y)
  case (Suc y)
  have imp: "400 dvd y \<Longrightarrow> 100 dvd y" "100 dvd y \<Longrightarrow> 4 dvd y"
    using dvd_trans [of 100 400 y] dvd_trans [of 4 100 y] by simp_all
  define a where "a = (y + 99) div 100"
  define b where "b = (y + 3) div 4"
  define c where "c = (y + 399) div 400"
  have step: "(Suc y + 99) div 100 = a + (if 100 dvd y then 1 else 0)"
    "(Suc y + 3) div 4 = b + (if 4 dvd y then 1 else 0)"
    "(Suc y + 399) div 400 = c + (if 400 dvd y then 1 else 0)"
    unfolding a_def b_def c_def by (rule multiples_step; simp)+
  have "days_before_year y + a = 365 * y + b + c"
    using Suc by (simp only: a_def b_def c_def)
  then show ?case
    unfolding step days_before_year.simps leap_def using imp
    by (cases "4 dvd y"; cases "100 dvd y"; cases "400 dvd y") simp_all
qed simp

text \<open>The count from March of year 0, on natural numbers.\<close>

definition march_year_days :: "nat \<Rightarrow> nat" where
  "march_year_days y = 365 * y + y div 4 - y div 100 + y div 400"

definition march_day :: "nat \<Rightarrow> nat \<Rightarrow> nat" where
  "march_day m d = (153 * (if 2 < m then m - 3 else m + 9) + 2) div 5 + d - 1"

definition count_nat :: "nat \<Rightarrow> nat \<Rightarrow> nat \<Rightarrow> nat" where
  "count_nat year m d = march_year_days (if m \<le> 2 then year - 1 else year) + march_day m d"

lemma next_year_days: "days_before_year (Suc y) = march_year_days y + 366"
proof -
  have "y div 100 \<le> y div 4" by (rule div_le_mono2) simp_all
  moreover have "(Suc y + 99) div 100 = y div 100 + 1" "(Suc y + 3) div 4 = y div 4 + 1"
    "(Suc y + 399) div 400 = y div 400 + 1"
    using div_add_self2 [of 100 y] div_add_self2 [of 4 y] div_add_self2 [of 400 y]
    by (simp_all add: ac_simps)
  then have "days_before_year (Suc y) + (y div 100 + 1) = 365 * Suc y + (y div 4 + 1) + (y div 400 + 1)"
    using days_before_year_closed [of "Suc y"] by (simp only:)
  moreover have "n = 365 * y + a - b + c + 366" if "n + (b + 1) = 365 * Suc y + (a + 1) + (c + 1)" "b \<le> a"
    for n a b c :: nat
    using that by simp
  ultimately show ?thesis unfolding march_year_days_def by blast
qed

lemma take_months:
  "take 0 (month_lengths y) = []" "take (Suc 0) (month_lengths y) = [31]"
  "m \<in> {2, 3, 4, 5, 6, 7, 8, 9, 10, 11} \<Longrightarrow>
     sum_list (take m (month_lengths y)) =
       (if leap y then 60 else 59) + sum_list (take (m - 2) [31, 30, 31, 30, 31, 31, 30, 31, 30, 31])"
  by (auto simp: month_lengths_def take_Cons')

lemma count_calendar:
  assumes "1 \<le> y" "1 \<le> m" "m \<le> 12" "1 \<le> d"
  shows "calendar_days y m d = count_nat y m d + 60"
proof -
  obtain x where x: "y = Suc x" using assms(1) by (cases y) auto
  obtain e where e: "d = Suc e" using assms(4) by (cases d) auto
  show ?thesis
  proof (cases "m \<le> 2")
    case True
    then consider "m = 1" | "m = 2" using assms by linarith
    then show ?thesis
      by cases (simp_all add: calendar_days_def count_nat_def march_day_def take_months x e next_year_days
          del: days_before_year.simps)
  next
    case False
    define k where "k = m - 3"
    have k: "m = k + 3" "k \<in> {0, 1, 2, 3, 4, 5, 6, 7, 8, 9}" using False assms by (auto simp: k_def)
    have s: "sum_list (take (Suc (Suc k)) (month_lengths y)) =
        (if leap y then 60 else 59) + sum_list (take k [31, 30, 31, 30, 31, 31, 30, 31, 30, 31])"
      using take_months(3) [of "Suc (Suc k)" y] k(2) by auto
    have t: "sum_list (take k [31, 30, 31, 30, 31, 31, 30, 31, 30, 31]) = (153 * k + 2) div (5::nat)"
      using k(2) by (auto simp: take_Cons')
    have "days_before_year y + (if leap y then 366 else 365) = march_year_days y + 366"
      using next_year_days [of y] by simp
    then have "days_before_year y + (if leap y then 60 else 59) = march_year_days y + 60"
      by (auto split: if_splits)
    then show ?thesis
      using False by (simp add: calendar_days_def count_nat_def march_day_def s t e k(1))
  qed
qed

section \<open>The words do not wrap on dates of the calendar\<close>

lemma uplus: "unat (a::u64) + unat b < 2 ^ 64 \<Longrightarrow> unat (a + b) = unat a + unat b"
  using unat_add_lem [of a b] by simp

lemma utimes: "unat (a::u64) * unat b < 2 ^ 64 \<Longrightarrow> unat (a * b) = unat a * unat b"
  using unat_mult_lem [of a b] by simp

lemma uminus: "unat (b::u64) \<le> unat a \<Longrightarrow> unat (a - b) = unat a - unat b"
  by (simp add: unat_sub word_le_nat_alt)

lemma march_year_eras:
  "march_year_days y =
     y div 400 * 146097 + ((y mod 400) * 365 + (y mod 400) div 4 - (y mod 400) div 100)"
proof -
  define e r where "e = y div 400" and "r = y mod 400"
  have y: "y = 400 * e + r" by (simp add: e_def r_def)
  have "y div 4 = 100 * e + r div 4" "y div 100 = 4 * e + r div 100"
    unfolding y using div_mult_self2 [of 4 r "100 * e"] div_mult_self2 [of 100 r "4 * e"]
    by (simp_all add: ac_simps)
  moreover have "r div 100 \<le> r div 4" by (rule div_le_mono2) simp_all
  ultimately show ?thesis
    by (simp add: march_year_days_def e_def [symmetric] r_def [symmetric]) (simp add: y algebra_simps)
qed

lemma march_year_le: "march_year_days y \<le> 366 * y"
proof -
  have "y div 4 \<le> y" "y div 400 \<le> y div 100" by (simp_all add: div_le_mono2)
  moreover have "y div 4 - y div 100 + y div 400 \<le> y div 4"
    using \<open>y div 400 \<le> y div 100\<close> div_le_mono2 [of 4 100 y] by linarith
  ultimately show ?thesis unfolding march_year_days_def using div_le_mono2 [of 4 100 y] by linarith
qed

lemma unat_civil_count:
  assumes y: "1 \<le> unat year" "unat year < 2 ^ 40" and m: "unat month \<le> 12"
    and d: "1 \<le> unat day" "unat day \<le> 31"
  shows "unat (civil_count year month day) = count_nat (unat year) (unat month) (unat day)"
proof -
  define Y where "Y = (if month \<le> 2 then year - 1 else year)"
  have Y: "unat Y = (if unat month \<le> 2 then unat year - 1 else unat year)"
    using y by (simp add: Y_def uminus word_le_nat_alt)
  have Yb: "unat Y < 2 ^ 40" using Y y by (auto split: if_splits)
  define era where "era = Y div 400"
  have era: "unat era = unat Y div 400" by (simp add: era_def unat_div)
  have era_b: "unat era * 400 \<le> unat Y" by (simp add: era)
  define yoe where "yoe = Y - era * 400"
  have "unat (era * 400) = unat era * 400" using era_b Yb by (subst utimes) simp_all
  then have yoe: "unat yoe = unat Y mod 400"
    using era_b by (simp add: yoe_def uminus era minus_div_mult_eq_mod)
  have yb: "unat yoe < 400" by (simp add: yoe)
  define mm where "mm = (if 2 < month then month - 3 else month + 9)"
  have mm: "unat mm = (if 2 < unat month then unat month - 3 else unat month + 9)"
    using m by (auto simp: mm_def word_less_nat_alt uminus uplus)
  have mb: "unat mm \<le> 11" using mm m by (auto split: if_splits)
  have "unat (153 * mm + 2) = 153 * unat mm + 2" using mb by (simp add: uplus utimes)
  then have doy: "unat ((153 * mm + 2) div 5 + day - 1) = march_day (unat month) (unat day)"
    using mb d by (simp add: uplus uminus unat_div march_day_def mm [symmetric])
  have db: "march_day (unat month) (unat day) < 400"
    using mb d by (simp add: march_day_def mm [symmetric])
  define doe where "doe = yoe * 365 + yoe div 4 - yoe div 100 + ((153 * mm + 2) div 5 + day - 1)"
  have "unat yoe div 100 \<le> unat yoe div 4" by (rule div_le_mono2) simp_all
  then have doe: "unat doe = unat yoe * 365 + unat yoe div 4 - unat yoe div 100
      + march_day (unat month) (unat day)"
    unfolding doe_def using yb db by (simp add: uplus utimes uminus unat_div doy)
  have "unat era * 146097 + unat doe = march_year_days (unat Y) + march_day (unat month) (unat day)"
    by (simp add: march_year_eras era doe yoe ac_simps)
  moreover have "march_year_days (unat Y) \<le> 366 * 2 ^ 40"
    using march_year_le [of "unat Y"] Yb by linarith
  ultimately have "unat (era * 146097 + doe) = count_nat (unat year) (unat month) (unat day)"
    using db Y by (simp add: uplus utimes count_nat_def)
  moreover have "civil_count year month day = era * 146097 + doe"
    by (simp add: civil_count_def Let_def Y_def era_def yoe_def mm_def doe_def)
  ultimately show ?thesis by simp
qed

lemma days_before_year_mono: "x \<le> y \<Longrightarrow> days_before_year x \<le> days_before_year y"
  by (rule lift_Suc_mono_le [of days_before_year]) simp_all

lemma epoch_days: "days_before_year 1970 = 719528"
  using days_before_year_closed [of 1970] by simp

lemma count_from_epoch:
  assumes "1970 \<le> y" "1 \<le> m" "m \<le> 12" "1 \<le> d"
  shows "count_nat y m d = days_since_epoch y m d + 719468"
proof -
  have "days_before_year 1970 \<le> days_before_year y" using assms(1) by (rule days_before_year_mono)
  then show ?thesis
    using count_calendar [of y m d] assms by (simp add: days_since_epoch_def epoch_days calendar_days_def)
qed

text \<open>On a date of the calendar from 1970 on, the day numbers of the cookie jar and of the cache are
the number of days since the first of January 1970, leap years counted, and no arithmetic wraps.\<close>

theorem days_from_civil_calendar:
  assumes "1970 \<le> unat year" "unat year < 2 ^ 40"
    and "1 \<le> unat month" "unat month \<le> 12" "1 \<le> unat day" "unat day \<le> 31"
  shows "map_option unat (days_from_civil year month day) =
           Some (days_since_epoch (unat year) (unat month) (unat day)) \<and>
    unat (cache_days_from_civil year month day) =
       days_since_epoch (unat year) (unat month) (unat day)"
proof
  have c: "unat (civil_count year month day) =
      days_since_epoch (unat year) (unat month) (unat day) + 719468"
    using assms unat_civil_count [of year month day] count_from_epoch by simp
  from c have "unat (civil_count year month day - 719468) =
      days_since_epoch (unat year) (unat month) (unat day)"
    by (simp add: uminus)
  moreover have "1 \<le> month" "month \<le> 12" using assms by (simp_all add: word_le_nat_alt)
  ultimately show "map_option unat (days_from_civil year month day) =
      Some (days_since_epoch (unat year) (unat month) (unat day))"
    by (simp add: days_from_civil_def)
  show "unat (cache_days_from_civil year month day) =
      days_since_epoch (unat year) (unat month) (unat day)"
    using c by (simp add: cache_days_from_civil_def unat_saturating_sub)
qed

lemma days_from_civil_calendar_witness:
  "map_option unat (days_from_civil 1972 3 1) = Some (days_since_epoch 1972 3 1) \<and>
   unat (cache_days_from_civil 1972 3 1) = days_since_epoch 1972 3 1"
  using days_from_civil_calendar [of 1972 3 1] by simp

end
