(* ===== verification/Net_Cache.thy ===== *)
theory Net_Cache
  imports Rust_Utf8 Http_Date
begin

text \<open>
  The response cache (\<open>crates/silksurf-net/src/cache.rs\<close>): what is stored and for how long, the merge of
  a 304 answer, and the copy on disk. The monotonic clock is a count of nanoseconds and the wall clock
  one of seconds, both given; the directory is a map from file names to contents, and the JSON codec,
  the hash of file names and the file contents' type are parameters. File operations succeed.
\<close>

section \<open>Responses and headers\<close>

type_synonym headers = "(string \<times> string) list"

record http_response =
  rsp_status :: u16
  rsp_headers :: headers
  rsp_body :: "u8 list"

definition header_value :: "headers \<Rightarrow> string \<Rightarrow> string option" where
  "header_value headers name =
     map_option snd (List.find (\<lambda>(key, _). eq_ignore_ascii_case key name) headers)"

definition rsp_header :: "http_response \<Rightarrow> string \<Rightarrow> string option" where
  "rsp_header r name =
     map_option snd (List.find (\<lambda>(k, _). eq_ignore_ascii_case k name) (rsp_headers r))"

definition storable_status :: "u16 list" where
  "storable_status = [200, 203, 204, 206, 300, 301, 308, 404, 405, 410, 414, 501]"

definition cache_control_directives :: "headers \<Rightarrow> string list" where
  "cache_control_directives headers =
     (case header_value headers ''cache-control'' of
        Some value \<Rightarrow> map (\<lambda>d. to_ascii_lowercase (trim d)) (split_on (CHR '','') value)
      | None \<Rightarrow> [])"

definition response_is_storable :: "http_response \<Rightarrow> bool" where
  "response_is_storable r =
     (let directives = cache_control_directives (rsp_headers r)
      in if list_ex (\<lambda>d. d = ''no-store'' \<or> d = ''private'') directives then False
         else rsp_status r \<in> set storable_status)"

text \<open>The loop over the directives that returns at the first \<open>max-age=\<close>.\<close>

fun max_age_of :: "string list \<Rightarrow> u64 option" where
  "max_age_of [] = None"
| "max_age_of (d # ds) =
     (case strip_prefix ''max-age='' d of
        Some value \<Rightarrow> Some (case parse_u64 (trim_char (CHR 0x22) value) of Some n \<Rightarrow> n | None \<Rightarrow> 0)
      | None \<Rightarrow> max_age_of ds)"

definition freshness_lifetime :: "headers \<Rightarrow> u64" where
  "freshness_lifetime headers =
     (let directives = cache_control_directives headers
      in if list_ex (\<lambda>d. d = ''no-cache'') directives then 0
         else case max_age_of directives of
           Some n \<Rightarrow> n
         | None \<Rightarrow>
             (case (Option.bind (header_value headers ''expires'') cache_http_date,
                    Option.bind (header_value headers ''date'') cache_http_date) of
                (Some expires, Some date) \<Rightarrow> saturating_sub expires date
              | _ \<Rightarrow> 0))"

section \<open>Entries\<close>

record cached_response =
  cr_body :: "u8 list"
  cr_status :: u16
  cr_headers :: headers
  cr_etag :: "string option"
  cr_last_modified :: "string option"
  cr_cached_at :: nat
  cr_freshness_secs :: u64
  cr_prior_age_secs :: u64
  cr_url :: string

text \<open>\<open>Instant::elapsed\<close> in whole seconds.\<close>

definition elapsed_secs :: "nat \<Rightarrow> nat \<Rightarrow> u64" where
  "elapsed_secs now at = of_nat ((now - at) div 1000000000)"

definition is_fresh :: "nat \<Rightarrow> cached_response \<Rightarrow> bool" where
  "is_fresh now e \<longleftrightarrow>
     saturating_add (cr_prior_age_secs e) (elapsed_secs now (cr_cached_at e)) < cr_freshness_secs e"

definition is_text_response :: "cached_response \<Rightarrow> bool" where
  "is_text_response e =
     (case header_value (cr_headers e) ''content-type'' of
        None \<Rightarrow> False
      | Some content_type \<Rightarrow>
          (let media_type = to_ascii_lowercase (trim (hd (split_on (CHR '';'') content_type)))
           in starts_with ''text/'' media_type \<or>
              media_type \<in> {''application/javascript'', ''application/json'', ''application/xml''}))"

definition disk_entry_is_decoded_text :: "cached_response \<Rightarrow> bool" where
  "disk_entry_is_decoded_text e \<longleftrightarrow>
     is_text_response e \<and> header_value (cr_headers e) ''transfer-encoding'' = None \<and>
     header_value (cr_headers e) ''content-encoding'' = None"

definition disk_cache_body :: "cached_response \<Rightarrow> string option" where
  "disk_cache_body e =
     (if \<not> disk_entry_is_decoded_text e then None
      else if utf8_valid (cr_body e) then Some (bytes_str (cr_body e)) else None)"

section \<open>The disk\<close>

record cached_response_disk =
  cd_url :: string
  cd_status :: u16
  cd_body_utf8 :: string
  cd_headers :: headers
  cd_etag :: "string option"
  cd_last_modified :: "string option"
  cd_stored_at_unix :: u64
  cd_freshness_secs :: u64

text \<open>A directory: the hash in a file's name and the file's content.\<close>

type_synonym 'f disk = "u64 \<rightharpoonup> 'f"

record 'f response_cache =
  rc_entries :: "string \<rightharpoonup> cached_response"
  rc_disk :: "'f disk option"

definition put_to_disk ::
    "(cached_response_disk \<Rightarrow> 'f option) \<Rightarrow> (string \<Rightarrow> u64) \<Rightarrow> u64 \<Rightarrow> string \<Rightarrow> cached_response \<Rightarrow>
     'f disk \<Rightarrow> 'f disk" where
  "put_to_disk to_json hash unix url e d =
     (case disk_cache_body e of
        None \<Rightarrow> d
      | Some body \<Rightarrow>
          (case to_json \<lparr>cd_url = url, cd_status = cr_status e, cd_body_utf8 = body,
                  cd_headers = cr_headers e, cd_etag = cr_etag e,
                  cd_last_modified = cr_last_modified e, cd_stored_at_unix = unix,
                  cd_freshness_secs = cr_freshness_secs e\<rparr> of
             None \<Rightarrow> d
           | Some json \<Rightarrow> d(hash url \<mapsto> json)))"

definition remove_from_disk :: "(string \<Rightarrow> u64) \<Rightarrow> string \<Rightarrow> 'f disk \<Rightarrow> 'f disk" where
  "remove_from_disk hash url d = d(hash url := None)"

text \<open>One file of the scan at start-up; the files are given in the order the directory yields them.\<close>

definition load_file ::
    "('f \<Rightarrow> cached_response_disk option) \<Rightarrow> nat \<Rightarrow> u64 \<Rightarrow> 'f \<Rightarrow>
     (string \<rightharpoonup> cached_response) \<Rightarrow> string \<rightharpoonup> cached_response" where
  "load_file from_json now unix file entries =
     (case from_json file of
        None \<Rightarrow> entries
      | Some disk \<Rightarrow>
          (let e = \<lparr>cr_body = str_bytes (cd_body_utf8 disk), cr_status = cd_status disk,
                 cr_headers = cd_headers disk, cr_etag = cd_etag disk,
                 cr_last_modified = cd_last_modified disk, cr_cached_at = now,
                 cr_freshness_secs = cd_freshness_secs disk,
                 cr_prior_age_secs = saturating_sub unix (cd_stored_at_unix disk),
                 cr_url = cd_url disk\<rparr>
           in if \<not> disk_entry_is_decoded_text e then entries else entries(cd_url disk \<mapsto> e)))"

definition load_all_from_disk ::
    "('f \<Rightarrow> cached_response_disk option) \<Rightarrow> nat \<Rightarrow> u64 \<Rightarrow> 'f list \<Rightarrow>
     (string \<rightharpoonup> cached_response) \<Rightarrow> string \<rightharpoonup> cached_response" where
  "load_all_from_disk from_json now unix files entries = fold (load_file from_json now unix) files entries"

section \<open>The cache\<close>

definition cache_new :: "'f response_cache" where
  "cache_new = \<lparr>rc_entries = Map.empty, rc_disk = None\<rparr>"

definition with_disk ::
    "('f \<Rightarrow> cached_response_disk option) \<Rightarrow> nat \<Rightarrow> u64 \<Rightarrow> 'f list \<Rightarrow> 'f disk \<Rightarrow> 'f response_cache" where
  "with_disk from_json now unix files dir =
     \<lparr>rc_entries = load_all_from_disk from_json now unix files Map.empty, rc_disk = Some dir\<rparr>"

definition cache_get :: "nat \<Rightarrow> string \<Rightarrow> 'f response_cache \<Rightarrow> cached_response option" where
  "cache_get now url c =
     (case rc_entries c url of Some e \<Rightarrow> if is_fresh now e then Some e else None | None \<Rightarrow> None)"

definition cache_put ::
    "(cached_response_disk \<Rightarrow> 'f option) \<Rightarrow> (string \<Rightarrow> u64) \<Rightarrow> nat \<Rightarrow> u64 \<Rightarrow> string \<Rightarrow> http_response \<Rightarrow>
     'f response_cache \<Rightarrow> 'f response_cache" where
  "cache_put to_json hash now unix url r c =
     (if \<not> response_is_storable r then
        c\<lparr>rc_entries := (rc_entries c)(url := None),
          rc_disk := map_option (remove_from_disk hash url) (rc_disk c)\<rparr>
      else
        (let e = \<lparr>cr_body = rsp_body r, cr_status = rsp_status r, cr_headers = rsp_headers r,
               cr_etag = rsp_header r ''etag'', cr_last_modified = rsp_header r ''last-modified'',
               cr_cached_at = now, cr_freshness_secs = freshness_lifetime (rsp_headers r),
               cr_prior_age_secs = 0, cr_url = url\<rparr>
         in c\<lparr>rc_disk := map_option (put_to_disk to_json hash unix url e) (rc_disk c),
              rc_entries := (rc_entries c)(url \<mapsto> e)\<rparr>))"

text \<open>One header of a 304 answer, merged into the stored ones.\<close>

definition merge_header :: "string \<times> string \<Rightarrow> headers \<Rightarrow> headers" where
  "merge_header h hs =
     (let (name, value) = h; lowered = to_ascii_lowercase name
      in case position (\<lambda>(stored, _). eq_ignore_ascii_case stored lowered) hs of
           Some i \<Rightarrow> hs[i := (fst (hs ! i), value)]
         | None \<Rightarrow> hs @ [(name, value)])"

definition refreshed_entry :: "nat \<Rightarrow> http_response \<Rightarrow> cached_response \<Rightarrow> cached_response" where
  "refreshed_entry now r e =
     (let hs = fold merge_header (rsp_headers r) (cr_headers e)
      in e\<lparr>cr_headers := hs,
           cr_etag := (case rsp_header r ''etag'' of Some t \<Rightarrow> Some t | None \<Rightarrow> cr_etag e),
           cr_last_modified := (case rsp_header r ''last-modified'' of
              Some t \<Rightarrow> Some t | None \<Rightarrow> cr_last_modified e),
           cr_freshness_secs := freshness_lifetime hs, cr_cached_at := now, cr_prior_age_secs := 0\<rparr>)"

definition refresh_from_not_modified ::
    "(cached_response_disk \<Rightarrow> 'f option) \<Rightarrow> (string \<Rightarrow> u64) \<Rightarrow> nat \<Rightarrow> u64 \<Rightarrow> string \<Rightarrow> http_response \<Rightarrow>
     'f response_cache \<Rightarrow> http_response option \<times> 'f response_cache" where
  "refresh_from_not_modified to_json hash now unix url r c =
     (case rc_entries c url of
        None \<Rightarrow> (None, c)
      | Some old \<Rightarrow>
          (let e = refreshed_entry now r old
           in (Some \<lparr>rsp_status = cr_status e, rsp_headers = cr_headers e, rsp_body = cr_body e\<rparr>,
               c\<lparr>rc_entries := (rc_entries c)(url \<mapsto> e),
                 rc_disk := map_option (put_to_disk to_json hash unix url e) (rc_disk c)\<rparr>)))"

definition conditional_headers :: "string \<Rightarrow> 'f response_cache \<Rightarrow> headers" where
  "conditional_headers url c =
     (case rc_entries c url of
        None \<Rightarrow> []
      | Some e \<Rightarrow>
          (case cr_etag e of Some t \<Rightarrow> [(''If-None-Match'', t)] | None \<Rightarrow> []) @
          (case cr_last_modified e of Some t \<Rightarrow> [(''If-Modified-Since'', t)] | None \<Rightarrow> []))"

definition cache_len :: "'f response_cache \<Rightarrow> nat" where
  "cache_len c = card (dom (rc_entries c))"

definition total_bytes :: "'f response_cache \<Rightarrow> nat" where
  "total_bytes c = (\<Sum>u \<in> dom (rc_entries c). length (cr_body (the (rc_entries c u))))"

definition cache_clear :: "'f response_cache \<Rightarrow> 'f response_cache" where
  "cache_clear c = c\<lparr>rc_entries := Map.empty\<rparr>"

text \<open>
  What the response cache promises: it answers with the representation stored last, only while its own
  headers allow it, a 304 answer updates headers by name, and a copy on disk comes back with its age.
\<close>

section \<open>Headers after a 304 answer\<close>

lemma header_value_simps [simp]:
  "header_value [] n = None"
  "header_value ((k, v) # hs) n = (if eq_ignore_ascii_case k n then Some v else header_value hs n)"
  by (simp_all add: header_value_def)

lemma rsp_header_value: "rsp_header r n = header_value (rsp_headers r) n"
  by (simp add: rsp_header_def header_value_def)

lemma merge_header_Nil: "merge_header (k, v) [] = [(k, v)]"
  by (simp add: merge_header_def)

lemma merge_header_Cons:
  "merge_header (k, v) ((s, w) # hs) =
     (if eq_ignore_ascii_case s k then (s, v) # hs else (s, w) # merge_header (k, v) hs)"
  by (auto simp: merge_header_def Let_def split: option.splits)

lemma eq_ignore_trans:
  "eq_ignore_ascii_case a b \<Longrightarrow> eq_ignore_ascii_case a c = eq_ignore_ascii_case b c"
  by (simp add: eq_ignore_ascii_case_def)

lemma merge_header_value:
  "header_value (merge_header (k, v) hs) n = (if eq_ignore_ascii_case k n then Some v else header_value hs n)"
proof (induction hs)
  case (Cons h hs)
  then show ?case
    by (cases h) (auto simp: merge_header_Cons eq_ignore_ascii_case_def)
qed (simp add: merge_header_Nil)

lemma merge_header_names: "\<exists>more. map fst (merge_header (k, v) hs) = map fst hs @ more"
proof (induction hs)
  case (Cons h hs)
  then show ?case by (cases h) (auto simp: merge_header_Cons)
qed simp

lemma header_value_snoc:
  "header_value (xs @ [(k, v)]) n =
     (case header_value xs n of Some w \<Rightarrow> Some w | None \<Rightarrow> if eq_ignore_ascii_case k n then Some v else None)"
  by (induction xs) auto

text \<open>After a 304 answer a header of the stored response has the value the answer gives it, the last one
when it gives several, and otherwise the value it had; the stored names keep their places.\<close>

theorem merged_headers:
  "header_value (fold merge_header new hs) n =
     (case header_value (rev new) n of Some v \<Rightarrow> Some v | None \<Rightarrow> header_value hs n) \<and>
   (\<exists>more. map fst (fold merge_header new hs) = map fst hs @ more)"
proof
  show "header_value (fold merge_header new hs) n =
     (case header_value (rev new) n of Some v \<Rightarrow> Some v | None \<Rightarrow> header_value hs n)"
  proof (induction new arbitrary: hs)
    case (Cons h new)
    obtain k v where h: "h = (k, v)" by (cases h)
    show ?case
      using Cons [of "merge_header h hs"]
      by (simp add: h merge_header_value header_value_snoc split: option.splits)
  qed simp
  show "\<exists>more. map fst (fold merge_header new hs) = map fst hs @ more"
  proof (induction new arbitrary: hs)
    case (Cons h new)
    obtain k v where h: "h = (k, v)" by (cases h)
    obtain m where "map fst (merge_header h hs) = map fst hs @ m"
      unfolding h using merge_header_names by blast
    with Cons [of "merge_header h hs"] show ?case by auto
  qed simp
qed

section \<open>Runs\<close>

datatype cache_op =
  OpPut string http_response nat u64
| OpNotModified string http_response nat u64
| OpClear

fun cache_step ::
    "(cached_response_disk \<Rightarrow> 'f option) \<Rightarrow> (string \<Rightarrow> u64) \<Rightarrow> cache_op \<Rightarrow>
     'f response_cache \<Rightarrow> 'f response_cache" where
  "cache_step to_json hash (OpPut url r now unix) c = cache_put to_json hash now unix url r c"
| "cache_step to_json hash (OpNotModified url r now unix) c =
     snd (refresh_from_not_modified to_json hash now unix url r c)"
| "cache_step to_json hash OpClear c = cache_clear c"

text \<open>The response stored last for a URL.\<close>

fun stored_step :: "string \<Rightarrow> cache_op \<Rightarrow> http_response option \<Rightarrow> http_response option" where
  "stored_step url (OpPut u r now unix) prev =
     (if u = url then (if response_is_storable r then Some r else None) else prev)"
| "stored_step url (OpNotModified u r now unix) prev = prev"
| "stored_step url OpClear prev = None"

definition stands_for :: "string \<Rightarrow> cached_response option \<Rightarrow> http_response option \<Rightarrow> bool" where
  "stands_for url e r \<longleftrightarrow>
     map_option (\<lambda>e. (cr_url e, cr_status e, cr_body e)) e =
     map_option (\<lambda>r. (url, rsp_status r, rsp_body r)) r"

lemma cache_step_stored:
  "stands_for url (rc_entries c url) r \<Longrightarrow>
     stands_for url (rc_entries (cache_step to_json hash op c) url) (stored_step url op r)"
  by (cases op)
    (auto simp: stands_for_def cache_put_def refresh_from_not_modified_def refreshed_entry_def
      cache_clear_def Let_def split: option.splits)

text \<open>C14: After any run of the cache from an empty one, the entry of a URL has the status and the body of the
last storable response put there, and there is none when the last put was not storable or the cache
was cleared since; 304 answers change neither.\<close>

theorem cache_holds_last_stored:
  "map_option (\<lambda>e. (cr_url e, cr_status e, cr_body e))
       (rc_entries (fold (cache_step to_json hash) ops \<lparr>rc_entries = Map.empty, rc_disk = d\<rparr>) url) =
     map_option (\<lambda>r. (url, rsp_status r, rsp_body r)) (fold (stored_step url) ops None)"
proof -
  have "stands_for url (rc_entries (fold (cache_step to_json hash) ops c) url) (fold (stored_step url) ops r)"
    if "stands_for url (rc_entries c url) r" for c r
    using that by (induction ops arbitrary: c r) (simp_all add: cache_step_stored)
  from this [of "\<lparr>rc_entries = Map.empty, rc_disk = d\<rparr>" None]
  show ?thesis by (simp add: stands_for_def)
qed

definition entry_ok :: "cached_response \<Rightarrow> bool" where
  "entry_ok e \<longleftrightarrow>
     cr_status e \<in> set storable_status \<and> cr_freshness_secs e = freshness_lifetime (cr_headers e) \<and>
     cr_prior_age_secs e = 0"

definition entries_ok :: "(string \<rightharpoonup> cached_response) \<Rightarrow> bool" where
  "entries_ok m \<longleftrightarrow> (\<forall>u e. m u = Some e \<longrightarrow> entry_ok e)"

lemma cache_step_ok: "entries_ok (rc_entries c) \<Longrightarrow> entries_ok (rc_entries (cache_step to_json hash op c))"
  by (cases op)
    (auto simp: entries_ok_def entry_ok_def cache_put_def refresh_from_not_modified_def
      refreshed_entry_def cache_clear_def response_is_storable_def Let_def split: option.splits if_splits)

lemma cache_run_ok:
  "entries_ok (rc_entries c) \<Longrightarrow> entries_ok (rc_entries (fold (cache_step to_json hash) ops c))"
  by (induction ops arbitrary: c) (simp_all add: cache_step_ok)

lemma saturating_add_zero: "saturating_add 0 b = (b :: u64)"
  using unsigned_less [of b, where ?'a = nat] by (simp add: saturating_add_def)

lemma fresh_needs_lifetime:
  "0 < freshness_lifetime hs \<Longrightarrow> ''no-cache'' \<notin> set (cache_control_directives hs)"
  by (auto simp: freshness_lifetime_def Let_def list_ex_iff)


definition sample_response :: http_response where
  "sample_response = \<lparr>rsp_status = 200,
     rsp_headers = [(''Content-Type'', ''text/html; charset=utf-8''), (''Cache-Control'', ''max-age=60'')],
     rsp_body = [104, 105]\<rparr>"

definition sample_entry :: cached_response where
  "sample_entry = \<lparr>cr_body = [104, 105], cr_status = 200, cr_headers = rsp_headers sample_response,
     cr_etag = None, cr_last_modified = None, cr_cached_at = 0, cr_freshness_secs = 60,
     cr_prior_age_secs = 0, cr_url = ''u''\<rparr>"

lemma sample_facts:
  "response_is_storable sample_response" "freshness_lifetime (rsp_headers sample_response) = 60"
  "rsp_header sample_response ''etag'' = None" "rsp_header sample_response ''last-modified'' = None"
  "rsp_status sample_response = 200" "rsp_body sample_response = [104, 105]"
  "disk_cache_body sample_entry = Some ''hi''"
  by code_simp+

lemma sample_put:
  "cache_put to_json hash 0 unix ''u'' sample_response \<lparr>rc_entries = Map.empty, rc_disk = d\<rparr> =
     \<lparr>rc_entries = [''u'' \<mapsto> sample_entry], rc_disk = map_option (put_to_disk to_json hash unix ''u'' sample_entry) d\<rparr>"
  by (simp add: cache_put_def sample_facts sample_entry_def Let_def)


section \<open>The copy on disk\<close>

lemma disk_text_headers:
  "disk_entry_is_decoded_text e \<Longrightarrow> cr_headers e = cr_headers e' \<Longrightarrow> disk_entry_is_decoded_text e'"
  by (simp add: disk_entry_is_decoded_text_def is_text_response_def)

lemma load_put:
  assumes codec: "\<forall>x. Option.bind (to_json x) from_json = Some x"
    and body: "disk_cache_body e \<noteq> None" and url: "cr_url e = url"
  shows "\<exists>f. put_to_disk to_json hash unix url e dir = dir(hash url \<mapsto> f) \<and>
    load_file from_json now' unix' f m =
      m(url \<mapsto> e\<lparr>cr_cached_at := now', cr_prior_age_secs := saturating_sub unix' unix\<rparr>)"
proof -
  let ?e = "e\<lparr>cr_cached_at := now', cr_prior_age_secs := saturating_sub unix' unix\<rparr>"
  have dec: "disk_entry_is_decoded_text e" and b: "disk_cache_body e = Some (bytes_str (cr_body e))"
    using body by (auto simp: disk_cache_body_def split: if_splits)
  define x where "x = \<lparr>cd_url = url, cd_status = cr_status e, cd_body_utf8 = bytes_str (cr_body e),
      cd_headers = cr_headers e, cd_etag = cr_etag e, cd_last_modified = cr_last_modified e,
      cd_stored_at_unix = unix, cd_freshness_secs = cr_freshness_secs e\<rparr>"
  obtain f where f: "to_json x = Some f" "from_json f = Some x"
    using codec [rule_format, of x] by (cases "to_json x") auto
  have "disk_entry_is_decoded_text ?e" using dec by (rule disk_text_headers) simp
  moreover have "\<lparr>cr_body = str_bytes (cd_body_utf8 x), cr_status = cd_status x, cr_headers = cd_headers x,
      cr_etag = cd_etag x, cr_last_modified = cd_last_modified x, cr_cached_at = now',
      cr_freshness_secs = cd_freshness_secs x, cr_prior_age_secs = saturating_sub unix' (cd_stored_at_unix x),
      cr_url = cd_url x\<rparr> = ?e"
    using url by (simp add: x_def)
  moreover have "cd_url x = url" by (simp add: x_def)
  ultimately have "load_file from_json now' unix' f m = m(url \<mapsto> ?e)"
    using f by (simp add: load_file_def Let_def)
  moreover have "put_to_disk to_json hash unix url e dir = dir(hash url \<mapsto> f)"
    using f b by (simp add: put_to_disk_def x_def)
  ultimately show ?thesis by blast
qed

text \<open>A stored text response that is written to disk comes back when its file is read at a later start,
with the seconds that passed on the wall clock as its age: a restart does not make it fresh again.
The codec has to read back what it writes.\<close>

theorem disk_copy_keeps_age:
  assumes "\<forall>x. Option.bind (to_json x) from_json = Some x"
    and "response_is_storable r" and "rc_disk c = Some dir"
    and "rc_entries (cache_put to_json hash now unix url r c) url = Some e" "disk_cache_body e \<noteq> None"
  shows "\<exists>f e'. rc_disk (cache_put to_json hash now unix url r c) = Some (dir(hash url \<mapsto> f)) \<and>
    rc_entries (with_disk from_json now' unix' [f] dir') = [url \<mapsto> e'] \<and>
    (cr_status e', cr_headers e', cr_body e', cr_etag e') =
      (rsp_status r, rsp_headers r, rsp_body r, rsp_header r ''etag'') \<and>
    (is_fresh now' e' \<longleftrightarrow> unat unix' - unat unix < unat (freshness_lifetime (rsp_headers r)))"
proof -
  have e: "e = \<lparr>cr_body = rsp_body r, cr_status = rsp_status r, cr_headers = rsp_headers r,
      cr_etag = rsp_header r ''etag'', cr_last_modified = rsp_header r ''last-modified'',
      cr_cached_at = now, cr_freshness_secs = freshness_lifetime (rsp_headers r),
      cr_prior_age_secs = 0, cr_url = url\<rparr>"
    and d: "rc_disk (cache_put to_json hash now unix url r c) = Some (put_to_disk to_json hash unix url e dir)"
    using assms(2-4) by (auto simp: cache_put_def Let_def)
  let ?e = "e\<lparr>cr_cached_at := now', cr_prior_age_secs := saturating_sub unix' unix\<rparr>"
  obtain f where "put_to_disk to_json hash unix url e dir = dir(hash url \<mapsto> f)"
    "load_file from_json now' unix' f Map.empty = [url \<mapsto> ?e]"
    using load_put [OF assms(1,5), of url hash unix dir now' unix' Map.empty] e by auto
  moreover have "is_fresh now' ?e \<longleftrightarrow> unat unix' - unat unix < unat (freshness_lifetime (rsp_headers r))"
    using unsigned_less [of "saturating_sub unix' unix", where ?'a = nat]
    by (simp add: is_fresh_def e elapsed_secs_def word_less_nat_alt unat_saturating_sub unat_saturating_add)
  ultimately show ?thesis
    using d by (intro exI [of _ f] exI [of _ ?e]) (simp add: with_disk_def load_all_from_disk_def e)
qed

lemma disk_copy_keeps_age_witness:
  "\<exists>f e'. rc_disk (cache_put Some (\<lambda>_. 0) 0 1000 ''u'' sample_response
        \<lparr>rc_entries = Map.empty, rc_disk = Some Map.empty\<rparr>) = Some [0 \<mapsto> f] \<and>
    rc_entries (with_disk Some 5 1060 [f] Map.empty) = [''u'' \<mapsto> e'] \<and> \<not> is_fresh 5 e'"
proof -
  let ?c = "\<lparr>rc_entries = Map.empty, rc_disk = Some Map.empty\<rparr> :: cached_response_disk response_cache"
  have "rc_entries (cache_put Some (\<lambda>_. 0) 0 1000 ''u'' sample_response ?c) ''u'' = Some sample_entry"
    by (simp add: sample_put)
  from disk_copy_keeps_age [OF _ _ _ this, of Some Map.empty 5 1060 Map.empty] show ?thesis
    by (auto simp: sample_facts)
qed

end
