(* ===== verification/Net_Response.thy ===== *)
theory Net_Response
  imports Net_Cache Rust_Num
begin

text \<open>
  Reading an HTTP/1.1 response (\<open>crates/silksurf-net/src/lib.rs\<close>, from \<open>read_response\<close> to
  \<open>read_decoded_body\<close>): the bytes of the connection, the head, the chunked transfer coding and the
  content codings. The head parser (httparse) and the three decompressors are parameters; a stream
  is the list of the results its \<open>read\<close> calls give, the end of the list being \<open>Ok(0)\<close>.
\<close>

section \<open>Errors and streams\<close>

text \<open>\<open>NetError\<close>, and the panic of a slice index out of range.\<close>

datatype net_error = NetError string | SlicePanic

datatype read_event =
    ReadOk "u8 list"
  | ReadWouldBlock
  | ReadTimedOut
  | ReadReset
  | ReadErr string

definition MAX_RESPONSE_BODY_BYTES :: nat where
  "MAX_RESPONSE_BODY_BYTES = 16 * 1024 * 1024"

fun read_loop :: "u8 list \<Rightarrow> read_event list \<Rightarrow> net_error + u8 list" where
  "read_loop buf [] = Inr buf"
| "read_loop buf (ReadOk bs # es) =
     (if bs = [] then Inr buf
      else if MAX_RESPONSE_BODY_BYTES < length (buf @ bs) then
        Inl (NetError (''Response exceeds MAX_RESPONSE_BODY_BYTES ('' @ show_nat MAX_RESPONSE_BODY_BYTES @ '' bytes)''))
      else read_loop (buf @ bs) es)"
| "read_loop buf (ReadWouldBlock # es) = Inr buf"
| "read_loop buf (ReadTimedOut # es) = Inr buf"
| "read_loop buf (ReadReset # es) = Inr buf"
| "read_loop buf (ReadErr e # es) = Inl (NetError (''Read error: '' @ e))"

definition read_response :: "read_event list \<Rightarrow> net_error + u8 list" where
  "read_response es = read_loop [] es"

section \<open>Lossy decoding\<close>

text \<open>
  \<open>String::from_utf8_lossy\<close>: one step takes a well-formed sequence, or replaces the longest prefix of
  one that the bytes hold by U+FFFD. The result is whether the sequence is whole, and its bytes.
\<close>

definition utf8_step :: "u8 \<Rightarrow> u8 list \<Rightarrow> bool \<times> nat" where
  "utf8_step b r =
     (if b < 0x80 then (True, 1)
      else (case r of
        [] \<Rightarrow> (False, 1)
      | c # r \<Rightarrow>
          if utf8_two b then (if utf8_cont c then (True, 2) else (False, 1))
          else if utf8_three b c then
            (case r of d # _ \<Rightarrow> if utf8_cont d then (True, 3) else (False, 2) | [] \<Rightarrow> (False, 2))
          else if utf8_four b c then
            (case r of
               d # r \<Rightarrow>
                 if utf8_cont d then
                   (case r of e # _ \<Rightarrow> if utf8_cont e then (True, 4) else (False, 3) | [] \<Rightarrow> (False, 3))
                 else (False, 2)
             | [] \<Rightarrow> (False, 2))
          else (False, 1)))"

definition replacement_bytes :: "u8 list" where
  "replacement_bytes = [0xEF, 0xBF, 0xBD]"

lemma utf8_step_pos [simp]: "utf8_step b r = (ok, n) \<Longrightarrow> 0 < n"
  by (auto simp: utf8_step_def split: if_splits list.splits)

function utf8_lossy :: "u8 list \<Rightarrow> u8 list" where
  "utf8_lossy [] = []"
| "utf8_lossy (b # r) =
     (case utf8_step b r of (ok, n) \<Rightarrow>
        (if ok then take n (b # r) else replacement_bytes) @ utf8_lossy (drop n (b # r)))"
  by pat_completeness auto
termination
  by (relation "measure length")
     (auto simp: utf8_step_pos, metis diff_less length_Cons utf8_step_pos zero_less_Suc)

declare utf8_lossy.simps(2) [simp del]

definition from_utf8_lossy :: "u8 list \<Rightarrow> string" where
  "from_utf8_lossy bs = bytes_str (utf8_lossy bs)"

section \<open>The chunked transfer coding\<close>

text \<open>\<open>windows(2).position(|pair| pair == b"\r\n")\<close> and \<open>windows(4).any(...)\<close>.\<close>

fun crlf_position :: "u8 list \<Rightarrow> nat option" where
  "crlf_position (a # b # r) = (if a = 13 \<and> b = 10 then Some 0 else map_option Suc (crlf_position (b # r)))"
| "crlf_position _ = None"

fun has_blank_line :: "u8 list \<Rightarrow> bool" where
  "has_blank_line [] = False"
| "has_blank_line (a # r) \<longleftrightarrow> take 4 (a # r) = [13, 10, 13, 10] \<or> has_blank_line r"

definition chunk_line :: "u8 list \<Rightarrow> nat \<Rightarrow> net_error + u8 list \<times> nat" where
  "chunk_line body cursor =
     (if length body < cursor then Inl SlicePanic
      else (case crlf_position (drop cursor body) of
        None \<Rightarrow> Inl (NetError ''Incomplete chunked response size line'')
      | Some relative_end \<Rightarrow> Inr (take relative_end (drop cursor body), cursor + relative_end + 2)))"

text \<open>\<open>usize::from_str_radix(s, 16)\<close>: an optional plus sign, digits, below \<open>2 ^ 64\<close>.\<close>

definition hex_digit_value :: "char \<Rightarrow> nat" where
  "hex_digit_value c =
     (if ascii_digit c then byte_of c - 48
      else if 97 \<le> byte_of c then byte_of c - 87 else byte_of c - 55)"

definition is_radix16 :: "char \<Rightarrow> bool" where
  "is_radix16 c \<longleftrightarrow>
     ascii_digit c \<or> 65 \<le> byte_of c \<and> byte_of c \<le> 70 \<or> 97 \<le> byte_of c \<and> byte_of c \<le> 102"

definition radix16_value :: "string \<Rightarrow> nat" where
  "radix16_value ds = foldl (\<lambda>v c. v * 16 + hex_digit_value c) 0 ds"

definition usize_from_radix16 :: "string \<Rightarrow> u64 option" where
  "usize_from_radix16 s =
     (let ds = (case s of c # r \<Rightarrow> if c = CHR ''+'' then r else s | [] \<Rightarrow> [])
      in if ds \<noteq> [] \<and> list_all is_radix16 ds \<and> radix16_value ds < 2 ^ 64
         then Some (word_of_nat (radix16_value ds)) else None)"

definition chunk_len :: "u8 list \<Rightarrow> net_error + u64" where
  "chunk_len line =
     (let size = takeWhile (\<lambda>b. b \<noteq> 59) line
      in if \<not> utf8_valid size then Inl (NetError ''Invalid chunked response size'')
         else ok_or (NetError ''Invalid chunked response size'') (usize_from_radix16 (trim (bytes_str size))))"

definition consume_chunk_crlf :: "u8 list \<Rightarrow> nat \<Rightarrow> net_error + nat" where
  "consume_chunk_crlf body cursor =
     (if cursor + 2 \<le> length body \<and> take 2 (drop cursor body) = [13, 10] then Inr (cursor + 2)
      else Inl (NetError ''Missing chunked response terminator''))"

definition consume_chunk_trailers :: "u8 list \<Rightarrow> nat \<Rightarrow> net_error + unit" where
  "consume_chunk_trailers body cursor =
     (if cursor + 2 \<le> length body \<and> take 2 (drop cursor body) = [13, 10] then Inr ()
      else if length body < cursor then Inl SlicePanic
      else if has_blank_line (drop cursor body) then Inr ()
      else Inl (NetError ''Incomplete chunked response trailers''))"

lemma crlf_position_bound: "crlf_position bs = Some n \<Longrightarrow> n + 2 \<le> length bs"
  by (induction bs arbitrary: n rule: crlf_position.induct) (auto split: if_splits)

lemma chunk_line_bound:
  "chunk_line body cursor = Inr (line, after) \<Longrightarrow> cursor + 2 \<le> after \<and> after \<le> length body"
  by (auto simp: chunk_line_def split: if_splits option.splits dest!: crlf_position_bound)

lemma consume_chunk_crlf_bound:
  "consume_chunk_crlf body cursor = Inr next \<Longrightarrow> next = cursor + 2 \<and> next \<le> length body"
  by (auto simp: consume_chunk_crlf_def split: if_splits)

text \<open>The loop of \<open>decode_chunked_body\<close>; \<open>checked_add\<close> fails at \<open>2 ^ 64\<close>.\<close>

function chunk_loop :: "u8 list \<Rightarrow> nat \<Rightarrow> u8 list \<Rightarrow> net_error + u8 list" where
  "chunk_loop body cursor decoded =
     (case chunk_line body cursor of
        Inl e \<Rightarrow> Inl e
      | Inr (line, after_line) \<Rightarrow>
          (case chunk_len line of
             Inl e \<Rightarrow> Inl e
           | Inr len \<Rightarrow>
               (let cursor = after_line; chunk_end = cursor + unat len
                in if len = 0 then res_bind (consume_chunk_trailers body cursor) (\<lambda>_. Inr decoded)
                   else if 2 ^ 64 \<le> chunk_end then Inl (NetError ''Chunked response size overflow'')
                   else if length body < chunk_end then
                     Inl (NetError ''Incomplete chunked response body'')
                   else if MAX_RESPONSE_BODY_BYTES < length decoded + unat len then
                     Inl (NetError (''Decoded chunked response exceeds MAX_RESPONSE_BODY_BYTES ('' @
                       show_nat MAX_RESPONSE_BODY_BYTES @ '' bytes)''))
                   else
                     (case consume_chunk_crlf body chunk_end of
                        Inl e \<Rightarrow> Inl e
                      | Inr next \<Rightarrow>
                          chunk_loop body next (decoded @ take (unat len) (drop cursor body))))))"
  by auto
termination
  by (relation "measure (\<lambda>(body, cursor, _). Suc (length body) - cursor)")
     (auto dest!: chunk_line_bound consume_chunk_crlf_bound)

declare chunk_loop.simps [simp del]

definition decode_chunked_body :: "u8 list \<Rightarrow> net_error + u8 list" where
  "decode_chunked_body body = chunk_loop body 0 []"

section \<open>Transfer codings\<close>

definition transfer_codings :: "http_response \<Rightarrow> string list" where
  "transfer_codings response =
     filter (\<lambda>coding. coding \<noteq> [])
       (map trim (concat (map (\<lambda>(_, v). split_on (CHR '','') v)
          (filter (\<lambda>(name, _). eq_ignore_ascii_case name ''transfer-encoding'') (rsp_headers response)))))"

definition transfer_codings_are_supported :: "string list \<Rightarrow> bool" where
  "transfer_codings_are_supported codings \<longleftrightarrow>
     length codings = 1 \<and> eq_ignore_ascii_case (codings ! 0) ''chunked''"

definition is_decoded_transfer_header :: "string \<Rightarrow> bool" where
  "is_decoded_transfer_header name \<longleftrightarrow>
     eq_ignore_ascii_case name ''transfer-encoding'' \<or> eq_ignore_ascii_case name ''content-length''"

definition decode_transfer_response :: "http_response \<Rightarrow> net_error + http_response" where
  "decode_transfer_response response =
     (let codings = transfer_codings response
      in if codings = [] then Inr response
         else if \<not> transfer_codings_are_supported codings then
           Inl (NetError (''Unsupported Transfer-Encoding: '' @ join_str '', '' codings))
         else res_bind (decode_chunked_body (rsp_body response)) (\<lambda>body.
           Inr (response\<lparr>rsp_body := body,
             rsp_headers := filter (\<lambda>(name, _). \<not> is_decoded_transfer_header name) (rsp_headers response)\<rparr>)))"

section \<open>Content codings\<close>

text \<open>The decompressors: the results of the \<open>read\<close> calls on a decoder over the body.\<close>

record content_decoders =
  dec_brotli :: "u8 list \<Rightarrow> (string + u8 list) list"
  dec_gzip :: "u8 list \<Rightarrow> (string + u8 list) list"
  dec_deflate :: "u8 list \<Rightarrow> (string + u8 list) list"

fun read_decoded_body :: "string \<Rightarrow> u8 list \<Rightarrow> (string + u8 list) list \<Rightarrow> net_error + u8 list" where
  "read_decoded_body coding decoded [] = Inr decoded"
| "read_decoded_body coding decoded (Inl e # rs) = Inl (NetError (coding @ '' decode: '' @ e))"
| "read_decoded_body coding decoded (Inr bs # rs) =
     (if bs = [] then Inr decoded
      else if MAX_RESPONSE_BODY_BYTES < length decoded + length bs then
        Inl (NetError (''Decoded response exceeds MAX_RESPONSE_BODY_BYTES ('' @
          show_nat MAX_RESPONSE_BODY_BYTES @ '' bytes)''))
      else read_decoded_body coding (decoded @ bs) rs)"

definition decode_single_content_coding :: "content_decoders \<Rightarrow> string \<Rightarrow> u8 list \<Rightarrow> net_error + u8 list" where
  "decode_single_content_coding D coding body =
     (if eq_ignore_ascii_case coding ''br'' then read_decoded_body ''brotli'' [] (dec_brotli D body)
      else if eq_ignore_ascii_case coding ''gzip'' \<or> eq_ignore_ascii_case coding ''x-gzip'' then
        read_decoded_body ''gzip'' [] (dec_gzip D body)
      else if eq_ignore_ascii_case coding ''deflate'' then
        read_decoded_body ''deflate'' [] (dec_deflate D body)
      else Inl (NetError (''Unsupported Content-Encoding: '' @ coding)))"

definition is_decoded_entity_header :: "string \<Rightarrow> bool" where
  "is_decoded_entity_header name \<longleftrightarrow>
     eq_ignore_ascii_case name ''content-encoding'' \<or> eq_ignore_ascii_case name ''content-length''"

text \<open>The loop over the codings, the last one first.\<close>

fun decode_codings :: "content_decoders \<Rightarrow> string list \<Rightarrow> u8 list \<Rightarrow> net_error + u8 list" where
  "decode_codings D [] body = Inr body"
| "decode_codings D (coding # cs) body =
     (if coding = [] \<or> eq_ignore_ascii_case coding ''identity'' then decode_codings D cs body
      else res_bind (decode_single_content_coding D coding body) (decode_codings D cs))"

definition decode_encoded_response :: "content_decoders \<Rightarrow> http_response \<Rightarrow> net_error + http_response" where
  "decode_encoded_response D response =
     (case rsp_header response ''content-encoding'' of
        None \<Rightarrow> Inr response
      | Some v \<Rightarrow>
          res_bind (decode_codings D (rev (map trim (split_on (CHR '','') v))) (rsp_body response)) (\<lambda>body.
            Inr (response\<lparr>rsp_body := body,
              rsp_headers := filter (\<lambda>(name, _). \<not> is_decoded_entity_header name) (rsp_headers response)\<rparr>)))"

text \<open>With the default feature \<open>content-encoding\<close>.\<close>

definition decode_response :: "content_decoders \<Rightarrow> http_response \<Rightarrow> net_error + http_response" where
  "decode_response D response =
     res_bind (decode_transfer_response response) (decode_encoded_response D)"

section \<open>The head\<close>

text \<open>What httparse gives for 64 header slots: the length of the head, the code and the fields.\<close>

datatype head_parse =
    HeadComplete nat "u16 option" "(string \<times> u8 list) list"
  | HeadPartial
  | HeadError string

definition parse_response ::
    "(u8 list \<Rightarrow> head_parse) \<Rightarrow> content_decoders \<Rightarrow> u8 list \<Rightarrow> net_error + http_response" where
  "parse_response httparse D input =
     (case httparse input of
        HeadPartial \<Rightarrow> Inl (NetError ''Incomplete HTTP response headers'')
      | HeadError e \<Rightarrow> Inl (NetError (''HTTP parse error: '' @ e))
      | HeadComplete header_len code hs \<Rightarrow>
          (let status = (case code of Some c \<Rightarrow> c | None \<Rightarrow> 0);
               parsed_headers = map (\<lambda>(name, v). (name, from_utf8_lossy v))
                 (filter (\<lambda>(name, _). name \<noteq> []) hs)
           in if length input < header_len then Inl SlicePanic
              else decode_response D
                \<lparr>rsp_status = status, rsp_headers = parsed_headers, rsp_body = drop header_len input\<rparr>))"

text \<open>
  What reading a response guarantees: the chunked coding is decoded whole whatever the sender's
  chunk sizes, digit cases, extensions and trailers; the body stays within the bound; no slice is
  taken out of range.
\<close>

section \<open>The coding as the sender writes it\<close>

definition crlf :: "u8 list" where
  "crlf = [13, 10]"

record sent_chunk =
  size_digits :: string
  chunk_ext :: "u8 list"
  chunk_data :: "u8 list"

text \<open>RFC 9112, 7.1: hexadecimal digits, an extension that starts with a semicolon and holds no CR.\<close>

definition size_line :: "string \<Rightarrow> u8 list \<Rightarrow> u8 list" where
  "size_line ds ext = str_bytes ds @ ext @ crlf"

definition digits_and_ext_ok :: "string \<Rightarrow> u8 list \<Rightarrow> bool" where
  "digits_and_ext_ok ds ext \<longleftrightarrow>
     ds \<noteq> [] \<and> list_all is_radix16 ds \<and> (ext = [] \<or> hd ext = 59) \<and> 13 \<notin> set ext"

definition chunk_ok :: "sent_chunk \<Rightarrow> bool" where
  "chunk_ok c \<longleftrightarrow>
     digits_and_ext_ok (size_digits c) (chunk_ext c) \<and> chunk_data c \<noteq> []
     \<and> radix16_value (size_digits c) = length (chunk_data c)"

definition chunk_wire :: "sent_chunk \<Rightarrow> u8 list" where
  "chunk_wire c = size_line (size_digits c) (chunk_ext c) @ chunk_data c @ crlf"

definition trailer_wire :: "u8 list list \<Rightarrow> u8 list" where
  "trailer_wire ls = concat (map (\<lambda>l. l @ crlf) ls) @ crlf"

definition chunked_wire :: "sent_chunk list \<Rightarrow> string \<Rightarrow> u8 list \<Rightarrow> u8 list list \<Rightarrow> u8 list" where
  "chunked_wire cs zero ext ls = concat (map chunk_wire cs) @ size_line zero ext @ trailer_wire ls"

section \<open>Size lines\<close>

lemma crlf_position_append:
  "13 \<notin> set l \<Longrightarrow> crlf_position (l @ 13 # 10 # r) = Some (length l)"
proof (induction l)
  case (Cons a l)
  then show ?case by (cases l) auto
qed simp

lemma radix16_byte:
  "is_radix16 c \<Longrightarrow> 48 \<le> byte_of c \<and> byte_of c < 128 \<and> byte_of c \<noteq> 59"
  by (auto simp: is_radix16_def ascii_digit_def)

lemma byte_word_eq: "n < 256 \<Longrightarrow> (word_of_nat (of_char c) :: u8) = word_of_nat n \<longleftrightarrow> byte_of c = n"
  by (auto simp: byte_of_def word_of_nat_eq_iff take_bit_eq_mod)

lemma radix16_not_byte:
  assumes "list_all is_radix16 ds" shows "13 \<notin> set (str_bytes ds)" and "59 \<notin> set (str_bytes ds)"
proof -
  have "byte_of c \<noteq> 13 \<and> byte_of c \<noteq> 59" if "c \<in> set ds" for c
    using assms that radix16_byte [of c] by (auto simp: list_all_iff)
  then show "13 \<notin> set (str_bytes ds)" "59 \<notin> set (str_bytes ds)"
    using byte_word_eq [of 13] byte_word_eq [of 59] by (auto simp: str_bytes_def)
qed

lemma ascii_utf8_valid: "\<forall>b \<in> set bs. b < 0x80 \<Longrightarrow> utf8_valid bs"
  by (induction bs) auto

lemma radix16_utf8: "list_all is_radix16 ds \<Longrightarrow> utf8_valid (str_bytes ds)"
proof (rule ascii_utf8_valid)
  assume h: "list_all is_radix16 ds"
  show "\<forall>b \<in> set (str_bytes ds). b < 0x80"
  proof
    fix b assume "b \<in> set (str_bytes ds)"
    then obtain c where c: "c \<in> set ds" "b = word_of_nat (of_char c)" by (auto simp: str_bytes_def)
    then have "byte_of c < 128" using h radix16_byte by (auto simp: list_all_iff)
    then show "b < 0x80" using c
      by (simp add: word_less_nat_alt unat_of_nat byte_of_def)
  qed
qed

lemma ws_bytes_ascii: "ws_bytes bs \<Longrightarrow> \<forall>b \<in> set bs. b < 128 \<Longrightarrow> \<exists>a. bs = [a] \<and> a \<le> 32"
  by (elim ws_bytes.elims) auto

lemma trim_radix16: assumes "list_all is_radix16 ds" shows "trim ds = ds"
proof -
  have b: "48 \<le> byte_of c \<and> byte_of c < 128" if "c \<in> set ds" for c
    using assms that radix16_byte by (auto simp: list_all_iff)
  have no: "\<not> ws_bytes (map byte_of part)" if "set part \<subseteq> set ds" for part
  proof
    assume w: "ws_bytes (map byte_of part)"
    have "\<forall>x \<in> set (map byte_of part). x < 128" using that b by auto
    from ws_bytes_ascii [OF w this] obtain a where a: "map byte_of part = [a]" "a \<le> 32" by (elim exE conjE)
    from a(1) obtain c where "part = [c]" "a = byte_of c" by (auto simp: map_eq_Cons_conv)
    then show False using that b [of c] a(2) by simp
  qed
  have "ws_len ds = 0" "ws_end_len ds = 0"
    by (simp_all only: ws_len_def ws_end_len_def no [OF set_take_subset] no [OF set_drop_subset] if_False simp_thms)
  then show ?thesis unfolding trim_def by (subst trim_start.simps, simp only: if_True, subst trim_end.simps, simp only: if_True)
qed

lemma usize_from_radix16_digits:
  assumes "ds \<noteq> []" "list_all is_radix16 ds" "radix16_value ds < 2 ^ 64"
  shows "usize_from_radix16 ds = Some (word_of_nat (radix16_value ds))"
proof -
  obtain c r where ds: "ds = c # r" using assms(1) by (cases ds) auto
  have "c \<noteq> CHR ''+''" using assms(2) radix16_byte [of c] ds by auto
  then show ?thesis using assms ds by (simp add: usize_from_radix16_def)
qed

lemma takeWhile_size:
  assumes "list_all is_radix16 ds" "ext = [] \<or> hd ext = 59"
  shows "takeWhile (\<lambda>b. b \<noteq> 59) (str_bytes ds @ ext) = str_bytes ds"
proof -
  have "takeWhile (\<lambda>b. b \<noteq> 59) (str_bytes ds @ ext) = str_bytes ds @ takeWhile (\<lambda>b. b \<noteq> 59) ext"
    using radix16_not_byte(2) [OF assms(1)] by (intro takeWhile_append2) auto
  then show ?thesis using assms(2) by (cases ext) auto
qed

lemma chunk_len_line:
  assumes "digits_and_ext_ok ds ext" "radix16_value ds < 2 ^ 64"
  shows "chunk_len (str_bytes ds @ ext) = Inr (word_of_nat (radix16_value ds))"
  using assms
  by (simp add: chunk_len_def digits_and_ext_ok_def takeWhile_size radix16_utf8 trim_radix16
      usize_from_radix16_digits ok_or_def)

lemma chunk_line_at:
  assumes "digits_and_ext_ok ds ext"
  shows "chunk_line (pre @ size_line ds ext @ r) (length pre)
    = Inr (str_bytes ds @ ext, length pre + length (size_line ds ext))"
proof -
  have "13 \<notin> set (str_bytes ds @ ext)"
    using assms radix16_not_byte(1) by (auto simp: digits_and_ext_ok_def)
  from crlf_position_append [OF this] show ?thesis
    by (simp add: chunk_line_def size_line_def crlf_def)
qed

section \<open>The loop\<close>

lemma has_blank_line_append: "has_blank_line (a @ 13 # 10 # 13 # 10 # r)"
  by (induction a) (simp_all add: has_blank_line.simps)

lemma trailers_consumed:
  "consume_chunk_trailers (pre @ trailer_wire ls @ rest) (length pre) = Inr ()"
proof (cases ls rule: rev_cases)
  case Nil
  then show ?thesis by (simp add: consume_chunk_trailers_def trailer_wire_def crlf_def)
next
  case (snoc ks l)
  then have "trailer_wire ls @ rest = (concat (map (\<lambda>l. l @ crlf) ks) @ l) @ 13 # 10 # 13 # 10 # rest"
    by (simp add: trailer_wire_def crlf_def)
  then have "has_blank_line (trailer_wire ls @ rest)" by (simp only: has_blank_line_append)
  then show ?thesis by (simp add: consume_chunk_trailers_def)
qed

lemma crlf_consumed:
  "n = length pre \<Longrightarrow> consume_chunk_crlf (pre @ crlf @ r) n = Inr (n + 2)"
  by (simp add: consume_chunk_crlf_def crlf_def)

lemma chunk_loop_last:
  assumes "digits_and_ext_ok zero ext" "radix16_value zero = 0"
  shows "chunk_loop (pre @ size_line zero ext @ trailer_wire ls @ rest) (length pre) decoded = Inr decoded"
proof -
  have "consume_chunk_trailers ((pre @ size_line zero ext) @ trailer_wire ls @ rest)
      (length (pre @ size_line zero ext)) = Inr ()"
    by (rule trailers_consumed)
  then have "consume_chunk_trailers (pre @ size_line zero ext @ trailer_wire ls @ rest)
      (length pre + length (size_line zero ext)) = Inr ()" by simp
  with chunk_len_line [OF assms(1)] assms(2) show ?thesis
    by (subst chunk_loop.simps) (simp add: chunk_line_at [OF assms(1)] res_bind_def)
qed

lemma chunk_loop_step:
  assumes c: "chunk_ok c"
    and len: "length (pre @ chunk_wire c @ r) < 2 ^ 64"
    and bound: "length decoded + length (chunk_data c) \<le> MAX_RESPONSE_BODY_BYTES"
  shows "chunk_loop (pre @ chunk_wire c @ r) (length pre) decoded
    = chunk_loop ((pre @ chunk_wire c) @ r) (length (pre @ chunk_wire c)) (decoded @ chunk_data c)"
proof -
  let ?l = "size_line (size_digits c) (chunk_ext c)"
  let ?body = "pre @ ?l @ chunk_data c @ crlf @ r"
  have ok: "digits_and_ext_ok (size_digits c) (chunk_ext c)" "chunk_data c \<noteq> []"
    and v: "radix16_value (size_digits c) = length (chunk_data c)"
    using c by (auto simp: chunk_ok_def)
  have body: "pre @ chunk_wire c @ r = ?body" by (simp add: chunk_wire_def)
  have small: "length pre + length ?l + length (chunk_data c) < 2 ^ 64"
    using len by (simp add: body)
  then have n: "unat (word_of_nat (length (chunk_data c)) :: u64) = length (chunk_data c)"
    by (simp add: unat_of_nat take_bit_nat_eq_self)
  then have nz: "(word_of_nat (length (chunk_data c)) :: u64) \<noteq> 0"
    using ok(2) by (metis length_0_conv unsigned_0)
  have lenok: "chunk_len (str_bytes (size_digits c) @ chunk_ext c) = Inr (word_of_nat (length (chunk_data c)))"
    using chunk_len_line [OF ok(1)] v small by simp
  have next_ok: "consume_chunk_crlf ?body (length pre + length ?l + length (chunk_data c))
      = Inr (length pre + length ?l + length (chunk_data c) + 2)"
    using crlf_consumed [of _ "pre @ ?l @ chunk_data c" r] by (simp add: add.assoc)
  have "chunk_loop ?body (length pre) decoded
      = chunk_loop ?body (length pre + length ?l + length (chunk_data c) + 2) (decoded @ chunk_data c)"
    using small bound
    by (subst chunk_loop.simps) (simp add: chunk_line_at [OF ok(1)] lenok n nz next_ok)
  then show ?thesis by (simp add: chunk_wire_def crlf_def add.assoc)
qed

lemma chunk_loop_wire:
  assumes "digits_and_ext_ok zero ext" "radix16_value zero = 0" "\<forall>c \<in> set cs. chunk_ok c"
    and "length (pre @ chunked_wire cs zero ext ls @ rest) < 2 ^ 64"
    and "length decoded + length (concat (map chunk_data cs)) \<le> MAX_RESPONSE_BODY_BYTES"
  shows "chunk_loop (pre @ chunked_wire cs zero ext ls @ rest) (length pre) decoded
    = Inr (decoded @ concat (map chunk_data cs))"
  using assms(3-5)
proof (induction cs arbitrary: pre decoded)
  case Nil
  then show ?case using chunk_loop_last [OF assms(1,2)] by (simp add: chunked_wire_def)
next
  case (Cons c cs)
  have w: "chunked_wire (c # cs) zero ext ls @ rest = chunk_wire c @ chunked_wire cs zero ext ls @ rest"
    by (simp add: chunked_wire_def)
  have "chunk_loop (pre @ chunked_wire (c # cs) zero ext ls @ rest) (length pre) decoded
      = chunk_loop ((pre @ chunk_wire c) @ chunked_wire cs zero ext ls @ rest) (length (pre @ chunk_wire c))
          (decoded @ chunk_data c)"
    unfolding w using Cons.prems by (intro chunk_loop_step) (auto simp: w)
  also have "\<dots> = Inr ((decoded @ chunk_data c) @ concat (map chunk_data cs))"
    using Cons.prems by (intro Cons.IH) (auto simp: w)
  finally show ?case by simp
qed

section \<open>Bounds\<close>

lemma res_bind_err: "res_bind m f = Inl e \<longleftrightarrow> m = Inl e \<or> (\<exists>a. m = Inr a \<and> f a = Inl e)"
  by (cases m) (auto simp: res_bind_def)

lemma read_loop_bounded:
  "read_loop buf es = Inr b \<Longrightarrow> length buf \<le> MAX_RESPONSE_BODY_BYTES \<Longrightarrow> length b \<le> MAX_RESPONSE_BODY_BYTES"
  by (induction buf es rule: read_loop.induct) (auto split: if_splits)

lemma read_response_bounded: "read_response es = Inr b \<Longrightarrow> length b \<le> MAX_RESPONSE_BODY_BYTES"
  by (auto simp: read_response_def intro: read_loop_bounded)

lemma chunk_line_no_panic: "cursor \<le> length body \<Longrightarrow> chunk_line body cursor \<noteq> Inl SlicePanic"
  by (auto simp: chunk_line_def split: option.splits)

lemma chunk_len_no_panic: "chunk_len line \<noteq> Inl SlicePanic"
  by (auto simp: chunk_len_def Let_def ok_or_def split: option.splits)

lemma consume_no_panic:
  "consume_chunk_crlf body cursor \<noteq> Inl SlicePanic"
  "cursor \<le> length body \<Longrightarrow> consume_chunk_trailers body cursor \<noteq> Inl SlicePanic"
  by (auto simp: consume_chunk_crlf_def consume_chunk_trailers_def)

text \<open>One turn of the loop: it ends here, or goes on behind the cursor with more decoded.\<close>

lemma chunk_loop_turn:
  "(\<exists>r. chunk_loop body cursor decoded = r \<and> (cursor \<le> length body \<longrightarrow> r \<noteq> Inl SlicePanic)
      \<and> (\<forall>d. r = Inr d \<longrightarrow> d = decoded))
   \<or> (\<exists>next more. cursor < next \<and> next \<le> length body \<and> length (decoded @ more) \<le> MAX_RESPONSE_BODY_BYTES
        \<and> chunk_loop body cursor decoded = chunk_loop body next (decoded @ more))"
  (is "?stop \<or> ?go")
proof (cases "chunk_line body cursor")
  case (Inl e)
  then have "?stop" by (subst chunk_loop.simps) (auto dest: chunk_line_no_panic)
  then show ?thesis ..
next
  case (Inr p)
  obtain line after where p: "p = (line, after)" by (cases p)
  note b = chunk_line_bound [OF Inr [unfolded p]]
  show ?thesis
  proof (cases "chunk_len line")
    case e: (Inl e)
    have "?stop" using chunk_len_no_panic [of line] by (subst chunk_loop.simps) (simp add: Inr p e)
    then show ?thesis ..
  next
    case l: (Inr len)
    show ?thesis
    proof (cases "len \<noteq> 0 \<and> after + unat len < 2 ^ 64 \<and> after + unat len \<le> length body
        \<and> length decoded + unat len \<le> MAX_RESPONSE_BODY_BYTES")
      case False
      have "?stop" using False b consume_no_panic(2) [of after body]
        by (subst chunk_loop.simps)
           (auto simp: Inr p l res_bind_def Let_def not_less not_le split: sum.split)
      then show ?thesis ..
    next
      case True
      then have step: "chunk_loop body cursor decoded =
        (case consume_chunk_crlf body (after + unat len) of
           Inl e \<Rightarrow> Inl e | Inr next \<Rightarrow> chunk_loop body next (decoded @ take (unat len) (drop after body)))"
        by (subst chunk_loop.simps) (simp add: Inr p l)
      show ?thesis
      proof (cases "consume_chunk_crlf body (after + unat len)")
        case (Inl e)
        with consume_no_panic(1) [of body "after + unat len"] have "?stop" by (simp add: step)
        then show ?thesis ..
      next
        case n: (Inr "next")
        note m = consume_chunk_crlf_bound [OF n]
        have "?go"
          using True b m by (intro exI [of _ "next"] exI [of _ "take (unat len) (drop after body)"]) (auto simp: step n)
        then show ?thesis ..
      qed
    qed
  qed
qed

lemma chunk_loop_bounded:
  "chunk_loop body cursor decoded = Inr d \<Longrightarrow> length decoded \<le> MAX_RESPONSE_BODY_BYTES
    \<Longrightarrow> length d \<le> MAX_RESPONSE_BODY_BYTES"
proof (induction "length body - cursor" arbitrary: cursor decoded rule: less_induct)
  case less
  from chunk_loop_turn [of body cursor decoded] show ?case
  proof (elim disjE exE conjE)
    fix "next" more
    assume n: "cursor < next" "next \<le> length body" "length (decoded @ more) \<le> MAX_RESPONSE_BODY_BYTES"
      and eq: "chunk_loop body cursor decoded = chunk_loop body next (decoded @ more)"
    show ?thesis using less.hyps [of "next" "decoded @ more"] less.prems n eq by simp
  qed (use less.prems in auto)
qed

lemma read_decoded_body_bounded:
  "read_decoded_body coding decoded rs = Inr d \<Longrightarrow> length decoded \<le> MAX_RESPONSE_BODY_BYTES
    \<Longrightarrow> length d \<le> MAX_RESPONSE_BODY_BYTES"
  by (induction coding decoded rs rule: read_decoded_body.induct) (auto split: if_splits)

lemma decode_codings_bounded:
  "decode_codings D cs body = Inr d \<Longrightarrow> length body \<le> MAX_RESPONSE_BODY_BYTES
    \<Longrightarrow> length d \<le> MAX_RESPONSE_BODY_BYTES"
  by (induction D cs body rule: decode_codings.induct)
     (auto simp: res_bind_ok decode_single_content_coding_def read_decoded_body_bounded split: if_splits)

lemma decode_transfer_bounded:
  "decode_transfer_response r = Inr q \<Longrightarrow> length (rsp_body r) \<le> MAX_RESPONSE_BODY_BYTES
    \<Longrightarrow> length (rsp_body q) \<le> MAX_RESPONSE_BODY_BYTES"
  by (auto simp: decode_transfer_response_def Let_def res_bind_ok decode_chunked_body_def
      split: if_splits dest: chunk_loop_bounded)

lemma decode_response_bounded:
  "decode_response D r = Inr q \<Longrightarrow> length (rsp_body r) \<le> MAX_RESPONSE_BODY_BYTES
    \<Longrightarrow> length (rsp_body q) \<le> MAX_RESPONSE_BODY_BYTES"
  unfolding decode_response_def res_bind_ok
proof (elim exE conjE)
  fix t assume "length (rsp_body r) \<le> MAX_RESPONSE_BODY_BYTES" "decode_transfer_response r = Inr t"
    and q: "decode_encoded_response D t = Inr q"
  then have t: "length (rsp_body t) \<le> MAX_RESPONSE_BODY_BYTES" by (blast intro: decode_transfer_bounded)
  show "length (rsp_body q) \<le> MAX_RESPONSE_BODY_BYTES"
    using q t decode_codings_bounded [OF _ t]
    by (auto simp: decode_encoded_response_def res_bind_ok split: option.splits)
qed

lemma parse_response_bounded:
  "parse_response httparse D input = Inr r \<Longrightarrow> length input \<le> MAX_RESPONSE_BODY_BYTES
    \<Longrightarrow> length (rsp_body r) \<le> MAX_RESPONSE_BODY_BYTES"
  by (auto simp: parse_response_def Let_def split: head_parse.splits if_splits dest!: decode_response_bounded)

section \<open>No slice out of range\<close>

lemma chunk_loop_no_panic:
  "cursor \<le> length body \<Longrightarrow> chunk_loop body cursor decoded \<noteq> Inl SlicePanic"
proof (induction "length body - cursor" arbitrary: cursor decoded rule: less_induct)
  case less
  from chunk_loop_turn [of body cursor decoded] show ?case
  proof (elim disjE exE conjE)
    fix "next" more
    assume n: "cursor < next" "next \<le> length body" "length (decoded @ more) \<le> MAX_RESPONSE_BODY_BYTES"
      and eq: "chunk_loop body cursor decoded = chunk_loop body next (decoded @ more)"
    show ?thesis using less.hyps [of "next" "decoded @ more"] less.prems n eq by simp
  qed (use less.prems in auto)
qed

lemma decode_codings_no_panic: "decode_codings D cs body \<noteq> Inl SlicePanic"
proof -
  have r: "read_decoded_body coding decoded rs \<noteq> Inl SlicePanic" for coding decoded rs
    by (induction coding decoded rs rule: read_decoded_body.induct) auto
  show ?thesis
    by (induction D cs body rule: decode_codings.induct)
       (auto simp: res_bind_err decode_single_content_coding_def r split: if_splits)
qed

lemma decode_response_no_panic: "decode_response D r \<noteq> Inl SlicePanic"
  by (auto simp: decode_response_def res_bind_err decode_transfer_response_def Let_def
      decode_chunked_body_def chunk_loop_no_panic decode_encoded_response_def decode_codings_no_panic
      split: if_splits option.splits)

section \<open>Properties\<close>

text \<open>C17: whatever way a sender cuts a body into chunks (any chunk sizes, digit case, leading zeros,
  extensions and trailer lines RFC 9112 allows), decoding gives back the body, as long as it is within
  the bound of 16 MiB.\<close>

theorem chunked_round_trip:
  assumes "digits_and_ext_ok zero ext" "radix16_value zero = 0" "\<forall>c \<in> set cs. chunk_ok c"
    and "length (chunked_wire cs zero ext ls @ rest) < 2 ^ 64"
    and "length (concat (map chunk_data cs)) \<le> MAX_RESPONSE_BODY_BYTES"
  shows "decode_chunked_body (chunked_wire cs zero ext ls @ rest) = Inr (concat (map chunk_data cs))"
  using chunk_loop_wire [OF assms(1-3), of "[]" ls rest "[]"] assms(4,5)
  by (simp add: decode_chunked_body_def)

theorem chunked_round_trip_witness:
  "decode_chunked_body (chunked_wire [\<lparr>size_digits = ''0B'', chunk_ext = [59, 113], chunk_data = replicate 11 104\<rparr>]
     ''00'' [] [[88, 58, 89]] @ [1]) = Inr (replicate 11 104)"
proof -
  have "decode_chunked_body (chunked_wire [\<lparr>size_digits = ''0B'', chunk_ext = [59, 113], chunk_data = replicate 11 104\<rparr>]
     ''00'' [] [[88, 58, 89]] @ [1])
     = Inr (concat (map chunk_data [\<lparr>size_digits = ''0B'', chunk_ext = [59, 113], chunk_data = replicate 11 104\<rparr>]))"
    by (rule chunked_round_trip)
       (simp_all add: digits_and_ext_ok_def chunk_ok_def is_radix16_def radix16_value_def hex_digit_value_def
          ascii_digit_def chunked_wire_def chunk_wire_def size_line_def trailer_wire_def crlf_def
          MAX_RESPONSE_BODY_BYTES_def)
  then show ?thesis by simp
qed

text \<open>Parsing never takes a slice out of range, whatever the bytes of the answer are: with a head
  no longer than the input, which is what httparse reports, the result is a response or an error value.\<close>

theorem parse_response_no_panic:
  assumes "\<And>len code hs. httparse input = HeadComplete len code hs \<Longrightarrow> len \<le> length input"
  shows "parse_response httparse D input \<noteq> Inl SlicePanic"
  using assms by (auto simp: parse_response_def Let_def decode_response_no_panic split: head_parse.splits)

theorem parse_response_no_panic_witness:
  "parse_response (\<lambda>bs. if bs = [] then HeadPartial else HeadComplete 1 (Some 200) [(''Transfer-Encoding'', str_bytes ''chunked'')])
     \<lparr>dec_brotli = (\<lambda>_. []), dec_gzip = (\<lambda>_. []), dec_deflate = (\<lambda>_. [])\<rparr> [7, 49, 13, 10] \<noteq> Inl SlicePanic"
  by (rule parse_response_no_panic) (auto split: if_splits)

end
