(* ===== verification/Rust_Ip.thy ===== *)
theory Rust_Ip
  imports Rust_Num
begin

text \<open>
  Which strings \<open>str::parse::<IpAddr>\<close> of the Rust standard library accepts: each reader returns the
  rest of the text, and the whole text has to be read.
\<close>

section \<open>Numbers\<close>

definition ip_digit :: "nat \<Rightarrow> char \<Rightarrow> nat option" where
  "ip_digit radix c =
     (if ascii_digit c then Some (byte_of c - 48)
      else if radix = 16 \<and> 97 \<le> byte_of (lower_char c) \<and> byte_of (lower_char c) \<le> 102
           then Some (byte_of (lower_char c) - 87)
      else None)"

text \<open>\<open>read_number\<close>: the digits, at most \<open>max_digits\<close>, a leading zero only where allowed, at most \<open>bound\<close>.\<close>

definition read_number :: "nat \<Rightarrow> nat \<Rightarrow> bool \<Rightarrow> int \<Rightarrow> string \<Rightarrow> string option" where
  "read_number radix max_digits zero_prefix bound s =
     (let ds = takeWhile (\<lambda>c. ip_digit radix c \<noteq> None) s;
          v = foldl (\<lambda>v c. v * int radix + int (the (ip_digit radix c))) 0 ds
      in if ds = [] \<or> max_digits < length ds then None
         else if \<not> zero_prefix \<and> hd ds = CHR ''0'' \<and> 1 < length ds then None
         else if bound < v then None
         else Some (drop (length ds) s))"

definition read_char :: "char \<Rightarrow> string \<Rightarrow> string option" where
  "read_char c s = (case s of x # r \<Rightarrow> if x = c then Some r else None | [] \<Rightarrow> None)"

definition read_separator :: "char \<Rightarrow> nat \<Rightarrow> (string \<Rightarrow> string option) \<Rightarrow> string \<Rightarrow> string option" where
  "read_separator c i inner s = (if i = 0 then inner s else Option.bind (read_char c s) inner)"

section \<open>Addresses\<close>

definition read_octet :: "nat \<Rightarrow> string \<Rightarrow> string option" where
  "read_octet i = read_separator (CHR ''.'') i (read_number 10 3 False 255)"

definition read_ipv4 :: "string \<Rightarrow> string option" where
  "read_ipv4 s =
     Option.bind (read_octet 0 s) (\<lambda>s. Option.bind (read_octet 1 s) (\<lambda>s.
       Option.bind (read_octet 2 s) (read_octet 3)))"

text \<open>\<open>read_groups\<close>: the number of groups read of \<open>limit\<close>, whether they end in an IPv4 part, the rest.\<close>

function read_groups :: "nat \<Rightarrow> nat \<Rightarrow> string \<Rightarrow> nat \<times> bool \<times> string" where
  "read_groups limit i s =
     (if limit \<le> i then (limit, False, s)
      else
        (case (if i < limit - 1 then read_separator (CHR '':'') i read_ipv4 s else None) of
           Some r \<Rightarrow> (i + 2, True, r)
         | None \<Rightarrow>
             (case read_separator (CHR '':'') i (read_number 16 4 True 65535) s of
                None \<Rightarrow> (i, False, s)
              | Some r \<Rightarrow> read_groups limit (Suc i) r)))"
  by auto
termination by (relation "measure (\<lambda>(limit, i, s). limit - i)") auto

declare read_groups.simps [simp del]

definition read_ipv6 :: "string \<Rightarrow> string option" where
  "read_ipv6 s =
     (let (head_size, head_ipv4, r) = read_groups 8 0 s
      in if head_size = 8 then Some r
         else if head_ipv4 then None
         else Option.bind (read_char (CHR '':'') r) (\<lambda>r. Option.bind (read_char (CHR '':'') r) (\<lambda>r.
           (let (_, _, r) = read_groups (8 - (head_size + 1)) 0 r in Some r))))"

definition parses_as_ip :: "string \<Rightarrow> bool" where
  "parses_as_ip s =
     (case read_ipv4 s of Some r \<Rightarrow> r = [] | None \<Rightarrow> read_ipv6 s = Some [])"

end
