(* ===== verification/Psl.thy ===== *)
theory Psl
  imports Rust_Ip "HOL-Library.Sublist"
begin

text \<open>
  Registrable domains by the Public Suffix List (\<open>crates/silksurf-core/src/psl.rs\<close>). The conversion of
  a rule to its ASCII form (\<open>idna::domain_to_ascii\<close>) is a parameter; the list is the parsed text.
\<close>

section \<open>The list\<close>

record public_suffix_list =
  psl_rules :: "string set"
  psl_wildcards :: "string set"
  psl_exceptions :: "string set"

text \<open>\<open>str::lines\<close>.\<close>

definition str_lines :: "string \<Rightarrow> string list" where
  "str_lines s =
     (let ls = split_on (CHR 0x0A) s;
          ls = (if last ls = [] then butlast ls else ls)
      in map (\<lambda>l. case strip_suffix [CHR 0x0D] l of Some r \<Rightarrow> r | None \<Rightarrow> l) ls)"

definition psl_line :: "(string \<Rightarrow> string option) \<Rightarrow> string \<Rightarrow> public_suffix_list \<Rightarrow> public_suffix_list" where
  "psl_line to_ascii raw psl =
     (let line = trim raw
      in if line = [] \<or> starts_with ''//'' line then psl
         else case strip_prefix ''!'' line of
           Some exc \<Rightarrow>
             (case to_ascii exc of
                Some a \<Rightarrow> psl\<lparr>psl_exceptions := insert a (psl_exceptions psl)\<rparr> | None \<Rightarrow> psl)
         | None \<Rightarrow>
             (case strip_prefix ''*.'' line of
                Some base \<Rightarrow>
                  (case to_ascii base of
                     Some a \<Rightarrow> psl\<lparr>psl_wildcards := insert a (psl_wildcards psl)\<rparr> | None \<Rightarrow> psl)
              | None \<Rightarrow>
                  (case to_ascii line of
                     Some a \<Rightarrow> psl\<lparr>psl_rules := insert a (psl_rules psl)\<rparr> | None \<Rightarrow> psl)))"

definition psl_parse :: "(string \<Rightarrow> string option) \<Rightarrow> string \<Rightarrow> public_suffix_list" where
  "psl_parse to_ascii text =
     fold (psl_line to_ascii) (str_lines text)
       \<lparr>psl_rules = {}, psl_wildcards = {}, psl_exceptions = {}\<rparr>"

section \<open>The registrable domain\<close>

definition join_labels :: "string list \<Rightarrow> string" where
  "join_labels ls = join_str ''.'' ls"

text \<open>The loops over the start of the suffix: the length in labels of the public suffix.\<close>

fun exception_suffix :: "public_suffix_list \<Rightarrow> string list \<Rightarrow> nat option" where
  "exception_suffix psl [] = None"
| "exception_suffix psl (l # ls) =
     (if join_labels (l # ls) \<in> psl_exceptions psl then Some (length ls) else exception_suffix psl ls)"

fun rule_suffix :: "public_suffix_list \<Rightarrow> string list \<Rightarrow> nat option" where
  "rule_suffix psl [] = None"
| "rule_suffix psl (l # ls) =
     (let wildcard_hit = (ls \<noteq> [] \<and> join_labels ls \<in> psl_wildcards psl)
      in if join_labels (l # ls) \<in> psl_rules psl \<or> wildcard_hit then Some (length (l # ls))
         else rule_suffix psl ls)"

definition suffix_labels :: "public_suffix_list \<Rightarrow> string list \<Rightarrow> nat" where
  "suffix_labels psl labels =
     (case exception_suffix psl labels of
        Some n \<Rightarrow> n
      | None \<Rightarrow> (case rule_suffix psl labels of Some n \<Rightarrow> n | None \<Rightarrow> 1))"

definition registrable_domain :: "public_suffix_list \<Rightarrow> string \<Rightarrow> string option" where
  "registrable_domain psl given =
     (let host = to_ascii_lowercase (trim_char (CHR ''.'') given)
      in if host = [] \<or> parses_as_ip host then None
         else
           (let labels = split_on (CHR ''.'') host; label_count = length labels
            in if label_count < 2 then None
               else
                 (let n = suffix_labels psl labels
                  in if label_count \<le> n then None
                     else Some (join_labels (drop (label_count - n - 1) labels)))))"

section \<open>The rules that match\<close>

text \<open>
  The matching algorithm of the list's documentation, over the sets of the candidate suffixes: an
  exception beats every other rule, then the rule with the most labels prevails.
\<close>

definition exception_hits :: "public_suffix_list \<Rightarrow> string list \<Rightarrow> string list set" where
  "exception_hits psl labels = {s. suffix s labels \<and> s \<noteq> [] \<and> join_labels s \<in> psl_exceptions psl}"

definition rule_matches :: "public_suffix_list \<Rightarrow> string list \<Rightarrow> bool" where
  "rule_matches psl s \<longleftrightarrow>
     s \<noteq> [] \<and> (join_labels s \<in> psl_rules psl \<or> (tl s \<noteq> [] \<and> join_labels (tl s) \<in> psl_wildcards psl))"

definition rule_hits :: "public_suffix_list \<Rightarrow> string list \<Rightarrow> string list set" where
  "rule_hits psl labels = {s. suffix s labels \<and> rule_matches psl s}"

lemma suffixes_finite: "finite {s. suffix s labels \<and> P s}"
  by (rule finite_subset [of _ "set (suffixes labels)"]) auto

lemma exception_hits_Cons:
  "exception_hits psl (l # ls) =
     (if join_labels (l # ls) \<in> psl_exceptions psl then insert (l # ls) (exception_hits psl ls)
      else exception_hits psl ls)"
  by (auto simp: exception_hits_def suffix_Cons)

lemma rule_hits_Cons:
  "rule_hits psl (l # ls) =
     (if rule_matches psl (l # ls) then insert (l # ls) (rule_hits psl ls) else rule_hits psl ls)"
  by (auto simp: rule_hits_def suffix_Cons)

lemma hits_finite [simp]: "finite (exception_hits psl labels)" "finite (rule_hits psl labels)"
  by (simp_all add: exception_hits_def rule_hits_def suffixes_finite)

lemma hits_Nil [simp]: "exception_hits psl [] = {}" "rule_hits psl [] = {}"
  by (simp_all add: exception_hits_def rule_hits_def rule_matches_def)

lemma hits_length:
  "s \<in> exception_hits psl labels \<Longrightarrow> 0 < length s \<and> length s \<le> length labels"
  "s \<in> rule_hits psl labels \<Longrightarrow> 0 < length s \<and> length s \<le> length labels"
  by (auto simp: exception_hits_def rule_hits_def rule_matches_def dest: suffix_length_le)

lemma Max_length_Cons:
  assumes "finite A" "\<And>s. s \<in> A \<Longrightarrow> length s \<le> length ls"
  shows "Max (length ` insert (l # ls) A) = Suc (length ls)"
  by (rule Max_eqI) (use assms in \<open>auto intro: le_SucI\<close>)

lemma exception_suffix_Max:
  "exception_suffix psl labels =
     (if exception_hits psl labels = {} then None
      else Some (Max (length ` exception_hits psl labels) - 1))"
proof (induction labels)
  case (Cons l ls)
  have "Max (length ` insert (l # ls) (exception_hits psl ls)) = Suc (length ls)"
    by (rule Max_length_Cons) (use hits_length in auto)
  with Cons show ?case by (simp add: exception_hits_Cons del: image_insert)
qed simp

lemma rule_suffix_Cons:
  "rule_suffix psl (l # ls) =
     (if rule_matches psl (l # ls) then Some (length (l # ls)) else rule_suffix psl ls)"
  by (simp add: rule_matches_def)

lemma rule_suffix_Max:
  "rule_suffix psl labels =
     (if rule_hits psl labels = {} then None else Some (Max (length ` rule_hits psl labels)))"
proof (induction labels)
  case (Cons l ls)
  have "Max (length ` insert (l # ls) (rule_hits psl ls)) = Suc (length ls)"
    by (rule Max_length_Cons) (use hits_length in auto)
  with Cons show ?case
    by (simp add: rule_hits_Cons rule_suffix_Cons del: image_insert rule_suffix.simps)
qed simp

lemmas suffix_Max = exception_suffix_Max rule_suffix_Max

section \<open>A registrable domain is its own registrable domain\<close>

lemma exception_suffix_Some:
  "exception_suffix psl ls = Some n \<Longrightarrow>
     n < length ls \<and> exception_suffix psl (drop (length ls - n - 1) ls) = Some n"
proof (induction ls)
  case (Cons l ls)
  show ?case
  proof (cases "join_labels (l # ls) \<in> psl_exceptions psl")
    case False
    with Cons have n: "n < length ls" "exception_suffix psl (drop (length ls - n - 1) ls) = Some n"
      by auto
    then have "length (l # ls) - n - 1 = Suc (length ls - n - 1)" by simp
    then show ?thesis using n by simp
  qed (use Cons.prems in auto)
qed simp

lemma exception_suffix_drop: "exception_suffix psl ls = None \<Longrightarrow> exception_suffix psl (drop k ls) = None"
  by (induction ls arbitrary: k) (auto simp: drop_Cons' split: if_splits)

lemma rule_suffix_drop_None: "rule_suffix psl ls = None \<Longrightarrow> rule_suffix psl (drop k ls) = None"
proof (induction ls arbitrary: k)
  case (Cons l ls)
  then show ?case
    by (cases k) (auto simp: rule_suffix_Cons simp del: rule_suffix.simps(2) split: if_splits)
qed simp

lemma rule_suffix_Some:
  "rule_suffix psl ls = Some n \<Longrightarrow> n < length ls \<Longrightarrow>
     rule_suffix psl (drop (length ls - n - 1) ls) = Some n"
proof (induction ls)
  case (Cons l ls)
  then have r: "\<not> rule_matches psl (l # ls)" "rule_suffix psl ls = Some n"
    by (auto simp: rule_suffix_Cons simp del: rule_suffix.simps split: if_splits)
  show ?case
  proof (cases "n < length ls")
    case True
    then have "length (l # ls) - n - 1 = Suc (length ls - n - 1)" by simp
    with Cons.IH [OF r(2) True] show ?thesis by simp
  next
    case False
    with Cons.prems r show ?thesis by (simp add: rule_suffix_Cons del: rule_suffix.simps)
  qed
qed simp

lemma suffix_labels_drop:
  assumes "suffix_labels psl ls = n" "n < length ls"
  shows "suffix_labels psl (drop (length ls - n - 1) ls) = n"
  using assms exception_suffix_Some rule_suffix_Some
  by (auto simp: suffix_labels_def exception_suffix_drop rule_suffix_drop_None split: option.splits)

lemma suffix_labels_pos:
  assumes "exception_suffix psl ls = None" shows "0 < suffix_labels psl ls"
  using assms hits_length(2) [of _ psl ls]
  by (auto simp: suffix_labels_def rule_suffix_Max Max_gr_iff split: option.splits if_splits)

text \<open>The text of a host whose labels are not empty.\<close>

lemma split_dot_join:
  "ls \<noteq> [] \<Longrightarrow> \<forall>l \<in> set ls. CHR ''.'' \<notin> set l \<Longrightarrow> split_on (CHR ''.'') (join_labels ls) = ls"
  by (simp add: join_labels_def split_on_join)

lemma split_on_snoc: "split_on d (s @ [d]) = split_on d s @ [[]]"
  by (induction s) (auto split: list.splits)

lemma split_on_no_empty:
  assumes "[] \<notin> set (split_on d s)"
  shows "s \<noteq> []" "hd s \<noteq> d" "last s \<noteq> d"
proof -
  show s: "s \<noteq> []" using assms by auto
  show "hd s \<noteq> d" using assms s by (cases s) auto
  show "last s \<noteq> d"
    using assms s append_butlast_last_id [of s] split_on_snoc [of d "butlast s"] by force
qed

lemma trim_char_id:
  assumes "s \<noteq> []" "hd s \<noteq> d" "last s \<noteq> d"
  shows "trim_char d s = s"
proof -
  have "trim_start_char d s = s"
    using assms by (cases s) (auto simp: trim_start_char_def)
  moreover have "dropWhile (\<lambda>x. x = d) (rev s) = rev s"
    using assms by (cases s rule: rev_cases) auto
  ultimately show ?thesis by (simp add: trim_char_def trim_end_char_def)
qed

lemma join_drop:
  "0 < k \<Longrightarrow> k < length ls \<Longrightarrow>
     join_labels ls = join_labels (take k ls) @ ''.'' @ join_labels (drop k ls)"
  unfolding join_labels_def
proof (induction "''.''" ls arbitrary: k rule: join_str.induct)
  case (3 w v ws)
  show ?case
  proof (cases "k = 1")
    case False
    then obtain j where j: "k = Suc (Suc j)"
      using "3.prems" by (metis One_nat_def gr0_implies_Suc neq0_conv)
    then show ?thesis using "3.hyps" [of "Suc j"] "3.prems" by simp
  qed simp
qed auto

lemma ends_with_append: "ends_with t (s @ t)"
  by (simp add: ends_with_def)

text \<open>A host as the function reads it.\<close>

definition canonical_host :: "string \<Rightarrow> string" where
  "canonical_host given = to_ascii_lowercase (trim_char (CHR ''.'') given)"

definition host_labels :: "string \<Rightarrow> string list" where
  "host_labels given = split_on (CHR ''.'') (canonical_host given)"

lemma registrable_domain_Some:
  "registrable_domain psl given = Some d \<longleftrightarrow>
     (let host = canonical_host given; labels = host_labels given; n = suffix_labels psl labels
      in host \<noteq> [] \<and> \<not> parses_as_ip host \<and> 2 \<le> length labels \<and> n < length labels \<and>
         d = join_labels (drop (length labels - n - 1) labels))"
  by (auto simp: registrable_domain_def canonical_host_def host_labels_def Let_def)

lemma host_labels_facts:
  "host_labels given \<noteq> []" "l \<in> set (host_labels given) \<Longrightarrow> CHR ''.'' \<notin> set l"
  "join_labels (host_labels given) = canonical_host given"
  by (auto simp: host_labels_def join_labels_def join_split_on dest: split_on_parts)

lemma registrable_part:
  assumes d: "registrable_domain psl given = Some d"
    and labels: "[] \<notin> set (host_labels given)"
    and "n = suffix_labels psl (host_labels given)"
  shows "split_on (CHR ''.'') d = drop (length (host_labels given) - n - 1) (host_labels given)"
    "canonical_host d = d" "canonical_host given = d \<or> ends_with (CHR ''.'' # d) (canonical_host given)"
proof -
  let ?ls = "host_labels given" and ?k = "length (host_labels given) - n - 1"
  have n: "n < length ?ls" and d: "d = join_labels (drop ?k ?ls)"
    using d \<open>n = _\<close> unfolding registrable_domain_Some by (auto simp: Let_def)
  have ne: "drop ?k ?ls \<noteq> []" using n by auto
  show split: "split_on (CHR ''.'') d = drop ?k ?ls"
    unfolding d using ne host_labels_facts(2) [of _ given]
    by (intro split_dot_join) (auto dest: in_set_dropD)
  have cases: "?k = 0 \<or> canonical_host given = join_labels (take ?k ?ls) @ ''.'' @ d"
    using join_drop [of ?k ?ls] n host_labels_facts(3) [of given] unfolding d by fastforce
  have whole: "?k = 0 \<Longrightarrow> canonical_host given = d"
    using host_labels_facts(3) [of given] unfolding d by simp
  from cases show "canonical_host given = d \<or> ends_with (CHR ''.'' # d) (canonical_host given)"
  proof
    assume "canonical_host given = join_labels (take ?k ?ls) @ ''.'' @ d"
    then have "canonical_host given = join_labels (take ?k ?ls) @ (CHR ''.'' # d)" by simp
    then show ?thesis using ends_with_append by metis
  qed (use whole in simp)
  have "to_ascii_lowercase (canonical_host given) = canonical_host given"
    by (simp add: canonical_host_def)
  with cases whole have lower: "to_ascii_lowercase d = d"
    by (cases "?k = 0") (auto simp: append_eq_append_conv to_ascii_lowercase_def)
  have "[] \<notin> set (split_on (CHR ''.'') d)"
    using labels split by (auto dest: in_set_dropD)
  then have "trim_char (CHR ''.'') d = d"
    using split_on_no_empty [of "CHR ''.''" d] by (intro trim_char_id) auto
  with lower show "canonical_host d = d" by (simp add: canonical_host_def)
qed

lemma registrable_stable:
  assumes d: "registrable_domain psl given = Some d"
    and labels: "[] \<notin> set (host_labels given)"
    and ip: "\<not> parses_as_ip d"
    and exc: "\<forall>e \<in> psl_exceptions psl. CHR ''.'' \<in> set e"
  shows "registrable_domain psl d = Some d"
proof -
  let ?ls = "host_labels given"
  define n where "n = suffix_labels psl ?ls"
  let ?k = "length ?ls - n - 1"
  have n: "n < length ?ls" "2 \<le> length ?ls"
    using d unfolding registrable_domain_Some n_def by (auto simp: Let_def)
  note part = registrable_part [OF d labels n_def]
  have dl: "host_labels d = drop ?k ?ls" using part by (simp add: host_labels_def)
  have sl: "suffix_labels psl (drop ?k ?ls) = n"
    using suffix_labels_drop [OF n_def [symmetric] n(1)] .
  have "0 < n"
  proof (cases "exception_suffix psl ?ls")
    case (Some m)
    then have m: "n = m" by (simp add: n_def suffix_labels_def)
    have "exception_suffix psl (drop ?k ?ls) = Some n"
      using exception_suffix_Some [OF Some] m by simp
    then obtain s where s: "s \<in> exception_hits psl (drop ?k ?ls)"
      by (auto simp: exception_suffix_Max split: if_splits)
    then have e: "CHR ''.'' \<in> set (join_labels s)" "s \<noteq> []" "suffix s (drop ?k ?ls)"
      using exc by (auto simp: exception_hits_def)
    have "length s \<noteq> 1"
    proof
      assume "length s = 1"
      then obtain l where l: "s = [l]" by (auto simp: length_Suc_conv)
      with e(3) have "l \<in> set ?ls" by (auto dest!: set_mono_suffix dest: in_set_dropD)
      with e(1) l host_labels_facts(2) show False by (auto simp: join_labels_def)
    qed
    then have "2 \<le> length s" using e(2) by (cases s) (auto simp: Suc_le_eq)
    also have "\<dots> \<le> length (drop ?k ?ls)" using e(3) by (rule suffix_length_le)
    also have "\<dots> = n + 1" using n by simp
    finally show ?thesis by simp
  next
    case None
    then show ?thesis using suffix_labels_pos n_def by auto
  qed
  then have "d = join_labels (host_labels d)" "2 \<le> length (host_labels d)" "n < length (host_labels d)"
    using part host_labels_facts(3) [of d] n by (simp_all add: dl)
  moreover have "d \<noteq> []"
    using host_labels_facts(3) [of d] labels split_on_no_empty(1) part(1)
    by (metis in_set_dropD)
  ultimately show ?thesis
    unfolding registrable_domain_Some using ip part(2) sl dl n by (simp add: Let_def)
qed

section \<open>What the boundary means\<close>

text \<open>The number of labels the two loops find is that of the list's matching algorithm: an exception
that matches prevails and counts one label less, else the longest rule or wildcard that matches, else
the rightmost label alone.\<close>

lemma suffix_labels_prevailing:
  "suffix_labels psl labels =
     (if exception_hits psl labels \<noteq> {} then Max (length ` exception_hits psl labels) - 1
      else if rule_hits psl labels \<noteq> {} then Max (length ` rule_hits psl labels)
      else 1)"
  by (simp add: suffix_labels_def suffix_Max)

text \<open>A registrable domain is a part of the host that starts at a label, in lower case, and is its own
registrable domain: grouping hosts by it is well defined. The list's exceptions have to name hosts
under a suffix, the host has no empty label and the result must not itself read as an address.\<close>

theorem registrable_domain_stable:
  assumes "registrable_domain psl host = Some d"
    and "[] \<notin> set (host_labels host)"
    and "\<not> parses_as_ip d"
    and "\<forall>e \<in> psl_exceptions psl. CHR ''.'' \<in> set e"
  shows "registrable_domain psl d = Some d \<and>
    (canonical_host host = d \<or> ends_with (CHR ''.'' # d) (canonical_host host))"
  using registrable_stable [OF assms] registrable_part(3) [OF assms(1,2) refl] by auto

definition sample_list :: public_suffix_list where
  "sample_list = psl_parse Some (''// suffixes'' @ [CHR 0x0A] @ ''com'' @ [CHR 0x0A] @ ''*.ck''
     @ [CHR 0x0A] @ ''!www.ck'' @ [CHR 0x0A])"

lemma registrable_domain_stable_witness:
  "registrable_domain sample_list ''www.ck'' = Some ''www.ck'' \<and>
   ends_with ''.www.ck'' (canonical_host ''A.WWW.ck.'')"
proof -
  have "registrable_domain sample_list ''A.WWW.ck.'' = Some ''www.ck''"
    "[] \<notin> set (host_labels ''A.WWW.ck.'')" "\<not> parses_as_ip ''www.ck''"
    "\<forall>e \<in> psl_exceptions sample_list. CHR ''.'' \<in> set e"
    "canonical_host ''A.WWW.ck.'' \<noteq> ''www.ck''"
    by code_simp+
  from registrable_domain_stable [OF this(1-4)] this(5) show ?thesis by simp
qed

end
