(* ===== verification/Net_Cookie.thy ===== *)
theory Net_Cookie
  imports Psl Http_Date "HOL-Library.Multiset"
begin

text \<open>
  Cookies (\<open>crates/silksurf-net/src/cookie.rs\<close>): sites and partitions, \<open>Set-Cookie\<close> parsing, the store
  and the two texts read from it. Times are given, as in the code; a URL is its scheme and host, which
  the url crate yields. Strings are their UTF-8 bytes.
\<close>

section \<open>Sites and partitions\<close>

definition document_jar_host :: string where
  "document_jar_host = ''document.jar.invalid''"

definition unpartitioned :: string where
  "unpartitioned = ''<unpartitioned>''"

definition site_of_url :: "public_suffix_list \<Rightarrow> string \<Rightarrow> string option \<Rightarrow> string" where
  "site_of_url psl scheme host_str =
     (case host_str of
        Some host \<Rightarrow>
          (let site_host = (case registrable_domain psl host of
                 Some d \<Rightarrow> d | None \<Rightarrow> to_ascii_lowercase host)
           in scheme @ ''://'' @ site_host)
      | None \<Rightarrow> ''null'')"

definition partition_key :: "string \<Rightarrow> string \<Rightarrow> string" where
  "partition_key top_level_site resource_site =
     (if top_level_site = [] then unpartitioned else resource_site @ ''^'' @ top_level_site)"

datatype same_site = SsStrict | SsLax | SsNone

datatype same_site_context = CtxSameSite | CtxCrossSiteTopLevel | CtxCrossSiteSubresource | CtxUnknown

definition subresource_same_site_context :: "string \<Rightarrow> string \<Rightarrow> same_site_context" where
  "subresource_same_site_context top_level_site resource_site =
     (if top_level_site = [] then CtxUnknown
      else if resource_site = top_level_site then CtxSameSite
      else CtxCrossSiteSubresource)"

definition navigation_same_site_context :: "string option \<Rightarrow> string \<Rightarrow> bool \<Rightarrow> same_site_context" where
  "navigation_same_site_context initiator_site destination_site safe_method =
     (if destination_site = [] then CtxUnknown
      else case initiator_site of
        None \<Rightarrow> CtxSameSite
      | Some initiator \<Rightarrow>
          if initiator = destination_site then CtxSameSite
          else if safe_method then CtxCrossSiteTopLevel
          else CtxCrossSiteSubresource)"

definition is_safe_method :: "string \<Rightarrow> bool" where
  "is_safe_method m \<longleftrightarrow> eq_ignore_ascii_case m ''get'' \<or> eq_ignore_ascii_case m ''head''"

definition same_site_allows :: "same_site \<Rightarrow> same_site_context \<Rightarrow> bool" where
  "same_site_allows s ctx =
     (case ctx of
        CtxUnknown \<Rightarrow> True
      | CtxSameSite \<Rightarrow> True
      | CtxCrossSiteTopLevel \<Rightarrow> s \<noteq> SsStrict
      | CtxCrossSiteSubresource \<Rightarrow> s = SsNone)"

section \<open>Cookies\<close>

record cookie =
  ck_name :: string
  ck_value :: string
  ck_domain :: string
  ck_host_only :: bool
  ck_path :: string
  ck_expires :: "u64 option"
  ck_secure :: bool
  ck_http_only :: bool
  ck_same_site :: same_site

definition is_expired :: "u64 \<Rightarrow> cookie \<Rightarrow> bool" where
  "is_expired now c \<longleftrightarrow> (case ck_expires c of Some e \<Rightarrow> e \<le> now | None \<Rightarrow> False)"

definition domain_matches :: "string \<Rightarrow> cookie \<Rightarrow> bool" where
  "domain_matches given c =
     (let host = to_ascii_lowercase given
      in if host = ck_domain c then True
         else if ck_host_only c then False
         else ends_with (ck_domain c) host \<and>
              ends_with ''.'' (take (length host - length (ck_domain c)) host))"

definition path_matches :: "string \<Rightarrow> cookie \<Rightarrow> bool" where
  "path_matches request_path c =
     (if ck_path c = request_path then True
      else if \<not> starts_with (ck_path c) request_path then False
      else ends_with ''/'' (ck_path c) \<or> starts_with ''/'' (drop (length (ck_path c)) request_path))"

section \<open>Reading Set-Cookie\<close>

text \<open>One attribute of the loop over the parts after the pair: the cookie, \<open>max_age\<close> and \<open>expires\<close>.\<close>

definition cookie_attribute ::
    "string \<Rightarrow> cookie \<times> int option \<times> u64 option \<Rightarrow> cookie \<times> int option \<times> u64 option" where
  "cookie_attribute part st =
     (let (c, max_age, expires) = st;
          attr = trim part;
          (key, val) = (case split_once (CHR ''='') attr of
             Some (k, v) \<Rightarrow> (to_ascii_lowercase (trim k), trim v)
           | None \<Rightarrow> (to_ascii_lowercase attr, []))
      in if key = ''domain'' \<and> val \<noteq> [] then
           (let domain = to_ascii_lowercase (trim_start_char (CHR ''.'') val)
            in if domain \<noteq> [] then (c\<lparr>ck_domain := domain, ck_host_only := False\<rparr>, max_age, expires)
               else st)
         else if key = ''path'' \<and> starts_with ''/'' val then (c\<lparr>ck_path := val\<rparr>, max_age, expires)
         else if key = ''max-age'' then (c, parse_i64 val, expires)
         else if key = ''expires'' then (c, max_age, parse_http_date val)
         else if key = ''secure'' then (c\<lparr>ck_secure := True\<rparr>, max_age, expires)
         else if key = ''httponly'' then (c\<lparr>ck_http_only := True\<rparr>, max_age, expires)
         else if key = ''samesite'' then
           (let v = to_ascii_lowercase val
            in (c\<lparr>ck_same_site := (if v = ''strict'' then SsStrict else if v = ''none'' then SsNone
                 else SsLax)\<rparr>, max_age, expires))
         else st)"

definition new_cookie :: "string \<Rightarrow> string \<Rightarrow> string \<Rightarrow> cookie" where
  "new_cookie name value request_host =
     \<lparr>ck_name = name, ck_value = value, ck_domain = request_host, ck_host_only = True, ck_path = ''/'',
      ck_expires = None, ck_secure = False, ck_http_only = False, ck_same_site = SsLax\<rparr>"

definition cookie_expiry :: "u64 \<Rightarrow> int option \<Rightarrow> u64 option \<Rightarrow> u64 option" where
  "cookie_expiry now max_age expires =
     (case max_age of
        Some seconds \<Rightarrow>
          if seconds \<le> 0 then Some 0 else Some (saturating_add now (word_of_int seconds))
      | None \<Rightarrow> expires)"

definition parse_set_cookie :: "string \<Rightarrow> string \<Rightarrow> u64 \<Rightarrow> cookie option" where
  "parse_set_cookie header host now =
     (case split_on (CHR '';'') header of
        [] \<Rightarrow> None
      | first # parts \<Rightarrow>
          (case split_once (CHR ''='') (trim first) of
             None \<Rightarrow> None
           | Some (n, value) \<Rightarrow>
               (let name = trim n
                in if name = [] then None
                   else
                     (let request_host = to_ascii_lowercase host;
                          (c, max_age, expires) =
                            fold cookie_attribute parts
                              (new_cookie name (trim value) request_host, None, None)
                      in Some (c\<lparr>ck_expires := cookie_expiry now max_age expires\<rparr>)))))"

section \<open>The store\<close>

type_synonym cookie_store = "cookie list"

definition has_identity :: "string \<Rightarrow> string \<Rightarrow> string \<Rightarrow> cookie \<Rightarrow> bool" where
  "has_identity name domain path c \<longleftrightarrow> ck_name c = name \<and> ck_domain c = domain \<and> ck_path c = path"

definition find_index :: "string \<Rightarrow> string \<Rightarrow> string \<Rightarrow> cookie_store \<Rightarrow> nat option" where
  "find_index name domain path s = position (has_identity name domain path) s"

definition cs_set :: "cookie \<Rightarrow> cookie_store \<Rightarrow> cookie_store" where
  "cs_set c s =
     (case find_index (ck_name c) (ck_domain c) (ck_path c) s of
        Some i \<Rightarrow> s[i := c]
      | None \<Rightarrow> s @ [c])"

definition cs_remove :: "string \<Rightarrow> string \<Rightarrow> string \<Rightarrow> cookie_store \<Rightarrow> cookie option \<times> cookie_store" where
  "cs_remove name domain path s =
     (case find_index name domain path s of
        Some i \<Rightarrow> (Some (s ! i), remove_at i s)
      | None \<Rightarrow> (None, s))"

definition set_from_set_cookie :: "string \<Rightarrow> string \<Rightarrow> u64 \<Rightarrow> cookie_store \<Rightarrow> bool \<times> cookie_store" where
  "set_from_set_cookie header request_host now s =
     (case parse_set_cookie header request_host now of
        None \<Rightarrow> (False, s)
      | Some c \<Rightarrow>
          if is_expired now c then
            (let (removed, s) = cs_remove (ck_name c) (ck_domain c) (ck_path c) s
             in (removed \<noteq> None, s))
          else (True, cs_set c s))"

definition cs_purge_expired :: "u64 \<Rightarrow> cookie_store \<Rightarrow> cookie_store" where
  "cs_purge_expired now s = filter (\<lambda>c. \<not> is_expired now c) s"

definition cookie_pair :: "cookie \<Rightarrow> string" where
  "cookie_pair c = ck_name c @ ''='' @ ck_value c"

definition cookie_header ::
    "string \<Rightarrow> string \<Rightarrow> bool \<Rightarrow> bool \<Rightarrow> same_site_context \<Rightarrow> u64 \<Rightarrow> cookie_store \<Rightarrow> string" where
  "cookie_header host path secure include_http_only ctx now s =
     (let matched = filter (\<lambda>c. same_site_allows (ck_same_site c) ctx)
            (filter (\<lambda>c. include_http_only \<or> \<not> ck_http_only c)
            (filter (\<lambda>c. \<not> ck_secure c \<or> secure)
            (filter (\<lambda>c. domain_matches host c \<and> path_matches path c)
            (filter (\<lambda>c. \<not> is_expired now c) s))));
          sorted = sort_key (\<lambda>c. - int (length (ck_path c))) matched
      in join_str ''; '' (map cookie_pair sorted))"

definition cs_set_document_cookie :: "string \<Rightarrow> string \<Rightarrow> u64 \<Rightarrow> cookie_store \<Rightarrow> cookie_store" where
  "cs_set_document_cookie assignment host now s =
     (let script_sets_http_only =
            list_ex (\<lambda>attr. eq_ignore_ascii_case (trim attr) ''httponly'')
              (drop 1 (split_on (CHR '';'') assignment))
      in if script_sets_http_only then s
         else
           (let effective_host = (if host = [] then document_jar_host else host)
            in case parse_set_cookie assignment effective_host now of
                 None \<Rightarrow> s
               | Some c \<Rightarrow>
                   (let c = c\<lparr>ck_http_only := False\<rparr>
                    in if is_expired now c then snd (cs_remove (ck_name c) (ck_domain c) (ck_path c) s)
                       else cs_set c s)))"

definition cs_document_cookie_string :: "string \<Rightarrow> u64 \<Rightarrow> cookie_store \<Rightarrow> string" where
  "cs_document_cookie_string host now s =
     join_str ''; '' (map cookie_pair
       (filter (\<lambda>c. host = [] \<or> domain_matches host c)
         (filter (\<lambda>c. \<not> is_expired now c \<and> \<not> ck_http_only c) s)))"

section \<open>Partitions\<close>

type_synonym partitioned = "string \<rightharpoonup> cookie_store"

definition store_mut :: "string \<Rightarrow> partitioned \<Rightarrow> cookie_store \<times> partitioned" where
  "store_mut key p =
     (case p key of Some s \<Rightarrow> (s, p) | None \<Rightarrow> ([], p(key \<mapsto> [])))"

definition partition_count :: "partitioned \<Rightarrow> nat" where
  "partition_count p = card (dom p)"

definition ps_purge_expired :: "u64 \<Rightarrow> partitioned \<Rightarrow> partitioned" where
  "ps_purge_expired now p =
     (\<lambda>k. case p k of
        None \<Rightarrow> None
      | Some s \<Rightarrow> (let s = cs_purge_expired now s in if s = [] then None else Some s))"

definition ps_document_cookie_string :: "string \<Rightarrow> string \<Rightarrow> u64 \<Rightarrow> partitioned \<Rightarrow> string" where
  "ps_document_cookie_string top_level_site host now p =
     (case p (partition_key top_level_site top_level_site) of
        None \<Rightarrow> []
      | Some s \<Rightarrow> cs_document_cookie_string host now s)"

definition ps_set_document_cookie ::
    "string \<Rightarrow> string \<Rightarrow> string \<Rightarrow> u64 \<Rightarrow> partitioned \<Rightarrow> partitioned" where
  "ps_set_document_cookie top_level_site host assignment now p =
     (let key = partition_key top_level_site top_level_site;
          (s, p) = store_mut key p
      in p(key \<mapsto> cs_set_document_cookie assignment host now s))"

text \<open>
  What the cookie store promises: it is a map from identities to cookies, the request header names the
  cookies RFC 6265 makes eligible, scripts neither make nor read HttpOnly cookies, and partitions do
  not see each other.
\<close>

section \<open>The store is a map\<close>

type_synonym cookie_id = "string \<times> string \<times> string"

definition cookie_id :: "cookie \<Rightarrow> cookie_id" where
  "cookie_id c = (ck_name c, ck_domain c, ck_path c)"

definition jar_map :: "cookie_store \<Rightarrow> cookie_id \<rightharpoonup> cookie" where
  "jar_map s = map_of (map (\<lambda>c. (cookie_id c, c)) s)"

definition unique_ids :: "cookie_store \<Rightarrow> bool" where
  "unique_ids s \<longleftrightarrow> distinct (map cookie_id s)"

lemma jar_Nil [simp]: "jar_map [] = Map.empty"
  by (simp add: jar_map_def)

lemma jar_Cons [simp]: "jar_map (c # s) = (jar_map s)(cookie_id c \<mapsto> c)"
  by (simp add: jar_map_def)

lemma jar_append: "jar_map (s @ t) = jar_map t ++ jar_map s"
  by (simp add: jar_map_def)

lemma unique_simps [simp]:
  "unique_ids []"
  "unique_ids (c # s) \<longleftrightarrow> cookie_id c \<notin> cookie_id ` set s \<and> unique_ids s"
  by (auto simp: unique_ids_def)

lemma unique_append:
  "unique_ids (s @ t) \<longleftrightarrow> unique_ids s \<and> unique_ids t \<and> cookie_id ` set s \<inter> cookie_id ` set t = {}"
  by (auto simp: unique_ids_def)

lemma jar_None_iff: "jar_map s k = None \<longleftrightarrow> k \<notin> cookie_id ` set s"
  by (induction s) auto

lemma jar_Some_iff: "unique_ids s \<Longrightarrow> jar_map s k = Some c \<longleftrightarrow> c \<in> set s \<and> cookie_id c = k"
  by (induction s) (auto, metis image_eqI)

lemma has_identity_iff: "has_identity n d p c \<longleftrightarrow> cookie_id c = (n, d, p)"
  by (auto simp: has_identity_def cookie_id_def)

lemma find_index_split:
  assumes "find_index n d p s = Some i"
  obtains xs c ys where "s = xs @ c # ys" "length xs = i" "cookie_id c = (n, d, p)"
proof -
  have i: "i < length s" "has_identity n d p (s ! i)"
    using assms position_SomeD [of "has_identity n d p" s i] by (auto simp: find_index_def)
  have "s = take i s @ s ! i # drop (Suc i) s" using i(1) by (rule id_take_nth_drop)
  with i that show ?thesis by (auto simp: has_identity_iff)
qed

lemma find_index_None: "find_index n d p s = None \<longleftrightarrow> (n, d, p) \<notin> cookie_id ` set s"
  by (force simp: find_index_def position_None_iff has_identity_iff)

lemma jar_not_in: "k \<notin> cookie_id ` set s \<Longrightarrow> jar_map s k = None"
  by (simp add: jar_None_iff)

lemma cs_set_map:
  assumes "unique_ids s"
  shows "jar_map (cs_set c s) = (jar_map s)(cookie_id c \<mapsto> c)" "unique_ids (cs_set c s)"
proof -
  have "jar_map (cs_set c s) = (jar_map s)(cookie_id c \<mapsto> c) \<and> unique_ids (cs_set c s)"
  proof (cases "find_index (ck_name c) (ck_domain c) (ck_path c) s")
    case None
    then have n: "cookie_id c \<notin> cookie_id ` set s" by (simp add: find_index_None cookie_id_def)
    then have "jar_map (s @ [c]) = (jar_map s)(cookie_id c \<mapsto> c)"
      by (auto simp: jar_append map_add_def fun_eq_iff jar_not_in split: option.splits)
    with n None assms show ?thesis by (auto simp: cs_set_def unique_append)
  next
    case (Some i)
    then obtain xs c' ys where s: "s = xs @ c' # ys" "length xs = i" "cookie_id c' = cookie_id c"
      by (elim find_index_split) (simp add: cookie_id_def)
    then have u: "s[i := c] = xs @ c # ys" by (simp add: list_update_append)
    have "cookie_id c \<notin> cookie_id ` set xs" using assms s by (auto simp: unique_append)
    then have "jar_map (xs @ c # ys) = (jar_map s)(cookie_id c \<mapsto> c)"
      unfolding s(1) by (auto simp: jar_append map_add_def fun_eq_iff s(3) jar_not_in split: option.splits)
    with Some u assms s show ?thesis by (auto simp: cs_set_def unique_append)
  qed
  then show "jar_map (cs_set c s) = (jar_map s)(cookie_id c \<mapsto> c)" "unique_ids (cs_set c s)" by auto
qed

lemma cs_remove_map:
  assumes "unique_ids s"
  shows "jar_map (snd (cs_remove n d p s)) = (jar_map s)((n, d, p) := None)"
    "unique_ids (snd (cs_remove n d p s))" "fst (cs_remove n d p s) = jar_map s (n, d, p)"
proof -
  have "jar_map (snd (cs_remove n d p s)) = (jar_map s)((n, d, p) := None) \<and>
      unique_ids (snd (cs_remove n d p s)) \<and> fst (cs_remove n d p s) = jar_map s (n, d, p)"
  proof (cases "find_index n d p s")
    case None
    then have "jar_map s (n, d, p) = None" by (simp add: find_index_None jar_not_in)
    with None assms show ?thesis by (auto simp: cs_remove_def fun_eq_iff)
  next
    case (Some i)
    then obtain xs c ys where s: "s = xs @ c # ys" "length xs = i" "cookie_id c = (n, d, p)"
      by (rule find_index_split)
    then have r: "remove_at i s = xs @ ys" "s ! i = c" by (auto simp: remove_at_def nth_append)
    have out: "(n, d, p) \<notin> cookie_id ` set xs" "(n, d, p) \<notin> cookie_id ` set ys"
      using assms s by (auto simp: unique_append)
    have "jar_map (xs @ ys) = (jar_map s)((n, d, p) := None)"
      unfolding s(1) using out
      by (auto simp: jar_append map_add_def fun_eq_iff s(3) jar_not_in split: option.splits)
    moreover have "jar_map s (n, d, p) = Some c"
      unfolding s(1) using out by (simp add: jar_append map_add_def s(3) jar_not_in)
    ultimately show ?thesis using Some r assms s by (auto simp: cs_remove_def unique_append)
  qed
  then show "jar_map (snd (cs_remove n d p s)) = (jar_map s)((n, d, p) := None)"
    "unique_ids (snd (cs_remove n d p s))" "fst (cs_remove n d p s) = jar_map s (n, d, p)" by auto
qed

lemma cs_purge_map:
  assumes "unique_ids s"
  shows "jar_map (cs_purge_expired now s) =
      (\<lambda>k. case jar_map s k of Some c \<Rightarrow> if is_expired now c then None else Some c | None \<Rightarrow> None)"
    "unique_ids (cs_purge_expired now s)"
  using assms by (induction s) (auto simp: cs_purge_expired_def fun_eq_iff jar_not_in split: option.splits)

section \<open>Runs of the store\<close>

datatype cookie_op =
  OpSet cookie
| OpHeader string string u64
| OpScript string string u64
| OpRemove string string string
| OpPurge u64

text \<open>What the store does, and the same on the map of identities.\<close>

fun store_step :: "cookie_op \<Rightarrow> cookie_store \<Rightarrow> cookie_store" where
  "store_step (OpSet c) s = cs_set c s"
| "store_step (OpHeader header host now) s = snd (set_from_set_cookie header host now s)"
| "store_step (OpScript assignment host now) s = cs_set_document_cookie assignment host now s"
| "store_step (OpRemove n d p) s = snd (cs_remove n d p s)"
| "store_step (OpPurge now) s = cs_purge_expired now s"

definition jar_receive :: "u64 \<Rightarrow> cookie \<Rightarrow> (cookie_id \<rightharpoonup> cookie) \<Rightarrow> cookie_id \<rightharpoonup> cookie" where
  "jar_receive now c m = m(cookie_id c := (if is_expired now c then None else Some c))"

definition script_names_http_only :: "string \<Rightarrow> bool" where
  "script_names_http_only assignment \<longleftrightarrow>
     (\<exists>attr \<in> set (drop 1 (split_on (CHR '';'') assignment)). eq_ignore_ascii_case (trim attr) ''httponly'')"

fun jar_step :: "cookie_op \<Rightarrow> (cookie_id \<rightharpoonup> cookie) \<Rightarrow> cookie_id \<rightharpoonup> cookie" where
  "jar_step (OpSet c) m = m(cookie_id c \<mapsto> c)"
| "jar_step (OpHeader header host now) m =
     (case parse_set_cookie header host now of None \<Rightarrow> m | Some c \<Rightarrow> jar_receive now c m)"
| "jar_step (OpScript assignment host now) m =
     (if script_names_http_only assignment then m
      else case parse_set_cookie assignment (if host = [] then document_jar_host else host) now of
        None \<Rightarrow> m
      | Some c \<Rightarrow> jar_receive now (c\<lparr>ck_http_only := False\<rparr>) m)"
| "jar_step (OpRemove n d p) m = m((n, d, p) := None)"
| "jar_step (OpPurge now) m =
     (\<lambda>k. case m k of Some c \<Rightarrow> if is_expired now c then None else Some c | None \<Rightarrow> None)"

lemma received:
  assumes "unique_ids s"
  shows "jar_map (if is_expired now c then snd (cs_remove (ck_name c) (ck_domain c) (ck_path c) s)
              else cs_set c s) = jar_receive now c (jar_map s)"
    "unique_ids (if is_expired now c then snd (cs_remove (ck_name c) (ck_domain c) (ck_path c) s)
              else cs_set c s)"
  using cs_set_map [OF assms, of c] cs_remove_map [OF assms, of "ck_name c" "ck_domain c" "ck_path c"]
  by (auto simp: jar_receive_def cookie_id_def)

lemma header_store:
  "snd (set_from_set_cookie header host now s) =
     (case parse_set_cookie header host now of None \<Rightarrow> s
      | Some c \<Rightarrow> if is_expired now c then snd (cs_remove (ck_name c) (ck_domain c) (ck_path c) s)
                 else cs_set c s)"
  by (simp add: set_from_set_cookie_def case_prod_beta Let_def split: option.splits)

lemma script_store:
  "cs_set_document_cookie assignment host now s =
     (if script_names_http_only assignment then s
      else case parse_set_cookie assignment (if host = [] then document_jar_host else host) now of
        None \<Rightarrow> s
      | Some c \<Rightarrow>
          (let c = c\<lparr>ck_http_only := False\<rparr>
           in if is_expired now c then snd (cs_remove (ck_name c) (ck_domain c) (ck_path c) s)
              else cs_set c s))"
  by (simp add: cs_set_document_cookie_def script_names_http_only_def list_ex_iff)

lemma store_step_map:
  assumes "unique_ids s"
  shows "jar_map (store_step op s) = jar_step op (jar_map s) \<and> unique_ids (store_step op s)"
proof (cases op)
  case (OpHeader header host now)
  then show ?thesis using received [OF assms] assms by (simp add: header_store split: option.splits)
next
  case (OpScript assignment host now)
  then show ?thesis
    using received [OF assms] assms
    by (simp add: script_store Let_def split: option.splits del: select_convs)
qed (use assms in \<open>simp_all add: cs_set_map cs_remove_map cs_purge_map\<close>)

text \<open>C13: After any sequence of operations on an empty store, the store is the map of identities that the
same operations build: setting replaces the cookie of the same name, domain and path, an expired
cookie deletes it, purging drops the expired; no two cookies share an identity.\<close>

theorem cookie_store_is_map:
  "jar_map (fold store_step ops []) = fold jar_step ops Map.empty \<and>
   distinct (map cookie_id (fold store_step ops []))"
proof -
  have "jar_map (fold store_step ops s) = fold jar_step ops (jar_map s) \<and> unique_ids (fold store_step ops s)"
    if "unique_ids s" for s
    using that by (induction ops arbitrary: s) (simp_all add: store_step_map)
  from this [of "[]"] show ?thesis by (simp add: unique_ids_def)
qed

section \<open>What a request carries\<close>

text \<open>The rules of RFC 6265 for the cookies of a request.\<close>

definition domain_ok :: "string \<Rightarrow> cookie \<Rightarrow> bool" where
  "domain_ok host c \<longleftrightarrow>
     to_ascii_lowercase host = ck_domain c \<or>
     (\<not> ck_host_only c \<and> (\<exists>sub. to_ascii_lowercase host = sub @ ''.'' @ ck_domain c))"

definition path_ok :: "string \<Rightarrow> cookie \<Rightarrow> bool" where
  "path_ok path c \<longleftrightarrow>
     path = ck_path c \<or> (\<exists>dir rest. ck_path c = dir @ ''/'' \<and> path = ck_path c @ rest) \<or>
     (\<exists>rest. path = ck_path c @ ''/'' @ rest)"

definition eligible :: "string \<Rightarrow> string \<Rightarrow> bool \<Rightarrow> bool \<Rightarrow> same_site_context \<Rightarrow> u64 \<Rightarrow> cookie \<Rightarrow> bool" where
  "eligible host path secure include_http_only ctx now c \<longleftrightarrow>
     (ck_expires c = None \<or> (\<exists>e. ck_expires c = Some e \<and> now < e)) \<and> domain_ok host c \<and> path_ok path c \<and>
     (ck_secure c \<longrightarrow> secure) \<and> (ck_http_only c \<longrightarrow> include_http_only) \<and>
     (ctx = CtxCrossSiteTopLevel \<longrightarrow> ck_same_site c \<in> {SsLax, SsNone}) \<and>
     (ctx = CtxCrossSiteSubresource \<longrightarrow> ck_same_site c = SsNone)"

lemma ends_with_iff: "ends_with p s \<longleftrightarrow> (\<exists>t. s = t @ p)"
proof
  assume "ends_with p s"
  then have "s = take (length s - length p) s @ p"
    unfolding ends_with_def by (metis append_take_drop_id)
  then show "\<exists>t. s = t @ p" by blast
qed (auto simp: ends_with_def)

lemma domain_matches_iff: "domain_matches host c = domain_ok host c"
  by (auto simp: domain_matches_def domain_ok_def Let_def ends_with_iff simp del: length_to_ascii_lowercase)

lemma path_matches_iff: "path_matches path c = path_ok path c"
  by (auto simp: path_matches_def path_ok_def starts_with_iff ends_with_iff)

lemma eligible_filters:
  "((((\<not> is_expired now c \<and> domain_matches host c \<and> path_matches path c) \<and>
     (\<not> ck_secure c \<or> secure)) \<and> (include_http_only \<or> \<not> ck_http_only c)) \<and>
     same_site_allows (ck_same_site c) ctx) \<longleftrightarrow>
   eligible host path secure include_http_only ctx now c"
  by (cases "ck_same_site c"; cases ctx)
    (auto simp: eligible_def same_site_allows_def is_expired_def domain_matches_iff path_matches_iff
      not_le split: option.splits)

lemma cookie_header_eligible:
  "cookie_header host path secure include_http_only ctx now s =
     join_str ''; '' (map cookie_pair (sort_key (\<lambda>c. - int (length (ck_path c)))
       (filter (eligible host path secure include_http_only ctx now) s)))"
  unfolding cookie_header_def Let_def filter_filter eligible_filters ..

text \<open>C12: The request header lists exactly the stored cookies that are eligible for the request by expiry,
domain, path, transport, HttpOnly and SameSite, each as often as it is stored, longer paths first and
in the store's order among paths of one length.\<close>

theorem cookie_header_lists_eligible:
  "\<exists>sent. cookie_header host path secure include_http_only ctx now s =
       join_str ''; '' (map cookie_pair sent) \<and>
     mset sent = filter_mset (eligible host path secure include_http_only ctx now) (mset s) \<and>
     sorted_wrt (\<lambda>a b. length (ck_path b) \<le> length (ck_path a)) sent \<and>
     (\<forall>n. filter (\<lambda>c. length (ck_path c) = n) sent =
          filter (\<lambda>c. eligible host path secure include_http_only ctx now c \<and> length (ck_path c) = n) s)"
proof -
  let ?f = "\<lambda>c. - int (length (ck_path c))"
  let ?e = "eligible host path secure include_http_only ctx now"
  let ?sent = "sort_key ?f (filter ?e s)"
  have "sorted (map ?f ?sent)" by (rule sorted_sort_key)
  then have "sorted_wrt (\<lambda>a b. length (ck_path b) \<le> length (ck_path a)) ?sent"
    by (simp add: sorted_map)
  moreover have "filter (\<lambda>c. length (ck_path c) = n) ?sent =
      filter (\<lambda>c. ?e c \<and> length (ck_path c) = n) s" for n
    using sort_key_stable [of ?f "- int n" "filter ?e s"] by (simp add: conj_commute)
  ultimately show ?thesis
    by (intro exI [of _ ?sent]) (simp add: cookie_header_eligible)
qed

section \<open>HttpOnly\<close>

lemma set_cs_set: "set (cs_set c s) \<subseteq> insert c (set s)"
  using set_update_subset_insert [of s _ c] by (auto simp: cs_set_def split: option.splits)

lemma set_cs_remove: "set (snd (cs_remove n d p s)) \<subseteq> set s"
  by (auto simp: cs_remove_def remove_at_def dest: in_set_takeD in_set_dropD split: option.splits)

lemma http_only_filters:
  "filter (\<lambda>c. host = [] \<or> domain_matches host c) (filter (\<lambda>c. \<not> is_expired now c \<and> \<not> ck_http_only c) s) =
   filter (\<lambda>c. host = [] \<or> domain_matches host c)
     (filter (\<lambda>c. \<not> is_expired now c \<and> \<not> ck_http_only c) (filter (\<lambda>c. \<not> ck_http_only c) s))"
  by (simp add: conj_ac)

text \<open>A script's assignment never stores an HttpOnly cookie that was not there before, and what a
script reads is what it would read if no HttpOnly cookie were stored.\<close>

theorem http_only_hidden_from_scripts:
  "{c \<in> set (cs_set_document_cookie assignment host now s). ck_http_only c} \<subseteq> set s \<and>
   cs_document_cookie_string host' now' s =
     cs_document_cookie_string host' now' (filter (\<lambda>c. \<not> ck_http_only c) s)"
proof
  show "cs_document_cookie_string host' now' s =
     cs_document_cookie_string host' now' (filter (\<lambda>c. \<not> ck_http_only c) s)"
    unfolding cs_document_cookie_string_def by (simp only: http_only_filters [symmetric])
  have "ck_http_only c \<Longrightarrow> c \<in> set (cs_set_document_cookie assignment host now s) \<Longrightarrow> c \<in> set s" for c
    using set_cs_set [of _ s] set_cs_remove [of _ _ _ s]
    by (fastforce simp: script_store Let_def simp del: select_convs split: option.splits if_splits)
  then show "{c \<in> set (cs_set_document_cookie assignment host now s). ck_http_only c} \<subseteq> set s"
    by auto
qed

section \<open>Partitions\<close>

lemma caret_split:
  assumes "CHR ''^'' \<notin> set a" "CHR ''^'' \<notin> set a'" "a @ CHR ''^'' # b = a' @ CHR ''^'' # b'"
  shows "a = a' \<and> b = b'"
proof -
  have "split_once (CHR ''^'') (a @ CHR ''^'' # b) = Some (a, b)"
    "split_once (CHR ''^'') (a @ CHR ''^'' # b) = Some (a', b')"
    unfolding split_once_Some using assms by simp_all
  then show ?thesis by simp
qed

lemma own_key_inj:
  assumes "t \<noteq> []" "t' \<noteq> []" "partition_key t t = partition_key t' t'"
  shows "t = t'"
proof -
  from assms have e: "t @ ''^'' @ t = t' @ ''^'' @ t'" by (simp add: partition_key_def)
  then have "length (t @ ''^'' @ t) = length (t' @ ''^'' @ t')" by (simp only:)
  then have "length t = length t'" by simp
  with e show ?thesis by simp
qed

lemma own_key_partitioned: "t \<noteq> [] \<Longrightarrow> partition_key t r \<noteq> unpartitioned"
  by (auto simp: partition_key_def unpartitioned_def dest: arg_cong [of _ _ "\<lambda>s. CHR ''^'' \<in> set s"])

lemma own_keys_differ: "t \<noteq> t' \<Longrightarrow> partition_key t t \<noteq> partition_key t' t'"
  using own_key_inj [of t t'] own_key_partitioned [of t t] own_key_partitioned [of t' t']
  by (cases "t = []"; cases "t' = []") (auto simp: partition_key_def [of "[]"])

lemma store_mut_fst: "fst (store_mut key p) = (case p key of Some s \<Rightarrow> s | None \<Rightarrow> [])"
  by (simp add: store_mut_def split: option.splits)

lemma ps_set_apply:
  "ps_set_document_cookie tls host a now p =
     p(partition_key tls tls \<mapsto>
       cs_set_document_cookie a host now (case p (partition_key tls tls) of Some s \<Rightarrow> s | None \<Rightarrow> []))"
  by (auto simp: ps_set_document_cookie_def store_mut_def Let_def split: option.splits)

text \<open>C19: Documents of two top-level sites do not see each other's cookies: an assignment by one leaves
the string that the other reads as it was, and the two assignments commute. Sites whose text holds no
caret have partition keys of their own for every pair of resource and top-level site.\<close>

theorem partitions_isolated:
  assumes "tls \<noteq> tls'"
  shows "ps_document_cookie_string tls' host' now' (ps_set_document_cookie tls host a now p) =
           ps_document_cookie_string tls' host' now' p \<and>
    ps_set_document_cookie tls host a now (ps_set_document_cookie tls' host' a' now' p) =
       ps_set_document_cookie tls' host' a' now' (ps_set_document_cookie tls host a now p) \<and>
    (tls \<noteq> [] \<and> CHR ''^'' \<notin> set r \<and> CHR ''^'' \<notin> set r' \<longrightarrow>
       partition_key tls r \<noteq> partition_key tls' r')"
proof (intro conjI impI)
  note d = own_keys_differ [OF assms]
  show "ps_document_cookie_string tls' host' now' (ps_set_document_cookie tls host a now p) =
      ps_document_cookie_string tls' host' now' p"
    using d by (simp add: ps_document_cookie_string_def ps_set_apply)
  show "ps_set_document_cookie tls host a now (ps_set_document_cookie tls' host' a' now' p) =
      ps_set_document_cookie tls' host' a' now' (ps_set_document_cookie tls host a now p)"
    using d by (simp add: ps_set_apply fun_upd_twist)
  show "partition_key tls r \<noteq> partition_key tls' r'"
    if "tls \<noteq> [] \<and> CHR ''^'' \<notin> set r \<and> CHR ''^'' \<notin> set r'"
    using that assms caret_split [of r r' tls tls'] own_key_partitioned [of tls r]
    by (cases "tls' = []") (auto simp: partition_key_def)
qed

lemma partitions_isolated_witness:
  "ps_document_cookie_string ''https://b.test'' ''b.test'' 5
     (ps_set_document_cookie ''https://a.test'' ''a.test'' ''k=v'' 5 Map.empty) =
   ps_document_cookie_string ''https://b.test'' ''b.test'' 5 Map.empty \<and>
   partition_key ''https://a.test'' ''https://c.test'' \<noteq> partition_key ''https://b.test'' ''https://c.test''"
  using partitions_isolated [where tls = "''https://a.test''" and tls' = "''https://b.test''"
      and r = "''https://c.test''" and r' = "''https://c.test''"]
  by simp

end
