(* ===== verification/Net_Http.thy ===== *)
theory Net_Http
  imports Net_Response Net_Cookie
begin

text \<open>
  The HTTP client (\<open>crates/silksurf-net/src/lib.rs\<close>, \<open>client_hints.rs\<close>): the request it writes, the
  cookies it attaches and stores, redirects and the parallel fetch. The url crate, the connection
  and the HTTP/2 batch are parameters; the state is the shared jar and the world they act on.
\<close>

section \<open>Parameters\<close>

text \<open>The url crate: a parsed URL and what the client reads of it.\<close>

datatype url_host = Ipv4Host "32 word" | Ipv6Host "128 word" | DomainHost string

record ('u, 'o) url_ops =
  url_parse :: "string \<Rightarrow> string + 'u"
  url_scheme :: "'u \<Rightarrow> string"
  url_host_str :: "'u \<Rightarrow> string option"
  url_host_of :: "'u \<Rightarrow> url_host option"
  url_port :: "'u \<Rightarrow> u16 option"
  url_path :: "'u \<Rightarrow> string"
  url_query :: "'u \<Rightarrow> string option"
  url_origin :: "'u \<Rightarrow> 'o"
  url_join :: "'u \<Rightarrow> string \<Rightarrow> string + 'u"
  url_text :: "'u \<Rightarrow> string"

text \<open>
  The operating system and rustls: connecting to an address, checking a server name, setting up the
  session (\<open>ClientConnection::new\<close>) and its handshake, writing all bytes, and the reads that follow.
\<close>

record ('s, 'w) transport =
  tcp_connect :: "string \<Rightarrow> 'w \<Rightarrow> (string + 's) \<times> 'w"
  server_name :: "string \<Rightarrow> string option"
  tls_setup :: "string \<Rightarrow> 's \<Rightarrow> 'w \<Rightarrow> (string + 's) \<times> 'w"
  tls_handshake :: "'s \<Rightarrow> 'w \<Rightarrow> (string + 's) \<times> 'w"
  write_all :: "'s \<Rightarrow> u8 list \<Rightarrow> 'w \<Rightarrow> string option \<times> 'w"
  reads :: "'s \<Rightarrow> 'w \<Rightarrow> read_event list \<times> 'w"
  now_unix :: "'w \<Rightarrow> u64"

section \<open>Requests and the client\<close>

datatype http_method = HttpGet | HttpPost | HttpPut | HttpDelete

definition method_str :: "http_method \<Rightarrow> string" where
  "method_str m = (case m of HttpGet \<Rightarrow> ''GET'' | HttpPost \<Rightarrow> ''POST'' | HttpPut \<Rightarrow> ''PUT'' | HttpDelete \<Rightarrow> ''DELETE'')"

record http_request =
  req_method :: http_method
  req_url :: string
  req_headers :: headers
  req_body :: "u8 list"

text \<open>\<open>CookieContext\<close> holds the top-level site; the jar it shares is in the state.\<close>

record 'o basic_client =
  max_redirects :: nat
  cookie_context :: "string option"
  cookie_origin :: "'o option"
  request_origin :: "'o option"

definition client_new :: "'o basic_client" where
  "client_new = \<lparr>max_redirects = 5, cookie_context = None, cookie_origin = None, request_origin = None\<rparr>"

definition with_cookie_context :: "string \<Rightarrow> 'o basic_client \<Rightarrow> 'o basic_client" where
  "with_cookie_context top_level_site c = c\<lparr>cookie_context := Some top_level_site\<rparr>"

definition with_cookie_origin :: "'o \<Rightarrow> 'o basic_client \<Rightarrow> 'o basic_client" where
  "with_cookie_origin origin c = c\<lparr>cookie_origin := Some origin\<rparr>"

definition without_cookies :: "'o basic_client \<Rightarrow> 'o basic_client" where
  "without_cookies c = c\<lparr>cookie_context := None\<rparr>"

definition with_request_origin :: "'o \<Rightarrow> 'o basic_client \<Rightarrow> 'o basic_client" where
  "with_request_origin origin c = c\<lparr>request_origin := Some origin\<rparr>"

record 'w net_state =
  ns_jar :: partitioned
  ns_world :: 'w

record 'u request_target =
  rt_parsed :: 'u
  rt_host :: string
  rt_is_https :: bool
  rt_port :: u16
  rt_path :: string

definition request_path :: "('u, 'o) url_ops \<Rightarrow> 'u \<Rightarrow> string" where
  "request_path U parsed =
     (case url_query U parsed of Some query \<Rightarrow> url_path U parsed @ ''?'' @ query | None \<Rightarrow> url_path U parsed)"

definition target_from_parsed :: "('u, 'o) url_ops \<Rightarrow> 'u \<Rightarrow> net_error + 'u request_target" where
  "target_from_parsed U parsed =
     res_bind (ok_or (NetError ''No host in URL'') (url_host_str U parsed)) (\<lambda>host.
       let is_https = (url_scheme U parsed = ''https'');
           port = (case url_port U parsed of Some p \<Rightarrow> p | None \<Rightarrow> if is_https then 443 else 80)
       in Inr \<lparr>rt_parsed = parsed, rt_host = host, rt_is_https = is_https, rt_port = port,
               rt_path = request_path U parsed\<rparr>)"

definition parse_url :: "('u, 'o) url_ops \<Rightarrow> string \<Rightarrow> net_error + 'u" where
  "parse_url U s =
     (case url_parse U s of Inl e \<Rightarrow> Inl (NetError (''Invalid URL: '' @ e)) | Inr u \<Rightarrow> Inr u)"

definition target_parse :: "('u, 'o) url_ops \<Rightarrow> string \<Rightarrow> net_error + 'u request_target" where
  "target_parse U current_url = res_bind (parse_url U current_url) (target_from_parsed U)"

section \<open>Client hints\<close>

definition CARGO_PKG_VERSION_MAJOR :: string where
  "CARGO_PKG_VERSION_MAJOR = ''0''"

definition BRANDS :: "(string \<times> string) list" where
  "BRANDS = [(''SilkSurf'', CARGO_PKG_VERSION_MAJOR), (''Not_A Brand'', ''8'')]"

definition PLATFORM :: "string \<Rightarrow> string" where
  "PLATFORM target_os =
     (if target_os = ''android'' then ''Android''
      else if target_os = ''ios'' then ''iOS''
      else if target_os = ''linux'' then ''Linux''
      else if target_os = ''macos'' then ''macOS''
      else if target_os = ''windows'' then ''Windows''
      else if target_os = ''fuchsia'' then ''Fuchsia''
      else ''Unknown'')"

definition MOBILE :: "string \<Rightarrow> bool" where
  "MOBILE target_os \<longleftrightarrow> target_os = ''android'' \<or> target_os = ''ios''"

definition quoted :: "string \<Rightarrow> string" where
  "quoted s = [CHR 0x22] @ s @ [CHR 0x22]"

definition sec_ch_ua :: string where
  "sec_ch_ua = join_str '', '' (map (\<lambda>(brand, version). quoted brand @ '';v='' @ quoted version) BRANDS)"

definition sec_ch_ua_mobile :: "string \<Rightarrow> string" where
  "sec_ch_ua_mobile os = (if MOBILE os then ''?1'' else ''?0'')"

definition sec_ch_ua_platform :: "string \<Rightarrow> string" where
  "sec_ch_ua_platform os = quoted (PLATFORM os)"

definition low_entropy_headers :: "string \<Rightarrow> headers" where
  "low_entropy_headers os =
     [(''sec-ch-ua'', sec_ch_ua), (''sec-ch-ua-mobile'', sec_ch_ua_mobile os),
      (''sec-ch-ua-platform'', sec_ch_ua_platform os)]"

definition is_potentially_trustworthy :: "('u, 'o) url_ops \<Rightarrow> 'u \<Rightarrow> bool" where
  "is_potentially_trustworthy U url =
     (let scheme = url_scheme U url
      in if scheme = ''https'' \<or> scheme = ''wss'' then True
         else if scheme = ''http'' \<or> scheme = ''ws'' then
           (case url_host_of U url of
              Some (Ipv4Host a) \<Rightarrow> drop_bit 24 a = 127
            | Some (Ipv6Host a) \<Rightarrow> a = 1
            | Some (DomainHost host) \<Rightarrow>
                (let host = (case strip_suffix ''.'' host of Some h \<Rightarrow> h | None \<Rightarrow> host)
                 in eq_ignore_ascii_case host ''localhost''
                    \<or> ends_with ''.localhost'' (to_ascii_lowercase host))
            | None \<Rightarrow> False)
         else False)"

section \<open>The request on the wire\<close>

definition has_header :: "headers \<Rightarrow> string \<Rightarrow> bool" where
  "has_header hs name \<longleftrightarrow> list_ex (\<lambda>(header_name, _). eq_ignore_ascii_case header_name name) hs"

definition header_line :: "string \<Rightarrow> string \<Rightarrow> string" where
  "header_line name v = name @ '': '' @ v @ [CHR 0x0D, CHR 0x0A]"

definition request_line :: "http_request \<Rightarrow> 'u request_target \<Rightarrow> string" where
  "request_line request target =
     (let path = (if rt_path target = [] then ''/'' else rt_path target)
      in method_str (req_method request) @ '' '' @ path @ '' HTTP/1.1'' @ [CHR 0x0D, CHR 0x0A]
         @ header_line ''Host'' (rt_host target) @ header_line ''Connection'' ''close''
         @ header_line ''User-Agent'' ''SilkSurf/0.1'' @ header_line ''Accept'' ''*/*'')"

definition user_agent_client_hints :: "string \<Rightarrow> headers \<Rightarrow> string" where
  "user_agent_client_hints os hs =
     concat (map (\<lambda>(name, v). if has_header hs name then [] else header_line name v)
       (low_entropy_headers os))"

definition ACCEPT_ENCODING_VALUE :: string where
  "ACCEPT_ENCODING_VALUE = ''br, gzip, deflate''"

definition content_encoding_header :: "headers \<Rightarrow> string" where
  "content_encoding_header hs =
     (if has_header hs ''accept-encoding'' then [] else header_line ''Accept-Encoding'' ACCEPT_ENCODING_VALUE)"

definition token_byte :: "char \<Rightarrow> bool" where
  "token_byte c \<longleftrightarrow>
     ascii_upper c \<or> ascii_lower c \<or> ascii_digit c
     \<or> c \<in> set (''!#$%&'' @ [CHR 0x27] @ ''*+-.^_'' @ [CHR 0x60] @ ''|~'')"

definition validate_request_header :: "string \<Rightarrow> string \<Rightarrow> net_error + unit" where
  "validate_request_header name v =
     (let valid_name = (name \<noteq> [] \<and> list_all token_byte name)
      in if \<not> valid_name \<or> list_ex (\<lambda>c. c = CHR 0x00 \<or> c = CHR 0x0D \<or> c = CHR 0x0A) v
         then Inl (NetError ''Invalid HTTP request header'') else Inr ())"

fun custom_headers :: "headers \<Rightarrow> net_error + string" where
  "custom_headers [] = Inr []"
| "custom_headers ((name, v) # hs) =
     res_bind (validate_request_header name v) (\<lambda>_.
       res_bind (custom_headers hs) (\<lambda>rest. Inr (header_line name v @ rest)))"

definition content_length_header :: "nat \<Rightarrow> string" where
  "content_length_header body_len =
     (if body_len = 0 then [] else header_line ''Content-Length'' (show_nat body_len))"

definition build_http1_request ::
    "('u, 'o) url_ops \<Rightarrow> string \<Rightarrow> http_request \<Rightarrow> 'u request_target \<Rightarrow> string option \<Rightarrow> net_error + u8 list" where
  "build_http1_request U os request target cookie =
     res_bind (custom_headers (req_headers request)) (\<lambda>custom.
       Inr (str_bytes
         (request_line request target
          @ (if is_potentially_trustworthy U (rt_parsed target)
             then user_agent_client_hints os (req_headers request) else [])
          @ content_encoding_header (req_headers request)
          @ custom
          @ (case cookie of Some c \<Rightarrow> header_line ''Cookie'' c | None \<Rightarrow> [])
          @ content_length_header (length (req_body request))
          @ [CHR 0x0D, CHR 0x0A])
        @ req_body request))"

section \<open>Cookies\<close>

definition permits_cookies :: "('u, 'o) url_ops \<Rightarrow> 'o basic_client \<Rightarrow> 'u request_target \<Rightarrow> bool" where
  "permits_cookies U C target =
     (case cookie_origin C of None \<Rightarrow> True | Some origin \<Rightarrow> origin = url_origin U (rt_parsed target))"

definition target_site :: "('u, 'o) url_ops \<Rightarrow> public_suffix_list \<Rightarrow> 'u \<Rightarrow> string" where
  "target_site U psl u = site_of_url psl (url_scheme U u) (url_host_str U u)"

definition request_cookie_header ::
    "('u, 'o) url_ops \<Rightarrow> public_suffix_list \<Rightarrow> 'o basic_client \<Rightarrow> http_request \<Rightarrow> 'u request_target
       \<Rightarrow> same_site_context option \<Rightarrow> u64 \<Rightarrow> partitioned \<Rightarrow> string option" where
  "request_cookie_header U psl C request target nav now jar =
     (if \<not> permits_cookies U C target \<or> has_header (req_headers request) ''cookie'' then None
      else (case cookie_context C of
        None \<Rightarrow> None
      | Some top_level_site \<Rightarrow>
          (let resource_site = target_site U psl (rt_parsed target);
               partition = partition_key top_level_site resource_site;
               same_site = (case nav of Some ctx \<Rightarrow> ctx
                 | None \<Rightarrow> subresource_same_site_context top_level_site resource_site);
               header = (case jar partition of
                   None \<Rightarrow> []
                 | Some store \<Rightarrow> cookie_header (rt_host target) (url_path U (rt_parsed target))
                     (rt_is_https target) True same_site now store)
           in if header \<noteq> [] then Some header else None)))"

definition store_set_cookie :: "string \<Rightarrow> u64 \<Rightarrow> string \<times> string \<Rightarrow> cookie_store \<Rightarrow> cookie_store" where
  "store_set_cookie host now = (\<lambda>(name, v) store.
     if eq_ignore_ascii_case name ''set-cookie'' then snd (set_from_set_cookie v host now store) else store)"

definition store_response_cookies ::
    "('u, 'o) url_ops \<Rightarrow> public_suffix_list \<Rightarrow> 'o basic_client \<Rightarrow> http_response \<Rightarrow> 'u request_target
       \<Rightarrow> u64 \<Rightarrow> partitioned \<Rightarrow> partitioned" where
  "store_response_cookies U psl C response target now jar =
     (if \<not> permits_cookies U C target then jar
      else (case cookie_context C of
        None \<Rightarrow> jar
      | Some top_level_site \<Rightarrow>
          (let partition = partition_key top_level_site (target_site U psl (rt_parsed target));
               (store, jar) = store_mut partition jar
           in jar(partition \<mapsto> fold (store_set_cookie (rt_host target) now) (rsp_headers response) store))))"

text \<open>
  The fetch operations of \<open>BasicClient\<close> (\<open>crates/silksurf-net/src/lib.rs\<close>): one exchange, the redirect
  loop, navigation and the parallel fetch with its HTTP/2 path. Every operation is a state
  transformer over the jar and the world.
\<close>

section \<open>One exchange\<close>

text \<open>A call outside, its error prefixed as \<open>map_err\<close> does; and a call on the world of the client.\<close>

definition net_call :: "string \<Rightarrow> ('w \<Rightarrow> (string + 'a) \<times> 'w) \<Rightarrow> ('w, net_error, 'a) sm" where
  "net_call msg f w =
     (case f w of (Inl e, w) \<Rightarrow> (Inl (NetError (msg @ e)), w) | (Inr a, w) \<Rightarrow> (Inr a, w))"

definition on_world :: "('w, 'e, 'a) sm \<Rightarrow> ('w net_state, 'e, 'a) sm" where
  "on_world m s = (case m (ns_world s) of (r, w) \<Rightarrow> (r, s\<lparr>ns_world := w\<rparr>))"

definition target_addr :: "'u request_target \<Rightarrow> string" where
  "target_addr target = rt_host target @ '':'' @ show_nat (unat (rt_port target))"

definition connect_tcp :: "('s, 'w) transport \<Rightarrow> 'u request_target \<Rightarrow> ('w, net_error, 's) sm" where
  "connect_tcp T target =
     net_call (''TCP connect to '' @ target_addr target @ '': '') (tcp_connect T (target_addr target))"

definition write_and_read :: "('s, 'w) transport \<Rightarrow> string \<Rightarrow> 's \<Rightarrow> u8 list \<Rightarrow> ('w, net_error, u8 list) sm" where
  "write_and_read T msg stream bytes =
     sm_then (net_call msg (\<lambda>w. case write_all T stream bytes w of
                (Some e, w) \<Rightarrow> (Inl e, w) | (None, w) \<Rightarrow> (Inr (), w)))
       (sm_bind (sm_lift (reads T stream)) (\<lambda>es. sm_read (\<lambda>_. read_response es)))"

text \<open>
  \<open>complete_tls_handshake\<close>: the loop of \<open>complete_io\<close> calls is the parameter \<open>tls_handshake\<close>.
\<close>

definition complete_tls_handshake :: "('s, 'w) transport \<Rightarrow> 's \<Rightarrow> u8 list \<Rightarrow> ('w, net_error, u8 list) sm" where
  "complete_tls_handshake T conn bytes =
     sm_bind (net_call ''TLS handshake: '' (tls_handshake T conn)) (\<lambda>stream.
       write_and_read T ''TLS write: '' stream bytes)"

definition send_https_request ::
    "('s, 'w) transport \<Rightarrow> 'u request_target \<Rightarrow> 's \<Rightarrow> u8 list \<Rightarrow> ('w, net_error, u8 list) sm" where
  "send_https_request T target tcp bytes =
     (case server_name T (rt_host target) of
        Some e \<Rightarrow> sm_fail (NetError (''Invalid server name: '' @ e))
      | None \<Rightarrow>
          sm_bind (net_call ''TLS setup: '' (tls_setup T (rt_host target) tcp)) (\<lambda>conn.
            complete_tls_handshake T conn bytes))"

definition send_http1_request ::
    "('s, 'w) transport \<Rightarrow> 'u request_target \<Rightarrow> u8 list \<Rightarrow> ('w, net_error, u8 list) sm" where
  "send_http1_request T target bytes =
     sm_bind (connect_tcp T target) (\<lambda>tcp.
       if rt_is_https target then send_https_request T target tcp bytes
       else write_and_read T ''TCP write: '' tcp bytes)"

text \<open>What every operation of the client is given.\<close>

record ('u, 'o, 's, 'w) net_env =
  env_url :: "('u, 'o) url_ops"
  env_transport :: "('s, 'w) transport"
  env_httparse :: "u8 list \<Rightarrow> head_parse"
  env_decoders :: content_decoders
  env_psl :: public_suffix_list
  env_os :: string

definition origin_refused :: "('u, 'o, 's, 'w) net_env \<Rightarrow> 'o basic_client \<Rightarrow> 'u request_target \<Rightarrow> bool" where
  "origin_refused E C target \<longleftrightarrow>
     (case request_origin C of None \<Rightarrow> False | Some origin \<Rightarrow> origin \<noteq> url_origin (env_url E) (rt_parsed target))"

definition fetch_http1_once ::
    "('u, 'o, 's, 'w) net_env \<Rightarrow> 'o basic_client \<Rightarrow> http_request \<Rightarrow> string \<Rightarrow> same_site_context option
       \<Rightarrow> ('w net_state, net_error, 'u \<times> http_response) sm" where
  "fetch_http1_once E C request current_url nav =
     sm_bind (sm_read (\<lambda>_. target_parse (env_url E) current_url)) (\<lambda>target.
       if origin_refused E C target then
         sm_fail (NetError ''credentialed cross-origin fetch requires CORS enforcement'')
       else
         sm_bind (sm_read (\<lambda>s. Inr (request_cookie_header (env_url E) (env_psl E) C request target nav
                    (now_unix (env_transport E) (ns_world s)) (ns_jar s)))) (\<lambda>cookie.
         sm_bind (sm_read (\<lambda>_. build_http1_request (env_url E) (env_os E) request target cookie)) (\<lambda>bytes.
         sm_bind (on_world (send_http1_request (env_transport E) target bytes)) (\<lambda>answer.
         sm_bind (sm_read (\<lambda>_. parse_response (env_httparse E) (env_decoders E) answer)) (\<lambda>response.
         sm_then (sm_do (\<lambda>s. s\<lparr>ns_jar := store_response_cookies (env_url E) (env_psl E) C response target
                    (now_unix (env_transport E) (ns_world s)) (ns_jar s)\<rparr>))
           (sm_return (rt_parsed target, response)))))))"

section \<open>Redirects\<close>

definition is_redirect_status :: "u16 \<Rightarrow> bool" where
  "is_redirect_status status \<longleftrightarrow> status \<in> {301, 302, 303, 307, 308}"

definition redirect_target ::
    "('u, 'o) url_ops \<Rightarrow> 'u \<Rightarrow> http_response \<Rightarrow> nat \<Rightarrow> nat \<Rightarrow> string option" where
  "redirect_target U parsed response redirects limit =
     (if \<not> is_redirect_status (rsp_status response) \<or> limit \<le> redirects then None
      else map_option (\<lambda>location. case url_join U parsed location of Inl _ \<Rightarrow> location | Inr u \<Rightarrow> url_text U u)
             (rsp_header response ''location''))"

lemma redirect_target_limit: "redirect_target U p r n limit = Some v \<Longrightarrow> n < limit"
  by (auto simp: redirect_target_def split: if_splits)

function fetch_loop ::
    "('u, 'o, 's, 'w) net_env \<Rightarrow> 'o basic_client \<Rightarrow> http_request \<Rightarrow> same_site_context option \<Rightarrow> string \<Rightarrow> nat
       \<Rightarrow> 'w net_state \<Rightarrow> (net_error + http_response) \<times> 'w net_state" where
  "fetch_loop E C request nav current_url redirects s =
     (case fetch_http1_once E C request current_url nav s of
        (Inl e, s) \<Rightarrow> (Inl e, s)
      | (Inr (parsed, response), s) \<Rightarrow>
          (case redirect_target (env_url E) parsed response redirects (max_redirects C) of
             Some next_url \<Rightarrow> fetch_loop E C request nav next_url (redirects + 1) s
           | None \<Rightarrow> (Inr response, s)))"
  by auto
termination
  by (relation "measure (\<lambda>(E, C, request, nav, url, redirects, s). max_redirects C - redirects)")
     (auto dest!: redirect_target_limit)

declare fetch_loop.simps [simp del]

definition fetch_with_context ::
    "('u, 'o, 's, 'w) net_env \<Rightarrow> 'o basic_client \<Rightarrow> http_request \<Rightarrow> same_site_context option
       \<Rightarrow> ('w net_state, net_error, http_response) sm" where
  "fetch_with_context E C request nav = fetch_loop E C request nav (req_url request) 0"

definition fetch :: "('u, 'o, 's, 'w) net_env \<Rightarrow> 'o basic_client \<Rightarrow> http_request
       \<Rightarrow> ('w net_state, net_error, http_response) sm" where
  "fetch E C request = fetch_with_context E C request None"

definition fetch_navigation ::
    "('u, 'o, 's, 'w) net_env \<Rightarrow> 'o basic_client \<Rightarrow> http_request \<Rightarrow> string option
       \<Rightarrow> ('w net_state, net_error, http_response) sm" where
  "fetch_navigation E C request initiator_site =
     (let destination_site = (case url_parse (env_url E) (req_url request) of
            Inl _ \<Rightarrow> [] | Inr u \<Rightarrow> target_site (env_url E) (env_psl E) u);
          nav = navigation_same_site_context initiator_site destination_site
                  (is_safe_method (method_str (req_method request)))
      in fetch_with_context E C request (Some nav))"

function h2_redirect_loop ::
    "('u, 'o, 's, 'w) net_env \<Rightarrow> 'o basic_client \<Rightarrow> http_request \<Rightarrow> string \<Rightarrow> nat \<Rightarrow> http_response
       \<Rightarrow> 'w net_state \<Rightarrow> (net_error + http_response) \<times> 'w net_state" where
  "h2_redirect_loop E C request current_url redirects response s =
     (case parse_url (env_url E) current_url of
        Inl e \<Rightarrow> (Inl e, s)
      | Inr parsed \<Rightarrow>
          (case redirect_target (env_url E) parsed response redirects (max_redirects C) of
             None \<Rightarrow> (Inr response, s)
           | Some next_url \<Rightarrow>
               (case fetch_http1_once E C request next_url None s of
                  (Inl e, s) \<Rightarrow> (Inl e, s)
                | (Inr (_, next_response), s) \<Rightarrow>
                    h2_redirect_loop E C request next_url (redirects + 1) next_response s)))"
  by auto
termination
  by (relation "measure (\<lambda>(E, C, request, url, redirects, response, s). max_redirects C - redirects)")
     (auto dest!: redirect_target_limit)

declare h2_redirect_loop.simps [simp del]

definition follow_h2_redirects ::
    "('u, 'o, 's, 'w) net_env \<Rightarrow> 'o basic_client \<Rightarrow> http_request \<Rightarrow> http_response
       \<Rightarrow> ('w net_state, net_error, http_response) sm" where
  "follow_h2_redirects E C request response = h2_redirect_loop E C request (req_url request) 0 response"

section \<open>The parallel fetch\<close>

record h2_request =
  h2_path :: string
  h2_query :: "string option"
  h2_extra_headers :: headers

definition same_https_host :: "('u, 'o) url_ops \<Rightarrow> 'u list \<Rightarrow> (string \<times> u16) option" where
  "same_https_host U urls =
     (case urls of
        [] \<Rightarrow> None
      | u # rest \<Rightarrow>
          if url_scheme U u \<noteq> ''https'' then None
          else (case url_host_str U u of
            None \<Rightarrow> None
          | Some host \<Rightarrow>
              (let port_of = (\<lambda>u. case url_port U u of Some p \<Rightarrow> p | None \<Rightarrow> 443); port = port_of u
               in if list_ex (\<lambda>p. url_scheme U p \<noteq> ''https'' \<or> url_host_str U p \<noteq> Some host \<or> port_of p \<noteq> port) rest
                  then None else Some (host, port))))"

definition request_origin_permits_urls :: "('u, 'o) url_ops \<Rightarrow> 'o basic_client \<Rightarrow> 'u list \<Rightarrow> bool" where
  "request_origin_permits_urls U C urls =
     (case request_origin C of None \<Rightarrow> True | Some origin \<Rightarrow> list_all (\<lambda>u. origin = url_origin U u) urls)"

text \<open>\<open>collect\<close> into an option and into a result.\<close>

fun collect_ok :: "('a \<Rightarrow> 'e + 'b) \<Rightarrow> 'a list \<Rightarrow> 'b list option" where
  "collect_ok f [] = Some []"
| "collect_ok f (x # xs) =
     (case f x of Inl _ \<Rightarrow> None | Inr y \<Rightarrow> map_option ((#) y) (collect_ok f xs))"

definition h2_request_of ::
    "('u, 'o, 's, 'w) net_env \<Rightarrow> 'o basic_client \<Rightarrow> 'w net_state \<Rightarrow> http_request \<Rightarrow> 'u request_target \<Rightarrow> h2_request" where
  "h2_request_of E C s request target =
     (let U = env_url E; parsed = rt_parsed target;
          cookie = request_cookie_header U (env_psl E) C request target None
            (now_unix (env_transport E) (ns_world s)) (ns_jar s)
      in \<lparr>h2_path = url_path U parsed, h2_query = url_query U parsed,
          h2_extra_headers = req_headers request @ (case cookie of Some c \<Rightarrow> [(''Cookie'', c)] | None \<Rightarrow> [])\<rparr>)"

text \<open>One response of the batch: decoded, its cookies stored, its redirects followed.\<close>

definition h2_response ::
    "('u, 'o, 's, 'w) net_env \<Rightarrow> 'o basic_client \<Rightarrow> (http_response \<times> http_request) \<times> 'u request_target
       \<Rightarrow> ('w net_state, net_error, http_response) sm" where
  "h2_response E C = (\<lambda>((answer, request), target).
     sm_bind (sm_read (\<lambda>_. decode_response (env_decoders E) answer)) (\<lambda>response.
       sm_then (sm_do (\<lambda>s. s\<lparr>ns_jar := store_response_cookies (env_url E) (env_psl E) C response target
                  (now_unix (env_transport E) (ns_world s)) (ns_jar s)\<rparr>))
         (if is_redirect_status (rsp_status response) then follow_h2_redirects E C request response
          else sm_return response)))"

text \<open>\<open>fetch_h2_parallel\<close> is the parameter \<open>h2\<close>.\<close>

definition fetch_parallel ::
    "(string \<Rightarrow> u16 \<Rightarrow> h2_request list \<Rightarrow> 'w \<Rightarrow> (string + http_response list) \<times> 'w)
       \<Rightarrow> ('u, 'o, 's, 'w) net_env \<Rightarrow> 'o basic_client \<Rightarrow> http_request list \<Rightarrow> 'w net_state
       \<Rightarrow> (net_error + http_response) list \<times> 'w net_state" where
  "fetch_parallel h2 E C requests s =
     (if requests = [] then ([], s)
      else
        (let U = env_url E;
             sequential = map_st (fetch E C) requests;
             parsed_urls = collect_ok (\<lambda>r. url_parse U (req_url r)) requests;
             h2_targets = Option.bind parsed_urls (collect_ok (target_from_parsed U))
         in case (parsed_urls, h2_targets) of
              (Some urls, Some targets) \<Rightarrow>
                (if \<not> request_origin_permits_urls U C urls then sequential s
                 else (case same_https_host U urls of
                   None \<Rightarrow> sequential s
                 | Some (host, port) \<Rightarrow>
                     (let reqs = map (\<lambda>(r, t). h2_request_of E C s r t) (zip requests targets)
                      in case h2 host port reqs (ns_world s) of
                           (Inr responses, w) \<Rightarrow>
                             map_st (h2_response E C) (zip (zip responses requests) targets) (s\<lparr>ns_world := w\<rparr>)
                         | (Inl _, w) \<Rightarrow> sequential (s\<lparr>ns_world := w\<rparr>))))
            | _ \<Rightarrow> sequential s))"

end
