(* ===== verification/Shell_Navigation.thy ===== *)
theory Shell_Navigation
  imports Shell_Address Net_Http
begin

text \<open>
  Navigation of the browser shell: the requests the bar, the buttons, links and forms start, the worker
  thread that loads each, what the shell does with its answer, and the session history
  (\<open>crates/silksurf-app/src/input.rs\<close>, \<open>runtime_repaint.rs\<close>, \<open>window_frame.rs\<close>). Loading and building a page and
  running its scripts are arguments; so is the url crate.
\<close>

section \<open>Requests\<close>

record browser_navigation_request =
  nr_method :: http_method
  nr_url :: string
  nr_headers :: "(string \<times> string) list"
  nr_body :: "u8 list"
  nr_initiator_site :: "string option"

definition request_get :: "string \<Rightarrow> browser_navigation_request" where
  "request_get url = \<lparr>nr_method = HttpGet, nr_url = url, nr_headers = [], nr_body = [],
     nr_initiator_site = None\<rparr>"

definition post_form :: "string \<Rightarrow> u8 list \<Rightarrow> browser_navigation_request" where
  "post_form url body = \<lparr>nr_method = HttpPost, nr_url = url,
     nr_headers = [(''Content-Type'', ''application/x-www-form-urlencoded'')], nr_body = body,
     nr_initiator_site = None\<rparr>"

definition initiated_by ::
    "('u, 'o) url_ops \<Rightarrow> public_suffix_list \<Rightarrow> string \<Rightarrow> browser_navigation_request \<Rightarrow> browser_navigation_request" where
  "initiated_by U psl url r =
     r\<lparr>nr_initiator_site :=
        (case url_parse U url of Inl _ \<Rightarrow> None
         | Inr u \<Rightarrow> Some (site_of_url psl (url_scheme U u) (url_host_str U u)))\<rparr>"

definition browser_supported_url :: "('u, 'o) url_ops \<Rightarrow> 'u \<Rightarrow> string option" where
  "browser_supported_url U u =
     (if url_scheme U u = ''http'' \<or> url_scheme U u = ''https'' then Some (url_text U u) else None)"

text \<open>A non-empty text holds white space when splitting at white space does not give it back whole.\<close>

definition normalize_address_input :: "('u, 'o) url_ops \<Rightarrow> string \<Rightarrow> string option" where
  "normalize_address_input U input =
     (let trimmed = trim input
      in if trimmed = [] \<or> split_whitespace trimmed \<noteq> [trimmed] then None
         else case url_parse U trimmed of
           Inr u \<Rightarrow> browser_supported_url U u
         | Inl _ \<Rightarrow>
             (case url_parse U (''https://'' @ trimmed) of
                Inl _ \<Rightarrow> None | Inr u \<Rightarrow> browser_supported_url U u))"

definition HOME_URL :: string where "HOME_URL = ''https://example.com''"

section \<open>The window and its worker\<close>

text \<open>An entry scripts ask for with \<open>pushState\<close> or \<open>replaceState\<close>.\<close>

record history_intent =
  intent_url :: string
  intent_replace :: bool

text \<open>
  What the shell calls: \<open>f32\<close> operations, URLs, the public suffix list, the home page of the environment,
  the page builder (with the frame buffers it may reuse), and the page's callbacks, child frames,
  repaint, history intents and storage.
\<close>

record ('f, 'x, 'p, 'u, 'o, 'y) shell_env =
  se_rect :: "'f rect_ops"
  se_url :: "('u, 'o) url_ops"
  se_psl :: public_suffix_list
  se_home :: "string option"
  se_build :: "'y \<Rightarrow> u8 list \<times> u32 list \<Rightarrow> (u32 \<times> u32) option
                 \<Rightarrow> (string \<times> u8 list \<times> u32 list) + ('x browser_frame \<times> 'p page_runtime)"
  se_callbacks :: "'p page_runtime \<Rightarrow> 'x browser_frame
                 \<Rightarrow> (string + 'f redraw_mode option) \<times> 'p page_runtime \<times> 'x browser_frame"
  se_children :: "'p page_runtime \<Rightarrow> 'x browser_frame \<Rightarrow> bool \<times> 'p page_runtime \<times> 'x browser_frame"
  se_repaint :: "'p page_runtime \<Rightarrow> 'x browser_frame \<Rightarrow> 'f redraw_mode \<times> 'p page_runtime \<times> 'x browser_frame"
  se_intents :: "'p page_runtime \<Rightarrow> history_intent list \<times> 'p page_runtime"
  se_storage :: "string \<Rightarrow> 'p page_runtime \<Rightarrow> 'p page_runtime"

text \<open>The receiver of a worker's channel: what the worker was started with and its answer, once sent.\<close>

record 'y navigation_channel =
  ch_generation :: u64
  ch_request :: browser_navigation_request
  ch_message :: "(string + 'y) option"

record ('f, 'x, 'p, 'y) shell =
  sh_state :: "('f, 'x, 'p) browser_state"
  navigation_rx :: "'y navigation_channel option"

definition start_navigation_worker ::
    "('f, 'x, 'p, 'u, 'o, 'y) shell_env \<Rightarrow> browser_navigation_request \<Rightarrow> pending_history_action
       \<Rightarrow> ('f, 'x, 'p, 'y) shell \<Rightarrow> bool \<times> ('f, 'x, 'p, 'y) shell" where
  "start_navigation_worker E request action w =
     (if navigation_pending (sh_state w) then (False, w)
      else
        (let s = sh_state w;
             generation = saturating_add (navigation_generation s) 1;
             s = s\<lparr>navigation_generation := generation, navigation_pending := True,
                   pending_history := Some action\<rparr>
         in (True, \<lparr>sh_state = mark_navigation_loading (se_rect E) s,
                    navigation_rx = Some \<lparr>ch_generation = generation, ch_request = request,
                                          ch_message = None\<rparr>\<rparr>)))"

definition shell_stop_navigation ::
    "('f, 'x, 'p, 'u, 'o, 'y) shell_env \<Rightarrow> ('f, 'x, 'p) browser_state \<Rightarrow> bool \<times> ('f, 'x, 'p) browser_state" where
  "shell_stop_navigation E s =
     (if \<not> navigation_pending s then (False, s)
      else
        (let s = s\<lparr>navigation_generation := saturating_add (navigation_generation s) 1,
                   navigation_pending := False, pending_history := None\<rparr>
         in (True, mark_redraw (se_rect E) Chrome (set_browser_status (se_rect E) ''ready'' s))))"

section \<open>Starting a navigation\<close>

definition leave_address_bar :: "('f, 'x, 'p) browser_state \<Rightarrow> ('f, 'x, 'p) browser_state" where
  "leave_address_bar s = s\<lparr>address_editing := False, address_select_all := False\<rparr>"

definition prepare_address_navigation ::
    "('f, 'x, 'p, 'u, 'o, 'y) shell_env \<Rightarrow> bool \<Rightarrow> ('f, 'x, 'p) browser_state
       \<Rightarrow> bool \<times> ('f, 'x, 'p) browser_state" where
  "prepare_address_navigation E page_initiated s =
     (if navigation_pending s \<and> page_initiated then (False, s)
      else (True, snd (shell_stop_navigation E s)))"

definition with_initiator ::
    "('f, 'x, 'p, 'u, 'o, 'y) shell_env \<Rightarrow> string option \<Rightarrow> browser_navigation_request \<Rightarrow> browser_navigation_request" where
  "with_initiator E initiator r =
     (case initiator of None \<Rightarrow> r | Some i \<Rightarrow> initiated_by (se_url E) (se_psl E) i r)"

definition navigate_address_target ::
    "('f, 'x, 'p, 'u, 'o, 'y) shell_env \<Rightarrow> string \<Rightarrow> string option \<Rightarrow> ('f, 'x, 'p, 'y) shell
       \<Rightarrow> bool \<times> ('f, 'x, 'p, 'y) shell" where
  "navigate_address_target E target_url initiator w =
     (case prepare_address_navigation E (initiator \<noteq> None) (sh_state w) of
        (False, s) \<Rightarrow> (False, w\<lparr>sh_state := s\<rparr>)
      | (True, s) \<Rightarrow>
          start_navigation_worker E (with_initiator E initiator (request_get target_url)) Push
            (w\<lparr>sh_state := (clear_page_input_focus (leave_address_bar s))\<lparr>address_text := target_url\<rparr>\<rparr>))"

definition navigate_form_request ::
    "('f, 'x, 'p, 'u, 'o, 'y) shell_env \<Rightarrow> browser_navigation_request \<Rightarrow> string option \<Rightarrow> ('f, 'x, 'p, 'y) shell
       \<Rightarrow> bool \<times> ('f, 'x, 'p, 'y) shell" where
  "navigate_form_request E request initiator w =
     (if navigation_pending (sh_state w) then (False, w)
      else
        (let s = clear_page_input_focus (leave_address_bar (sh_state w))
         in start_navigation_worker E (with_initiator E initiator request) Push
              (w\<lparr>sh_state := s\<lparr>address_text := nr_url request\<rparr>\<rparr>)))"

text \<open>A click on a link, after hit testing found its target.\<close>

definition follow_hit_link ::
    "('f, 'x, 'p, 'u, 'o, 'y) shell_env \<Rightarrow> string option \<Rightarrow> ('f, 'x, 'p, 'y) shell
       \<Rightarrow> bool \<times> ('f, 'x, 'p, 'y) shell" where
  "follow_hit_link E href w =
     (let w = w\<lparr>sh_state := clear_page_input_focus (sh_state w)\<rparr>
      in case href of None \<Rightarrow> (False, w)
         | Some href \<Rightarrow>
             if navigation_pending (sh_state w) then (False, w)
             else start_navigation_worker E
                    (with_initiator E (Some (frame_url (frame (sh_state w)))) (request_get href)) Push w)"

definition submit_address_input ::
    "('f, 'x, 'p, 'u, 'o, 'y) shell_env \<Rightarrow> ('f, 'x, 'p, 'y) shell \<Rightarrow> bool \<times> ('f, 'x, 'p, 'y) shell" where
  "submit_address_input E w =
     (let s = sh_state w
      in case (if address_editing s then normalize_address_input (se_url E) (address_text s) else None) of
           Some target_url \<Rightarrow> navigate_address_target E target_url None w
         | None \<Rightarrow>
             if address_editing s
             then (True, w\<lparr>sh_state := mark_redraw (se_rect E) Chrome
                                         (set_browser_status (se_rect E) ''error'' s)\<rparr>)
             else (False, w))"

section \<open>Session history\<close>

definition history_back_target :: "('f, 'x, 'p) browser_state \<Rightarrow> (nat \<times> string) option" where
  "history_back_target s =
     (if history_index s = 0 then None
      else map_option (Pair (history_index s - 1)) (get_opt (history s) (history_index s - 1)))"

definition history_forward_target :: "('f, 'x, 'p) browser_state \<Rightarrow> (nat \<times> string) option" where
  "history_forward_target s =
     map_option (Pair (history_index s + 1)) (get_opt (history s) (history_index s + 1))"

definition apply_history_success :: "string \<Rightarrow> ('f, 'x, 'p) browser_state \<Rightarrow> ('f, 'x, 'p) browser_state" where
  "apply_history_success loaded_url s =
     (let action = pending_history s; s = s\<lparr>pending_history := None\<rparr>
      in case action of
           Some Push \<Rightarrow>
             (let kept = take (history_index s + 1) (history s);
                  h = (if last_opt kept = Some loaded_url then kept else kept @ [loaded_url])
              in s\<lparr>history := h, history_index := length h - 1\<rparr>)
         | Some (MoveTo i) \<Rightarrow>
             (if history s = [] then s\<lparr>history := [loaded_url], history_index := 0\<rparr>
              else if i < length (history s) then s\<lparr>history_index := i\<rparr>
              else s)
         | None \<Rightarrow> s)"

definition navigate_history_target ::
    "('f, 'x, 'p, 'u, 'o, 'y) shell_env \<Rightarrow> (nat \<times> string) option \<Rightarrow> ('f, 'x, 'p, 'y) shell
       \<Rightarrow> bool \<times> ('f, 'x, 'p, 'y) shell" where
  "navigate_history_target E dest w =
     (case dest of None \<Rightarrow> (False, w)
      | Some (i, url) \<Rightarrow>
          start_navigation_worker E (request_get url) (MoveTo i)
            (w\<lparr>sh_state := clear_page_input_focus (sh_state w)\<rparr>))"

definition navigate_history_back where
  "navigate_history_back E w = navigate_history_target E (history_back_target (sh_state w)) w"

definition navigate_history_forward where
  "navigate_history_forward E w = navigate_history_target E (history_forward_target (sh_state w)) w"

definition reload_current_page where
  "reload_current_page E w =
     start_navigation_worker E (request_get (frame_url (frame (sh_state w))))
       (MoveTo (history_index (sh_state w))) (w\<lparr>sh_state := clear_page_input_focus (sh_state w)\<rparr>)"

definition browser_home_url :: "('f, 'x, 'p, 'u, 'o, 'y) shell_env \<Rightarrow> string" where
  "browser_home_url E =
     (case Option.bind (se_home E) (normalize_address_input (se_url E)) of Some u \<Rightarrow> u | None \<Rightarrow> HOME_URL)"

fun chrome_action_enabled :: "('f, 'x, 'p) browser_state \<Rightarrow> chrome_action \<Rightarrow> bool" where
  "chrome_action_enabled s Back = (\<not> navigation_pending s \<and> history_back_target s \<noteq> None)"
| "chrome_action_enabled s Forward = (\<not> navigation_pending s \<and> history_forward_target s \<noteq> None)"
| "chrome_action_enabled s Home = (\<not> navigation_pending s)"
| "chrome_action_enabled s Reload = (\<not> navigation_pending s)"
| "chrome_action_enabled s chrome_action.Stop = navigation_pending s"

definition start_target ::
    "('f, 'x, 'p, 'u, 'o, 'y) shell_env \<Rightarrow> (nat \<times> string) option \<Rightarrow> ('f, 'x, 'p, 'y) shell
       \<Rightarrow> bool \<times> ('f, 'x, 'p, 'y) shell" where
  "start_target E dest w =
     (case dest of None \<Rightarrow> (False, w)
      | Some (i, url) \<Rightarrow> start_navigation_worker E (request_get url) (MoveTo i) w)"

definition handle_chrome_action ::
    "('f, 'x, 'p, 'u, 'o, 'y) shell_env \<Rightarrow> chrome_action \<Rightarrow> ('f, 'x, 'p, 'y) shell
       \<Rightarrow> bool \<times> ('f, 'x, 'p, 'y) shell" where
  "handle_chrome_action E action w =
     (if \<not> chrome_action_enabled (sh_state w) action then (False, w)
      else
        (let s = leave_address_bar (sh_state w); w = w\<lparr>sh_state := s\<rparr>
         in case action of
              Back \<Rightarrow> start_target E (history_back_target s) w
            | Forward \<Rightarrow> start_target E (history_forward_target s) w
            | Home \<Rightarrow> start_navigation_worker E (request_get (browser_home_url E)) Push w
            | Reload \<Rightarrow> start_navigation_worker E (request_get (frame_url (frame s))) (MoveTo (history_index s)) w
            | chrome_action.Stop \<Rightarrow> (case shell_stop_navigation E s of (b, s) \<Rightarrow> (b, w\<lparr>sh_state := s\<rparr>))))"

definition handle_chrome_click where
  "handle_chrome_click E action w =
     handle_chrome_action E action (w\<lparr>sh_state := clear_page_input_focus (sh_state w)\<rparr>)"

section \<open>Keys of the address bar\<close>

definition mark_address_edit_redraw ::
    "('f, 'x, 'p, 'u, 'o, 'y) shell_env \<Rightarrow> bool \<Rightarrow> ('f, 'x, 'p) browser_state \<Rightarrow> ('f, 'x, 'p) browser_state" where
  "mark_address_edit_redraw E full_address_damage s =
     mark_redraw (se_rect E) (if full_address_damage then AddressFullTextChrome else AddressTextChrome) s"

definition address_focus_redraw_mode :: "('f, 'x, 'p) browser_state \<Rightarrow> 'f redraw_mode" where
  "address_focus_redraw_mode s =
     (if \<not> address_editing s \<or> address_text s = frame_url (frame s) then AddressFocusChrome else AddressChrome)"

definition focus_address_input ::
    "('f, 'x, 'p, 'u, 'o, 'y) shell_env \<Rightarrow> ('f, 'x, 'p) browser_state \<Rightarrow> bool \<times> ('f, 'x, 'p) browser_state" where
  "focus_address_input E s =
     (let s = clear_page_input_focus s;
          mode = address_focus_redraw_mode s
      in case focus_address_bar s of (changed, s) \<Rightarrow>
           (changed, if changed then mark_redraw (se_rect E) mode s else s))"

definition blur_address_input ::
    "('f, 'x, 'p, 'u, 'o, 'y) shell_env \<Rightarrow> ('f, 'x, 'p) browser_state \<Rightarrow> bool \<times> ('f, 'x, 'p) browser_state" where
  "blur_address_input E s =
     (if \<not> address_editing s then (False, s)
      else (True, mark_redraw (se_rect E) AddressChrome (leave_address_bar s)))"

text \<open>
  A key the bar consumes; the first component is whether it did. A typed character, a backspace or a
  paste the bar refuses goes on to the page or to the history.
\<close>

fun handle_address_edit ::
    "('f, 'x, 'p, 'u, 'o, 'y) shell_env \<Rightarrow> edit \<Rightarrow> ('f, 'x, 'p) browser_state
       \<Rightarrow> (bool \<times> ('f, 'x, 'p) browser_state) option" where
  "handle_address_edit E (TypeChar cp) s =
     map_option (\<lambda>(b, t). (b, if b then mark_address_edit_redraw E (address_select_all s) t else t))
       (push_address_char cp s)"
| "handle_address_edit E Erase s =
     map_option (\<lambda>(b, t). (b, if b then mark_address_edit_redraw E True t else t))
       (edit_address_backspace s)"
| "handle_address_edit E (Paste text) s =
     map_option (\<lambda>(b, t). (b, if b then mark_address_edit_redraw E (address_select_all s) t else t))
       (paste_address_text text s)"
| "handle_address_edit E Cut s =
     (case cut_address_text s of (b, t) \<Rightarrow>
        Some (b, if b then mark_address_edit_redraw E True t else t))"
| "handle_address_edit E (Caret m) s =
     (case move_address_caret m s of (b, t) \<Rightarrow>
        Some (b, if b then mark_redraw (se_rect E) AddressFullTextChrome t else t))"

section \<open>The answer of a worker\<close>

type_synonym frame_buffers = "u8 list \<times> u32 list"

definition take_browser_frame_buffers ::
    "('f, 'x, 'p) browser_state \<Rightarrow> frame_buffers \<times> ('f, 'x, 'p) browser_state" where
  "take_browser_frame_buffers s =
     (((case runtime s of None \<Rightarrow> [] | Some r \<Rightarrow> page_rgba r), frame_argb (frame s)),
      s\<lparr>runtime := map_option (\<lambda>r. r\<lparr>page_rgba := []\<rparr>) (runtime s),
        frame := (frame s)\<lparr>frame_argb := []\<rparr>\<rparr>)"

definition restore_browser_frame_buffers ::
    "frame_buffers \<Rightarrow> ('f, 'x, 'p) browser_state \<Rightarrow> ('f, 'x, 'p) browser_state" where
  "restore_browser_frame_buffers b s =
     s\<lparr>frame := (frame s)\<lparr>frame_argb := snd b\<rparr>,
       runtime := map_option (\<lambda>r. r\<lparr>page_rgba := fst b\<rparr>) (runtime s)\<rparr>"

definition is_control :: "nat \<Rightarrow> bool" where
  "is_control cp \<longleftrightarrow> cp < 32 \<or> (127 \<le> cp \<and> cp < 160)"

definition mark_navigation_error ::
    "('f, 'x, 'p, 'u, 'o, 'y) shell_env \<Rightarrow> string \<Rightarrow> ('f, 'x, 'p) browser_state \<Rightarrow> ('f, 'x, 'p) browser_state" where
  "mark_navigation_error E message s =
     (let s = s\<lparr>pending_history := None\<rparr>;
          shown = concat (map utf8_encode (take 240 (filter (\<lambda>c. \<not> is_control c) (str_chars message))));
          s = set_browser_status (se_rect E) (''Load failed: '' @ shown) s
      in mark_redraw (se_rect E) (if runtime s \<noteq> None then Chrome else Full) s)"

definition apply_navigation_payload ::
    "('f, 'x, 'p, 'u, 'o, 'y) shell_env \<Rightarrow> 'y \<Rightarrow> u32 \<times> u32 \<Rightarrow> ('f, 'x, 'p) browser_state
       \<Rightarrow> ('f, 'x, 'p) browser_state" where
  "apply_navigation_payload E payload live s =
     (case take_browser_frame_buffers s of (buffers, s) \<Rightarrow>
        (case se_build E payload buffers (if 0 < fst live \<and> 0 < snd live then Some live else None) of
           Inr (fr, page) \<Rightarrow>
             (let s = apply_history_success (frame_url fr) s;
                  s = s\<lparr>frame := fr, runtime := Some page, address_text := frame_url fr\<rparr>;
                  s = set_browser_status (se_rect E) ''ready'' (clear_page_input_focus (leave_address_bar s))
              in mark_redraw (se_rect E) Full s)
         | Inl (message, buffers) \<Rightarrow>
             mark_navigation_error E message (restore_browser_frame_buffers buffers s)))"

definition apply_navigation_result ::
    "('f, 'x, 'p, 'u, 'o, 'y) shell_env \<Rightarrow> u64 \<times> (string + 'y) \<Rightarrow> u32 \<times> u32 \<Rightarrow> ('f, 'x, 'p) browser_state
       \<Rightarrow> bool \<times> ('f, 'x, 'p) browser_state" where
  "apply_navigation_result E result live s =
     (if fst result \<noteq> navigation_generation s then (False, s)
      else
        (let s = s\<lparr>navigation_pending := False\<rparr>
         in (True, case snd result of
                     Inr payload \<Rightarrow> apply_navigation_payload E payload live s
                   | Inl message \<Rightarrow> mark_navigation_error E message s)))"

section \<open>Entries scripts add\<close>

definition resolve_intent :: "('f, 'x, 'p, 'u, 'o, 'y) shell_env \<Rightarrow> string \<Rightarrow> string \<Rightarrow> string" where
  "resolve_intent E base url =
     (case url_parse (se_url E) base of Inl _ \<Rightarrow> url
      | Inr b \<Rightarrow> (case url_join (se_url E) b url of Inl _ \<Rightarrow> url | Inr u \<Rightarrow> url_text (se_url E) u))"

definition apply_intent ::
    "('f, 'x, 'p, 'u, 'o, 'y) shell_env \<Rightarrow> history_intent \<Rightarrow> ('f, 'x, 'p) browser_state
       \<Rightarrow> ('f, 'x, 'p) browser_state" where
  "apply_intent E i s =
     (let resolved = resolve_intent E (frame_url (frame s)) (intent_url i);
          s = (if intent_replace i
               then (if history_index s < length (history s)
                     then s\<lparr>history := (history s)[history_index s := resolved]\<rparr> else s)
               else (let h = take (history_index s + 1) (history s) @ [resolved]
                     in s\<lparr>history := h, history_index := length h - 1\<rparr>))
      in s\<lparr>frame := (frame s)\<lparr>frame_url := resolved\<rparr>, address_text := resolved\<rparr>)"

definition tick_browser_runtime ::
    "('f, 'x, 'p, 'u, 'o, 'y) shell_env \<Rightarrow> ('f, 'x, 'p) browser_state \<Rightarrow> bool \<times> ('f, 'x, 'p) browser_state" where
  "tick_browser_runtime E s =
     (case runtime s of None \<Rightarrow> (False, s)
      | Some page \<Rightarrow>
         (let s = s\<lparr>runtime := None\<rparr>;
              repaint_if = (\<lambda>changed page fr. if changed
                 then (case se_repaint E page fr of (m, page, fr) \<Rightarrow> (Some m, page, fr))
                 else (None, page, fr))
          in case se_callbacks E page (frame s) of
            (Inl _, page, fr) \<Rightarrow>
              (let s = mark_redraw (se_rect E) Chrome
                         (set_browser_status (se_rect E) ''error'' (s\<lparr>frame := fr\<rparr>))
               in case se_children E page (frame s) of (changed, page, fr) \<Rightarrow>
                 (case repaint_if changed page fr of (mode, page, fr) \<Rightarrow>
                    (let s = s\<lparr>frame := fr, runtime := Some page\<rparr>
                     in (True, case mode of Some m \<Rightarrow> mark_redraw (se_rect E) m s | None \<Rightarrow> s))))
          | (Inr redraw, page, fr) \<Rightarrow>
              (case se_children E page fr of (changed, page, fr) \<Rightarrow>
                 (case repaint_if changed page fr of (child_mode, page, fr) \<Rightarrow>
                    (case se_intents E page of (intents, page) \<Rightarrow>
                       (let s = fold (apply_intent E) intents (s\<lparr>frame := fr\<rparr>);
                            page = se_storage E (frame_url (frame s)) page;
                            s = s\<lparr>runtime := Some page\<rparr>;
                            s = (if intents \<noteq> [] then mark_redraw (se_rect E) AddressChrome s else s)
                        in case (case child_mode of Some m \<Rightarrow> Some m | None \<Rightarrow> redraw) of
                             Some m \<Rightarrow> (True, mark_redraw (se_rect E) m s)
                           | None \<Rightarrow> (intents \<noteq> [], s)))))))"

definition handle_browser_wake ::
    "('f, 'x, 'p, 'u, 'o, 'y) shell_env \<Rightarrow> u32 \<times> u32 \<Rightarrow> ('f, 'x, 'p, 'y) shell
       \<Rightarrow> bool \<times> ('f, 'x, 'p, 'y) shell" where
  "handle_browser_wake E live w =
     (case Option.bind (navigation_rx w)
             (\<lambda>ch. map_option (Pair (ch_generation ch)) (ch_message ch)) of
        Some result \<Rightarrow>
          (case apply_navigation_result E result live (sh_state w) of (b, s) \<Rightarrow>
             (b, \<lparr>sh_state = s, navigation_rx = None\<rparr>))
      | None \<Rightarrow>
          (case tick_browser_runtime E (sh_state w) of (b, s) \<Rightarrow>
             (b \<or> redraw_mode s \<noteq> Clean, w\<lparr>sh_state := s\<rparr>)))"

end
