(* ===== verification/Shell_History.thy ===== *)
theory Shell_History
  imports Shell_Navigation
begin

text \<open>
  What the shell promises of navigation: answers are taken only from the worker of the request that is
  awaited, and the session history is a stack of entries before and after the one shown. The abstract
  machine below knows neither generations nor channels nor an index.
\<close>

section \<open>The shell as steps\<close>

inductive shell_step ::
    "('f, 'x, 'p, 'u, 'o, 'y) shell_env \<Rightarrow> ('f, 'x, 'p, 'y) shell \<Rightarrow> ('f, 'x, 'p, 'y) shell \<Rightarrow> bool"
  for E where
  answer: "navigation_rx w = Some ch \<Longrightarrow> ch_message ch = None
     \<Longrightarrow> shell_step E w (w\<lparr>navigation_rx := Some (ch\<lparr>ch_message := Some r\<rparr>)\<rparr>)"
| wake: "shell_step E w (snd (handle_browser_wake E live w))"
| edit: "handle_address_edit E e (sh_state w) = Some (b, s) \<Longrightarrow> shell_step E w (w\<lparr>sh_state := s\<rparr>)"
| focus: "shell_step E w (w\<lparr>sh_state := snd (focus_address_input E (sh_state w))\<rparr>)"
| blur: "shell_step E w (w\<lparr>sh_state := snd (blur_address_input E (sh_state w))\<rparr>)"
| submit: "shell_step E w (snd (submit_address_input E w))"
| link: "shell_step E w (snd (follow_hit_link E href w))"
| form_get: "shell_step E w (snd (navigate_address_target E url (Some initiator) w))"
| form_post: "shell_step E w (snd (navigate_form_request E (post_form url body) (Some initiator) w))"
| startup: "shell_step E w (snd (start_navigation_worker E (request_get url) Push w))"
| back_key: "shell_step E w (snd (navigate_history_back E w))"
| forward_key: "shell_step E w (snd (navigate_history_forward E w))"
| reload_key: "shell_step E w (snd (reload_current_page E w))"
| button: "shell_step E w (snd (handle_chrome_click E action w))"

definition shell_start :: "'x \<Rightarrow> string \<Rightarrow> ('f, 'x, 'p, 'y) shell" where
  "shell_start rest url = \<lparr>sh_state = initial_browser_state rest url, navigation_rx = None\<rparr>"

section \<open>The abstract machine\<close>

text \<open>The entries before the one shown (nearest first), the one shown, and the entries after it.\<close>

record session =
  ss_back :: "string list"
  ss_here :: "string option"
  ss_ahead :: "string list"

definition ss_entries :: "session \<Rightarrow> string list" where
  "ss_entries h = rev (ss_back h) @ (case ss_here h of None \<Rightarrow> [] | Some u \<Rightarrow> [u]) @ ss_ahead h"

text \<open>The entry at a position is shown.\<close>

definition ss_go :: "nat \<Rightarrow> session \<Rightarrow> session" where
  "ss_go i h =
     (let es = ss_entries h
      in \<lparr>ss_back = rev (take i es), ss_here = Some (es ! i), ss_ahead = drop (Suc i) es\<rparr>)"

text \<open>A new entry after the one shown; what lay ahead is gone.\<close>

definition ss_add :: "string \<Rightarrow> session \<Rightarrow> session" where
  "ss_add u h =
     \<lparr>ss_back = (case ss_here h of None \<Rightarrow> [] | Some v \<Rightarrow> v # ss_back h), ss_here = Some u, ss_ahead = []\<rparr>"

definition ss_visit :: "string \<Rightarrow> session \<Rightarrow> session" where
  "ss_visit u h = (if ss_here h = Some u then h\<lparr>ss_ahead := []\<rparr> else ss_add u h)"

definition ss_rewrite :: "string \<Rightarrow> session \<Rightarrow> session" where
  "ss_rewrite u h = (if ss_here h = None then h else h\<lparr>ss_here := Some u\<rparr>)"

fun ss_commit :: "pending_history_action \<Rightarrow> string \<Rightarrow> session \<Rightarrow> session" where
  "ss_commit Push u h = ss_visit u h"
| "ss_commit (MoveTo i) u h =
     (if ss_here h = None then ss_add u h
      else if i < length (ss_entries h) then ss_go i h else h)"

record 'y nav =
  nv_session :: session
  nv_awaited :: "(pending_history_action \<times> browser_navigation_request \<times> (string + 'y) option) option"

text \<open>What may be asked of the network, and how it then moves in the history.\<close>

inductive nav_request :: "session \<Rightarrow> pending_history_action \<Rightarrow> browser_navigation_request \<Rightarrow> bool" where
  visit: "nav_request h Push r"
| backward: "ss_back h = u # us \<Longrightarrow> ss_here h \<noteq> None \<Longrightarrow> nav_request h (MoveTo (length us)) (request_get u)"
| onward: "ss_ahead h = u # us \<Longrightarrow> ss_here h \<noteq> None
    \<Longrightarrow> nav_request h (MoveTo (Suc (length (ss_back h)))) (request_get u)"
| again: "nav_request h (MoveTo (length (ss_back h))) (request_get u)"

inductive nav_step :: "'y nav \<Rightarrow> 'y nav \<Rightarrow> bool" where
  stay: "nav_step a a"
| ask: "nv_awaited a = None \<Longrightarrow> nav_request (nv_session a) act r
    \<Longrightarrow> nav_step a (a\<lparr>nv_awaited := Some (act, r, None)\<rparr>)"
| supersede: "nav_step a (a\<lparr>nv_awaited := Some (Push, r, None)\<rparr>)"
| abandon: "nav_step a (a\<lparr>nv_awaited := None\<rparr>)"
| answered: "nv_awaited a = Some (act, r, None) \<Longrightarrow> nav_step a (a\<lparr>nv_awaited := Some (act, r, Some m)\<rparr>)"
| failed: "nv_awaited a = Some (act, r, Some m) \<Longrightarrow> nav_step a (a\<lparr>nv_awaited := None\<rparr>)"
| loaded: "nv_awaited a = Some (act, r, Some (Inr payload))
    \<Longrightarrow> nav_step a \<lparr>nv_session = ss_commit act url (nv_session a), nv_awaited = None\<rparr>"
| scripts: "nav_step a
    (a\<lparr>nv_session := fold (\<lambda>(again, u). if again then ss_rewrite u else ss_add u) us (nv_session a)\<rparr>)"

section \<open>From the shell to the abstract machine\<close>

definition session_of :: "('f, 'x, 'p) browser_state \<Rightarrow> session" where
  "session_of s =
     (if history s = [] then \<lparr>ss_back = [], ss_here = None, ss_ahead = []\<rparr>
      else \<lparr>ss_back = rev (take (history_index s) (history s)),
            ss_here = Some (history s ! history_index s),
            ss_ahead = drop (Suc (history_index s)) (history s)\<rparr>)"

definition nav_of :: "('f, 'x, 'p, 'y) shell \<Rightarrow> 'y nav" where
  "nav_of w =
     \<lparr>nv_session = session_of (sh_state w),
      nv_awaited =
        (case (navigation_pending (sh_state w), pending_history (sh_state w), navigation_rx w) of
           (True, Some act, Some ch) \<Rightarrow> Some (act, ch_request ch, ch_message ch)
         | _ \<Rightarrow> None)\<rparr>"

text \<open>What of the state navigation depends on; the rest of each operation leaves it alone.\<close>

definition nav_fields where
  "nav_fields s = (history s, history_index s, pending_history s, navigation_pending s, navigation_generation s)"

definition history_ok :: "('f, 'x, 'p) browser_state \<Rightarrow> bool" where
  "history_ok s \<longleftrightarrow> (if history s = [] then history_index s = 0 else history_index s < length (history s))"

definition shell_inv :: "('f, 'x, 'p, 'y) shell \<Rightarrow> bool" where
  "shell_inv w \<longleftrightarrow>
     history_ok (sh_state w)
     \<and> (if navigation_pending (sh_state w)
        then pending_history (sh_state w) \<noteq> None
             \<and> map_option ch_generation (navigation_rx w) = Some (navigation_generation (sh_state w))
        else pending_history (sh_state w) = None
             \<and> (\<forall>ch. navigation_rx w = Some ch \<longrightarrow> ch_generation ch < navigation_generation (sh_state w)))"

lemma nav_fields_mark [simp]:
  "nav_fields (mark_redraw F m s) = nav_fields s"
  "nav_fields (set_browser_status F t s) = nav_fields s"
  "nav_fields (mark_navigation_loading F s) = nav_fields s"
  "nav_fields (clear_page_input_focus s) = nav_fields s"
  "nav_fields (leave_address_bar s) = nav_fields s"
  by (simp_all add: nav_fields_def mark_redraw_def set_browser_status_def mark_navigation_loading_def
      clear_page_input_focus_def leave_address_bar_def Let_def split: redraw_mode.split)

lemma nav_fields_cong:
  assumes "nav_fields s = nav_fields t"
  shows "session_of s = session_of t" "history_ok s = history_ok t"
    "nav_of (w\<lparr>sh_state := s\<rparr>) = nav_of (w\<lparr>sh_state := t\<rparr>)"
    "shell_inv (w\<lparr>sh_state := s\<rparr>) = shell_inv (w\<lparr>sh_state := t\<rparr>)"
    "navigation_generation s = navigation_generation t"
  using assms
  by (simp_all add: nav_fields_def session_of_def history_ok_def nav_of_def shell_inv_def)

lemma entries_session: "history_ok s \<Longrightarrow> ss_entries (session_of s) = history s"
  by (auto simp: history_ok_def session_of_def ss_entries_def id_take_nth_drop [symmetric] split: if_splits)

lemma session_here: "history_ok s \<Longrightarrow> ss_here (session_of s) = None \<longleftrightarrow> history s = []"
  by (simp add: session_of_def)

lemma length_session_back: "history_ok s \<Longrightarrow> length (ss_back (session_of s)) = history_index s"
  by (auto simp: history_ok_def session_of_def split: if_splits)

section \<open>Moves of the history\<close>

lemma session_add:
  assumes "history_ok s"
  shows "session_of (s\<lparr>history := take (history_index s + 1) (history s) @ [u],
           history_index := length (take (history_index s + 1) (history s))\<rparr>) = ss_add u (session_of s)"
proof (cases "history s = []")
  case False
  then have i: "history_index s < length (history s)" using assms by (simp add: history_ok_def)
  then show ?thesis
    using False by (simp add: session_of_def ss_add_def take_Suc_conv_app_nth min_def nth_append)
qed (use assms in \<open>simp add: session_of_def ss_add_def history_ok_def\<close>)

lemma session_success:
  assumes ok: "history_ok s" and act: "pending_history s = Some act"
  shows "session_of (apply_history_success url s) = ss_commit act url (session_of s)
    \<and> history_ok (apply_history_success url s)"
proof (cases act)
  case Push
  let ?kept = "take (history_index s + 1) (history s)"
  have last: "last_opt ?kept = Some url \<longleftrightarrow> ss_here (session_of s) = Some url"
    using ok by (auto simp: history_ok_def session_of_def last_opt_def take_Suc_conv_app_nth split: if_splits)
  show ?thesis
  proof (cases "last_opt ?kept = Some url")
    case True
    then have "history s \<noteq> []" "history_index s < length (history s)" using ok
      by (auto simp: history_ok_def last_opt_def split: if_splits)
    then show ?thesis
      using Push True act last
      by (cases "length (history s) = Suc (history_index s)")
        (auto simp: apply_history_success_def session_of_def ss_visit_def history_ok_def min_def Let_def)
  next
    case False
    have "session_of (apply_history_success url s) = ss_add url (session_of s)"
      using session_add [OF ok, of url] False Push act
      by (simp add: apply_history_success_def session_of_def Let_def)
    then show ?thesis
      using Push False act last
      by (simp add: apply_history_success_def ss_visit_def history_ok_def Let_def)
  qed
next
  case (MoveTo i)
  then show ?thesis
    using ok act entries_session [OF ok] session_here [OF ok]
    by (auto simp: apply_history_success_def session_of_def ss_go_def ss_add_def history_ok_def Let_def
        split: if_splits)
qed

lemma apply_success_fields:
  "pending_history (apply_history_success url s) = None
   \<and> navigation_pending (apply_history_success url s) = navigation_pending s
   \<and> navigation_generation (apply_history_success url s) = navigation_generation s"
  by (auto simp: apply_history_success_def Let_def split: option.split pending_history_action.split)

lemma session_intent:
  assumes ok: "history_ok s"
  shows "\<exists>u. session_of (apply_intent E i s)
      = (if intent_replace i then ss_rewrite u else ss_add u) (session_of s)
    \<and> history_ok (apply_intent E i s)
    \<and> pending_history (apply_intent E i s) = pending_history s
    \<and> navigation_pending (apply_intent E i s) = navigation_pending s
    \<and> navigation_generation (apply_intent E i s) = navigation_generation s"
proof -
  let ?u = "resolve_intent E (frame_url (frame s)) (intent_url i)"
  have "session_of (apply_intent E i s)
      = (if intent_replace i then ss_rewrite ?u else ss_add ?u) (session_of s)"
  proof (cases "intent_replace i")
    case True
    then show ?thesis
      using ok by (cases "history s = []")
        (auto simp: apply_intent_def session_of_def ss_rewrite_def history_ok_def Let_def)
  next
    case False
    then show ?thesis
      using session_add [OF ok, of ?u] by (simp add: apply_intent_def session_of_def Let_def)
  qed
  moreover have "history_ok (apply_intent E i s)"
    using ok by (cases "history s = []") (auto simp: apply_intent_def history_ok_def Let_def)
  ultimately show ?thesis
    by (intro exI [of _ ?u]) (simp add: apply_intent_def Let_def)
qed

lemma session_intents:
  assumes "history_ok s"
  shows "\<exists>us. session_of (fold (apply_intent E) intents s)
      = fold (\<lambda>(again, u). if again then ss_rewrite u else ss_add u) us (session_of s)
    \<and> history_ok (fold (apply_intent E) intents s)
    \<and> pending_history (fold (apply_intent E) intents s) = pending_history s
    \<and> navigation_pending (fold (apply_intent E) intents s) = navigation_pending s
    \<and> navigation_generation (fold (apply_intent E) intents s) = navigation_generation s"
  using assms
proof (induction intents arbitrary: s)
  case Nil
  then show ?case by (intro exI [of _ "[]"]) simp
next
  case (Cons i js)
  obtain u where u: "session_of (apply_intent E i s)
      = (if intent_replace i then ss_rewrite u else ss_add u) (session_of s)"
    and kept: "history_ok (apply_intent E i s)"
      "pending_history (apply_intent E i s) = pending_history s"
      "navigation_pending (apply_intent E i s) = navigation_pending s"
      "navigation_generation (apply_intent E i s) = navigation_generation s"
    using session_intent [OF Cons.prems] by blast
  from Cons.IH [OF kept(1)] obtain us where
    "session_of (fold (apply_intent E) js (apply_intent E i s))
      = fold (\<lambda>(again, u). if again then ss_rewrite u else ss_add u) us (session_of (apply_intent E i s))"
    "history_ok (fold (apply_intent E) js (apply_intent E i s))"
    "pending_history (fold (apply_intent E) js (apply_intent E i s)) = pending_history (apply_intent E i s)"
    "navigation_pending (fold (apply_intent E) js (apply_intent E i s))
       = navigation_pending (apply_intent E i s)"
    "navigation_generation (fold (apply_intent E) js (apply_intent E i s))
       = navigation_generation (apply_intent E i s)"
    by blast
  then show ?case
    using u kept by (intro exI [of _ "(intent_replace i, u) # us"]) simp
qed

section \<open>Each operation is a move of the machine\<close>

definition moves :: "('f, 'x, 'p, 'y) shell \<Rightarrow> ('f, 'x, 'p, 'y) shell \<Rightarrow> bool" where
  "moves w w' \<longleftrightarrow> nav_step (nav_of w) (nav_of w') \<and> shell_inv w'"

text \<open>What leaves the fields of navigation alone stays.\<close>

lemma moves_same:
  assumes "shell_inv w" "nav_fields s = nav_fields (sh_state w)"
  shows "moves w (w\<lparr>sh_state := s\<rparr>)"
proof -
  have "w\<lparr>sh_state := sh_state w\<rparr> = w" by simp
  then show ?thesis
    using nav_fields_cong(3,4) [OF assms(2), of w] assms(1) nav_step.stay by (simp add: moves_def)
qed

lemma moves_fields:
  assumes "moves w w'" "nav_fields (sh_state v) = nav_fields (sh_state w)" "navigation_rx v = navigation_rx w"
  shows "moves v w'"
proof -
  have "nav_of v = nav_of w"
    using assms(2,3) by (simp add: nav_of_def nav_fields_def session_of_def)
  then show ?thesis using assms(1) by (simp add: moves_def)
qed

lemma moves_target:
  assumes "moves w \<lparr>sh_state = t, navigation_rx = x\<rparr>" "nav_fields s = nav_fields t"
  shows "moves w \<lparr>sh_state = s, navigation_rx = x\<rparr>"
  using assms nav_fields_cong(3,4) [OF assms(2), of "\<lparr>sh_state = t, navigation_rx = x\<rparr>"]
  by (simp add: moves_def)

lemma saturating_next: "saturating_add (g :: u64) 1 < -1 \<Longrightarrow> g < saturating_add g 1"
  using unat_saturating_add [of g 1]
  by (simp add: word_less_nat_alt unsigned_minus_1_eq_mask mask_eq_exp_minus_1 min_def split: if_splits)

lemma start_fields:
  assumes "\<not> navigation_pending (sh_state w)"
  shows "nav_fields (sh_state (snd (start_navigation_worker E r act w)))
      = (history (sh_state w), history_index (sh_state w), Some act, True,
         saturating_add (navigation_generation (sh_state w)) 1)"
    and "navigation_rx (snd (start_navigation_worker E r act w))
      = Some \<lparr>ch_generation = saturating_add (navigation_generation (sh_state w)) 1, ch_request = r,
              ch_message = None\<rparr>"
proof -
  show "nav_fields (sh_state (snd (start_navigation_worker E r act w)))
      = (history (sh_state w), history_index (sh_state w), Some act, True,
         saturating_add (navigation_generation (sh_state w)) 1)"
    using assms nav_fields_mark(3) by (simp add: start_navigation_worker_def Let_def) (simp add: nav_fields_def)
qed (use assms in \<open>simp add: start_navigation_worker_def Let_def\<close>)

text \<open>The machine's view of a shell whose fields of navigation are known.\<close>

lemma nav_of_fields:
  assumes "nav_fields (sh_state w) = (h, i, act, p, g)"
  shows "nav_of w = \<lparr>nv_session = session_of ((sh_state w)\<lparr>history := h, history_index := i\<rparr>),
      nv_awaited = (case (p, act, navigation_rx w) of
        (True, Some act, Some ch) \<Rightarrow> Some (act, ch_request ch, ch_message ch) | _ \<Rightarrow> None)\<rparr>"
    and "shell_inv w \<longleftrightarrow> (if h = [] then i = 0 else i < length h) \<and>
      (if p then act \<noteq> None \<and> map_option ch_generation (navigation_rx w) = Some g
       else act = None \<and> (\<forall>ch. navigation_rx w = Some ch \<longrightarrow> ch_generation ch < g))"
  using assms by (auto simp: nav_fields_def nav_of_def shell_inv_def history_ok_def session_of_def)

lemma started:
  fixes w :: "('f, 'x, 'p, 'y) shell" and E :: "('f, 'x, 'p, 'u, 'o, 'y) shell_env" and r act
  assumes inv: "shell_inv w" and idle: "\<not> navigation_pending (sh_state w)"
  defines "w' \<equiv> snd (start_navigation_worker E r act w)"
  shows "nav_of w' = (nav_of w)\<lparr>nv_awaited := Some (act, r, None)\<rparr>" "shell_inv w'"
proof -
  note f = start_fields [OF idle, of E r act, folded w'_def]
  show "nav_of w' = (nav_of w)\<lparr>nv_awaited := Some (act, r, None)\<rparr>"
    using nav_of_fields(1) [OF f(1)] f(2) by (simp add: nav_of_def session_of_def)
  show "shell_inv w'"
    using nav_of_fields(2) [OF f(1)] f(2) inv by (simp add: shell_inv_def history_ok_def)
qed

lemma idle_awaits_nothing: "\<not> navigation_pending (sh_state w) \<Longrightarrow> nv_awaited (nav_of w) = None"
  by (simp add: nav_of_def)

lemma start_moves:
  assumes inv: "shell_inv w"
    and ask: "\<not> navigation_pending (sh_state w) \<Longrightarrow> nav_request (nv_session (nav_of w)) act r"
  shows "moves w (snd (start_navigation_worker E r act w))"
proof (cases "navigation_pending (sh_state w)")
  case True
  then show ?thesis using inv nav_step.stay by (simp add: start_navigation_worker_def moves_def)
next
  case False
  then show ?thesis
    using started [OF inv False, of E r act] ask nav_step.ask [OF idle_awaits_nothing [OF False], of act r]
    by (simp add: moves_def)
qed

lemma stopped:
  fixes w :: "('f, 'x, 'p, 'y) shell" and E :: "('f, 'x, 'p, 'u, 'o, 'z) shell_env"
  assumes inv: "shell_inv w"
  defines "s \<equiv> snd (shell_stop_navigation E (sh_state w))"
  assumes counts: "navigation_generation s < -1"
  shows "nav_of (w\<lparr>sh_state := s\<rparr>) = (nav_of w)\<lparr>nv_awaited := None\<rparr>" "shell_inv (w\<lparr>sh_state := s\<rparr>)"
    and "\<not> navigation_pending s"
proof -
  show idle: "\<not> navigation_pending s"
  proof (cases "navigation_pending (sh_state w)")
    case True
    then have "nav_fields s = (history (sh_state w), history_index (sh_state w), None, False,
        saturating_add (navigation_generation (sh_state w)) 1)"
      by (simp add: s_def shell_stop_navigation_def Let_def) (simp add: nav_fields_def)
    then show ?thesis by (simp add: nav_fields_def)
  qed (simp add: s_def shell_stop_navigation_def)
  have "nav_of (w\<lparr>sh_state := s\<rparr>) = (nav_of w)\<lparr>nv_awaited := None\<rparr> \<and> shell_inv (w\<lparr>sh_state := s\<rparr>)"
  proof (cases "navigation_pending (sh_state w)")
    case True
    let ?g = "navigation_generation (sh_state w)"
    have f: "nav_fields (sh_state (w\<lparr>sh_state := s\<rparr>))
        = (history (sh_state w), history_index (sh_state w), None, False, saturating_add ?g 1)"
      using True by (simp add: s_def shell_stop_navigation_def Let_def) (simp add: nav_fields_def)
    have "?g < saturating_add ?g 1"
      using f counts saturating_next by (simp add: nav_fields_def)
    then show ?thesis
      using nav_of_fields [OF f] inv True
      by (auto simp: shell_inv_def history_ok_def nav_of_def session_of_def)
  next
    case False
    then have "s = sh_state w" by (simp add: s_def shell_stop_navigation_def)
    then show ?thesis using False inv idle_awaits_nothing [of w] by simp
  qed
  then show "nav_of (w\<lparr>sh_state := s\<rparr>) = (nav_of w)\<lparr>nv_awaited := None\<rparr>" "shell_inv (w\<lparr>sh_state := s\<rparr>)"
    by auto
qed

section \<open>A wake\<close>

lemma error_fields:
  "nav_fields (mark_navigation_error E m s) = nav_fields (s\<lparr>pending_history := None\<rparr>)"
  by (simp add: mark_navigation_error_def Let_def)

lemma buffers_fields:
  "nav_fields (snd (take_browser_frame_buffers s)) = nav_fields s"
  "nav_fields (restore_browser_frame_buffers b s) = nav_fields s"
  by (simp_all add: take_browser_frame_buffers_def restore_browser_frame_buffers_def nav_fields_def)

text \<open>A payload either commits the awaited action under the address of the page or drops it.\<close>

lemma payload_cases:
  fixes s :: "('f, 'x, 'p) browser_state"
  obtains (built) url and t :: "('f, 'x, 'p) browser_state" where
      "nav_fields (apply_navigation_payload E p live s) = nav_fields (apply_history_success url t)"
      "nav_fields t = nav_fields s"
  | (broken) "nav_fields (apply_navigation_payload E p live s) = nav_fields (s\<lparr>pending_history := None\<rparr>)"
proof -
  obtain b t where t: "take_browser_frame_buffers s = (b, t)" by (rule prod.exhaust)
  then have tf: "nav_fields t = nav_fields s" using buffers_fields(1) [of s] by simp
  show ?thesis
  proof (cases "se_build E p b (if 0 < fst live \<and> 0 < snd live then Some live else None)")
    case (Inl err)
    obtain m b' where "err = (m, b')" by (cases err)
    moreover have "nav_fields ((restore_browser_frame_buffers b' t)\<lparr>pending_history := None\<rparr>)
        = nav_fields (s\<lparr>pending_history := None\<rparr>)"
      using tf buffers_fields(2) [of b' t] by (simp add: nav_fields_def)
    ultimately show ?thesis
      using broken t Inl by (simp add: apply_navigation_payload_def error_fields)
  next
    case (Inr page)
    obtain fr r where page: "page = (fr, r)" by (cases page)
    have "nav_fields (u\<lparr>frame := f, runtime := q, address_text := a\<rparr>) = nav_fields u" for u f q a
      by (simp add: nav_fields_def)
    then have "nav_fields (apply_navigation_payload E p live s) = nav_fields (apply_history_success (frame_url fr) t)"
      using t Inr page by (simp add: apply_navigation_payload_def Let_def)
    then show ?thesis using built tf by blast
  qed
qed

text \<open>A message in the channel: it counts exactly when the shell awaits one.\<close>

lemma message_moves:
  assumes inv: "shell_inv w" and rx: "navigation_rx w = Some ch" and m: "ch_message ch = Some r"
  shows "moves w \<lparr>sh_state = snd (apply_navigation_result E (ch_generation ch, r) live (sh_state w)),
                   navigation_rx = None\<rparr>"
proof (cases "navigation_pending (sh_state w)")
  case False
  then have "ch_generation ch \<noteq> navigation_generation (sh_state w)"
    using inv rx by (auto simp: shell_inv_def)
  moreover have "moves w \<lparr>sh_state = sh_state w, navigation_rx = None\<rparr>"
    using inv False nav_step.stay by (auto simp: moves_def shell_inv_def nav_of_def)
  ultimately show ?thesis by (simp add: apply_navigation_result_def)
next
  case True
  let ?s = "(sh_state w)\<lparr>navigation_pending := False\<rparr>"
  have g: "ch_generation ch = navigation_generation (sh_state w)"
    and act: "pending_history (sh_state w) \<noteq> None" and ok: "history_ok (sh_state w)"
    using inv True rx by (auto simp: shell_inv_def)
  then obtain a where a: "pending_history (sh_state w) = Some a" by blast
  have awaited: "nv_awaited (nav_of w) = Some (a, ch_request ch, Some r)"
    using True a rx m by (simp add: nav_of_def)
  have dropped: "moves w \<lparr>sh_state = t, navigation_rx = None\<rparr>"
    if "nav_fields t = nav_fields (?s\<lparr>pending_history := None\<rparr>)" for t
  proof -
    have f: "nav_fields (sh_state \<lparr>sh_state = t, navigation_rx = None\<rparr>)
        = (history (sh_state w), history_index (sh_state w), None, False, navigation_generation (sh_state w))"
      using that by (simp add: nav_fields_def)
    have "nav_of \<lparr>sh_state = t, navigation_rx = None\<rparr> = (nav_of w)\<lparr>nv_awaited := None\<rparr>"
      unfolding nav_of_fields(1) [OF f] by (simp add: nav_of_def session_of_def)
    then show ?thesis
      using nav_of_fields(2) [OF f] nav_step.failed [OF awaited] ok
      by (cases "history (sh_state w) = []") (simp_all add: moves_def history_ok_def)
  qed
  show ?thesis
  proof (cases r)
    case (Inl e)
    then show ?thesis
      using g dropped [OF error_fields] by (simp add: apply_navigation_result_def Let_def)
  next
    case (Inr p)
    have result: "snd (apply_navigation_result E (ch_generation ch, r) live (sh_state w))
        = apply_navigation_payload E p live ?s"
      using g Inr by (simp add: apply_navigation_result_def Let_def)
    show ?thesis
    proof (cases rule: payload_cases [of E p live ?s])
      case broken
      then show ?thesis using dropped result by simp
    next
      case (built url t)
      have t: "history_ok t" "pending_history t = Some a" "session_of t = session_of (sh_state w)"
        "navigation_pending t = False"
        using built(2) ok a by (simp_all add: nav_fields_def history_ok_def session_of_def)
      let ?w = "\<lparr>sh_state = apply_history_success url t, navigation_rx = None\<rparr> :: ('a, 'b, 'c, 'd) shell"
      have "nav_of ?w = \<lparr>nv_session = ss_commit a url (nv_session (nav_of w)), nv_awaited = None\<rparr>"
        using session_success [OF t(1,2), of url] t(3,4) apply_success_fields [of url t] by (simp add: nav_of_def)
      then have "moves w ?w"
        using nav_step.loaded [of "nav_of w" a "ch_request ch" p url] awaited Inr
          session_success [OF t(1,2), of url] apply_success_fields [of url t] t(4)
        by (simp add: moves_def shell_inv_def)
      then show ?thesis
        using moves_target [OF _ built(1)] result by simp
    qed
  qed
qed

text \<open>A tick runs the page's callbacks and adds the entries its scripts asked for.\<close>

lemma tick_fields:
  obtains intents t where
    "nav_fields (snd (tick_browser_runtime E s)) = nav_fields (fold (apply_intent E) intents t)"
    "nav_fields t = nav_fields s"
proof -
  have kept: "nav_fields (u\<lparr>frame := f\<rparr>) = nav_fields u" "nav_fields (u\<lparr>runtime := q\<rparr>) = nav_fields u" for u f q
    by (simp_all add: nav_fields_def)
  have "\<exists>intents t. nav_fields (snd (tick_browser_runtime E s)) = nav_fields (fold (apply_intent E) intents t)
      \<and> nav_fields t = nav_fields s"
  proof (cases "runtime s")
    case None
    then show ?thesis by (intro exI [of _ "[]"] exI [of _ s]) (simp add: tick_browser_runtime_def)
  next
    case (Some page)
    obtain res pg fr where cb: "se_callbacks E page (frame s) = (res, pg, fr)" by (rule prod_cases3)
    show ?thesis
    proof (cases res)
      case (Inl e)
      have "nav_fields (snd (tick_browser_runtime E s)) = nav_fields s"
        using Some cb Inl
        by (simp add: tick_browser_runtime_def Let_def kept split: prod.split option.split)
      then show ?thesis by (intro exI [of _ "[]"] exI [of _ s]) simp
    next
      case (Inr redraw)
      obtain c p1 f1 where ch: "se_children E pg fr = (c, p1, f1)" by (rule prod_cases3)
      obtain m p2 f2 where rp: "se_repaint E p1 f1 = (m, p2, f2)" by (rule prod_cases3)
      obtain intents p3 where it: "se_intents E (if c then p2 else p1) = (intents, p3)" by (rule prod.exhaust)
      have "nav_fields (snd (tick_browser_runtime E s))
          = nav_fields (fold (apply_intent E) intents (s\<lparr>runtime := None, frame := if c then f2 else f1\<rparr>))"
        using Some cb Inr ch rp it
        by (cases c; cases redraw) (simp_all add: tick_browser_runtime_def Let_def kept)
      then show ?thesis by (metis kept)
    qed
  qed
  then show ?thesis using that by blast
qed

lemma tick_moves:
  assumes inv: "shell_inv w"
  shows "moves w (w\<lparr>sh_state := snd (tick_browser_runtime E (sh_state w))\<rparr>)"
proof -
  obtain intents t where fields:
    "nav_fields (snd (tick_browser_runtime E (sh_state w))) = nav_fields (fold (apply_intent E) intents t)"
    "nav_fields t = nav_fields (sh_state w)" by (rule tick_fields)
  let ?f = "fold (apply_intent E) intents t"
  have "history_ok t"
    using inv nav_fields_cong(2) [OF fields(2)] by (simp add: shell_inv_def)
  from session_intents [OF this, of E intents] obtain us where us:
    "session_of ?f = fold (\<lambda>(again, u). if again then ss_rewrite u else ss_add u) us (session_of t)"
    "history_ok ?f" "pending_history ?f = pending_history t" "navigation_pending ?f = navigation_pending t"
    "navigation_generation ?f = navigation_generation t" by blast
  have same: "pending_history t = pending_history (sh_state w)"
    "navigation_pending t = navigation_pending (sh_state w)"
    "navigation_generation t = navigation_generation (sh_state w)" "session_of t = session_of (sh_state w)"
    using fields(2) nav_fields_cong(1) [OF fields(2)] by (simp_all add: nav_fields_def)
  have "nav_of (w\<lparr>sh_state := ?f\<rparr>) = (nav_of w)\<lparr>nv_session :=
      fold (\<lambda>(again, u). if again then ss_rewrite u else ss_add u) us (nv_session (nav_of w))\<rparr>"
    using us same by (simp add: nav_of_def)
  then have "moves w (w\<lparr>sh_state := ?f\<rparr>)"
    using nav_step.scripts [of "nav_of w" us] inv us same by (simp add: moves_def shell_inv_def)
  then show ?thesis
    using nav_fields_cong(3,4) [OF fields(1), of w] by (simp add: moves_def)
qed

lemma wake_moves:
  assumes "shell_inv w"
  shows "moves w (snd (handle_browser_wake E live w))"
proof (cases "Option.bind (navigation_rx w) (\<lambda>ch. map_option (Pair (ch_generation ch)) (ch_message ch))")
  case None
  then show ?thesis
    using tick_moves [OF assms, of E]
    by (cases "tick_browser_runtime E (sh_state w)") (simp add: handle_browser_wake_def)
next
  case (Some result)
  then obtain ch r where "navigation_rx w = Some ch" "ch_message ch = Some r" "result = (ch_generation ch, r)"
    by (auto simp: bind_eq_Some_conv)
  then show ?thesis
    using Some message_moves [OF assms, of ch r E live]
    by (cases "apply_navigation_result E (ch_generation ch, r) live (sh_state w)")
      (simp add: handle_browser_wake_def)
qed

section \<open>Keys, buttons and links\<close>

lemma insert_fields: "insert_address_char cp s = Some t \<Longrightarrow> nav_fields t = nav_fields s"
  by (auto simp: insert_address_char_def nav_fields_def Let_def)

lemma clear_fields [simp]: "nav_fields (clear_selected s) = nav_fields s"
  by (simp add: clear_selected_def nav_fields_def)

lemma paste_fields: "paste_loop cps c s = Some (b, t) \<Longrightarrow> nav_fields t = nav_fields s"
  by (induction cps c s rule: paste_loop.induct)
    (auto split: if_splits option.splits dest: insert_fields)

lemma edit_fields: "handle_address_edit E e s = Some (b, t) \<Longrightarrow> nav_fields t = nav_fields s"
proof (cases e)
  case (TypeChar cp)
  moreover assume "handle_address_edit E e s = Some (b, t)"
  ultimately show ?thesis
    by (auto simp: push_address_char_def mark_address_edit_redraw_def Let_def split: if_splits dest!: insert_fields)
next
  case Erase
  moreover assume "handle_address_edit E e s = Some (b, t)"
  ultimately show ?thesis
    by (auto simp: edit_address_backspace_def mark_address_edit_redraw_def Let_def split: if_splits)
      (auto simp: nav_fields_def)
next
  case (Paste cs)
  moreover assume "handle_address_edit E e s = Some (b, t)"
  ultimately show ?thesis
    by (auto simp: paste_address_text_def mark_address_edit_redraw_def split: if_splits dest!: paste_fields)
next
  case Cut
  moreover assume "handle_address_edit E e s = Some (b, t)"
  ultimately show ?thesis
    by (auto simp: cut_address_text_def mark_address_edit_redraw_def split: if_splits) (auto simp: nav_fields_def)
next
  case (Caret m)
  moreover assume "handle_address_edit E e s = Some (b, t)"
  ultimately show ?thesis
    by (auto simp: move_address_caret_def Let_def split: if_splits) (auto simp: nav_fields_def)
qed

lemma focus_fields: "nav_fields (snd (focus_address_input E s)) = nav_fields s"
  "nav_fields (snd (blur_address_input E s)) = nav_fields s"
proof -
  have "nav_fields (snd (focus_address_bar s)) = nav_fields s" for s :: "('a, 'b, 'c) browser_state"
    by (simp add: focus_address_bar_def nav_fields_def Let_def)
  then show "nav_fields (snd (focus_address_input E s)) = nav_fields s"
    by (simp add: focus_address_input_def Let_def split_beta)
qed (simp add: blur_address_input_def)

text \<open>A start from a state whose fields of navigation are those of the shell.\<close>

lemma start_from:
  assumes inv: "shell_inv w" and same: "nav_fields s = nav_fields (sh_state w)"
    and ask: "nav_request (session_of (sh_state w)) act r"
  shows "moves w (snd (start_navigation_worker E r act (w\<lparr>sh_state := s\<rparr>)))"
proof -
  let ?v = "w\<lparr>sh_state := s\<rparr>"
  have v: "shell_inv ?v" "nav_of ?v = nav_of w" "nv_session (nav_of ?v) = session_of (sh_state w)"
    using nav_fields_cong(3,4) [OF same, of w] inv by (simp_all, simp add: nav_of_def)
  have "moves ?v (snd (start_navigation_worker E r act ?v))"
    using start_moves [OF v(1)] ask v(3) by simp
  then show ?thesis using v(2) by (simp add: moves_def)
qed

lemma target_requests:
  assumes ok: "history_ok s"
  shows "history_back_target s = Some (i, u) \<Longrightarrow> nav_request (session_of s) (MoveTo i) (request_get u)"
    and "history_forward_target s = Some (i, u) \<Longrightarrow> nav_request (session_of s) (MoveTo i) (request_get u)"
proof -
  assume b: "history_back_target s = Some (i, u)"
  then have i: "history_index s = Suc i" "i < length (history s)" "u = history s ! i"
    by (auto simp: history_back_target_def get_opt_def split: if_splits)
  then have "ss_back (session_of s) = u # rev (take i (history s))" "ss_here (session_of s) \<noteq> None"
    by (auto simp: session_of_def take_Suc_conv_app_nth)
  then show "nav_request (session_of s) (MoveTo i) (request_get u)"
    using nav_request.backward [of "session_of s" u "rev (take i (history s))"] i by simp
next
  assume f: "history_forward_target s = Some (i, u)"
  then have i: "i = Suc (history_index s)" "i < length (history s)" "u = history s ! i"
    by (auto simp: history_forward_target_def get_opt_def split: if_splits)
  then have "ss_ahead (session_of s) = u # drop (Suc i) (history s)" "ss_here (session_of s) \<noteq> None"
    by (auto simp: session_of_def Cons_nth_drop_Suc)
  then show "nav_request (session_of s) (MoveTo i) (request_get u)"
    using nav_request.onward i length_session_back [OF ok] by metis
qed

lemma history_moves:
  assumes inv: "shell_inv w"
  shows "moves w (snd (navigate_history_back E w))" "moves w (snd (navigate_history_forward E w))"
    "moves w (snd (reload_current_page E w))"
proof -
  have ok: "history_ok (sh_state w)" using inv by (simp add: shell_inv_def)
  have stay: "moves w w" using inv nav_step.stay by (simp add: moves_def)
  show "moves w (snd (navigate_history_back E w))" "moves w (snd (navigate_history_forward E w))"
    using target_requests [OF ok] start_from [OF inv nav_fields_mark(4), of "MoveTo _" _ E] stay
    by (auto simp: navigate_history_back_def navigate_history_forward_def navigate_history_target_def
        split: option.split)
  show "moves w (snd (reload_current_page E w))"
    using start_from [OF inv nav_fields_mark(4), of "MoveTo _" "request_get _" E] nav_request.again length_session_back [OF ok]
    by (metis reload_current_page_def)
qed

lemma address_target_moves:
  assumes inv: "shell_inv w"
    and counts: "navigation_generation (sh_state (snd (navigate_address_target E url initiator w))) < -1"
  shows "moves w (snd (navigate_address_target E url initiator w))"
proof (cases "navigation_pending (sh_state w) \<and> initiator \<noteq> None")
  case True
  then show ?thesis
    using inv nav_step.stay by (auto simp: navigate_address_target_def prepare_address_navigation_def moves_def)
next
  case False
  let ?s = "snd (shell_stop_navigation E (sh_state w))"
  let ?t = "(clear_page_input_focus (leave_address_bar ?s))\<lparr>address_text := url\<rparr>"
  let ?v = "w\<lparr>sh_state := ?t\<rparr>"
  let ?r = "with_initiator E initiator (request_get url)"
  have result: "snd (navigate_address_target E url initiator w) = snd (start_navigation_worker E ?r Push ?v)"
    using False by (auto simp: navigate_address_target_def prepare_address_navigation_def)
  have same: "nav_fields ?t = nav_fields ?s"
    by (simp add: nav_fields_def clear_page_input_focus_def leave_address_bar_def)
  have idle: "\<not> navigation_pending ?s"
    by (simp add: shell_stop_navigation_def Let_def mark_redraw_def set_browser_status_def)
  have idle_v: "\<not> navigation_pending (sh_state ?v)"
    using idle same by (simp add: nav_fields_def)
  have "saturating_add (navigation_generation ?s) 1 < -1"
    using counts start_fields(1) [OF idle_v, of E ?r Push] same unfolding result
    by (simp add: nav_fields_def)
  then have "navigation_generation ?s < -1"
    using saturating_next by fastforce
  then have stop: "nav_of (w\<lparr>sh_state := ?s\<rparr>) = (nav_of w)\<lparr>nv_awaited := None\<rparr>" "shell_inv (w\<lparr>sh_state := ?s\<rparr>)"
    using stopped [OF inv, of E] by auto
  have v: "nav_of ?v = (nav_of w)\<lparr>nv_awaited := None\<rparr>" "shell_inv ?v"
    using stop nav_fields_cong(3,4) [OF same, of w] by simp_all
  have "nav_of (snd (start_navigation_worker E ?r Push ?v)) = (nav_of w)\<lparr>nv_awaited := Some (Push, ?r, None)\<rparr>"
    using started(1) [OF v(2) idle_v, of E ?r Push] v(1) by simp
  then show ?thesis
    using nav_step.supersede [of "nav_of w" ?r] started(2) [OF v(2) idle_v, of E ?r Push]
    unfolding result by (simp add: moves_def)
qed

lemma stop_moves:
  assumes "shell_inv w" "navigation_generation (snd (shell_stop_navigation E (sh_state w))) < -1"
  shows "moves w (w\<lparr>sh_state := snd (shell_stop_navigation E (sh_state w))\<rparr>)"
  using stopped [OF assms] nav_step.abandon [of "nav_of w"] by (simp add: moves_def)

lemma submit_moves:
  assumes inv: "shell_inv w"
    and counts: "navigation_generation (sh_state (snd (submit_address_input E w))) < -1"
  shows "moves w (snd (submit_address_input E w))"
proof (cases "if address_editing (sh_state w)
    then normalize_address_input (se_url E) (address_text (sh_state w)) else None")
  case None
  have "moves w w" using inv nav_step.stay by (simp add: moves_def)
  then show ?thesis
    using None moves_same [OF inv, of "mark_redraw (se_rect E) Chrome (set_browser_status (se_rect E) ''error'' (sh_state w))"]
    by (auto simp: submit_address_input_def Let_def)
next
  case (Some url)
  then show ?thesis
    using counts address_target_moves [OF inv, of E url None] by (simp add: submit_address_input_def Let_def)
qed

lemma page_moves:
  assumes inv: "shell_inv w"
  shows "moves w (snd (follow_hit_link E href w))" "moves w (snd (navigate_form_request E r initiator w))"
proof -
  have visit: "nav_request (session_of (sh_state w)) Push q" for q by (rule nav_request.visit)
  have idle: "moves w (w\<lparr>sh_state := clear_page_input_focus (sh_state w)\<rparr>)"
    by (rule moves_same [OF inv]) simp
  show "moves w (snd (follow_hit_link E href w))"
    using idle start_from [OF inv nav_fields_mark(4) visit, of E]
    by (auto simp: follow_hit_link_def Let_def split: option.split)
  let ?s = "(clear_page_input_focus (leave_address_bar (sh_state w)))\<lparr>address_text := nr_url r\<rparr>"
  have "nav_fields ?s = nav_fields (sh_state w)"
    by (simp add: nav_fields_def clear_page_input_focus_def leave_address_bar_def)
  then have "moves w (snd (start_navigation_worker E (with_initiator E initiator r) Push (w\<lparr>sh_state := ?s\<rparr>)))"
    by (rule start_from [OF inv _ visit])
  moreover have "moves w w" using inv nav_step.stay by (simp add: moves_def)
  ultimately show "moves w (snd (navigate_form_request E r initiator w))"
    by (auto simp: navigate_form_request_def Let_def)
qed

lemma button_moves:
  assumes inv: "shell_inv w"
    and counts: "navigation_generation (sh_state (snd (handle_chrome_click E action w))) < -1"
  shows "moves w (snd (handle_chrome_click E action w))"
proof -
  let ?v = "w\<lparr>sh_state := clear_page_input_focus (sh_state w)\<rparr>"
  let ?s = "leave_address_bar (sh_state ?v)"
  have ok: "history_ok (sh_state w)" using inv by (simp add: shell_inv_def)
  have same: "nav_fields ?s = nav_fields (sh_state w)" by simp
  then have idle: "moves w ?v" "moves w (w\<lparr>sh_state := ?s\<rparr>)" by (auto intro!: moves_same [OF inv])
  have targets: "history_back_target ?s = history_back_target (sh_state w)"
    "history_forward_target ?s = history_forward_target (sh_state w)"
    "history_index ?s = history_index (sh_state w)"
    by (simp_all add: history_back_target_def history_forward_target_def leave_address_bar_def
        clear_page_input_focus_def)
  show ?thesis
  proof (cases "chrome_action_enabled (sh_state ?v) action")
    case False
    then show ?thesis using idle by (simp add: handle_chrome_click_def handle_chrome_action_def)
  next
    case True
    note start = start_from [OF inv same]
    show ?thesis
    proof (cases action)
      case Back
      then show ?thesis
        using True targets target_requests(1) [OF ok] start [of _ _ E] idle
        by (auto simp: handle_chrome_click_def handle_chrome_action_def start_target_def Let_def split: option.split)
    next
      case Forward
      then show ?thesis
        using True targets target_requests(2) [OF ok] start [of _ _ E] idle
        by (auto simp: handle_chrome_click_def handle_chrome_action_def start_target_def Let_def split: option.split)
    next
      case Home
      then show ?thesis
        using True start [OF nav_request.visit, of E]
        by (simp add: handle_chrome_click_def handle_chrome_action_def Let_def)
    next
      case Reload
      then show ?thesis
        using True targets start [of "MoveTo (history_index (sh_state w))" "request_get _" E]
          nav_request.again [of "session_of (sh_state w)"] length_session_back [OF ok]
        by (simp add: handle_chrome_click_def handle_chrome_action_def Let_def)
    next
      case Stop
      let ?u = "w\<lparr>sh_state := ?s\<rparr>"
      have result: "snd (handle_chrome_click E action w) = ?u\<lparr>sh_state := snd (shell_stop_navigation E ?s)\<rparr>"
        using Stop True
        by (simp add: handle_chrome_click_def handle_chrome_action_def Let_def split: prod.split)
      have u: "shell_inv ?u" "nav_of ?u = nav_of w"
        using nav_fields_cong(3,4) [OF same, of w] inv by simp_all
      have "moves ?u (?u\<lparr>sh_state := snd (shell_stop_navigation E ?s)\<rparr>)"
        using stop_moves [OF u(1), of E] counts unfolding result by simp
      then show ?thesis using u(2) unfolding result by (simp add: moves_def)
    qed
  qed
qed

section \<open>Refinement\<close>

lemma answer_moves:
  assumes inv: "shell_inv w" and rx: "navigation_rx w = Some ch" and m: "ch_message ch = None"
  shows "moves w (w\<lparr>navigation_rx := Some (ch\<lparr>ch_message := Some r\<rparr>)\<rparr>)"
proof (cases "navigation_pending (sh_state w)")
  case True
  then obtain a where a: "pending_history (sh_state w) = Some a" using inv by (auto simp: shell_inv_def)
  have "nv_awaited (nav_of w) = Some (a, ch_request ch, None)"
    using True a rx m by (simp add: nav_of_def)
  moreover have "nav_of (w\<lparr>navigation_rx := Some (ch\<lparr>ch_message := Some r\<rparr>)\<rparr>)
      = (nav_of w)\<lparr>nv_awaited := Some (a, ch_request ch, Some r)\<rparr>"
    using True a by (simp add: nav_of_def)
  ultimately show ?thesis
    using nav_step.answered [of "nav_of w" a "ch_request ch" r] inv rx True by (simp add: moves_def shell_inv_def)
next
  case False
  then have "nav_of (w\<lparr>navigation_rx := Some (ch\<lparr>ch_message := Some r\<rparr>)\<rparr>) = nav_of w"
    by (simp add: nav_of_def)
  then show ?thesis using inv rx False nav_step.stay by (simp add: moves_def shell_inv_def)
qed

lemma step_moves:
  assumes "shell_step E w w'" "shell_inv w" "navigation_generation (sh_state w') < -1"
  shows "moves w w'"
  using assms
proof (cases rule: shell_step.cases)
  case (edit e b s)
  then show ?thesis using moves_same [OF assms(2) edit_fields] by simp
next
  case (startup url)
  then show ?thesis using start_moves [OF assms(2) nav_request.visit] by simp
qed (use assms(2,3) in \<open>simp_all add: answer_moves wake_moves moves_same focus_fields submit_moves
      page_moves address_target_moves history_moves button_moves\<close>)

text \<open>The runs of a shell, as long as its generation counter has not come to its end.\<close>

inductive shell_reach ::
    "('f, 'x, 'p, 'u, 'o, 'y) shell_env \<Rightarrow> ('f, 'x, 'p, 'y) shell \<Rightarrow> ('f, 'x, 'p, 'y) shell \<Rightarrow> bool"
  for E w where
  start: "shell_reach E w w"
| step: "shell_reach E w v \<Longrightarrow> shell_step E v v' \<Longrightarrow> navigation_generation (sh_state v') < -1
    \<Longrightarrow> shell_reach E w v'"

lemma start_inv: "shell_inv (shell_start rest url)"
  by (simp add: shell_inv_def shell_start_def initial_browser_state_def history_ok_def)

lemma reach_inv: "shell_reach E w v \<Longrightarrow> shell_inv w \<Longrightarrow> shell_inv v"
  by (induction rule: shell_reach.induct) (auto dest: step_moves simp: moves_def)


definition sample_shell :: "(int, unit, unit, string, string, unit) shell_env" where
  "sample_shell =
     \<lparr>se_rect = \<lparr>f_not_positive = (\<lambda>x. x \<le> 0), f_min = min, f_max = max, f_add = (+), f_sub = (-)\<rparr>,
      se_url = \<lparr>url_parse = Inr, url_scheme = (\<lambda>_. ''https''), url_host_str = (\<lambda>_. None),
        url_host_of = (\<lambda>_. None), url_port = (\<lambda>_. None), url_path = (\<lambda>_. []), url_query = (\<lambda>_. None),
        url_origin = (\<lambda>_. []), url_join = (\<lambda>_ u. Inr u), url_text = (\<lambda>u. u)\<rparr>,
      se_psl = sample_list, se_home = None, se_build = (\<lambda>_ b _. Inl ([], b)),
      se_callbacks = (\<lambda>p fr. (Inr None, p, fr)), se_children = (\<lambda>p fr. (False, p, fr)),
      se_repaint = (\<lambda>p fr. (Full, p, fr)), se_intents = (\<lambda>p. ([], p)), se_storage = (\<lambda>_ p. p)\<rparr>"


section \<open>Two surprises\<close>

text \<open>
  A script that adds an entry while the user goes forward leaves the history on the script's entry with
  another page on screen; and the address the script's entry brings replaces what the user is typing.
\<close>

lemma forward_lands_on_script_entry:
  assumes "history s = [a, b, c]" "history_index s = 1" "pending_history s = Some (MoveTo 2)"
    "\<not> intent_replace i"
  shows "let t = apply_history_success c (apply_intent E i s)
    in history t ! history_index t = resolve_intent E (frame_url (frame s)) (intent_url i)"
  using assms by (simp add: apply_intent_def apply_history_success_def Let_def)

lemma script_entry_replaces_typed_text:
  "address_editing s \<Longrightarrow> address_editing (apply_intent E i s)
     \<and> address_text (apply_intent E i s) = resolve_intent E (frame_url (frame s)) (intent_url i)"
  by (simp add: apply_intent_def Let_def)

end
