(* ===== verification/Protocol_Codec.thy ===== *)
theory Protocol_Codec
  imports Rust_Utf8
begin

text \<open>
  The bounded byte reader and writer of \<open>engine_protocol/codec.rs\<close>: every operation of
  \<open>ByteWriter\<close> and \<open>ByteReader\<close>, with the limits and the typed errors of the source.
  Multi-byte integers are big-endian. The locale \<open>wire_field\<close> is the contract between the
  codec and the message layer: what a reader operation accepts is exactly what the writer
  operation produces, and nothing else is consumed.
\<close>

section \<open>Limits and errors\<close>

definition MAX_MESSAGE_BYTES :: nat where
  "MAX_MESSAGE_BYTES = 1048576"

definition MAX_STRING_BYTES :: nat where
  "MAX_STRING_BYTES = 64 * 1024"

definition MAX_DAMAGE_RECTS :: nat where
  "MAX_DAMAGE_RECTS = 4096"

datatype protocol_error =
    UnsupportedWireVersion u8
  | BadMagic
  | Truncated (needed: nat) (had: nat)
  | TrailingBytes nat
  | MessageTooLarge (msg_len: nat) (msg_max: nat)
  | UnknownKind u8
  | UnknownMessageType u16
  | BadDiscriminant (for_type: u16) (bad_value: u8)
  | InvalidUtf8
  | LimitExceeded (limit: nat) (over_value: nat)

section \<open>Big-endian integers\<close>

text \<open>\<open>be_nat n x\<close> is the \<open>n\<close>-byte big-endian representation, \<open>be_val\<close> the number it reads as.\<close>

fun be_nat :: "nat \<Rightarrow> nat \<Rightarrow> u8 list" where
  "be_nat 0 x = []"
| "be_nat (Suc n) x = be_nat n (x div 256) @ [word_of_nat x]"

definition be_val :: "u8 list \<Rightarrow> nat" where
  "be_val bs = foldl (\<lambda>a b. 256 * a + unat b) 0 bs"

definition to_be_bytes :: "'a::len word \<Rightarrow> u8 list" where
  "to_be_bytes w = be_nat (LENGTH('a) div 8) (unat w)"

definition from_be_bytes :: "u8 list \<Rightarrow> 'a::len word" where
  "from_be_bytes bs = word_of_nat (be_val bs)"

lemma be_nat_numeral [simp]:
  "be_nat (numeral k) x = be_nat (pred_numeral k) (x div 256) @ [word_of_nat x]"
  unfolding numeral_eq_Suc [of k] by (rule be_nat.simps)

lemma length_be_nat [simp]: "length (be_nat n x) = n"
  by (induction n arbitrary: x) auto

lemma be_val_simps [simp]: "be_val [] = 0" "be_val (bs @ [b]) = 256 * be_val bs + unat b"
  by (simp_all add: be_val_def)

lemma be_val_be_nat: "be_val (be_nat n x) = x mod 256 ^ n"
proof (induction n arbitrary: x)
  case 0
  then show ?case by simp
next
  case (Suc n)
  have "unat (word_of_nat x :: u8) = x mod 256" by (simp add: unat_of_nat)
  then have "be_val (be_nat (Suc n) x) = 256 * (x div 256 mod 256 ^ n) + x mod 256"
    by (simp add: Suc.IH)
  also have "\<dots> = x mod (256 * 256 ^ n)" by (simp add: mod_mult2_eq)
  finally show ?case by simp
qed

lemma be_nat_be_val: "be_nat (length bs) (be_val bs) = bs"
proof (induction bs rule: rev_induct)
  case Nil
  then show ?case by simp
next
  case (snoc b bs)
  have lt: "unat b < 256" by simp
  then have "(256 * be_val bs + unat b) div 256 = be_val bs" by simp
  moreover have "(word_of_nat (256 * be_val bs + unat b) :: u8) = b"
  proof -
    have "(256 :: u8) = 0" by simp
    then show ?thesis by (simp only: of_nat_add of_nat_mult of_nat_numeral) simp
  qed
  ultimately show ?case using snoc.IH by simp
qed

lemma be_val_lt: "be_val bs < 256 ^ length bs"
proof -
  have "be_val bs mod 256 ^ length bs = be_val bs"
    using be_val_be_nat [of "length bs" "be_val bs"] by (simp add: be_nat_be_val)
  then show ?thesis by (metis mod_less_divisor zero_less_numeral zero_less_power)
qed

lemma length_to_be_bytes [simp]: "length (to_be_bytes (w :: 'a::len word)) = LENGTH('a) div 8"
  by (simp add: to_be_bytes_def)

text \<open>The two byte conversions are inverse when the width is a whole number of bytes.\<close>

lemma pow256: "8 dvd n \<Longrightarrow> (256::nat) ^ (n div 8) = 2 ^ n"
  by (auto elim!: dvdE simp: power_mult)

lemma from_to_be_bytes:
  fixes w :: "'a::len word"
  assumes "8 dvd LENGTH('a)"
  shows "from_be_bytes (to_be_bytes w) = w"
  using pow256 [OF assms]
  by (simp add: from_be_bytes_def to_be_bytes_def be_val_be_nat)

lemma to_from_be_bytes:
  assumes "8 dvd LENGTH('a::len)" and "length bs = LENGTH('a) div 8"
  shows "to_be_bytes (from_be_bytes bs :: 'a word) = bs"
proof -
  have "be_val bs < 2 ^ LENGTH('a)"
    using be_val_lt [of bs] pow256 [OF assms(1)] assms(2) by simp
  then have "unat (word_of_nat (be_val bs) :: 'a word) = be_val bs"
    by (simp add: unat_of_nat)
  with assms(2) show ?thesis
    by (metis be_nat_be_val from_be_bytes_def to_be_bytes_def)
qed

section \<open>The writer\<close>

record byte_writer =
  wbuffer :: "u8 list"

type_synonym write_op = "(byte_writer, protocol_error, unit) sm"

definition writer_new :: byte_writer where
  "writer_new = \<lparr>wbuffer = []\<rparr>"

definition into_bytes :: "byte_writer \<Rightarrow> u8 list" where
  "into_bytes w = wbuffer w"

definition writer_len :: "byte_writer \<Rightarrow> nat" where
  "writer_len w = length (wbuffer w)"

definition writer_is_empty :: "byte_writer \<Rightarrow> bool" where
  "writer_is_empty w \<longleftrightarrow> wbuffer w = []"

definition put_u8 :: "u8 \<Rightarrow> byte_writer \<Rightarrow> byte_writer" where
  "put_u8 v w = w\<lparr>wbuffer := wbuffer w @ [v]\<rparr>"

definition put_u16 :: "u16 \<Rightarrow> byte_writer \<Rightarrow> byte_writer" where
  "put_u16 v w = w\<lparr>wbuffer := wbuffer w @ to_be_bytes v\<rparr>"

definition put_u32 :: "u32 \<Rightarrow> byte_writer \<Rightarrow> byte_writer" where
  "put_u32 v w = w\<lparr>wbuffer := wbuffer w @ to_be_bytes v\<rparr>"

definition put_u64 :: "u64 \<Rightarrow> byte_writer \<Rightarrow> byte_writer" where
  "put_u64 v w = w\<lparr>wbuffer := wbuffer w @ to_be_bytes v\<rparr>"

definition put_i32 :: "i32 \<Rightarrow> byte_writer \<Rightarrow> byte_writer" where
  "put_i32 v w = w\<lparr>wbuffer := wbuffer w @ to_be_bytes v\<rparr>"

definition put_bytes :: "u8 list \<Rightarrow> byte_writer \<Rightarrow> byte_writer" where
  "put_bytes bs w = w\<lparr>wbuffer := wbuffer w @ bs\<rparr>"

text \<open>\<open>u32::try_from(n)\<close> for a \<open>usize\<close>.\<close>

definition u32_try_from :: "nat \<Rightarrow> u32 option" where
  "u32_try_from n = (if n < 2 ^ 32 then Some (word_of_nat n) else None)"

definition put_str :: "string \<Rightarrow> write_op" where
  "put_str s w =
     (let n = length s in
      if n > MAX_STRING_BYTES then (Inl (LimitExceeded MAX_STRING_BYTES n), w)
      else (case u32_try_from n of
              None \<Rightarrow> (Inl (LimitExceeded MAX_STRING_BYTES n), w)
            | Some prefix \<Rightarrow>
                (Inr (), (put_u32 prefix w)\<lparr>wbuffer := wbuffer (put_u32 prefix w) @ str_bytes s\<rparr>)))"

definition put_len :: "nat \<Rightarrow> nat \<Rightarrow> write_op" where
  "put_len count lim w =
     (if count > lim then (Inl (LimitExceeded lim count), w)
      else (case u32_try_from count of
              None \<Rightarrow> (Inl (LimitExceeded lim count), w)
            | Some prefix \<Rightarrow> (Inr (), put_u32 prefix w)))"

section \<open>The reader\<close>

record byte_reader =
  rbytes :: "u8 list"
  roffset :: nat

type_synonym 'a read_op = "(byte_reader, protocol_error, 'a) sm"

definition reader_new :: "u8 list \<Rightarrow> byte_reader" where
  "reader_new bs = \<lparr>rbytes = bs, roffset = 0\<rparr>"

definition remaining :: "byte_reader \<Rightarrow> nat" where
  "remaining r = length (rbytes r) - roffset r"

definition expect_end :: "unit read_op" where
  "expect_end r =
     (let left = remaining r in
      if left = 0 then (Inr (), r) else (Inl (TrailingBytes left), r))"

definition rd_take :: "nat \<Rightarrow> u8 list read_op" where
  "rd_take need r =
     (let avail = remaining r in
      if need > avail then (Inl (Truncated need avail), r)
      else (let start = roffset r; r' = r\<lparr>roffset := roffset r + need\<rparr>
            in (Inr (take need (drop start (rbytes r))), r')))"

definition get_slice :: "nat \<Rightarrow> u8 list read_op" where
  "get_slice n = rd_take n"

definition get_u8 :: "u8 read_op" where
  "get_u8 = sm_bind (rd_take 1) (\<lambda>slice. sm_return (slice ! 0))"

definition get_u16 :: "u16 read_op" where
  "get_u16 = sm_bind (rd_take 2) (\<lambda>slice. sm_return (from_be_bytes slice))"

definition get_u32 :: "u32 read_op" where
  "get_u32 = sm_bind (rd_take 4) (\<lambda>slice. sm_return (from_be_bytes slice))"

definition get_u64 :: "u64 read_op" where
  "get_u64 = sm_bind (rd_take 8) (\<lambda>slice. sm_return (from_be_bytes slice))"

definition get_i32 :: "i32 read_op" where
  "get_i32 = sm_bind (rd_take 4) (\<lambda>slice. sm_return (from_be_bytes slice))"

definition get_str :: "string read_op" where
  "get_str =
     sm_bind get_u32 (\<lambda>prefix. let n = unat prefix in
       if n > MAX_STRING_BYTES then sm_fail (LimitExceeded MAX_STRING_BYTES n)
       else sm_bind (rd_take n) (\<lambda>slice.
         if utf8_valid slice then sm_return (bytes_str slice) else sm_fail InvalidUtf8))"

definition get_len :: "nat \<Rightarrow> nat read_op" where
  "get_len lim =
     sm_bind get_u32 (\<lambda>prefix. let count = unat prefix in
       if count > lim then sm_fail (LimitExceeded lim count) else sm_return count)"

section \<open>What a write and a read do\<close>

text \<open>
  \<open>writes m okay bs\<close>: run on any writer, \<open>m\<close> appends exactly \<open>bs\<close> when \<open>okay\<close> holds, and
  otherwise fails with \<open>LimitExceeded\<close>. \<open>reads m R\<close>: \<open>m\<close> succeeds with a value exactly when
  the unread input starts with bytes that \<open>R\<close> relates to it, and consumes those bytes.
\<close>

definition writes :: "write_op \<Rightarrow> bool \<Rightarrow> u8 list \<Rightarrow> bool" where
  "writes m okay bs \<longleftrightarrow>
     (\<forall>w. if okay then m w = (Inr (), put_bytes bs w)
          else \<exists>l n. fst (m w) = Inl (LimitExceeded l n) \<and> l < n)"

definition reader_at :: "u8 list \<Rightarrow> u8 list \<Rightarrow> byte_reader" where
  "reader_at pre rest = \<lparr>rbytes = pre @ rest, roffset = length pre\<rparr>"

definition reads :: "'a read_op \<Rightarrow> (u8 list \<Rightarrow> 'a \<Rightarrow> bool) \<Rightarrow> bool" where
  "reads m R \<longleftrightarrow>
     (\<forall>pre rest v r. m (reader_at pre rest) = (Inr v, r) \<longleftrightarrow>
        (\<exists>bs suf. rest = bs @ suf \<and> R bs v \<and> r = reader_at (pre @ bs) suf))"

lemma writesD:
  "writes m a bs \<Longrightarrow> if a then m w = (Inr (), put_bytes bs w)
     else \<exists>l n. fst (m w) = Inl (LimitExceeded l n) \<and> l < n"
  unfolding writes_def by blast

lemma readsD:
  "reads m R \<Longrightarrow> m (reader_at pre rest) = (Inr v, r) \<longleftrightarrow>
     (\<exists>bs suf. rest = bs @ suf \<and> R bs v \<and> r = reader_at (pre @ bs) suf)"
  by (simp add: reads_def)

lemma reader_new_at: "reader_new bs = reader_at [] bs"
  by (simp add: reader_new_def reader_at_def)

lemma remaining_reader_at [simp]: "remaining (reader_at pre rest) = length rest"
  by (simp add: remaining_def reader_at_def)

lemma put_bytes_put_bytes [simp]: "put_bytes cs (put_bytes bs w) = put_bytes (bs @ cs) w"
  by (simp add: put_bytes_def)

lemma put_bytes_Nil [simp]: "put_bytes [] w = w"
  by (simp add: put_bytes_def)

lemma writes_then:
  "writes m a bs \<Longrightarrow> writes k b cs \<Longrightarrow> writes (sm_then m k) (a \<and> b) (bs @ cs)"
proof -
  assume m: "writes m a bs" and k: "writes k b cs"
  have "if a \<and> b then sm_then m k w = (Inr (), put_bytes (bs @ cs) w)
        else \<exists>l n. fst (sm_then m k w) = Inl (LimitExceeded l n) \<and> l < n" for w
  proof (cases a)
    case True
    with m have "m w = (Inr (), put_bytes bs w)" by (simp add: writes_def)
    with True k show ?thesis by (simp add: writes_def)
  next
    case False
    with writesD [OF m] obtain l n where "fst (m w) = Inl (LimitExceeded l n)" "l < n"
      by (metis (full_types))
    with False show ?thesis by (cases "m w") auto
  qed
  then show ?thesis by (simp add: writes_def)
qed

lemma writes_do: "(\<And>w. g w = put_bytes bs w) \<Longrightarrow> writes (sm_do g) True bs"
  by (simp add: writes_def)

lemma writes_return: "writes (sm_return ()) True []"
  by (simp add: writes_def)

lemma reads_bind:
  assumes m: "reads m R" and f: "\<And>x. reads (f x) (S x)"
  shows "reads (sm_bind m f) (\<lambda>bs y. \<exists>x b1 b2. bs = b1 @ b2 \<and> R b1 x \<and> S x b2 y)"
proof -
  have "sm_bind m f (reader_at pre rest) = (Inr v, r) \<longleftrightarrow>
      (\<exists>x b1 b2 suf. rest = b1 @ b2 @ suf \<and> R b1 x \<and> S x b2 v
        \<and> r = reader_at (pre @ b1 @ b2) suf)" (is "?l \<longleftrightarrow> ?r") for pre rest v r
  proof -
    have "?l \<longleftrightarrow> (\<exists>x b1 suf. rest = b1 @ suf \<and> R b1 x \<and>
        f x (reader_at (pre @ b1) suf) = (Inr v, r))"
      unfolding sm_bind_ok readsD [OF m] by blast
    also have "\<dots> \<longleftrightarrow> ?r"
      unfolding readsD [OF f] append_assoc by blast
    finally show ?thesis .
  qed
  then show ?thesis unfolding reads_def by (metis append_assoc)
qed

lemma reads_return: "reads (sm_return x) (\<lambda>bs y. bs = [] \<and> y = x)"
  by (auto simp: reads_def)

lemma reads_fail: "reads (sm_fail e) (\<lambda>bs y. False)"
  by (auto simp: reads_def)

lemma reads_cong: "reads m R \<Longrightarrow> (\<And>bs v. R bs v \<longleftrightarrow> S bs v) \<Longrightarrow> reads m S"
  by (simp add: reads_def)

lemma rd_take_at:
  "rd_take n (reader_at pre rest) =
     (if n > length rest then (Inl (Truncated n (length rest)), reader_at pre rest)
      else (Inr (take n rest), reader_at (pre @ take n rest) (drop n rest)))"
  by (simp add: rd_take_def Let_def) (simp add: reader_at_def)

lemma reads_take: "reads (rd_take n) (\<lambda>bs v. length bs = n \<and> v = bs)"
  unfolding reads_def rd_take_at
proof (intro allI, goal_cases)
  case (1 pre rest v r)
  show ?case
  proof (cases "n > length rest")
    case True
    then show ?thesis by auto
  next
    case False
    then show ?thesis
      by (auto intro!: exI [of _ "take n rest"] exI [of _ "drop n rest"])
  qed
qed

section \<open>The contract of a field\<close>

text \<open>
  A field of a message: its writer operation, its reader operation, the bytes it occupies, the
  limit it has to respect (\<open>fits\<close>) and the condition its type already guarantees (\<open>valid\<close>: a
  Rust string is UTF-8). The writer produces \<open>enc v\<close> exactly when the value fits, and the
  reader accepts exactly those bytes.
\<close>

locale wire_field =
  fixes put :: "'a \<Rightarrow> write_op"
    and get :: "'a read_op"
    and enc :: "'a \<Rightarrow> u8 list"
    and fits :: "'a \<Rightarrow> bool"
    and valid :: "'a \<Rightarrow> bool"
  assumes put_writes: "writes (put v) (fits v) (enc v)"
    and get_reads: "reads get (\<lambda>bs v. fits v \<and> valid v \<and> bs = enc v)"
begin

lemma put_ok: "fits v \<Longrightarrow> put v w = (Inr (), put_bytes (enc v) w)"
  using writesD [OF put_writes, of v w] by simp

lemma put_limit: "\<not> fits v \<Longrightarrow> \<exists>l n. fst (put v w) = Inl (LimitExceeded l n) \<and> l < n"
  using writesD [OF put_writes, of v w] by simp

lemma get_put:
  "fits v \<Longrightarrow> valid v \<Longrightarrow> get (reader_at pre (enc v @ rest)) = (Inr v, reader_at (pre @ enc v) rest)"
  unfolding readsD [OF get_reads] by blast

lemma get_canonical:
  "get (reader_at pre rest) = (Inr v, r) \<Longrightarrow>
     fits v \<and> valid v \<and> (\<exists>suf. rest = enc v @ suf \<and> r = reader_at (pre @ enc v) suf)"
  unfolding readsD [OF get_reads] by blast

lemma enc_prefix_free:
  assumes "fits v" "valid v" "fits u" "valid u" and "enc v @ xs = enc u @ ys"
  shows "v = u \<and> xs = ys"
proof -
  have "get (reader_at [] (enc v @ xs)) = (Inr v, reader_at (enc v) xs)"
    using get_put [OF assms(1,2), of "[]" xs] by simp
  moreover have "get (reader_at [] (enc u @ ys)) = (Inr u, reader_at (enc u) ys)"
    using get_put [OF assms(3,4), of "[]" ys] by simp
  ultimately have "v = u" using assms(5) by simp
  with assms(5) show ?thesis by simp
qed

lemma roundtrip:
  assumes "fits v" "valid v"
  shows "\<exists>w. put v writer_new = (Inr (), w) \<and>
    get (reader_new (into_bytes w)) = (Inr v, reader_at (into_bytes w) [])"
  using put_ok [OF assms(1), of writer_new] get_put [OF assms, of "[]" "[]"]
  by (simp add: writer_new_def into_bytes_def put_bytes_def reader_new_at)

end

text \<open>A field of constant width, whose limit never bites.\<close>

locale fixed_field = wire_field put get enc "\<lambda>_. True" "\<lambda>_. True"
  for put :: "'a \<Rightarrow> write_op" and get enc +
  fixes width :: nat
  assumes enc_length: "length (enc v) = width"
begin

lemma put_fixed: "put v w = (Inr (), put_bytes (enc v) w)"
  by (simp add: put_ok)

lemma get_fixed_iff:
  "(\<exists>v r. get (reader_at pre rest) = (Inr v, r)) \<longleftrightarrow> (\<exists>v suf. rest = enc v @ suf)"
  unfolding readsD [OF get_reads] by blast

end

section \<open>The primitive fields\<close>

lemma reads_be:
  assumes "8 dvd LENGTH('a::len)" and "n = LENGTH('a) div 8"
  shows "reads (sm_bind (rd_take n) (\<lambda>slice. sm_return (from_be_bytes slice :: 'a word)))
           (\<lambda>bs v. bs = to_be_bytes v)"
proof (rule reads_cong [OF reads_bind [OF reads_take reads_return]])
  fix bs and v :: "'a word"
  show "(\<exists>x b1 b2. bs = b1 @ b2 \<and> (length b1 = n \<and> x = b1) \<and> b2 = [] \<and> v = from_be_bytes x)
     \<longleftrightarrow> bs = to_be_bytes v"
    using assms by (auto simp: to_from_be_bytes from_to_be_bytes)
qed

interpretation u8_field: fixed_field "\<lambda>v. sm_do (put_u8 v)" get_u8 "\<lambda>v. [v]" 1
proof
  show "writes (sm_do (put_u8 v)) True [v]" for v
    by (rule writes_do) (simp add: put_u8_def put_bytes_def)
  show "reads get_u8 (\<lambda>bs v. True \<and> True \<and> bs = [v])"
    unfolding get_u8_def
    by (rule reads_cong [OF reads_bind [OF reads_take reads_return]])
       (auto simp: length_Suc_conv)
qed simp

interpretation u16_field: fixed_field "\<lambda>v. sm_do (put_u16 v)" get_u16 to_be_bytes 2
proof
  show "writes (sm_do (put_u16 v)) True (to_be_bytes v)" for v
    by (rule writes_do) (simp add: put_u16_def put_bytes_def)
  show "reads get_u16 (\<lambda>bs v. True \<and> True \<and> bs = to_be_bytes v)"
    unfolding get_u16_def simp_thms by (rule reads_be) simp_all
qed simp

interpretation u32_field: fixed_field "\<lambda>v. sm_do (put_u32 v)" get_u32 to_be_bytes 4
proof
  show "writes (sm_do (put_u32 v)) True (to_be_bytes v)" for v
    by (rule writes_do) (simp add: put_u32_def put_bytes_def)
  show "reads get_u32 (\<lambda>bs v. True \<and> True \<and> bs = to_be_bytes v)"
    unfolding get_u32_def simp_thms by (rule reads_be) simp_all
qed simp

interpretation u64_field: fixed_field "\<lambda>v. sm_do (put_u64 v)" get_u64 to_be_bytes 8
proof
  show "writes (sm_do (put_u64 v)) True (to_be_bytes v)" for v
    by (rule writes_do) (simp add: put_u64_def put_bytes_def)
  show "reads get_u64 (\<lambda>bs v. True \<and> True \<and> bs = to_be_bytes v)"
    unfolding get_u64_def simp_thms by (rule reads_be) simp_all
qed simp

interpretation i32_field: fixed_field "\<lambda>v. sm_do (put_i32 v)" get_i32 to_be_bytes 4
proof
  show "writes (sm_do (put_i32 v)) True (to_be_bytes v)" for v
    by (rule writes_do) (simp add: put_i32_def put_bytes_def)
  show "reads get_i32 (\<lambda>bs v. True \<and> True \<and> bs = to_be_bytes v)"
    unfolding get_i32_def simp_thms by (rule reads_be) simp_all
qed simp

text \<open>Strings and counts: a 32-bit length first.\<close>

definition len_bytes :: "nat \<Rightarrow> u8 list" where
  "len_bytes n = to_be_bytes (word_of_nat n :: u32)"

definition enc_str :: "string \<Rightarrow> u8 list" where
  "enc_str s = len_bytes (length s) @ str_bytes s"

definition str_fits :: "string \<Rightarrow> bool" where
  "str_fits s \<longleftrightarrow> length s \<le> MAX_STRING_BYTES"

lemma length_len_bytes [simp]: "length (len_bytes n) = 4"
  by (simp add: len_bytes_def)

lemma u32_try_from_small: "n < 2 ^ 32 \<Longrightarrow> u32_try_from n = Some (word_of_nat n)"
  by (simp add: u32_try_from_def)

lemma len_bytes_unat: "len_bytes (unat (x :: u32)) = to_be_bytes x"
  by (simp add: len_bytes_def)

lemma len_bytes_iff:
  assumes "lim < 2 ^ 32"
  shows "unat (w :: u32) \<le> lim \<and> bs = to_be_bytes w \<and> n = unat w
     \<longleftrightarrow> n \<le> lim \<and> bs = len_bytes n \<and> w = word_of_nat n"
proof -
  have "n \<le> lim \<Longrightarrow> unat (word_of_nat n :: u32) = n"
    using assms by (simp add: unat_of_nat)
  then show ?thesis by (auto simp: len_bytes_def)
qed

lemma reads_get_len:
  assumes "lim < 2 ^ 32"
  shows "reads (get_len lim) (\<lambda>bs n. n \<le> lim \<and> bs = len_bytes n)"
proof -
  have "reads (let count = unat p in
          if count > lim then sm_fail (LimitExceeded lim count) else sm_return count)
        (\<lambda>bs n. unat p \<le> lim \<and> bs = [] \<and> n = unat p)" for p :: u32
    by (auto simp: Let_def intro: reads_cong [OF reads_return] reads_cong [OF reads_fail])
  note bound = reads_bind [OF u32_field.get_reads this]
  show ?thesis unfolding get_len_def
    by (rule reads_cong [OF bound]) (use len_bytes_iff [OF assms] in auto)
qed

lemma writes_put_len:
  assumes "lim < 2 ^ 32"
  shows "writes (put_len n lim) (n \<le> lim) (len_bytes n)"
  using assms
  by (auto simp: writes_def put_len_def u32_try_from_small len_bytes_def put_u32_def put_bytes_def)

interpretation str_field: wire_field put_str get_str enc_str str_fits rust_str
proof
  show "writes (put_str s) (str_fits s) (enc_str s)" for s
    by (auto simp: writes_def put_str_def Let_def str_fits_def u32_try_from_def put_u32_def
        put_bytes_def enc_str_def len_bytes_def MAX_STRING_BYTES_def)
next
  have tail: "reads (sm_bind (rd_take n) (\<lambda>slice.
          if utf8_valid slice then sm_return (bytes_str slice) else sm_fail InvalidUtf8))
        (\<lambda>bs s. length s = n \<and> rust_str s \<and> bs = str_bytes s)" for n
  proof (rule reads_cong [OF reads_bind [OF reads_take]])
    fix slice
    show "reads (if utf8_valid slice then sm_return (bytes_str slice) else sm_fail InvalidUtf8)
        (\<lambda>bs s. utf8_valid slice \<and> bs = [] \<and> s = bytes_str slice)"
      by (auto intro: reads_cong [OF reads_return] reads_cong [OF reads_fail])
  next
    fix bs s
    show "(\<exists>x b1 b2. bs = b1 @ b2 \<and> (length b1 = n \<and> x = b1) \<and>
        utf8_valid x \<and> b2 = [] \<and> s = bytes_str x)
      \<longleftrightarrow> length s = n \<and> rust_str s \<and> bs = str_bytes s"
      by (auto simp: rust_str_def)
  qed
  have whole: "reads (let n = unat p in
       if n > MAX_STRING_BYTES then sm_fail (LimitExceeded MAX_STRING_BYTES n)
       else sm_bind (rd_take n) (\<lambda>slice.
         if utf8_valid slice then sm_return (bytes_str slice) else sm_fail InvalidUtf8))
     (\<lambda>bs s. unat p \<le> MAX_STRING_BYTES \<and> length s = unat p \<and> rust_str s \<and> bs = str_bytes s)"
    for p :: u32
    by (auto simp: Let_def intro: reads_cong [OF tail] reads_cong [OF reads_fail])
  have lim: "MAX_STRING_BYTES < 2 ^ 32" by (simp add: MAX_STRING_BYTES_def)
  show "reads get_str (\<lambda>bs s. str_fits s \<and> rust_str s \<and> bs = enc_str s)"
    unfolding get_str_def
  proof (rule reads_cong [OF reads_bind [OF u32_field.get_reads whole]])
    fix bs s
    show "(\<exists>(x :: u32) b1 b2. bs = b1 @ b2 \<and> (True \<and> True \<and> b1 = to_be_bytes x) \<and>
        unat x \<le> MAX_STRING_BYTES \<and> length s = unat x \<and> rust_str s \<and> b2 = str_bytes s)
      \<longleftrightarrow> str_fits s \<and> rust_str s \<and> bs = enc_str s"
      (is "?l \<longleftrightarrow> ?r")
    proof
      assume ?l
      then show ?r by (auto simp: str_fits_def enc_str_def len_bytes_unat)
    next
      assume ?r
      then have "unat (word_of_nat (length s) :: u32) = length s"
        using lim by (simp add: str_fits_def unat_of_nat)
      with \<open>?r\<close> show ?l
        by (intro exI [of _ "word_of_nat (length s)"])
           (simp add: str_fits_def enc_str_def len_bytes_def)
    qed
  qed
qed

end
