(* ===== verification/Protocol_Messages.thy ===== *)
theory Protocol_Messages
  imports Protocol_Codec
begin

text \<open>
  The data that crosses the engine boundary: the identifiers of \<open>engine_protocol/ids.rs\<close>, the
  capability and modifier bitsets, and the enums, structs, commands and events of
  \<open>engine_protocol/message.rs\<close>. The enums with a wire discriminant carry the two functions the
  \<open>byte_enum!\<close> macro generates; the locale \<open>byte_enum\<close> is what the wire layer relies on.
  Constructors keep the source's variant names, prefixed where two enums share one.
\<close>

section \<open>Identifiers\<close>

datatype engine_instance_id = EngineInstanceId (engine_instance_get: u64)
datatype view_id = ViewId (view_get: u64)
datatype profile_id = ProfileId (profile_get: u64)
datatype request_id = RequestId (request_get: u64)
datatype frame_generation = FrameGeneration (generation_get: u64)

text \<open>\<open>FrameGeneration\<close> derives \<open>Ord\<close>: the order of the counter.\<close>

instantiation frame_generation :: linorder
begin

definition less_eq_frame_generation :: "frame_generation \<Rightarrow> frame_generation \<Rightarrow> bool" where
  "less_eq_frame_generation a b \<longleftrightarrow> generation_get a \<le> generation_get b"

definition less_frame_generation :: "frame_generation \<Rightarrow> frame_generation \<Rightarrow> bool" where
  "less_frame_generation a b \<longleftrightarrow> generation_get a < generation_get b"

instance
  by standard
     (auto simp: less_eq_frame_generation_def less_frame_generation_def
       intro: frame_generation.expand)

end

definition FRAME_GENERATION_FIRST :: frame_generation where
  "FRAME_GENERATION_FIRST = FrameGeneration 1"

definition frame_generation_next :: "frame_generation \<Rightarrow> frame_generation" where
  "frame_generation_next g = FrameGeneration (saturating_add (generation_get g) 1)"

lemma generation_next_unat:
  "unat (generation_get (frame_generation_next g)) = min (Suc (unat (generation_get g))) (2 ^ 64 - 1)"
  by (simp add: frame_generation_next_def unat_saturating_add)

text \<open>
  The counter never goes backwards, and it strictly advances until it reaches the largest value.
\<close>

lemma generation_next_ge: "g \<le> frame_generation_next g"
proof -
  have "unat (generation_get g) \<le> 2 ^ 64 - 1"
    using unsigned_less [of "generation_get g", where ?'a = nat] by simp
  then show ?thesis
    by (simp add: less_eq_frame_generation_def word_le_nat_alt generation_next_unat)
qed

lemma generation_next_gt:
  "generation_get g \<noteq> - 1 \<Longrightarrow> g < frame_generation_next g"
proof -
  assume "generation_get g \<noteq> - 1"
  then have "unat (generation_get g) \<noteq> unat (- 1 :: u64)" by (simp only: word_unat_eq_iff) simp
  moreover have "unat (- 1 :: u64) = 2 ^ 64 - 1"
    by (simp add: unsigned_minus_1_eq_mask mask_eq_exp_minus_1)
  moreover have "unat (generation_get g) \<le> 2 ^ 64 - 1"
    using unsigned_less [of "generation_get g", where ?'a = nat] by simp
  ultimately show ?thesis
    by (simp add: less_frame_generation_def word_less_nat_alt generation_next_unat)
qed

section \<open>Bitsets\<close>

unbundle bit_operations_syntax

text \<open>Keyboard modifiers.\<close>

datatype modifiers = Modifiers (modifiers_bits: u8)

definition modifiers_from_bits :: "u8 \<Rightarrow> modifiers" where
  "modifiers_from_bits b = Modifiers b"

definition MODIFIERS_NONE :: modifiers where "MODIFIERS_NONE = Modifiers 0"
definition MODIFIERS_SHIFT :: modifiers where "MODIFIERS_SHIFT = Modifiers 1"
definition MODIFIERS_CTRL :: modifiers where "MODIFIERS_CTRL = Modifiers 2"
definition MODIFIERS_ALT :: modifiers where "MODIFIERS_ALT = Modifiers 4"
definition MODIFIERS_META :: modifiers where "MODIFIERS_META = Modifiers 8"

definition modifiers_contains :: "modifiers \<Rightarrow> modifiers \<Rightarrow> bool" where
  "modifiers_contains a b \<longleftrightarrow> modifiers_bits a AND modifiers_bits b = modifiers_bits b"

definition modifiers_with :: "modifiers \<Rightarrow> modifiers \<Rightarrow> modifiers" where
  "modifiers_with a b = Modifiers (modifiers_bits a OR modifiers_bits b)"

text \<open>Capabilities (\<open>engine_protocol/version.rs\<close>).\<close>

datatype capabilities = Capabilities (capabilities_bits: u64)

definition capabilities_from_bits :: "u64 \<Rightarrow> capabilities" where
  "capabilities_from_bits b = Capabilities b"

definition CAPABILITIES_EMPTY :: capabilities where "CAPABILITIES_EMPTY = Capabilities 0"
definition CAP_DMABUF_FRAMES :: capabilities where "CAP_DMABUF_FRAMES = Capabilities (push_bit 0 1)"
definition CAP_DOWNLOADS :: capabilities where "CAP_DOWNLOADS = Capabilities (push_bit 1 1)"
definition CAP_FILE_CHOOSER :: capabilities where "CAP_FILE_CHOOSER = Capabilities (push_bit 2 1)"
definition CAP_IME :: capabilities where "CAP_IME = Capabilities (push_bit 3 1)"
definition CAP_PERMISSIONS :: capabilities where "CAP_PERMISSIONS = Capabilities (push_bit 4 1)"
definition CAP_NEW_VIEW :: capabilities where "CAP_NEW_VIEW = Capabilities (push_bit 5 1)"
definition CAP_STREAMING_FETCH :: capabilities where
  "CAP_STREAMING_FETCH = Capabilities (push_bit 6 1)"
definition CAP_WEBSOCKET :: capabilities where "CAP_WEBSOCKET = Capabilities (push_bit 7 1)"
definition CAP_ACCESSIBILITY :: capabilities where
  "CAP_ACCESSIBILITY = Capabilities (push_bit 8 1)"
definition CAP_DEVTOOLS :: capabilities where "CAP_DEVTOOLS = Capabilities (push_bit 9 1)"

definition capabilities_contains :: "capabilities \<Rightarrow> capabilities \<Rightarrow> bool" where
  "capabilities_contains a b \<longleftrightarrow>
     capabilities_bits a AND capabilities_bits b = capabilities_bits b"

definition capabilities_union :: "capabilities \<Rightarrow> capabilities \<Rightarrow> capabilities" where
  "capabilities_union a b = Capabilities (capabilities_bits a OR capabilities_bits b)"

definition capabilities_intersection :: "capabilities \<Rightarrow> capabilities \<Rightarrow> capabilities" where
  "capabilities_intersection a b = Capabilities (capabilities_bits a AND capabilities_bits b)"

definition capabilities_with :: "capabilities \<Rightarrow> capabilities \<Rightarrow> capabilities" where
  "capabilities_with a b = capabilities_union a b"

text \<open>
  A bitset as the set of its bits: \<open>contains\<close> is inclusion, \<open>union\<close> and \<open>intersection\<close> are
  the set operations. The contract is stated once and holds for both types.
\<close>

locale bitset =
  fixes bits :: "'s \<Rightarrow> 'w::len word"
    and contains :: "'s \<Rightarrow> 's \<Rightarrow> bool"
    and with_bits :: "'s \<Rightarrow> 's \<Rightarrow> 's"
  assumes bits_inject: "bits a = bits b \<Longrightarrow> a = b"
    and contains_and: "contains a b \<longleftrightarrow> bits a AND bits b = bits b"
    and with_or: "bits (with_bits a b) = bits a OR bits b"
begin

lemma contains_subset: "contains a b \<longleftrightarrow> (\<forall>i. bit (bits b) i \<longrightarrow> bit (bits a) i)"
  unfolding contains_and bit_eq_iff bit_and_iff by (metis bit_imp_le_length possible_bit_word)

lemma contains_refl: "contains a a"
  by (simp add: contains_subset)

lemma contains_trans: "contains a b \<Longrightarrow> contains b c \<Longrightarrow> contains a c"
  by (simp add: contains_subset)

lemma contains_antisym: "contains a b \<Longrightarrow> contains b a \<Longrightarrow> a = b"
  by (rule bits_inject) (auto simp: contains_subset bit_eq_iff)

lemma with_contains: "contains (with_bits a b) c \<longleftrightarrow> (\<forall>i. bit (bits c) i \<longrightarrow> bit (bits a) i \<or> bit (bits b) i)"
  by (simp add: contains_subset with_or bit_or_iff)

lemma with_least: "contains c (with_bits a b) \<longleftrightarrow> contains c a \<and> contains c b"
  by (auto simp: contains_subset with_or bit_or_iff)

end

interpretation modifiers_set: bitset modifiers_bits modifiers_contains modifiers_with
  by unfold_locales (simp_all add: modifiers.expand modifiers_contains_def modifiers_with_def)

interpretation capabilities_set:
  bitset capabilities_bits capabilities_contains capabilities_with
  by unfold_locales
     (simp_all add: capabilities.expand capabilities_contains_def capabilities_with_def
       capabilities_union_def)

lemma intersection_greatest:
  "capabilities_contains (capabilities_intersection a b) c \<longleftrightarrow>
     capabilities_contains a c \<and> capabilities_contains b c"
  by (auto simp: capabilities_set.contains_subset capabilities_intersection_def bit_and_iff)

section \<open>Enums with a wire discriminant\<close>

text \<open>Where a view is in its load.\<close>

datatype load_state =
    LoadIdle
  | LoadStarted
  | LoadCommitted
  | LoadInteractive
  | LoadComplete
  | LoadFailed

fun load_state_to_u8 :: "load_state \<Rightarrow> u8" where
  "load_state_to_u8 LoadIdle = 0"
| "load_state_to_u8 LoadStarted = 1"
| "load_state_to_u8 LoadCommitted = 2"
| "load_state_to_u8 LoadInteractive = 3"
| "load_state_to_u8 LoadComplete = 4"
| "load_state_to_u8 LoadFailed = 5"

definition load_state_from_u8 :: "u8 \<Rightarrow> load_state option" where
  "load_state_from_u8 v =
     (if v = 0 then Some LoadIdle
      else if v = 1 then Some LoadStarted
      else if v = 2 then Some LoadCommitted
      else if v = 3 then Some LoadInteractive
      else if v = 4 then Some LoadComplete
      else if v = 5 then Some LoadFailed
      else None)"

text \<open>The cursor a view requests.\<close>

datatype cursor_kind =
    CursorDefault
  | CursorPointer
  | CursorText
  | CursorWait
  | CursorProgress
  | CursorCrosshair
  | CursorNotAllowed
  | CursorGrab
  | CursorGrabbing

fun cursor_kind_to_u8 :: "cursor_kind \<Rightarrow> u8" where
  "cursor_kind_to_u8 CursorDefault = 0"
| "cursor_kind_to_u8 CursorPointer = 1"
| "cursor_kind_to_u8 CursorText = 2"
| "cursor_kind_to_u8 CursorWait = 3"
| "cursor_kind_to_u8 CursorProgress = 4"
| "cursor_kind_to_u8 CursorCrosshair = 5"
| "cursor_kind_to_u8 CursorNotAllowed = 6"
| "cursor_kind_to_u8 CursorGrab = 7"
| "cursor_kind_to_u8 CursorGrabbing = 8"

definition cursor_kind_from_u8 :: "u8 \<Rightarrow> cursor_kind option" where
  "cursor_kind_from_u8 v =
     (if v = 0 then Some CursorDefault
      else if v = 1 then Some CursorPointer
      else if v = 2 then Some CursorText
      else if v = 3 then Some CursorWait
      else if v = 4 then Some CursorProgress
      else if v = 5 then Some CursorCrosshair
      else if v = 6 then Some CursorNotAllowed
      else if v = 7 then Some CursorGrab
      else if v = 8 then Some CursorGrabbing
      else None)"

text \<open>The kind of a pointer input.\<close>

datatype pointer_kind =
    PointerDown
  | PointerUp
  | PointerMove
  | PointerEnter
  | PointerLeave
  | PointerWheel

fun pointer_kind_to_u8 :: "pointer_kind \<Rightarrow> u8" where
  "pointer_kind_to_u8 PointerDown = 0"
| "pointer_kind_to_u8 PointerUp = 1"
| "pointer_kind_to_u8 PointerMove = 2"
| "pointer_kind_to_u8 PointerEnter = 3"
| "pointer_kind_to_u8 PointerLeave = 4"
| "pointer_kind_to_u8 PointerWheel = 5"

definition pointer_kind_from_u8 :: "u8 \<Rightarrow> pointer_kind option" where
  "pointer_kind_from_u8 v =
     (if v = 0 then Some PointerDown
      else if v = 1 then Some PointerUp
      else if v = 2 then Some PointerMove
      else if v = 3 then Some PointerEnter
      else if v = 4 then Some PointerLeave
      else if v = 5 then Some PointerWheel
      else None)"

text \<open>A pointer button.\<close>

datatype mouse_button =
    ButtonNone
  | ButtonLeft
  | ButtonMiddle
  | ButtonRight

fun mouse_button_to_u8 :: "mouse_button \<Rightarrow> u8" where
  "mouse_button_to_u8 ButtonNone = 0"
| "mouse_button_to_u8 ButtonLeft = 1"
| "mouse_button_to_u8 ButtonMiddle = 2"
| "mouse_button_to_u8 ButtonRight = 3"

definition mouse_button_from_u8 :: "u8 \<Rightarrow> mouse_button option" where
  "mouse_button_from_u8 v =
     (if v = 0 then Some ButtonNone
      else if v = 1 then Some ButtonLeft
      else if v = 2 then Some ButtonMiddle
      else if v = 3 then Some ButtonRight
      else None)"

text \<open>The kind of a key input.\<close>

datatype key_kind =
    KeyDown
  | KeyUp

fun key_kind_to_u8 :: "key_kind \<Rightarrow> u8" where
  "key_kind_to_u8 KeyDown = 0"
| "key_kind_to_u8 KeyUp = 1"

definition key_kind_from_u8 :: "u8 \<Rightarrow> key_kind option" where
  "key_kind_from_u8 v =
     (if v = 0 then Some KeyDown
      else if v = 1 then Some KeyUp
      else None)"

text \<open>The phase of an input-method composition.\<close>

datatype ime_kind =
    ImePreedit
  | ImeCommit
  | ImeCancel

fun ime_kind_to_u8 :: "ime_kind \<Rightarrow> u8" where
  "ime_kind_to_u8 ImePreedit = 0"
| "ime_kind_to_u8 ImeCommit = 1"
| "ime_kind_to_u8 ImeCancel = 2"

definition ime_kind_from_u8 :: "u8 \<Rightarrow> ime_kind option" where
  "ime_kind_from_u8 v =
     (if v = 0 then Some ImePreedit
      else if v = 1 then Some ImeCommit
      else if v = 2 then Some ImeCancel
      else None)"

text \<open>A permission a view asks for.\<close>

datatype permission_kind =
    PermissionGeolocation
  | PermissionNotifications
  | PermissionCamera
  | PermissionMicrophone
  | PermissionClipboardRead
  | PermissionClipboardWrite
  | PermissionMidiSysex
  | PermissionStorage

fun permission_kind_to_u8 :: "permission_kind \<Rightarrow> u8" where
  "permission_kind_to_u8 PermissionGeolocation = 0"
| "permission_kind_to_u8 PermissionNotifications = 1"
| "permission_kind_to_u8 PermissionCamera = 2"
| "permission_kind_to_u8 PermissionMicrophone = 3"
| "permission_kind_to_u8 PermissionClipboardRead = 4"
| "permission_kind_to_u8 PermissionClipboardWrite = 5"
| "permission_kind_to_u8 PermissionMidiSysex = 6"
| "permission_kind_to_u8 PermissionStorage = 7"

definition permission_kind_from_u8 :: "u8 \<Rightarrow> permission_kind option" where
  "permission_kind_from_u8 v =
     (if v = 0 then Some PermissionGeolocation
      else if v = 1 then Some PermissionNotifications
      else if v = 2 then Some PermissionCamera
      else if v = 3 then Some PermissionMicrophone
      else if v = 4 then Some PermissionClipboardRead
      else if v = 5 then Some PermissionClipboardWrite
      else if v = 6 then Some PermissionMidiSysex
      else if v = 7 then Some PermissionStorage
      else None)"

text \<open>The answer to a permission request.\<close>

datatype permission_decision =
    DecisionGrant
  | DecisionDeny

fun permission_decision_to_u8 :: "permission_decision \<Rightarrow> u8" where
  "permission_decision_to_u8 DecisionGrant = 0"
| "permission_decision_to_u8 DecisionDeny = 1"

definition permission_decision_from_u8 :: "u8 \<Rightarrow> permission_decision option" where
  "permission_decision_from_u8 v =
     (if v = 0 then Some DecisionGrant
      else if v = 1 then Some DecisionDeny
      else None)"

text \<open>Why an engine or view stopped abnormally.\<close>

datatype crash_reason =
    CrashPanic
  | CrashOutOfMemory
  | CrashKilled
  | CrashProtocolViolation
  | CrashTimeout

fun crash_reason_to_u8 :: "crash_reason \<Rightarrow> u8" where
  "crash_reason_to_u8 CrashPanic = 0"
| "crash_reason_to_u8 CrashOutOfMemory = 1"
| "crash_reason_to_u8 CrashKilled = 2"
| "crash_reason_to_u8 CrashProtocolViolation = 3"
| "crash_reason_to_u8 CrashTimeout = 4"

definition crash_reason_from_u8 :: "u8 \<Rightarrow> crash_reason option" where
  "crash_reason_from_u8 v =
     (if v = 0 then Some CrashPanic
      else if v = 1 then Some CrashOutOfMemory
      else if v = 2 then Some CrashKilled
      else if v = 3 then Some CrashProtocolViolation
      else if v = 4 then Some CrashTimeout
      else None)"

text \<open>What the wire layer relies on: parsing inverts printing, and accepts nothing else.\<close>

locale byte_enum =
  fixes to_u8 :: "'a \<Rightarrow> u8"
    and from_u8 :: "u8 \<Rightarrow> 'a option"
  assumes from_to: "from_u8 (to_u8 x) = Some x"
    and to_from: "from_u8 v = Some x \<Longrightarrow> v = to_u8 x"
begin

lemma from_iff: "from_u8 v = Some x \<longleftrightarrow> v = to_u8 x"
  using from_to to_from by blast

lemma to_inject: "to_u8 x = to_u8 y \<longleftrightarrow> x = y"
  by (metis from_to option.inject)

end

interpretation load_state_byte: byte_enum load_state_to_u8 load_state_from_u8
proof
  show "load_state_from_u8 (load_state_to_u8 x) = Some x" for x
    by (cases x) (simp_all add: load_state_from_u8_def)
  show "load_state_from_u8 v = Some x \<Longrightarrow> v = load_state_to_u8 x" for v x
    by (auto simp: load_state_from_u8_def split: if_splits)
qed

interpretation cursor_kind_byte: byte_enum cursor_kind_to_u8 cursor_kind_from_u8
proof
  show "cursor_kind_from_u8 (cursor_kind_to_u8 x) = Some x" for x
    by (cases x) (simp_all add: cursor_kind_from_u8_def)
  show "cursor_kind_from_u8 v = Some x \<Longrightarrow> v = cursor_kind_to_u8 x" for v x
    by (auto simp: cursor_kind_from_u8_def split: if_splits)
qed

interpretation pointer_kind_byte: byte_enum pointer_kind_to_u8 pointer_kind_from_u8
proof
  show "pointer_kind_from_u8 (pointer_kind_to_u8 x) = Some x" for x
    by (cases x) (simp_all add: pointer_kind_from_u8_def)
  show "pointer_kind_from_u8 v = Some x \<Longrightarrow> v = pointer_kind_to_u8 x" for v x
    by (auto simp: pointer_kind_from_u8_def split: if_splits)
qed

interpretation mouse_button_byte: byte_enum mouse_button_to_u8 mouse_button_from_u8
proof
  show "mouse_button_from_u8 (mouse_button_to_u8 x) = Some x" for x
    by (cases x) (simp_all add: mouse_button_from_u8_def)
  show "mouse_button_from_u8 v = Some x \<Longrightarrow> v = mouse_button_to_u8 x" for v x
    by (auto simp: mouse_button_from_u8_def split: if_splits)
qed

interpretation key_kind_byte: byte_enum key_kind_to_u8 key_kind_from_u8
proof
  show "key_kind_from_u8 (key_kind_to_u8 x) = Some x" for x
    by (cases x) (simp_all add: key_kind_from_u8_def)
  show "key_kind_from_u8 v = Some x \<Longrightarrow> v = key_kind_to_u8 x" for v x
    by (auto simp: key_kind_from_u8_def split: if_splits)
qed

interpretation ime_kind_byte: byte_enum ime_kind_to_u8 ime_kind_from_u8
proof
  show "ime_kind_from_u8 (ime_kind_to_u8 x) = Some x" for x
    by (cases x) (simp_all add: ime_kind_from_u8_def)
  show "ime_kind_from_u8 v = Some x \<Longrightarrow> v = ime_kind_to_u8 x" for v x
    by (auto simp: ime_kind_from_u8_def split: if_splits)
qed

interpretation permission_kind_byte: byte_enum permission_kind_to_u8 permission_kind_from_u8
proof
  show "permission_kind_from_u8 (permission_kind_to_u8 x) = Some x" for x
    by (cases x) (simp_all add: permission_kind_from_u8_def)
  show "permission_kind_from_u8 v = Some x \<Longrightarrow> v = permission_kind_to_u8 x" for v x
    by (auto simp: permission_kind_from_u8_def split: if_splits)
qed

interpretation permission_decision_byte: byte_enum permission_decision_to_u8 permission_decision_from_u8
proof
  show "permission_decision_from_u8 (permission_decision_to_u8 x) = Some x" for x
    by (cases x) (simp_all add: permission_decision_from_u8_def)
  show "permission_decision_from_u8 v = Some x \<Longrightarrow> v = permission_decision_to_u8 x" for v x
    by (auto simp: permission_decision_from_u8_def split: if_splits)
qed

interpretation crash_reason_byte: byte_enum crash_reason_to_u8 crash_reason_from_u8
proof
  show "crash_reason_from_u8 (crash_reason_to_u8 x) = Some x" for x
    by (cases x) (simp_all add: crash_reason_from_u8_def)
  show "crash_reason_from_u8 v = Some x \<Longrightarrow> v = crash_reason_to_u8 x" for v x
    by (auto simp: crash_reason_from_u8_def split: if_splits)
qed

section \<open>Structs, input, commands and events\<close>

record viewport =
  vp_width :: u32
  vp_height :: u32
  scale_permille :: u16

record damage_rect =
  rect_x :: u32
  rect_y :: u32
  rect_width :: u32
  rect_height :: u32

datatype input_event =
    is_Pointer: Pointer (ptr_kind: pointer_kind) (ptr_x: i32) (ptr_y: i32) (ptr_button: mouse_button)
      (wheel_x: i32) (wheel_y: i32)
  | Key (key_phase: key_kind) (key_code: u32) (key_modifiers: modifiers)
  | Text (text_text: string)
  | is_Ime: Ime (ime_phase: ime_kind) (ime_text: string) (cursor_begin: u32) (cursor_end: u32)
  | Focus (gained: bool)

record navigation_request =
  nav_url :: string

record engine_metrics =
  input_to_submit_us :: u64
  rss_bytes :: u64
  frame_copies :: u32

datatype frame_transport =
    SharedMemory (transport_token: u64) (transport_len: u64)
  | Platform (transport_token: u64) (transport_len: u64)

record frame_handle =
  fh_view :: view_id
  fh_generation :: frame_generation
  fh_transport :: frame_transport

datatype command =
    CreateView view_id profile_id viewport
  | CloseView view_id
  | Navigate view_id navigation_request
  | Reload view_id
  | Stop view_id
  | Resize view_id viewport
  | SetVisible view_id bool
  | Input view_id input_event
  | PermissionDecision request_id permission_decision
  | ReleaseFrame view_id frame_generation
  | Shutdown

datatype event =
    ViewCreated view_id
  | ViewClosed view_id
  | LoadStateChanged view_id load_state
  | UrlChanged view_id string
  | TitleChanged view_id string
  | CursorChanged view_id cursor_kind
  | StatusChanged view_id string
  | ProgressChanged view_id u16
  | PermissionRequested request_id view_id permission_kind string
  | DownloadRequested request_id view_id string string
  | FileChooserRequested request_id view_id bool
  | NewViewRequested request_id view_id string
  | FrameReady frame_handle "damage_rect list"
  | Crashed view_id crash_reason
  | Hang view_id u64
  | CapabilityMismatch view_id capabilities
  | Metrics view_id engine_metrics

datatype message = MCommand command | MEvent event

end
