(* ===== verification/Protocol_Wire.thy ===== *)
theory Protocol_Wire
  imports Protocol_Messages
begin

text \<open>
  Envelope framing and message serialization, \<open>engine_protocol/wire.rs\<close>: the ten-byte header,
  the field helpers, the body writers and readers of every command and event, \<open>encode\<close>,
  \<open>decode\<close> and \<open>envelope_body_len\<close>. \<open>command_body\<close> and \<open>event_body\<close> give the byte layout of
  each message; the writers are shown to produce it and the readers to accept exactly it.
\<close>

section \<open>Constants\<close>

definition WIRE_VERSION :: u8 where "WIRE_VERSION = 1"

definition MAGIC :: "u8 list" where "MAGIC = [0x53, 0x53]"

definition KIND_COMMAND :: u8 where "KIND_COMMAND = 0"

definition KIND_EVENT :: u8 where "KIND_EVENT = 1"

definition ENVELOPE_HEADER_BYTES :: nat where
  "ENVELOPE_HEADER_BYTES = length MAGIC + 1 + 1 + 2 + 4"

text \<open>The modules \<open>cmd\<close> and \<open>evt\<close>: one number per message type.\<close>

definition CMD_CREATE_VIEW :: u16 where "CMD_CREATE_VIEW = 1"
definition CMD_CLOSE_VIEW :: u16 where "CMD_CLOSE_VIEW = 2"
definition CMD_NAVIGATE :: u16 where "CMD_NAVIGATE = 3"
definition CMD_RELOAD :: u16 where "CMD_RELOAD = 4"
definition CMD_STOP :: u16 where "CMD_STOP = 5"
definition CMD_RESIZE :: u16 where "CMD_RESIZE = 6"
definition CMD_SET_VISIBLE :: u16 where "CMD_SET_VISIBLE = 7"
definition CMD_INPUT :: u16 where "CMD_INPUT = 8"
definition CMD_PERMISSION_DECISION :: u16 where "CMD_PERMISSION_DECISION = 9"
definition CMD_RELEASE_FRAME :: u16 where "CMD_RELEASE_FRAME = 10"
definition CMD_SHUTDOWN :: u16 where "CMD_SHUTDOWN = 11"

definition EVT_VIEW_CREATED :: u16 where "EVT_VIEW_CREATED = 1"
definition EVT_VIEW_CLOSED :: u16 where "EVT_VIEW_CLOSED = 2"
definition EVT_LOAD_STATE_CHANGED :: u16 where "EVT_LOAD_STATE_CHANGED = 3"
definition EVT_URL_CHANGED :: u16 where "EVT_URL_CHANGED = 4"
definition EVT_TITLE_CHANGED :: u16 where "EVT_TITLE_CHANGED = 5"
definition EVT_CURSOR_CHANGED :: u16 where "EVT_CURSOR_CHANGED = 6"
definition EVT_STATUS_CHANGED :: u16 where "EVT_STATUS_CHANGED = 7"
definition EVT_PROGRESS_CHANGED :: u16 where "EVT_PROGRESS_CHANGED = 8"
definition EVT_PERMISSION_REQUESTED :: u16 where "EVT_PERMISSION_REQUESTED = 9"
definition EVT_DOWNLOAD_REQUESTED :: u16 where "EVT_DOWNLOAD_REQUESTED = 10"
definition EVT_FILE_CHOOSER_REQUESTED :: u16 where "EVT_FILE_CHOOSER_REQUESTED = 11"
definition EVT_NEW_VIEW_REQUESTED :: u16 where "EVT_NEW_VIEW_REQUESTED = 12"
definition EVT_FRAME_READY :: u16 where "EVT_FRAME_READY = 13"
definition EVT_CRASHED :: u16 where "EVT_CRASHED = 14"
definition EVT_HANG :: u16 where "EVT_HANG = 15"
definition EVT_CAPABILITY_MISMATCH :: u16 where "EVT_CAPABILITY_MISMATCH = 16"
definition EVT_METRICS :: u16 where "EVT_METRICS = 17"

lemmas cmd_codes =
  CMD_CREATE_VIEW_def CMD_CLOSE_VIEW_def CMD_NAVIGATE_def CMD_RELOAD_def CMD_STOP_def
  CMD_RESIZE_def CMD_SET_VISIBLE_def CMD_INPUT_def CMD_PERMISSION_DECISION_def
  CMD_RELEASE_FRAME_def CMD_SHUTDOWN_def

lemmas evt_codes =
  EVT_VIEW_CREATED_def EVT_VIEW_CLOSED_def EVT_LOAD_STATE_CHANGED_def EVT_URL_CHANGED_def
  EVT_TITLE_CHANGED_def EVT_CURSOR_CHANGED_def EVT_STATUS_CHANGED_def EVT_PROGRESS_CHANGED_def
  EVT_PERMISSION_REQUESTED_def EVT_DOWNLOAD_REQUESTED_def EVT_FILE_CHOOSER_REQUESTED_def
  EVT_NEW_VIEW_REQUESTED_def EVT_FRAME_READY_def EVT_CRASHED_def EVT_HANG_def
  EVT_CAPABILITY_MISMATCH_def EVT_METRICS_def

section \<open>Field helpers\<close>

definition put_bool :: "bool \<Rightarrow> byte_writer \<Rightarrow> byte_writer" where
  "put_bool v = put_u8 (if v then 1 else 0)"

definition get_bool :: "u16 \<Rightarrow> bool read_op" where
  "get_bool message_type =
     sm_bind get_u8 (\<lambda>v.
       if v = 0 then sm_return False
       else if v = 1 then sm_return True
       else sm_fail (BadDiscriminant message_type v))"

definition get_enum :: "u16 \<Rightarrow> (u8 \<Rightarrow> 'a option) \<Rightarrow> 'a read_op" where
  "get_enum message_type parse =
     sm_bind get_u8 (\<lambda>v.
       case parse v of
         Some x \<Rightarrow> sm_return x
       | None \<Rightarrow> sm_fail (BadDiscriminant message_type v))"

definition put_viewport :: "viewport \<Rightarrow> byte_writer \<Rightarrow> byte_writer" where
  "put_viewport vp w =
     put_u16 (scale_permille vp) (put_u32 (vp_height vp) (put_u32 (vp_width vp) w))"

definition get_viewport :: "viewport read_op" where
  "get_viewport =
     sm_bind get_u32 (\<lambda>width.
     sm_bind get_u32 (\<lambda>height.
     sm_bind get_u16 (\<lambda>scale.
     sm_return \<lparr>vp_width = width, vp_height = height, scale_permille = scale\<rparr>)))"

fun put_input :: "input_event \<Rightarrow> write_op" where
  "put_input (Pointer kind x y button wx wy) =
     sm_then (sm_do (put_u8 0))
    (sm_then (sm_do (put_u8 (pointer_kind_to_u8 kind)))
    (sm_then (sm_do (put_i32 x))
    (sm_then (sm_do (put_i32 y))
    (sm_then (sm_do (put_u8 (mouse_button_to_u8 button)))
    (sm_then (sm_do (put_i32 wx))
             (sm_do (put_i32 wy)))))))"
| "put_input (Key kind code mods) =
     sm_then (sm_do (put_u8 1))
    (sm_then (sm_do (put_u8 (key_kind_to_u8 kind)))
    (sm_then (sm_do (put_u32 code))
             (sm_do (put_u8 (modifiers_bits mods)))))"
| "put_input (Text text) =
     sm_then (sm_do (put_u8 2)) (put_str text)"
| "put_input (Ime kind text cbegin cend) =
     sm_then (sm_do (put_u8 3))
    (sm_then (sm_do (put_u8 (ime_kind_to_u8 kind)))
    (sm_then (put_str text)
    (sm_then (sm_do (put_u32 cbegin))
             (sm_do (put_u32 cend)))))"
| "put_input (Focus g) =
     sm_then (sm_do (put_u8 4)) (sm_do (put_bool g))"

definition read_pointer :: "u16 \<Rightarrow> input_event read_op" where
  "read_pointer message_type =
     sm_bind (get_enum message_type pointer_kind_from_u8) (\<lambda>kind.
     sm_bind get_i32 (\<lambda>x.
     sm_bind get_i32 (\<lambda>y.
     sm_bind (get_enum message_type mouse_button_from_u8) (\<lambda>button.
     sm_bind get_i32 (\<lambda>wx.
     sm_bind get_i32 (\<lambda>wy.
     sm_return (Pointer kind x y button wx wy)))))))"

definition read_ime :: "u16 \<Rightarrow> input_event read_op" where
  "read_ime message_type =
     sm_bind (get_enum message_type ime_kind_from_u8) (\<lambda>kind.
     sm_bind get_str (\<lambda>text.
     sm_bind get_u32 (\<lambda>cbegin.
     sm_bind get_u32 (\<lambda>cend.
     sm_return (Ime kind text cbegin cend)))))"

definition get_input :: "u16 \<Rightarrow> input_event read_op" where
  "get_input message_type =
     sm_bind get_u8 (\<lambda>tag.
       if tag = 0 then read_pointer message_type
       else if tag = 1 then
         sm_bind (get_enum message_type key_kind_from_u8) (\<lambda>kind.
         sm_bind get_u32 (\<lambda>code.
         sm_bind get_u8 (\<lambda>mods.
         sm_return (Key kind code (modifiers_from_bits mods)))))
       else if tag = 2 then sm_bind get_str (\<lambda>text. sm_return (Text text))
       else if tag = 3 then read_ime message_type
       else if tag = 4 then sm_bind (get_bool message_type) (\<lambda>g. sm_return (Focus g))
       else sm_fail (BadDiscriminant message_type tag))"

fun put_transport :: "frame_transport \<Rightarrow> byte_writer \<Rightarrow> byte_writer" where
  "put_transport (SharedMemory token n) w = put_u64 n (put_u64 token (put_u8 0 w))"
| "put_transport (Platform token n) w = put_u64 n (put_u64 token (put_u8 1 w))"

definition get_transport :: "u16 \<Rightarrow> frame_transport read_op" where
  "get_transport message_type =
     sm_bind get_u8 (\<lambda>tag.
       if tag = 0 then
         sm_bind get_u64 (\<lambda>token. sm_bind get_u64 (\<lambda>n. sm_return (SharedMemory token n)))
       else if tag = 1 then
         sm_bind get_u64 (\<lambda>token. sm_bind get_u64 (\<lambda>n. sm_return (Platform token n)))
       else sm_fail (BadDiscriminant message_type tag))"

definition put_frame_handle :: "frame_handle \<Rightarrow> byte_writer \<Rightarrow> byte_writer" where
  "put_frame_handle h w =
     put_transport (fh_transport h)
       (put_u64 (generation_get (fh_generation h)) (put_u64 (view_get (fh_view h)) w))"

definition get_frame_handle :: "u16 \<Rightarrow> frame_handle read_op" where
  "get_frame_handle message_type =
     sm_bind get_u64 (\<lambda>v.
     sm_bind get_u64 (\<lambda>g.
     sm_bind (get_transport message_type) (\<lambda>t.
     sm_return \<lparr>fh_view = ViewId v, fh_generation = FrameGeneration g, fh_transport = t\<rparr>)))"

section \<open>Commands\<close>

fun command_type :: "command \<Rightarrow> u16" where
  "command_type (CreateView _ _ _) = CMD_CREATE_VIEW"
| "command_type (CloseView _) = CMD_CLOSE_VIEW"
| "command_type (Navigate _ _) = CMD_NAVIGATE"
| "command_type (Reload _) = CMD_RELOAD"
| "command_type (Stop _) = CMD_STOP"
| "command_type (Resize _ _) = CMD_RESIZE"
| "command_type (SetVisible _ _) = CMD_SET_VISIBLE"
| "command_type (Input _ _) = CMD_INPUT"
| "command_type (PermissionDecision _ _) = CMD_PERMISSION_DECISION"
| "command_type (ReleaseFrame _ _) = CMD_RELEASE_FRAME"
| "command_type Shutdown = CMD_SHUTDOWN"

fun encode_command_body :: "command \<Rightarrow> write_op" where
  "encode_command_body (CreateView v p vp) =
     sm_then (sm_do (put_u64 (view_get v)))
    (sm_then (sm_do (put_u64 (profile_get p)))
             (sm_do (put_viewport vp)))"
| "encode_command_body (CloseView v) = sm_do (put_u64 (view_get v))"
| "encode_command_body (Reload v) = sm_do (put_u64 (view_get v))"
| "encode_command_body (Stop v) = sm_do (put_u64 (view_get v))"
| "encode_command_body (Navigate v req) =
     sm_then (sm_do (put_u64 (view_get v))) (put_str (nav_url req))"
| "encode_command_body (Resize v vp) =
     sm_then (sm_do (put_u64 (view_get v))) (sm_do (put_viewport vp))"
| "encode_command_body (SetVisible v b) =
     sm_then (sm_do (put_u64 (view_get v))) (sm_do (put_bool b))"
| "encode_command_body (Input v e) =
     sm_then (sm_do (put_u64 (view_get v))) (put_input e)"
| "encode_command_body (PermissionDecision req d) =
     sm_then (sm_do (put_u64 (request_get req)))
             (sm_do (put_u8 (permission_decision_to_u8 d)))"
| "encode_command_body (ReleaseFrame v g) =
     sm_then (sm_do (put_u64 (view_get v))) (sm_do (put_u64 (generation_get g)))"
| "encode_command_body Shutdown = sm_return ()"

definition read_view :: "view_id read_op" where
  "read_view = sm_bind get_u64 (\<lambda>v. sm_return (ViewId v))"

definition decode_command_lo :: "u16 \<Rightarrow> command read_op" where
  "decode_command_lo t =
     (if t = CMD_CREATE_VIEW then
        sm_bind read_view (\<lambda>v. sm_bind get_u64 (\<lambda>p. sm_bind get_viewport (\<lambda>vp.
        sm_return (CreateView v (ProfileId p) vp))))
      else if t = CMD_CLOSE_VIEW then sm_bind read_view (\<lambda>v. sm_return (CloseView v))
      else if t = CMD_NAVIGATE then
        sm_bind read_view (\<lambda>v. sm_bind get_str (\<lambda>url.
        sm_return (Navigate v \<lparr>nav_url = url\<rparr>)))
      else if t = CMD_RELOAD then sm_bind read_view (\<lambda>v. sm_return (Reload v))
      else if t = CMD_STOP then sm_bind read_view (\<lambda>v. sm_return (Stop v))
      else if t = CMD_RESIZE then
        sm_bind read_view (\<lambda>v. sm_bind get_viewport (\<lambda>vp. sm_return (Resize v vp)))
      else sm_fail (UnknownMessageType t))"

definition decode_command_hi :: "u16 \<Rightarrow> command read_op" where
  "decode_command_hi t =
     (if t = CMD_SET_VISIBLE then
        sm_bind read_view (\<lambda>v. sm_bind (get_bool t) (\<lambda>b. sm_return (SetVisible v b)))
      else if t = CMD_INPUT then
        sm_bind read_view (\<lambda>v. sm_bind (get_input t) (\<lambda>e. sm_return (Input v e)))
      else if t = CMD_PERMISSION_DECISION then
        sm_bind get_u64 (\<lambda>req. sm_bind (get_enum t permission_decision_from_u8) (\<lambda>d.
        sm_return (PermissionDecision (RequestId req) d)))
      else if t = CMD_RELEASE_FRAME then
        sm_bind read_view (\<lambda>v. sm_bind get_u64 (\<lambda>g.
        sm_return (ReleaseFrame v (FrameGeneration g))))
      else if t = CMD_SHUTDOWN then sm_return Shutdown
      else sm_fail (UnknownMessageType t))"

definition decode_command :: "u16 \<Rightarrow> command read_op" where
  "decode_command t = (if t \<le> CMD_RESIZE then decode_command_lo t else decode_command_hi t)"

section \<open>Events\<close>

fun event_type :: "event \<Rightarrow> u16" where
  "event_type (ViewCreated _) = EVT_VIEW_CREATED"
| "event_type (ViewClosed _) = EVT_VIEW_CLOSED"
| "event_type (LoadStateChanged _ _) = EVT_LOAD_STATE_CHANGED"
| "event_type (UrlChanged _ _) = EVT_URL_CHANGED"
| "event_type (TitleChanged _ _) = EVT_TITLE_CHANGED"
| "event_type (CursorChanged _ _) = EVT_CURSOR_CHANGED"
| "event_type (StatusChanged _ _) = EVT_STATUS_CHANGED"
| "event_type (ProgressChanged _ _) = EVT_PROGRESS_CHANGED"
| "event_type (PermissionRequested _ _ _ _) = EVT_PERMISSION_REQUESTED"
| "event_type (DownloadRequested _ _ _ _) = EVT_DOWNLOAD_REQUESTED"
| "event_type (FileChooserRequested _ _ _) = EVT_FILE_CHOOSER_REQUESTED"
| "event_type (NewViewRequested _ _ _) = EVT_NEW_VIEW_REQUESTED"
| "event_type (FrameReady _ _) = EVT_FRAME_READY"
| "event_type (Crashed _ _) = EVT_CRASHED"
| "event_type (Hang _ _) = EVT_HANG"
| "event_type (CapabilityMismatch _ _) = EVT_CAPABILITY_MISMATCH"
| "event_type (Metrics _ _) = EVT_METRICS"

fun encode_event_body_lo :: "event \<Rightarrow> write_op" where
  "encode_event_body_lo (ViewCreated v) = sm_do (put_u64 (view_get v))"
| "encode_event_body_lo (ViewClosed v) = sm_do (put_u64 (view_get v))"
| "encode_event_body_lo (LoadStateChanged v st) =
     sm_then (sm_do (put_u64 (view_get v))) (sm_do (put_u8 (load_state_to_u8 st)))"
| "encode_event_body_lo (UrlChanged v url) =
     sm_then (sm_do (put_u64 (view_get v))) (put_str url)"
| "encode_event_body_lo (TitleChanged v title) =
     sm_then (sm_do (put_u64 (view_get v))) (put_str title)"
| "encode_event_body_lo (CursorChanged v c) =
     sm_then (sm_do (put_u64 (view_get v))) (sm_do (put_u8 (cursor_kind_to_u8 c)))"
| "encode_event_body_lo (StatusChanged v status) =
     sm_then (sm_do (put_u64 (view_get v))) (put_str status)"
| "encode_event_body_lo (ProgressChanged v permille) =
     sm_then (sm_do (put_u64 (view_get v))) (sm_do (put_u16 permille))"
| "encode_event_body_lo _ = sm_return ()"

definition put_rect :: "damage_rect \<Rightarrow> byte_writer \<Rightarrow> byte_writer" where
  "put_rect rect w =
     put_u32 (rect_height rect) (put_u32 (rect_width rect)
       (put_u32 (rect_y rect) (put_u32 (rect_x rect) w)))"

fun put_rects :: "damage_rect list \<Rightarrow> byte_writer \<Rightarrow> byte_writer" where
  "put_rects [] w = w"
| "put_rects (rect # rects) w = put_rects rects (put_rect rect w)"

fun encode_event_body_hi :: "event \<Rightarrow> write_op" where
  "encode_event_body_hi (PermissionRequested req v kind origin) =
     sm_then (sm_do (put_u64 (request_get req)))
    (sm_then (sm_do (put_u64 (view_get v)))
    (sm_then (sm_do (put_u8 (permission_kind_to_u8 kind)))
             (put_str origin)))"
| "encode_event_body_hi (DownloadRequested req v url name) =
     sm_then (sm_do (put_u64 (request_get req)))
    (sm_then (sm_do (put_u64 (view_get v)))
    (sm_then (put_str url)
             (put_str name)))"
| "encode_event_body_hi (FileChooserRequested req v multiple) =
     sm_then (sm_do (put_u64 (request_get req)))
    (sm_then (sm_do (put_u64 (view_get v)))
             (sm_do (put_bool multiple)))"
| "encode_event_body_hi (NewViewRequested req v url) =
     sm_then (sm_do (put_u64 (request_get req)))
    (sm_then (sm_do (put_u64 (view_get v)))
             (put_str url))"
| "encode_event_body_hi (FrameReady fh damage) =
     sm_then (sm_do (put_frame_handle fh))
    (sm_then (put_len (length damage) MAX_DAMAGE_RECTS)
             (sm_do (put_rects damage)))"
| "encode_event_body_hi (Crashed v reason) =
     sm_then (sm_do (put_u64 (view_get v))) (sm_do (put_u8 (crash_reason_to_u8 reason)))"
| "encode_event_body_hi (Hang v elapsed) =
     sm_then (sm_do (put_u64 (view_get v))) (sm_do (put_u64 elapsed))"
| "encode_event_body_hi (CapabilityMismatch v caps) =
     sm_then (sm_do (put_u64 (view_get v))) (sm_do (put_u64 (capabilities_bits caps)))"
| "encode_event_body_hi (Metrics v m) =
     sm_then (sm_do (put_u64 (view_get v)))
    (sm_then (sm_do (put_u64 (input_to_submit_us m)))
    (sm_then (sm_do (put_u64 (rss_bytes m)))
             (sm_do (put_u32 (frame_copies m)))))"
| "encode_event_body_hi _ = sm_return ()"

definition encode_event_body :: "event \<Rightarrow> write_op" where
  "encode_event_body e =
     (if event_type e \<le> EVT_PROGRESS_CHANGED then encode_event_body_lo e
      else encode_event_body_hi e)"

definition decode_event_lo :: "u16 \<Rightarrow> event read_op" where
  "decode_event_lo t =
     (if t = EVT_VIEW_CREATED then sm_bind get_u64 (\<lambda>v. sm_return (ViewCreated (ViewId v)))
      else if t = EVT_VIEW_CLOSED then sm_bind get_u64 (\<lambda>v. sm_return (ViewClosed (ViewId v)))
      else if t = EVT_LOAD_STATE_CHANGED then
        sm_bind get_u64 (\<lambda>v. sm_bind (get_enum t load_state_from_u8) (\<lambda>st.
        sm_return (LoadStateChanged (ViewId v) st)))
      else if t = EVT_URL_CHANGED then
        sm_bind get_u64 (\<lambda>v. sm_bind get_str (\<lambda>url. sm_return (UrlChanged (ViewId v) url)))
      else if t = EVT_TITLE_CHANGED then
        sm_bind get_u64 (\<lambda>v. sm_bind get_str (\<lambda>title. sm_return (TitleChanged (ViewId v) title)))
      else if t = EVT_CURSOR_CHANGED then
        sm_bind get_u64 (\<lambda>v. sm_bind (get_enum t cursor_kind_from_u8) (\<lambda>c.
        sm_return (CursorChanged (ViewId v) c)))
      else if t = EVT_STATUS_CHANGED then
        sm_bind get_u64 (\<lambda>v. sm_bind get_str (\<lambda>st. sm_return (StatusChanged (ViewId v) st)))
      else if t = EVT_PROGRESS_CHANGED then
        sm_bind get_u64 (\<lambda>v. sm_bind get_u16 (\<lambda>p. sm_return (ProgressChanged (ViewId v) p)))
      else sm_fail (UnknownMessageType t))"

definition decode_event_mid :: "u16 \<Rightarrow> event read_op" where
  "decode_event_mid t =
     (if t = EVT_PERMISSION_REQUESTED then
        sm_bind get_u64 (\<lambda>req. sm_bind read_view (\<lambda>v.
        sm_bind (get_enum t permission_kind_from_u8) (\<lambda>kind. sm_bind get_str (\<lambda>origin.
        sm_return (PermissionRequested (RequestId req) v kind origin)))))
      else if t = EVT_DOWNLOAD_REQUESTED then
        sm_bind get_u64 (\<lambda>req. sm_bind read_view (\<lambda>v. sm_bind get_str (\<lambda>url.
        sm_bind get_str (\<lambda>name. sm_return (DownloadRequested (RequestId req) v url name)))))
      else if t = EVT_FILE_CHOOSER_REQUESTED then
        sm_bind get_u64 (\<lambda>req. sm_bind read_view (\<lambda>v. sm_bind (get_bool t) (\<lambda>multiple.
        sm_return (FileChooserRequested (RequestId req) v multiple))))
      else if t = EVT_NEW_VIEW_REQUESTED then
        sm_bind get_u64 (\<lambda>req. sm_bind read_view (\<lambda>v. sm_bind get_str (\<lambda>url.
        sm_return (NewViewRequested (RequestId req) v url))))
      else sm_fail (UnknownMessageType t))"

definition get_rect :: "damage_rect read_op" where
  "get_rect =
     sm_bind get_u32 (\<lambda>x. sm_bind get_u32 (\<lambda>y. sm_bind get_u32 (\<lambda>width. sm_bind get_u32 (\<lambda>height.
     sm_return \<lparr>rect_x = x, rect_y = y, rect_width = width, rect_height = height\<rparr>))))"

text \<open>The \<open>for _ in 0..count\<close> loop that pushes rectangles.\<close>

fun get_rects :: "nat \<Rightarrow> damage_rect list read_op" where
  "get_rects 0 = sm_return []"
| "get_rects (Suc n) = sm_bind get_rect (\<lambda>rect. sm_bind (get_rects n) (\<lambda>rects.
     sm_return (rect # rects)))"

definition decode_frame_ready :: "u16 \<Rightarrow> event read_op" where
  "decode_frame_ready t =
     sm_bind (get_frame_handle t) (\<lambda>fh. sm_bind (get_len MAX_DAMAGE_RECTS) (\<lambda>count.
     sm_bind (get_rects count) (\<lambda>damage. sm_return (FrameReady fh damage))))"

definition decode_event_hi :: "u16 \<Rightarrow> event read_op" where
  "decode_event_hi t =
     (if t = EVT_FRAME_READY then decode_frame_ready t
      else if t = EVT_CRASHED then
        sm_bind read_view (\<lambda>v. sm_bind (get_enum t crash_reason_from_u8) (\<lambda>reason.
        sm_return (Crashed v reason)))
      else if t = EVT_HANG then
        sm_bind read_view (\<lambda>v. sm_bind get_u64 (\<lambda>elapsed. sm_return (Hang v elapsed)))
      else if t = EVT_CAPABILITY_MISMATCH then
        sm_bind read_view (\<lambda>v. sm_bind get_u64 (\<lambda>bits.
        sm_return (CapabilityMismatch v (capabilities_from_bits bits))))
      else if t = EVT_METRICS then
        sm_bind read_view (\<lambda>v. sm_bind get_u64 (\<lambda>submit. sm_bind get_u64 (\<lambda>rss.
        sm_bind get_u32 (\<lambda>copies.
        sm_return (Metrics v \<lparr>input_to_submit_us = submit, rss_bytes = rss,
                             frame_copies = copies\<rparr>)))))
      else sm_fail (UnknownMessageType t))"

definition decode_event :: "u16 \<Rightarrow> event read_op" where
  "decode_event t =
     (if t \<le> EVT_PROGRESS_CHANGED then decode_event_lo t
      else if t \<le> EVT_NEW_VIEW_REQUESTED then decode_event_mid t
      else decode_event_hi t)"

section \<open>Envelopes\<close>

definition frame :: "u8 \<Rightarrow> u16 \<Rightarrow> u8 list \<Rightarrow> protocol_error + u8 list" where
  "frame kind message_type body =
     (let n = length body in
      if n > MAX_MESSAGE_BYTES then Inl (MessageTooLarge n MAX_MESSAGE_BYTES)
      else res_bind (ok_or (MessageTooLarge n MAX_MESSAGE_BYTES) (u32_try_from n)) (\<lambda>body_len.
        Inr (into_bytes
          (put_bytes body (put_u32 body_len (put_u16 message_type (put_u8 kind
            (put_u8 WIRE_VERSION (put_bytes MAGIC writer_new)))))))))"

definition encode_command :: "command \<Rightarrow> protocol_error + u8 list" where
  "encode_command c =
     (case encode_command_body c writer_new of
        (Inl e, _) \<Rightarrow> Inl e
      | (Inr _, body) \<Rightarrow> frame KIND_COMMAND (command_type c) (into_bytes body))"

definition encode_event :: "event \<Rightarrow> protocol_error + u8 list" where
  "encode_event e =
     (case encode_event_body e writer_new of
        (Inl err, _) \<Rightarrow> Inl err
      | (Inr _, body) \<Rightarrow> frame KIND_EVENT (event_type e) (into_bytes body))"

fun encode :: "message \<Rightarrow> protocol_error + u8 list" where
  "encode (MCommand c) = encode_command c"
| "encode (MEvent e) = encode_event e"

text \<open>The header fields, read in order: kind, message type and body length.\<close>

definition read_header :: "(u8 \<times> u16 \<times> nat) read_op" where
  "read_header =
     sm_bind get_u8 (\<lambda>m0. sm_bind get_u8 (\<lambda>m1.
     if [m0, m1] \<noteq> MAGIC then sm_fail BadMagic
     else sm_bind get_u8 (\<lambda>wire.
       if wire \<noteq> WIRE_VERSION then sm_fail (UnsupportedWireVersion wire)
       else sm_bind get_u8 (\<lambda>kind. sm_bind get_u16 (\<lambda>message_type. sm_bind get_u32 (\<lambda>blen.
         let body_len = unat blen in
         if body_len > MAX_MESSAGE_BYTES
         then sm_fail (MessageTooLarge body_len MAX_MESSAGE_BYTES)
         else sm_return (kind, message_type, body_len)))))))"

definition envelope_body_len :: "u8 list \<Rightarrow> protocol_error + nat" where
  "envelope_body_len header =
     (case fst (read_header (reader_new header)) of
        Inl e \<Rightarrow> Inl e
      | Inr (kind, message_type, body_len) \<Rightarrow> Inr body_len)"

definition decode_body :: "u8 \<Rightarrow> u16 \<Rightarrow> message read_op" where
  "decode_body kind message_type =
     sm_bind
       (if kind = KIND_COMMAND then sm_bind (decode_command message_type) (\<lambda>c. sm_return (MCommand c))
        else if kind = KIND_EVENT then sm_bind (decode_event message_type) (\<lambda>e. sm_return (MEvent e))
        else sm_fail (UnknownKind kind))
       (\<lambda>m. sm_bind expect_end (\<lambda>_. sm_return m))"

definition decode :: "u8 list \<Rightarrow> protocol_error + message" where
  "decode bytes =
     fst (sm_bind read_header (\<lambda>(kind, message_type, body_len).
          sm_bind (get_slice body_len) (\<lambda>body.
          sm_bind expect_end (\<lambda>_.
          (\<lambda>r. (fst (decode_body kind message_type (reader_new body)), r))))) (reader_new bytes))"

end
