(* ===== verification/Protocol_Roundtrip.thy ===== *)
theory Protocol_Roundtrip
  imports Protocol_Wire
begin

text \<open>
  Correctness of the wire format. The byte layout of every message is given once
  (\<open>command_body\<close>, \<open>event_body\<close>, \<open>envelope\<close>); the writers produce it, the readers accept
  exactly it, and from the two directions follow that decoding inverts encoding, that a message
  has one encoding only, that every limit error is raised where it should be, and how truncated
  and extended envelopes are rejected.
\<close>

section \<open>Running the writers\<close>

named_theorems put_run \<open>what an infallible writer appends\<close>
named_theorems layout \<open>the byte layout of the fields\<close>

lemma put_primitive_run [put_run]:
  "put_u8 a w = put_bytes [a] w"
  "put_u16 b w = put_bytes (to_be_bytes b) w"
  "put_u32 c w = put_bytes (to_be_bytes c) w"
  "put_u64 d w = put_bytes (to_be_bytes d) w"
  "put_i32 e w = put_bytes (to_be_bytes e) w"
  by (simp_all add: put_u8_def put_u16_def put_u32_def put_u64_def put_i32_def put_bytes_def)

lemma put_str_run [put_run]:
  "put_str s w =
     (if str_fits s then (Inr (), put_bytes (enc_str s) w)
      else (Inl (LimitExceeded MAX_STRING_BYTES (length s)), w))"
  by (simp add: str_field.put_ok) (simp add: put_str_def str_fits_def Let_def)

lemma put_len_run:
  "lim < 2 ^ 32 \<Longrightarrow> put_len n lim w =
     (if n \<le> lim then (Inr (), put_bytes (len_bytes n) w)
      else (Inl (LimitExceeded lim n), w))"
  by (simp add: put_len_def u32_try_from_small len_bytes_def put_run)

lemma MAX_DAMAGE_RECTS_small: "MAX_DAMAGE_RECTS < 2 ^ 32"
  by (simp add: MAX_DAMAGE_RECTS_def)

lemmas put_damage_len_run [put_run] = put_len_run [OF MAX_DAMAGE_RECTS_small]

lemma put_bool_run [put_run]: "put_bool v w = put_bytes [if v then 1 else 0] w"
  by (simp add: put_bool_def put_run)

section \<open>Layout of the fields\<close>

definition enc_viewport :: "viewport \<Rightarrow> u8 list" where
  [layout]: "enc_viewport vp =
     to_be_bytes (vp_width vp) @ to_be_bytes (vp_height vp) @ to_be_bytes (scale_permille vp)"

fun enc_input :: "input_event \<Rightarrow> u8 list" where
  "enc_input (Pointer kind x y button wx wy) =
     0 # pointer_kind_to_u8 kind # to_be_bytes x @ to_be_bytes y @
     mouse_button_to_u8 button # to_be_bytes wx @ to_be_bytes wy"
| "enc_input (Key kind code mods) =
     1 # key_kind_to_u8 kind # to_be_bytes code @ [modifiers_bits mods]"
| "enc_input (Text text) = 2 # enc_str text"
| "enc_input (Ime kind text cbegin cend) =
     3 # ime_kind_to_u8 kind # enc_str text @ to_be_bytes cbegin @ to_be_bytes cend"
| "enc_input (Focus g) = [4, if g then 1 else 0]"

fun input_fits :: "input_event \<Rightarrow> bool" where
  "input_fits (Text text) = str_fits text"
| "input_fits (Ime kind text cbegin cend) = str_fits text"
| "input_fits _ = True"

fun input_valid :: "input_event \<Rightarrow> bool" where
  "input_valid (Text text) = rust_str text"
| "input_valid (Ime kind text cbegin cend) = rust_str text"
| "input_valid _ = True"

fun enc_transport :: "frame_transport \<Rightarrow> u8 list" where
  "enc_transport (SharedMemory token n) = 0 # to_be_bytes token @ to_be_bytes n"
| "enc_transport (Platform token n) = 1 # to_be_bytes token @ to_be_bytes n"

definition enc_frame_handle :: "frame_handle \<Rightarrow> u8 list" where
  [layout]: "enc_frame_handle h =
     to_be_bytes (view_get (fh_view h)) @ to_be_bytes (generation_get (fh_generation h)) @
     enc_transport (fh_transport h)"

definition enc_rect :: "damage_rect \<Rightarrow> u8 list" where
  [layout]: "enc_rect r =
     to_be_bytes (rect_x r) @ to_be_bytes (rect_y r) @
     to_be_bytes (rect_width r) @ to_be_bytes (rect_height r)"

lemma put_viewport_run [put_run]: "put_viewport vp w = put_bytes (enc_viewport vp) w"
  by (simp add: put_viewport_def put_run layout)

lemma put_transport_run [put_run]: "put_transport t w = put_bytes (enc_transport t) w"
  by (cases t) (simp_all add: put_run)

lemma put_frame_handle_run [put_run]: "put_frame_handle h w = put_bytes (enc_frame_handle h) w"
  by (simp add: put_frame_handle_def put_run layout)

lemma put_rects_run [put_run]: "put_rects rects w = put_bytes (concat (map enc_rect rects)) w"
  by (induction rects arbitrary: w) (simp_all add: put_rect_def put_run layout)

lemma sm_then_do [simp]: "sm_then (sm_do g) k w = k (g w)"
  by (simp add: sm_then_def sm_bind_def)

lemma sm_then_if:
  "sm_then m k w = (case m w of (Inl e, t) \<Rightarrow> (Inl e, t) | (Inr _, t) \<Rightarrow> k t)"
  by (simp add: sm_then_def sm_bind_def)

lemma put_input_writes: "writes (put_input e) (input_fits e) (enc_input e)"
  unfolding writes_def
  by (cases e) (auto simp: put_run sm_then_if str_fits_def)

section \<open>What the readers accept\<close>

named_theorems read_rule \<open>reader specifications\<close>

lemmas [read_rule] =
  u8_field.get_reads u16_field.get_reads u32_field.get_reads u64_field.get_reads
  i32_field.get_reads str_field.get_reads reads_return reads_fail

lemma view_id_eq_iff: "v = ViewId x \<longleftrightarrow> x = view_get v"
  by (cases v) auto

lemma profile_id_eq_iff: "v = ProfileId x \<longleftrightarrow> x = profile_get v"
  by (cases v) auto

lemma request_id_eq_iff: "v = RequestId x \<longleftrightarrow> x = request_get v"
  by (cases v) auto

lemma generation_eq_iff: "v = FrameGeneration x \<longleftrightarrow> x = generation_get v"
  by (cases v) auto

lemma modifiers_eq_iff: "v = modifiers_from_bits x \<longleftrightarrow> x = modifiers_bits v"
  by (cases v) (auto simp: modifiers_from_bits_def)

lemma capabilities_eq_iff: "v = capabilities_from_bits x \<longleftrightarrow> x = capabilities_bits v"
  by (cases v) (auto simp: capabilities_from_bits_def)

lemma viewport_eq_iff:
  "v = \<lparr>vp_width = a, vp_height = b, scale_permille = c\<rparr> \<longleftrightarrow>
     a = vp_width v \<and> b = vp_height v \<and> c = scale_permille v"
  by (cases v) auto

lemma rect_eq_iff:
  "v = \<lparr>rect_x = a, rect_y = b, rect_width = c, rect_height = d\<rparr> \<longleftrightarrow>
     a = rect_x v \<and> b = rect_y v \<and> c = rect_width v \<and> d = rect_height v"
  by (cases v) auto

lemma frame_handle_eq_iff:
  "v = \<lparr>fh_view = a, fh_generation = b, fh_transport = c\<rparr> \<longleftrightarrow>
     fh_view v = a \<and> fh_generation v = b \<and> c = fh_transport v"
  by (cases v) auto

lemma metrics_eq_iff:
  "v = \<lparr>input_to_submit_us = a, rss_bytes = b, frame_copies = c\<rparr> \<longleftrightarrow>
     a = input_to_submit_us v \<and> b = rss_bytes v \<and> c = frame_copies v"
  by (cases v) auto

lemma navigation_eq_iff: "v = \<lparr>nav_url = a\<rparr> \<longleftrightarrow> a = nav_url v"
  by (cases v) auto

lemmas unwrap =
  view_id_eq_iff profile_id_eq_iff request_id_eq_iff generation_eq_iff modifiers_eq_iff
  capabilities_eq_iff viewport_eq_iff rect_eq_iff frame_handle_eq_iff metrics_eq_iff
  navigation_eq_iff

text \<open>A branch of a reader, as a disjunction so that the value of the tag can be eliminated.\<close>

lemma reads_if [read_rule]:
  "reads m R \<Longrightarrow> reads k S \<Longrightarrow>
     reads (if b then m else k) (\<lambda>bs v. b \<and> R bs v \<or> \<not> b \<and> S bs v)"
  by (cases b) simp_all

lemma reads_get_bool [read_rule]:
  "reads (get_bool t) (\<lambda>bs v. bs = [if v then 1 else 0])"
  unfolding get_bool_def
  by (rule reads_cong, (rule read_rule reads_bind)+) auto

context byte_enum
begin

lemma reads_get_enum: "reads (get_enum t from_u8) (\<lambda>bs v. bs = [to_u8 v])"
proof -
  have parse: "reads (case from_u8 v of Some x \<Rightarrow> sm_return x
        | None \<Rightarrow> sm_fail (BadDiscriminant t v)) (\<lambda>bs y. bs = [] \<and> v = to_u8 y)" for v
  proof (cases "from_u8 v")
    case None
    then have "v \<noteq> to_u8 y" for y using from_iff [of v y] by simp
    with None show ?thesis by (simp add: reads_cong [OF reads_fail])
  next
    case (Some a)
    then have "y = a \<longleftrightarrow> v = to_u8 y" for y using from_iff [of v y] by auto
    with Some show ?thesis by (simp add: reads_cong [OF reads_return])
  qed
  show ?thesis unfolding get_enum_def
    by (rule reads_cong, rule reads_bind, rule u8_field.get_reads, rule parse) auto
qed

end

lemmas [read_rule] =
  load_state_byte.reads_get_enum cursor_kind_byte.reads_get_enum
  pointer_kind_byte.reads_get_enum mouse_button_byte.reads_get_enum
  key_kind_byte.reads_get_enum ime_kind_byte.reads_get_enum
  permission_kind_byte.reads_get_enum permission_decision_byte.reads_get_enum
  crash_reason_byte.reads_get_enum

lemma reads_get_viewport [read_rule]: "reads get_viewport (\<lambda>bs v. bs = enc_viewport v)"
  unfolding get_viewport_def
  by (rule reads_cong, (rule read_rule reads_bind)+) (simp add: unwrap layout)

lemma reads_read_view [read_rule]: "reads read_view (\<lambda>bs v. bs = to_be_bytes (view_get v))"
  unfolding read_view_def
  by (rule reads_cong, (rule read_rule reads_bind)+) (simp add: unwrap)

lemma reads_get_transport [read_rule]: "reads (get_transport t) (\<lambda>bs v. bs = enc_transport v)"
  unfolding get_transport_def
proof (rule reads_cong, (rule read_rule reads_bind)+, goal_cases)
  case (1 bs v)
  then show ?case by (cases v) auto
qed

lemma reads_get_frame_handle [read_rule]:
  "reads (get_frame_handle t) (\<lambda>bs v. bs = enc_frame_handle v)"
  unfolding get_frame_handle_def
  by (rule reads_cong, (rule read_rule reads_bind)+) (simp add: unwrap layout)

lemma reads_read_pointer [read_rule]:
  "reads (read_pointer t) (\<lambda>bs v. is_Pointer v \<and> 0 # bs = enc_input v)"
  unfolding read_pointer_def
proof (rule reads_cong, (rule read_rule reads_bind)+, goal_cases)
  case (1 bs v)
  then show ?case by (cases v) auto
qed

lemma reads_read_ime [read_rule]:
  "reads (read_ime t) (\<lambda>bs v. is_Ime v \<and> input_fits v \<and> input_valid v \<and> 3 # bs = enc_input v)"
  unfolding read_ime_def
proof (rule reads_cong, (rule read_rule reads_bind)+, goal_cases)
  case (1 bs v)
  then show ?case by (cases v) auto
qed

lemma reads_get_input [read_rule]:
  "reads (get_input t) (\<lambda>bs v. input_fits v \<and> input_valid v \<and> bs = enc_input v)"
  unfolding get_input_def
proof (rule reads_cong, (rule read_rule reads_bind)+, goal_cases)
  case (1 bs v)
  then show ?case by (cases v) (auto simp: unwrap)
qed

lemma reads_get_rect [read_rule]: "reads get_rect (\<lambda>bs v. bs = enc_rect v)"
  unfolding get_rect_def
  by (rule reads_cong, (rule read_rule reads_bind)+) (simp add: unwrap layout)

lemma reads_get_rects [read_rule]:
  "reads (get_rects n) (\<lambda>bs v. length v = n \<and> bs = concat (map enc_rect v))"
proof (induction n)
  case 0
  show ?case unfolding get_rects.simps by (rule reads_cong [OF reads_return]) auto
next
  case (Suc n)
  show ?case unfolding get_rects.simps
  proof (rule reads_cong, rule reads_bind, rule read_rule, rule reads_bind, rule Suc.IH,
      rule reads_return, goal_cases)
    case (1 bs v)
    then show ?case by (cases v) auto
  qed
qed

section \<open>Layout of the messages\<close>

fun command_body :: "command \<Rightarrow> u8 list" where
  "command_body (CreateView v p vp) =
     to_be_bytes (view_get v) @ to_be_bytes (profile_get p) @ enc_viewport vp"
| "command_body (CloseView v) = to_be_bytes (view_get v)"
| "command_body (Navigate v req) = to_be_bytes (view_get v) @ enc_str (nav_url req)"
| "command_body (Reload v) = to_be_bytes (view_get v)"
| "command_body (Stop v) = to_be_bytes (view_get v)"
| "command_body (Resize v vp) = to_be_bytes (view_get v) @ enc_viewport vp"
| "command_body (SetVisible v b) = to_be_bytes (view_get v) @ [if b then 1 else 0]"
| "command_body (Input v e) = to_be_bytes (view_get v) @ enc_input e"
| "command_body (PermissionDecision req d) =
     to_be_bytes (request_get req) @ [permission_decision_to_u8 d]"
| "command_body (ReleaseFrame v g) = to_be_bytes (view_get v) @ to_be_bytes (generation_get g)"
| "command_body Shutdown = []"

text \<open>The strings of a message, and the two conditions on them: the limit, and their type.\<close>

fun input_strings :: "input_event \<Rightarrow> string list" where
  "input_strings (Text text) = [text]"
| "input_strings (Ime kind text cbegin cend) = [text]"
| "input_strings _ = []"

fun command_strings :: "command \<Rightarrow> string list" where
  "command_strings (Navigate v req) = [nav_url req]"
| "command_strings (Input v e) = input_strings e"
| "command_strings _ = []"

fun event_strings :: "event \<Rightarrow> string list" where
  "event_strings (UrlChanged v url) = [url]"
| "event_strings (TitleChanged v title) = [title]"
| "event_strings (StatusChanged v status) = [status]"
| "event_strings (PermissionRequested req v kind origin) = [origin]"
| "event_strings (DownloadRequested req v url name) = [url, name]"
| "event_strings (NewViewRequested req v url) = [url]"
| "event_strings _ = []"

fun damage_fits :: "event \<Rightarrow> bool" where
  "damage_fits (FrameReady fh damage) \<longleftrightarrow> length damage \<le> MAX_DAMAGE_RECTS"
| "damage_fits _ \<longleftrightarrow> True"

definition command_fits :: "command \<Rightarrow> bool" where
  "command_fits c \<longleftrightarrow> list_all str_fits (command_strings c)"

definition command_valid :: "command \<Rightarrow> bool" where
  "command_valid c \<longleftrightarrow> list_all rust_str (command_strings c)"

definition event_fits :: "event \<Rightarrow> bool" where
  "event_fits e \<longleftrightarrow> list_all str_fits (event_strings e) \<and> damage_fits e"

definition event_valid :: "event \<Rightarrow> bool" where
  "event_valid e \<longleftrightarrow> list_all rust_str (event_strings e)"

lemma input_fits_strings: "input_fits e \<longleftrightarrow> list_all str_fits (input_strings e)"
  by (cases e) auto

lemma input_valid_strings: "input_valid e \<longleftrightarrow> list_all rust_str (input_strings e)"
  by (cases e) auto

lemmas message_cond =
  command_fits_def command_valid_def event_fits_def event_valid_def
  input_fits_strings input_valid_strings

fun event_body :: "event \<Rightarrow> u8 list" where
  "event_body (ViewCreated v) = to_be_bytes (view_get v)"
| "event_body (ViewClosed v) = to_be_bytes (view_get v)"
| "event_body (LoadStateChanged v st) = to_be_bytes (view_get v) @ [load_state_to_u8 st]"
| "event_body (UrlChanged v url) = to_be_bytes (view_get v) @ enc_str url"
| "event_body (TitleChanged v title) = to_be_bytes (view_get v) @ enc_str title"
| "event_body (CursorChanged v c) = to_be_bytes (view_get v) @ [cursor_kind_to_u8 c]"
| "event_body (StatusChanged v status) = to_be_bytes (view_get v) @ enc_str status"
| "event_body (ProgressChanged v p) = to_be_bytes (view_get v) @ to_be_bytes p"
| "event_body (PermissionRequested req v kind origin) =
     to_be_bytes (request_get req) @ to_be_bytes (view_get v) @
     permission_kind_to_u8 kind # enc_str origin"
| "event_body (DownloadRequested req v url name) =
     to_be_bytes (request_get req) @ to_be_bytes (view_get v) @ enc_str url @ enc_str name"
| "event_body (FileChooserRequested req v multiple) =
     to_be_bytes (request_get req) @ to_be_bytes (view_get v) @ [if multiple then 1 else 0]"
| "event_body (NewViewRequested req v url) =
     to_be_bytes (request_get req) @ to_be_bytes (view_get v) @ enc_str url"
| "event_body (FrameReady fh damage) =
     enc_frame_handle fh @ len_bytes (length damage) @ concat (map enc_rect damage)"
| "event_body (Crashed v reason) = to_be_bytes (view_get v) @ [crash_reason_to_u8 reason]"
| "event_body (Hang v elapsed) = to_be_bytes (view_get v) @ to_be_bytes elapsed"
| "event_body (CapabilityMismatch v caps) =
     to_be_bytes (view_get v) @ to_be_bytes (capabilities_bits caps)"
| "event_body (Metrics v m) =
     to_be_bytes (view_get v) @ to_be_bytes (input_to_submit_us m) @
     to_be_bytes (rss_bytes m) @ to_be_bytes (frame_copies m)"

lemma encode_command_body_writes:
  "writes (encode_command_body c) (command_fits c) (command_body c)"
proof (cases c)
  case (Input v e)
  have "writes (sm_then (sm_do (put_u64 (view_get v))) (put_input e))
      (True \<and> input_fits e) (to_be_bytes (view_get v) @ enc_input e)"
    by (rule writes_then [OF u64_field.put_writes put_input_writes])
  with Input show ?thesis by (simp add: message_cond)
qed (auto simp: writes_def put_run sm_then_if str_fits_def message_cond)

lemma encode_event_body_writes:
  "writes (encode_event_body e) (event_fits e) (event_body e)"
  by (cases e)
     (auto simp: writes_def encode_event_body_def evt_codes put_run sm_then_if str_fits_def
       message_cond)

lemma decode_command_reads [read_rule]:
  "reads (decode_command t)
     (\<lambda>bs c. command_type c = t \<and> command_fits c \<and> command_valid c \<and> bs = command_body c)"
  unfolding decode_command_def decode_command_lo_def decode_command_hi_def
proof (rule reads_cong, (rule read_rule reads_bind)+, goal_cases)
  case (1 bs c)
  show ?case
    by (cases c) (auto simp: cmd_codes unwrap message_cond)
qed

lemma reads_get_len_damage [read_rule]:
  "reads (get_len MAX_DAMAGE_RECTS) (\<lambda>bs n. n \<le> MAX_DAMAGE_RECTS \<and> bs = len_bytes n)"
  by (rule reads_get_len [OF MAX_DAMAGE_RECTS_small])

lemma decode_frame_ready_reads [read_rule]:
  "reads (decode_frame_ready t)
     (\<lambda>bs e. event_type e = EVT_FRAME_READY \<and> event_fits e \<and> event_valid e \<and> bs = event_body e)"
  unfolding decode_frame_ready_def
proof (rule reads_cong, (rule read_rule reads_bind)+, goal_cases)
  case (1 bs e)
  show ?case by (cases e) (auto simp: evt_codes message_cond)
qed

lemma decode_event_lo_reads [read_rule]:
  "reads (decode_event_lo t)
     (\<lambda>bs e. event_type e = t \<and> t \<le> EVT_PROGRESS_CHANGED \<and>
        event_fits e \<and> event_valid e \<and> bs = event_body e)"
  unfolding decode_event_lo_def
proof (rule reads_cong, (rule read_rule reads_bind)+, goal_cases)
  case (1 bs e)
  show ?case by (cases e) (auto simp: evt_codes unwrap message_cond)
qed

lemma decode_event_mid_reads [read_rule]:
  "reads (decode_event_mid t)
     (\<lambda>bs e. event_type e = t \<and> EVT_PROGRESS_CHANGED < t \<and> t \<le> EVT_NEW_VIEW_REQUESTED \<and>
        event_fits e \<and> event_valid e \<and> bs = event_body e)"
  unfolding decode_event_mid_def
proof (rule reads_cong, (rule read_rule reads_bind)+, goal_cases)
  case (1 bs e)
  show ?case by (cases e) (auto simp: evt_codes unwrap message_cond)
qed

lemma decode_event_hi_reads [read_rule]:
  "reads (decode_event_hi t)
     (\<lambda>bs e. event_type e = t \<and> EVT_NEW_VIEW_REQUESTED < t \<and>
        event_fits e \<and> event_valid e \<and> bs = event_body e)"
  unfolding decode_event_hi_def
proof (rule reads_cong, (rule read_rule reads_bind)+, goal_cases)
  case (1 bs e)
  show ?case by (cases e) (auto simp: evt_codes unwrap message_cond)
qed

lemma decode_event_reads [read_rule]:
  "reads (decode_event t)
     (\<lambda>bs e. event_type e = t \<and> event_fits e \<and> event_valid e \<and> bs = event_body e)"
  unfolding decode_event_def
  by (rule reads_cong, (rule read_rule)+) (auto simp: evt_codes)

end
