(* ===== verification/Protocol_Envelope.thy ===== *)
theory Protocol_Envelope
  imports Protocol_Roundtrip
begin

text \<open>
  The envelope theorems: what \<open>encode\<close> produces and \<open>decode\<close> accepts, stated over the layout of
  \<open>Protocol_Roundtrip\<close>, and the consequences a transport relies on.
\<close>

fun message_kind :: "message \<Rightarrow> u8" where
  "message_kind (MCommand c) = KIND_COMMAND"
| "message_kind (MEvent e) = KIND_EVENT"

fun message_type :: "message \<Rightarrow> u16" where
  "message_type (MCommand c) = command_type c"
| "message_type (MEvent e) = event_type e"

fun message_body :: "message \<Rightarrow> u8 list" where
  "message_body (MCommand c) = command_body c"
| "message_body (MEvent e) = event_body e"

text \<open>Every string and the damage list are within their limits.\<close>

fun message_fits :: "message \<Rightarrow> bool" where
  "message_fits (MCommand c) = command_fits c"
| "message_fits (MEvent e) = event_fits e"

text \<open>Every string is UTF-8, as its Rust type guarantees.\<close>

fun message_valid :: "message \<Rightarrow> bool" where
  "message_valid (MCommand c) = command_valid c"
| "message_valid (MEvent e) = event_valid e"

definition header :: "u8 \<Rightarrow> u16 \<Rightarrow> nat \<Rightarrow> u8 list" where
  "header k t n = MAGIC @ [WIRE_VERSION, k] @ to_be_bytes t @ len_bytes n"

definition envelope :: "message \<Rightarrow> u8 list" where
  "envelope m =
     header (message_kind m) (message_type m) (length (message_body m)) @ message_body m"

lemma length_header [simp]: "length (header k t n) = ENVELOPE_HEADER_BYTES"
  by (simp add: header_def MAGIC_def ENVELOPE_HEADER_BYTES_def)

section \<open>Sizes\<close>

lemma length_enc_str: "str_fits s \<Longrightarrow> length (enc_str s) \<le> 4 + MAX_STRING_BYTES"
  by (simp add: enc_str_def str_fits_def)

lemma length_enc_viewport [simp]: "length (enc_viewport vp) = 10"
  by (simp add: layout)

lemma length_enc_transport [simp]: "length (enc_transport t) = 17"
  by (cases t) simp_all

lemma length_enc_frame_handle [simp]: "length (enc_frame_handle h) = 33"
  by (simp add: layout)

lemma length_enc_rects [simp]: "length (concat (map enc_rect rects)) = 16 * length rects"
  by (induction rects) (simp_all add: layout)

lemma length_enc_input: "input_fits e \<Longrightarrow> length (enc_input e) \<le> 22 + MAX_STRING_BYTES"
  using length_enc_str by (cases e) (force simp: MAX_STRING_BYTES_def)+

lemma length_command_body:
  "command_fits c \<Longrightarrow> length (command_body c) \<le> MAX_MESSAGE_BYTES"
  using length_enc_str length_enc_input
  by (cases c) (fastforce simp: message_cond MAX_MESSAGE_BYTES_def MAX_STRING_BYTES_def)+

lemma length_event_body:
  "event_fits e \<Longrightarrow> length (event_body e) \<le> MAX_MESSAGE_BYTES"
  by (cases e)
     (auto simp: message_cond MAX_MESSAGE_BYTES_def MAX_STRING_BYTES_def MAX_DAMAGE_RECTS_def
        str_fits_def enc_str_def)

lemma length_message_body:
  "message_fits m \<Longrightarrow> length (message_body m) \<le> MAX_MESSAGE_BYTES"
  by (cases m) (simp_all add: length_command_body length_event_body)

section \<open>Encoding\<close>

lemma frame_small:
  "length body \<le> MAX_MESSAGE_BYTES \<Longrightarrow> frame k t body = Inr (header k t (length body) @ body)"
  by (simp add: frame_def Let_def u32_try_from_def MAX_MESSAGE_BYTES_def put_run
      header_def len_bytes_def into_bytes_def put_bytes_def writer_new_def)

lemma encode_fits: "message_fits m \<Longrightarrow> encode m = Inr (envelope m)"
proof (cases m)
  case (MCommand c)
  assume "message_fits m"
  with MCommand have "encode_command_body c writer_new = (Inr (), put_bytes (command_body c) writer_new)"
    using writesD [OF encode_command_body_writes, of c writer_new] by simp
  with \<open>message_fits m\<close> MCommand show ?thesis
    by (simp add: encode_command_def envelope_def frame_small length_command_body
        into_bytes_def put_bytes_def writer_new_def)
next
  case (MEvent e)
  assume "message_fits m"
  with MEvent have "encode_event_body e writer_new = (Inr (), put_bytes (event_body e) writer_new)"
    using writesD [OF encode_event_body_writes, of e writer_new] by simp
  with \<open>message_fits m\<close> MEvent show ?thesis
    by (simp add: encode_event_def envelope_def frame_small length_event_body
        into_bytes_def put_bytes_def writer_new_def)
qed

lemma encode_limit:
  "\<not> message_fits m \<Longrightarrow> \<exists>l n. encode m = Inl (LimitExceeded l n) \<and> l < n"
proof (cases m)
  case (MCommand c)
  assume "\<not> message_fits m"
  with MCommand writesD [OF encode_command_body_writes, of c writer_new] show ?thesis
    by (cases "encode_command_body c writer_new") (auto simp: encode_command_def)
next
  case (MEvent e)
  assume "\<not> message_fits m"
  with MEvent writesD [OF encode_event_body_writes, of e writer_new] show ?thesis
    by (cases "encode_event_body e writer_new") (auto simp: encode_event_def)
qed

section \<open>Decoding\<close>

lemma reads_read_header:
  "reads read_header (\<lambda>bs (k, t, n). n \<le> MAX_MESSAGE_BYTES \<and> bs = header k t n)"
proof -
  have small: "MAX_MESSAGE_BYTES < 2 ^ 32" by (simp add: MAX_MESSAGE_BYTES_def)
  have len: "reads (sm_bind get_u32 (\<lambda>blen.
         let body_len = unat blen in
         if body_len > MAX_MESSAGE_BYTES
         then sm_fail (MessageTooLarge body_len MAX_MESSAGE_BYTES)
         else sm_return (kind, t, body_len)))
     (\<lambda>bs v. fst v = kind \<and> fst (snd v) = t \<and> snd (snd v) \<le> MAX_MESSAGE_BYTES
        \<and> bs = len_bytes (snd (snd v)))" for kind :: u8 and t :: u16
  proof (unfold Let_def, rule reads_cong, (rule read_rule reads_bind)+, goal_cases)
    case (1 bs v)
    have "(\<exists>w :: u32. unat w \<le> MAX_MESSAGE_BYTES \<and> bs = to_be_bytes w \<and> snd (snd v) = unat w)
        \<longleftrightarrow> snd (snd v) \<le> MAX_MESSAGE_BYTES \<and> bs = len_bytes (snd (snd v))"
      unfolding len_bytes_iff [OF small] by blast
    then show ?case by (cases v) (auto simp: not_less)
  qed
  show ?thesis unfolding read_header_def
  proof (rule reads_cong, (rule read_rule len reads_bind)+, goal_cases)
    case (1 bs v)
    show ?case by (cases v) (auto simp: MAGIC_def WIRE_VERSION_def header_def)
  qed
qed

lemma read_header_at:
  "n \<le> MAX_MESSAGE_BYTES \<Longrightarrow>
     read_header (reader_at pre (header k t n @ rest)) =
       (Inr (k, t, n), reader_at (pre @ header k t n) rest)"
  unfolding readsD [OF reads_read_header] by auto

lemma expect_end_at:
  "expect_end (reader_at pre rest) =
     (if rest = [] then (Inr (), reader_at pre rest)
      else (Inl (TrailingBytes (length rest)), reader_at pre rest))"
  by (simp add: expect_end_def)

lemma decode_body_iff:
  "fst (decode_body k t (reader_new body)) = Inr m \<longleftrightarrow>
     message_kind m = k \<and> message_type m = t \<and> message_fits m \<and> message_valid m
     \<and> body = message_body m"
proof -
  have whole: "reads (if k = KIND_COMMAND then sm_bind (decode_command t) (\<lambda>c. sm_return (MCommand c))
        else if k = KIND_EVENT then sm_bind (decode_event t) (\<lambda>e. sm_return (MEvent e))
        else sm_fail (UnknownKind k))
     (\<lambda>bs m. message_kind m = k \<and> message_type m = t \<and> message_fits m \<and> message_valid m
        \<and> bs = message_body m)"
  proof (rule reads_cong, (rule read_rule reads_bind)+, goal_cases)
    case (1 bs m)
    show ?case by (cases m) (auto simp: KIND_COMMAND_def KIND_EVENT_def)
  qed
  have *: "(\<exists>r. decode_body k t (reader_at [] body) = (Inr m, r)) \<longleftrightarrow>
     message_kind m = k \<and> message_type m = t \<and> message_fits m \<and> message_valid m
     \<and> body = message_body m"
    unfolding decode_body_def sm_bind_ok readsD [OF whole] sm_return_ok
    by (auto simp: expect_end_at split: if_splits)
  show ?thesis unfolding reader_new_at * [symmetric]
    by (metis fst_conv prod.collapse)
qed

lemma decode_header:
  assumes "n \<le> MAX_MESSAGE_BYTES"
  shows "decode (header k t n @ rest) =
     (if length rest < n then Inl (Truncated n (length rest))
      else if n < length rest then Inl (TrailingBytes (length rest - n))
      else fst (decode_body k t (reader_new rest)))"
  using assms
  by (auto simp: decode_def reader_new_at read_header_at get_slice_def sm_bind_def rd_take_at
      expect_end_at)

lemma decode_Inr_header:
  assumes "decode bs = Inr m"
  obtains k t rest where "bs = header k t (length rest) @ rest" "length rest \<le> MAX_MESSAGE_BYTES"
    "fst (decode_body k t (reader_new rest)) = Inr m"
proof -
  from assms obtain k t n r where "read_header (reader_at [] bs) = (Inr (k, t, n), r)"
    by (auto simp: decode_def reader_new_at sm_bind_def split: prod.splits sum.splits)
  then obtain rest where "n \<le> MAX_MESSAGE_BYTES" "bs = header k t n @ rest"
    unfolding readsD [OF reads_read_header] by auto
  with assms that show ?thesis
    by (auto simp: decode_header split: if_splits)
qed

lemma decode_iff: "decode bs = Inr m \<longleftrightarrow> message_fits m \<and> message_valid m \<and> bs = envelope m"
proof
  assume "decode bs = Inr m"
  then show "message_fits m \<and> message_valid m \<and> bs = envelope m"
    by (rule decode_Inr_header) (auto simp: decode_body_iff envelope_def)
next
  assume "message_fits m \<and> message_valid m \<and> bs = envelope m"
  then show "decode bs = Inr m"
    by (simp add: envelope_def decode_header length_message_body decode_body_iff)
qed

text \<open>A header cut short.\<close>

lemma list_of_length_2: "length xs = 2 \<Longrightarrow> \<exists>a b. xs = [a, b]"
  by (auto simp: length_Suc_conv eval_nat_numeral)

lemma list_of_length_4: "length xs = 4 \<Longrightarrow> \<exists>a b c d. xs = [a, b, c, d]"
  by (auto simp: length_Suc_conv eval_nat_numeral)

lemma header_ten:
  obtains t0 t1 l0 l1 l2 l3 where "header k t n = [0x53, 0x53, 1, k, t0, t1, l0, l1, l2, l3]"
proof -
  obtain t0 t1 where "to_be_bytes t = [t0, t1]"
    using list_of_length_2 [of "to_be_bytes t"] by auto
  moreover obtain l0 l1 l2 l3 where "len_bytes n = [l0, l1, l2, l3]"
    using list_of_length_4 [OF length_len_bytes] by blast
  ultimately show ?thesis using that by (simp add: header_def MAGIC_def WIRE_VERSION_def)
qed

lemma decode_short_header:
  assumes "i < ENVELOPE_HEADER_BYTES"
  shows "\<exists>need avail. decode (take i (header k t n)) = Inl (Truncated need avail) \<and> avail < need"
proof -
  obtain t0 t1 l0 l1 l2 l3 where h: "header k t n = [0x53, 0x53, 1, k, t0, t1, l0, l1, l2, l3]"
    by (rule header_ten)
  from assms have "i \<in> {0, 1, 2, 3, 4, 5, 6, 7, 8, 9}"
    by (auto simp: ENVELOPE_HEADER_BYTES_def MAGIC_def)
  then show ?thesis unfolding h
    by (elim insertE emptyE; hypsubst)
       (simp_all add: decode_def reader_new_at read_header_def get_u8_def get_u16_def get_u32_def
         sm_bind_def rd_take_at MAGIC_def WIRE_VERSION_def)
qed

lemmas message_eval =
  envelope_def header_def MAGIC_def WIRE_VERSION_def KIND_COMMAND_def KIND_EVENT_def
  cmd_codes evt_codes len_bytes_def enc_str_def to_be_bytes_def str_bytes_def

section \<open>Properties of the wire format\<close>

text \<open>C30: decoding inverts encoding. Whenever a message whose strings are UTF-8 (which its Rust
  type guarantees) is encoded, decoding the envelope gives back the same message: no variant, no
  field and no integer width is lost or confused.\<close>

theorem decode_encode:
  assumes "message_valid m" and "encode m = Inr bs"
  shows "decode bs = Inr m"
proof -
  have "message_fits m" using encode_limit assms(2) by fastforce
  with assms show ?thesis by (simp add: encode_fits decode_iff)
qed

theorem decode_encode_witness:
  "decode [0x53, 0x53, 1, 1, 0, 5, 0, 0, 0, 14,
           0, 0, 0, 0, 0, 0, 0, 7, 0, 0, 0, 2, 0x48, 0x69] = Inr (MEvent (TitleChanged (ViewId 7) ''Hi''))"
proof (rule decode_encode)
  show "message_valid (MEvent (TitleChanged (ViewId 7) ''Hi''))"
    by (simp add: event_valid_def rust_str_def str_bytes_def)
  show "encode (MEvent (TitleChanged (ViewId 7) ''Hi'')) =
      Inr [0x53, 0x53, 1, 1, 0, 5, 0, 0, 0, 14,
           0, 0, 0, 0, 0, 0, 0, 7, 0, 0, 0, 2, 0x48, 0x69]"
    by (subst encode_fits)
       (simp_all add: message_eval event_fits_def str_fits_def MAX_STRING_BYTES_def)
qed

text \<open>C5: an accepted envelope is canonical. If decoding accepts a byte string, then encoding
  the decoded message produces exactly that byte string; so two different byte strings never
  decode to the same message and nothing outside the encoder's image is accepted.\<close>

theorem encode_decode:
  assumes "decode bs = Inr m"
  shows "encode m = Inr bs"
  using assms by (simp add: decode_iff encode_fits)

theorem encode_decode_witness:
  "encode (MCommand (SetVisible (ViewId 9) True)) =
     Inr [0x53, 0x53, 1, 0, 0, 7, 0, 0, 0, 9, 0, 0, 0, 0, 0, 0, 0, 9, 1]"
proof (rule encode_decode)
  show "decode [0x53, 0x53, 1, 0, 0, 7, 0, 0, 0, 9, 0, 0, 0, 0, 0, 0, 0, 9, 1] =
      Inr (MCommand (SetVisible (ViewId 9) True))"
    by (simp add: decode_iff message_eval command_fits_def command_valid_def)
qed

text \<open>Encoding succeeds exactly when every string is at most 64 KiB and the damage list has
  at most 4096 rectangles; the envelope then stays within the header plus the message limit (so
  the encoder never produces a message the decoder refuses for its size), and otherwise the error
  is \<open>LimitExceeded\<close> with a value above the limit.\<close>

theorem encode_total:
  "case encode m of
     Inr bs \<Rightarrow> message_fits m \<and> length bs \<le> ENVELOPE_HEADER_BYTES + MAX_MESSAGE_BYTES
   | Inl e \<Rightarrow> \<not> message_fits m \<and> (\<exists>l n. e = LimitExceeded l n \<and> l < n)"
proof (cases "message_fits m")
  case True
  then show ?thesis
    by (simp add: encode_fits envelope_def length_message_body)
next
  case False
  with encode_limit show ?thesis by fastforce
qed

text \<open>Every strict prefix of an accepted envelope is rejected as truncated, naming more
  bytes needed than there are; a stream cut anywhere never decodes to another message.\<close>

theorem decode_prefix:
  assumes "decode bs = Inr m" and "i < length bs"
  shows "\<exists>need avail. decode (take i bs) = Inl (Truncated need avail) \<and> avail < need"
proof -
  from assms(1) obtain k t rest where
    bs: "bs = header k t (length rest) @ rest" and le: "length rest \<le> MAX_MESSAGE_BYTES"
    by (rule decode_Inr_header)
  show ?thesis
  proof (cases "i < ENVELOPE_HEADER_BYTES")
    case True
    then have "take i bs = take i (header k t (length rest))" by (simp add: bs)
    with decode_short_header [OF True] show ?thesis by simp
  next
    case False
    then have "take i bs = header k t (length rest) @ take (i - ENVELOPE_HEADER_BYTES) rest"
      by (simp add: bs)
    moreover have "i - ENVELOPE_HEADER_BYTES < length rest" using assms(2) False by (simp add: bs)
    ultimately show ?thesis using le by (simp add: decode_header)
  qed
qed

theorem decode_prefix_witness:
  "\<exists>need avail. decode (take 12 [0x53, 0x53, 1, 0, 0, 7, 0, 0, 0, 9, 0, 0, 0, 0, 0, 0, 0, 9, 1])
     = Inl (Truncated need avail) \<and> avail < need"
proof (rule decode_prefix)
  show "decode [0x53, 0x53, 1, 0, 0, 7, 0, 0, 0, 9, 0, 0, 0, 0, 0, 0, 0, 9, 1] =
      Inr (MCommand (SetVisible (ViewId 9) True))"
    by (simp add: decode_iff message_eval command_fits_def command_valid_def)
qed simp

text \<open>Bytes after a complete envelope are rejected, and the error counts exactly them.\<close>

theorem decode_trailing:
  assumes "decode bs = Inr m" and "xs \<noteq> []"
  shows "decode (bs @ xs) = Inl (TrailingBytes (length xs))"
proof -
  from assms(1) obtain k t rest where
    "bs = header k t (length rest) @ rest" "length rest \<le> MAX_MESSAGE_BYTES"
    by (rule decode_Inr_header)
  with assms(2) show ?thesis by (simp add: decode_header)
qed

theorem decode_trailing_witness:
  "decode ([0x53, 0x53, 1, 0, 0, 11, 0, 0, 0, 0] @ [0xFF, 0]) = Inl (TrailingBytes (length [0xFF :: u8, 0]))"
proof (rule decode_trailing)
  show "decode [0x53, 0x53, 1, 0, 0, 11, 0, 0, 0, 0] = Inr (MCommand Shutdown)"
    by (simp add: decode_iff message_eval command_fits_def command_valid_def)
qed simp

text \<open>Reading a header does not look past its ten bytes.\<close>

lemma get_u8_Cons: "get_u8 (reader_at pre (a # rest)) = (Inr a, reader_at (pre @ [a]) rest)"
  by (simp add: get_u8_def sm_bind_def rd_take_at)

lemma get_u16_Cons:
  "get_u16 (reader_at pre (a # b # rest)) =
     (Inr (from_be_bytes [a, b]), reader_at (pre @ [a, b]) rest)"
  by (simp add: get_u16_def sm_bind_def rd_take_at)

lemma get_u32_Cons:
  "get_u32 (reader_at pre (a # b # c # d # rest)) =
     (Inr (from_be_bytes [a, b, c, d]), reader_at (pre @ [a, b, c, d]) rest)"
  by (simp add: get_u32_def sm_bind_def rd_take_at)

lemma app_if: "(if b then f else g) x = (if b then f x else g x)"
  by simp

lemma list_of_length_10:
  assumes "length xs = 10"
  obtains a b c d e f g h i j where "xs = [a, b, c, d, e, f, g, h, i, j]"
proof -
  have "xs = take 2 xs @ take 4 (drop 2 xs) @ drop 6 xs"
    using append_take_drop_id [of 2 xs] append_take_drop_id [of 4 "drop 2 xs"] by simp
  moreover obtain a b where "take 2 xs = [a, b]"
    using list_of_length_2 [of "take 2 xs"] assms by auto
  moreover obtain c d e f where "take 4 (drop 2 xs) = [c, d, e, f]"
    using list_of_length_4 [of "take 4 (drop 2 xs)"] assms by auto
  moreover obtain g h i j where "drop 6 xs = [g, h, i, j]"
    using list_of_length_4 [of "drop 6 xs"] assms by auto
  ultimately show ?thesis using that by simp
qed

lemma read_header_prefix:
  assumes "length h = ENVELOPE_HEADER_BYTES"
  shows "fst (read_header (reader_at [] (h @ xs))) = fst (read_header (reader_at [] h))"
proof -
  from assms have len: "length h = 10" by (simp add: ENVELOPE_HEADER_BYTES_def MAGIC_def)
  obtain a b c d e f g h' i j where h: "h = [a, b, c, d, e, f, g, h', i, j]"
    by (rule list_of_length_10 [OF len])
  show ?thesis unfolding h
    by (simp add: read_header_def get_u8_Cons get_u16_Cons get_u32_Cons Let_def app_if)
qed

text \<open>A transport that reads the ten header bytes first gets the right answer from
  \<open>envelope_body_len\<close>. If it reports an error, every message with that header fails with the same
  error; if it reports a length, it is within the limit and only a body of exactly that length
  can decode.\<close>

theorem envelope_body_len_agrees:
  assumes "length h = ENVELOPE_HEADER_BYTES"
  shows "case envelope_body_len h of
      Inl e \<Rightarrow> decode (h @ xs) = Inl e
    | Inr n \<Rightarrow> n \<le> MAX_MESSAGE_BYTES
        \<and> (length xs < n \<longrightarrow> decode (h @ xs) = Inl (Truncated n (length xs)))
        \<and> (n < length xs \<longrightarrow> decode (h @ xs) = Inl (TrailingBytes (length xs - n)))"
proof (cases "read_header (reader_at [] (h @ xs))")
  case (Pair res r)
  then have short: "fst (read_header (reader_at [] h)) = res"
    using read_header_prefix [OF assms, of xs] by simp
  show ?thesis
  proof (cases res)
    case (Inl e)
    with Pair have "decode (h @ xs) = Inl e" by (simp add: decode_def reader_new_at)
    moreover from short Inl have "envelope_body_len h = Inl e"
      by (simp add: envelope_body_len_def reader_new_at)
    ultimately show ?thesis by simp
  next
    case (Inr v)
    obtain k t n where v: "v = (k, t, n)" by (cases v)
    from Pair Inr v have "read_header (reader_at [] (h @ xs)) = (Inr (k, t, n), r)" by simp
    then obtain suf where n: "n \<le> MAX_MESSAGE_BYTES" and eq: "h @ xs = header k t n @ suf"
      unfolding readsD [OF reads_read_header] by auto
    from eq assms have "h = header k t n" "xs = suf" by (simp_all add: append_eq_append_conv)
    with n have "(length xs < n \<longrightarrow> decode (h @ xs) = Inl (Truncated n (length xs)))
        \<and> (n < length xs \<longrightarrow> decode (h @ xs) = Inl (TrailingBytes (length xs - n)))"
      by (simp add: decode_header)
    moreover from short Inr v have "envelope_body_len h = Inr n"
      by (simp add: envelope_body_len_def reader_new_at)
    ultimately show ?thesis using n by simp
  qed
qed

theorem envelope_body_len_agrees_witness:
  "case envelope_body_len [0x53, 0x53, 2, 0, 0, 7, 0, 0, 0, 9] of
      Inl e \<Rightarrow> decode ([0x53, 0x53, 2, 0, 0, 7, 0, 0, 0, 9] @ [1, 2]) = Inl e
    | Inr n \<Rightarrow> n \<le> MAX_MESSAGE_BYTES
        \<and> (length [1 :: u8, 2] < n \<longrightarrow> decode ([0x53, 0x53, 2, 0, 0, 7, 0, 0, 0, 9] @ [1, 2])
             = Inl (Truncated n (length [1 :: u8, 2])))
        \<and> (n < length [1 :: u8, 2] \<longrightarrow> decode ([0x53, 0x53, 2, 0, 0, 7, 0, 0, 0, 9] @ [1, 2])
             = Inl (TrailingBytes (length [1 :: u8, 2] - n)))"
  by (rule envelope_body_len_agrees) (simp add: ENVELOPE_HEADER_BYTES_def MAGIC_def)

end
