(* ===== verification/Protocol_Negotiation.thy ===== *)
theory Protocol_Negotiation
  imports Protocol_Messages
begin

text \<open>
  Version and capability negotiation, \<open>engine_protocol/version.rs\<close>. Versions are ordered by
  major, then minor, as the derived \<open>Ord\<close> orders them; \<open>negotiate_version\<close> and \<open>negotiate\<close>
  follow the source branch by branch. The specification is the set of versions a range speaks.
\<close>

datatype protocol_version = ProtocolVersion (major: u16) (minor: u16)

instantiation protocol_version :: linorder
begin

definition less_eq_protocol_version :: "protocol_version \<Rightarrow> protocol_version \<Rightarrow> bool" where
  "less_eq_protocol_version a b \<longleftrightarrow>
     major a < major b \<or> major a = major b \<and> minor a \<le> minor b"

definition less_protocol_version :: "protocol_version \<Rightarrow> protocol_version \<Rightarrow> bool" where
  "less_protocol_version a b \<longleftrightarrow>
     major a < major b \<or> major a = major b \<and> minor a < minor b"

instance
  by standard
     (auto simp: less_eq_protocol_version_def less_protocol_version_def
       intro: protocol_version.expand)

end

definition PROTOCOL_CURRENT :: protocol_version where
  "PROTOCOL_CURRENT = ProtocolVersion 1 0"

record version_range =
  range_min :: protocol_version
  range_max :: protocol_version

definition version_range_current :: version_range where
  "version_range_current = \<lparr>range_min = PROTOCOL_CURRENT, range_max = PROTOCOL_CURRENT\<rparr>"

datatype version_error =
    MajorMismatch (local_major: u16) (remote_major: u16)
  | NoCommonVersion (shared_major: u16)

record endpoint =
  versions :: version_range
  endpoint_capabilities :: capabilities

record negotiated =
  agreed_version :: protocol_version
  agreed_capabilities :: capabilities

definition negotiate_version :: "version_range \<Rightarrow> version_range \<Rightarrow> version_error + protocol_version" where
  "negotiate_version loc rem =
     (let mj = major (range_max loc) in
      if mj \<noteq> major (range_max rem) then Inl (MajorMismatch mj (major (range_max rem)))
      else
        let low = max (range_min loc) (range_min rem);
            high = min (range_max loc) (range_max rem)
        in if low > high then Inl (NoCommonVersion mj) else Inr high)"

definition negotiate :: "endpoint \<Rightarrow> endpoint \<Rightarrow> version_error + negotiated" where
  "negotiate loc rem =
     res_bind (negotiate_version (versions loc) (versions rem)) (\<lambda>version.
       Inr \<lparr>agreed_version = version,
            agreed_capabilities =
              capabilities_intersection (endpoint_capabilities loc) (endpoint_capabilities rem)\<rparr>)"

text \<open>The versions a range speaks, and the source's condition on a range: one major.\<close>

definition speaks :: "version_range \<Rightarrow> protocol_version \<Rightarrow> bool" where
  "speaks r v \<longleftrightarrow> range_min r \<le> v \<and> v \<le> range_max r"

definition single_major :: "version_range \<Rightarrow> bool" where
  "single_major r \<longleftrightarrow> major (range_min r) = major (range_max r)"

lemma speaks_major: "single_major r \<Longrightarrow> speaks r v \<Longrightarrow> major v = major (range_max r)"
  by (auto simp: single_major_def speaks_def less_eq_protocol_version_def)

lemma negotiate_version_Inr:
  "negotiate_version a b = Inr v \<longleftrightarrow>
     major (range_max a) = major (range_max b) \<and> v = min (range_max a) (range_max b)
     \<and> speaks a v \<and> speaks b v"
proof -
  have "max (range_min a) (range_min b) \<le> min (range_max a) (range_max b) \<longleftrightarrow>
      speaks a (min (range_max a) (range_max b)) \<and> speaks b (min (range_max a) (range_max b))"
    unfolding speaks_def max.bounded_iff min.bounded_iff by auto
  then show ?thesis
    unfolding negotiate_version_def Let_def by (auto simp only: not_less split: if_splits) 
qed

text \<open>Negotiation agrees on the greatest version both peers speak. For two single-major
  ranges, \<open>negotiate_version\<close> returns a version exactly when some version is spoken by both, and
  then it is the largest such version; it fails with \<open>MajorMismatch\<close> exactly when the majors
  differ, and with \<open>NoCommonVersion\<close> when the shared major has no common minor.\<close>

theorem negotiate_version_greatest:
  assumes "single_major a" and "single_major b"
  shows "case negotiate_version a b of
      Inr v \<Rightarrow> speaks a v \<and> speaks b v \<and> (\<forall>u. speaks a u \<and> speaks b u \<longrightarrow> u \<le> v)
    | Inl e \<Rightarrow> (\<forall>u. \<not> (speaks a u \<and> speaks b u))
        \<and> (case e of MajorMismatch l r \<Rightarrow> l = major (range_max a) \<and> r = major (range_max b) \<and> l \<noteq> r
           | NoCommonVersion m \<Rightarrow> m = major (range_max a) \<and> m = major (range_max b))"
proof (cases "negotiate_version a b")
  case (Inr v)
  then have "v = min (range_max a) (range_max b)" "speaks a v" "speaks b v"
    unfolding negotiate_version_Inr by blast+
  with Inr show ?thesis by (auto simp: speaks_def)
next
  case (Inl e)
  have "\<not> (speaks a u \<and> speaks b u)" for u
  proof
    assume u: "speaks a u \<and> speaks b u"
    then have "major (range_max a) = major (range_max b)"
      using speaks_major [OF assms(1)] speaks_major [OF assms(2)] by metis
    moreover from u have "\<not> min (range_max a) (range_max b) < max (range_min a) (range_min b)"
      by (auto simp: speaks_def not_less)
    ultimately show False using Inl
      unfolding negotiate_version_def Let_def by (metis Inr_not_Inl)
  qed
  moreover from Inl have "e = (if major (range_max a) \<noteq> major (range_max b)
      then MajorMismatch (major (range_max a)) (major (range_max b))
      else NoCommonVersion (major (range_max a)))"
    unfolding negotiate_version_def Let_def by (metis Inl_inject Inr_not_Inl)
  ultimately show ?thesis using Inl by simp
qed

theorem negotiate_version_greatest_witness:
  "let a = \<lparr>range_min = ProtocolVersion 1 0, range_max = ProtocolVersion 1 4\<rparr>;
       b = \<lparr>range_min = ProtocolVersion 1 2, range_max = ProtocolVersion 1 9\<rparr>
   in negotiate_version a b = Inr (ProtocolVersion 1 4)
      \<and> (\<forall>u. speaks a u \<and> speaks b u \<longrightarrow> u \<le> ProtocolVersion 1 4)"
proof -
  let ?a = "\<lparr>range_min = ProtocolVersion 1 0, range_max = ProtocolVersion 1 4\<rparr>"
  let ?b = "\<lparr>range_min = ProtocolVersion 1 2, range_max = ProtocolVersion 1 9\<rparr>"
  have "negotiate_version ?a ?b = Inr (ProtocolVersion 1 4)"
    by (simp add: negotiate_version_def Let_def max_def min_def
        less_eq_protocol_version_def less_protocol_version_def)
  with negotiate_version_greatest [of ?a ?b] show ?thesis
    by (simp add: single_major_def Let_def)
qed

text \<open>Negotiation is symmetric and its capabilities are exactly those both sides have: the
  two peers, each running \<open>negotiate\<close> with its own view of local and remote, agree on the same
  version and the same capability set, and that set contains a capability if and only if both
  advertised it.\<close>

theorem negotiate_symmetric:
  "(negotiate a b = Inr n \<longleftrightarrow> negotiate b a = Inr n)
   \<and> (case negotiate a b of Inl _ \<Rightarrow> True
      | Inr n \<Rightarrow> \<forall>c. capabilities_contains (agreed_capabilities n) c =
           (capabilities_contains (endpoint_capabilities a) c
            \<and> capabilities_contains (endpoint_capabilities b) c))"
proof -
  have "capabilities_intersection x y = capabilities_intersection y x" for x y
    by (simp add: capabilities_intersection_def and.commute)
  moreover have "negotiate_version x y = Inr v \<longleftrightarrow> negotiate_version y x = Inr v" for x y v
    by (auto simp: negotiate_version_Inr min.commute)
  ultimately have "negotiate a b = Inr n \<longleftrightarrow> negotiate b a = Inr n"
    by (simp add: negotiate_def res_bind_ok)
  moreover have "\<forall>c. capabilities_contains (agreed_capabilities m) c =
           (capabilities_contains (endpoint_capabilities a) c
            \<and> capabilities_contains (endpoint_capabilities b) c)" if "negotiate a b = Inr m" for m
    using that by (auto simp: negotiate_def res_bind_ok intersection_greatest)
  ultimately show ?thesis by (simp split: sum.splits)
qed

end
