(* ===== verification/Protocol_Lifecycle.thy ===== *)
theory Protocol_Lifecycle
  imports Prelude "HOL-Library.Sublist"
begin

text \<open>
  The engine, view and frame state machines of \<open>engine_protocol/lifecycle.rs\<close>: the three
  transition tables, \<open>name\<close>, \<open>can_transition\<close> and \<open>transition\<close>. The locale \<open>lifecycle\<close> is the
  contract all three share; \<open>ranked_lifecycle\<close> adds a rank every transition increases, which
  bounds the runs of the machines without a cycle (engines and frames).
\<close>

record illegal_transition =
  from_name :: string
  to_name :: string

section \<open>Engine processes\<close>

datatype engine_state = EngineStarting | EngineReady | EngineDraining | EngineExited | EngineFailed

definition engine_transitions :: "(engine_state \<times> engine_state) list" where
  "engine_transitions =
     [(EngineStarting, EngineReady),
      (EngineStarting, EngineFailed),
      (EngineReady, EngineDraining),
      (EngineReady, EngineFailed),
      (EngineDraining, EngineExited),
      (EngineDraining, EngineFailed)]"

fun engine_state_name :: "engine_state \<Rightarrow> string" where
  "engine_state_name EngineStarting = ''Starting''"
| "engine_state_name EngineReady = ''Ready''"
| "engine_state_name EngineDraining = ''Draining''"
| "engine_state_name EngineExited = ''Exited''"
| "engine_state_name EngineFailed = ''Failed''"

definition engine_can_transition :: "engine_state \<Rightarrow> engine_state \<Rightarrow> bool" where
  "engine_can_transition s to =
     list_ex (\<lambda>(frm, dest). frm = s \<and> dest = to) engine_transitions"

definition engine_transition :: "engine_state \<Rightarrow> engine_state \<Rightarrow> illegal_transition + engine_state" where
  "engine_transition s to =
     (if engine_can_transition s to then Inr to
      else Inl \<lparr>from_name = engine_state_name s, to_name = engine_state_name to\<rparr>)"

section \<open>Views\<close>

datatype view_state =
  ViewCreating | ViewLoading | ViewInteractive | ViewClosing | ViewIsClosed | ViewFailed

definition view_transitions :: "(view_state \<times> view_state) list" where
  "view_transitions =
     [(ViewCreating, ViewLoading),
      (ViewCreating, ViewFailed),
      (ViewLoading, ViewInteractive),
      (ViewLoading, ViewFailed),
      (ViewInteractive, ViewLoading),
      (ViewInteractive, ViewClosing),
      (ViewInteractive, ViewFailed),
      (ViewClosing, ViewIsClosed),
      (ViewFailed, ViewClosing)]"

fun view_state_name :: "view_state \<Rightarrow> string" where
  "view_state_name ViewCreating = ''Creating''"
| "view_state_name ViewLoading = ''Loading''"
| "view_state_name ViewInteractive = ''Interactive''"
| "view_state_name ViewClosing = ''Closing''"
| "view_state_name ViewIsClosed = ''Closed''"
| "view_state_name ViewFailed = ''Failed''"

definition view_can_transition :: "view_state \<Rightarrow> view_state \<Rightarrow> bool" where
  "view_can_transition s to =
     list_ex (\<lambda>(frm, dest). frm = s \<and> dest = to) view_transitions"

definition view_transition :: "view_state \<Rightarrow> view_state \<Rightarrow> illegal_transition + view_state" where
  "view_transition s to =
     (if view_can_transition s to then Inr to
      else Inl \<lparr>from_name = view_state_name s, to_name = view_state_name to\<rparr>)"

section \<open>Frames\<close>

datatype frame_state =
  FrameProduced | FrameTransferred | FramePresented | FrameDiscarded | FrameReleased

definition frame_transitions :: "(frame_state \<times> frame_state) list" where
  "frame_transitions =
     [(FrameProduced, FrameTransferred),
      (FrameTransferred, FramePresented),
      (FrameTransferred, FrameDiscarded),
      (FramePresented, FrameReleased),
      (FrameDiscarded, FrameReleased)]"

fun frame_state_name :: "frame_state \<Rightarrow> string" where
  "frame_state_name FrameProduced = ''Produced''"
| "frame_state_name FrameTransferred = ''Transferred''"
| "frame_state_name FramePresented = ''Presented''"
| "frame_state_name FrameDiscarded = ''Discarded''"
| "frame_state_name FrameReleased = ''Released''"

definition frame_can_transition :: "frame_state \<Rightarrow> frame_state \<Rightarrow> bool" where
  "frame_can_transition s to =
     list_ex (\<lambda>(frm, dest). frm = s \<and> dest = to) frame_transitions"

definition frame_transition :: "frame_state \<Rightarrow> frame_state \<Rightarrow> illegal_transition + frame_state" where
  "frame_transition s to =
     (if frame_can_transition s to then Inr to
      else Inl \<lparr>from_name = frame_state_name s, to_name = frame_state_name to\<rparr>)"

section \<open>Runs\<close>

text \<open>
  A peer reports a sequence of states. \<open>track\<close> applies each report and keeps the current state
  when the report is rejected (the states are \<open>Copy\<close> and \<open>transition\<close> takes \<open>self\<close> by value, so
  an error leaves the caller's state as it was). \<open>legal_run s ts\<close>: every report is accepted.
\<close>

fun track :: "('s \<Rightarrow> 's \<Rightarrow> 'e + 's) \<Rightarrow> 's \<Rightarrow> 's list \<Rightarrow> 's" where
  "track f s [] = s"
| "track f s (t # ts) = track f (case f s t of Inl _ \<Rightarrow> s | Inr u \<Rightarrow> u) ts"

inductive legal_run :: "('s \<Rightarrow> 's \<Rightarrow> 'e + 's) \<Rightarrow> 's \<Rightarrow> 's list \<Rightarrow> bool" for f where
  legal_Nil: "legal_run f s []"
| legal_Cons: "f s t = Inr u \<Longrightarrow> legal_run f u ts \<Longrightarrow> legal_run f s (t # ts)"

lemma track_append: "track f s (ts @ us) = track f (track f s ts) us"
  by (induction ts arbitrary: s) simp_all

inductive_simps legal_run_simps: "legal_run f s []" "legal_run f s (t # ts)"

locale lifecycle =
  fixes table :: "('s \<times> 's) list"
    and can :: "'s \<Rightarrow> 's \<Rightarrow> bool"
    and trans :: "'s \<Rightarrow> 's \<Rightarrow> illegal_transition + 's"
    and nm :: "'s \<Rightarrow> string"
  assumes can_table: "can s t \<longleftrightarrow> (s, t) \<in> set table"
    and trans_ok: "can s t \<Longrightarrow> trans s t = Inr t"
    and trans_err: "\<not> can s t \<Longrightarrow> trans s t = Inl \<lparr>from_name = nm s, to_name = nm t\<rparr>"
    and nm_inject: "nm s = nm t \<Longrightarrow> s = t"
begin

lemma trans_Inr_iff: "trans s t = Inr u \<longleftrightarrow> can s t \<and> u = t"
  by (cases "can s t") (auto simp: trans_ok trans_err)

lemma legal_run_Cons: "legal_run trans s (t # ts) \<longleftrightarrow> can s t \<and> legal_run trans t ts"
  by (auto simp: legal_run_simps trans_Inr_iff)

text \<open>A state with no outgoing edge absorbs every report.\<close>

lemma terminal_absorbs:
  assumes "s \<notin> fst ` set table"
  shows "track trans s ts = s"
proof (induction ts)
  case (Cons t ts)
  have "\<not> can s t" using assms by (force simp: can_table)
  with Cons show ?case by (simp add: trans_err)
qed simp

text \<open>
  Tracking any reports, illegal ones included, reaches a state that a legal run made of some of
  the reports, in their order, reaches: an out-of-order peer cannot drive the tracker elsewhere.
\<close>

lemma track_legal: "\<exists>us. subseq us ts \<and> legal_run trans s us \<and> last (s # us) = track trans s ts"
proof (induction ts arbitrary: s)
  case Nil
  show ?case by (auto simp: legal_run_simps)
next
  case (Cons t ts)
  show ?case
  proof (cases "can s t")
    case True
    obtain us where "subseq us ts" "legal_run trans t us" "last (t # us) = track trans t ts"
      using Cons.IH[of t] by blast
    with True have "subseq (t # us) (t # ts) \<and> legal_run trans s (t # us)
        \<and> last (s # t # us) = track trans s (t # ts)"
      by (simp add: legal_run_Cons trans_ok)
    then show ?thesis by blast
  next
    case False
    obtain us where "subseq us ts" "legal_run trans s us" "last (s # us) = track trans s ts"
      using Cons.IH[of s] by blast
    with False have "subseq us (t # ts) \<and> legal_run trans s us
        \<and> last (s # us) = track trans s (t # ts)"
      by (simp add: trans_err list_emb_Cons)
    then show ?thesis by blast
  qed
qed

lemma legal_run_track: "legal_run trans s ts \<Longrightarrow> track trans s ts = last (s # ts)"
  by (induction ts arbitrary: s) (auto simp: legal_run_Cons trans_ok)

end

text \<open>Machines without a cycle: every edge increases a rank, so a run is short.\<close>

locale ranked_lifecycle = lifecycle +
  fixes rank :: "'a \<Rightarrow> nat" and top :: nat
  assumes edge_rank: "(s, t) \<in> set table \<Longrightarrow> rank s < rank t"
    and rank_top: "rank s \<le> top"
begin

lemma legal_run_length: "legal_run trans s ts \<Longrightarrow> rank s + length ts \<le> top"
proof (induction ts arbitrary: s)
  case (Cons t ts)
  then have "rank s < rank t" "rank t + length ts \<le> top"
    using edge_rank[of s t] by (simp_all add: legal_run_Cons can_table)
  then show ?case by simp
qed (simp add: rank_top)

lemma legal_run_increases: "legal_run trans s ts \<Longrightarrow> t \<in> set ts \<Longrightarrow> rank s < rank t"
proof (induction ts arbitrary: s)
  case (Cons u ts)
  then have "rank s < rank u" "legal_run trans u ts"
    using edge_rank[of s u] by (simp_all add: legal_run_Cons can_table)
  then show ?case using Cons.IH[of u] Cons.prems(2) by (cases "t = u") auto
qed simp

lemma legal_run_distinct: "legal_run trans s ts \<Longrightarrow> distinct (s # ts)"
proof (induction ts arbitrary: s)
  case (Cons t ts)
  then have "distinct (t # ts)" using Cons.IH[of t] by (simp add: legal_run_Cons)
  moreover have "s \<notin> set (t # ts)" using legal_run_increases[OF Cons.prems] by blast
  ultimately show ?case by simp
qed simp

end

section \<open>The three machines\<close>

lemmas machine_defs = engine_transitions_def engine_can_transition_def engine_transition_def
  view_transitions_def view_can_transition_def view_transition_def
  frame_transitions_def frame_can_transition_def frame_transition_def

fun engine_rank :: "engine_state \<Rightarrow> nat" where
  "engine_rank EngineStarting = 0"
| "engine_rank EngineReady = 1"
| "engine_rank EngineDraining = 2"
| "engine_rank EngineExited = 3"
| "engine_rank EngineFailed = 3"

fun frame_rank :: "frame_state \<Rightarrow> nat" where
  "frame_rank FrameProduced = 0"
| "frame_rank FrameTransferred = 1"
| "frame_rank FramePresented = 2"
| "frame_rank FrameDiscarded = 2"
| "frame_rank FrameReleased = 3"

lemma engine_state_name_inject: "engine_state_name s = engine_state_name t \<Longrightarrow> s = t"
  by (cases s; cases t) simp_all

lemma view_state_name_inject: "view_state_name s = view_state_name t \<Longrightarrow> s = t"
  by (cases s; cases t) simp_all

lemma frame_state_name_inject: "frame_state_name s = frame_state_name t \<Longrightarrow> s = t"
  by (cases s; cases t) simp_all

interpretation engine_life: ranked_lifecycle engine_transitions engine_can_transition
  engine_transition engine_state_name engine_rank 3
proof
  fix s t show "engine_can_transition s t \<longleftrightarrow> (s, t) \<in> set engine_transitions"
    by (auto simp: machine_defs)
next
  fix s show "engine_rank s \<le> 3" by (cases s) simp_all
qed (auto simp: engine_transition_def engine_transitions_def dest: engine_state_name_inject)

interpretation view_life: lifecycle view_transitions view_can_transition view_transition
  view_state_name
proof
  fix s t show "view_can_transition s t \<longleftrightarrow> (s, t) \<in> set view_transitions"
    by (auto simp: machine_defs)
qed (auto simp: view_transition_def dest: view_state_name_inject)

interpretation frame_life: ranked_lifecycle frame_transitions frame_can_transition
  frame_transition frame_state_name frame_rank 3
proof
  fix s t show "frame_can_transition s t \<longleftrightarrow> (s, t) \<in> set frame_transitions"
    by (auto simp: machine_defs)
next
  fix s show "frame_rank s \<le> 3" by (cases s) simp_all
qed (auto simp: frame_transition_def frame_transitions_def dest: frame_state_name_inject)

lemmas table_simps = engine_life.can_table view_life.can_table frame_life.can_table
  engine_transitions_def view_transitions_def frame_transitions_def

section \<open>Properties\<close>

lemma engine_absorbs:
  "s \<in> {EngineExited, EngineFailed} \<Longrightarrow> track engine_transition s ts = s"
  by (rule engine_life.terminal_absorbs) (auto simp: engine_transitions_def)

lemma engine_exit_run:
  assumes "legal_run engine_transition EngineStarting rs"
    and "last (EngineStarting # rs) = EngineExited"
  shows "rs = [EngineReady, EngineDraining, EngineExited]"
proof -
  have "length rs \<le> 3" using engine_life.legal_run_length[OF assms(1)] by simp
  then show ?thesis using assms
    by (cases rs; cases "tl rs"; cases "tl (tl rs)")
      (auto simp: engine_life.legal_run_Cons table_simps)
qed

lemma frame_release_run:
  assumes "legal_run frame_transition FrameProduced rs"
    and "last (FrameProduced # rs) = FrameReleased"
  shows "rs = [FrameTransferred, FramePresented, FrameReleased]
    \<or> rs = [FrameTransferred, FrameDiscarded, FrameReleased]"
proof -
  have "length rs \<le> 3" using frame_life.legal_run_length[OF assms(1)] by simp
  then show ?thesis using assms
    by (cases rs; cases "tl rs"; cases "tl (tl rs)")
      (auto simp: frame_life.legal_run_Cons table_simps)
qed

lemma view_close_run: "\<exists>ts. legal_run view_transition s ts \<and> last (s # ts) = ViewIsClosed"
proof -
  define ts where "ts = (case s of
      ViewCreating \<Rightarrow> [ViewFailed, ViewClosing, ViewIsClosed]
    | ViewLoading \<Rightarrow> [ViewInteractive, ViewClosing, ViewIsClosed]
    | ViewInteractive \<Rightarrow> [ViewClosing, ViewIsClosed]
    | ViewClosing \<Rightarrow> [ViewIsClosed]
    | ViewIsClosed \<Rightarrow> []
    | ViewFailed \<Rightarrow> [ViewClosing, ViewIsClosed])"
  have "legal_run view_transition s ts \<and> last (s # ts) = ViewIsClosed"
    by (cases s) (simp_all add: ts_def legal_Nil view_life.legal_run_Cons table_simps)
  then show ?thesis by blast
qed

lemma view_run_snoc:
  "legal_run view_transition s (ts @ [ViewIsClosed])
     \<longleftrightarrow> legal_run view_transition s ts \<and> last (s # ts) = ViewClosing"
proof (induction ts arbitrary: s)
  case Nil
  show ?case by (cases s) (simp_all add: view_life.legal_run_Cons legal_Nil table_simps)
next
  case (Cons t ts)
  then show ?case by (simp add: view_life.legal_run_Cons)
qed

text \<open>Whatever states an engine process reports, in whatever order and however often, an
  engine that has reached \<open>Exited\<close> or \<open>Failed\<close> stays there, and an engine that ends in \<open>Exited\<close>
  was reported ready, draining and exited in that order.\<close>

theorem engine_reports:
  assumes "track engine_transition EngineStarting ts = EngineExited"
  shows "subseq [EngineReady, EngineDraining, EngineExited] ts
    \<and> track engine_transition EngineStarting (ts @ us) = EngineExited"
proof -
  obtain rs where rs: "subseq rs ts" "legal_run engine_transition EngineStarting rs"
      "last (EngineStarting # rs) = EngineExited"
    using engine_life.track_legal[of ts EngineStarting] assms by auto
  have "rs = [EngineReady, EngineDraining, EngineExited]"
    using rs(2,3) by (rule engine_exit_run)
  moreover have "track engine_transition EngineStarting (ts @ us) = EngineExited"
    using assms engine_absorbs by (simp add: track_append)
  ultimately show ?thesis using rs(1) by simp
qed

theorem engine_reports_witness:
  "subseq [EngineReady, EngineDraining, EngineExited]
      [EngineExited, EngineReady, EngineStarting, EngineDraining, EngineReady, EngineExited]
    \<and> track engine_transition EngineStarting
        ([EngineExited, EngineReady, EngineStarting, EngineDraining, EngineReady, EngineExited]
          @ [EngineReady, EngineFailed]) = EngineExited"
  by (rule engine_reports) (simp add: machine_defs)

text \<open>A frame is released at most once, and only through the shell: the complete runs of the
  frame machine are exactly transfer, then presentation or discard (never both), then release,
  and a released frame accepts no report.\<close>

theorem frame_release_once:
  "(legal_run frame_transition FrameProduced ts \<and> last (FrameProduced # ts) = FrameReleased
     \<longleftrightarrow> ts = [FrameTransferred, FramePresented, FrameReleased]
       \<or> ts = [FrameTransferred, FrameDiscarded, FrameReleased])
   \<and> track frame_transition FrameReleased us = FrameReleased"
proof
  show "legal_run frame_transition FrameProduced ts \<and> last (FrameProduced # ts) = FrameReleased
     \<longleftrightarrow> ts = [FrameTransferred, FramePresented, FrameReleased]
       \<or> ts = [FrameTransferred, FrameDiscarded, FrameReleased]"
    using frame_release_run[of ts]
    by (auto simp: frame_life.legal_run_Cons legal_Nil table_simps)
  show "track frame_transition FrameReleased us = FrameReleased"
    by (rule frame_life.terminal_absorbs) (auto simp: frame_transitions_def)
qed

text \<open>C37: A view can be closed from every state; a run reports \<open>Closed\<close> exactly when it has just
  reported (or started in) \<open>Closing\<close>, so no view skips its close handshake; and a closed view
  accepts no report.\<close>

theorem view_closes:
  "(\<exists>ts. legal_run view_transition s ts \<and> last (s # ts) = ViewIsClosed)
   \<and> (legal_run view_transition s (ts @ [ViewIsClosed])
       \<longleftrightarrow> legal_run view_transition s ts \<and> last (s # ts) = ViewClosing)
   \<and> track view_transition ViewIsClosed us = ViewIsClosed"
  by (intro conjI view_close_run view_run_snoc view_life.terminal_absorbs)
    (auto simp: view_transitions_def)

end
