(* ===== verification/Dom_Tree.thy ===== *)
theory Dom_Tree
  imports Dom_State
begin

text \<open>
  The operations of \<open>silksurf-dom/src/lib.rs\<close> that create nodes and change the tree:
  the constructors, \<open>attach_shadow\<close>, \<open>validate_insertion\<close>, \<open>splice_fragment\<close>, \<open>pre_insert\<close>,
  \<open>append_child\<close>, \<open>insert_before\<close>, \<open>remove_child\<close>, \<open>append_text\<close> and \<open>set_text_content\<close>, each with
  its checks and early returns in the order of the source.
\<close>

section \<open>Node updates\<close>

definition upd_node :: "node_id \<Rightarrow> (node \<Rightarrow> node) \<Rightarrow> dom \<Rightarrow> dom" where
  "upd_node i f d = d\<lparr>nodes := (nodes d)[i := f (nodes d ! i)]\<rparr>"

definition set_parent :: "node_id \<Rightarrow> node_id option \<Rightarrow> dom \<Rightarrow> dom" where
  "set_parent i p = upd_node i (\<lambda>n. n\<lparr>node_parent := p\<rparr>)"

definition upd_children :: "node_id \<Rightarrow> (node_id list \<Rightarrow> node_id list) \<Rightarrow> dom \<Rightarrow> dom" where
  "upd_children i f = upd_node i (\<lambda>n. n\<lparr>node_children := f (node_children n)\<rparr>)"

definition set_kind :: "node_id \<Rightarrow> node_kind \<Rightarrow> dom \<Rightarrow> dom" where
  "set_kind i k = upd_node i (\<lambda>n. n\<lparr>kind := k\<rparr>)"

definition push_node :: "node_kind \<Rightarrow> dom \<Rightarrow> node_id \<times> dom" where
  "push_node k d = (length (nodes d), d\<lparr>nodes := nodes d @ [node_new k]\<rparr>)"

section \<open>Constructors\<close>

definition create_document :: "dom \<Rightarrow> node_id \<times> dom" where
  "create_document d =
     (let (root, d) = push_node Document d in
      (root, case document_root d of None \<Rightarrow> d\<lparr>document_root := Some root\<rparr> | Some _ \<Rightarrow> d))"

definition create_document_fragment :: "dom \<Rightarrow> node_id \<times> dom" where
  "create_document_fragment d = push_node DocumentFragment d"

definition local_tag_name :: "string \<Rightarrow> namespace \<Rightarrow> tag_name" where
  "local_tag_name local_name ns =
     (if ns = NsHtml \<and> local_name = to_ascii_lowercase local_name
      then tag_from_str local_name else TagCustom local_name)"

definition create_element_ns_local ::
    "string \<Rightarrow> string option \<Rightarrow> namespace \<Rightarrow> dom \<Rightarrow> node_id \<times> dom" where
  "create_element_ns_local local_name pfx ns d =
     (let name = local_tag_name local_name ns;
          is_template = (ns = NsHtml \<and> tag_as_str name = ''template'');
          (element, d) = push_node (Element name pfx ns []) d
      in if is_template then
           (let (contents, d) = create_document_fragment d in
            (element, d\<lparr>template_contents := (template_contents d)(element \<mapsto> contents),
                        template_hosts := (template_hosts d)(contents \<mapsto> element)\<rparr>))
         else (element, d))"

definition create_element :: "string \<Rightarrow> dom \<Rightarrow> node_id \<times> dom" where
  "create_element name d = create_element_ns_local (to_ascii_lowercase name) None NsHtml d"

definition create_element_ns :: "string \<Rightarrow> namespace \<Rightarrow> dom \<Rightarrow> node_id \<times> dom" where
  "create_element_ns name ns d =
     (let (pfx, local_name) =
            (case split_once CHR '':'' name of
               None \<Rightarrow> (None, name)
             | Some (pfx, local_name) \<Rightarrow> (Some pfx, local_name))
      in create_element_ns_local local_name pfx ns d)"

definition create_text :: "string \<Rightarrow> dom \<Rightarrow> node_id \<times> dom" where
  "create_text s d = push_node (Text s) d"

definition create_comment :: "string \<Rightarrow> dom \<Rightarrow> node_id \<times> dom" where
  "create_comment s d = push_node (Comment s) d"

definition create_doctype ::
    "string option \<Rightarrow> string option \<Rightarrow> string option \<Rightarrow> dom \<Rightarrow> node_id \<times> dom" where
  "create_doctype name public_id system_id d = push_node (Doctype name public_id system_id) d"

definition attach_shadow :: "node_id \<Rightarrow> bool \<Rightarrow> node_id dom_op" where
  "attach_shadow host closed =
     sm_bind (sm_read (\<lambda>d. node_at d host)) (\<lambda>n.
       case kind n of
         Element name _ ns _ \<Rightarrow> (\<lambda>d.
           let valid_host = (tag_as_str name \<in> set builtin_shadow_hosts
                             \<or> valid_custom_shadow_host (tag_as_str name))
           in if ns \<noteq> NsHtml \<or> \<not> valid_host \<or> shadow_roots d host \<noteq> None
              then (Inl (Error (HierarchyRequest host)), d)
              else
                (let (root, d) = create_document_fragment d;
                     d = d\<lparr>shadow_roots := (shadow_roots d)(host \<mapsto> root),
                           shadow_hosts := (shadow_hosts d)(root \<mapsto> (host, closed))\<rparr>
                 in (Inr root, record_structure_change d)))
       | _ \<Rightarrow> sm_fail (Error (NotElement host)))"

section \<open>Insertion\<close>

fun container_kind :: "node_kind \<Rightarrow> bool" where
  "container_kind Document = True"
| "container_kind DocumentFragment = True"
| "container_kind (Element _ _ _ _) = True"
| "container_kind _ = False"

text \<open>The inclusive-ancestor walk follows the parent, or the host of template contents, or the
  host of a shadow root.\<close>

definition up_link :: "dom \<Rightarrow> node_id \<Rightarrow> dom_fault + node_id option" where
  "up_link d i =
     res_bind (parent d i) (\<lambda>p. Inr (case p of
        Some q \<Rightarrow> Some q
      | None \<Rightarrow> (case template_hosts d i of
                   Some h \<Rightarrow> Some h
                 | None \<Rightarrow> map_option fst (shadow_host d i))))"

partial_function (option) ancestor_loop ::
    "dom \<Rightarrow> node_id \<Rightarrow> node_id \<Rightarrow> (dom_fault + unit) option" where
  "ancestor_loop d child i =
     (if i = child then Some (Inl (Error (HierarchyRequest child)))
      else (case up_link d i of
              Inl e \<Rightarrow> Some (Inl e)
            | Inr None \<Rightarrow> Some (Inr ())
            | Inr (Some up) \<Rightarrow> ancestor_loop d child up))"

definition validate_insertion :: "node_id \<Rightarrow> node_id \<Rightarrow> dom \<Rightarrow> dom_fault + unit" where
  "validate_insertion p c d =
     res_bind (node_at d p) (\<lambda>n.
       if \<not> container_kind (kind n) then Inl (Error (HierarchyRequest p))
       else res_bind (node_at d c) (\<lambda>_.
         case ancestor_loop d c p of None \<Rightarrow> Inl Diverges | Some r \<Rightarrow> r))"

fun validate_each :: "node_id \<Rightarrow> node_id list \<Rightarrow> dom \<Rightarrow> dom_fault + unit" where
  "validate_each p [] d = Inr ()"
| "validate_each p (c # cs) d = res_bind (validate_insertion p c d) (\<lambda>_. validate_each p cs d)"

fun splice_loop :: "node_id \<Rightarrow> nat \<Rightarrow> node_id list \<Rightarrow> dom \<Rightarrow> dom" where
  "splice_loop p pos [] d = d"
| "splice_loop p pos (c # cs) d =
     splice_loop p (Suc pos) cs
       (mark_dirty c (upd_children p (insert_at pos c) (set_parent c (Some p) d)))"

definition splice_fragment :: "node_id \<Rightarrow> node_id \<Rightarrow> node_id option \<Rightarrow> unit dom_op" where
  "splice_fragment p fragment reference =
     sm_bind (sm_read (\<lambda>d. children d fragment)) (\<lambda>cs.
     if cs = [] then sm_return ()
     else
       sm_then (sm_read (validate_each p cs)) (
       sm_bind (sm_read (\<lambda>d. node_index d p)) (\<lambda>parent_index.
       sm_bind (sm_read (\<lambda>d. node_index d fragment)) (\<lambda>fragment_index.
       sm_bind (sm_read (\<lambda>d.
         let siblings = node_children (nodes d ! parent_index) in
         case reference of
           Some r \<Rightarrow> ok_or (Error (NotChild r)) (position (\<lambda>c. c = r) siblings)
         | None \<Rightarrow> Inr (length siblings))) (\<lambda>pos.
       sm_do (\<lambda>d.
         let previous = before_opt (node_children (nodes d ! parent_index)) pos;
             d = upd_children fragment_index (\<lambda>_. []) d;
             d = splice_loop parent_index pos cs d;
             d = mark_dirty fragment (mark_dirty p (record_structure_change d));
             d = queue_mutation fragment (ChildListRecord [] cs None None) d
         in queue_mutation p (ChildListRecord cs [] previous reference) d))))))"

definition append_child :: "node_id \<Rightarrow> node_id \<Rightarrow> unit dom_op" where
  "append_child p c =
     sm_then (sm_read (validate_insertion p c)) (
     sm_bind (sm_read (\<lambda>d. node_at d c)) (\<lambda>n.
     if kind n = DocumentFragment then splice_fragment p c None
     else
       sm_bind (sm_read (\<lambda>d. node_index d p)) (\<lambda>parent_index.
       sm_bind (sm_read (\<lambda>d. node_index d c)) (\<lambda>child_index. \<lambda>d.
         if node_parent (nodes d ! child_index) \<noteq> None
         then (Inl (Error (AlreadyHasParent c)), d)
         else
           (let previous = last_opt (node_children (nodes d ! parent_index));
                d = set_parent child_index (Some p) d;
                d = upd_children parent_index (\<lambda>cs. cs @ [c]) d;
                d = mark_dirty c (mark_dirty p (record_structure_change d))
            in (Inr (), queue_mutation p (ChildListRecord [c] [] previous None) d))))))"

definition remove_child :: "node_id \<Rightarrow> node_id \<Rightarrow> unit dom_op" where
  "remove_child p c =
     sm_bind (sm_read (\<lambda>d. node_index d p)) (\<lambda>parent_index.
     sm_bind (sm_read (\<lambda>d. node_index d c)) (\<lambda>child_index.
     sm_bind (sm_read (\<lambda>d.
       ok_or (Error (NotChild c))
         (position (\<lambda>i. i = c) (node_children (nodes d ! parent_index))))) (\<lambda>pos.
     sm_do (\<lambda>d.
       let siblings = node_children (nodes d ! parent_index);
           previous = before_opt siblings pos;
           following = get_opt siblings (pos + 1);
           d = upd_children parent_index (filter (\<lambda>i. i \<noteq> c)) d;
           d = set_parent child_index None d;
           d = mark_dirty p (record_structure_change d)
       in queue_mutation p (ChildListRecord [] [c] previous following) d))))"

definition insert_before :: "node_id \<Rightarrow> node_id \<Rightarrow> node_id \<Rightarrow> unit dom_op" where
  "insert_before p new_child ref_child =
     sm_then (sm_read (validate_insertion p new_child)) (
     sm_bind (sm_read (\<lambda>d. parent d ref_child)) (\<lambda>ref_parent.
     if ref_parent \<noteq> Some p then sm_fail (Error (NotChild ref_child))
     else if new_child = ref_child then sm_return ()
     else
       sm_bind (sm_read (\<lambda>d. node_at d new_child)) (\<lambda>n.
       if kind n = DocumentFragment then splice_fragment p new_child (Some ref_child)
       else
         sm_bind (sm_read (\<lambda>d. node_index d p)) (\<lambda>parent_index.
         sm_bind (sm_read (\<lambda>d. node_index d new_child)) (\<lambda>new_index.
         sm_then (sm_read (\<lambda>d. node_index d ref_child)) (
         sm_then (\<lambda>d. case node_parent (nodes d ! new_index) of
                     Some old_parent \<Rightarrow> remove_child old_parent new_child d
                   | None \<Rightarrow> (Inr (), d)) (
         sm_do (\<lambda>d.
           let d = set_parent new_index (Some p) d;
               siblings = node_children (nodes d ! parent_index);
               pos = position (\<lambda>i. i = ref_child) siblings;
               previous = (case pos of Some idx \<Rightarrow> before_opt siblings idx
                                     | None \<Rightarrow> last_opt siblings);
               d = upd_children parent_index
                     (\<lambda>cs. case pos of Some idx \<Rightarrow> insert_at idx new_child cs
                                     | None \<Rightarrow> cs @ [new_child]) d;
               d = mark_dirty new_child (mark_dirty p (record_structure_change d))
           in queue_mutation p
                (ChildListRecord [new_child] [] previous (map_option (\<lambda>_. ref_child) pos)) d))))))))"

definition pre_insert :: "node_id \<Rightarrow> node_id \<Rightarrow> node_id option \<Rightarrow> unit dom_op" where
  "pre_insert p c reference =
     (case reference of
        Some r \<Rightarrow> insert_before p c r
      | None \<Rightarrow>
          sm_then (sm_read (validate_insertion p c)) (
          sm_bind (sm_read (\<lambda>d. parent d c)) (\<lambda>old.
          sm_then (case old of
                     Some old_parent \<Rightarrow> remove_child old_parent c
                   | None \<Rightarrow> sm_return ())
            (append_child p c))))"

section \<open>Text\<close>

definition append_text :: "node_id \<Rightarrow> string \<Rightarrow> node_id dom_op" where
  "append_text p text =
     (if text = [] then sm_return p
      else
        sm_bind (sm_read (\<lambda>d. last_child d p)) (\<lambda>lst.
        sm_bind (sm_read (\<lambda>d. case lst of
            None \<Rightarrow> Inr None
          | Some l \<Rightarrow> res_bind (node_index d l) (\<lambda>last_index.
              Inr (case kind (nodes d ! last_index) of
                     Text existing \<Rightarrow> Some (l, existing) | _ \<Rightarrow> None)))) (\<lambda>found.
        case found of
          Some (l, old) \<Rightarrow> (\<lambda>d.
            let d = set_kind l (Text (old @ text)) d;
                d = mark_dirty l (mark_dirty p (record_text_change d))
            in (Inr l, queue_mutation l (CharacterDataRecord old) d))
        | None \<Rightarrow>
            sm_bind (sm_lift (create_text text)) (\<lambda>text_node.
            sm_then (append_child p text_node) (\<lambda>d.
              (Inr text_node, mark_dirty text_node (mark_dirty p d)))))))"

fun orphan_all :: "node_id list \<Rightarrow> dom \<Rightarrow> dom" where
  "orphan_all [] d = d"
| "orphan_all (c # cs) d =
     orphan_all cs (if c < length (nodes d) then set_parent c None d else d)"

definition set_text_content :: "node_id \<Rightarrow> string \<Rightarrow> unit dom_op" where
  "set_text_content i text =
     sm_bind (sm_read (\<lambda>d. node_index d i)) (\<lambda>index. \<lambda>d.
       (case kind (nodes d ! index) of
          Text existing \<Rightarrow>
            if existing \<noteq> text then
              (let d = mark_dirty i (record_text_change (set_kind index (Text text) d))
               in (Inr (), queue_mutation i (CharacterDataRecord existing) d))
            else (Inr (), d)
        | Comment _ \<Rightarrow> (Inl (Error (NotText i)), d)
        | Doctype _ _ _ \<Rightarrow> (Inl (Error (NotText i)), d)
        | _ \<Rightarrow>
            (let old_children = node_children (nodes d ! index);
                 d = orphan_all old_children (upd_children index (\<lambda>_. []) d);
                 (added, d) =
                   (if text \<noteq> [] then
                      (let (text_node, d) = create_text text d;
                           d = upd_children index (\<lambda>cs. cs @ [text_node])
                                 (set_parent text_node (Some i) d)
                       in ([text_node], mark_dirty text_node (record_structure_change d)))
                    else if old_children \<noteq> [] then ([], record_structure_change d)
                    else ([], d));
                 d = mark_dirty i d
             in (Inr (),
                 if added \<noteq> [] \<or> old_children \<noteq> []
                 then queue_mutation i (ChildListRecord added old_children None None) d
                 else d))))"

end
