(* ===== verification/Dom_Invariant.thy ===== *)
theory Dom_Invariant
  imports Dom_Tree
begin

text \<open>
  The invariant of the DOM arena. \<open>par\<close> and \<open>kids\<close> are the parent and child links as total
  functions; \<open>up\<close> adds the host links of template contents and shadow roots. \<open>tree_inv\<close> says
  that parent and child links are inverse, children are distinct, only containers have children,
  fragments have no parent, the four host maps are inverse in pairs and in range, and \<open>up\<close> has
  no cycle. Under it the ancestor walk of \<open>validate_insertion\<close> returns, and decides the
  inclusive-ancestor relation.
\<close>

section \<open>Bookkeeping does not touch the tree\<close>

lemma commit_pending_generations_tree [simp]:
  "nodes (commit_pending_generations d) = nodes d"
  "template_contents (commit_pending_generations d) = template_contents d"
  "template_hosts (commit_pending_generations d) = template_hosts d"
  "shadow_roots (commit_pending_generations d) = shadow_roots d"
  "shadow_hosts (commit_pending_generations d) = shadow_hosts d"
  "document_root (commit_pending_generations d) = document_root d"
  by (simp_all add: commit_pending_generations_def Let_def)

lemma commit_unbatched_generations_tree [simp]:
  "nodes (commit_unbatched_generations d) = nodes d"
  "template_contents (commit_unbatched_generations d) = template_contents d"
  "template_hosts (commit_unbatched_generations d) = template_hosts d"
  "shadow_roots (commit_unbatched_generations d) = shadow_roots d"
  "shadow_hosts (commit_unbatched_generations d) = shadow_hosts d"
  "document_root (commit_unbatched_generations d) = document_root d"
  by (simp_all add: commit_unbatched_generations_def Let_def)

lemma record_structure_change_tree [simp]:
  "nodes (record_structure_change d) = nodes d"
  "template_contents (record_structure_change d) = template_contents d"
  "template_hosts (record_structure_change d) = template_hosts d"
  "shadow_roots (record_structure_change d) = shadow_roots d"
  "shadow_hosts (record_structure_change d) = shadow_hosts d"
  "document_root (record_structure_change d) = document_root d"
  by (simp_all add: record_structure_change_def Let_def)

lemma record_style_change_tree [simp]:
  "nodes (record_style_change d) = nodes d"
  "template_contents (record_style_change d) = template_contents d"
  "template_hosts (record_style_change d) = template_hosts d"
  "shadow_roots (record_style_change d) = shadow_roots d"
  "shadow_hosts (record_style_change d) = shadow_hosts d"
  "document_root (record_style_change d) = document_root d"
  by (simp_all add: record_style_change_def Let_def)

lemma record_text_change_tree [simp]:
  "nodes (record_text_change d) = nodes d"
  "template_contents (record_text_change d) = template_contents d"
  "template_hosts (record_text_change d) = template_hosts d"
  "shadow_roots (record_text_change d) = shadow_roots d"
  "shadow_hosts (record_text_change d) = shadow_hosts d"
  "document_root (record_text_change d) = document_root d"
  by (simp_all add: record_text_change_def Let_def)

lemma mark_dirty_tree [simp]:
  "nodes (mark_dirty i d) = nodes d"
  "template_contents (mark_dirty i d) = template_contents d"
  "template_hosts (mark_dirty i d) = template_hosts d"
  "shadow_roots (mark_dirty i d) = shadow_roots d"
  "shadow_hosts (mark_dirty i d) = shadow_hosts d"
  "document_root (mark_dirty i d) = document_root d"
  by (simp_all add: mark_dirty_def Let_def)

lemma flush_dirty_batch_tree [simp]:
  "nodes (flush_dirty_batch d) = nodes d"
  "template_contents (flush_dirty_batch d) = template_contents d"
  "template_hosts (flush_dirty_batch d) = template_hosts d"
  "shadow_roots (flush_dirty_batch d) = shadow_roots d"
  "shadow_hosts (flush_dirty_batch d) = shadow_hosts d"
  "document_root (flush_dirty_batch d) = document_root d"
  by (simp_all add: flush_dirty_batch_def Let_def)

lemma materialize_resolve_table_tree [simp]:
  "nodes (materialize_resolve_table d) = nodes d"
  "template_contents (materialize_resolve_table d) = template_contents d"
  "template_hosts (materialize_resolve_table d) = template_hosts d"
  "shadow_roots (materialize_resolve_table d) = shadow_roots d"
  "shadow_hosts (materialize_resolve_table d) = shadow_hosts d"
  "document_root (materialize_resolve_table d) = document_root d"
  by (simp_all add: materialize_resolve_table_def Let_def)

lemma begin_mutation_batch_tree [simp]:
  "nodes (begin_mutation_batch d) = nodes d"
  "template_contents (begin_mutation_batch d) = template_contents d"
  "template_hosts (begin_mutation_batch d) = template_hosts d"
  "shadow_roots (begin_mutation_batch d) = shadow_roots d"
  "shadow_hosts (begin_mutation_batch d) = shadow_hosts d"
  "document_root (begin_mutation_batch d) = document_root d"
  by (simp_all add: begin_mutation_batch_def Let_def)

lemma end_mutation_batch_tree [simp]:
  "nodes (end_mutation_batch d) = nodes d"
  "template_contents (end_mutation_batch d) = template_contents d"
  "template_hosts (end_mutation_batch d) = template_hosts d"
  "shadow_roots (end_mutation_batch d) = shadow_roots d"
  "shadow_hosts (end_mutation_batch d) = shadow_hosts d"
  "document_root (end_mutation_batch d) = document_root d"
  by (simp_all add: end_mutation_batch_def Let_def)

lemma queue_mutation_tree [simp]:
  "nodes (queue_mutation i k d) = nodes d"
  "template_contents (queue_mutation i k d) = template_contents d"
  "template_hosts (queue_mutation i k d) = template_hosts d"
  "shadow_roots (queue_mutation i k d) = shadow_roots d"
  "shadow_hosts (queue_mutation i k d) = shadow_hosts d"
  "document_root (queue_mutation i k d) = document_root d"
  by (simp_all add: queue_mutation_def Let_def)

lemma set_mutation_recording_tree [simp]:
  "nodes (set_mutation_recording b d) = nodes d"
  "template_contents (set_mutation_recording b d) = template_contents d"
  "template_hosts (set_mutation_recording b d) = template_hosts d"
  "shadow_roots (set_mutation_recording b d) = shadow_roots d"
  "shadow_hosts (set_mutation_recording b d) = shadow_hosts d"
  "document_root (set_mutation_recording b d) = document_root d"
  by (simp_all add: set_mutation_recording_def Let_def)

lemma take_mutation_records_tree [simp]:
  "nodes (snd (take_mutation_records d)) = nodes d"
  "template_contents (snd (take_mutation_records d)) = template_contents d"
  "template_hosts (snd (take_mutation_records d)) = template_hosts d"
  "shadow_roots (snd (take_mutation_records d)) = shadow_roots d"
  "shadow_hosts (snd (take_mutation_records d)) = shadow_hosts d"
  "document_root (snd (take_mutation_records d)) = document_root d"
  by (simp_all add: take_mutation_records_def Let_def split: prod.split)

lemma take_dirty_nodes_tree [simp]:
  "nodes (snd (take_dirty_nodes d)) = nodes d"
  "template_contents (snd (take_dirty_nodes d)) = template_contents d"
  "template_hosts (snd (take_dirty_nodes d)) = template_hosts d"
  "shadow_roots (snd (take_dirty_nodes d)) = shadow_roots d"
  "shadow_hosts (snd (take_dirty_nodes d)) = shadow_hosts d"
  "document_root (snd (take_dirty_nodes d)) = document_root d"
  by (simp_all add: take_dirty_nodes_def Let_def)

lemma dom_intern_tree [simp]:
  "nodes (snd (dom_intern v d)) = nodes d"
  "template_contents (snd (dom_intern v d)) = template_contents d"
  "template_hosts (snd (dom_intern v d)) = template_hosts d"
  "shadow_roots (snd (dom_intern v d)) = shadow_roots d"
  "shadow_hosts (snd (dom_intern v d)) = shadow_hosts d"
  "document_root (snd (dom_intern v d)) = document_root d"
  by (simp_all add: dom_intern_def Let_def split: prod.split)

section \<open>Links as total functions\<close>

definition par :: "dom \<Rightarrow> node_id \<Rightarrow> node_id option" where
  "par d i = (if i < length (nodes d) then node_parent (nodes d ! i) else None)"

definition kids :: "dom \<Rightarrow> node_id \<Rightarrow> node_id list" where
  "kids d i = (if i < length (nodes d) then node_children (nodes d ! i) else [])"

definition knd :: "dom \<Rightarrow> node_id \<Rightarrow> node_kind" where
  "knd d i = (if i < length (nodes d) then kind (nodes d ! i) else Text [])"

lemma node_at_knd: "i < length (nodes d) \<Longrightarrow> node_at d i = Inr (nodes d ! i) \<and> kind (nodes d ! i) = knd d i"
  by (simp add: node_at_def node_index_def res_bind_def knd_def)

definition up :: "dom \<Rightarrow> node_id \<Rightarrow> node_id option" where
  "up d i = (case par d i of
       Some q \<Rightarrow> Some q
     | None \<Rightarrow> (case template_hosts d i of
                  Some h \<Rightarrow> Some h
                | None \<Rightarrow> map_option fst (shadow_hosts d i)))"

definition up_rel :: "dom \<Rightarrow> (node_id \<times> node_id) set" where
  "up_rel d = {(c, p). up d c = Some p}"

lemma links_cong:
  assumes "nodes d = nodes d'"
  shows "par d = par d'" "kids d = kids d'" "knd d = knd d'"
  using assms by (auto simp: par_def kids_def knd_def fun_eq_iff)

lemma up_cong:
  assumes "par d = par d'" "template_hosts d = template_hosts d'" "shadow_hosts d = shadow_hosts d'"
  shows "up d = up d'" "up_rel d = up_rel d'"
proof -
  show "up d = up d'" unfolding up_def assms ..
  then show "up_rel d = up_rel d'" by (simp add: up_rel_def)
qed

text \<open>Each primitive update, read through the total functions.\<close>

lemma upd_node_fields [simp]:
  "length (nodes (upd_node i f d)) = length (nodes d)"
  "template_contents (upd_node i f d) = template_contents d"
  "template_hosts (upd_node i f d) = template_hosts d"
  "shadow_roots (upd_node i f d) = shadow_roots d"
  "shadow_hosts (upd_node i f d) = shadow_hosts d"
  "document_root (upd_node i f d) = document_root d"
  by (simp_all add: upd_node_def)

lemma set_parent_fields [simp]:
  "length (nodes (set_parent i p d)) = length (nodes d)"
  "template_contents (set_parent i p d) = template_contents d"
  "template_hosts (set_parent i p d) = template_hosts d"
  "shadow_roots (set_parent i p d) = shadow_roots d"
  "shadow_hosts (set_parent i p d) = shadow_hosts d"
  "document_root (set_parent i p d) = document_root d"
  by (simp_all add: set_parent_def)

lemma upd_children_fields [simp]:
  "length (nodes (upd_children i f d)) = length (nodes d)"
  "template_contents (upd_children i f d) = template_contents d"
  "template_hosts (upd_children i f d) = template_hosts d"
  "shadow_roots (upd_children i f d) = shadow_roots d"
  "shadow_hosts (upd_children i f d) = shadow_hosts d"
  "document_root (upd_children i f d) = document_root d"
  by (simp_all add: upd_children_def)

lemma set_kind_fields [simp]:
  "length (nodes (set_kind i k d)) = length (nodes d)"
  "template_contents (set_kind i k d) = template_contents d"
  "template_hosts (set_kind i k d) = template_hosts d"
  "shadow_roots (set_kind i k d) = shadow_roots d"
  "shadow_hosts (set_kind i k d) = shadow_hosts d"
  "document_root (set_kind i k d) = document_root d"
  by (simp_all add: set_kind_def)

lemma push_node_fields [simp]:
  "length (nodes (snd (push_node k d))) = Suc (length (nodes d))"
  "template_contents (snd (push_node k d)) = template_contents d"
  "template_hosts (snd (push_node k d)) = template_hosts d"
  "shadow_roots (snd (push_node k d)) = shadow_roots d"
  "shadow_hosts (snd (push_node k d)) = shadow_hosts d"
  "document_root (snd (push_node k d)) = document_root d"
  "fst (push_node k d) = length (nodes d)"
  by (simp_all add: push_node_def)

lemma set_parent_links [simp]:
  "par (set_parent i p d) = (if i < length (nodes d) then (par d)(i := p) else par d)"
  "kids (set_parent i p d) = kids d"
  "knd (set_parent i p d) = knd d"
  by (auto simp: par_def kids_def knd_def set_parent_def upd_node_def fun_eq_iff nth_update_total)

lemma upd_children_links [simp]:
  "par (upd_children i f d) = par d"
  "kids (upd_children i f d) =
     (if i < length (nodes d) then (kids d)(i := f (kids d i)) else kids d)"
  "knd (upd_children i f d) = knd d"
  by (auto simp: par_def kids_def knd_def upd_children_def upd_node_def fun_eq_iff nth_update_total)

lemma set_kind_links [simp]:
  "par (set_kind i k d) = par d"
  "kids (set_kind i k d) = kids d"
  "knd (set_kind i k d) = (if i < length (nodes d) then (knd d)(i := k) else knd d)"
  by (auto simp: par_def kids_def knd_def set_kind_def upd_node_def fun_eq_iff nth_update_total)

lemma push_node_links [simp]:
  "par (snd (push_node k d)) = par d"
  "kids (snd (push_node k d)) = kids d"
  "knd (snd (push_node k d)) = (knd d)(length (nodes d) := k)"
  by (auto simp: par_def kids_def knd_def push_node_def node_new_def fun_eq_iff nth_append)

lemma meta_links [simp]:
  "par (commit_pending_generations d) = par d"
  "kids (commit_pending_generations d) = kids d"
  "knd (commit_pending_generations d) = knd d"
  "par (commit_unbatched_generations d) = par d"
  "kids (commit_unbatched_generations d) = kids d"
  "knd (commit_unbatched_generations d) = knd d"
  "par (record_structure_change d) = par d"
  "kids (record_structure_change d) = kids d"
  "knd (record_structure_change d) = knd d"
  "par (record_style_change d) = par d"
  "kids (record_style_change d) = kids d"
  "knd (record_style_change d) = knd d"
  "par (record_text_change d) = par d"
  "kids (record_text_change d) = kids d"
  "knd (record_text_change d) = knd d"
  "par (mark_dirty i d) = par d"
  "kids (mark_dirty i d) = kids d"
  "knd (mark_dirty i d) = knd d"
  "par (flush_dirty_batch d) = par d"
  "kids (flush_dirty_batch d) = kids d"
  "knd (flush_dirty_batch d) = knd d"
  "par (materialize_resolve_table d) = par d"
  "kids (materialize_resolve_table d) = kids d"
  "knd (materialize_resolve_table d) = knd d"
  "par (begin_mutation_batch d) = par d"
  "kids (begin_mutation_batch d) = kids d"
  "knd (begin_mutation_batch d) = knd d"
  "par (end_mutation_batch d) = par d"
  "kids (end_mutation_batch d) = kids d"
  "knd (end_mutation_batch d) = knd d"
  "par (queue_mutation i k d) = par d"
  "kids (queue_mutation i k d) = kids d"
  "knd (queue_mutation i k d) = knd d"
  "par (set_mutation_recording b d) = par d"
  "kids (set_mutation_recording b d) = kids d"
  "knd (set_mutation_recording b d) = knd d"
  "par (snd (take_mutation_records d)) = par d"
  "kids (snd (take_mutation_records d)) = kids d"
  "knd (snd (take_mutation_records d)) = knd d"
  "par (snd (take_dirty_nodes d)) = par d"
  "kids (snd (take_dirty_nodes d)) = kids d"
  "knd (snd (take_dirty_nodes d)) = knd d"
  "par (snd (dom_intern v d)) = par d"
  "kids (snd (dom_intern v d)) = kids d"
  "knd (snd (dom_intern v d)) = knd d"
  by (auto intro!: links_cong[THEN fun_cong] simp: fun_eq_iff)

section \<open>The invariant\<close>

fun is_element_kind :: "node_kind \<Rightarrow> bool" where
  "is_element_kind (Element _ _ _ _) = True"
| "is_element_kind _ = False"

definition links_ok :: "(node_id \<Rightarrow> node_id option) \<Rightarrow> (node_id \<Rightarrow> node_id list) \<Rightarrow> bool" where
  "links_ok P K \<longleftrightarrow> (\<forall>c p. P c = Some p \<longleftrightarrow> c \<in> set (K p)) \<and> (\<forall>p. distinct (K p))"

definition kinds_ok :: "dom \<Rightarrow> bool" where
  "kinds_ok d \<longleftrightarrow>
     (\<forall>p. kids d p \<noteq> [] \<longrightarrow> container_kind (knd d p))
   \<and> (\<forall>f. knd d f = DocumentFragment \<longrightarrow> par d f = None)"

definition hosts_ok :: "dom \<Rightarrow> bool" where
  "hosts_ok d \<longleftrightarrow>
     (\<forall>h f. template_contents d h = Some f \<longleftrightarrow> template_hosts d f = Some h)
   \<and> (\<forall>h f. shadow_roots d h = Some f \<longleftrightarrow> (\<exists>m. shadow_hosts d f = Some (h, m)))
   \<and> (\<forall>f h. template_hosts d f = Some h \<longrightarrow>
        knd d f = DocumentFragment \<and> is_element_kind (knd d h))
   \<and> (\<forall>f h m. shadow_hosts d f = Some (h, m) \<longrightarrow>
        knd d f = DocumentFragment \<and> is_element_kind (knd d h))
   \<and> (\<forall>f. template_hosts d f = None \<or> shadow_hosts d f = None)
   \<and> (\<forall>r. document_root d = Some r \<longrightarrow> knd d r = Document)"

definition tree_inv :: "dom \<Rightarrow> bool" where
  "tree_inv d \<longleftrightarrow> links_ok (par d) (kids d) \<and> kinds_ok d \<and> hosts_ok d \<and> acyclic (up_rel d)"

lemma knd_range: "knd d i \<noteq> Text [] \<Longrightarrow> i < length (nodes d)"
  by (auto simp: knd_def split: if_splits)

lemma knd_container_range: "container_kind (knd d i) \<Longrightarrow> i < length (nodes d)"
  by (rule knd_range) auto

lemma par_range: "par d c = Some p \<Longrightarrow> c < length (nodes d)"
  by (auto simp: par_def split: if_splits)

lemma kids_range: "c \<in> set (kids d p) \<Longrightarrow> p < length (nodes d)"
  by (auto simp: kids_def split: if_splits)

lemma tree_inv_links: "tree_inv d \<Longrightarrow> par d c = Some p \<longleftrightarrow> c \<in> set (kids d p)"
  by (auto simp: tree_inv_def links_ok_def)

lemma tree_inv_distinct: "tree_inv d \<Longrightarrow> distinct (kids d p)"
  by (auto simp: tree_inv_def links_ok_def)

lemma tree_inv_ranges:
  assumes "tree_inv d" and "c \<in> set (kids d p)"
  shows "c < length (nodes d)" "p < length (nodes d)"
  using assms tree_inv_links[OF assms(1)] par_range kids_range by blast+

lemma tree_inv_container: "tree_inv d \<Longrightarrow> kids d p \<noteq> [] \<Longrightarrow> container_kind (knd d p)"
  by (auto simp: tree_inv_def kinds_ok_def)

lemma tree_inv_fragment: "tree_inv d \<Longrightarrow> knd d f = DocumentFragment \<Longrightarrow> par d f = None"
  by (auto simp: tree_inv_def kinds_ok_def)

lemma tree_inv_host_fragment:
  assumes "tree_inv d"
  shows "template_hosts d f = Some h \<Longrightarrow> knd d f = DocumentFragment \<and> is_element_kind (knd d h)"
    and "shadow_hosts d f = Some (h, m) \<Longrightarrow> knd d f = DocumentFragment \<and> is_element_kind (knd d h)"
  using assms unfolding tree_inv_def hosts_ok_def by blast+

lemma is_element_range: "is_element_kind (knd d i) \<Longrightarrow> i < length (nodes d)"
  by (rule knd_range) auto

lemma up_range:
  assumes inv: "tree_inv d" and u: "up d c = Some p"
  shows "c < length (nodes d)" "p < length (nodes d)"
proof -
  have frag: "knd d c = DocumentFragment \<Longrightarrow> c < length (nodes d)" by (rule knd_range) simp
  have "c < length (nodes d) \<and> p < length (nodes d)"
  proof (cases "par d c")
    case (Some q)
    then have "q = p" using u by (simp add: up_def)
    then show ?thesis using Some tree_inv_links[OF inv] tree_inv_ranges[OF inv] by blast
  next
    case None
    then consider "template_hosts d c = Some p"
      | m where "shadow_hosts d c = Some (p, m)"
      using u by (auto simp: up_def split: option.splits)
    then show ?thesis
    proof cases
      case 1
      then show ?thesis
        using tree_inv_host_fragment(1)[OF inv] is_element_range frag by blast
    next
      case 2
      then show ?thesis
        using tree_inv_host_fragment(2)[OF inv] is_element_range frag by blast
    qed
  qed
  then show "c < length (nodes d)" "p < length (nodes d)" by auto
qed

lemma up_link_up: "i < length (nodes d) \<Longrightarrow> up_link d i = Inr (up d i)"
  by (auto simp: up_link_def up_def par_def parent_def node_index_def shadow_host_def
      split: option.split)

lemma wf_up:
  assumes "tree_inv d" shows "wf ((up_rel d)\<inverse>)"
proof (rule finite_acyclic_wf_converse)
  have "up_rel d \<subseteq> {..<length (nodes d)} \<times> {..<length (nodes d)}"
    using up_range[OF assms] by (auto simp: up_rel_def)
  then show "finite (up_rel d)" by (rule finite_subset) simp
  show "acyclic (up_rel d)" using assms by (simp add: tree_inv_def)
qed

text \<open>The inclusive-ancestor relation the walk decides.\<close>

definition inclusive_ancestor :: "dom \<Rightarrow> node_id \<Rightarrow> node_id \<Rightarrow> bool" where
  "inclusive_ancestor d a i \<longleftrightarrow> (i, a) \<in> (up_rel d)\<^sup>*"

lemma inclusive_ancestor_unfold:
  "inclusive_ancestor d a i \<longleftrightarrow>
     i = a \<or> (case up d i of None \<Rightarrow> False | Some u \<Rightarrow> inclusive_ancestor d a u)"
proof
  assume "inclusive_ancestor d a i"
  then have "(i, a) \<in> (up_rel d)\<^sup>*" by (simp add: inclusive_ancestor_def)
  then show "i = a \<or> (case up d i of None \<Rightarrow> False | Some u \<Rightarrow> inclusive_ancestor d a u)"
    by (cases rule: converse_rtranclE) (auto simp: inclusive_ancestor_def up_rel_def)
next
  assume "i = a \<or> (case up d i of None \<Rightarrow> False | Some u \<Rightarrow> inclusive_ancestor d a u)"
  then show "inclusive_ancestor d a i"
    by (auto simp: inclusive_ancestor_def up_rel_def split: option.splits
        intro: converse_rtrancl_into_rtrancl)
qed

lemma ancestor_loop_decides:
  assumes inv: "tree_inv d"
  shows "i < length (nodes d) \<Longrightarrow>
    ancestor_loop d c i =
      Some (if inclusive_ancestor d c i then Inl (Error (HierarchyRequest c)) else Inr ())"
proof (induction i rule: wf_induct_rule[OF wf_up[OF inv]])
  case (1 i)
  show ?case
  proof (cases "up d i")
    case None
    then show ?thesis
      using 1(2) inclusive_ancestor_unfold[of d c i]
      by (simp add: ancestor_loop.simps[of d c i] up_link_up)
  next
    case (Some u)
    have step: "(u, i) \<in> (up_rel d)\<inverse>" "u < length (nodes d)"
      using Some up_range[OF inv Some] by (auto simp: up_rel_def)
    show ?thesis
      using 1(1)[OF step] Some 1(2) inclusive_ancestor_unfold[of d c i]
      by (simp add: ancestor_loop.simps[of d c i] up_link_up)
  qed
qed

text \<open>The outcome of the validation, in closed form.\<close>

definition insertion_check :: "node_id \<Rightarrow> node_id \<Rightarrow> dom \<Rightarrow> dom_fault + unit" where
  "insertion_check p c d =
     (if \<not> p < length (nodes d) then Inl (Error (UnknownNode p))
      else if \<not> container_kind (knd d p) then Inl (Error (HierarchyRequest p))
      else if \<not> c < length (nodes d) then Inl (Error (UnknownNode c))
      else if inclusive_ancestor d c p then Inl (Error (HierarchyRequest c))
      else Inr ())"

lemma validate_insertion_check:
  "tree_inv d \<Longrightarrow> validate_insertion p c d = insertion_check p c d"
  by (simp add: validate_insertion_def insertion_check_def node_at_def node_index_def knd_def
      ancestor_loop_decides)

section \<open>Link surgery\<close>

lemma links_detach:
  assumes "links_ok P K" and "P c = Some p"
  shows "links_ok (P(c := None)) (K(p := filter (\<lambda>i. i \<noteq> c) (K p)))"
  using assms unfolding links_ok_def by (auto; metis option.inject)

lemma links_clear:
  assumes "links_ok P K"
  shows "links_ok (\<lambda>x. if x \<in> set (K p) then None else P x) (K(p := []))"
  using assms unfolding links_ok_def by (auto; metis option.inject)

lemma links_insert:
  assumes ok: "links_ok P K" and free: "\<And>x. x \<in> set ms \<Longrightarrow> P x = None" and ms: "distinct ms"
  shows "links_ok (\<lambda>x. if x \<in> set ms then Some p else P x)
    (K(p := take i (K p) @ ms @ drop i (K p)))"
proof -
  have split: "set (take i (K p)) \<union> set (drop i (K p)) = set (K p)"
    by (metis append_take_drop_id set_append)
  have "x \<notin> set (K q)" if "x \<in> set ms" for q x
    using ok free[OF that] unfolding links_ok_def by (metis option.distinct(1))
  then have disj: "set (take i (K p)) \<inter> set ms = {}" "set (drop i (K p)) \<inter> set ms = {}"
      "\<And>q x. x \<in> set ms \<Longrightarrow> x \<notin> set (K q)"
    using split by blast+
  have d: "distinct (K p)" using ok by (simp add: links_ok_def)
  then have dist: "set (take i (K p)) \<inter> set (drop i (K p)) = {}"
    by (simp add: set_take_disj_set_drop_if_distinct)
  have "distinct (take i (K p) @ ms @ drop i (K p))"
    using d dist disj(1,2) ms by auto
  moreover have "P x = Some q \<longleftrightarrow> x \<in> set (K q)" for x q using ok by (simp add: links_ok_def)
  ultimately show ?thesis using ok split disj unfolding links_ok_def by auto
qed

lemma acyclic_add_star:
  assumes r: "acyclic R" and out: "\<And>x. x \<in> X \<Longrightarrow> (p, x) \<notin> R\<^sup>*" and fin: "finite X"
  shows "acyclic (R \<union> X \<times> {p})"
  using fin out
proof (induction X)
  case empty
  then show ?case using r by simp
next
  case (insert x X)
  have "(p, x) \<notin> (R \<union> X \<times> {p})\<^sup>*"
  proof
    assume "(p, x) \<in> (R \<union> X \<times> {p})\<^sup>*"
    then have "(p, x) \<in> R\<^sup>*"
      by (induction) (auto intro: rtrancl_into_rtrancl)
    then show False using insert.prems by simp
  qed
  moreover have "R \<union> insert x X \<times> {p} = insert (x, p) (R \<union> X \<times> {p})" by auto
  ultimately show ?case using insert by (simp add: acyclic_insert)
qed

end
