(* ===== verification/Dom_Preserve.thy ===== *)
theory Dom_Preserve
  imports Dom_Invariant
begin

text \<open>
  What each tree operation does to the links, and that it keeps \<open>tree_inv\<close>. \<open>relinked d d' P K\<close>
  says that \<open>d'\<close> has the nodes, kinds and host maps of \<open>d\<close> and the links \<open>P\<close>, \<open>K\<close>; every
  operation is one or two link updates of \<open>links_detach\<close>, \<open>links_clear\<close> and \<open>links_insert\<close>.
\<close>

section \<open>Frames\<close>

definition same_frame :: "dom \<Rightarrow> dom \<Rightarrow> bool" where
  "same_frame d d' \<longleftrightarrow>
     length (nodes d') = length (nodes d) \<and> knd d' = knd d
   \<and> template_contents d' = template_contents d \<and> template_hosts d' = template_hosts d
   \<and> shadow_roots d' = shadow_roots d \<and> shadow_hosts d' = shadow_hosts d
   \<and> document_root d' = document_root d"

definition relinked ::
    "dom \<Rightarrow> dom \<Rightarrow> (node_id \<Rightarrow> node_id option) \<Rightarrow> (node_id \<Rightarrow> node_id list) \<Rightarrow> bool" where
  "relinked d d' P K \<longleftrightarrow> same_frame d d' \<and> par d' = P \<and> kids d' = K"

lemma same_frame_refl [simp]: "same_frame d d"
  by (simp add: same_frame_def)

lemma same_frame_trans: "same_frame d e \<Longrightarrow> same_frame e f \<Longrightarrow> same_frame d f"
  by (simp add: same_frame_def)

text \<open>Bookkeeping keeps the links.\<close>

lemma relinked_meta [simp]:
  "relinked d (mark_dirty i e) P K = relinked d e P K"
  "relinked d (record_structure_change e) P K = relinked d e P K"
  "relinked d (record_style_change e) P K = relinked d e P K"
  "relinked d (record_text_change e) P K = relinked d e P K"
  "relinked d (queue_mutation i k e) P K = relinked d e P K"
  by (simp_all add: relinked_def same_frame_def)

lemma same_frame_hosts_ok: "same_frame d d' \<Longrightarrow> hosts_ok d' = hosts_ok d"
  by (simp add: same_frame_def hosts_ok_def)

text \<open>New links point from some \<open>X\<close> to one node \<open>q\<close> that none of them is an ancestor of.\<close>

lemma up_rel_relink:
  assumes inv: "tree_inv d" and rel: "relinked d d' P K"
    and new: "\<And>c p. P c = Some p \<Longrightarrow> par d c = Some p \<or> c \<in> X \<and> p = q"
  shows "up_rel d' \<subseteq> up_rel d \<union> X \<times> {q}"
proof -
  have P: "par d' = P" using rel by (simp add: relinked_def)
  have frame: "template_hosts d' = template_hosts d" "shadow_hosts d' = shadow_hosts d"
    using rel by (simp_all add: relinked_def same_frame_def)
  have "up d' c = Some p \<Longrightarrow> up d c = Some p \<or> c \<in> X \<and> p = q" for c p
  proof (cases "P c")
    case None
    assume u: "up d' c = Some p"
    then have "knd d c = DocumentFragment"
      using None tree_inv_host_fragment[OF inv] unfolding up_def P frame
      by (auto split: option.splits)
    then have "par d c = None" using tree_inv_fragment[OF inv] by blast
    then show ?thesis using u None unfolding up_def P frame by simp
  next
    case (Some r)
    assume "up d' c = Some p"
    then show ?thesis using Some new[of c p] unfolding up_def P by auto
  qed
  then show ?thesis by (auto simp: up_rel_def)
qed

lemma tree_inv_relink:
  assumes inv: "tree_inv d" and rel: "relinked d d' P K" and ok: "links_ok P K"
    and cont: "\<And>p. K p \<noteq> [] \<Longrightarrow> container_kind (knd d p)"
    and frag: "\<And>f. knd d f = DocumentFragment \<Longrightarrow> P f = None"
    and new: "\<And>c p. P c = Some p \<Longrightarrow> par d c = Some p \<or> c \<in> X \<and> p = q"
    and fin: "finite X" and out: "\<And>x. x \<in> X \<Longrightarrow> \<not> inclusive_ancestor d x q"
  shows "tree_inv d'"
proof -
  have fr: "same_frame d d'" and P: "par d' = P" and K: "kids d' = K"
    using rel by (simp_all add: relinked_def)
  have frame: "knd d' = knd d" using fr by (simp add: same_frame_def)
  have "acyclic (up_rel d \<union> X \<times> {q})"
    using inv out fin
    by (intro acyclic_add_star) (auto simp: tree_inv_def inclusive_ancestor_def)
  then have "acyclic (up_rel d')"
    using up_rel_relink[OF inv rel new] by (metis acyclic_subset)
  moreover have "kinds_ok d'" using cont frag by (simp add: kinds_ok_def P K frame)
  moreover have "hosts_ok d'" using inv same_frame_hosts_ok[OF fr] by (simp add: tree_inv_def)
  ultimately show ?thesis using ok by (simp add: tree_inv_def P K)
qed

lemma tree_inv_same_links:
  assumes "tree_inv d" and "relinked d d' (par d) (kids d)"
  shows "tree_inv d'"
  by (rule tree_inv_relink[OF assms, of "{}" undefined])
    (use assms(1) in \<open>auto simp: tree_inv_def kinds_ok_def\<close>)

section \<open>Removing a child\<close>

definition detached :: "node_id \<Rightarrow> (node_id \<Rightarrow> node_id list) \<Rightarrow> node_id \<Rightarrow> node_id list" where
  "detached c K = (\<lambda>p. filter (\<lambda>i. i \<noteq> c) (K p))"

lemma detached_parent:
  assumes "links_ok P K" and "P c = Some p"
  shows "detached c K = K(p := filter (\<lambda>i. i \<noteq> c) (K p))"
proof
  fix q
  have "q \<noteq> p \<Longrightarrow> c \<notin> set (K q)" using assms unfolding links_ok_def by (metis option.inject)
  then show "detached c K q = (K(p := filter (\<lambda>i. i \<noteq> c) (K p))) q"
    by (auto simp: detached_def filter_id_conv)
qed

lemma detached_orphan:
  assumes "links_ok P K" and "P c = None" shows "detached c K = K"
proof
  fix q
  have "c \<notin> set (K q)" using assms by (metis links_ok_def option.distinct(1))
  then show "detached c K q = K q" by (auto simp: detached_def filter_id_conv)
qed

lemma links_detached:
  assumes "links_ok P K" shows "links_ok (P(c := None)) (detached c K)"
proof (cases "P c")
  case None
  then have "P(c := None) = P" by auto
  then show ?thesis using assms detached_orphan[OF assms None] by simp
next
  case (Some p)
  then show ?thesis using links_detach[OF assms Some] detached_parent[OF assms Some] by simp
qed

definition remove_child_error :: "node_id \<Rightarrow> node_id \<Rightarrow> dom \<Rightarrow> dom_error" where
  "remove_child_error p c d =
     (if \<not> p < length (nodes d) then UnknownNode p
      else if \<not> c < length (nodes d) then UnknownNode c else NotChild c)"

lemma position_eq_None: "position (\<lambda>i. i = c) xs = None \<longleftrightarrow> c \<notin> set xs"
  by (auto simp: position_None_iff)

lemma remove_child_fails:
  assumes "tree_inv d" and "c \<notin> set (kids d p)"
  shows "remove_child p c d = (Inl (Error (remove_child_error p c d)), d)"
  using assms(2)
  by (auto simp: remove_child_def node_index_def remove_child_error_def kids_def
      position_eq_None[THEN iffD2] sm_bind_def split: if_splits)

lemma remove_child_runs:
  assumes inv: "tree_inv d" and c: "c \<in> set (kids d p)"
  shows "\<exists>d'. remove_child p c d = (Inr (), d')
    \<and> relinked d d' ((par d)(c := None)) (detached c (kids d))"
proof -
  have rng: "p < length (nodes d)" "c < length (nodes d)" using tree_inv_ranges[OF inv c] by auto
  obtain i where i: "position (\<lambda>i. i = c) (node_children (nodes d ! p)) = Some i"
    using c rng(1) position_eq_None[of c "node_children (nodes d ! p)"]
    by (cases "position (\<lambda>i. i = c) (node_children (nodes d ! p))") (auto simp: kids_def)
  have P: "par d c = Some p" using c tree_inv_links[OF inv] by blast
  have "links_ok (par d) (kids d)" using inv by (simp add: tree_inv_def)
  from detached_parent[OF this P] rng i show ?thesis
    by (simp add: remove_child_def node_index_def Let_def relinked_def same_frame_def)
qed

lemma remove_child_inv:
  assumes "tree_inv d" and "relinked d d' ((par d)(c := None)) (detached c (kids d))"
  shows "tree_inv d'"
proof (rule tree_inv_relink[OF assms, of "{}" undefined])
  show "links_ok ((par d)(c := None)) (detached c (kids d))"
    using assms(1) by (simp add: links_detached tree_inv_def)
next
  fix p assume "detached c (kids d) p \<noteq> []"
  then have "kids d p \<noteq> []" by (auto simp: detached_def)
  then show "container_kind (knd d p)" by (rule tree_inv_container[OF assms(1)])
qed (use tree_inv_fragment[OF assms(1)] in \<open>auto split: if_splits\<close>)

lemma remove_child_tree_inv: "tree_inv d \<Longrightarrow> tree_inv (snd (remove_child p c d))"
  using remove_child_fails[of d c p] remove_child_runs[of d c p] remove_child_inv
  by (cases "c \<in> set (kids d p)") fastforce+

section \<open>Inserting\<close>

text \<open>The nodes an insertion moves: the children of a fragment, or the node itself.\<close>

definition moved :: "dom \<Rightarrow> node_id \<Rightarrow> node_id list" where
  "moved d c = (if knd d c = DocumentFragment then kids d c else [c])"

fun place :: "node_id option \<Rightarrow> node_id list \<Rightarrow> node_id list \<Rightarrow> node_id list" where
  "place None ms xs = xs @ ms"
| "place (Some r) ms xs = takeWhile (\<lambda>i. i \<noteq> r) xs @ ms @ dropWhile (\<lambda>i. i \<noteq> r) xs"

definition lifted :: "node_id list \<Rightarrow> (node_id \<Rightarrow> node_id list) \<Rightarrow> node_id \<Rightarrow> node_id list" where
  "lifted ms K = (\<lambda>q. filter (\<lambda>i. i \<notin> set ms) (K q))"

definition inserted_kids ::
    "node_id \<Rightarrow> node_id option \<Rightarrow> node_id list \<Rightarrow> (node_id \<Rightarrow> node_id list) \<Rightarrow> node_id \<Rightarrow> node_id list" where
  "inserted_kids p ref ms K = (lifted ms K)(p := place ref ms (lifted ms K p))"

definition inserted_pars ::
    "node_id \<Rightarrow> node_id list \<Rightarrow> (node_id \<Rightarrow> node_id option) \<Rightarrow> node_id \<Rightarrow> node_id option" where
  "inserted_pars p ms P = (\<lambda>x. if x \<in> set ms then Some p else P x)"

lemma place_split: "\<exists>i. place ref ms xs = take i xs @ ms @ drop i xs \<and> i \<le> length xs"
proof (cases ref)
  case None
  then show ?thesis by (intro exI[of _ "length xs"]) simp
next
  case (Some r)
  let ?i = "length (takeWhile (\<lambda>i. i \<noteq> r) xs)"
  show ?thesis
    by (rule exI[of _ ?i])
      (simp add: Some takeWhile_eq_take[symmetric] dropWhile_eq_drop[symmetric] length_takeWhile_le)
qed

lemma place_position:
  "position (\<lambda>i. i = r) xs = Some k \<Longrightarrow>
    takeWhile (\<lambda>i. i \<noteq> r) xs = take k xs \<and> dropWhile (\<lambda>i. i \<noteq> r) xs = drop k xs"
  by (induction xs arbitrary: k) (auto split: if_splits)

lemma place_Nil [simp]: "place ref [] xs = xs"
  by (cases ref) auto

lemma links_lifted:
  assumes "links_ok P K"
  shows "links_ok (\<lambda>x. if x \<in> set ms then None else P x) (lifted ms K)"
  using assms by (auto simp: links_ok_def lifted_def)

lemma links_inserted:
  assumes "links_ok P K" and "distinct ms"
  shows "links_ok (inserted_pars p ms P) (inserted_kids p ref ms K)"
proof -
  obtain i where i: "place ref ms (lifted ms K p) = take i (lifted ms K p) @ ms @ drop i (lifted ms K p)"
    using place_split by blast
  have "inserted_pars p ms P
      = (\<lambda>x. if x \<in> set ms then Some p else if x \<in> set ms then None else P x)"
    by (auto simp: inserted_pars_def)
  then show ?thesis
    using links_insert[OF links_lifted[OF assms(1), of ms] _ assms(2), of p i]
    by (simp add: inserted_kids_def i)
qed

lemma insertion_check_ok:
  "insertion_check p c d = Inr () \<longleftrightarrow>
     container_kind (knd d p) \<and> c < length (nodes d) \<and> \<not> inclusive_ancestor d c p"
  using knd_container_range[of d p] by (auto simp: insertion_check_def)

lemma moved_distinct: "tree_inv d \<Longrightarrow> distinct (moved d c)"
  by (simp add: moved_def tree_inv_distinct)

lemma moved_range:
  "tree_inv d \<Longrightarrow> c < length (nodes d) \<Longrightarrow> x \<in> set (moved d c) \<Longrightarrow> x < length (nodes d)"
  using tree_inv_ranges by (auto simp: moved_def split: if_splits)

lemma moved_not_fragment:
  assumes inv: "tree_inv d" and x: "x \<in> set (moved d c)"
  shows "knd d x \<noteq> DocumentFragment"
proof (cases "knd d c = DocumentFragment")
  case True
  then have "par d x = Some c" using x tree_inv_links[OF inv] by (simp add: moved_def)
  then show ?thesis using tree_inv_fragment[OF inv, of x] by auto
qed (use x in \<open>simp add: moved_def\<close>)

lemma moved_not_ancestor:
  assumes inv: "tree_inv d" and out: "\<not> inclusive_ancestor d c p" and x: "x \<in> set (moved d c)"
  shows "\<not> inclusive_ancestor d x p"
proof (cases "knd d c = DocumentFragment")
  case True
  then have "par d x = Some c" using x tree_inv_links[OF inv] by (simp add: moved_def)
  then have "(x, c) \<in> up_rel d" by (simp add: up_rel_def up_def)
  then show ?thesis using out by (auto simp: inclusive_ancestor_def intro: rtrancl_into_rtrancl)
qed (use x out in \<open>simp add: moved_def\<close>)

lemma inserted_inv:
  assumes inv: "tree_inv d" and check: "insertion_check p c d = Inr ()"
    and rel: "relinked d d' (inserted_pars p (moved d c) (par d))
                (inserted_kids p ref (moved d c) (kids d))"
  shows "tree_inv d'"
proof (rule tree_inv_relink[OF inv rel, of "set (moved d c)" p])
  show "links_ok (inserted_pars p (moved d c) (par d)) (inserted_kids p ref (moved d c) (kids d))"
    using inv moved_distinct[OF inv] by (simp add: links_inserted tree_inv_def)
  show "container_kind (knd d q)" if "inserted_kids p ref (moved d c) (kids d) q \<noteq> []" for q
  proof (cases "q = p")
    case True
    then show ?thesis using check insertion_check_ok by blast
  next
    case False
    then have "kids d q \<noteq> []" using that by (auto simp: inserted_kids_def lifted_def)
    then show ?thesis by (rule tree_inv_container[OF inv])
  qed
  show "inserted_pars p (moved d c) (par d) f = None" if "knd d f = DocumentFragment" for f
    using that moved_not_fragment[OF inv, of f c] tree_inv_fragment[OF inv]
    by (auto simp: inserted_pars_def)
  show "par d x = Some q \<or> x \<in> set (moved d c) \<and> q = p"
    if "inserted_pars p (moved d c) (par d) x = Some q" for x q
    using that by (auto simp: inserted_pars_def split: if_splits)
  show "\<not> inclusive_ancestor d x p" if "x \<in> set (moved d c)" for x
    using moved_not_ancestor[OF inv _ that] check insertion_check_ok by blast
qed simp

section \<open>Splicing a fragment\<close>

lemma nth_links:
  "i < length (nodes d) \<Longrightarrow> node_children (nodes d ! i) = kids d i"
  "i < length (nodes d) \<Longrightarrow> node_parent (nodes d ! i) = par d i"
  "i < length (nodes d) \<Longrightarrow> kind (nodes d ! i) = knd d i"
  by (simp_all add: kids_def par_def knd_def)

lemma splice_loop_links:
  assumes "p < length (nodes d)" and "\<forall>c \<in> set cs. c < length (nodes d)"
    and "pos \<le> length (kids d p)"
  shows "relinked d (splice_loop p pos cs d) (inserted_pars p cs (par d))
    ((kids d)(p := take pos (kids d p) @ cs @ drop pos (kids d p)))"
  using assms
proof (induction cs arbitrary: pos d)
  case Nil
  then show ?case by (simp add: relinked_def inserted_pars_def fun_eq_iff)
next
  case (Cons c cs)
  define e where "e = mark_dirty c (upd_children p (insert_at pos c) (set_parent c (Some p) d))"
  have e: "same_frame d e" "par e = (par d)(c := Some p)"
      "kids e = (kids d)(p := insert_at pos c (kids d p))"
    using Cons.prems by (simp_all add: e_def same_frame_def)
  have len: "length (nodes e) = length (nodes d)" using e(1) by (simp add: same_frame_def)
  have "relinked e (splice_loop p (Suc pos) cs e) (inserted_pars p cs (par e))
      ((kids e)(p := take (Suc pos) (kids e p) @ cs @ drop (Suc pos) (kids e p)))"
    using Cons.prems by (intro Cons.IH) (auto simp: len e(3))
  moreover have "take (Suc pos) (insert_at pos c (kids d p)) = take pos (kids d p) @ [c]"
    "drop (Suc pos) (insert_at pos c (kids d p)) = drop pos (kids d p)"
    using Cons.prems(3) by (simp_all add: insert_at_def)
  ultimately have "relinked d (splice_loop p (Suc pos) cs e)
      (inserted_pars p cs ((par d)(c := Some p)))
      ((kids d)(p := take pos (kids d p) @ (c # cs) @ drop pos (kids d p)))"
    using e(1) unfolding relinked_def e(2,3) by (auto dest: same_frame_trans)
  moreover have "inserted_pars p cs ((par d)(c := Some p)) = inserted_pars p (c # cs) (par d)"
    by (auto simp: inserted_pars_def)
  ultimately show ?case by (simp only: splice_loop.simps e_def)
qed

lemma validate_each_ok:
  assumes inv: "tree_inv d" and "\<And>x. x \<in> set cs \<Longrightarrow> insertion_check p x d = Inr ()"
  shows "validate_each p cs d = Inr ()"
  using assms(2) by (induction cs) (simp_all add: validate_insertion_check[OF inv])

lemma splice_position:
  assumes "\<And>r. ref = Some r \<Longrightarrow> r \<in> set xs"
  shows "\<exists>pos. (case ref of Some r \<Rightarrow> ok_or (Error (NotChild r)) (position (\<lambda>c. c = r) xs)
        | None \<Rightarrow> Inr (length xs)) = Inr pos
    \<and> pos \<le> length xs \<and> place ref ms xs = take pos xs @ ms @ drop pos xs"
proof (cases ref)
  case None
  then show ?thesis by (intro exI[of _ "length xs"]) simp
next
  case (Some r)
  then obtain k where k: "position (\<lambda>i. i = r) xs = Some k"
    using assms position_eq_None[of r xs] by fastforce
  then show ?thesis
    using Some position_SomeD[OF k] place_position[OF k] by (intro exI[of _ k]) simp
qed

lemma splice_runs:
  assumes inv: "tree_inv d" and frag: "knd d f = DocumentFragment"
    and check: "insertion_check p f d = Inr ()" and ref: "\<And>r. ref = Some r \<Longrightarrow> par d r = Some p"
  shows "\<exists>d'. splice_fragment p f ref d = (Inr (), d')
    \<and> relinked d d' (inserted_pars p (moved d f) (par d)) (inserted_kids p ref (moved d f) (kids d))"
proof -
  have ms: "moved d f = kids d f" using frag by (simp add: moved_def)
  have rng: "p < length (nodes d)" "f < length (nodes d)"
    using check knd_container_range insertion_check_ok by blast+
  have pf: "p \<noteq> f"
    using check by (auto simp: insertion_check_ok inclusive_ancestor_def)
  have disj: "x \<notin> set (kids d q)" if "x \<in> set (kids d f)" "q \<noteq> f" for x q
    using that tree_inv_links[OF inv] by (metis option.inject)
  then have lift: "lifted (kids d f) (kids d) = (kids d)(f := [])"
    by (auto simp: lifted_def fun_eq_iff filter_empty_conv intro!: filter_True)
  show ?thesis
  proof (cases "kids d f = []")
    case True
    then show ?thesis
      using rng by (auto simp: splice_fragment_def children_def node_index_def nth_links ms
          relinked_def inserted_pars_def inserted_kids_def lift fun_eq_iff lifted_def)
  next
    case False
    have each: "validate_each p (kids d f) d = Inr ()"
    proof (rule validate_each_ok[OF inv])
      fix x assume "x \<in> set (kids d f)"
      then have x: "x \<in> set (moved d f)" by (simp add: ms)
      show "insertion_check p x d = Inr ()"
        using check moved_range[OF inv rng(2) x] moved_not_ancestor[OF inv _ x]
        by (simp add: insertion_check_ok)
    qed
    have mem: "r \<in> set (kids d p)" if "ref = Some r" for r
      using ref[OF that] tree_inv_links[OF inv] by blast
    obtain pos where pos: "(case ref of Some r \<Rightarrow> ok_or (Error (NotChild r))
            (position (\<lambda>c. c = r) (kids d p)) | None \<Rightarrow> Inr (length (kids d p))) = Inr pos"
        "pos \<le> length (kids d p)"
        "place ref (kids d f) (kids d p) = take pos (kids d p) @ kids d f @ drop pos (kids d p)"
      using splice_position[of ref "kids d p" "kids d f"] mem by blast
    let ?e = "upd_children f (\<lambda>_. []) d"
    have e: "relinked d ?e (par d) ((kids d)(f := []))"
      using rng by (simp add: relinked_def same_frame_def)
    have "relinked ?e (splice_loop p pos (kids d f) ?e) (inserted_pars p (kids d f) (par ?e))
        ((kids ?e)(p := take pos (kids ?e p) @ kids d f @ drop pos (kids ?e p)))"
      using rng pos(2) pf tree_inv_ranges(1)[OF inv, of _ f]
      by (intro splice_loop_links) auto
    then have r: "relinked d (splice_loop p pos (kids d f) ?e) (inserted_pars p (kids d f) (par d))
        (inserted_kids p ref (kids d f) (kids d))"
      using e pf pos(3) rng
      by (auto simp: relinked_def inserted_kids_def lift dest: same_frame_trans)
    have "splice_fragment p f ref d =
        (Inr (), queue_mutation p (ChildListRecord (kids d f) [] (before_opt (kids d p) pos) ref)
          (queue_mutation f (ChildListRecord [] (kids d f) None None)
            (mark_dirty f (mark_dirty p (record_structure_change
              (splice_loop p pos (kids d f) ?e))))))"
      using rng False each pos(1)
      by (cases ref) (simp_all add: splice_fragment_def children_def node_index_def nth_links)
    then show ?thesis using r by (simp add: ms)
  qed
qed

section \<open>The insertion operations\<close>

lemma relinked_trans:
  "relinked d e P K \<Longrightarrow> relinked e f Q L \<Longrightarrow> relinked d f Q L"
  by (auto simp: relinked_def dest: same_frame_trans)

lemma inserted_single_orphan:
  assumes "tree_inv d" and "par d c = None"
  shows "inserted_kids p ref [c] (kids d) = (kids d)(p := place ref [c] (kids d p))"
proof -
  have "lifted [c] (kids d) = detached c (kids d)" by (simp add: lifted_def detached_def)
  also have "\<dots> = kids d" using assms detached_orphan by (auto simp: tree_inv_def)
  finally show ?thesis by (simp add: inserted_kids_def)
qed

lemma inserted_single_detached:
  "inserted_kids p ref [c] (detached c K) = inserted_kids p ref [c] K"
  "inserted_pars p [c] (P(c := None)) = inserted_pars p [c] P"
  by (auto simp: inserted_kids_def lifted_def detached_def inserted_pars_def fun_eq_iff)

lemma append_child_rejects:
  assumes "tree_inv d" and "insertion_check p c d = Inl e"
  shows "append_child p c d = (Inl e, d)"
  using assms by (simp add: append_child_def validate_insertion_check)

lemma append_child_parented:
  assumes inv: "tree_inv d" and check: "insertion_check p c d = Inr ()" and par: "par d c \<noteq> None"
  shows "append_child p c d = (Inl (Error (AlreadyHasParent c)), d)"
proof -
  have rng: "p < length (nodes d)" "c < length (nodes d)"
    using check knd_container_range insertion_check_ok by blast+
  have "knd d c \<noteq> DocumentFragment" using tree_inv_fragment[OF inv, of c] par by auto
  then show ?thesis
    using check rng par
    by (simp add: append_child_def validate_insertion_check[OF inv] node_at_def node_index_def
        nth_links)
qed

lemma append_child_runs:
  assumes inv: "tree_inv d" and check: "insertion_check p c d = Inr ()" and par: "par d c = None"
  shows "\<exists>d'. append_child p c d = (Inr (), d')
    \<and> relinked d d' (inserted_pars p (moved d c) (par d)) (inserted_kids p None (moved d c) (kids d))"
proof -
  have rng: "p < length (nodes d)" "c < length (nodes d)"
    using check knd_container_range insertion_check_ok by blast+
  note open_op = append_child_def validate_insertion_check[OF inv] node_at_def node_index_def
    nth_links
  show ?thesis
  proof (cases "knd d c = DocumentFragment")
    case True
    have run: "append_child p c d = splice_fragment p c None d"
      using True check rng by (simp add: open_op)
    show ?thesis unfolding run by (rule splice_runs[OF inv True check]) simp
  next
    case False
    let ?e = "upd_children p (\<lambda>cs. cs @ [c]) (set_parent c (Some p) d)"
    have "append_child p c d = (Inr (), queue_mutation p
        (ChildListRecord [c] [] (last_opt (kids d p)) None)
        (mark_dirty c (mark_dirty p (record_structure_change ?e))))"
      using False check rng par by (simp add: open_op)
    moreover have "relinked d ?e (inserted_pars p [c] (par d)) (inserted_kids p None [c] (kids d))"
      using rng by (auto simp: relinked_def same_frame_def inserted_pars_def fun_eq_iff
          inserted_single_orphan[OF inv par])
    ultimately show ?thesis using False by (simp add: moved_def)
  qed
qed

lemma insert_before_rejects:
  assumes "tree_inv d" and "insertion_check p c d = Inl e"
  shows "insert_before p c r d = (Inl e, d)"
  using assms by (simp add: insert_before_def validate_insertion_check)

lemma insert_before_bad_reference:
  assumes "tree_inv d" and "insertion_check p c d = Inr ()" and "par d r \<noteq> Some p"
  shows "insert_before p c r d =
    (Inl (Error (if r < length (nodes d) then NotChild r else UnknownNode r)), d)"
  using assms
  by (auto simp: insert_before_def validate_insertion_check parent_def node_index_def nth_links
      sm_bind_def)

lemma insert_before_self:
  assumes "tree_inv d" and "insertion_check p c d = Inr ()" and "par d c = Some p"
  shows "insert_before p c c d = (Inr (), d)"
proof -
  have "c < length (nodes d)" using assms(3) par_range by blast
  then show ?thesis
    using assms by (simp add: insert_before_def validate_insertion_check parent_def node_index_def
        nth_links)
qed

text \<open>The detached node is linked in front of the reference.\<close>

lemma insert_before_link:
  assumes inv: "tree_inv d" and rng: "p < length (nodes d)" "c < length (nodes d)"
    and orphan: "par d c = None" and r: "r \<in> set (kids d p)"
  obtains k where "position (\<lambda>i. i = r) (kids d p) = Some k"
    "relinked d (upd_children p (insert_at k c) (set_parent c (Some p) d))
       (inserted_pars p [c] (par d)) (inserted_kids p (Some r) [c] (kids d))"
proof -
  obtain k where k: "position (\<lambda>i. i = r) (kids d p) = Some k"
    using r position_eq_None[of r "kids d p"] by fastforce
  have "relinked d (upd_children p (insert_at k c) (set_parent c (Some p) d))
       (inserted_pars p [c] (par d)) (inserted_kids p (Some r) [c] (kids d))"
    using rng place_position[OF k]
    by (auto simp: relinked_def same_frame_def inserted_pars_def fun_eq_iff insert_at_def
        inserted_single_orphan[OF inv orphan])
  then show ?thesis using k that by blast
qed

lemma insert_before_runs:
  assumes inv: "tree_inv d" and check: "insertion_check p c d = Inr ()"
    and r: "par d r = Some p" "r \<noteq> c"
  shows "\<exists>d'. insert_before p c r d = (Inr (), d')
    \<and> relinked d d' (inserted_pars p (moved d c) (par d))
        (inserted_kids p (Some r) (moved d c) (kids d))"
proof -
  have rng: "p < length (nodes d)" "c < length (nodes d)" "r < length (nodes d)"
    using check knd_container_range insertion_check_ok par_range[OF r(1)] by blast+
  note open_op = insert_before_def validate_insertion_check[OF inv] parent_def node_at_def
    node_index_def nth_links
  show ?thesis
  proof (cases "knd d c = DocumentFragment")
    case True
    have run: "insert_before p c r d = splice_fragment p c (Some r) d"
      using True check rng r by (simp add: open_op)
    show ?thesis unfolding run by (rule splice_runs[OF inv True check]) (use r in simp)
  next
    case False
    have m: "moved d c = [c]" using False by (simp add: moved_def)
    obtain e where e: "(case par d c of Some old \<Rightarrow> remove_child old c d | None \<Rightarrow> (Inr (), d))
          = (Inr (), e)"
        "relinked d e ((par d)(c := None)) (detached c (kids d))"
    proof (cases "par d c")
      case None
      then have "relinked d d ((par d)(c := None)) (detached c (kids d))"
        using inv detached_orphan by (auto simp: relinked_def tree_inv_def)
      then show ?thesis using None that by simp
    next
      case (Some old)
      then obtain e where "remove_child old c d = (Inr (), e)"
          "relinked d e ((par d)(c := None)) (detached c (kids d))"
        using remove_child_runs[OF inv, of c old] tree_inv_links[OF inv, of c old] by blast
      then show ?thesis using Some that by simp
    qed
    have einv: "tree_inv e" by (rule remove_child_inv[OF inv e(2)])
    have elen: "length (nodes e) = length (nodes d)"
      using e(2) by (simp add: relinked_def same_frame_def)
    have r_mem: "r \<in> set (kids e p)" and orphan: "par e c = None"
      using e(2) r tree_inv_links[OF inv] by (simp_all add: relinked_def detached_def)
    obtain k where k: "position (\<lambda>i. i = r) (kids e p) = Some k"
        "relinked e (upd_children p (insert_at k c) (set_parent c (Some p) e))
          (inserted_pars p [c] (par e)) (inserted_kids p (Some r) [c] (kids e))"
      using insert_before_link[OF einv _ _ orphan r_mem] rng elen by metis
    have run: "insert_before p c r d = (Inr (), queue_mutation p
        (ChildListRecord [c] [] (before_opt (kids e p) k) (Some r))
        (mark_dirty c (mark_dirty p (record_structure_change
          (upd_children p (insert_at k c) (set_parent c (Some p) e))))))"
      using False check rng r e(1) k(1) elen
      by (simp add: open_op Let_def)
    have "relinked d (upd_children p (insert_at k c) (set_parent c (Some p) e))
        (inserted_pars p [c] (par d)) (inserted_kids p (Some r) [c] (kids d))"
      using relinked_trans[OF e(2) k(2)] e(2)
      by (simp add: relinked_def inserted_single_detached)
    then show ?thesis using run by (simp add: m)
  qed
qed

end
