(* ===== verification/Dom_Insert.thy ===== *)
theory Dom_Insert
  imports Dom_Preserve
begin

text \<open>
  \<open>pre_insert\<close> against its abstract specification: the outcome as a function of the tree it is
  called on (\<open>insert_outcome\<close>) and the children lists it leaves (\<open>inserted_kids\<close>), the other
  insertion operations as special cases, and that they all keep the invariant.
\<close>

definition insert_outcome ::
    "node_id \<Rightarrow> node_id \<Rightarrow> node_id option \<Rightarrow> dom \<Rightarrow> dom_fault + unit" where
  "insert_outcome p c ref d =
     res_bind (insertion_check p c d) (\<lambda>_.
       case ref of
         None \<Rightarrow> Inr ()
       | Some r \<Rightarrow>
           if par d r = Some p then Inr ()
           else Inl (Error (if r < length (nodes d) then NotChild r else UnknownNode r)))"

definition insert_target ::
    "node_id \<Rightarrow> node_id \<Rightarrow> node_id option \<Rightarrow> dom \<Rightarrow> node_id \<Rightarrow> node_id list" where
  "insert_target p c ref d =
     (if ref = Some c then kids d else inserted_kids p ref (moved d c) (kids d))"

lemma insertion_check_detached:
  assumes inv: "tree_inv d" and rel: "relinked d e ((par d)(c := None)) (detached c (kids d))"
    and check: "insertion_check p c d = Inr ()"
  shows "insertion_check p c e = Inr ()"
proof -
  have "up_rel e \<subseteq> up_rel d \<union> {} \<times> {p}"
    by (rule up_rel_relink[OF inv rel]) (auto split: if_splits)
  then have "inclusive_ancestor e c p \<Longrightarrow> inclusive_ancestor d c p"
    unfolding inclusive_ancestor_def using rtrancl_mono[of "up_rel e" "up_rel d"] by auto
  then show ?thesis
    using check rel by (auto simp: insertion_check_ok relinked_def same_frame_def)
qed

lemma pre_insert_append_runs:
  assumes inv: "tree_inv d" and check: "insertion_check p c d = Inr ()"
  shows "\<exists>d'. pre_insert p c None d = (Inr (), d')
    \<and> relinked d d' (inserted_pars p (moved d c) (par d)) (inserted_kids p None (moved d c) (kids d))"
proof -
  have rng: "c < length (nodes d)" using check insertion_check_ok by blast
  note open_op = pre_insert_def validate_insertion_check[OF inv] check parent_def node_index_def
    nth_links
  show ?thesis
  proof (cases "par d c")
    case None
    have run: "pre_insert p c None d = append_child p c d"
      using None rng by (simp add: open_op)
    show ?thesis unfolding run by (rule append_child_runs[OF inv check None])
  next
    case (Some old)
    then have frag: "knd d c \<noteq> DocumentFragment" using tree_inv_fragment[OF inv, of c] by auto
    obtain e where e: "remove_child old c d = (Inr (), e)"
        "relinked d e ((par d)(c := None)) (detached c (kids d))"
      using Some remove_child_runs[OF inv, of c old] tree_inv_links[OF inv, of c old] by blast
    have einv: "tree_inv e" by (rule remove_child_inv[OF inv e(2)])
    have links: "par e = (par d)(c := None)" "kids e = detached c (kids d)" "knd e = knd d"
      using e(2) by (simp_all add: relinked_def same_frame_def)
    have m: "moved e c = [c]" "moved d c = [c]" using frag by (simp_all add: moved_def links)
    have run: "pre_insert p c None d = append_child p c e"
      using Some rng e(1) by (simp add: open_op)
    obtain d' where d': "append_child p c e = (Inr (), d')"
        "relinked e d' (inserted_pars p [c] (par e)) (inserted_kids p None [c] (kids e))"
      using append_child_runs[OF einv insertion_check_detached[OF inv e(2) check]] m(1)
      by (auto simp: links)
    have "relinked d d' (inserted_pars p [c] (par d)) (inserted_kids p None [c] (kids d))"
      using relinked_trans[OF e(2) d'(2)] by (simp add: links inserted_single_detached)
    then show ?thesis using run d'(1) m(2) by simp
  qed
qed

lemma pre_insert_runs:
  assumes inv: "tree_inv d" and ok: "insert_outcome p c ref d = Inr ()" and ref: "ref \<noteq> Some c"
  shows "\<exists>d'. pre_insert p c ref d = (Inr (), d')
    \<and> relinked d d' (inserted_pars p (moved d c) (par d)) (inserted_kids p ref (moved d c) (kids d))"
proof -
  have check: "insertion_check p c d = Inr ()"
    using ok by (auto simp: insert_outcome_def res_bind_ok)
  show ?thesis
  proof (cases ref)
    case None
    then show ?thesis using pre_insert_append_runs[OF inv check] by simp
  next
    case (Some r)
    have "par d r = Some p" "r \<noteq> c"
      using ok ref Some check by (auto simp: insert_outcome_def split: if_splits)
    then show ?thesis using insert_before_runs[OF inv check] Some by (simp add: pre_insert_def)
  qed
qed

lemma pre_insert_self:
  assumes "tree_inv d" and "insert_outcome p c (Some c) d = Inr ()"
  shows "pre_insert p c (Some c) d = (Inr (), d)"
  using assms insert_before_self[OF assms(1), of p c]
  by (auto simp: pre_insert_def insert_outcome_def res_bind_ok split: if_splits)

lemma pre_insert_rejects:
  assumes inv: "tree_inv d" and e: "insert_outcome p c ref d = Inl e"
  shows "pre_insert p c ref d = (Inl e, d)"
proof (cases "insertion_check p c d")
  case (Inl f)
  then have "e = f" using e by (simp add: insert_outcome_def)
  then show ?thesis using insert_before_rejects[OF inv Inl]
    by (cases ref) (simp_all add: pre_insert_def validate_insertion_check[OF inv] Inl)
next
  case (Inr u)
  then have "insertion_check p c d = Inr ()" by simp
  with e obtain r where "ref = Some r" "par d r \<noteq> Some p"
      "e = Error (if r < length (nodes d) then NotChild r else UnknownNode r)"
    by (cases ref) (auto simp: insert_outcome_def split: if_splits)
  then show ?thesis using insert_before_bad_reference[OF inv, of p c r] Inr
    by (simp add: pre_insert_def)
qed

lemma pre_insert_cases [consumes 1, case_names rejected self placed]:
  assumes "tree_inv d"
  obtains (rejected) e where "insert_outcome p c ref d = Inl e" "pre_insert p c ref d = (Inl e, d)"
  | (self) "insert_outcome p c ref d = Inr ()" "ref = Some c" "pre_insert p c ref d = (Inr (), d)"
  | (placed) d' where "insert_outcome p c ref d = Inr ()" "ref \<noteq> Some c"
      "pre_insert p c ref d = (Inr (), d')"
      "relinked d d' (inserted_pars p (moved d c) (par d)) (inserted_kids p ref (moved d c) (kids d))"
proof (cases "insert_outcome p c ref d")
  case (Inl e)
  then show ?thesis using pre_insert_rejects[OF assms] rejected by blast
next
  case (Inr u)
  then have ok: "insert_outcome p c ref d = Inr ()" by simp
  show ?thesis
  proof (cases "ref = Some c")
    case True
    then show ?thesis using self ok pre_insert_self[OF assms, of p c] by simp
  next
    case False
    then show ?thesis using placed[OF ok False] pre_insert_runs[OF assms ok False] by blast
  qed
qed

lemma pre_insert_tree_inv:
  assumes "tree_inv d" shows "tree_inv (snd (pre_insert p c ref d))"
  using assms
proof (cases rule: pre_insert_cases[where p = p and c = c and ref = ref])
  case (placed d')
  have "insertion_check p c d = Inr ()"
    using placed(1) by (auto simp: insert_outcome_def res_bind_ok)
  then show ?thesis using inserted_inv[OF assms _ placed(4)] placed(3) by simp
qed (use assms in simp_all)

lemma append_child_cases [consumes 1, case_names rejected placed]:
  assumes "tree_inv d"
  obtains (rejected) e where "append_child p c d = (Inl (Error e), d)"
  | (placed) d' where "insertion_check p c d = Inr ()" "par d c = None"
      "append_child p c d = (Inr (), d')"
      "relinked d d' (inserted_pars p (moved d c) (par d)) (inserted_kids p None (moved d c) (kids d))"
proof (cases "insertion_check p c d")
  case (Inl e)
  then obtain e' where "e = Error e'" by (auto simp: insertion_check_def split: if_splits)
  then show ?thesis using append_child_rejects[OF assms Inl] rejected by simp
next
  case (Inr u)
  then have ok: "insertion_check p c d = Inr ()" by simp
  then show ?thesis
    using append_child_parented[OF assms ok] append_child_runs[OF assms ok] rejected placed by metis
qed

lemma append_child_tree_inv:
  assumes "tree_inv d" shows "tree_inv (snd (append_child p c d))"
  using assms
  by (cases rule: append_child_cases[where p = p and c = c]) (use assms inserted_inv[OF assms] in auto)

lemma insert_before_is_pre_insert: "insert_before p c r d = pre_insert p c (Some r) d"
  by (simp add: pre_insert_def)

section \<open>Properties\<close>

text \<open>C29: Inserting refines the abstract tree operation. On a well-formed tree, \<open>pre_insert\<close> succeeds
  exactly when the parent is a container, the node exists and is not an inclusive ancestor of the
  parent (through template and shadow hosts too), and the reference is a child of the parent;
  then every node that moves (the node, or the fragment's children) leaves its old list and
  appears, in order, in front of the reference or at the end, and no other list changes.\<close>

theorem pre_insert_refines:
  assumes "tree_inv d"
  shows "fst (pre_insert p c ref d) = insert_outcome p c ref d
    \<and> kids (snd (pre_insert p c ref d)) =
        (if insert_outcome p c ref d = Inr () then insert_target p c ref d else kids d)"
  using assms
proof (cases rule: pre_insert_cases[where p = p and c = c and ref = ref])
  case self
  then show ?thesis by (simp add: insert_target_def)
next
  case (placed d')
  then show ?thesis by (simp add: insert_target_def relinked_def)
qed simp

end
