(* ===== verification/Dom_Attributes.thy ===== *)
theory Dom_Attributes
  imports Dom_Tree
begin

text \<open>
  The form state of \<open>silksurf-dom/src/forms.rs\<close> (tree order, form owners, listed controls, radio
  groups, checkedness) and the attribute operations of \<open>lib.rs\<close>, \<open>set_attribute\<close> and
  \<open>remove_attribute\<close>, which call back into it when \<open>checked\<close> changes. The three loops that follow
  parent or child links are partial functions: \<open>None\<close> is a walk that does not return.
\<close>

section \<open>Tree order and form owners\<close>

definition attribute_value :: "dom \<Rightarrow> node_id \<Rightarrow> string \<Rightarrow> string option" where
  "attribute_value d i name =
     (case attributes d i of
        Inl _ \<Rightarrow> None
      | Inr attrs \<Rightarrow> map_option attr_value (find (\<lambda>a. attr_matches (attr_name a) name) attrs))"

definition tag :: "dom \<Rightarrow> node_id \<Rightarrow> string" where
  "tag d i =
     (case node_at d i of
        Inl _ \<Rightarrow> []
      | Inr n \<Rightarrow> (case kind n of
                   Element name _ ns _ \<Rightarrow> (if ns = NsHtml then tag_as_str name else [])
                 | _ \<Rightarrow> []))"

partial_function (option) tree_root :: "dom \<Rightarrow> node_id \<Rightarrow> node_id option" where
  "tree_root d root =
     (case parent d root of
        Inl _ \<Rightarrow> Some root
      | Inr None \<Rightarrow> Some root
      | Inr (Some p) \<Rightarrow> tree_root d p)"

text \<open>The stack has its top at the head of the list: pushing the reversed children leaves the
  first child on top.\<close>

partial_function (option) dfs_loop ::
    "dom \<Rightarrow> node_id list \<Rightarrow> node_id list \<Rightarrow> node_id list option" where
  "dfs_loop d pending ns =
     (case pending of
        [] \<Rightarrow> Some ns
      | i # rest \<Rightarrow>
          dfs_loop d (case children d i of Inl _ \<Rightarrow> rest | Inr cs \<Rightarrow> cs @ rest) (ns @ [i]))"

definition tree_nodes :: "dom \<Rightarrow> node_id \<Rightarrow> node_id list option" where
  "tree_nodes d i = (case tree_root d i of None \<Rightarrow> None | Some root \<Rightarrow> dfs_loop d [root] [])"

fun first_ids_from ::
    "dom \<Rightarrow> node_id list \<Rightarrow> (string \<Rightarrow> node_id option) \<Rightarrow> string \<Rightarrow> node_id option" where
  "first_ids_from d [] m = m"
| "first_ids_from d (i # ns) m =
     first_ids_from d ns
       (case attribute_value d i ''id'' of
          None \<Rightarrow> m
        | Some v \<Rightarrow> if v \<noteq> [] \<and> m v = None then m(v \<mapsto> i) else m)"

definition first_ids :: "dom \<Rightarrow> node_id list \<Rightarrow> string \<Rightarrow> node_id option" where
  "first_ids d ns = first_ids_from d ns Map.empty"

partial_function (option) form_ancestor :: "dom \<Rightarrow> node_id option \<Rightarrow> node_id option option" where
  "form_ancestor d ancestor =
     (case ancestor of
        None \<Rightarrow> Some None
      | Some p \<Rightarrow>
          if tag d p = ''form'' then Some (Some p)
          else form_ancestor d (case parent d p of Inl _ \<Rightarrow> None | Inr q \<Rightarrow> q))"

definition form_owner_in ::
    "dom \<Rightarrow> node_id \<Rightarrow> (string \<Rightarrow> node_id option) \<Rightarrow> node_id option option" where
  "form_owner_in d i by_id =
     (case (if is_connected d i then attribute_value d i ''form'' else None) of
        Some v \<Rightarrow>
          Some (case by_id v of
                  None \<Rightarrow> None
                | Some owner \<Rightarrow> if tag d owner = ''form'' then Some owner else None)
      | None \<Rightarrow> form_ancestor d (case parent d i of Inl _ \<Rightarrow> None | Inr q \<Rightarrow> q))"

definition listed_control :: "dom \<Rightarrow> node_id \<Rightarrow> bool" where
  "listed_control d i =
     (let t = tag d i in
      if t = ''input'' then
        \<not> (case attribute_value d i ''type'' of
             None \<Rightarrow> False | Some v \<Rightarrow> eq_ignore_ascii_case v ''image'')
      else t \<in> {''button'', ''fieldset'', ''object'', ''output'', ''select'', ''textarea''})"

fun filter_opt :: "('a \<Rightarrow> bool option) \<Rightarrow> 'a list \<Rightarrow> 'a list option" where
  "filter_opt f [] = Some []"
| "filter_opt f (x # xs) =
     (case f x of
        None \<Rightarrow> None
      | Some b \<Rightarrow> map_option (\<lambda>ys. if b then x # ys else ys) (filter_opt f xs))"

definition form_controls :: "dom \<Rightarrow> node_id \<Rightarrow> node_id list option" where
  "form_controls d form =
     (case tree_nodes d form of
        None \<Rightarrow> None
      | Some ns \<Rightarrow>
          filter_opt (\<lambda>i. if listed_control d i
                          then map_option (\<lambda>ow. ow = Some form) (form_owner_in d i (first_ids d ns))
                          else Some False) ns)"

definition form_owner :: "dom \<Rightarrow> node_id \<Rightarrow> node_id option option" where
  "form_owner d i =
     (case tree_nodes d i of
        None \<Rightarrow> None
      | Some ns \<Rightarrow> form_owner_in d i (first_ids d ns))"

definition is_radio :: "dom \<Rightarrow> node_id \<Rightarrow> bool" where
  "is_radio d i =
     (case attribute_value d i ''type'' of
        None \<Rightarrow> False | Some v \<Rightarrow> eq_ignore_ascii_case v ''radio'')"

definition radio_group :: "dom \<Rightarrow> node_id \<Rightarrow> node_id list option" where
  "radio_group d i =
     (if \<not> is_radio d i then Some []
      else
        (case attribute_value d i ''name'' of
           None \<Rightarrow> Some []
         | Some name \<Rightarrow>
             if name = [] then Some []
             else
               (case tree_nodes d i of
                  None \<Rightarrow> None
                | Some ns \<Rightarrow>
                    (let by_id = first_ids d ns in
                     case form_owner_in d i by_id of
                       None \<Rightarrow> None
                     | Some owner \<Rightarrow>
                         filter_opt
                           (\<lambda>c. if tag d c = ''input'' \<and> is_radio d c
                                   \<and> attribute_value d c ''name'' = Some name
                                then map_option (\<lambda>ow. ow = owner) (form_owner_in d c by_id)
                                else Some False)
                           ns))))"

section \<open>Checkedness\<close>

definition input_checked :: "dom \<Rightarrow> node_id \<Rightarrow> bool" where
  "input_checked d i =
     (case checked_states d i of
        None \<Rightarrow> attribute_value d i ''checked'' \<noteq> None
      | Some st \<Rightarrow> is_checked st)"

definition copy_input_state :: "node_id \<Rightarrow> node_id \<Rightarrow> dom \<Rightarrow> dom" where
  "copy_input_state source destination d =
     (case checked_states d source of
        None \<Rightarrow> d
      | Some st \<Rightarrow> d\<lparr>checked_states := (checked_states d)(destination \<mapsto> st)\<rparr>)"

definition put_checked :: "node_id \<Rightarrow> bool \<Rightarrow> bool \<Rightarrow> dom \<Rightarrow> dom" where
  "put_checked i checked dirty d =
     mark_dirty i (d\<lparr>checked_states :=
       (checked_states d)(i \<mapsto> \<lparr>is_checked = checked, is_dirty = dirty\<rparr>)\<rparr>)"

definition state_dirty :: "dom \<Rightarrow> node_id \<Rightarrow> bool" where
  "state_dirty d i = (case checked_states d i of None \<Rightarrow> False | Some st \<Rightarrow> is_dirty st)"

fun clear_group :: "node_id \<Rightarrow> node_id list \<Rightarrow> bool \<Rightarrow> dom \<Rightarrow> bool \<times> dom" where
  "clear_group i [] changed d = (changed, d)"
| "clear_group i (sibling # siblings) changed d =
     (if sibling \<noteq> i
      then clear_group i siblings (changed \<or> input_checked d sibling)
             (put_checked sibling False (state_dirty d sibling) d)
      else clear_group i siblings changed d)"

definition set_input_checked :: "node_id \<Rightarrow> bool \<Rightarrow> bool dom_op" where
  "set_input_checked i checked d =
     (if tag d i \<noteq> ''input'' then (Inl (Error (NotElement i)), d)
      else
        (let changed = (input_checked d i \<noteq> checked);
             d = put_checked i checked True d
         in case (if checked then radio_group d i else Some []) of
              None \<Rightarrow> (Inl Diverges, d)
            | Some siblings \<Rightarrow>
                (let (changed, d) = clear_group i siblings changed d
                 in (Inr changed, if changed then record_style_change d else d))))"

definition checked_attribute_changed :: "node_id \<Rightarrow> bool \<Rightarrow> unit dom_op" where
  "checked_attribute_changed i present d =
     (if tag d i \<noteq> ''input'' \<or> state_dirty d i then (Inr (), d)
      else
        (case set_input_checked i present d of
           (Inl Diverges, d) \<Rightarrow> (Inl Diverges, d)
         | (_, d) \<Rightarrow>
             (Inr (),
              case checked_states d i of
                None \<Rightarrow> d
              | Some st \<Rightarrow>
                  d\<lparr>checked_states := (checked_states d)(i \<mapsto> st\<lparr>is_dirty := False\<rparr>)\<rparr>)))"

section \<open>Attributes\<close>

definition attribute_snapshot :: "dom \<Rightarrow> node_id \<Rightarrow> string \<Rightarrow> string option" where
  "attribute_snapshot d i name =
     (case node_index d i of
        Inl _ \<Rightarrow> None
      | Inr k \<Rightarrow>
          (let a = attr_from_str_in name (element_namespace d i) in
           case kind (nodes d ! k) of
             Element _ _ _ attrs \<Rightarrow> map_option attr_value (find (\<lambda>x. attr_name x = a) attrs)
           | _ \<Rightarrow> None))"

text \<open>The atoms an attribute value carries: one per class token, or one for the whole value.\<close>

definition class_tokens :: "string \<Rightarrow> string list" where
  "class_tokens v = (if v = [] then [] else filter should_intern_identifier (split_whitespace v))"

definition attribute_atoms ::
    "attribute_name \<Rightarrow> string \<Rightarrow> dom \<Rightarrow> (atom option \<times> atom list \<times> string list) \<times> dom" where
  "attribute_atoms a v d =
     (if a = AttrClass then
        (let tokens = class_tokens v; (atoms, d) = map_st dom_intern tokens d
         in ((None, atoms, tokens), d))
      else if v = [] \<or> \<not> should_intern_identifier v then ((None, [], []), d)
      else (let (atom, d) = dom_intern v d in ((Some atom, [], []), d)))"

fun upsert_attribute :: "attribute \<Rightarrow> attribute list \<Rightarrow> attribute list" where
  "upsert_attribute a [] = [a]"
| "upsert_attribute a (x # xs) =
     (if attr_name x = attr_name a then a # xs else x # upsert_attribute a xs)"

definition set_attribute :: "node_id \<Rightarrow> string \<Rightarrow> string \<Rightarrow> unit dom_op" where
  "set_attribute i name v d =
     (let a = attr_from_str_in name (element_namespace d i);
          ((atom, atoms, strings), d) = attribute_atoms a v d
      in case node_index d i of
           Inl e \<Rightarrow> (Inl e, d)
         | Inr k \<Rightarrow>
             (let old = attribute_snapshot d i name in
              case kind (nodes d ! k) of
                Element t pfx ns attrs \<Rightarrow>
                  (let new = \<lparr>attr_name = a, attr_value = v, value_atom = atom,
                              value_atoms = atoms, class_strings = strings\<rparr>;
                       d = set_kind k (Element t pfx ns (upsert_attribute new attrs)) d;
                       d = mark_dirty i (record_style_change d)
                   in sm_then (if eq_ignore_ascii_case name ''checked''
                               then checked_attribute_changed i True else sm_return ())
                        (sm_do (queue_mutation i (AttributesRecord name old))) d)
              | _ \<Rightarrow> (Inl (Error (NotElement i)), d)))"

definition remove_attribute :: "node_id \<Rightarrow> string \<Rightarrow> bool dom_op" where
  "remove_attribute i name d =
     (let a = attr_from_str_in name (element_namespace d i)
      in case node_index d i of
           Inl e \<Rightarrow> (Inl e, d)
         | Inr k \<Rightarrow>
             (let old = attribute_snapshot d i name in
              case kind (nodes d ! k) of
                Element t pfx ns attrs \<Rightarrow>
                  (case position (\<lambda>x. attr_name x = a) attrs of
                     None \<Rightarrow> (Inr False, d)
                   | Some pos \<Rightarrow>
                       (let d = set_kind k (Element t pfx ns (remove_at pos attrs)) d;
                            d = mark_dirty i (record_style_change d)
                        in sm_then (if eq_ignore_ascii_case name ''checked''
                                    then checked_attribute_changed i False else sm_return ())
                             (sm_then (sm_do (queue_mutation i (AttributesRecord name old)))
                               (sm_return True)) d))
              | _ \<Rightarrow> (Inl (Error (NotElement i)), d)))"

section \<open>Importing a subtree\<close>

text \<open>
  \<open>import_subtree\<close> recurses on the nodes of the source arena. The first argument bounds the depth
  of the recursion; running out is \<open>Diverges\<close>, and one more than the number of source nodes is
  enough on a well-formed source.
\<close>

definition import_node :: "dom \<Rightarrow> node_id \<Rightarrow> node_id dom_op" where
  "import_node src s =
     sm_bind (sm_read (\<lambda>_. node_at src s)) (\<lambda>n.
       case kind n of
         Document \<Rightarrow> sm_fail (Error (UnknownNode s))
       | DocumentFragment \<Rightarrow> sm_lift create_document_fragment
       | Doctype name public_id system_id \<Rightarrow> sm_lift (create_doctype name public_id system_id)
       | Element name pfx ns attrs \<Rightarrow>
           (let pairs = map (\<lambda>a. (attr_as_str (attr_name a), attr_value a)) attrs in
            sm_bind (sm_lift (create_element_ns_local (tag_as_str name) pfx ns)) (\<lambda>element.
            sm_then (sm_each (\<lambda>(a, v). set_attribute element a v) pairs) (sm_return element)))
       | Text t \<Rightarrow> sm_lift (create_text t)
       | Comment t \<Rightarrow> sm_lift (create_comment t))"

fun import_subtree :: "nat \<Rightarrow> dom \<Rightarrow> node_id \<Rightarrow> node_id \<Rightarrow> node_id dom_op" where
  "import_subtree 0 src s dest_parent = sm_fail Diverges"
| "import_subtree (Suc n) src s dest_parent =
     sm_bind (import_node src s) (\<lambda>new_node.
     sm_bind (sm_read (\<lambda>_. children src s)) (\<lambda>cs.
     sm_then (sm_each (\<lambda>c. import_subtree n src c new_node) cs) (
     sm_then (\<lambda>d. case (template_contents src s, template_contents d new_node) of
                 (Some source, Some destination) \<Rightarrow>
                   sm_bind (sm_read (\<lambda>_. children src source)) (\<lambda>cs.
                     sm_each (\<lambda>c. import_subtree n src c destination) cs) d
               | _ \<Rightarrow> (Inr (), d)) (
     sm_then (append_child dest_parent new_node) (sm_return new_node)))))"

end
