(* ===== verification/Dom_Steps.thy ===== *)
theory Dom_Steps
  imports Dom_Insert Dom_Attributes
begin

text \<open>
  Every mutator of the arena keeps \<open>tree_inv\<close>: the constructors, \<open>attach_shadow\<close>, the text
  operations, the attribute and form operations and \<open>import_subtree\<close>. \<open>dom_step\<close> is the step
  relation of the public operations and \<open>dom_reachable\<close> the states they reach from \<open>Dom::new\<close>.
\<close>

section \<open>Updates outside the tree\<close>

lemma field_links [simp]:
  "par (d\<lparr>checked_states := x\<rparr>) = par d" "kids (d\<lparr>checked_states := x\<rparr>) = kids d"
  "knd (d\<lparr>checked_states := x\<rparr>) = knd d"
  "par (d\<lparr>document_root := y\<rparr>) = par d" "kids (d\<lparr>document_root := y\<rparr>) = kids d"
  "knd (d\<lparr>document_root := y\<rparr>) = knd d"
  "par (d\<lparr>template_contents := tc, template_hosts := th\<rparr>) = par d"
  "kids (d\<lparr>template_contents := tc, template_hosts := th\<rparr>) = kids d"
  "knd (d\<lparr>template_contents := tc, template_hosts := th\<rparr>) = knd d"
  "par (d\<lparr>shadow_roots := sr, shadow_hosts := sh\<rparr>) = par d"
  "kids (d\<lparr>shadow_roots := sr, shadow_hosts := sh\<rparr>) = kids d"
  "knd (d\<lparr>shadow_roots := sr, shadow_hosts := sh\<rparr>) = knd d"
  by (simp_all add: par_def kids_def knd_def fun_eq_iff)

text \<open>Two arenas with the same tree.\<close>

definition same_tree :: "dom \<Rightarrow> dom \<Rightarrow> bool" where
  "same_tree d d' \<longleftrightarrow> relinked d d' (par d) (kids d)"

lemma same_tree_refl [simp]: "same_tree d d"
  by (simp add: same_tree_def relinked_def)

lemma same_tree_trans [trans]: "same_tree d e \<Longrightarrow> same_tree e f \<Longrightarrow> same_tree d f"
  by (auto simp: same_tree_def relinked_def dest: same_frame_trans)

lemma same_tree_inv: "same_tree d d' \<Longrightarrow> tree_inv d \<Longrightarrow> tree_inv d'"
  unfolding same_tree_def by (rule tree_inv_same_links)

lemma same_tree_sym: "same_tree d d' \<Longrightarrow> same_tree d' d"
  by (simp add: same_tree_def relinked_def same_frame_def)

lemma same_tree_inv_iff: "same_tree d d' \<Longrightarrow> tree_inv d' = tree_inv d"
  using same_tree_inv same_tree_sym by blast

lemma same_tree_meta [simp]:
  "same_tree d (mark_dirty i e) = same_tree d e"
  "same_tree d (record_structure_change e) = same_tree d e"
  "same_tree d (record_style_change e) = same_tree d e"
  "same_tree d (record_text_change e) = same_tree d e"
  "same_tree d (queue_mutation i k e) = same_tree d e"
  "same_tree d (e\<lparr>checked_states := x\<rparr>) = same_tree d e"
  "same_tree d (begin_mutation_batch e) = same_tree d e"
  "same_tree d (end_mutation_batch e) = same_tree d e"
  "same_tree d (materialize_resolve_table e) = same_tree d e"
  "same_tree d (set_mutation_recording b e) = same_tree d e"
  "same_tree d (snd (take_mutation_records e)) = same_tree d e"
  "same_tree d (snd (take_dirty_nodes e)) = same_tree d e"
  "same_tree d (snd (dom_intern v e)) = same_tree d e"
  by (simp_all add: same_tree_def relinked_def same_frame_def)

lemma tree_inv_meta [simp]:
  "tree_inv (mark_dirty i e) = tree_inv e"
  "tree_inv (record_structure_change e) = tree_inv e"
  "tree_inv (record_style_change e) = tree_inv e"
  "tree_inv (record_text_change e) = tree_inv e"
  "tree_inv (queue_mutation i k e) = tree_inv e"
  "tree_inv (e\<lparr>checked_states := x\<rparr>) = tree_inv e"
  "tree_inv (begin_mutation_batch e) = tree_inv e"
  "tree_inv (end_mutation_batch e) = tree_inv e"
  "tree_inv (materialize_resolve_table e) = tree_inv e"
  "tree_inv (set_mutation_recording b e) = tree_inv e"
  "tree_inv (snd (take_mutation_records e)) = tree_inv e"
  "tree_inv (snd (take_dirty_nodes e)) = tree_inv e"
  "tree_inv (snd (dom_intern v e)) = tree_inv e"
  by (rule same_tree_inv_iff, simp)+

section \<open>Constructors\<close>

lemma fresh_unlinked:
  assumes "tree_inv d" and "\<not> i < length (nodes d)"
  shows "par d i = None" "kids d i = []" "up d i = None"
    "template_contents d i = None" "template_hosts d i = None"
    "shadow_roots d i = None" "shadow_hosts d i = None" "document_root d \<noteq> Some i"
proof -
  have k: "knd d i = Text []" using assms(2) by (simp add: knd_def)
  show "par d i = None" "kids d i = []" using assms(2) by (simp_all add: par_def kids_def)
  show "up d i = None" using assms up_range(1)[OF assms(1), of i] by (cases "up d i") auto
  show th: "template_hosts d i = None"
    using tree_inv_host_fragment(1)[OF assms(1), of i] k by (cases "template_hosts d i") auto
  show sh: "shadow_hosts d i = None"
    using tree_inv_host_fragment(2)[OF assms(1), of i] k by (cases "shadow_hosts d i") auto
  have h: "hosts_ok d" using assms(1) by (simp add: tree_inv_def)
  show "template_contents d i = None"
    using h tree_inv_host_fragment(1)[OF assms(1), of _ i] k
    by (cases "template_contents d i") (auto simp: hosts_ok_def)
  show "shadow_roots d i = None"
    using h tree_inv_host_fragment(2)[OF assms(1), of _ i] k
    by (cases "shadow_roots d i") (auto simp: hosts_ok_def)
  show "document_root d \<noteq> Some i" using h k by (auto simp: hosts_ok_def)
qed

lemma push_node_tree_inv:
  assumes inv: "tree_inv d" shows "tree_inv (snd (push_node k d))"
proof -
  let ?e = "snd (push_node k d)" and ?n = "length (nodes d)"
  note fresh = fresh_unlinked[OF inv, of ?n, simplified]
  have h: "hosts_ok d" and l: "links_ok (par d) (kids d)" and a: "acyclic (up_rel d)"
      and ki: "kinds_ok d"
    using inv by (simp_all add: tree_inv_def)
  have frag: "template_hosts d f = Some x \<Longrightarrow> f \<noteq> ?n \<and> x \<noteq> ?n"
      "shadow_hosts d f = Some (x, m) \<Longrightarrow> f \<noteq> ?n \<and> x \<noteq> ?n" for f x m
    using tree_inv_host_fragment[OF inv, of f x] by (auto simp: knd_def)
  have "up_rel ?e = up_rel d" by (rule up_cong) simp_all
  moreover have "kinds_ok ?e" using ki fresh(1,2) by (auto simp: kinds_ok_def)
  moreover have "hosts_ok ?e"
    unfolding hosts_ok_def push_node_fields push_node_links
  proof (intro conjI allI impI)
    fix r assume "document_root d = Some r"
    then show "((knd d)(?n := k)) r = Document" using h fresh(8) by (auto simp: hosts_ok_def)
  next
    fix f x m assume s: "shadow_hosts d f = Some (x, m)"
    show "((knd d)(?n := k)) f = DocumentFragment" "is_element_kind (((knd d)(?n := k)) x)"
      using tree_inv_host_fragment(2)[OF inv s] frag(2)[OF s] by simp_all
  qed (use h frag in \<open>auto simp: hosts_ok_def\<close>)
  ultimately show ?thesis using l a by (simp add: tree_inv_def)
qed

lemma create_document_tree_inv:
  assumes "tree_inv d" shows "tree_inv (snd (create_document d))"
proof (cases "document_root d")
  case None
  let ?e = "snd (push_node Document d)"
  have e: "tree_inv ?e" "document_root ?e = None" using push_node_tree_inv[OF assms] None by simp_all
  have "up_rel (?e\<lparr>document_root := Some (length (nodes d))\<rparr>) = up_rel ?e"
    by (rule up_cong) simp_all
  then have "tree_inv (?e\<lparr>document_root := Some (length (nodes d))\<rparr>)"
    using e by (simp add: tree_inv_def kinds_ok_def hosts_ok_def)
  then show ?thesis using None by (simp add: create_document_def case_prod_beta Let_def)
next
  case (Some r)
  then show ?thesis using push_node_tree_inv[OF assms]
    by (simp add: create_document_def case_prod_beta Let_def)
qed

lemma leaf_not_ancestor:
  assumes inv: "tree_inv d" and leaf: "kids d f = []" "\<not> is_element_kind (knd d f)" and ne: "i \<noteq> f"
  shows "\<not> inclusive_ancestor d f i"
proof
  assume "inclusive_ancestor d f i"
  then have "(i, f) \<in> (up_rel d)\<^sup>*" by (simp add: inclusive_ancestor_def)
  then obtain x where "up d x = Some f"
    using ne by (cases rule: rtranclE) (auto simp: up_rel_def)
  then consider "par d x = Some f" | "template_hosts d x = Some f"
    | m where "shadow_hosts d x = Some (f, m)"
    by (auto simp: up_def split: option.splits)
  then show False
  proof cases
    case 1
    then show ?thesis using tree_inv_links[OF inv] leaf(1) by simp
  qed (use tree_inv_host_fragment[OF inv] leaf(2) in blast)+
qed

lemma up_None:
  "up d f = None \<longleftrightarrow> par d f = None \<and> template_hosts d f = None \<and> shadow_hosts d f = None"
  by (auto simp: up_def split: option.splits)

lemma add_template_host:
  assumes inv: "tree_inv d" and h: "is_element_kind (knd d h)" "template_contents d h = None"
    and f: "knd d f = DocumentFragment" "up d f = None" "kids d f = []"
  shows "tree_inv (d\<lparr>template_contents := (template_contents d)(h \<mapsto> f),
                     template_hosts := (template_hosts d)(f \<mapsto> h)\<rparr>)" (is "tree_inv ?e")
proof -
  have hf: "h \<noteq> f" using h(1) f(1) by auto
  have ho: "hosts_ok d" using inv by (simp add: tree_inv_def)
  have free: "template_contents d x \<noteq> Some f" "template_hosts d y \<noteq> Some h" for x y
    using ho f(2) h(2) unfolding hosts_ok_def up_None by (metis option.distinct(1))+
  have "up_rel ?e \<subseteq> up_rel d \<union> {f} \<times> {h}"
    by (auto simp: up_rel_def up_def split: option.splits if_splits)
  moreover have "acyclic (up_rel d \<union> {f} \<times> {h})"
    using inv leaf_not_ancestor[OF inv f(3) _ hf] f(1)
    by (intro acyclic_add_star) (auto simp: tree_inv_def inclusive_ancestor_def)
  ultimately have "acyclic (up_rel ?e)" by (metis acyclic_subset)
  moreover have "hosts_ok ?e"
    unfolding hosts_ok_def
  proof (intro conjI allI impI)
    fix x y
    show "(template_contents ?e x = Some y) = (template_hosts ?e y = Some x)"
      using ho free by (auto simp: hosts_ok_def)
  next
    fix x y m assume "shadow_hosts ?e x = Some (y, m)"
    then show "knd ?e x = DocumentFragment" "is_element_kind (knd ?e y)"
      using tree_inv_host_fragment(2)[OF inv, of x y m] by simp_all
  next
    fix x show "template_hosts ?e x = None \<or> shadow_hosts ?e x = None"
      using ho f(2) by (auto simp: hosts_ok_def up_None)
  qed (use ho h(1) f(1) in \<open>auto simp: hosts_ok_def split: if_splits\<close>)
  ultimately show ?thesis using inv by (simp add: tree_inv_def kinds_ok_def)
qed

lemma add_shadow_host:
  assumes inv: "tree_inv d" and h: "is_element_kind (knd d h)" "shadow_roots d h = None"
    and f: "knd d f = DocumentFragment" "up d f = None" "kids d f = []"
  shows "tree_inv (d\<lparr>shadow_roots := (shadow_roots d)(h \<mapsto> f),
                     shadow_hosts := (shadow_hosts d)(f \<mapsto> (h, closed))\<rparr>)" (is "tree_inv ?e")
proof -
  have hf: "h \<noteq> f" using h(1) f(1) by auto
  have ho: "hosts_ok d" using inv by (simp add: tree_inv_def)
  have free: "shadow_roots d x \<noteq> Some f" "shadow_hosts d y \<noteq> Some (h, m)" for x y m
    using ho f(2) h(2) unfolding hosts_ok_def up_None by (metis option.distinct(1))+
  have "up_rel ?e \<subseteq> up_rel d \<union> {f} \<times> {h}"
    by (auto simp: up_rel_def up_def split: option.splits if_splits)
  moreover have "acyclic (up_rel d \<union> {f} \<times> {h})"
    using inv leaf_not_ancestor[OF inv f(3) _ hf] f(1)
    by (intro acyclic_add_star) (auto simp: tree_inv_def inclusive_ancestor_def)
  ultimately have "acyclic (up_rel ?e)" by (metis acyclic_subset)
  moreover have "hosts_ok ?e"
    unfolding hosts_ok_def
  proof (intro conjI allI impI)
    fix x y
    show "(shadow_roots ?e x = Some y) = (\<exists>m. shadow_hosts ?e y = Some (x, m))"
      using ho free by (auto simp: hosts_ok_def)
  next
    fix x y m assume "shadow_hosts ?e x = Some (y, m)"
    then show "knd ?e x = DocumentFragment" "is_element_kind (knd ?e y)"
      using tree_inv_host_fragment(2)[OF inv, of x y m] h(1) f(1) by (auto split: if_splits)
  next
    fix x show "template_hosts ?e x = None \<or> shadow_hosts ?e x = None"
      using ho f(2) by (auto simp: hosts_ok_def up_None)
  qed (use ho in \<open>auto simp: hosts_ok_def\<close>)
  ultimately show ?thesis using inv by (simp add: tree_inv_def kinds_ok_def)
qed

lemma create_element_ns_local_tree_inv:
  assumes inv: "tree_inv d" shows "tree_inv (snd (create_element_ns_local l pfx ns d))"
proof -
  define name where "name = local_tag_name l ns"
  define e where "e = snd (push_node (Element name pfx ns []) d)"
  define g where "g = snd (push_node DocumentFragment e)"
  let ?n = "length (nodes d)"
  have e: "tree_inv e" "length (nodes e) = Suc ?n"
    using push_node_tree_inv[OF inv] by (simp_all add: e_def)
  have g: "tree_inv g" using push_node_tree_inv[OF e(1)] by (simp add: g_def)
  note fresh = fresh_unlinked[OF inv, of ?n, simplified] fresh_unlinked[OF e(1), of "Suc ?n", simplified e(2), simplified]
  have up: "up g = up e" unfolding g_def by (rule up_cong) simp_all
  have t: "tree_inv (g\<lparr>template_contents := (template_contents g)(?n \<mapsto> Suc ?n),
                     template_hosts := (template_hosts g)(Suc ?n \<mapsto> ?n)\<rparr>)"
    by (rule add_template_host[OF g])
      (use fresh e(2) up in \<open>simp_all add: g_def, simp_all add: e_def\<close>)
  show ?thesis
    using t e(1) unfolding g_def e_def name_def
    by (cases "ns = NsHtml")
      (simp_all add: create_element_ns_local_def create_document_fragment_def Let_def
        case_prod_beta)
qed

lemma create_element_tree_inv: "tree_inv d \<Longrightarrow> tree_inv (snd (create_element name d))"
  by (simp add: create_element_def create_element_ns_local_tree_inv)

lemma create_element_ns_tree_inv: "tree_inv d \<Longrightarrow> tree_inv (snd (create_element_ns name ns d))"
  by (simp add: create_element_ns_def create_element_ns_local_tree_inv split: option.split prod.split)

lemma attach_shadow_cases:
  assumes inv: "tree_inv d"
  shows "(\<exists>e. attach_shadow host closed d = (Inl (Error e), d))
    \<or> (\<exists>d'. attach_shadow host closed d = (Inr (length (nodes d)), d') \<and> tree_inv d'
         \<and> shadow_host d' (length (nodes d)) = Some (host, closed))"
proof (cases "is_element_kind (knd d host) \<and> shadow_roots d host = None")
  case True
  let ?n = "length (nodes d)"
  define e where "e = snd (push_node DocumentFragment d)"
  have e: "tree_inv e" using push_node_tree_inv[OF inv] by (simp add: e_def)
  note fresh = fresh_unlinked[OF inv, of ?n, simplified]
  have host: "host < ?n" using True is_element_range by blast
  have up: "up e = up d" unfolding e_def by (rule up_cong) simp_all
  have t: "tree_inv (e\<lparr>shadow_roots := (shadow_roots e)(host \<mapsto> ?n),
                     shadow_hosts := (shadow_hosts e)(?n \<mapsto> (host, closed))\<rparr>)" (is "tree_inv ?f")
    by (rule add_shadow_host[OF e])
      (use fresh True host up in \<open>simp_all add: e_def\<close>)
  have t': "tree_inv (record_structure_change ?f)"
    using t by simp
  obtain name pfx ns attrs where k: "kind (nodes d ! host) = Element name pfx ns attrs"
    using True host by (cases "knd d host") (auto simp: nth_links)
  have "fst (push_node DocumentFragment d) = ?n" by simp
  then show ?thesis
    using True host t' unfolding e_def
    by (auto simp: attach_shadow_def node_at_def node_index_def k Let_def case_prod_beta
        create_document_fragment_def shadow_host_def)
next
  case False
  then show ?thesis
    by (auto simp: attach_shadow_def node_at_def node_index_def nth_links Let_def
        sm_bind_def split: node_kind.splits if_splits)
qed

lemma attach_shadow_tree_inv: "tree_inv d \<Longrightarrow> tree_inv (snd (attach_shadow host closed d))"
  using attach_shadow_cases[of d host closed] by auto

section \<open>Text\<close>

lemma orphan_all_links:
  "relinked d (orphan_all cs d) (\<lambda>x. if x \<in> set cs then None else par d x) (kids d)"
proof (induction cs arbitrary: d)
  case Nil
  then show ?case by (simp add: relinked_def)
next
  case (Cons c cs)
  let ?e = "if c < length (nodes d) then set_parent c None d else d"
  have e: "relinked d ?e ((par d)(c := None)) (kids d)"
  proof (cases "c < length (nodes d)")
    case False
    then have "(par d)(c := None) = par d" by (auto simp: par_def fun_eq_iff)
    then show ?thesis using False by (simp add: relinked_def)
  qed (simp add: relinked_def same_frame_def)
  have "relinked ?e (orphan_all cs ?e) (\<lambda>x. if x \<in> set cs then None else par ?e x) (kids ?e)"
    by (rule Cons.IH)
  note IH = this
  have "par d c = None" if "\<not> c < length (nodes d)" using that by (simp add: par_def)
  then show ?case using relinked_trans[OF e IH] e
    by (auto simp: relinked_def fun_eq_iff)
qed

text \<open>A node emptied of its children.\<close>

lemma emptied_links:
  assumes inv: "tree_inv d" and i: "i < length (nodes d)"
  shows "relinked d (orphan_all (kids d i) (upd_children i (\<lambda>_. []) d))
    (\<lambda>x. if x \<in> set (kids d i) then None else par d x) ((kids d)(i := []))"
proof -
  have e: "relinked d (upd_children i (\<lambda>_. []) d) (par d) ((kids d)(i := []))"
    using i by (simp add: relinked_def same_frame_def)
  from relinked_trans[OF e orphan_all_links] e show ?thesis
    by (auto simp: relinked_def fun_eq_iff)
qed

lemma emptied_tree_inv:
  assumes inv: "tree_inv d"
    and rel: "relinked d e (\<lambda>x. if x \<in> set (kids d i) then None else par d x) ((kids d)(i := []))"
  shows "tree_inv e"
proof (rule tree_inv_relink[OF inv rel, of "{}" undefined])
  show "links_ok (\<lambda>x. if x \<in> set (kids d i) then None else par d x) ((kids d)(i := []))"
    using inv by (intro links_clear) (simp add: tree_inv_def)
  show "container_kind (knd d p)" if "((kids d)(i := [])) p \<noteq> []" for p
    using that tree_inv_container[OF inv] by (auto split: if_splits)
qed (use tree_inv_fragment[OF inv] in \<open>auto split: if_splits\<close>)

text \<open>A fresh leaf linked as the only child.\<close>

lemma fresh_child_tree_inv:
  assumes inv: "tree_inv d" and i: "container_kind (knd d i)" and t: "t < length (nodes d)"
    and leaf: "par d t = None" "kids d t = []" "knd d t = Text s" and ne: "i \<noteq> t"
  shows "relinked d (upd_children i (\<lambda>cs. cs @ [t]) (set_parent t (Some i) d))
      ((par d)(t := Some i)) ((kids d)(i := kids d i @ [t]))"
    and "tree_inv (upd_children i (\<lambda>cs. cs @ [t]) (set_parent t (Some i) d))"
proof -
  have ir: "i < length (nodes d)" using i by (rule knd_container_range)
  then show rel: "relinked d (upd_children i (\<lambda>cs. cs @ [t]) (set_parent t (Some i) d))
      ((par d)(t := Some i)) ((kids d)(i := kids d i @ [t]))"
    using t by (simp add: relinked_def same_frame_def)
  have m: "moved d t = [t]" using leaf(3) by (simp add: moved_def)
  have "insertion_check i t d = Inr ()"
    using i t leaf_not_ancestor[OF inv leaf(2) _ ne] leaf(3) by (simp add: insertion_check_ok)
  moreover have "inserted_pars i [t] (par d) = (par d)(t := Some i)"
    by (auto simp: inserted_pars_def)
  ultimately show "tree_inv (upd_children i (\<lambda>cs. cs @ [t]) (set_parent t (Some i) d))"
    using rel inserted_inv[OF inv, of i t _ None] inserted_single_orphan[OF inv leaf(1), of i None] m
    by simp
qed

text \<open>Changing a kind without changing its shape.\<close>

lemma set_kind_tree_inv:
  assumes inv: "tree_inv d"
    and shape: "container_kind k = container_kind (knd d i)"
      "is_element_kind k = is_element_kind (knd d i)"
      "(k = DocumentFragment) = (knd d i = DocumentFragment)"
      "(k = Document) = (knd d i = Document)"
  shows "tree_inv (set_kind i k d)"
proof -
  let ?e = "set_kind i k d"
  have same: "container_kind (knd ?e j) = container_kind (knd d j)"
      "is_element_kind (knd ?e j) = is_element_kind (knd d j)"
      "knd ?e j = DocumentFragment \<longleftrightarrow> knd d j = DocumentFragment"
      "knd ?e j = Document \<longleftrightarrow> knd d j = Document" for j
    using shape by auto
  have "up_rel ?e = up_rel d" by (rule up_cong) simp_all
  moreover have "kinds_ok ?e" using inv unfolding tree_inv_def kinds_ok_def same by simp
  moreover have "hosts_ok ?e" using inv unfolding tree_inv_def hosts_ok_def same by simp
  ultimately show ?thesis using inv by (simp add: tree_inv_def)
qed

lemma create_text_view:
  assumes inv: "tree_inv d"
  shows "tree_inv (snd (create_text s d))" "fst (create_text s d) = length (nodes d)"
    "par (snd (create_text s d)) = par d" "kids (snd (create_text s d)) = kids d"
    "knd (snd (create_text s d)) = (knd d)(length (nodes d) := Text s)"
    "length (nodes (snd (create_text s d))) = Suc (length (nodes d))"
  using push_node_tree_inv[OF inv] by (simp_all add: create_text_def)

lemma set_text_content_tree_inv:
  assumes inv: "tree_inv d" shows "tree_inv (snd (set_text_content i s d))"
proof (cases "i < length (nodes d)")
  case False
  then show ?thesis using inv by (simp add: set_text_content_def node_index_def sm_bind_def)
next
  case True
  define e where "e = orphan_all (kids d i) (upd_children i (\<lambda>_. []) d)"
  have rel: "relinked d e (\<lambda>x. if x \<in> set (kids d i) then None else par d x) ((kids d)(i := []))"
    unfolding e_def by (rule emptied_links[OF inv True])
  have e: "tree_inv e" by (rule emptied_tree_inv[OF inv rel])
  have len: "length (nodes e) = length (nodes d)" "knd e = knd d"
    using rel by (simp_all add: relinked_def same_frame_def)
  show ?thesis
  proof (cases "container_kind (knd d i)")
    case False
    then show ?thesis
      using True inv set_kind_tree_inv[OF inv, of "Text s" i]
      by (cases "knd d i")
        (auto simp: set_text_content_def node_index_def nth_links Let_def)
  next
    case cont: True
    let ?t = "length (nodes d)" and ?f = "snd (create_text s e)"
    note v = create_text_view[OF e, of s]
    have "tree_inv (upd_children i (\<lambda>cs. cs @ [?t]) (set_parent ?t (Some i) ?f))"
      using fresh_unlinked[OF e, of ?t] len True cont v
      by (intro fresh_child_tree_inv(2)[OF v(1)]) simp_all
    then show ?thesis
      using e True cont v(2) len unfolding e_def
      by (cases "knd d i")
        (auto simp: set_text_content_def node_index_def nth_links Let_def case_prod_beta)
  qed
qed

lemma append_text_tree_inv:
  assumes inv: "tree_inv d" shows "tree_inv (snd (append_text p s d))"
proof -
  have longer: "tree_inv (set_kind l (Text (old @ s)) d)" if "knd d l = Text old" for l old
    using that by (intro set_kind_tree_inv[OF inv]) simp_all
  have fresh: "tree_inv (snd (sm_then (append_child p t) (\<lambda>d. (Inr t, mark_dirty t (mark_dirty p d))) e))"
    if "tree_inv e" for t e
    by (rule sm_then_inv[where P = tree_inv]) (simp_all add: that append_child_tree_inv)
  show ?thesis
    using inv longer fresh create_text_view(1)[OF inv, of s]
    by (auto simp: append_text_def last_child_def node_index_def sm_bind_def nth_links Let_def
        res_bind_def sm_lift_def case_prod_beta split: option.splits sum.splits node_kind.splits prod.splits)
qed

section \<open>Attributes and form state\<close>

lemma intern_all_same_tree: "same_tree d (snd (map_st dom_intern vs d))"
proof (induction vs arbitrary: d)
  case (Cons v vs)
  have "same_tree d (snd (dom_intern v d))" by simp
  also have "same_tree \<dots> (snd (map_st dom_intern vs (snd (dom_intern v d))))" by (rule Cons.IH)
  finally show ?case by (simp add: case_prod_beta Let_def)
qed simp

lemma attribute_atoms_same_tree: "same_tree d (snd (attribute_atoms a v d))"
  by (auto simp: attribute_atoms_def Let_def case_prod_beta intro: intern_all_same_tree)

lemma put_checked_same_tree [simp]: "same_tree d (put_checked i c t e) = same_tree d e"
  by (simp add: put_checked_def)

lemma clear_group_same_tree: "same_tree d (snd (clear_group i g c d))"
proof (induction g arbitrary: c d)
  case (Cons x g)
  let ?e = "put_checked x False (state_dirty d x) d"
  have "same_tree d ?e" by simp
  also have "same_tree ?e (snd (clear_group i g (c \<or> input_checked d x) ?e))" by (rule Cons.IH)
  finally show ?case using Cons.IH by simp
qed simp

lemma set_input_checked_same_tree: "same_tree d (snd (set_input_checked i c d))"
proof -
  have "same_tree d (snd (clear_group i g b (put_checked i c' True d)))" for g b c'
    using clear_group_same_tree[of "put_checked i c' True d" i g b]
    by (rule same_tree_trans[rotated]) simp
  then show ?thesis
    by (simp add: set_input_checked_def Let_def case_prod_beta split: option.split)
qed

lemma checked_attribute_changed_same_tree: "same_tree d (snd (checked_attribute_changed i c d))"
  using set_input_checked_same_tree[of d i c]
  by (auto simp: checked_attribute_changed_def case_prod_beta
      split: prod.split sum.split dom_fault.split option.split)

lemma tree_inv_same [simp]:
  "tree_inv (snd (set_input_checked i c d)) = tree_inv d"
  "tree_inv (snd (checked_attribute_changed i c d)) = tree_inv d"
  "tree_inv (snd (attribute_atoms a v d)) = tree_inv d"
  by (rule same_tree_inv_iff, rule set_input_checked_same_tree)
    (rule same_tree_inv_iff, rule checked_attribute_changed_same_tree,
     rule same_tree_inv_iff, rule attribute_atoms_same_tree)

lemma element_kind_tree_inv:
  "tree_inv d \<Longrightarrow> knd d i = Element t pfx ns attrs \<Longrightarrow> tree_inv (set_kind i (Element t pfx ns attrs') d)"
  by (rule set_kind_tree_inv) simp_all

lemma set_attribute_tree_inv:
  assumes inv: "tree_inv d" shows "tree_inv (snd (set_attribute i name v d))"
proof -
  let ?a = "attr_from_str_in name (element_namespace d i)"
  obtain r e where e: "attribute_atoms ?a v d = (r, e)" by fastforce
  have einv: "tree_inv e" using inv e tree_inv_same(3)[of ?a v d] by simp
  have keep: "tree_inv (snd (sm_then (checked_attribute_changed i c) (sm_do (queue_mutation i k)) f))"
    if "tree_inv f" for c k f
    by (rule sm_then_inv[where P = tree_inv]) (simp_all add: that)
  show ?thesis
    using einv element_kind_tree_inv[OF einv]
    by (auto simp: set_attribute_def e Let_def node_index_def nth_links case_prod_beta
        split: node_kind.split intro!: keep)
qed

lemma remove_attribute_tree_inv:
  assumes inv: "tree_inv d" shows "tree_inv (snd (remove_attribute i name d))"
proof -
  have keep: "tree_inv (snd (sm_then (checked_attribute_changed i c)
      (sm_then (sm_do (queue_mutation i k)) (sm_return True)) f))" if "tree_inv f" for c k f
    by (rule sm_then_inv[where P = tree_inv], rule that, simp,
        rule sm_then_inv[where P = tree_inv]) simp_all
  show ?thesis
    using inv element_kind_tree_inv[OF inv]
    by (auto simp: remove_attribute_def Let_def node_index_def nth_links
        split: node_kind.split option.split intro!: keep)
qed

lemma sm_lift_tree_inv: "tree_inv (snd (g d)) \<Longrightarrow> tree_inv (snd (sm_lift g d))"
  by (simp add: sm_lift_def case_prod_beta)

lemma import_node_tree_inv: "tree_inv d \<Longrightarrow> tree_inv (snd (import_node src s d))"
proof -
  assume inv: "tree_inv d"
  have attrs: "tree_inv (snd (sm_then (sm_each (\<lambda>(a, v). set_attribute el a v) ps) (sm_return el) e))"
    if "tree_inv e" for el ps e
    by (rule sm_then_inv[where P = tree_inv])
      (auto simp: that intro!: sm_each_inv[where P = tree_inv] set_attribute_tree_inv)
  show ?thesis
    unfolding import_node_def
    by (rule sm_bind_inv[where P = tree_inv])
      (auto simp: inv create_document_fragment_def create_doctype_def create_text_def
        create_comment_def push_node_tree_inv Let_def
        intro!: sm_lift_tree_inv sm_bind_inv[where P = tree_inv] attrs
          create_element_ns_local_tree_inv
        split: node_kind.split)
qed

lemma import_subtree_tree_inv: "tree_inv d \<Longrightarrow> tree_inv (snd (import_subtree n src s dest d))"
proof (induction n arbitrary: s dest d)
  case (Suc n)
  have each: "tree_inv (snd (sm_each (\<lambda>c. import_subtree n src c p) cs e))" if "tree_inv e" for cs p e
    by (rule sm_each_inv[where P = tree_inv]) (use that Suc.IH in auto)
  show ?case
    unfolding import_subtree.simps
    by (rule sm_bind_inv[where P = tree_inv])
      (auto simp: Suc.prems import_node_tree_inv append_child_tree_inv
        intro!: sm_bind_inv[where P = tree_inv] sm_then_inv[where P = tree_inv] each
        split: option.split)
qed simp

end
