(* ===== verification/Dom_Walks.thy ===== *)
theory Dom_Walks
  imports Dom_Steps
begin

text \<open>
  The link-following loops of \<open>forms.rs\<close> return on every well-formed tree: \<open>tree_root\<close> finds the
  root, \<open>dfs_loop\<close> lists the subtree under it once each, \<open>form_ancestor\<close> finds the nearest form.
  With \<open>ancestor_loop_decides\<close> this makes every operation of the arena total.
\<close>

definition par_rel :: "dom \<Rightarrow> (node_id \<times> node_id) set" where
  "par_rel d = {(c, p). par d c = Some p}"

lemma par_rel_up: "par_rel d \<subseteq> up_rel d"
  by (auto simp: par_rel_def up_rel_def up_def)

lemma wf_par_rel: "tree_inv d \<Longrightarrow> wf ((par_rel d)\<inverse>)"
  using wf_up wf_subset par_rel_up by (metis converse_mono)

lemma finite_par_rel: "tree_inv d \<Longrightarrow> finite (par_rel d)"
proof (rule finite_subset)
  assume inv: "tree_inv d"
  show "par_rel d \<subseteq> {..<length (nodes d)} \<times> {..<length (nodes d)}"
    using par_rel_up up_range[OF inv] by (fastforce simp: par_rel_def up_def up_rel_def)
qed simp

lemma acyclic_par_rel: "tree_inv d \<Longrightarrow> acyclic (par_rel d)"
  by (metis acyclic_subset par_rel_up tree_inv_def)

lemma wf_children: "tree_inv d \<Longrightarrow> wf (par_rel d)"
  using finite_acyclic_wf finite_par_rel acyclic_par_rel by blast

lemma single_valued_par: "single_valued (par_rel d)"
  by (auto simp: single_valued_def par_rel_def)

lemma parent_par:
  "parent d i = (if i < length (nodes d) then Inr (par d i) else Inl (Error (UnknownNode i)))"
  by (simp add: parent_def node_index_def par_def)

lemma children_kids:
  "children d i = (if i < length (nodes d) then Inr (kids d i) else Inl (Error (UnknownNode i)))"
  by (simp add: children_def node_index_def kids_def)

lemma par_None_out: "\<not> i < length (nodes d) \<Longrightarrow> par d i = None"
  by (simp add: par_def)

section \<open>The root\<close>

lemma tree_root_step:
  "tree_root d i = (case par d i of None \<Rightarrow> Some i | Some p \<Rightarrow> tree_root d p)"
  by (subst tree_root.simps) (auto simp: parent_par par_None_out split: option.split)

lemma tree_root_returns:
  assumes inv: "tree_inv d"
  shows "\<exists>r. tree_root d i = Some r \<and> (i, r) \<in> (par_rel d)\<^sup>* \<and> par d r = None"
proof (induction i rule: wf_induct_rule[OF wf_par_rel[OF inv]])
  case (1 i)
  show ?case
  proof (cases "par d i")
    case None
    then show ?thesis by (simp add: tree_root_step[of d i])
  next
    case (Some p)
    then have "(i, p) \<in> par_rel d" by (simp add: par_rel_def)
    then show ?thesis using 1[of p] Some tree_root_step[of d i]
      by (auto intro: converse_rtrancl_into_rtrancl)
  qed
qed

section \<open>Tree order\<close>

definition subtree :: "dom \<Rightarrow> node_id \<Rightarrow> node_id set" where
  "subtree d i = {m. (m, i) \<in> (par_rel d)\<^sup>*}"

lemma subtree_unfold:
  assumes inv: "tree_inv d"
  shows "subtree d i = insert i (\<Union>c \<in> set (kids d i). subtree d c)"
proof
  show "subtree d i \<subseteq> insert i (\<Union>c \<in> set (kids d i). subtree d c)"
  proof
    fix m assume "m \<in> subtree d i"
    then have "(m, i) \<in> (par_rel d)\<^sup>*" by (simp add: subtree_def)
    then show "m \<in> insert i (\<Union>c \<in> set (kids d i). subtree d c)"
      by (cases rule: rtranclE) (auto simp: subtree_def par_rel_def tree_inv_links[OF inv])
  qed
  show "insert i (\<Union>c \<in> set (kids d i). subtree d c) \<subseteq> subtree d i"
    by (auto simp: subtree_def par_rel_def tree_inv_links[OF inv] intro: rtrancl_into_rtrancl)
qed

lemma sibling_subtrees_disjoint:
  assumes inv: "tree_inv d" and k: "a \<in> set (kids d i)" "b \<in> set (kids d i)" "a \<noteq> b"
  shows "subtree d a \<inter> subtree d b = {}"
proof (rule ccontr)
  have no: False if ab: "(a, b) \<in> (par_rel d)\<^sup>*" and k: "a \<in> set (kids d i)" "b \<in> set (kids d i)"
      and ne: "a \<noteq> b" for a b
  proof -
    have pa: "par d a = Some i" "par d b = Some i" using k tree_inv_links[OF inv] by auto
    obtain y where "(a, y) \<in> par_rel d" "(y, b) \<in> (par_rel d)\<^sup>*"
      using ab ne by (meson converse_rtranclE)
    then have "(i, b) \<in> (par_rel d)\<^sup>*" using pa(1) by (simp add: par_rel_def)
    then have "(i, i) \<in> (par_rel d)\<^sup>+"
      using pa(2) by (auto simp: par_rel_def intro: rtrancl_into_trancl1)
    then show False using acyclic_par_rel[OF inv] by (simp add: acyclic_def)
  qed
  assume "subtree d a \<inter> subtree d b \<noteq> {}"
  then obtain m where "(m, a) \<in> (par_rel d)\<^sup>*" "(m, b) \<in> (par_rel d)\<^sup>*"
    by (auto simp: subtree_def)
  then have "(a, b) \<in> (par_rel d)\<^sup>* \<or> (b, a) \<in> (par_rel d)\<^sup>*"
    using single_valued_confluent[OF single_valued_par] by blast
  then show False using no k by metis
qed

text \<open>What the loop does with the nodes on top of its stack.\<close>

definition visits :: "dom \<Rightarrow> node_id list \<Rightarrow> node_id list \<Rightarrow> bool" where
  "visits d is ns \<longleftrightarrow> (\<forall>rest acc. dfs_loop d (is @ rest) acc = dfs_loop d rest (acc @ ns))"

lemma visits_Nil: "visits d [] []"
  by (simp add: visits_def)

lemma visits_append: "visits d is ms \<Longrightarrow> visits d js ns \<Longrightarrow> visits d (is @ js) (ms @ ns)"
  by (simp add: visits_def)

lemma visits_node:
  assumes "visits d (kids d i) ns" shows "visits d [i] (i # ns)"
proof -
  have "kids d i = []" if "\<not> i < length (nodes d)" using that by (simp add: kids_def)
  then have "dfs_loop d (i # rest) acc = dfs_loop d (kids d i @ rest) (acc @ [i])" for rest acc
    by (subst dfs_loop.simps) (auto simp: children_kids)
  then show ?thesis using assms by (simp add: visits_def)
qed

lemma dfs_loop_visits: "visits d [i] ns \<Longrightarrow> dfs_loop d [i] [] = Some ns"
  using dfs_loop.simps[of d "[]" ns] by (simp add: visits_def)

lemma subtree_visited:
  assumes inv: "tree_inv d"
  shows "\<exists>ns. visits d [i] ns \<and> set ns = subtree d i \<and> distinct ns"
proof (induction i rule: wf_induct_rule[OF wf_children[OF inv]])
  case (1 i)
  have child: "\<exists>ns. visits d [c] ns \<and> set ns = subtree d c \<and> distinct ns" if "c \<in> set (kids d i)" for c
    using 1[of c] that tree_inv_links[OF inv] by (auto simp: par_rel_def)
  have "\<exists>ns. visits d cs ns \<and> set ns = (\<Union>c \<in> set cs. subtree d c) \<and> distinct ns"
    if "distinct cs" "set cs \<subseteq> set (kids d i)" for cs
    using that
  proof (induction cs)
    case Nil
    then show ?case using visits_Nil by (intro exI[of _ "[]"]) simp
  next
    case (Cons c cs)
    obtain ns where ns: "visits d cs ns" "set ns = (\<Union>c \<in> set cs. subtree d c)" "distinct ns"
      using Cons by auto
    obtain ms where ms: "visits d [c] ms" "set ms = subtree d c" "distinct ms"
      using child[of c] Cons.prems by auto
    have "subtree d c \<inter> subtree d x = {}" if "x \<in> set cs" for x
      using that Cons.prems by (intro sibling_subtrees_disjoint[OF inv, of _ i]) auto
    then have "set ms \<inter> set ns = {}" using ms(2) ns(2) by blast
    then show ?case
      using visits_append[OF ms(1) ns(1)] ms ns by (intro exI[of _ "ms @ ns"]) auto
  qed
  from this[OF tree_inv_distinct[OF inv] order_refl]
  obtain ns where ns: "visits d (kids d i) ns"
      "set ns = (\<Union>c \<in> set (kids d i). subtree d c)" "distinct ns"
    by blast
  have "i \<notin> set ns"
  proof
    assume "i \<in> set ns"
    then obtain c where "(i, c) \<in> (par_rel d)\<^sup>*" "(c, i) \<in> par_rel d"
      using ns(2) tree_inv_links[OF inv] by (auto simp: subtree_def par_rel_def)
    then have "(i, i) \<in> (par_rel d)\<^sup>+" by (rule rtrancl_into_trancl1)
    then show False using acyclic_par_rel[OF inv] by (simp add: acyclic_def)
  qed
  then show ?case
    using visits_node[OF ns(1)] ns subtree_unfold[OF inv, of i] by (intro exI[of _ "i # ns"]) auto
qed

text \<open>The nodes of the tree a node is in, each once.\<close>

lemma tree_nodes_returns:
  assumes inv: "tree_inv d"
  shows "\<exists>ns r. tree_nodes d i = Some ns \<and> tree_root d i = Some r \<and> set ns = subtree d r
    \<and> distinct ns \<and> i \<in> set ns"
proof -
  obtain r where r: "tree_root d i = Some r" "(i, r) \<in> (par_rel d)\<^sup>*"
    using tree_root_returns[OF inv] by blast
  obtain ns where ns: "visits d [r] ns" "set ns = subtree d r" "distinct ns"
    using subtree_visited[OF inv] by blast
  have "tree_nodes d i = Some ns" using dfs_loop_visits[OF ns(1)] r(1) by (simp add: tree_nodes_def)
  moreover have "i \<in> set ns" using r(2) ns(2) by (simp add: subtree_def)
  ultimately show ?thesis using r(1) ns by blast
qed

section \<open>Form owners and radio groups\<close>

lemma form_ancestor_returns:
  assumes inv: "tree_inv d" shows "\<exists>f. form_ancestor d a = Some f"
proof (cases a)
  case None
  then show ?thesis by (simp add: form_ancestor.simps[of d None])
next
  case (Some i)
  have "\<exists>f. form_ancestor d (Some i) = Some f"
  proof (induction i rule: wf_induct_rule[OF wf_par_rel[OF inv]])
    case (1 i)
    show ?case
    proof (cases "tag d i = ''form'' \<or> par d i = None")
      case True
      then show ?thesis
        by (auto simp: form_ancestor.simps[of d "Some i"] form_ancestor.simps[of d None] parent_par)
    next
      case False
      then obtain p where p: "par d i = Some p" by auto
      then have "(p, i) \<in> (par_rel d)\<inverse>" by (simp add: par_rel_def)
      then show ?thesis using 1[of p] p False par_range[OF p]
        by (auto simp: form_ancestor.simps[of d "Some i"] parent_par)
    qed
  qed
  then show ?thesis by (simp add: Some)
qed

lemma form_owner_in_returns: "tree_inv d \<Longrightarrow> \<exists>f. form_owner_in d i m = Some f"
  using form_ancestor_returns by (simp add: form_owner_in_def split: option.split)

lemma filter_opt_total:
  "(\<And>x. x \<in> set xs \<Longrightarrow> f x \<noteq> None) \<Longrightarrow> filter_opt f xs = Some (filter (\<lambda>x. f x = Some True) xs)"
proof (induction xs)
  case (Cons x xs)
  have "f x \<noteq> None" using Cons.prems by simp
  then obtain b where "f x = Some b" by auto
  then show ?case using Cons by simp
qed simp

lemma owner_filter_total:
  assumes "tree_inv d"
  shows "\<exists>g. filter_opt (\<lambda>c. if P c then map_option Q (form_owner_in d c m) else Some False) ns
    = Some g"
proof -
  let ?f = "\<lambda>c. if P c then map_option Q (form_owner_in d c m) else Some False"
  have "?f c \<noteq> None" for c
    using form_owner_in_returns[OF assms, of c m] by auto
  then have "filter_opt ?f ns = Some (filter (\<lambda>x. ?f x = Some True) ns)"
    by (rule filter_opt_total)
  then show ?thesis by (rule exI)
qed

lemma radio_group_returns:
  assumes inv: "tree_inv d" shows "\<exists>g. radio_group d i = Some g"
proof -
  obtain ns where ns: "tree_nodes d i = Some ns" using tree_nodes_returns[OF inv] by blast
  obtain ow where ow: "form_owner_in d i (first_ids d ns) = Some ow"
    using form_owner_in_returns[OF inv] by blast
  show ?thesis
    using owner_filter_total[OF inv]
    by (auto simp: radio_group_def ns ow Let_def split: option.split)
qed

lemma put_checked_tree_inv [simp]: "tree_inv (put_checked i c t d) = tree_inv d"
  by (rule same_tree_inv_iff) simp

lemma set_input_checked_total:
  assumes inv: "tree_inv d" shows "fst (set_input_checked i c d) \<noteq> Inl Diverges"
proof -
  obtain g where "radio_group (put_checked i c True d) i = Some g"
    using radio_group_returns[of "put_checked i c True d"] inv by auto
  then show ?thesis by (cases c) (simp_all add: set_input_checked_def Let_def case_prod_beta)
qed

lemma checked_attribute_changed_total:
  assumes inv: "tree_inv d" shows "fst (checked_attribute_changed i c d) = Inr ()"
  using set_input_checked_total[OF inv, of i c]
  by (auto simp: checked_attribute_changed_def split: prod.split sum.split dom_fault.split)

lemma form_controls_returns:
  assumes inv: "tree_inv d" shows "\<exists>cs. form_controls d i = Some cs"
proof -
  obtain ns where ns: "tree_nodes d i = Some ns" using tree_nodes_returns[OF inv] by blast
  show ?thesis using owner_filter_total[OF inv] by (simp add: form_controls_def ns)
qed

lemma form_owner_returns:
  assumes inv: "tree_inv d" shows "\<exists>f. form_owner d i = Some f"
proof -
  obtain ns where ns: "tree_nodes d i = Some ns" using tree_nodes_returns[OF inv] by blast
  then show ?thesis using form_owner_in_returns[OF inv] by (simp add: form_owner_def)
qed

end
