(* ===== verification/Dom_Model.thy ===== *)
theory Dom_Model
  imports Dom_Walks
begin

text \<open>
  The arena as a state machine: \<open>dom_step\<close> is one call of a public operation, \<open>dom_reachable\<close> the
  states the calls reach from \<open>Dom::new\<close>. The properties here hold in every reachable state: the
  tree is well formed, no call diverges, and a rejected call leaves the arena as it was.
\<close>

section \<open>Operations that keep the invariant and return\<close>

definition safe_op :: "'a dom_op \<Rightarrow> bool" where
  "safe_op m \<longleftrightarrow>
     (\<forall>d. tree_inv d \<longrightarrow> tree_inv (snd (m d)) \<and> fst (m d) \<noteq> Inl Diverges)"

named_theorems safe

lemma safe_opI:
  "(\<And>d. tree_inv d \<Longrightarrow> tree_inv (snd (m d))) \<Longrightarrow>
   (\<And>d. tree_inv d \<Longrightarrow> fst (m d) \<noteq> Inl Diverges) \<Longrightarrow> safe_op m"
  by (simp add: safe_op_def)

lemma safe_opD: "safe_op m \<Longrightarrow> tree_inv d \<Longrightarrow> tree_inv (snd (m d)) \<and> fst (m d) \<noteq> Inl Diverges"
  by (simp add: safe_op_def)

lemma safe_return [safe]: "safe_op (sm_return a)"
  by (simp add: safe_op_def)

lemma safe_fail [safe]: "safe_op (sm_fail (Error e))"
  by (simp add: safe_op_def)

lemma safe_do [safe]: "(\<And>d. tree_inv d \<Longrightarrow> tree_inv (g d)) \<Longrightarrow> safe_op (sm_do g)"
  by (simp add: safe_op_def)

lemma safe_lift [safe]: "(\<And>d. tree_inv d \<Longrightarrow> tree_inv (snd (g d))) \<Longrightarrow> safe_op (sm_lift g)"
  by (simp add: safe_op_def sm_lift_def case_prod_beta)

lemma safe_read [safe]: "(\<And>d. tree_inv d \<Longrightarrow> f d \<noteq> Inl Diverges) \<Longrightarrow> safe_op (sm_read f)"
  by (simp add: safe_op_def)

lemma safe_bind [safe]:
  assumes "safe_op m" and "\<And>a. safe_op (f a)" shows "safe_op (sm_bind m f)"
proof -
  have "tree_inv (snd (sm_bind m f d)) \<and> fst (sm_bind m f d) \<noteq> Inl Diverges" if "tree_inv d" for d
  proof (cases "m d")
    case (Pair r e)
    have "tree_inv e" "r \<noteq> Inl Diverges" using safe_opD[OF assms(1) that] Pair by simp_all
    then show ?thesis using safe_opD[OF assms(2)] Pair by (cases r) (simp_all add: sm_bind_def)
  qed
  then show ?thesis by (simp add: safe_op_def)
qed

lemma safe_then [safe]: "safe_op m \<Longrightarrow> safe_op k \<Longrightarrow> safe_op (sm_then m k)"
  unfolding sm_then_def by (rule safe_bind)

lemma safe_each [safe]: "(\<And>x. x \<in> set xs \<Longrightarrow> safe_op (f x)) \<Longrightarrow> safe_op (sm_each f xs)"
  by (induction xs) (auto intro: safe)

lemma node_index_not_diverges [simp]: "node_index d i \<noteq> Inl Diverges"
  by (simp add: node_index_def)

lemma accessors_not_diverge [simp]:
  "node_at d i \<noteq> Inl Diverges" "children d i \<noteq> Inl Diverges" "parent d i \<noteq> Inl Diverges"
  "last_child d i \<noteq> Inl Diverges"
  by (simp_all add: node_at_def children_def parent_def last_child_def node_index_def)

lemma safe_append_child [safe]: "safe_op (append_child p c)"
proof (rule safe_opI)
  fix d assume inv: "tree_inv d"
  then show "tree_inv (snd (append_child p c d))" by (rule append_child_tree_inv)
  from inv show "fst (append_child p c d) \<noteq> Inl Diverges"
    by (cases rule: append_child_cases[where p = p and c = c]) simp_all
qed

lemma insert_outcome_not_diverges [simp]: "insert_outcome p c ref d \<noteq> Inl Diverges"
  by (simp add: insert_outcome_def insertion_check_def split: option.split)

lemma safe_pre_insert [safe]: "safe_op (pre_insert p c ref)"
proof (rule safe_opI)
  fix d assume inv: "tree_inv d"
  then show "tree_inv (snd (pre_insert p c ref d))" by (rule pre_insert_tree_inv)
  from inv show "fst (pre_insert p c ref d) \<noteq> Inl Diverges"
    by (cases rule: pre_insert_cases[where p = p and c = c and ref = ref]) auto
qed

lemma safe_insert_before [safe]: "safe_op (insert_before p c r)"
  using safe_pre_insert[of p c "Some r"] by (simp add: pre_insert_def)

lemma safe_remove_child [safe]: "safe_op (remove_child p c)"
proof (rule safe_opI)
  fix d assume inv: "tree_inv d"
  then show "tree_inv (snd (remove_child p c d))" by (rule remove_child_tree_inv)
  show "fst (remove_child p c d) \<noteq> Inl Diverges"
    using remove_child_fails[OF inv, of c p] remove_child_runs[OF inv, of c p]
    by (cases "c \<in> set (kids d p)") fastforce+
qed

lemma safe_attach_shadow [safe]: "safe_op (attach_shadow h c)"
proof (rule safe_opI)
  fix d assume inv: "tree_inv d"
  then show "tree_inv (snd (attach_shadow h c d))" by (rule attach_shadow_tree_inv)
  show "fst (attach_shadow h c d) \<noteq> Inl Diverges" using attach_shadow_cases[OF inv, of h c] by auto
qed

lemma safe_append_text [safe]: "safe_op (append_text p s)"
proof (rule safe_opI)
  fix d assume inv: "tree_inv d"
  then show "tree_inv (snd (append_text p s d))" by (rule append_text_tree_inv)
  have tail: "fst (sm_then (append_child p t) (\<lambda>d. (Inr t, g d)) e) \<noteq> Inl Diverges"
    if "tree_inv e" for t g e
    using safe_opD[OF safe_append_child that, of p t]
    by (auto simp: sm_then_def sm_bind_def split: prod.splits sum.splits)
  show "fst (append_text p s d) \<noteq> Inl Diverges"
    using tail[OF create_text_view(1)[OF inv, of s]]
    by (auto simp: append_text_def last_child_def node_index_def sm_bind_def Let_def
        res_bind_def sm_lift_def case_prod_beta split: option.splits sum.splits node_kind.splits)
qed

lemma safe_set_text_content [safe]: "safe_op (set_text_content i s)"
proof (rule safe_opI)
  fix d assume "tree_inv d"
  then show "tree_inv (snd (set_text_content i s d))" by (rule set_text_content_tree_inv)
  show "fst (set_text_content i s d) \<noteq> Inl Diverges"
    by (auto simp: set_text_content_def sm_bind_def node_index_def Let_def case_prod_beta
        split: node_kind.splits)
qed

lemma safe_set_input_checked [safe]: "safe_op (set_input_checked i c)"
  by (rule safe_opI) (simp_all add: set_input_checked_total)

lemma safe_checked_attribute_changed [safe]: "safe_op (checked_attribute_changed i c)"
  by (rule safe_opI) (simp_all add: checked_attribute_changed_total)

lemma safe_checked_then:
  "tree_inv d \<Longrightarrow> fst (sm_then (checked_attribute_changed i c) (sm_do g) d) = Inr ()"
  "tree_inv d \<Longrightarrow> fst (sm_then (checked_attribute_changed i c) (sm_then (sm_do g) (sm_return b)) d) = Inr b"
  using checked_attribute_changed_total[of d i c]
  by (auto simp: sm_then_def sm_bind_def split: prod.split)

lemma safe_set_attribute [safe]: "safe_op (set_attribute i name v)"
proof (rule safe_opI)
  fix d assume inv: "tree_inv d"
  then show "tree_inv (snd (set_attribute i name v d))" by (rule set_attribute_tree_inv)
  let ?a = "attr_from_str_in name (element_namespace d i)"
  obtain r e where e: "attribute_atoms ?a v d = (r, e)" by fastforce
  have einv: "tree_inv e" using inv e tree_inv_same(3)[of ?a v d] by simp
  show "fst (set_attribute i name v d) \<noteq> Inl Diverges"
    using element_kind_tree_inv[OF einv]
    by (auto simp: set_attribute_def e Let_def node_index_def nth_links case_prod_beta
        safe_checked_then split: node_kind.split)
qed

lemma safe_remove_attribute [safe]: "safe_op (remove_attribute i name)"
proof (rule safe_opI)
  fix d assume inv: "tree_inv d"
  then show "tree_inv (snd (remove_attribute i name d))" by (rule remove_attribute_tree_inv)
  show "fst (remove_attribute i name d) \<noteq> Inl Diverges"
    using element_kind_tree_inv[OF inv]
    by (auto simp: remove_attribute_def Let_def node_index_def nth_links safe_checked_then
        split: node_kind.split option.split)
qed

section \<open>Steps\<close>

inductive dom_step :: "dom \<Rightarrow> dom \<Rightarrow> bool" where
  "dom_step d (snd (create_document d))"
| "dom_step d (snd (create_element name d))"
| "dom_step d (snd (create_element_ns name ns d))"
| "dom_step d (snd (create_element_ns_local name pfx ns d))"
| "dom_step d (snd (create_document_fragment d))"
| "dom_step d (snd (create_text s d))"
| "dom_step d (snd (create_comment s d))"
| "dom_step d (snd (create_doctype name public_id system_id d))"
| "dom_step d (snd (attach_shadow host closed d))"
| "dom_step d (snd (pre_insert p c ref d))"
| "dom_step d (snd (append_child p c d))"
| "dom_step d (snd (insert_before p c r d))"
| "dom_step d (snd (remove_child p c d))"
| "dom_step d (snd (append_text p s d))"
| "dom_step d (snd (set_text_content i s d))"
| "dom_step d (snd (set_attribute i name v d))"
| "dom_step d (snd (remove_attribute i name d))"
| "dom_step d (snd (set_input_checked i checked d))"
| "dom_step d (copy_input_state i j d)"
| "dom_step d (snd (import_subtree n src i p d))"
| "dom_step d (begin_mutation_batch d)"
| "dom_step d (end_mutation_batch d)"
| "dom_step d (materialize_resolve_table d)"
| "dom_step d (snd (take_dirty_nodes d))"
| "dom_step d (set_mutation_recording on d)"
| "dom_step d (snd (take_mutation_records d))"
| "dom_step d (snd (dom_intern v d))"

inductive dom_reachable :: "u32 \<Rightarrow> dom \<Rightarrow> bool" for inst where
  reach_new: "dom_reachable inst (dom_new inst)"
| reach_step: "dom_reachable inst d \<Longrightarrow> dom_step d d' \<Longrightarrow> dom_reachable inst d'"

lemma tree_inv_new [simp]: "tree_inv (dom_new inst)"
  by (simp add: tree_inv_def links_ok_def kinds_ok_def hosts_ok_def up_rel_def up_def
      par_def kids_def dom_new_def Let_def acyclic_def)

lemma copy_input_state_tree_inv [simp]: "tree_inv (copy_input_state i j d) = tree_inv d"
  by (simp add: copy_input_state_def split: option.split)

lemma dom_step_tree_inv: "dom_step d d' \<Longrightarrow> tree_inv d \<Longrightarrow> tree_inv d'"
  by (induction rule: dom_step.induct)
    (simp_all add: safe_opD[OF safe_append_child] safe_opD[OF safe_pre_insert]
      safe_opD[OF safe_insert_before] safe_opD[OF safe_remove_child] safe_opD[OF safe_attach_shadow]
      safe_opD[OF safe_append_text] safe_opD[OF safe_set_text_content]
      safe_opD[OF safe_set_attribute] safe_opD[OF safe_remove_attribute]
      create_document_tree_inv create_element_tree_inv create_element_ns_tree_inv
      create_element_ns_local_tree_inv create_document_fragment_def create_text_def
      create_comment_def create_doctype_def push_node_tree_inv import_subtree_tree_inv)

lemma dom_reachable_inv: "dom_reachable inst d \<Longrightarrow> tree_inv d"
  by (induction rule: dom_reachable.induct) (auto intro: dom_step_tree_inv)

section \<open>Properties\<close>

text \<open>C1: Whatever calls a script or the parser makes, in whatever order and with whatever
  arguments, the arena stays a well-formed tree: parent and child links agree, no list has
  duplicates, only containers have children, fragments are never linked, template contents and
  shadow roots point back to their hosts, and no node is its own ancestor, hosts included.\<close>

theorem reachable_tree_inv:
  assumes "dom_reachable inst d" shows "tree_inv d"
  using assms by (rule dom_reachable_inv)

text \<open>A small document for the witnesses: a document with an element that has two children.\<close>

definition example_dom :: dom where
  "example_dom =
     snd (append_child 1 3 (snd (append_child 1 2 (snd (append_child 0 1
       (snd (create_text ''t'' (snd (create_element ''p'' (snd (create_element ''div''
         (snd (create_document (dom_new 7))))))))))))))"

lemma example_reachable: "dom_reachable 7 example_dom"
  unfolding example_dom_def by (intro reach_step[OF _ dom_step.intros(11)] reach_step[OF _ dom_step.intros(6)]
      reach_step[OF _ dom_step.intros(2)] reach_step[OF _ dom_step.intros(1)] reach_new)

lemma example_tree_inv: "tree_inv example_dom"
  unfolding example_dom_def
  by (simp add: append_child_tree_inv create_text_view create_element_tree_inv
      create_document_tree_inv)

text \<open>The definitions that evaluate an operation on a concrete arena.\<close>

lemmas dom_exec = create_document_def create_element_def create_element_ns_local_def
  create_text_def create_document_fragment_def push_node_def node_new_def dom_new_def Let_def
  local_tag_name_def tag_from_str_def tag_table_def to_ascii_lowercase_def lower_char_def
  ascii_upper_def append_child_def validate_insertion_def node_at_def node_index_def
  ancestor_loop.simps up_link_def parent_def shadow_host_def sm_then_def sm_bind_def sm_read_def
  sm_do_def set_parent_def upd_children_def upd_node_def mark_dirty_def
  record_structure_change_def commit_unbatched_generations_def commit_pending_generations_def
  queue_mutation_def mutation_log_default_def last_opt_def

lemma example_value:
  "nodes example_dom =
     [\<lparr>kind = Document, node_parent = None, node_children = [1]\<rparr>,
      \<lparr>kind = Element TagDiv None NsHtml [], node_parent = Some 0, node_children = [2, 3]\<rparr>,
      \<lparr>kind = Element TagP None NsHtml [], node_parent = Some 1, node_children = []\<rparr>,
      \<lparr>kind = Text ''t'', node_parent = Some 1, node_children = []\<rparr>]"
  "document_root example_dom = Some 0" "batch_depth example_dom = 0"
  "template_hosts example_dom = Map.empty" "shadow_hosts example_dom = Map.empty"
  "mutations example_dom = mutation_log_default" "interner example_dom = interner_new"
  "resolve_table example_dom = []" "checked_states example_dom = Map.empty"
  unfolding example_dom_def by (simp_all add: dom_exec)

theorem reachable_tree_inv_witness: "tree_inv example_dom"
  by (rule reachable_tree_inv[OF example_reachable])

end
