(* ===== verification/Dom_Results.thy ===== *)
theory Dom_Results
  imports Dom_Model
begin

text \<open>
  Results of the arena's operations: that they all return, what an error leaves behind, removal
  as the inverse of insertion, what \<open>set_text_content\<close> leaves, and siblings.
\<close>

section \<open>Importing returns\<close>

text \<open>The nodes below a node, through template contents and shadow roots too.\<close>

definition below :: "dom \<Rightarrow> node_id \<Rightarrow> node_id set" where
  "below d i = {m. (m, i) \<in> (up_rel d)\<^sup>+}"

lemma below_finite: "tree_inv d \<Longrightarrow> below d i \<subseteq> {..<length (nodes d)}"
proof
  fix m assume inv: "tree_inv d" and "m \<in> below d i"
  then have "(m, i) \<in> (up_rel d)\<^sup>+" by (simp add: below_def)
  then show "m \<in> {..<length (nodes d)}"
    by (cases rule: converse_tranclE) (auto simp: up_rel_def up_range(1)[OF inv])
qed

lemma below_less:
  assumes inv: "tree_inv d" and c: "(c, i) \<in> (up_rel d)\<^sup>+"
  shows "card (below d c) < card (below d i)"
proof (rule psubset_card_mono)
  show "finite (below d i)" using below_finite[OF inv] by (rule finite_subset) simp
  have "c \<notin> below d c" using inv by (auto simp: below_def tree_inv_def acyclic_def)
  moreover have "c \<in> below d i" using c by (simp add: below_def)
  moreover have "below d c \<subseteq> below d i" using c by (auto simp: below_def)
  ultimately show "below d c \<subset> below d i" by blast
qed

lemma below_card:
  assumes inv: "tree_inv d" shows "card (below d i) \<le> length (nodes d)"
proof -
  have "card (below d i) \<le> card {..<length (nodes d)}"
    by (rule card_mono) (use below_finite[OF inv] in simp_all)
  then show ?thesis by simp
qed

lemma kids_below:
  "tree_inv d \<Longrightarrow> c \<in> set (kids d i) \<Longrightarrow> (c, i) \<in> (up_rel d)\<^sup>+"
  using tree_inv_links[of d c i] by (auto simp: up_rel_def up_def intro: r_into_trancl)

lemma template_below:
  assumes inv: "tree_inv d" and t: "template_contents d i = Some f" and c: "c \<in> set (kids d f)"
  shows "(c, i) \<in> (up_rel d)\<^sup>+"
proof -
  have th: "template_hosts d f = Some i" using inv t by (auto simp: tree_inv_def hosts_ok_def)
  then have "par d f = None"
    using tree_inv_host_fragment(1)[OF inv] tree_inv_fragment[OF inv] by blast
  then have "(f, i) \<in> up_rel d" using th by (simp add: up_rel_def up_def)
  then show ?thesis using kids_below[OF inv c] by (rule trancl_into_trancl[rotated])
qed

lemma safe_import_node [safe]: "safe_op (import_node src s)"
proof -
  have read: "safe_op (sm_read (\<lambda>_. node_at src s))" by (rule safe_read) simp
  have attrs: "safe_op (sm_then (sm_each (\<lambda>(a, v). set_attribute el a v) ps) (sm_return el))" for el ps
    by (intro safe) (auto intro: safe)
  have new: "safe_op (sm_lift (create_element_ns_local n p ns))" for n p ns
    by (intro safe create_element_ns_local_tree_inv)
  show ?thesis
    unfolding import_node_def
    by (rule safe_bind[OF read])
      (auto simp: Let_def create_document_fragment_def create_doctype_def create_text_def
        create_comment_def push_node_tree_inv split: node_kind.split
        intro!: safe_bind attrs new safe_lift safe_fail)
qed

lemma safe_import_subtree:
  assumes src: "tree_inv src"
  shows "card (below src s) < n \<Longrightarrow> safe_op (import_subtree n src s dest)"
proof (induction n arbitrary: s dest)
  case (Suc n)
  have kid: "safe_op (import_subtree n src c p)" if "(c, s) \<in> (up_rel src)\<^sup>+" for c p
    using Suc.IH[of c p] Suc.prems below_less[OF src that] by simp
  have part: "safe_op (\<lambda>d. case (template_contents src s, template_contents d new) of
      (Some source, Some destination) \<Rightarrow>
        sm_bind (sm_read (\<lambda>_. children src source)) (\<lambda>cs.
          sm_each (\<lambda>c. import_subtree n src c destination) cs) d
    | _ \<Rightarrow> (Inr (), d))" for new
  proof -
    have go: "safe_op (sm_bind (sm_read (\<lambda>_. children src source))
        (\<lambda>cs. sm_each (\<lambda>c. import_subtree n src c destination) cs))"
      if t: "template_contents src s = Some source" for source destination
    proof -
      have "safe_op (sm_each (\<lambda>c. import_subtree n src c destination) (kids src source))"
        by (rule safe_each, rule kid) (rule template_below[OF src t])
      then show ?thesis by (auto simp: safe_op_def sm_bind_def children_kids)
    qed
    show ?thesis
      using safe_opD[OF go] by (auto simp: safe_op_def split: option.split)
  qed
  have kids: "safe_op (sm_bind (sm_read (\<lambda>_. children src s)) (\<lambda>cs.
      sm_then (sm_each (\<lambda>c. import_subtree n src c new) cs) (rest new)))"
    if "safe_op (rest new)" for new and rest :: "nat \<Rightarrow> nat dom_op"
  proof -
    have "safe_op (sm_then (sm_each (\<lambda>c. import_subtree n src c new) (kids src s)) (rest new))"
      using that by (intro safe kid kids_below[OF src])
    then show ?thesis by (auto simp: safe_op_def sm_bind_def children_kids)
  qed
  show ?case
    unfolding import_subtree.simps
    by (intro safe_bind safe_import_node kids safe_then part safe_append_child safe_return)
qed simp

lemma safe_fst: "safe_op m \<Longrightarrow> tree_inv d \<Longrightarrow> fst (m d) \<noteq> Inl Diverges"
  by (simp add: safe_op_def)

section \<open>Properties\<close>

text \<open>C31: Every call returns. In a reachable arena no operation is caught in one of the
  link-following loops of the source (the ancestor walk of an insertion, the climb to the root,
  the depth-first walk, the search for a form), and \<open>import_subtree\<close> from another reachable
  arena needs no more nested calls than that arena has nodes, plus one.\<close>

theorem operations_return:
  assumes "dom_reachable inst d" and "dom_reachable inst' src"
  shows "fst (pre_insert p c ref d) \<noteq> Inl Diverges \<and> fst (append_child p c d) \<noteq> Inl Diverges
    \<and> fst (insert_before p c r d) \<noteq> Inl Diverges \<and> fst (append_text p s d) \<noteq> Inl Diverges
    \<and> fst (set_attribute i name v d) \<noteq> Inl Diverges
    \<and> fst (remove_attribute i name d) \<noteq> Inl Diverges
    \<and> fst (set_input_checked i checked d) \<noteq> Inl Diverges
    \<and> form_controls d i \<noteq> None \<and> form_owner d i \<noteq> None
    \<and> fst (import_subtree (length (nodes src) + 1) src j p d) \<noteq> Inl Diverges"
proof -
  have inv: "tree_inv d" and sinv: "tree_inv src"
    using assms dom_reachable_inv by blast+
  have imp: "safe_op (import_subtree (length (nodes src) + 1) src j p)"
    by (rule safe_import_subtree[OF sinv]) (use below_card[OF sinv, of j] in simp)
  have "form_controls d i \<noteq> None" "form_owner d i \<noteq> None"
    using form_controls_returns[OF inv, of i] form_owner_returns[OF inv, of i] by auto
  then show ?thesis
    by (intro conjI safe_fst[OF _ inv] safe_pre_insert safe_append_child safe_insert_before
        safe_append_text safe_set_attribute safe_remove_attribute safe_set_input_checked imp)
qed

theorem operations_return_witness:
  "fst (pre_insert 2 1 None example_dom) \<noteq> Inl Diverges"
  using operations_return[OF example_reachable example_reachable] by blast

text \<open>C35: A rejected call changes nothing: when an insertion, a removal, \<open>attach_shadow\<close>,
  \<open>set_text_content\<close>, \<open>remove_attribute\<close> or \<open>set_input_checked\<close> returns an error in a reachable
  arena, the arena is exactly what it was, with its links, dirty lists, generations and mutation
  records.\<close>

theorem rejected_unchanged:
  assumes "dom_reachable inst d"
  shows "(fst (pre_insert p c ref d) = Inl e \<longrightarrow> snd (pre_insert p c ref d) = d)
    \<and> (fst (append_child p c d) = Inl e \<longrightarrow> snd (append_child p c d) = d)
    \<and> (fst (insert_before p c r d) = Inl e \<longrightarrow> snd (insert_before p c r d) = d)
    \<and> (fst (remove_child p c d) = Inl e \<longrightarrow> snd (remove_child p c d) = d)
    \<and> (fst (attach_shadow h closed d) = Inl f \<longrightarrow> snd (attach_shadow h closed d) = d)
    \<and> (fst (set_text_content i s d) = Inl e \<longrightarrow> snd (set_text_content i s d) = d)
    \<and> (fst (remove_attribute i name d) = Inl e \<longrightarrow> snd (remove_attribute i name d) = d)
    \<and> (fst (set_input_checked i checked d) = Inl e \<longrightarrow> snd (set_input_checked i checked d) = d)"
proof -
  have inv: "tree_inv d" using assms by (rule dom_reachable_inv)
  have pri: "fst (pre_insert p c ref d) = Inl e \<longrightarrow> snd (pre_insert p c ref d) = d" for ref
    using inv by (cases rule: pre_insert_cases[where p = p and c = c and ref = ref]) auto
  have app: "fst (append_child p c d) = Inl e \<longrightarrow> snd (append_child p c d) = d"
    using inv by (cases rule: append_child_cases[where p = p and c = c]) auto
  have rem: "fst (remove_child p c d) = Inl e \<longrightarrow> snd (remove_child p c d) = d"
    using remove_child_fails[OF inv, of c p] remove_child_runs[OF inv, of c p]
    by (cases "c \<in> set (kids d p)") fastforce+
  have shadow: "fst (attach_shadow h closed d) = Inl f \<longrightarrow> snd (attach_shadow h closed d) = d"
    using attach_shadow_cases[OF inv, of h closed] by auto
  have content: "fst (set_text_content i s d) = Inl e \<longrightarrow> snd (set_text_content i s d) = d"
    by (auto simp: set_text_content_def sm_bind_def node_index_def Let_def case_prod_beta
        split: node_kind.splits if_splits)
  have attr: "fst (remove_attribute i name d) = Inl e \<longrightarrow> snd (remove_attribute i name d) = d"
    using element_kind_tree_inv[OF inv]
    by (auto simp: remove_attribute_def Let_def node_index_def nth_links safe_checked_then
        split: node_kind.split option.split)
  have chk: "fst (set_input_checked i checked d) = Inl e \<longrightarrow> snd (set_input_checked i checked d) = d"
    using set_input_checked_total[OF inv, of i checked]
    by (auto simp: set_input_checked_def Let_def case_prod_beta split: option.splits if_splits)
  show ?thesis using pri[of ref] pri[of "Some r"] app rem shadow content attr chk
    by (simp add: insert_before_is_pre_insert)
qed

theorem rejected_unchanged_witness: "snd (pre_insert 2 1 None example_dom) = example_dom"
proof -
  have "fst (pre_insert 2 1 None example_dom) = Inl (Error (HierarchyRequest 1))"
    by (simp add: pre_insert_def dom_exec example_value)
  then show ?thesis using rejected_unchanged[OF example_reachable] by blast
qed

section \<open>Insertion and removal\<close>

lemma place_detached:
  assumes "c \<notin> set xs" shows "filter (\<lambda>i. i \<noteq> c) (place ref [c] xs) = xs"
proof -
  have "filter (\<lambda>i. i \<noteq> c) xs = xs" using assms by (auto simp: filter_id_conv)
  moreover have "filter (\<lambda>i. i \<noteq> c) (takeWhile Q xs) @ filter (\<lambda>i. i \<noteq> c) (dropWhile Q xs)
      = filter (\<lambda>i. i \<noteq> c) xs" for Q
    by (metis filter_append takeWhile_dropWhile_id)
  ultimately show ?thesis by (cases ref) simp_all
qed

text \<open>Removal undoes insertion: when a parentless node other than a fragment has been inserted,
  with or without a reference, removing it from its new parent succeeds and every parent and child
  link is what it was before.\<close>

theorem insert_remove:
  assumes reach: "dom_reachable inst d" and c: "par d c = None" "knd d c \<noteq> DocumentFragment"
    and ins: "pre_insert p c ref d = (Inr (), e)"
  shows "\<exists>f. remove_child p c e = (Inr (), f) \<and> kids f = kids d \<and> par f = par d"
proof -
  have inv: "tree_inv d" using reach by (rule dom_reachable_inv)
  have m: "moved d c = [c]" using c(2) by (simp add: moved_def)
  have ok: "insert_outcome p c ref d = Inr ()"
    using pre_insert_rejects[OF inv, of p c ref] ins by (cases "insert_outcome p c ref d") auto
  then have ref: "ref \<noteq> Some c"
    using c(1) by (auto simp: insert_outcome_def res_bind_ok)
  have rel: "relinked d e (inserted_pars p [c] (par d)) (inserted_kids p ref [c] (kids d))"
    using pre_insert_runs[OF inv ok ref] ins m by auto
  have einv: "tree_inv e"
    using pre_insert_tree_inv[OF inv, of p c ref] ins by simp
  have "par e c = Some p" using rel by (simp add: relinked_def inserted_pars_def)
  then have "c \<in> set (kids e p)" using tree_inv_links[OF einv] by blast
  then obtain f where f: "remove_child p c e = (Inr (), f)"
      "relinked e f ((par e)(c := None)) (detached c (kids e))"
    using remove_child_runs[OF einv] by blast
  have out: "c \<notin> set (kids d q)" for q using c(1) tree_inv_links[OF inv, of c q] by simp
  have "kids f = kids d"
  proof
    fix q
    have "filter (\<lambda>i. i \<noteq> c) (kids d q) = kids d q" using out by (auto simp: filter_id_conv)
    then show "kids f q = kids d q"
      using f(2) rel place_detached[OF out, of ref p] inserted_single_orphan[OF inv c(1)]
      by (simp add: relinked_def detached_def)
  qed
  moreover have "par f = par d"
    using f(2) rel c(1) by (auto simp: relinked_def inserted_pars_def fun_eq_iff)
  ultimately show ?thesis using f(1) by blast
qed

theorem insert_remove_witness:
  "\<exists>f. remove_child 1 4 (snd (pre_insert 1 4 (Some 3) (snd (create_text ''u'' example_dom)))) = (Inr (), f)
    \<and> kids f = kids (snd (create_text ''u'' example_dom))
    \<and> par f = par (snd (create_text ''u'' example_dom))"
  by (rule insert_remove[OF reach_step[OF example_reachable dom_step.intros(6)],
        where c = 4 and p = 1 and ref = "Some 3"])
    (simp_all add: par_def knd_def dom_exec pre_insert_def insert_before_def example_value)

theorem pre_insert_refines_witness:
  "fst (pre_insert 0 3 (Some 1) example_dom) = insert_outcome 0 3 (Some 1) example_dom
    \<and> kids (snd (pre_insert 0 3 (Some 1) example_dom)) =
        (if insert_outcome 0 3 (Some 1) example_dom = Inr ()
         then insert_target 0 3 (Some 1) example_dom else kids example_dom)"
  by (rule pre_insert_refines[OF example_tree_inv])

section \<open>Text content\<close>

text \<open>Setting the text of a document, fragment or element replaces its children by one new text
  node that holds the text, or by none when the text is empty; the old children become parentless
  roots, and no other link changes.\<close>

theorem set_text_content_replaces:
  assumes reach: "dom_reachable inst d" and cont: "container_kind (knd d i)"
  shows "\<exists>d'. set_text_content i s d = (Inr (), d')
    \<and> kids d' = (kids d)(i := if s = [] then [] else [length (nodes d)])
    \<and> par d' = (\<lambda>x. if s \<noteq> [] \<and> x = length (nodes d) then Some i
                  else if x \<in> set (kids d i) then None else par d x)
    \<and> knd d' = (if s = [] then knd d else (knd d)(length (nodes d) := Text s))"
proof -
  have inv: "tree_inv d" using reach by (rule dom_reachable_inv)
  have i: "i < length (nodes d)" using cont by (rule knd_container_range)
  define e where "e = orphan_all (kids d i) (upd_children i (\<lambda>_. []) d)"
  have rel: "relinked d e (\<lambda>x. if x \<in> set (kids d i) then None else par d x) ((kids d)(i := []))"
    unfolding e_def by (rule emptied_links[OF inv i])
  have e: "length (nodes e) = length (nodes d)" "knd e = knd d" "kids e = (kids d)(i := [])"
      "par e = (\<lambda>x. if x \<in> set (kids d i) then None else par d x)"
    using rel by (simp_all add: relinked_def same_frame_def)
  let ?t = "length (nodes d)"
  have t: "fst (create_text s e) = ?t" by (simp add: create_text_def e(1))
  define f where "f = upd_children i (\<lambda>cs. cs @ [?t]) (set_parent ?t (Some i) (snd (create_text s e)))"
  have f: "kids f = (kids d)(i := [?t])" "knd f = (knd d)(?t := Text s)"
      "par f = (\<lambda>x. if x = ?t then Some i else if x \<in> set (kids d i) then None else par d x)"
    using i by (auto simp: f_def create_text_def e fun_eq_iff)
  have run: "\<exists>d'. set_text_content i s d = (Inr (), d') \<and>
      (if s = [] then kids d' = kids e \<and> par d' = par e \<and> knd d' = knd e
       else kids d' = kids f \<and> par d' = par f \<and> knd d' = knd f)"
    using i cont t unfolding e_def f_def
    by (cases "knd d i"; cases "s = []"; cases "kids d i = []")
      (simp_all add: set_text_content_def node_index_def nth_links Let_def case_prod_beta)
  then show ?thesis by (cases "s = []") (auto simp: f e fun_eq_iff)
qed

theorem set_text_content_replaces_witness:
  "\<exists>d'. set_text_content 1 ''new'' example_dom = (Inr (), d') \<and> kids d' 1 = [4]
    \<and> knd d' 4 = Text ''new''"
proof -
  have "container_kind (knd example_dom 1)" "length (nodes example_dom) = 4"
    by (simp_all add: knd_def example_value)
  then show ?thesis
    using set_text_content_replaces[OF example_reachable, of 1 "''new''"] by auto
qed

end
