(* ===== verification/Dom_Order.thy ===== *)
theory Dom_Order
  imports Dom_Results
begin

text \<open>
  Reading the tree: siblings, connectedness and its walk bound, the listed controls of a form,
  and the exclusivity of a radio group.
\<close>

section \<open>Siblings\<close>

lemma position_nth:
  assumes "distinct xs" and "k < length xs" shows "position (\<lambda>y. y = xs ! k) xs = Some k"
proof -
  obtain j where j: "position (\<lambda>y. y = xs ! k) xs = Some j"
    using assms(2) position_eq_None[of "xs ! k" xs] nth_mem by fastforce
  then show ?thesis
    using position_SomeD[OF j] nth_eq_iff_index_eq[OF assms(1), of j k] assms(2) j by simp
qed

lemma sibling_links:
  assumes inv: "tree_inv d"
  shows "next_sibling d i = Inr (Some j) \<longleftrightarrow>
      (\<exists>p k. Suc k < length (kids d p) \<and> kids d p ! k = i \<and> kids d p ! Suc k = j)"
    and "previous_sibling d j = Inr (Some i) \<longleftrightarrow>
      (\<exists>p k. Suc k < length (kids d p) \<and> kids d p ! k = i \<and> kids d p ! Suc k = j)"
proof -
  have open_next: "next_sibling d x = Inr (get_opt (kids d p) (k + 1))"
    and open_prev: "previous_sibling d x = Inr (before_opt (kids d p) k)"
    if "k < length (kids d p)" "kids d p ! k = x" for x p k
  proof -
    have mem: "x \<in> set (kids d p)" using that by auto
    have x: "par d x = Some p" using mem tree_inv_links[OF inv] by blast
    have rng: "x < length (nodes d)" "p < length (nodes d)" using tree_inv_ranges[OF inv mem] by auto
    have pos: "position (\<lambda>s. s = x) (kids d p) = Some k"
      using position_nth[OF tree_inv_distinct[OF inv] that(1)] that(2) by simp
    show "next_sibling d x = Inr (get_opt (kids d p) (k + 1))"
      "previous_sibling d x = Inr (before_opt (kids d p) k)"
      using x rng pos
      by (simp_all add: next_sibling_def previous_sibling_def parent_par children_kids)
  qed
  have child: "\<exists>p k. k < length (kids d p) \<and> kids d p ! k = x" if "par d x = Some p" for x p
    using that tree_inv_links[OF inv, of x p] by (auto simp: in_set_conv_nth)
  have "\<exists>p. par d i = Some p" if "next_sibling d i = Inr (Some j)"
    using that by (auto simp: next_sibling_def parent_par split: if_splits option.splits)
  then obtain p k where pk: "k < length (kids d p)" "kids d p ! k = i"
    if "next_sibling d i = Inr (Some j)"
    using child by metis
  show "next_sibling d i = Inr (Some j) \<longleftrightarrow>
      (\<exists>p k. Suc k < length (kids d p) \<and> kids d p ! k = i \<and> kids d p ! Suc k = j)"
  proof
    assume a: "next_sibling d i = Inr (Some j)"
    then have "get_opt (kids d p) (k + 1) = Some j" using open_next[OF pk] by simp
    then show "\<exists>p k. Suc k < length (kids d p) \<and> kids d p ! k = i \<and> kids d p ! Suc k = j"
      using pk[OF a] by (intro exI[of _ p] exI[of _ k]) (auto simp: get_opt_def split: if_splits)
  next
    assume "\<exists>p k. Suc k < length (kids d p) \<and> kids d p ! k = i \<and> kids d p ! Suc k = j"
    then obtain q m where "Suc m < length (kids d q)" "kids d q ! m = i" "kids d q ! Suc m = j"
      by blast
    then show "next_sibling d i = Inr (Some j)"
      using open_next[of m q i] by (simp add: get_opt_def)
  qed
  have "\<exists>p. par d j = Some p" if "previous_sibling d j = Inr (Some i)"
    using that by (auto simp: previous_sibling_def parent_par split: if_splits option.splits)
  then obtain p k where qk: "k < length (kids d p)" "kids d p ! k = j"
    if "previous_sibling d j = Inr (Some i)"
    using child by metis
  show "previous_sibling d j = Inr (Some i) \<longleftrightarrow>
      (\<exists>p k. Suc k < length (kids d p) \<and> kids d p ! k = i \<and> kids d p ! Suc k = j)"
  proof
    assume a: "previous_sibling d j = Inr (Some i)"
    then have "before_opt (kids d p) k = Some i" using open_prev[OF qk] by simp
    then have "0 < k" "kids d p ! (k - 1) = i"
      by (auto simp: before_opt_def get_opt_def split: if_splits)
    then show "\<exists>p k. Suc k < length (kids d p) \<and> kids d p ! k = i \<and> kids d p ! Suc k = j"
      using qk[OF a] by (intro exI[of _ p] exI[of _ "k - 1"]) simp
  next
    assume "\<exists>p k. Suc k < length (kids d p) \<and> kids d p ! k = i \<and> kids d p ! Suc k = j"
    then obtain q m where "Suc m < length (kids d q)" "kids d q ! m = i" "kids d q ! Suc m = j"
      by blast
    then show "previous_sibling d j = Inr (Some i)"
      using open_prev[of "Suc m" q j] by (simp add: before_opt_def get_opt_def)
  qed
qed

section \<open>Connectedness\<close>

definition conn_rel :: "dom \<Rightarrow> (node_id \<times> node_id) set" where
  "conn_rel d = {(c, p). connected_up d c = Some p}"

lemma conn_step:
  "(i, r) \<in> conn_rel d ^^ Suc k \<longleftrightarrow>
     (\<exists>p. connected_up d i = Some p \<and> (p, r) \<in> conn_rel d ^^ k)"
  by (simp only: relpow.simps relpow_commute[symmetric]) (auto simp: conn_rel_def)

lemma connected_walk_iff:
  "connected_walk n d r i \<longleftrightarrow> (\<exists>k < n. (i, r) \<in> conn_rel d ^^ k)"
proof (induction n arbitrary: i)
  case (Suc n)
  show ?case
  proof (cases "connected_up d i")
    case None
    then have "(i, r) \<in> conn_rel d ^^ k \<longleftrightarrow> k = 0 \<and> i = r" for k
      by (cases k) (simp_all only: conn_step, auto)
    then show ?thesis using None by auto
  next
    case (Some p)
    have step: "(i, r) \<in> conn_rel d ^^ Suc k \<longleftrightarrow> (p, r) \<in> conn_rel d ^^ k" for k
      using Some by (simp only: conn_step) auto
    have "(\<exists>k < Suc n. (i, r) \<in> conn_rel d ^^ k) \<longleftrightarrow> i = r \<or> (\<exists>k < n. (i, r) \<in> conn_rel d ^^ Suc k)"
      by (simp add: Ex_less_Suc2 del: relpow.simps(2))
    then show ?thesis using Some Suc.IH[of p] by (simp only: step) auto
  qed
qed simp

section \<open>Radio groups\<close>

text \<open>The form functions read the nodes, the document root and the shadow hosts only.\<close>

definition same_forms :: "dom \<Rightarrow> dom \<Rightarrow> bool" where
  "same_forms d e \<longleftrightarrow>
     nodes e = nodes d \<and> document_root e = document_root d \<and> shadow_hosts e = shadow_hosts d"

lemma same_forms_reads:
  assumes "same_forms d e"
  shows "parent e = parent d" "children e = children d" "attributes e = attributes d"
    "attribute_value e = attribute_value d" "tag e = tag d" "connected_up e = connected_up d"
  using assms
  by (simp_all add: same_forms_def parent_def children_def attributes_def node_index_def
      attribute_value_def tag_def node_at_def connected_up_def shadow_host_def fun_eq_iff
      cong: option.case_cong)

lemma tree_root_mono:
  assumes r: "tree_root d i = Some r" and se: "same_forms d e" shows "tree_root e i = Some r"
proof -
  have "same_forms d e \<longrightarrow> tree_root e i = Some r"
  proof (rule tree_root.raw_induct[OF _ r, where P = "\<lambda>d i r. same_forms d e \<longrightarrow> tree_root e i = Some r"], rule impI)
    fix f d i r
    assume IH: "\<And>d i r. f d i = Some r \<Longrightarrow> same_forms d e \<longrightarrow> tree_root e i = Some r"
      and body: "(case parent d i of Inl _ \<Rightarrow> Some i | Inr None \<Rightarrow> Some i | Inr (Some p) \<Rightarrow> f d p) = Some r"
      and se: "same_forms d e"
    show "tree_root e i = Some r"
      using body IH[of d _ r] se
      by (subst tree_root.simps) (auto simp: same_forms_reads[OF se] split: sum.splits option.splits)
  qed
  then show ?thesis using se by blast
qed

lemma dfs_loop_mono:
  assumes r: "dfs_loop d ps ns = Some ms" and se: "same_forms d e"
  shows "dfs_loop e ps ns = Some ms"
proof -
  have "same_forms d e \<longrightarrow> dfs_loop e ps ns = Some ms"
  proof (rule dfs_loop.raw_induct[OF _ r, where P = "\<lambda>d ps ns ms. same_forms d e \<longrightarrow> dfs_loop e ps ns = Some ms"], rule impI)
    fix f d ps ns ms
    assume IH: "\<And>d ps ns ms. f d ps ns = Some ms \<Longrightarrow> same_forms d e \<longrightarrow> dfs_loop e ps ns = Some ms"
      and body: "(case ps of [] \<Rightarrow> Some ns | i # rest \<Rightarrow>
          f d (case children d i of Inl _ \<Rightarrow> rest | Inr cs \<Rightarrow> cs @ rest) (ns @ [i])) = Some ms"
      and se: "same_forms d e"
    show "dfs_loop e ps ns = Some ms"
      using body IH[of d _ _ ms] se
      by (subst dfs_loop.simps) (auto simp: same_forms_reads[OF se] split: list.splits)
  qed
  then show ?thesis using se by blast
qed

lemma form_ancestor_mono:
  assumes r: "form_ancestor d a = Some w" and se: "same_forms d e"
  shows "form_ancestor e a = Some w"
proof -
  have "same_forms d e \<longrightarrow> form_ancestor e a = Some w"
  proof (rule form_ancestor.raw_induct[OF _ r, where P = "\<lambda>d a w. same_forms d e \<longrightarrow> form_ancestor e a = Some w"], rule impI)
    fix f d a w
    assume IH: "\<And>d a w. f d a = Some w \<Longrightarrow> same_forms d e \<longrightarrow> form_ancestor e a = Some w"
      and body: "(case a of None \<Rightarrow> Some None | Some p \<Rightarrow>
          if tag d p = ''form'' then Some (Some p)
          else f d (case parent d p of Inl _ \<Rightarrow> None | Inr q \<Rightarrow> q)) = Some w"
      and se: "same_forms d e"
    show "form_ancestor e a = Some w"
      using body IH[of d _ w] se
      by (subst form_ancestor.simps) (auto simp: same_forms_reads[OF se] split: option.splits if_splits)
  qed
  then show ?thesis using se by blast
qed

text \<open>So on a well-formed tree they agree on arenas that differ elsewhere.\<close>

lemma same_forms_sym: "same_forms d e \<Longrightarrow> same_forms e d"
  by (simp add: same_forms_def)

lemma tree_nodes_same: 
  assumes "tree_inv d" and se: "same_forms d e" shows "tree_nodes e i = tree_nodes d i"
proof -
  obtain ns r where ns: "tree_nodes d i = Some ns" "tree_root d i = Some r"
    using tree_nodes_returns[OF assms(1)] by blast
  then have "dfs_loop d [r] [] = Some ns" by (simp add: tree_nodes_def)
  then show ?thesis using tree_root_mono[OF ns(2) se] dfs_loop_mono[OF _ se] ns
    by (simp add: tree_nodes_def)
qed

lemma first_ids_same: "same_forms d e \<Longrightarrow> first_ids e ns = first_ids d ns"
proof -
  assume se: "same_forms d e"
  have "first_ids_from e ns m = first_ids_from d ns m" for m
    by (induction ns arbitrary: m) (simp_all add: same_forms_reads[OF se])
  then show ?thesis by (simp add: first_ids_def)
qed

lemma is_connected_same: "same_forms d e \<Longrightarrow> is_connected e i = is_connected d i"
proof -
  assume se: "same_forms d e"
  have "connected_walk n e r j = connected_walk n d r j" for n r j
    by (induction n arbitrary: j) (auto simp: same_forms_reads[OF se] split: option.split)
  then show ?thesis
    using se by (simp add: is_connected_def same_forms_def split: option.split)
qed

lemma form_owner_in_same:
  assumes "tree_inv d" and se: "same_forms d e" shows "form_owner_in e i m = form_owner_in d i m"
proof -
  have "form_ancestor e a = form_ancestor d a" for a
    using form_ancestor_returns[OF assms(1), of a] form_ancestor_mono[OF _ se] by auto
  then show ?thesis
    by (simp add: form_owner_in_def is_connected_same[OF se] same_forms_reads[OF se]
        split: option.split)
qed

lemma radio_group_same:
  assumes "tree_inv d" and se: "same_forms d e" shows "radio_group e i = radio_group d i"
  unfolding radio_group_def is_radio_def same_forms_reads[OF se] tree_nodes_same[OF assms]
    first_ids_same[OF se] form_owner_in_same[OF assms] ..

lemma same_forms_updates [simp]:
  "same_forms d (put_checked i c t e) = same_forms d e"
  "same_forms d (record_style_change e) = same_forms d e"
  "same_forms d d"
  by (simp_all add: same_forms_def put_checked_def)

lemma input_checked_style [simp]: "input_checked (record_style_change d) x = input_checked d x"
proof -
  have "checked_states (record_style_change d) = checked_states d"
    by (simp add: record_style_change_def commit_unbatched_generations_def
        commit_pending_generations_def Let_def)
  then show ?thesis
    using same_forms_reads(4)[of d "record_style_change d"] by (simp add: input_checked_def split: option.split)
qed

lemma input_checked_put [simp]:
  "input_checked (put_checked i c t d) x = (if x = i then c else input_checked d x)"
proof -
  have "checked_states (put_checked i c t d) =
      (checked_states d)(i \<mapsto> \<lparr>is_checked = c, is_dirty = t\<rparr>)"
    by (simp add: put_checked_def mark_dirty_def)
  then show ?thesis
    using same_forms_reads(4)[of d "put_checked i c t d"] by (simp add: input_checked_def split: option.split)
qed

lemma clear_group_checked:
  "fst (clear_group i g c d) \<longleftrightarrow> c \<or> (\<exists>x \<in> set g. x \<noteq> i \<and> input_checked d x)"
  "input_checked (snd (clear_group i g c d)) x \<longleftrightarrow> \<not> (x \<in> set g \<and> x \<noteq> i) \<and> input_checked d x"
  by (induction g arbitrary: c d) auto

section \<open>Properties\<close>

text \<open>In every reachable arena, following siblings forwards and backwards agree: \<open>j\<close> is the next
  sibling of \<open>i\<close> exactly when \<open>i\<close> is the previous sibling of \<open>j\<close>.\<close>

theorem siblings_inverse:
  assumes "dom_reachable inst d"
  shows "next_sibling d i = Inr (Some j) \<longleftrightarrow> previous_sibling d j = Inr (Some i)"
  using sibling_links[OF dom_reachable_inv[OF assms], where i = i and j = j] by simp

theorem siblings_inverse_witness:
  "next_sibling example_dom 2 = Inr (Some 3) \<longleftrightarrow> previous_sibling example_dom 3 = Inr (Some 2)"
  by (rule siblings_inverse[OF example_reachable])

text \<open>A node is reported connected exactly when the document root is among the first 1024 nodes
  of its chain of parents and shadow hosts, the node itself included; deeper nodes are reported
  disconnected, and a DOM without a document has no connected node.\<close>

theorem is_connected_iff:
  "is_connected d i \<longleftrightarrow> (\<exists>r k. document_root d = Some r \<and> k < 1024 \<and> (i, r) \<in> conn_rel d ^^ k)"
  by (auto simp: is_connected_def connected_walk_iff MAX_CONNECTED_WALK_def split: option.split)

text \<open>The controls of a form are, in tree order and without repetition, exactly the listed
  controls of its tree whose form owner it is.\<close>

theorem form_controls_exact:
  assumes "dom_reachable inst d"
  shows "\<exists>ns r. tree_root d form = Some r \<and> set ns = subtree d r \<and> distinct ns
    \<and> form_controls d form =
        Some (filter (\<lambda>i. listed_control d i \<and> form_owner_in d i (first_ids d ns) = Some (Some form)) ns)"
proof -
  have inv: "tree_inv d" using assms by (rule dom_reachable_inv)
  obtain ns r where ns: "tree_nodes d form = Some ns" "tree_root d form = Some r"
      "set ns = subtree d r" "distinct ns"
    using tree_nodes_returns[OF inv] by blast
  let ?f = "\<lambda>i. if listed_control d i
    then map_option (\<lambda>ow. ow = Some form) (form_owner_in d i (first_ids d ns)) else Some False"
  have "?f i \<noteq> None" for i using form_owner_in_returns[OF inv, of i "first_ids d ns"] by auto
  then have "filter_opt ?f ns = Some (filter (\<lambda>i. ?f i = Some True) ns)" by (rule filter_opt_total)
  moreover have "(\<lambda>i. ?f i = Some True) = (\<lambda>i. listed_control d i
      \<and> form_owner_in d i (first_ids d ns) = Some (Some form))"
    by (auto simp: fun_eq_iff)
  ultimately have "form_controls d form = Some (filter (\<lambda>i. listed_control d i
      \<and> form_owner_in d i (first_ids d ns) = Some (Some form)) ns)"
    using ns(1) by (simp add: form_controls_def)
  then show ?thesis using ns by blast
qed

theorem form_controls_exact_witness: "\<exists>cs. form_controls example_dom 1 = Some cs"
  using form_controls_exact[OF example_reachable, of 1] by blast

text \<open>Checking an input through \<open>set_input_checked\<close> is exclusive in its radio group and touches
  nothing else: afterwards the input is as asked, every other member of its group is unchecked
  when it was switched on, every other input is as before, and the call reports whether any
  input changed.\<close>

theorem radio_exclusive:
  assumes reach: "dom_reachable inst d" and g: "radio_group d i = Some g"
    and run: "set_input_checked i checked d = (Inr changed, d')"
  shows "input_checked d' =
      (\<lambda>x. if x = i then checked else \<not> (checked \<and> x \<in> set g) \<and> input_checked d x)
    \<and> (changed \<longleftrightarrow> input_checked d' \<noteq> input_checked d)"
proof -
  have inv: "tree_inv d" using reach by (rule dom_reachable_inv)
  define e where "e = put_checked i checked True d"
  define h where "h = (if checked then g else [])"
  define b where "b = (input_checked d i \<noteq> checked)"
  have e: "input_checked e x = (if x = i then checked else input_checked d x)" for x
    by (simp add: e_def)
  have "radio_group e i = Some g" using radio_group_same[OF inv, of e i] g by (simp add: e_def)
  then have out: "changed = fst (clear_group i h b e)"
      "input_checked d' x = input_checked (snd (clear_group i h b e)) x" for x
    using run unfolding e_def h_def b_def
    by (auto simp: set_input_checked_def Let_def case_prod_beta split: if_splits)
  have x: "input_checked d' x \<longleftrightarrow> \<not> (x \<in> set h \<and> x \<noteq> i) \<and> input_checked e x" for x
    using out(2) clear_group_checked(2) by simp
  have "input_checked d' x \<longleftrightarrow>
      (if x = i then checked else \<not> (checked \<and> x \<in> set g) \<and> input_checked d x)" for x
    unfolding x e by (auto simp: h_def)
  moreover have "changed \<longleftrightarrow> b \<or> (\<exists>y \<in> set h. y \<noteq> i \<and> input_checked e y)"
    using out(1) clear_group_checked(1) by simp
  then have "changed \<longleftrightarrow> (\<exists>x. input_checked d' x \<noteq> input_checked d x)"
    by (auto simp: x e b_def)
  ultimately show ?thesis by (auto simp: fun_eq_iff)
qed

text \<open>Two radio buttons of one group under one form.\<close>

definition radio_base :: dom where
  "radio_base =
     (let d = snd (create_element ''input'' (snd (create_element ''input'' (snd (create_element ''form''
                (snd (create_document (dom_new 0))))))))
      in snd (append_child 1 3 (snd (append_child 1 2 (snd (append_child 0 1 d))))))"

definition radio_dom :: dom where
  "radio_dom =
     (let d = snd (set_attribute 3 ''name'' ''g'' (snd (set_attribute 3 ''type'' ''radio'' radio_base)))
      in snd (set_attribute 2 ''name'' ''g'' (snd (set_attribute 2 ''type'' ''radio'' d))))"

lemma radio_reachable: "dom_reachable 0 radio_dom"
  unfolding radio_dom_def radio_base_def Let_def
  by (intro reach_step[OF _ dom_step.intros(16)] reach_step[OF _ dom_step.intros(11)]
      reach_step[OF _ dom_step.intros(2)] reach_step[OF _ dom_step.intros(1)] reach_new)

lemma radio_base_value:
  "radio_base =
     \<lparr>nodes =
        [\<lparr>kind = Document, node_parent = None, node_children = [1]\<rparr>,
         \<lparr>kind = Element TagForm None NsHtml [], node_parent = Some 0, node_children = [2, 3]\<rparr>,
         \<lparr>kind = Element TagInput None NsHtml [], node_parent = Some 1, node_children = []\<rparr>,
         \<lparr>kind = Element TagInput None NsHtml [], node_parent = Some 1, node_children = []\<rparr>],
      interner = interner_new, resolve_table = [], dirty_nodes = [0, 1, 1, 2, 1, 3],
      dirty_batch = [], batch_depth = 0, generation = 3, structure_generation = 3,
      style_generation = 3, pending_structure_change = False, pending_style_change = False,
      mutations = mutation_log_default, document_root = Some 0, template_contents = Map.empty,
      template_hosts = Map.empty, checked_states = Map.empty, shadow_roots = Map.empty,
      shadow_hosts = Map.empty\<rparr>"
  unfolding radio_base_def by (simp add: dom_exec)

lemmas attribute_exec = Let_def node_index_def sm_then_def sm_bind_def sm_do_def mark_dirty_def
  set_kind_def upd_node_def to_ascii_lowercase_def lower_char_def ascii_upper_def
  record_style_change_def commit_unbatched_generations_def commit_pending_generations_def
  queue_mutation_def mutation_log_default_def set_attribute_def attribute_atoms_def
  attr_from_str_in_def attr_from_str_def attr_table_def element_namespace_def dom_intern_def
  intern_def interner_new_def should_intern_identifier_def MAX_INTERNED_LEN_def is_ascii_def
  ascii_char_def ascii_whitespace_def attribute_snapshot_def eq_ignore_ascii_case_def

abbreviation radio_input :: "node" where
  "radio_input \<equiv>
     \<lparr>kind = Element TagInput None NsHtml
        [\<lparr>attr_name = AttrType, attr_value = ''radio'', value_atom = Some (Atom 0),
          value_atoms = [], class_strings = []\<rparr>,
         \<lparr>attr_name = AttrName, attr_value = ''g'', value_atom = Some (Atom 1),
          value_atoms = [], class_strings = []\<rparr>],
      node_parent = Some 1, node_children = []\<rparr>"

lemma radio_value:
  "nodes radio_dom =
     [\<lparr>kind = Document, node_parent = None, node_children = [1]\<rparr>,
      \<lparr>kind = Element TagForm None NsHtml [], node_parent = Some 0, node_children = [2, 3]\<rparr>,
      radio_input, radio_input]"
  "checked_states radio_dom = Map.empty" "document_root radio_dom = Some 0"
  "shadow_hosts radio_dom = Map.empty"
  by (simp_all add: radio_dom_def attribute_exec radio_base_value)

lemmas form_exec = radio_group_def is_radio_def attribute_value_def attributes_def node_index_def
  attr_matches_def eq_ignore_ascii_case_def to_ascii_lowercase_def lower_char_def ascii_upper_def
  tree_nodes_def tree_root.simps dfs_loop.simps parent_def children_def first_ids_def
  form_owner_in_def is_connected_def MAX_CONNECTED_WALK_def connected_up_def shadow_host_def
  form_ancestor.simps tag_def node_at_def Let_def

lemma radio_group_value: "radio_group radio_dom 3 = Some [2, 3]"
  by (simp add: form_exec radio_value eval_nat_numeral)

theorem radio_exclusive_witness:
  "\<exists>changed d'. set_input_checked 3 True radio_dom = (Inr changed, d')
    \<and> input_checked d' 3 \<and> \<not> input_checked d' 2"
proof -
  have "radio_group (put_checked 3 True True radio_dom) 3 = Some [2, 3]"
    using radio_group_same[OF dom_reachable_inv[OF radio_reachable], of "put_checked 3 True True radio_dom" 3]
      radio_group_value by simp
  moreover have "tag radio_dom 3 = ''input''" by (simp add: form_exec radio_value)
  ultimately obtain changed d' where run: "set_input_checked 3 True radio_dom = (Inr changed, d')"
    by (simp add: set_input_checked_def Let_def case_prod_beta)
  have "input_checked d' = (\<lambda>x. if x = 3 then True else \<not> (True \<and> x \<in> set [2, 3]) \<and> input_checked radio_dom x)"
    using radio_exclusive[OF radio_reachable radio_group_value run] by blast
  then have "input_checked d' 3 \<and> \<not> input_checked d' 2" by simp
  then show ?thesis using run by blast
qed

end
