(* ===== verification/Dom_Atoms.thy ===== *)
theory Dom_Atoms
  imports Dom_Order
begin

text \<open>
  Attributes and their atoms. Every attribute of every element carries the atoms of its current
  value: one per class token, co-indexed with \<open>class_strings\<close>, or one for the whole value of any
  other attribute; the resolve table is a prefix of the interner's values, and the whole of them
  when a batch has closed. Reading after \<open>set_attribute\<close> and \<open>remove_attribute\<close>.
\<close>

section \<open>What the operations leave alone\<close>

fun kind_attrs :: "node_kind \<Rightarrow> attribute list" where
  "kind_attrs (Element _ _ _ attrs) = attrs"
| "kind_attrs _ = []"

definition attrs_of :: "dom \<Rightarrow> node_id \<Rightarrow> attribute list" where
  "attrs_of d i = kind_attrs (knd d i)"

lemma attrs_push [simp]:
  "kind_attrs k = [] \<Longrightarrow> attrs_of (snd (push_node k d)) = attrs_of d"
  by (auto simp: attrs_of_def fun_eq_iff) (simp add: knd_def)

lemma attrs_set_kind:
  "i < length (nodes d) \<Longrightarrow> attrs_of (set_kind i k d) = (attrs_of d)(i := kind_attrs k)"
  by (auto simp: attrs_of_def fun_eq_iff)

lemma interner_frame [simp]:
  "interner (commit_pending_generations d) = interner d"
  "interner (commit_unbatched_generations d) = interner d"
  "interner (record_structure_change d) = interner d"
  "interner (record_style_change d) = interner d"
  "interner (record_text_change d) = interner d"
  "interner (mark_dirty i d) = interner d"
  "interner (flush_dirty_batch d) = interner d"
  "interner (begin_mutation_batch d) = interner d"
  "interner (queue_mutation i k d) = interner d"
  "interner (set_mutation_recording b d) = interner d"
  "interner (snd (take_mutation_records d)) = interner d"
  "interner (snd (take_dirty_nodes d)) = interner d"
  "interner (d\<lparr>checked_states := x\<rparr>) = interner d"
  "interner (upd_node i f d) = interner d"
  "interner (set_parent i p d) = interner d"
  "interner (upd_children i g d) = interner d"
  "interner (set_kind i kd d) = interner d"
  "interner (snd (push_node kd d)) = interner d"
  by (simp_all add: commit_pending_generations_def commit_unbatched_generations_def
      record_structure_change_def record_style_change_def record_text_change_def mark_dirty_def
      flush_dirty_batch_def begin_mutation_batch_def queue_mutation_def set_mutation_recording_def
      take_mutation_records_def take_dirty_nodes_def upd_node_def set_parent_def upd_children_def
      set_kind_def push_node_def Let_def split: prod.split)

lemma resolve_table_frame [simp]:
  "resolve_table (commit_pending_generations d) = resolve_table d"
  "resolve_table (commit_unbatched_generations d) = resolve_table d"
  "resolve_table (record_structure_change d) = resolve_table d"
  "resolve_table (record_style_change d) = resolve_table d"
  "resolve_table (record_text_change d) = resolve_table d"
  "resolve_table (mark_dirty i d) = resolve_table d"
  "resolve_table (flush_dirty_batch d) = resolve_table d"
  "resolve_table (begin_mutation_batch d) = resolve_table d"
  "resolve_table (queue_mutation i k d) = resolve_table d"
  "resolve_table (set_mutation_recording b d) = resolve_table d"
  "resolve_table (snd (take_mutation_records d)) = resolve_table d"
  "resolve_table (snd (take_dirty_nodes d)) = resolve_table d"
  "resolve_table (d\<lparr>checked_states := x\<rparr>) = resolve_table d"
  "resolve_table (upd_node i f d) = resolve_table d"
  "resolve_table (set_parent i p d) = resolve_table d"
  "resolve_table (upd_children i g d) = resolve_table d"
  "resolve_table (set_kind i kd d) = resolve_table d"
  "resolve_table (snd (push_node kd d)) = resolve_table d"
  by (simp_all add: commit_pending_generations_def commit_unbatched_generations_def
      record_structure_change_def record_style_change_def record_text_change_def mark_dirty_def
      flush_dirty_batch_def begin_mutation_batch_def queue_mutation_def set_mutation_recording_def
      take_mutation_records_def take_dirty_nodes_def upd_node_def set_parent_def upd_children_def
      set_kind_def push_node_def Let_def split: prod.split)

lemma attrs_of_links:
  "knd d' = knd d \<Longrightarrow> attrs_of d' = attrs_of d"
  by (simp add: attrs_of_def fun_eq_iff)

text \<open>An operation that neither interns nor changes an attribute.\<close>

definition plain_step :: "dom \<Rightarrow> dom \<Rightarrow> bool" where
  "plain_step d d' \<longleftrightarrow>
     interner d' = interner d \<and> resolve_table d' = resolve_table d \<and> attrs_of d' = attrs_of d"

lemma plain_refl [simp]: "plain_step d d"
  by (simp add: plain_step_def)

lemma plain_trans: "plain_step d e \<Longrightarrow> plain_step e f \<Longrightarrow> plain_step d f"
  by (simp add: plain_step_def)

lemma plain_meta [simp]:
  "plain_step d (mark_dirty i e) = plain_step d e"
  "plain_step d (record_structure_change e) = plain_step d e"
  "plain_step d (record_style_change e) = plain_step d e"
  "plain_step d (record_text_change e) = plain_step d e"
  "plain_step d (queue_mutation i k e) = plain_step d e"
  "plain_step d (begin_mutation_batch e) = plain_step d e"
  "plain_step d (set_mutation_recording b e) = plain_step d e"
  "plain_step d (snd (take_mutation_records e)) = plain_step d e"
  "plain_step d (snd (take_dirty_nodes e)) = plain_step d e"
  "plain_step d (e\<lparr>checked_states := x\<rparr>) = plain_step d e"
  "plain_step d (set_parent i p e) = plain_step d e"
  "plain_step d (upd_children i g e) = plain_step d e"
  "plain_step d (put_checked i c t e) = plain_step d e"
  by (simp_all add: plain_step_def attrs_of_def fun_eq_iff put_checked_def)

lemma plain_push [simp]:
  "kind_attrs k = [] \<Longrightarrow> plain_step d (snd (push_node k e)) = plain_step d e"
  by (simp add: plain_step_def)

lemma plain_set_text [simp]:
  "attrs_of e l = [] \<Longrightarrow> plain_step d (set_kind l (Text s) e) = plain_step d e"
proof -
  assume "attrs_of e l = []"
  then have "attrs_of (set_kind l (Text s) e) = attrs_of e"
    by (auto simp: attrs_of_def fun_eq_iff)
  then show ?thesis by (simp add: plain_step_def)
qed

lemma plain_splice_loop [simp]: "plain_step d (splice_loop p pos cs e) = plain_step d e"
  by (induction p pos cs e rule: splice_loop.induct) simp_all

lemma plain_orphan_all [simp]: "plain_step d (orphan_all cs e) = plain_step d e"
  by (induction cs e rule: orphan_all.induct) simp_all

lemma plain_clear_group [simp]: "plain_step d (snd (clear_group i g c e)) = plain_step d e"
  by (induction g arbitrary: c e) simp_all

lemma plain_checked [simp]:
  "plain_step d (snd (set_input_checked i c e)) = plain_step d e"
  "plain_step d (snd (checked_attribute_changed i c e)) = plain_step d e"
proof -
  show a: "plain_step d (snd (set_input_checked i c e)) = plain_step d e" for c
    by (simp add: set_input_checked_def Let_def case_prod_beta split: option.split)
  show "plain_step d (snd (checked_attribute_changed i c e)) = plain_step d e"
    using a[of c]
    by (auto simp: checked_attribute_changed_def case_prod_beta
        split: prod.split sum.split dom_fault.split option.split)
qed

lemma plain_splice [simp]: "plain_step d (snd (splice_fragment p f r e)) = plain_step d e"
  by (auto simp: splice_fragment_def sm_bind_def sm_then_def Let_def split: sum.splits prod.splits)

lemma plain_append_child [simp]: "plain_step d (snd (append_child p c e)) = plain_step d e"
  by (auto simp: append_child_def sm_bind_def sm_then_def Let_def split: sum.splits prod.splits)

lemma plain_remove_child [simp]: "plain_step d (snd (remove_child p c e)) = plain_step d e"
  by (auto simp: remove_child_def sm_bind_def sm_then_def Let_def split: sum.splits prod.splits)

lemma plain_insert_before: "plain_step d e \<Longrightarrow> plain_step d (snd (insert_before p c r e))"
  unfolding insert_before_def
  by (intro sm_then_inv[where P = "plain_step d"] sm_bind_inv[where P = "plain_step d"])
    (auto simp: Let_def split: option.split
      intro!: sm_then_inv[where P = "plain_step d"] sm_bind_inv[where P = "plain_step d"])

lemma plain_pre_insert: "plain_step d e \<Longrightarrow> plain_step d (snd (pre_insert p c r e))"
  unfolding pre_insert_def
  by (auto split: option.split simp: plain_insert_before
      intro!: sm_then_inv[where P = "plain_step d"] sm_bind_inv[where P = "plain_step d"])

lemma plain_create [simp]:
  "plain_step d (snd (create_document e)) = plain_step d e"
  "plain_step d (snd (create_document_fragment e)) = plain_step d e"
  "plain_step d (snd (create_text s e)) = plain_step d e"
  "plain_step d (snd (create_comment s e)) = plain_step d e"
  "plain_step d (snd (create_doctype a b c e)) = plain_step d e"
proof -
  have "plain_step d (f\<lparr>document_root := r\<rparr>) = plain_step d f" for f r
    by (simp add: plain_step_def attrs_of_def fun_eq_iff)
  then show "plain_step d (snd (create_document e)) = plain_step d e"
    by (simp add: create_document_def case_prod_beta Let_def split: option.split)
qed (simp_all add: create_document_fragment_def create_text_def create_comment_def create_doctype_def)

lemma plain_hosts [simp]:
  "plain_step d (e\<lparr>template_contents := tc, template_hosts := th\<rparr>) = plain_step d e"
  "plain_step d (e\<lparr>shadow_roots := sr, shadow_hosts := sh\<rparr>) = plain_step d e"
  by (simp_all add: plain_step_def attrs_of_def fun_eq_iff)

lemma plain_create_element [simp]:
  "plain_step d (snd (create_element_ns_local l p ns e)) = plain_step d e"
  "plain_step d (snd (create_element name e)) = plain_step d e"
  "plain_step d (snd (create_element_ns name ns e)) = plain_step d e"
proof -
  show l: "plain_step d (snd (create_element_ns_local l p ns e)) = plain_step d e" for l p ns
    by (simp add: create_element_ns_local_def case_prod_beta Let_def)
  show "plain_step d (snd (create_element name e)) = plain_step d e"
    by (simp add: create_element_def l)
  show "plain_step d (snd (create_element_ns name ns e)) = plain_step d e"
    by (simp add: create_element_ns_def l split: option.split)
qed

lemma plain_attach_shadow [simp]: "plain_step d (snd (attach_shadow h c e)) = plain_step d e"
  by (auto simp: attach_shadow_def sm_bind_def case_prod_beta Let_def
      split: sum.splits node_kind.splits)

lemma plain_append_text: "plain_step d e \<Longrightarrow> plain_step d (snd (append_text p s e))"
proof -
  assume e: "plain_step d e"
  have old: "attrs_of e l = []" if "kind (nodes e ! l) = Text x" for l x
    using that by (simp add: attrs_of_def knd_def)
  have new: "plain_step d (snd (sm_then (append_child p t) (\<lambda>d. (Inr t, mark_dirty t (mark_dirty p d))) f))"
    if "plain_step d f" for t f
    by (rule sm_then_inv[where P = "plain_step d"]) (simp_all add: that)
  show ?thesis
    using old e
    by (auto simp: append_text_def last_child_def node_index_def sm_bind_def Let_def new
        res_bind_def sm_lift_def case_prod_beta
        split: option.splits sum.splits node_kind.splits prod.splits if_splits)
qed

lemma plain_set_text_content [simp]: "plain_step d (snd (set_text_content i s e)) = plain_step d e"
proof -
  have old: "attrs_of e i = []" if "kind (nodes e ! i) = Text x" for x
    using that by (simp add: attrs_of_def knd_def)
  then show ?thesis
    by (auto simp: set_text_content_def node_index_def sm_bind_def Let_def case_prod_beta
        split: node_kind.splits)
qed

lemma plain_copy_state [simp]: "plain_step d (copy_input_state i j e) = plain_step d e"
  by (simp add: copy_input_state_def split: option.split)

section \<open>The invariant\<close>

definition attr_atoms_ok :: "silk_interner \<Rightarrow> attribute \<Rightarrow> bool" where
  "attr_atoms_ok it a \<longleftrightarrow>
     (if attr_name a = AttrClass then
        value_atom a = None \<and> class_strings a = class_tokens (attr_value a)
        \<and> map (resolve it) (value_atoms a) = map Some (class_strings a)
      else
        value_atoms a = [] \<and> class_strings a = []
        \<and> (value_atom a = None \<longleftrightarrow> \<not> should_intern_identifier (attr_value a))
        \<and> (\<forall>x. value_atom a = Some x \<longrightarrow> resolve it x = Some (attr_value a)))"

definition atoms_inv :: "dom \<Rightarrow> bool" where
  "atoms_inv d \<longleftrightarrow>
     interner_inv (interner d) \<and> prefix (resolve_table d) (interned (interner d))
   \<and> (\<forall>i. distinct (map attr_name (attrs_of d i)))
   \<and> (\<forall>i. \<forall>a \<in> set (attrs_of d i). attr_atoms_ok (interner d) a)"

text \<open>The invariant holds as long as atoms have not wrapped around.\<close>

definition atoms_ok :: "dom \<Rightarrow> bool" where
  "atoms_ok d \<longleftrightarrow> (interner_fits (interner d) \<longrightarrow> atoms_inv d)"

lemma atoms_ok_plain: "plain_step d d' \<Longrightarrow> atoms_ok d \<Longrightarrow> atoms_ok d'"
  by (simp add: plain_step_def atoms_ok_def atoms_inv_def)

lemma empty_not_interned [simp]: "\<not> should_intern_identifier []"
  by (simp add: should_intern_identifier_def)

lemma map_resolve_stable:
  "(\<And>x w. resolve it x = Some w \<Longrightarrow> resolve jt x = Some w) \<Longrightarrow>
    map (resolve it) xs = map Some ys \<Longrightarrow> map (resolve jt) xs = map Some ys"
proof (induction xs arbitrary: ys)
  case (Cons x xs)
  then show ?case by (cases ys) auto
qed simp

lemma attr_atoms_stable:
  assumes "\<And>x w. resolve it x = Some w \<Longrightarrow> resolve jt x = Some w" and "attr_atoms_ok it a"
  shows "attr_atoms_ok jt a"
  using assms map_resolve_stable[of it jt] by (auto simp: attr_atoms_ok_def split: if_splits)

lemma intern_all_prefix: "prefix (interned it) (interned (snd (map_st intern vs it)))"
proof (induction vs arbitrary: it)
  case (Cons v vs)
  have "prefix (interned it) (interned (snd (intern v it)))" by (rule intern_values_prefix)
  also have "prefix \<dots> (interned (snd (map_st intern vs (snd (intern v it)))))" by (rule Cons.IH)
  finally show ?case by (simp add: case_prod_beta Let_def)
qed simp

lemma intern_all_dom:
  "map_st dom_intern vs d =
     (fst (map_st intern vs (interner d)), d\<lparr>interner := snd (map_st intern vs (interner d))\<rparr>)"
proof (induction vs arbitrary: d)
  case (Cons v vs)
  show ?case
    by (simp only: map_st.simps Cons.IH Let_def case_prod_beta fst_conv snd_conv)
      (simp add: dom_intern_def case_prod_beta)
qed simp

text \<open>Interning some strings keeps the invariant, and their atoms resolve.\<close>

lemma intern_all_atoms:
  assumes "atoms_ok d" and it: "map_st intern vs (interner d) = (as, it)"
  shows "atoms_ok (d\<lparr>interner := it\<rparr>)"
    and "interner_fits it \<Longrightarrow> map (resolve it) as = map Some vs"
proof -
  have attrs: "attrs_of (d\<lparr>interner := it\<rparr>) = attrs_of d"
    by (rule attrs_of_links) (simp add: knd_def fun_eq_iff)
  have pre: "prefix (interned (interner d)) (interned it)"
    using intern_all_prefix[of "interner d" vs] it by simp
  have inv: "atoms_inv d" if "interner_fits it"
    using silk.int_all_fits[of vs "interner d"] it that assms(1) by (simp add: atoms_ok_def)
  have all: "interner_inv it \<and> map (resolve it) as = map Some vs
      \<and> (\<forall>a w. resolve (interner d) a = Some w \<longrightarrow> resolve it a = Some w)" if "interner_fits it"
    using silk.int_all[OF _ it that] inv[OF that] by (simp add: atoms_inv_def)
  have stable: "attr_atoms_ok it x" if "interner_fits it" "attr_atoms_ok (interner d) x" for x
    using attr_atoms_stable[of "interner d" it x] all that by blast
  show "atoms_ok (d\<lparr>interner := it\<rparr>)"
    using inv all attrs pre stable
    by (auto simp: atoms_ok_def atoms_inv_def intro: prefix_order.trans)
  show "interner_fits it \<Longrightarrow> map (resolve it) as = map Some vs" using all by blast
qed

lemma attribute_atoms_ok:
  assumes ok: "atoms_ok d" and run: "attribute_atoms a v d = ((x, xs, strs), e)"
  shows "atoms_ok e \<and> nodes e = nodes d \<and> (interner_fits (interner e) \<longrightarrow>
    attr_atoms_ok (interner e) \<lparr>attr_name = a, attr_value = v, value_atom = x,
      value_atoms = xs, class_strings = strs\<rparr>)"
proof (cases "a = AttrClass")
  case True
  define as where "as = fst (map_st intern (class_tokens v) (interner d))"
  define it where "it = snd (map_st intern (class_tokens v) (interner d))"
  have it: "map_st intern (class_tokens v) (interner d) = (as, it)" by (simp add: as_def it_def)
  have "x = None" "xs = as" "strs = class_tokens v" "e = d\<lparr>interner := it\<rparr>"
    using run True by (simp_all add: attribute_atoms_def intern_all_dom it Let_def)
  then show ?thesis
    using intern_all_atoms[OF ok it] True by (simp add: attr_atoms_ok_def)
next
  case False
  show ?thesis
  proof (cases "should_intern_identifier v")
    case True
    obtain y it where it: "intern v (interner d) = (y, it)" by (cases "intern v (interner d)")
    then have all: "map_st intern [v] (interner d) = ([y], it)" by simp
    have v: "v \<noteq> []" using True by auto
    have "x = Some y" "xs = []" "strs = []" "e = d\<lparr>interner := it\<rparr>"
      using run True False v it by (simp_all add: attribute_atoms_def dom_intern_def Let_def)
    then show ?thesis
      using intern_all_atoms[OF ok all] True False by (simp add: attr_atoms_ok_def)
  next
    case no: False
    then have "x = None" "xs = []" "strs = []" "e = d"
      using run False by (simp_all add: attribute_atoms_def)
    then show ?thesis using ok no False by (simp add: attr_atoms_ok_def)
  qed
qed

section \<open>Attribute lists\<close>

lemma upsert_names:
  "map attr_name (upsert_attribute a xs) =
     (if attr_name a \<in> attr_name ` set xs then map attr_name xs
      else map attr_name xs @ [attr_name a])"
  by (induction xs) auto

lemma upsert_distinct:
  "distinct (map attr_name xs) \<Longrightarrow> distinct (map attr_name (upsert_attribute a xs))"
  by (simp add: upsert_names)

lemma upsert_set: "x \<in> set (upsert_attribute a xs) \<Longrightarrow> x = a \<or> x \<in> set xs"
  by (induction xs) (auto split: if_splits)

lemma upsert_find:
  "find (\<lambda>x. attr_name x = n) (upsert_attribute a xs) =
     (if n = attr_name a then Some a else find (\<lambda>x. attr_name x = n) xs)"
  by (induction xs) auto

lemma remove_at_set: "x \<in> set (remove_at i xs) \<Longrightarrow> x \<in> set xs"
  by (auto simp: remove_at_def dest: in_set_takeD in_set_dropD)

lemma remove_at_map: "map f (remove_at i xs) = remove_at i (map f xs)"
  by (simp add: remove_at_def take_map drop_map)

lemma remove_at_distinct:
  assumes "distinct xs" shows "distinct (remove_at i xs)"
proof (cases "i < length xs")
  case True
  have "distinct (take i xs @ xs ! i # drop (Suc i) xs)"
    using assms remove_at_split[OF True] by simp
  then show ?thesis by (auto simp: remove_at_def)
next
  case False
  then show ?thesis using assms by (simp add: remove_at_def)
qed

lemma find_remove_at:
  assumes "distinct (map attr_name xs)" and "i < length xs"
  shows "find (\<lambda>x. attr_name x = n) (remove_at i xs) =
    (if n = attr_name (xs ! i) then None else find (\<lambda>x. attr_name x = n) xs)"
  using assms
proof (induction xs arbitrary: i)
  case (Cons x xs)
  show ?case
  proof (cases i)
    case 0
    then show ?thesis using Cons.prems
      by (auto simp: remove_at_def find_None_iff image_iff)
  next
    case (Suc j)
    have "remove_at i (x # xs) = x # remove_at j xs" by (simp add: Suc remove_at_def)
    moreover have "attr_name x \<noteq> attr_name (xs ! j)" using Cons.prems Suc by auto
    ultimately show ?thesis using Cons.IH[of j] Cons.prems Suc by auto
  qed
qed simp

lemma atoms_ok_set_kind:
  assumes ok: "atoms_ok e" and i: "i < length (nodes e)"
    and d: "atoms_inv e \<Longrightarrow> distinct (map attr_name attrs)"
    and a: "\<And>x. atoms_inv e \<Longrightarrow> interner_fits (interner e) \<Longrightarrow> x \<in> set attrs \<Longrightarrow>
      attr_atoms_ok (interner e) x"
  shows "atoms_ok (set_kind i (Element t p ns attrs) e)"
  using assms by (auto simp: atoms_ok_def atoms_inv_def attrs_set_kind)

section \<open>The attribute operations\<close>

lemma plain_checked_then:
  "plain_step d e \<Longrightarrow>
    plain_step d (snd (sm_then (checked_attribute_changed i c) (sm_do (queue_mutation j k)) e))"
  "plain_step d e \<Longrightarrow>
    plain_step d (snd (sm_then (checked_attribute_changed i c)
      (sm_then (sm_do (queue_mutation j k)) (sm_return b)) e))"
  by (rule sm_then_inv[where P = "plain_step d"], assumption, simp, simp)
    (rule sm_then_inv[where P = "plain_step d"], assumption, simp,
      rule sm_then_inv[where P = "plain_step d"], simp_all)

text \<open>What \<open>set_attribute\<close> does to an element: new atoms, then the attribute list.\<close>

lemma set_attribute_runs:
  assumes k: "knd d i = Element t p ns attrs"
    and atoms: "attribute_atoms (attr_from_str_in name ns) v d = ((x, xs, strs), e)"
    and e: "nodes e = nodes d"
  shows "plain_step (set_kind i (Element t p ns (upsert_attribute
      \<lparr>attr_name = attr_from_str_in name ns, attr_value = v, value_atom = x,
       value_atoms = xs, class_strings = strs\<rparr> attrs)) e) (snd (set_attribute i name v d))"
proof -
  have i: "i < length (nodes d)" using k by (intro knd_range) simp
  have ns: "element_namespace d i = ns"
    using k i by (simp add: element_namespace_def node_index_def nth_links)
  have ki: "kind (nodes d ! i) = Element t p ns attrs" using k i by (simp add: nth_links)
  show ?thesis
    using i e by (auto simp: set_attribute_def ns atoms Let_def node_index_def ki
        intro!: plain_checked_then)
qed

lemma set_attribute_atoms_ok: "atoms_ok d \<Longrightarrow> atoms_ok (snd (set_attribute i name v d))"
proof -
  assume ok: "atoms_ok d"
  let ?a = "attr_from_str_in name (element_namespace d i)"
  obtain x xs strs e where run: "attribute_atoms ?a v d = ((x, xs, strs), e)"
    using prod_cases3 by (metis surj_pair)
  note e = attribute_atoms_ok[OF ok run]
  show ?thesis
  proof (cases "knd d i")
    case (Element t p ns attrs)
    have i: "i < length (nodes d)" using Element by (intro knd_range) simp
    have ns: "element_namespace d i = ns"
      using Element i by (simp add: element_namespace_def node_index_def nth_links)
    have "knd e i = knd d i" using e by (simp add: knd_def)
    then have attrs: "attrs_of e i = attrs" using Element by (simp add: attrs_of_def)
    have "atoms_ok (set_kind i (Element t p ns (upsert_attribute
        \<lparr>attr_name = ?a, attr_value = v, value_atom = x, value_atoms = xs,
         class_strings = strs\<rparr> attrs)) e)"
    proof (rule atoms_ok_set_kind)
      show "atoms_ok e" "i < length (nodes e)" using e i by simp_all
      show "distinct (map attr_name (upsert_attribute \<lparr>attr_name = ?a, attr_value = v,
          value_atom = x, value_atoms = xs, class_strings = strs\<rparr> attrs))" if "atoms_inv e"
        using that attrs by (intro upsert_distinct) (auto simp: atoms_inv_def)
    next
      fix y
      assume "atoms_inv e" "interner_fits (interner e)"
        "y \<in> set (upsert_attribute \<lparr>attr_name = ?a, attr_value = v, value_atom = x,
           value_atoms = xs, class_strings = strs\<rparr> attrs)"
      then show "attr_atoms_ok (interner e) y"
        using e attrs upsert_set by (fastforce simp: atoms_inv_def)
    qed
    then show ?thesis
      using set_attribute_runs[OF Element run[unfolded ns]] e ns atoms_ok_plain by auto
  qed (use e run in \<open>auto simp: set_attribute_def Let_def node_index_def knd_def split: if_splits\<close>)
qed

lemma remove_attribute_runs:
  assumes k: "knd d i = Element t p ns attrs"
  shows "case position (\<lambda>x. attr_name x = attr_from_str_in name ns) attrs of
      None \<Rightarrow> remove_attribute i name d = (Inr False, d)
    | Some k \<Rightarrow> plain_step (set_kind i (Element t p ns (remove_at k attrs)) d)
        (snd (remove_attribute i name d))"
proof -
  have i: "i < length (nodes d)" using k by (intro knd_range) simp
  have ns: "element_namespace d i = ns"
    using k i by (simp add: element_namespace_def node_index_def nth_links)
  have ki: "kind (nodes d ! i) = Element t p ns attrs" using k i by (simp add: nth_links)
  show ?thesis
    using i by (auto simp: remove_attribute_def ns Let_def node_index_def ki
        intro!: plain_checked_then split: option.split)
qed

lemma remove_attribute_atoms_ok: "atoms_ok d \<Longrightarrow> atoms_ok (snd (remove_attribute i name d))"
proof -
  assume ok: "atoms_ok d"
  show ?thesis
  proof (cases "knd d i")
    case (Element t p ns attrs)
    have i: "i < length (nodes d)" using Element by (intro knd_range) simp
    have attrs: "attrs_of d i = attrs" using Element by (simp add: attrs_of_def)
    have "atoms_ok (set_kind i (Element t p ns (remove_at k attrs)) d)" for k
    proof (rule atoms_ok_set_kind[OF ok i])
      show "distinct (map attr_name (remove_at k attrs))" if "atoms_inv d"
        using that attrs remove_at_distinct by (auto simp: atoms_inv_def remove_at_map)
      show "attr_atoms_ok (interner d) x" if "atoms_inv d" "x \<in> set (remove_at k attrs)" for x
        using that attrs remove_at_set[of x k attrs] by (auto simp: atoms_inv_def)
    qed
    then show ?thesis
      using remove_attribute_runs[OF Element, of name] ok atoms_ok_plain
      by (auto split: option.splits)
  qed (use ok in \<open>auto simp: remove_attribute_def Let_def node_index_def knd_def split: if_splits\<close>)
qed

lemma import_subtree_atoms_ok: "atoms_ok d \<Longrightarrow> atoms_ok (snd (import_subtree n src s p d))"
proof (induction n arbitrary: s p d)
  case (Suc n)
  have lift: "atoms_ok (snd (sm_lift g e))" if "atoms_ok (snd (g e))" for e and g :: "dom \<Rightarrow> nat \<times> dom"
    using that by (simp add: sm_lift_def case_prod_beta)
  have attrs: "atoms_ok (snd (sm_then (sm_each (\<lambda>(a, v). set_attribute el a v) ps) (sm_return el) e))"
    if "atoms_ok e" for el ps e
    by (rule sm_then_inv[where P = atoms_ok])
      (auto simp: that intro!: sm_each_inv[where P = atoms_ok] set_attribute_atoms_ok)
  have plain: "atoms_ok (snd (create_document_fragment e))" "atoms_ok (snd (create_text t e))"
    "atoms_ok (snd (create_comment t e))" "atoms_ok (snd (create_doctype a b c e))"
    "atoms_ok (snd (create_element_ns_local l q ns e))" "atoms_ok (snd (append_child i j e))"
    if "atoms_ok e" for e t a b c l q ns i j
    by (rule atoms_ok_plain[OF _ that], simp)+
  have node: "atoms_ok (snd (import_node src s e))" if "atoms_ok e" for e
    unfolding import_node_def
    by (rule sm_bind_inv[where P = atoms_ok])
      (auto simp: that Let_def intro!: lift plain sm_bind_inv[where P = atoms_ok] attrs
        split: node_kind.split)
  have each: "atoms_ok (snd (sm_each (\<lambda>c. import_subtree n src c q) cs e))" if "atoms_ok e" for cs q e
    by (rule sm_each_inv[where P = atoms_ok]) (use that Suc.IH in auto)
  show ?case
    unfolding import_subtree.simps
    by (rule sm_bind_inv[where P = atoms_ok])
      (auto simp: Suc.prems node plain
        intro!: sm_bind_inv[where P = atoms_ok] sm_then_inv[where P = atoms_ok] each
        split: option.split)
qed simp

section \<open>Materialization\<close>

lemma materialize_attrs [simp]:
  "attrs_of (materialize_resolve_table d) = attrs_of d"
  "interner (materialize_resolve_table d) = interner d"
  by (rule attrs_of_links, simp add: fun_eq_iff)
    (simp add: materialize_resolve_table_def Let_def)

lemma materialize_table:
  assumes "prefix (resolve_table d) (interned (interner d))"
  shows "resolve_table (materialize_resolve_table d) = interned (interner d)"
  using assms by (auto simp: materialize_resolve_table_def Let_def prefix_def)

lemma materialize_atoms_ok: "atoms_ok d \<Longrightarrow> atoms_ok (materialize_resolve_table d)"
  by (auto simp: atoms_ok_def atoms_inv_def materialize_table)

lemma end_batch_table:
  assumes "batch_depth d = 1" and "prefix (resolve_table d) (interned (interner d))"
  shows "resolve_table (end_mutation_batch d) = interned (interner (end_mutation_batch d))"
proof -
  let ?e = "flush_dirty_batch (d\<lparr>batch_depth := 0\<rparr>)"
  have "interner ?e = interner d" "resolve_table ?e = resolve_table d" by simp_all
  then show ?thesis
    using materialize_table[of ?e] assms by (simp add: end_mutation_batch_def Let_def)
qed

lemma end_batch_atoms_ok: "atoms_ok d \<Longrightarrow> atoms_ok (end_mutation_batch d)"
proof -
  assume ok: "atoms_ok d"
  let ?e = "d\<lparr>batch_depth := batch_depth d - 1\<rparr>"
  have "plain_step d ?e" "plain_step d (flush_dirty_batch ?e)"
    by (simp_all add: plain_step_def attrs_of_def fun_eq_iff knd_def)
  then have "atoms_ok ?e" "atoms_ok (flush_dirty_batch ?e)" using ok atoms_ok_plain by blast+
  moreover have "atoms_ok (f\<lparr>generation := g\<rparr>)" if "atoms_ok f" for f g
    by (rule atoms_ok_plain[OF _ that]) (simp add: plain_step_def attrs_of_def fun_eq_iff knd_def)
  ultimately show ?thesis
    using ok materialize_atoms_ok
    by (cases "batch_depth d = 1") (auto simp: end_mutation_batch_def Let_def)
qed

lemma dom_intern_atoms_ok: "atoms_ok d \<Longrightarrow> atoms_ok (snd (dom_intern v d))"
  using intern_all_atoms(1)[of d "[v]"] by (simp add: dom_intern_def case_prod_beta Let_def)

lemma dom_step_atoms_ok: "dom_step d d' \<Longrightarrow> atoms_ok d \<Longrightarrow> atoms_ok d'"
  by (induction rule: dom_step.induct)
    (auto intro: set_attribute_atoms_ok remove_attribute_atoms_ok import_subtree_atoms_ok
      materialize_atoms_ok end_batch_atoms_ok dom_intern_atoms_ok
      atoms_ok_plain[OF plain_insert_before[OF plain_refl]]
      atoms_ok_plain[OF plain_pre_insert[OF plain_refl]]
      atoms_ok_plain[OF plain_append_text[OF plain_refl]] atoms_ok_plain[rotated])

lemma dom_reachable_atoms_ok: "dom_reachable inst d \<Longrightarrow> atoms_ok d"
proof (induction rule: dom_reachable.induct)
  case reach_new
  show ?case
    by (simp add: atoms_ok_def atoms_inv_def dom_new_def Let_def attrs_of_def knd_def)
qed (rule dom_step_atoms_ok)

end
