(* ===== verification/Dom_Reading.thy ===== *)
theory Dom_Reading
  imports Dom_Atoms
begin

text \<open>
  Reading attributes back: what \<open>set_attribute\<close> and \<open>remove_attribute\<close> leave for the
  readers, the faithfulness of the atoms, and the lock-free table at the end of a batch.
\<close>

section \<open>Reading attributes back\<close>

lemma same_tree_checked_queue:
  assumes "same_tree d e"
  shows "same_tree d (snd (sm_then (checked_attribute_changed i c) (sm_do (queue_mutation j k)) e))"
proof (rule sm_then_inv[where P = "same_tree d"])
  show "same_tree d e" by (rule assms)
  show "same_tree d (snd (checked_attribute_changed i c f))" if "same_tree d f" for f
    using that checked_attribute_changed_same_tree by (rule same_tree_trans)
  show "same_tree d (snd (sm_do (queue_mutation j k) f))" if "same_tree d f" for f
    using that by simp
qed

lemma same_tree_checked_then:
  assumes "same_tree d e"
  shows "same_tree d (snd (sm_then (checked_attribute_changed i c)
      (sm_then (sm_do (queue_mutation j k)) (sm_return b)) e))"
proof (rule sm_then_inv[where P = "same_tree d"])
  show "same_tree d e" by (rule assms)
  show "same_tree d (snd (checked_attribute_changed i c f))" if "same_tree d f" for f
    using that checked_attribute_changed_same_tree by (rule same_tree_trans)
  show "same_tree d (snd (sm_then (sm_do (queue_mutation j k)) (sm_return b) f))"
    if "same_tree d f" for f
    using that by (intro sm_then_inv[where P = "same_tree d"]) simp_all
qed

lemma radio_names:
  "attr_from_str ''CLASS'' = AttrClass" "attr_from_str ''class'' = AttrClass"
  "attr_from_str ''Type'' = AttrType" "attr_from_str ''TYPE'' = AttrType"
  "attr_from_str ''type'' = AttrType"
  by code_simp+

lemma same_tree_knd: "same_tree d e \<Longrightarrow> knd e = knd d"
  by (simp add: same_tree_def relinked_def same_frame_def)

lemma snapshot_element:
  "knd d i = Element t p ns attrs \<Longrightarrow>
    attribute_snapshot d i name =
      map_option attr_value (find (\<lambda>x. attr_name x = attr_from_str_in name ns) attrs)"
proof -
  assume k: "knd d i = Element t p ns attrs"
  then have "i < length (nodes d)" by (intro knd_range) simp
  then show ?thesis
    using k by (simp add: attribute_snapshot_def element_namespace_def node_index_def nth_links)
qed

text \<open>On an element, \<open>set_attribute\<close> succeeds, and afterwards the attribute reads back as the
  value under every spelling of its name the element's namespace identifies, while every other
  attribute reads as before.\<close>

theorem set_attribute_reads:
  assumes reach: "dom_reachable inst d" and k: "knd d i = Element t p ns attrs"
  shows "\<exists>d'. set_attribute i name v d = (Inr (), d')
    \<and> (\<forall>other. attribute_snapshot d' i other =
         (if attr_from_str_in other ns = attr_from_str_in name ns then Some v
          else attribute_snapshot d i other))"
proof -
  have inv: "tree_inv d" using reach by (rule dom_reachable_inv)
  have i: "i < length (nodes d)" using k by (intro knd_range) simp
  have ns: "element_namespace d i = ns"
    using k i by (simp add: element_namespace_def node_index_def nth_links)
  obtain x xs strs e where run: "attribute_atoms (attr_from_str_in name ns) v d = ((x, xs, strs), e)"
    by (metis surj_pair)
  have same: "same_tree d e" using attribute_atoms_same_tree[of d "attr_from_str_in name ns" v] run by simp
  have einv: "tree_inv e" using same inv by (rule same_tree_inv)
  have e: "length (nodes e) = length (nodes d)" "knd e = knd d"
    using same by (simp_all add: same_tree_def relinked_def same_frame_def)
  have ki: "kind (nodes e ! i) = Element t p ns attrs" using k i e by (simp add: nth_links)
  let ?new = "\<lparr>attr_name = attr_from_str_in name ns, attr_value = v, value_atom = x,
    value_atoms = xs, class_strings = strs\<rparr>"
  let ?f = "set_kind i (Element t p ns (upsert_attribute ?new attrs)) e"
  have finv: "tree_inv ?f" using element_kind_tree_inv[OF einv] k e by simp
  have "fst (set_attribute i name v d) = Inr ()"
    using i e finv by (auto simp: set_attribute_def ns run Let_def node_index_def ki safe_checked_then)
  moreover have "same_tree ?f (snd (set_attribute i name v d))"
    using i e by (auto simp: set_attribute_def ns run Let_def node_index_def ki
        intro!: same_tree_checked_queue same_tree_checked_then)
  then have "knd (snd (set_attribute i name v d)) i = Element t p ns (upsert_attribute ?new attrs)"
    using i e by (simp add: same_tree_knd)
  then have "\<forall>other. attribute_snapshot (snd (set_attribute i name v d)) i other =
      (if attr_from_str_in other ns = attr_from_str_in name ns then Some v
       else attribute_snapshot d i other)"
    using k by (simp add: snapshot_element upsert_find)
  ultimately show ?thesis by (metis prod.collapse)
qed

theorem set_attribute_reads_witness:
  "\<exists>d'. set_attribute 2 ''CLASS'' ''b'' radio_dom = (Inr (), d')
    \<and> attribute_snapshot d' 2 ''class'' = Some ''b'' \<and> attribute_snapshot d' 2 ''Type'' = Some ''radio''"
proof -
  have k: "knd radio_dom 2 = Element TagInput None NsHtml
      [\<lparr>attr_name = AttrType, attr_value = ''radio'', value_atom = Some (Atom 0),
        value_atoms = [], class_strings = []\<rparr>,
       \<lparr>attr_name = AttrName, attr_value = ''g'', value_atom = Some (Atom 1),
        value_atoms = [], class_strings = []\<rparr>]"
    by (simp add: knd_def radio_value)
  show ?thesis
    using set_attribute_reads[OF radio_reachable k, of "''CLASS''" "''b''"]
    by (auto simp: snapshot_element[OF k] radio_names)
qed

text \<open>\<open>remove_attribute\<close> on an element reports whether the attribute was present; afterwards it is
  absent under every spelling of its name, and every other attribute reads as before.\<close>

theorem remove_attribute_reads:
  assumes reach: "dom_reachable inst d" and k: "knd d i = Element t p ns attrs"
    and fits: "length (interned (interner d)) \<le> 2 ^ 32"
  shows "\<exists>d'. remove_attribute i name d = (Inr (attribute_snapshot d i name \<noteq> None), d')
    \<and> (\<forall>other. attribute_snapshot d' i other =
         (if attr_from_str_in other ns = attr_from_str_in name ns then None
          else attribute_snapshot d i other))"
proof -
  have inv: "tree_inv d" using reach by (rule dom_reachable_inv)
  have dist: "distinct (map attr_name attrs)"
    using dom_reachable_atoms_ok[OF reach] fits k
    by (auto simp: atoms_ok_def interner_fits_def atoms_inv_def attrs_of_def dest: spec[of _ i])
  have i: "i < length (nodes d)" using k by (intro knd_range) simp
  have ns: "element_namespace d i = ns"
    using k i by (simp add: element_namespace_def node_index_def nth_links)
  have ki: "kind (nodes d ! i) = Element t p ns attrs" using k i by (simp add: nth_links)
  let ?a = "attr_from_str_in name ns"
  show ?thesis
  proof (cases "position (\<lambda>x. attr_name x = ?a) attrs")
    case None
    then have "find (\<lambda>x. attr_name x = ?a) attrs = None"
      by (simp add: position_None_iff find_None_iff)
    then show ?thesis
      using None i by (auto simp: remove_attribute_def ns Let_def node_index_def ki snapshot_element[OF k])
  next
    case (Some pos)
    have pos: "pos < length attrs" "attr_name (attrs ! pos) = ?a" using position_SomeD[OF Some] by auto
    have find: "find (\<lambda>x. attr_name x = n) (remove_at pos attrs) =
        (if n = ?a then None else find (\<lambda>x. attr_name x = n) attrs)" for n
      using find_remove_at[OF dist pos(1)] pos(2) by simp
    let ?f = "set_kind i (Element t p ns (remove_at pos attrs)) d"
    have finv: "tree_inv ?f" using element_kind_tree_inv[OF inv k] by simp
    have "find (\<lambda>x. attr_name x = ?a) attrs \<noteq> None"
      using pos by (auto simp: find_None_iff in_set_conv_nth)
    then have "fst (remove_attribute i name d) = Inr (attribute_snapshot d i name \<noteq> None)"
      using i finv Some
      by (auto simp: remove_attribute_def ns Let_def node_index_def ki safe_checked_then
          snapshot_element[OF k])
    moreover have "same_tree ?f (snd (remove_attribute i name d))"
      using i Some by (auto simp: remove_attribute_def ns Let_def node_index_def ki
          intro!: same_tree_checked_queue same_tree_checked_then)
    then have "knd (snd (remove_attribute i name d)) i = Element t p ns (remove_at pos attrs)"
      using i by (simp add: same_tree_knd)
    then have "\<forall>other. attribute_snapshot (snd (remove_attribute i name d)) i other =
        (if attr_from_str_in other ns = ?a then None else attribute_snapshot d i other)"
      using k by (simp add: snapshot_element find)
    ultimately show ?thesis by (metis prod.collapse)
  qed
qed

theorem remove_attribute_reads_witness:
  "\<exists>d'. remove_attribute 2 ''TYPE'' radio_dom = (Inr True, d') \<and> attribute_snapshot d' 2 ''type'' = None"
proof -
  have k: "knd radio_dom 2 = Element TagInput None NsHtml
      [\<lparr>attr_name = AttrType, attr_value = ''radio'', value_atom = Some (Atom 0),
        value_atoms = [], class_strings = []\<rparr>,
       \<lparr>attr_name = AttrName, attr_value = ''g'', value_atom = Some (Atom 1),
        value_atoms = [], class_strings = []\<rparr>]"
    by (simp add: knd_def radio_value)
  have fits: "length (interned (interner radio_dom)) \<le> 2 ^ 32"
    by (simp add: radio_dom_def attribute_exec radio_base_value)
  show ?thesis
    using remove_attribute_reads[OF radio_reachable k fits, of "''TYPE''"]
    by (auto simp: snapshot_element[OF k] radio_names)
qed

text \<open>As long as no more than 2^32 strings have been interned, every element of a reachable arena
  has attributes with distinct names, and the atoms each carries are those of its current value:
  the class atoms resolve, in order, to the internable tokens of the class list, and any other
  atom resolves to the whole value and is present exactly when the value may be interned.\<close>

theorem attribute_atoms_faithful:
  assumes "dom_reachable inst d" and "length (interned (interner d)) \<le> 2 ^ 32"
    and "attributes d i = Inr attrs"
  shows "distinct (map attr_name attrs) \<and> (\<forall>a \<in> set attrs. attr_atoms_ok (interner d) a)"
proof -
  have "attrs_of d i = attrs"
    using assms(3) by (auto simp: attributes_def node_index_def attrs_of_def knd_def
        split: if_splits node_kind.splits)
  then show ?thesis
    using dom_reachable_atoms_ok[OF assms(1)] assms(2)
    by (auto simp: atoms_ok_def interner_fits_def atoms_inv_def)
qed

theorem attribute_atoms_faithful_witness:
  "resolve (interner radio_dom) (Atom 1) = Some ''g''"
proof -
  have a: "attributes radio_dom 2 = Inr
      [\<lparr>attr_name = AttrType, attr_value = ''radio'', value_atom = Some (Atom 0),
        value_atoms = [], class_strings = []\<rparr>,
       \<lparr>attr_name = AttrName, attr_value = ''g'', value_atom = Some (Atom 1),
        value_atoms = [], class_strings = []\<rparr>]"
    by (simp add: attributes_def node_index_def radio_value)
  have fits: "length (interned (interner radio_dom)) \<le> 2 ^ 32"
    by (simp add: radio_dom_def attribute_exec radio_base_value)
  show ?thesis
    using attribute_atoms_faithful[OF radio_reachable fits a] by (simp add: attr_atoms_ok_def)
qed

text \<open>Closing the outermost mutation batch makes the lock-free table complete: every atom then
  resolves through the table to what it resolves to through the interner.\<close>

theorem batch_end_resolves:
  assumes "dom_reachable inst d" and "length (interned (interner d)) \<le> 2 ^ 32"
    and "batch_depth d = 1"
  shows "resolve_fast (end_mutation_batch d) a = dom_resolve (end_mutation_batch d) a"
proof -
  have "prefix (resolve_table d) (interned (interner d))"
    using dom_reachable_atoms_ok[OF assms(1)] assms(2)
    by (simp add: atoms_ok_def interner_fits_def atoms_inv_def)
  from end_batch_table[OF assms(3) this] show ?thesis
    by (simp add: resolve_fast_def dom_resolve_def resolve_def)
qed

theorem batch_end_resolves_witness:
  "resolve_fast (end_mutation_batch (begin_mutation_batch radio_dom)) (Atom 1)
    = dom_resolve (end_mutation_batch (begin_mutation_batch radio_dom)) (Atom 1)"
  by (rule batch_end_resolves[OF reach_step[OF radio_reachable dom_step.intros(21)]])
    (simp_all add: radio_dom_def attribute_exec radio_base_value begin_mutation_batch_def)

end
