(* ===== verification/Css_Selector.thy ===== *)
theory Css_Selector
  imports Css_Token Interner Dom_Names Rust_Num "HOL-Library.Signed_Division"
begin

text \<open>
  Selectors and their parser (\<open>crates/silksurf-css/src/selector.rs\<close>). The token position is the
  list of remaining tokens. The parser is written over \<open>nested\<close>, the function that reads the
  argument of a functional pseudo-class; \<open>parse_selector_list\<close> ties it to itself, which terminates
  because an argument has fewer tokens than the list around it.
\<close>

section \<open>Data\<close>

record sel_ident =
  ident_value :: string
  ident_atom :: "atom option"

definition ident_new :: "string \<Rightarrow> sel_ident" where
  "ident_new v = \<lparr>ident_value = v, ident_atom = None\<rparr>"

definition ident_new_with_interner :: "string \<Rightarrow> silk_interner \<Rightarrow> sel_ident \<times> silk_interner" where
  "ident_new_with_interner v it =
     (if should_intern_identifier v
      then let (a, it) = intern v it in (\<lparr>ident_value = v, ident_atom = Some a\<rparr>, it)
      else (ident_new v, it))"

definition ident_new_with_atom :: "string \<Rightarrow> atom \<Rightarrow> sel_ident" where
  "ident_new_with_atom v a = \<lparr>ident_value = v, ident_atom = Some a\<rparr>"

definition ident_intern_with :: "sel_ident \<Rightarrow> silk_interner \<Rightarrow> sel_ident \<times> silk_interner" where
  "ident_intern_with i it =
     (if ident_atom i = None \<and> should_intern_identifier (ident_value i)
      then let (a, it) = intern (ident_value i) it in (i\<lparr>ident_atom := Some a\<rparr>, it)
      else (i, it))"

definition ident_clear_atom :: "sel_ident \<Rightarrow> sel_ident" where
  "ident_clear_atom i = i\<lparr>ident_atom := None\<rparr>"

text \<open>The \<open>PartialEq\<close> of the source: atoms when both have one, text otherwise.\<close>

definition ident_eq :: "sel_ident \<Rightarrow> sel_ident \<Rightarrow> bool" where
  "ident_eq i j =
     (case (ident_atom i, ident_atom j) of
        (Some a, Some b) \<Rightarrow> a = b
      | _ \<Rightarrow> ident_value i = ident_value j)"

type_synonym i32 = "32 word"

record nth_index =
  nth_a :: i32
  nth_b :: i32

text \<open>Arithmetic of the release profile: the subtraction wraps; the remainder of the least value
  by \<open>-1\<close> is a panic in every profile, \<open>None\<close> here.\<close>

definition i32_rem_overflows :: "i32 \<Rightarrow> i32 \<Rightarrow> bool" where
  "i32_rem_overflows x y \<longleftrightarrow> sint x = - (2 ^ 31) \<and> sint y = - 1"

definition nth_matches :: "nth_index \<Rightarrow> nat \<Rightarrow> bool option" where
  "nth_matches n pos =
     (if pos = 0 then Some False
      else
        (let p = (word_of_nat pos :: i32)
         in if nth_a n = 0 then Some (p = nth_b n)
            else
              (let diff = p - nth_b n
               in if i32_rem_overflows diff (nth_a n) then None
                  else Some (sint diff smod sint (nth_a n) = 0 \<and> 0 \<le> sint diff sdiv sint (nth_a n)))))"

datatype combinator = Descendant | Child | NextSibling | SubsequentSibling

datatype type_selector = AnyType | TagType tag_name

datatype attribute_operator =
    Equals | Includes | DashMatch | PrefixMatch | SuffixMatch | SubstringMatch

record attribute_selector =
  as_name :: attribute_name
  as_operator :: "attribute_operator option"
  as_value :: "sel_ident option"

datatype selector = Selector "selector_step list"
  and selector_step = SelectorStep "combinator option" compound
  and compound = Compound "type_selector option" "selector_modifier list"
  and selector_modifier =
    ClassMod sel_ident | IdMod sel_ident | AttributeMod attribute_selector | PseudoMod sel_ident
  | FunctionalMod sel_ident pseudo_arg
  and pseudo_arg = NthArg nth_index | ListArg "selector list"

type_synonym selector_list = "selector list"

section \<open>The parser state\<close>

record sel_parser =
  tokens :: "css_token list"
  names :: "silk_interner option"
  invalid :: bool

definition with_eof :: "css_token list \<Rightarrow> css_token list" where
  "with_eof ts = (if ts \<noteq> [] \<and> last ts = Eof then ts else ts @ [Eof])"

definition sel_parser_new :: "css_token list \<Rightarrow> silk_interner option \<Rightarrow> sel_parser" where
  "sel_parser_new ts it = \<lparr>tokens = with_eof ts, names = it, invalid = False\<rparr>"

definition peek :: "css_token list \<Rightarrow> css_token option" where
  "peek ts = (case ts of [] \<Rightarrow> None | t # _ \<Rightarrow> Some t)"

definition peek_n :: "css_token list \<Rightarrow> nat \<Rightarrow> css_token option" where
  "peek_n ts n = (if n < length ts then Some (ts ! n) else None)"

definition skip_token :: "sel_parser \<Rightarrow> sel_parser" where
  "skip_token st = st\<lparr>tokens := tl (tokens st)\<rparr>"

definition is_eof :: "css_token list \<Rightarrow> bool" where
  "is_eof ts \<longleftrightarrow> peek ts = Some Eof \<or> peek ts = None"

definition skip_ws :: "css_token list \<Rightarrow> css_token list" where
  "skip_ws ts = dropWhile (\<lambda>t. t = Whitespace) ts"

definition consume_whitespace :: "sel_parser \<Rightarrow> bool \<times> sel_parser" where
  "consume_whitespace st =
     (peek (tokens st) = Some Whitespace, st\<lparr>tokens := skip_ws (tokens st)\<rparr>)"

definition make_ident :: "string \<Rightarrow> sel_parser \<Rightarrow> sel_ident \<times> sel_parser" where
  "make_ident v st =
     (case names st of
        Some it \<Rightarrow> let (i, it) = ident_new_with_interner v it in (i, st\<lparr>names := Some it\<rparr>)
      | None \<Rightarrow> (ident_new v, st))"

fun skip_to_bracket_close :: "css_token list \<Rightarrow> css_token list" where
  "skip_to_bracket_close [] = []"
| "skip_to_bracket_close (t # ts) =
     (if t = BracketClose \<or> t = Eof then ts else skip_to_bracket_close ts)"

fun opens_paren :: "css_token \<Rightarrow> bool" where
  "opens_paren ParenOpen = True"
| "opens_paren (Function _) = True"
| "opens_paren _ = False"

fun skip_parens :: "nat \<Rightarrow> css_token list \<Rightarrow> css_token list" where
  "skip_parens depth [] = []"
| "skip_parens depth (t # ts) =
     (if opens_paren t then skip_parens (Suc depth) ts
      else if t = ParenClose then (if depth = 0 then ts else skip_parens (depth - 1) ts)
      else if t = Eof then ts
      else skip_parens depth ts)"

definition skip_parens_close :: "css_token list \<Rightarrow> css_token list" where
  "skip_parens_close ts =
     (let ts = skip_ws ts in if peek ts = Some ParenClose then tl ts else ts)"

fun collect_paren_tokens :: "nat \<Rightarrow> css_token list \<Rightarrow> css_token list \<times> css_token list" where
  "collect_paren_tokens depth [] = ([], [])"
| "collect_paren_tokens depth (t # ts) =
     (if opens_paren t then apfst ((#) t) (collect_paren_tokens (Suc depth) ts)
      else if t = ParenClose then
        (if depth = 0 then ([], ts) else apfst ((#) ParenClose) (collect_paren_tokens (depth - 1) ts))
      else if t = Eof then ([], ts)
      else apfst ((#) t) (collect_paren_tokens depth ts))"

section \<open>The An+B notation\<close>

text \<open>\<open>str::parse::<i32>\<close>: an optional sign and decimal digits, within range.\<close>

definition parse_i32 :: "string \<Rightarrow> i32 option" where
  "parse_i32 s =
     (let (neg, ds) = (case s of
            c # r \<Rightarrow> if c = CHR ''-'' then (True, r) else if c = CHR ''+'' then (False, r) else (False, s)
          | [] \<Rightarrow> (False, []));
          v = (if neg then - digits_value ds else digits_value ds)
      in if ds \<noteq> [] \<and> list_all ascii_digit ds \<and> - (2 ^ 31) \<le> v \<and> v < 2 ^ 31
         then Some (word_of_int v) else None)"

definition i32_or_zero :: "string \<Rightarrow> i32" where
  "i32_or_zero s = (case parse_i32 s of Some v \<Rightarrow> v | None \<Rightarrow> 0)"

definition parse_nth_b_part :: "css_token list \<Rightarrow> i32 \<times> css_token list" where
  "parse_nth_b_part ts =
     (let ts = skip_ws ts
      in case peek ts of
           Some (Delim c) \<Rightarrow>
             if c = 43 \<or> c = 45 then
               (let ts = skip_ws (tl ts)
                in case peek ts of
                     Some (Number n) \<Rightarrow> (if c = 43 then i32_or_zero n else - i32_or_zero n, tl ts)
                   | _ \<Rightarrow> (0, tl ts))
             else (0, ts)
         | Some (Number n) \<Rightarrow>
             if starts_with ''+'' n \<or> starts_with ''-'' n then (i32_or_zero n, tl ts) else (0, ts)
         | _ \<Rightarrow> (0, ts))"

definition nth_with_b :: "i32 \<Rightarrow> css_token list \<Rightarrow> nth_index \<times> css_token list" where
  "nth_with_b a ts = (let (b, ts) = parse_nth_b_part ts in (\<lparr>nth_a = a, nth_b = b\<rparr>, skip_parens_close ts))"

definition parse_nth_index :: "css_token list \<Rightarrow> nth_index \<times> css_token list" where
  "parse_nth_index ts =
     (let ts = skip_ws ts; none = (\<lparr>nth_a = 0, nth_b = 0\<rparr>, skip_parens 0 ts)
      in case peek ts of
           Some (Ident v) \<Rightarrow>
             (let lower = to_ascii_lowercase v
              in if lower = ''odd'' then (\<lparr>nth_a = 2, nth_b = 1\<rparr>, skip_parens_close (tl ts))
                 else if lower = ''even'' then (\<lparr>nth_a = 2, nth_b = 0\<rparr>, skip_parens_close (tl ts))
                 else if lower = ''n'' then nth_with_b 1 (tl ts)
                 else if lower = ''-n'' then nth_with_b (- 1) (tl ts)
                 else none)
         | Some (Number n) \<Rightarrow> (\<lparr>nth_a = 0, nth_b = i32_or_zero n\<rparr>, skip_parens_close (tl ts))
         | Some (Dimension v unit) \<Rightarrow>
             if eq_ignore_ascii_case unit ''n'' then nth_with_b (i32_or_zero v) (tl ts) else none
         | _ \<Rightarrow> none)"

section \<open>Attribute selectors\<close>

definition parse_attribute_operator :: "css_token list \<Rightarrow> attribute_operator option \<times> css_token list" where
  "parse_attribute_operator ts =
     (case peek ts of
        Some (Delim c) \<Rightarrow>
          if c = 61 then (Some Equals, tl ts)
          else if peek_n ts 1 = Some (Delim 61) then
            (if c = 126 then (Some Includes, drop 2 ts)
             else if c = 124 then (Some DashMatch, drop 2 ts)
             else if c = 94 then (Some PrefixMatch, drop 2 ts)
             else if c = 36 then (Some SuffixMatch, drop 2 ts)
             else if c = 42 then (Some SubstringMatch, drop 2 ts)
             else (None, ts))
          else (None, ts)
      | _ \<Rightarrow> (None, ts))"

text \<open>The token is consumed whatever it is.\<close>

definition parse_attribute_value :: "sel_parser \<Rightarrow> sel_ident option \<times> sel_parser" where
  "parse_attribute_value st =
     (let st' = skip_token st
      in case peek (tokens st) of
           Some (Ident v) \<Rightarrow> apfst Some (make_ident v st')
         | Some (StringTok v) \<Rightarrow> apfst Some (make_ident v st')
         | Some (Number v) \<Rightarrow> apfst Some (make_ident v st')
         | Some (Dimension v unit) \<Rightarrow> apfst Some (make_ident (v @ unit) st')
         | _ \<Rightarrow> (None, st'))"

definition skip_ws_st :: "sel_parser \<Rightarrow> sel_parser" where
  "skip_ws_st st = snd (consume_whitespace st)"

definition parse_attribute_selector :: "sel_parser \<Rightarrow> selector_modifier option \<times> sel_parser" where
  "parse_attribute_selector st =
     (let st = skip_ws_st (skip_token st)
      in case peek (tokens st) of
           Some (Ident v) \<Rightarrow>
             (let nm = attr_from_str v;
                  st = skip_ws_st (skip_token st);
                  (op, ts) = parse_attribute_operator (tokens st);
                  st = st\<lparr>tokens := ts\<rparr>;
                  (vl, st) = (case op of
                      None \<Rightarrow> (None, st)
                    | Some _ \<Rightarrow> apsnd skip_ws_st (parse_attribute_value (skip_ws_st st)))
              in if peek (tokens st) \<noteq> Some BracketClose
                 then (None, st\<lparr>tokens := skip_to_bracket_close (tokens st)\<rparr>)
                 else (Some (AttributeMod \<lparr>as_name = nm, as_operator = op, as_value = vl\<rparr>),
                       skip_token st))
         | _ \<Rightarrow> (None, st\<lparr>tokens := skip_to_bracket_close (tokens (skip_token st))\<rparr>))"

section \<open>Functional pseudo-classes\<close>

text \<open>The pseudo-classes a forgiving list accepts.\<close>

definition supported_pseudos :: "string list" where
  "supported_pseudos =
     [''root'', ''empty'', ''first-child'', ''last-child'', ''only-child'', ''first-of-type'',
      ''last-of-type'', ''only-of-type'', ''hover'', ''focus'', ''active'', ''focus-visible'',
      ''focus-within'', ''target'', ''local-link'', ''visited'', ''any-link'', ''link'', ''disabled'',
      ''enabled'', ''checked'', ''indeterminate'', ''required'', ''optional'', ''read-write'',
      ''read-only'', ''placeholder-shown'', ''scope'', ''defined'', ''valid'', ''invalid'',
      ''in-range'', ''out-of-range'', ''user-valid'', ''user-invalid'', ''playing'', ''paused'']"

fun selector_supported :: "selector \<Rightarrow> bool"
  and step_supported :: "selector_step \<Rightarrow> bool"
  and compound_supported :: "compound \<Rightarrow> bool"
  and modifier_supported :: "selector_modifier \<Rightarrow> bool"
  and arg_supported :: "pseudo_arg \<Rightarrow> bool"
where
  "selector_supported (Selector steps) = list_all step_supported steps"
| "step_supported (SelectorStep c cp) = compound_supported cp"
| "compound_supported (Compound t ms) = list_all modifier_supported ms"
| "modifier_supported (PseudoMod i) =
     (to_ascii_lowercase (ident_value i) \<in> set supported_pseudos)"
| "modifier_supported (FunctionalMod i arg) = arg_supported arg"
| "modifier_supported _ = True"
| "arg_supported (NthArg n) = True"
| "arg_supported (ListArg sels) = (sels \<noteq> [] \<and> list_all selector_supported sels)"

definition append_forgiving_arm ::
    "(css_token list \<Rightarrow> selector_list) \<Rightarrow> css_token list \<Rightarrow> selector_list" where
  "append_forgiving_arm nested arm =
     (case nested arm of
        [sel] \<Rightarrow> if selector_supported sel then [sel] else []
      | _ \<Rightarrow> [])"

text \<open>The arms between top-level commas; \<open>arm\<close> is the slice read so far.\<close>

fun forgiving_loop ::
    "(css_token list \<Rightarrow> selector_list) \<Rightarrow> nat \<Rightarrow> nat \<Rightarrow> css_token list \<Rightarrow> css_token list \<Rightarrow> selector_list"
where
  "forgiving_loop nested parens brackets arm [] = append_forgiving_arm nested arm"
| "forgiving_loop nested parens brackets arm (t # ts) =
     (if opens_paren t then forgiving_loop nested (Suc parens) brackets (arm @ [t]) ts
      else if t = ParenClose then forgiving_loop nested (parens - 1) brackets (arm @ [t]) ts
      else if t = BracketOpen then forgiving_loop nested parens (Suc brackets) (arm @ [t]) ts
      else if t = BracketClose then forgiving_loop nested parens (brackets - 1) (arm @ [t]) ts
      else if t = Comma \<and> parens = 0 \<and> brackets = 0 then
        append_forgiving_arm nested arm @ forgiving_loop nested parens brackets [] ts
      else forgiving_loop nested parens brackets (arm @ [t]) ts)"

definition parse_forgiving_selector_list ::
    "(css_token list \<Rightarrow> selector_list) \<Rightarrow> css_token list \<Rightarrow> selector_list" where
  "parse_forgiving_selector_list nested ts = forgiving_loop nested 0 0 [] ts"

definition functional_pseudo ::
    "(css_token list \<Rightarrow> selector_list) \<Rightarrow> string \<Rightarrow> sel_parser \<Rightarrow> selector_modifier option \<times> sel_parser" where
  "functional_pseudo nested nm st =
     (let lower = to_ascii_lowercase nm
      in if lower \<in> {''nth-child'', ''nth-last-child'', ''nth-of-type'', ''nth-last-of-type''} then
           (let (nth, ts) = parse_nth_index (tokens st);
                (i, st) = make_ident nm (st\<lparr>tokens := ts\<rparr>)
            in (Some (FunctionalMod i (NthArg nth)), st))
         else if lower \<in> {''not'', ''is'', ''where'', ''has''} then
           (let (inner, ts) = collect_paren_tokens 0 (tokens st);
                st = st\<lparr>tokens := ts\<rparr>;
                sels = (if lower \<in> {''is'', ''where''} then parse_forgiving_selector_list nested inner
                        else nested inner)
            in if sels = [] \<and> lower \<in> {''not'', ''has''} then (None, st\<lparr>invalid := True\<rparr>)
               else let (i, st) = make_ident nm st in (Some (FunctionalMod i (ListArg sels)), st))
         else apfst (Some \<circ> PseudoMod) (make_ident nm (st\<lparr>tokens := skip_parens 0 (tokens st)\<rparr>)))"

definition parse_pseudo_class ::
    "(css_token list \<Rightarrow> selector_list) \<Rightarrow> sel_parser \<Rightarrow> selector_modifier option \<times> sel_parser" where
  "parse_pseudo_class nested st =
     (let st = skip_token st;
          st = (if peek (tokens st) = Some Colon then skip_token st else st);
          st' = skip_token st
      in case peek (tokens st) of
           Some (Ident v) \<Rightarrow> apfst (Some \<circ> PseudoMod) (make_ident v st')
         | Some (Function v) \<Rightarrow> functional_pseudo nested v st'
         | _ \<Rightarrow> (None, st'))"

section \<open>Compound selectors\<close>

definition parse_class_selector :: "sel_parser \<Rightarrow> selector_modifier option \<times> sel_parser" where
  "parse_class_selector st =
     (let st = skip_token st; st' = skip_token st
      in case peek (tokens st) of
           Some (Ident v) \<Rightarrow> apfst (Some \<circ> ClassMod) (make_ident v st')
         | _ \<Rightarrow> (None, st'))"

definition parse_id_selector :: "sel_parser \<Rightarrow> selector_modifier option \<times> sel_parser" where
  "parse_id_selector st =
     (case peek (tokens st) of
        Some (Hash v) \<Rightarrow> apfst (Some \<circ> IdMod) (make_ident v (skip_token st))
      | _ \<Rightarrow> (None, skip_token st))"

fun starts_modifier :: "css_token option \<Rightarrow> bool" where
  "starts_modifier (Some (Delim c)) = (c = 46)"
| "starts_modifier (Some (Hash _)) = True"
| "starts_modifier (Some BracketOpen) = True"
| "starts_modifier (Some Colon) = True"
| "starts_modifier _ = False"

definition parse_modifier ::
    "(css_token list \<Rightarrow> selector_list) \<Rightarrow> sel_parser \<Rightarrow> selector_modifier option \<times> sel_parser" where
  "parse_modifier nested st =
     (case peek (tokens st) of
        Some (Delim c) \<Rightarrow> if c = 46 then parse_class_selector st else (None, st)
      | Some (Hash _) \<Rightarrow> parse_id_selector st
      | Some BracketOpen \<Rightarrow> parse_attribute_selector st
      | Some Colon \<Rightarrow> parse_pseudo_class nested st
      | _ \<Rightarrow> (None, st))"

lemma tokens_make_ident [simp]: "tokens (snd (make_ident v st)) = tokens st"
  by (auto simp: make_ident_def split: option.split prod.split)

lemma make_ident_tokens: "make_ident v st = (i, st') \<Longrightarrow> tokens st' = tokens st"
  using tokens_make_ident[of v st] by simp

lemma tokens_skip_token [simp]: "tokens (skip_token st) = tl (tokens st)"
  by (simp add: skip_token_def)

lemma tokens_skip_ws_st [simp]: "tokens (skip_ws_st st) = skip_ws (tokens st)"
  by (simp add: skip_ws_st_def consume_whitespace_def)

lemma length_skip_ws: "length (skip_ws ts) \<le> length ts"
  by (simp add: skip_ws_def length_dropWhile_le)

lemma length_skip_to_bracket: "length (skip_to_bracket_close ts) \<le> length ts"
  by (induction ts) auto

lemma length_skip_parens: "length (skip_parens d ts) \<le> length ts"
  by (induction d ts rule: skip_parens.induct) auto

lemma length_skip_parens_close: "length (skip_parens_close ts) \<le> length ts"
  using length_skip_ws[of ts] by (auto simp: skip_parens_close_def Let_def)

lemma length_collect:
  "length (fst (collect_paren_tokens d ts)) + length (snd (collect_paren_tokens d ts)) \<le> length ts"
  by (induction d ts rule: collect_paren_tokens.induct) (auto simp: apfst_def split_beta)

lemma length_nth_b: "length (snd (parse_nth_b_part ts)) \<le> length ts"
proof -
  have "length (tl (skip_ws (tl (skip_ws ts)))) \<le> length ts"
    using length_skip_ws[of ts] length_skip_ws[of "tl (skip_ws ts)"] by simp
  then show ?thesis
    using length_skip_ws[of ts]
    by (auto simp: parse_nth_b_part_def Let_def split: option.split css_token.split)
qed

lemma length_nth_with_b: "length (snd (nth_with_b a ts)) \<le> length ts"
  using length_nth_b[of ts] length_skip_parens_close order_trans
  by (fastforce simp: nth_with_b_def split_beta Let_def)

lemma length_parse_nth_index: "length (snd (parse_nth_index ts)) \<le> length ts"
proof -
  have "length (skip_parens_close (tl (skip_ws ts))) \<le> length ts"
    "length (snd (nth_with_b a (tl (skip_ws ts)))) \<le> length ts"
    "length (skip_parens 0 (skip_ws ts)) \<le> length ts" for a
    using length_skip_ws[of ts] length_skip_parens_close[of "tl (skip_ws ts)"]
      length_nth_with_b[of a "tl (skip_ws ts)"] length_skip_parens[of 0 "skip_ws ts"] by auto
  then show ?thesis
    by (auto simp: parse_nth_index_def Let_def split: option.split css_token.split)
qed

lemma length_parse_attribute_operator: "length (snd (parse_attribute_operator ts)) \<le> length ts"
  by (auto simp: parse_attribute_operator_def split: option.split css_token.split)

lemma tokens_attribute_value [simp]: "tokens (snd (parse_attribute_value st)) = tl (tokens st)"
  by (auto simp: parse_attribute_value_def Let_def split: option.split css_token.split)

lemma length_attribute_value_part:
  "length (tokens (snd (case op of None \<Rightarrow> (None, st)
      | Some _ \<Rightarrow> apsnd skip_ws_st (parse_attribute_value (skip_ws_st st))))) \<le> length (tokens st)"
proof -
  have "length (skip_ws (tl (skip_ws (tokens st)))) \<le> length (tokens st)"
    using length_skip_ws[of "tokens st"] length_skip_ws[of "tl (skip_ws (tokens st))"] by simp
  then show ?thesis by (auto split: option.split)
qed

lemma length_parse_attribute_selector:
  "length (tokens (snd (parse_attribute_selector st))) \<le> length (tokens st) - 1"
proof -
  define st1 where "st1 = skip_ws_st (skip_token st)"
  have 1: "length (tokens st1) \<le> length (tokens st) - 1"
    using length_skip_ws[of "tl (tokens st)"] by (simp add: st1_def)
  define st2 where "st2 = skip_ws_st (skip_token st1)"
  have 2: "length (tokens st2) \<le> length (tokens st) - 1"
    using length_skip_ws[of "tl (tokens st1)"] 1 by (simp add: st2_def)
  obtain op ts where op: "parse_attribute_operator (tokens st2) = (op, ts)" by (metis surj_pair)
  have 3: "length ts \<le> length (tokens st) - 1"
    using length_parse_attribute_operator[of "tokens st2"] op 2 by simp
  obtain vl st3 where st3: "(case op of None \<Rightarrow> (None, st2\<lparr>tokens := ts\<rparr>)
      | Some _ \<Rightarrow> apsnd skip_ws_st (parse_attribute_value (skip_ws_st (st2\<lparr>tokens := ts\<rparr>)))) = (vl, st3)"
    by (metis surj_pair)
  have 4: "length (tokens st3) \<le> length (tokens st) - 1"
    using length_attribute_value_part[where op = op and st = "st2\<lparr>tokens := ts\<rparr>"] st3 3 by simp
  have bad: "length (skip_to_bracket_close (tl (tokens st1))) \<le> length (tokens st) - 1"
    using length_skip_to_bracket[of "tl (tokens st1)"] 1 by simp
  have "length (skip_to_bracket_close (tokens st3)) \<le> length (tokens st) - 1"
    using length_skip_to_bracket[of "tokens st3"] 4 by simp
  then show ?thesis
    using bad 4 op st3
    unfolding parse_attribute_selector_def Let_def st1_def[symmetric] st2_def[symmetric]
    by (auto simp: st2_def[symmetric] split: option.split css_token.split)
qed

lemma length_functional_pseudo:
  "length (tokens (snd (functional_pseudo nested nm st))) \<le> length (tokens st)"
  using length_parse_nth_index[of "tokens st"] length_collect[of 0 "tokens st"]
    length_skip_parens[of 0 "tokens st"]
  by (auto simp: functional_pseudo_def Let_def split: prod.split dest!: make_ident_tokens)

lemma length_parse_pseudo_class:
  "length (tokens (snd (parse_pseudo_class nested st))) \<le> length (tokens st) - 1"
proof -
  have "length (tokens (snd (functional_pseudo nested nm st'))) \<le> length (tokens st) - 1"
    if "length (tokens st') \<le> length (tokens st) - 1" for nm st'
    using length_functional_pseudo[of nested nm st'] that by simp
  note fn = this
  define st1 where "st1 = (if peek (tokens (skip_token st)) = Some Colon
    then skip_token (skip_token st) else skip_token st)"
  have 1: "length (tokens (skip_token st1)) \<le> length (tokens st) - 1" by (auto simp: st1_def)
  show ?thesis
  proof (cases "peek (tokens st1)")
    case None
    then show ?thesis using 1 unfolding parse_pseudo_class_def Let_def st1_def[symmetric] by simp
  next
    case (Some t)
    then show ?thesis
      using 1 fn[OF 1] unfolding parse_pseudo_class_def Let_def st1_def[symmetric]
      by (cases t) (simp_all del: tokens_skip_token)
  qed
qed

lemma length_parse_modifier:
  "starts_modifier (peek (tokens st)) \<Longrightarrow>
    length (tokens (snd (parse_modifier nested st))) < length (tokens st)"
  using length_parse_attribute_selector[of st] length_parse_pseudo_class[of nested st]
  by (cases "tokens st")
    (auto simp: parse_modifier_def parse_class_selector_def parse_id_selector_def peek_def Let_def
      split: css_token.splits option.split list.split)

lemma length_parse_modifier_le:
  "length (tokens (snd (parse_modifier nested st))) \<le> length (tokens st)"
  using length_parse_modifier[of st nested]
  by (cases "starts_modifier (peek (tokens st))")
    (auto simp: parse_modifier_def peek_def split: css_token.splits option.splits list.split)

lemma parse_modifier_step:
  "starts_modifier (peek (tokens st)) \<Longrightarrow> (x, st') = parse_modifier nested st \<Longrightarrow>
    length (tokens st') < length (tokens st)"
  by (metis length_parse_modifier snd_conv)

text \<open>The loop over modifiers; \<open>None\<close> is the early return with \<open>invalid\<close> set.\<close>

function modifiers_loop ::
    "(css_token list \<Rightarrow> selector_list) \<Rightarrow> sel_parser \<Rightarrow> selector_modifier list option \<times> sel_parser"
where
  "modifiers_loop nested st =
     (if \<not> starts_modifier (peek (tokens st)) then (Some [], st)
      else case parse_modifier nested st of
             (None, st') \<Rightarrow> (None, st'\<lparr>invalid := True\<rparr>)
           | (Some m, st') \<Rightarrow> apfst (map_option ((#) m)) (modifiers_loop nested st'))"
  by pat_completeness auto
termination
  by (relation "measure (\<lambda>(nested, st). length (tokens st))") (auto dest: parse_modifier_step)

declare modifiers_loop.simps [simp del]

definition type_of_ident :: "string \<Rightarrow> tag_name" where
  "type_of_ident v = (if list_ex ascii_upper v then TagCustom v else tag_from_str v)"

definition parse_type_selector :: "sel_parser \<Rightarrow> type_selector option \<times> sel_parser" where
  "parse_type_selector st =
     (case peek (tokens st) of
        Some (Ident v) \<Rightarrow> (Some (TagType (type_of_ident v)), skip_token st)
      | Some (Delim c) \<Rightarrow> if c = 42 then (Some AnyType, skip_token st) else (None, st)
      | _ \<Rightarrow> (None, st))"

definition parse_compound_selector ::
    "(css_token list \<Rightarrow> selector_list) \<Rightarrow> sel_parser \<Rightarrow> compound option \<times> sel_parser" where
  "parse_compound_selector nested st =
     (let (ty, st) = parse_type_selector st
      in case modifiers_loop nested st of
           (None, st) \<Rightarrow> (None, st)
         | (Some ms, st) \<Rightarrow>
             if ty = None \<and> ms = [] then (None, st) else (Some (Compound ty ms), st))"

section \<open>Selectors and lists\<close>

definition consume_combinator :: "sel_parser \<Rightarrow> combinator option \<times> sel_parser" where
  "consume_combinator st =
     (case peek (tokens st) of
        Some (Delim c) \<Rightarrow>
          if c = 62 then (Some Child, skip_token st)
          else if c = 43 then (Some NextSibling, skip_token st)
          else if c = 126 then (Some SubsequentSibling, skip_token st)
          else (None, st)
      | _ \<Rightarrow> (None, st))"

definition at_list_end :: "css_token list \<Rightarrow> bool" where
  "at_list_end ts \<longleftrightarrow> peek ts = Some Comma \<or> peek ts = Some Eof \<or> peek ts = None"

text \<open>The head of one iteration: white space, the end test, the combinator.\<close>

definition selector_prefix ::
    "bool \<Rightarrow> combinator option \<Rightarrow> sel_parser \<Rightarrow> combinator option \<times> sel_parser" where
  "selector_prefix first comb st =
     (let (saw_whitespace, st) = consume_whitespace st;
          comb = (if \<not> first \<and> saw_whitespace then Some Descendant else comb)
      in case consume_combinator st of
           (Some explicit, st) \<Rightarrow> (Some explicit, skip_ws_st st)
         | (None, st) \<Rightarrow> (comb, st))"

lemma length_modifiers_loop: "length (tokens (snd (modifiers_loop nested st))) \<le> length (tokens st)"
proof (induction nested st rule: modifiers_loop.induct)
  case (1 nested st)
  show ?case
  proof (cases "starts_modifier (peek (tokens st))")
    case True
    obtain m st' where m: "parse_modifier nested st = (m, st')" by (metis surj_pair)
    have "length (tokens st') < length (tokens st)" using parse_modifier_step[OF True m[symmetric]] .
    then show ?thesis
      using True m "1.IH" by (subst modifiers_loop.simps) (fastforce split: option.split)
  qed (subst modifiers_loop.simps, simp)
qed

lemma modifiers_loop_some:
  assumes "modifiers_loop nested st = (Some ms, st')" and "ms \<noteq> []"
  shows "length (tokens st') < length (tokens st)"
proof (cases "starts_modifier (peek (tokens st))")
  case True
  obtain m st1 where m: "parse_modifier nested st = (m, st1)" by (metis surj_pair)
  have "length (tokens st1) < length (tokens st)" using parse_modifier_step[OF True m[symmetric]] .
  then show ?thesis
    using assms(1) True m length_modifiers_loop[of nested st1]
    by (subst (asm) modifiers_loop.simps) (auto simp: apfst_def map_prod_def split: option.splits prod.splits)
next
  case False
  then show ?thesis using assms by (subst (asm) modifiers_loop.simps) simp
qed

lemma length_parse_type_selector:
  "length (tokens (snd (parse_type_selector st))) \<le> length (tokens st)"
  "parse_type_selector st = (Some ty, st') \<Longrightarrow> length (tokens st') < length (tokens st)"
  by (cases "tokens st", auto simp: parse_type_selector_def peek_def split: css_token.splits if_splits)+

lemma length_parse_compound:
  "length (tokens (snd (parse_compound_selector nested st))) \<le> length (tokens st)"
proof -
  obtain ty st1 where ty: "parse_type_selector st = (ty, st1)" by (metis surj_pair)
  have "length (tokens st1) \<le> length (tokens st)" using length_parse_type_selector(1)[of st] ty by simp
  then show ?thesis
    using ty length_modifiers_loop[of nested st1]
    by (auto simp: parse_compound_selector_def split: prod.split option.split)
qed

lemma parse_compound_step:
  assumes "(Some cp, st') = parse_compound_selector nested st"
  shows "length (tokens st') < length (tokens st)"
proof -
  obtain ty st1 where ty: "parse_type_selector st = (ty, st1)" by (metis surj_pair)
  have le: "length (tokens st1) \<le> length (tokens st)" using length_parse_type_selector(1)[of st] ty by simp
  obtain ms st2 where ms: "modifiers_loop nested st1 = (ms, st2)" by (metis surj_pair)
  have le2: "length (tokens st2) \<le> length (tokens st1)" using length_modifiers_loop[of nested st1] ms by simp
  from assms ty ms obtain l where l: "ms = Some l" "st' = st2" "ty \<noteq> None \<or> l \<noteq> []"
    by (cases ms) (auto simp: parse_compound_selector_def split: if_splits)
  show ?thesis
  proof (cases ty)
    case None
    then show ?thesis using modifiers_loop_some[of nested st1 l st2] ms l le by simp
  next
    case (Some t)
    then show ?thesis using length_parse_type_selector(2)[of st t st1] ty l le2 by simp
  qed
qed

lemma length_selector_prefix:
  "length (tokens (snd (selector_prefix f c st))) \<le> length (tokens st)"
proof -
  have "length (skip_ws (tl (skip_ws (tokens st)))) \<le> length (tokens st)"
    using length_skip_ws[of "tokens st"] length_skip_ws[of "tl (skip_ws (tokens st))"] by simp
  then show ?thesis
    using length_skip_ws[of "tokens st"]
    by (auto simp: selector_prefix_def consume_whitespace_def consume_combinator_def Let_def
        split: option.split css_token.split)
qed

lemma selector_loop_step:
  assumes "(comb', st1) = selector_prefix f comb st" and "(Some cp, st') = parse_compound_selector nested st1"
  shows "length (tokens st') < length (tokens st)"
  using parse_compound_step[OF assms(2)] length_selector_prefix[of f comb st] assms(1)[symmetric] by simp

function selector_loop ::
    "(css_token list \<Rightarrow> selector_list) \<Rightarrow> selector_step list \<Rightarrow> combinator option \<Rightarrow> sel_parser
      \<Rightarrow> selector_step list \<times> sel_parser"
where
  "selector_loop nested steps comb st =
     (if at_list_end (skip_ws (tokens st)) then (steps, skip_ws_st st)
      else
        (let (comb, st1) = selector_prefix (steps = []) comb st
         in case parse_compound_selector nested st1 of
              (None, st') \<Rightarrow> (steps, if comb \<noteq> None then st'\<lparr>invalid := True\<rparr> else st')
            | (Some cp, st') \<Rightarrow>
                let steps = steps @ [SelectorStep comb cp]
                in if peek (tokens st') = Some Comma \<or> peek (tokens st') = Some Eof then (steps, st')
                   else selector_loop nested steps None st'))"
  by pat_completeness auto
termination
  by (relation "measure (\<lambda>(nested, steps, comb, st). length (tokens st))")
    (simp, simp, blast dest: selector_loop_step)

declare selector_loop.simps [simp del]

definition parse_selector ::
    "(css_token list \<Rightarrow> selector_list) \<Rightarrow> sel_parser \<Rightarrow> selector option \<times> sel_parser" where
  "parse_selector nested st =
     (case selector_loop nested [] None st of
        (steps, st) \<Rightarrow> (if steps = [] then None else Some (Selector steps), st))"

lemma length_selector_loop:
  "length (tokens (snd (selector_loop nested steps comb st))) \<le> length (tokens st)"
proof (induction nested steps comb st rule: selector_loop.induct)
  case (1 nested steps comb st)
  show ?case
  proof (cases "at_list_end (skip_ws (tokens st))")
    case True
    then show ?thesis by (subst selector_loop.simps) (simp add: length_skip_ws)
  next
    case False
    obtain comb' st1 where pre: "selector_prefix (steps = []) comb st = (comb', st1)" by (metis surj_pair)
    obtain cp st' where cp: "parse_compound_selector nested st1 = (cp, st')" by (metis surj_pair)
    have le: "length (tokens st') \<le> length (tokens st)"
      using length_selector_prefix[of "steps = []" comb st] length_parse_compound[of nested st1] pre cp
      by simp
    show ?thesis
    proof (cases cp)
      case None
      then show ?thesis using False pre cp le by (subst selector_loop.simps) simp
    next
      case (Some c)
      then show ?thesis
        using False pre cp le "1.IH"[OF False pre[symmetric] refl _ _ refl]
        by (subst selector_loop.simps) (auto simp: Let_def)
    qed
  qed
qed

lemma selector_loop_some:
  assumes "selector_loop nested [] None st = (steps, st')" and "steps \<noteq> []"
  shows "length (tokens st') < length (tokens st)"
proof (cases "at_list_end (skip_ws (tokens st))")
  case True
  then show ?thesis using assms by (subst (asm) selector_loop.simps) simp
next
  case False
  obtain comb st1 where pre: "selector_prefix True None st = (comb, st1)" by (metis surj_pair)
  obtain cp st2 where cp: "parse_compound_selector nested st1 = (cp, st2)" by (metis surj_pair)
  obtain c where c: "cp = Some c"
    using assms False pre cp by (subst (asm) selector_loop.simps) (cases cp; auto)
  have lt: "length (tokens st2) < length (tokens st)"
    using selector_loop_step[of comb st1 True None st c st2 nested] pre cp c by simp
  have "length (tokens st') \<le> length (tokens st2)"
    using assms(1) False pre cp c length_selector_loop[of nested "[SelectorStep comb c]" None st2]
    by (subst (asm) selector_loop.simps) (auto simp: Let_def split: if_splits)
  then show ?thesis using lt by simp
qed

lemma parse_selector_step:
  "(Some sel, st') = parse_selector nested st \<Longrightarrow> length (tokens st') < length (tokens st)"
  using selector_loop_some[of nested st]
  by (auto simp: parse_selector_def split: prod.splits if_splits)

text \<open>The loop over the list; every early return yields the empty list.\<close>

definition after_comma :: "sel_parser \<Rightarrow> sel_parser option" where
  "after_comma st =
     (if peek (tokens st) = Some Comma
      then let st = skip_ws_st (skip_token st) in if is_eof (tokens st) then None else Some st
      else Some st)"

function list_loop ::
    "(css_token list \<Rightarrow> selector_list) \<Rightarrow> selector_list \<Rightarrow> sel_parser \<Rightarrow> selector_list \<times> sel_parser"
where
  "list_loop nested sels st =
     (if is_eof (tokens st) then (sels, st)
      else case parse_selector nested st of
             (None, st') \<Rightarrow> ([], st')
           | (Some sel, st') \<Rightarrow>
               if invalid st' then ([], st')
               else
                 (let st2 = skip_ws_st st'
                  in if \<not> at_list_end (tokens st2) then ([], st2)
                     else case after_comma st2 of
                            None \<Rightarrow> ([], skip_ws_st (skip_token st2))
                          | Some st3 \<Rightarrow> list_loop nested (sels @ [sel]) st3))"
  by pat_completeness auto

lemma length_after_comma: "after_comma st = Some st' \<Longrightarrow> length (tokens st') \<le> length (tokens st)"
  using length_skip_ws[of "tl (tokens st)"]
  by (auto simp: after_comma_def Let_def split: if_splits)

lemma list_loop_step:
  assumes "(Some sel, st') = parse_selector nested st" and "after_comma (skip_ws_st st') = Some st3"
  shows "length (tokens st3) < length (tokens st)"
  using parse_selector_step[OF assms(1)] length_after_comma[OF assms(2)] length_skip_ws[of "tokens st'"]
  by simp

termination list_loop
  by (relation "measure (\<lambda>(nested, sels, st). length (tokens st))")
    (simp, simp, blast dest: list_loop_step)

declare list_loop.simps [simp del]

definition run_selector_parser ::
    "(css_token list \<Rightarrow> selector_list) \<Rightarrow> css_token list \<Rightarrow> silk_interner option
      \<Rightarrow> selector_list \<times> silk_interner option" where
  "run_selector_parser nested ts it =
     (let (sels, st) = list_loop nested [] (skip_ws_st (sel_parser_new ts it)) in (sels, names st))"

end
