(* ===== verification/Css_Selector_Parse.thy ===== *)
theory Css_Selector_Parse
  imports Css_Selector
begin

text \<open>
  The recursion of the selector parser. The grammar only calls \<open>nested\<close> on strictly fewer tokens
  than it was given, so it may call itself: \<open>parse_selector_list\<close> is the parser's recursive entry
  point, total on every token list, and the interner-aware entry point runs over it.
\<close>

definition agree :: "nat \<Rightarrow> ('a list \<Rightarrow> 'b) \<Rightarrow> ('a list \<Rightarrow> 'b) \<Rightarrow> bool" where
  "agree n f g \<longleftrightarrow> (\<forall>x. length x \<le> n \<longrightarrow> f x = g x)"

lemma agreeD: "agree n f g \<Longrightarrow> length x \<le> n \<Longrightarrow> f x = g x"
  by (simp add: agree_def)

lemma agree_mono: "agree n f g \<Longrightarrow> m \<le> n \<Longrightarrow> agree m f g"
  by (auto simp: agree_def)

lemma forgiving_loop_cong:
  "agree (length arm + length ts) f g \<Longrightarrow> forgiving_loop f p b arm ts = forgiving_loop g p b arm ts"
proof (induction f p b arm ts rule: forgiving_loop.induct)
  case (1 f p b arm)
  then show ?case by (simp add: append_forgiving_arm_def agreeD)
next
  case (2 f p b arm t ts)
  have "append_forgiving_arm f arm = append_forgiving_arm g arm"
    using "2.prems" by (simp add: append_forgiving_arm_def agreeD)
  moreover have "agree (length (arm @ [t]) + length ts) f g" "agree (length [] + length ts) f g"
    using "2.prems" by (simp_all add: agree_mono)
  ultimately show ?case using "2.IH" by simp
qed

lemma functional_pseudo_cong:
  assumes "agree (length (tokens st)) f g"
  shows "functional_pseudo f nm st = functional_pseudo g nm st"
proof -
  have "length (fst (collect_paren_tokens 0 (tokens st))) \<le> length (tokens st)"
    using length_collect[of 0 "tokens st"] by simp
  then have "f (fst (collect_paren_tokens 0 (tokens st))) = g (fst (collect_paren_tokens 0 (tokens st)))"
    "parse_forgiving_selector_list f (fst (collect_paren_tokens 0 (tokens st))) =
      parse_forgiving_selector_list g (fst (collect_paren_tokens 0 (tokens st)))"
    using assms unfolding parse_forgiving_selector_list_def
    by (auto dest: agreeD intro!: forgiving_loop_cong intro: agree_mono)
  then show ?thesis
    by (simp add: functional_pseudo_def Let_def split_beta)
qed

lemma parse_pseudo_class_cong:
  assumes "agree (length (tokens st) - 2) f g"
  shows "parse_pseudo_class f st = parse_pseudo_class g st"
proof -
  define st1 where "st1 = (if peek (tokens (skip_token st)) = Some Colon
    then skip_token (skip_token st) else skip_token st)"
  have "length (tokens (skip_token st1)) \<le> length (tokens st) - 2"
    by (auto simp: st1_def)
  then have "functional_pseudo f v (skip_token st1) = functional_pseudo g v (skip_token st1)" for v
    using assms agree_mono functional_pseudo_cong by blast
  then show ?thesis
    unfolding parse_pseudo_class_def Let_def st1_def[symmetric]
    by (simp split: option.split css_token.split)
qed

lemma parse_modifier_cong:
  "agree (length (tokens st) - 2) f g \<Longrightarrow> parse_modifier f st = parse_modifier g st"
  using parse_pseudo_class_cong[of st f g]
  by (simp add: parse_modifier_def split: option.split css_token.split)

lemma modifiers_loop_cong:
  "agree (length (tokens st) - 2) f g \<Longrightarrow> modifiers_loop f st = modifiers_loop g st"
proof (induction f st rule: modifiers_loop.induct)
  case (1 f st)
  show ?case
  proof (cases "starts_modifier (peek (tokens st))")
    case True
    obtain m st' where m: "parse_modifier f st = (m, st')" by (metis surj_pair)
    have m': "parse_modifier g st = (m, st')" using parse_modifier_cong[OF "1.prems"] m by simp
    have "agree (length (tokens st') - 2) f g"
      using "1.prems" parse_modifier_step[OF True m[symmetric]] by (simp add: agree_mono)
    then have "modifiers_loop f st' = modifiers_loop g st'" if "m = Some x" for x
      using "1.IH" that True m by fastforce
    then show ?thesis using True m m' by (subst (1 2) modifiers_loop.simps) (simp split: option.split)
  qed (subst (1 2) modifiers_loop.simps, simp)
qed

lemma parse_compound_cong:
  assumes "agree (length (tokens st) - 2) f g"
  shows "parse_compound_selector f st = parse_compound_selector g st"
proof -
  obtain ty st1 where ty: "parse_type_selector st = (ty, st1)" by (metis surj_pair)
  have "length (tokens st1) \<le> length (tokens st)" using length_parse_type_selector(1)[of st] ty by simp
  then have "modifiers_loop f st1 = modifiers_loop g st1"
    using assms by (intro modifiers_loop_cong) (simp add: agree_mono)
  then show ?thesis by (simp add: parse_compound_selector_def ty)
qed

lemma selector_loop_cong:
  "agree (length (tokens st) - 2) f g \<Longrightarrow> selector_loop f steps comb st = selector_loop g steps comb st"
proof (induction f steps comb st rule: selector_loop.induct)
  case (1 f steps comb st)
  show ?case
  proof (cases "at_list_end (skip_ws (tokens st))")
    case True
    then show ?thesis by (subst (1 2) selector_loop.simps) simp
  next
    case False
    obtain comb' st1 where pre: "selector_prefix (steps = []) comb st = (comb', st1)" by (metis surj_pair)
    have "length (tokens st1) \<le> length (tokens st)"
      using length_selector_prefix[of "steps = []" comb st] pre by simp
    then have cg: "parse_compound_selector f st1 = parse_compound_selector g st1"
      using "1.prems" by (intro parse_compound_cong) (simp add: agree_mono)
    obtain cp st' where cp: "parse_compound_selector f st1 = (cp, st')" by (metis surj_pair)
    show ?thesis
    proof (cases cp)
      case None
      then show ?thesis using False pre cp cg by (subst (1 2) selector_loop.simps) simp
    next
      case (Some c)
      have "length (tokens st') < length (tokens st)"
        using selector_loop_step[of comb' st1 "steps = []" comb st c st' f] pre cp Some by simp
      then have "agree (length (tokens st') - 2) f g" using "1.prems" by (simp add: agree_mono)
      then have "selector_loop f (steps @ [SelectorStep comb' c]) None st' =
          selector_loop g (steps @ [SelectorStep comb' c]) None st'"
        if "\<not> (peek (tokens st') = Some Comma \<or> peek (tokens st') = Some Eof)"
        using "1.IH"[OF False refl pre[symmetric] cp[symmetric] Some refl that] by simp
      then show ?thesis
        using False pre cp cg Some by (subst (1 2) selector_loop.simps) (simp add: Let_def)
    qed
  qed
qed

lemma parse_selector_cong:
  "agree (length (tokens st) - 2) f g \<Longrightarrow> parse_selector f st = parse_selector g st"
  by (simp add: parse_selector_def selector_loop_cong)

lemma list_loop_cong:
  "agree (length (tokens st) - 2) f g \<Longrightarrow> list_loop f sels st = list_loop g sels st"
proof (induction f sels st rule: list_loop.induct)
  case (1 f sels st)
  show ?case
  proof (cases "is_eof (tokens st)")
    case True
    then show ?thesis by (subst (1 2) list_loop.simps) simp
  next
    case False
    have cg: "parse_selector f st = parse_selector g st" using "1.prems" by (rule parse_selector_cong)
    obtain s st' where s: "parse_selector f st = (s, st')" by (metis surj_pair)
    have "list_loop f (sels @ [sel]) st3 = list_loop g (sels @ [sel]) st3"
      if "s = Some sel" "\<not> invalid st'" "at_list_end (skip_ws (tokens st'))"
        "after_comma (skip_ws_st st') = Some st3" for sel st3
    proof -
      have "length (tokens st3) < length (tokens st)"
        using list_loop_step[of sel st' f st st3] s that by simp
      then have "agree (length (tokens st3) - 2) f g" using "1.prems" by (simp add: agree_mono)
      then show ?thesis
        using "1.IH"[OF False s[symmetric] that(1,2) refl] that(3,4) by simp
    qed
    then show ?thesis
      using False s cg by (subst (1 2) list_loop.simps) (auto simp: Let_def split: option.split)
  qed
qed

lemma run_selector_parser_cong [fundef_cong]:
  assumes "ts = ts'" and "it = it'" and "\<And>x. length x < length ts' \<Longrightarrow> f x = g x"
  shows "run_selector_parser f ts it = run_selector_parser g ts' it'"
proof -
  let ?st = "skip_ws_st (sel_parser_new ts it)"
  have "length (tokens ?st) \<le> Suc (length ts)"
  proof -
    have "length (with_eof ts) \<le> Suc (length ts)" by (simp add: with_eof_def)
    then show ?thesis using length_skip_ws[of "with_eof ts"] by (simp add: sel_parser_new_def)
  qed
  moreover have "length (tokens ?st) - 2 < length ts" if "ts \<noteq> []"
    using calculation that by (cases ts) auto
  ultimately have "agree (length (tokens ?st) - 2) f g" if "ts \<noteq> []"
    using assms that by (auto simp: agree_def)
  moreover have "list_loop f [] ?st = list_loop g [] ?st" if "ts = []"
    using that by (subst (1 2) list_loop.simps)
      (simp add: sel_parser_new_def with_eof_def skip_ws_def is_eof_def peek_def)
  ultimately have "list_loop f [] ?st = list_loop g [] ?st"
    by (cases "ts = []") (auto intro: list_loop_cong)
  then show ?thesis using assms by (simp add: run_selector_parser_def)
qed

text \<open>The recursive entry point: \<open>parse_selector_list\<close>, without an interner.\<close>

function parse_selector_list :: "css_token list \<Rightarrow> selector_list" where
  "parse_selector_list ts = fst (run_selector_parser parse_selector_list ts None)"
  by pat_completeness auto
termination by (relation "measure length") auto

declare parse_selector_list.simps [simp del]

definition parse_selector_list_with_interner ::
    "css_token list \<Rightarrow> silk_interner option \<Rightarrow> selector_list \<times> silk_interner option" where
  "parse_selector_list_with_interner ts it = run_selector_parser parse_selector_list ts it"

lemma parse_selector_list_eq: "parse_selector_list ts = fst (parse_selector_list_with_interner ts None)"
  unfolding parse_selector_list_with_interner_def by (rule parse_selector_list.simps)

section \<open>The An+B test\<close>

lemma smod_zero_iff: "k smod l = 0 \<longleftrightarrow> l dvd (k :: int)" if "l \<noteq> 0"
proof (cases "l dvd k")
  case True
  then show ?thesis by (simp add: signed_modulo_int_eq_modulo_int)
next
  case False
  then have "k mod l \<noteq> 0" by (simp add: dvd_eq_mod_eq_0)
  moreover have "\<bar>k mod l\<bar> < \<bar>l\<bar>" using that by (rule abs_mod_less)
  ultimately show ?thesis using False by (auto simp: signed_modulo_int_eq_modulo_int)
qed

lemma sint_difference:
  assumes "pos < 2 ^ 31" and "- (2 ^ 31) \<le> int pos - sint b" and "int pos - sint b < 2 ^ 31"
  shows "sint (word_of_nat pos - b :: i32) = int pos - sint b"
proof -
  have p: "sint (word_of_nat pos :: i32) = int pos"
    using assms(1) by (simp add: signed_of_nat signed_take_bit_int_eq_self)
  show ?thesis
    using assms(2,3) by (simp add: sint_word_diff p signed_take_bit_int_eq_self)
qed

lemma nth_matches_iff:
  assumes "0 < pos" and "pos < 2 ^ 31" and "int pos - sint (nth_b n) < 2 ^ 31"
  shows "nth_matches n pos = Some (\<exists>k::nat. int pos = sint (nth_a n) * int k + sint (nth_b n))"
proof -
  define a b where "a = sint (nth_a n)" and "b = sint (nth_b n)"
  have b: "b < 2 ^ 31" using sint_lt[of "nth_b n"] by (simp add: b_def)
  have diff: "sint (word_of_nat pos - nth_b n) = int pos - b"
    using sint_difference[of pos "nth_b n"] assms b by (simp add: b_def)
  have p: "word_of_nat pos = nth_b n \<longleftrightarrow> int pos = b"
    using diff by (metis eq_iff_diff_eq_0 signed_0 signed_eq_0_iff)
  show ?thesis
  proof (cases "nth_a n = 0")
    case True
    then show ?thesis
      using assms(1) p by (simp add: nth_matches_def Let_def b_def)
  next
    case False
    then have a: "a \<noteq> 0" by (simp add: a_def signed_eq_0_iff)
    have no: "\<not> i32_rem_overflows (word_of_nat pos - nth_b n) (nth_a n)"
      using diff b assms(1) by (simp add: i32_rem_overflows_def)
    have eq: "(int pos - b) sdiv a * a + (int pos - b) smod a = int pos - b"
      by (rule sdiv_mult_smod_eq)
    have "(int pos - b) smod a = 0 \<and> 0 \<le> (int pos - b) sdiv a \<longleftrightarrow> (\<exists>k::nat. int pos = a * int k + b)"
    proof
      assume h: "(int pos - b) smod a = 0 \<and> 0 \<le> (int pos - b) sdiv a"
      then have "int pos = a * int (nat ((int pos - b) sdiv a)) + b"
        using eq by (simp add: mult.commute)
      then show "\<exists>k::nat. int pos = a * int k + b" ..
    next
      assume "\<exists>k::nat. int pos = a * int k + b"
      then obtain k :: nat where "int pos = a * int k + b" ..
      then have k: "int pos - b = a * int k" by simp
      then have "(int pos - b) smod a = 0" using smod_zero_iff[OF a] by simp
      moreover from this have "(int pos - b) sdiv a = int k" using eq k a by simp
      ultimately show "(int pos - b) smod a = 0 \<and> 0 \<le> (int pos - b) sdiv a" by simp
    qed
    then show ?thesis
      using assms(1) False no diff
      by (simp add: nth_matches_def Let_def a_def[symmetric] b_def[symmetric])
  qed
qed

text \<open>Away from overflow, \<open>matches\<close> of an An+B index decides its definition: a position matches
  exactly when it is \<open>a * k + b\<close> for some natural number \<open>k\<close>.\<close>

theorem nth_matches_exact:
  assumes "0 < pos" and "pos < 2 ^ 31" and "int pos - sint (nth_b n) < 2 ^ 31"
  shows "nth_matches n pos = Some (\<exists>k::nat. int pos = sint (nth_a n) * int k + sint (nth_b n))"
  using assms by (rule nth_matches_iff)

theorem nth_matches_exact_witness:
  "nth_matches \<lparr>nth_a = - 2, nth_b = 5\<rparr> 3 =
    Some (\<exists>k::nat. int 3 = sint (- 2 :: i32) * int k + sint (5 :: i32))"
  using nth_matches_exact[of 3 "\<lparr>nth_a = - 2, nth_b = 5\<rparr>"] by simp

end
