(* ===== verification/Css_Property.thy ===== *)
theory Css_Property
  imports Rust_Str
begin

text \<open>
  Property identifiers (\<open>crates/silksurf-css/src/property_id.rs\<close>): the enum, the dispatch on first
  byte and length, and the logical names it falls back to. An arm of the dispatch is an entry of
  \<open>property_arms\<close>, in source order: the byte and the length of its pattern, the name its guard
  compares and the identifier. The dispatch decides exactly the lookup by lower-case name.
\<close>

text \<open>The enum is \<open>repr(u16)\<close>: an identifier is its discriminant.\<close>

datatype property_id = PropertyId nat

abbreviation PropDisplay :: property_id where "PropDisplay \<equiv> PropertyId 0"
abbreviation PropColor :: property_id where "PropColor \<equiv> PropertyId 1"
abbreviation PropBackgroundColor :: property_id where "PropBackgroundColor \<equiv> PropertyId 2"
abbreviation PropFontSize :: property_id where "PropFontSize \<equiv> PropertyId 3"
abbreviation PropLineHeight :: property_id where "PropLineHeight \<equiv> PropertyId 4"
abbreviation PropFontFamily :: property_id where "PropFontFamily \<equiv> PropertyId 5"
abbreviation PropMargin :: property_id where "PropMargin \<equiv> PropertyId 6"
abbreviation PropPadding :: property_id where "PropPadding \<equiv> PropertyId 7"
abbreviation PropBorder :: property_id where "PropBorder \<equiv> PropertyId 8"
abbreviation PropBorderWidth :: property_id where "PropBorderWidth \<equiv> PropertyId 9"
abbreviation PropFlexDirection :: property_id where "PropFlexDirection \<equiv> PropertyId 10"
abbreviation PropFlexWrap :: property_id where "PropFlexWrap \<equiv> PropertyId 11"
abbreviation PropFlexFlow :: property_id where "PropFlexFlow \<equiv> PropertyId 12"
abbreviation PropJustifyContent :: property_id where "PropJustifyContent \<equiv> PropertyId 13"
abbreviation PropAlignItems :: property_id where "PropAlignItems \<equiv> PropertyId 14"
abbreviation PropAlignSelf :: property_id where "PropAlignSelf \<equiv> PropertyId 15"
abbreviation PropGap :: property_id where "PropGap \<equiv> PropertyId 16"
abbreviation PropRowGap :: property_id where "PropRowGap \<equiv> PropertyId 17"
abbreviation PropColumnGap :: property_id where "PropColumnGap \<equiv> PropertyId 18"
abbreviation PropFlexGrow :: property_id where "PropFlexGrow \<equiv> PropertyId 19"
abbreviation PropFlexShrink :: property_id where "PropFlexShrink \<equiv> PropertyId 20"
abbreviation PropFlexBasis :: property_id where "PropFlexBasis \<equiv> PropertyId 21"
abbreviation PropFlex :: property_id where "PropFlex \<equiv> PropertyId 22"
abbreviation PropOrder :: property_id where "PropOrder \<equiv> PropertyId 23"
abbreviation PropPosition :: property_id where "PropPosition \<equiv> PropertyId 24"
abbreviation PropTop :: property_id where "PropTop \<equiv> PropertyId 25"
abbreviation PropRight :: property_id where "PropRight \<equiv> PropertyId 26"
abbreviation PropBottom :: property_id where "PropBottom \<equiv> PropertyId 27"
abbreviation PropLeft :: property_id where "PropLeft \<equiv> PropertyId 28"
abbreviation PropZIndex :: property_id where "PropZIndex \<equiv> PropertyId 29"
abbreviation PropOverflow :: property_id where "PropOverflow \<equiv> PropertyId 30"
abbreviation PropOverflowX :: property_id where "PropOverflowX \<equiv> PropertyId 31"
abbreviation PropOverflowY :: property_id where "PropOverflowY \<equiv> PropertyId 32"
abbreviation PropOpacity :: property_id where "PropOpacity \<equiv> PropertyId 33"
abbreviation PropBorderRadius :: property_id where "PropBorderRadius \<equiv> PropertyId 34"
abbreviation PropBoxShadow :: property_id where "PropBoxShadow \<equiv> PropertyId 35"
abbreviation PropTextAlign :: property_id where "PropTextAlign \<equiv> PropertyId 36"
abbreviation PropFontWeight :: property_id where "PropFontWeight \<equiv> PropertyId 37"
abbreviation PropFontStyle :: property_id where "PropFontStyle \<equiv> PropertyId 38"
abbreviation PropBackgroundImage :: property_id where "PropBackgroundImage \<equiv> PropertyId 39"
abbreviation PropWidth :: property_id where "PropWidth \<equiv> PropertyId 40"
abbreviation PropHeight :: property_id where "PropHeight \<equiv> PropertyId 41"
abbreviation PropMinWidth :: property_id where "PropMinWidth \<equiv> PropertyId 42"
abbreviation PropMaxWidth :: property_id where "PropMaxWidth \<equiv> PropertyId 43"
abbreviation PropMinHeight :: property_id where "PropMinHeight \<equiv> PropertyId 44"
abbreviation PropMaxHeight :: property_id where "PropMaxHeight \<equiv> PropertyId 45"
abbreviation PropBorderColor :: property_id where "PropBorderColor \<equiv> PropertyId 46"
abbreviation PropBorderStyle :: property_id where "PropBorderStyle \<equiv> PropertyId 47"
abbreviation PropTextDecoration :: property_id where "PropTextDecoration \<equiv> PropertyId 48"
abbreviation PropLetterSpacing :: property_id where "PropLetterSpacing \<equiv> PropertyId 49"
abbreviation PropWordSpacing :: property_id where "PropWordSpacing \<equiv> PropertyId 50"
abbreviation PropWhiteSpace :: property_id where "PropWhiteSpace \<equiv> PropertyId 51"
abbreviation PropVisibility :: property_id where "PropVisibility \<equiv> PropertyId 52"
abbreviation PropMarginTop :: property_id where "PropMarginTop \<equiv> PropertyId 53"
abbreviation PropMarginRight :: property_id where "PropMarginRight \<equiv> PropertyId 54"
abbreviation PropMarginBottom :: property_id where "PropMarginBottom \<equiv> PropertyId 55"
abbreviation PropMarginLeft :: property_id where "PropMarginLeft \<equiv> PropertyId 56"
abbreviation PropPaddingTop :: property_id where "PropPaddingTop \<equiv> PropertyId 57"
abbreviation PropPaddingRight :: property_id where "PropPaddingRight \<equiv> PropertyId 58"
abbreviation PropPaddingBottom :: property_id where "PropPaddingBottom \<equiv> PropertyId 59"
abbreviation PropPaddingLeft :: property_id where "PropPaddingLeft \<equiv> PropertyId 60"
abbreviation PropBorderTop :: property_id where "PropBorderTop \<equiv> PropertyId 61"
abbreviation PropBorderRight :: property_id where "PropBorderRight \<equiv> PropertyId 62"
abbreviation PropBorderBottom :: property_id where "PropBorderBottom \<equiv> PropertyId 63"
abbreviation PropBorderLeft :: property_id where "PropBorderLeft \<equiv> PropertyId 64"
abbreviation PropGridTemplateColumns :: property_id where "PropGridTemplateColumns \<equiv> PropertyId 65"
abbreviation PropGridTemplateRows :: property_id where "PropGridTemplateRows \<equiv> PropertyId 66"
abbreviation PropGridAutoColumns :: property_id where "PropGridAutoColumns \<equiv> PropertyId 67"
abbreviation PropGridAutoRows :: property_id where "PropGridAutoRows \<equiv> PropertyId 68"
abbreviation PropGridAutoFlow :: property_id where "PropGridAutoFlow \<equiv> PropertyId 69"
abbreviation PropGridColumnStart :: property_id where "PropGridColumnStart \<equiv> PropertyId 70"
abbreviation PropGridColumnEnd :: property_id where "PropGridColumnEnd \<equiv> PropertyId 71"
abbreviation PropGridRowStart :: property_id where "PropGridRowStart \<equiv> PropertyId 72"
abbreviation PropGridRowEnd :: property_id where "PropGridRowEnd \<equiv> PropertyId 73"
abbreviation PropGridColumn :: property_id where "PropGridColumn \<equiv> PropertyId 74"
abbreviation PropGridRow :: property_id where "PropGridRow \<equiv> PropertyId 75"
abbreviation PropGridArea :: property_id where "PropGridArea \<equiv> PropertyId 76"
abbreviation PropBoxSizing :: property_id where "PropBoxSizing \<equiv> PropertyId 77"
abbreviation PropBackground :: property_id where "PropBackground \<equiv> PropertyId 78"
abbreviation PropFont :: property_id where "PropFont \<equiv> PropertyId 79"
abbreviation PropPlaceItems :: property_id where "PropPlaceItems \<equiv> PropertyId 80"
abbreviation PropOutline :: property_id where "PropOutline \<equiv> PropertyId 81"
abbreviation PropTransform :: property_id where "PropTransform \<equiv> PropertyId 82"
abbreviation PropMarginBlock :: property_id where "PropMarginBlock \<equiv> PropertyId 87"
abbreviation PropMarginInline :: property_id where "PropMarginInline \<equiv> PropertyId 88"
abbreviation PropPaddingBlock :: property_id where "PropPaddingBlock \<equiv> PropertyId 89"
abbreviation PropPaddingInline :: property_id where "PropPaddingInline \<equiv> PropertyId 90"
abbreviation PropInset :: property_id where "PropInset \<equiv> PropertyId 91"
abbreviation PropBackdropFilter :: property_id where "PropBackdropFilter \<equiv> PropertyId 92"
abbreviation PropAnimation :: property_id where "PropAnimation \<equiv> PropertyId 93"
abbreviation PropTransition :: property_id where "PropTransition \<equiv> PropertyId 94"
abbreviation PropUnknown :: property_id where "PropUnknown \<equiv> PropertyId 255"

definition property_arms :: "(char \<times> nat \<times> string \<times> property_id) list" where
  "property_arms =
     [
      (CHR ''d'', 7, ''display'', PropDisplay), (CHR ''c'', 5, ''color'', PropColor),
      (CHR ''c'', 10, ''column-gap'', PropColumnGap),
      (CHR ''b'', 16, ''background-color'', PropBackgroundColor),
      (CHR ''b'', 16, ''background-image'', PropBackgroundImage),
      (CHR ''b'', 10, ''background'', PropBackground),
      (CHR ''b'', 15, ''backdrop-filter'', PropBackdropFilter),
      (CHR ''b'', 6, ''border'', PropBorder),
      (CHR ''b'', 12, ''border-width'', PropBorderWidth),
      (CHR ''b'', 12, ''border-color'', PropBorderColor),
      (CHR ''b'', 12, ''border-style'', PropBorderStyle),
      (CHR ''b'', 6, ''bottom'', PropBottom),
      (CHR ''b'', 13, ''border-radius'', PropBorderRadius),
      (CHR ''b'', 10, ''border-top'', PropBorderTop),
      (CHR ''b'', 11, ''border-left'', PropBorderLeft),
      (CHR ''b'', 12, ''border-right'', PropBorderRight),
      (CHR ''b'', 13, ''border-bottom'', PropBorderBottom),
      (CHR ''b'', 10, ''box-shadow'', PropBoxShadow),
      (CHR ''b'', 10, ''box-sizing'', PropBoxSizing), (CHR ''f'', 4, ''font'', PropFont),
      (CHR ''f'', 9, ''font-size'', PropFontSize),
      (CHR ''f'', 11, ''font-family'', PropFontFamily),
      (CHR ''f'', 11, ''font-weight'', PropFontWeight),
      (CHR ''f'', 10, ''font-style'', PropFontStyle),
      (CHR ''f'', 14, ''flex-direction'', PropFlexDirection),
      (CHR ''f'', 9, ''flex-wrap'', PropFlexWrap), (CHR ''f'', 9, ''flex-flow'', PropFlexFlow),
      (CHR ''f'', 9, ''flex-grow'', PropFlexGrow),
      (CHR ''f'', 11, ''flex-shrink'', PropFlexShrink),
      (CHR ''f'', 10, ''flex-basis'', PropFlexBasis), (CHR ''f'', 4, ''flex'', PropFlex),
      (CHR ''g'', 3, ''gap'', PropGap), (CHR ''g'', 9, ''grid-area'', PropGridArea),
      (CHR ''g'', 8, ''grid-row'', PropGridRow),
      (CHR ''g'', 11, ''grid-column'', PropGridColumn),
      (CHR ''g'', 12, ''grid-row-end'', PropGridRowEnd),
      (CHR ''g'', 14, ''grid-auto-flow'', PropGridAutoFlow),
      (CHR ''g'', 14, ''grid-auto-rows'', PropGridAutoRows),
      (CHR ''g'', 14, ''grid-row-start'', PropGridRowStart),
      (CHR ''g'', 15, ''grid-column-end'', PropGridColumnEnd),
      (CHR ''g'', 17, ''grid-auto-columns'', PropGridAutoColumns),
      (CHR ''g'', 17, ''grid-column-start'', PropGridColumnStart),
      (CHR ''g'', 18, ''grid-template-rows'', PropGridTemplateRows),
      (CHR ''g'', 21, ''grid-template-columns'', PropGridTemplateColumns),
      (CHR ''j'', 15, ''justify-content'', PropJustifyContent),
      (CHR ''h'', 6, ''height'', PropHeight), (CHR ''l'', 11, ''line-height'', PropLineHeight),
      (CHR ''l'', 4, ''left'', PropLeft),
      (CHR ''l'', 14, ''letter-spacing'', PropLetterSpacing),
      (CHR ''m'', 6, ''margin'', PropMargin), (CHR ''m'', 9, ''min-width'', PropMinWidth),
      (CHR ''m'', 9, ''max-width'', PropMaxWidth),
      (CHR ''m'', 10, ''min-height'', PropMinHeight),
      (CHR ''m'', 10, ''max-height'', PropMaxHeight),
      (CHR ''m'', 10, ''margin-top'', PropMarginTop),
      (CHR ''m'', 11, ''margin-left'', PropMarginLeft),
      (CHR ''m'', 12, ''margin-right'', PropMarginRight),
      (CHR ''m'', 13, ''margin-bottom'', PropMarginBottom),
      (CHR ''o'', 7, ''opacity'', PropOpacity), (CHR ''o'', 7, ''outline'', PropOutline),
      (CHR ''o'', 5, ''order'', PropOrder), (CHR ''o'', 8, ''overflow'', PropOverflow),
      (CHR ''o'', 10, ''overflow-x'', PropOverflowX),
      (CHR ''o'', 10, ''overflow-y'', PropOverflowY), (CHR ''p'', 7, ''padding'', PropPadding),
      (CHR ''p'', 11, ''place-items'', PropPlaceItems),
      (CHR ''p'', 8, ''position'', PropPosition),
      (CHR ''p'', 11, ''padding-top'', PropPaddingTop),
      (CHR ''p'', 12, ''padding-left'', PropPaddingLeft),
      (CHR ''p'', 13, ''padding-right'', PropPaddingRight),
      (CHR ''p'', 14, ''padding-bottom'', PropPaddingBottom),
      (CHR ''r'', 5, ''right'', PropRight), (CHR ''r'', 7, ''row-gap'', PropRowGap),
      (CHR ''t'', 3, ''top'', PropTop), (CHR ''t'', 9, ''transform'', PropTransform),
      (CHR ''t'', 10, ''text-align'', PropTextAlign),
      (CHR ''t'', 15, ''text-decoration'', PropTextDecoration),
      (CHR ''v'', 10, ''visibility'', PropVisibility), (CHR ''w'', 5, ''width'', PropWidth),
      (CHR ''w'', 12, ''word-spacing'', PropWordSpacing),
      (CHR ''w'', 11, ''white-space'', PropWhiteSpace),
      (CHR ''a'', 9, ''animation'', PropAnimation),
      (CHR ''a'', 11, ''align-items'', PropAlignItems),
      (CHR ''a'', 10, ''align-self'', PropAlignSelf),
      (CHR ''t'', 10, ''transition'', PropTransition), (CHR ''z'', 7, ''z-index'', PropZIndex),
      (CHR ''-'', 23, ''-webkit-backdrop-filter'', PropBackdropFilter)]"

definition logical_names :: "(string \<times> property_id) list" where
  "logical_names =
     [
      (''inline-size'', PropWidth), (''block-size'', PropHeight),
      (''min-inline-size'', PropMinWidth), (''max-inline-size'', PropMaxWidth),
      (''min-block-size'', PropMinHeight), (''max-block-size'', PropMaxHeight),
      (''margin-block-start'', PropMarginTop), (''margin-block-end'', PropMarginBottom),
      (''margin-inline-start'', PropMarginLeft), (''margin-inline-end'', PropMarginRight),
      (''padding-block-start'', PropPaddingTop), (''padding-block-end'', PropPaddingBottom),
      (''padding-inline-start'', PropPaddingLeft), (''padding-inline-end'', PropPaddingRight),
      (''border-block-start'', PropBorderTop), (''border-block-end'', PropBorderBottom),
      (''border-inline-start'', PropBorderLeft), (''border-inline-end'', PropBorderRight),
      (''inset-block-start'', PropTop), (''inset-block-end'', PropBottom),
      (''inset-inline-start'', PropLeft), (''inset-inline-end'', PropRight),
      (''margin-block'', PropMarginBlock), (''margin-inline'', PropMarginInline),
      (''padding-block'', PropPaddingBlock), (''padding-inline'', PropPaddingInline),
      (''inset'', PropInset)]"

definition logical_property_id :: "string \<Rightarrow> property_id" where
  "logical_property_id name =
     (case map_of logical_names (to_ascii_lowercase name) of Some i \<Rightarrow> i | None \<Rightarrow> PropUnknown)"

text \<open>\<open>bytes[0] | 0x20\<close>.\<close>

definition or_0x20 :: "char \<Rightarrow> nat" where
  "or_0x20 c = (let b = byte_of c in if b div 32 mod 2 = 1 then b else b + 32)"

definition arm_matches :: "string \<Rightarrow> char \<times> nat \<times> string \<times> property_id \<Rightarrow> bool" where
  "arm_matches name arm =
     (case arm of (first, len, known, _) \<Rightarrow>
        or_0x20 (hd name) = byte_of first \<and> length name = len \<and> eq_ignore_ascii_case name known)"

definition lookup_property_id :: "string \<Rightarrow> property_id" where
  "lookup_property_id name =
     (if name = [] then PropUnknown
      else case find (arm_matches name) property_arms of
             Some (_, _, _, i) \<Rightarrow> i
           | None \<Rightarrow> logical_property_id name)"

section \<open>The dispatch is the lookup by name\<close>

definition property_names :: "(string \<times> property_id) list" where
  "property_names = map (\<lambda>(_, _, known, i). (known, i)) property_arms @ logical_names"

definition arm_sound :: "char \<times> nat \<times> string \<times> property_id \<Rightarrow> bool" where
  "arm_sound arm =
     (case arm of (first, len, known, _) \<Rightarrow>
        known \<noteq> [] \<and> to_ascii_lowercase known = known \<and> length known = len \<and> hd known = first
          \<and> (ascii_lower first \<or> first = CHR ''-''))"

lemma property_arms_sound: "list_all arm_sound property_arms"
  by code_simp

lemma or_0x20_lower:
  assumes "lower_char c = d" and "ascii_lower d \<or> d = CHR ''-''" shows "or_0x20 c = byte_of d"
proof (cases "ascii_upper c")
  case True
  then have u: "65 \<le> byte_of c" "byte_of c \<le> 90" by (simp_all add: ascii_upper_def)
  then have "byte_of c div 32 = 2" by (simp add: div_nat_eqI)
  moreover have "byte_of d = byte_of c + 32" using True assms(1) u by (auto simp: lower_char_def)
  ultimately show ?thesis by (simp add: or_0x20_def Let_def)
next
  case False
  then have d: "d = c" using assms(1) by (simp add: lower_char_def)
  have "byte_of c div 32 = 3 \<or> byte_of c div 32 = 1"
    using assms(2) by (auto simp: d ascii_lower_def div_nat_eqI)
  then show ?thesis by (auto simp: or_0x20_def Let_def d)
qed

lemma arm_matches_name:
  assumes "arm_sound (first, len, known, i)" and "name \<noteq> []"
  shows "arm_matches name (first, len, known, i) \<longleftrightarrow> to_ascii_lowercase name = known"
proof
  assume "to_ascii_lowercase name = known"
  then have k: "to_ascii_lowercase name = known" .
  then have "lower_char (hd name) = first"
    using assms by (cases name) (auto simp: arm_sound_def to_ascii_lowercase_def)
  then have "or_0x20 (hd name) = byte_of first" using assms(1) by (intro or_0x20_lower) (auto simp: arm_sound_def)
  moreover have "length name = len" using assms(1) k by (auto simp: arm_sound_def)
  ultimately show "arm_matches name (first, len, known, i)"
    using k by (auto simp: arm_matches_def eq_ignore_ascii_case_def)
next
  assume "arm_matches name (first, len, known, i)"
  then show "to_ascii_lowercase name = known"
    using assms(1) by (simp add: arm_matches_def eq_ignore_ascii_case_def arm_sound_def)
qed

lemma find_arm:
  "list_all arm_sound arms \<Longrightarrow> name \<noteq> [] \<Longrightarrow>
    map_option (\<lambda>(_, _, _, i). i) (find (arm_matches name) arms) =
      map_of (map (\<lambda>(_, _, known, i). (known, i)) arms) (to_ascii_lowercase name)"
proof (induction arms)
  case (Cons arm arms)
  obtain first len known i where "arm = (first, len, known, i)" by (cases arm)
  then show ?case using Cons arm_matches_name[of first len known i name] by auto
qed simp

text \<open>The two-level dispatch on first byte and length finds exactly what a plain table lookup by
  the lower-case name finds: every guard of the dispatch carries its own name's byte and length,
  so no known property falls through to unknown.\<close>

theorem lookup_property_id_exact:
  "lookup_property_id name =
    (case map_of property_names (to_ascii_lowercase name) of Some i \<Rightarrow> i | None \<Rightarrow> PropUnknown)"
proof (cases "name = []")
  case True
  have "map_of property_names [] = None" by code_simp
  then show ?thesis using True by (simp add: lookup_property_id_def to_ascii_lowercase_def)
next
  case False
  then show ?thesis
    using find_arm[OF property_arms_sound False]
    by (auto simp: lookup_property_id_def property_names_def logical_property_id_def map_add_def
        split: option.splits)
qed

end
