(* ===== verification/Css_Parser.thy ===== *)
theory Css_Parser
  imports Css_Selector_Parse Css_Property
begin

text \<open>
  The stylesheet parser (\<open>crates/silksurf-css/src/parser.rs\<close>): declarations, qualified rules, at-rules
  with their nesting bound, keyframes, and the entry points from text with their size bounds. The
  token position is the list of remaining tokens. Single precision numbers are a type parameter
  with their operations in \<open>f32_ops\<close>; the encoding table of \<open>encoding_rs\<close> is a parameter too.
\<close>

section \<open>Data\<close>

record css_declaration =
  decl_name :: string
  decl_value :: "css_token list"
  decl_important :: bool
  decl_property :: property_id

record 'f keyframe =
  kf_offsets :: "'f list"
  kf_declarations :: "css_declaration list"

datatype 'f rule =
    StyleRule selector_list "css_declaration list"
  | AtRule string "css_token list" "'f at_rule_block option"
and 'f at_rule_block =
    Rules "'f rule list"
  | Declarations "css_declaration list"
  | Keyframes "'f keyframe list"

type_synonym 'f stylesheet = "'f rule list"

record css_error =
  err_offset :: nat
  err_message :: string

definition MAX_CSS_RULES :: nat where "MAX_CSS_RULES = 50000"
definition MAX_CSS_BYTES :: nat where "MAX_CSS_BYTES = 1024 * 1024"
definition MAX_INLINE_STYLE_BYTES :: nat where "MAX_INLINE_STYLE_BYTES = 16 * 1024"
definition MAX_AT_RULE_NESTING_DEPTH :: nat where "MAX_AT_RULE_NESTING_DEPTH = 32"
definition MAX_QUALIFIED_RULE_SELECTOR_TOKENS :: nat where
  "MAX_QUALIFIED_RULE_SELECTOR_TOKENS = 1024"

section \<open>Declarations\<close>

definition trim_tokens :: "css_token list \<Rightarrow> css_token list" where
  "trim_tokens ts = rev (skip_ws (rev (skip_ws ts)))"

definition consume_important :: "css_token list \<Rightarrow> bool \<times> css_token list" where
  "consume_important value =
     (let value = trim_tokens value
      in if length value < 2 then (False, value)
         else case last value of
                Ident i \<Rightarrow>
                  if eq_ignore_ascii_case i ''important''
                  then (let front = rev (skip_ws (rev (butlast value)))
                        in if front \<noteq> [] \<and> last front = Delim 33
                           then (True, trim_tokens (butlast front)) else (False, value))
                  else (False, value)
              | _ \<Rightarrow> (False, value))"

fun skip_component_value :: "nat \<Rightarrow> css_token list \<Rightarrow> css_token list" where
  "skip_component_value depth [] = []"
| "skip_component_value depth (t # ts) =
     (if t = Semicolon \<and> depth = 0 then ts
      else if t = CurlyOpen \<or> t = ParenOpen \<or> t = BracketOpen then skip_component_value (Suc depth) ts
      else if t = CurlyClose \<or> t = ParenClose \<or> t = BracketClose then skip_component_value (depth - 1) ts
      else skip_component_value depth ts)"

lemma skip_component_value_le: "length (skip_component_value d ts) \<le> length ts"
  by (induction d ts rule: skip_component_value.induct) auto

definition ends_value :: "css_token \<Rightarrow> bool" where
  "ends_value t \<longleftrightarrow> t = Semicolon \<or> t = CurlyClose \<or> t = Eof"

definition after_value :: "css_token list \<Rightarrow> css_token list" where
  "after_value ts =
     (let r = dropWhile (\<lambda>t. \<not> ends_value t) ts in if peek r = Some Semicolon then tl r else r)"

definition make_declaration :: "string \<Rightarrow> css_token list \<Rightarrow> css_declaration" where
  "make_declaration name given =
     (let (important, value) = consume_important given
      in \<lparr>decl_name = name, decl_value = trim_tokens value, decl_important = important,
          decl_property = lookup_property_id name\<rparr>)"

definition between_declarations :: "css_token \<Rightarrow> bool" where
  "between_declarations t \<longleftrightarrow> t = Whitespace \<or> t = Semicolon"

lemma skip_component_value_less:
  "t \<noteq> Semicolon \<or> d = 0 \<Longrightarrow> length (skip_component_value d (t # ts)) < length (t # ts)"
  using skip_component_value_le[of _ ts] by (auto simp: less_Suc_eq_le)

function parse_declarations :: "css_token list \<Rightarrow> css_declaration list" where
  "parse_declarations ts =
     (case dropWhile between_declarations ts of
        [] \<Rightarrow> []
      | t # r \<Rightarrow>
          (case t of
             Ident name \<Rightarrow>
               (let r = skip_ws r
                in if peek r \<noteq> Some Colon then parse_declarations (skip_component_value 0 r)
                   else make_declaration name (takeWhile (\<lambda>t. \<not> ends_value t) (tl r))
                          # parse_declarations (after_value (tl r)))
           | AtKeyword _ \<Rightarrow> []
           | CurlyOpen \<Rightarrow> []
           | _ \<Rightarrow> parse_declarations (skip_component_value 0 (t # r))))"
  by pat_completeness auto

lemma length_after_value: "length (after_value ts) \<le> length ts"
  using length_dropWhile_le[of "\<lambda>t. \<not> ends_value t" ts] by (auto simp: after_value_def Let_def)

lemma dropWhile_Cons_length: "dropWhile P ts = t # r \<Longrightarrow> length r < length ts"
  using length_dropWhile_le[of P ts] by simp

lemma parse_declarations_smaller:
  assumes "dropWhile between_declarations ts = t # r"
  shows "length (skip_component_value 0 (t # r)) < length ts"
    "length (skip_component_value 0 (skip_ws r)) < length ts"
    "length (after_value (tl (skip_ws r))) < length ts"
proof -
  have r: "length r < length ts" using dropWhile_Cons_length[OF assms] .
  show "length (skip_component_value 0 (t # r)) < length ts"
    using skip_component_value_less[of t 0 r] r by simp
  show "length (skip_component_value 0 (skip_ws r)) < length ts"
    using skip_component_value_le[of 0 "skip_ws r"] length_skip_ws[of r] r by simp
  show "length (after_value (tl (skip_ws r))) < length ts"
    using length_after_value[of "tl (skip_ws r)"] length_skip_ws[of r] r by simp
qed

termination parse_declarations
  by (relation "measure length")
    (simp_all add: parse_declarations_smaller del: skip_component_value.simps)

declare parse_declarations.simps [simp del]

section \<open>Keyframes\<close>

text \<open>What the source asks of \<open>f32\<close>: a percentage text divided by one hundred, the two ends of the
  range, the comparison and the total order.\<close>

record 'f f32_ops =
  f_percent :: "string \<Rightarrow> 'f option"
  f_zero :: 'f
  f_one :: 'f
  f_le :: "'f \<Rightarrow> 'f \<Rightarrow> bool"
  f_total_le :: "'f \<Rightarrow> 'f \<Rightarrow> bool"

fun insert_by :: "('f \<Rightarrow> 'f \<Rightarrow> bool) \<Rightarrow> 'f \<Rightarrow> 'f list \<Rightarrow> 'f list" where
  "insert_by le x [] = [x]"
| "insert_by le x (y # ys) = (if le x y then x # y # ys else y # insert_by le x ys)"

definition sort_by :: "('f \<Rightarrow> 'f \<Rightarrow> bool) \<Rightarrow> 'f list \<Rightarrow> 'f list" where
  "sort_by le xs = foldr (insert_by le) xs []"

text \<open>One token of a keyframe selector: an offset, a separator (\<open>Some None\<close>), or invalid.\<close>

definition keyframe_offset :: "'f f32_ops \<Rightarrow> css_token \<Rightarrow> 'f option option" where
  "keyframe_offset F t =
     (case t of
        Percentage v \<Rightarrow> map_option Some (f_percent F v)
      | Ident name \<Rightarrow>
          if eq_ignore_ascii_case name ''from'' then Some (Some (f_zero F))
          else if eq_ignore_ascii_case name ''to'' then Some (Some (f_one F))
          else None
      | Whitespace \<Rightarrow> Some None
      | Comma \<Rightarrow> Some None
      | _ \<Rightarrow> None)"

fun offsets_loop :: "'f f32_ops \<Rightarrow> 'f list \<Rightarrow> css_token list \<Rightarrow> 'f list" where
  "offsets_loop F offsets [] = sort_by (f_total_le F) offsets"
| "offsets_loop F offsets (t # ts) =
     (case keyframe_offset F t of
        None \<Rightarrow> []
      | Some None \<Rightarrow> offsets_loop F offsets ts
      | Some (Some x) \<Rightarrow>
          if \<not> (f_le F (f_zero F) x \<and> f_le F x (f_one F)) then []
          else offsets_loop F (offsets @ [x]) ts)"

definition keyframe_offsets :: "'f f32_ops \<Rightarrow> css_token list \<Rightarrow> 'f list" where
  "keyframe_offsets F ts = offsets_loop F [] ts"

text \<open>The body of a block up to its matching brace, without the brace. At the end of the input the
  source drops the last token scanned, and with no token after the brace its slice is reversed,
  which is a panic: \<open>None\<close>.\<close>

fun keyframe_body :: "nat \<Rightarrow> css_token list \<Rightarrow> css_token list \<times> css_token list" where
  "keyframe_body depth [] = ([], [])"
| "keyframe_body depth (t # ts) =
     (let depth = (if t = CurlyOpen then Suc depth else if t = CurlyClose then depth - 1 else depth)
      in if depth = 0 \<or> ts = [] then ([], ts) else apfst ((#) t) (keyframe_body depth ts))"

lemma length_keyframe_body: "length (snd (keyframe_body d ts)) \<le> length ts"
  by (induction d ts rule: keyframe_body.induct) (auto simp: Let_def)

function parse_keyframe_blocks :: "'f f32_ops \<Rightarrow> css_token list \<Rightarrow> 'f keyframe list option" where
  "parse_keyframe_blocks F ts =
     (case dropWhile (\<lambda>t. t \<noteq> CurlyOpen) ts of
        [] \<Rightarrow> Some []
      | _ # r \<Rightarrow>
          (let offsets = keyframe_offsets F (takeWhile (\<lambda>t. t \<noteq> CurlyOpen) ts);
               blocks = parse_keyframe_blocks F (snd (keyframe_body 1 r))
           in if offsets = [] then blocks
              else if r = [] then None
              else map_option
                     ((#) \<lparr>kf_offsets = offsets,
                           kf_declarations = parse_declarations (fst (keyframe_body 1 r))\<rparr>) blocks))"
  by pat_completeness auto

lemma keyframe_blocks_smaller:
  "dropWhile P ts = t # r \<Longrightarrow> length (snd (keyframe_body 1 r)) < length ts"
  using dropWhile_Cons_length[of P ts t r] length_keyframe_body[of 1 r] by simp

termination parse_keyframe_blocks
  by (relation "measure (\<lambda>(F, ts). length ts)") (simp_all add: keyframe_blocks_smaller[unfolded One_nat_def])

declare parse_keyframe_blocks.simps [simp del]

section \<open>At-rule blocks\<close>

fun strip_prefixes :: "string list \<Rightarrow> string \<Rightarrow> string" where
  "strip_prefixes [] name = name"
| "strip_prefixes (p # ps) name =
     (case strip_prefix p name of Some rest \<Rightarrow> rest | None \<Rightarrow> strip_prefixes ps name)"

definition strip_vendor_prefix :: "string \<Rightarrow> string" where
  "strip_vendor_prefix name = strip_prefixes [''-webkit-'', ''-moz-'', ''-ms-'', ''-o-''] name"

definition block_opens_nested_block :: "css_token list \<Rightarrow> bool" where
  "block_opens_nested_block ts \<longleftrightarrow> CurlyOpen \<in> set ts"

definition at_rule_block_holds_rules :: "string \<Rightarrow> css_token list \<Rightarrow> bool" where
  "at_rule_block_holds_rules name ts =
     (let lowered = strip_vendor_prefix (to_ascii_lowercase name)
      in if lowered \<in> set [''media'', ''supports'', ''layer'', ''container'', ''scope'', ''document'',
              ''keyframes'', ''starting-style'', ''font-feature-values''] then True
         else if lowered \<in> set [''font-face'', ''page'', ''property'', ''counter-style'', ''viewport'',
              ''font-palette-values'', ''position-try''] then False
         else block_opens_nested_block ts)"

section \<open>Rules\<close>

fun consume_block :: "nat \<Rightarrow> css_token list \<Rightarrow> css_token list \<times> css_token list" where
  "consume_block depth [] = ([], [])"
| "consume_block depth (t # ts) =
     (if t = CurlyOpen then apfst ((#) t) (consume_block (Suc depth) ts)
      else if t = CurlyClose then
        (if depth - 1 = 0 then ([], ts) else apfst ((#) t) (consume_block (depth - 1) ts))
      else if t = Eof then ([], ts)
      else apfst ((#) t) (consume_block depth ts))"

definition ignorable :: "css_token \<Rightarrow> bool" where
  "ignorable t \<longleftrightarrow> t = Whitespace \<or> t = Cdo \<or> t = Cdc"

definition parse_bounded_selector_list :: "css_token list \<Rightarrow> nat \<Rightarrow> selector_list" where
  "parse_bounded_selector_list ts max_tokens =
     (if max_tokens < length ts then parse_selector_list [] else parse_selector_list ts)"

text \<open>The prelude of a rule, and the tokens it stops at.\<close>

definition at_prelude_ends :: "css_token \<Rightarrow> bool" where
  "at_prelude_ends t \<longleftrightarrow> t = Semicolon \<or> t = CurlyOpen \<or> t = Eof"

definition rule_prelude_ends :: "css_token \<Rightarrow> bool" where
  "rule_prelude_ends t \<longleftrightarrow> t = CurlyOpen \<or> t = Eof"

type_synonym 'f block_parser = "string \<Rightarrow> css_token list \<Rightarrow> 'f at_rule_block option"

text \<open>\<open>parse_at_rule\<close>, on the name and the tokens after it; \<open>block_of\<close> parses the block one level
  deeper. The outer option is the panic.\<close>

definition parse_at_rule ::
    "'f block_parser \<Rightarrow> string \<Rightarrow> css_token list \<Rightarrow> ('f rule \<times> css_token list) option" where
  "parse_at_rule block_of name ts =
     (let prelude = takeWhile (\<lambda>t. \<not> at_prelude_ends t) ts;
          rest = dropWhile (\<lambda>t. \<not> at_prelude_ends t) ts
      in case peek rest of
           Some CurlyOpen \<Rightarrow>
             (let (block_tokens, rest) = consume_block 1 (tl rest)
              in map_option (\<lambda>b. (AtRule name prelude (Some b), rest)) (block_of name block_tokens))
         | Some Semicolon \<Rightarrow> Some (AtRule name prelude None, tl rest)
         | _ \<Rightarrow> Some (AtRule name prelude None, rest))"

definition parse_qualified_rule :: "css_token list \<Rightarrow> 'f rule option \<times> css_token list" where
  "parse_qualified_rule ts =
     (let selector_tokens = takeWhile (\<lambda>t. \<not> rule_prelude_ends t) ts;
          rest = dropWhile (\<lambda>t. \<not> rule_prelude_ends t) ts
      in case peek rest of
           Some CurlyOpen \<Rightarrow>
             (let (block_tokens, rest) = consume_block 1 (tl rest)
              in (Some (StyleRule
                          (parse_bounded_selector_list selector_tokens MAX_QUALIFIED_RULE_SELECTOR_TOKENS)
                          (parse_declarations block_tokens)), rest))
         | _ \<Rightarrow> (None, rest))"

definition parse_rule :: "'f block_parser \<Rightarrow> css_token list \<Rightarrow> ('f rule option \<times> css_token list) option" where
  "parse_rule block_of ts =
     (case peek ts of
        Some (AtKeyword name) \<Rightarrow> map_option (apfst Some) (parse_at_rule block_of name (tl ts))
      | Some Eof \<Rightarrow> Some (None, ts)
      | None \<Rightarrow> Some (None, ts)
      | _ \<Rightarrow> Some (parse_qualified_rule ts))"

lemma length_consume_block: "length (snd (consume_block d ts)) \<le> length ts"
  by (induction d ts rule: consume_block.induct) auto

lemma length_block_rest:
  "length (snd (consume_block d (tl (dropWhile P ts)))) \<le> length ts - 1"
  using length_consume_block[of d "tl (dropWhile P ts)"] length_dropWhile_le[of P ts] by simp

lemma parse_at_rule_le:
  assumes "parse_at_rule block_of name ts = Some (r, rest)" shows "length rest \<le> length ts"
proof -
  define u where "u = dropWhile (\<lambda>t. \<not> at_prelude_ends t) ts"
  have u: "length u \<le> length ts" "length (tl u) \<le> length ts" 
    using length_dropWhile_le[of _ ts] by (simp_all add: u_def le_diff_conv le_SucI)
  moreover have "length (snd (consume_block 1 (tl u))) \<le> length ts"
    using length_block_rest[of 1 _ ts] unfolding u_def by (meson diff_le_self le_trans)
  ultimately have u: "length u \<le> length ts" "length (tl u) \<le> length ts"
    "length (snd (consume_block 1 (tl u))) \<le> length ts" by blast+
  obtain b v where cb: "consume_block 1 (tl u) = (b, v)" by (metis surj_pair)
  show ?thesis
  proof (cases "peek u")
    case None
    then show ?thesis using assms u unfolding parse_at_rule_def Let_def u_def[symmetric] by simp
  next
    case (Some t)
    then show ?thesis
      using assms u cb unfolding parse_at_rule_def Let_def u_def[symmetric] by (cases t) auto
  qed
qed

lemma parse_qualified_rule_some:
  assumes "parse_qualified_rule ts = (Some r, rest)" shows "length rest < length ts"
proof -
  define u where "u = dropWhile (\<lambda>t. \<not> rule_prelude_ends t) ts"
  obtain b v where cb: "consume_block 1 (tl u) = (b, v)" by (metis surj_pair)
  have v: "length v \<le> length u - 1" using length_consume_block[of 1 "tl u"] cb by simp
  have u: "length u \<le> length ts" by (simp add: u_def length_dropWhile_le)
  show ?thesis
  proof (cases u)
    case Nil
    then show ?thesis using assms unfolding parse_qualified_rule_def Let_def u_def[symmetric] by (simp add: peek_def)
  next
    case (Cons t w)
    then show ?thesis
      using assms u v cb unfolding parse_qualified_rule_def Let_def u_def[symmetric]
      by (cases t) (auto simp: peek_def)
  qed
qed

lemma parse_rule_some:
  assumes "parse_rule block_of ts = Some (Some r, rest)" shows "length rest < length ts"
proof (cases ts)
  case Nil
  then show ?thesis using assms by (simp add: parse_rule_def peek_def)
next
  case (Cons t u)
  have q: "parse_qualified_rule ts = (Some r, rest) \<Longrightarrow> length rest < length ts"
    by (rule parse_qualified_rule_some)
  show ?thesis
  proof (cases t)
    case (AtKeyword name)
    then show ?thesis
      using assms Cons parse_at_rule_le[of block_of name u]
      by (auto simp: parse_rule_def peek_def less_Suc_eq_le)
  qed (use assms Cons q in \<open>auto simp: parse_rule_def peek_def\<close>)
qed

lemma parse_qualified_rule_le:
  assumes "parse_qualified_rule ts = (r, rest)" shows "length rest \<le> length ts"
proof (cases r)
  case None
  have "length (dropWhile (\<lambda>t. \<not> rule_prelude_ends t) ts) \<le> length ts" by (rule length_dropWhile_le)
  then show ?thesis
    using assms None
    by (auto simp: parse_qualified_rule_def Let_def split: option.splits css_token.splits prod.splits)
next
  case (Some a)
  then show ?thesis using assms parse_qualified_rule_some by fastforce
qed

lemma parse_rule_none:
  assumes "parse_rule block_of ts = Some (None, rest)" and "\<not> is_eof ts"
  shows "length (tl rest) < length ts"
proof (cases ts)
  case Nil
  then show ?thesis using assms by (simp add: is_eof_def peek_def)
next
  case (Cons t u)
  have q: "parse_qualified_rule ts = (None, rest) \<Longrightarrow> length (tl rest) < length ts"
    using parse_qualified_rule_le[of ts] Cons by force
  show ?thesis
    by (cases t) (use assms Cons q in \<open>auto simp: parse_rule_def peek_def is_eof_def\<close>)
qed

section \<open>The rule list\<close>

function stylesheet_loop :: "'f block_parser \<Rightarrow> 'f rule list \<Rightarrow> css_token list \<Rightarrow> 'f rule list option" where
  "stylesheet_loop block_of rules ts =
     (if is_eof ts then Some rules
      else case parse_rule block_of ts of
             None \<Rightarrow> None
           | Some (Some r, rest) \<Rightarrow> stylesheet_loop block_of (rules @ [r]) (dropWhile ignorable rest)
           | Some (None, rest) \<Rightarrow> stylesheet_loop block_of rules (dropWhile ignorable (tl rest)))"
  by pat_completeness auto

lemma stylesheet_loop_smaller:
  "parse_rule block_of ts = Some (Some r, rest) \<Longrightarrow> length (dropWhile ignorable rest) < length ts"
  "parse_rule block_of ts = Some (None, rest) \<Longrightarrow> \<not> is_eof ts \<Longrightarrow>
    length (dropWhile ignorable (tl rest)) < length ts"
  using parse_rule_some parse_rule_none length_dropWhile_le le_less_trans by blast+

termination stylesheet_loop
  by (relation "measure (\<lambda>(block_of, rules, ts). length ts)") 
    (simp, (simp, metis stylesheet_loop_smaller)+)

declare stylesheet_loop.simps [simp del]

definition parse_rules :: "'f block_parser \<Rightarrow> css_token list \<Rightarrow> 'f rule list option" where
  "parse_rules block_of ts = stylesheet_loop block_of [] (dropWhile ignorable (with_eof ts))"

text \<open>\<open>parse_at_rule_block\<close>: the block of an at-rule at nesting depth \<open>depth\<close>. The parser it starts
  for a rule list parses its own blocks one level deeper, which the bound ends.\<close>

function parse_at_rule_block ::
    "'f f32_ops \<Rightarrow> string \<Rightarrow> css_token list \<Rightarrow> nat \<Rightarrow> 'f at_rule_block option" where
  "parse_at_rule_block F name ts depth =
     (if strip_vendor_prefix (to_ascii_lowercase name) = ''keyframes'' then
        map_option Keyframes (parse_keyframe_blocks F ts)
      else if \<not> at_rule_block_holds_rules name ts then Some (Declarations (parse_declarations ts))
      else if MAX_AT_RULE_NESTING_DEPTH < depth then Some (Rules [])
      else map_option Rules (parse_rules (\<lambda>n t. parse_at_rule_block F n t (Suc depth)) ts))"
  by pat_completeness auto
termination
  by (relation "measure (\<lambda>(F, name, ts, depth). Suc MAX_AT_RULE_NESTING_DEPTH - depth)") auto

declare parse_at_rule_block.simps [simp del]

text \<open>\<open>CssParser::parse_stylesheet\<close> of a parser at depth 0.\<close>

definition parse_stylesheet_tokens :: "'f f32_ops \<Rightarrow> css_token list \<Rightarrow> 'f stylesheet option" where
  "parse_stylesheet_tokens F ts = parse_rules (\<lambda>n t. parse_at_rule_block F n t 1) ts"

section \<open>From text\<close>

fun nat_string :: "nat \<Rightarrow> string" where
  "nat_string n = (if n < 10 then [char_of (48 + n)] else nat_string (n div 10) @ [char_of (48 + n mod 10)])"

declare nat_string.simps [simp del]

text \<open>\<open>feed\<close> of the whole input, then \<open>finish\<close>.\<close>

definition tokenize :: "search_fn \<Rightarrow> string \<Rightarrow> (css_fault + css_token list) option" where
  "tokenize search input =
     (case feed search input css_tokenizer_new of
        None \<Rightarrow> None
      | Some (Inl e) \<Rightarrow> Some (Inl e)
      | Some (Inr (ts, tk)) \<Rightarrow>
          (case finish search tk of
             None \<Rightarrow> None
           | Some (Inl e) \<Rightarrow> Some (Inl e)
           | Some (Inr (us, _)) \<Rightarrow> Some (Inr (ts @ us))))"

definition rule_limit_error :: "nat \<Rightarrow> css_error" where
  "rule_limit_error n =
     \<lparr>err_offset = 0,
      err_message = ''stylesheet rule count '' @ nat_string n @ '' exceeds MAX_CSS_RULES ''
        @ nat_string MAX_CSS_RULES\<rparr>"

definition parse_stylesheet ::
    "'f f32_ops \<Rightarrow> search_fn \<Rightarrow> string \<Rightarrow> (css_fault + css_error + 'f stylesheet) option" where
  "parse_stylesheet F search input =
     (case tokenize search input of
        None \<Rightarrow> None
      | Some (Inl e) \<Rightarrow> Some (Inl e)
      | Some (Inr ts) \<Rightarrow>
          Some (case parse_stylesheet_tokens F ts of
                  None \<Rightarrow> Inl CssPanic
                | Some rules \<Rightarrow>
                    Inr (if MAX_CSS_RULES < length rules then Inl (rule_limit_error (length rules))
                         else Inr rules)))"

text \<open>The largest character boundary at or below a position.\<close>

fun boundary_below :: "string \<Rightarrow> nat \<Rightarrow> nat" where
  "boundary_below s 0 = 0"
| "boundary_below s (Suc n) = (if at_boundary (drop (Suc n) s) then Suc n else boundary_below s n)"

definition utf8_prefix :: "string \<Rightarrow> nat \<Rightarrow> string" where
  "utf8_prefix s n = take (boundary_below s (min n (length s))) s"

text \<open>\<open>truncate_at_declaration_boundary\<close> and \<open>truncate_at_rule_boundary\<close>, for the closing character.\<close>

definition truncate_after_last :: "char \<Rightarrow> string \<Rightarrow> nat \<Rightarrow> string" where
  "truncate_after_last c s n =
     (if length s \<le> n then s
      else
        (let p = utf8_prefix s n
         in if c \<in> set p then rev (dropWhile (\<lambda>x. x \<noteq> c) (rev p)) else p))"

definition truncate_at_declaration_boundary :: "string \<Rightarrow> nat \<Rightarrow> string" where
  "truncate_at_declaration_boundary s n = truncate_after_last (CHR '';'') s n"

definition truncate_at_rule_boundary :: "string \<Rightarrow> nat \<Rightarrow> string" where
  "truncate_at_rule_boundary s n = truncate_after_last (CHR ''}'') s n"

definition parse_declaration_list ::
    "search_fn \<Rightarrow> string \<Rightarrow> (css_fault + css_declaration list) option" where
  "parse_declaration_list search input =
     map_option (map_sum (\<lambda>e. e) parse_declarations)
       (tokenize search (truncate_at_declaration_boundary input MAX_INLINE_STYLE_BYTES))"

end
