(* ===== verification/Css_Intern.thy ===== *)
theory Css_Intern
  imports Css_Parser
begin

text \<open>
  Interning and stripping the names of parsed selectors (\<open>intern_rules\<close>, \<open>strip_selector_atoms\<close>,
  \<open>parse_stylesheet_with_interner\<close>). Every atom an interned selector carries resolves to the
  name beside it, and stripping forgets the interning. Then the encoding sniffers of
  \<open>parse_stylesheet_bytes\<close>.
\<close>

section \<open>Interning selectors\<close>

lemma map_st_cong [fundef_cong]:
  assumes "xs = ys" and "s = t" and "\<And>x u. x \<in> set ys \<Longrightarrow> f x u = g x u"
  shows "map_st f xs s = map_st g ys t"
proof -
  have "(\<And>x u. x \<in> set ys \<Longrightarrow> f x u = g x u) \<Longrightarrow> map_st f ys t = map_st g ys t"
    by (induction ys arbitrary: t) simp_all
  then show ?thesis using assms by blast
qed

fun intern_selector :: "selector \<Rightarrow> silk_interner \<Rightarrow> selector \<times> silk_interner"
  and intern_step :: "selector_step \<Rightarrow> silk_interner \<Rightarrow> selector_step \<times> silk_interner"
  and intern_compound :: "compound \<Rightarrow> silk_interner \<Rightarrow> compound \<times> silk_interner"
  and intern_modifier :: "selector_modifier \<Rightarrow> silk_interner \<Rightarrow> selector_modifier \<times> silk_interner"
  and intern_arg :: "pseudo_arg \<Rightarrow> silk_interner \<Rightarrow> pseudo_arg \<times> silk_interner"
where
  "intern_selector (Selector steps) it = apfst Selector (map_st intern_step steps it)"
| "intern_step (SelectorStep c cp) it = apfst (SelectorStep c) (intern_compound cp it)"
| "intern_compound (Compound t ms) it = apfst (Compound t) (map_st intern_modifier ms it)"
| "intern_modifier (ClassMod i) it = apfst ClassMod (ident_intern_with i it)"
| "intern_modifier (IdMod i) it = apfst IdMod (ident_intern_with i it)"
| "intern_modifier (PseudoMod i) it = apfst PseudoMod (ident_intern_with i it)"
| "intern_modifier (AttributeMod a) it = (AttributeMod a, it)"
| "intern_modifier (FunctionalMod i arg) it =
     (let (i, it) = ident_intern_with i it; (arg, it) = intern_arg arg it in (FunctionalMod i arg, it))"
| "intern_arg (ListArg sels) it = apfst ListArg (map_st intern_selector sels it)"
| "intern_arg (NthArg n) it = (NthArg n, it)"

definition intern_selector_list :: "selector_list \<Rightarrow> silk_interner \<Rightarrow> selector_list \<times> silk_interner" where
  "intern_selector_list = map_st intern_selector"

fun strip_selector :: "selector \<Rightarrow> selector"
  and strip_step :: "selector_step \<Rightarrow> selector_step"
  and strip_compound :: "compound \<Rightarrow> compound"
  and strip_modifier :: "selector_modifier \<Rightarrow> selector_modifier"
  and strip_arg :: "pseudo_arg \<Rightarrow> pseudo_arg"
where
  "strip_selector (Selector steps) = Selector (map strip_step steps)"
| "strip_step (SelectorStep c cp) = SelectorStep c (strip_compound cp)"
| "strip_compound (Compound t ms) = Compound t (map strip_modifier ms)"
| "strip_modifier (ClassMod i) = ClassMod (ident_clear_atom i)"
| "strip_modifier (IdMod i) = IdMod (ident_clear_atom i)"
| "strip_modifier (PseudoMod i) = PseudoMod (ident_clear_atom i)"
| "strip_modifier (AttributeMod a) = AttributeMod (a\<lparr>as_value := map_option ident_clear_atom (as_value a)\<rparr>)"
| "strip_modifier (FunctionalMod i arg) = FunctionalMod (ident_clear_atom i) (strip_arg arg)"
| "strip_arg (ListArg sels) = ListArg (map strip_selector sels)"
| "strip_arg (NthArg n) = NthArg n"

fun intern_rule :: "'f rule \<Rightarrow> silk_interner \<Rightarrow> 'f rule \<times> silk_interner"
  and intern_block :: "'f at_rule_block \<Rightarrow> silk_interner \<Rightarrow> 'f at_rule_block \<times> silk_interner"
where
  "intern_rule (StyleRule sels ds) it = apfst (\<lambda>s. StyleRule s ds) (intern_selector_list sels it)"
| "intern_rule (AtRule n p (Some b)) it = apfst (\<lambda>b. AtRule n p (Some b)) (intern_block b it)"
| "intern_rule (AtRule n p None) it = (AtRule n p None, it)"
| "intern_block (Rules rs) it = apfst Rules (map_st intern_rule rs it)"
| "intern_block b it = (b, it)"

definition intern_rules :: "'f rule list \<Rightarrow> silk_interner \<Rightarrow> 'f rule list \<times> silk_interner" where
  "intern_rules = map_st intern_rule"

fun strip_rule :: "'f rule \<Rightarrow> 'f rule"
  and strip_block :: "'f at_rule_block \<Rightarrow> 'f at_rule_block"
where
  "strip_rule (StyleRule sels ds) = StyleRule (map strip_selector sels) ds"
| "strip_rule (AtRule n p (Some b)) = AtRule n p (Some (strip_block b))"
| "strip_rule (AtRule n p None) = AtRule n p None"
| "strip_block (Rules rs) = Rules (map strip_rule rs)"
| "strip_block b = b"

definition strip_selector_atoms :: "'f rule list \<Rightarrow> 'f rule list" where
  "strip_selector_atoms = map strip_rule"

definition parse_stylesheet_with_interner ::
    "'f f32_ops \<Rightarrow> search_fn \<Rightarrow> string \<Rightarrow> silk_interner
      \<Rightarrow> (css_fault + 'f stylesheet \<times> silk_interner) option" where
  "parse_stylesheet_with_interner F search input it =
     map_option
       (\<lambda>r. case r of
          Inl e \<Rightarrow> Inl e
        | Inr ts \<Rightarrow>
            (case parse_stylesheet_tokens F ts of
               None \<Rightarrow> Inl CssPanic
             | Some rules \<Rightarrow> Inr (intern_rules rules it)))
       (tokenize search (truncate_at_rule_boundary input MAX_CSS_BYTES))"

section \<open>Stripping forgets interning\<close>

lemma ident_clear_intern: "ident_clear_atom (fst (ident_intern_with i it)) = ident_clear_atom i"
  by (auto simp: ident_intern_with_def ident_clear_atom_def split: prod.split)

lemma map_map_st:
  "(\<And>x s. x \<in> set xs \<Longrightarrow> g (fst (f x s)) = g x) \<Longrightarrow> map g (fst (map_st f xs s)) = map g xs"
  by (induction xs arbitrary: s) (simp_all add: case_prod_beta Let_def)

lemma strip_intern_selector:
  "strip_selector (fst (intern_selector sel it)) = strip_selector sel"
  "strip_step (fst (intern_step st it)) = strip_step st"
  "strip_compound (fst (intern_compound cp it)) = strip_compound cp"
  "strip_modifier (fst (intern_modifier m it)) = strip_modifier m"
  "strip_arg (fst (intern_arg arg it)) = strip_arg arg"
  by (induction sel it and st it and cp it and m it and arg it
      rule: intern_selector_intern_step_intern_compound_intern_modifier_intern_arg.induct)
    (auto simp: ident_clear_intern map_map_st split_beta Let_def, metis prod.collapse)

lemma strip_intern_rule:
  fixes r :: "'f rule" and b :: "'f at_rule_block"
  shows "strip_rule (fst (intern_rule r it)) = strip_rule r"
  "strip_block (fst (intern_block b it)) = strip_block b"
  by (induction r it and b it rule: intern_rule_intern_block.induct)
    (auto simp: intern_selector_list_def map_map_st strip_intern_selector)

section \<open>Faithful atoms\<close>

text \<open>\<open>P\<close> holds of every name of a selector, \<open>Q\<close> of every attribute value.\<close>

fun sel_all :: "(sel_ident \<Rightarrow> bool) \<Rightarrow> (sel_ident \<Rightarrow> bool) \<Rightarrow> selector \<Rightarrow> bool"
  and step_all :: "(sel_ident \<Rightarrow> bool) \<Rightarrow> (sel_ident \<Rightarrow> bool) \<Rightarrow> selector_step \<Rightarrow> bool"
  and compound_all :: "(sel_ident \<Rightarrow> bool) \<Rightarrow> (sel_ident \<Rightarrow> bool) \<Rightarrow> compound \<Rightarrow> bool"
  and modifier_all :: "(sel_ident \<Rightarrow> bool) \<Rightarrow> (sel_ident \<Rightarrow> bool) \<Rightarrow> selector_modifier \<Rightarrow> bool"
  and arg_all :: "(sel_ident \<Rightarrow> bool) \<Rightarrow> (sel_ident \<Rightarrow> bool) \<Rightarrow> pseudo_arg \<Rightarrow> bool"
where
  "sel_all P Q (Selector steps) = list_all (step_all P Q) steps"
| "step_all P Q (SelectorStep c cp) = compound_all P Q cp"
| "compound_all P Q (Compound t ms) = list_all (modifier_all P Q) ms"
| "modifier_all P Q (ClassMod i) = P i"
| "modifier_all P Q (IdMod i) = P i"
| "modifier_all P Q (PseudoMod i) = P i"
| "modifier_all P Q (AttributeMod a) = (case as_value a of None \<Rightarrow> True | Some v \<Rightarrow> Q v)"
| "modifier_all P Q (FunctionalMod i arg) = (P i \<and> arg_all P Q arg)"
| "arg_all P Q (ListArg sels) = list_all (sel_all P Q) sels"
| "arg_all P Q (NthArg n) = True"

fun rule_all :: "(sel_ident \<Rightarrow> bool) \<Rightarrow> (sel_ident \<Rightarrow> bool) \<Rightarrow> 'f rule \<Rightarrow> bool"
  and block_all :: "(sel_ident \<Rightarrow> bool) \<Rightarrow> (sel_ident \<Rightarrow> bool) \<Rightarrow> 'f at_rule_block \<Rightarrow> bool"
where
  "rule_all P Q (StyleRule sels ds) = list_all (sel_all P Q) sels"
| "rule_all P Q (AtRule n p (Some b)) = block_all P Q b"
| "rule_all P Q (AtRule n p None) = True"
| "block_all P Q (Rules rs) = list_all (rule_all P Q) rs"
| "block_all P Q b = True"

definition ident_faithful :: "silk_interner \<Rightarrow> sel_ident \<Rightarrow> bool" where
  "ident_faithful it i \<longleftrightarrow> (\<forall>a. ident_atom i = Some a \<longrightarrow> resolve it a = Some (ident_value i))"

definition ident_interned :: "silk_interner \<Rightarrow> sel_ident \<Rightarrow> bool" where
  "ident_interned it i \<longleftrightarrow>
     ident_faithful it i \<and> (should_intern_identifier (ident_value i) \<longrightarrow> ident_atom i \<noteq> None)"

definition interner_le :: "silk_interner \<Rightarrow> silk_interner \<Rightarrow> bool" where
  "interner_le it it' \<longleftrightarrow> (\<forall>a v. resolve it a = Some v \<longrightarrow> resolve it' a = Some v)"

lemma interner_le_refl [simp]: "interner_le it it"
  by (simp add: interner_le_def)

lemma interner_le_trans: "interner_le a b \<Longrightarrow> interner_le b c \<Longrightarrow> interner_le a c"
  by (simp add: interner_le_def)

lemma faithful_mono: "ident_faithful it i \<Longrightarrow> interner_le it it' \<Longrightarrow> ident_faithful it' i"
  by (auto simp: ident_faithful_def interner_le_def)

lemma interned_mono: "ident_interned it i \<Longrightarrow> interner_le it it' \<Longrightarrow> ident_interned it' i"
  by (auto simp: ident_interned_def faithful_mono)

lemma sel_all_mono:
  assumes "\<And>i. P i \<Longrightarrow> P' i" and "\<And>i. Q i \<Longrightarrow> Q' i"
  shows "sel_all P Q sel \<Longrightarrow> sel_all P' Q' sel" "step_all P Q st \<Longrightarrow> step_all P' Q' st"
    "compound_all P Q cp \<Longrightarrow> compound_all P' Q' cp" "modifier_all P Q m \<Longrightarrow> modifier_all P' Q' m"
    "arg_all P Q arg \<Longrightarrow> arg_all P' Q' arg"
  by (induction sel and st and cp and m and arg)
    (use assms in \<open>auto simp: list_all_iff split: option.splits\<close>)

lemma rule_all_mono:
  fixes r :: "'f rule" and b :: "'f at_rule_block"
  assumes "\<And>i. P i \<Longrightarrow> P' i" and "\<And>i. Q i \<Longrightarrow> Q' i"
  shows "rule_all P Q r \<Longrightarrow> rule_all P' Q' r" "block_all P Q b \<Longrightarrow> block_all P' Q' b"
proof (induction r and b)
  case (AtRule n p ob)
  then show ?case by (cases ob) auto
qed (use sel_all_mono(1)[of P P' Q Q'] assms in \<open>auto simp: list_all_iff\<close>)

text \<open>An operation that interns: it only adds to the table, and turns \<open>pre\<close> of its input into
  \<open>post\<close> of its output.\<close>

definition interns ::
    "(silk_interner \<Rightarrow> 'a \<Rightarrow> bool) \<Rightarrow> (silk_interner \<Rightarrow> 'a \<Rightarrow> bool)
      \<Rightarrow> ('a \<Rightarrow> silk_interner \<Rightarrow> 'a \<times> silk_interner) \<Rightarrow> 'a \<Rightarrow> bool" where
  "interns pre post f x \<longleftrightarrow>
     (\<forall>it. interner_fits (snd (f x it)) \<longrightarrow>
        interner_fits it
        \<and> (interner_inv it \<longrightarrow> interner_inv (snd (f x it)) \<and> interner_le it (snd (f x it))
             \<and> (pre it x \<longrightarrow> post (snd (f x it)) (fst (f x it)))))"

definition stable :: "(silk_interner \<Rightarrow> 'a \<Rightarrow> bool) \<Rightarrow> bool" where
  "stable p \<longleftrightarrow> (\<forall>it it' x. p it x \<longrightarrow> interner_le it it' \<longrightarrow> p it' x)"

lemma interns_map_st:
  assumes "\<And>x. x \<in> set xs \<Longrightarrow> interns pre post f x" and pre: "stable pre" and post: "stable post"
  shows "interns (\<lambda>it. list_all (pre it)) (\<lambda>it. list_all (post it)) (map_st f) xs"
  using assms(1)
proof (induction xs)
  case Nil
  then show ?case by (simp add: interns_def)
next
  case (Cons x xs)
  have x: "interns pre post f x" and xs: "interns (\<lambda>it. list_all (pre it)) (\<lambda>it. list_all (post it)) (map_st f) xs"
    using Cons by auto
  show ?case
    unfolding interns_def
  proof (intro allI impI)
    fix it assume fits: "interner_fits (snd (map_st f (x # xs) it))"
    obtain y j where y: "f x it = (y, j)" by (metis surj_pair)
    obtain ys k where ys: "map_st f xs j = (ys, k)" by (metis surj_pair)
    have run: "map_st f (x # xs) it = (y # ys, k)" using y ys by simp
    have fk: "interner_fits k" using fits run by simp
    have fj: "interner_fits j" using xs fk ys by (auto simp: interns_def dest!: spec[of _ j])
    have fi: "interner_fits it" using x fj y by (auto simp: interns_def dest!: spec[of _ it])
    have rest: "interner_inv it \<Longrightarrow> interner_inv k \<and> interner_le it k
        \<and> (list_all (pre it) (x # xs) \<longrightarrow> list_all (post k) (y # ys))"
    proof -
      assume "interner_inv it"
      then have j: "interner_inv j" "interner_le it j" "pre it x \<longrightarrow> post j y"
        using x fj y by (auto simp: interns_def dest!: spec[of _ it])
      have k: "interner_inv k" "interner_le j k" "list_all (pre j) xs \<longrightarrow> list_all (post k) ys"
        using xs fk ys j(1) by (auto simp: interns_def dest!: spec[of _ j])
      have "list_all (pre it) xs \<longrightarrow> list_all (pre j) xs"
        using pre j(2) by (auto simp: stable_def list_all_iff)
      moreover have "post j y \<longrightarrow> post k y" using post k(2) by (auto simp: stable_def)
      ultimately show ?thesis using j k interner_le_trans by auto
    qed
    then show "interner_fits it \<and> (interner_inv it \<longrightarrow>
        interner_inv (snd (map_st f (x # xs) it)) \<and> interner_le it (snd (map_st f (x # xs) it))
        \<and> (list_all (pre it) (x # xs) \<longrightarrow>
             list_all (post (snd (map_st f (x # xs) it))) (fst (map_st f (x # xs) it))))"
      using fi run by simp
  qed
qed

lemma intern_ident_interns: "interns ident_faithful ident_interned ident_intern_with i"
proof (cases "ident_atom i = None \<and> should_intern_identifier (ident_value i)")
  case True
  have le: "interner_le it (snd (intern v it))" for v it
    using intern_stable unfolding interner_le_def by blast
  have "ident_intern_with i it =
      (i\<lparr>ident_atom := Some (fst (intern (ident_value i) it))\<rparr>, snd (intern (ident_value i) it))" for it
    using True by (simp add: ident_intern_with_def split_beta Let_def)
  then show ?thesis
    using intern_fits intern_inv intern_resolves le
    unfolding interns_def by (simp add: ident_interned_def ident_faithful_def)
next
  case False
  then show ?thesis unfolding interns_def ident_intern_with_def by (auto simp: ident_interned_def)
qed

abbreviation faithful_sel :: "silk_interner \<Rightarrow> selector \<Rightarrow> bool" where
  "faithful_sel it \<equiv> sel_all (ident_faithful it) (ident_faithful it)"

abbreviation interned_sel :: "silk_interner \<Rightarrow> selector \<Rightarrow> bool" where
  "interned_sel it \<equiv> sel_all (ident_interned it) (ident_faithful it)"

lemma stable_all:
  assumes "stable P" and "stable Q"
  shows "stable (\<lambda>it. sel_all (P it) (Q it))" "stable (\<lambda>it. step_all (P it) (Q it))"
    "stable (\<lambda>it. modifier_all (P it) (Q it))" "stable (\<lambda>it. rule_all (P it) (Q it))"
proof -
  have P: "interner_le it it' \<Longrightarrow> P it i \<Longrightarrow> P it' i" and Q: "interner_le it it' \<Longrightarrow> Q it i \<Longrightarrow> Q it' i"
    for it it' i using assms unfolding stable_def by blast+
  show "stable (\<lambda>it. sel_all (P it) (Q it))"
    unfolding stable_def
  proof (intro allI impI)
    fix it it' x assume "sel_all (P it) (Q it) x" and le: "interner_le it it'"
    then show "sel_all (P it') (Q it') x"
      by (elim sel_all_mono(1)[rotated 2]) (use P[OF le] Q[OF le] in auto)
  qed
  show "stable (\<lambda>it. step_all (P it) (Q it))"
    unfolding stable_def
  proof (intro allI impI)
    fix it it' x assume "step_all (P it) (Q it) x" and le: "interner_le it it'"
    then show "step_all (P it') (Q it') x"
      by (elim sel_all_mono(2)[rotated 2]) (use P[OF le] Q[OF le] in auto)
  qed
  show "stable (\<lambda>it. modifier_all (P it) (Q it))"
    unfolding stable_def
  proof (intro allI impI)
    fix it it' x assume "modifier_all (P it) (Q it) x" and le: "interner_le it it'"
    then show "modifier_all (P it') (Q it') x"
      by (elim sel_all_mono(4)[rotated 2]) (use P[OF le] Q[OF le] in auto)
  qed
  show "stable (\<lambda>it. rule_all (P it) (Q it))"
    unfolding stable_def
  proof (intro allI impI)
    fix it it' x assume "rule_all (P it) (Q it) x" and le: "interner_le it it'"
    then show "rule_all (P it') (Q it') x"
      by (elim rule_all_mono(1)[rotated 2]) (use P[OF le] Q[OF le] in auto)
  qed
qed

lemma stable_idents: "stable ident_faithful" "stable ident_interned"
  by (auto simp: stable_def faithful_mono interned_mono)

lemma interns_apfst:
  assumes "interns pre post f x" and "\<And>it. h (C x) it = apfst C (f x it)"
    and "\<And>it. pre' it (C x) \<longleftrightarrow> pre it x" and "\<And>it y. post' it (C y) \<longleftrightarrow> post it y"
  shows "interns pre' post' h (C x)"
  using assms by (simp add: interns_def)

lemma interns_pure:
  assumes "\<And>it. h x it = (x, it)" and "\<And>it. pre it x \<Longrightarrow> post it x"
  shows "interns pre post h x"
  using assms by (simp add: interns_def)

lemma intern_selector_interns:
  "interns faithful_sel interned_sel intern_selector sel"
  "interns (\<lambda>it. step_all (ident_faithful it) (ident_faithful it))
     (\<lambda>it. step_all (ident_interned it) (ident_faithful it)) intern_step st"
  "interns (\<lambda>it. compound_all (ident_faithful it) (ident_faithful it))
     (\<lambda>it. compound_all (ident_interned it) (ident_faithful it)) intern_compound cp"
  "interns (\<lambda>it. modifier_all (ident_faithful it) (ident_faithful it))
     (\<lambda>it. modifier_all (ident_interned it) (ident_faithful it)) intern_modifier m"
  "interns (\<lambda>it. arg_all (ident_faithful it) (ident_faithful it))
     (\<lambda>it. arg_all (ident_interned it) (ident_faithful it)) intern_arg arg"
proof (induction sel and st and cp and m and arg)
  case (Selector steps)
  show ?case
    by (rule interns_apfst[OF interns_map_st[OF Selector]]) (auto intro!: stable_all stable_idents)
next
  case (SelectorStep c cp)
  then show ?case by (rule interns_apfst) auto
next
  case (Compound t ms)
  show ?case
    by (rule interns_apfst[OF interns_map_st[OF Compound]]) (auto intro!: stable_all stable_idents)
next
  case (ClassMod i)
  show ?case by (rule interns_apfst[OF intern_ident_interns]) auto
next
  case (IdMod i)
  show ?case by (rule interns_apfst[OF intern_ident_interns]) auto
next
  case (PseudoMod i)
  show ?case by (rule interns_apfst[OF intern_ident_interns]) auto
next
  case (AttributeMod a)
  show ?case by (rule interns_pure) auto
next
  case (NthArg n)
  show ?case by (rule interns_pure) auto
next
  case (ListArg sels)
  show ?case
    by (rule interns_apfst[OF interns_map_st[OF ListArg]]) (auto intro!: stable_all stable_idents)
next
  case (FunctionalMod i arg)
  show ?case
    unfolding interns_def
  proof (intro allI impI)
    fix it assume fits: "interner_fits (snd (intern_modifier (FunctionalMod i arg) it))"
    obtain i' j where i: "ident_intern_with i it = (i', j)" by (metis surj_pair)
    obtain arg' k where a: "intern_arg arg j = (arg', k)" by (metis surj_pair)
    have run: "intern_modifier (FunctionalMod i arg) it = (FunctionalMod i' arg', k)" using i a by simp
    note A = FunctionalMod[unfolded interns_def, rule_format, of j, unfolded a fst_conv snd_conv]
    note I = intern_ident_interns[unfolded interns_def, rule_format, of i it, unfolded i fst_conv snd_conv]
    have "interner_fits k" using fits run by simp
    then have j: "interner_fits j" and it: "interner_fits it" using A I by blast+
    have post: "ident_interned j i' \<Longrightarrow> interner_le j k \<Longrightarrow> ident_interned k i'" by (rule interned_mono)
    have args: "interner_le it j \<Longrightarrow> arg_all (ident_faithful it) (ident_faithful it) arg \<Longrightarrow>
        arg_all (ident_faithful j) (ident_faithful j) arg"
      by (rule sel_all_mono(5)) (auto intro: faithful_mono)
    show "interner_fits it \<and> (interner_inv it \<longrightarrow>
        interner_inv (snd (intern_modifier (FunctionalMod i arg) it))
        \<and> interner_le it (snd (intern_modifier (FunctionalMod i arg) it))
        \<and> (modifier_all (ident_faithful it) (ident_faithful it) (FunctionalMod i arg) \<longrightarrow>
            modifier_all (ident_interned (snd (intern_modifier (FunctionalMod i arg) it)))
              (ident_faithful (snd (intern_modifier (FunctionalMod i arg) it)))
              (fst (intern_modifier (FunctionalMod i arg) it))))"
      unfolding run fst_conv snd_conv modifier_all.simps
      using \<open>interner_fits k\<close> j it A I post args interner_le_trans by blast
  qed
qed

lemma intern_rule_interns:
  fixes r :: "'f rule" and b :: "'f at_rule_block"
  shows "interns (\<lambda>it. rule_all (ident_faithful it) (ident_faithful it))
     (\<lambda>it. rule_all (ident_interned it) (ident_faithful it)) intern_rule r"
    and "interns (\<lambda>it. block_all (ident_faithful it) (ident_faithful it))
     (\<lambda>it. block_all (ident_interned it) (ident_faithful it)) intern_block b"
proof (induction r and b)
  case (StyleRule sels ds)
  have "interns (\<lambda>it. list_all (faithful_sel it)) (\<lambda>it. list_all (interned_sel it))
      (map_st intern_selector) sels"
    by (rule interns_map_st) (auto intro!: intern_selector_interns(1) stable_all stable_idents)
  then show ?case
    by (rule interns_apfst[where C = "\<lambda>s. StyleRule s ds"]) (auto simp: intern_selector_list_def)
next
  case (AtRule n p ob)
  show ?case
  proof (cases ob)
    case None
    then show ?thesis by (auto intro: interns_pure)
  next
    case (Some b)
    have "interns (\<lambda>it. block_all (ident_faithful it) (ident_faithful it))
        (\<lambda>it. block_all (ident_interned it) (ident_faithful it)) intern_block b"
      using AtRule Some by simp
    then show ?thesis unfolding Some by (rule interns_apfst[where C = "\<lambda>b. AtRule n p (Some b)"]) auto
  qed
next
  case (Rules rs)
  show ?case
    by (rule interns_apfst[OF interns_map_st[OF Rules]]) (auto intro!: stable_all stable_idents)
next
  case (Declarations ds)
  show ?case by (rule interns_pure) auto
next
  case (Keyframes ks)
  show ?case by (rule interns_pure) auto
qed

section \<open>Properties\<close>

text \<open>Interning the rules of a stylesheet whose atoms are faithful gives every class, id and
  pseudo-class name short enough to intern an atom, and every atom, old or new, resolves in the
  grown table to the name beside it; stripping the result is stripping the original.\<close>

theorem intern_rules_faithful:
  fixes rules :: "'f rule list"
  assumes "interner_inv it" and "list_all (rule_all (ident_faithful it) (ident_faithful it)) rules"
    and "intern_rules rules it = (rules', it')" and "length (interned it') \<le> 2 ^ 32"
  shows "interner_inv it' \<and> interner_le it it'
    \<and> list_all (rule_all (ident_interned it') (ident_faithful it')) rules'
    \<and> strip_selector_atoms rules' = strip_selector_atoms rules"
proof -
  have "interns (\<lambda>it. list_all (rule_all (ident_faithful it) (ident_faithful it)))
      (\<lambda>it. list_all (rule_all (ident_interned it) (ident_faithful it))) (map_st intern_rule) rules"
    by (rule interns_map_st) (auto intro!: intern_rule_interns stable_all stable_idents)
  moreover have "interner_fits (snd (map_st intern_rule rules it))"
    using assms(3,4) by (simp add: intern_rules_def interner_fits_def)
  moreover have "strip_selector_atoms rules' = strip_selector_atoms rules"
    using map_map_st[where g = strip_rule and f = intern_rule and xs = rules and s = it,
        OF strip_intern_rule(1)] assms(3)
    by (simp add: strip_selector_atoms_def intern_rules_def)
  ultimately show ?thesis
    using assms(1-3) unfolding interns_def intern_rules_def by fastforce
qed

definition example_rules :: "unit rule list" where
  "example_rules =
     [StyleRule [Selector [SelectorStep None (Compound None [ClassMod (ident_new ''a'')])]] []]"

theorem intern_rules_faithful_witness:
  "interner_le interner_new (snd (intern_rules example_rules interner_new))
    \<and> list_all (rule_all (ident_interned (snd (intern_rules example_rules interner_new)))
        (ident_faithful (snd (intern_rules example_rules interner_new))))
        (fst (intern_rules example_rules interner_new))"
proof -
  have "list_all (rule_all (ident_faithful interner_new) (ident_faithful interner_new)) example_rules"
    by (simp add: example_rules_def ident_faithful_def ident_new_def)
  moreover have "length (interned (snd (intern_rules example_rules interner_new))) \<le> 2 ^ 32"
    by (simp add: example_rules_def intern_rules_def intern_selector_list_def ident_intern_with_def
        ident_new_def intern_def interner_new_def Let_def)
  ultimately show ?thesis
    using intern_rules_faithful[OF interner_inv_new _ prod.collapse[symmetric]] by blast
qed

end
