(* ===== verification/Css_Match.thy ===== *)
theory Css_Match
  imports Css_Selector_Parse Dom_Attributes
begin

text \<open>
  Selector matching (\<open>crates/silksurf-css/src/matching.rs\<close>) over the DOM, with or without the
  cascade view (\<open>cascade_view.rs\<close>). A result is \<open>Some b\<close> when the code returns \<open>b\<close>; \<open>None\<close> stands
  for a walk that does not return and for a panic (An+B overflow, a slice out of the view).
\<close>

section \<open>The cascade view\<close>

record cascade_entry =
  entry_tag :: tag_name
  id_index :: "32 word"
  class_start :: "32 word"
  class_count :: "16 word"
  parent_id :: "16 word"

record cascade_view =
  entries :: "cascade_entry list"
  idents :: "sel_ident list"

definition NO_ID :: "32 word" where "NO_ID = - 1"
definition NO_PARENT :: "16 word" where "NO_PARENT = - 1"

definition view_new :: cascade_view where
  "view_new = \<lparr>entries = [], idents = []\<rparr>"

definition ok :: "'e + 'a \<Rightarrow> 'a option" where
  "ok r = (case r of Inl _ \<Rightarrow> None | Inr v \<Rightarrow> Some v)"

definition get_parent_dom :: "dom \<Rightarrow> node_id \<Rightarrow> node_id option" where
  "get_parent_dom d i = Option.bind (ok (parent d i)) (\<lambda>p. p)"

definition entry_parent :: "dom \<Rightarrow> node_id \<Rightarrow> 16 word" where
  "entry_parent d i =
     (case get_parent_dom d i of
        None \<Rightarrow> NO_PARENT
      | Some p \<Rightarrow> if p < 65535 then word_of_nat p else NO_PARENT)"

definition plain_entry :: "16 word \<Rightarrow> cascade_entry" where
  "plain_entry p =
     \<lparr>entry_tag = TagDiv, id_index = NO_ID, class_start = 0, class_count = 0, parent_id = p\<rparr>"

text \<open>Pass 1: the identifier of the first \<open>id\<close> attribute.\<close>

definition id_pass :: "attribute list \<Rightarrow> sel_ident list \<Rightarrow> 32 word \<times> sel_ident list" where
  "id_pass attrs acc =
     (case find (\<lambda>a. attr_name a = AttrId) attrs of
        None \<Rightarrow> (NO_ID, acc)
      | Some a \<Rightarrow>
          (case value_atom a of
             Some x \<Rightarrow> (word_of_nat (length acc), acc @ [ident_new_with_atom (attr_value a) x])
           | None \<Rightarrow>
               if attr_value a \<noteq> [] then (word_of_nat (length acc), acc @ [ident_new (attr_value a)])
               else (NO_ID, acc)))"

text \<open>Pass 2: the identifiers of one class attribute; \<open>None\<close> is the panic of \<open>resolve_fast\<close>.\<close>

fun resolve_all :: "dom \<Rightarrow> atom list \<Rightarrow> sel_ident list option" where
  "resolve_all d [] = Some []"
| "resolve_all d (a # as) =
     (case resolve_fast d a of
        None \<Rightarrow> None
      | Some v \<Rightarrow> map_option ((#) (ident_new_with_atom v a)) (resolve_all d as))"

definition class_pass_attr :: "dom \<Rightarrow> attribute \<Rightarrow> sel_ident list option" where
  "class_pass_attr d a =
     (if class_strings a \<noteq> [] then
        Some (map (\<lambda>(s, x). ident_new_with_atom s x) (zip (class_strings a) (value_atoms a)))
      else if value_atoms a \<noteq> [] then resolve_all d (value_atoms a)
      else Some (map ident_new (split_whitespace (attr_value a))))"

fun class_pass :: "dom \<Rightarrow> attribute list \<Rightarrow> sel_ident list option" where
  "class_pass d [] = Some []"
| "class_pass d (a # attrs) =
     (if attr_name a \<noteq> AttrClass then class_pass d attrs
      else case class_pass_attr d a of
             None \<Rightarrow> None
           | Some js \<Rightarrow> map_option ((@) js) (class_pass d attrs))"

definition rebuild_entry ::
    "dom \<Rightarrow> nat \<Rightarrow> sel_ident list \<Rightarrow> (cascade_entry \<times> sel_ident list) option" where
  "rebuild_entry d i acc =
     (case ok (node_at d i) of
        None \<Rightarrow> Some (plain_entry (entry_parent d i), acc)
      | Some n \<Rightarrow>
          (case kind n of
             Element name _ _ attrs \<Rightarrow>
               (let (id_index, acc1) = id_pass attrs acc
                in case class_pass d attrs of
                     None \<Rightarrow> None
                   | Some cls \<Rightarrow>
                       Some (\<lparr>entry_tag = name, id_index = id_index,
                              class_start = word_of_nat (length acc1),
                              class_count = word_of_nat (min (length cls) 65535),
                              parent_id = entry_parent d i\<rparr>, acc1 @ cls))
           | _ \<Rightarrow> Some (plain_entry (entry_parent d i), acc)))"

text \<open>\<open>for idx in 0..node_count\<close>: the entries of the first \<open>n\<close> nodes.\<close>

fun rebuild_loop :: "dom \<Rightarrow> nat \<Rightarrow> cascade_view option" where
  "rebuild_loop d 0 = Some view_new"
| "rebuild_loop d (Suc n) =
     (case rebuild_loop d n of
        None \<Rightarrow> None
      | Some v \<Rightarrow>
          (case rebuild_entry d n (idents v) of
             None \<Rightarrow> None
           | Some (e, acc) \<Rightarrow> Some \<lparr>entries = entries v @ [e], idents = acc\<rparr>))"

definition rebuild :: "dom \<Rightarrow> cascade_view option" where
  "rebuild d = rebuild_loop d (node_count d)"

definition view_len :: "cascade_view \<Rightarrow> nat" where
  "view_len v = length (entries v)"

definition class_idents :: "cascade_view \<Rightarrow> cascade_entry \<Rightarrow> sel_ident list option" where
  "class_idents v e =
     (let start = unat (class_start e); stop = start + unat (class_count e)
      in if stop \<le> length (idents v) then Some (take (unat (class_count e)) (drop start (idents v)))
         else None)"

text \<open>The outer option is the index panic.\<close>

definition id_ident :: "cascade_view \<Rightarrow> cascade_entry \<Rightarrow> sel_ident option option" where
  "id_ident v e =
     (if id_index e = NO_ID then Some None
      else if unat (id_index e) < length (idents v) then Some (Some (idents v ! unat (id_index e)))
      else None)"

definition parent_of :: "cascade_entry \<Rightarrow> node_id option" where
  "parent_of e = (if parent_id e = NO_PARENT then None else Some (unat (parent_id e)))"

section \<open>Attributes, classes and acc\<close>

definition attribute_record :: "dom \<Rightarrow> node_id \<Rightarrow> attribute_name \<Rightarrow> attribute option" where
  "attribute_record d i name =
     Option.bind (ok (attributes d i)) (\<lambda>attrs. find (\<lambda>a. attr_name a = name) attrs)"

definition same_atom :: "sel_ident \<Rightarrow> atom option \<Rightarrow> bool" where
  "same_atom i va \<longleftrightarrow> (case (ident_atom i, va) of (Some a, Some b) \<Rightarrow> a = b | _ \<Rightarrow> False)"

definition contains_str :: "string \<Rightarrow> string \<Rightarrow> bool" where
  "contains_str s t \<longleftrightarrow> sublist t s"

fun operator_holds :: "attribute_operator \<Rightarrow> string \<Rightarrow> string \<Rightarrow> bool" where
  "operator_holds Equals v e = (v = e)"
| "operator_holds Includes v e = (e \<in> set (split_whitespace v))"
| "operator_holds DashMatch v e = (v = e \<or> starts_with (e @ ''-'') v)"
| "operator_holds PrefixMatch v e = starts_with e v"
| "operator_holds SuffixMatch v e = ends_with e v"
| "operator_holds SubstringMatch v e = contains_str v e"

definition matches_attribute :: "dom \<Rightarrow> node_id \<Rightarrow> attribute_selector \<Rightarrow> bool" where
  "matches_attribute d i sel =
     (case attribute_record d i (as_name sel) of
        None \<Rightarrow> False
      | Some a \<Rightarrow>
          (case as_operator sel of
             None \<Rightarrow> True
           | Some op \<Rightarrow>
               (case as_value sel of
                  None \<Rightarrow> False
                | Some e \<Rightarrow>
                    same_atom e (value_atom a) \<or> operator_holds op (attr_value a) (ident_value e))))"

definition matches_id :: "dom \<Rightarrow> node_id \<Rightarrow> sel_ident \<Rightarrow> bool" where
  "matches_id d i name =
     (case attribute_record d i AttrId of
        None \<Rightarrow> False
      | Some a \<Rightarrow> same_atom name (value_atom a) \<or> attr_value a = ident_value name)"

definition matches_class :: "dom \<Rightarrow> node_id \<Rightarrow> sel_ident \<Rightarrow> bool" where
  "matches_class d i name =
     (case attribute_record d i AttrClass of
        None \<Rightarrow> False
      | Some a \<Rightarrow>
          (case ident_atom name of Some x \<Rightarrow> x \<in> set (value_atoms a) | None \<Rightarrow> False)
            \<or> ident_value name \<in> set (split_whitespace (attr_value a)))"

definition has_attr :: "dom \<Rightarrow> node_id \<Rightarrow> string \<Rightarrow> bool" where
  "has_attr d i name =
     (case ok (attributes d i) of
        None \<Rightarrow> False
      | Some attrs \<Rightarrow> list_ex (\<lambda>a. attr_matches (attr_name a) name) attrs)"

definition type_selector_tag_matches :: "dom \<Rightarrow> node_id \<Rightarrow> tag_name \<Rightarrow> tag_name \<Rightarrow> bool" where
  "type_selector_tag_matches d i actual expected \<longleftrightarrow>
     actual = expected
     \<or> element_namespace d i = NsHtml \<and> eq_ignore_ascii_case (tag_as_str actual) (tag_as_str expected)"

section \<open>Positions among siblings\<close>

definition name_of :: "dom \<Rightarrow> node_id \<Rightarrow> string option" where
  "name_of d i = Option.bind (ok (element_name d i)) (\<lambda>n. n)"

definition is_element :: "dom \<Rightarrow> node_id \<Rightarrow> bool" where
  "is_element d i \<longleftrightarrow> name_of d i \<noteq> None"

definition siblings_of :: "dom \<Rightarrow> node_id \<Rightarrow> node_id list option" where
  "siblings_of d i = Option.bind (get_parent_dom d i) (\<lambda>p. ok (children d p))"

text \<open>The counting loop: one more for each sibling that counts, up to the node itself.\<close>

fun index_loop :: "(node_id \<Rightarrow> bool) \<Rightarrow> node_id \<Rightarrow> nat \<Rightarrow> node_id list \<Rightarrow> nat" where
  "index_loop counts i n [] = 0"
| "index_loop counts i n (s # ss) =
     (let n = (if counts s then Suc n else n) in if s = i then n else index_loop counts i n ss)"

definition element_child_index :: "dom \<Rightarrow> node_id \<Rightarrow> nat" where
  "element_child_index d i =
     (case siblings_of d i of None \<Rightarrow> 0 | Some ss \<Rightarrow> index_loop (is_element d) i 0 ss)"

definition element_child_index_from_end :: "dom \<Rightarrow> node_id \<Rightarrow> nat" where
  "element_child_index_from_end d i =
     (case siblings_of d i of None \<Rightarrow> 0 | Some ss \<Rightarrow> index_loop (is_element d) i 0 (rev ss))"

definition element_child_index_of_type :: "dom \<Rightarrow> node_id \<Rightarrow> nat" where
  "element_child_index_of_type d i =
     (case name_of d i of
        None \<Rightarrow> 0
      | Some t \<Rightarrow>
          (case siblings_of d i of
             None \<Rightarrow> 0 | Some ss \<Rightarrow> index_loop (\<lambda>s. name_of d s = Some t) i 0 ss))"

definition element_child_index_of_type_from_end :: "dom \<Rightarrow> node_id \<Rightarrow> nat" where
  "element_child_index_of_type_from_end d i =
     (case name_of d i of
        None \<Rightarrow> 0
      | Some t \<Rightarrow>
          (case siblings_of d i of
             None \<Rightarrow> 0 | Some ss \<Rightarrow> index_loop (\<lambda>s. name_of d s = Some t) i 0 (rev ss)))"

definition is_first_of_type :: "dom \<Rightarrow> node_id \<Rightarrow> bool" where
  "is_first_of_type d i \<longleftrightarrow> element_child_index_of_type d i = 1"

definition is_last_of_type :: "dom \<Rightarrow> node_id \<Rightarrow> bool" where
  "is_last_of_type d i \<longleftrightarrow> element_child_index_of_type_from_end d i = 1"

definition is_root :: "dom \<Rightarrow> node_id \<Rightarrow> bool" where
  "is_root d i =
     (case get_parent_dom d i of
        None \<Rightarrow> False
      | Some p \<Rightarrow> (case ok (node_at d p) of Some n \<Rightarrow> kind n = Document | None \<Rightarrow> False))"

definition is_empty :: "dom \<Rightarrow> node_id \<Rightarrow> bool" where
  "is_empty d i = (case ok (children d i) of Some cs \<Rightarrow> cs = [] | None \<Rightarrow> False)"

definition first_element_child :: "dom \<Rightarrow> node_id \<Rightarrow> node_id option" where
  "first_element_child d p = Option.bind (ok (children d p)) (\<lambda>cs. find (is_element d) cs)"

definition last_element_child :: "dom \<Rightarrow> node_id \<Rightarrow> node_id option" where
  "last_element_child d p = Option.bind (ok (children d p)) (\<lambda>cs. find (is_element d) (rev cs))"

definition is_first_child :: "dom \<Rightarrow> node_id \<Rightarrow> bool" where
  "is_first_child d i \<longleftrightarrow> Option.bind (get_parent_dom d i) (first_element_child d) = Some i"

definition is_last_child :: "dom \<Rightarrow> node_id \<Rightarrow> bool" where
  "is_last_child d i \<longleftrightarrow> Option.bind (get_parent_dom d i) (last_element_child d) = Some i"

definition is_only_child :: "dom \<Rightarrow> node_id \<Rightarrow> bool" where
  "is_only_child d i \<longleftrightarrow>
     (case get_parent_dom d i of
        None \<Rightarrow> False
      | Some p \<Rightarrow> first_element_child d p = Some i \<and> last_element_child d p = Some i)"

fun previous_loop :: "dom \<Rightarrow> node_id \<Rightarrow> node_id option \<Rightarrow> node_id list \<Rightarrow> node_id option" where
  "previous_loop d i prev [] = prev"
| "previous_loop d i prev (s # ss) =
     (if s = i then prev else previous_loop d i (if is_element d s then Some s else prev) ss)"

definition previous_element_sibling :: "dom \<Rightarrow> node_id \<Rightarrow> node_id option" where
  "previous_element_sibling d i = Option.bind (siblings_of d i) (previous_loop d i None)"

text \<open>The iterator of \<open>previous_element_siblings\<close>, nearest first.\<close>

definition previous_element_siblings :: "dom \<Rightarrow> node_id \<Rightarrow> node_id list" where
  "previous_element_siblings d i =
     (let siblings = (case siblings_of d i of Some ss \<Rightarrow> ss | None \<Rightarrow> []);
          pos = (case position (\<lambda>s. s = i) siblings of Some k \<Rightarrow> k | None \<Rightarrow> 0)
      in filter (is_element d) (rev (take pos siblings)))"

section \<open>Pseudo-classes\<close>

definition lower_name :: "dom \<Rightarrow> node_id \<Rightarrow> string" where
  "lower_name d i = to_ascii_lowercase (case name_of d i of Some n \<Rightarrow> n | None \<Rightarrow> [])"

definition matches_pseudo_class :: "dom \<Rightarrow> node_id \<Rightarrow> sel_ident \<Rightarrow> bool" where
  "matches_pseudo_class d i name =
     (let p = to_ascii_lowercase (ident_value name)
      in if p = ''root'' then is_root d i
         else if p = ''empty'' then is_empty d i
         else if p = ''first-child'' then is_first_child d i
         else if p = ''last-child'' then is_last_child d i
         else if p = ''only-child'' then is_only_child d i
         else if p = ''first-of-type'' then is_first_of_type d i
         else if p = ''last-of-type'' then is_last_of_type d i
         else if p = ''only-of-type'' then is_first_of_type d i \<and> is_last_of_type d i
         else if p \<in> {''hover'', ''focus'', ''active'', ''focus-visible'', ''focus-within'', ''target'',
                      ''local-link''} then False
         else if p = ''visited'' then False
         else if p \<in> {''any-link'', ''link''} then
           lower_name d i \<in> {''a'', ''area'', ''link''} \<and> has_attr d i ''href''
         else if p = ''disabled'' then has_attr d i ''disabled''
         else if p = ''enabled'' then \<not> has_attr d i ''disabled''
         else if p = ''checked'' then
           (if lower_name d i = ''input'' then input_checked d i
            else if lower_name d i = ''option'' then has_attr d i ''selected''
            else False)
         else if p = ''indeterminate'' then False
         else if p = ''required'' then has_attr d i ''required''
         else if p = ''optional'' then
           lower_name d i \<in> {''input'', ''select'', ''textarea''} \<and> \<not> has_attr d i ''required''
         else if p = ''read-write'' then
           lower_name d i \<in> {''input'', ''textarea''} \<and> \<not> has_attr d i ''readonly''
         else if p = ''read-only'' then
           lower_name d i \<notin> {''input'', ''textarea''} \<or> has_attr d i ''readonly''
         else if p = ''placeholder-shown'' then has_attr d i ''placeholder''
         else if p = ''scope'' then is_root d i
         else if p = ''defined'' then True
         else False)"

section \<open>Combinators\<close>

text \<open>The walk of the descendant combinator: the first ancestor that satisfies \<open>p\<close>.\<close>

partial_function (option) climb ::
    "(node_id \<Rightarrow> node_id option) \<Rightarrow> (node_id \<Rightarrow> bool option) \<Rightarrow> node_id option \<Rightarrow> bool option" where
  "climb up p current =
     (case current of
        None \<Rightarrow> Some False
      | Some a \<Rightarrow>
          (case p a of
             None \<Rightarrow> None
           | Some b \<Rightarrow> if b then Some True else climb up p (up a)))"

text \<open>The recursion of \<open>matches_has\<close>, with its pending siblings as a list: a child, then what is
  under it, then the next sibling.\<close>

partial_function (option) has_loop ::
    "dom \<Rightarrow> (node_id \<Rightarrow> bool option) \<Rightarrow> node_id list \<Rightarrow> bool option" where
  "has_loop d p pending =
     (case pending of
        [] \<Rightarrow> Some False
      | c # rest \<Rightarrow>
          (case p c of
             None \<Rightarrow> None
           | Some b \<Rightarrow>
               if b then Some True
               else has_loop d p ((case ok (children d c) of Some cs \<Rightarrow> cs | None \<Rightarrow> []) @ rest)))"

declare climb.simps [code] has_loop.simps [code]

definition matches_has :: "dom \<Rightarrow> (node_id \<Rightarrow> bool option) \<Rightarrow> node_id \<Rightarrow> bool option" where
  "matches_has d p i = (case ok (children d i) of None \<Rightarrow> Some False | Some cs \<Rightarrow> has_loop d p cs)"

fun any_opt :: "('a \<Rightarrow> bool option) \<Rightarrow> 'a list \<Rightarrow> bool option" where
  "any_opt p [] = Some False"
| "any_opt p (x # xs) =
     (case p x of None \<Rightarrow> None | Some True \<Rightarrow> Some True | Some False \<Rightarrow> any_opt p xs)"

fun all_opt :: "('a \<Rightarrow> bool option) \<Rightarrow> 'a list \<Rightarrow> bool option" where
  "all_opt p [] = Some True"
| "all_opt p (x # xs) =
     (case p x of None \<Rightarrow> None | Some False \<Rightarrow> Some False | Some True \<Rightarrow> all_opt p xs)"

lemma any_opt_cong [fundef_cong]:
  "xs = ys \<Longrightarrow> (\<And>x. x \<in> set ys \<Longrightarrow> p x = q x) \<Longrightarrow> any_opt p xs = any_opt q ys"
proof -
  have "(\<And>x. x \<in> set ys \<Longrightarrow> p x = q x) \<Longrightarrow> any_opt p ys = any_opt q ys"
    by (induction ys) (auto split: option.split bool.split)
  then show "xs = ys \<Longrightarrow> (\<And>x. x \<in> set ys \<Longrightarrow> p x = q x) \<Longrightarrow> any_opt p xs = any_opt q ys" by simp
qed

lemma all_opt_cong [fundef_cong]:
  "xs = ys \<Longrightarrow> (\<And>x. x \<in> set ys \<Longrightarrow> p x = q x) \<Longrightarrow> all_opt p xs = all_opt q ys"
proof -
  have "(\<And>x. x \<in> set ys \<Longrightarrow> p x = q x) \<Longrightarrow> all_opt p ys = all_opt q ys"
    by (induction ys) (auto split: option.split bool.split)
  then show "xs = ys \<Longrightarrow> (\<And>x. x \<in> set ys \<Longrightarrow> p x = q x) \<Longrightarrow> all_opt p xs = all_opt q ys" by simp
qed

section \<open>Matching\<close>

definition get_parent :: "cascade_view option \<Rightarrow> dom \<Rightarrow> node_id \<Rightarrow> node_id option" where
  "get_parent view d i =
     (case view of
        Some v \<Rightarrow> if i < length (entries v) then parent_of (entries v ! i) else get_parent_dom d i
      | None \<Rightarrow> get_parent_dom d i)"

text \<open>The entry of a node, when the view has one.\<close>

definition view_entry :: "cascade_view option \<Rightarrow> node_id \<Rightarrow> (cascade_view \<times> cascade_entry) option" where
  "view_entry view i =
     (case view of
        Some v \<Rightarrow> if i < length (entries v) then Some (v, entries v ! i) else None
      | None \<Rightarrow> None)"

definition element_tag :: "dom \<Rightarrow> node_id \<Rightarrow> tag_name option" where
  "element_tag d i =
     (case ok (node_at d i) of
        Some n \<Rightarrow> (case kind n of Element name _ _ _ \<Rightarrow> Some name | _ \<Rightarrow> None)
      | None \<Rightarrow> None)"

text \<open>The type test: on the view's entry, or on the element itself, where a node that is no element
  fails.\<close>

definition type_matches :: "cascade_view option \<Rightarrow> dom \<Rightarrow> node_id \<Rightarrow> type_selector option \<Rightarrow> bool" where
  "type_matches view d i ty =
     (case (case view_entry view i of Some (_, e) \<Rightarrow> Some (entry_tag e) | None \<Rightarrow> element_tag d i) of
        None \<Rightarrow> False
      | Some actual \<Rightarrow>
          (case ty of
             Some (TagType expected) \<Rightarrow> type_selector_tag_matches d i actual expected
           | _ \<Rightarrow> True))"

definition modifier_class :: "cascade_view option \<Rightarrow> dom \<Rightarrow> node_id \<Rightarrow> sel_ident \<Rightarrow> bool option" where
  "modifier_class view d i name =
     (case view_entry view i of
        Some (v, e) \<Rightarrow> map_option (\<lambda>js. list_ex (\<lambda>x. ident_eq x name) js) (class_idents v e)
      | None \<Rightarrow> Some (matches_class d i name))"

definition modifier_id :: "cascade_view option \<Rightarrow> dom \<Rightarrow> node_id \<Rightarrow> sel_ident \<Rightarrow> bool option" where
  "modifier_id view d i name =
     (case view_entry view i of
        Some (v, e) \<Rightarrow>
          map_option (\<lambda>x. case x of None \<Rightarrow> False | Some x \<Rightarrow> ident_eq x name) (id_ident v e)
      | None \<Rightarrow> Some (matches_id d i name))"

definition nth_position :: "dom \<Rightarrow> node_id \<Rightarrow> string \<Rightarrow> nat" where
  "nth_position d i p =
     (if p = ''nth-child'' then element_child_index d i
      else if p = ''nth-last-child'' then element_child_index_from_end d i
      else if p = ''nth-of-type'' then element_child_index_of_type d i
      else element_child_index_of_type_from_end d i)"

definition nth_names :: "string set" where
  "nth_names = {''nth-child'', ''nth-last-child'', ''nth-of-type'', ''nth-last-of-type''}"

text \<open>The steps come last first, as \<open>matches_steps_rev\<close> visits them.\<close>

function (sequential) matches_steps ::
    "cascade_view option \<Rightarrow> dom \<Rightarrow> node_id \<Rightarrow> selector_step list \<Rightarrow> bool option"
  and matches_compound :: "cascade_view option \<Rightarrow> dom \<Rightarrow> node_id \<Rightarrow> compound \<Rightarrow> bool option"
  and matches_modifier :: "cascade_view option \<Rightarrow> dom \<Rightarrow> node_id \<Rightarrow> selector_modifier \<Rightarrow> bool option"
  and matches_functional :: "dom \<Rightarrow> node_id \<Rightarrow> string \<Rightarrow> pseudo_arg \<Rightarrow> bool option"
  and matches_selector_inner :: "cascade_view option \<Rightarrow> dom \<Rightarrow> node_id \<Rightarrow> selector \<Rightarrow> bool option"
where
  "matches_steps view d i [] = Some False"
| "matches_steps view d i (SelectorStep comb cp # rest) =
     (case matches_compound view d i cp of
        None \<Rightarrow> None
      | Some False \<Rightarrow> Some False
      | Some True \<Rightarrow>
          if rest = [] then Some True
          else
            (case comb of
               None \<Rightarrow> Some False
             | Some Descendant \<Rightarrow>
                 climb (get_parent view d) (\<lambda>a. matches_steps view d a rest) (get_parent view d i)
             | Some Child \<Rightarrow>
                 (case get_parent view d i of
                    None \<Rightarrow> Some False | Some p \<Rightarrow> matches_steps view d p rest)
             | Some NextSibling \<Rightarrow>
                 (case previous_element_sibling d i of
                    None \<Rightarrow> Some False | Some s \<Rightarrow> matches_steps view d s rest)
             | Some SubsequentSibling \<Rightarrow>
                 any_opt (\<lambda>s. matches_steps view d s rest) (previous_element_siblings d i)))"
| "matches_compound view d i (Compound ty ms) =
     (if type_matches view d i ty then all_opt (matches_modifier view d i) ms else Some False)"
| "matches_modifier view d i (ClassMod name) = modifier_class view d i name"
| "matches_modifier view d i (IdMod name) = modifier_id view d i name"
| "matches_modifier view d i (AttributeMod a) = Some (matches_attribute d i a)"
| "matches_modifier view d i (PseudoMod name) = Some (matches_pseudo_class d i name)"
| "matches_modifier view d i (FunctionalMod name arg) =
     matches_functional d i (to_ascii_lowercase (ident_value name)) arg"
| "matches_functional d i p (NthArg n) =
     (if p \<in> nth_names then nth_matches n (nth_position d i p) else Some False)"
| "matches_functional d i p (ListArg sels) =
     (if p = ''not'' then map_option Not (any_opt (matches_selector_inner None d i) sels)
      else if p = ''is'' \<or> p = ''where'' then any_opt (matches_selector_inner None d i) sels
      else if p = ''has'' then
        matches_has d (\<lambda>c. any_opt (matches_selector_inner None d c) sels) i
      else Some False)"
| "matches_selector_inner view d i (Selector steps) = matches_steps view d i (rev steps)"
  by pat_completeness auto
termination
  by (relation "measure (\<lambda>x. case x of
         Inl (Inl (_, _, _, steps)) \<Rightarrow> size_list size steps
       | Inl (Inr (_, _, _, cp)) \<Rightarrow> size cp
       | Inr (Inl (_, _, _, m)) \<Rightarrow> size m
       | Inr (Inr (Inl (_, _, _, arg))) \<Rightarrow> size arg
       | Inr (Inr (Inr (_, _, _, sel))) \<Rightarrow> size sel)")
     (simp_all add: size_list_rev less_Suc_eq_le size_in_list)

end
