(* ===== verification/Css_Match_Spec.thy ===== *)
theory Css_Match_Spec
  imports Css_Match Css_Intern Dom_Reading
begin

text \<open>
  What a selector means on a document, by strings and by the tree alone: ancestors are the
  transitive closure of the parent links, siblings are positions in a child list, \<open>:has()\<close> is a
  quantifier over the strict descendants. Atoms and the cascade view play no part in it.
\<close>

section \<open>The meaning of selectors\<close>

definition attr_text :: "dom \<Rightarrow> node_id \<Rightarrow> attribute_name \<Rightarrow> string option" where
  "attr_text d i name = map_option attr_value (attribute_record d i name)"

definition has_class :: "dom \<Rightarrow> node_id \<Rightarrow> string \<Rightarrow> bool" where
  "has_class d i c \<longleftrightarrow> (\<exists>v. attr_text d i AttrClass = Some v \<and> c \<in> set (split_whitespace v))"

definition attr_sat :: "dom \<Rightarrow> node_id \<Rightarrow> attribute_selector \<Rightarrow> bool" where
  "attr_sat d i a \<longleftrightarrow> (\<exists>v. attr_text d i (as_name a) = Some v \<and>
     (\<forall>op. as_operator a = Some op \<longrightarrow>
        (\<exists>e. as_value a = Some e \<and> operator_holds op v (ident_value e))))"

definition type_sat :: "dom \<Rightarrow> node_id \<Rightarrow> type_selector option \<Rightarrow> bool" where
  "type_sat d i ty \<longleftrightarrow> (\<exists>t. element_tag d i = Some t \<and>
     (\<forall>e. ty = Some (TagType e) \<longrightarrow> type_selector_tag_matches d i t e))"

text \<open>The 1-based rank of a member among those that count; 0 for a non-member.\<close>

definition rank_in :: "(node_id \<Rightarrow> bool) \<Rightarrow> node_id list \<Rightarrow> node_id \<Rightarrow> nat" where
  "rank_in counts xs i =
     (if i \<in> set xs then length (filter counts (takeWhile (\<lambda>x. x \<noteq> i) xs)) + of_bool (counts i)
      else 0)"

definition sibling_list :: "dom \<Rightarrow> node_id \<Rightarrow> node_id list" where
  "sibling_list d i = (case par d i of None \<Rightarrow> [] | Some p \<Rightarrow> kids d p)"

definition nth_rank :: "dom \<Rightarrow> node_id \<Rightarrow> string \<Rightarrow> nat" where
  "nth_rank d i p =
     rank_in (if p \<in> {''nth-child'', ''nth-last-child''} then is_element d
              else (\<lambda>s. name_of d s = name_of d i))
       (if p \<in> {''nth-child'', ''nth-of-type''} then sibling_list d i else rev (sibling_list d i)) i"

definition earlier_sibling :: "dom \<Rightarrow> node_id \<Rightarrow> node_id \<Rightarrow> bool" where
  "earlier_sibling d s i \<longleftrightarrow>
     is_element d s \<and> (\<exists>p xs ys. kids d p = xs @ i # ys \<and> s \<in> set xs)"

definition adjacent_sibling :: "dom \<Rightarrow> node_id \<Rightarrow> node_id \<Rightarrow> bool" where
  "adjacent_sibling d s i \<longleftrightarrow>
     is_element d s \<and> (\<exists>p xs ys zs. kids d p = xs @ s # zs @ i # ys \<and> list_all (\<lambda>z. \<not> is_element d z) zs)"

text \<open>Where the node that the rest of the selector is about stands, seen from \<open>i\<close>.\<close>

fun related :: "combinator option \<Rightarrow> dom \<Rightarrow> node_id \<Rightarrow> node_id \<Rightarrow> bool" where
  "related None d i a = False"
| "related (Some Descendant) d i a = ((i, a) \<in> (par_rel d)\<^sup>+)"
| "related (Some Child) d i a = (par d i = Some a)"
| "related (Some NextSibling) d i a = adjacent_sibling d a i"
| "related (Some SubsequentSibling) d i a = earlier_sibling d a i"

function (sequential) sat_steps :: "dom \<Rightarrow> node_id \<Rightarrow> selector_step list \<Rightarrow> bool"
  and sat_compound :: "dom \<Rightarrow> node_id \<Rightarrow> compound \<Rightarrow> bool"
  and sat_modifier :: "dom \<Rightarrow> node_id \<Rightarrow> selector_modifier \<Rightarrow> bool"
  and sat_functional :: "dom \<Rightarrow> node_id \<Rightarrow> string \<Rightarrow> pseudo_arg \<Rightarrow> bool"
  and sat_selector :: "dom \<Rightarrow> node_id \<Rightarrow> selector \<Rightarrow> bool"
where
  "sat_steps d i [] = False"
| "sat_steps d i (SelectorStep comb cp # rest) =
     (sat_compound d i cp \<and> (rest = [] \<or> (\<exists>a. related comb d i a \<and> sat_steps d a rest)))"
| "sat_compound d i (Compound ty ms) = (type_sat d i ty \<and> (\<forall>m \<in> set ms. sat_modifier d i m))"
| "sat_modifier d i (ClassMod name) = has_class d i (ident_value name)"
| "sat_modifier d i (IdMod name) = (attr_text d i AttrId = Some (ident_value name))"
| "sat_modifier d i (AttributeMod a) = attr_sat d i a"
| "sat_modifier d i (PseudoMod name) = matches_pseudo_class d i name"
| "sat_modifier d i (FunctionalMod name arg) =
     sat_functional d i (to_ascii_lowercase (ident_value name)) arg"
| "sat_functional d i p (NthArg n) =
     (p \<in> nth_names \<and> 0 < nth_rank d i p
      \<and> (\<exists>k::nat. int (nth_rank d i p) = sint (nth_a n) * int k + sint (nth_b n)))"
| "sat_functional d i p (ListArg sels) =
     (if p = ''not'' then \<not> (\<exists>s \<in> set sels. sat_selector d i s)
      else if p = ''is'' \<or> p = ''where'' then \<exists>s \<in> set sels. sat_selector d i s
      else if p = ''has'' then \<exists>c. (c, i) \<in> (par_rel d)\<^sup>+ \<and> (\<exists>s \<in> set sels. sat_selector d c s)
      else False)"
| "sat_selector d i (Selector steps) = sat_steps d i (rev steps)"
  by pat_completeness auto
termination
  by (relation "measure (\<lambda>x. case x of
         Inl (Inl (_, _, steps)) \<Rightarrow> size_list size steps
       | Inl (Inr (_, _, cp)) \<Rightarrow> size cp
       | Inr (Inl (_, _, m)) \<Rightarrow> size m
       | Inr (Inr (Inl (_, _, _, arg))) \<Rightarrow> size arg
       | Inr (Inr (Inr (_, _, sel))) \<Rightarrow> size sel)")
     (simp_all add: size_list_rev less_Suc_eq_le size_in_list)

section \<open>Readers\<close>

lemma ok_simps [simp]: "ok (Inl e) = None" "ok (Inr v) = Some v"
  by (simp_all add: ok_def)

lemma get_parent_dom_par [simp]: "get_parent_dom d i = par d i"
  by (simp add: get_parent_dom_def parent_par par_None_out)

lemma ok_children: "ok (children d i) = (if i < length (nodes d) then Some (kids d i) else None)"
  by (simp add: children_kids)

lemma is_element_knd: "is_element d i \<longleftrightarrow> is_element_kind (knd d i)"
  by (auto simp: is_element_def name_of_def element_name_def node_index_def knd_def
      split: node_kind.splits)

lemma element_tag_knd: "element_tag d i = (case knd d i of Element t _ _ _ \<Rightarrow> Some t | _ \<Rightarrow> None)"
  by (simp add: element_tag_def node_at_def node_index_def knd_def)

lemma attributes_attrs_of:
  "ok (attributes d i) = (if is_element d i then Some (attrs_of d i) else None)"
  by (auto simp: attributes_def node_index_def is_element_knd attrs_of_def knd_def
      split: node_kind.splits)

lemma siblings_of_list: 
  assumes "tree_inv d"
  shows "siblings_of d i = (if par d i = None then None else Some (sibling_list d i))"
proof -
  have "p < length (nodes d)" if "par d i = Some p" for p
    using that tree_inv_links[OF assms] tree_inv_ranges[OF assms] by blast
  then show ?thesis by (auto simp: siblings_of_def sibling_list_def ok_children split: option.split)
qed

section \<open>Siblings\<close>

lemma index_loop_rank:
  "index_loop counts i n xs =
     (if i \<in> set xs then n + length (filter counts (takeWhile (\<lambda>x. x \<noteq> i) xs)) + of_bool (counts i) else 0)"
  by (induction xs arbitrary: n) (auto simp: Let_def)

lemma nth_position_rank:
  assumes "tree_inv d" and "is_element d i" and "p \<in> nth_names"
  shows "nth_position d i p = nth_rank d i p"
proof -
  obtain t where t: "name_of d i = Some t" using assms(2) by (auto simp: is_element_def)
  have sib: "siblings_of d i = None \<Longrightarrow> sibling_list d i = []"
    "siblings_of d i = Some ss \<Longrightarrow> sibling_list d i = ss" for ss
    using siblings_of_list[OF assms(1), of i] by (auto simp: sibling_list_def split: if_splits)
  have "(case siblings_of d i of None \<Rightarrow> 0 | Some ss \<Rightarrow> index_loop q i 0 (f ss)) = rank_in q (f (sibling_list d i)) i"
    if "f [] = []" for q f
    using sib that by (cases "siblings_of d i") (simp_all add: index_loop_rank rank_in_def)
  note loop = this[of "\<lambda>xs. xs"] this[of rev]
  have "nth_position d i ''nth-child'' = nth_rank d i ''nth-child''"
    using loop(1) by (simp add: nth_position_def nth_rank_def element_child_index_def)
  moreover have "nth_position d i ''nth-last-child'' = nth_rank d i ''nth-last-child''"
    using loop(2) by (simp add: nth_position_def nth_rank_def element_child_index_from_end_def)
  moreover have "nth_position d i ''nth-of-type'' = nth_rank d i ''nth-of-type''"
    using loop(1) t by (simp add: nth_position_def nth_rank_def element_child_index_of_type_def)
  moreover have "nth_position d i ''nth-last-of-type'' = nth_rank d i ''nth-last-of-type''"
    using loop(2) t
    by (simp add: nth_position_def nth_rank_def element_child_index_of_type_from_end_def)
  ultimately show ?thesis using assms(3) unfolding nth_names_def by (elim insertE emptyE) (simp_all only:)
qed

lemma takeWhile_first: "i \<notin> set ys \<Longrightarrow> takeWhile (\<lambda>x. x \<noteq> i) (ys @ i # zs) = ys"
  by (induction ys) auto

lemma rank_in_le: "rank_in counts xs i \<le> length xs"
proof (cases "i \<in> set xs")
  case True
  then obtain ys zs where xs: "xs = ys @ i # zs" "i \<notin> set ys" by (metis split_list_first)
  moreover have "length (filter counts ys) \<le> length ys" by (rule length_filter_le)
  ultimately show ?thesis by (auto simp: rank_in_def takeWhile_first simp del: length_filter_le)
qed (simp add: rank_in_def)

lemma sibling_list_length:
  assumes inv: "tree_inv d" shows "length (sibling_list d i) \<le> length (nodes d)"
proof (cases "par d i")
  case (Some p)
  have "set (kids d p) \<subseteq> {..<length (nodes d)}" using tree_inv_ranges[OF inv] by auto
  then have "card (set (kids d p)) \<le> length (nodes d)"
    by (metis card_lessThan card_mono finite_lessThan)
  then show ?thesis
    using Some distinct_card[OF tree_inv_distinct[OF inv]] by (simp add: sibling_list_def)
qed (simp add: sibling_list_def)

lemma nth_rank_le: "tree_inv d \<Longrightarrow> nth_rank d i p \<le> length (nodes d)"
  unfolding nth_rank_def
  by (rule order_trans[OF rank_in_le]) (simp add: sibling_list_length)

text \<open>The nearest earlier element, and all of them.\<close>

lemma previous_loop_last:
  "previous_loop d i prev xs =
     (case filter (is_element d) (takeWhile (\<lambda>x. x \<noteq> i) xs) of
        [] \<Rightarrow> prev | y # ys \<Rightarrow> Some (last (y # ys)))"
  by (induction xs arbitrary: prev) (auto split: list.split)

lemma sibling_split:
  assumes inv: "tree_inv d" and k: "kids d p = xs @ i # ys"
  shows "par d i = Some p" "sibling_list d i = xs @ i # ys" "i \<notin> set xs"
    "takeWhile (\<lambda>x. x \<noteq> i) (sibling_list d i) = xs"
proof -
  have m: "i \<in> set (kids d p)" by (simp add: k)
  show p: "par d i = Some p" using m tree_inv_links[OF inv] by blast
  show s: "sibling_list d i = xs @ i # ys" using p k by (simp add: sibling_list_def)
  show x: "i \<notin> set xs" using tree_inv_distinct[OF inv, of p] k by auto
  show "takeWhile (\<lambda>x. x \<noteq> i) (sibling_list d i) = xs" using s x by (simp add: takeWhile_first)
qed

lemma sibling_split_ex:
  assumes inv: "tree_inv d" and p: "par d i = Some p"
  shows "\<exists>xs ys. kids d p = xs @ i # ys"
  using p tree_inv_links[OF inv, of i p] by (auto simp: in_set_conv_decomp)

text \<open>A last element of the elements before \<open>i\<close> is the adjacent one.\<close>

lemma filter_last_decomp:
  "filter q xs \<noteq> [] \<Longrightarrow> \<exists>us vs. xs = us @ last (filter q xs) # vs \<and> list_all (\<lambda>v. \<not> q v) vs"
proof (induction xs rule: rev_induct)
  case (snoc x xs)
  show ?case
  proof (cases "q x")
    case False
    then obtain us vs where "xs = us @ last (filter q xs) # vs" "list_all (\<lambda>v. \<not> q v) vs"
      using snoc by auto
    then have "xs @ [x] = us @ last (filter q xs) # (vs @ [x])" "list_all (\<lambda>v. \<not> q v) (vs @ [x])"
      using False by auto
    then have "\<exists>us vs. xs @ [x] = us @ last (filter q xs) # vs \<and> list_all (\<lambda>v. \<not> q v) vs" by blast
    then show ?thesis using False by simp
  next
    case True
    then show ?thesis by (intro exI[of _ xs] exI[of _ "[]"]) simp
  qed
qed simp

lemma previous_sibling_adjacent:
  assumes inv: "tree_inv d"
  shows "previous_element_sibling d i = Some s \<longleftrightarrow> adjacent_sibling d s i"
proof (cases "par d i")
  case None
  then have "\<not> adjacent_sibling d s i"
    using sibling_split(1)[OF inv, of _ "_ @ s # _" i]
    by (fastforce simp: adjacent_sibling_def)
  then show ?thesis using None by (simp add: previous_element_sibling_def siblings_of_list[OF inv])
next
  case (Some p)
  then obtain xs ys where k: "kids d p = xs @ i # ys" using sibling_split_ex[OF inv] by blast
  have prev: "previous_element_sibling d i =
      (if filter (is_element d) xs = [] then None else Some (last (filter (is_element d) xs)))"
    using Some sibling_split(4)[OF inv k]
    by (simp add: previous_element_sibling_def siblings_of_list[OF inv] previous_loop_last split: list.split)
  show ?thesis
  proof
    assume "previous_element_sibling d i = Some s"
    then have s: "filter (is_element d) xs \<noteq> []" "s = last (filter (is_element d) xs)"
      using prev by (auto split: if_splits)
    then obtain us vs where u: "xs = us @ s # vs" "list_all (\<lambda>v. \<not> is_element d v) vs"
      using filter_last_decomp by metis
    have "is_element d s" using s last_in_set by fastforce
    moreover have "kids d p = us @ s # vs @ i # ys" using k u by simp
    ultimately show "adjacent_sibling d s i" using u(2) unfolding adjacent_sibling_def by blast
  next
    assume "adjacent_sibling d s i"
    then obtain q us vs zs where a: "is_element d s" "kids d q = (us @ s # zs) @ i # vs"
        "list_all (\<lambda>z. \<not> is_element d z) zs"
      by (auto simp: adjacent_sibling_def)
    have "us @ s # zs = xs"
      using sibling_split(4)[OF inv a(2)] sibling_split(4)[OF inv k] by simp
    moreover have "filter (is_element d) zs = []" using a(3) by (auto simp: list_all_iff filter_empty_conv)
    ultimately show "previous_element_sibling d i = Some s" using prev a(1) by auto
  qed
qed

lemma position_first:
  "i \<notin> set xs \<Longrightarrow> position (\<lambda>s. s = i) (xs @ i # ys) = Some (length xs)"
  by (induction xs) auto

lemma previous_siblings_earlier:
  assumes inv: "tree_inv d"
  shows "set (previous_element_siblings d i) = {s. earlier_sibling d s i}"
proof (cases "par d i")
  case None
  then have "\<not> earlier_sibling d s i" for s
    using sibling_split(1)[OF inv] by (fastforce simp: earlier_sibling_def)
  then show ?thesis
    using None by (simp add: previous_element_siblings_def siblings_of_list[OF inv])
next
  case (Some p)
  then obtain xs ys where k: "kids d p = xs @ i # ys" using sibling_split_ex[OF inv] by blast
  have "earlier_sibling d s i \<longleftrightarrow> is_element d s \<and> s \<in> set xs" for s
    unfolding earlier_sibling_def
    using k sibling_split(4)[OF inv k] sibling_split(4)[OF inv] by metis
  then show ?thesis
    using Some sibling_split(2,3)[OF inv k]
    by (auto simp: previous_element_siblings_def siblings_of_list[OF inv] position_first)
qed

section \<open>Walks\<close>

lemma any_opt_total:
  "(\<And>x. x \<in> set xs \<Longrightarrow> p x = Some (q x)) \<Longrightarrow> any_opt p xs = Some (\<exists>x \<in> set xs. q x)"
  by (induction xs) (auto split: bool.split)

lemma all_opt_total:
  "(\<And>x. x \<in> set xs \<Longrightarrow> p x = Some (q x)) \<Longrightarrow> all_opt p xs = Some (\<forall>x \<in> set xs. q x)"
  by (induction xs) (auto split: bool.split)

lemma trancl_par: "(i, a) \<in> (par_rel d)\<^sup>+ \<longleftrightarrow> (\<exists>p. par d i = Some p \<and> (p = a \<or> (p, a) \<in> (par_rel d)\<^sup>+))"
proof -
  have "(i, a) \<in> (par_rel d)\<^sup>+ \<longleftrightarrow> (\<exists>p. (i, p) \<in> par_rel d \<and> (p, a) \<in> (par_rel d)\<^sup>*)"
    by (auto dest: tranclD intro: rtrancl_into_trancl2)
  then show ?thesis by (auto simp: par_rel_def rtrancl_eq_or_trancl)
qed

lemma climb_total:
  assumes inv: "tree_inv d" and up: "\<And>j. f j = par d j" and p: "\<And>a. p a = Some (q a)"
  shows "climb f p (par d i) = Some (\<exists>a. (i, a) \<in> (par_rel d)\<^sup>+ \<and> q a)"
proof (induction i rule: wf_induct_rule[OF wf_par_rel[OF inv]])
  case (1 i)
  show ?case
  proof (cases "par d i")
    case None
    then have "(i, a) \<notin> (par_rel d)\<^sup>+" for a by (simp add: trancl_par[of i])
    then show ?thesis using None by (simp add: climb.simps)
  next
    case (Some a)
    have "climb f p (par d a) = Some (\<exists>b. (a, b) \<in> (par_rel d)\<^sup>+ \<and> q b)"
      by (rule 1) (simp add: par_rel_def Some)
    then show ?thesis
      by (subst climb.simps) (auto simp: Some p up trancl_par[of i])
  qed
qed

lemma has_loop_total:
  assumes inv: "tree_inv d" and p: "\<And>c. p c = Some (q c)"
  shows "has_loop d p (i # rest) = (if \<exists>m \<in> subtree d i. q m then Some True else has_loop d p rest)"
proof (induction i arbitrary: rest rule: wf_induct_rule[OF wf_children[OF inv]])
  case (1 i)
  have list: "has_loop d p (cs @ rest) =
      (if \<exists>c \<in> set cs. \<exists>m \<in> subtree d c. q m then Some True else has_loop d p rest)"
    if "set cs \<subseteq> set (kids d i)" for cs
    using that
  proof (induction cs)
    case (Cons c cs)
    have "(c, i) \<in> par_rel d" using Cons.prems tree_inv_links[OF inv] by (auto simp: par_rel_def)
    then show ?case using 1[of c "cs @ rest"] Cons by auto
  qed simp
  have kids: "(case ok (children d i) of Some cs \<Rightarrow> cs | None \<Rightarrow> []) = kids d i"
    by (simp add: ok_children kids_def)
  show ?case
    using list[of "kids d i"]
    by (subst has_loop.simps) (simp add: p kids subtree_unfold[OF inv, of i])
qed

lemma subtree_strict: "(\<Union>c \<in> {c. par d c = Some i}. subtree d c) = {c. (c, i) \<in> (par_rel d)\<^sup>+}"
  by (auto simp: subtree_def trancl_unfold_right par_rel_def)

lemma matches_has_total:
  assumes inv: "tree_inv d" and p: "\<And>c. p c = Some (q c)"
  shows "matches_has d p i = Some (\<exists>c. (c, i) \<in> (par_rel d)\<^sup>+ \<and> q c)"
proof -
  have "has_loop d p cs = Some (\<exists>c \<in> set cs. \<exists>m \<in> subtree d c. q m)" for cs
    by (induction cs) (simp_all add: has_loop_total[OF inv p] has_loop.simps[of _ _ "[]"])
  then have "has_loop d p (kids d i) = Some (\<exists>c \<in> set (kids d i). \<exists>m \<in> subtree d c. q m)" .
  moreover have "(\<exists>c \<in> set (kids d i). \<exists>m \<in> subtree d c. q m) \<longleftrightarrow> (\<exists>c. (c, i) \<in> (par_rel d)\<^sup>+ \<and> q c)"
    using subtree_strict[of d i] tree_inv_links[OF inv, of _ i] by blast
  moreover have "i < length (nodes d) \<or> kids d i = []" by (auto simp: kids_def)
  ultimately show ?thesis by (auto simp: matches_has_def ok_children)
qed

end
