(* ===== verification/Css_Match_Exact.thy ===== *)
theory Css_Match_Exact
  imports Css_Match_Spec
begin

text \<open>
  The matcher decides the meaning of selectors. The matcher reads the document through one of two
  readers, the DOM itself or the cascade view; what it needs of a reader is the locale
  \<open>node_reader\<close>, and the agreement with the meaning is proved once for every reader.
\<close>

section \<open>Documents and selectors\<close>

definition dom_ok :: "dom \<Rightarrow> bool" where
  "dom_ok d \<longleftrightarrow> tree_inv d \<and> atoms_inv d \<and> length (nodes d) < 2 ^ 31"

lemma dom_ok_tree: "dom_ok d \<Longrightarrow> tree_inv d"
  by (simp add: dom_ok_def)

lemma reachable_dom_ok:
  assumes "dom_reachable inst d" and "length (interned (interner d)) \<le> 2 ^ 32"
    and "length (nodes d) < 2 ^ 31"
  shows "dom_ok d"
  using dom_reachable_inv[OF assms(1)] dom_reachable_atoms_ok[OF assms(1)] assms(2,3)
  by (simp add: dom_ok_def atoms_ok_def interner_fits_def)

text \<open>Identifiers are not empty and their atoms stand for them; the value of an attribute selector
  may be empty, and if it has an atom it is one token.\<close>

definition name_ok :: "silk_interner \<Rightarrow> sel_ident \<Rightarrow> bool" where
  "name_ok it i \<longleftrightarrow> ident_faithful it i \<and> ident_value i \<noteq> []"

definition value_ok :: "silk_interner \<Rightarrow> sel_ident \<Rightarrow> bool" where
  "value_ok it v \<longleftrightarrow>
     ident_faithful it v \<and> (ident_atom v \<noteq> None \<longrightarrow> ident_value v \<in> set (split_whitespace (ident_value v)))"

text \<open>An+B indices whose difference with any position stays within \<open>i32\<close>.\<close>

definition nth_ok :: "dom \<Rightarrow> nth_index \<Rightarrow> bool" where
  "nth_ok d n \<longleftrightarrow> int (length (nodes d)) - sint (nth_b n) < 2 ^ 31"

fun sel_nth :: "(nth_index \<Rightarrow> bool) \<Rightarrow> selector \<Rightarrow> bool"
  and step_nth :: "(nth_index \<Rightarrow> bool) \<Rightarrow> selector_step \<Rightarrow> bool"
  and compound_nth :: "(nth_index \<Rightarrow> bool) \<Rightarrow> compound \<Rightarrow> bool"
  and modifier_nth :: "(nth_index \<Rightarrow> bool) \<Rightarrow> selector_modifier \<Rightarrow> bool"
  and arg_nth :: "(nth_index \<Rightarrow> bool) \<Rightarrow> pseudo_arg \<Rightarrow> bool"
where
  "sel_nth N (Selector steps) = list_all (step_nth N) steps"
| "step_nth N (SelectorStep c cp) = compound_nth N cp"
| "compound_nth N (Compound t ms) = list_all (modifier_nth N) ms"
| "modifier_nth N (FunctionalMod i arg) = arg_nth N arg"
| "modifier_nth N m = True"
| "arg_nth N (ListArg sels) = list_all (sel_nth N) sels"
| "arg_nth N (NthArg n) = N n"

definition selector_ok :: "dom \<Rightarrow> selector \<Rightarrow> bool" where
  "selector_ok d sel \<longleftrightarrow>
     sel_all (name_ok (interner d)) (value_ok (interner d)) sel \<and> sel_nth (nth_ok d) sel"

section \<open>Strings and atoms\<close>

lemma attribute_recordD:
  assumes "dom_ok d" and "attribute_record d i name = Some a"
  shows "is_element d i" "a \<in> set (attrs_of d i)" "attr_name a = name" "attr_atoms_ok (interner d) a"
proof -
  have "find (\<lambda>a. attr_name a = name) (attrs_of d i) = Some a" "is_element d i"
    using assms(2) by (auto simp: attribute_record_def attributes_attrs_of split: if_splits)
  then show "is_element d i" "a \<in> set (attrs_of d i)" "attr_name a = name"
    by (auto simp: find_Some_iff)
  then show "attr_atoms_ok (interner d) a" using assms(1) by (auto simp: dom_ok_def atoms_inv_def)
qed

lemma same_atom_value:
  assumes "ident_faithful it e" and "\<And>x. value_atom a = Some x \<Longrightarrow> resolve it x = Some (attr_value a)"
    and "same_atom e (value_atom a)"
  shows "attr_value a = ident_value e" "ident_atom e \<noteq> None"
  using assms by (auto simp: same_atom_def ident_faithful_def split: option.splits)

lemma value_atom_resolves:
  "attr_atoms_ok it a \<Longrightarrow> value_atom a = Some x \<Longrightarrow> resolve it x = Some (attr_value a)"
  by (auto simp: attr_atoms_ok_def split: if_splits)

lemma matches_id_sat:
  assumes "dom_ok d" and "ident_faithful (interner d) name"
  shows "matches_id d i name \<longleftrightarrow> attr_text d i AttrId = Some (ident_value name)"
proof (cases "attribute_record d i AttrId")
  case (Some a)
  have "attr_value a = ident_value name" if "same_atom name (value_atom a)"
    using same_atom_value(1)[OF assms(2) _ that] value_atom_resolves[OF attribute_recordD(4)[OF assms(1) Some]]
    by blast
  then show ?thesis using Some by (auto simp: matches_id_def attr_text_def)
qed (simp add: matches_id_def attr_text_def)

lemma class_tokens_sub: "set (class_tokens v) \<subseteq> set (split_whitespace v)"
  by (auto simp: class_tokens_def)

lemma matches_class_sat:
  assumes ok: "dom_ok d" and f: "ident_faithful (interner d) name"
  shows "matches_class d i name \<longleftrightarrow> has_class d i (ident_value name)"
proof (cases "attribute_record d i AttrClass")
  case (Some a)
  have "ident_value name \<in> set (split_whitespace (attr_value a))"
    if "ident_atom name = Some x" "x \<in> set (value_atoms a)" for x
  proof -
    have "map (resolve (interner d)) (value_atoms a) = map Some (class_tokens (attr_value a))"
      using attribute_recordD(3,4)[OF ok Some] by (simp add: attr_atoms_ok_def)
    then have "resolve (interner d) x \<in> Some ` set (class_tokens (attr_value a))"
      using that(2) by (metis image_eqI list.set_map)
    then show ?thesis
      using f that(1) class_tokens_sub[of "attr_value a"] by (auto simp: ident_faithful_def)
  qed
  then show ?thesis
    using Some by (auto simp: matches_class_def has_class_def attr_text_def split: option.split)
qed (simp add: matches_class_def has_class_def attr_text_def)

lemma operator_holds_self: "v \<in> set (split_whitespace v) \<Longrightarrow> operator_holds op v v"
  by (cases op) (auto simp: starts_with_def ends_with_def contains_str_def)

lemma matches_attribute_sat:
  assumes ok: "dom_ok d" and v: "\<And>e. as_value s = Some e \<Longrightarrow> value_ok (interner d) e"
  shows "matches_attribute d i s \<longleftrightarrow> attr_sat d i s"
proof (cases "attribute_record d i (as_name s)")
  case (Some a)
  have "operator_holds op (attr_value a) (ident_value e)"
    if "as_value s = Some e" "same_atom e (value_atom a)" for op e
  proof -
    have e: "ident_faithful (interner d) e" using v[OF that(1)] by (simp add: value_ok_def)
    have "attr_value a = ident_value e" "ident_atom e \<noteq> None"
      using same_atom_value[OF e _ that(2)] value_atom_resolves[OF attribute_recordD(4)[OF ok Some]]
      by blast+
    then show ?thesis
      using v[OF that(1)] operator_holds_self by (simp add: value_ok_def)
  qed
  then show ?thesis
    using Some by (auto simp: matches_attribute_def attr_sat_def attr_text_def split: option.split)
qed (simp add: matches_attribute_def attr_sat_def attr_text_def)

section \<open>Selectors the matcher can evaluate\<close>

fun modifier_ok :: "dom \<Rightarrow> selector_modifier \<Rightarrow> bool" where
  "modifier_ok d (ClassMod name) = name_ok (interner d) name"
| "modifier_ok d (IdMod name) = name_ok (interner d) name"
| "modifier_ok d (AttributeMod a) = (\<forall>v. as_value a = Some v \<longrightarrow> value_ok (interner d) v)"
| "modifier_ok d (PseudoMod name) = True"
| "modifier_ok d (FunctionalMod name arg) =
     (\<forall>j p. matches_functional d j p arg \<noteq> None
        \<and> (is_element d j \<longrightarrow> matches_functional d j p arg = Some (sat_functional d j p arg)))"

fun compound_ok :: "dom \<Rightarrow> compound \<Rightarrow> bool" where
  "compound_ok d (Compound ty ms) = (\<forall>m \<in> set ms. modifier_ok d m)"

fun step_compound :: "selector_step \<Rightarrow> compound" where
  "step_compound (SelectorStep c cp) = cp"

section \<open>Readers\<close>

locale node_reader =
  fixes valid :: "'w \<Rightarrow> bool"
    and doc :: "'w \<Rightarrow> dom"
    and view :: "'w \<Rightarrow> cascade_view option"
    and anchored :: "'w \<Rightarrow> compound \<Rightarrow> bool"
  assumes doc_ok: "valid w \<Longrightarrow> dom_ok (doc w)"
    and parent_agrees: "valid w \<Longrightarrow> get_parent (view w) (doc w) i = par (doc w) i"
    and type_agrees: "valid w \<Longrightarrow> is_element (doc w) i \<Longrightarrow>
      type_matches (view w) (doc w) i ty = type_sat (doc w) i ty"
    and class_agrees: "valid w \<Longrightarrow> is_element (doc w) i \<Longrightarrow> name_ok (interner (doc w)) name \<Longrightarrow>
      modifier_class (view w) (doc w) i name = Some (has_class (doc w) i (ident_value name))"
    and id_agrees: "valid w \<Longrightarrow> is_element (doc w) i \<Longrightarrow> name_ok (interner (doc w)) name \<Longrightarrow>
      modifier_id (view w) (doc w) i name = Some (attr_text (doc w) i AttrId = Some (ident_value name))"
    and stray: "valid w \<Longrightarrow> \<not> is_element (doc w) i \<Longrightarrow> anchored w cp \<Longrightarrow> compound_ok (doc w) cp \<Longrightarrow>
      matches_compound (view w) (doc w) i cp = Some False"
begin

lemma modifier_exact:
  assumes "valid w" and "is_element (doc w) i" and "modifier_ok (doc w) m"
  shows "matches_modifier (view w) (doc w) i m = Some (sat_modifier (doc w) i m)"
  using assms(3) class_agrees[OF assms(1,2)] id_agrees[OF assms(1,2)]
    matches_attribute_sat[OF doc_ok[OF assms(1)]] assms(2)
  by (cases m) auto

lemma compound_exact:
  assumes v: "valid w" and "compound_ok (doc w) cp" and "is_element (doc w) i \<or> anchored w cp"
  shows "matches_compound (view w) (doc w) i cp = Some (sat_compound (doc w) i cp)"
proof (cases "is_element (doc w) i")
  case True
  then show ?thesis
    using assms(2) type_agrees[OF v True] modifier_exact[OF v True]
      all_opt_total[of _ "matches_modifier (view w) (doc w) i" "sat_modifier (doc w) i"]
    by (cases cp) auto
next
  case False
  then have "\<not> type_sat (doc w) i ty" for ty
    by (auto simp: type_sat_def element_tag_knd is_element_knd split: node_kind.splits)
  then have "\<not> sat_compound (doc w) i cp" by (cases cp) simp
  then show ?thesis using stray[OF v False] assms(2,3) False by simp
qed

lemma steps_exact:
  assumes v: "valid w" and "\<forall>st \<in> set steps. compound_ok (doc w) (step_compound st)"
    and "\<forall>st \<in> set (tl steps). anchored w (step_compound st)"
    and "steps = [] \<or> is_element (doc w) i \<or> anchored w (step_compound (hd steps))"
  shows "matches_steps (view w) (doc w) i steps = Some (sat_steps (doc w) i steps)"
  using assms(2-)
proof (induction steps arbitrary: i)
  case (Cons st rest)
  obtain comb cp where st: "st = SelectorStep comb cp" by (cases st)
  have inv: "tree_inv (doc w)" using doc_ok[OF v] by (rule dom_ok_tree)
  have cp: "matches_compound (view w) (doc w) i cp = Some (sat_compound (doc w) i cp)"
    using compound_exact[OF v] Cons.prems st by simp
  have rest: "matches_steps (view w) (doc w) a rest = Some (sat_steps (doc w) a rest)" for a
    using Cons.IH[of a] Cons.prems by (cases rest) auto
  have any: "any_opt (\<lambda>s. matches_steps (view w) (doc w) s rest) xs =
      Some (\<exists>s \<in> set xs. sat_steps (doc w) s rest)" for xs
    using any_opt_total[of xs] rest by simp
  show ?case
  proof (cases comb)
    case None
    then show ?thesis using cp st by (auto split: bool.split)
  next
    case (Some k)
    then show ?thesis
      using cp st rest any previous_siblings_earlier[OF inv, of i]
        climb_total[OF inv, of "get_parent (view w) (doc w)"
          "\<lambda>a. matches_steps (view w) (doc w) a rest" "\<lambda>a. sat_steps (doc w) a rest" i]
        previous_sibling_adjacent[OF inv, of i, symmetric]
      by (cases k) (auto simp: parent_agrees[OF v] split: bool.split option.split)
  qed
qed simp

end

section \<open>The document as a reader\<close>

lemma type_matches_dom: "type_matches None d i ty = type_sat d i ty"
  by (auto simp: type_matches_def view_entry_def type_sat_def split: option.split type_selector.split)

interpretation dom_reader: node_reader dom_ok "\<lambda>d. d" "\<lambda>_. None" "\<lambda>_ _. True"
proof
  fix d i cp assume "\<not> is_element d i"
  then have "\<not> type_sat d i ty" for ty
    by (auto simp: type_sat_def element_tag_knd is_element_knd split: node_kind.splits)
  then show "matches_compound None d i cp = Some False" by (cases cp) (simp add: type_matches_dom)
qed (auto simp: get_parent_def type_matches_dom modifier_class_def modifier_id_def view_entry_def
    matches_class_sat matches_id_sat name_ok_def)

lemma index_loop_le: "index_loop q i n xs \<le> n + length xs"
proof (induction xs arbitrary: n)
  case (Cons x xs)
  show ?case using Cons[of "Suc n"] Cons[of n] by (simp add: Let_def)
qed simp

lemma nth_position_le:
  assumes inv: "tree_inv d" shows "nth_position d i p \<le> length (nodes d)"
proof -
  have "index_loop q i 0 ss \<le> length (nodes d)" if "ss = sibling_list d i \<or> ss = rev (sibling_list d i)" for q ss
    using index_loop_le[of q i 0 ss] sibling_list_length[OF inv, of i] that by fastforce
  then show ?thesis
    by (auto simp: nth_position_def siblings_of_list[OF inv] element_child_index_def
        element_child_index_from_end_def element_child_index_of_type_def
        element_child_index_of_type_from_end_def split: option.split if_splits)
qed

lemma nth_functional:
  assumes ok: "dom_ok d" and n: "nth_ok d n"
  shows "matches_functional d i p (NthArg n) \<noteq> None"
    and "is_element d i \<Longrightarrow> matches_functional d i p (NthArg n) = Some (sat_functional d i p (NthArg n))"
proof -
  have inv: "tree_inv d" using ok by (rule dom_ok_tree)
  have pos: "nth_matches n (nth_position d i p) =
      Some (0 < nth_position d i p \<and> (\<exists>k::nat. int (nth_position d i p) = sint (nth_a n) * int k + sint (nth_b n)))"
  proof (cases "nth_position d i p = 0")
    case False
    then show ?thesis
      using nth_matches_iff[of "nth_position d i p" n] nth_position_le[OF inv, of i p] ok n
      by (simp add: dom_ok_def nth_ok_def)
  qed (simp add: nth_matches_def)
  show "matches_functional d i p (NthArg n) \<noteq> None" by (auto simp: pos split: if_splits)
  show "matches_functional d i p (NthArg n) = Some (sat_functional d i p (NthArg n))" if "is_element d i"
    using nth_position_rank[OF inv that, of p] pos by auto
qed

text \<open>Every argument of a well-formed selector can be evaluated, by induction on selectors.\<close>

lemma selectors_evaluate:
  assumes ok: "dom_ok d"
  defines "P \<equiv> name_ok (interner d)" and "Q \<equiv> value_ok (interner d)" and "N \<equiv> nth_ok d"
  shows "sel_all P Q sel \<Longrightarrow> sel_nth N sel \<Longrightarrow>
      (\<forall>i. matches_selector_inner None d i sel = Some (sat_selector d i sel))"
    and "step_all P Q st \<Longrightarrow> step_nth N st \<Longrightarrow> compound_ok d (step_compound st)"
    and "compound_all P Q cp \<Longrightarrow> compound_nth N cp \<Longrightarrow> compound_ok d cp"
    and "modifier_all P Q m \<Longrightarrow> modifier_nth N m \<Longrightarrow> modifier_ok d m"
    and "arg_all P Q arg \<Longrightarrow> arg_nth N arg \<Longrightarrow> (\<forall>j p. matches_functional d j p arg \<noteq> None
        \<and> (is_element d j \<longrightarrow> matches_functional d j p arg = Some (sat_functional d j p arg)))"
proof (induction sel and st and cp and m and arg)
  case (Selector steps)
  have "\<forall>st \<in> set (rev steps). compound_ok d (step_compound st)"
    using Selector by (auto simp: list_all_iff)
  then show ?case using dom_reader.steps_exact[OF ok, of "rev steps"] by simp
next
  case (NthArg n)
  then show ?case using nth_functional[OF ok] by (simp add: N_def)
next
  case (ListArg sels)
  have "any_opt (matches_selector_inner None d i) sels = Some (\<exists>s \<in> set sels. sat_selector d i s)" for i
    using ListArg by (intro any_opt_total) (auto simp: list_all_iff)
  moreover from this have "matches_has d (\<lambda>c. any_opt (matches_selector_inner None d c) sels) i =
      Some (\<exists>c. (c, i) \<in> (par_rel d)\<^sup>+ \<and> (\<exists>s \<in> set sels. sat_selector d c s))" for i
    by (rule matches_has_total[OF dom_ok_tree[OF ok]])
  ultimately show ?case by auto
qed (auto simp: list_all_iff P_def Q_def split: option.splits)

text \<open>C4: On every reachable document matching a selector against a node returns, and its answer is
  the meaning of the selector by strings and tree alone: combinators are the transitive closure of
  parenthood, parenthood, adjacency and precedence among element siblings, \<open>:has()\<close> ranges over the
  strict descendants and An+B over the ranks; comparing atoms never changes an answer.\<close>

theorem matches_selector_exact:
  assumes "dom_reachable inst d" and "length (interned (interner d)) \<le> 2 ^ 32"
    and "length (nodes d) < 2 ^ 31" and "selector_ok d sel"
  shows "matches_selector_inner None d i sel = Some (sat_selector d i sel)"
  using selectors_evaluate(1)[OF reachable_dom_ok[OF assms(1-3)]] assms(4)
  by (simp add: selector_ok_def)

text \<open>\<open>form > input:nth-child(2)\<close>\<close>

definition example_selector :: selector where
  "example_selector = Selector
     [SelectorStep None (Compound (Some (TagType TagForm)) []),
      SelectorStep (Some Child) (Compound (Some (TagType TagInput))
        [FunctionalMod (ident_new ''nth-child'') (NthArg \<lparr>nth_a = 0, nth_b = 2\<rparr>)])]"

lemma radio_sizes: "length (interned (interner radio_dom)) \<le> 2 ^ 32" "length (nodes radio_dom) = 4"
  by (simp_all add: radio_dom_def attribute_exec radio_base_value)

lemma example_selector_ok: "selector_ok radio_dom example_selector"
  by (simp add: selector_ok_def example_selector_def name_ok_def ident_faithful_def ident_new_def nth_ok_def
      radio_sizes)

theorem matches_selector_exact_witness:
  "matches_selector_inner None radio_dom 3 example_selector = Some (sat_selector radio_dom 3 example_selector)"
  using matches_selector_exact[OF radio_reachable radio_sizes(1) _ example_selector_ok, of 3]
  by (simp add: radio_sizes)

end
