(* ===== verification/Css_View.thy ===== *)
theory Css_View
  imports Css_Match_Exact
begin

text \<open>
  The cascade view as a reader: a freshly rebuilt view answers the type, class, id and parent
  questions about elements as the document does, so matching through it decides the same
  meaning, except on nodes that are no elements, which the view presents as \<open>div\<close>.
\<close>

section \<open>What a rebuilt view holds\<close>

lemma rebuild_loop_entries:
  "rebuild_loop d n = Some v \<Longrightarrow> length (entries v) = n \<and>
    (\<forall>i < n. \<exists>acc acc'. rebuild_entry d i acc = Some (entries v ! i, acc') \<and> prefix acc' (idents v))"
proof (induction n arbitrary: v)
  case (Suc n)
  obtain u e acc where u: "rebuild_loop d n = Some u" "rebuild_entry d n (idents u) = Some (e, acc)"
      "v = \<lparr>entries = entries u @ [e], idents = acc\<rparr>"
    using Suc.prems by (auto split: option.splits)
  have grow: "prefix (idents u) acc"
    using u(2) by (auto simp: rebuild_entry_def id_pass_def Let_def split: option.splits node_kind.splits
        prod.splits if_splits)
  note IH = Suc.IH[OF u(1)]
  show ?case
  proof (intro conjI allI impI)
    show "length (entries v) = Suc n" using IH u(3) by simp
    fix i assume i: "i < Suc n"
    show "\<exists>a a'. rebuild_entry d i a = Some (entries v ! i, a') \<and> prefix a' (idents v)"
    proof (cases "i = n")
      case True
      then show ?thesis using u IH by (intro exI[of _ "idents u"] exI[of _ acc]) (simp add: nth_append)
    next
      case False
      then obtain a a' where a: "rebuild_entry d i a = Some (entries u ! i, a')" "prefix a' (idents u)"
        using IH i by (metis less_antisym)
      moreover have "entries v ! i = entries u ! i" using u(3) IH False i by (simp add: nth_append)
      moreover have "prefix a' (idents v)" using a(2) grow u(3) by simp
      ultimately show ?thesis by metis
    qed
  qed
qed (simp add: view_new_def)

definition view_ok :: "dom \<Rightarrow> cascade_view \<Rightarrow> bool" where
  "view_ok d v \<longleftrightarrow>
     dom_ok d \<and> rebuild d = Some v \<and> length (nodes d) \<le> 65535 \<and> length (idents v) < 2 ^ 32 - 1
   \<and> (\<forall>i t. attr_text d i AttrClass = Some t \<longrightarrow>
        list_all should_intern_identifier (split_whitespace t) \<and> length (split_whitespace t) \<le> 65535)"

lemma view_length: "view_ok d v \<Longrightarrow> length (entries v) = length (nodes d)"
  using rebuild_loop_entries by (auto simp: view_ok_def rebuild_def node_count_def)

lemma view_entry_at:
  assumes "view_ok d v" and "i < length (nodes d)"
  obtains acc acc' where "rebuild_entry d i acc = Some (entries v ! i, acc')" "prefix acc' (idents v)"
    "view_entry (Some v) i = Some (v, entries v ! i)"
proof -
  have "rebuild_loop d (length (nodes d)) = Some v"
    using assms(1) by (simp add: view_ok_def rebuild_def node_count_def)
  then show ?thesis
    using that rebuild_loop_entries[of d "length (nodes d)" v] assms(2) view_length[OF assms(1)]
    by (auto simp: view_entry_def)
qed

lemma ok_node_at: "ok (node_at d i) = (if i < length (nodes d) then Some (nodes d ! i) else None)"
  by (simp add: node_at_def node_index_def)

lemma entry_parent_of:
  assumes "length (nodes d) \<le> 65535" and inv: "tree_inv d" and "parent_id e = entry_parent d i"
  shows "parent_of e = par d i"
proof (cases "par d i")
  case (Some p)
  have "p < length (nodes d)" using Some tree_inv_links[OF inv] tree_inv_ranges[OF inv] by blast
  then have p: "p < 65535" using assms(1) by simp
  have u: "unat (word_of_nat p :: 16 word) = p" using p by (simp add: unsigned_of_nat take_bit_nat_eq_self)
  have "(word_of_nat p :: 16 word) \<noteq> - 1"
  proof
    assume "(word_of_nat p :: 16 word) = - 1"
    then have "p = unat (- 1 :: 16 word)" using u by simp
    then show False using p by (simp add: unsigned_minus_1_eq_mask mask_eq_exp_minus_1)
  qed
  then show ?thesis using Some assms(3) p u by (simp add: entry_parent_def parent_of_def NO_PARENT_def)
qed (use assms in \<open>simp add: entry_parent_def parent_of_def\<close>)

lemma rebuild_entry_parent:
  "rebuild_entry d i acc = Some (e, acc') \<Longrightarrow> parent_id e = entry_parent d i"
  by (auto simp: rebuild_entry_def plain_entry_def Let_def split: option.splits node_kind.splits prod.splits)

lemma view_parent: 
  assumes ok: "view_ok d v" shows "get_parent (Some v) d i = par d i"
proof (cases "i < length (nodes d)")
  case True
  then obtain acc acc' where "rebuild_entry d i acc = Some (entries v ! i, acc')"
    using view_entry_at[OF ok] by blast
  then have "parent_of (entries v ! i) = par d i"
    using entry_parent_of[OF _ _ rebuild_entry_parent] ok by (auto simp: view_ok_def dom_ok_def)
  then show ?thesis using True view_length[OF ok] by (simp add: get_parent_def)
qed (simp add: get_parent_def view_length[OF ok])

section \<open>Identifiers\<close>

lemma ident_eq_value:
  assumes "interner_inv it" and "ident_faithful it x" and "ident_faithful it y"
  shows "ident_eq x y \<longleftrightarrow> ident_value x = ident_value y"
proof (cases "ident_atom x = None \<or> ident_atom y = None")
  case False
  then obtain a b where ab: "ident_atom x = Some a" "ident_atom y = Some b" by auto
  have "resolve it a = Some (ident_value x)" "resolve it b = Some (ident_value y)"
    using assms(2,3) ab by (simp_all add: ident_faithful_def)
  then have "a = b \<longleftrightarrow> ident_value x = ident_value y"
    using silk.res_inj[OF assms(1)] by auto
  then show ?thesis using ab by (simp add: ident_eq_def)
qed (auto simp: ident_eq_def split: option.split)

lemma faithful_plain [simp]: "ident_faithful it (ident_new s)" "ident_value (ident_new s) = s"
  by (simp_all add: ident_faithful_def ident_new_def)

lemma faithful_with_atom [simp]:
  "ident_faithful it (ident_new_with_atom s a) \<longleftrightarrow> resolve it a = Some s"
  "ident_value (ident_new_with_atom s a) = s"
  by (simp_all add: ident_faithful_def ident_new_with_atom_def)

lemma class_pass_find:
  "distinct (map attr_name attrs) \<Longrightarrow> class_pass d attrs =
     (case find (\<lambda>a. attr_name a = AttrClass) attrs of None \<Rightarrow> Some [] | Some a \<Rightarrow> class_pass_attr d a)"
proof (induction attrs)
  case (Cons a attrs)
  have "find (\<lambda>b. attr_name b = AttrClass) attrs = None" if "attr_name a = AttrClass"
    using Cons.prems that by (force simp: find_None_iff)
  then show ?case using Cons by (auto split: option.split)
qed simp

lemma class_pass_attr_idents:
  assumes "attr_atoms_ok it a" and "attr_name a = AttrClass"
    and "list_all should_intern_identifier (split_whitespace (attr_value a))"
  shows "\<exists>js. class_pass_attr d a = Some js \<and> length js = length (split_whitespace (attr_value a))
    \<and> map ident_value js = split_whitespace (attr_value a) \<and> list_all (ident_faithful it) js"
proof -
  let ?ts = "split_whitespace (attr_value a)"
  have "attr_value a = [] \<Longrightarrow> ?ts = []" by (simp add: split_whitespace_def)
  then have strs: "class_strings a = ?ts" and res: "map (resolve it) (value_atoms a) = map Some ?ts"
    using assms by (auto simp: attr_atoms_ok_def class_tokens_def list_all_iff)
  have len: "length (value_atoms a) = length ?ts" using res by (metis length_map)
  show ?thesis
  proof (cases "?ts = []")
    case True
    then show ?thesis using strs len by (simp add: class_pass_attr_def)
  next
    case False
    let ?js = "map (\<lambda>(s, x). ident_new_with_atom s x) (zip ?ts (value_atoms a))"
    have "map ident_value ?js = ?ts" using len by (simp add: comp_def case_prod_beta map_fst_zip)
    moreover have "list_all (ident_faithful it) ?js"
      using res len by (auto simp: list_all_length) (metis nth_map)
    ultimately show ?thesis using False strs len by (simp add: class_pass_attr_def)
  qed
qed

section \<open>Elements\<close>

lemma view_element:
  assumes ok: "view_ok d v" and el: "is_element d i"
  obtains t pfx ns acc cls where "knd d i = Element t pfx ns (attrs_of d i)"
    "view_entry (Some v) i = Some (v, entries v ! i)"
    "entry_tag (entries v ! i) = t"
    "class_pass d (attrs_of d i) = Some cls"
    "id_index (entries v ! i) = fst (id_pass (attrs_of d i) acc)"
    "class_start (entries v ! i) = word_of_nat (length (snd (id_pass (attrs_of d i) acc)))"
    "class_count (entries v ! i) = word_of_nat (min (length cls) 65535)"
    "prefix (snd (id_pass (attrs_of d i) acc) @ cls) (idents v)"
proof -
  obtain t pfx ns where k: "knd d i = Element t pfx ns (attrs_of d i)"
    using el by (cases "knd d i") (auto simp: is_element_knd attrs_of_def)
  have i: "i < length (nodes d)" using el is_element_range by (simp add: is_element_knd)
  obtain acc acc' where e: "rebuild_entry d i acc = Some (entries v ! i, acc')" "prefix acc' (idents v)"
    "view_entry (Some v) i = Some (v, entries v ! i)" using view_entry_at[OF ok i] by blast
  have "kind (nodes d ! i) = Element t pfx ns (attrs_of d i)" using k i by (simp add: knd_def)
  then obtain cls where cls: "class_pass d (attrs_of d i) = Some cls"
      "entries v ! i = \<lparr>entry_tag = t, id_index = fst (id_pass (attrs_of d i) acc),
         class_start = word_of_nat (length (snd (id_pass (attrs_of d i) acc))),
         class_count = word_of_nat (min (length cls) 65535), parent_id = entry_parent d i\<rparr>"
      "acc' = snd (id_pass (attrs_of d i) acc) @ cls"
    using e(1) i by (auto simp: rebuild_entry_def ok_node_at case_prod_beta Let_def split: option.splits)
  show ?thesis by (rule that[OF k e(3) _ cls(1)]) (use cls e(2) in simp_all)
qed

lemma view_type:
  assumes ok: "view_ok d v" and el: "is_element d i"
  shows "type_matches (Some v) d i ty = type_sat d i ty"
proof -
  obtain t pfx ns where t: "knd d i = Element t pfx ns (attrs_of d i)"
      "view_entry (Some v) i = Some (v, entries v ! i)" "entry_tag (entries v ! i) = t"
    using view_element[OF assms] by metis
  then have "element_tag d i = Some t" by (simp add: element_tag_knd)
  then show ?thesis
    using t by (auto simp: type_matches_def type_sat_def split: option.split type_selector.split)
qed

lemma attribute_record_find:
  "is_element d i \<Longrightarrow> attribute_record d i name = find (\<lambda>a. attr_name a = name) (attrs_of d i)"
  by (simp add: attribute_record_def attributes_attrs_of)

text \<open>The class identifiers of an element are faithful and name its classes, when no token is too long.\<close>

lemma class_pass_exact:
  assumes dok: "dom_ok d" and el: "is_element d i" and pass: "class_pass d (attrs_of d i) = Some cls"
    and tok: "\<And>t. attr_text d i AttrClass = Some t \<Longrightarrow> list_all should_intern_identifier (split_whitespace t)"
  shows "list_all (ident_faithful (interner d)) cls \<and> (\<forall>c. c \<in> ident_value ` set cls \<longleftrightarrow> has_class d i c)
    \<and> (\<forall>t. attr_text d i AttrClass = Some t \<longrightarrow> length cls = length (split_whitespace t))
    \<and> (attr_text d i AttrClass = None \<longrightarrow> cls = [])"
proof -
  have dis: "distinct (map attr_name (attrs_of d i))" using dok by (auto simp: dom_ok_def atoms_inv_def)
  show ?thesis
  proof (cases "attribute_record d i AttrClass")
    case None
    then have "find (\<lambda>a. attr_name a = AttrClass) (attrs_of d i) = None"
      using attribute_record_find[OF el, of AttrClass] by simp
    then have "cls = []" using pass class_pass_find[OF dis, of d] by simp
    then show ?thesis using None by (simp add: has_class_def attr_text_def)
  next
    case (Some a)
    then have t: "attr_text d i AttrClass = Some (attr_value a)" by (simp add: attr_text_def)
    obtain js where js: "class_pass_attr d a = Some js" "length js = length (split_whitespace (attr_value a))"
        "map ident_value js = split_whitespace (attr_value a)" "list_all (ident_faithful (interner d)) js"
      using class_pass_attr_idents[OF attribute_recordD(4,3)[OF dok Some] tok[OF t]] by blast
    have "find (\<lambda>a. attr_name a = AttrClass) (attrs_of d i) = Some a"
      using attribute_record_find[OF el, of AttrClass] Some by simp
    then have "cls = js" using pass class_pass_find[OF dis, of d] js(1) by simp
    moreover have "c \<in> ident_value ` set js \<longleftrightarrow> has_class d i c" for c
      using arg_cong[OF js(3), of set] t by (simp add: has_class_def)
    ultimately show ?thesis using js(2,4) t by simp
  qed
qed

lemma view_class:
  assumes ok: "view_ok d v" and el: "is_element d i" and name: "name_ok (interner d) name"
  shows "modifier_class (Some v) d i name = Some (has_class d i (ident_value name))"
proof -
  have inv: "interner_inv (interner d)" and dok: "dom_ok d" and size: "length (idents v) < 2 ^ 32 - 1"
    using ok by (auto simp: view_ok_def dom_ok_def atoms_inv_def)
  obtain acc cls where e: "view_entry (Some v) i = Some (v, entries v ! i)"
    "class_pass d (attrs_of d i) = Some cls"
    "class_start (entries v ! i) = word_of_nat (length (snd (id_pass (attrs_of d i) acc)))"
    "class_count (entries v ! i) = word_of_nat (min (length cls) 65535)"
    "prefix (snd (id_pass (attrs_of d i) acc) @ cls) (idents v)"
    using view_element[OF ok el] by metis
  let ?acc = "snd (id_pass (attrs_of d i) acc)"
  obtain rest where rest: "idents v = ?acc @ cls @ rest" using e(5) by (auto simp: prefix_def)
  have tok: "list_all should_intern_identifier (split_whitespace t) \<and> length (split_whitespace t) \<le> 65535"
    if "attr_text d i AttrClass = Some t" for t using ok that by (auto simp: view_ok_def)
  have cls: "length cls \<le> 65535 \<and> list_all (ident_faithful (interner d)) cls
      \<and> (\<forall>c. c \<in> ident_value ` set cls \<longleftrightarrow> has_class d i c)"
    using class_pass_exact[OF dok el e(2)] tok by (cases "attr_text d i AttrClass") auto
  have lens: "length ?acc < 2 ^ 32" "length cls < 2 ^ 16" using size rest cls by auto
  have "class_idents v (entries v ! i) = Some cls"
    using e(3,4) rest cls lens
    by (simp add: class_idents_def Let_def unat_of_nat min_def)
  moreover have "list_ex (\<lambda>x. ident_eq x name) cls \<longleftrightarrow> has_class d i (ident_value name)"
  proof -
    have "ident_faithful (interner d) name" using name by (simp add: name_ok_def)
    then have "ident_eq x name \<longleftrightarrow> ident_value x = ident_value name" if "x \<in> set cls" for x
      using ident_eq_value[OF inv] cls that by (auto simp: list_all_iff)
    then have "list_ex (\<lambda>x. ident_eq x name) cls \<longleftrightarrow> ident_value name \<in> ident_value ` set cls"
      by (simp add: list_ex_iff image_iff) metis
    then show ?thesis using cls by blast
  qed
  ultimately show ?thesis using e(1) by (simp add: modifier_class_def)
qed

lemma view_id:
  assumes ok: "view_ok d v" and el: "is_element d i" and name: "name_ok (interner d) name"
  shows "modifier_id (Some v) d i name = Some (attr_text d i AttrId = Some (ident_value name))"
proof -
  have inv: "interner_inv (interner d)" and dok: "dom_ok d" and size: "length (idents v) < 2 ^ 32 - 1"
    using ok by (auto simp: view_ok_def dom_ok_def atoms_inv_def)
  have f: "ident_faithful (interner d) name" "ident_value name \<noteq> []"
    using name by (simp_all add: name_ok_def)
  obtain acc cls where e: "view_entry (Some v) i = Some (v, entries v ! i)"
    "id_index (entries v ! i) = fst (id_pass (attrs_of d i) acc)"
    "prefix (snd (id_pass (attrs_of d i) acc) @ cls) (idents v)"
    using view_element[OF ok el] by metis
  have found: "modifier_id (Some v) d i name = Some (ident_value x = ident_value name)"
    if p: "id_pass (attrs_of d i) acc = (word_of_nat (length acc), acc @ [x])"
      and x: "ident_faithful (interner d) x" for x
  proof -
    obtain rest where rest: "idents v = acc @ x # rest" using e(3) p by (auto simp: prefix_def)
    have len: "length acc < 2 ^ 32 - 1" using rest size by simp
    then have u: "unat (word_of_nat (length acc) :: 32 word) = length acc" by (simp add: unat_of_nat)
    have "(word_of_nat (length acc) :: 32 word) \<noteq> NO_ID"
    proof
      assume "(word_of_nat (length acc) :: 32 word) = NO_ID"
      then have "length acc = unat (NO_ID)" using u by simp
      then show False using len by (simp add: NO_ID_def unsigned_minus_1_eq_mask mask_eq_exp_minus_1)
    qed
    then show ?thesis
      using e(1,2) p u rest ident_eq_value[OF inv x f(1)]
      by (simp add: modifier_id_def id_ident_def nth_append)
  qed
  have missing: "modifier_id (Some v) d i name = Some False" if "id_pass (attrs_of d i) acc = (NO_ID, acc)"
    using e(1,2) that by (simp add: modifier_id_def id_ident_def)
  show ?thesis
  proof (cases "attribute_record d i AttrId")
    case None
    then have "find (\<lambda>a. attr_name a = AttrId) (attrs_of d i) = None"
      using attribute_record_find[OF el, of AttrId] by simp
    then show ?thesis using missing None by (simp add: id_pass_def attr_text_def)
  next
    case (Some a)
    then have a: "find (\<lambda>a. attr_name a = AttrId) (attrs_of d i) = Some a"
      using attribute_record_find[OF el, of AttrId] by simp
    have t: "attr_text d i AttrId = Some (attr_value a)" using Some by (simp add: attr_text_def)
    show ?thesis
    proof (cases "value_atom a")
      case (Some x)
      have "resolve (interner d) x = Some (attr_value a)"
        using value_atom_resolves[OF attribute_recordD(4)[OF dok \<open>attribute_record d i AttrId = Some a\<close>] Some] .
      then show ?thesis
        using found[of "ident_new_with_atom (attr_value a) x"] a Some t by (simp add: id_pass_def)
    next
      case None
      then show ?thesis
        using found[of "ident_new (attr_value a)"] missing a t f(2)
        by (cases "attr_value a = []") (auto simp: id_pass_def)
    qed
  qed
qed

section \<open>The view as a reader\<close>

fun anchors :: "selector_modifier \<Rightarrow> bool" where
  "anchors (ClassMod _) = True"
| "anchors (IdMod _) = True"
| "anchors (AttributeMod _) = True"
| "anchors _ = False"

text \<open>A compound that no \<open>div\<close> without attributes can match.\<close>

fun anchored :: "compound \<Rightarrow> bool" where
  "anchored (Compound ty ms) \<longleftrightarrow>
     (\<exists>t. ty = Some (TagType t) \<and> \<not> eq_ignore_ascii_case ''div'' (tag_as_str t)) \<or> list_ex anchors ms"

lemma view_plain:
  assumes ok: "view_ok d v" and "\<not> is_element d i"
  shows "view_entry (Some v) i = None \<or>
    (\<exists>p. view_entry (Some v) i = Some (v, plain_entry p))"
proof (cases "i < length (nodes d)")
  case True
  then obtain acc acc' where e: "rebuild_entry d i acc = Some (entries v ! i, acc')"
    "view_entry (Some v) i = Some (v, entries v ! i)" using view_entry_at[OF ok] by metis
  have "\<not> is_element_kind (kind (nodes d ! i))" using assms(2) True by (simp add: is_element_knd knd_def)
  then have "entries v ! i = plain_entry (entry_parent d i)"
    using e(1) True by (cases "kind (nodes d ! i)") (simp_all add: rebuild_entry_def ok_node_at)
  then show ?thesis using e(2) by auto
qed (simp add: view_entry_def view_length[OF ok])

lemma all_opt_False:
  "(\<And>x. x \<in> set xs \<Longrightarrow> p x \<noteq> None) \<Longrightarrow> y \<in> set xs \<Longrightarrow> p y = Some False \<Longrightarrow> all_opt p xs = Some False"
proof (induction xs)
  case (Cons x xs)
  obtain b where "p x = Some b" using Cons.prems(1)[of x] by auto
  then show ?case using Cons by (cases b) auto
qed simp

lemma view_stray_modifier:
  assumes ok: "view_ok d v" and no: "\<not> is_element d i" and "modifier_ok d m"
  shows "matches_modifier (Some v) d i m \<noteq> None"
    and "anchors m \<Longrightarrow> matches_modifier (Some v) d i m = Some False"
proof -
  have rec: "attribute_record d i a = None" for a
    using no by (simp add: attribute_record_def attributes_attrs_of)
  have plain: "class_idents v (plain_entry p) = Some []" "id_ident v (plain_entry p) = Some None" for p
    by (simp_all add: class_idents_def id_ident_def plain_entry_def NO_ID_def)
  have "modifier_class (Some v) d i name = Some False" "modifier_id (Some v) d i name = Some False" for name
    using view_plain[OF ok no] plain rec
    by (auto simp: modifier_class_def modifier_id_def matches_class_def matches_id_def)
  moreover have "matches_attribute d i a = False" for a by (simp add: matches_attribute_def rec)
  ultimately show "matches_modifier (Some v) d i m \<noteq> None"
    "anchors m \<Longrightarrow> matches_modifier (Some v) d i m = Some False"
    using assms(3) by (cases m; simp)+
qed

lemma view_stray:
  assumes ok: "view_ok d v" and no: "\<not> is_element d i" and "anchored cp" and "compound_ok d cp"
  shows "matches_compound (Some v) d i cp = Some False"
proof -
  obtain ty ms where cp: "cp = Compound ty ms" by (cases cp)
  have "element_tag d i = None"
    using no by (auto simp: element_tag_knd is_element_knd split: node_kind.split)
  then have tag: "\<not> type_matches (Some v) d i (Some (TagType t))"
    if "\<not> eq_ignore_ascii_case ''div'' (tag_as_str t)" for t
    using view_plain[OF ok no] that
    by (auto simp: type_matches_def type_selector_tag_matches_def plain_entry_def eq_ignore_ascii_case_def)
  have "all_opt (matches_modifier (Some v) d i) ms = Some False" if a: "list_ex anchors ms"
  proof -
    obtain m where "m \<in> set ms" "anchors m" using a by (auto simp: list_ex_iff)
    then show ?thesis
      using view_stray_modifier[OF ok no] assms(4) cp all_opt_False[of ms "matches_modifier (Some v) d i" m]
      by simp
  qed
  then show ?thesis using assms(3) cp tag by auto
qed

interpretation view_reader:
  node_reader "\<lambda>(d, v). view_ok d v" fst "\<lambda>w. Some (snd w)" "\<lambda>_. anchored"
proof
  fix w :: "dom \<times> cascade_view" and i ty name cp
  assume "case w of (d, v) \<Rightarrow> view_ok d v"
  then have ok: "view_ok (fst w) (snd w)" by (simp add: case_prod_beta)
  show "dom_ok (fst w)" using ok by (simp add: view_ok_def)
  show "get_parent (Some (snd w)) (fst w) i = par (fst w) i" using ok by (rule view_parent)
  show "is_element (fst w) i \<Longrightarrow> type_matches (Some (snd w)) (fst w) i ty = type_sat (fst w) i ty"
    using ok by (rule view_type)
  show "is_element (fst w) i \<Longrightarrow> name_ok (interner (fst w)) name \<Longrightarrow>
      modifier_class (Some (snd w)) (fst w) i name = Some (has_class (fst w) i (ident_value name))"
    using ok by (rule view_class)
  show "is_element (fst w) i \<Longrightarrow> name_ok (interner (fst w)) name \<Longrightarrow>
      modifier_id (Some (snd w)) (fst w) i name = Some (attr_text (fst w) i AttrId = Some (ident_value name))"
    using ok by (rule view_id)
  show "\<not> is_element (fst w) i \<Longrightarrow> anchored cp \<Longrightarrow> compound_ok (fst w) cp \<Longrightarrow>
      matches_compound (Some (snd w)) (fst w) i cp = Some False"
    using ok by (rule view_stray)
qed

fun sel_steps :: "selector \<Rightarrow> selector_step list" where
  "sel_steps (Selector steps) = steps"

definition sel_anchored :: "selector \<Rightarrow> bool" where
  "sel_anchored sel \<longleftrightarrow> list_all (\<lambda>st. anchored (step_compound st)) (butlast (sel_steps sel))"

lemma view_matches:
  assumes ok: "view_ok d v" and el: "is_element d i" and sel: "selector_ok d sel" and an: "sel_anchored sel"
  shows "matches_selector_inner (Some v) d i sel = Some (sat_selector d i sel)"
proof -
  obtain steps where s: "sel = Selector steps" by (cases sel)
  have dok: "dom_ok d" using ok by (simp add: view_ok_def)
  have "\<forall>st \<in> set (rev steps). compound_ok d (step_compound st)"
    using sel selectors_evaluate(2)[OF dok] s by (auto simp: selector_ok_def list_all_iff)
  moreover have "\<forall>st \<in> set (tl (rev steps)). anchored (step_compound st)"
    using an s by (cases steps rule: rev_cases) (auto simp: sel_anchored_def list_all_iff)
  ultimately show ?thesis
    using view_reader.steps_exact[of "(d, v)" "rev steps" i] ok el s by simp
qed

lemma class_pass_total:
  "\<forall>a \<in> set attrs. attr_atoms_ok it a \<Longrightarrow> \<exists>cls. class_pass d attrs = Some cls"
proof (induction attrs)
  case (Cons a attrs)
  have "\<exists>js. class_pass_attr d a = Some js" if "attr_name a = AttrClass"
  proof -
    have "map (resolve it) (value_atoms a) = map Some (class_strings a)"
      using Cons.prems that by (simp add: attr_atoms_ok_def)
    then have "class_strings a = [] \<Longrightarrow> value_atoms a = []" by simp
    then show ?thesis by (auto simp: class_pass_attr_def)
  qed
  then show ?case using Cons by (auto split: option.split)
qed simp

lemma rebuild_returns: "dom_ok d \<Longrightarrow> \<exists>v. rebuild d = Some v"
proof -
  assume ok: "dom_ok d"
  have entry: "rebuild_entry d i acc \<noteq> None" for i acc
  proof -
    obtain cls where "class_pass d (attrs_of d i) = Some cls"
      using class_pass_total[of "attrs_of d i" "interner d" d] ok by (auto simp: dom_ok_def atoms_inv_def)
    then show ?thesis
      by (auto simp: rebuild_entry_def ok_node_at attrs_of_def knd_def Let_def case_prod_beta
          split: node_kind.split)
  qed
  have "\<exists>v. rebuild_loop d n = Some v" for n
  proof (induction n)
    case (Suc n)
    then obtain v where "rebuild_loop d n = Some v" by blast
    then show ?case using entry[of n "idents v"] by auto
  qed simp
  then show ?thesis by (simp add: rebuild_def)
qed

text \<open>C6: For every reachable document of at most 65535 nodes the cascade view can be rebuilt, and when
  its class names are short enough to be interned, matching an element through the view gives the
  same answer as matching it through the document, for every selector all of whose compounds but
  the last name a class, an id, an attribute or a type other than \<open>div\<close>.\<close>

theorem cascade_view_agrees:
  assumes reach: "dom_reachable inst d" and "length (interned (interner d)) \<le> 2 ^ 32"
    and "length (nodes d) \<le> 65535"
    and "\<And>i t. attr_text d i AttrClass = Some t \<Longrightarrow>
      list_all should_intern_identifier (split_whitespace t) \<and> length (split_whitespace t) \<le> 65535"
  shows "\<exists>v. rebuild d = Some v \<and> (length (idents v) < 2 ^ 32 - 1 \<longrightarrow>
    (\<forall>i sel. is_element d i \<and> selector_ok d sel \<and> sel_anchored sel \<longrightarrow>
      matches_selector_inner (Some v) d i sel = matches_selector_inner None d i sel))"
proof -
  have ok: "dom_ok d" using reachable_dom_ok[OF assms(1,2)] assms(3) by simp
  obtain v where v: "rebuild d = Some v" using rebuild_returns[OF ok] by blast
  have "matches_selector_inner (Some v) d i sel = matches_selector_inner None d i sel"
    if "length (idents v) < 2 ^ 32 - 1" "is_element d i" "selector_ok d sel" "sel_anchored sel" for i sel
    using view_matches[OF _ that(2-4)] selectors_evaluate(1)[OF ok] ok v assms(3,4) that(1,3)
    by (simp add: view_ok_def selector_ok_def)
  then show ?thesis using v by blast
qed

lemma radio_class: "attr_text radio_dom i AttrClass = None"
proof -
  have "i = 0 \<or> i = 1 \<or> i = 2 \<or> i = 3 \<or> 4 \<le> i" by arith
  then show ?thesis
    by (elim disjE) (simp_all add: attr_text_def attribute_record_def attributes_def node_index_def radio_value
        nth_Cons')
qed

lemma radio_view: "rebuild radio_dom = Some v \<Longrightarrow> length (idents v) = 0"
  by (simp add: rebuild_def node_count_def radio_value rebuild_entry_def ok_node_at
      id_pass_def view_new_def) auto

theorem cascade_view_agrees_witness:
  "\<exists>v. rebuild radio_dom = Some v \<and>
     matches_selector_inner (Some v) radio_dom 3 example_selector =
       matches_selector_inner None radio_dom 3 example_selector"
proof -
  have "is_element radio_dom 3" "sel_anchored example_selector"
    by (simp_all add: is_element_knd knd_def radio_value sel_anchored_def example_selector_def
        eq_ignore_ascii_case_def to_ascii_lowercase_def lower_char_def ascii_upper_def)
  then show ?thesis
    using cascade_view_agrees[OF radio_reachable radio_sizes(1)] radio_sizes(2) radio_class
      radio_view example_selector_ok by auto
qed

text \<open>The document node has no tag, but the view presents it as a \<open>div\<close>: through the view
  \<open>div > div\<close> matches a root element, through the document it does not.\<close>

lemma view_document_is_div:
  "\<exists>v sel. rebuild example_dom = Some v
    \<and> sel = Selector [SelectorStep None (Compound (Some (TagType TagDiv)) []),
        SelectorStep (Some Child) (Compound (Some (TagType TagDiv)) [])]
    \<and> matches_selector_inner (Some v) example_dom 1 sel = Some True
    \<and> matches_selector_inner None example_dom 1 sel = Some False"
  by (simp add: rebuild_def node_count_def example_value rebuild_entry_def ok_node_at
      id_pass_def view_new_def entry_parent_def par_def type_matches_def view_entry_def element_tag_knd
      get_parent_def knd_def plain_entry_def type_selector_tag_matches_def parent_of_def NO_PARENT_def)

end
