(* ===== verification/Css_Specificity.thy ===== *)
theory Css_Specificity
  imports Css_Selector Prelude "HOL-Library.Product_Lexorder"
begin

text \<open>
  Specificity and the cascade key (\<open>crates/silksurf-css/src/matching.rs\<close>). The counters are
  \<open>u32\<close> and wrap as the release profile does; the derived order compares the fields in the order
  of their declaration, and the key of an important declaration complements the layer.
\<close>

section \<open>Definitions\<close>

record specificity =
  element_attached :: bool
  layer :: "32 word"
  spec_ids :: "32 word"
  classes :: "32 word"
  elements :: "32 word"

definition UNLAYERED :: "32 word" where "UNLAYERED = - 1"

definition spec_zero :: specificity where
  "spec_zero = \<lparr>element_attached = False, layer = UNLAYERED, spec_ids = 0, classes = 0, elements = 0\<rparr>"

type_synonym cascade_key = "bool \<times> 32 word \<times> 32 word \<times> 32 word \<times> 32 word"

definition cascade_key :: "specificity \<Rightarrow> bool \<Rightarrow> cascade_key" where
  "cascade_key s important =
     (element_attached s, if important then not (layer s) else layer s, spec_ids s, classes s, elements s)"

text \<open>The derived \<open>Ord\<close>.\<close>

definition spec_fields :: "specificity \<Rightarrow> cascade_key" where
  "spec_fields s = (element_attached s, layer s, spec_ids s, classes s, elements s)"

definition spec_max :: "specificity \<Rightarrow> specificity \<Rightarrow> specificity" where
  "spec_max a b = (if spec_fields a \<le> spec_fields b then b else a)"

text \<open>\<open>Iterator::max\<close>: the last of the greatest.\<close>

fun max_specificity :: "specificity list \<Rightarrow> specificity option" where
  "max_specificity [] = None"
| "max_specificity (s # ss) = Some (fold (\<lambda>x acc. spec_max acc x) ss s)"

definition add_specificity :: "specificity \<Rightarrow> specificity \<Rightarrow> specificity" where
  "add_specificity m s =
     s\<lparr>spec_ids := spec_ids s + spec_ids m, classes := classes s + classes m, elements := elements s + elements m\<rparr>"

definition count_class :: "specificity \<Rightarrow> specificity" where
  "count_class s = s\<lparr>classes := classes s + 1\<rparr>"

definition count_type :: "type_selector option \<Rightarrow> specificity \<Rightarrow> specificity" where
  "count_type ty s = (case ty of Some (TagType _) \<Rightarrow> s\<lparr>elements := elements s + 1\<rparr> | _ \<Rightarrow> s)"

function (sequential) selector_specificity :: "selector \<Rightarrow> specificity"
  and step_specificity :: "selector_step \<Rightarrow> specificity \<Rightarrow> specificity"
  and compound_specificity :: "compound \<Rightarrow> specificity \<Rightarrow> specificity"
  and modifier_specificity :: "selector_modifier \<Rightarrow> specificity \<Rightarrow> specificity"
  and arg_specificity :: "pseudo_arg \<Rightarrow> specificity \<Rightarrow> specificity"
where
  "selector_specificity (Selector steps) = fold step_specificity steps spec_zero"
| "step_specificity (SelectorStep comb cp) s = compound_specificity cp s"
| "compound_specificity (Compound ty ms) s = fold modifier_specificity ms (count_type ty s)"
| "modifier_specificity (IdMod _) s = s\<lparr>spec_ids := spec_ids s + 1\<rparr>"
| "modifier_specificity (ClassMod _) s = count_class s"
| "modifier_specificity (AttributeMod _) s = count_class s"
| "modifier_specificity (PseudoMod _) s = count_class s"
| "modifier_specificity (FunctionalMod name arg) s =
     (let lower = to_ascii_lowercase (ident_value name)
      in if lower = ''where'' then s
         else if lower = ''not'' \<or> lower = ''is'' \<or> lower = ''has'' then arg_specificity arg s
         else count_class s)"
| "arg_specificity (NthArg n) s = s"
| "arg_specificity (ListArg sels) s =
     (case max_specificity (map selector_specificity sels) of
        None \<Rightarrow> s | Some m \<Rightarrow> add_specificity m s)"
  by pat_completeness auto

termination
  by (relation "measure (\<lambda>x. case x of
         Inl (Inl sel) \<Rightarrow> size sel
       | Inl (Inr (st, _)) \<Rightarrow> size st
       | Inr (Inl (cp, _)) \<Rightarrow> size cp
       | Inr (Inr (Inl (m, _))) \<Rightarrow> size m
       | Inr (Inr (Inr (arg, _))) \<Rightarrow> size arg)")
     (simp_all add: less_Suc_eq_le size_in_list)

section \<open>The order of the cascade\<close>

lemma complement_less: "not y < not x \<longleftrightarrow> x < (y :: 32 word)"
proof -
  have "uint (not z) = 2 ^ 32 - 1 - uint z" for z :: "32 word"
    using uint_bounded[of z]
    by (simp add: unsigned_not_eq take_bit_not_eq_mask_diff mask_eq_exp_minus_1 take_bit_int_eq_self)
  then show ?thesis by (simp add: word_less_def)
qed

text \<open>The cascade key orders declarations of one origin as the cascade asks: a \<open>style\<close> attribute beats
  every rule in both importance classes; among rules the later layer wins between normal
  declarations and the earlier layer wins between important ones, whatever the selectors, so that
  unlayered rules win the first and lose the second; and within one layer the selectors decide
  alike for both.\<close>

theorem cascade_key_order:
  "(\<not> element_attached s \<and> element_attached t \<longrightarrow> cascade_key s b < cascade_key t b)
   \<and> (element_attached s = element_attached t \<and> layer s < layer t \<longrightarrow>
        cascade_key s False < cascade_key t False \<and> cascade_key t True < cascade_key s True)
   \<and> (element_attached s = element_attached t \<and> layer s = layer t \<longrightarrow>
        (cascade_key s b < cascade_key t b \<longleftrightarrow>
          (spec_ids s, classes s, elements s) < (spec_ids t, classes t, elements t)))
   \<and> layer s \<le> UNLAYERED"
  by (auto simp: cascade_key_def complement_less UNLAYERED_def)

theorem cascade_key_order_witness:
  "cascade_key (spec_zero\<lparr>layer := 1\<rparr>) False < cascade_key spec_zero False
   \<and> cascade_key spec_zero True < cascade_key (spec_zero\<lparr>layer := 1\<rparr>) True"
  using cascade_key_order[of "spec_zero\<lparr>layer := 1\<rparr>" spec_zero False]
  by (simp add: spec_zero_def UNLAYERED_def word_less_def unsigned_minus_1_eq_mask mask_eq_exp_minus_1)

end
