(* ===== verification/Css_Parser_Total.thy ===== *)
theory Css_Parser_Total
  imports Css_Parser_Props
begin

text \<open>
  When the stylesheet parser returns, where it does not, and what it reads back.
\<close>

section \<open>Returning\<close>

definition no_keyframes :: "css_token list \<Rightarrow> bool" where
  "no_keyframes ts \<longleftrightarrow>
     (\<forall>name. AtKeyword name \<in> set ts \<longrightarrow> strip_vendor_prefix (to_ascii_lowercase name) \<noteq> ''keyframes'')"

lemma no_keyframes_mono: "no_keyframes ts \<Longrightarrow> set us \<subseteq> set ts \<Longrightarrow> no_keyframes us"
  by (auto simp: no_keyframes_def)

lemma consume_block_set:
  "set (fst (consume_block d ts)) \<subseteq> set ts" "set (snd (consume_block d ts)) \<subseteq> set ts"
  by (induction d ts rule: consume_block.induct) auto

lemma set_dropWhile_sub: "set (dropWhile P ts) \<subseteq> set ts"
  by (auto dest: set_dropWhileD)

lemma set_tl_sub: "set (tl ts) \<subseteq> set ts"
  by (cases ts) auto

lemma rest_sub:
  "set (tl (dropWhile P ts)) \<subseteq> set ts"
  "set (fst (consume_block d (tl (dropWhile P ts)))) \<subseteq> set ts"
  "set (snd (consume_block d (tl (dropWhile P ts)))) \<subseteq> set ts"
  using set_dropWhile_sub[of P ts] set_tl_sub[of "dropWhile P ts"]
    consume_block_set[of d "tl (dropWhile P ts)"] by blast+

lemma parse_at_rule_total:
  assumes "\<And>t. set t \<subseteq> set ts \<Longrightarrow> block_of name t \<noteq> None"
  shows "\<exists>r rest. parse_at_rule block_of name ts = Some (r, rest) \<and> set rest \<subseteq> set ts"
proof -
  define u where "u = dropWhile (\<lambda>t. \<not> at_prelude_ends t) ts"
  obtain c v where cb: "consume_block 1 (tl u) = (c, v)" by (metis surj_pair)
  have sub: "set u \<subseteq> set ts" "set (tl u) \<subseteq> set ts" "set c \<subseteq> set ts" "set v \<subseteq> set ts"
    using rest_sub(1)[where ts = ts] rest_sub(2,3)[where ts = ts and d = 1] set_dropWhile_sub[where ts = ts] cb
    unfolding u_def by (metis fst_conv snd_conv)+
  obtain b where b: "block_of name c = Some b" using assms[OF sub(3)] by auto
  show ?thesis
  proof (cases "peek u")
    case None
    then show ?thesis using sub unfolding parse_at_rule_def Let_def u_def[symmetric] by simp
  next
    case (Some t)
    then show ?thesis
      using sub cb b unfolding parse_at_rule_def Let_def u_def[symmetric] by (cases t) auto
  qed
qed

lemma parse_qualified_rule_set: "set (snd (parse_qualified_rule ts)) \<subseteq> set ts"
proof -
  define u where "u = dropWhile (\<lambda>t. \<not> rule_prelude_ends t) ts"
  obtain c v where cb: "consume_block 1 (tl u) = (c, v)" by (metis surj_pair)
  have sub: "set u \<subseteq> set ts" "set v \<subseteq> set ts"
    using rest_sub(3)[where ts = ts and d = 1] set_dropWhile_sub[where ts = ts] cb
    unfolding u_def by (metis snd_conv)+
  show ?thesis
  proof (cases "peek u")
    case None
    then show ?thesis using sub unfolding parse_qualified_rule_def Let_def u_def[symmetric] by simp
  next
    case (Some t)
    then show ?thesis
      using sub cb unfolding parse_qualified_rule_def Let_def u_def[symmetric] by (cases t) auto
  qed
qed

lemma parse_rule_total:
  fixes block_of :: "'f block_parser"
  assumes "\<And>name t. AtKeyword name \<in> set ts \<Longrightarrow> set t \<subseteq> set ts \<Longrightarrow> block_of name t \<noteq> None"
  shows "\<exists>r rest. parse_rule block_of ts = Some (r, rest) \<and> set rest \<subseteq> set ts"
proof (cases ts)
  case Nil
  then show ?thesis by (simp add: parse_rule_def peek_def)
next
  case (Cons t u)
  obtain r :: "'f rule option" and rest where q: "parse_qualified_rule ts = (r, rest)" by (metis surj_pair)
  have "set (snd (parse_qualified_rule ts :: 'f rule option \<times> _)) \<subseteq> set ts"
    by (rule parse_qualified_rule_set)
  then have qs: "set rest \<subseteq> set ts" using q by simp
  show ?thesis
  proof (cases t)
    case (AtKeyword name)
    have "block_of name v \<noteq> None" if "set v \<subseteq> set u" for v
      using assms[of name v] that Cons AtKeyword by auto
    then obtain a rest where "parse_at_rule block_of name u = Some (a, rest)" "set rest \<subseteq> set u"
      using parse_at_rule_total by blast
    then show ?thesis using Cons AtKeyword by (auto simp: parse_rule_def peek_def)
  qed (use Cons q qs in \<open>auto simp: parse_rule_def peek_def\<close>)
qed

lemma stylesheet_loop_total:
  assumes "\<And>name t. AtKeyword name \<in> set ts \<Longrightarrow> set t \<subseteq> set ts \<Longrightarrow> block_of name t \<noteq> None"
  shows "stylesheet_loop block_of rules ts \<noteq> None"
  using assms
proof (induction block_of rules ts rule: stylesheet_loop.induct)
  case (1 block_of rules ts)
  show ?case
  proof (cases "is_eof ts")
    case True
    then show ?thesis by (simp add: stylesheet_loop.simps[of _ _ ts])
  next
    case False
    obtain res rest where p: "parse_rule block_of ts = Some (res, rest)" "set rest \<subseteq> set ts"
      using parse_rule_total 1(3) by blast
    have sub: "set (dropWhile ignorable rest) \<subseteq> set ts" "set (dropWhile ignorable (tl rest)) \<subseteq> set ts"
      using p(2) set_dropWhile_sub[of ignorable rest] set_dropWhile_sub[of ignorable "tl rest"] set_tl_sub[of rest]
      by blast+
    show ?thesis
    proof (cases res)
      case None
      have "stylesheet_loop block_of rules (dropWhile ignorable (tl rest)) \<noteq> None"
        by (rule 1(1)[OF False p(1) refl None]) (use 1(3) sub(2) in blast)
      then show ?thesis using p(1) None False by (simp add: stylesheet_loop.simps[of _ _ ts])
    next
      case (Some r)
      have "stylesheet_loop block_of (rules @ [r]) (dropWhile ignorable rest) \<noteq> None"
        by (rule 1(2)[OF False p(1) refl Some]) (use 1(3) sub(1) in blast)
      then show ?thesis using p(1) Some False by (simp add: stylesheet_loop.simps[of _ _ ts])
    qed
  qed
qed

lemma with_eof_set: "set (with_eof ts) \<subseteq> insert Eof (set ts)"
  by (auto simp: with_eof_def)

lemma parse_rules_total:
  assumes "no_keyframes ts" and "\<And>name t. strip_vendor_prefix (to_ascii_lowercase name) \<noteq> ''keyframes'' \<Longrightarrow>
    no_keyframes t \<Longrightarrow> block_of name t \<noteq> None"
  shows "parse_rules block_of ts \<noteq> None"
  unfolding parse_rules_def
proof (rule stylesheet_loop_total)
  fix name t
  have sub: "set (dropWhile ignorable (with_eof ts)) \<subseteq> insert Eof (set ts)"
    by (rule order_trans[OF set_dropWhile_sub with_eof_set])
  assume a: "AtKeyword name \<in> set (dropWhile ignorable (with_eof ts))"
    and t: "set t \<subseteq> set (dropWhile ignorable (with_eof ts))"
  have "AtKeyword name \<in> set ts" using a sub by auto
  moreover have "no_keyframes t" using t sub assms(1) by (auto simp: no_keyframes_def)
  ultimately show "block_of name t \<noteq> None" using assms by (auto simp: no_keyframes_def)
qed

lemma parse_at_rule_block_total:
  "strip_vendor_prefix (to_ascii_lowercase name) \<noteq> ''keyframes'' \<Longrightarrow> no_keyframes ts \<Longrightarrow>
    parse_at_rule_block F name ts depth \<noteq> None"
proof (induction F name ts depth rule: parse_at_rule_block.induct)
  case (1 F name ts depth)
  show ?case
  proof (cases "at_rule_block_holds_rules name ts \<and> depth \<le> MAX_AT_RULE_NESTING_DEPTH")
    case True
    then have "parse_rules (\<lambda>n t. parse_at_rule_block F n t (Suc depth)) ts \<noteq> None"
      using 1 by (intro parse_rules_total) auto
    then show ?thesis using True 1(2) by (subst parse_at_rule_block.simps) simp
  next
    case False
    then show ?thesis using 1(2) by (subst parse_at_rule_block.simps) auto
  qed
qed

lemma tokenize_total:
  assumes "search_sound search" and "rust_str input" and "escapes_ascii input"
  shows "\<exists>ts. tokenize search input = Some (Inr ts)"
proof -
  obtain ts rest where f: "feed search input css_tokenizer_new = Some (Inr (ts, css_tokenizer_new\<lparr>buffer := rest\<rparr>))"
      "rust_str rest" "suffix rest input"
    using feed_ok[OF assms(1), of css_tokenizer_new input] assms(2,3) by (auto simp: css_tokenizer_new_def)
  have "escapes_ascii rest" using escapes_ascii_suffix[OF f(3) assms(3)] .
  then obtain us rest' where "feed search [] (css_tokenizer_new\<lparr>buffer := rest\<rparr>) =
      Some (Inr (us, css_tokenizer_new\<lparr>buffer := rest\<rparr>\<lparr>buffer := rest'\<rparr>))"
    using feed_ok[OF assms(1), of "css_tokenizer_new\<lparr>buffer := rest\<rparr>" "[]"] f(2) by auto
  then show ?thesis using f(1) by (simp add: tokenize_def finish_def)
qed

text \<open>C34: On valid text with no backslash directly before a character outside ASCII and without
  \<open>@keyframes\<close> rules the parser returns and does not panic: it answers with a stylesheet or, past
  50000 rules, with the error that says so.\<close>

theorem parse_stylesheet_returns:
  assumes "search_sound search" and "rust_str input" and "escapes_ascii input"
    and "\<And>ts. tokenize search input = Some (Inr ts) \<Longrightarrow> no_keyframes ts"
  shows "\<exists>rules. parse_stylesheet F search input =
    Some (Inr (if 50000 < length rules then Inl (rule_limit_error (length rules)) else Inr rules))"
proof -
  obtain ts where ts: "tokenize search input = Some (Inr ts)" using tokenize_total assms(1-3) by blast
  have "parse_stylesheet_tokens F ts \<noteq> None"
    unfolding parse_stylesheet_tokens_def
    by (rule parse_rules_total[OF assms(4)[OF ts]]) (rule parse_at_rule_block_total)
  then show ?thesis using ts by (auto simp: parse_stylesheet_def MAX_CSS_RULES_def)
qed

definition example_f32 :: "int f32_ops" where
  "example_f32 = \<lparr>f_percent = (\<lambda>s. if s = ''100'' then Some 1 else if s = ''0'' then Some 0 else None),
     f_zero = 0, f_one = 1, f_le = (\<le>), f_total_le = (\<le>)\<rparr>"

lemma example_tokens:
  "tokenize search ''a{b:c}'' = Some (Inr [Ident ''a'', CurlyOpen, Ident ''b'', Colon, Ident ''c'', CurlyClose, Eof])"
  by code_simp

theorem parse_stylesheet_returns_witness:
  "\<exists>rules. parse_stylesheet example_f32 search_naive ''a{b:c}'' =
    Some (Inr (if 50000 < length rules then Inl (rule_limit_error (length rules)) else Inr rules))"
  by (rule parse_stylesheet_returns[OF search_naive_sound])
    (simp_all add: rust_str_Cons ascii_char_def example_tokens no_keyframes_def)

lemma example_rules_parse:
  "\<exists>r. parse_rules block_of [Ident ''a'', CurlyOpen, Ident ''b'', Colon, Ident ''c'', CurlyClose, Eof] = Some [r]"
  by (simp add: parse_rules_def with_eof_def stylesheet_loop.simps parse_rule_def peek_def parse_qualified_rule_def
      rule_prelude_ends_def ignorable_def is_eof_def)


section \<open>A keyframes block that is cut off\<close>

lemma cut_off_block:
  assumes "f_le F (f_zero F) (f_one F)" and "f_le F (f_one F) (f_one F)"
  shows "parse_at_rule_block F ''keyframes'' [Ident ''to'', CurlyOpen] 1 = None"
  using assms
  by (simp add: parse_at_rule_block.simps strip_vendor_prefix_def strip_prefix_def to_ascii_lowercase_def
      lower_char_def ascii_upper_def parse_keyframe_blocks.simps keyframe_offsets_def keyframe_offset_def
      eq_ignore_ascii_case_def sort_by_def starts_with_def)

lemma cut_off_rules:
  assumes "block_of ''keyframes'' [Ident ''to'', CurlyOpen] = None"
  shows "parse_rules block_of [AtKeyword ''keyframes'', CurlyOpen, Ident ''to'', CurlyOpen, Eof] = None"
  using assms
  by (simp add: parse_rules_def with_eof_def stylesheet_loop.simps parse_rule_def peek_def parse_at_rule_def
      at_prelude_ends_def ignorable_def is_eof_def)

lemma cut_off_tokens:
  "tokenize search ''@keyframes{to{'' = Some (Inr [AtKeyword ''keyframes'', CurlyOpen, Ident ''to'', CurlyOpen, Eof])"
  by code_simp

text \<open>A stylesheet that ends right after the opening brace of a keyframe makes the parser panic: the
  slice of the block would end before it starts.\<close>

theorem keyframes_cut_off_panics:
  assumes "f_le F (f_zero F) (f_one F)" and "f_le F (f_one F) (f_one F)"
  shows "parse_stylesheet F search ''@keyframes{to{'' = Some (Inl CssPanic)"
  by (simp add: parse_stylesheet_def cut_off_tokens parse_stylesheet_tokens_def
      cut_off_rules[of "\<lambda>n t. parse_at_rule_block F n t 1", OF cut_off_block[OF assms]]
      cut_off_rules[of "\<lambda>n t. parse_at_rule_block F n t (Suc 0)", OF cut_off_block[OF assms, unfolded One_nat_def]])

theorem keyframes_cut_off_panics_witness:
  "parse_stylesheet example_f32 search_naive ''@keyframes{to{'' = Some (Inl CssPanic)"
  by (rule keyframes_cut_off_panics) (simp_all add: example_f32_def)

section \<open>Reading declarations back\<close>

text \<open>The tokens of a declaration as an author writes it, and values that do not end in an
  importance of their own.\<close>

definition decl_tokens :: "css_declaration \<Rightarrow> css_token list" where
  "decl_tokens d = Ident (decl_name d) # Colon # decl_value d
     @ (if decl_important d then [Delim 33, Ident ''important''] else []) @ [Semicolon]"

definition plain_value :: "css_token list \<Rightarrow> bool" where
  "plain_value ts \<longleftrightarrow> \<not> fst (consume_important ts)"

lemma consume_important_plain:
  assumes "trimmed ts" and "plain_value ts" shows "consume_important ts = (False, ts)"
  using assms trim_tokens_fixed[OF assms(1)]
  by (cases "last ts") (auto simp: plain_value_def consume_important_def Let_def split: if_splits)

lemma consume_important_written:
  assumes "trimmed ts" shows "consume_important (ts @ [Delim 33, Ident ''important'']) = (True, ts)"
proof -
  let ?v = "ts @ [Delim 33, Ident ''important'']"
  have "trimmed ?v" using assms by (cases ts) (auto simp: trimmed_def)
  then have t: "trim_tokens ?v = ?v" by (rule trim_tokens_fixed)
  have "skip_ws (Delim 33 # rev ts) = Delim 33 # rev ts" by (rule skip_ws_fixed) simp
  then have front: "rev (skip_ws (rev (butlast ?v))) = ts @ [Delim 33]" by (simp add: butlast_append)
  show ?thesis
    using t front trim_tokens_fixed[OF assms]
    by (simp add: consume_important_def Let_def eq_ignore_ascii_case_def)
qed

lemma make_declaration_written:
  assumes "decl_wf d" and "plain_value (decl_value d)"
  shows "make_declaration (decl_name d)
      (decl_value d @ (if decl_important d then [Delim 33, Ident ''important''] else [])) = d"
proof -
  have t: "trimmed (decl_value d)" using assms(1) by (simp add: decl_wf_def)
  show ?thesis
    using assms(1) trim_tokens_fixed[OF t] consume_important_written[OF t] consume_important_plain[OF t assms(2)]
    by (simp add: make_declaration_def decl_wf_def)
qed

lemma parse_declarations_step:
  assumes d: "decl_wf d" "plain_value (decl_value d)"
  shows "parse_declarations (decl_tokens d @ rest) = d # parse_declarations rest"
proof -
  let ?v = "decl_value d @ (if decl_important d then [Delim 33, Ident ''important''] else [])"
  have v: "\<forall>t \<in> set ?v. \<not> ends_value t" using d(1) by (auto simp: decl_wf_def list_all_iff ends_value_def)
  have "takeWhile (\<lambda>t. \<not> ends_value t) (?v @ Semicolon # rest) = ?v"
    using v by (simp add: takeWhile_append2 ends_value_def)
  moreover have "dropWhile (\<lambda>t. \<not> ends_value t) (?v @ Semicolon # rest) = Semicolon # rest"
    using v by (simp add: dropWhile_append2 ends_value_def)
  then have "after_value (?v @ Semicolon # rest) = rest" by (simp add: after_value_def peek_def)
  ultimately show ?thesis
    using make_declaration_written[OF d]
    by (subst parse_declarations.simps)
      (simp add: decl_tokens_def between_declarations_def skip_ws_def peek_def Let_def)
qed

text \<open>Every list of well-formed declarations, written one after the other with its colons, its
  \<open>!important\<close> and its semicolons, is read back by \<open>parse_declarations\<close> as it was.\<close>

theorem declarations_read_back:
  assumes "list_all (\<lambda>d. decl_wf d \<and> plain_value (decl_value d)) ds"
  shows "parse_declarations (concat (map decl_tokens ds)) = ds"
  using assms
proof (induction ds)
  case (Cons d ds)
  then show ?case by (simp add: parse_declarations_step)
qed (simp add: parse_declarations.simps)

theorem declarations_read_back_witness:
  "parse_declarations [Ident ''b'', Colon, Ident ''c'', Delim 33, Ident ''important'', Semicolon] =
     [\<lparr>decl_name = ''b'', decl_value = [Ident ''c''], decl_important = True,
       decl_property = lookup_property_id ''b''\<rparr>]"
  using declarations_read_back[of "[\<lparr>decl_name = ''b'', decl_value = [Ident ''c''], decl_important = True,
       decl_property = lookup_property_id ''b''\<rparr>]"]
  by (simp add: decl_wf_def trimmed_def ends_value_def plain_value_def consume_important_def trim_tokens_def
      skip_ws_def decl_tokens_def)

end
