(* ===== verification/Net_Sse.thy ===== *)
theory Net_Sse
  imports Rust_Num
begin

text \<open>
  The server-sent events parser (\<open>crates/silksurf-net/src/sse.rs\<close>, \<open>SseParser\<close>): lines accumulate into an
  event, a blank line dispatches it. The parser is fed in chunks of any size; the main theorem is
  that the chunk boundaries do not matter. The subscription thread that reads the socket is I/O
  and is not modelled.
\<close>

section \<open>State and operations\<close>

record sse_event =
  sse_type :: string
  sse_data :: string
  sse_id :: "string option"
  sse_retry :: "64 word option"

record sse_parser =
  sse_buffer :: string
  event_type :: string
  data_lines :: "string list"
  last_id :: "string option"
  retry_ms :: "64 word option"

definition sse_new :: sse_parser where
  "sse_new = \<lparr>sse_buffer = [], event_type = [], data_lines = [], last_id = None, retry_ms = None\<rparr>"

definition dispatch :: "sse_parser \<Rightarrow> sse_event option \<times> sse_parser" where
  "dispatch p =
     (let lines = data_lines p; ty = event_type p; p = p\<lparr>data_lines := [], event_type := []\<rparr>
      in if lines = [] then (None, p)
         else (Some \<lparr>sse_type = (if ty = [] then ''message'' else ty), sse_data = join_str [CHR 0x0A] lines,
                     sse_id = last_id p, sse_retry = retry_ms p\<rparr>, p))"

definition sse_field :: "string \<Rightarrow> string \<Rightarrow> sse_parser \<Rightarrow> sse_parser" where
  "sse_field field value p =
     (if field = ''data'' then p\<lparr>data_lines := data_lines p @ [value]\<rparr>
      else if field = ''event'' then p\<lparr>event_type := value\<rparr>
      else if field = ''id'' \<and> CHR 0x00 \<notin> set value then p\<lparr>last_id := Some value\<rparr>
      else if field = ''retry'' then
        (case parse_u64 value of Some ms \<Rightarrow> p\<lparr>retry_ms := Some ms\<rparr> | None \<Rightarrow> p)
      else p)"

text \<open>One line without its newline: the events it completes and the next state.\<close>

definition sse_line :: "string \<Rightarrow> sse_parser \<Rightarrow> sse_event list \<times> sse_parser" where
  "sse_line raw p =
     (let line = trim_end_char (CHR 0x0D) raw
      in if line = [] then
           (let (e, p) = dispatch p in (case e of None \<Rightarrow> [] | Some e \<Rightarrow> [e], p))
         else if starts_with '':'' line then ([], p)
         else
           (let (field, value) =
              (case split_once (CHR '':'') line of
                 Some (f, v) \<Rightarrow> (f, case strip_prefix '' '' v of Some w \<Rightarrow> w | None \<Rightarrow> v)
               | None \<Rightarrow> (line, []))
            in ([], sse_field field value p)))"

text \<open>The loop over the complete lines of the buffer; a line does not touch what is left of it.\<close>

function sse_loop :: "sse_parser \<Rightarrow> sse_event list \<times> sse_parser" where
  "sse_loop p =
     (case split_once (CHR 0x0A) (sse_buffer p) of
        None \<Rightarrow> ([], p)
      | Some (line, rest) \<Rightarrow>
          (let (es, q) = sse_line line (p\<lparr>sse_buffer := rest\<rparr>)
           in apfst ((@) es) (sse_loop (q\<lparr>sse_buffer := rest\<rparr>))))"
  by auto
termination
  by (relation "measure (\<lambda>p. length (sse_buffer p))") (auto simp: split_once_Some)

declare sse_loop.simps [simp del]

definition sse_feed :: "string \<Rightarrow> sse_parser \<Rightarrow> sse_event list \<times> sse_parser" where
  "sse_feed chunk p = sse_loop (p\<lparr>sse_buffer := sse_buffer p @ chunk\<rparr>)"

text \<open>A stream read in chunks.\<close>

fun sse_feed_all :: "string list \<Rightarrow> sse_parser \<Rightarrow> sse_event list \<times> sse_parser" where
  "sse_feed_all [] p = ([], p)"
| "sse_feed_all (c # cs) p =
     (let (es, q) = sse_feed c p; (fs, r) = sse_feed_all cs q in (es @ fs, r))"

section \<open>Chunks\<close>

lemma sse_line_buffer:
  "sse_line l (p\<lparr>sse_buffer := u\<rparr>) = map_prod id (\<lambda>q. q\<lparr>sse_buffer := u\<rparr>) (sse_line l p)"
  by (auto simp: sse_line_def dispatch_def sse_field_def Let_def split: prod.split option.split)

lemma split_once_append:
  "split_once c s = Some (a, r) \<Longrightarrow> split_once c (s @ t) = Some (a, r @ t)"
  by (auto simp: split_once_Some)

lemma sse_loop_chunk:
  "sse_loop (p\<lparr>sse_buffer := sse_buffer p @ t\<rparr>) =
     (let (es, q) = sse_loop p; (fs, r) = sse_loop (q\<lparr>sse_buffer := sse_buffer q @ t\<rparr>) in (es @ fs, r))"
proof (induction p rule: sse_loop.induct)
  case (1 p)
  show ?case
  proof (cases "split_once (CHR 0x0A) (sse_buffer p)")
    case None
    then show ?thesis by (simp add: sse_loop.simps[of p] Let_def case_prod_beta)
  next
    case (Some lr)
    obtain l rest where lr: "lr = (l, rest)" by (cases lr)
    obtain es q where q: "sse_line l p = (es, q)" by (cases "sse_line l p")
    have line: "sse_line l (p\<lparr>sse_buffer := u\<rparr>) = (es, q\<lparr>sse_buffer := u\<rparr>)" for u
      by (simp add: sse_line_buffer q)
    have IH: "sse_loop (q\<lparr>sse_buffer := rest @ t\<rparr>) =
        (let (es, q) = sse_loop (q\<lparr>sse_buffer := rest\<rparr>);
             (fs, r) = sse_loop (q\<lparr>sse_buffer := sse_buffer q @ t\<rparr>) in (es @ fs, r))"
      using 1[OF Some lr[symmetric] refl line[symmetric]] by simp
    show ?thesis
      by (subst sse_loop.simps, subst (2) sse_loop.simps)
        (simp add: Some lr split_once_append line IH Let_def case_prod_beta apfst_def map_prod_def)
  qed
qed

lemma sse_feed_append:
  "sse_feed (a @ b) p = (let (es, q) = sse_feed a p; (fs, r) = sse_feed b q in (es @ fs, r))"
  using sse_loop_chunk[of "p\<lparr>sse_buffer := sse_buffer p @ a\<rparr>" b] by (simp add: sse_feed_def)

lemma sse_feed_nothing: "sse_feed c p = (es, q) \<Longrightarrow> sse_feed [] q = ([], q)"
proof -
  have "sse_loop p = (es, q) \<Longrightarrow> split_once (CHR 0x0A) (sse_buffer q) = None" for p :: sse_parser and es
  proof (induction p arbitrary: es rule: sse_loop.induct)
    case (1 p)
    then show ?case
      by (cases "split_once (CHR 0x0A) (sse_buffer p)")
        (auto simp: sse_loop.simps[of p] Let_def apfst_def map_prod_def split: prod.splits)
  qed
  then show "sse_feed c p = (es, q) \<Longrightarrow> sse_feed [] q = ([], q)"
    by (auto simp: sse_feed_def sse_loop.simps[of q])
qed

text \<open>C21: How a stream is cut into chunks does not matter: feeding a non-empty list of chunks one after
  the other gives the events and the state of feeding their concatenation at once.\<close>

theorem sse_chunks_irrelevant:
  assumes "cs \<noteq> []"
  shows "sse_feed_all cs p = sse_feed (concat cs) p"
  using assms
proof (induction cs arbitrary: p)
  case (Cons c cs)
  show ?case
  proof (cases "cs = []")
    case True
    then show ?thesis by (simp add: Let_def case_prod_beta)
  next
    case False
    then show ?thesis using Cons.IH by (simp add: sse_feed_append)
  qed
qed simp

theorem sse_chunks_irrelevant_witness:
  "sse_feed_all [''data: a'', ''b'' @ [CHR 0x0A], [CHR 0x0A]] sse_new =
     sse_feed (''data: ab'' @ [CHR 0x0A, CHR 0x0A]) sse_new"
  using sse_chunks_irrelevant[of "[''data: a'', ''b'' @ [CHR 0x0A], [CHR 0x0A]]" sse_new] by simp

end
