(* ===== verification/Bpe.thy ===== *)
theory Bpe
  imports Prelude "HOL-Library.Word"
begin

text \<open>
  The byte-pair tokenizer (\<open>crates/silksurf-core/src/bpe.rs\<close>): a byte trie in one vector whose slot 0
  is the root and doubles as the absent child. The trie implements a map from byte strings to
  token ids; encoding is the greedy longest match in that map. \<open>None\<close> stands for an index panic.
\<close>

section \<open>Definitions\<close>

type_synonym byte = "8 word"

record bpe_node =
  token_id :: "16 word"
  child_slot :: "byte \<Rightarrow> 32 word"

definition NO_CHILD :: "32 word" where "NO_CHILD = 0"
definition NO_TOKEN :: "16 word" where "NO_TOKEN = 0"

definition bpe_node_new :: bpe_node where
  "bpe_node_new = \<lparr>token_id = NO_TOKEN, child_slot = (\<lambda>_. NO_CHILD)\<rparr>"

type_synonym bpe = "bpe_node list"

definition bpe_new :: bpe where
  "bpe_new = [bpe_node_new]"

definition bpe_at :: "bpe \<Rightarrow> nat \<Rightarrow> bpe_node option" where
  "bpe_at ns i = (if i < length ns then Some (ns ! i) else None)"

fun insert_path :: "byte list \<Rightarrow> nat \<Rightarrow> bpe \<Rightarrow> (nat \<times> bpe) option" where
  "insert_path [] current ns = Some (current, ns)"
| "insert_path (b # bs) current ns =
     (case bpe_at ns current of
        None \<Rightarrow> None
      | Some n \<Rightarrow>
          if child_slot n b = NO_CHILD
          then (let next = length ns
                in insert_path bs next
                     ((ns @ [bpe_node_new])[current := n\<lparr>child_slot := (child_slot n)(b := word_of_nat next)\<rparr>]))
          else insert_path bs (unat (child_slot n b)) ns)"

definition add_merge :: "byte list \<Rightarrow> 16 word \<Rightarrow> bpe \<Rightarrow> bpe option" where
  "add_merge s i ns =
     (if s = [] \<or> i = NO_TOKEN then Some ns
      else case insert_path s 0 ns of
             None \<Rightarrow> None
           | Some (current, ns) \<Rightarrow>
               map_option (\<lambda>n. ns[current := n\<lparr>token_id := i\<rparr>]) (bpe_at ns current))"

text \<open>The inner loop: the best token so far and its length, at an offset.\<close>

fun best_loop :: "bpe \<Rightarrow> nat \<Rightarrow> nat \<Rightarrow> 16 word \<times> nat \<Rightarrow> byte list \<Rightarrow> (16 word \<times> nat) option" where
  "best_loop ns current offset best [] = Some best"
| "best_loop ns current offset best (b # bs) =
     (case bpe_at ns current of
        None \<Rightarrow> None
      | Some n \<Rightarrow>
          if child_slot n b = NO_CHILD then Some best
          else (let current = unat (child_slot n b)
                in case bpe_at ns current of
                     None \<Rightarrow> None
                   | Some m \<Rightarrow>
                       best_loop ns current (Suc offset)
                         (if token_id m \<noteq> NO_TOKEN then (token_id m, offset + 1) else best) bs))"

lemma best_loop_length:
  "best_loop ns current offset best bs = Some (t, m) \<Longrightarrow> 0 < snd best \<Longrightarrow> 0 < m"
  by (induction ns current offset best bs rule: best_loop.induct)
    (auto simp: Let_def split: option.splits if_splits)

function bpe_encode :: "bpe \<Rightarrow> byte list \<Rightarrow> 16 word list option" where
  "bpe_encode ns [] = Some []"
| "bpe_encode ns (b # bs) =
     (case best_loop ns 0 0 (ucast b, 1) (b # bs) of
        None \<Rightarrow> None
      | Some (token, match_len) \<Rightarrow> map_option ((#) token) (bpe_encode ns (drop match_len (b # bs))))"
  by pat_completeness auto
termination
proof (relation "measure (\<lambda>(ns, bs). length bs)")
  fix ns :: bpe and b bs r token match_len
  assume "best_loop ns 0 0 (ucast b, 1) (b # bs) = Some r" "(token, match_len) = r"
  then have "0 < match_len" by (auto dest!: best_loop_length simp del: best_loop.simps)
  then show "((ns, drop match_len (b # bs)), ns, b # bs) \<in> measure (\<lambda>(ns, bs). length bs)" by simp
qed simp

text \<open>Registering a vocabulary.\<close>

fun add_merges :: "(byte list \<times> 16 word) list \<Rightarrow> bpe \<Rightarrow> bpe option" where
  "add_merges [] ns = Some ns"
| "add_merges ((s, i) # ms) ns = Option.bind (add_merge s i ns) (add_merges ms)"

section \<open>The trie as a map\<close>

fun walk :: "bpe \<Rightarrow> nat \<Rightarrow> byte list \<Rightarrow> nat option" where
  "walk ns i [] = Some i"
| "walk ns i (b # bs) =
     (if child_slot (ns ! i) b = NO_CHILD then None else walk ns (unat (child_slot (ns ! i) b)) bs)"

definition bpe_lookup :: "bpe \<Rightarrow> byte list \<Rightarrow> 16 word option" where
  "bpe_lookup ns s =
     (case walk ns 0 s of
        None \<Rightarrow> None | Some i \<Rightarrow> if token_id (ns ! i) = NO_TOKEN then None else Some (token_id (ns ! i)))"

text \<open>Slots stay in range, point forward, and no two of them share a node.\<close>

definition bpe_inv :: "bpe \<Rightarrow> bool" where
  "bpe_inv ns \<longleftrightarrow> ns \<noteq> []
     \<and> (\<forall>i < length ns. \<forall>b. child_slot (ns ! i) b \<noteq> NO_CHILD \<longrightarrow>
          i < unat (child_slot (ns ! i) b) \<and> unat (child_slot (ns ! i) b) < length ns)
     \<and> (\<forall>i < length ns. \<forall>j < length ns. \<forall>b c. child_slot (ns ! i) b \<noteq> NO_CHILD \<longrightarrow>
          child_slot (ns ! i) b = child_slot (ns ! j) c \<longrightarrow> i = j \<and> b = c)"

lemma bpe_inv_new: "bpe_inv bpe_new"
  by (simp add: bpe_inv_def bpe_new_def bpe_node_new_def)

lemma bpe_slot_range:
  "bpe_inv ns \<Longrightarrow> i < length ns \<Longrightarrow> child_slot (ns ! i) b \<noteq> NO_CHILD \<Longrightarrow>
    i < unat (child_slot (ns ! i) b) \<and> unat (child_slot (ns ! i) b) < length ns"
  by (simp add: bpe_inv_def)

lemma bpe_slot_inj:
  "bpe_inv ns \<Longrightarrow> i < length ns \<Longrightarrow> j < length ns \<Longrightarrow> child_slot (ns ! i) b \<noteq> NO_CHILD \<Longrightarrow>
    child_slot (ns ! i) b = child_slot (ns ! j) c \<Longrightarrow> i = j \<and> b = c"
  unfolding bpe_inv_def by blast

lemma walk_range: "bpe_inv ns \<Longrightarrow> i < length ns \<Longrightarrow> walk ns i s = Some j \<Longrightarrow> j < length ns"
  by (induction ns i s rule: walk.induct) (auto split: if_splits dest: bpe_slot_range)

lemma walk_append: "walk ns i (s @ t) = Option.bind (walk ns i s) (\<lambda>j. walk ns j t)"
  by (induction ns i s rule: walk.induct) auto

lemma walk_snoc_nonroot:
  assumes "bpe_inv ns" "i < length ns" "walk ns i (s @ [b]) = Some j"
  shows "\<exists>k < length ns. walk ns i s = Some k \<and> child_slot (ns ! k) b \<noteq> NO_CHILD \<and> j = unat (child_slot (ns ! k) b)"
  using assms walk_range[OF assms(1,2)] by (auto simp: walk_append bind_eq_Some_conv split: if_splits)

lemma walk_inj:
  assumes inv: "bpe_inv ns"
  shows "walk ns 0 s = Some j \<Longrightarrow> walk ns 0 t = Some j \<Longrightarrow> s = t"
proof (induction s arbitrary: t j rule: rev_induct)
  case Nil
  show ?case
  proof (cases t rule: rev_cases)
    case (snoc u c)
    have "0 < length ns" using inv by (simp add: bpe_inv_def)
    then obtain k where "child_slot (ns ! k) c \<noteq> NO_CHILD" "unat (child_slot (ns ! k) c) = 0"
      using walk_snoc_nonroot[OF inv, of 0 u c j] Nil snoc by auto
    then show ?thesis by (simp add: NO_CHILD_def unat_eq_0)
  qed simp
next
  case (snoc b s)
  have z: "0 < length ns" using inv by (simp add: bpe_inv_def)
  obtain k where k: "k < length ns" "walk ns 0 s = Some k" "child_slot (ns ! k) b \<noteq> NO_CHILD"
      "j = unat (child_slot (ns ! k) b)"
    using walk_snoc_nonroot[OF inv z snoc.prems(1)] by blast
  show ?case
  proof (cases t rule: rev_cases)
    case Nil
    then show ?thesis using k snoc.prems(2) by (simp add: NO_CHILD_def unat_eq_0)
  next
    case (snoc u c)
    obtain m where m: "m < length ns" "walk ns 0 u = Some m" "j = unat (child_slot (ns ! m) c)"
      using walk_snoc_nonroot[OF inv z, of u c j] snoc.prems(2) snoc by auto
    have "child_slot (ns ! k) b = child_slot (ns ! m) c" using k(4) m(3) by (simp add: word_unat_eq_iff)
    then have "k = m \<and> b = c" using inv k m unfolding bpe_inv_def by blast
    then show ?thesis using snoc.IH[OF k(2), of u] m(2) snoc by simp
  qed
qed

lemma walk_forward: "bpe_inv ns \<Longrightarrow> i < length ns \<Longrightarrow> walk ns i s = Some j \<Longrightarrow> i \<le> j"
proof (induction ns i s rule: walk.induct)
  case (2 ns i b bs)
  then show ?case using bpe_slot_range[OF 2(2,3), of b] by (auto split: if_splits)
qed simp

section \<open>Registering\<close>

text \<open>One trie extends another: old nodes keep their slots and tokens, new slots of old nodes lead to
  new nodes, and new nodes carry no token.\<close>

definition extends :: "bpe \<Rightarrow> bpe \<Rightarrow> bool" where
  "extends ns ms \<longleftrightarrow> length ns \<le> length ms
     \<and> (\<forall>i < length ns. token_id (ms ! i) = token_id (ns ! i) \<and> (\<forall>b.
          child_slot (ms ! i) b = child_slot (ns ! i) b
          \<or> child_slot (ns ! i) b = NO_CHILD \<and> length ns \<le> unat (child_slot (ms ! i) b)))
     \<and> (\<forall>i. length ns \<le> i \<and> i < length ms \<longrightarrow> token_id (ms ! i) = NO_TOKEN)"

lemma extends_refl: "extends ns ns"
  by (auto simp: extends_def)

lemma extends_trans:
  assumes a: "extends ns ms" and b: "extends ms ls" shows "extends ns ls"
proof -
  have len: "length ns \<le> length ms" "length ms \<le> length ls" using a b by (simp_all add: extends_def)
  have "token_id (ls ! i) = token_id (ns ! i)" if "i < length ns" for i
    using a b that len by (auto simp: extends_def)
  moreover have "child_slot (ls ! i) c = child_slot (ns ! i) c
      \<or> child_slot (ns ! i) c = NO_CHILD \<and> length ns \<le> unat (child_slot (ls ! i) c)" if "i < length ns" for i c
    using a b that len unfolding extends_def by (metis le_trans less_le_trans)
  moreover have "token_id (ls ! i) = NO_TOKEN" if "length ns \<le> i" "i < length ls" for i
    using a b that len unfolding extends_def by (metis not_le)
  ultimately show ?thesis using len by (simp add: extends_def)
qed

definition grow :: "nat \<Rightarrow> byte \<Rightarrow> bpe \<Rightarrow> bpe" where
  "grow i b ns = (ns @ [bpe_node_new])[i := (ns ! i)\<lparr>child_slot := (child_slot (ns ! i))(b := word_of_nat (length ns))\<rparr>]"

lemma grow_nth:
  assumes "i < length ns"
  shows "length (grow i b ns) = Suc (length ns)"
    "j < length ns \<Longrightarrow> token_id (grow i b ns ! j) = token_id (ns ! j)"
    "j < length ns \<Longrightarrow> child_slot (grow i b ns ! j) c =
       (if j = i \<and> c = b then word_of_nat (length ns) else child_slot (ns ! j) c)"
    "grow i b ns ! length ns = bpe_node_new"
  using assms by (auto simp: grow_def nth_append nth_list_update)

lemma grow_extends:
  assumes inv: "bpe_inv ns" and i: "i < length ns" and b: "child_slot (ns ! i) b = NO_CHILD"
    and n: "length ns < 2 ^ 32"
  shows "bpe_inv (grow i b ns)" "extends ns (grow i b ns)"
proof -
  have u: "unat (word_of_nat (length ns) :: 32 word) = length ns" using n by (simp add: unat_of_nat)
  have nz: "(word_of_nat (length ns) :: 32 word) \<noteq> NO_CHILD"
    using u i by (auto simp: NO_CHILD_def)
  show "extends ns (grow i b ns)"
    using i b u by (auto simp: extends_def grow_nth less_Suc_eq bpe_node_new_def NO_TOKEN_def le_less_Suc_eq
        dest!: le_antisym)
  have slot: "child_slot (grow i b ns ! j) c =
      (if j = length ns then NO_CHILD else if j = i \<and> c = b then word_of_nat (length ns) else child_slot (ns ! j) c)"
    if "j < Suc (length ns)" for j c
    using that i grow_nth[OF i, where b = b] by (auto simp: less_Suc_eq bpe_node_new_def)
  have old: "child_slot (ns ! j) c \<noteq> word_of_nat (length ns)" if "j < length ns" for j c
  proof
    assume e: "child_slot (ns ! j) c = word_of_nat (length ns)"
    then show False using bpe_slot_range[OF inv that, of c] u nz by simp
  qed
  show "bpe_inv (grow i b ns)"
    unfolding bpe_inv_def grow_nth(1)[OF i]
  proof (intro conjI allI impI)
    show "grow i b ns \<noteq> []" using grow_nth(1)[OF i, where b = b] by auto
    fix j k c e assume j: "j < Suc (length ns)" and nc: "child_slot (grow i b ns ! j) c \<noteq> NO_CHILD"
    show "j < unat (child_slot (grow i b ns ! j) c)" "unat (child_slot (grow i b ns ! j) c) < Suc (length ns)"
      using nc j slot[OF j, of c] u i bpe_slot_range[OF inv, of j c] by (auto split: if_splits)
    assume k: "k < Suc (length ns)" and eq: "child_slot (grow i b ns ! j) c = child_slot (grow i b ns ! k) e"
    have "j \<noteq> length ns" "k \<noteq> length ns" using nc eq slot[OF j, of c] slot[OF k, of e] by auto
    then have jk: "j < length ns" "k < length ns" using j k by auto
    show "j = k" "c = e"
      using nc eq slot[OF j, of c] slot[OF k, of e] jk old bpe_slot_inj[OF inv jk, of c e]
      by (auto split: if_splits)
  qed
qed

lemma insert_path_step:
  assumes "i < length ns"
  shows "insert_path (b # bs) i ns =
     (if child_slot (ns ! i) b = NO_CHILD then insert_path bs (length ns) (grow i b ns)
      else insert_path bs (unat (child_slot (ns ! i) b)) ns)"
  using assms by (simp add: bpe_at_def grow_def Let_def)

lemma extends_slot:
  "extends ns ms \<Longrightarrow> i < length ns \<Longrightarrow> child_slot (ns ! i) b \<noteq> NO_CHILD \<Longrightarrow>
    child_slot (ms ! i) b = child_slot (ns ! i) b"
  unfolding extends_def by blast

lemma extends_walk:
  "extends ns ms \<Longrightarrow> bpe_inv ns \<Longrightarrow> i < length ns \<Longrightarrow> walk ns i s = Some j \<Longrightarrow> walk ms i s = Some j"
proof (induction ns i s rule: walk.induct)
  case (2 ns i b bs)
  then have b: "child_slot (ns ! i) b \<noteq> NO_CHILD" by (auto split: if_splits)
  then have "unat (child_slot (ns ! i) b) < length ns" using bpe_slot_range[OF 2(3,4)] by blast
  then show ?case using 2 b extends_slot[OF 2(2,4) b] by simp
qed simp

lemma extends_walk_back:
  "extends ns ms \<Longrightarrow> bpe_inv ns \<Longrightarrow> bpe_inv ms \<Longrightarrow> i < length ns \<Longrightarrow> walk ms i s = Some j \<Longrightarrow>
    j < length ns \<Longrightarrow> walk ns i s = Some j"
proof (induction s arbitrary: i)
  case (Cons b bs)
  let ?k = "unat (child_slot (ms ! i) b)"
  have len: "length ns \<le> length ms" using Cons.prems(1) by (simp add: extends_def)
  have nz: "child_slot (ms ! i) b \<noteq> NO_CHILD" and w: "walk ms ?k bs = Some j"
    using Cons.prems(5) by (auto split: if_splits)
  have k: "?k < length ms" using bpe_slot_range[OF Cons.prems(3) _ nz] Cons.prems(4) len by simp
  have "?k \<le> j" using walk_forward[OF Cons.prems(3) k w] .
  then have kn: "?k < length ns" using Cons.prems(6) by simp
  then have same: "child_slot (ms ! i) b = child_slot (ns ! i) b"
    using Cons.prems(1,4) unfolding extends_def by force
  have "walk ns ?k bs = Some j" using Cons.IH Cons.prems(1-3,6) kn w by blast
  then show ?case using same nz by simp
qed simp

lemma insert_path_spec:
  assumes "bpe_inv ns" and "i < length ns" and "length ns + length s < 2 ^ 32"
  shows "\<exists>j ms. insert_path s i ns = Some (j, ms) \<and> bpe_inv ms \<and> extends ns ms \<and> j < length ms
    \<and> walk ms i s = Some j \<and> length ms \<le> length ns + length s"
  using assms
proof (induction s arbitrary: i ns)
  case (Cons b bs)
  show ?case
  proof (cases "child_slot (ns ! i) b = NO_CHILD")
    case True
    have n: "length ns < 2 ^ 32" using Cons.prems(3) by simp
    let ?g = "grow i b ns"
    note g = grow_extends[OF Cons.prems(1,2) True n]
    have len: "length ?g = Suc (length ns)" by (rule grow_nth(1)[OF Cons.prems(2)])
    obtain j ms where ms: "insert_path bs (length ns) ?g = Some (j, ms)" "bpe_inv ms" "extends ?g ms"
        "j < length ms" "walk ms (length ns) bs = Some j" "length ms \<le> length ?g + length bs"
      using Cons.IH[OF g(1), of "length ns"] len Cons.prems(3) by auto
    have slot: "child_slot (?g ! i) b = word_of_nat (length ns)" using grow_nth(3)[OF Cons.prems(2)] Cons.prems(2) by simp
    have u: "unat (word_of_nat (length ns) :: 32 word) = length ns" using n by (simp add: unat_of_nat)
    have nz: "(word_of_nat (length ns) :: 32 word) \<noteq> NO_CHILD" using u Cons.prems(2) by (auto simp: NO_CHILD_def)
    have "child_slot (ms ! i) b = word_of_nat (length ns)"
      using extends_slot[OF ms(3), of i b] slot nz len Cons.prems(2) by simp
    then have "walk ms i (b # bs) = Some j" using u nz ms(5) by simp
    moreover have "insert_path (b # bs) i ns = Some (j, ms)"
      using insert_path_step[OF Cons.prems(2)] True ms(1) by simp
    ultimately show ?thesis
      using ms extends_trans[OF g(2) ms(3)] len by auto
  next
    case False
    let ?k = "unat (child_slot (ns ! i) b)"
    have k: "?k < length ns" using bpe_slot_range[OF Cons.prems(1,2) False] by blast
    obtain j ms where ms: "insert_path bs ?k ns = Some (j, ms)" "bpe_inv ms" "extends ns ms"
        "j < length ms" "walk ms ?k bs = Some j" "length ms \<le> length ns + length bs"
      using Cons.IH[OF Cons.prems(1) k] Cons.prems(3) by auto
    have "walk ms i (b # bs) = Some j"
      using extends_slot[OF ms(3) Cons.prems(2) False] False ms(5) by simp
    moreover have "insert_path (b # bs) i ns = Some (j, ms)"
      using insert_path_step[OF Cons.prems(2)] False ms(1) by simp
    ultimately show ?thesis using ms by auto
  qed
qed (simp add: extends_refl)

lemma set_token:
  fixes i :: "16 word"
  assumes "j < length ms"
  defines "ls \<equiv> ms[j := (ms ! j)\<lparr>token_id := i\<rparr>]"
  shows "length ls = length ms" "child_slot (ls ! k) = child_slot (ms ! k)"
    "k < length ms \<Longrightarrow> token_id (ls ! k) = (if k = j then i else token_id (ms ! k))"
    "walk ls k t = walk ms k t" "bpe_inv ls = bpe_inv ms"
proof -
  show len: "length ls = length ms" by (simp add: ls_def)
  show slot: "child_slot (ls ! k) = child_slot (ms ! k)" for k
    using assms(1) by (cases "k = j") (auto simp: ls_def)
  show "k < length ms \<Longrightarrow> token_id (ls ! k) = (if k = j then i else token_id (ms ! k))"
    by (simp add: ls_def)
  show "walk ls k t = walk ms k t" for k by (induction t arbitrary: k) (simp_all add: slot)
  show "bpe_inv ls = bpe_inv ms" using len by (auto simp: bpe_inv_def slot)
qed

lemma add_merge_spec:
  assumes inv: "bpe_inv ns" and n: "length ns + length s < 2 ^ 32" and s: "s \<noteq> []" and i: "i \<noteq> NO_TOKEN"
  shows "\<exists>ls. add_merge s i ns = Some ls \<and> bpe_inv ls \<and> length ls \<le> length ns + length s
    \<and> bpe_lookup ls = (bpe_lookup ns)(s \<mapsto> i)"
proof -
  have z: "0 < length ns" using inv by (simp add: bpe_inv_def)
  obtain j ms where ms: "insert_path s 0 ns = Some (j, ms)" "bpe_inv ms" "extends ns ms" "j < length ms"
      "walk ms 0 s = Some j" "length ms \<le> length ns + length s"
    using insert_path_spec[OF inv z n] by blast
  let ?ls = "ms[j := (ms ! j)\<lparr>token_id := i\<rparr>]"
  have run: "add_merge s i ns = Some ?ls" using ms(1,4) s i by (simp add: add_merge_def bpe_at_def)
  note st = set_token[OF ms(4), where i = i]
  have "bpe_lookup ?ls t = ((bpe_lookup ns)(s \<mapsto> i)) t" for t
  proof (cases "t = s")
    case True
    then show ?thesis using ms(4,5) st i by (simp add: bpe_lookup_def)
  next
    case False
    show ?thesis
    proof (cases "walk ms 0 t")
      case None
      then have "walk ns 0 t = None" using extends_walk[OF ms(3) inv z, of t] by (cases "walk ns 0 t") auto
      then show ?thesis using False None st(4) by (simp add: bpe_lookup_def)
    next
      case (Some k)
      have "0 < length ms" using z ms(3) by (auto simp: extends_def)
      then have k: "k < length ms" using walk_range[OF ms(2) _ Some] by blast
      have kj: "k \<noteq> j" using walk_inj[OF ms(2) Some] ms(5) False by blast
      have tok: "bpe_lookup ?ls t = (if token_id (ms ! k) = NO_TOKEN then None else Some (token_id (ms ! k)))"
        using Some st k kj by (simp add: bpe_lookup_def)
      show ?thesis
      proof (cases "k < length ns")
        case True
        then have "walk ns 0 t = Some k" using extends_walk_back[OF ms(3) inv ms(2) z Some] by simp
        moreover have "token_id (ms ! k) = token_id (ns ! k)" using ms(3) True by (simp add: extends_def)
        ultimately show ?thesis using tok False by (simp add: bpe_lookup_def)
      next
        case new: False
        then have "token_id (ms ! k) = NO_TOKEN" using ms(3) k by (simp add: extends_def)
        moreover have "walk ns 0 t = None"
        proof (rule ccontr)
          assume "walk ns 0 t \<noteq> None"
          then obtain m where m: "walk ns 0 t = Some m" by blast
          then have "m = k" using extends_walk[OF ms(3) inv z m] Some by simp
          then show False using walk_range[OF inv z m] new by simp
        qed
        ultimately show ?thesis using tok False by (simp add: bpe_lookup_def)
      qed
    qed
  qed
  then show ?thesis using run ms(2,6) st(1,5) by (auto simp: fun_eq_iff)
qed

section \<open>Encoding\<close>

text \<open>The greedy tokenizer over a vocabulary: at each position the longest registered prefix, or the
  byte itself.\<close>

definition matches_in :: "(byte list \<Rightarrow> 16 word option) \<Rightarrow> byte list \<Rightarrow> nat list" where
  "matches_in V input = filter (\<lambda>m. V (take m input) \<noteq> None) [1..<Suc (length input)]"

definition longest :: "(byte list \<Rightarrow> 16 word option) \<Rightarrow> byte list \<Rightarrow> 16 word \<times> nat" where
  "longest V input =
     (if matches_in V input = [] then (ucast (hd input), 1)
      else (let m = last (matches_in V input) in (the (V (take m input)), m)))"

lemma longest_length: "input \<noteq> [] \<Longrightarrow> 0 < snd (longest V input) \<and> snd (longest V input) \<le> length input"
proof -
  have "last (matches_in V input) \<in> set (matches_in V input)" if "matches_in V input \<noteq> []"
    using that by (rule last_in_set)
  then show "input \<noteq> [] \<Longrightarrow> ?thesis"
    by (auto simp: longest_def Let_def matches_in_def Suc_le_eq)
qed

function encode_spec :: "(byte list \<Rightarrow> 16 word option) \<Rightarrow> byte list \<Rightarrow> 16 word list" where
  "encode_spec V input =
     (if input = [] then []
      else fst (longest V input) # encode_spec V (drop (snd (longest V input)) input))"
  by auto
termination
  by (relation "measure (\<lambda>(V, input). length input)") (use longest_length in \<open>auto simp: diff_less\<close>)

declare encode_spec.simps [simp del]

text \<open>The loop has seen the prefixes up to \<open>offset\<close> and keeps the last that is registered.\<close>

definition best_upto :: "(byte list \<Rightarrow> 16 word option) \<Rightarrow> byte list \<Rightarrow> nat \<Rightarrow> 16 word \<times> nat" where
  "best_upto V input k =
     (let ms = filter (\<lambda>m. V (take m input) \<noteq> None) [1..<Suc k]
      in if ms = [] then (ucast (hd input), 1) else (the (V (take (last ms) input)), last ms))"

lemma best_upto_Suc:
  "best_upto V input (Suc k) =
     (case V (take (Suc k) input) of Some t \<Rightarrow> (t, Suc k) | None \<Rightarrow> best_upto V input k)"
  by (auto simp: best_upto_def Let_def split: option.split)

lemma best_upto_stable:
  assumes "\<And>m. k < m \<Longrightarrow> m \<le> n \<Longrightarrow> V (take m input) = None" and "k \<le> n"
  shows "best_upto V input n = best_upto V input k"
  using assms(2,1)
proof (induction n rule: dec_induct)
  case (step n)
  have "V (take (Suc n) input) = None" using step.hyps step.prems by simp
  then show ?case using step.IH step.prems by (simp add: best_upto_Suc)
qed simp

lemma bpe_lookup_dead:
  assumes "walk ns 0 (take k s) = Some i" and "k < length s" and "child_slot (ns ! i) (s ! k) = NO_CHILD"
    and "k < m"
  shows "bpe_lookup ns (take m s) = None"
proof -
  have "take m s = take k s @ s ! k # drop (Suc k) (take m s)"
    using assms(2,4) by (metis Cons_nth_drop_Suc append_take_drop_id length_take less_or_eq_imp_le min_less_iff_conj nth_take take_take min.absorb1)
  then have "walk ns 0 (take m s) = None"
    using assms(1,3) by (metis bind.bind_lunit walk.simps(2) walk_append)
  then show ?thesis by (simp add: bpe_lookup_def)
qed

lemma best_loop_spec:
  assumes inv: "bpe_inv ns" and "walk ns 0 (take k input) = Some i" and "k \<le> length input"
  shows "best_loop ns i k (best_upto (bpe_lookup ns) input k) (drop k input) =
    Some (best_upto (bpe_lookup ns) input (length input))"
  using assms(2,3)
proof (induction "length input - k" arbitrary: i k)
  case 0
  then show ?case by simp
next
  case (Suc d)
  have k: "k < length input" using Suc.hyps(2) by simp
  then have dr: "drop k input = input ! k # drop (Suc k) input" by (simp add: Cons_nth_drop_Suc)
  have z: "0 < length ns" using inv by (simp add: bpe_inv_def)
  have i: "i < length ns" using walk_range[OF inv z Suc.prems(1)] .
  let ?c = "child_slot (ns ! i) (input ! k)"
  show ?case
  proof (cases "?c = NO_CHILD")
    case True
    have "best_upto (bpe_lookup ns) input (length input) = best_upto (bpe_lookup ns) input k"
      by (rule best_upto_stable) (use bpe_lookup_dead[OF Suc.prems(1) k True] k in auto)
    then show ?thesis using dr i True by (simp add: bpe_at_def)
  next
    case False
    have c: "unat ?c < length ns" using bpe_slot_range[OF inv i False] by blast
    have w: "walk ns 0 (take (Suc k) input) = Some (unat ?c)"
      using Suc.prems(1) False k by (simp add: take_Suc_conv_app_nth walk_append)
    have "(if token_id (ns ! unat ?c) \<noteq> NO_TOKEN then (token_id (ns ! unat ?c), k + 1)
        else best_upto (bpe_lookup ns) input k) = best_upto (bpe_lookup ns) input (Suc k)"
      by (simp add: best_upto_Suc bpe_lookup_def w)
    then show ?thesis
      using Suc.hyps(1)[OF _ w] Suc.hyps(2) k dr i c False by (simp add: bpe_at_def Let_def)
  qed
qed

lemma encode_is_spec:
  assumes inv: "bpe_inv ns" shows "bpe_encode ns input = Some (encode_spec (bpe_lookup ns) input)"
proof (induction input rule: length_induct)
  case (1 input)
  show ?case
  proof (cases input)
    case Nil
    then show ?thesis by (simp add: encode_spec.simps)
  next
    case (Cons b bs)
    have "best_loop ns 0 0 (ucast b, 1) input = Some (best_upto (bpe_lookup ns) input (length input))"
      using best_loop_spec[OF inv, of 0 input 0] Cons by (simp add: best_upto_def)
    moreover have l: "best_upto (bpe_lookup ns) input (length input) = longest (bpe_lookup ns) input"
      by (simp add: best_upto_def longest_def matches_in_def Let_def)
    moreover have "bpe_encode ns (drop (snd (longest (bpe_lookup ns) input)) input) =
        Some (encode_spec (bpe_lookup ns) (drop (snd (longest (bpe_lookup ns) input)) input))"
      using 1 longest_length[of input "bpe_lookup ns"] Cons by (metis diff_less length_drop length_greater_0_conv list.distinct(1))
    ultimately show ?thesis
      using Cons by (simp add: encode_spec.simps[of _ "b # bs"] case_prod_beta del: best_loop.simps)
  qed
qed

section \<open>Vocabularies\<close>

definition registered :: "(byte list \<times> 16 word) list \<Rightarrow> (byte list \<times> 16 word) list" where
  "registered ms = filter (\<lambda>(s, i). s \<noteq> [] \<and> i \<noteq> NO_TOKEN) ms"

definition vocabulary :: "(byte list \<times> 16 word) list \<Rightarrow> byte list \<Rightarrow> 16 word option" where
  "vocabulary ms = map_of (rev (registered ms))"

lemma add_merges_spec:
  assumes "bpe_inv ns" and "length ns + sum_list (map (length \<circ> fst) ms) < 2 ^ 32"
  shows "\<exists>ls. add_merges ms ns = Some ls \<and> bpe_inv ls \<and> bpe_lookup ls = bpe_lookup ns ++ vocabulary ms"
  using assms
proof (induction ms arbitrary: ns)
  case (Cons m ms)
  obtain s i where m: "m = (s, i)" by (cases m)
  have n: "length ns + length s < 2 ^ 32" using Cons.prems(2) m by simp
  obtain ls where ls: "add_merge s i ns = Some ls" "bpe_inv ls" "length ls \<le> length ns + length s"
      "bpe_lookup ls = (if s = [] \<or> i = NO_TOKEN then bpe_lookup ns else (bpe_lookup ns)(s \<mapsto> i))"
  proof (cases "s = [] \<or> i = NO_TOKEN")
    case True
    then show ?thesis using that[of ns] Cons.prems(1) by (simp add: add_merge_def)
  next
    case False
    then show ?thesis using that add_merge_spec[OF Cons.prems(1) n] by auto
  qed
  obtain ks where "add_merges ms ls = Some ks" "bpe_inv ks" "bpe_lookup ks = bpe_lookup ls ++ vocabulary ms"
    using Cons.IH[OF ls(2)] ls(3) Cons.prems(2) m by auto
  moreover have "bpe_lookup ls ++ vocabulary ms = bpe_lookup ns ++ vocabulary (m # ms)"
    using ls(4) m by (simp add: vocabulary_def registered_def)
  ultimately show ?case using ls(1) m by auto
qed (simp add: vocabulary_def registered_def)

lemma new_lookup_Nil: "bpe_lookup bpe_new s = None"
  by (cases s) (simp_all add: bpe_lookup_def bpe_new_def bpe_node_new_def)

text \<open>C15: A tokenizer built by registering any list of merges never indexes out of its trie and encodes
  every input as the greedy longest-match tokenizer over the registered vocabulary does, the last
  registration of a sequence counting and empty sequences and the id 0 being ignored.\<close>

theorem bpe_longest_match:
  assumes "sum_list (map (length \<circ> fst) ms) < 2 ^ 32 - 1"
  shows "\<exists>ns. add_merges ms bpe_new = Some ns
    \<and> (\<forall>input. bpe_encode ns input = Some (encode_spec (vocabulary ms) input))"
proof -
  have "bpe_lookup bpe_new = Map.empty" using new_lookup_Nil by auto
  then show ?thesis
    using add_merges_spec[OF bpe_inv_new, of ms] assms encode_is_spec
    by (auto simp: bpe_new_def)
qed

theorem bpe_longest_match_witness:
  "\<exists>ns. add_merges [([1, 2], 300), ([1, 2, 3], 301)] bpe_new = Some ns
    \<and> (\<forall>input. bpe_encode ns input = Some (encode_spec (vocabulary [([1, 2], 300), ([1, 2, 3], 301)]) input))"
  by (rule bpe_longest_match) simp

text \<open>What a token stands for.\<close>

definition expand_token :: "(byte list \<times> 16 word) list \<Rightarrow> 16 word \<Rightarrow> byte list" where
  "expand_token ms t =
     (case map_of (map (\<lambda>(s, i). (i, s)) ms) t of Some s \<Rightarrow> s | None \<Rightarrow> [ucast t])"

lemma expand_registered:
  assumes "distinct (map snd ms)" and "vocabulary ms s = Some t"
  shows "expand_token ms t = s"
proof -
  have "(s, t) \<in> set ms" using map_of_SomeD[OF assms(2)[unfolded vocabulary_def]] by (auto simp: registered_def)
  then have "map_of (map (\<lambda>(s, i). (i, s)) ms) t = Some s"
    using assms(1) by (intro map_of_is_SomeI) (force simp: comp_def case_prod_beta)+
  then show ?thesis by (simp add: expand_token_def)
qed

lemma expand_raw:
  assumes "\<forall>m \<in> set ms. 256 \<le> snd m" shows "expand_token ms (ucast (b :: byte)) = [b]"
proof -
  have "unat b < 256" using unsigned_less[of b, where 'a = nat] by simp
  moreover have "unat (ucast b :: 16 word) \<le> unat b" by (simp add: unsigned_ucast_eq take_bit_nat_less_eq_self)
  ultimately have "unat (ucast b :: 16 word) < 256" by (rule le_less_trans[rotated])
  then have "(ucast b :: 16 word) < 256" by (simp add: word_less_nat_alt)
  then have "map_of (map (\<lambda>(s, i). (i, s)) ms) (ucast b) = None"
    using assms by (fastforce simp: map_of_eq_None_iff)
  then show ?thesis by (simp add: expand_token_def ucast_up_ucast_id is_up)
qed

lemma longest_expand:
  assumes "distinct (map snd ms)" and "\<forall>m \<in> set ms. 256 \<le> snd m" and "input \<noteq> []"
  shows "expand_token ms (fst (longest (vocabulary ms) input)) = take (snd (longest (vocabulary ms) input)) input"
proof (cases "matches_in (vocabulary ms) input = []")
  case True
  then show ?thesis using assms(2,3) expand_raw by (cases input) (simp_all add: longest_def)
next
  case False
  let ?m = "last (matches_in (vocabulary ms) input)"
  have "?m \<in> set (matches_in (vocabulary ms) input)" using False by (rule last_in_set)
  then obtain t where "vocabulary ms (take ?m input) = Some t" by (auto simp: matches_in_def)
  then show ?thesis using False expand_registered[OF assms(1)] by (simp add: longest_def Let_def)
qed

lemma encode_spec_lossless:
  assumes "distinct (map snd ms)" and "\<forall>m \<in> set ms. 256 \<le> snd m"
  shows "concat (map (expand_token ms) (encode_spec (vocabulary ms) input)) = input"
proof (induction input rule: length_induct)
  case (1 input)
  show ?case
  proof (cases "input = []")
    case False
    have "length (drop (snd (longest (vocabulary ms) input)) input) < length input"
      using longest_length[OF False, of "vocabulary ms"] False by (simp add: diff_less)
    then show ?thesis
      using 1 longest_expand[OF assms False] False by (subst encode_spec.simps) simp
  qed (simp add: encode_spec.simps)
qed

text \<open>Encoding loses nothing: when every merge has an id of its own and no id is a byte, replacing
  each token by what it stands for gives back the input.\<close>

theorem bpe_lossless:
  assumes "sum_list (map (length \<circ> fst) ms) < 2 ^ 32 - 1"
    and "distinct (map snd ms)" and "\<forall>m \<in> set ms. 256 \<le> snd m"
  shows "\<exists>ns tokens. add_merges ms bpe_new = Some ns \<and> bpe_encode ns input = Some tokens
    \<and> concat (map (expand_token ms) tokens) = input"
proof -
  have "bpe_lookup bpe_new = Map.empty" using new_lookup_Nil by auto
  then show ?thesis
    using add_merges_spec[OF bpe_inv_new, of ms] assms encode_is_spec encode_spec_lossless[OF assms(2,3), of input]
    by (fastforce simp: bpe_new_def)
qed

theorem bpe_lossless_witness:
  "\<exists>ns tokens. add_merges [([1, 2], 300), ([1, 2, 3], 301)] bpe_new = Some ns
    \<and> bpe_encode ns [1, 2, 3, 1, 2, 4] = Some tokens
    \<and> concat (map (expand_token [([1, 2], 300), ([1, 2, 3], 301)]) tokens) = [1, 2, 3, 1, 2, 4]"
  by (rule bpe_lossless) simp_all

end
