(* ===== verification/Engine_Origin.thy ===== *)
theory Engine_Origin
  imports Net_Cookie
begin

text \<open>
  Origins and storage partitions of the engine (\<open>crates/silksurf-engine/src/sandbox.rs\<close> and
  \<open>privacy.rs\<close>), and their agreement with the cookie jar's sites and keys.
\<close>

section \<open>Origins\<close>

datatype origin = OriginTuple string string "u16 option" | Opaque

definition origin_host_port :: "string \<Rightarrow> string" where
  "origin_host_port rest =
     (let authority = takeWhile (\<lambda>c. c \<notin> set ''/?#'') rest
      in case rsplit_once (CHR ''@'') authority of Some (_, h) \<Rightarrow> h | None \<Rightarrow> authority)"

definition origin_parse :: "string \<Rightarrow> origin" where
  "origin_parse given =
     (let origin = trim given
      in if origin = [] \<or> eq_ignore_ascii_case origin ''null'' then Opaque
         else case split_once_str ''://'' origin of
           None \<Rightarrow> Opaque
         | Some (scheme, rest) \<Rightarrow>
             if scheme = [] then Opaque
             else
               (let host_port = origin_host_port rest;
                    (host, port) = (case rsplit_once (CHR '':'') host_port of
                       Some (host, port_text) \<Rightarrow> (host, parse_u16 port_text)
                     | None \<Rightarrow> (host_port, None))
                in if host = [] then Opaque
                   else OriginTuple (to_ascii_lowercase scheme) (to_ascii_lowercase host) port))"

fun origin_serialize :: "origin \<Rightarrow> string" where
  "origin_serialize Opaque = ''null''"
| "origin_serialize (OriginTuple scheme host port) =
     (case port of
        Some p \<Rightarrow> scheme @ ''://'' @ host @ '':'' @ show_nat (unat p)
      | None \<Rightarrow> scheme @ ''://'' @ host)"

fun is_tuple :: "origin \<Rightarrow> bool" where
  "is_tuple (OriginTuple _ _ _) = True"
| "is_tuple Opaque = False"

definition same_origin :: "origin \<Rightarrow> origin \<Rightarrow> bool" where
  "same_origin a b \<longleftrightarrow> (is_tuple a \<and> is_tuple b) \<and> a = b"

fun origin_site :: "public_suffix_list \<Rightarrow> origin \<Rightarrow> string" where
  "origin_site psl Opaque = ''null''"
| "origin_site psl (OriginTuple scheme host port) =
     (let site_host = (case registrable_domain psl host of Some d \<Rightarrow> d | None \<Rightarrow> host)
      in scheme @ ''://'' @ site_host)"

definition origin_same_site :: "public_suffix_list \<Rightarrow> origin \<Rightarrow> origin \<Rightarrow> bool" where
  "origin_same_site psl a b \<longleftrightarrow> (is_tuple a \<and> is_tuple b) \<and> origin_site psl a = origin_site psl b"

section \<open>Storage partitions\<close>

definition origin_partition_key :: "public_suffix_list \<Rightarrow> string \<Rightarrow> string \<Rightarrow> string" where
  "origin_partition_key psl top_level_origin resource_origin =
     (let top_site = origin_site psl (origin_parse top_level_origin);
          resource = origin_site psl (origin_parse resource_origin)
      in resource @ ''^'' @ top_site)"

record storage_partition =
  sp_key :: string

definition for_context :: "public_suffix_list \<Rightarrow> string \<Rightarrow> string \<Rightarrow> storage_partition" where
  "for_context psl top_level_origin resource_origin =
     \<lparr>sp_key = origin_partition_key psl top_level_origin resource_origin\<rparr>"

definition from_key :: "string \<Rightarrow> storage_partition" where
  "from_key key = \<lparr>sp_key = key\<rparr>"

text \<open>
  Origins: serialising and parsing, same origin and same site, and the agreement of the two
  derivations of sites and partition keys.
\<close>

section \<open>Text without white space\<close>

definition graphic :: "char \<Rightarrow> bool" where
  "graphic c \<longleftrightarrow> 33 \<le> byte_of c \<and> byte_of c \<le> 126"

lemma ws_len_graphic: "graphic c \<Longrightarrow> ws_len (c # s) = 0"
  by (cases s rule: list.exhaust [case_product list.exhaust [of "tl s"]])
    (auto simp: ws_len_def graphic_def take_Cons' split: if_splits)

lemma trim_start_graphic: "s \<noteq> [] \<Longrightarrow> graphic (hd s) \<Longrightarrow> trim_start s = s"
  by (cases s) (simp, subst trim_start.simps, simp add: ws_len_graphic)

lemma ws_end_len_graphic:
  assumes "graphic c" shows "ws_end_len (s @ [c]) = 0"
proof -
  have c: "\<not> ws_bytes [byte_of c]" "\<And>a. \<not> ws_bytes [a, byte_of c]" "\<And>a b. \<not> ws_bytes [a, b, byte_of c]"
    using assms by (auto simp: graphic_def)
  show ?thesis
  proof (cases s rule: rev_cases)
    case (snoc t b)
    show ?thesis
      unfolding snoc using c by (cases t rule: rev_cases) (simp_all add: ws_end_len_def Suc_diff_le)
  qed (use c in \<open>simp add: ws_end_len_def\<close>)
qed

lemma trim_end_graphic: "s \<noteq> [] \<Longrightarrow> graphic (last s) \<Longrightarrow> trim_end s = s"
  using ws_end_len_graphic [of "last s" "butlast s"] by (simp add: trim_end.simps [of s])

lemma trim_graphic: "s \<noteq> [] \<Longrightarrow> graphic (hd s) \<Longrightarrow> graphic (last s) \<Longrightarrow> trim s = s"
  by (simp add: trim_def trim_start_graphic trim_end_graphic)

section \<open>Splitting\<close>

lemma split_once_str_at:
  "p \<noteq> [] \<Longrightarrow> hd p \<notin> set a \<Longrightarrow> split_once_str p (a @ p @ b) = Some (a, b)"
proof (induction a)
  case Nil
  then show ?case by (cases p) (simp_all add: starts_with_def)
next
  case (Cons c a)
  then have "\<not> starts_with p (c # a @ p @ b)"
    by (cases p) (auto simp: starts_with_def)
  with Cons show ?case by simp
qed

lemma rsplit_once_None: "rsplit_once d s = None \<longleftrightarrow> d \<notin> set s"
  by (simp add: rsplit_once_def split_once_None)

lemma rsplit_once_at: "d \<notin> set b \<Longrightarrow> rsplit_once d (a @ d # b) = Some (a, b)"
proof -
  assume "d \<notin> set b"
  then have "split_once d (rev (a @ d # b)) = Some (rev b, rev a)"
    unfolding split_once_Some by simp
  then show ?thesis by (simp add: rsplit_once_def)
qed

section \<open>Serialising and parsing\<close>

definition origin_char :: "char \<Rightarrow> bool" where
  "origin_char c \<longleftrightarrow> graphic c \<and> \<not> ascii_upper c \<and> c \<notin> set ''/?#@:''"

fun origin_wf :: "origin \<Rightarrow> bool" where
  "origin_wf Opaque = True"
| "origin_wf (OriginTuple scheme host port) \<longleftrightarrow>
     scheme \<noteq> [] \<and> host \<noteq> [] \<and> list_all origin_char scheme \<and> list_all origin_char host"

lemma lower_origin_chars: "list_all origin_char s \<Longrightarrow> to_ascii_lowercase s = s"
  by (induction s) (auto simp: to_ascii_lowercase_def origin_char_def lower_char_def)

lemma digit_origin_char: "ascii_digit c \<Longrightarrow> origin_char c"
  by (auto simp: ascii_digit_def origin_char_def graphic_def ascii_upper_def)

lemma origin_chars_delimiters:
  "list_all origin_char s \<Longrightarrow> CHR ''/'' \<notin> set s \<and> CHR ''?'' \<notin> set s \<and> CHR ''#'' \<notin> set s \<and>
     CHR ''@'' \<notin> set s \<and> CHR '':'' \<notin> set s"
  by (auto simp: list_all_iff origin_char_def)

lemma origin_chars_ends:
  "list_all origin_char s \<Longrightarrow> s \<noteq> [] \<Longrightarrow> graphic (hd s) \<and> graphic (last s)"
  by (auto simp: list_all_iff origin_char_def)

lemma origin_host_port_plain:
  assumes "CHR ''/'' \<notin> set s" "CHR ''?'' \<notin> set s" "CHR ''#'' \<notin> set s" "CHR ''@'' \<notin> set s"
  shows "origin_host_port s = s"
proof -
  have "takeWhile (\<lambda>c. c \<notin> set ''/?#'') s = s" using assms by (auto simp: takeWhile_eq_all_conv)
  moreover have "rsplit_once (CHR ''@'') s = None" using assms(4) by (simp add: rsplit_once_None)
  ultimately show ?thesis by (simp only: origin_host_port_def Let_def option.case)
qed

lemma origin_parse_parts:
  assumes s: "list_all origin_char scheme" "scheme \<noteq> []"
    and hp: "hp \<noteq> []" "graphic (last hp)" "origin_host_port hp = hp"
  shows "origin_parse (scheme @ ''://'' @ hp) =
    (let (host, port) = (case rsplit_once (CHR '':'') hp of
           Some (host, port_text) \<Rightarrow> (host, parse_u16 port_text) | None \<Rightarrow> (hp, None))
     in if host = [] then Opaque else OriginTuple (to_ascii_lowercase scheme) (to_ascii_lowercase host) port)"
proof -
  let ?o = "scheme @ ''://'' @ hp"
  have t: "trim ?o = ?o"
    using origin_chars_ends [OF s] s hp by (intro trim_graphic) auto
  have n: "\<not> eq_ignore_ascii_case ?o ''null''"
  proof
    assume "eq_ignore_ascii_case ?o ''null''"
    then have "to_ascii_lowercase ?o = to_ascii_lowercase ''null''"
      by (simp only: eq_ignore_ascii_case_def)
    moreover have "lower_char (CHR '':'') \<in> set (to_ascii_lowercase ?o)"
      by (simp add: to_ascii_lowercase_def)
    moreover have "lower_char (CHR '':'') \<notin> set (to_ascii_lowercase ''null'')" by code_simp
    ultimately have False by simp
    then show False by simp
  qed
  have "split_once_str ''://'' ?o = Some (scheme, hp)"
    using origin_chars_delimiters [OF s(1)] by (intro split_once_str_at) simp_all
  then show ?thesis
    unfolding origin_parse_def Let_def t using n s(2) by (simp add: hp(3) split: option.split)
qed

text \<open>An origin whose scheme and host are lower-case visible ASCII without the delimiters of an origin
is what its serialisation parses to.\<close>

theorem origin_parse_serialize:
  assumes "origin_wf org"
  shows "origin_parse (origin_serialize org) = org"
proof (cases org)
  case Opaque
  have "origin_parse ''null'' = Opaque" by code_simp
  with Opaque show ?thesis by simp
next
  case (OriginTuple scheme host port)
  have wf: "scheme \<noteq> []" "host \<noteq> []" "list_all origin_char scheme" "list_all origin_char host"
    using assms OriginTuple by auto
  note h = origin_chars_delimiters [OF wf(4)] origin_chars_ends [OF wf(4,2)]
  show ?thesis
  proof (cases port)
    case None
    have "origin_host_port host = host" using h by (intro origin_host_port_plain) auto
    then show ?thesis
      using origin_parse_parts [OF wf(3,1,2)] h wf None OriginTuple
      by (simp add: rsplit_once_None [THEN iffD2] lower_origin_chars)
  next
    case (Some p)
    let ?d = "show_nat (unat p)"
    have d: "?d \<noteq> []" "list_all origin_char ?d"
      using show_nat_digits [of "unat p"] by (auto simp: list_all_iff digit_origin_char)
    note dd = origin_chars_delimiters [OF d(2)] origin_chars_ends [OF d(2,1)]
    have hp: "origin_host_port (host @ '':'' @ ?d) = host @ '':'' @ ?d"
      using h dd by (intro origin_host_port_plain) auto
    have "rsplit_once (CHR '':'') (host @ '':'' @ ?d) = Some (host, ?d)"
      using dd rsplit_once_at [of "CHR '':''" ?d host] by simp
    then show ?thesis
      using origin_parse_parts [OF wf(3,1) _ _ hp] d dd wf Some OriginTuple
      by (simp add: lower_origin_chars parse_u16_show)
  qed
qed

lemma origin_parse_serialize_witness:
  "origin_parse (origin_serialize (OriginTuple ''https'' ''a.test'' (Some 8443))) =
     OriginTuple ''https'' ''a.test'' (Some 8443)"
  by (rule origin_parse_serialize) code_simp

section \<open>Sites\<close>

lemma parsed_host_lower: "origin_parse s = OriginTuple scheme host port \<Longrightarrow> to_ascii_lowercase host = host"
  by (auto simp: origin_parse_def Let_def split: if_splits option.splits prod.splits)

text \<open>The two derivations of a site agree: an origin that was parsed has the site the cookie jar derives
from its scheme and host, and the partition key of two origins is the jar's key of their sites.\<close>

theorem site_derivations_agree:
  "origin_site psl (origin_parse s) =
     (case origin_parse s of
        OriginTuple scheme host port \<Rightarrow> site_of_url psl scheme (Some host)
      | Opaque \<Rightarrow> site_of_url psl scheme' None) \<and>
   origin_partition_key psl t r =
     partition_key (origin_site psl (origin_parse t)) (origin_site psl (origin_parse r))"
proof -
  have "origin_site psl org \<noteq> []" for org by (cases org) (simp_all add: Let_def)
  then have "origin_partition_key psl t r =
     partition_key (origin_site psl (origin_parse t)) (origin_site psl (origin_parse r))"
    by (simp add: origin_partition_key_def partition_key_def)
  then show ?thesis
    using parsed_host_lower [of s] by (auto simp: site_of_url_def Let_def split: origin.split option.split)
qed

text \<open>Two hosts written as IPv6 addresses without a port are taken for one origin: the text after the
last colon is read as the port.\<close>

lemma ipv6_hosts_collide:
  "origin_parse ''http://[2001:db8::1]'' = origin_parse ''http://[2001:db8::2]'' \<and>
   same_origin (origin_parse ''http://[2001:db8::1]'') (origin_parse ''http://[2001:db8::2]'')"
  by code_simp

end
