(* ===== verification/Css_Variables.thy ===== *)
theory Css_Variables
  imports Css_Token
begin

text \<open>
  Custom properties and the substitution of \<open>var()\<close> (\<open>crates/silksurf-css/src/custom_properties.rs\<close>).
  The substitution recurses into the values it finds without a guard, so a result is \<open>None\<close> where
  the recursion does not end.
\<close>

section \<open>The map\<close>

type_synonym custom_property_map = "string \<rightharpoonup> css_token list"

definition cp_set :: "string \<Rightarrow> css_token list \<Rightarrow> custom_property_map \<Rightarrow> custom_property_map" where
  "cp_set name value m = m(name \<mapsto> value)"

definition cp_get :: "string \<Rightarrow> custom_property_map \<Rightarrow> css_token list option" where
  "cp_get name m = m name"

definition inherit_from :: "custom_property_map \<Rightarrow> custom_property_map \<Rightarrow> custom_property_map" where
  "inherit_from m parent = (\<lambda>name. case m name of Some v \<Rightarrow> Some v | None \<Rightarrow> parent name)"

definition is_custom_property :: "string \<Rightarrow> bool" where
  "is_custom_property name = starts_with ''--'' name"

section \<open>One reference\<close>

fun is_var :: "css_token \<Rightarrow> bool" where
  "is_var (Function name) = eq_ignore_ascii_case name ''var''"
| "is_var _ = False"

definition skip_space :: "css_token list \<Rightarrow> css_token list" where
  "skip_space ts = dropWhile (\<lambda>t. t = Whitespace) ts"

fun custom_name :: "css_token list \<Rightarrow> string option" where
  "custom_name (Ident name # _) = (if starts_with ''--'' name then Some name else None)"
| "custom_name _ = None"

text \<open>The tokens of a fallback, up to the parenthesis that closes the reference, and what follows.\<close>

fun fallback_tokens :: "nat \<Rightarrow> css_token list \<Rightarrow> css_token list \<times> css_token list" where
  "fallback_tokens depth [] = ([], [])"
| "fallback_tokens depth (t # ts) =
     (if t = ParenClose \<and> depth \<le> 1 then ([], t # ts)
      else
        (let depth = (case t of ParenOpen \<Rightarrow> depth + 1 | Function _ \<Rightarrow> depth + 1
               | ParenClose \<Rightarrow> depth - 1 | _ \<Rightarrow> depth);
             (f, rest) = fallback_tokens depth ts
         in (t # f, rest)))"

text \<open>The fallback after a comma, and the closing parenthesis.\<close>

definition fallback_of :: "css_token list \<Rightarrow> css_token list option \<times> css_token list" where
  "fallback_of ts =
     (if ts \<noteq> [] \<and> hd ts = Comma then
        (Some (fst (fallback_tokens 1 (tl ts))), snd (fallback_tokens 1 (tl ts)))
      else (None, ts))"

definition skip_close :: "css_token list \<Rightarrow> css_token list" where
  "skip_close ts = (if ts \<noteq> [] \<and> hd ts = ParenClose then tl ts else ts)"

text \<open>The reference after \<open>var(\<close>: its name and fallback, if it has them, and the tokens after it.\<close>

definition var_reference ::
    "css_token list \<Rightarrow> (string \<times> css_token list option) option \<times> css_token list" where
  "var_reference ts =
     (let ts = skip_space ts
      in case custom_name ts of
           None \<Rightarrow> (None, ts)
         | Some name \<Rightarrow>
             (let (fallback, ts) = fallback_of (skip_space (tl ts))
              in (Some (name, fallback), skip_close ts)))"

text \<open>The tokens that a reference stands for, before they are substituted in turn.\<close>

definition reference_value ::
    "custom_property_map \<Rightarrow> (string \<times> css_token list option) option \<Rightarrow> css_token list option" where
  "reference_value m r =
     (case r of
        None \<Rightarrow> None
      | Some (name, fallback) \<Rightarrow> (case cp_get name m of Some v \<Rightarrow> Some v | None \<Rightarrow> fallback))"

section \<open>Substitution\<close>

partial_function (option) resolve_var_references ::
    "custom_property_map \<Rightarrow> css_token list \<Rightarrow> css_token list option" where
  "resolve_var_references m ts =
     (case ts of
        [] \<Rightarrow> Some []
      | t # rest \<Rightarrow>
          if is_var t then
            Option.bind
              (case reference_value m (fst (var_reference rest)) of
                 None \<Rightarrow> Some []
               | Some value \<Rightarrow> resolve_var_references m value)
              (\<lambda>v. Option.bind (resolve_var_references m (snd (var_reference rest)))
                 (\<lambda>r. Some (v @ r)))
          else Option.bind (resolve_var_references m rest) (\<lambda>r. Some (t # r)))"

declare resolve_var_references.simps [code]

definition resolve_single_var ::
    "css_token list \<Rightarrow> custom_property_map \<Rightarrow> (css_token list \<times> css_token list) option" where
  "resolve_single_var ts m =
     (case reference_value m (fst (var_reference ts)) of
        None \<Rightarrow> Some ([], snd (var_reference ts))
      | Some value \<Rightarrow> map_option (\<lambda>v. (v, snd (var_reference ts))) (resolve_var_references m value))"

lemma resolve_simps:
  "resolve_var_references m [] = Some []"
  "is_var t \<Longrightarrow> resolve_var_references m (t # rest) =
     Option.bind (resolve_single_var rest m)
       (\<lambda>(v, r). map_option ((@) v) (resolve_var_references m r))"
  "\<not> is_var t \<Longrightarrow> resolve_var_references m (t # rest) =
     map_option ((#) t) (resolve_var_references m rest)"
  by (simp_all add: resolve_var_references.simps [of m "_ # _"] resolve_var_references.simps [of m "[]"]
      resolve_single_var_def map_option_case split: option.split bind_split)

section \<open>When the substitution ends\<close>

lemma length_skip_space: "length (skip_space ts) \<le> length ts"
  by (simp add: skip_space_def length_dropWhile_le)

lemma length_fallback_tokens: "length (snd (fallback_tokens n ts)) \<le> length ts"
  "length (fst (fallback_tokens n ts)) \<le> length ts"
  by (induction ts arbitrary: n) (auto simp: Let_def case_prod_beta le_SucI split: if_splits css_token.split)

lemma length_fallback_of: "length (snd (fallback_of ts)) \<le> length ts"
  "fst (fallback_of ts) = Some f \<Longrightarrow> length f \<le> length ts"
proof -
  show "length (snd (fallback_of ts)) \<le> length ts"
    using length_fallback_tokens(1) [of 1 "tl ts"] by (cases ts) (simp_all add: fallback_of_def)
  show "length f \<le> length ts" if "fst (fallback_of ts) = Some f"
    using that length_fallback_tokens(2) [of 1 "tl ts"] by (cases ts) (auto simp: fallback_of_def split: if_splits)
qed

lemma length_reference_tail: "length (skip_space (tl (skip_space ts))) \<le> length ts"
  using length_skip_space [of "tl (skip_space ts)"] length_skip_space [of ts] by simp

lemma var_reference_length: "length (snd (var_reference ts)) \<le> length ts"
proof -
  have "length (skip_close us) \<le> length us" for us by (simp add: skip_close_def)
  then have "length (skip_close (snd (fallback_of (skip_space (tl (skip_space ts)))))) \<le> length ts"
    using length_fallback_of(1) length_reference_tail le_trans by meson
  then show ?thesis
    using length_skip_space [of ts] by (simp add: var_reference_def Let_def case_prod_beta split: option.split)
qed

text \<open>The names whose values the substitution of a token list asks for and finds.\<close>

inductive looks_up :: "custom_property_map \<Rightarrow> css_token list \<Rightarrow> string \<Rightarrow> bool" for m where
  later: "\<not> is_var t \<Longrightarrow> looks_up m ts n \<Longrightarrow> looks_up m (t # ts) n"
| after: "is_var t \<Longrightarrow> looks_up m (snd (var_reference ts)) n \<Longrightarrow> looks_up m (t # ts) n"
| here: "is_var t \<Longrightarrow> fst (var_reference ts) = Some (n, f) \<Longrightarrow> m n \<noteq> None \<Longrightarrow> looks_up m (t # ts) n"
| fallback: "is_var t \<Longrightarrow> fst (var_reference ts) = Some (k, Some f) \<Longrightarrow> m k = None \<Longrightarrow> looks_up m f n \<Longrightarrow>
    looks_up m (t # ts) n"

inductive_cases looks_up_NilE: "looks_up m [] n"

inductive_simps looks_up_Cons: "looks_up m (t # ts) n"

text \<open>One property's value asks for another's.\<close>

definition refers :: "custom_property_map \<Rightarrow> (string \<times> string) set" where
  "refers m = {(p, q). \<exists>v. m p = Some v \<and> looks_up m v q}"

definition on_cycle :: "custom_property_map \<Rightarrow> string \<Rightarrow> bool" where
  "on_cycle m p \<longleftrightarrow> (p, p) \<in> (refers m)\<^sup>+"

definition leads_to_cycle :: "custom_property_map \<Rightarrow> string \<Rightarrow> bool" where
  "leads_to_cycle m p \<longleftrightarrow> (\<exists>q. (p, q) \<in> (refers m)\<^sup>* \<and> on_cycle m q)"

lemma var_reference_fallback_length:
  "fst (var_reference ts) = Some (k, Some f) \<Longrightarrow> length f \<le> length ts"
  using length_fallback_of(2) [of "skip_space (tl (skip_space ts))" f] length_reference_tail [of ts]
  by (auto simp: var_reference_def Let_def case_prod_beta split: option.splits)

lemma looks_up_dom: "looks_up m ts n \<Longrightarrow> m n \<noteq> None"
  by (induction rule: looks_up.induct) auto

lemma resolves_if_lookups_do:
  assumes "\<And>n. looks_up m ts n \<Longrightarrow> resolve_var_references m (the (m n)) \<noteq> None"
  shows "resolve_var_references m ts \<noteq> None"
  using assms
proof (induction "length ts" arbitrary: ts rule: less_induct)
  case less
  show ?case
  proof (cases ts)
    case (Cons t rest)
    show ?thesis
    proof (cases "is_var t")
      case False
      then have "resolve_var_references m rest \<noteq> None"
        using less.hyps [of rest] less.prems later Cons by simp
      with Cons False show ?thesis by (simp add: resolve_simps)
    next
      case True
      let ?r = "var_reference rest"
      have "resolve_var_references m (snd ?r) \<noteq> None"
      proof (rule less.hyps)
        show "length (snd ?r) < length ts" using Cons var_reference_length [of rest] by simp
      qed (use less.prems after True Cons in blast)
      moreover have "\<exists>v. resolve_single_var rest m = Some (v, snd ?r)"
      proof (cases "reference_value m (fst ?r)")
        case (Some val)
        then obtain k f where k: "fst ?r = Some (k, f)"
          by (auto simp: reference_value_def split: option.splits)
        have "resolve_var_references m val \<noteq> None"
        proof (cases "m k")
          case None
          with Some k have f: "fst ?r = Some (k, Some val)" by (simp add: reference_value_def cp_get_def)
          show ?thesis
          proof (rule less.hyps)
            show "length val < length ts" using var_reference_fallback_length [OF f] Cons by simp
            show "resolve_var_references m (the (m n)) \<noteq> None" if "looks_up m val n" for n
              using fallback [OF True f None that] less.prems Cons by blast
          qed
        next
          case (Some v)
          then have "looks_up m ts k" using here [OF True k] Cons by simp
          with less.prems have "resolve_var_references m (the (m k)) \<noteq> None" by blast
          with \<open>reference_value m (fst ?r) = Some val\<close> k Some show ?thesis
            by (simp add: reference_value_def cp_get_def)
        qed
        with Some show ?thesis by (auto simp: resolve_single_var_def)
      qed (simp add: resolve_single_var_def)
      ultimately show ?thesis using Cons True by (auto simp: resolve_simps)
    qed
  qed (simp add: resolve_simps)
qed

lemma leads_to_cycle_step:
  "leads_to_cycle m p \<longleftrightarrow> (\<exists>q. (p, q) \<in> refers m \<and> leads_to_cycle m q)"
proof
  assume "leads_to_cycle m p"
  then obtain q where q: "(p, q) \<in> (refers m)\<^sup>*" "(q, q) \<in> (refers m)\<^sup>+"
    by (auto simp: leads_to_cycle_def on_cycle_def)
  from q(1) show "\<exists>q. (p, q) \<in> refers m \<and> leads_to_cycle m q"
  proof (cases rule: converse_rtranclE)
    case base
    then obtain j where "(p, j) \<in> refers m" "(j, q) \<in> (refers m)\<^sup>*"
      using tranclD [OF q(2)] by blast
    with q show ?thesis unfolding leads_to_cycle_def on_cycle_def by blast
  next
    case (step j)
    with q show ?thesis unfolding leads_to_cycle_def on_cycle_def by blast
  qed
next
  assume "\<exists>q. (p, q) \<in> refers m \<and> leads_to_cycle m q"
  then show "leads_to_cycle m p"
    unfolding leads_to_cycle_def by (meson converse_rtrancl_into_rtrancl)
qed

lemma acyclic_part_wf:
  assumes "finite (dom m)"
  shows "wf {(q, p). (p, q) \<in> refers m \<and> \<not> leads_to_cycle m p}"
proof (rule finite_acyclic_wf)
  let ?R = "{(q, p). (p, q) \<in> refers m \<and> \<not> leads_to_cycle m p}"
  have "?R \<subseteq> dom m \<times> dom m" using looks_up_dom by (force simp: refers_def)
  then show "finite ?R" using assms finite_subset by blast
  have "?R \<subseteq> (refers m)\<inverse>" by auto
  then have sub: "(a, b) \<in> ?R\<^sup>+ \<Longrightarrow> (b, a) \<in> (refers m)\<^sup>+" for a b
    using trancl_mono [of "(a, b)" ?R "(refers m)\<inverse>"] by (simp add: trancl_converse)
  show "acyclic ?R"
  proof (rule acyclicI, rule allI, rule notI)
    fix p assume p: "(p, p) \<in> ?R\<^sup>+"
    then have "on_cycle m p" unfolding on_cycle_def by (rule sub)
    then have "leads_to_cycle m p" unfolding leads_to_cycle_def by blast
    moreover obtain q where "(q, p) \<in> ?R" using p by (meson tranclE)
    ultimately show False by simp
  qed
qed

lemma acyclic_value_resolves:
  assumes "finite (dom m)" "\<not> leads_to_cycle m p" "m p \<noteq> None"
  shows "resolve_var_references m (the (m p)) \<noteq> None"
  using assms(2,3)
proof (induction p rule: wf_induct_rule [OF acyclic_part_wf [OF assms(1)]])
  case (1 p)
  show ?case
  proof (rule resolves_if_lookups_do)
    fix q assume q: "looks_up m (the (m p)) q"
    then have r: "(p, q) \<in> refers m" using 1 by (auto simp: refers_def)
    moreover have "\<not> leads_to_cycle m q" using r 1 leads_to_cycle_step by blast
    ultimately show "resolve_var_references m (the (m q)) \<noteq> None"
      using 1 looks_up_dom [OF q] by blast
  qed
qed

lemma resolved_has_no_cycle:
  assumes r: "resolve_var_references m ts = Some out"
  shows "looks_up m ts n \<longrightarrow> \<not> leads_to_cycle m n"
proof (rule resolve_var_references.raw_induct
    [OF _ r, where P = "\<lambda>m ts out. \<forall>n. looks_up m ts n \<longrightarrow> \<not> leads_to_cycle m n", THEN spec])
  fix f m ts out
  assume IH: "\<And>m ts out. f m ts = Some out \<Longrightarrow> \<forall>n. looks_up m ts n \<longrightarrow> \<not> leads_to_cycle m n"
    and body: "(case ts of [] \<Rightarrow> Some []
      | t # rest \<Rightarrow>
          if is_var t then
            Option.bind
              (case reference_value m (fst (var_reference rest)) of
                 None \<Rightarrow> Some [] | Some val \<Rightarrow> f m val)
              (\<lambda>v. Option.bind (f m (snd (var_reference rest))) (\<lambda>r. Some (v @ r)))
          else Option.bind (f m rest) (\<lambda>r. Some (t # r))) = Some out"
  show "\<forall>n. looks_up m ts n \<longrightarrow> \<not> leads_to_cycle m n"
  proof (intro allI impI)
  fix n assume look: "looks_up m ts n"
  obtain t rest where ts: "ts = t # rest" using look looks_up_NilE by (cases ts) auto
  show "\<not> leads_to_cycle m n"
  proof (cases "is_var t")
    case False
    then show ?thesis
      using body IH look ts by (fastforce simp: looks_up_Cons bind_eq_Some_conv)
  next
    case True
    obtain v r where v: "(case reference_value m (fst (var_reference rest)) of None \<Rightarrow> Some []
        | Some val \<Rightarrow> f m val) = Some v" and r: "f m (snd (var_reference rest)) = Some r"
      using body True ts by (auto simp: bind_eq_Some_conv)
    from look [unfolded ts looks_up_Cons] True consider
        "looks_up m (snd (var_reference rest)) n"
      | g where "fst (var_reference rest) = Some (n, g)" "m n \<noteq> None"
      | k g where "fst (var_reference rest) = Some (k, Some g)" "m k = None" "looks_up m g n"
      by blast
    then show ?thesis
    proof cases
      case 1 then show ?thesis using IH r by blast
    next
      case 2
      then obtain val where val: "m n = Some val" by auto
      then have "f m val = Some v" using v 2 by (simp add: reference_value_def cp_get_def)
      then have "\<not> leads_to_cycle m q" if "looks_up m val q" for q using IH that by blast
      then show ?thesis using val by (subst leads_to_cycle_step) (auto simp: refers_def)
    next
      case 3
      then have "f m g = Some v" using v by (simp add: reference_value_def cp_get_def)
      then show ?thesis using IH 3 by blast
    qed
  qed
  qed
qed

text \<open>C38: The substitution of \<open>var()\<close> ends exactly when no property it asks for leads to a cycle of
properties that refer to each other; on a cycle it recurses without end.\<close>

theorem substitution_returns_iff_acyclic:
  assumes "finite (dom m)"
  shows "(\<exists>out. resolve_var_references m ts = Some out) \<longleftrightarrow>
    (\<forall>n. looks_up m ts n \<longrightarrow> \<not> leads_to_cycle m n)"
proof
  assume acyclic: "\<forall>n. looks_up m ts n \<longrightarrow> \<not> leads_to_cycle m n"
  have "resolve_var_references m ts \<noteq> None"
  proof (rule resolves_if_lookups_do)
    fix n assume look: "looks_up m ts n"
    show "resolve_var_references m (the (m n)) \<noteq> None"
      using acyclic look looks_up_dom [OF look] by (intro acyclic_value_resolves [OF assms]) simp_all
  qed
  then show "\<exists>out. resolve_var_references m ts = Some out" by auto
qed (use resolved_has_no_cycle in blast)

text \<open>A property that refers to itself: its substitution never returns.\<close>

lemma substitution_returns_iff_acyclic_witness:
  "resolve_var_references [''--a'' \<mapsto> [Function ''var'', Ident ''--a'', ParenClose]]
     [Function ''var'', Ident ''--a'', ParenClose] = None"
proof -
  let ?ts = "[Function ''var'', Ident ''--a'', ParenClose]"
  let ?m = "[''--a'' \<mapsto> ?ts]"
  have "is_var (Function ''var'')" "fst (var_reference (tl ?ts)) = Some (''--a'', None)"
    by (simp_all add: var_reference_def fallback_of_def skip_space_def starts_with_def)
  then have l: "looks_up ?m ?ts ''--a''" using here [of "Function ''var''" "tl ?ts" "''--a''" None ?m] by simp
  then have "(''--a'', ''--a'') \<in> refers ?m" by (auto simp: refers_def)
  then have "leads_to_cycle ?m ''--a''" by (auto simp: leads_to_cycle_def on_cycle_def)
  with l substitution_returns_iff_acyclic [of ?m ?ts] show ?thesis by auto
qed

end
