(* ===== verification/Css_Media.thy ===== *)
theory Css_Media
  imports Css_Selector
begin

text \<open>
  Media queries (\<open>crates/silksurf-css/src/media.rs\<close>). Lengths are \<open>f32\<close> values: their parser and
  comparisons are the operations of \<open>media_ops\<close>. A result is \<open>None\<close> where the code panics, on a slice
  whose start is past its end.
\<close>

section \<open>The viewport\<close>

record 'f media_ops =
  fm_parse :: "string \<Rightarrow> 'f option"
  fm_le :: "'f \<Rightarrow> 'f \<Rightarrow> bool"
  fm_lt :: "'f \<Rightarrow> 'f \<Rightarrow> bool"
  fm_near :: "'f \<Rightarrow> 'f \<Rightarrow> bool"

record 'f viewport_size =
  vp_width :: 'f
  vp_height :: 'f

section \<open>Features\<close>

definition media_type_matches :: "string \<Rightarrow> bool" where
  "media_type_matches mt =
     (to_ascii_lowercase mt \<notin> {''print'', ''speech'', ''aural'', ''tty'', ''tv'', ''projection'',
        ''handheld'', ''braille'', ''embossed''})"

definition ident_of :: "css_token \<Rightarrow> string option" where
  "ident_of t = (case t of Ident s \<Rightarrow> Some s | _ \<Rightarrow> None)"

definition px_of :: "'f media_ops \<Rightarrow> css_token \<Rightarrow> 'f option" where
  "px_of F t =
     (case t of
        Dimension v unit \<Rightarrow> if eq_ignore_ascii_case unit ''px'' then fm_parse F v else None
      | Number n \<Rightarrow> fm_parse F n
      | _ \<Rightarrow> None)"

text \<open>\<open>find_map\<close>.\<close>

fun find_map :: "('a \<Rightarrow> 'b option) \<Rightarrow> 'a list \<Rightarrow> 'b option" where
  "find_map f [] = None"
| "find_map f (x # xs) = (case f x of Some y \<Rightarrow> Some y | None \<Rightarrow> find_map f xs)"

definition none_or :: "'a option \<Rightarrow> ('a \<Rightarrow> bool) \<Rightarrow> bool" where
  "none_or v p = (case v of None \<Rightarrow> True | Some x \<Rightarrow> p x)"

definition ident_is :: "string option \<Rightarrow> string \<Rightarrow> bool" where
  "ident_is v s = (case v of Some x \<Rightarrow> eq_ignore_ascii_case x s | None \<Rightarrow> False)"

definition feature_value ::
    "'f media_ops \<Rightarrow> 'f viewport_size \<Rightarrow> string \<Rightarrow> 'f option \<Rightarrow> string option \<Rightarrow> bool" where
  "feature_value F vp feature px ident =
     (let w = vp_width vp; h = vp_height vp
      in if feature = ''max-width'' \<or> feature = ''max-device-width'' then none_or px (\<lambda>v. fm_le F w v)
         else if feature = ''min-width'' \<or> feature = ''min-device-width'' then none_or px (\<lambda>v. fm_le F v w)
         else if feature = ''max-height'' \<or> feature = ''max-device-height'' then none_or px (\<lambda>v. fm_le F h v)
         else if feature = ''min-height'' \<or> feature = ''min-device-height'' then none_or px (\<lambda>v. fm_le F v h)
         else if feature = ''width'' then none_or px (\<lambda>v. fm_near F w v)
         else if feature = ''height'' then none_or px (\<lambda>v. fm_near F h v)
         else if feature = ''orientation'' then
           (if ident_is ident ''landscape'' then fm_lt F h w
            else if ident_is ident ''portrait'' then fm_le F w h else True)
         else if feature = ''prefers-color-scheme'' then
           (if ident_is ident ''light'' \<or> ident_is ident ''no-preference'' then True
            else \<not> ident_is ident ''dark'')
         else if feature = ''prefers-reduced-motion'' then
           (if ident_is ident ''no-preference'' then True else \<not> ident_is ident ''reduce'')
         else if feature = ''prefers-contrast'' then ident_is ident ''no-preference''
         else if feature = ''color'' then True
         else if feature = ''color-gamut'' then ident_is ident ''srgb''
         else if feature = ''display-mode'' then ident_is ident ''browser''
         else True)"

definition eval_feature :: "'f media_ops \<Rightarrow> 'f viewport_size \<Rightarrow> css_token list \<Rightarrow> bool" where
  "eval_feature F vp inner =
     (let colon_pos = position (\<lambda>t. t = Colon) inner;
          name_toks = (case colon_pos of Some c \<Rightarrow> take c inner | None \<Rightarrow> inner);
          value_toks = (case colon_pos of Some c \<Rightarrow> drop (c + 1) inner | None \<Rightarrow> []);
          feature = to_ascii_lowercase
            (case find_map ident_of name_toks of Some s \<Rightarrow> s | None \<Rightarrow> [])
      in if colon_pos = None then feature \<noteq> ''monochrome''
         else feature_value F vp feature (find_map (px_of F) value_toks) (find_map ident_of value_toks))"

section \<open>Queries\<close>

text \<open>The offset of the parenthesis that closes the one the list starts with.\<close>

fun close_offset :: "nat \<Rightarrow> css_token list \<Rightarrow> nat option" where
  "close_offset depth [] = None"
| "close_offset depth (t # ts) =
     (if t = ParenClose then
        (if depth \<le> 1 then Some 0 else map_option Suc (close_offset (depth - 1) ts))
      else map_option Suc (close_offset (if opens_paren t then Suc depth else depth) ts))"

definition find_close_paren :: "css_token list \<Rightarrow> nat" where
  "find_close_paren ts = (case close_offset 0 ts of Some j \<Rightarrow> j | None \<Rightarrow> length ts - 1)"

definition keyword_is :: "string \<Rightarrow> css_token list \<Rightarrow> bool" where
  "keyword_is kw ts = (case ts of Ident s # _ \<Rightarrow> eq_ignore_ascii_case s kw | _ \<Rightarrow> False)"

definition skip_and :: "css_token list \<Rightarrow> css_token list" where
  "skip_and ts = (if keyword_is ''and'' ts then tl ts else ts)"

lemma length_skip_and: "length (skip_and ts) \<le> length ts"
  by (simp add: skip_and_def)

function media_features ::
    "'f media_ops \<Rightarrow> 'f viewport_size \<Rightarrow> bool \<Rightarrow> css_token list \<Rightarrow> bool option" where
  "media_features F vp features_ok [] = Some features_ok"
| "media_features F vp features_ok (t # ts) =
     (if t = ParenOpen then
        (let stop = find_close_paren (t # ts)
         in if stop = 0 then None
            else media_features F vp (features_ok \<and> eval_feature F vp (take (stop - 1) ts))
                   (skip_and (drop stop ts)))
      else media_features F vp features_ok ts)"
  by pat_completeness auto
termination
proof (relation "measure (\<lambda>(F, vp, b, ts). length ts)")
  fix F :: "'f media_ops" and vp b t and ts :: "css_token list" and x
  show "((F, vp, b \<and> eval_feature F vp (take (x - 1) ts), skip_and (drop x ts)), F, vp, b, t # ts)
      \<in> measure (\<lambda>(F, vp, b, ts). length ts)"
    using length_skip_and [of "drop x ts"] by simp
qed auto

text \<open>The optional \<open>not\<close> or \<open>only\<close>, and the optional media type.\<close>

definition query_prefix :: "css_token list \<Rightarrow> bool \<times> css_token list" where
  "query_prefix toks =
     (if keyword_is ''not'' toks then (True, tl toks)
      else if keyword_is ''only'' toks then (False, tl toks)
      else (False, toks))"

definition query_type :: "css_token list \<Rightarrow> bool \<times> css_token list" where
  "query_type ts =
     (case ts of
        Ident mt # r \<Rightarrow>
          if eq_ignore_ascii_case mt ''and'' then (True, ts) else (media_type_matches mt, r)
      | _ \<Rightarrow> (True, ts))"

definition eval_single :: "'f media_ops \<Rightarrow> 'f viewport_size \<Rightarrow> css_token list \<Rightarrow> bool option" where
  "eval_single F vp toks =
     (if toks = [] then Some True
      else
        (let (negated, ts) = query_prefix toks; (media_ok, ts) = query_type ts
         in map_option
              (\<lambda>features_ok. let result = media_ok \<and> features_ok in if negated then \<not> result else result)
              (media_features F vp True (skip_and ts))))"

text \<open>The comma-separated list; the last query is not evaluated once one has matched.\<close>

fun eval_list ::
    "'f media_ops \<Rightarrow> 'f viewport_size \<Rightarrow> nat \<Rightarrow> bool \<Rightarrow> css_token list \<Rightarrow> css_token list \<Rightarrow> bool option" where
  "eval_list F vp depth found current [] = (if found then Some True else eval_single F vp current)"
| "eval_list F vp depth found current (t # ts) =
     (if t = Comma \<and> depth = 0 then
        (case eval_single F vp current of
           None \<Rightarrow> None
         | Some b \<Rightarrow> eval_list F vp 0 (found \<or> b) [] ts)
      else
        eval_list F vp (if opens_paren t then Suc depth else if t = ParenClose then depth - 1 else depth)
          found (current @ [t]) ts)"

definition evaluate_media_query ::
    "'f media_ops \<Rightarrow> css_token list \<Rightarrow> 'f viewport_size \<Rightarrow> bool option" where
  "evaluate_media_query F prelude vp =
     (let toks = filter (\<lambda>t. t \<noteq> Whitespace) prelude
      in if toks = [] then Some True else eval_list F vp 0 False [] toks)"

section \<open>Balanced queries never panic\<close>

text \<open>A text whose parentheses match, and the depth it ends at.\<close>

fun paren_depth :: "nat \<Rightarrow> css_token list \<Rightarrow> nat option" where
  "paren_depth depth [] = Some depth"
| "paren_depth depth (t # ts) =
     (if t = ParenClose then (if depth = 0 then None else paren_depth (depth - 1) ts)
      else paren_depth (if opens_paren t then Suc depth else depth) ts)"

definition balanced :: "css_token list \<Rightarrow> bool" where
  "balanced ts \<longleftrightarrow> paren_depth 0 ts = Some 0"

text \<open>No comma outside parentheses.\<close>

fun no_top_comma :: "nat \<Rightarrow> css_token list \<Rightarrow> bool" where
  "no_top_comma depth [] = True"
| "no_top_comma depth (t # ts) =
     (\<not> (t = Comma \<and> depth = 0) \<and>
      no_top_comma (if opens_paren t then Suc depth else if t = ParenClose then depth - 1 else depth) ts)"

definition closes :: "css_token list \<Rightarrow> bool" where
  "closes ts \<longleftrightarrow> (\<exists>d. paren_depth d ts = Some 0)"

lemma close_offset_ex:
  "paren_depth (d + e) ts = Some k \<Longrightarrow> 1 \<le> e \<Longrightarrow> k \<le> d \<Longrightarrow>
     \<exists>j. close_offset e ts = Some j \<and> paren_depth d (drop (Suc j) ts) = Some k"
proof (induction ts arbitrary: e)
  case (Cons t ts)
  show ?case
  proof (cases "t = ParenClose")
    case True
    show ?thesis
    proof (cases "e \<le> 1")
      case False
      with True Cons.prems have "paren_depth (d + (e - 1)) ts = Some k" by auto
      moreover have "1 \<le> e - 1" using False by simp
      ultimately obtain j where j: "close_offset (e - 1) ts = Some j" "paren_depth d (drop (Suc j) ts) = Some k"
        using Cons.IH Cons.prems(3) by blast
      with True False show ?thesis by simp
    qed (use True Cons.prems in auto)
  next
    case False
    then show ?thesis
      using Cons.prems Cons.IH [of e] Cons.IH [of "Suc e"] by (auto split: if_splits)
  qed
qed simp

lemma closes_tl: "closes (t # ts) \<Longrightarrow> closes ts"
  by (auto simp: closes_def split: if_splits)

lemma closes_skip_and: "closes ts \<Longrightarrow> closes (skip_and ts)"
  using closes_tl by (cases ts) (auto simp: skip_and_def)

lemma closes_group:
  assumes "closes (ParenOpen # ts)"
  shows "find_close_paren (ParenOpen # ts) \<noteq> 0 \<and> closes (drop (find_close_paren (ParenOpen # ts)) ts)"
proof -
  obtain d where "paren_depth (d + 1) ts = Some 0" using assms by (auto simp: closes_def)
  from close_offset_ex [OF this] obtain j
    where "close_offset 1 ts = Some j" "paren_depth d (drop (Suc j) ts) = Some 0" by auto
  then show ?thesis by (auto simp: find_close_paren_def closes_def)
qed

lemma media_features_total: "closes ts \<Longrightarrow> \<exists>b. media_features F vp c ts = Some b"
proof (induction F vp c ts rule: media_features.induct)
  case (2 F vp c t ts)
  show ?case
  proof (cases "t = ParenOpen")
    case True
    then show ?thesis
      using 2 closes_group [of ts] closes_skip_and by (simp add: Let_def)
  qed (use 2 closes_tl in simp)
qed simp

lemma closes_query_parts:
  "closes ts \<Longrightarrow> closes (snd (query_prefix ts))" "closes ts \<Longrightarrow> closes (snd (query_type ts))"
proof -
  have "closes us \<Longrightarrow> closes (tl us)" for us using closes_tl by (cases us) auto
  then show "closes ts \<Longrightarrow> closes (snd (query_prefix ts))" by (simp add: query_prefix_def)
  show "closes ts \<Longrightarrow> closes (snd (query_type ts))"
    using closes_tl [of "hd ts" "tl ts"]
    by (cases ts; cases "hd ts") (simp_all add: query_type_def)
qed

lemma eval_single_total: "closes ts \<Longrightarrow> \<exists>b. eval_single F vp ts = Some b"
proof -
  assume "closes ts"
  then have "closes (skip_and (snd (query_type (snd (query_prefix ts)))))"
    by (intro closes_skip_and closes_query_parts)
  then obtain b where "media_features F vp True (skip_and (snd (query_type (snd (query_prefix ts))))) = Some b"
    using media_features_total by blast
  then show "\<exists>b. eval_single F vp ts = Some b"
    by (auto simp add: eval_single_def Let_def case_prod_beta)
qed

section \<open>Lists of queries\<close>

lemma eval_list_segment:
  "paren_depth d q = Some 0 \<Longrightarrow> no_top_comma d q \<Longrightarrow>
     eval_list F vp d found current (q @ rest) = eval_list F vp 0 found (current @ q) rest"
  by (induction q arbitrary: d current) (auto split: if_splits)

fun comma_list :: "css_token list list \<Rightarrow> css_token list" where
  "comma_list [] = []"
| "comma_list [q] = q"
| "comma_list (q # qs) = q @ Comma # comma_list qs"

definition query_ok :: "css_token list \<Rightarrow> bool" where
  "query_ok q \<longleftrightarrow> q \<noteq> [] \<and> balanced q \<and> no_top_comma 0 q \<and> Whitespace \<notin> set q"

lemma eval_list_queries:
  "qs \<noteq> [] \<Longrightarrow> list_all query_ok qs \<Longrightarrow>
     eval_list F vp 0 found [] (comma_list qs) =
       Some (found \<or> list_ex (\<lambda>q. eval_single F vp q = Some True) qs)"
proof (induction qs arbitrary: found rule: comma_list.induct)
  case (2 q)
  then have q: "paren_depth 0 q = Some 0" "no_top_comma 0 q" "closes q"
    by (auto simp: query_ok_def balanced_def closes_def)
  then show ?case
    using eval_list_segment [OF q(1,2), of F vp found "[]" "[]"] eval_single_total [OF q(3), of F vp] by auto
next
  case (3 q v qs)
  then have q: "paren_depth 0 q = Some 0" "no_top_comma 0 q" "closes q"
    by (auto simp: query_ok_def balanced_def closes_def)
  obtain b where b: "eval_single F vp q = Some b" using eval_single_total [OF q(3)] by blast
  then show ?case
    using 3 eval_list_segment [OF q(1,2), of F vp found "[]" "Comma # comma_list (v # qs)"] by auto
qed simp

text \<open>A comma-separated list of media queries with matching parentheses is evaluated without a panic
and matches exactly when one of its queries does.\<close>

theorem media_list_matches_any:
  assumes "qs \<noteq> []" "list_all query_ok qs"
  shows "evaluate_media_query F (comma_list qs) vp = Some (\<exists>q. q \<in> set qs \<and> eval_single F vp q = Some True)"
proof -
  have "Whitespace \<notin> set (comma_list qs)"
    using assms(2) by (induction qs rule: comma_list.induct) (auto simp: query_ok_def)
  then have "filter (\<lambda>t. t \<noteq> Whitespace) (comma_list qs) = comma_list qs"
    by (metis (mono_tags, lifting) filter_True)
  moreover have "comma_list qs \<noteq> []"
    using assms by (cases qs rule: comma_list.cases) (auto simp: query_ok_def)
  ultimately show ?thesis
    using eval_list_queries [OF assms, of F vp False]
    by (simp add: evaluate_media_query_def list_ex_iff Bex_def)
qed

lemma media_list_matches_any_witness:
  "\<forall>(F :: unit media_ops) vp. evaluate_media_query F [Ident ''print'', Comma, Ident ''screen''] vp = Some True"
proof (intro allI)
  fix F :: "unit media_ops" and vp
  have "list_all query_ok [[Ident ''print''], [Ident ''screen'']]"
    by (simp add: query_ok_def balanced_def)
  from media_list_matches_any [OF _ this, of F vp]
  have l: "evaluate_media_query F (comma_list [[Ident ''print''], [Ident ''screen'']]) vp =
    Some (\<exists>q. q \<in> set [[Ident ''print''], [Ident ''screen'']] \<and> eval_single F vp q = Some True)"
    by simp
  have "eval_single F vp [Ident ''screen''] = Some True"
    by (simp add: eval_single_def query_prefix_def query_type_def keyword_is_def skip_and_def
        media_type_matches_def eq_ignore_ascii_case_def to_ascii_lowercase_def lower_char_def ascii_upper_def)
  moreover have "[Ident ''screen''] \<in> set [[Ident ''print''], [Ident ''screen'']]" by simp
  ultimately have "\<exists>q. q \<in> set [[Ident ''print''], [Ident ''screen'']] \<and> eval_single F vp q = Some True"
    by blast
  with l show "evaluate_media_query F [Ident ''print'', Comma, Ident ''screen''] vp = Some True"
    by (simp only: comma_list.simps append.simps simp_thms)
qed

text \<open>An opening parenthesis at the end of the prelude makes the evaluation panic.\<close>

lemma open_paren_panics: "evaluate_media_query F [Ident ''screen'', Ident ''and'', ParenOpen] vp = None"
  by (simp add: evaluate_media_query_def eval_single_def query_prefix_def query_type_def keyword_is_def skip_and_def find_close_paren_def
      eq_ignore_ascii_case_def to_ascii_lowercase_def lower_char_def ascii_upper_def)

end
