(* ===== verification/Css_Supports.thy ===== *)
theory Css_Supports
  imports Css_Parser Css_Media
begin

text \<open>
  \<open>@supports\<close> conditions (\<open>crates/silksurf-css/src/supports.rs\<close>). The cursor is the list of the tokens
  that are left. Whether the cascade applies a declaration (\<open>engine_applies_declaration\<close>) is the
  parameter \<open>applies\<close>.
\<close>

section \<open>The cursor\<close>

definition at_end :: "css_token list \<Rightarrow> bool" where
  "at_end ts \<longleftrightarrow> list_all (\<lambda>t. t = Eof) ts"

definition skip_ignorable :: "css_token list \<Rightarrow> css_token list" where
  "skip_ignorable ts = dropWhile ignorable ts"

definition peek_keyword :: "css_token list \<Rightarrow> string option" where
  "peek_keyword ts =
     (case skip_ignorable ts of Ident name # _ \<Rightarrow> Some (to_ascii_lowercase name) | _ \<Rightarrow> None)"

text \<open>The tokens up to the matching parenthesis, and those after it.\<close>

fun take_balanced_group :: "nat \<Rightarrow> css_token list \<Rightarrow> (css_token list \<times> css_token list) option" where
  "take_balanced_group depth [] = None"
| "take_balanced_group depth (t # ts) =
     (if t = ParenClose \<and> depth \<le> 1 then Some ([], ts)
      else if t = Eof then None
      else map_option (apfst ((#) t))
        (take_balanced_group
           (if opens_paren t then Suc depth else if t = ParenClose then depth - 1 else depth) ts))"

lemma length_group:
  "take_balanced_group depth ts = Some (inner, rest) \<Longrightarrow> length inner + length rest < length ts"
  by (induction ts arbitrary: depth inner) (fastforce split: if_splits)+

text \<open>What stands in parentheses: a group to evaluate, or a function, which is not supported.\<close>

definition in_parens :: "css_token list \<Rightarrow> (css_token list option \<times> css_token list) option" where
  "in_parens ts =
     (case skip_ignorable ts of
        ParenOpen # r \<Rightarrow> map_option (apfst Some) (take_balanced_group 1 r)
      | Function _ # r \<Rightarrow> map_option (\<lambda>(_, rest). (None, rest)) (take_balanced_group 1 r)
      | _ \<Rightarrow> None)"

lemma length_skip_ignorable: "length (skip_ignorable ts) \<le> length ts"
  by (simp add: skip_ignorable_def length_dropWhile_le)

lemma in_parens_length:
  assumes "in_parens ts = Some (g, rest)"
  shows "length rest < length ts" "g = Some inner \<Longrightarrow> length inner < length ts"
proof -
  obtain t r where s: "skip_ignorable ts = t # r"
    and g: "\<exists>i. take_balanced_group 1 r = Some (i, rest) \<and> (g = Some i \<or> g = None)"
    using assms by (auto simp: in_parens_def split: list.splits css_token.splits)
  have "Suc (length r) \<le> length ts" using length_skip_ignorable [of ts] s by simp
  then show "length rest < length ts" "g = Some inner \<Longrightarrow> length inner < length ts"
    using g length_group by fastforce+
qed

lemma keyword_length: "peek_keyword ts = Some k \<Longrightarrow> length (tl (skip_ignorable ts)) < length ts"
  using length_skip_ignorable [of ts]
  by (cases "skip_ignorable ts") (auto simp: peek_keyword_def)

lemma in_parens_inner: "in_parens ts = Some (Some inner, rest) \<Longrightarrow> length inner < length ts"
  using in_parens_length(2) by blast

lemma operand_length:
  assumes "peek_keyword ts = Some k" "in_parens (tl (skip_ignorable ts)) = Some (g, rest)"
  shows "length rest < length ts"
  using keyword_length [OF assms(1)] in_parens_length(1) [OF assms(2)] by simp

lemma operand_inner_length:
  assumes "peek_keyword ts = Some k" "in_parens (tl (skip_ignorable ts)) = Some (Some inner, rest)"
  shows "length inner < length ts"
  using keyword_length [OF assms(1)] in_parens_inner [OF assms(2)] by simp

section \<open>Conditions\<close>

definition skip_spaces :: "css_token list \<Rightarrow> css_token list" where
  "skip_spaces ts = dropWhile (\<lambda>t. t = Whitespace) ts"

text \<open>A group that opens with an identifier and a colon is a declaration.\<close>

definition is_declaration :: "css_token list \<Rightarrow> bool" where
  "is_declaration inner =
     (case skip_spaces inner of
        Ident _ # r \<Rightarrow> (case skip_spaces r of Colon # _ \<Rightarrow> True | _ \<Rightarrow> False)
      | _ \<Rightarrow> False)"

text \<open>The second component of \<open>condition_loop\<close> holds the combinator of the level, once there is one.\<close>

function (sequential) evaluate_group :: "(css_declaration \<Rightarrow> bool) \<Rightarrow> css_token list \<Rightarrow> bool"
  and parse_condition ::
    "(css_declaration \<Rightarrow> bool) \<Rightarrow> css_token list \<Rightarrow> (bool \<times> css_token list) option"
  and condition_loop ::
    "(css_declaration \<Rightarrow> bool) \<Rightarrow> bool \<Rightarrow> string option \<Rightarrow> css_token list \<Rightarrow> (bool \<times> css_token list) option"
where
  "evaluate_group applies inner =
     (if is_declaration inner then list_ex applies (parse_declarations inner)
      else case parse_condition applies inner of
             None \<Rightarrow> False
           | Some (v, rest) \<Rightarrow> at_end (skip_ignorable rest) \<and> v)"
| "parse_condition applies ts =
     (if peek_keyword ts = Some ''not'' then
        (case in_parens (tl (skip_ignorable ts)) of
           None \<Rightarrow> None
         | Some (None, rest) \<Rightarrow> Some (True, rest)
         | Some (Some inner, rest) \<Rightarrow> Some (\<not> evaluate_group applies inner, rest))
      else
        (case in_parens ts of
           None \<Rightarrow> None
         | Some (None, rest) \<Rightarrow> condition_loop applies False None rest
         | Some (Some inner, rest) \<Rightarrow> condition_loop applies (evaluate_group applies inner) None rest))"
| "condition_loop applies v comb ts =
     (case peek_keyword ts of
        None \<Rightarrow> Some (v, skip_ignorable ts)
      | Some keyword \<Rightarrow>
          if keyword \<noteq> ''and'' \<and> keyword \<noteq> ''or'' then Some (v, skip_ignorable ts)
          else if comb \<noteq> None \<and> comb \<noteq> Some keyword then None
          else
            (case in_parens (tl (skip_ignorable ts)) of
               None \<Rightarrow> None
             | Some (None, rest) \<Rightarrow>
                 condition_loop applies (if keyword = ''and'' then v \<and> False else v \<or> False)
                   (Some keyword) rest
             | Some (Some inner, rest) \<Rightarrow>
                 (let operand = evaluate_group applies inner
                  in condition_loop applies (if keyword = ''and'' then v \<and> operand else v \<or> operand)
                       (Some keyword) rest)))"
  by pat_completeness auto
termination
  by (relation "measure (\<lambda>x. case x of
         Inl (_, inner) \<Rightarrow> 2 * length inner + 1
       | Inr (Inl (_, ts)) \<Rightarrow> 2 * length ts
       | Inr (Inr (_, _, _, ts)) \<Rightarrow> 2 * length ts)")
    (auto dest: operand_length operand_inner_length in_parens_length(1) in_parens_inner)

declare evaluate_group.simps [simp del] parse_condition.simps [simp del] condition_loop.simps [simp del]

definition evaluate_supports_condition :: "(css_declaration \<Rightarrow> bool) \<Rightarrow> css_token list \<Rightarrow> bool" where
  "evaluate_supports_condition applies prelude =
     (case parse_condition applies prelude of
        None \<Rightarrow> False
      | Some (v, rest) \<Rightarrow> at_end (skip_ignorable rest) \<and> v)"

section \<open>The grammar of conditions\<close>

datatype condition = OneGroup group | NotGroup group | AllGroups group "group list" | AnyGroup group "group list"
  and group = Declares "css_token list" | General string "css_token list" | Nested condition

text \<open>Their tokens.\<close>

fun condition_tokens :: "condition \<Rightarrow> css_token list" and group_tokens :: "group \<Rightarrow> css_token list" where
  "condition_tokens (OneGroup g) = group_tokens g"
| "condition_tokens (NotGroup g) = [Ident ''not'', Whitespace] @ group_tokens g"
| "condition_tokens (AllGroups g gs) =
     group_tokens g @ concat (map (\<lambda>h. [Whitespace, Ident ''and'', Whitespace] @ group_tokens h) gs)"
| "condition_tokens (AnyGroup g gs) =
     group_tokens g @ concat (map (\<lambda>h. [Whitespace, Ident ''or'', Whitespace] @ group_tokens h) gs)"
| "group_tokens (Declares ts) = ParenOpen # ts @ [ParenClose]"
| "group_tokens (General f ts) = Function f # ts @ [ParenClose]"
| "group_tokens (Nested c) = ParenOpen # condition_tokens c @ [ParenClose]"

text \<open>What they mean: a group that is no declaration and no condition is not supported.\<close>

fun condition_meaning :: "(css_declaration \<Rightarrow> bool) \<Rightarrow> condition \<Rightarrow> bool"
  and group_meaning :: "(css_declaration \<Rightarrow> bool) \<Rightarrow> group \<Rightarrow> bool" where
  "condition_meaning applies (OneGroup g) = group_meaning applies g"
| "condition_meaning applies (NotGroup g) = (\<not> group_meaning applies g)"
| "condition_meaning applies (AllGroups g gs) =
     (group_meaning applies g \<and> (\<forall>h \<in> set gs. group_meaning applies h))"
| "condition_meaning applies (AnyGroup g gs) =
     (group_meaning applies g \<or> (\<exists>h \<in> set gs. group_meaning applies h))"
| "group_meaning applies (Declares ts) = list_ex applies (parse_declarations ts)"
| "group_meaning applies (General f ts) = False"
| "group_meaning applies (Nested c) = condition_meaning applies c"

definition enclosed :: "css_token list \<Rightarrow> bool" where
  "enclosed ts \<longleftrightarrow> balanced ts \<and> Eof \<notin> set ts"

fun condition_wf :: "condition \<Rightarrow> bool" and group_wf :: "group \<Rightarrow> bool" where
  "condition_wf (OneGroup g) = group_wf g"
| "condition_wf (NotGroup g) = group_wf g"
| "condition_wf (AllGroups g gs) = (group_wf g \<and> list_all group_wf gs)"
| "condition_wf (AnyGroup g gs) = (group_wf g \<and> list_all group_wf gs)"
| "group_wf (Declares ts) = (enclosed ts \<and> is_declaration ts)"
| "group_wf (General f ts) = enclosed ts"
| "group_wf (Nested c) = condition_wf c"

lemma paren_depth_append: "paren_depth d (xs @ ys) = Option.bind (paren_depth d xs) (\<lambda>d. paren_depth d ys)"
  by (induction xs arbitrary: d) auto

lemma paren_depth_shift: "paren_depth d xs = Some k \<Longrightarrow> paren_depth (d + n) xs = Some (k + n)"
proof (induction xs arbitrary: d)
  case (Cons t xs)
  then show ?case
    using Cons.IH [of "d - 1"] Cons.IH [of "Suc d"] Cons.IH [of d] by (cases d) (auto split: if_splits)
qed simp

lemma balanced_depth: "balanced xs \<Longrightarrow> paren_depth d xs = Some d"
  using paren_depth_shift [of 0 xs 0 d] by (simp add: balanced_def)

lemma balanced_append: "balanced xs \<Longrightarrow> balanced ys \<Longrightarrow> balanced (xs @ ys)"
  by (simp add: balanced_def paren_depth_append)

lemma balanced_parens: "balanced xs \<Longrightarrow> opens_paren t \<Longrightarrow> balanced (t # xs @ [ParenClose])"
  using balanced_depth [of xs 1]
  by (cases t) (simp_all add: balanced_def paren_depth_append)

lemma enclosed_append: "enclosed xs \<Longrightarrow> enclosed ys \<Longrightarrow> enclosed (xs @ ys)"
  by (simp add: enclosed_def balanced_append)

lemma enclosed_parens: "enclosed xs \<Longrightarrow> opens_paren t \<Longrightarrow> enclosed (t # xs @ [ParenClose])"
  by (cases t) (auto simp: enclosed_def balanced_parens)

lemma enclosed_plain: "enclosed [Ident s, Whitespace]" "enclosed [Whitespace, Ident s, Whitespace]" "enclosed []"
  by (simp_all add: enclosed_def balanced_def)

lemma enclosed_concat: "\<forall>x \<in> set xs. enclosed (f x) \<Longrightarrow> enclosed (concat (map f xs))"
  by (induction xs) (simp_all add: enclosed_plain enclosed_append)

lemma tokens_enclosed:
  "condition_wf c \<Longrightarrow> enclosed (condition_tokens c)"
  "group_wf g \<Longrightarrow> enclosed (group_tokens g)"
proof (induction c and g)
  case (AllGroups g gs)
  then show ?case
    by (auto simp: list_all_iff enclosed_append enclosed_plain simp del: append.simps
        intro!: enclosed_append enclosed_concat)
next
  case (AnyGroup g gs)
  then show ?case
    by (auto simp: list_all_iff enclosed_append enclosed_plain simp del: append.simps
        intro!: enclosed_append enclosed_concat)
next
  case (NotGroup g)
  then show ?case by (simp add: enclosed_append enclosed_plain del: append.simps)
qed (simp_all add: enclosed_parens)

lemma take_group_enclosed:
  "paren_depth d ts = Some 0 \<Longrightarrow> Eof \<notin> set ts \<Longrightarrow>
     take_balanced_group (Suc d) (ts @ ParenClose # rest) = Some (ts, rest)"
proof (induction ts arbitrary: d)
  case (Cons t ts)
  then show ?case
    using Cons.IH [of "d - 1"] Cons.IH [of "Suc d"] Cons.IH [of d] by (cases d) (auto split: if_splits)
qed simp

text \<open>What the parser sees of a group.\<close>

fun group_inner :: "group \<Rightarrow> css_token list option" where
  "group_inner (Declares ts) = Some ts"
| "group_inner (General f ts) = None"
| "group_inner (Nested c) = Some (condition_tokens c)"

lemma in_parens_group:
  assumes "group_wf g" shows "in_parens (group_tokens g @ rest) = Some (group_inner g, rest)"
proof -
  have t: "take_balanced_group 1 (ts @ ParenClose # rest) = Some (ts, rest)" if "enclosed ts" for ts
    using that take_group_enclosed [of 0 ts rest] by (simp add: enclosed_def balanced_def)
  show ?thesis
    using assms t tokens_enclosed(1)
    by (cases g) (simp_all add: in_parens_def skip_ignorable_def ignorable_def)
qed

lemma in_parens_space: "in_parens (Whitespace # ts) = in_parens ts"
  by (simp add: in_parens_def skip_ignorable_def ignorable_def)

lemma group_no_keyword: "peek_keyword (group_tokens g @ rest) = None"
  by (cases g) (simp_all add: peek_keyword_def skip_ignorable_def ignorable_def)

lemma keyword_next:
  "peek_keyword (Whitespace # Ident s # ts) = Some (to_ascii_lowercase s)"
  "skip_ignorable (Whitespace # Ident s # ts) = Ident s # ts"
  "peek_keyword (Ident s # ts) = Some (to_ascii_lowercase s)"
  "skip_ignorable (Ident s # ts) = Ident s # ts"
  "peek_keyword [] = None" "skip_ignorable [] = []"
  by (simp_all add: peek_keyword_def skip_ignorable_def ignorable_def)

lemma keywords_lower:
  "to_ascii_lowercase ''and'' = ''and''" "to_ascii_lowercase ''or'' = ''or''" "to_ascii_lowercase ''not'' = ''not''"
  by code_simp+

definition group_value :: "(css_declaration \<Rightarrow> bool) \<Rightarrow> css_token list option \<Rightarrow> bool" where
  "group_value applies inner = (case inner of None \<Rightarrow> False | Some ts \<Rightarrow> evaluate_group applies ts)"

lemma parse_condition_not:
  "group_wf g \<Longrightarrow> parse_condition applies ([Ident ''not'', Whitespace] @ group_tokens g @ rest) =
     Some (\<not> group_value applies (group_inner g), rest)"
  by (subst parse_condition.simps)
    (simp add: keyword_next keywords_lower in_parens_space in_parens_group group_value_def split: option.split)

lemma parse_condition_first:
  "group_wf g \<Longrightarrow> parse_condition applies (group_tokens g @ rest) =
     condition_loop applies (group_value applies (group_inner g)) None rest"
  by (subst parse_condition.simps)
    (simp add: group_no_keyword in_parens_group group_value_def split: option.split)

lemma condition_loop_next:
  "k \<in> {''and'', ''or''} \<Longrightarrow> comb = None \<or> comb = Some k \<Longrightarrow> group_wf g \<Longrightarrow>
     condition_loop applies v comb ([Whitespace, Ident k, Whitespace] @ group_tokens g @ rest) =
     condition_loop applies
       (if k = ''and'' then v \<and> group_value applies (group_inner g) else v \<or> group_value applies (group_inner g))
       (Some k) rest"
  by (subst condition_loop.simps)
    (auto simp: keyword_next keywords_lower in_parens_space in_parens_group group_value_def Let_def
      split: option.split)

lemma condition_loop_end: "condition_loop applies v comb [] = Some (v, [])"
  by (simp add: condition_loop.simps keyword_next)

lemma condition_loop_groups:
  assumes "k \<in> {''and'', ''or''}" "comb = None \<or> comb = Some k"
    "list_all group_wf gs" "\<forall>g \<in> set gs. group_value applies (group_inner g) = group_meaning applies g"
  shows "condition_loop applies v comb (concat (map (\<lambda>h. [Whitespace, Ident k, Whitespace] @ group_tokens h) gs)) =
    Some (if k = ''and'' then v \<and> (\<forall>h \<in> set gs. group_meaning applies h)
          else v \<or> (\<exists>h \<in> set gs. group_meaning applies h), [])"
  using assms(2-4)
proof (induction gs arbitrary: v comb)
  case (Cons g gs)
  then show ?case
    using condition_loop_next [OF assms(1) Cons.prems(1), of g applies v
        "concat (map (\<lambda>h. [Whitespace, Ident k, Whitespace] @ group_tokens h) gs)"]
      Cons.IH [of "Some k"]
    by auto
qed (simp add: condition_loop_end)

lemma condition_no_declaration: "\<not> is_declaration (condition_tokens c)"
  by (cases c; cases "case c of OneGroup g \<Rightarrow> g | NotGroup g \<Rightarrow> g | AllGroups g gs \<Rightarrow> g | AnyGroup g gs \<Rightarrow> g")
    (simp_all add: is_declaration_def skip_spaces_def)

lemma conditions_evaluate:
  "condition_wf c \<Longrightarrow> parse_condition applies (condition_tokens c) = Some (condition_meaning applies c, [])"
  "group_wf g \<Longrightarrow> group_value applies (group_inner g) = group_meaning applies g"
proof (induction c and g)
  case (OneGroup g)
  then show ?case using parse_condition_first [of g applies "[]"] by (simp add: condition_loop_end)
next
  case (NotGroup g)
  then show ?case using parse_condition_not [of g applies "[]"] by simp
next
  case (AllGroups g gs)
  then show ?case
    using parse_condition_first [of g applies] condition_loop_groups [of "''and''" None gs applies]
    by (simp add: list_all_iff del: append.simps)
next
  case (AnyGroup g gs)
  then show ?case
    using parse_condition_first [of g applies] condition_loop_groups [of "''or''" None gs applies]
    by (simp add: list_all_iff del: append.simps)
next
  case (Declares ts)
  then show ?case by (simp add: group_value_def evaluate_group.simps)
next
  case (General f ts)
  then show ?case by (simp add: group_value_def)
next
  case (Nested c)
  then show ?case
    by (simp add: group_value_def evaluate_group.simps condition_no_declaration keyword_next at_end_def)
qed

text \<open>C39: A condition written in the grammar, with \<open>not\<close>, \<open>and\<close>, \<open>or\<close>, nesting, declarations and functions,
is evaluated to its meaning: a declaration holds when the cascade applies it, a function never.\<close>

theorem supports_condition_meaning:
  assumes "condition_wf c"
  shows "evaluate_supports_condition applies (condition_tokens c) = condition_meaning applies c"
  using conditions_evaluate(1) [OF assms, of applies]
  by (simp add: evaluate_supports_condition_def keyword_next at_end_def)

definition sample_condition :: condition where
  "sample_condition =
     AllGroups (Declares [Ident ''display'', Colon, Ident ''flex''])
       [Nested (NotGroup (General ''selector'' [Ident ''a'']))]"

lemma supports_condition_meaning_witness:
  "evaluate_supports_condition (\<lambda>d. decl_name d = ''display'') (condition_tokens sample_condition) =
     condition_meaning (\<lambda>d. decl_name d = ''display'') sample_condition"
proof (rule supports_condition_meaning)
  show "condition_wf sample_condition"
    by (simp add: sample_condition_def enclosed_def balanced_def is_declaration_def skip_spaces_def)
qed

end
