(* ===== verification/Css_Layers.thy ===== *)
theory Css_Layers
  imports Css_Specificity Css_Supports Css_Variables
begin

text \<open>
  Flattening the stylesheets into the rules of the cascade (\<open>crates/silksurf-css/src/style.rs\<close>): the
  ranks of the layers, conditional rules, and what \<open>@property\<close> and \<open>@keyframes\<close> contribute. A result is
  \<open>None\<close> where the evaluation of a media query panics.
\<close>

section \<open>Layers\<close>

record layer_order =
  layer_names :: "string list"
  anonymous_count :: nat

definition layer_order_new :: layer_order where
  "layer_order_new = \<lparr>layer_names = [], anonymous_count = 0\<rparr>"

definition clamp_rank :: "nat \<Rightarrow> 32 word" where
  "clamp_rank i = min (if i < 2 ^ 32 then word_of_nat i else UNLAYERED) (UNLAYERED - 1)"

definition rank_of :: "string \<Rightarrow> layer_order \<Rightarrow> 32 word \<times> layer_order" where
  "rank_of path lo =
     (case position (\<lambda>n. n = path) (layer_names lo) of
        Some i \<Rightarrow> (clamp_rank i, lo)
      | None \<Rightarrow> (clamp_rank (length (layer_names lo)), lo\<lparr>layer_names := layer_names lo @ [path]\<rparr>))"

definition anonymous_path :: "string \<Rightarrow> layer_order \<Rightarrow> string \<times> layer_order" where
  "anonymous_path up lo =
     (let n = anonymous_count lo + 1; name = ''anonymous layer '' @ show_nat n
      in (if up = [] then name else up @ ''.'' @ name, lo\<lparr>anonymous_count := n\<rparr>))"

text \<open>The loop of \<open>layer_paths\<close> over the prelude, with the path read so far.\<close>

fun layer_paths_loop :: "string \<Rightarrow> css_token list \<Rightarrow> string list" where
  "layer_paths_loop current [] = (if current = [] then [] else [current])"
| "layer_paths_loop current (t # ts) =
     (case t of
        Ident name \<Rightarrow> layer_paths_loop (current @ name) ts
      | Delim c \<Rightarrow> layer_paths_loop (if c = 46 then current @ ''.'' else current) ts
      | Comma \<Rightarrow> (if current = [] then layer_paths_loop [] ts else current # layer_paths_loop [] ts)
      | _ \<Rightarrow> layer_paths_loop current ts)"

definition layer_paths :: "css_token list \<Rightarrow> string list" where
  "layer_paths prelude = layer_paths_loop [] prelude"

definition qualify :: "string \<Rightarrow> string \<Rightarrow> string" where
  "qualify up child = (if up = [] then child else up @ ''.'' @ child)"

section \<open>Registrations and keyframes\<close>

record property_registration =
  reg_name :: string
  reg_inherits :: bool
  reg_initial :: "css_token list"

definition string_of :: "css_token \<Rightarrow> string option" where
  "string_of t = (case t of StringTok s \<Rightarrow> Some s | _ \<Rightarrow> None)"

definition descriptor_string :: "css_token list \<Rightarrow> string option" where
  "descriptor_string ts = find_map string_of ts"

definition first_ident :: "css_token list \<Rightarrow> string option" where
  "first_ident ts = find_map ident_of ts"

definition custom_ident :: "css_token \<Rightarrow> string option" where
  "custom_ident t = (case t of Ident s \<Rightarrow> if starts_with ''--'' s then Some s else None | _ \<Rightarrow> None)"

text \<open>One descriptor: the syntax, the flag and the initial value read so far.\<close>

definition read_descriptor ::
    "css_declaration \<Rightarrow> string option \<times> bool option \<times> css_token list option \<Rightarrow>
     string option \<times> bool option \<times> css_token list option" where
  "read_descriptor d st =
     (let (syntax, inherits, initial) = st; name = to_ascii_lowercase (decl_name d)
      in if name = ''syntax'' then (descriptor_string (decl_value d), inherits, initial)
         else if name = ''inherits'' then
           (syntax,
            Option.bind (first_ident (decl_value d))
              (\<lambda>v. if to_ascii_lowercase v = ''true'' then Some True
                   else if to_ascii_lowercase v = ''false'' then Some False else None),
            initial)
         else if name = ''initial-value'' then (syntax, inherits, Some (decl_value d))
         else st)"

definition registration_parse :: "css_token list \<Rightarrow> css_declaration list \<Rightarrow> property_registration option" where
  "registration_parse prelude descriptors =
     (case find_map custom_ident prelude of
        None \<Rightarrow> None
      | Some name \<Rightarrow>
          (case fold read_descriptor descriptors (None, None, None) of
             (Some syntax, Some inherits, initial) \<Rightarrow>
               (case initial of
                  Some given \<Rightarrow> Some \<lparr>reg_name = name, reg_inherits = inherits, reg_initial = given\<rparr>
                | None \<Rightarrow>
                    if trim syntax = ''*''
                    then Some \<lparr>reg_name = name, reg_inherits = inherits, reg_initial = []\<rparr> else None)
           | _ \<Rightarrow> None))"

record 'f keyframes_rule =
  kfr_name :: string
  kfr_stops :: "('f \<times> css_declaration list) list"

definition keyframes_name :: "css_token list \<Rightarrow> string option" where
  "keyframes_name prelude =
     find_map (\<lambda>t. case t of Ident name \<Rightarrow> Some name | StringTok name \<Rightarrow> Some name | _ \<Rightarrow> None) prelude"

definition keyframes_from_blocks :: "'f f32_ops \<Rightarrow> string \<Rightarrow> 'f keyframe list \<Rightarrow> 'f keyframes_rule" where
  "keyframes_from_blocks F name blocks =
     \<lparr>kfr_name = name,
      kfr_stops = sort_by (\<lambda>a b. f_total_le F (fst a) (fst b))
        (concat (map (\<lambda>b. map (\<lambda>offset. (offset, kf_declarations b)) (kf_offsets b)) blocks))\<rparr>"

section \<open>Collecting the active rules\<close>

text \<open>What the walk reads: the operations on numbers, the viewport, and which declarations apply.\<close>

record 'f cascade_env =
  env_f32 :: "'f f32_ops"
  env_media :: "'f media_ops"
  env_viewport :: "'f viewport_size"
  env_applies :: "css_declaration \<Rightarrow> bool"

type_synonym style_rule = "selector_list \<times> css_declaration list"

record 'f collected =
  col_order :: layer_order
  col_rules :: "(32 word \<times> style_rule) list"
  col_registrations :: "property_registration list"
  col_keyframes :: "'f keyframes_rule list"

definition collected_new :: "'f collected" where
  "collected_new = \<lparr>col_order = layer_order_new, col_rules = [], col_registrations = [], col_keyframes = []\<rparr>"

definition layer_rank :: "string \<Rightarrow> layer_order \<Rightarrow> 32 word \<times> layer_order" where
  "layer_rank path lo = (if path = [] then (UNLAYERED, lo) else rank_of path lo)"

definition collect_style :: "string \<Rightarrow> style_rule \<Rightarrow> 'f collected \<Rightarrow> 'f collected" where
  "collect_style path r c =
     (let (rank, lo) = layer_rank path (col_order c)
      in c\<lparr>col_order := lo, col_rules := col_rules c @ [(rank, r)]\<rparr>)"

text \<open>An at-rule that holds no rules.\<close>

definition declare_layer :: "string \<Rightarrow> layer_order \<Rightarrow> layer_order" where
  "declare_layer path lo = snd (rank_of path lo)"

definition collect_leaf ::
    "'f cascade_env \<Rightarrow> string \<Rightarrow> string \<Rightarrow> css_token list \<Rightarrow> 'f at_rule_block option \<Rightarrow> 'f collected \<Rightarrow> 'f collected" where
  "collect_leaf E path name prelude block c =
     (let c = (if name = ''layer'' then
            c\<lparr>col_order := fold (\<lambda>p. declare_layer (qualify path p)) (layer_paths prelude) (col_order c)\<rparr>
          else c);
          c = (case block of
            Some (Declarations descriptors) \<Rightarrow>
              if name = ''property'' then
                (case registration_parse prelude descriptors of
                   Some r \<Rightarrow> c\<lparr>col_registrations := col_registrations c @ [r]\<rparr> | None \<Rightarrow> c)
              else c
          | _ \<Rightarrow> c)
      in case block of
           Some (Keyframes blocks) \<Rightarrow>
             (case keyframes_name prelude of
                Some n \<Rightarrow> c\<lparr>col_keyframes := col_keyframes c @ [keyframes_from_blocks (env_f32 E) n blocks]\<rparr>
              | None \<Rightarrow> c)
         | _ \<Rightarrow> c)"

text \<open>The path of a layer block's rules: the first name of its prelude, or a new anonymous one.\<close>

definition layer_block :: "string \<Rightarrow> css_token list \<Rightarrow> layer_order \<Rightarrow> string \<times> layer_order" where
  "layer_block path prelude lo =
     (let (child, lo) = (case layer_paths prelude of
            first # _ \<Rightarrow> (qualify path first, lo)
          | [] \<Rightarrow> anonymous_path path lo)
      in (child, declare_layer child lo))"

function (sequential) collect_active_rules ::
    "'f cascade_env \<Rightarrow> string \<Rightarrow> 'f rule list \<Rightarrow> 'f collected \<Rightarrow> 'f collected option"
  and collect_rule :: "'f cascade_env \<Rightarrow> string \<Rightarrow> 'f rule \<Rightarrow> 'f collected \<Rightarrow> 'f collected option"
where
  "collect_active_rules E path [] c = Some c"
| "collect_active_rules E path (r # rs) c =
     (case collect_rule E path r c of None \<Rightarrow> None | Some c \<Rightarrow> collect_active_rules E path rs c)"
| "collect_rule E path (StyleRule sel decls) c = Some (collect_style path (sel, decls) c)"
| "collect_rule E path (AtRule given prelude (Some (Rules children))) c =
     (let name = to_ascii_lowercase given
      in if name = ''media'' then
           (case evaluate_media_query (env_media E) prelude (env_viewport E) of
              None \<Rightarrow> None
            | Some b \<Rightarrow> if b then collect_active_rules E path children c else Some c)
         else if name = ''supports'' then
           (if evaluate_supports_condition (env_applies E) prelude
            then collect_active_rules E path children c else Some c)
         else if name = ''layer'' then
           (let (child, lo) = layer_block path prelude (col_order c)
            in collect_active_rules E child children (c\<lparr>col_order := lo\<rparr>))
         else Some c)"
| "collect_rule E path (AtRule given prelude block) c =
     Some (collect_leaf E path (to_ascii_lowercase given) prelude block c)"
  by pat_completeness auto
termination
  by (relation "measure (\<lambda>x. case x of Inl (_, _, rs, _) \<Rightarrow> size_list size rs | Inr (_, _, r, _) \<Rightarrow> size r)")
    simp_all

fun flatten_loop :: "'f cascade_env \<Rightarrow> 'f stylesheet list \<Rightarrow> 'f collected \<Rightarrow> 'f collected option" where
  "flatten_loop E [] c = Some c"
| "flatten_loop E (s # ss) c =
     (case collect_active_rules E [] s c of None \<Rightarrow> None | Some c \<Rightarrow> flatten_loop E ss c)"

definition flatten_active_rules :: "'f cascade_env \<Rightarrow> 'f stylesheet list \<Rightarrow> 'f collected option" where
  "flatten_active_rules E sheets = flatten_loop E sheets collected_new"

text \<open>
  Flattening the stylesheets: which rules come out, in which order, and which of them sit below the
  unlayered ones. The reference reads the rules without any state of layers.
\<close>

section \<open>The rules of a sheet\<close>

text \<open>Two optional lists in sequence: \<open>None\<close> where either is.\<close>

definition seq_lists :: "'a list option \<Rightarrow> 'a list option \<Rightarrow> 'a list option" where
  "seq_lists a b = Option.bind a (\<lambda>x. map_option (\<lambda>y. x @ y) b)"

lemma seq_lists_simps [simp]:
  "seq_lists None b = None"
  "seq_lists (Some x) None = None"
  "seq_lists (Some x) (Some y) = Some (x @ y)"
  by (simp_all add: seq_lists_def)

text \<open>The style rules that apply in document order, with whether a layer holds each.\<close>

function (sequential) admitted :: "'f cascade_env \<Rightarrow> bool \<Rightarrow> 'f rule list \<Rightarrow> (bool \<times> style_rule) list option"
  and admitted_rule :: "'f cascade_env \<Rightarrow> bool \<Rightarrow> 'f rule \<Rightarrow> (bool \<times> style_rule) list option"
where
  "admitted E layered [] = Some []"
| "admitted E layered (r # rs) = seq_lists (admitted_rule E layered r) (admitted E layered rs)"
| "admitted_rule E layered (StyleRule sel decls) = Some [(layered, (sel, decls))]"
| "admitted_rule E layered (AtRule given prelude (Some (Rules children))) =
     (let name = to_ascii_lowercase given
      in if name = ''media'' then
           Option.bind (evaluate_media_query (env_media E) prelude (env_viewport E))
             (\<lambda>b. if b then admitted E layered children else Some [])
         else if name = ''supports'' then
           (if evaluate_supports_condition (env_applies E) prelude then admitted E layered children
            else Some [])
         else if name = ''layer'' then admitted E True children
         else Some [])"
| "admitted_rule E layered (AtRule given prelude block) = Some []"
  by pat_completeness auto
termination
  by (relation "measure (\<lambda>x. case x of Inl (_, _, rs) \<Rightarrow> size_list size rs | Inr (_, _, r) \<Rightarrow> size r)")
    simp_all

fun admitted_sheets :: "'f cascade_env \<Rightarrow> 'f stylesheet list \<Rightarrow> (bool \<times> style_rule) list option" where
  "admitted_sheets E [] = Some []"
| "admitted_sheets E (s # ss) = seq_lists (admitted E False s) (admitted_sheets E ss)"

text \<open>What a collected list shows of its ranks.\<close>

definition shown :: "'f collected \<Rightarrow> (bool \<times> style_rule) list" where
  "shown c = map (\<lambda>(rank, r). (rank \<noteq> UNLAYERED, r)) (col_rules c)"

section \<open>Ranks\<close>

lemma clamp_rank_below: "clamp_rank i \<noteq> UNLAYERED"
proof -
  have "clamp_rank i \<le> UNLAYERED - 1" by (simp add: clamp_rank_def)
  moreover have "UNLAYERED - 1 < UNLAYERED" by (simp add: UNLAYERED_def)
  ultimately show ?thesis by auto
qed

lemma rank_of_below: "fst (rank_of path lo) \<noteq> UNLAYERED"
  by (simp add: rank_of_def clamp_rank_below split: option.split)

lemma layer_rank_iff: "fst (layer_rank path lo) \<noteq> UNLAYERED \<longleftrightarrow> path \<noteq> []"
  by (simp add: layer_rank_def rank_of_below)

lemma layer_paths_loop_nonempty: "p \<in> set (layer_paths_loop current ts) \<Longrightarrow> p \<noteq> []"
  by (induction current ts rule: layer_paths_loop.induct) (auto split: css_token.splits if_splits)

lemma layer_block_path: "fst (layer_block path prelude lo) \<noteq> []"
proof (cases "layer_paths prelude")
  case Nil
  then show ?thesis by (simp add: layer_block_def anonymous_path_def Let_def)
next
  case (Cons p ps)
  then have "p \<noteq> []" using layer_paths_loop_nonempty [of p "[]" prelude] by (simp add: layer_paths_def)
  with Cons show ?thesis by (simp add: layer_block_def qualify_def)
qed

section \<open>The walk adds what the reference lists\<close>

lemma shown_order [simp]: "shown (c\<lparr>col_order := lo\<rparr>) = shown c"
  by (simp add: shown_def)

lemma shown_style: "shown (collect_style path r c) = shown c @ [(path \<noteq> [], r)]"
  using layer_rank_iff [of path "col_order c"]
  by (cases "layer_rank path (col_order c)") (simp add: collect_style_def shown_def)

lemma shown_leaf: "shown (collect_leaf E path name prelude block c) = shown c"
  by (simp add: collect_leaf_def shown_def Let_def split: option.split at_rule_block.split)

lemma shown_walk:
  "map_option shown (collect_active_rules E path rs c) =
     map_option (\<lambda>x. shown c @ x) (admitted E (path \<noteq> []) rs)"
  "map_option shown (collect_rule E path r c) =
     map_option (\<lambda>x. shown c @ x) (admitted_rule E (path \<noteq> []) r)"
proof (induction E path rs c and E path r c rule: collect_active_rules_collect_rule.induct)
  case (2 E path r rs c)
  then show ?case
    by (cases "collect_rule E path r c"; cases "admitted_rule E (path \<noteq> []) r";
        cases "admitted E (path \<noteq> []) rs") auto
next
  case (4 E path given prelude children c)
  have ne: "fst (layer_block path prelude (col_order c)) \<noteq> []" by (rule layer_block_path)
  show ?case
    using 4 ne
    by (cases "layer_block path prelude (col_order c)";
        cases "evaluate_media_query (env_media E) prelude (env_viewport E)") (auto simp: Let_def)
qed (simp_all add: shown_style shown_leaf)

lemma shown_loop:
  "map_option shown (flatten_loop E ss c) = map_option (\<lambda>x. shown c @ x) (admitted_sheets E ss)"
proof (induction ss arbitrary: c)
  case (Cons s ss)
  show ?case
  proof (cases "collect_active_rules E [] s c")
    case None
    then show ?thesis using shown_walk(1) [of E "[]" s c] by simp
  next
    case (Some d)
    then obtain x where "admitted E False s = Some x" "shown d = shown c @ x"
      using shown_walk(1) [of E "[]" s c] by (cases "admitted E False s") auto
    then show ?thesis
      using Some Cons.IH [of d] by (cases "admitted_sheets E ss") simp_all
  qed
qed simp

text \<open>C40: the flattened rules are the style rules of the sheets whose conditions hold, in document order,
  and a rule's rank is below the rank of unlayered rules exactly when a layer holds the rule; the walk
  fails exactly where a media query it evaluates does.
\<close>

theorem flattened_rules:
  "map_option shown (flatten_active_rules E sheets) = admitted_sheets E sheets"
  by (simp add: flatten_active_rules_def shown_loop)
    (simp add: collected_new_def shown_def option.map_ident)

section \<open>One rank for a name\<close>

text \<open>An order grows at its end and never names a layer twice, so a rank that was given stays.\<close>

definition grows :: "layer_order \<Rightarrow> layer_order \<Rightarrow> bool" where
  "grows lo lo' \<longleftrightarrow>
     (distinct (layer_names lo) \<longrightarrow> distinct (layer_names lo')) \<and>
     (\<exists>more. layer_names lo' = layer_names lo @ more)"

lemma grows_refl [simp]: "grows lo lo"
  by (simp add: grows_def)

lemma grows_trans [trans]: "grows a b \<Longrightarrow> grows b c \<Longrightarrow> grows a c"
  by (auto simp: grows_def)

lemma position_append_Some: "position p xs = Some i \<Longrightarrow> position p (xs @ ys) = Some i"
  by (induction xs arbitrary: i) (auto split: if_splits)

lemma position_append_None: "position p xs = None \<Longrightarrow> position p (xs @ [x]) = (if p x then Some (length xs) else None)"
  by (induction xs) (auto split: if_splits)

lemma grows_rank_of: "grows lo (snd (rank_of path lo))"
  by (auto simp: rank_of_def grows_def position_None_iff split: option.split)

lemma grows_rank: "position (\<lambda>n. n = path) (layer_names (snd (rank_of path lo))) \<noteq> None"
  by (cases "position (\<lambda>n. n = path) (layer_names lo)")
    (simp_all add: rank_of_def position_append_None)

lemma rank_of_grown:
  assumes g: "grows (snd (rank_of path lo)) lo'"
  shows "fst (rank_of path lo') = fst (rank_of path lo)"
proof (cases "position (\<lambda>n. n = path) (layer_names lo)")
  case None
  then have "position (\<lambda>n. n = path) (layer_names (snd (rank_of path lo))) = Some (length (layer_names lo))"
    by (simp add: rank_of_def position_append_None)
  then have "position (\<lambda>n. n = path) (layer_names lo') = Some (length (layer_names lo))"
    using g by (auto simp: grows_def dest: position_append_Some)
  with None show ?thesis by (simp add: rank_of_def)
next
  case (Some i)
  then have "position (\<lambda>n. n = path) (layer_names lo') = Some i"
    using g by (auto simp: grows_def rank_of_def dest: position_append_Some)
  with Some show ?thesis by (simp add: rank_of_def)
qed

lemma grows_layer_block: "grows lo (snd (layer_block path prelude lo))"
  using grows_rank_of [of "lo\<lparr>anonymous_count := anonymous_count lo + 1\<rparr>"] grows_rank_of [of lo]
  by (auto simp: layer_block_def anonymous_path_def declare_layer_def grows_def Let_def split: list.split)

lemma grows_declare: "grows lo (fold (\<lambda>p. declare_layer (f p)) ps lo)"
proof (induction ps arbitrary: lo)
  case (Cons p ps)
  show ?case
    using grows_trans [OF grows_rank_of Cons.IH] by (simp add: declare_layer_def)
qed simp

lemma grows_style: "grows (col_order c) (col_order (collect_style path r c))"
  using grows_rank_of [of "col_order c" path]
  by (cases "rank_of path (col_order c)") (simp add: collect_style_def layer_rank_def)

lemma grows_leaf: "grows (col_order c) (col_order (collect_leaf E path name prelude block c))"
  by (simp add: collect_leaf_def Let_def grows_declare split: option.split at_rule_block.split)

lemma grows_walk:
  "collect_active_rules E path rs c = Some d \<Longrightarrow> grows (col_order c) (col_order d)"
  "collect_rule E path r c = Some d \<Longrightarrow> grows (col_order c) (col_order d)"
proof (induction E path rs c and E path r c arbitrary: d and d rule: collect_active_rules_collect_rule.induct)
  case (2 E path r rs c)
  then show ?case by (auto split: option.splits intro: grows_trans)
next
  case (4 E path given prelude children c)
  show ?case
    using 4 grows_layer_block [of "col_order c" path prelude]
    by (cases "layer_block path prelude (col_order c)")
      (auto simp: Let_def split: option.splits if_splits intro: grows_trans)
qed (auto simp: grows_style grows_leaf)

text \<open>
  A layer inside a layer is ranked after the rules its parent holds directly, although the layer comes
  second in \<open>@layer a { x {} @layer b { y {} } }\<close>: a rank depends on where a name is first seen only.
\<close>

lemma clamp_rank_small: "clamp_rank 0 = 0" "clamp_rank 1 = 1"
  by (simp_all add: clamp_rank_def UNLAYERED_def min_def word_le_def)

lemma nested_layer_ranks_above:
  "map fst (col_rules (collect_style ''a.b'' y (collect_style ''a'' x collected_new))) = [0, 1]"
  by (simp add: collect_style_def layer_rank_def rank_of_def collected_new_def layer_order_new_def
      clamp_rank_small [simplified])

end
