(* ===== verification/Css_Index.thy ===== *)
theory Css_Index
  imports Css_Layers Css_View
begin

text \<open>
  The selector index and the matching of one node through it (\<open>crates/silksurf-css/src/style.rs\<close>):
  \<open>StyleIndex\<close>, \<open>CascadeWorkspace\<close> and the collection and matching of candidate rules. A hash map is
  a list of keys and buckets. A map over identifiers hashes the string and compares by \<open>Eq\<close>, so
  a key is found when both agree.
\<close>

section \<open>Keys\<close>

datatype index_key = KeyTag tag_name | KeyId sel_ident | KeyClass sel_ident | KeyUniversal

text \<open>The loop over the modifiers: the first identifier ends it, the first class is kept.\<close>

fun key_loop :: "sel_ident option \<Rightarrow> selector_modifier list \<Rightarrow> sel_ident option \<times> sel_ident option" where
  "key_loop class_key [] = (None, class_key)"
| "key_loop class_key (IdMod name # ms) = (Some name, class_key)"
| "key_loop class_key (ClassMod name # ms) =
     key_loop (if class_key = None then Some name else class_key) ms"
| "key_loop class_key (_ # ms) = key_loop class_key ms"

fun compound_key :: "compound \<Rightarrow> index_key" where
  "compound_key (Compound ty ms) =
     (case key_loop None ms of
        (Some name, _) \<Rightarrow> KeyId name
      | (None, Some name) \<Rightarrow> KeyClass name
      | (None, None) \<Rightarrow>
          (case ty of
             Some (TagType t) \<Rightarrow> if list_ex ascii_upper (tag_as_str t) then KeyUniversal else KeyTag t
           | _ \<Rightarrow> KeyUniversal))"

definition selector_key :: "selector \<Rightarrow> index_key" where
  "selector_key sel =
     (let steps = sel_steps sel
      in if steps = [] then KeyUniversal else compound_key (step_compound (last steps)))"

definition key_eq :: "sel_ident \<Rightarrow> sel_ident \<Rightarrow> bool" where
  "key_eq i j \<longleftrightarrow> ident_value i = ident_value j \<and> ident_eq i j"

section \<open>The index\<close>

record indexed_selector =
  rule_index :: nat
  selector_index :: nat
  ix_specificity :: specificity
  pair_id :: "32 word"

type_synonym 'k buckets = "('k \<times> indexed_selector list) list"

text \<open>\<open>map.entry(key).or_default().push(entry)\<close> and \<open>map.get(key)\<close>.\<close>

fun bucket_push :: "('k \<Rightarrow> 'k \<Rightarrow> bool) \<Rightarrow> 'k \<Rightarrow> indexed_selector \<Rightarrow> 'k buckets \<Rightarrow> 'k buckets" where
  "bucket_push eq k e [] = [(k, [e])]"
| "bucket_push eq k e ((j, es) # bs) =
     (if eq k j then (j, es @ [e]) # bs else (j, es) # bucket_push eq k e bs)"

fun bucket_get :: "('k \<Rightarrow> 'k \<Rightarrow> bool) \<Rightarrow> 'k \<Rightarrow> 'k buckets \<Rightarrow> indexed_selector list" where
  "bucket_get eq k [] = []"
| "bucket_get eq k ((j, es) # bs) = (if eq k j then es else bucket_get eq k bs)"

record 'f style_index =
  tag_rules :: "tag_name buckets"
  id_rules :: "sel_ident buckets"
  class_rules :: "sel_ident buckets"
  universal_rules :: "indexed_selector list"
  active_rules :: "style_rule list"
  total_selector_pairs :: nat
  declares_custom_properties :: bool
  registrations :: "property_registration list"
  keyframes_map :: "(string, 'f keyframes_rule) map"
  build_id :: "64 word"

definition style_keyframes :: "'f style_index \<Rightarrow> string \<Rightarrow> 'f keyframes_rule option" where
  "style_keyframes ix name = keyframes_map ix name"

definition declares_keyframes :: "'f style_index \<Rightarrow> bool" where
  "declares_keyframes ix \<longleftrightarrow> keyframes_map ix \<noteq> Map.empty"

text \<open>The four collections while the index is built, with the next pair.\<close>

record index_parts =
  part_tags :: "tag_name buckets"
  part_ids :: "sel_ident buckets"
  part_classes :: "sel_ident buckets"
  part_universal :: "indexed_selector list"
  next_pair :: "32 word"

definition index_parts_new :: index_parts where
  "index_parts_new =
     \<lparr>part_tags = [], part_ids = [], part_classes = [], part_universal = [], next_pair = 0\<rparr>"

definition place_entry :: "index_key \<Rightarrow> indexed_selector \<Rightarrow> index_parts \<Rightarrow> index_parts" where
  "place_entry key e p =
     (case key of
        KeyTag t \<Rightarrow> p\<lparr>part_tags := bucket_push (=) t e (part_tags p)\<rparr>
      | KeyId name \<Rightarrow> p\<lparr>part_ids := bucket_push key_eq name e (part_ids p)\<rparr>
      | KeyClass name \<Rightarrow> p\<lparr>part_classes := bucket_push key_eq name e (part_classes p)\<rparr>
      | KeyUniversal \<Rightarrow> p\<lparr>part_universal := part_universal p @ [e]\<rparr>)"

definition index_selector :: "nat \<Rightarrow> 32 word \<Rightarrow> nat \<Rightarrow> selector \<Rightarrow> index_parts \<Rightarrow> index_parts" where
  "index_selector r rank s sel p =
     (let e = \<lparr>rule_index = r, selector_index = s,
               ix_specificity = (selector_specificity sel)\<lparr>layer := rank\<rparr>, pair_id = next_pair p\<rparr>
      in place_entry (selector_key sel) e (p\<lparr>next_pair := next_pair p + 1\<rparr>))"

fun index_selectors :: "nat \<Rightarrow> 32 word \<Rightarrow> nat \<Rightarrow> selector list \<Rightarrow> index_parts \<Rightarrow> index_parts" where
  "index_selectors r rank s [] p = p"
| "index_selectors r rank s (sel # sels) p =
     index_selectors r rank (Suc s) sels (index_selector r rank s sel p)"

text \<open>The rules come with their ranks, which is \<open>layer_ranks\<close> read at the rule's own index.\<close>

fun index_rules :: "nat \<Rightarrow> (32 word \<times> style_rule) list \<Rightarrow> index_parts \<Rightarrow> index_parts" where
  "index_rules r [] p = p"
| "index_rules r ((rank, rule) # rules) p =
     index_rules (Suc r) rules (index_selectors r rank 0 (fst rule) p)"

definition dedup_registration ::
    "property_registration \<Rightarrow> property_registration list \<Rightarrow> property_registration list" where
  "dedup_registration r held = filter (\<lambda>h. reg_name h \<noteq> reg_name r) held @ [r]"

definition index_of :: "'f collected \<Rightarrow> 64 word \<Rightarrow> 'f style_index" where
  "index_of c build =
     (let p = index_rules 0 (col_rules c) index_parts_new; rules = map snd (col_rules c)
      in \<lparr>tag_rules = part_tags p, id_rules = part_ids p, class_rules = part_classes p,
          universal_rules = part_universal p, active_rules = rules,
          total_selector_pairs = unat (next_pair p),
          declares_custom_properties =
            list_ex (\<lambda>r. list_ex (\<lambda>d. starts_with ''--'' (decl_name d)) (snd r)) rules,
          registrations = fold dedup_registration (col_registrations c) [],
          keyframes_map = fold (\<lambda>k m. m(kfr_name k \<mapsto> k)) (col_keyframes c) Map.empty,
          build_id = build\<rparr>)"

text \<open>The builds counter of the process is the state; \<open>fetch_add\<close> wraps.\<close>

definition for_viewport_sheets ::
    "'f cascade_env \<Rightarrow> 'f stylesheet list \<Rightarrow> 64 word \<Rightarrow> ('f style_index \<times> 64 word) option" where
  "for_viewport_sheets E sheets builds =
     map_option (\<lambda>c. (index_of c builds, builds + 1)) (flatten_active_rules E sheets)"

definition for_viewport ::
    "'f cascade_env \<Rightarrow> 'f stylesheet \<Rightarrow> 64 word \<Rightarrow> ('f style_index \<times> 64 word) option" where
  "for_viewport E sheet builds = for_viewport_sheets E [sheet] builds"

section \<open>The workspace\<close>

record cascade_workspace =
  matched_by_rule :: "specificity option list"
  candidates :: "indexed_selector list"
  seen_bits :: "64 word list"
  class_keys :: "sel_ident list"

definition workspace_new :: "nat \<Rightarrow> cascade_workspace" where
  "workspace_new rules_len =
     \<lparr>matched_by_rule = replicate rules_len None, candidates = [], seen_bits = [], class_keys = []\<rparr>"

definition prepare :: "nat \<Rightarrow> nat \<Rightarrow> cascade_workspace \<Rightarrow> cascade_workspace" where
  "prepare rules_len pairs ws =
     \<lparr>matched_by_rule = replicate rules_len None, candidates = [],
      seen_bits = replicate ((pairs + 63) div 64) 0, class_keys = []\<rparr>"

section \<open>Candidates\<close>

definition read_id_key :: "attribute \<Rightarrow> sel_ident option \<Rightarrow> sel_ident option" where
  "read_id_key a id_key =
     (if attr_name a \<noteq> AttrId then id_key
      else case value_atom a of
             Some x \<Rightarrow> Some (ident_new_with_atom (attr_value a) x)
           | None \<Rightarrow> if attr_value a \<noteq> [] then Some (ident_new (attr_value a)) else id_key)"

text \<open>Tag, id key and class keys; the class keys are read as the view reads them (\<open>class_pass\<close>), and
  \<open>None\<close> is the panic of \<open>resolve_fast\<close>.\<close>

definition node_tag_id_class ::
    "dom \<Rightarrow> node_id \<Rightarrow> (tag_name option \<times> sel_ident option \<times> sel_ident list) option" where
  "node_tag_id_class d i =
     (case ok (node_at d i) of
        None \<Rightarrow> Some (None, None, [])
      | Some n \<Rightarrow>
          (case kind n of
             Element name _ _ attrs \<Rightarrow>
               map_option (\<lambda>cls. (Some name, fold read_id_key attrs None, cls)) (class_pass d attrs)
           | _ \<Rightarrow> Some (None, None, [])))"

definition collect_tag_candidates ::
    "dom \<Rightarrow> node_id \<Rightarrow> tag_name \<Rightarrow> 'f style_index \<Rightarrow> indexed_selector list" where
  "collect_tag_candidates d i t ix =
     bucket_get (=) t (tag_rules ix)
     @ (if list_ex ascii_upper (tag_as_str t) \<and> element_namespace d i = NsHtml
        then bucket_get (=) (tag_from_str (tag_as_str t)) (tag_rules ix) else [])"

definition key_candidates ::
    "'f style_index \<Rightarrow> sel_ident option \<Rightarrow> sel_ident list \<Rightarrow> indexed_selector list" where
  "key_candidates ix id_key cls =
     (case id_key of Some k \<Rightarrow> bucket_get key_eq k (id_rules ix) | None \<Rightarrow> [])
     @ concat (map (\<lambda>k. bucket_get key_eq k (class_rules ix)) cls)"

definition collect_dom_candidates ::
    "dom \<Rightarrow> node_id \<Rightarrow> 'f style_index \<Rightarrow> cascade_workspace \<Rightarrow> cascade_workspace option" where
  "collect_dom_candidates d i ix ws =
     (case node_tag_id_class d i of
        None \<Rightarrow> None
      | Some (name, id_key, cls) \<Rightarrow>
          Some (ws\<lparr>class_keys := cls,
                   candidates := candidates ws
                     @ (case name of Some t \<Rightarrow> collect_tag_candidates d i t ix | None \<Rightarrow> [])
                     @ key_candidates ix id_key cls\<rparr>))"

text \<open>\<open>view.entries[node]\<close>, \<open>id_ident\<close> and \<open>class_idents\<close> panic out of range.\<close>

definition collect_view_candidates ::
    "dom \<Rightarrow> node_id \<Rightarrow> 'f style_index \<Rightarrow> cascade_workspace \<Rightarrow> cascade_view \<Rightarrow> cascade_workspace option" where
  "collect_view_candidates d i ix ws v =
     (if i < length (entries v) then
        let e = entries v ! i
        in case (id_ident v e, class_idents v e) of
             (Some id_key, Some cls) \<Rightarrow>
               Some (ws\<lparr>candidates := candidates ws @ collect_tag_candidates d i (entry_tag e) ix
                          @ key_candidates ix id_key cls\<rparr>)
           | _ \<Rightarrow> None
      else None)"

definition collect_candidate_rules ::
    "dom \<Rightarrow> node_id \<Rightarrow> 'f style_index \<Rightarrow> cascade_workspace \<Rightarrow> cascade_view option \<Rightarrow> cascade_workspace option" where
  "collect_candidate_rules d i ix ws view =
     map_option (\<lambda>ws. ws\<lparr>candidates := candidates ws @ universal_rules ix\<rparr>)
       (case view of
          Some v \<Rightarrow> collect_view_candidates d i ix ws v
        | None \<Rightarrow> collect_dom_candidates d i ix ws)"

section \<open>Matching the candidates\<close>

definition bit_of :: "32 word \<Rightarrow> 64 word" where
  "bit_of pair = push_bit (unat (pair mod 64)) 1"

definition record_match :: "nat \<Rightarrow> specificity \<Rightarrow> specificity option list \<Rightarrow> specificity option list" where
  "record_match r s matched =
     (if r < length matched then
        (case matched ! r of
           Some held \<Rightarrow> if spec_fields held < spec_fields s then matched[r := Some s] else matched
         | None \<Rightarrow> matched[r := Some s])
      else matched)"

text \<open>The selector of a candidate, where the rules still hold it.\<close>

definition candidate_selector :: "style_rule list \<Rightarrow> indexed_selector \<Rightarrow> selector option" where
  "candidate_selector rules e =
     (if rule_index e < length rules \<and> selector_index e < length (fst (rules ! rule_index e))
      then Some (fst (rules ! rule_index e) ! selector_index e) else None)"

text \<open>One pass over the candidates. \<open>None\<close> is a match that does not return, or the index panic of the
  bit vector.\<close>

fun match_loop ::
    "(selector \<Rightarrow> bool option) \<Rightarrow> style_rule list \<Rightarrow> indexed_selector list \<Rightarrow> 64 word list \<Rightarrow>
     specificity option list \<Rightarrow> (64 word list \<times> specificity option list) option" where
  "match_loop m rules [] seen matched = Some (seen, matched)"
| "match_loop m rules (e # es) seen matched =
     (let w = unat (pair_id e div 64); b = bit_of (pair_id e)
      in if length seen \<le> w then None
         else if and (seen ! w) b \<noteq> 0 then match_loop m rules es seen matched
         else
           let seen = seen[w := or (seen ! w) b]
           in case candidate_selector rules e of
                None \<Rightarrow> match_loop m rules es seen matched
              | Some sel \<Rightarrow>
                  (case m sel of
                     None \<Rightarrow> None
                   | Some hit \<Rightarrow>
                       match_loop m rules es seen
                         (if hit then record_match (rule_index e) (ix_specificity e) matched else matched)))"

definition match_candidate_rules ::
    "dom \<Rightarrow> node_id \<Rightarrow> 'f style_index \<Rightarrow> cascade_workspace \<Rightarrow> cascade_view option \<Rightarrow> cascade_workspace option" where
  "match_candidate_rules d i ix ws view =
     map_option (\<lambda>(seen, matched). ws\<lparr>candidates := [], seen_bits := seen, matched_by_rule := matched\<rparr>)
       (match_loop (matches_selector_inner view d i) (active_rules ix) (candidates ws) (seen_bits ws)
         (matched_by_rule ws))"

text \<open>The matching part of \<open>cascade_for_node\<close>: prepare, collect, match.\<close>

definition match_node ::
    "dom \<Rightarrow> node_id \<Rightarrow> 'f style_index \<Rightarrow> cascade_workspace \<Rightarrow> cascade_view option \<Rightarrow> cascade_workspace option" where
  "match_node d i ix ws view =
     Option.bind
       (collect_candidate_rules d i ix
         (prepare (length (active_rules ix)) (total_selector_pairs ix) ws) view)
       (\<lambda>ws. match_candidate_rules d i ix ws view)"

end
