(* ===== verification/Css_Index_Exact.thy ===== *)
theory Css_Index_Exact
  imports Css_Index
begin

text \<open>
  Matching through the index finds what matching every selector finds: the buckets hold each selector
  under its key, a node that satisfies a selector presents that key, and the bit vector only leaves
  out what was seen.
\<close>

section \<open>Buckets\<close>

text \<open>A hash map over keys whose equality is that of a value, for the keys in use.\<close>

locale key_space =
  fixes eq :: "'k \<Rightarrow> 'k \<Rightarrow> bool" and good :: "'k \<Rightarrow> bool" and val :: "'k \<Rightarrow> 'v"
  assumes eq_val: "good j \<Longrightarrow> good k \<Longrightarrow> eq j k \<longleftrightarrow> val j = val k"
begin

lemma push_good: "list_all (good \<circ> fst) bs \<Longrightarrow> good k \<Longrightarrow> list_all (good \<circ> fst) (bucket_push eq k e bs)"
  by (induction bs) auto

lemma get_push:
  "list_all (good \<circ> fst) bs \<Longrightarrow> good j \<Longrightarrow> good k \<Longrightarrow>
    bucket_get eq k (bucket_push eq j e bs) = bucket_get eq k bs @ (if val j = val k then [e] else [])"
  by (induction bs) (auto simp: eq_val)

end

text \<open>All entries of a map, whatever their key.\<close>

definition bucket_entries :: "'k buckets \<Rightarrow> indexed_selector set" where
  "bucket_entries bs = (\<Union>(_, es) \<in> set bs. set es)"

lemma bucket_entries_simps [simp]:
  "bucket_entries [] = {}"
  "bucket_entries ((k, es) # bs) = set es \<union> bucket_entries bs"
  by (auto simp: bucket_entries_def)

lemma entries_push: "bucket_entries (bucket_push eq k e bs) = insert e (bucket_entries bs)"
  by (induction eq k e bs rule: bucket_push.induct) auto

lemma get_entries: "set (bucket_get eq k bs) \<subseteq> bucket_entries bs"
  by (induction eq k bs rule: bucket_get.induct) auto

interpretation tag_keys: key_space "(=)" "\<lambda>_. True" "\<lambda>t :: tag_name. t"
  by unfold_locales simp

definition key_ok :: "silk_interner \<Rightarrow> sel_ident \<Rightarrow> bool" where
  "key_ok it k \<longleftrightarrow> interner_inv it \<and> ident_faithful it k"

interpretation ident_keys: key_space key_eq "key_ok it" ident_value
  by unfold_locales (auto simp: key_ok_def key_eq_def ident_eq_value)

section \<open>Filing a selector\<close>

definition part_entries :: "index_parts \<Rightarrow> indexed_selector set" where
  "part_entries p = bucket_entries (part_tags p) \<union> bucket_entries (part_ids p)
     \<union> bucket_entries (part_classes p) \<union> set (part_universal p)"

definition parts_ok :: "silk_interner \<Rightarrow> index_parts \<Rightarrow> bool" where
  "parts_ok it p \<longleftrightarrow> list_all (key_ok it \<circ> fst) (part_ids p) \<and> list_all (key_ok it \<circ> fst) (part_classes p)"

fun key_good :: "silk_interner \<Rightarrow> index_key \<Rightarrow> bool" where
  "key_good it (KeyId k) = key_ok it k"
| "key_good it (KeyClass k) = key_ok it k"
| "key_good it _ = True"

text \<open>An entry is found by everything that presents its key.\<close>

fun found :: "silk_interner \<Rightarrow> index_parts \<Rightarrow> indexed_selector \<Rightarrow> index_key \<Rightarrow> bool" where
  "found it p e (KeyTag t) \<longleftrightarrow> e \<in> set (bucket_get (=) t (part_tags p))"
| "found it p e (KeyId n) \<longleftrightarrow>
     (\<forall>k. key_ok it k \<and> ident_value k = ident_value n \<longrightarrow> e \<in> set (bucket_get key_eq k (part_ids p)))"
| "found it p e (KeyClass n) \<longleftrightarrow>
     (\<forall>k. key_ok it k \<and> ident_value k = ident_value n \<longrightarrow> e \<in> set (bucket_get key_eq k (part_classes p)))"
| "found it p e KeyUniversal \<longleftrightarrow> e \<in> set (part_universal p)"

lemma get_push_tag [simp]:
  "bucket_get (=) t (bucket_push (=) u e bs) = bucket_get (=) t bs @ (if u = t then [e] else [])"
  by (induction bs) auto

lemma place_ok: "parts_ok it p \<Longrightarrow> key_good it key \<Longrightarrow> parts_ok it (place_entry key e p)"
  by (cases key) (simp_all add: place_entry_def parts_ok_def ident_keys.push_good [where it = it])

lemma place_found: "parts_ok it p \<Longrightarrow> key_good it key \<Longrightarrow> found it (place_entry key e p) e key"
  by (cases key) (simp_all add: place_entry_def parts_ok_def ident_keys.get_push [where it = it])

lemma place_keeps:
  assumes "parts_ok it p" and "key_good it key" and "found it p e' key'"
  shows "found it (place_entry key e p) e' key'"
  using assms
  by (cases key; cases key') (simp_all add: place_entry_def parts_ok_def ident_keys.get_push [where it = it])

lemma place_entries: "part_entries (place_entry key e p) = insert e (part_entries p)"
  by (cases key) (auto simp: place_entry_def part_entries_def entries_push)

lemma place_pair: "next_pair (place_entry key e p) = next_pair p"
  by (cases key) (simp_all add: place_entry_def)

section \<open>The whole index\<close>

text \<open>The entries in the order they are filed, each with its selector.\<close>

definition entry_for :: "nat \<Rightarrow> 32 word \<Rightarrow> nat \<Rightarrow> selector \<Rightarrow> nat \<Rightarrow> indexed_selector" where
  "entry_for r rank s sel n =
     \<lparr>rule_index = r, selector_index = s, ix_specificity = (selector_specificity sel)\<lparr>layer := rank\<rparr>,
      pair_id = word_of_nat n\<rparr>"

fun flat_selectors :: "nat \<Rightarrow> 32 word \<Rightarrow> nat \<Rightarrow> selector list \<Rightarrow> nat \<Rightarrow> (indexed_selector \<times> selector) list" where
  "flat_selectors r rank s [] n = []"
| "flat_selectors r rank s (sel # sels) n =
     (entry_for r rank s sel n, sel) # flat_selectors r rank (Suc s) sels (Suc n)"

fun flat_rules :: "nat \<Rightarrow> (32 word \<times> style_rule) list \<Rightarrow> nat \<Rightarrow> (indexed_selector \<times> selector) list" where
  "flat_rules r [] n = []"
| "flat_rules r ((rank, rule) # rules) n =
     flat_selectors r rank 0 (fst rule) n @ flat_rules (Suc r) rules (n + length (fst rule))"

definition pair_count :: "(32 word \<times> style_rule) list \<Rightarrow> nat" where
  "pair_count rules = sum_list (map (\<lambda>(_, rule). length (fst rule)) rules)"

definition files :: "silk_interner \<Rightarrow> (indexed_selector \<times> selector) list \<Rightarrow> nat \<Rightarrow> index_parts \<Rightarrow> bool" where
  "files it L n p \<longleftrightarrow>
     parts_ok it p \<and> (\<forall>(e, sel) \<in> set L. found it p e (selector_key sel))
   \<and> part_entries p = fst ` set L \<and> next_pair p = word_of_nat n"

lemma found_next_pair [simp]: "found it (p\<lparr>next_pair := q\<rparr>) e key = found it p e key"
  by (cases key) simp_all

lemma parts_next_pair [simp]:
  "parts_ok it (p\<lparr>next_pair := q\<rparr>) = parts_ok it p"
  "part_entries (p\<lparr>next_pair := q\<rparr>) = part_entries p"
  by (simp_all add: parts_ok_def part_entries_def)

lemma files_selector:
  assumes "files it L n p" and "key_good it (selector_key sel)"
  shows "files it (L @ [(entry_for r rank s sel n, sel)]) (Suc n) (index_selector r rank s sel p)"
proof -
  let ?p = "p\<lparr>next_pair := next_pair p + 1\<rparr>" and ?e = "entry_for r rank s sel n"
  have eq: "index_selector r rank s sel p = place_entry (selector_key sel) ?e ?p"
    using assms(1) by (simp add: index_selector_def entry_for_def files_def)
  have ok: "parts_ok it ?p" using assms(1) by (simp add: files_def)
  show ?thesis
    using assms(1) place_ok [OF ok assms(2)] place_found [OF ok assms(2)]
      place_keeps [OF ok assms(2)] place_entries [of "selector_key sel" ?e ?p]
      place_pair [of "selector_key sel" ?e ?p]
    by (auto simp: files_def eq add.commute)
qed

lemma files_selectors:
  "files it L n p \<Longrightarrow> \<forall>sel \<in> set sels. key_good it (selector_key sel) \<Longrightarrow>
    files it (L @ flat_selectors r rank s sels n) (n + length sels) (index_selectors r rank s sels p)"
proof (induction sels arbitrary: L n p s)
  case (Cons sel sels)
  have "files it (L @ [(entry_for r rank s sel n, sel)]) (Suc n) (index_selector r rank s sel p)"
    using files_selector [OF Cons.prems(1)] Cons.prems(2) by simp
  from Cons.IH [OF this] show ?case using Cons.prems(2) by simp
qed simp

lemma files_rules:
  "files it L n p \<Longrightarrow> \<forall>(rank, rule) \<in> set rules. \<forall>sel \<in> set (fst rule). key_good it (selector_key sel) \<Longrightarrow>
    files it (L @ flat_rules r rules n) (n + pair_count rules) (index_rules r rules p)"
proof (induction rules arbitrary: L n p r)
  case (Cons x rules)
  obtain rank rule where x: "x = (rank, rule)" by (cases x)
  have "files it (L @ flat_selectors r rank 0 (fst rule) n) (n + length (fst rule))
      (index_selectors r rank 0 (fst rule) p)"
    using files_selectors [OF Cons.prems(1)] Cons.prems(2) x by auto
  from Cons.IH [OF this] show ?case using Cons.prems(2) x by (simp add: pair_count_def add.assoc)
qed (simp add: pair_count_def)

lemma files_new: "files it [] 0 index_parts_new"
  by (simp add: files_def index_parts_new_def parts_ok_def part_entries_def)

section \<open>What the flat list holds\<close>

lemma upt_front: "[n..<Suc (n + k)] = n # [Suc n..<Suc n + k]"
  by (subst upt_conv_Cons) simp_all

lemma upt_join: "[n..<n + (a + b)] = [n..<n + a] @ [n + a..<n + a + b]"
  using upt_add_eq_append [of n "n + a" b] by (simp add: add.assoc)

lemma flat_selectors_pairs:
  "map (pair_id \<circ> fst) (flat_selectors r rank s sels n) = map word_of_nat [n..<n + length sels]"
  by (induction sels arbitrary: s n) (simp_all add: entry_for_def upt_front del: upt_Suc)

lemma flat_rules_pairs:
  "map (pair_id \<circ> fst) (flat_rules r rules n) = map word_of_nat [n..<n + pair_count rules]"
  by (induction rules arbitrary: r n)
    (auto simp: pair_count_def upt_join flat_selectors_pairs)

lemma flat_selectors_mem:
  "(e, sel) \<in> set (flat_selectors r rank s sels n) \<longleftrightarrow>
     (\<exists>k < length sels. sel = sels ! k \<and> e = entry_for r rank (s + k) sel (n + k))"
proof (induction sels arbitrary: s n)
  case (Cons x sels)
  then show ?case by (auto simp: less_Suc_eq_0_disj)
qed simp

lemma flat_rules_mem:
  "(e, sel) \<in> set (flat_rules r rules n) \<Longrightarrow>
     \<exists>j < length rules. \<exists>k < length (fst (snd (rules ! j))).
       sel = fst (snd (rules ! j)) ! k \<and> rule_index e = r + j \<and> selector_index e = k
       \<and> ix_specificity e = (selector_specificity sel)\<lparr>layer := fst (rules ! j)\<rparr>"
proof (induction rules arbitrary: r n)
  case (Cons x rules)
  obtain rank rule where x: "x = (rank, rule)" by (cases x)
  show ?case
  proof (cases "(e, sel) \<in> set (flat_selectors r rank 0 (fst rule) n)")
    case True
    then show ?thesis using x by (auto simp: flat_selectors_mem entry_for_def intro!: exI [of _ 0])
  next
    case False
    then obtain j where "j < length rules \<and> (\<exists>k < length (fst (snd (rules ! j))).
       sel = fst (snd (rules ! j)) ! k \<and> rule_index e = Suc r + j \<and> selector_index e = k
       \<and> ix_specificity e = (selector_specificity sel)\<lparr>layer := fst (rules ! j)\<rparr>)"
      using Cons.IH [of "Suc r" "n + length (fst rule)"] Cons.prems x by auto
    then show ?thesis by (intro exI [of _ "Suc j"]) auto
  qed
qed simp

lemma flat_rules_has:
  "j < length rules \<Longrightarrow> sel \<in> set (fst (snd (rules ! j))) \<Longrightarrow>
     \<exists>e. (e, sel) \<in> set (flat_rules r rules n) \<and> rule_index e = r + j
       \<and> ix_specificity e = (selector_specificity sel)\<lparr>layer := fst (rules ! j)\<rparr>"
proof (induction rules arbitrary: j r n)
  case (Cons x rules)
  obtain rank rule where x: "x = (rank, rule)" by (cases x)
  show ?case
  proof (cases j)
    case 0
    then obtain k where k: "k < length (fst rule)" "sel = fst rule ! k"
      using Cons.prems x by (auto simp: in_set_conv_nth)
    then have "(entry_for r rank k sel (n + k), sel) \<in> set (flat_selectors r rank 0 (fst rule) n)"
      by (auto simp: flat_selectors_mem)
    then show ?thesis
      using 0 x by (intro exI [of _ "entry_for r rank k sel (n + k)"]) (simp add: entry_for_def)
  next
    case (Suc i)
    then show ?thesis using Cons.IH [of i "Suc r" "n + length (fst rule)"] Cons.prems x by auto
  qed
qed simp

text \<open>
  The pass over the candidates: the bit vector, the greatest specificity of each rule, and the theorem
  that matching through the index is matching every selector of every rule.
\<close>

section \<open>The greatest specificity\<close>

definition is_best :: "specificity set \<Rightarrow> specificity option \<Rightarrow> bool" where
  "is_best S x \<longleftrightarrow>
     (case x of None \<Rightarrow> S = {} | Some m \<Rightarrow> m \<in> S \<and> (\<forall>s \<in> S. spec_fields s \<le> spec_fields m))"

lemma spec_fields_inj: "spec_fields a = spec_fields b \<Longrightarrow> a = b"
  by (cases a; cases b) (simp add: spec_fields_def)

lemma is_best_unique: "is_best S x \<Longrightarrow> is_best S y \<Longrightarrow> x = y"
  by (cases x; cases y) (auto simp: is_best_def intro!: spec_fields_inj antisym)

lemma is_best_insert:
  "is_best S held \<Longrightarrow>
    is_best (insert s S)
      (case held of None \<Rightarrow> Some s | Some m \<Rightarrow> if spec_fields m < spec_fields s then Some s else Some m)"
  by (cases held) (auto simp: is_best_def)

lemma fold_max_best:
  "is_best S (Some m) \<Longrightarrow> is_best (S \<union> set ss) (Some (fold (\<lambda>x acc. spec_max acc x) ss m))"
proof (induction ss arbitrary: S m)
  case (Cons s ss)
  have "is_best (insert s S) (Some (spec_max m s))"
    using Cons.prems by (auto simp: is_best_def spec_max_def)
  from Cons.IH [OF this] show ?case by simp
qed simp

lemma max_specificity_best: "is_best (set ss) (max_specificity ss)"
proof (cases ss)
  case (Cons s ts)
  have "is_best {s} (Some s)" by (simp add: is_best_def)
  from fold_max_best [OF this, of ts] show ?thesis using Cons by simp
qed (simp add: is_best_def)

lemma record_match_length [simp]: "length (record_match r s matched) = length matched"
  by (simp add: record_match_def split: option.split)

lemma record_match_nth:
  "j < length matched \<Longrightarrow> record_match r s matched ! j =
    (if j = r then
       case matched ! r of None \<Rightarrow> Some s | Some m \<Rightarrow> if spec_fields m < spec_fields s then Some s else Some m
     else matched ! j)"
  by (auto simp: record_match_def split: option.split)

section \<open>The bit vector\<close>

definition bit_seen :: "64 word list \<Rightarrow> 32 word \<Rightarrow> bool" where
  "bit_seen seen p \<longleftrightarrow> and (seen ! unat (p div 64)) (bit_of p) \<noteq> 0"

lemma bit_seen_bit: "bit_seen seen p \<longleftrightarrow> bit (seen ! unat (p div 64)) (unat (p mod 64))"
  by (simp add: bit_seen_def bit_of_def bit_iff_and_push_bit_not_eq_0)

lemma pair_split: "unat (p div 64) = unat (q div 64) \<Longrightarrow> unat (p mod 64) = unat (q mod 64) \<Longrightarrow> p = (q :: 32 word)"
proof -
  assume u: "unat (p div 64) = unat (q div 64)" "unat (p mod 64) = unat (q mod 64)"
  have "p div 64 = q div 64" using u(1) by (rule unsigned_word_eqI)
  moreover have "p mod 64 = q mod 64" using u(2) by (rule unsigned_word_eqI)
  ultimately show "p = q" by (metis div_mult_mod_eq)
qed

lemma bit_seen_set:
  assumes "unat (p div 64) < length seen"
  shows "bit_seen (seen[unat (p div 64) := or (seen ! unat (p div 64)) (bit_of p)]) q \<longleftrightarrow>
    bit_seen seen q \<or> q = p"
proof (cases "unat (q div 64) = unat (p div 64)")
  case True
  have "unat (q mod 64) < 64"
    using unsigned_less [of "q mod 64", where ?'a = nat] by (simp add: unat_mod)
  moreover have "unat (q mod 64) = unat (p mod 64) \<longleftrightarrow> q = p"
    using pair_split [of q p] True by auto
  ultimately show ?thesis
    using True assms by (auto simp: bit_seen_bit bit_of_def bit_or_iff bit_push_bit_iff bit_1_iff bit_exp_iff possible_bit_def)
next
  case False
  then show ?thesis using assms by (auto simp: bit_seen_def)
qed

section \<open>The pass\<close>

text \<open>The specificities the entries in \<open>D\<close> give rule \<open>r\<close>, by the meaning \<open>q\<close> of their selectors.\<close>

definition given :: "(selector \<Rightarrow> bool) \<Rightarrow> (indexed_selector \<times> selector) set \<Rightarrow> nat \<Rightarrow> specificity set" where
  "given q D r = {ix_specificity e |e. \<exists>sel. (e, sel) \<in> D \<and> rule_index e = r \<and> q sel}"

lemma given_insert:
  "given q (insert (e, sel) D) r =
    (if rule_index e = r \<and> q sel then insert (ix_specificity e) (given q D r) else given q D r)"
  by (auto simp: given_def)

definition best_of :: "(selector \<Rightarrow> bool) \<Rightarrow> (indexed_selector \<times> selector) set \<Rightarrow> specificity option list \<Rightarrow> bool" where
  "best_of q D matched \<longleftrightarrow> (\<forall>r < length matched. is_best (given q D r) (matched ! r))"

lemma best_of_insert:
  assumes "best_of q D matched"
  shows "best_of q (insert (e, sel) D)
    (if q sel then record_match (rule_index e) (ix_specificity e) matched else matched)"
  using assms is_best_insert [of "given q D (rule_index e)"]
  by (auto simp: best_of_def given_insert record_match_nth)

text \<open>Candidates are entries of the flat list \<open>L\<close>, on which pairs are distinct and in range.\<close>

lemma match_loop_best:
  assumes m: "\<And>e sel. (e, sel) \<in> L \<Longrightarrow> m sel = Some (q sel) \<and> candidate_selector rules e = Some sel"
    and inj: "\<And>e sel f sel'. (e, sel) \<in> L \<Longrightarrow> (f, sel') \<in> L \<Longrightarrow> pair_id e = pair_id f \<Longrightarrow> (e, sel) = (f, sel')"
    and range: "\<And>e sel. (e, sel) \<in> L \<Longrightarrow> unat (pair_id e div 64) < words"
  shows "set es \<subseteq> fst ` L \<Longrightarrow> length seen = words \<Longrightarrow> D \<subseteq> L \<Longrightarrow> best_of q D matched \<Longrightarrow>
      \<forall>(e, sel) \<in> L. bit_seen seen (pair_id e) \<longrightarrow> (e, sel) \<in> D \<Longrightarrow>
    \<exists>seen' matched'. match_loop m rules es seen matched = Some (seen', matched')
      \<and> length matched' = length matched
      \<and> best_of q (D \<union> {x \<in> L. fst x \<in> set es}) matched'"
proof (induction es arbitrary: seen D matched)
  case (Cons e es)
  obtain sel where L: "(e, sel) \<in> L" using Cons.prems(1) by auto
  have only: "{x \<in> L. fst x \<in> set (e # es)} = insert (e, sel) {x \<in> L. fst x \<in> set es}"
    using L inj by auto
  let ?w = "unat (pair_id e div 64)"
  have w: "?w < length seen" using range [OF L] Cons.prems(2) by simp
  show ?case
  proof (cases "bit_seen seen (pair_id e)")
    case True
    then have "(e, sel) \<in> D" using Cons.prems(5) L by auto
    then have D: "D \<union> {x \<in> L. fst x \<in> set (e # es)} = D \<union> {x \<in> L. fst x \<in> set es}"
      using only by auto
    show ?thesis
      using Cons.IH [OF _ Cons.prems(2-5)] Cons.prems(1) True w
      unfolding D by (simp add: bit_seen_def)
  next
    case False
    let ?seen = "seen[?w := or (seen ! ?w) (bit_of (pair_id e))]"
    let ?matched = "if q sel then record_match (rule_index e) (ix_specificity e) matched else matched"
    have "\<forall>(f, sel') \<in> L. bit_seen ?seen (pair_id f) \<longrightarrow> (f, sel') \<in> insert (e, sel) D"
      using Cons.prems(5) inj L by (auto simp: bit_seen_set [OF w])
    moreover have "best_of q (insert (e, sel) D) ?matched" by (rule best_of_insert [OF Cons.prems(4)])
    moreover have "insert (e, sel) D \<subseteq> L" "set es \<subseteq> fst ` L" "length ?seen = words"
      using Cons.prems L by auto
    ultimately obtain seen' matched' where r: "match_loop m rules es ?seen ?matched = Some (seen', matched')"
        "length matched' = length matched" "best_of q (insert (e, sel) D \<union> {x \<in> L. fst x \<in> set es}) matched'"
      using Cons.IH [of ?seen "insert (e, sel) D" ?matched] by (auto split: if_splits)
    have "match_loop m rules (e # es) seen matched = match_loop m rules es ?seen ?matched"
      using False w m [OF L] by (simp add: bit_seen_def Let_def)
    then show ?thesis using r only by auto
  qed
qed auto

end
