(* ===== verification/Css_Index_Props.thy ===== *)
theory Css_Index_Props
  imports Css_Index_Exact
begin

text \<open>
  Matching through the index is matching every selector: a node that satisfies a selector presents the
  selector's key, and the pass keeps the greatest specificity of what matched.
\<close>

section \<open>The keys a node presents\<close>

lemma read_id_find:
  "distinct (map attr_name attrs) \<Longrightarrow> fold read_id_key attrs acc =
    (case find (\<lambda>a. attr_name a = AttrId) attrs of None \<Rightarrow> acc | Some a \<Rightarrow> read_id_key a acc)"
proof (induction attrs arbitrary: acc)
  case (Cons a attrs)
  have "find (\<lambda>b. attr_name b = AttrId) attrs = None" if "attr_name a = AttrId"
    using Cons.prems that by (force simp: find_None_iff)
  then show ?case using Cons by (auto simp: read_id_key_def split: option.split)
qed simp

lemma id_key_exact:
  assumes ok: "dom_ok d" and v: "attr_text d i AttrId = Some v" "v \<noteq> []"
  shows "\<exists>k. fold read_id_key (attrs_of d i) None = Some k \<and> key_ok (interner d) k \<and> ident_value k = v"
proof -
  obtain a where a: "attribute_record d i AttrId = Some a" "attr_value a = v"
    using v(1) by (auto simp: attr_text_def)
  note rec = attribute_recordD [OF ok a(1)]
  have inv: "interner_inv (interner d)" "distinct (map attr_name (attrs_of d i))"
    using ok by (auto simp: dom_ok_def atoms_inv_def)
  have "find (\<lambda>a. attr_name a = AttrId) (attrs_of d i) = Some a"
    using attribute_record_find [OF rec(1), of AttrId] a(1) by simp
  then have "fold read_id_key (attrs_of d i) None = read_id_key a None"
    using read_id_find [OF inv(2), of None] by simp
  then show ?thesis
    using a(2) v(2) rec(3) inv(1) value_atom_resolves [OF rec(4)]
    by (cases "value_atom a") (auto simp: read_id_key_def key_ok_def)
qed

definition tokens_intern :: "dom \<Rightarrow> bool" where
  "tokens_intern d \<longleftrightarrow>
     (\<forall>i t. attr_text d i AttrClass = Some t \<longrightarrow> list_all should_intern_identifier (split_whitespace t))"

lemma node_keys:
  assumes ok: "dom_ok d" and tok: "tokens_intern d" and el: "is_element d i"
  obtains t k cls where "node_tag_id_class d i = Some (Some t, k, cls)"
    "element_tag d i = Some t"
    "\<And>v. attr_text d i AttrId = Some v \<Longrightarrow> v \<noteq> [] \<Longrightarrow>
      \<exists>j. k = Some j \<and> key_ok (interner d) j \<and> ident_value j = v"
    "\<And>c. has_class d i c \<Longrightarrow> \<exists>j \<in> set cls. key_ok (interner d) j \<and> ident_value j = c"
proof -
  obtain t pfx ns where k: "knd d i = Element t pfx ns (attrs_of d i)"
    using el by (cases "knd d i") (auto simp: is_element_knd attrs_of_def)
  have i: "i < length (nodes d)" using el is_element_range by (simp add: is_element_knd)
  have inv: "interner_inv (interner d)" using ok by (auto simp: dom_ok_def atoms_inv_def)
  obtain cls where cls: "class_pass d (attrs_of d i) = Some cls"
    using class_pass_total [of "attrs_of d i" "interner d" d] ok by (auto simp: dom_ok_def atoms_inv_def)
  have ex: "list_all (ident_faithful (interner d)) cls" "c \<in> ident_value ` set cls \<longleftrightarrow> has_class d i c" for c
    using class_pass_exact [OF ok el cls] tok by (auto simp: tokens_intern_def)
  show ?thesis
  proof
    show "node_tag_id_class d i = Some (Some t, fold read_id_key (attrs_of d i) None, cls)"
      using k i cls by (simp add: node_tag_id_class_def ok_node_at knd_def)
    show "element_tag d i = Some t" using k by (simp add: element_tag_knd)
    show "\<exists>j. fold read_id_key (attrs_of d i) None = Some j \<and> key_ok (interner d) j \<and> ident_value j = v"
      if "attr_text d i AttrId = Some v" "v \<noteq> []" for v using id_key_exact [OF ok that] .
    show "\<exists>j \<in> set cls. key_ok (interner d) j \<and> ident_value j = c" if "has_class d i c" for c
      using ex(1) ex(2) [of c] that inv by (auto simp: list_all_iff key_ok_def)
  qed
qed

section \<open>The key of a selector\<close>

lemma key_loop_mem:
  "key_loop c ms = (Some n, c') \<Longrightarrow> IdMod n \<in> set ms"
  "key_loop c ms = (None, Some n) \<Longrightarrow> c = Some n \<or> ClassMod n \<in> set ms"
  by (induction c ms rule: key_loop.induct) (auto split: if_splits)

fun last_compound :: "selector \<Rightarrow> compound" where
  "last_compound (Selector steps) = step_compound (last steps)"

text \<open>What a compound's key says of it.\<close>

lemma compound_key_cases:
  assumes "compound_key (Compound ty ms) = key"
  shows "(\<exists>n. key = KeyId n \<and> IdMod n \<in> set ms) \<or> (\<exists>n. key = KeyClass n \<and> ClassMod n \<in> set ms)
    \<or> (\<exists>t. key = KeyTag t \<and> ty = Some (TagType t) \<and> \<not> list_ex ascii_upper (tag_as_str t)) \<or> key = KeyUniversal"
  using assms key_loop_mem [of None ms]
  by (cases "key_loop None ms") (auto split: option.splits type_selector.splits if_splits)

lemma sat_last:
  "sat_selector d i sel \<Longrightarrow> selector_key sel = compound_key (last_compound sel) \<and> sat_compound d i (last_compound sel)"
proof (cases sel)
  case (Selector steps)
  assume s: "sat_selector d i sel"
  then have ne: "steps \<noteq> []" using Selector by auto
  obtain comb cp where st: "last steps = SelectorStep comb cp" by (cases "last steps")
  have split: "rev steps = SelectorStep comb cp # rev (butlast steps)"
    using st ne by (cases steps rule: rev_cases) simp_all
  have "sat_steps d i (rev steps)" using s Selector by simp
  then have "sat_compound d i cp" unfolding split by simp
  then show ?thesis using Selector ne st by (simp add: selector_key_def)
qed

lemma selector_key_good:
  assumes "selector_ok d sel" and inv: "interner_inv (interner d)"
  shows "key_good (interner d) (selector_key sel) \<and> (\<forall>n. selector_key sel = KeyId n \<longrightarrow> ident_value n \<noteq> [])"
proof (cases sel)
  case (Selector steps)
  show ?thesis
  proof (cases "steps = []")
    case False
    obtain comb ty ms where st: "last steps = SelectorStep comb (Compound ty ms)"
      by (metis compound.exhaust selector_step.exhaust)
    have "last steps \<in> set steps" using False by simp
    then have all: "list_all (modifier_all (name_ok (interner d)) (value_ok (interner d))) ms"
      using assms(1) st Selector by (auto simp: selector_ok_def list_all_iff)
    have "compound_key (Compound ty ms) = selector_key sel"
      using Selector False st by (simp add: selector_key_def)
    then show ?thesis
      using compound_key_cases [of ty ms "selector_key sel"] all inv
      by (auto simp: list_all_iff key_ok_def name_ok_def)
  qed (simp add: Selector selector_key_def)
qed

section \<open>A matching selector is a candidate\<close>

definition tags_canonical :: "dom \<Rightarrow> bool" where
  "tags_canonical d \<longleftrightarrow>
     (\<forall>i t. element_tag d i = Some t \<longrightarrow> list_ex ascii_upper (tag_as_str t) \<or> tag_canonical t)"

definition key_tag_canonical :: "selector \<Rightarrow> bool" where
  "key_tag_canonical sel \<longleftrightarrow> (\<forall>t. selector_key sel = KeyTag t \<longrightarrow> tag_canonical t)"

lemma lower_only: "\<not> list_ex ascii_upper s \<Longrightarrow> to_ascii_lowercase s = s"
  by (induction s) (auto simp: to_ascii_lowercase_def lower_char_def)

lemma tag_from_lower: "to_ascii_lowercase s = to_ascii_lowercase t \<Longrightarrow> tag_from_str s = tag_from_str t"
  by (simp add: tag_from_str_def)

lemma tag_candidates_hit:
  assumes "type_selector_tag_matches d i actual t" and "tag_canonical t"
    and "list_ex ascii_upper (tag_as_str actual) \<or> tag_canonical actual"
  shows "set (bucket_get (=) t (tag_rules ix)) \<subseteq> set (collect_tag_candidates d i actual ix)"
proof (cases "actual = t")
  case False
  then have e: "element_namespace d i = NsHtml"
      "to_ascii_lowercase (tag_as_str actual) = to_ascii_lowercase (tag_as_str t)"
    using assms(1) by (auto simp: type_selector_tag_matches_def eq_ignore_ascii_case_def)
  then have t: "tag_from_str (tag_as_str actual) = t"
    using tag_from_lower [OF e(2)] assms(2) by (simp add: tag_canonical_def)
  then have "list_ex ascii_upper (tag_as_str actual)"
    using False assms(3) by (auto simp: tag_canonical_def)
  then show ?thesis using e(1) t by (auto simp: collect_tag_candidates_def)
qed (simp add: collect_tag_candidates_def)

definition parts_of :: "'f collected \<Rightarrow> index_parts" where
  "parts_of c = index_rules 0 (col_rules c) index_parts_new"

lemma index_of_parts [simp]:
  "tag_rules (index_of c b) = part_tags (parts_of c)" "id_rules (index_of c b) = part_ids (parts_of c)"
  "class_rules (index_of c b) = part_classes (parts_of c)"
  "universal_rules (index_of c b) = part_universal (parts_of c)"
  "active_rules (index_of c b) = map snd (col_rules c)"
  "total_selector_pairs (index_of c b) = unat (next_pair (parts_of c))"
  by (simp_all add: index_of_def parts_of_def Let_def)

lemma sat_is_candidate:
  assumes ok: "dom_ok d" "tokens_intern d" "tags_canonical d" and sel: "selector_ok d sel" "key_tag_canonical sel"
    and sat: "sat_selector d i sel" and found: "found (interner d) (parts_of c) e (selector_key sel)"
    and ws: "collect_candidate_rules d i (index_of c b) ws None = Some ws'"
  shows "e \<in> set (candidates ws')"
proof -
  obtain ty ms where cp: "last_compound sel = Compound ty ms" by (cases "last_compound sel")
  have key: "compound_key (Compound ty ms) = selector_key sel" and sc: "sat_compound d i (Compound ty ms)"
    using sat_last [OF sat] cp by simp_all
  have inv: "interner_inv (interner d)" using ok(1) by (auto simp: dom_ok_def atoms_inv_def)
  have good: "\<forall>n. selector_key sel = KeyId n \<longrightarrow> ident_value n \<noteq> []"
    by (rule conjunct2 [OF selector_key_good [OF sel(1) inv]])
  obtain t0 where "element_tag d i = Some t0" using sc by (auto simp: type_sat_def)
  then have el: "is_element d i" by (auto simp: is_element_knd element_tag_knd split: node_kind.splits)
  obtain t k cls where nk: "node_tag_id_class d i = Some (Some t, k, cls)" "element_tag d i = Some t"
    and by_id: "\<And>v. attr_text d i AttrId = Some v \<Longrightarrow> v \<noteq> [] \<Longrightarrow>
      \<exists>j. k = Some j \<and> key_ok (interner d) j \<and> ident_value j = v"
    and in_class: "\<And>c. has_class d i c \<Longrightarrow> \<exists>j \<in> set cls. key_ok (interner d) j \<and> ident_value j = c"
    using node_keys [OF ok(1,2) el] by metis
  have ws': "set (candidates ws') = set (candidates ws) \<union> set (collect_tag_candidates d i t (index_of c b))
      \<union> set (key_candidates (index_of c b) k cls) \<union> set (part_universal (parts_of c))"
    using ws nk(1) by (auto simp: collect_candidate_rules_def collect_dom_candidates_def)
  consider n where "selector_key sel = KeyId n" "IdMod n \<in> set ms"
    | n where "selector_key sel = KeyClass n" "ClassMod n \<in> set ms"
    | u where "selector_key sel = KeyTag u" "ty = Some (TagType u)"
    | "selector_key sel = KeyUniversal"
    using compound_key_cases [OF key] by blast
  then show ?thesis
  proof cases
    case (1 n)
    have "attr_text d i AttrId = Some (ident_value n)" "ident_value n \<noteq> []"
      using sc 1 good by auto
    then show ?thesis using by_id found 1(1) ws' by (fastforce simp: key_candidates_def)
  next
    case (2 n)
    have "has_class d i (ident_value n)" using sc 2(2) by auto
    then show ?thesis using in_class found 2(1) ws' by (fastforce simp: key_candidates_def)
  next
    case (3 u)
    have "type_selector_tag_matches d i t u" using sc 3(2) nk(2) by (auto simp: type_sat_def)
    then have "set (bucket_get (=) u (tag_rules (index_of c b))) \<subseteq> set (collect_tag_candidates d i t (index_of c b))"
      using sel(2) 3(1) ok(3) nk(2)
      by (intro tag_candidates_hit) (simp_all add: key_tag_canonical_def tags_canonical_def)
    then show ?thesis using found 3(1) ws' by auto
  qed (use found ws' in auto)
qed

section \<open>The theorem\<close>

definition rules_ok :: "dom \<Rightarrow> (32 word \<times> style_rule) list \<Rightarrow> bool" where
  "rules_ok d rules \<longleftrightarrow> pair_count rules < 2 ^ 32 \<and>
     (\<forall>(rank, rule) \<in> set rules. \<forall>sel \<in> set (fst rule). selector_ok d sel \<and> key_tag_canonical sel)"

text \<open>Every selector of a rule tried against the node, and the greatest specificity kept.\<close>

definition brute_match :: "dom \<Rightarrow> node_id \<Rightarrow> 32 word \<times> style_rule \<Rightarrow> specificity option" where
  "brute_match d i x =
     (case x of (rank, sels, _) \<Rightarrow>
        max_specificity (map (\<lambda>sel. (selector_specificity sel)\<lparr>layer := rank\<rparr>) (filter (sat_selector d i) sels)))"

lemma parts_file:
  assumes "dom_ok d" and "rules_ok d (col_rules c)"
  shows "files (interner d) (flat_rules 0 (col_rules c) 0) (pair_count (col_rules c)) (parts_of c)"
proof -
  have inv: "interner_inv (interner d)" using assms(1) by (auto simp: dom_ok_def atoms_inv_def)
  have "\<forall>(rank, rule) \<in> set (col_rules c). \<forall>sel \<in> set (fst rule). key_good (interner d) (selector_key sel)"
    using assms(2) selector_key_good [OF _ inv] by (auto simp: rules_ok_def)
  from files_rules [OF files_new this] show ?thesis by (simp add: parts_of_def)
qed

lemma collected_entries:
  assumes "dom_ok d" and "tokens_intern d"
  obtains ws' where "collect_candidate_rules d i (index_of c b) ws None = Some ws'"
    "set (candidates ws') \<subseteq> set (candidates ws) \<union> part_entries (parts_of c)"
    "seen_bits ws' = seen_bits ws" "matched_by_rule ws' = matched_by_rule ws"
proof -
  have bucket: "set (bucket_get (=) t (part_tags (parts_of c))) \<subseteq> part_entries (parts_of c)"
    "set (bucket_get key_eq k (part_ids (parts_of c))) \<subseteq> part_entries (parts_of c)"
    "set (bucket_get key_eq k (part_classes (parts_of c))) \<subseteq> part_entries (parts_of c)" for t k
    using get_entries by (force simp: part_entries_def)+
  have uni: "set (part_universal (parts_of c)) \<subseteq> part_entries (parts_of c)" by (auto simp: part_entries_def)
  have keys: "set (key_candidates (index_of c b) k cls) \<subseteq> part_entries (parts_of c)" for k cls
    by (auto simp: key_candidates_def split: option.splits dest: bucket(2,3) [THEN subsetD])
  have tags: "set (collect_tag_candidates d i t (index_of c b)) \<subseteq> part_entries (parts_of c)" for t
    by (auto simp: collect_tag_candidates_def split: if_splits dest: bucket(1) [THEN subsetD])
  obtain t k cls where n: "node_tag_id_class d i = Some (t, k, cls)"
  proof (cases "is_element d i")
    case True
    then show ?thesis using node_keys [OF assms True] that by metis
  next
    case False
    then have "node_tag_id_class d i = Some (None, None, [])"
      by (auto simp: node_tag_id_class_def ok_node_at is_element_knd knd_def split: node_kind.split)
    then show ?thesis using that by blast
  qed
  show ?thesis
  proof (rule that)
    show "collect_candidate_rules d i (index_of c b) ws None = Some
        (ws\<lparr>class_keys := cls, candidates := candidates ws
           @ (case t of Some t \<Rightarrow> collect_tag_candidates d i t (index_of c b) | None \<Rightarrow> [])
           @ key_candidates (index_of c b) k cls @ part_universal (parts_of c)\<rparr>)"
      using n by (simp add: collect_candidate_rules_def collect_dom_candidates_def)
  qed (auto split: option.splits dest: keys [THEN subsetD] tags [THEN subsetD] uni [THEN subsetD])
qed

lemma flat_pair_at:
  assumes "(e, sel) \<in> set (flat_rules 0 rules 0)"
  obtains n where "n < pair_count rules" "pair_id e = word_of_nat n" "flat_rules 0 rules 0 ! n = (e, sel)"
proof -
  let ?L = "flat_rules 0 rules 0"
  have len: "length ?L = pair_count rules" using arg_cong [OF flat_rules_pairs [of 0 rules 0], of length] by simp
  obtain n where n: "n < length ?L" "?L ! n = (e, sel)" using assms by (auto simp: in_set_conv_nth)
  have "map (pair_id \<circ> fst) ?L ! n = word_of_nat n"
    using n(1) len by (simp only: flat_rules_pairs) simp
  then show ?thesis using that [of n] n len by simp
qed

lemma flat_pairs_distinct:
  assumes small: "pair_count rules < 2 ^ 32"
    and "(e, sel) \<in> set (flat_rules 0 rules 0)" and "(f, sel') \<in> set (flat_rules 0 rules 0)"
    and "pair_id e = pair_id f"
  shows "(e, sel) = (f, sel')"
proof -
  obtain n where n: "n < pair_count rules" "pair_id e = word_of_nat n" "flat_rules 0 rules 0 ! n = (e, sel)"
    using flat_pair_at [OF assms(2)] .
  obtain k where k: "k < pair_count rules" "pair_id f = word_of_nat k" "flat_rules 0 rules 0 ! k = (f, sel')"
    using flat_pair_at [OF assms(3)] .
  have "unat (word_of_nat n :: 32 word) = n" "unat (word_of_nat k :: 32 word) = k"
    using n(1) k(1) small by (simp_all add: unat_of_nat)
  then have "n = k" using assms(4) n(2) k(2) by metis
  then show ?thesis using n(3) k(3) by simp
qed

lemma given_rule:
  assumes "j < length rules"
  shows "given q (set (flat_rules 0 rules 0)) j =
    set (map (\<lambda>sel. (selector_specificity sel)\<lparr>layer := fst (rules ! j)\<rparr>) (filter q (fst (snd (rules ! j)))))"
    (is "?l = ?r")
proof (intro equalityI subsetI)
  fix s assume "s \<in> ?l"
  then obtain e sel where e: "(e, sel) \<in> set (flat_rules 0 rules 0)" "rule_index e = j" "q sel"
    "s = ix_specificity e" by (auto simp: given_def)
  then show "s \<in> ?r" using flat_rules_mem [OF e(1)] by auto
next
  fix s assume "s \<in> ?r"
  then obtain sel where sel: "sel \<in> set (fst (snd (rules ! j)))" "q sel"
    "s = (selector_specificity sel)\<lparr>layer := fst (rules ! j)\<rparr>" by auto
  then obtain e where "(e, sel) \<in> set (flat_rules 0 rules 0)" "rule_index e = j" "ix_specificity e = s"
    using flat_rules_has [OF assms sel(1), of 0 0] by auto
  then show "s \<in> ?l" using sel(2) by (auto simp: given_def)
qed

lemma index_match_exact:
  assumes ok: "dom_ok d" "tokens_intern d" "tags_canonical d" and rules: "rules_ok d (col_rules c)"
  shows "\<exists>ws'. match_node d i (index_of c b) ws None = Some ws' \<and>
    matched_by_rule ws' = map (brute_match d i) (col_rules c)"
proof -
  let ?rules = "col_rules c" and ?q = "sat_selector d i"
  let ?L = "set (flat_rules 0 ?rules 0)" and ?N = "pair_count ?rules"
  let ?ws = "prepare (length (map snd ?rules)) ?N ws"
  have small: "?N < 2 ^ 32" using rules by (simp add: rules_ok_def)
  have files: "files (interner d) (flat_rules 0 ?rules 0) ?N (parts_of c)" by (rule parts_file [OF ok(1) rules])
  then have N: "unat (next_pair (parts_of c)) = ?N" using small by (simp add: files_def unat_of_nat)
  have sels: "selector_ok d sel \<and> key_tag_canonical sel" if "(e, sel) \<in> ?L" for e sel
    using flat_rules_mem [OF that] rules by (fastforce simp: rules_ok_def dest: nth_mem)
  obtain ws' where ws': "collect_candidate_rules d i (index_of c b) ?ws None = Some ws'"
    "set (candidates ws') \<subseteq> set (candidates ?ws) \<union> part_entries (parts_of c)"
    "seen_bits ws' = seen_bits ?ws" "matched_by_rule ws' = matched_by_rule ?ws"
    using collected_entries [OF ok(1,2)] .
  have sub: "set (candidates ws') \<subseteq> fst ` ?L"
    using ws'(2) files by (simp add: prepare_def files_def)
  have m: "matches_selector_inner None d i sel = Some (?q sel) \<and> candidate_selector (map snd ?rules) e = Some sel"
    if "(e, sel) \<in> ?L" for e sel
    using selectors_evaluate(1) [OF ok(1)] sels [OF that] flat_rules_mem [OF that]
    by (auto simp: selector_ok_def candidate_selector_def)
  have range: "unat (pair_id e div 64) < (?N + 63) div 64" if L: "(e, sel) \<in> ?L" for e sel
  proof -
    obtain n where "n < ?N" "pair_id e = word_of_nat n" using flat_pair_at [OF L] .
    then show ?thesis using small by (simp add: unat_div unat_of_nat)
  qed
  have none: "\<not> bit_seen (seen_bits ?ws) (pair_id e)" if "(e, sel) \<in> ?L" for e sel
    using range [OF that] by (simp add: bit_seen_def prepare_def)
  have start: "best_of ?q {} (matched_by_rule ?ws)"
    by (simp add: best_of_def prepare_def given_def is_best_def)
  have "\<exists>seen' matched'.
    match_loop (matches_selector_inner None d i) (map snd ?rules) (candidates ws') (seen_bits ?ws)
      (matched_by_rule ?ws) = Some (seen', matched')
    \<and> length matched' = length (matched_by_rule ?ws)
    \<and> best_of ?q ({} \<union> {x \<in> ?L. fst x \<in> set (candidates ws')}) matched'"
  proof (rule match_loop_best [where words = "(?N + 63) div 64"])
    show "(e, sel) = (f, sel')" if "(e, sel) \<in> ?L" "(f, sel') \<in> ?L" "pair_id e = pair_id f" for e sel f sel'
      using flat_pairs_distinct [OF small that] .
    show "best_of ?q {} (matched_by_rule ?ws)" by (rule start)
  qed (use m range sub none in \<open>auto simp: prepare_def\<close>)
  then obtain seen' matched' where r:
    "match_loop (matches_selector_inner None d i) (map snd ?rules) (candidates ws') (seen_bits ?ws)
       (matched_by_rule ?ws) = Some (seen', matched')"
    "length matched' = length (matched_by_rule ?ws)"
    "best_of ?q {x \<in> ?L. fst x \<in> set (candidates ws')} matched'"
    by auto
  have "e \<in> set (candidates ws')" if "(e, sel) \<in> ?L" "?q sel" for e sel
    using sat_is_candidate [OF ok _ _ that(2) _ ws'(1)] sels [OF that(1)] files that(1)
    by (auto simp: files_def)
  then have "given ?q {x \<in> ?L. fst x \<in> set (candidates ws')} j = given ?q ?L j" for j
    unfolding given_def by force
  then have "is_best (given ?q ?L j) (matched' ! j)" if "j < length ?rules" for j
    using r(2,3) that by (simp add: best_of_def prepare_def)
  then have "matched' ! j = brute_match d i (?rules ! j)" if "j < length ?rules" for j
    using that is_best_unique [OF _ max_specificity_best]
    by (simp add: given_rule brute_match_def case_prod_beta)
  moreover have "length matched' = length ?rules" using r(2) by (simp add: prepare_def)
  ultimately have "matched' = map (brute_match d i) ?rules" by (intro nth_equalityI) simp_all
  then show ?thesis
    using ws' r(1) N by (simp add: match_node_def match_candidate_rules_def)
qed

text \<open>C22: For every reachable document whose class names are short enough to be interned, an index built
  over sheets matches any node as trying every selector would: the entry of each active rule is the
  greatest specificity among the rule's selectors that the node satisfies by strings and tree alone,
  with the rank of the rule's layer, and nothing when none does; no candidate is missed by a hash
  map, taken twice or skipped by the bit vector.
\<close>

theorem index_matches_every_selector:
  assumes "dom_reachable inst d" and "length (interned (interner d)) \<le> 2 ^ 32" and "length (nodes d) < 2 ^ 31"
    and "tokens_intern d" and "tags_canonical d"
    and "flatten_active_rules E sheets = Some c" and "rules_ok d (col_rules c)"
  shows "\<exists>ix. for_viewport_sheets E sheets n = Some (ix, n + 1) \<and>
    (\<forall>i ws. \<exists>ws'. match_node d i ix ws None = Some ws' \<and>
      matched_by_rule ws' = map (brute_match d i) (col_rules c))"
  using index_match_exact [OF reachable_dom_ok [OF assms(1-3)] assms(4,5,7)] assms(6)
  by (simp add: for_viewport_sheets_def)

lemma radio_tags: "tags_canonical radio_dom"
proof -
  have "element_tag radio_dom i = Some t \<Longrightarrow> t \<in> {TagForm, TagInput, TagHtml, TagBody, TagDiv}" for i t
  proof -
    have "i = 0 \<or> i = 1 \<or> i = 2 \<or> i = 3 \<or> 4 \<le> i" by arith
    then show "element_tag radio_dom i = Some t \<Longrightarrow> ?thesis"
      by (elim disjE) (simp_all add: element_tag_knd knd_def radio_value nth_Cons')
  qed
  moreover have "\<forall>t \<in> {TagForm, TagInput, TagHtml, TagBody, TagDiv}. tag_canonical t"
    by (simp add: tag_canonical_def) code_simp
  ultimately show ?thesis unfolding tags_canonical_def by blast
qed

theorem index_matches_every_selector_witness:
  "\<forall>E :: unit cascade_env. \<exists>ix. for_viewport_sheets E [[StyleRule [example_selector] []]] 0 = Some (ix, 1) \<and>
    (\<exists>ws'. match_node radio_dom 3 ix (workspace_new 0) None = Some ws' \<and>
      matched_by_rule ws' = [brute_match radio_dom 3 (UNLAYERED, [example_selector], [])])"
proof
  fix E :: "unit cascade_env"
  let ?c = "collected_new\<lparr>col_rules := [(UNLAYERED, [example_selector], [])]\<rparr> :: unit collected"
  have c: "flatten_active_rules E [[StyleRule [example_selector] []]] = Some ?c"
    by (simp add: flatten_active_rules_def collect_style_def layer_rank_def collected_new_def)
  have t: "tokens_intern radio_dom" by (simp add: tokens_intern_def radio_class)
  have r: "rules_ok radio_dom (col_rules ?c)"
    using example_selector_ok
    by (simp add: rules_ok_def pair_count_def key_tag_canonical_def selector_key_def example_selector_def)
      (simp add: tag_canonical_def tag_from_str_def tag_table_def to_ascii_lowercase_def lower_char_def ascii_upper_def)
  show "\<exists>ix. for_viewport_sheets E [[StyleRule [example_selector] []]] 0 = Some (ix, 1) \<and>
    (\<exists>ws'. match_node radio_dom 3 ix (workspace_new 0) None = Some ws' \<and>
      matched_by_rule ws' = [brute_match radio_dom 3 (UNLAYERED, [example_selector], [])])"
    using index_matches_every_selector [OF radio_reachable radio_sizes(1) _ t radio_tags c r, of 0]
    by (simp add: radio_sizes) blast
qed

text \<open>A class name too long to be interned, beside a short one: the element has the class, but the keys it
  presents to the index leave the name out.\<close>

lemma long_class_is_missed:
  assumes "attr_atoms_ok it a" and "attr_name a = AttrClass"
    and "c \<in> set (split_whitespace (attr_value a))" and "\<not> should_intern_identifier c"
    and "s \<in> set (split_whitespace (attr_value a))" and "should_intern_identifier s"
  shows "\<exists>js. class_pass_attr d a = Some js \<and> c \<notin> ident_value ` set js"
proof -
  have empty: "split_whitespace [] = []" by (simp add: split_whitespace_def)
  have strs: "class_strings a = class_tokens (attr_value a)" using assms(1,2) by (simp add: attr_atoms_ok_def)
  have "s \<in> set (class_tokens (attr_value a))" "c \<notin> set (class_tokens (attr_value a))"
    using assms(3-6) empty by (auto simp: class_tokens_def)
  then show ?thesis
    using strs by (auto simp: class_pass_attr_def dest: set_zip_leftD)
qed

end
