(* ===== verification/Css_Cascade.thy ===== *)
theory Css_Cascade
  imports Css_Index Css_Variables
begin

text \<open>
  Which declaration wins (\<open>crates/silksurf-css/src/style.rs\<close>): \<open>ResolvedProperty\<close>, the slots of typed
  values and of CSS-wide keywords, custom properties with their registrations, and the order in which
  the matched rules and the \<open>style\<close> attribute are applied. Parsing a value into its slot
  (\<open>apply_declaration\<close>) is an argument of the walk. A result is \<open>None\<close> where the tokenizer panics or
  the substitution of \<open>var()\<close> does not end.
\<close>

section \<open>Slots\<close>

record 'v resolved_property =
  rp_value :: 'v
  rp_important :: bool
  rp_specificity :: specificity
  rp_order :: nat

definition should_override :: "'v resolved_property \<Rightarrow> 'w resolved_property \<Rightarrow> bool" where
  "should_override held offer =
     (if rp_important held \<noteq> rp_important offer then rp_important offer
      else
        (let h = cascade_key (rp_specificity held) (rp_important held);
             n = cascade_key (rp_specificity offer) (rp_important offer)
         in if h \<noteq> n then h < n else rp_order held < rp_order offer))"

definition apply_property ::
    "'v \<Rightarrow> bool \<Rightarrow> specificity \<Rightarrow> nat \<Rightarrow> 'v resolved_property option \<Rightarrow> 'v resolved_property option" where
  "apply_property v important s n slot =
     (let offer = \<lparr>rp_value = v, rp_important = important, rp_specificity = s, rp_order = n\<rparr>
      in case slot of
           Some held \<Rightarrow> if should_override held offer then Some offer else slot
         | None \<Rightarrow> Some offer)"

section \<open>CSS-wide keywords\<close>

datatype cascade_keyword = KwInherit | KwInitial | KwUnset

fun detect_cascade_keyword :: "css_token list \<Rightarrow> cascade_keyword option" where
  "detect_cascade_keyword [] = None"
| "detect_cascade_keyword (t # ts) =
     (case t of
        Ident ident \<Rightarrow>
          (let lower = to_ascii_lowercase ident
           in if lower = ''inherit'' then Some KwInherit
              else if lower = ''initial'' then Some KwInitial
              else if lower = ''unset'' then Some KwUnset
              else detect_cascade_keyword ts)
      | _ \<Rightarrow> detect_cascade_keyword ts)"

type_synonym keyword_slots = "property_id \<rightharpoonup> cascade_keyword resolved_property"

definition apply_keyword ::
    "property_id \<Rightarrow> cascade_keyword \<Rightarrow> bool \<Rightarrow> specificity \<Rightarrow> nat \<Rightarrow> keyword_slots \<Rightarrow> keyword_slots" where
  "apply_keyword pid kw important s n slots =
     (let offer = \<lparr>rp_value = kw, rp_important = important, rp_specificity = s, rp_order = n\<rparr>
      in case slots pid of
           Some held \<Rightarrow> if \<not> should_override held offer then slots else slots(pid \<mapsto> offer)
         | None \<Rightarrow> slots(pid \<mapsto> offer))"

text \<open>The identifiers a keyword reaches: the longhands of a shorthand the code expands, or itself.\<close>

definition keyword_targets :: "property_id \<Rightarrow> property_id list" where
  "keyword_targets pid =
     (if pid = PropMargin then [PropMarginTop, PropMarginRight, PropMarginBottom, PropMarginLeft]
      else if pid = PropPadding then [PropPaddingTop, PropPaddingRight, PropPaddingBottom, PropPaddingLeft]
      else if pid = PropOverflow then [PropOverflowX, PropOverflowY]
      else if pid = PropGap then [PropGap, PropRowGap, PropColumnGap]
      else if pid = PropFlexFlow then [PropFlexDirection, PropFlexWrap]
      else if pid = PropFlex then [PropFlexGrow, PropFlexShrink, PropFlexBasis]
      else if pid = PropBorder then
        [PropBorderTop, PropBorderRight, PropBorderBottom, PropBorderLeft, PropBorderStyle, PropBorderColor]
      else if pid = PropBorderWidth then [PropBorderTop, PropBorderRight, PropBorderBottom, PropBorderLeft]
      else [pid])"

text \<open>The keyword arm of \<open>apply_declaration\<close>: \<open>None\<close> when the value holds no keyword.\<close>

definition apply_keyword_declaration ::
    "css_declaration \<Rightarrow> specificity \<Rightarrow> nat \<Rightarrow> keyword_slots \<Rightarrow> keyword_slots option" where
  "apply_keyword_declaration d s n slots =
     (case detect_cascade_keyword (decl_value d) of
        None \<Rightarrow> None
      | Some kw \<Rightarrow>
          Some (if decl_property d = PropUnknown then slots
                else fold (\<lambda>pid. apply_keyword pid kw (decl_important d) s n)
                  (keyword_targets (decl_property d)) slots))"

definition keyword_beats :: "cascade_keyword resolved_property \<Rightarrow> 'v resolved_property \<Rightarrow> bool" where
  "keyword_beats kw typed =
     (if rp_important kw \<noteq> rp_important typed then rp_important kw
      else if rp_specificity kw \<noteq> rp_specificity typed
           then spec_fields (rp_specificity typed) < spec_fields (rp_specificity kw)
      else rp_order typed < rp_order kw)"

definition keyword_beats_typed ::
    "cascade_keyword resolved_property option \<Rightarrow> 'v resolved_property option \<Rightarrow> bool" where
  "keyword_beats_typed kw typed =
     (case (kw, typed) of
        (None, _) \<Rightarrow> False
      | (Some _, None) \<Rightarrow> True
      | (Some k, Some t) \<Rightarrow> keyword_beats k t)"

definition or_else :: "'a option \<Rightarrow> 'a option \<Rightarrow> 'a option" where
  "or_else a b = (case a of Some v \<Rightarrow> Some v | None \<Rightarrow> b)"

definition unwrap_or :: "'a option \<Rightarrow> 'a \<Rightarrow> 'a" where
  "unwrap_or a d = (case a of Some v \<Rightarrow> v | None \<Rightarrow> d)"

definition resolve_inherited_kw ::
    "'v resolved_property option \<Rightarrow> cascade_keyword resolved_property option \<Rightarrow> 'v option \<Rightarrow> 'v \<Rightarrow> 'v" where
  "resolve_inherited_kw typed kw parent_val start =
     (if keyword_beats_typed kw typed then
        (case rp_value (the kw) of
           KwInitial \<Rightarrow> start
         | _ \<Rightarrow> unwrap_or parent_val start)
      else unwrap_or (or_else (map_option rp_value typed) parent_val) start)"

definition resolve_non_inherited_kw ::
    "'v resolved_property option \<Rightarrow> cascade_keyword resolved_property option \<Rightarrow> 'v option \<Rightarrow> 'v \<Rightarrow> 'v" where
  "resolve_non_inherited_kw typed kw parent_val start =
     (if keyword_beats_typed kw typed then
        (case rp_value (the kw) of
           KwInherit \<Rightarrow> unwrap_or parent_val start
         | _ \<Rightarrow> start)
      else unwrap_or (map_option rp_value typed) start)"

section \<open>The style attribute\<close>

definition INLINE_STYLE_SPECIFICITY :: specificity where
  "INLINE_STYLE_SPECIFICITY =
     \<lparr>element_attached = True, layer = UNLAYERED, spec_ids = 0, classes = 0, elements = 0\<rparr>"

definition inline_style_text :: "dom \<Rightarrow> node_id \<Rightarrow> string option" where
  "inline_style_text d i =
     Option.bind (ok (attributes d i))
       (\<lambda>attrs. map_option attr_value (find (\<lambda>a. attr_matches (attr_name a) ''style'') attrs))"

definition element_declares_custom_property :: "dom \<Rightarrow> node_id \<Rightarrow> bool" where
  "element_declares_custom_property d i =
     (case inline_style_text d i of Some s \<Rightarrow> contains_str s ''--'' | None \<Rightarrow> False)"

text \<open>The declarations of the attribute: none without one or when its text does not tokenize.\<close>

definition inline_declarations :: "search_fn \<Rightarrow> dom \<Rightarrow> node_id \<Rightarrow> css_declaration list option" where
  "inline_declarations search d i =
     (case inline_style_text d i of
        None \<Rightarrow> Some []
      | Some s \<Rightarrow>
          map_option (\<lambda>r. case r of Inl _ \<Rightarrow> [] | Inr ds \<Rightarrow> ds) (parse_declaration_list search s))"

definition inline_custom_property_declarations ::
    "search_fn \<Rightarrow> dom \<Rightarrow> node_id \<Rightarrow> css_declaration list option" where
  "inline_custom_property_declarations search d i =
     map_option (filter (\<lambda>x. starts_with ''--'' (decl_name x))) (inline_declarations search d i)"

section \<open>Custom properties\<close>

type_synonym custom_rank = "bool \<times> specificity \<times> nat"

definition custom_property_wins :: "custom_rank \<Rightarrow> custom_rank \<Rightarrow> bool" where
  "custom_property_wins offer held =
     (let (i, s, n) = offer; (i', s', n') = held
      in if i \<and> \<not> i' then True
         else if \<not> i \<and> i' then False
         else (cascade_key s' i', n') \<le> (cascade_key s i, n))"

type_synonym custom_state = "(string \<rightharpoonup> custom_rank) \<times> (string \<times> css_token list) list"

fun replace_value :: "string \<Rightarrow> css_token list \<Rightarrow> (string \<times> css_token list) list \<Rightarrow> (string \<times> css_token list) list" where
  "replace_value name v [] = []"
| "replace_value name v ((n, w) # ds) = (if n = name then (n, v) # ds else (n, w) # replace_value name v ds)"

definition record_custom_property :: "string \<Rightarrow> css_token list \<Rightarrow> custom_rank \<Rightarrow> custom_state \<Rightarrow> custom_state" where
  "record_custom_property name v rank st =
     (let (winners, declared) = st
      in case winners name of
           Some held \<Rightarrow>
             if \<not> custom_property_wins rank held then st
             else (winners(name \<mapsto> rank), replace_value name v declared)
         | None \<Rightarrow> (winners(name \<mapsto> rank), declared @ [(name, v)]))"

definition registration_unsatisfied :: "custom_property_map \<Rightarrow> property_registration \<Rightarrow> bool" where
  "registration_unsatisfied m r =
     (if reg_inherits r then cp_get (reg_name r) m = None
      else cp_get (reg_name r) m \<noteq> Some (reg_initial r))"

definition apply_registration :: "property_registration \<Rightarrow> custom_property_map \<Rightarrow> custom_property_map" where
  "apply_registration r m =
     (if reg_inherits r \<and> cp_get (reg_name r) m \<noteq> None then m else cp_set (reg_name r) (reg_initial r) m)"

definition apply_registrations :: "property_registration list \<Rightarrow> custom_property_map \<Rightarrow> custom_property_map" where
  "apply_registrations rs inherited =
     (if rs = [] \<or> \<not> list_ex (registration_unsatisfied inherited) rs then inherited
      else fold apply_registration rs inherited)"

text \<open>The specificity of a rule for this node, if it matched.\<close>

definition rule_matched :: "specificity option list \<Rightarrow> nat \<Rightarrow> specificity option" where
  "rule_matched matched r = (if r < length matched then matched ! r else None)"

text \<open>A rule's declarations, or the attribute's, in order: each takes the next number.\<close>

fun record_declarations ::
    "css_declaration list \<Rightarrow> specificity \<Rightarrow> nat \<times> custom_state \<Rightarrow> nat \<times> custom_state" where
  "record_declarations [] s x = x"
| "record_declarations (d # ds) s (n, st) =
     record_declarations ds s
       (n + 1,
        if starts_with ''--'' (decl_name d)
        then record_custom_property (decl_name d) (decl_value d) (decl_important d, s, n + 1) st else st)"

fun record_rules ::
    "style_rule list \<Rightarrow> nat \<Rightarrow> specificity option list \<Rightarrow> nat \<times> custom_state \<Rightarrow> nat \<times> custom_state" where
  "record_rules [] r matched x = x"
| "record_rules (rule # rules) r matched x =
     record_rules rules (Suc r) matched
       (case rule_matched matched r of
          None \<Rightarrow> x
        | Some s \<Rightarrow> record_declarations (snd rule) s x)"

definition resolve_custom_properties ::
    "search_fn \<Rightarrow> dom \<Rightarrow> node_id \<Rightarrow> 'f style_index \<Rightarrow> specificity option list \<Rightarrow> custom_property_map option \<Rightarrow>
     custom_property_map option" where
  "resolve_custom_properties search d i ix matched parent_map =
     (let inherited = apply_registrations (registrations ix) (unwrap_or parent_map Map.empty)
      in if \<not> declares_custom_properties ix \<and> \<not> element_declares_custom_property d i then Some inherited
         else
           (let (n, st) = record_rules (active_rules ix) 0 matched (0, Map.empty, [])
            in case inline_custom_property_declarations search d i of
                 None \<Rightarrow> None
               | Some ds \<Rightarrow>
                   (let declared = snd (snd (record_declarations ds INLINE_STYLE_SPECIFICITY (n, st)))
                    in Some (fold (\<lambda>(name, v). cp_set name v) declared inherited))))"

section \<open>Applying declarations\<close>

definition value_references_var :: "css_token list \<Rightarrow> bool" where
  "value_references_var ts = list_ex is_var ts"

text \<open>\<open>apply\<close> stands for \<open>apply_declaration\<close> on the style \<open>c\<close>.\<close>

definition apply_substituted_declaration ::
    "(css_declaration \<Rightarrow> specificity \<Rightarrow> nat \<Rightarrow> 'c \<Rightarrow> 'c) \<Rightarrow> custom_property_map \<Rightarrow> css_declaration \<Rightarrow> specificity \<Rightarrow>
     nat \<Rightarrow> 'c \<Rightarrow> 'c option" where
  "apply_substituted_declaration apply m d s n c =
     (if starts_with ''--'' (decl_name d) then Some c
      else if \<not> value_references_var (decl_value d) then Some (apply d s n c)
      else map_option (\<lambda>v. if v = [] then c else apply (d\<lparr>decl_value := v\<rparr>) s n c)
        (resolve_var_references m (decl_value d)))"

fun apply_declarations ::
    "(css_declaration \<Rightarrow> specificity \<Rightarrow> nat \<Rightarrow> 'c \<Rightarrow> 'c) \<Rightarrow> custom_property_map \<Rightarrow> css_declaration list \<Rightarrow>
     specificity \<Rightarrow> nat \<times> 'c \<Rightarrow> (nat \<times> 'c) option" where
  "apply_declarations apply m [] s x = Some x"
| "apply_declarations apply m (d # ds) s (n, c) =
     (case apply_substituted_declaration apply m d s (n + 1) c of
        None \<Rightarrow> None
      | Some c \<Rightarrow> apply_declarations apply m ds s (n + 1, c))"

fun apply_matched_rules ::
    "(css_declaration \<Rightarrow> specificity \<Rightarrow> nat \<Rightarrow> 'c \<Rightarrow> 'c) \<Rightarrow> custom_property_map \<Rightarrow> style_rule list \<Rightarrow> nat \<Rightarrow>
     specificity option list \<Rightarrow> nat \<times> 'c \<Rightarrow> (nat \<times> 'c) option" where
  "apply_matched_rules apply m [] r matched x = Some x"
| "apply_matched_rules apply m (rule # rules) r matched x =
     (case rule_matched matched r of
        None \<Rightarrow> apply_matched_rules apply m rules (Suc r) matched x
      | Some s \<Rightarrow>
          (case apply_declarations apply m (snd rule) s x of
             None \<Rightarrow> None
           | Some x \<Rightarrow> apply_matched_rules apply m rules (Suc r) matched x))"

definition apply_inline_style_attribute ::
    "search_fn \<Rightarrow> (css_declaration \<Rightarrow> specificity \<Rightarrow> nat \<Rightarrow> 'c \<Rightarrow> 'c) \<Rightarrow> custom_property_map \<Rightarrow> dom \<Rightarrow> node_id \<Rightarrow>
     nat \<times> 'c \<Rightarrow> (nat \<times> 'c) option" where
  "apply_inline_style_attribute search apply m d i x =
     (case inline_declarations search d i of
        None \<Rightarrow> None
      | Some ds \<Rightarrow> apply_declarations apply m ds INLINE_STYLE_SPECIFICITY x)"

text \<open>\<open>cascade_for_node\<close>: the custom properties, the style and the workspace for the next node.\<close>

definition cascade_for_node ::
    "search_fn \<Rightarrow> (css_declaration \<Rightarrow> specificity \<Rightarrow> nat \<Rightarrow> 'c \<Rightarrow> 'c) \<Rightarrow> 'c \<Rightarrow> dom \<Rightarrow> node_id \<Rightarrow> 'f style_index \<Rightarrow>
     cascade_workspace \<Rightarrow> cascade_view option \<Rightarrow> custom_property_map option \<Rightarrow>
     (custom_property_map \<times> 'c \<times> cascade_workspace) option" where
  "cascade_for_node search apply start d i ix ws view parent_map =
     (case match_node d i ix ws view of
        None \<Rightarrow> None
      | Some ws \<Rightarrow>
          (case resolve_custom_properties search d i ix (matched_by_rule ws) parent_map of
             None \<Rightarrow> None
           | Some m \<Rightarrow>
               (case apply_matched_rules apply m (active_rules ix) 0 (matched_by_rule ws) (0, start) of
                  None \<Rightarrow> None
                | Some x \<Rightarrow>
                    map_option (\<lambda>(n, c). (m, c, ws)) (apply_inline_style_attribute search apply m d i x))))"

end
