(* ===== verification/Css_Cascade_Props.thy ===== *)
theory Css_Cascade_Props
  imports Css_Cascade Css_Index_Props
begin

text \<open>
  The winner of a cascade: whatever is offered to a slot, in whatever order, the slot ends with an offer of
  the greatest rank. The contract is a locale with three instances: a typed slot, a keyword slot and
  a custom property.
\<close>

section \<open>Slots that keep the greatest\<close>

text \<open>A store with a slot for each key; an offer touches the slot of its key only.\<close>

locale ranked_store =
  fixes offer :: "'x \<Rightarrow> 's \<Rightarrow> 's" and held :: "'k \<Rightarrow> 's \<Rightarrow> 'x option" and inv :: "'s \<Rightarrow> bool"
    and key :: "'x \<Rightarrow> 'k" and rank :: "'x \<Rightarrow> 'r :: linorder"
  assumes inv_offer: "inv s \<Longrightarrow> inv (offer x s)"
    and other_offer: "inv s \<Longrightarrow> k \<noteq> key x \<Longrightarrow> held k (offer x s) = held k s"
    and held_key: "inv s \<Longrightarrow> held k s = Some w \<Longrightarrow> key w = k"
    and held_offer: "inv s \<Longrightarrow> \<exists>w. held (key x) (offer x s) = Some w
      \<and> (w = x \<or> held (key x) s = Some w) \<and> rank x \<le> rank w
      \<and> (\<forall>h. held (key x) s = Some h \<longrightarrow> rank h \<le> rank w)"
begin

text \<open>Each slot holds one of the offers \<open>S\<close> made to it, and none of them outranks it.\<close>

definition keeps :: "'x set \<Rightarrow> 's \<Rightarrow> bool" where
  "keeps S s \<longleftrightarrow> inv s \<and>
     (\<forall>k. case held k s of
            None \<Rightarrow> \<forall>x \<in> S. key x \<noteq> k
          | Some w \<Rightarrow> w \<in> S \<and> key w = k \<and> (\<forall>x \<in> S. key x = k \<longrightarrow> rank x \<le> rank w))"

lemma keeps_slot:
  assumes "keeps S s"
  shows "held k s = None \<Longrightarrow> \<forall>x \<in> S. key x \<noteq> k"
    and "held k s = Some w \<Longrightarrow> w \<in> S \<and> key w = k \<and> (\<forall>x \<in> S. key x = k \<longrightarrow> rank x \<le> rank w)"
proof -
  have "case held k s of
      None \<Rightarrow> \<forall>x \<in> S. key x \<noteq> k
    | Some w \<Rightarrow> w \<in> S \<and> key w = k \<and> (\<forall>x \<in> S. key x = k \<longrightarrow> rank x \<le> rank w)"
    using assms unfolding keeps_def by blast
  then show "held k s = None \<Longrightarrow> \<forall>x \<in> S. key x \<noteq> k"
    and "held k s = Some w \<Longrightarrow> w \<in> S \<and> key w = k \<and> (\<forall>x \<in> S. key x = k \<longrightarrow> rank x \<le> rank w)"
    by simp_all
qed

lemma keeps_offer:
  assumes "keeps S s" shows "keeps (insert x S) (offer x s)"
proof -
  have inv: "inv s" using assms by (simp add: keeps_def)
  obtain w where w: "held (key x) (offer x s) = Some w" "w = x \<or> held (key x) s = Some w" "rank x \<le> rank w"
      "\<And>h. held (key x) s = Some h \<Longrightarrow> rank h \<le> rank w"
    using held_offer [OF inv, of x] by blast
  have above: "rank y \<le> rank w" if "y \<in> S" "key y = key x" for y
  proof (cases "held (key x) s")
    case None
    then show ?thesis using keeps_slot(1) [OF assms None] that by force
  next
    case (Some h)
    then have "rank y \<le> rank h" using keeps_slot(2) [OF assms Some] that by simp
    then show ?thesis using w(4) [OF Some] by (rule order_trans)
  qed
  have "case held k (offer x s) of
      None \<Rightarrow> \<forall>y \<in> insert x S. key y \<noteq> k
    | Some w \<Rightarrow> w \<in> insert x S \<and> key w = k \<and> (\<forall>y \<in> insert x S. key y = k \<longrightarrow> rank y \<le> rank w)" for k
  proof (cases "k = key x")
    case True
    then show ?thesis using w(1-3) above keeps_slot(2) [OF assms, of k w] by auto
  next
    case False
    then show ?thesis
      using other_offer [OF inv False] keeps_slot [OF assms, of k] by (auto split: option.split)
  qed
  then show ?thesis using inv_offer [OF inv] by (simp add: keeps_def)
qed

lemma keeps_fold: "keeps S s \<Longrightarrow> keeps (S \<union> set xs) (fold offer xs s)"
proof (induction xs arbitrary: S s)
  case (Cons x xs)
  from Cons.IH [OF keeps_offer [OF Cons.prems]] show ?case by simp
qed simp

lemma keeps_all: "inv s \<Longrightarrow> (\<And>k. held k s = None) \<Longrightarrow> keeps (set xs) (fold offer xs s)"
  using keeps_fold [of "{}" s xs] by (simp add: keeps_def)

end

section \<open>Typed and keyword slots\<close>

definition rp_rank :: "'v resolved_property \<Rightarrow> bool \<times> cascade_key \<times> nat" where
  "rp_rank p = (rp_important p, cascade_key (rp_specificity p) (rp_important p), rp_order p)"

lemma should_override_rank: "should_override a b \<longleftrightarrow> rp_rank a < rp_rank b"
  by (auto simp: should_override_def rp_rank_def Let_def)

definition offer_typed :: "'v resolved_property \<Rightarrow> 'v resolved_property option \<Rightarrow> 'v resolved_property option" where
  "offer_typed p = apply_property (rp_value p) (rp_important p) (rp_specificity p) (rp_order p)"

definition offer_keyword :: "property_id \<times> cascade_keyword resolved_property \<Rightarrow> keyword_slots \<Rightarrow> keyword_slots" where
  "offer_keyword x =
     apply_keyword (fst x) (rp_value (snd x)) (rp_important (snd x)) (rp_specificity (snd x)) (rp_order (snd x))"

lemma rp_eta:
  "\<lparr>rp_value = rp_value p, rp_important = rp_important p, rp_specificity = rp_specificity p,
    rp_order = rp_order p\<rparr> = (p :: 'v resolved_property)"
  by simp

lemma offer_typed_simp:
  "offer_typed p slot = (case slot of None \<Rightarrow> Some p | Some h \<Rightarrow> if rp_rank h < rp_rank p then Some p else slot)"
  by (simp add: offer_typed_def apply_property_def should_override_rank Let_def rp_eta split: option.split)

lemma offer_keyword_simp:
  "offer_keyword x slots pid =
    (if pid = fst x then
       (case slots pid of None \<Rightarrow> Some (snd x) | Some h \<Rightarrow> if rp_rank h < rp_rank (snd x) then Some (snd x) else Some h)
     else slots pid)"
  by (simp add: offer_keyword_def apply_keyword_def should_override_rank Let_def rp_eta split: option.split)

interpretation typed_slot: ranked_store offer_typed "\<lambda>_ slot. slot" "\<lambda>_. True" "\<lambda>_. ()" rp_rank
  by unfold_locales (auto simp: offer_typed_simp split: option.split)

interpretation keyword_slot: ranked_store offer_keyword "\<lambda>pid slots. map_option (Pair pid) (slots pid)"
  "\<lambda>_. True" fst "\<lambda>x. rp_rank (snd x)"
  by unfold_locales (auto simp: offer_keyword_simp split: option.split)

section \<open>Custom properties\<close>

type_synonym custom_offer = "string \<times> css_token list \<times> custom_rank"

definition custom_key :: "custom_rank \<Rightarrow> bool \<times> cascade_key \<times> nat" where
  "custom_key r = (case r of (i, s, n) \<Rightarrow> (i, cascade_key s i, n))"

lemma custom_wins_key: "custom_property_wins r h \<longleftrightarrow> custom_key h \<le> custom_key r"
  by (cases r; cases h) (auto simp: custom_property_wins_def custom_key_def)

definition offer_custom :: "custom_offer \<Rightarrow> custom_state \<Rightarrow> custom_state" where
  "offer_custom x = record_custom_property (fst x) (fst (snd x)) (snd (snd x))"

definition custom_held :: "string \<Rightarrow> custom_state \<Rightarrow> custom_offer option" where
  "custom_held name st =
     (case (fst st name, map_of (snd st) name) of (Some r, Some v) \<Rightarrow> Some (name, v, r) | _ \<Rightarrow> None)"

definition custom_inv :: "custom_state \<Rightarrow> bool" where
  "custom_inv st \<longleftrightarrow> dom (fst st) = fst ` set (snd st) \<and> distinct (map fst (snd st))"

lemma replace_value_names [simp]: "map fst (replace_value name v ds) = map fst ds"
  by (induction name v ds rule: replace_value.induct) auto

lemma replace_value_set [simp]: "fst ` set (replace_value name v ds) = fst ` set ds"
  using arg_cong [OF replace_value_names [of name v ds], of set] by (simp only: set_map)

lemma replace_value_map_of:
  "map_of (replace_value name v ds) k =
    (if k = name \<and> name \<in> fst ` set ds then Some v else map_of ds k)"
  by (induction name v ds rule: replace_value.induct) (auto simp: map_of_eq_None_iff image_iff, force)

interpretation custom_store: ranked_store offer_custom custom_held custom_inv fst "\<lambda>x. custom_key (snd (snd x))"
proof
  fix s :: custom_state and x :: custom_offer and k :: string
  obtain name v r where x: "x = (name, v, r)" by (cases x)
  obtain w ds where s: "s = (w, ds)" by (cases s)
  assume inv: "custom_inv s"
  have names: "map_of ds n = None \<longleftrightarrow> w n = None" for n
    using inv s by (auto simp: custom_inv_def map_of_eq_None_iff)
  show "custom_inv (offer_custom x s)"
    using inv x s by (auto simp: custom_inv_def offer_custom_def record_custom_property_def split: option.split)
  show "k \<noteq> fst x \<Longrightarrow> custom_held k (offer_custom x s) = custom_held k s"
    using x s by (auto simp: custom_held_def offer_custom_def record_custom_property_def replace_value_map_of
        map_add_Some_iff map_add_def split: option.splits)
  show "\<exists>u. custom_held (fst x) (offer_custom x s) = Some u \<and> (u = x \<or> custom_held (fst x) s = Some u)
      \<and> custom_key (snd (snd x)) \<le> custom_key (snd (snd u))
      \<and> (\<forall>h. custom_held (fst x) s = Some h \<longrightarrow> custom_key (snd (snd h)) \<le> custom_key (snd (snd u)))"
  proof (cases "w name")
    case None
    then show ?thesis
      using x s names [of name]
      by (simp add: custom_held_def offer_custom_def record_custom_property_def map_add_def)
  next
    case (Some h)
    then obtain u where u: "map_of ds name = Some u" using names [of name] by auto
    then have "name \<in> fst ` set ds" by (force dest: map_of_SomeD)
    then show ?thesis
      using x s Some u
      by (cases r; cases h) (auto simp: custom_held_def offer_custom_def record_custom_property_def replace_value_map_of
          custom_wins_key)
  qed
next
  fix s :: custom_state and k :: string and w :: custom_offer
  show "custom_held k s = Some w \<Longrightarrow> fst w = k" by (auto simp: custom_held_def split: option.splits)
qed

section \<open>The declarations of a node\<close>

text \<open>Every declaration that reaches a node with its specificity, in the order it is applied.\<close>

fun rule_declarations ::
    "style_rule list \<Rightarrow> nat \<Rightarrow> specificity option list \<Rightarrow> (css_declaration \<times> specificity) list" where
  "rule_declarations [] r matched = []"
| "rule_declarations (rule # rules) r matched =
     (case rule_matched matched r of None \<Rightarrow> [] | Some s \<Rightarrow> map (\<lambda>d. (d, s)) (snd rule))
     @ rule_declarations rules (Suc r) matched"

definition node_declarations ::
    "style_rule list \<Rightarrow> specificity option list \<Rightarrow> css_declaration list \<Rightarrow> (css_declaration \<times> specificity) list" where
  "node_declarations rules matched inline =
     rule_declarations rules 0 matched @ map (\<lambda>d. (d, INLINE_STYLE_SPECIFICITY)) inline"

text \<open>What a declaration offers to the slot of a property whose values \<open>parse\<close> reads.\<close>

definition offer_of ::
    "(css_declaration \<Rightarrow> 'v option) \<Rightarrow> custom_property_map \<Rightarrow> css_declaration \<times> specificity \<Rightarrow> nat \<Rightarrow>
     'v resolved_property list" where
  "offer_of parse m x n =
     (case x of (d, s) \<Rightarrow>
        let value = (if value_references_var (decl_value d)
                     then resolve_var_references m (decl_value d) else Some (decl_value d))
        in if starts_with ''--'' (decl_name d)
              \<or> value_references_var (decl_value d) \<and> value = Some [] then []
           else (case parse (d\<lparr>decl_value := the value\<rparr>) of
                   None \<Rightarrow> []
                 | Some v \<Rightarrow> [\<lparr>rp_value = v, rp_important = decl_important d, rp_specificity = s, rp_order = n\<rparr>]))"

fun offers_from ::
    "(css_declaration \<Rightarrow> 'v option) \<Rightarrow> custom_property_map \<Rightarrow> nat \<Rightarrow> (css_declaration \<times> specificity) list \<Rightarrow>
     'v resolved_property list" where
  "offers_from parse m n [] = []"
| "offers_from parse m n (x # xs) = offer_of parse m x (n + 1) @ offers_from parse m (n + 1) xs"

text \<open>An \<open>apply_declaration\<close> that fills one slot.\<close>

definition fill_slot ::
    "(css_declaration \<Rightarrow> 'v option) \<Rightarrow> css_declaration \<Rightarrow> specificity \<Rightarrow> nat \<Rightarrow>
     'v resolved_property option \<Rightarrow> 'v resolved_property option" where
  "fill_slot parse d s n slot =
     (case parse d of None \<Rightarrow> slot | Some v \<Rightarrow> apply_property v (decl_important d) s n slot)"

lemma offers_append:
  "offers_from parse m n (xs @ ys) = offers_from parse m n xs @ offers_from parse m (n + length xs) ys"
  by (induction xs arbitrary: n) simp_all

lemma substituted_offers:
  assumes "apply_substituted_declaration (fill_slot parse) m d s n c = Some c'"
  shows "c' = fold offer_typed (offer_of parse m (d, s) n) c"
proof -
  have same: "d\<lparr>decl_value := decl_value d\<rparr> = d" by simp
  show ?thesis
    using assms
    by (auto simp: apply_substituted_declaration_def offer_of_def fill_slot_def offer_typed_def same
        split: if_splits option.splits)
qed

lemma declarations_offers:
  "apply_declarations (fill_slot parse) m ds s (n, c) = Some (n', c') \<Longrightarrow>
     n' = n + length ds \<and> c' = fold offer_typed (offers_from parse m n (map (\<lambda>d. (d, s)) ds)) c"
proof (induction ds arbitrary: n c)
  case (Cons d ds)
  obtain e where e: "apply_substituted_declaration (fill_slot parse) m d s (n + 1) c = Some e"
    "apply_declarations (fill_slot parse) m ds s (n + 1, e) = Some (n', c')"
    using Cons.prems by (auto split: option.splits)
  show ?case using Cons.IH [OF e(2)] substituted_offers [OF e(1)] by simp
qed simp

lemma rules_offers:
  "apply_matched_rules (fill_slot parse) m rules r matched (n, c) = Some (n', c') \<Longrightarrow>
     n' = n + length (rule_declarations rules r matched)
     \<and> c' = fold offer_typed (offers_from parse m n (rule_declarations rules r matched)) c"
proof (induction rules arbitrary: r n c)
  case (Cons rule rules)
  show ?case
  proof (cases "rule_matched matched r")
    case None
    then show ?thesis using Cons.IH [of "Suc r" n c] Cons.prems by simp
  next
    case (Some s)
    then obtain k e where e: "apply_declarations (fill_slot parse) m (snd rule) s (n, c) = Some (k, e)"
      "apply_matched_rules (fill_slot parse) m rules (Suc r) matched (k, e) = Some (n', c')"
      using Cons.prems by (auto split: option.splits)
    show ?thesis
      using Cons.IH [OF e(2)] declarations_offers [OF e(1)] Some by (simp add: offers_append)
  qed
qed simp

text \<open>C23: After a node is cascaded, the slot of a property holds the declaration that wins: among all
  declarations of the matched rules and the \<open>style\<close> attribute whose substituted value parses, the slot is
  empty exactly when there is none, and otherwise holds one that no other outranks by importance, then
  by the cascade key of its specificity and layer, then by its position.
\<close>

theorem cascade_winner:
  assumes run: "cascade_for_node search (fill_slot parse) None d i ix ws view parent_map = Some (m, slot, ws')"
    and "inline_declarations search d i = Some inline"
  shows "let offers = offers_from parse m 0 (node_declarations (active_rules ix) (matched_by_rule ws') inline)
    in (slot = None \<longleftrightarrow> offers = [])
     \<and> (\<forall>p. slot = Some p \<longrightarrow> p \<in> set offers \<and> (\<forall>q \<in> set offers. rp_rank q \<le> rp_rank p))"
proof -
  let ?D = "node_declarations (active_rules ix) (matched_by_rule ws') inline"
  let ?offers = "offers_from parse m 0 ?D"
  obtain n c n' where rules: "apply_matched_rules (fill_slot parse) m (active_rules ix) 0 (matched_by_rule ws') (0, None)
      = Some (n, c)" and inl: "apply_declarations (fill_slot parse) m inline INLINE_STYLE_SPECIFICITY (n, c) = Some (n', slot)"
    using assms by (auto simp: cascade_for_node_def apply_inline_style_attribute_def split: option.splits)
  have "slot = fold offer_typed ?offers None"
    using rules_offers [OF rules] declarations_offers [OF inl] by (simp add: node_declarations_def offers_append)
  then have "typed_slot.keeps (set ?offers) slot" using typed_slot.keeps_all [of None ?offers] by simp
  from typed_slot.keeps_slot [OF this] show ?thesis by (cases slot) (auto simp: Let_def)
qed

section \<open>The map of custom properties\<close>

text \<open>The custom declarations among the declarations of a node, numbered as the walk numbers them.\<close>

fun custom_offers :: "nat \<Rightarrow> (css_declaration \<times> specificity) list \<Rightarrow> custom_offer list" where
  "custom_offers n [] = []"
| "custom_offers n ((d, s) # xs) =
     (if starts_with ''--'' (decl_name d)
      then [(decl_name d, decl_value d, decl_important d, s, n + 1)] else [])
     @ custom_offers (n + 1) xs"

lemma custom_offers_append:
  "custom_offers n (xs @ ys) = custom_offers n xs @ custom_offers (n + length xs) ys"
  by (induction n xs rule: custom_offers.induct) simp_all

lemma record_declarations_offers:
  "record_declarations ds s (n, st) =
    (n + length ds, fold offer_custom (custom_offers n (map (\<lambda>d. (d, s)) ds)) st)"
  by (induction ds s "(n, st)" arbitrary: n st rule: record_declarations.induct) (simp_all add: offer_custom_def)

lemma record_rules_offers:
  "record_rules rules r matched (n, st) =
    (n + length (rule_declarations rules r matched),
     fold offer_custom (custom_offers n (rule_declarations rules r matched)) st)"
  by (induction rules arbitrary: r n st)
    (simp_all add: record_declarations_offers custom_offers_append split: option.split)

lemma set_all:
  "distinct (map fst ds) \<Longrightarrow>
    fold (\<lambda>(name, v). cp_set name v) ds m k = (case map_of ds k of Some v \<Rightarrow> Some v | None \<Rightarrow> m k)"
  by (induction ds arbitrary: m) (auto simp: cp_set_def map_of_eq_None_iff [symmetric] split: option.split)

text \<open>What a node starts from: a registration that does not inherit gives its initial value, one that does
  gives it where the parent has no value.\<close>

definition registered :: "property_registration list \<Rightarrow> custom_property_map \<Rightarrow> custom_property_map" where
  "registered rs p name =
     (case find (\<lambda>r. reg_name r = name) rs of
        None \<Rightarrow> p name
      | Some r \<Rightarrow> if reg_inherits r \<and> p name \<noteq> None then p name else Some (reg_initial r))"

lemma fold_registration:
  "distinct (map reg_name rs) \<Longrightarrow> fold apply_registration rs p name = registered rs p name"
proof (induction rs arbitrary: p)
  case (Cons r rs)
  have none: "find (\<lambda>x. reg_name x = reg_name r) rs = None"
    using Cons.prems by (auto simp: find_None_iff) (metis image_eqI)
  show ?case
    using Cons none
    by (auto simp: registered_def apply_registration_def cp_get_def cp_set_def split: option.split)
qed (simp add: registered_def)

lemma satisfied_registration:
  "\<not> list_ex (registration_unsatisfied p) rs \<Longrightarrow> registered rs p name = p name"
  by (induction rs) (auto simp: registered_def registration_unsatisfied_def cp_get_def split: if_splits)

lemma apply_registrations_registered:
  "distinct (map reg_name rs) \<Longrightarrow> apply_registrations rs p name = registered rs p name"
  using satisfied_registration [of p rs name] fold_registration [of rs p name]
  by (cases "rs = []") (auto simp: apply_registrations_def registered_def)

lemma dedup_distinct:
  "distinct (map reg_name held) \<Longrightarrow> distinct (map reg_name (fold dedup_registration rs held))"
proof (induction rs arbitrary: held)
  case (Cons r rs)
  have "distinct (map reg_name (dedup_registration r held))"
    using Cons.prems by (auto simp: dedup_registration_def distinct_map inj_on_def)
  from Cons.IH [OF this] show ?case by simp
qed simp

lemma index_registrations: "distinct (map reg_name (registrations (index_of c b)))"
  by (simp add: index_of_def Let_def dedup_distinct)

text \<open>The custom properties of a node: a name that some declaration of the matched rules or of the \<open>style\<close>
  attribute gives has the value of a declaration that no other of that name outranks, by
  importance, cascade key and position; every other name has what registration and inheritance
  give it.
\<close>

theorem custom_property_winner:
  assumes run: "resolve_custom_properties search d i (index_of c b) matched parent_map = Some m"
    and inline: "inline_custom_property_declarations search d i = Some inline"
    and some: "declares_custom_properties (index_of c b) \<or> element_declares_custom_property d i"
  shows "let offers = custom_offers 0 (node_declarations (active_rules (index_of c b)) matched inline)
    in \<forall>name. (name \<notin> fst ` set offers \<longrightarrow>
          m name = registered (registrations (index_of c b)) (unwrap_or parent_map Map.empty) name)
        \<and> (name \<in> fst ` set offers \<longrightarrow>
          (\<exists>v r. (name, v, r) \<in> set offers \<and> m name = Some v \<and>
             (\<forall>(n, w, q) \<in> set offers. n = name \<longrightarrow> custom_key q \<le> custom_key r)))"
proof -
  let ?ix = "index_of c b"
  let ?p = "apply_registrations (registrations ?ix) (unwrap_or parent_map Map.empty)"
  let ?offers = "custom_offers 0 (node_declarations (active_rules ?ix) matched inline)"
  obtain w ds where st: "fold offer_custom ?offers (Map.empty, []) = (w, ds)"
    by (cases "fold offer_custom ?offers (Map.empty, [])")
  have m: "m = fold (\<lambda>(name, v). cp_set name v) ds ?p"
    using run inline some st
    by (auto simp: resolve_custom_properties_def record_rules_offers record_declarations_offers Let_def
        node_declarations_def custom_offers_append split: if_splits)
  have start: "custom_inv (Map.empty, [])" "custom_held k (Map.empty, []) = None" for k
    by (simp_all add: custom_inv_def custom_held_def)
  have keeps: "custom_store.keeps (set ?offers) (w, ds)"
    using custom_store.keeps_all [OF start, of ?offers] unfolding st .
  then have inv: "custom_inv (w, ds)" by (simp add: custom_store.keeps_def)
  have "\<forall>name. (name \<notin> fst ` set ?offers \<longrightarrow> m name = registered (registrations ?ix) (unwrap_or parent_map Map.empty) name)
        \<and> (name \<in> fst ` set ?offers \<longrightarrow>
          (\<exists>v r. (name, v, r) \<in> set ?offers \<and> m name = Some v \<and>
             (\<forall>(n, w, q) \<in> set ?offers. n = name \<longrightarrow> custom_key q \<le> custom_key r)))"
  proof
    fix name
    have m_name: "m name = (case map_of ds name of Some v \<Rightarrow> Some v | None \<Rightarrow> ?p name)"
      unfolding m by (rule set_all) (use inv in \<open>simp add: custom_inv_def\<close>)
    have both: "w name = None \<longleftrightarrow> map_of ds name = None"
      using inv by (auto simp: custom_inv_def map_of_eq_None_iff)
    show "(name \<notin> fst ` set ?offers \<longrightarrow> m name = registered (registrations ?ix) (unwrap_or parent_map Map.empty) name)
        \<and> (name \<in> fst ` set ?offers \<longrightarrow>
          (\<exists>v r. (name, v, r) \<in> set ?offers \<and> m name = Some v \<and>
             (\<forall>(n, w, q) \<in> set ?offers. n = name \<longrightarrow> custom_key q \<le> custom_key r)))"
    proof (cases "custom_held name (w, ds)")
      case None
      then have "map_of ds name = None"
        using both by (auto simp: custom_held_def split: option.splits)
      moreover have "name \<notin> fst ` set ?offers"
        using custom_store.keeps_slot(1) [OF keeps None] by auto
      ultimately show ?thesis
        using m_name apply_registrations_registered [OF index_registrations] by simp
    next
      case (Some u)
      then obtain v r where u: "u = (name, v, r)" "map_of ds name = Some v"
        by (auto simp: custom_held_def split: option.splits)
      have "u \<in> set ?offers" "\<forall>x \<in> set ?offers. fst x = name \<longrightarrow> custom_key (snd (snd x)) \<le> custom_key r"
        using custom_store.keeps_slot(2) [OF keeps Some] u(1) by auto
      then have "(name, v, r) \<in> set ?offers \<and> m name = Some v \<and>
             (\<forall>(n, w, q) \<in> set ?offers. n = name \<longrightarrow> custom_key q \<le> custom_key r)"
        using u m_name by (auto simp: case_prod_beta)
      moreover have "name \<in> fst ` set ?offers" using \<open>u \<in> set ?offers\<close> u(1) by (force intro: rev_image_eqI)
      ultimately show ?thesis by blast
    qed
  qed
  then show ?thesis by (simp add: Let_def)
qed

section \<open>A node\<close>

definition color_decl :: css_declaration where
  "color_decl = \<lparr>decl_name = ''color'', decl_value = [Ident ''red''], decl_important = False,
     decl_property = PropColor\<rparr>"

definition custom_decl :: css_declaration where
  "custom_decl = \<lparr>decl_name = ''--x'', decl_value = [Ident ''a''], decl_important = False,
     decl_property = PropUnknown\<rparr>"

definition input_selector :: selector where
  "input_selector = Selector [SelectorStep None (Compound (Some (TagType TagInput)) [])]"

definition input_rules :: "css_declaration \<Rightarrow> unit collected" where
  "input_rules d = collected_new\<lparr>col_rules := [(UNLAYERED, [input_selector], [d])]\<rparr>"

lemma input_rules_value:
  "col_rules (input_rules d) = [(UNLAYERED, [input_selector], [d])]" "col_registrations (input_rules d) = []"
  "registrations (index_of (input_rules d) b) = []"
  "declares_custom_properties (index_of (input_rules d) b) = starts_with ''--'' (decl_name d)"
  by (simp_all add: input_rules_def collected_new_def index_of_def Let_def)

lemma radio_inline: "inline_style_text radio_dom 3 = None"
  by (simp add: inline_style_text_def attributes_attrs_of attrs_of_def is_element_knd knd_def radio_value
      attr_matches_def eq_ignore_ascii_case_def to_ascii_lowercase_def lower_char_def ascii_upper_def)

lemma input_matched:
  "\<exists>ws'. match_node radio_dom 3 (index_of (input_rules d) 0) (workspace_new 0) None = Some ws'
    \<and> (\<exists>s. matched_by_rule ws' = [Some s])"
proof -
  have "dom_ok radio_dom"
    using reachable_dom_ok [OF radio_reachable radio_sizes(1)] by (simp add: radio_sizes)
  moreover have "rules_ok radio_dom (col_rules (input_rules d))"
    by (simp add: rules_ok_def pair_count_def input_rules_value input_selector_def selector_ok_def
        key_tag_canonical_def selector_key_def)
      (simp add: tag_canonical_def tag_from_str_def tag_table_def to_ascii_lowercase_def lower_char_def ascii_upper_def)
  moreover have "tokens_intern radio_dom" by (simp add: tokens_intern_def radio_class)
  moreover have "sat_selector radio_dom 3 input_selector"
    by (simp add: input_selector_def type_sat_def element_tag_knd knd_def radio_value type_selector_tag_matches_def)
  ultimately show ?thesis
    using index_match_exact [of radio_dom "input_rules d" 3 0 "workspace_new 0"] radio_tags
    by (auto simp: input_rules_value brute_match_def)
qed

theorem cascade_winner_witness:
  "\<exists>p ws'. cascade_for_node (\<lambda>_ _. None) (fill_slot (\<lambda>d. Some (decl_name d))) None radio_dom 3
       (index_of (input_rules color_decl) 0) (workspace_new 0) None None = Some (Map.empty, Some p, ws')
     \<and> p \<in> set (offers_from (\<lambda>d. Some (decl_name d)) Map.empty 0
         (node_declarations [([input_selector], [color_decl])] (matched_by_rule ws') []))"
proof -
  obtain ws' s where w: "match_node radio_dom 3 (index_of (input_rules color_decl) 0) (workspace_new 0) None = Some ws'"
    "matched_by_rule ws' = [Some s]" using input_matched by metis
  have inline: "inline_declarations (\<lambda>_ _. None) radio_dom 3 = Some []"
    by (simp add: inline_declarations_def radio_inline)
  have run: "\<exists>p. cascade_for_node (\<lambda>_ _. None) (fill_slot (\<lambda>d. Some (decl_name d))) None radio_dom 3
       (index_of (input_rules color_decl) 0) (workspace_new 0) None None = Some (Map.empty, Some p, ws')"
    using w inline
    by (simp add: cascade_for_node_def resolve_custom_properties_def apply_registrations_def unwrap_or_def
        input_rules_value element_declares_custom_property_def radio_inline apply_inline_style_attribute_def
        rule_matched_def apply_substituted_declaration_def value_references_var_def fill_slot_def apply_property_def
        color_decl_def starts_with_def Let_def)
  then show ?thesis
    using cascade_winner [OF _ inline, where parse = "\<lambda>d. Some (decl_name d)"
        and ix = "index_of (input_rules color_decl) 0"]
    by (fastforce simp: Let_def input_rules_value)
qed

theorem custom_property_winner_witness:
  "\<exists>m. resolve_custom_properties (\<lambda>_ _. None) radio_dom 3 (index_of (input_rules custom_decl) 0) [Some spec_zero] None
      = Some m \<and> m ''--x'' = Some [Ident ''a'']"
proof -
  have inline: "inline_custom_property_declarations (\<lambda>_ _. None) radio_dom 3 = Some []"
    by (simp add: inline_custom_property_declarations_def inline_declarations_def radio_inline)
  have some: "declares_custom_properties (index_of (input_rules custom_decl) 0)"
    by (simp add: input_rules_value custom_decl_def starts_with_def)
  obtain m where m: "resolve_custom_properties (\<lambda>_ _. None) radio_dom 3 (index_of (input_rules custom_decl) 0)
      [Some spec_zero] None = Some m"
    using inline some by (auto simp: resolve_custom_properties_def Let_def case_prod_beta)
  show ?thesis
    using custom_property_winner [OF m inline disjI1 [OF some]] m
    by (auto simp: Let_def node_declarations_def input_rules_value rule_matched_def custom_decl_def starts_with_def)
qed

section \<open>Where keywords and layers disagree\<close>

text \<open>An important keyword of a layer wins against an important value outside layers by the order of the
  cascade, which slots of one kind follow; between a keyword and a value the comparison is by plain
  specificity, and the keyword loses.\<close>

lemma less_UNLAYERED: "(0 :: 32 word) < - 1"
  by (simp add: word_less_def unsigned_minus_1_eq_mask mask_eq_exp_minus_1)

lemma layered_important_keyword_loses:
  fixes kw :: "cascade_keyword resolved_property" and typed :: "'v resolved_property"
  assumes "rp_important kw" "rp_important typed"
    and "rp_specificity kw = spec_zero\<lparr>layer := 0\<rparr>" "rp_specificity typed = spec_zero"
  shows "should_override typed kw \<and> \<not> keyword_beats kw typed"
  using assms less_UNLAYERED
  by (auto simp: should_override_def keyword_beats_def cascade_key_def spec_fields_def spec_zero_def
      UNLAYERED_def Let_def)

text \<open>A keyword on a shorthand that is not expanded stays under the shorthand's own identifier.\<close>

lemma background_keyword_target: "keyword_targets PropBackground = [PropBackground]"
  by (simp add: keyword_targets_def)

end
