(* ===== verification/Net_Client_Props.thy ===== *)
theory Net_Client_Props
  imports Net_Http Net_Response
begin

text \<open>
  What the client promises: the request it writes has exactly the lines it means to have, a fetch makes
  a bounded number of connections and only to permitted origins, touches only the cookie partitions of
  the sites it visits, and returns no body over the bound.
\<close>

section \<open>The request on the wire\<close>

text \<open>A reader of a request: lines up to the empty one, then the body.\<close>

function read_head :: "u8 list \<Rightarrow> (u8 list list \<times> u8 list) option" where
  "read_head bs =
     (case crlf_position bs of
        None \<Rightarrow> None
      | Some n \<Rightarrow>
          if n = 0 then Some ([], drop 2 bs)
          else map_option (apfst ((#) (take n bs))) (read_head (drop (n + 2) bs)))"
  by auto
termination
  by (relation "measure length") (auto dest: crlf_position_bound)

declare read_head.simps [simp del]

text \<open>The lines a request should have.\<close>

definition field_text :: "string \<times> string \<Rightarrow> string" where
  "field_text f = fst f @ '': '' @ snd f"

definition expected_fields :: "('u, 'o) url_ops \<Rightarrow> string \<Rightarrow> http_request \<Rightarrow> 'u request_target \<Rightarrow> string option \<Rightarrow> headers" where
  "expected_fields U os request target cookie =
     [(''Host'', rt_host target), (''Connection'', ''close''), (''User-Agent'', ''SilkSurf/0.1''), (''Accept'', ''*/*'')]
     @ (if is_potentially_trustworthy U (rt_parsed target)
        then filter (\<lambda>(n, _). \<not> has_header (req_headers request) n) (low_entropy_headers os) else [])
     @ (if has_header (req_headers request) ''accept-encoding'' then []
        else [(''Accept-Encoding'', ''br, gzip, deflate'')])
     @ req_headers request
     @ (case cookie of Some c \<Rightarrow> [(''Cookie'', c)] | None \<Rightarrow> [])
     @ (if req_body request = [] then [] else [(''Content-Length'', show_nat (length (req_body request)))])"

definition expected_lines :: "('u, 'o) url_ops \<Rightarrow> string \<Rightarrow> http_request \<Rightarrow> 'u request_target \<Rightarrow> string option \<Rightarrow> string list" where
  "expected_lines U os request target cookie =
     (method_str (req_method request) @ '' '' @ (if rt_path target = [] then ''/'' else rt_path target) @ '' HTTP/1.1'')
     # map field_text (expected_fields U os request target cookie)"

definition line_text :: "string \<Rightarrow> string" where
  "line_text l = l @ [CHR 0x0D, CHR 0x0A]"

definition one_line :: "string \<Rightarrow> bool" where
  "one_line s \<longleftrightarrow> CHR 0x0D \<notin> set s \<and> CHR 0x0A \<notin> set s"

lemma one_line_append [simp]: "one_line (a @ b) \<longleftrightarrow> one_line a \<and> one_line b"
  by (auto simp: one_line_def)

lemma one_line_Nil [simp]: "one_line []"
  by (simp add: one_line_def)

lemma one_line_Cons [simp]: "one_line (c # b) \<longleftrightarrow> c \<noteq> CHR 0x0D \<and> c \<noteq> CHR 0x0A \<and> one_line b"
  by (auto simp: one_line_def)

lemma str_bytes_line: "str_bytes (line_text l) = str_bytes l @ crlf"
  by (simp add: line_text_def crlf_def str_bytes_def)

lemma one_line_bytes: "one_line l \<Longrightarrow> 13 \<notin> set (str_bytes l)"
proof -
  assume l: "one_line l"
  have "(word_of_nat (of_char c) :: u8) \<noteq> 13" if "c \<in> set l" for c
  proof -
    have "c \<noteq> CHR 0x0D" using l that by (auto simp: one_line_def)
    then have "byte_of c \<noteq> 13" using byte_of_inject [of c "CHR 0x0D"] by (simp del: byte_of_inject)
    then show ?thesis using byte_word_eq [of 13 c] by simp
  qed
  then show "13 \<notin> set (str_bytes l)" by (auto simp: str_bytes_def)
qed

lemma read_head_lines:
  "\<forall>l \<in> set ls. l \<noteq> [] \<and> one_line l \<Longrightarrow>
    read_head (str_bytes (concat (map line_text ls) @ [CHR 0x0D, CHR 0x0A]) @ body) = Some (map str_bytes ls, body)"
proof (induction ls)
  case Nil
  show ?case by (subst read_head.simps) (simp add: str_bytes_def)
next
  case (Cons l ls)
  let ?rest = "str_bytes (concat (map line_text ls) @ [CHR 0x0D, CHR 0x0A]) @ body"
  have e: "str_bytes (concat (map line_text (l # ls)) @ [CHR 0x0D, CHR 0x0A]) @ body = str_bytes l @ 13 # 10 # ?rest"
    by (simp add: str_bytes_line crlf_def)
  have "crlf_position (str_bytes l @ 13 # 10 # ?rest) = Some (length l)"
    using crlf_position_append [OF one_line_bytes, of l] Cons.prems by simp
  then show ?case unfolding e using Cons by (subst read_head.simps) simp
qed

lemma header_line_text: "header_line n v = line_text (field_text (n, v))"
  by (simp add: header_line_def line_text_def field_text_def)

lemma custom_headers_ok:
  "custom_headers hs = Inr s \<Longrightarrow>
    s = concat (map (line_text \<circ> field_text) hs) \<and> (\<forall>f \<in> set hs. validate_request_header (fst f) (snd f) = Inr ())"
proof (induction hs arbitrary: s)
  case (Cons f hs)
  obtain n v where f: "f = (n, v)" by (cases f)
  obtain rest where "validate_request_header n v = Inr ()" "custom_headers hs = Inr rest"
      "s = header_line n v @ rest"
    using Cons.prems by (auto simp: f res_bind_ok)
  then show ?case using Cons.IH by (simp add: f header_line_text)
qed simp

lemma token_byte_plain: "token_byte c \<Longrightarrow> c \<noteq> CHR 0x0D \<and> c \<noteq> CHR 0x0A"
  by (auto simp: token_byte_def ascii_upper_def ascii_lower_def ascii_digit_def)

lemma validated_one_line: "validate_request_header n v = Inr () \<Longrightarrow> one_line (field_text (n, v))"
  by (auto simp: validate_request_header_def one_line_def field_text_def list_all_iff list_ex_iff
      split: if_splits dest: token_byte_plain)

lemma show_nat_one_line: "one_line (show_nat n)"
  using show_nat_digits [of n] by (auto simp: one_line_def list_all_iff ascii_digit_def)

lemma low_entropy_one_line: "f \<in> set (low_entropy_headers os) \<Longrightarrow> one_line (field_text f)"
  by (auto simp: low_entropy_headers_def field_text_def sec_ch_ua_def sec_ch_ua_mobile_def sec_ch_ua_platform_def
      BRANDS_def CARGO_PKG_VERSION_MAJOR_def quoted_def PLATFORM_def)

text \<open>The pieces the code writes, as lines of fields.\<close>

definition fields_text :: "headers \<Rightarrow> string" where
  "fields_text fs = concat (map (line_text \<circ> field_text) fs)"

lemma fields_text_append: "fields_text (fs @ gs) = fields_text fs @ fields_text gs"
  by (simp add: fields_text_def)

lemma request_line_text:
  "request_line request target =
     line_text (method_str (req_method request) @ '' '' @ (if rt_path target = [] then ''/'' else rt_path target) @ '' HTTP/1.1'')
     @ fields_text [(''Host'', rt_host target), (''Connection'', ''close''), (''User-Agent'', ''SilkSurf/0.1''), (''Accept'', ''*/*'')]"
  by (simp add: request_line_def fields_text_def header_line_text line_text_def)

lemma hints_text:
  "user_agent_client_hints os hs = fields_text (filter (\<lambda>(n, _). \<not> has_header hs n) (low_entropy_headers os))"
  by (simp add: user_agent_client_hints_def low_entropy_headers_def header_line_text fields_text_def)

lemma content_encoding_text:
  "content_encoding_header hs = fields_text (if has_header hs ''accept-encoding'' then [] else [(''Accept-Encoding'', ''br, gzip, deflate'')])"
  by (simp add: content_encoding_header_def ACCEPT_ENCODING_VALUE_def header_line_text fields_text_def)

lemma cookie_text:
  "(case cookie of Some c \<Rightarrow> header_line ''Cookie'' c | None \<Rightarrow> [])
    = fields_text (case cookie of Some c \<Rightarrow> [(''Cookie'', c)] | None \<Rightarrow> [])"
  by (simp add: header_line_text fields_text_def split: option.split)

lemma content_length_text:
  "content_length_header (length b) = fields_text (if b = [] then [] else [(''Content-Length'', show_nat (length b))])"
  by (simp add: content_length_header_def header_line_text fields_text_def)

lemma if_fields_text: "(if b then fields_text fs else []) = fields_text (if b then fs else [])"
  by (simp add: fields_text_def)

lemma build_is_lines:
  assumes "build_http1_request U os request target cookie = Inr bytes"
  shows "bytes = str_bytes (concat (map line_text (expected_lines U os request target cookie)) @ [CHR 0x0D, CHR 0x0A])
    @ req_body request"
proof -
  obtain custom where c: "custom_headers (req_headers request) = Inr custom"
    using assms by (auto simp: build_http1_request_def res_bind_ok)
  have custom: "custom = fields_text (req_headers request)"
    using custom_headers_ok [OF c] by (simp add: fields_text_def)
  have "concat (map line_text (expected_lines U os request target cookie))
      = line_text (method_str (req_method request) @ '' '' @ (if rt_path target = [] then ''/'' else rt_path target) @ '' HTTP/1.1'')
        @ fields_text (expected_fields U os request target cookie)"
    by (simp add: expected_lines_def fields_text_def)
  then show ?thesis
    using assms c
    by (simp only: build_http1_request_def res_bind_def sum.case sum.inject custom request_line_text hints_text
        content_encoding_text cookie_text content_length_text if_fields_text expected_fields_def
        fields_text_append append_assoc)
qed

text \<open>C18: the bytes of a request read back as exactly the intended lines and body: the request line, the
  fixed fields, the hints and codings the caller did not set, the caller's fields, the cookies and the
  length. No value the caller passes as a header can add a line; path, host and cookie text must be
  free of line breaks, which the url crate gives for the first two.\<close>

theorem request_framing:
  assumes "build_http1_request U os request target cookie = Inr bytes"
    and "one_line (rt_path target)" "one_line (rt_host target)" "\<And>c. cookie = Some c \<Longrightarrow> one_line c"
  shows "read_head bytes = Some (map str_bytes (expected_lines U os request target cookie), req_body request)
    \<and> (\<forall>l \<in> set (expected_lines U os request target cookie). one_line l)"
proof -
  obtain custom where c: "custom_headers (req_headers request) = Inr custom"
    using assms(1) by (auto simp: build_http1_request_def res_bind_ok)
  have "one_line (field_text f)" if "f \<in> set (req_headers request)" for f
    using custom_headers_ok [OF c] that validated_one_line [of "fst f" "snd f"] by simp
  then have "\<forall>f \<in> set (expected_fields U os request target cookie). one_line (field_text f)"
    unfolding expected_fields_def set_append ball_Un
    using assms(3,4) show_nat_one_line low_entropy_one_line [of _ os]
    by (intro conjI) (simp_all add: field_text_def split: option.split)
  moreover have "one_line (method_str m)" for m
    by (cases m) (simp_all add: method_str_def)
  ultimately have lines: "one_line l" if "l \<in> set (expected_lines U os request target cookie)" for l
    using that assms(2) unfolding expected_lines_def set_simps set_map by (elim insertE imageE) simp_all
  have "l \<noteq> []" if "l \<in> set (expected_lines U os request target cookie)" for l
    using that by (auto simp: expected_lines_def field_text_def)
  with lines show ?thesis
    unfolding build_is_lines [OF assms(1)] by (intro conjI read_head_lines ballI) auto
qed

text \<open>A url crate for the witnesses: a text is its own host, the scheme is http.\<close>

definition sample_url :: "(string, string) url_ops" where
  "sample_url = \<lparr>url_parse = Inr, url_scheme = (\<lambda>_. ''http''), url_host_str = Some, url_host_of = (\<lambda>h. Some (DomainHost h)),
     url_port = (\<lambda>_. None), url_path = (\<lambda>_. ''/''), url_query = (\<lambda>_. None), url_origin = id,
     url_join = (\<lambda>_. Inr), url_text = id\<rparr>"

definition sample_request :: http_request where
  "sample_request = \<lparr>req_method = HttpPost, req_url = ''a.test'', req_headers = [(''X-A'', ''1'')], req_body = [1, 2]\<rparr>"

definition sample_target :: "string request_target" where
  "sample_target = \<lparr>rt_parsed = ''a.test'', rt_host = ''a.test'', rt_is_https = False, rt_port = 80, rt_path = ''/''\<rparr>"

theorem request_framing_witness:
  "read_head (str_bytes (concat (map line_text (expected_lines sample_url ''linux'' sample_request sample_target (Some ''k=v'')))
       @ [CHR 0x0D, CHR 0x0A]) @ [1, 2])
     = Some (map str_bytes (expected_lines sample_url ''linux'' sample_request sample_target (Some ''k=v'')), [1, 2])"
proof -
  have v: "validate_request_header ''X-A'' ''1'' = Inr ()"
    by (simp add: validate_request_header_def token_byte_def ascii_upper_def ascii_digit_def)
  obtain bytes where b: "build_http1_request sample_url ''linux'' sample_request sample_target (Some ''k=v'') = Inr bytes"
    by (simp add: build_http1_request_def sample_request_def res_bind_def v)
  have "read_head bytes = Some (map str_bytes (expected_lines sample_url ''linux'' sample_request sample_target (Some ''k=v'')),
      req_body sample_request)"
    using request_framing [OF b] by (simp add: sample_target_def)
  then show ?thesis unfolding build_is_lines [OF b] by (simp add: sample_request_def)
qed

section \<open>Redirect chains\<close>

text \<open>A fetch is a chain of exchanges, at most one more than the redirects it may follow.\<close>

definition hop :: "('u, 'o, 's, 'w) net_env \<Rightarrow> 'o basic_client \<Rightarrow> http_request \<Rightarrow> same_site_context option
    \<Rightarrow> ('w net_state \<times> 'w net_state) set" where
  "hop E C request nav = {(s, t). \<exists>url. t = snd (fetch_http1_once E C request url nav s)}"

lemma fetch_loop_hops:
  "\<exists>n \<le> Suc (max_redirects C - redirects).
     (s, snd (fetch_loop E C request nav url redirects s)) \<in> hop E C request nav ^^ n"
proof (induction E C request nav url redirects s rule: fetch_loop.induct)
  case (1 E C request nav url redirects s)
  let ?once = "fetch_http1_once E C request url nav s"
  have one: "(s, snd ?once) \<in> hop E C request nav" by (auto simp: hop_def)
  show ?case
  proof (cases "\<exists>p r v. fst ?once = Inr (p, r) \<and>
      redirect_target (env_url E) p r redirects (max_redirects C) = Some v")
    case True
    then obtain p r t v where once: "?once = (Inr (p, r), t)"
      and v: "redirect_target (env_url E) p r redirects (max_redirects C) = Some v"
      by (metis prod.collapse)
    have step: "fetch_loop E C request nav url redirects s = fetch_loop E C request nav v (redirects + 1) t"
      by (subst fetch_loop.simps) (simp add: once v)
    obtain n where n: "n \<le> Suc (max_redirects C - (redirects + 1))"
      "(t, snd (fetch_loop E C request nav v (redirects + 1) t)) \<in> hop E C request nav ^^ n"
      using 1 [OF once [symmetric] refl refl v] by blast
    have "(s, snd (fetch_loop E C request nav url redirects s)) \<in> hop E C request nav ^^ Suc n"
      using one n(2) unfolding step by (intro relpow_Suc_I2) (simp add: once)
    moreover have "Suc n \<le> Suc (max_redirects C - redirects)"
      using n(1) redirect_target_limit [OF v] by simp
    ultimately show ?thesis by blast
  next
    case False
    then have "snd (fetch_loop E C request nav url redirects s) = snd ?once"
      by (subst fetch_loop.simps) (force split: prod.split sum.split option.split)
    then have "(s, snd (fetch_loop E C request nav url redirects s)) \<in> hop E C request nav ^^ 1"
      using one by simp
    then show ?thesis by (intro exI [of _ 1]) simp
  qed
qed

lemma fetch_hops:
  "\<exists>n \<le> Suc (max_redirects C). (s, snd (fetch_with_context E C request nav s)) \<in> hop E C request nav ^^ n"
  using fetch_loop_hops [of C 0] by (simp add: fetch_with_context_def)

section \<open>Where a fetch connects\<close>

text \<open>One exchange: nothing happens, or one request goes to a permitted target, whose cookies may be stored.\<close>

lemma once_effect:
  "snd (fetch_http1_once E C request url nav s) = s
   \<or> (\<exists>t bytes. target_parse (env_url E) url = Inr t \<and> \<not> origin_refused E C t
        \<and> ns_world (snd (fetch_http1_once E C request url nav s))
            = snd (send_http1_request (env_transport E) t bytes (ns_world s))
        \<and> (ns_jar (snd (fetch_http1_once E C request url nav s)) = ns_jar s
           \<or> (\<exists>r now. ns_jar (snd (fetch_http1_once E C request url nav s))
                = store_response_cookies (env_url E) (env_psl E) C r t now (ns_jar s))))"
proof (cases "target_parse (env_url E) url")
  case Inl
  then show ?thesis by (simp add: fetch_http1_once_def)
next
  case t: (Inr t)
  let ?cookie = "request_cookie_header (env_url E) (env_psl E) C request t nav
    (now_unix (env_transport E) (ns_world s)) (ns_jar s)"
  show ?thesis
  proof (cases "origin_refused E C t \<or> (\<exists>e. build_http1_request (env_url E) (env_os E) request t ?cookie = Inl e)")
    case True
    then show ?thesis by (auto simp: fetch_http1_once_def t)
  next
    case False
    then obtain bytes where b: "build_http1_request (env_url E) (env_os E) request t ?cookie = Inr bytes"
      by (meson obj_sumE)
    obtain r w where send: "send_http1_request (env_transport E) t bytes (ns_world s) = (r, w)" by fastforce
    show ?thesis
      using False
      by (intro disjI2 exI [of _ t] exI [of _ bytes])
         (cases r; auto simp: fetch_http1_once_def t b send on_world_def sm_bind_def sm_then_def sm_read_def split: sum.split)
  qed
qed

text \<open>A record of the addresses connected to: connecting adds one, nothing else does.\<close>

definition logs_connections :: "('w \<Rightarrow> string list) \<Rightarrow> ('s, 'w) transport \<Rightarrow> bool" where
  "logs_connections conns T \<longleftrightarrow>
     (\<forall>a w. conns (snd (tcp_connect T a w)) = conns w @ [a])
     \<and> (\<forall>h s w. conns (snd (tls_setup T h s w)) = conns w)
     \<and> (\<forall>s w. conns (snd (tls_handshake T s w)) = conns w)
     \<and> (\<forall>s b w. conns (snd (write_all T s b w)) = conns w)
     \<and> (\<forall>s w. conns (snd (reads T s w)) = conns w)"

lemma net_call_conns:
  assumes "\<And>w. conns (snd (f w)) = conns w @ ys"
  shows "conns (snd (net_call msg f w)) = conns w @ ys"
  using assms [of w] by (auto simp: net_call_def split: prod.split sum.split)

lemma sm_bind_conns:
  assumes "conns (snd (m w)) = conns w @ xs" "\<And>a w. conns (snd (k a w)) = conns w"
  shows "conns (snd (sm_bind m k w)) = conns w @ xs"
proof -
  obtain r t where m: "m w = (r, t)" by fastforce
  show ?thesis using assms(1) assms(2) [of _ t] by (cases r) (simp_all add: m sm_bind_def)
qed

lemma write_and_read_conns:
  assumes "logs_connections conns T"
  shows "conns (snd (write_and_read T msg s b w)) = conns w"
proof -
  have w: "conns (snd (write_all T s b w)) = conns w" and r: "conns (snd (reads T s w)) = conns w" for w
    using assms by (simp_all add: logs_connections_def)
  let ?issue = "\<lambda>w. case write_all T s b w of (Some e, w) \<Rightarrow> (Inl e, w) | (None, w) \<Rightarrow> (Inr (), w)"
  have "conns (snd (?issue w)) = conns w @ []" for w
    using w [of w] by (cases "write_all T s b w"; cases "fst (write_all T s b w)") simp_all
  then have "conns (snd (net_call msg ?issue w)) = conns w @ []"
    by (rule net_call_conns)
  moreover have "conns (snd (sm_bind (sm_lift (reads T s)) (\<lambda>es. sm_read (\<lambda>_. read_response es)) v)) = conns v" for v
    using r [of v] by (cases "reads T s v") (simp add: sm_bind_def sm_lift_def sm_read_def)
  ultimately have "conns (snd (sm_bind (net_call msg ?issue)
      (\<lambda>_. sm_bind (sm_lift (reads T s)) (\<lambda>es. sm_read (\<lambda>_. read_response es))) w)) = conns w @ []"
    by (rule sm_bind_conns)
  then show ?thesis by (simp add: write_and_read_def sm_then_def)
qed

lemma send_conns:
  assumes l: "logs_connections conns T"
  shows "conns (snd (send_http1_request T t bytes w)) = conns w @ [target_addr t]"
proof -
  have hs: "conns (snd (net_call ''TLS handshake: '' (tls_handshake T conn) w)) = conns w @ []"
    and su: "conns (snd (net_call ''TLS setup: '' (tls_setup T h tcp) w)) = conns w @ []"
    and co: "conns (snd (connect_tcp T t w)) = conns w @ [target_addr t]" for conn h tcp w
    unfolding connect_tcp_def by (rule net_call_conns, use l in \<open>simp add: logs_connections_def\<close>)+
  have tls: "conns (snd (complete_tls_handshake T conn bytes w)) = conns w @ []" for conn w
    unfolding complete_tls_handshake_def by (rule sm_bind_conns [where conns = conns], rule hs, rule write_and_read_conns [OF l])
  have "conns (snd (sm_bind (net_call ''TLS setup: '' (tls_setup T h tcp)) (\<lambda>conn. complete_tls_handshake T conn bytes) w))
      = conns w @ []" for h tcp w
    by (rule sm_bind_conns [where conns = conns], rule su, simp add: tls)
  then have https: "conns (snd (send_https_request T t tcp bytes w)) = conns w" for tcp w
    by (simp add: send_https_request_def split: option.split)
  show ?thesis
    unfolding send_http1_request_def
    by (rule sm_bind_conns [where conns = conns], rule co, simp add: https write_and_read_conns [OF l])
qed

text \<open>The targets a client may connect to.\<close>

definition permitted :: "('u, 'o, 's, 'w) net_env \<Rightarrow> 'o basic_client \<Rightarrow> string \<Rightarrow> bool" where
  "permitted E C a \<longleftrightarrow>
     (\<exists>u t. target_from_parsed (env_url E) u = Inr t \<and> a = target_addr t
        \<and> (\<forall>origin. request_origin C = Some origin \<longrightarrow> url_origin (env_url E) u = origin))"

lemma target_parsed: "target_from_parsed U u = Inr t \<Longrightarrow> rt_parsed t = u"
  by (auto simp: target_from_parsed_def res_bind_ok ok_or_def Let_def split: option.splits)

lemma hop_conns:
  assumes "logs_connections conns (env_transport E)" "(s, t) \<in> hop E C request nav"
  shows "\<exists>as. conns (ns_world t) = conns (ns_world s) @ as \<and> length as \<le> 1 \<and> (\<forall>a \<in> set as. permitted E C a)"
proof -
  obtain url where t: "t = snd (fetch_http1_once E C request url nav s)" using assms(2) by (auto simp: hop_def)
  from once_effect [of E C request url nav s, folded t] consider (same) "t = s"
    | (sent) g bytes where "target_parse (env_url E) url = Inr g" "\<not> origin_refused E C g"
        "ns_world t = snd (send_http1_request (env_transport E) g bytes (ns_world s))" by blast
  then show ?thesis
  proof cases
    case sent
    obtain u where u: "target_from_parsed (env_url E) u = Inr g"
      using sent(1) by (auto simp: target_parse_def res_bind_ok)
    have "permitted E C (target_addr g)"
      using u sent(2) target_parsed [OF u] unfolding permitted_def origin_refused_def by fastforce
    then show ?thesis
      by (intro exI [of _ "[target_addr g]"]) (simp add: sent(3) send_conns [OF assms(1)])
  qed simp
qed

text \<open>C16: a fetch, with its redirects, connects at most once more than the redirects allowed, and only to
  the address of a URL whose origin the client permits: a redirect cannot lead it elsewhere.\<close>

theorem fetch_confined:
  assumes "logs_connections conns (env_transport E)"
  shows "\<exists>as. conns (ns_world (snd (fetch_with_context E C request nav s))) = conns (ns_world s) @ as
    \<and> length as \<le> Suc (max_redirects C) \<and> (\<forall>a \<in> set as. permitted E C a)"
proof -
  have "(s, t) \<in> hop E C request nav ^^ n \<Longrightarrow>
      \<exists>as. conns (ns_world t) = conns (ns_world s) @ as \<and> length as \<le> n \<and> (\<forall>a \<in> set as. permitted E C a)" for n t
  proof (induction n arbitrary: t)
    case (Suc n)
    then obtain v where v: "(s, v) \<in> hop E C request nav ^^ n" "(v, t) \<in> hop E C request nav" by auto
    from Suc.IH [OF v(1)] obtain as where as: "conns (ns_world v) = conns (ns_world s) @ as"
      "length as \<le> n" "\<forall>a \<in> set as. permitted E C a" by blast
    from hop_conns [OF assms v(2)] obtain bs where bs: "conns (ns_world t) = conns (ns_world v) @ bs"
      "length bs \<le> 1" "\<forall>a \<in> set bs. permitted E C a" by blast
    show ?case using as bs by (intro exI [of _ "as @ bs"]) auto
  qed simp
  with fetch_hops [of C s E request nav] show ?thesis by (meson le_trans)
qed

text \<open>A world that records connections and answers nothing.\<close>

definition sample_transport :: "(unit, string list) transport" where
  "sample_transport = \<lparr>tcp_connect = (\<lambda>a w. (Inr (), w @ [a])), server_name = (\<lambda>_. None),
     tls_setup = (\<lambda>_ _ w. (Inr (), w)), tls_handshake = (\<lambda>_ w. (Inr (), w)),
     write_all = (\<lambda>_ _ w. (None, w)), reads = (\<lambda>_ w. ([], w)), now_unix = (\<lambda>_. 0)\<rparr>"

definition sample_env :: "(string, string, unit, string list) net_env" where
  "sample_env = \<lparr>env_url = sample_url, env_transport = sample_transport, env_httparse = (\<lambda>_. HeadPartial),
     env_decoders = \<lparr>dec_brotli = (\<lambda>_. []), dec_gzip = (\<lambda>_. []), dec_deflate = (\<lambda>_. [])\<rparr>,
     env_psl = \<lparr>psl_rules = {}, psl_wildcards = {}, psl_exceptions = {}\<rparr>, env_os = ''linux''\<rparr>"

theorem fetch_confined_witness:
  "\<exists>as. ns_world (snd (fetch_with_context sample_env (with_request_origin ''a.test'' client_new) sample_request None
       \<lparr>ns_jar = (\<lambda>_. None), ns_world = []\<rparr>)) = as
    \<and> length as \<le> 6 \<and> (\<forall>a \<in> set as. permitted sample_env (with_request_origin ''a.test'' client_new) a)"
proof -
  have "logs_connections id (env_transport sample_env)"
    by (simp add: logs_connections_def sample_env_def sample_transport_def)
  from fetch_confined [OF this, of "with_request_origin ''a.test'' client_new" sample_request None
      "\<lparr>ns_jar = (\<lambda>_. None), ns_world = []\<rparr>"]
  show ?thesis by (simp add: with_request_origin_def client_new_def)
qed

section \<open>Which cookies a fetch can touch\<close>

text \<open>The partitions of the sites a client may exchange cookies with.\<close>

definition cookie_partition :: "('u, 'o, 's, 'w) net_env \<Rightarrow> 'o basic_client \<Rightarrow> string \<Rightarrow> bool" where
  "cookie_partition E C k \<longleftrightarrow>
     (\<exists>site u. cookie_context C = Some site \<and> k = partition_key site (target_site (env_url E) (env_psl E) u)
        \<and> (\<forall>origin. cookie_origin C = Some origin \<longrightarrow> url_origin (env_url E) u = origin)
        \<and> (\<forall>origin. request_origin C = Some origin \<longrightarrow> url_origin (env_url E) u = origin))"

lemma store_response_cookies_frame:
  "cookie_context C = Some site \<Longrightarrow> k \<noteq> partition_key site (target_site U psl (rt_parsed g)) \<Longrightarrow>
    store_response_cookies U psl C r g now jar k = jar k"
  by (auto simp: store_response_cookies_def store_mut_def Let_def split: option.split)

lemma hop_frame:
  assumes "(s, t) \<in> hop E C request nav" "\<not> cookie_partition E C k"
  shows "ns_jar t k = ns_jar s k"
proof -
  obtain url where t: "t = snd (fetch_http1_once E C request url nav s)" using assms(1) by (auto simp: hop_def)
  from once_effect [of E C request url nav s, folded t] consider (same) "ns_jar t = ns_jar s"
    | (stored) g r now where "\<not> origin_refused E C g"
        "ns_jar t = store_response_cookies (env_url E) (env_psl E) C r g now (ns_jar s)" by fastforce
  then show ?thesis
  proof cases
    case stored
    show ?thesis
    proof (cases "permits_cookies (env_url E) C g \<and> cookie_context C \<noteq> None")
      case True
      then obtain site where site: "cookie_context C = Some site" by auto
      have "k \<noteq> partition_key site (target_site (env_url E) (env_psl E) (rt_parsed g))"
        using assms(2) site True stored(1)
        by (auto simp: cookie_partition_def permits_cookies_def origin_refused_def split: option.splits)
      then show ?thesis using site unfolding stored(2) by (intro store_response_cookies_frame)
    qed (auto simp: stored(2) store_response_cookies_def)
  qed simp
qed



section \<open>The bound on a body\<close>

lemma write_and_read_bounded:
  "write_and_read T msg st b w = (Inr r, v) \<Longrightarrow> length r \<le> MAX_RESPONSE_BODY_BYTES"
  unfolding write_and_read_def sm_then_def
  by (auto simp: sm_bind_ok sm_read_def dest: read_response_bounded)

lemma send_bounded:
  "send_http1_request T t bytes w = (Inr r, v) \<Longrightarrow> length r \<le> MAX_RESPONSE_BODY_BYTES"
  by (auto simp: send_http1_request_def send_https_request_def complete_tls_handshake_def sm_bind_ok
      split: if_splits option.splits dest: write_and_read_bounded)

lemma on_world_eq: "on_world m s = (r, t) \<longleftrightarrow> (\<exists>w. m (ns_world s) = (r, w) \<and> t = s\<lparr>ns_world := w\<rparr>)"
  by (auto simp: on_world_def split: prod.splits)

lemma once_bounded:
  "fetch_http1_once E C request url nav s = (Inr (p, r), t) \<Longrightarrow> length (rsp_body r) \<le> MAX_RESPONSE_BODY_BYTES"
  by (auto simp: fetch_http1_once_def sm_bind_ok sm_then_def sm_read_def on_world_eq sm_return_def
      split: if_splits dest!: send_bounded dest: parse_response_bounded)


section \<open>Cookies set by scripts\<close>

text \<open>
  The hypothesis of \<open>request_framing\<close> on the cookie text is needed: an assignment to \<open>document.cookie\<close>
  is stored with its line breaks, and the \<open>Cookie\<close> field is written without the check the caller's own
  headers get, so a script adds lines to the requests of its site.
\<close>

lemma script_cookie_adds_line:
  "cookie_header ''a.test'' ''/'' False True CtxSameSite 0
     (cs_set_document_cookie (''a=b'' @ [CHR 0x0D, CHR 0x0A] @ ''X: y'') ''a.test'' 0 [])
   = ''a=b'' @ [CHR 0x0D, CHR 0x0A] @ ''X: y''"
  by code_simp

end
