(* ===== verification/Dom_Diff.thy ===== *)
theory Dom_Diff
  imports Dom_Model
begin

text \<open>
  The structural comparison of two arenas (\<open>crates/silksurf-dom/src/diff.rs\<close>) and what its result
  means: the nodes of the old tree are matched or removed, those of the new tree matched or added,
  and a matched node is reported as changed exactly when its own content differs.
\<close>

section \<open>The operations\<close>

datatype change_kind = TextContent | AttributesChange | BothChange

record dom_diff =
  diff_changed :: "(node_id \<times> change_kind) list"
  diff_added :: "node_id list"
  diff_removed :: "node_id list"

definition diff_default :: dom_diff where
  "diff_default = \<lparr>diff_changed = [], diff_added = [], diff_removed = []\<rparr>"

definition diff_is_empty :: "dom_diff \<Rightarrow> bool" where
  "diff_is_empty r \<longleftrightarrow> diff_changed r = [] \<and> diff_added r = [] \<and> diff_removed r = []"

definition total_changes :: "dom_diff \<Rightarrow> nat" where
  "total_changes r = length (diff_changed r) + length (diff_added r) + length (diff_removed r)"

text \<open>\<open>collect_subtree_ids\<close>: the stack with its top first. It runs until the stack is empty.\<close>

partial_function (option) collect_loop :: "dom \<Rightarrow> node_id list \<Rightarrow> node_id list \<Rightarrow> node_id list option" where
  "collect_loop d stack out =
     (case stack of
        [] \<Rightarrow> Some out
      | i # rest \<Rightarrow>
          collect_loop d (case children d i of Inr cs \<Rightarrow> cs @ rest | Inl _ \<Rightarrow> rest) (out @ [i]))"

definition collect_subtree_ids :: "dom \<Rightarrow> node_id \<Rightarrow> node_id list \<Rightarrow> node_id list option" where
  "collect_subtree_ids d root out = collect_loop d [root] out"

definition attributes_changed :: "dom \<Rightarrow> node_id \<Rightarrow> dom \<Rightarrow> node_id \<Rightarrow> bool" where
  "attributes_changed old o_node new n_node =
     (case (attributes old o_node, attributes new n_node) of
        (Inr old_attrs, Inr new_attrs) \<Rightarrow>
          length old_attrs \<noteq> length new_attrs
          \<or> list_ex (\<lambda>a. \<not> list_ex (\<lambda>b. attr_name b = attr_name a \<and> attr_value b = attr_value a) new_attrs) old_attrs
      | _ \<Rightarrow> False)"

text \<open>Reporting in the three lists.\<close>

definition push_changed :: "node_id \<Rightarrow> change_kind \<Rightarrow> dom_diff \<Rightarrow> dom_diff" where
  "push_changed i k r = r\<lparr>diff_changed := diff_changed r @ [(i, k)]\<rparr>"

definition collect_removed :: "dom \<Rightarrow> node_id \<Rightarrow> dom_diff \<Rightarrow> dom_diff option" where
  "collect_removed d i r = map_option (\<lambda>out. r\<lparr>diff_removed := out\<rparr>) (collect_subtree_ids d i (diff_removed r))"

definition collect_added :: "dom \<Rightarrow> node_id \<Rightarrow> dom_diff \<Rightarrow> dom_diff option" where
  "collect_added d i r = map_option (\<lambda>out. r\<lparr>diff_added := out\<rparr>) (collect_subtree_ids d i (diff_added r))"

definition children_or_none :: "dom \<Rightarrow> node_id \<Rightarrow> node_id list" where
  "children_or_none d i = (case children d i of Inr cs \<Rightarrow> cs | Inl _ \<Rightarrow> [])"

text \<open>
  The recursion of \<open>diff_subtree\<close> and \<open>diff_children\<close>, its pending calls as a list: the calls run in the
  order of the code, each extending the one result. The node matching of one call gives the change to
  report and whether the children are compared, or that the two subtrees are incompatible.
\<close>

datatype diff_task = Compare node_id node_id | RemoveTree node_id | AddTree node_id

definition diff_children :: "dom \<Rightarrow> node_id \<Rightarrow> dom \<Rightarrow> node_id \<Rightarrow> diff_task list" where
  "diff_children old o_parent new n_parent =
     (let os = children_or_none old o_parent; ns = children_or_none new n_parent;
          common = min (length os) (length ns)
      in map (\<lambda>i. Compare (os ! i) (ns ! i)) [0..<common]
         @ map RemoveTree (drop common os) @ map AddTree (drop common ns))"

datatype node_match = Incompatible | Leaf "change_kind option" | Inner "change_kind option"

definition change_if :: "bool \<Rightarrow> change_kind \<Rightarrow> change_kind option" where
  "change_if b k = (if b then Some k else None)"

definition match_nodes :: "dom \<Rightarrow> node_id \<Rightarrow> node_kind \<Rightarrow> dom \<Rightarrow> node_id \<Rightarrow> node_kind \<Rightarrow> node_match" where
  "match_nodes old o_node old_kind new n_node new_kind =
     (case (old_kind, new_kind) of
        (Document, Document) \<Rightarrow> Inner None
      | (DocumentFragment, DocumentFragment) \<Rightarrow> Inner None
      | (Doctype old_name _ _, Doctype new_name _ _) \<Rightarrow> Leaf (change_if (old_name \<noteq> new_name) AttributesChange)
      | (Text old_text, Text new_text) \<Rightarrow> Leaf (change_if (old_text \<noteq> new_text) TextContent)
      | (Comment old_data, Comment new_data) \<Rightarrow> Leaf (change_if (old_data \<noteq> new_data) TextContent)
      | (Element old_tag old_prefix old_namespace _, Element new_tag new_prefix new_namespace _) \<Rightarrow>
          if old_tag \<noteq> new_tag \<or> old_prefix \<noteq> new_prefix \<or> old_namespace \<noteq> new_namespace then Incompatible
          else Inner (change_if (attributes_changed old o_node new n_node) AttributesChange)
      | _ \<Rightarrow> Incompatible)"

definition report_change :: "node_id \<Rightarrow> change_kind option \<Rightarrow> dom_diff \<Rightarrow> dom_diff" where
  "report_change i c r = (case c of Some k \<Rightarrow> push_changed i k r | None \<Rightarrow> r)"

text \<open>One call: the calls it makes next and the result so far.\<close>

definition diff_step :: "dom \<Rightarrow> dom \<Rightarrow> diff_task \<Rightarrow> dom_diff \<Rightarrow> (diff_task list \<times> dom_diff) option" where
  "diff_step old new task r =
     (case task of
        RemoveTree i \<Rightarrow> map_option (Pair []) (collect_removed old i r)
      | AddTree i \<Rightarrow> map_option (Pair []) (collect_added new i r)
      | Compare a b \<Rightarrow>
          (case node_at old a of
             Inl _ \<Rightarrow> map_option (Pair []) (collect_added new b r)
           | Inr x \<Rightarrow>
               (case node_at new b of
                  Inl _ \<Rightarrow> map_option (Pair []) (collect_removed old a r)
                | Inr y \<Rightarrow>
                    (case match_nodes old a (kind x) new b (kind y) of
                       Incompatible \<Rightarrow>
                         map_option (Pair []) (Option.bind (collect_removed old a r) (collect_added new b))
                     | Leaf c \<Rightarrow> Some ([], report_change a c r)
                     | Inner c \<Rightarrow> Some (diff_children old a new b, report_change a c r)))))"

partial_function (option) diff_loop :: "dom \<Rightarrow> dom \<Rightarrow> diff_task list \<Rightarrow> dom_diff \<Rightarrow> dom_diff option" where
  "diff_loop old new tasks r =
     (case tasks of
        [] \<Rightarrow> Some r
      | task # rest \<Rightarrow>
          Option.bind (diff_step old new task r) (\<lambda>(subtasks, r). diff_loop old new (subtasks @ rest) r))"

definition diff_subtree :: "dom \<Rightarrow> node_id \<Rightarrow> dom \<Rightarrow> node_id \<Rightarrow> dom_diff \<Rightarrow> dom_diff option" where
  "diff_subtree old o_node new n_node r = diff_loop old new [Compare o_node n_node] r"

definition diff_doms :: "dom \<Rightarrow> node_id \<Rightarrow> dom \<Rightarrow> node_id \<Rightarrow> dom_diff option" where
  "diff_doms old old_root new new_root = diff_subtree old old_root new new_root diff_default"

section \<open>Collecting a subtree\<close>

lemma dfs_loop_collect: "dfs_loop d stack out = Some r \<Longrightarrow> collect_loop d stack out = Some r"
proof (erule dfs_loop.raw_induct [rotated])
  fix loop d stack out r
  assume ih: "\<And>d stack out r. loop d stack out = Some r \<Longrightarrow> collect_loop d stack out = Some r"
    and step: "(case stack of [] \<Rightarrow> Some out
      | i # rest \<Rightarrow> loop d (case children d i of Inl _ \<Rightarrow> rest | Inr cs \<Rightarrow> cs @ rest) (out @ [i])) = Some r"
  show "collect_loop d stack out = Some r"
  proof (cases stack)
    case Nil
    then show ?thesis using step by (subst collect_loop.simps) simp
  next
    case (Cons i rest)
    then show ?thesis using ih step by (subst collect_loop.simps) simp
  qed
qed

text \<open>A list of the subtree of a node, each node once.\<close>

definition lists_subtree :: "dom \<Rightarrow> node_id \<Rightarrow> node_id list \<Rightarrow> bool" where
  "lists_subtree d i xs \<longleftrightarrow> set xs = subtree d i \<and> distinct xs"

lemma collect_subtree:
  assumes inv: "tree_inv d"
  shows "\<exists>xs. lists_subtree d i xs \<and> (\<forall>out. collect_subtree_ids d i out = Some (out @ xs))"
proof -
  obtain xs where v: "visits d [i] xs" and xs: "set xs = subtree d i" "distinct xs"
    using subtree_visited [OF inv] by blast
  have "dfs_loop d [i] out = Some (out @ xs)" for out
    using v dfs_loop.simps [of d "[]"] unfolding visits_def by (metis append_Nil2 list.simps(4))
  then show ?thesis
    using xs dfs_loop_collect by (auto simp: collect_subtree_ids_def lists_subtree_def)
qed

section \<open>What a difference means\<close>

text \<open>Nodes at the same position that can stand for each other, and the change between them.\<close>

definition comparable :: "dom \<Rightarrow> node_id \<Rightarrow> dom \<Rightarrow> node_id \<Rightarrow> bool" where
  "comparable old a new b \<longleftrightarrow> match_nodes old a (knd old a) new b (knd new b) \<noteq> Incompatible"

definition change_at :: "dom \<Rightarrow> dom \<Rightarrow> node_id \<times> node_id \<Rightarrow> change_kind option" where
  "change_at old new = (\<lambda>(a, b). case match_nodes old a (knd old a) new b (knd new b) of
     Incompatible \<Rightarrow> None | Leaf c \<Rightarrow> c | Inner c \<Rightarrow> c)"

inductive_set matched :: "dom \<Rightarrow> dom \<Rightarrow> node_id \<times> node_id \<Rightarrow> (node_id \<times> node_id) set"
  for old new root where
    matched_root: "comparable old (fst root) new (snd root) \<Longrightarrow> root \<in> matched old new root"
  | matched_child: "(p, q) \<in> matched old new root \<Longrightarrow> (a, b) \<in> set (zip (kids old p) (kids new q))
      \<Longrightarrow> comparable old a new b \<Longrightarrow> (a, b) \<in> matched old new root"

lemma matched_below:
  assumes "comparable old a new b" "cd \<in> set (zip (kids old a) (kids new b))"
  shows "matched old new cd \<subseteq> matched old new (a, b)"
proof
  fix x assume "x \<in> matched old new cd"
  then show "x \<in> matched old new (a, b)"
  proof induction
    case matched_root
    have "(a, b) \<in> matched old new (a, b)" using assms(1) by (intro matched.matched_root) simp
    moreover have "(fst cd, snd cd) \<in> set (zip (kids old a) (kids new b))" using assms(2) by simp
    ultimately show ?case using matched_root matched.matched_child by (metis prod.collapse)
  qed (rule matched.matched_child)
qed

lemma matched_unfold:
  "matched old new (a, b) =
     (if comparable old a new b
      then insert (a, b) (\<Union>cd \<in> set (zip (kids old a) (kids new b)). matched old new cd) else {})"
proof (cases "comparable old a new b")
  case True
  have "x \<in> insert (a, b) (\<Union>cd \<in> set (zip (kids old a) (kids new b)). matched old new cd)"
    if "x \<in> matched old new (a, b)" for x
    using that
  proof induction
    case (matched_child p q c d)
    show ?case
    proof (cases "(p, q) = (a, b)")
      case True
      then show ?thesis using matched_child matched.matched_root [of old "(c, d)" new] by auto
    next
      case False
      then obtain cd where cd: "cd \<in> set (zip (kids old a) (kids new b))" "(p, q) \<in> matched old new cd"
        using matched_child.IH by auto
      have "(c, d) \<in> matched old new cd"
        by (rule matched.matched_child [OF cd(2) matched_child.hyps(2,3)])
      then show ?thesis using cd(1) by auto
    qed
  qed simp
  then have "matched old new (a, b) \<subseteq> insert (a, b) (\<Union>cd \<in> set (zip (kids old a) (kids new b)). matched old new cd)"
    by blast
  moreover have "(a, b) \<in> matched old new (a, b)" using True by (intro matched.matched_root) simp
  moreover have "(\<Union>cd \<in> set (zip (kids old a) (kids new b)). matched old new cd) \<subseteq> matched old new (a, b)"
    using matched_below [OF True] by blast
  ultimately show ?thesis using True by (simp only: if_True) blast
next
  case False
  have "x \<notin> matched old new (a, b)" for x
  proof
    assume "x \<in> matched old new (a, b)"
    then show False by induction (use False in auto)
  qed
  then show ?thesis using False by auto
qed

text \<open>The effect of the pending calls on the result: what they match, remove and add.\<close>

definition changes_of :: "dom \<Rightarrow> dom \<Rightarrow> (node_id \<times> node_id) list \<Rightarrow> (node_id \<times> change_kind) list" where
  "changes_of old new M = List.map_filter (\<lambda>m. map_option (Pair (fst m)) (change_at old new m)) M"

definition extend :: "dom_diff \<Rightarrow> (node_id \<times> change_kind) list \<Rightarrow> node_id list \<Rightarrow> node_id list \<Rightarrow> dom_diff" where
  "extend r C R A = r\<lparr>diff_changed := diff_changed r @ C, diff_removed := diff_removed r @ R, diff_added := diff_added r @ A\<rparr>"

definition effect :: "dom \<Rightarrow> dom \<Rightarrow> diff_task list \<Rightarrow> (node_id \<times> node_id) list \<Rightarrow> node_id list \<Rightarrow> node_id list \<Rightarrow> bool" where
  "effect old new tasks M R A \<longleftrightarrow>
     (\<forall>rest r. diff_loop old new (tasks @ rest) r = diff_loop old new rest (extend r (changes_of old new M) R A))"

lemma changes_of_append: "changes_of old new (M @ N) = changes_of old new M @ changes_of old new N"
  by (simp add: changes_of_def List.map_filter_def)

lemma effect_Nil: "effect old new [] [] [] []"
  by (simp add: effect_def extend_def changes_of_def List.map_filter_def)

lemma effect_append:
  "effect old new ts M R A \<Longrightarrow> effect old new us N S B \<Longrightarrow> effect old new (ts @ us) (M @ N) (R @ S) (A @ B)"
  by (simp add: effect_def extend_def changes_of_append)

lemma diff_loop_step:
  "diff_step old new task r = Some (subtasks, r') \<Longrightarrow>
    diff_loop old new (task # rest) r = diff_loop old new (subtasks @ rest) r'"
  by (subst diff_loop.simps) simp

text \<open>What a list of nodes is, for the trees under several siblings.\<close>

definition lists_forest :: "dom \<Rightarrow> node_id list \<Rightarrow> node_id list \<Rightarrow> bool" where
  "lists_forest d is xs \<longleftrightarrow> set xs = (\<Union>i \<in> set is. subtree d i) \<and> distinct xs"

lemma lists_forest_append:
  assumes inv: "tree_inv d" and k: "distinct (is @ js)" "set (is @ js) \<subseteq> set (kids d p)"
    and "lists_forest d is (xs @ ys)" "lists_forest d js (us @ vs)"
  shows "lists_forest d (is @ js) ((xs @ us) @ ys @ vs)"
proof -
  have "subtree d i \<inter> subtree d j = {}" if "i \<in> set is" "j \<in> set js" for i j
    using that k by (intro sibling_subtrees_disjoint [OF inv, of _ p]) auto
  then have "set (xs @ ys) \<inter> set (us @ vs) = {}" using assms(4,5) unfolding lists_forest_def by blast
  then have d: "distinct ((xs @ ys) @ us @ vs)"
    using assms(4,5) unfolding lists_forest_def distinct_append set_append by blast
  have "set ((xs @ us) @ ys @ vs) = set (xs @ ys) \<union> set (us @ vs)" by auto
  also have "\<dots> = (\<Union>i \<in> set (is @ js). subtree d i)"
    using assms(4,5) unfolding lists_forest_def by auto
  finally show ?thesis using d unfolding lists_forest_def by auto
qed

lemma lists_forest_single: "lists_forest d [i] xs = lists_subtree d i xs"
  by (simp add: lists_forest_def lists_subtree_def)

lemma remove_effect:
  assumes inv: "tree_inv old" and k: "distinct is" "set is \<subseteq> set (kids old p)"
  shows "\<exists>R. effect old new (map RemoveTree is) [] R [] \<and> lists_forest old is R"
  using k
proof (induction "is")
  case (Cons i "is")
  then obtain R where R: "effect old new (map RemoveTree is) [] R []" "lists_forest old is R" by auto
  obtain xs where xs: "lists_subtree old i xs" "\<And>out. collect_subtree_ids old i out = Some (out @ xs)"
    using collect_subtree [OF inv] by blast
  have "effect old new [RemoveTree i] [] xs []"
    unfolding effect_def
    by (intro allI, simp, subst diff_loop_step)
       (auto simp: diff_step_def collect_removed_def xs(2) extend_def changes_of_def List.map_filter_def)
  from effect_append [OF this R(1)] have "effect old new (map RemoveTree (i # is)) [] (xs @ R) []" by simp
  moreover have "lists_forest old (i # is) (xs @ R)"
    using lists_forest_append [OF inv, of "[i]" "is" p xs "[]" R "[]"] Cons.prems R(2) xs(1)
    by (simp add: lists_forest_single)
  ultimately show ?case by blast
qed (use effect_Nil in \<open>auto simp: lists_forest_def\<close>)

lemma add_effect:
  assumes inv: "tree_inv new" and k: "distinct is" "set is \<subseteq> set (kids new p)"
  shows "\<exists>A. effect old new (map AddTree is) [] [] A \<and> lists_forest new is A"
  using k
proof (induction "is")
  case (Cons i "is")
  then obtain A where A: "effect old new (map AddTree is) [] [] A" "lists_forest new is A" by auto
  obtain xs where xs: "lists_subtree new i xs" "\<And>out. collect_subtree_ids new i out = Some (out @ xs)"
    using collect_subtree [OF inv] by blast
  have "effect old new [AddTree i] [] [] xs"
    unfolding effect_def
    by (intro allI, simp, subst diff_loop_step)
       (auto simp: diff_step_def collect_added_def xs(2) extend_def changes_of_def List.map_filter_def)
  from effect_append [OF this A(1)] have "effect old new (map AddTree (i # is)) [] [] (xs @ A)" by simp
  moreover have "lists_forest new (i # is) (xs @ A)"
    using lists_forest_append [OF inv, of "[i]" "is" p xs "[]" A "[]"] Cons.prems A(2) xs(1)
    by (simp add: lists_forest_single)
  ultimately show ?case by blast
qed (use effect_Nil in \<open>auto simp: lists_forest_def\<close>)

text \<open>The effect of comparing two nodes: the matched pairs, and the rest of the two subtrees.\<close>

definition compare_ok :: "dom \<Rightarrow> dom \<Rightarrow> node_id \<Rightarrow> node_id \<Rightarrow> bool" where
  "compare_ok old new a b \<longleftrightarrow>
     (\<exists>M R A. effect old new [Compare a b] M R A \<and> set M = matched old new (a, b)
        \<and> lists_subtree old a (map fst M @ R) \<and> lists_subtree new b (map snd M @ A))"

lemma compare_each:
  assumes inv: "tree_inv old" "tree_inv new"
    and ok: "\<And>a b. (a, b) \<in> set zs \<Longrightarrow> compare_ok old new a b"
    and k: "distinct (map fst zs)" "set (map fst zs) \<subseteq> set (kids old p)"
      "distinct (map snd zs)" "set (map snd zs) \<subseteq> set (kids new q)"
  shows "\<exists>M R A. effect old new (map (\<lambda>(a, b). Compare a b) zs) M R A \<and> set M = (\<Union>z \<in> set zs. matched old new z)
    \<and> lists_forest old (map fst zs) (map fst M @ R) \<and> lists_forest new (map snd zs) (map snd M @ A)"
  using ok k
proof (induction zs)
  case Nil
  show ?case
    by (rule exI [of _ "[]"], rule exI [of _ "[]"], rule exI [of _ "[]"]) (simp add: effect_Nil lists_forest_def)
next
  case (Cons z zs)
  obtain a b where z: "z = (a, b)" by (cases z)
  obtain M R A where r: "effect old new (map (\<lambda>(a, b). Compare a b) zs) M R A"
      "set M = (\<Union>z \<in> set zs. matched old new z)"
      "lists_forest old (map fst zs) (map fst M @ R)" "lists_forest new (map snd zs) (map snd M @ A)"
    using Cons by (metis (no_types, lifting) distinct.simps(2) insert_subset list.set_intros(2) list.simps(15) list.simps(9))
  obtain N S B where h: "effect old new [Compare a b] N S B" "set N = matched old new (a, b)"
      "lists_subtree old a (map fst N @ S)" "lists_subtree new b (map snd N @ B)"
    using Cons.prems(1) [of a b] z unfolding compare_ok_def by auto
  have "effect old new (map (\<lambda>(a, b). Compare a b) (z # zs)) (N @ M) (S @ R) (B @ A)"
    using effect_append [OF h(1) r(1)] by (simp add: z)
  moreover have "set (N @ M) = (\<Union>z \<in> set (z # zs). matched old new z)" using h(2) r(2) z by simp
  moreover have "lists_forest old (map fst (z # zs)) (map fst (N @ M) @ S @ R)"
    using lists_forest_append [OF inv(1), of "[a]" "map fst zs" p "map fst N" S "map fst M" R] Cons.prems h(3) r(3) z
    by (simp add: lists_forest_single)
  moreover have "lists_forest new (map snd (z # zs)) (map snd (N @ M) @ B @ A)"
    using lists_forest_append [OF inv(2), of "[b]" "map snd zs" q "map snd N" B "map snd M" A] Cons.prems h(4) r(4) z
    by (simp add: lists_forest_single)
  ultimately show ?case by blast
qed

lemma diff_children_tasks:
  "diff_children old a new b =
     map (\<lambda>(a, b). Compare a b) (zip (kids old a) (kids new b))
     @ map RemoveTree (drop (min (length (kids old a)) (length (kids new b))) (kids old a))
     @ map AddTree (drop (min (length (kids old a)) (length (kids new b))) (kids new b))"
proof -
  have k: "children_or_none d i = kids d i" for d i
    by (simp add: children_or_none_def children_kids kids_def)
  show ?thesis
    by (auto simp: diff_children_def k Let_def intro!: nth_equalityI)
qed

lemma subtree_not_below:
  assumes "tree_inv d" "c \<in> set (kids d i)" shows "i \<notin> subtree d c"
proof
  assume "i \<in> subtree d c"
  then have "(i, c) \<in> (par_rel d)\<^sup>*" by (simp add: subtree_def)
  moreover have "(c, i) \<in> par_rel d" using tree_inv_links [OF assms(1)] assms(2) by (simp add: par_rel_def)
  ultimately have "(i, i) \<in> (par_rel d)\<^sup>+" by (rule rtrancl_into_trancl1)
  then show False using acyclic_par_rel [OF assms(1)] by (simp add: acyclic_def)
qed

lemma lists_subtree_Cons:
  assumes "tree_inv d" "lists_forest d (kids d i) xs" shows "lists_subtree d i (i # xs)"
  using assms subtree_unfold [OF assms(1), of i] subtree_not_below [OF assms(1)]
  by (auto simp: lists_subtree_def lists_forest_def)

text \<open>A pair that is reported, with the calls it makes.\<close>

lemma effect_report:
  assumes "\<And>r. diff_step old new (Compare a b) r = Some (tasks, report_change a (change_at old new (a, b)) r)"
    and "effect old new tasks M R A"
  shows "effect old new [Compare a b] ((a, b) # M) R A"
  unfolding effect_def
proof (intro allI)
  fix rest r
  have "diff_loop old new ([Compare a b] @ rest) r
      = diff_loop old new (tasks @ rest) (report_change a (change_at old new (a, b)) r)"
    by (simp add: diff_loop_step [OF assms(1)])
  also have "\<dots> = diff_loop old new rest (extend (report_change a (change_at old new (a, b)) r) (changes_of old new M) R A)"
    using assms(2) by (simp add: effect_def)
  also have "extend (report_change a (change_at old new (a, b)) r) (changes_of old new M) R A
      = extend r (changes_of old new ((a, b) # M)) R A"
    by (simp add: report_change_def push_changed_def extend_def changes_of_def List.map_filter_def split: option.split)
  finally show "diff_loop old new ([Compare a b] @ rest) r
      = diff_loop old new rest (extend r (changes_of old new ((a, b) # M)) R A)" .
qed

lemma leaf_no_kids:
  assumes "tree_inv old" "tree_inv new" "match_nodes old a (knd old a) new b (knd new b) = Leaf c"
  shows "kids old a = []" "kids new b = []"
proof -
  have "\<not> container_kind (knd old a)" "\<not> container_kind (knd new b)"
    using assms(3) by (auto simp: match_nodes_def split: node_kind.splits if_splits)
  then show "kids old a = []" "kids new b = []"
    using tree_inv_container [OF assms(1)] tree_inv_container [OF assms(2)] by blast+
qed

lemma compare_effect:
  assumes inv: "tree_inv old" "tree_inv new"
  shows "a < length (nodes old) \<Longrightarrow> b < length (nodes new) \<Longrightarrow> compare_ok old new a b"
proof (induction a arbitrary: b rule: wf_induct_rule [OF wf_children [OF inv(1)]])
  case (1 a)
  note at = node_at_knd [OF 1(2)] node_at_knd [OF 1(3)]
  show ?case
  proof (cases "match_nodes old a (knd old a) new b (knd new b)")
    case Incompatible
    obtain R where R: "lists_subtree old a R" "\<And>out. collect_subtree_ids old a out = Some (out @ R)"
      using collect_subtree [OF inv(1)] by blast
    obtain A where A: "lists_subtree new b A" "\<And>out. collect_subtree_ids new b out = Some (out @ A)"
      using collect_subtree [OF inv(2)] by blast
    have "effect old new [Compare a b] [] R A"
      unfolding effect_def
      by (intro allI, simp, subst diff_loop_step)
         (auto simp: diff_step_def at Incompatible collect_removed_def collect_added_def R(2) A(2) extend_def
            changes_of_def List.map_filter_def)
    moreover have "matched old new (a, b) = {}" by (simp add: matched_unfold comparable_def Incompatible)
    ultimately show ?thesis using R(1) A(1) unfolding compare_ok_def by (intro exI [of _ "[]"] exI [of _ R] exI [of _ A]) simp
  next
    case (Leaf c)
    note k = leaf_no_kids [OF inv Leaf]
    have "effect old new [Compare a b] [(a, b)] [] []"
      by (rule effect_report [OF _ effect_Nil]) (simp add: diff_step_def at Leaf change_at_def)
    moreover have "matched old new (a, b) = {(a, b)}" by (simp add: matched_unfold comparable_def Leaf k)
    moreover have "lists_subtree old a [a]" "lists_subtree new b [b]"
      using lists_subtree_Cons [OF inv(1), of a "[]"] lists_subtree_Cons [OF inv(2), of b "[]"] k
      by (simp_all add: lists_forest_def)
    ultimately show ?thesis
      unfolding compare_ok_def by (intro exI [of _ "[(a, b)]"] exI [of _ "[]"]) simp
  next
    case (Inner c)
    let ?os = "kids old a" and ?ns = "kids new b"
    let ?n = "min (length ?os) (length ?ns)" and ?zs = "zip ?os ?ns"
    have fst_zs: "map fst ?zs = take ?n ?os" and snd_zs: "map snd ?zs = take ?n ?ns"
      by (simp_all add: map_fst_zip_take map_snd_zip_take)
    have dist: "distinct ?os" "distinct ?ns" using tree_inv_distinct inv by blast+
    have each: "compare_ok old new x y" if "(x, y) \<in> set ?zs" for x y
    proof (rule 1(1))
      have xy: "x \<in> set ?os" "y \<in> set ?ns" using that by (auto dest: set_zip_leftD set_zip_rightD)
      then show "(x, a) \<in> par_rel old" using tree_inv_links [OF inv(1)] by (simp add: par_rel_def)
      show "x < length (nodes old)" "y < length (nodes new)" using xy tree_inv_ranges inv by blast+
    qed
    obtain M R A where m: "effect old new (map (\<lambda>(a, b). Compare a b) ?zs) M R A"
        "set M = (\<Union>z \<in> set ?zs. matched old new z)"
        "lists_forest old (take ?n ?os) (map fst M @ R)" "lists_forest new (take ?n ?ns) (map snd M @ A)"
      using compare_each [OF inv each, of ?zs a b] dist unfolding fst_zs snd_zs
      by (auto simp: set_take_subset)
    obtain S where S: "effect old new (map RemoveTree (drop ?n ?os)) [] S []" "lists_forest old (drop ?n ?os) S"
      using remove_effect [OF inv(1), of "drop ?n ?os" a new] dist by (auto simp: set_drop_subset)
    obtain B where B: "effect old new (map AddTree (drop ?n ?ns)) [] [] B" "lists_forest new (drop ?n ?ns) B"
      using add_effect [OF inv(2), of "drop ?n ?ns" b old] dist by (auto simp: set_drop_subset)
    have "effect old new (diff_children old a new b) M (R @ S) (A @ B)"
      using effect_append [OF m(1) effect_append [OF S(1) B(1)]] by (simp add: diff_children_tasks)
    then have eff: "effect old new [Compare a b] ((a, b) # M) (R @ S) (A @ B)"
      by (intro effect_report [of _ _ _ _ "diff_children old a new b"]) (simp_all add: diff_step_def at Inner change_at_def)
    have "matched old new (a, b) = set ((a, b) # M)"
      by (subst matched_unfold) (simp add: comparable_def Inner m(2))
    moreover have "lists_forest old ?os (map fst M @ R @ S)"
      using lists_forest_append [OF inv(1), of "take ?n ?os" "drop ?n ?os" a "map fst M" R "[]" S] m(3) S(2) dist by simp
    moreover have "lists_forest new ?ns (map snd M @ A @ B)"
      using lists_forest_append [OF inv(2), of "take ?n ?ns" "drop ?n ?ns" b "map snd M" A "[]" B] m(4) B(2) dist by simp
    ultimately show ?thesis
      using eff lists_subtree_Cons [OF inv(1), of a] lists_subtree_Cons [OF inv(2), of b] unfolding compare_ok_def
      by (intro exI [of _ "(a, b) # M"] exI [of _ "R @ S"] exI [of _ "A @ B"]) simp
  qed
qed

section \<open>Property\<close>



end
