(* ===== verification/Engine_Transport.thy ===== *)
theory Engine_Transport
  imports Protocol_Envelope Rust_Chars
begin

text \<open>
  The pipes of the engine process (\<open>crates/silksurf-app/src/engine_process.rs\<close>): reading and writing
  messages, the reader threads of both ends, and the bounded queue the shell reads events from. A source
  is the list of what its \<open>read\<close> calls find; a read takes at most the bytes asked for.
\<close>

section \<open>Errors\<close>

datatype io_fault = IoFault

datatype process_error =
    ProcessIo io_fault | ProcessProtocol protocol_error | MissingPipe string | MissingChildHandle
  | UnexpectedDirection | UnexpectedEvent string | UnsupportedCommand string | ChildFailed "i32 option"
  | EventStreamClosed | EventQueueOverflow | EventQueueByteOverflow | ReceiveTimeout

section \<open>Reading\<close>

datatype read_result = Chunk "u8 list" | ReadFails

type_synonym source = "read_result list"

definition read_some :: "nat \<Rightarrow> source \<Rightarrow> (process_error + u8 list) \<times> source" where
  "read_some n src =
     (case src of
        [] \<Rightarrow> (Inr [], [])
      | ReadFails # rest \<Rightarrow> (Inl (ProcessIo IoFault), rest)
      | Chunk bs # rest \<Rightarrow>
          (Inr (take n bs), if length bs \<le> n then rest else Chunk (drop n bs) # rest))"

lemma read_some_length: "read_some n src = (Inr bs, src') \<Longrightarrow> length bs \<le> n"
  by (auto simp: read_some_def split: list.splits read_result.splits)

text \<open>The loop of \<open>read_header\<close> and \<open>read_exact_protocol\<close>: it ends early when a read gives nothing.\<close>

function fill_buffer :: "nat \<Rightarrow> u8 list \<Rightarrow> source \<Rightarrow> (process_error + u8 list) \<times> source" where
  "fill_buffer need got src =
     (if need \<le> length got then (Inr got, src)
      else (case read_some (need - length got) src of
          (Inl e, src') \<Rightarrow> (Inl e, src')
        | (Inr bs, src') \<Rightarrow> if bs = [] then (Inr got, src') else fill_buffer need (got @ bs) src'))"
  by auto
termination
  by (relation "measure (\<lambda>(need, got, _). need - length got)")
    (auto simp: length_greater_0_conv [symmetric] simp del: length_greater_0_conv)

declare fill_buffer.simps [simp del]

definition read_exact_protocol :: "nat \<Rightarrow> source \<Rightarrow> (process_error + u8 list) \<times> source" where
  "read_exact_protocol need src =
     (case fill_buffer need [] src of
        (Inl e, src') \<Rightarrow> (Inl e, src')
      | (Inr got, src') \<Rightarrow>
          (if length got < need then Inl (ProcessProtocol (Truncated need (length got))) else Inr got, src'))"

definition read_stream_header :: "source \<Rightarrow> (process_error + u8 list option) \<times> source" where
  "read_stream_header src =
     (case fill_buffer ENVELOPE_HEADER_BYTES [] src of
        (Inl e, src') \<Rightarrow> (Inl e, src')
      | (Inr got, src') \<Rightarrow>
          (if length got < ENVELOPE_HEADER_BYTES
           then (if got = [] then Inr None
                 else Inl (ProcessProtocol (Truncated ENVELOPE_HEADER_BYTES (length got))))
           else Inr (Some got), src'))"

definition read_engine_envelope :: "source \<Rightarrow> (process_error + (message \<times> nat) option) \<times> source" where
  "read_engine_envelope src =
     (case read_stream_header src of
        (Inl e, src) \<Rightarrow> (Inl e, src)
      | (Inr None, src) \<Rightarrow> (Inr None, src)
      | (Inr (Some bytes), src) \<Rightarrow>
          (case envelope_body_len bytes of
             Inl e \<Rightarrow> (Inl (ProcessProtocol e), src)
           | Inr body_len \<Rightarrow>
               (case read_exact_protocol body_len src of
                  (Inl e, src) \<Rightarrow> (Inl e, src)
                | (Inr body, src) \<Rightarrow>
                    (case decode (bytes @ body) of
                       Inl e \<Rightarrow> (Inl (ProcessProtocol e), src)
                     | Inr m \<Rightarrow> (Inr (Some (m, ENVELOPE_HEADER_BYTES + body_len)), src)))))"

definition read_engine_message :: "source \<Rightarrow> (process_error + message option) \<times> source" where
  "read_engine_message src =
     (case read_engine_envelope src of
        (Inl e, src) \<Rightarrow> (Inl e, src)
      | (Inr r, src) \<Rightarrow> (Inr (map_option fst r), src))"

section \<open>Writing\<close>

text \<open>\<open>write_all\<close> followed by \<open>flush\<close> on the pipe is an argument.\<close>

type_synonym 'w pipe = "u8 list \<Rightarrow> 'w \<Rightarrow> process_error + 'w"

definition write_engine_message :: "'w pipe \<Rightarrow> message \<Rightarrow> 'w \<Rightarrow> process_error + 'w" where
  "write_engine_message pipe m w =
     (case encode m of
        Inl e \<Rightarrow> Inl (ProcessProtocol e)
      | Inr bytes \<Rightarrow> pipe bytes w)"

definition write_event :: "'w pipe \<Rightarrow> event \<Rightarrow> 'w \<Rightarrow> process_error + 'w" where
  "write_event pipe ev w = write_engine_message pipe (MEvent ev) w"

text \<open>A pipe that keeps what is written.\<close>

definition byte_pipe :: "u8 list pipe" where
  "byte_pipe bytes w = Inr (w @ bytes)"

section \<open>The command reader of the worker\<close>

datatype 'l worker_message =
    WorkerCommand command | CommandStreamClosed | CommandStreamFailed process_error
  | NavigationComplete view_id u64 "string + 'l"

definition command_message :: "process_error + message option \<Rightarrow> 'l worker_message" where
  "command_message r =
     (case r of
        Inr (Some (MCommand c)) \<Rightarrow> WorkerCommand c
      | Inr (Some (MEvent _)) \<Rightarrow> CommandStreamFailed UnexpectedDirection
      | Inr None \<Rightarrow> CommandStreamClosed
      | Inl e \<Rightarrow> CommandStreamFailed e)"

definition is_terminal :: "'l worker_message \<Rightarrow> bool" where
  "is_terminal m = (case m of CommandStreamClosed \<Rightarrow> True | CommandStreamFailed _ \<Rightarrow> True | _ \<Rightarrow> False)"

text \<open>The bytes a source still holds and the calls it still answers bound the loop.\<close>

definition chunk_size :: "read_result \<Rightarrow> nat" where
  "chunk_size r = (case r of Chunk bs \<Rightarrow> Suc (length bs) | ReadFails \<Rightarrow> 1)"

definition source_size :: "source \<Rightarrow> nat" where
  "source_size src = sum_list (map chunk_size src)"

lemma read_some_size:
  "read_some n src = (r, src') \<Longrightarrow> source_size src' + (case r of Inr bs \<Rightarrow> length bs | Inl _ \<Rightarrow> 0) \<le> source_size src"
  by (auto simp: read_some_def source_size_def chunk_size_def split: list.splits read_result.splits if_splits)

lemma fill_buffer_size:
  "fill_buffer need got src = (r, src') \<Longrightarrow>
    source_size src' + (case r of Inr bs \<Rightarrow> length bs | Inl _ \<Rightarrow> 0) \<le> source_size src + length got"
proof (induction need got src arbitrary: r src' rule: fill_buffer.induct)
  case (1 need got src)
  show ?case
  proof (cases "need \<le> length got")
    case True
    then show ?thesis using 1(2) by (subst (asm) fill_buffer.simps) auto
  next
    case False
    obtain q mid where q: "read_some (need - length got) src = (q, mid)" by fastforce
    note le = read_some_size [OF q]
    show ?thesis
    proof (cases q)
      case (Inl e)
      then show ?thesis using 1(2) False q le by (subst (asm) fill_buffer.simps) auto
    next
      case (Inr bs)
      show ?thesis
      proof (cases "bs = []")
        case True
        then show ?thesis using 1(2) False q le Inr by (subst (asm) fill_buffer.simps) auto
      next
        case ne: False
        have "fill_buffer need (got @ bs) mid = (r, src')"
          using 1(2) False q Inr ne by (subst (asm) fill_buffer.simps) auto
        from 1(1) [OF False q [symmetric] Inr ne this] show ?thesis using le Inr by simp
      qed
    qed
  qed
qed

lemma read_exact_size: "read_exact_protocol n src = (r, src') \<Longrightarrow> source_size src' \<le> source_size src"
  using fill_buffer_size [of n "[]" src]
  by (auto simp: read_exact_protocol_def split: prod.splits sum.splits if_splits)

lemma read_envelope_smaller:
  assumes "read_engine_envelope src = (Inr (Some x), src')" shows "source_size src' < source_size src"
proof -
  obtain bytes mid where h: "read_stream_header src = (Inr (Some bytes), mid)"
    and body: "\<exists>n r. read_exact_protocol n mid = (r, src')"
    using assms by (auto simp: read_engine_envelope_def split: prod.splits sum.splits option.splits)
  have "fill_buffer ENVELOPE_HEADER_BYTES [] src = (Inr bytes, mid) \<and> \<not> length bytes < ENVELOPE_HEADER_BYTES"
    using h by (auto simp: read_stream_header_def split: prod.splits sum.splits if_splits)
  then have "source_size mid < source_size src"
    using fill_buffer_size [of ENVELOPE_HEADER_BYTES "[]" src] by (fastforce simp: ENVELOPE_HEADER_BYTES_def)
  then show ?thesis using body read_exact_size by fastforce
qed

text \<open>The messages the loop sends, the terminal one last; it also ends when the actor is gone.\<close>

function read_commands_until_closed :: "source \<Rightarrow> 'l worker_message list" where
  "read_commands_until_closed src =
     (case read_engine_message src of
        (r, src') \<Rightarrow>
          (let m = command_message r
           in if is_terminal m then [m] else m # read_commands_until_closed src'))"
  by auto
termination
proof (relation "measure source_size")
  fix src :: source and x y :: "process_error + message option" and r src' and xa :: "'l worker_message"
  assume e: "(r, src') = read_engine_message src" and m: "xa = command_message r" and n: "\<not> is_terminal xa"
  obtain c where "r = Inr (Some (MCommand c))"
    using m n by (auto simp: command_message_def is_terminal_def split: sum.splits option.splits message.splits)
  then obtain x where "read_engine_envelope src = (Inr (Some x), src')"
    using e by (auto simp: read_engine_message_def dest: sym [of "Some _"] split: prod.splits sum.splits)
  then show "(src', src) \<in> measure source_size" using read_envelope_smaller by simp
qed simp

declare read_commands_until_closed.simps [simp del]

end
