(* ===== verification/Engine_Ingress.thy ===== *)
theory Engine_Ingress
  imports Engine_Transport "HOL-Library.Sublist"
begin

text \<open>
  The shell's event queue (\<open>EventIngress\<close> and \<open>QueueCharge\<close> in
  \<open>crates/silksurf-app/src/engine_process.rs\<close>): a reader thread and the shell share a bounded queue and
  the count of the bytes it holds. The steps are those another thread can see between: a read, the
  reservation of its bytes, the sending, the taking of an event, the release of its bytes.
\<close>

section \<open>The queue\<close>

definition EVENT_QUEUE_DEPTH :: nat where "EVENT_QUEUE_DEPTH = 256"

definition EVENT_QUEUE_BYTE_BUDGET :: nat where
  "EVENT_QUEUE_BYTE_BUDGET = ENVELOPE_HEADER_BYTES + MAX_MESSAGE_BYTES"

text \<open>\<open>QueueCharge::reserve\<close>: the compare-and-exchange loop is one atomic step.\<close>

definition charge_reserve :: "nat \<Rightarrow> nat \<Rightarrow> nat option" where
  "charge_reserve held bytes =
     (if held + bytes < 2 ^ 64 \<and> held + bytes \<le> EVENT_QUEUE_BYTE_BUDGET then Some (held + bytes) else None)"

definition charge_release :: "nat \<Rightarrow> nat \<Rightarrow> nat" where
  "charge_release held bytes = held - bytes"

text \<open>Where the reader thread is: reading, holding an event whose bytes are reserved, or returned.\<close>

datatype reader_at = Reading | Reserved event nat | Returned

record ingress =
  ig_source :: source
  ig_reader :: reader_at
  ig_queue :: "(event \<times> nat) list"
  ig_outstanding :: nat
  ig_failure :: "process_error option"
  ig_taken :: "(event \<times> nat) option"
  ig_connected :: bool
  ig_received :: "event list"

definition ingress_spawn :: "source \<Rightarrow> ingress" where
  "ingress_spawn src =
     \<lparr>ig_source = src, ig_reader = Reading, ig_queue = [], ig_outstanding = 0, ig_failure = None,
      ig_taken = None, ig_connected = True, ig_received = []\<rparr>"

definition record_terminal_failure :: "process_error \<Rightarrow> ingress \<Rightarrow> ingress" where
  "record_terminal_failure e g = g\<lparr>ig_failure := Some e, ig_reader := Returned\<rparr>"

text \<open>One step of \<open>read_events_until_closed\<close>.\<close>

definition reader_step :: "ingress \<Rightarrow> ingress" where
  "reader_step g =
     (case ig_reader g of
        Returned \<Rightarrow> g
      | Reading \<Rightarrow>
          (case read_engine_envelope (ig_source g) of
             (r, src) \<Rightarrow>
               (let g = g\<lparr>ig_source := src\<rparr>
                in case r of
                     Inr (Some (MEvent ev, wire_bytes)) \<Rightarrow>
                       (case charge_reserve (ig_outstanding g) wire_bytes of
                          Some held \<Rightarrow> g\<lparr>ig_outstanding := held, ig_reader := Reserved ev wire_bytes\<rparr>
                        | None \<Rightarrow> record_terminal_failure EventQueueByteOverflow g)
                   | Inr (Some (MCommand _, _)) \<Rightarrow> record_terminal_failure UnexpectedDirection g
                   | Inr None \<Rightarrow> g\<lparr>ig_reader := Returned\<rparr>
                   | Inl e \<Rightarrow> record_terminal_failure e g))
      | Reserved ev wire_bytes \<Rightarrow>
          (let released = g\<lparr>ig_outstanding := charge_release (ig_outstanding g) wire_bytes\<rparr>
           in if \<not> ig_connected g then released\<lparr>ig_reader := Returned\<rparr>
              else if length (ig_queue g) < EVENT_QUEUE_DEPTH
              then g\<lparr>ig_queue := ig_queue g @ [(ev, wire_bytes)], ig_reader := Reading\<rparr>
              else record_terminal_failure EventQueueOverflow released))"

text \<open>The shell: \<open>try_recv\<close> takes an event, \<open>release\<close> gives its bytes back and returns it.\<close>

definition take_event :: "ingress \<Rightarrow> ingress" where
  "take_event g =
     (case (ig_taken g, ig_queue g) of
        (None, q # qs) \<Rightarrow> g\<lparr>ig_queue := qs, ig_taken := Some q\<rparr>
      | _ \<Rightarrow> g)"

definition release_event :: "ingress \<Rightarrow> ingress" where
  "release_event g =
     (case ig_taken g of
        None \<Rightarrow> g
      | Some (ev, wire_bytes) \<Rightarrow>
          g\<lparr>ig_outstanding := charge_release (ig_outstanding g) wire_bytes, ig_taken := None,
            ig_received := ig_received g @ [ev]\<rparr>)"

definition terminal_failure :: "ingress \<Rightarrow> process_error \<times> ingress" where
  "terminal_failure g =
     (case ig_failure g of
        Some e \<Rightarrow> (e, g\<lparr>ig_failure := None\<rparr>)
      | None \<Rightarrow> (EventStreamClosed, g))"

text \<open>A whole call of the shell: with no event it fails once the reader has returned.\<close>

definition try_receive :: "ingress \<Rightarrow> (process_error + event option) \<times> ingress" where
  "try_receive g =
     (case ig_queue g of
        (ev, n) # qs \<Rightarrow> (Inr (Some ev), release_event (take_event g))
      | [] \<Rightarrow>
          (if ig_reader g = Returned then (let (e, g) = terminal_failure g in (Inl e, g))
           else (Inr None, g)))"

definition receive_timeout :: "ingress \<Rightarrow> (process_error + event) \<times> ingress" where
  "receive_timeout g =
     (case try_receive g of
        (Inr (Some ev), g) \<Rightarrow> (Inr ev, g)
      | (Inr None, g) \<Rightarrow> (Inl ReceiveTimeout, g)
      | (Inl e, g) \<Rightarrow> (Inl e, g))"

definition disconnect :: "ingress \<Rightarrow> ingress" where
  "disconnect g = g\<lparr>ig_connected := False\<rparr>"

inductive ingress_step :: "ingress \<Rightarrow> ingress \<Rightarrow> bool" where
  step_reader: "ingress_step g (reader_step g)"
| step_take: "ingress_step g (take_event g)"
| step_release: "ingress_step g (release_event g)"
| step_failure: "ingress_step g (snd (terminal_failure g))"
| step_disconnect: "ingress_step g (disconnect g)"

inductive ingress_reachable :: "source \<Rightarrow> ingress \<Rightarrow> bool" for src where
  reach_spawn: "ingress_reachable src (ingress_spawn src)"
| reach_ingress: "ingress_reachable src g \<Longrightarrow> ingress_step g h \<Longrightarrow> ingress_reachable src h"

section \<open>The charge\<close>

fun reserved_bytes :: "reader_at \<Rightarrow> nat" where
  "reserved_bytes (Reserved _ n) = n"
| "reserved_bytes _ = 0"

definition taken_bytes :: "(event \<times> nat) option \<Rightarrow> nat" where
  "taken_bytes x = (case x of Some (_, n) \<Rightarrow> n | None \<Rightarrow> 0)"

definition charge_exact :: "ingress \<Rightarrow> bool" where
  "charge_exact g \<longleftrightarrow>
     ig_outstanding g = sum_list (map snd (ig_queue g)) + reserved_bytes (ig_reader g) + taken_bytes (ig_taken g)
   \<and> ig_outstanding g \<le> EVENT_QUEUE_BYTE_BUDGET
   \<and> length (ig_queue g) \<le> EVENT_QUEUE_DEPTH"

lemma charge_reader: "charge_exact g \<Longrightarrow> charge_exact (reader_step g)"
  by (cases "ig_reader g")
    (auto simp: charge_exact_def reader_step_def record_terminal_failure_def charge_reserve_def charge_release_def Let_def
      split: prod.split sum.split option.split message.split)

lemma charge_take: "charge_exact g \<Longrightarrow> charge_exact (take_event g)"
  by (auto simp: charge_exact_def take_event_def taken_bytes_def split: option.split list.split prod.split)

lemma charge_released: "charge_exact g \<Longrightarrow> charge_exact (release_event g)"
  by (auto simp: charge_exact_def release_event_def taken_bytes_def charge_release_def split: option.split prod.split)

lemma charge_other: "charge_exact (snd (terminal_failure g)) = charge_exact g" "charge_exact (disconnect g) = charge_exact g"
  by (auto simp: terminal_failure_def disconnect_def charge_exact_def split: option.split)

lemma charge_step: "ingress_step g h \<Longrightarrow> charge_exact g \<Longrightarrow> charge_exact h"
  by (induction rule: ingress_step.induct) (simp_all add: charge_reader charge_take charge_released charge_other)

section \<open>The order\<close>

fun reserved_events :: "reader_at \<Rightarrow> event list" where
  "reserved_events (Reserved ev _) = [ev]"
| "reserved_events _ = []"

definition taken_events :: "(event \<times> nat) option \<Rightarrow> event list" where
  "taken_events x = (case x of Some (ev, _) \<Rightarrow> [ev] | None \<Rightarrow> [])"

text \<open>What the shell has or will get of what was read.\<close>

definition passed :: "ingress \<Rightarrow> event list" where
  "passed g = ig_received g @ taken_events (ig_taken g) @ map fst (ig_queue g) @ reserved_events (ig_reader g)"

lemma passed_other:
  "passed (take_event g) = passed g" "passed (release_event g) = passed g"
  "passed (snd (terminal_failure g)) = passed g" "passed (disconnect g) = passed g"
  by (auto simp: passed_def take_event_def release_event_def taken_events_def terminal_failure_def disconnect_def
      split: option.split list.split prod.split)

lemma reader_frame:
  "ig_source (take_event g) = ig_source g" "ig_reader (take_event g) = ig_reader g"
  "ig_source (release_event g) = ig_source g" "ig_reader (release_event g) = ig_reader g"
  "ig_source (snd (terminal_failure g)) = ig_source g" "ig_reader (snd (terminal_failure g)) = ig_reader g"
  "ig_source (disconnect g) = ig_source g" "ig_reader (disconnect g) = ig_reader g"
  by (auto simp: take_event_def release_event_def terminal_failure_def disconnect_def
      split: option.split list.split prod.split)

section \<open>Streams\<close>

text \<open>A source that gives these bytes, cut into chunks in any way.\<close>

definition stream_of :: "u8 list \<Rightarrow> source \<Rightarrow> bool" where
  "stream_of bs src \<longleftrightarrow> (\<exists>cs. src = map Chunk cs \<and> concat cs = bs \<and> [] \<notin> set cs)"

lemma stream_of_Nil [simp]: "stream_of [] src \<longleftrightarrow> src = []"
proof
  assume "stream_of [] src"
  then obtain cs where "src = map Chunk cs" "concat cs = []" "[] \<notin> set cs" by (auto simp: stream_of_def)
  then show "src = []" by (cases cs) auto
qed (simp add: stream_of_def)

lemma stream_of_Cons: "stream_of bs (Chunk c # src) \<longleftrightarrow> c \<noteq> [] \<and> (\<exists>rest. bs = c @ rest \<and> stream_of rest src)"
  by (auto simp: stream_of_def map_eq_Cons_conv Cons_eq_map_conv)

lemma stream_of_no_failure: "\<not> stream_of bs (ReadFails # src)"
  by (auto simp: stream_of_def Cons_eq_map_conv)

lemma read_some_stream:
  assumes "stream_of bs src" "0 < n"
  obtains got src' where "read_some n src = (Inr got, src')" "bs = got @ drop (length got) bs" "length got \<le> n"
    "stream_of (drop (length got) bs) src'" "got = [] \<longleftrightarrow> bs = []"
proof (cases src)
  case Nil
  then have "bs = []" using assms(1) by (auto simp: stream_of_def)
  then show ?thesis using that [of "[]" "[]"] Nil by (simp add: read_some_def)
next
  case (Cons r rest)
  then obtain c where r: "r = Chunk c" using assms(1) stream_of_no_failure by (cases r) auto
  obtain tail where c: "c \<noteq> []" "bs = c @ tail" "stream_of tail rest" using assms(1) Cons r stream_of_Cons by auto
  show ?thesis
  proof (cases "length c \<le> n")
    case True
    then show ?thesis using that [of c rest] Cons r c by (simp add: read_some_def)
  next
    case False
    have "stream_of (drop n c @ tail) (Chunk (drop n c) # rest)" using False c by (auto simp: stream_of_Cons)
    then show ?thesis
      using that [of "take n c" "Chunk (drop n c) # rest"] Cons r c False assms(2)
      by (simp add: read_some_def)
  qed
qed

lemma fill_buffer_stream:
  "stream_of bs src \<Longrightarrow> length got \<le> need \<Longrightarrow>
    \<exists>src'. fill_buffer need got src = (Inr (got @ take (need - length got) bs), src')
      \<and> stream_of (drop (need - length got) bs) src'"
proof (induction "need - length got" arbitrary: got bs src rule: less_induct)
  case less
  show ?case
  proof (cases "need \<le> length got")
    case True
    then show ?thesis using less.prems by (subst fill_buffer.simps) auto
  next
    case False
    then have pos: "0 < need - length got" by simp
    obtain bit src' where r: "read_some (need - length got) src = (Inr bit, src')" and b: "bs = bit @ drop (length bit) bs"
      "length bit \<le> need - length got" "stream_of (drop (length bit) bs) src'" "bit = [] \<longleftrightarrow> bs = []"
      using read_some_stream [OF less.prems(1) pos] by metis
    show ?thesis
    proof (cases "bit = []")
      case True
      then show ?thesis using False r b by (subst fill_buffer.simps) auto
    next
      case ne: False
      have step: "fill_buffer need got src = fill_buffer need (got @ bit) src'"
        using False r ne by (subst fill_buffer.simps) simp
      obtain tail where tail: "bs = bit @ tail" "drop (length bit) bs = tail" using b(1) by blast
      have "0 < length bit" using ne by simp
      then have "need - length (got @ bit) < need - length got" using pos by (simp only: length_append)
      moreover have "length (got @ bit) \<le> need" using b(2) pos by (simp only: length_append)
      ultimately obtain src'' where
        s: "fill_buffer need (got @ bit) src' = (Inr ((got @ bit) @ take (need - length (got @ bit)) tail), src'')"
          "stream_of (drop (need - length (got @ bit)) tail) src''"
        using less.hyps [OF _ b(3)] unfolding tail(2) by blast
      show ?thesis using s step b(2) unfolding tail(1) by simp
    qed
  qed
qed

lemma envelope_header: "envelope m = header (message_kind m) (message_type m) (length (message_body m)) @ message_body m"
  by (simp add: envelope_def)

lemma body_len_header: "n \<le> MAX_MESSAGE_BYTES \<Longrightarrow> envelope_body_len (header k t n) = Inr n"
  using read_header_at [of n "[]" k t "[]"] by (simp add: envelope_body_len_def reader_new_at)

lemma read_envelope_stream:
  assumes s: "stream_of (envelope m @ rest) src" and m: "message_fits m" "message_valid m"
  shows "\<exists>src'. read_engine_envelope src = (Inr (Some (m, length (envelope m))), src') \<and> stream_of rest src'"
proof -
  let ?h = "header (message_kind m) (message_type m) (length (message_body m))"
  have len: "length (message_body m) \<le> MAX_MESSAGE_BYTES" using m(1) by (rule length_message_body)
  obtain mid where h: "fill_buffer ENVELOPE_HEADER_BYTES [] src = (Inr ?h, mid)" "stream_of (message_body m @ rest) mid"
    using fill_buffer_stream [OF s, of "[]" ENVELOPE_HEADER_BYTES] by (auto simp: envelope_header)
  obtain src' where b: "fill_buffer (length (message_body m)) [] mid = (Inr (message_body m), src')" "stream_of rest src'"
    using fill_buffer_stream [OF h(2), of "[]" "length (message_body m)"] by auto
  have "decode (?h @ message_body m) = Inr m" using m by (simp add: decode_iff envelope_header)
  then show ?thesis
    using b by (simp add: read_engine_envelope_def read_stream_header_def h(1) read_exact_protocol_def
        body_len_header [OF len] envelope_header)
qed

lemma read_envelope_end: "read_engine_envelope [] = (Inr None, [])"
  by (simp add: read_engine_envelope_def read_stream_header_def fill_buffer.simps read_some_def ENVELOPE_HEADER_BYTES_def)

section \<open>Properties\<close>

text \<open>A stream of events as the worker writes them.\<close>

definition event_bytes :: "event list \<Rightarrow> u8 list" where
  "event_bytes evs = concat (map (envelope \<circ> MEvent) evs)"

definition sendable :: "event \<Rightarrow> bool" where
  "sendable ev \<longleftrightarrow> message_fits (MEvent ev) \<and> message_valid (MEvent ev)"

text \<open>
  The state of the reader on a stream: what it has read is what was passed on, but for one event lost
  with an overflow, and while it reads the rest of the stream is still in the source.
\<close>

definition in_order :: "event list \<Rightarrow> ingress \<Rightarrow> bool" where
  "in_order evs g \<longleftrightarrow>
     (\<exists>tail. evs = passed g @ tail \<and> (ig_reader g \<noteq> Returned \<longrightarrow> stream_of (event_bytes tail) (ig_source g)))"

lemma read_event_stream:
  assumes "stream_of (event_bytes (ev # tail)) src" "sendable ev"
  obtains src' where "read_engine_envelope src = (Inr (Some (MEvent ev, length (envelope (MEvent ev)))), src')"
    "stream_of (event_bytes tail) src'"
  using read_envelope_stream [of "MEvent ev" "event_bytes tail" src] assms by (auto simp: event_bytes_def sendable_def)

lemma in_order_reader:
  assumes o: "in_order evs g" and s: "list_all sendable evs"
  shows "in_order evs (reader_step g)"
proof (cases "ig_reader g")
  case Returned
  then show ?thesis using o by (simp add: reader_step_def)
next
  case (Reserved ev n)
  then show ?thesis
    using o by (auto simp: in_order_def passed_def reader_step_def record_terminal_failure_def Let_def)
next
  case Reading
  obtain tail where tail: "evs = passed g @ tail" "stream_of (event_bytes tail) (ig_source g)"
    using o Reading by (auto simp: in_order_def)
  show ?thesis
  proof (cases tail)
    case Nil
    then have "ig_source g = []" using tail(2) by (simp add: event_bytes_def)
    then show ?thesis
      using tail(1) Reading Nil read_envelope_end
      by (auto simp: in_order_def passed_def reader_step_def Let_def)
  next
    case (Cons ev rest)
    have "sendable ev" using s tail(1) Cons by simp
    then obtain src' where r: "read_engine_envelope (ig_source g)
        = (Inr (Some (MEvent ev, length (envelope (MEvent ev)))), src')" "stream_of (event_bytes rest) src'"
      using read_event_stream tail(2) Cons by metis
    show ?thesis
    proof (cases "charge_reserve (ig_outstanding g) (length (envelope (MEvent ev)))")
      case None
      then show ?thesis
        using tail(1) Reading r
        by (auto simp: in_order_def passed_def reader_step_def record_terminal_failure_def Let_def)
    next
      case (Some held)
      then show ?thesis
        using tail(1) Reading r Cons
        by (auto simp: in_order_def passed_def reader_step_def Let_def)
    qed
  qed
qed

lemma in_order_step:
  assumes "ingress_step g h" "in_order evs g" "list_all sendable evs" shows "in_order evs h"
  using assms
proof (induction rule: ingress_step.induct)
  case (step_reader g)
  then show ?case by (rule in_order_reader)
qed (simp_all add: in_order_def passed_other reader_frame)

lemma ingress_inv:
  assumes "ingress_reachable src g" "stream_of (event_bytes evs) src" "list_all sendable evs"
  shows "charge_exact g \<and> in_order evs g"
  using assms
proof (induction rule: ingress_reachable.induct)
  case reach_spawn
  then show ?case
    by (auto simp: charge_exact_def in_order_def passed_def ingress_spawn_def taken_bytes_def taken_events_def)
next
  case (reach_ingress g h)
  then show ?case using charge_step in_order_step by blast
qed

text \<open>C8: however the steps of the reader and of the shell interleave, and however the pipe cuts the bytes into
  chunks, the shell receives the events the worker wrote in their order and without a gap, the queue never
  holds more than its depth, and the charge is exactly the bytes of the events held, within the budget.\<close>

theorem events_in_order_and_bounded:
  assumes "ingress_reachable src g" "stream_of (event_bytes evs) src" "list_all sendable evs"
  shows "prefix (ig_received g) evs
    \<and> length (ig_queue g) \<le> EVENT_QUEUE_DEPTH
    \<and> ig_outstanding g = sum_list (map snd (ig_queue g)) + reserved_bytes (ig_reader g) + taken_bytes (ig_taken g)
    \<and> ig_outstanding g \<le> EVENT_QUEUE_BYTE_BUDGET"
  using ingress_inv [OF assms] by (auto simp: charge_exact_def in_order_def passed_def)

definition sample_stream :: source where
  "sample_stream = map (\<lambda>b. Chunk [b]) (event_bytes [ViewCreated (ViewId 1)])"

definition sample_ingress :: ingress where
  "sample_ingress = release_event (take_event (reader_step (reader_step (ingress_spawn sample_stream))))"

lemma sample_reachable: "ingress_reachable sample_stream sample_ingress"
  unfolding sample_ingress_def
  by (intro reach_ingress [OF _ step_release] reach_ingress [OF _ step_take] reach_ingress [OF _ step_reader] reach_spawn)

theorem events_in_order_and_bounded_witness:
  "prefix (ig_received sample_ingress) [ViewCreated (ViewId 1)] \<and> ig_outstanding sample_ingress \<le> EVENT_QUEUE_BYTE_BUDGET"
proof -
  have "stream_of (event_bytes [ViewCreated (ViewId 1)]) sample_stream"
    unfolding stream_of_def sample_stream_def
    by (intro exI [of _ "map (\<lambda>b. [b]) (event_bytes [ViewCreated (ViewId 1)])"]) (auto simp: o_def)
  moreover have "list_all sendable [ViewCreated (ViewId 1)]" by (simp add: sendable_def event_fits_def event_valid_def)
  ultimately show ?thesis
    using events_in_order_and_bounded [OF sample_reachable] by blast
qed

end
