(* ===== verification/Engine_Worker.thy ===== *)
theory Engine_Worker
  imports Engine_Transport
begin

text \<open>
  The runtime actor of the engine process (\<open>NativeEngineWorker\<close> in
  \<open>crates/silksurf-app/src/engine_process.rs\<close>): the views and profiles it holds, each command, the
  completion of a navigation, and the events it writes. The loading of a page, the building of a page,
  the pipe and the starting of a thread are arguments; a fetch that was started and has not completed
  is an entry of \<open>fetches\<close>.
\<close>

section \<open>State\<close>

definition MAX_INFLIGHT_NAVIGATIONS :: nat where "MAX_INFLIGHT_NAVIGATIONS = 1"

record ('c, 'p, 'b) engine_view =
  ev_config :: 'c
  ev_viewport :: viewport
  requested_url :: "string option"
  navigation_generation :: u64
  active_navigation :: "u64 option"
  ev_page :: "'p option"
  spare_buffers :: 'b

record 'c started_fetch =
  fetch_view :: view_id
  fetch_generation :: u64
  fetch_url :: string
  fetch_config :: 'c

record ('c, 'p, 'b, 'w) actor =
  ew_views :: "(view_id \<times> ('c, 'p, 'b) engine_view) list"
  ew_profiles :: "(profile_id \<times> 'c) list"
  inflight_navigations :: nat
  fetches :: "'c started_fetch list"
  out :: 'w

record ('c, 'l, 'p, 'b, 'w) actor_env =
  default_config :: 'c
  default_buffers :: 'b
  payload_url :: "'l \<Rightarrow> string"
  build_page :: "'l \<Rightarrow> 'b \<Rightarrow> u32 \<times> u32 \<Rightarrow> string \<times> 'b + 'p"
  page_url :: "'p \<Rightarrow> string"
  page_buffers :: "'p \<Rightarrow> 'b"
  write_pipe :: "'w pipe"
  spawn_fails :: "'c started_fetch \<Rightarrow> bool"

definition engine_view_new :: "'b \<Rightarrow> 'c \<Rightarrow> viewport \<Rightarrow> ('c, 'p, 'b) engine_view" where
  "engine_view_new buffers config vp =
     \<lparr>ev_config = config, ev_viewport = vp, requested_url = None, navigation_generation = 0,
      active_navigation = None, ev_page = None, spare_buffers = buffers\<rparr>"

definition worker_new :: "'w \<Rightarrow> ('c, 'p, 'b, 'w) actor" where
  "worker_new w = \<lparr>ew_views = [], ew_profiles = [], inflight_navigations = 0, fetches = [], out = w\<rparr>"

definition find_view :: "('c, 'p, 'b, 'w) actor \<Rightarrow> view_id \<Rightarrow> ('c, 'p, 'b) engine_view option" where
  "find_view a v = map_of (ew_views a) v"

text \<open>A change of the first entry with this identifier (\<open>view_mut\<close>).\<close>

fun update_entry :: "'k \<Rightarrow> ('v \<Rightarrow> 'v) \<Rightarrow> ('k \<times> 'v) list \<Rightarrow> ('k \<times> 'v) list" where
  "update_entry k f [] = []"
| "update_entry k f ((j, x) # xs) = (if j = k then (j, f x) # xs else (j, x) # update_entry k f xs)"

definition view_mut :: "view_id \<Rightarrow> (('c, 'p, 'b) engine_view \<Rightarrow> ('c, 'p, 'b) engine_view)
    \<Rightarrow> ('c, 'p, 'b, 'w) actor \<Rightarrow> ('c, 'p, 'b, 'w) actor" where
  "view_mut v f a = a\<lparr>ew_views := update_entry v f (ew_views a)\<rparr>"

definition reload_url :: "('c, 'l, 'p, 'b, 'w) actor_env \<Rightarrow> ('c, 'p, 'b) engine_view \<Rightarrow> string option" where
  "reload_url E e = (case ev_page e of Some p \<Rightarrow> Some (page_url E p) | None \<Rightarrow> requested_url e)"

definition take_build_buffers ::
    "('c, 'l, 'p, 'b, 'w) actor_env \<Rightarrow> ('c, 'p, 'b) engine_view \<Rightarrow> 'b \<times> ('c, 'p, 'b) engine_view" where
  "take_build_buffers E e =
     (case ev_page e of
        Some p \<Rightarrow> (page_buffers E p, e\<lparr>ev_page := None\<rparr>)
      | None \<Rightarrow> (spare_buffers e, e\<lparr>spare_buffers := default_buffers E\<rparr>))"

definition profile_config :: "('c, 'l, 'p, 'b, 'w) actor_env \<Rightarrow> profile_id \<Rightarrow> ('c, 'p, 'b, 'w) actor \<Rightarrow> 'c \<times> ('c, 'p, 'b, 'w) actor" where
  "profile_config E i a =
     (case map_of (ew_profiles a) i of
        Some c \<Rightarrow> (c, a)
      | None \<Rightarrow> (default_config E, a\<lparr>ew_profiles := ew_profiles a @ [(i, default_config E)]\<rparr>))"

section \<open>Events\<close>

type_synonym ('c, 'p, 'b, 'w, 'a) actor_op = "(('c, 'p, 'b, 'w) actor, process_error, 'a) sm"

definition emit :: "('c, 'l, 'p, 'b, 'w) actor_env \<Rightarrow> event \<Rightarrow> ('c, 'p, 'b, 'w, unit) actor_op" where
  "emit E ev a =
     (case write_event (write_pipe E) ev (out a) of
        Inl e \<Rightarrow> (Inl e, a)
      | Inr w \<Rightarrow> (Inr (), a\<lparr>out := w\<rparr>))"

definition protocol_violation :: "('c, 'l, 'p, 'b, 'w) actor_env \<Rightarrow> view_id \<Rightarrow> ('c, 'p, 'b, 'w, bool) actor_op" where
  "protocol_violation E v = sm_then (emit E (Crashed v CrashProtocolViolation)) (sm_return True)"

text \<open>The longest prefix within the limit that ends between characters.\<close>

fun string_boundary_below :: "string \<Rightarrow> nat \<Rightarrow> nat" where
  "string_boundary_below s 0 = 0"
| "string_boundary_below s (Suc n) = (if at_boundary (drop (Suc n) s) then Suc n else string_boundary_below s n)"

definition bounded_protocol_string :: "string \<Rightarrow> string" where
  "bounded_protocol_string s =
     (if length s \<le> MAX_STRING_BYTES then s else take (string_boundary_below s MAX_STRING_BYTES) s)"

definition write_navigation_failure ::
    "('c, 'l, 'p, 'b, 'w) actor_env \<Rightarrow> view_id \<Rightarrow> string \<Rightarrow> ('c, 'p, 'b, 'w, unit) actor_op" where
  "write_navigation_failure E v e =
     sm_then (emit E (LoadStateChanged v LoadFailed)) (emit E (StatusChanged v (bounded_protocol_string e)))"

section \<open>Commands\<close>

definition create_view ::
    "('c, 'l, 'p, 'b, 'w) actor_env \<Rightarrow> view_id \<Rightarrow> profile_id \<Rightarrow> viewport \<Rightarrow> ('c, 'p, 'b, 'w, bool) actor_op" where
  "create_view E v profile vp =
     (\<lambda>a. if find_view a v \<noteq> None then protocol_violation E v a
      else
        sm_bind (sm_lift (profile_config E profile)) (\<lambda>config.
        sm_then (sm_do (\<lambda>a. a\<lparr>ew_views := ew_views a @ [(v, engine_view_new (default_buffers E) config vp)]\<rparr>)) (
        sm_then (emit E (ViewCreated v)) (sm_return True))) a)"

text \<open>\<open>Vec::swap_remove\<close>.\<close>

definition swap_remove :: "nat \<Rightarrow> 'x list \<Rightarrow> 'x list" where
  "swap_remove i xs = (if i + 1 = length xs then butlast xs else (butlast xs)[i := last xs])"

definition close_view :: "('c, 'l, 'p, 'b, 'w) actor_env \<Rightarrow> view_id \<Rightarrow> ('c, 'p, 'b, 'w, bool) actor_op" where
  "close_view E v =
     (\<lambda>a. case position (\<lambda>(candidate, _). candidate = v) (ew_views a) of
        None \<Rightarrow> protocol_violation E v a
      | Some index \<Rightarrow>
          sm_then (sm_do (\<lambda>a. a\<lparr>ew_views := swap_remove index (ew_views a)\<rparr>)) (
          sm_then (emit E (ViewClosed v)) (sm_return True)) a)"

definition start_navigation ::
    "('c, 'l, 'p, 'b, 'w) actor_env \<Rightarrow> view_id \<Rightarrow> string \<Rightarrow> ('c, 'p, 'b, 'w, unit) actor_op" where
  "start_navigation E v url =
     (\<lambda>a. case find_view a v of
        None \<Rightarrow> sm_then (protocol_violation E v) (sm_return ()) a
      | Some entry \<Rightarrow>
          if MAX_INFLIGHT_NAVIGATIONS \<le> inflight_navigations a
          then emit E (StatusChanged v ''navigation worker busy'') a
          else
            (let generation = saturating_add (navigation_generation entry) 1;
                 fetch = \<lparr>fetch_view = v, fetch_generation = generation, fetch_url = url,
                          fetch_config = ev_config entry\<rparr>
             in sm_then (sm_do (view_mut v (\<lambda>e. e\<lparr>navigation_generation := generation,
                    active_navigation := Some generation, requested_url := Some url\<rparr>))) (
                sm_then (emit E (LoadStateChanged v LoadStarted)) (
                if spawn_fails E fetch then sm_fail (ProcessIo IoFault)
                else sm_do (\<lambda>a. a\<lparr>fetches := fetches a @ [fetch],
                       inflight_navigations := inflight_navigations a + 1\<rparr>))) a))"

definition stop_navigation :: "('c, 'l, 'p, 'b, 'w) actor_env \<Rightarrow> view_id \<Rightarrow> ('c, 'p, 'b, 'w, bool) actor_op" where
  "stop_navigation E v =
     (\<lambda>a. case find_view a v of
        None \<Rightarrow> protocol_violation E v a
      | Some entry \<Rightarrow>
          if active_navigation entry \<noteq> None
          then sm_then (sm_do (view_mut v (\<lambda>e. e\<lparr>active_navigation := None\<rparr>))) (
               sm_then (emit E (LoadStateChanged v LoadIdle)) (
               sm_then (emit E (StatusChanged v ''stopped'')) (sm_return True))) a
          else (Inr True, a))"

definition finish_page ::
    "('c, 'l, 'p, 'b, 'w) actor_env \<Rightarrow> view_id \<Rightarrow> string \<Rightarrow> 'p \<Rightarrow> ('c, 'p, 'b, 'w, unit) actor_op" where
  "finish_page E v url page =
     sm_then (sm_do (view_mut v (\<lambda>e. e\<lparr>ev_page := Some page\<rparr>))) (
     sm_then (emit E (UrlChanged v url)) (
     sm_then (emit E (LoadStateChanged v LoadCommitted)) (
     sm_then (emit E (LoadStateChanged v LoadInteractive)) (
     emit E (LoadStateChanged v LoadComplete)))))"

definition handle_navigation_complete ::
    "('c, 'l, 'p, 'b, 'w) actor_env \<Rightarrow> view_id \<Rightarrow> u64 \<Rightarrow> string + 'l \<Rightarrow> ('c, 'p, 'b, 'w, unit) actor_op" where
  "handle_navigation_complete E v generation result =
     sm_then (sm_do (\<lambda>a. a\<lparr>inflight_navigations := inflight_navigations a - 1\<rparr>)) (\<lambda>a.
       case find_view a v of
         None \<Rightarrow> (Inr (), a)
       | Some entry \<Rightarrow>
           if active_navigation entry \<noteq> Some generation then (Inr (), a)
           else
             sm_then (sm_do (view_mut v (\<lambda>e. e\<lparr>active_navigation := None\<rparr>)))
               (case result of
                  Inl e \<Rightarrow> write_navigation_failure E v e
                | Inr payload \<Rightarrow>
                    (let url = payload_url E payload;
                         buffers = fst (take_build_buffers E entry);
                         window_size = (vp_width (ev_viewport entry), vp_height (ev_viewport entry))
                     in sm_then (sm_do (view_mut v (\<lambda>e. snd (take_build_buffers E e))))
                          (case build_page E payload buffers window_size of
                             Inr page \<Rightarrow> finish_page E v url page
                           | Inl (message, left) \<Rightarrow>
                               sm_then (sm_do (view_mut v (\<lambda>e. e\<lparr>spare_buffers := left\<rparr>)))
                                 (write_navigation_failure E v message)))) a)"

definition close_all_views :: "('c, 'l, 'p, 'b, 'w) actor_env \<Rightarrow> ('c, 'p, 'b, 'w, unit) actor_op" where
  "close_all_views E =
     (\<lambda>a. let sorted_views = sort_key (\<lambda>(v, _). view_get v) (ew_views a)
      in sm_then (sm_do (\<lambda>a. a\<lparr>ew_views := []\<rparr>)) (
         sm_then (sm_each (\<lambda>(v, _). emit E (ViewClosed v)) sorted_views) (
         sm_do (\<lambda>a. a\<lparr>ew_profiles := []\<rparr>))) a)"

fun command_name :: "command \<Rightarrow> string" where
  "command_name (CreateView _ _ _) = ''CreateView''"
| "command_name (CloseView _) = ''CloseView''"
| "command_name (Navigate _ _) = ''Navigate''"
| "command_name (Reload _) = ''Reload''"
| "command_name (Stop _) = ''Stop''"
| "command_name (Resize _ _) = ''Resize''"
| "command_name (SetVisible _ _) = ''SetVisible''"
| "command_name (Input _ _) = ''Input''"
| "command_name (PermissionDecision _ _) = ''PermissionDecision''"
| "command_name (ReleaseFrame _ _) = ''ReleaseFrame''"
| "command_name Shutdown = ''Shutdown''"

text \<open>Whether the actor goes on.\<close>

definition handle_command :: "('c, 'l, 'p, 'b, 'w) actor_env \<Rightarrow> command \<Rightarrow> ('c, 'p, 'b, 'w, bool) actor_op" where
  "handle_command E c =
     (case c of
        CreateView v profile vp \<Rightarrow> create_view E v profile vp
      | CloseView v \<Rightarrow> close_view E v
      | Navigate v request \<Rightarrow> sm_then (start_navigation E v (nav_url request)) (sm_return True)
      | Reload v \<Rightarrow>
          (\<lambda>a. case Option.bind (find_view a v) (reload_url E) of
             None \<Rightarrow> protocol_violation E v a
           | Some url \<Rightarrow> sm_then (start_navigation E v url) (sm_return True) a)
      | Stop v \<Rightarrow> stop_navigation E v
      | Shutdown \<Rightarrow> sm_then (close_all_views E) (sm_return False)
      | _ \<Rightarrow> sm_fail (UnsupportedCommand (command_name c)))"

text \<open>The actor over the messages of its queue: it returns when a command or an error ends it.\<close>

fun run_runtime_actor ::
    "('c, 'l, 'p, 'b, 'w) actor_env \<Rightarrow> 'l worker_message list \<Rightarrow> ('c, 'p, 'b, 'w, unit) actor_op" where
  "run_runtime_actor E [] = sm_return ()"
| "run_runtime_actor E (m # ms) =
     (case m of
        WorkerCommand c \<Rightarrow>
          sm_bind (handle_command E c) (\<lambda>go_on. if go_on then run_runtime_actor E ms else sm_return ())
      | CommandStreamClosed \<Rightarrow> sm_return ()
      | CommandStreamFailed e \<Rightarrow> sm_fail e
      | NavigationComplete v generation result \<Rightarrow>
          sm_then (handle_navigation_complete E v generation result) (run_runtime_actor E ms))"

end
