(* ===== verification/Engine_Worker_Props.thy ===== *)
theory Engine_Worker_Props
  imports Engine_Worker Engine_Ingress "HOL-Library.Multiset"
begin

text \<open>
  What the worker tells the shell. The events it writes follow, for every view, one life cycle, and the
  state the shell can compute from them is the state the worker is in. A page is only ever put into a
  view for the navigation that view asked for last.
\<close>

section \<open>The life cycle an observer expects\<close>

datatype phase = PIdle | PLoading | PNamed | PCommitted | PInteractive

type_synonym phases = "view_id \<Rightarrow> phase option"

definition advance :: "view_id \<Rightarrow> phase \<Rightarrow> phase \<Rightarrow> phases \<Rightarrow> phases option" where
  "advance v p q M = (if M v = Some p then Some (M(v \<mapsto> q)) else None)"

fun load_step :: "load_state \<Rightarrow> phase \<times> phase" where
  "load_step LoadIdle = (PLoading, PIdle)"
| "load_step LoadStarted = (PIdle, PLoading)"
| "load_step LoadCommitted = (PNamed, PCommitted)"
| "load_step LoadInteractive = (PCommitted, PInteractive)"
| "load_step LoadComplete = (PInteractive, PIdle)"
| "load_step LoadFailed = (PLoading, PIdle)"

definition phase_step :: "event \<Rightarrow> phases \<Rightarrow> phases option" where
  "phase_step ev M =
     (case ev of
        ViewCreated v \<Rightarrow> if M v = None then Some (M(v \<mapsto> PIdle)) else None
      | ViewClosed v \<Rightarrow> if M v \<noteq> None then Some (M(v := None)) else None
      | LoadStateChanged v s \<Rightarrow> advance v (fst (load_step s)) (snd (load_step s)) M
      | UrlChanged v _ \<Rightarrow> advance v PLoading PNamed M
      | StatusChanged v _ \<Rightarrow> if M v \<noteq> None then Some M else None
      | Crashed v r \<Rightarrow> if r = CrashProtocolViolation then Some M else None
      | _ \<Rightarrow> None)"

fun observe :: "event list \<Rightarrow> phases \<Rightarrow> phases option" where
  "observe [] M = Some M"
| "observe (ev # evs) M = Option.bind (phase_step ev M) (observe evs)"

lemma observe_snoc: "observe (evs @ [ev]) M = Option.bind (observe evs M) (phase_step ev)"
  by (induction evs arbitrary: M) (auto simp: Option.bind_eq_None_conv split: Option.bind_splits)

text \<open>The phases the worker is in between two messages.\<close>

definition view_phases :: "(view_id \<times> ('c, 'p, 'b) engine_view) list \<Rightarrow> phases" where
  "view_phases vs v =
     map_option (\<lambda>e. if active_navigation e = None then PIdle else PLoading) (map_of vs v)"

definition tracks :: "('c, 'p, 'b, u8 list) actor \<Rightarrow> phases \<Rightarrow> bool" where
  "tracks a M \<longleftrightarrow> (\<exists>evs. out a = event_bytes evs \<and> observe evs Map.empty = Some M)"

lemma tracks_out: "out a = out b \<Longrightarrow> tracks a M = tracks b M"
  by (simp add: tracks_def)

lemma emit_out:
  assumes "write_pipe E = byte_pipe" "emit E ev a = (Inr u, b)"
  shows "b = a\<lparr>out := out a @ envelope (MEvent ev)\<rparr>"
proof (cases "message_fits (MEvent ev)")
  case True
  then show ?thesis using assms encode_fits [OF True] by (simp add: emit_def write_event_def write_engine_message_def byte_pipe_def)
next
  case False
  then show ?thesis using assms encode_limit [OF False]
    by (auto simp: emit_def write_event_def write_engine_message_def split: sum.splits)
qed

lemma emit_tracks:
  assumes "write_pipe E = byte_pipe" "emit E ev a = (Inr u, b)" "tracks a M" "phase_step ev M = Some N"
  shows "tracks b N \<and> ew_views b = ew_views a \<and> fetches b = fetches a \<and> inflight_navigations b = inflight_navigations a"
proof -
  obtain evs where evs: "out a = event_bytes evs" "observe evs Map.empty = Some M" using assms(3) by (auto simp: tracks_def)
  have b: "b = a\<lparr>out := out a @ envelope (MEvent ev)\<rparr>" by (rule emit_out [OF assms(1,2)])
  have "out b = event_bytes (evs @ [ev])" by (simp add: b evs(1) event_bytes_def)
  moreover have "observe (evs @ [ev]) Map.empty = Some N" by (simp add: observe_snoc evs(2) assms(4))
  ultimately have "tracks b N" unfolding tracks_def by blast
  then show ?thesis by (simp add: b)
qed

section \<open>Entries\<close>

lemma update_entry_keys [simp]: "map fst (update_entry k f xs) = map fst xs"
  by (induction xs) auto

lemma update_entry_map: "map_of (update_entry k f xs) = (map_of xs)(k := map_option f (map_of xs k))"
  by (induction xs) auto

lemma update_entry_id: "update_entry k (\<lambda>x. x) xs = xs"
  by (induction xs) auto

lemma update_entry_twice: "update_entry k f (update_entry k g xs) = update_entry k (\<lambda>x. f (g x)) xs"
  by (induction xs) auto

lemma swap_remove_mset: "i < length xs \<Longrightarrow> mset (swap_remove i xs) = mset xs - {#xs ! i#}"
proof -
  assume i: "i < length xs"
  then obtain ys y where xs: "xs = ys @ [y]" by (metis append_butlast_last_id length_0_conv not_less0)
  show ?thesis
  proof (cases "i = length ys")
    case True
    then show ?thesis by (simp add: swap_remove_def xs)
  next
    case False
    then have "i < length ys" using i xs by simp
    then show ?thesis by (simp add: swap_remove_def xs mset_update nth_append)
  qed
qed

lemma swap_remove_entries:
  assumes d: "distinct (map fst xs)" and i: "i < length xs" "fst (xs ! i) = k"
  shows "distinct (map fst (swap_remove i xs))" and "map_of (swap_remove i xs) = (map_of xs)(k := None)"
    and "set (swap_remove i xs) \<subseteq> set xs"
proof -
  let ?ys = "swap_remove i xs"
  have m: "mset ?ys + {#xs ! i#} = mset xs"
    using swap_remove_mset [OF i(1)] i(1) by simp
  then have "mset (map fst xs) = mset (k # map fst ?ys)"
    using i(2) by (metis add_mset_add_single image_mset_add_mset mset.simps(2) mset_map)
  then have kd: "distinct (k # map fst ?ys)" using d mset_eq_imp_distinct_iff by blast
  then show dy: "distinct (map fst ?ys)" by simp
  have s: "set xs = insert (xs ! i) (set ?ys)" using arg_cong [OF m, of set_mset] by simp
  then show "set ?ys \<subseteq> set xs" by blast
  show "map_of ?ys = (map_of xs)(k := None)"
  proof (rule ext)
    fix v
    show "map_of ?ys v = ((map_of xs)(k := None)) v"
    proof (cases "v = k")
      case True
      then show ?thesis using kd by (simp add: map_of_eq_None_iff)
    next
      case False
      have "(v, e) \<in> set xs \<longleftrightarrow> (v, e) \<in> set ?ys" for e using s i(2) False by (metis fst_conv insert_iff)
      then have "map_of xs v = Some e \<longleftrightarrow> map_of ?ys v = Some e" for e using d dy by simp
      then show ?thesis using False by (cases "map_of ?ys v"; cases "map_of xs v") auto
    qed
  qed
qed

section \<open>The invariant\<close>

definition loads_ok :: "('c, 'p, 'b, 'w) actor \<Rightarrow> bool" where
  "loads_ok a \<longleftrightarrow>
     distinct (map fst (ew_views a))
   \<and> inflight_navigations a = length (fetches a)
   \<and> length (fetches a) \<le> MAX_INFLIGHT_NAVIGATIONS
   \<and> (\<forall>v e g. map_of (ew_views a) v = Some e \<longrightarrow> active_navigation e = Some g \<longrightarrow>
        (\<exists>f \<in> set (fetches a). fetch_view f = v \<and> fetch_generation f = g
          \<and> requested_url e = Some (fetch_url f) \<and> fetch_config f = ev_config e))"

definition worker_inv :: "('c, 'p, 'b, u8 list) actor \<Rightarrow> bool" where
  "worker_inv a \<longleftrightarrow> loads_ok a \<and> tracks a (view_phases (ew_views a))"

inductive actor_step :: "('c, 'l, 'p, 'b, 'w) actor_env \<Rightarrow> ('c, 'p, 'b, 'w) actor \<Rightarrow> ('c, 'p, 'b, 'w) actor \<Rightarrow> bool"
  for E where
  step_command: "handle_command E c a = (Inr go_on, b) \<Longrightarrow> actor_step E a b"
| step_complete: "f \<in> set (fetches a) \<Longrightarrow>
    handle_navigation_complete E (fetch_view f) (fetch_generation f) result
      (a\<lparr>fetches := remove1 f (fetches a)\<rparr>) = (Inr u, b) \<Longrightarrow> actor_step E a b"

inductive actor_reachable :: "('c, 'l, 'p, 'b, 'w) actor_env \<Rightarrow> 'w \<Rightarrow> ('c, 'p, 'b, 'w) actor \<Rightarrow> bool"
  for E w where
  reach_worker: "actor_reachable E w (worker_new w)"
| reach_actor: "actor_reachable E w a \<Longrightarrow> actor_step E a b \<Longrightarrow> actor_reachable E w b"

lemmas ok_simps = sm_then_def sm_bind_ok sm_return_ok sm_do_def sm_lift_def sm_fail_def

lemma protocol_violation_inv:
  assumes "write_pipe E = byte_pipe" "worker_inv a" "protocol_violation E v a = (Inr r, b)"
  shows "worker_inv b"
proof -
  obtain u where "emit E (Crashed v CrashProtocolViolation) a = (Inr u, b)"
    using assms(3) by (auto simp: protocol_violation_def ok_simps)
  from emit_tracks [OF assms(1) this, of "view_phases (ew_views a)" "view_phases (ew_views a)"] assms(2)
  show ?thesis by (auto simp: worker_inv_def loads_ok_def phase_step_def)
qed

lemma create_view_inv:
  assumes p: "write_pipe E = byte_pipe" and inv: "worker_inv a" and r: "create_view E v profile vp a = (Inr go, b)"
  shows "worker_inv b"
proof (cases "find_view a v")
  case (Some e)
  then show ?thesis using r protocol_violation_inv [OF p inv] by (simp add: create_view_def)
next
  case None
  obtain config c where c: "profile_config E profile a = (config, c)" by fastforce
  then have cf: "ew_views c = ew_views a" "fetches c = fetches a" "inflight_navigations c = inflight_navigations a" "out c = out a"
    by (auto simp: profile_config_def split: option.splits)
  define n where "n = (engine_view_new (default_buffers E) config vp :: ('a, 'c, 'd) engine_view)"
  define d where "d = c\<lparr>ew_views := ew_views c @ [(v, n)]\<rparr>"
  obtain u where u: "emit E (ViewCreated v) d = (Inr u, b)"
    using r None c by (auto simp: create_view_def ok_simps d_def n_def)
  have free: "map_of (ew_views a) v = None" using None by (simp add: find_view_def)
  have "tracks d (view_phases (ew_views a))" using inv by (simp add: worker_inv_def tracks_def d_def cf)
  moreover have "phase_step (ViewCreated v) (view_phases (ew_views a)) = Some ((view_phases (ew_views a))(v \<mapsto> PIdle))"
    using free by (simp add: phase_step_def view_phases_def)
  ultimately have b: "tracks b ((view_phases (ew_views a))(v \<mapsto> PIdle))" "ew_views b = ew_views a @ [(v, n)]"
    "fetches b = fetches a" "inflight_navigations b = inflight_navigations a"
    using emit_tracks [OF p u] by (auto simp: d_def cf)
  have "view_phases (ew_views b) = (view_phases (ew_views a))(v \<mapsto> PIdle)"
    using free by (auto simp: view_phases_def b(2) n_def engine_view_new_def fun_eq_iff map_add_def split: option.split)
  then have "tracks b (view_phases (ew_views b))" using b(1) by simp
  moreover have "loads_ok b"
    using inv free unfolding worker_inv_def loads_ok_def b
    by (auto simp: map_of_eq_None_iff n_def engine_view_new_def map_add_def split: option.splits)
  ultimately show ?thesis by (simp add: worker_inv_def)
qed

lemma close_view_inv:
  assumes p: "write_pipe E = byte_pipe" and inv: "worker_inv a" and r: "close_view E v a = (Inr go, b)"
  shows "worker_inv b"
proof (cases "position (\<lambda>(candidate, _). candidate = v) (ew_views a)")
  case None
  then show ?thesis using r protocol_violation_inv [OF p inv] by (simp add: close_view_def)
next
  case (Some i)
  have i: "i < length (ew_views a)" "fst (ew_views a ! i) = v" using position_SomeD [OF Some] by auto
  have dist: "distinct (map fst (ew_views a))" using inv by (simp add: worker_inv_def loads_ok_def)
  note sw = swap_remove_entries [OF dist i]
  define d where "d = a\<lparr>ew_views := swap_remove i (ew_views a)\<rparr>"
  obtain u where u: "emit E (ViewClosed v) d = (Inr u, b)" using r Some by (auto simp: close_view_def ok_simps d_def)
  have "v \<in> fst ` set (ew_views a)" using i by (metis image_eqI nth_mem)
  then have "map_of (ew_views a) v \<noteq> None" by (simp add: map_of_eq_None_iff)
  then have "phase_step (ViewClosed v) (view_phases (ew_views a)) = Some ((view_phases (ew_views a))(v := None))"
    by (simp add: phase_step_def view_phases_def)
  moreover have "tracks d (view_phases (ew_views a))" using inv by (simp add: worker_inv_def tracks_def d_def)
  ultimately have b: "tracks b ((view_phases (ew_views a))(v := None))" "ew_views b = swap_remove i (ew_views a)"
    "fetches b = fetches a" "inflight_navigations b = inflight_navigations a"
    using emit_tracks [OF p u] by (auto simp: d_def)
  have "view_phases (ew_views b) = (view_phases (ew_views a))(v := None)"
    by (simp add: view_phases_def b(2) sw(2) fun_eq_iff)
  moreover have "loads_ok b"
    using inv sw(1,2) unfolding worker_inv_def loads_ok_def b by auto
  ultimately show ?thesis using b(1) by (simp add: worker_inv_def)
qed

text \<open>A change of one view's entry, and what it does to the phases.\<close>

lemma view_phases_update:
  "view_phases (update_entry v f vs) = (view_phases vs)(v :=
     map_option (\<lambda>e. if active_navigation (f e) = None then PIdle else PLoading) (map_of vs v))"
  by (simp add: view_phases_def update_entry_map fun_eq_iff option.map_comp o_def)

lemma start_navigation_inv:
  assumes p: "write_pipe E = byte_pipe" and inv: "worker_inv a" and r: "start_navigation E v url a = (Inr u, b)"
  shows "worker_inv b"
proof (cases "find_view a v")
  case None
  then obtain x where "protocol_violation E v a = (Inr x, b)"
    using r by (auto simp: start_navigation_def ok_simps)
  then show ?thesis by (rule protocol_violation_inv [OF p inv])
next
  case (Some entry)
  have here: "map_of (ew_views a) v = Some entry" using Some by (simp add: find_view_def)
  have tr: "tracks a (view_phases (ew_views a))" and lo: "loads_ok a" using inv by (simp_all add: worker_inv_def)
  show ?thesis
  proof (cases "MAX_INFLIGHT_NAVIGATIONS \<le> inflight_navigations a")
    case True
    then have e: "emit E (StatusChanged v ''navigation worker busy'') a = (Inr u, b)"
      using r Some by (simp add: start_navigation_def)
    have "phase_step (StatusChanged v ''navigation worker busy'') (view_phases (ew_views a)) = Some (view_phases (ew_views a))"
      by (simp add: phase_step_def view_phases_def here)
    then show ?thesis using emit_tracks [OF p e tr] lo by (auto simp: worker_inv_def loads_ok_def)
  next
    case False
    have none: "fetches a = []" "inflight_navigations a = 0" using lo False by (simp_all add: loads_ok_def MAX_INFLIGHT_NAVIGATIONS_def Suc_le_eq)
    have idle: "active_navigation e = None" if "map_of (ew_views a) w = Some e" for w e
      using lo that none by (cases "active_navigation e") (auto simp: loads_ok_def)
    define g where "g = saturating_add (navigation_generation entry) 1"
    define h :: "('a, 'c, 'd) engine_view \<Rightarrow> ('a, 'c, 'd) engine_view" where
      "h = (\<lambda>e. e\<lparr>navigation_generation := g, active_navigation := Some g, requested_url := Some url\<rparr>)"
    define f where "f = \<lparr>fetch_view = v, fetch_generation = g, fetch_url = url, fetch_config = ev_config entry\<rparr>"
    define d where "d = view_mut v h a"
    obtain c where c: "emit E (LoadStateChanged v LoadStarted) d = (Inr (), c)"
      "b = c\<lparr>fetches := fetches c @ [f], inflight_navigations := inflight_navigations c + 1\<rparr>"
      using r Some False by (auto simp: start_navigation_def ok_simps Let_def d_def f_def g_def h_def split: if_splits)
    have "tracks d (view_phases (ew_views a))" using tr by (simp add: d_def view_mut_def tracks_def)
    moreover have "phase_step (LoadStateChanged v LoadStarted) (view_phases (ew_views a))
        = Some ((view_phases (ew_views a))(v \<mapsto> PLoading))"
      using idle [OF here] by (simp add: phase_step_def advance_def view_phases_def here)
    ultimately have t: "tracks c ((view_phases (ew_views a))(v \<mapsto> PLoading))" "ew_views c = ew_views d"
      "fetches c = []" "inflight_navigations c = 0"
      using emit_tracks [OF p c(1)] none by (auto simp: d_def view_mut_def)
    have "view_phases (ew_views b) = (view_phases (ew_views a))(v \<mapsto> PLoading)"
      by (simp add: c(2) t(2) d_def view_mut_def view_phases_update here h_def)
    moreover have "tracks b ((view_phases (ew_views a))(v \<mapsto> PLoading))" using t(1) by (simp add: c(2) tracks_def)
    moreover have "loads_ok b"
    proof -
      have "distinct (map fst (ew_views b))" using lo by (simp add: c(2) t(2) d_def view_mut_def loads_ok_def)
      moreover have "\<exists>k \<in> set (fetches b). fetch_view k = w \<and> fetch_generation k = n
          \<and> requested_url e = Some (fetch_url k) \<and> fetch_config k = ev_config e"
        if "map_of (ew_views b) w = Some e" "active_navigation e = Some n" for w e n
        using that idle here
        by (auto simp: c(2) t d_def view_mut_def update_entry_map h_def f_def split: if_splits)
      ultimately show ?thesis
        by (simp add: loads_ok_def c(2) t MAX_INFLIGHT_NAVIGATIONS_def)
    qed
    ultimately show ?thesis by (simp add: worker_inv_def)
  qed
qed

lemma stop_navigation_inv:
  assumes p: "write_pipe E = byte_pipe" and inv: "worker_inv a" and r: "stop_navigation E v a = (Inr go, b)"
  shows "worker_inv b"
proof (cases "find_view a v")
  case None
  then show ?thesis using r protocol_violation_inv [OF p inv] by (simp add: stop_navigation_def)
next
  case (Some entry)
  have here: "map_of (ew_views a) v = Some entry" using Some by (simp add: find_view_def)
  have tr: "tracks a (view_phases (ew_views a))" and lo: "loads_ok a" using inv by (simp_all add: worker_inv_def)
  show ?thesis
  proof (cases "active_navigation entry")
    case None
    then show ?thesis using r Some inv by (simp add: stop_navigation_def)
  next
    case (Some n)
    let ?h = "\<lambda>e :: ('a, 'c, 'd) engine_view. e\<lparr>active_navigation := None\<rparr>"
    let ?M = "(view_phases (ew_views a))(v \<mapsto> PIdle)"
    define d where "d = view_mut v ?h a"
    obtain c u where c: "emit E (LoadStateChanged v LoadIdle) d = (Inr u, c)"
      "\<exists>w. emit E (StatusChanged v ''stopped'') c = (Inr w, b)"
      using r Some \<open>find_view a v = Some entry\<close> by (auto simp: stop_navigation_def ok_simps d_def)
    have "tracks d (view_phases (ew_views a))" using tr by (simp add: d_def view_mut_def tracks_def)
    moreover have "phase_step (LoadStateChanged v LoadIdle) (view_phases (ew_views a)) = Some ?M"
      using Some by (simp add: phase_step_def advance_def view_phases_def here)
    ultimately have t: "tracks c ?M" "ew_views c = ew_views d" "fetches c = fetches a"
      "inflight_navigations c = inflight_navigations a"
      using emit_tracks [OF p c(1)] by (auto simp: d_def view_mut_def)
    have "phase_step (StatusChanged v ''stopped'') ?M = Some ?M" by (simp add: phase_step_def)
    then have t2: "tracks b ?M" "ew_views b = ew_views d" "fetches b = fetches a"
      "inflight_navigations b = inflight_navigations a"
      using c(2) emit_tracks [OF p _ t(1)] t(2-4) by fastforce+
    have "view_phases (ew_views b) = ?M"
      by (simp add: t2(2) d_def view_mut_def view_phases_update here)
    moreover have "loads_ok b"
      using lo here unfolding loads_ok_def t2
      by (auto simp: d_def view_mut_def update_entry_map split: if_splits)
    ultimately show ?thesis using t2(1) by (simp add: worker_inv_def)
  qed
qed

text \<open>While a fetch completes its entry is off the list, and no view but its own may wait for it.\<close>

lemma failure_inv:
  assumes p: "write_pipe E = byte_pipe" and e: "write_navigation_failure E v err a = (Inr u, b)"
    and t: "tracks a M" "M v = Some PLoading"
  shows "tracks b (M(v \<mapsto> PIdle)) \<and> ew_views b = ew_views a \<and> fetches b = fetches a
    \<and> inflight_navigations b = inflight_navigations a"
proof -
  let ?N = "M(v \<mapsto> PIdle)"
  obtain c where c: "\<exists>w. emit E (LoadStateChanged v LoadFailed) a = (Inr w, c)"
    "emit E (StatusChanged v (bounded_protocol_string err)) c = (Inr u, b)"
    using e by (auto simp: write_navigation_failure_def ok_simps)
  have "phase_step (LoadStateChanged v LoadFailed) M = Some ?N" using t(2) by (simp add: phase_step_def advance_def)
  then have t1: "tracks c ?N" "ew_views c = ew_views a" "fetches c = fetches a" "inflight_navigations c = inflight_navigations a"
    using c(1) emit_tracks [OF p _ t(1)] by fastforce+
  have "phase_step (StatusChanged v (bounded_protocol_string err)) ?N = Some ?N" by (simp add: phase_step_def)
  from emit_tracks [OF p c(2) t1(1) this] t1 show ?thesis by simp
qed

lemma finish_page_inv:
  assumes p: "write_pipe E = byte_pipe" and e: "finish_page E v url page a = (Inr u, b)"
    and t: "tracks a M" "M v = Some PLoading"
  shows "tracks b (M(v \<mapsto> PIdle)) \<and> ew_views b = update_entry v (\<lambda>e. e\<lparr>ev_page := Some page\<rparr>) (ew_views a)
    \<and> fetches b = fetches a \<and> inflight_navigations b = inflight_navigations a"
proof -
  define d where "d = view_mut v (\<lambda>e. e\<lparr>ev_page := Some page\<rparr>) a"
  have td: "tracks d M" using t(1) by (simp add: d_def view_mut_def tracks_def)
  obtain c1 c2 c3 where c: "\<exists>w. emit E (UrlChanged v url) d = (Inr w, c1)"
    "\<exists>w. emit E (LoadStateChanged v LoadCommitted) c1 = (Inr w, c2)"
    "\<exists>w. emit E (LoadStateChanged v LoadInteractive) c2 = (Inr w, c3)"
    "emit E (LoadStateChanged v LoadComplete) c3 = (Inr u, b)"
    using e by (auto simp: finish_page_def ok_simps d_def)
  have s: "phase_step (UrlChanged v url) M = Some (M(v \<mapsto> PNamed))"
    "phase_step (LoadStateChanged v LoadCommitted) (M(v \<mapsto> PNamed)) = Some (M(v \<mapsto> PCommitted))"
    "phase_step (LoadStateChanged v LoadInteractive) (M(v \<mapsto> PCommitted)) = Some (M(v \<mapsto> PInteractive))"
    "phase_step (LoadStateChanged v LoadComplete) (M(v \<mapsto> PInteractive)) = Some (M(v \<mapsto> PIdle))"
    using t(2) by (simp_all add: phase_step_def advance_def)
  obtain w1 w2 w3 where w: "emit E (UrlChanged v url) d = (Inr w1, c1)"
    "emit E (LoadStateChanged v LoadCommitted) c1 = (Inr w2, c2)"
    "emit E (LoadStateChanged v LoadInteractive) c2 = (Inr w3, c3)" using c(1-3) by blast
  note t1 = emit_tracks [OF p w(1) td s(1)]
  note t2 = emit_tracks [OF p w(2) conjunct1 [OF t1] s(2)]
  note t3 = emit_tracks [OF p w(3) conjunct1 [OF t2] s(3)]
  note t4 = emit_tracks [OF p c(4) conjunct1 [OF t3] s(4)]
  show ?thesis using t1 t2 t3 t4 by (simp add: d_def view_mut_def)
qed

lemma complete_inv:
  assumes p: "write_pipe E = byte_pipe" and inv: "worker_inv a" and f: "f \<in> set (fetches a)"
    and r: "handle_navigation_complete E (fetch_view f) (fetch_generation f) result
      (a\<lparr>fetches := remove1 f (fetches a)\<rparr>) = (Inr u, b)"
  shows "worker_inv b"
proof -
  have tr: "tracks a (view_phases (ew_views a))" and lo: "loads_ok a" using inv by (simp_all add: worker_inv_def)
  have one: "fetches a = [f]" "inflight_navigations a = 1"
    using lo f by (cases "fetches a"; auto simp: loads_ok_def MAX_INFLIGHT_NAVIGATIONS_def)+
  define a0 where "a0 = a\<lparr>fetches := [], inflight_navigations := 0\<rparr>"
  have a0: "ew_views a0 = ew_views a" "fetches a0 = []" "inflight_navigations a0 = 0" "out a0 = out a"
    by (simp_all add: a0_def)
  have start: "(a\<lparr>fetches := remove1 f (fetches a)\<rparr>)\<lparr>inflight_navigations := inflight_navigations a - 1\<rparr> = a0"
    by (simp add: a0_def one)
  let ?v = "fetch_view f" and ?M = "view_phases (ew_views a)"
  have only: "w = ?v" if "map_of (ew_views a) w = Some e" "active_navigation e = Some n" for w e n
    using lo that one(1) by (fastforce simp: loads_ok_def)
  have gen: "n = fetch_generation f" if "map_of (ew_views a) w = Some e" "active_navigation e = Some n" for w e n
    using lo that one(1) by (fastforce simp: loads_ok_def)
  have idle_end: "worker_inv b" if "tracks b (view_phases (ew_views b))" "map fst (ew_views b) = map fst (ew_views a)"
    "fetches b = []" "inflight_navigations b = 0"
    "\<And>w e. map_of (ew_views b) w = Some e \<Longrightarrow> active_navigation e = None"
    using that lo by (auto simp: worker_inv_def loads_ok_def)
  show ?thesis
  proof (cases "map_of (ew_views a) ?v")
    case None
    then have "b = a0" using r start by (auto simp: handle_navigation_complete_def ok_simps find_view_def a0)
    moreover have "active_navigation e = None" if "map_of (ew_views a) w = Some e" for w e
      using only [OF that] that None by (cases "active_navigation e") auto
    ultimately show ?thesis using tr a0 by (intro idle_end) (auto simp: tracks_def)
  next
    case (Some entry)
    show ?thesis
    proof (cases "active_navigation entry = Some (fetch_generation f)")
      case False
      then have "b = a0" using r start Some by (auto simp: handle_navigation_complete_def ok_simps find_view_def a0)
      moreover have "active_navigation e = None" if "map_of (ew_views a) w = Some e" for w e
      proof (cases "active_navigation e")
        case (Some n)
        then have "w = ?v" "n = fetch_generation f" using only that gen by blast+
        then have "e = entry" using that \<open>map_of (ew_views a) ?v = Some entry\<close> by simp
        then show ?thesis using False Some \<open>n = _\<close> by simp
      qed simp
      ultimately show ?thesis using tr a0 by (intro idle_end) (auto simp: tracks_def)
    next
      case True
      let ?h = "\<lambda>e :: ('a, 'c, 'd) engine_view. e\<lparr>active_navigation := None\<rparr>"
      define d where "d = view_mut ?v ?h a0"
      have d: "ew_views d = update_entry ?v ?h (ew_views a)" "fetches d = []" "inflight_navigations d = 0" "out d = out a"
        by (simp_all add: d_def view_mut_def a0)
      have td: "tracks d ?M" using tr by (simp add: tracks_def d)
      have load: "?M ?v = Some PLoading" using True Some by (simp add: view_phases_def)
      have idle: "active_navigation e = None"
        if m: "map_of (update_entry ?v g (ew_views d)) w = Some e" and g: "\<And>x. active_navigation (g x) = active_navigation x"
        for w e g
      proof (cases "w = ?v")
        case True
        then show ?thesis using m g Some by (auto simp: d update_entry_map)
      next
        case False
        then have "map_of (ew_views a) w = Some e" using m by (simp add: d update_entry_map)
        from only [OF this] False show ?thesis by (cases "active_navigation e") auto
      qed
      have fin: "worker_inv b" if "tracks b (?M(?v \<mapsto> PIdle))" "ew_views b = update_entry ?v g (ew_views d)"
        "fetches b = []" "inflight_navigations b = 0" "\<And>x. active_navigation (g x) = active_navigation x" for g
      proof (rule idle_end)
        have "view_phases (ew_views b) = ?M(?v \<mapsto> PIdle)"
          using Some that(5) by (simp add: that(2) d view_phases_update update_entry_map)
        then show "tracks b (view_phases (ew_views b))" using that(1) by simp
      qed (use that idle in \<open>simp_all add: d\<close>)
      have rest: "(case result of
            Inl err \<Rightarrow> write_navigation_failure E ?v err
          | Inr payload \<Rightarrow>
              sm_then (sm_do (view_mut ?v (\<lambda>e. snd (take_build_buffers E e))))
                (case build_page E payload (fst (take_build_buffers E entry)) (vp_width (ev_viewport entry), vp_height (ev_viewport entry)) of
                   Inr page \<Rightarrow> finish_page E ?v (payload_url E payload) page
                 | Inl (message, left) \<Rightarrow>
                     sm_then (sm_do (view_mut ?v (\<lambda>e. e\<lparr>spare_buffers := left\<rparr>)))
                       (write_navigation_failure E ?v message))) d = (Inr u, b)"
        using r start Some True by (cases result) (simp_all add: handle_navigation_complete_def find_view_def a0 d_def Let_def)
      show ?thesis
      proof (cases result)
        case (Inl err)
        then have "write_navigation_failure E ?v err d = (Inr u, b)" using rest by simp
        from failure_inv [OF p this td load] show ?thesis
          by (intro fin [where g = "\<lambda>x. x"]) (simp_all add: d update_entry_id)
      next
        case (Inr payload)
        let ?t = "\<lambda>e. snd (take_build_buffers E e)"
        define k where "k = view_mut ?v ?t d"
        have k: "ew_views k = update_entry ?v ?t (ew_views d)" "fetches k = []" "inflight_navigations k = 0" "out k = out d"
          by (simp_all add: k_def view_mut_def d)
        have tk: "tracks k ?M" using td by (simp add: tracks_def k)
        have keep: "active_navigation (?t e) = active_navigation e" for e
          by (simp add: take_build_buffers_def split: option.split)
        show ?thesis
        proof (cases "build_page E payload (fst (take_build_buffers E entry)) (vp_width (ev_viewport entry), vp_height (ev_viewport entry))")
          case (Inr page)
          then have "finish_page E ?v (payload_url E payload) page k = (Inr u, b)"
            using rest \<open>result = Inr payload\<close> by (simp add: k_def)
          from finish_page_inv [OF p this tk load] show ?thesis
            by (intro fin [where g = "\<lambda>e. (?t e)\<lparr>ev_page := Some page\<rparr>"]) (simp_all add: k update_entry_twice keep)
        next
          case (Inl ml)
          obtain message left where ml: "ml = (message, left)" by fastforce
          define m where "m = view_mut ?v (\<lambda>e. e\<lparr>spare_buffers := left\<rparr>) k"
          have m: "ew_views m = update_entry ?v (\<lambda>e. (?t e)\<lparr>spare_buffers := left\<rparr>) (ew_views d)" "fetches m = []"
            "inflight_navigations m = 0" "out m = out d"
            by (simp_all add: m_def view_mut_def k update_entry_twice)
          have tm: "tracks m ?M" using td by (simp add: tracks_def m)
          have "write_navigation_failure E ?v message m = (Inr u, b)"
            using rest Inl ml \<open>result = Inr payload\<close> by (simp add: k_def m_def)
          from failure_inv [OF p this tm load] show ?thesis
            by (intro fin [where g = "\<lambda>e. (?t e)\<lparr>spare_buffers := left\<rparr>"]) (simp_all add: m keep)
        qed
      qed
    qed
  qed
qed

lemma view_phases_Nil [simp]: "view_phases [] = Map.empty"
  by (simp add: view_phases_def fun_eq_iff)

lemma close_each_tracks:
  assumes p: "write_pipe E = byte_pipe"
  shows "sm_each (\<lambda>(v, _). emit E (ViewClosed v)) vs a = (Inr u, b) \<Longrightarrow> tracks a M \<Longrightarrow> distinct (map fst vs)
    \<Longrightarrow> fst ` set vs \<subseteq> dom M \<Longrightarrow>
    tracks b (M |` (- (fst ` set vs))) \<and> ew_views b = ew_views a \<and> fetches b = fetches a
      \<and> inflight_navigations b = inflight_navigations a"
proof (induction vs arbitrary: a M)
  case Nil
  then show ?case by (auto simp: ok_simps restrict_map_def)
next
  case (Cons x vs)
  obtain v e where x: "x = (v, e)" by fastforce
  obtain c w where c: "emit E (ViewClosed v) a = (Inr w, c)" "sm_each (\<lambda>(v, _). emit E (ViewClosed v)) vs c = (Inr u, b)"
    using Cons.prems(1) by (auto simp: ok_simps x)
  have "phase_step (ViewClosed v) M = Some (M(v := None))" using Cons.prems(4) by (auto simp: phase_step_def x)
  note t = emit_tracks [OF p c(1) Cons.prems(2) this]
  have v: "v \<notin> fst ` set vs" "distinct (map fst vs)" "fst ` set vs \<subseteq> dom (M(v := None))"
    using Cons.prems(3,4) by (auto simp: x)
  have "(M(v := None)) |` (- (fst ` set vs)) = M |` (- (fst ` set (x # vs)))"
    using v(1) by (auto simp: x restrict_map_def fun_eq_iff)
  with Cons.IH [OF c(2) conjunct1 [OF t] v(2,3)] t show ?case by (simp only:)
qed

lemma close_all_inv:
  assumes p: "write_pipe E = byte_pipe" and inv: "worker_inv a" and r: "close_all_views E a = (Inr u, b)"
  shows "worker_inv b"
proof -
  let ?vs = "sort_key (\<lambda>(v, _). view_get v) (ew_views a)"
  have tr: "tracks a (view_phases (ew_views a))" and lo: "loads_ok a" using inv by (simp_all add: worker_inv_def)
  obtain c x where c: "sm_each (\<lambda>(v, _). emit E (ViewClosed v)) ?vs (a\<lparr>ew_views := []\<rparr>) = (Inr x, c)"
    "b = c\<lparr>ew_profiles := []\<rparr>"
    using r by (auto simp: close_all_views_def ok_simps Let_def)
  have "mset (map fst ?vs) = mset (map fst (ew_views a))" by simp
  then have d: "distinct (map fst ?vs)"
    using lo mset_eq_imp_distinct_iff unfolding loads_ok_def by blast
  have dm: "dom (view_phases (ew_views a)) = fst ` set (ew_views a)"
    by (auto simp: view_phases_def dom_def map_of_eq_None_iff image_iff)
  have "tracks (a\<lparr>ew_views := []\<rparr>) (view_phases (ew_views a))" using tr by (simp add: tracks_def)
  note t = close_each_tracks [OF p c(1) this d]
  have "view_phases (ew_views a) |` (- (fst ` set ?vs)) = view_phases []"
    using dm by (auto simp: restrict_map_def view_phases_def fun_eq_iff map_of_eq_None_iff)
  then show ?thesis
    using t dm lo by (simp add: worker_inv_def loads_ok_def c(2) tracks_def)
qed

lemma handle_command_inv:
  assumes p: "write_pipe E = byte_pipe" and inv: "worker_inv a" and r: "handle_command E c a = (Inr go, b)"
  shows "worker_inv b"
proof (cases c)
  case (Navigate v request)
  then show ?thesis using r start_navigation_inv [OF p inv] by (auto simp: handle_command_def ok_simps)
next
  case (Reload v)
  then show ?thesis
    using r start_navigation_inv [OF p inv] protocol_violation_inv [OF p inv]
    by (auto simp: handle_command_def ok_simps split: option.splits)
next
  case Shutdown
  then show ?thesis using r close_all_inv [OF p inv] by (auto simp: handle_command_def ok_simps)
qed (use r create_view_inv [OF p inv] close_view_inv [OF p inv] stop_navigation_inv [OF p inv] in
      \<open>auto simp: handle_command_def sm_fail_def\<close>)

lemma actor_inv:
  assumes p: "write_pipe E = byte_pipe" and r: "actor_reachable E [] a"
  shows "worker_inv a"
  using r
proof (induction rule: actor_reachable.induct)
  case reach_worker
  have "tracks (worker_new [] :: ('a, 'c, 'd, u8 list) actor) Map.empty"
    unfolding tracks_def by (intro exI [of _ "[]"]) (simp add: worker_new_def event_bytes_def)
  then show ?case by (simp add: worker_inv_def loads_ok_def worker_new_def)
next
  case (reach_actor a b)
  from reach_actor.hyps(2) show ?case
  proof cases
    case (step_command c go_on)
    then show ?thesis using handle_command_inv [OF p reach_actor.IH] by blast
  next
    case (step_complete f result u)
    then show ?thesis using complete_inv [OF p reach_actor.IH] by blast
  qed
qed

section \<open>Pages\<close>

lemma emit_views: "emit E ev a = (Inr u, b) \<Longrightarrow> ew_views b = ew_views a"
  by (auto simp: emit_def split: sum.splits)

lemma failure_views: "write_navigation_failure E v e a = (Inr u, b) \<Longrightarrow> ew_views b = ew_views a"
  by (auto simp: write_navigation_failure_def ok_simps dest!: emit_views)

lemma finish_page_views:
  "finish_page E v url page a = (Inr u, b) \<Longrightarrow> ew_views b = update_entry v (\<lambda>e. e\<lparr>ev_page := Some page\<rparr>) (ew_views a)"
  by (auto simp: finish_page_def ok_simps view_mut_def dest!: emit_views)

lemma complete_views:
  assumes "handle_navigation_complete E v g result a = (Inr u, b)"
  shows "ew_views b = ew_views a \<or> (\<exists>entry h. map_of (ew_views a) v = Some entry
    \<and> active_navigation entry = Some g \<and> ew_views b = update_entry v h (ew_views a))"
proof -
  let ?a = "a\<lparr>inflight_navigations := inflight_navigations a - 1\<rparr>"
  show ?thesis
  proof (cases "map_of (ew_views a) v")
    case None
    then show ?thesis using assms by (auto simp: handle_navigation_complete_def ok_simps find_view_def)
  next
    case (Some entry)
    show ?thesis
    proof (cases "active_navigation entry = Some g")
      case False
      then show ?thesis using assms Some by (auto simp: handle_navigation_complete_def ok_simps find_view_def)
    next
      case True
      have "\<exists>h. ew_views b = update_entry v h (ew_views a)"
      proof (cases result)
        case (Inl e)
        then show ?thesis
          using assms Some True
          by (auto simp: handle_navigation_complete_def ok_simps find_view_def view_mut_def dest!: failure_views)
      next
        case (Inr payload)
        let ?w = "(vp_width (ev_viewport entry), vp_height (ev_viewport entry))"
        show ?thesis
        proof (cases "build_page E payload (fst (take_build_buffers E entry)) ?w")
          case (Inl ml)
          then show ?thesis
            using assms Some True \<open>result = Inr payload\<close>
            by (cases ml)
              (auto simp: handle_navigation_complete_def ok_simps find_view_def view_mut_def update_entry_twice Let_def
                dest!: failure_views)
        next
          case (Inr page)
          then show ?thesis
            using assms Some True \<open>result = Inr payload\<close>
            by (auto simp: handle_navigation_complete_def ok_simps find_view_def view_mut_def update_entry_twice Let_def
                dest!: finish_page_views)
        qed
      qed
      then show ?thesis using Some True by blast
    qed
  qed
qed

section \<open>Strings\<close>

text \<open>An error text always fits a message, as it is cut; the URL of a page is not cut, and one over the limit ends
  the actor with every view it holds.\<close>

lemma string_boundary_below_le: "string_boundary_below s n \<le> n"
  by (induction n) auto

lemma bounded_string_fits: "event_fits (StatusChanged v (bounded_protocol_string s))"
proof -
  have "length (bounded_protocol_string s) \<le> MAX_STRING_BYTES"
    using string_boundary_below_le [of s MAX_STRING_BYTES] by (simp add: bounded_protocol_string_def)
  then show ?thesis by (simp add: event_fits_def str_fits_def)
qed

lemma long_url_ends_actor:
  assumes "MAX_STRING_BYTES < length url"
  shows "\<exists>l n. fst (finish_page E v url page a) = Inl (ProcessProtocol (LimitExceeded l n))"
proof -
  let ?d = "view_mut v (\<lambda>e. e\<lparr>ev_page := Some page\<rparr>) a"
  have "\<not> message_fits (MEvent (UrlChanged v url))" using assms by (simp add: event_fits_def str_fits_def)
  then obtain l n where "encode (MEvent (UrlChanged v url)) = Inl (LimitExceeded l n)" using encode_limit by blast
  then have "emit E (UrlChanged v url) ?d = (Inl (ProcessProtocol (LimitExceeded l n)), ?d)"
    by (simp add: emit_def write_event_def write_engine_message_def)
  then show ?thesis by (simp add: finish_page_def sm_then_def sm_bind_def sm_do_def)
qed

section \<open>Properties\<close>

text \<open>C7: the bytes the worker has written are the envelopes of events that follow one life cycle for every
  view: created, then any number of loads, each started once and ended by a stop, a failure or the whole
  sequence of URL, committed, interactive and complete, then closed; and the phases an observer computes
  from them are those of the views the worker holds.\<close>

theorem worker_events_conform:
  assumes "write_pipe E = byte_pipe" "actor_reachable E [] a"
  shows "\<exists>evs. out a = event_bytes evs \<and> observe evs Map.empty = Some (view_phases (ew_views a))"
  using actor_inv [OF assms] by (auto simp: worker_inv_def tracks_def)

text \<open>C9: a completed fetch changes the page of no view but the one that started it, and only if the URL
  fetched is the one that view asked for last: no stop, close, or new view of the same identifier
  lets a stale page in. No more than one fetch is ever in flight.\<close>

theorem no_stale_page:
  assumes "write_pipe E = byte_pipe" "actor_reachable E [] a" "f \<in> set (fetches a)"
    and "handle_navigation_complete E (fetch_view f) (fetch_generation f) result
      (a\<lparr>fetches := remove1 f (fetches a)\<rparr>) = (Inr (), b)"
    and "map_of (ew_views a) v = Some e" "map_of (ew_views b) v \<noteq> Some e"
  shows "fetches a = [f] \<and> v = fetch_view f \<and> requested_url e = Some (fetch_url f)"
proof -
  have lo: "loads_ok a" using actor_inv [OF assms(1,2)] by (simp add: worker_inv_def)
  have one: "fetches a = [f]"
    using lo assms(3) by (cases "fetches a") (auto simp: loads_ok_def MAX_INFLIGHT_NAVIGATIONS_def)
  obtain entry h where h: "map_of (ew_views a) (fetch_view f) = Some entry" "active_navigation entry = Some (fetch_generation f)"
    "ew_views b = update_entry (fetch_view f) h (ew_views a)"
    using complete_views [OF assms(4)] assms(5,6) by auto
  have v: "v = fetch_view f" using assms(5,6) h(3) by (auto simp: update_entry_map split: if_splits)
  then have "entry = e" using h(1) assms(5) by simp
  then obtain k where "k \<in> set (fetches a)" "requested_url e = Some (fetch_url k)"
    using lo h(1,2) unfolding loads_ok_def by blast
  then show ?thesis using one v by simp
qed

section \<open>A run\<close>

definition sample_env :: "(unit, string, string, unit, u8 list) actor_env" where
  "sample_env = \<lparr>default_config = (), default_buffers = (), payload_url = (\<lambda>p. p), build_page = (\<lambda>p _ _. Inr p),
     page_url = (\<lambda>p. p), page_buffers = (\<lambda>_. ()), write_pipe = byte_pipe, spawn_fails = (\<lambda>_. False)\<rparr>"

definition sample_viewport :: viewport where
  "sample_viewport = \<lparr>vp_width = 800, vp_height = 600, scale_permille = 1000\<rparr>"

definition sample_fetch :: "unit started_fetch" where
  "sample_fetch = \<lparr>fetch_view = ViewId 1, fetch_generation = 1, fetch_url = ''a'', fetch_config = ()\<rparr>"

definition sample_view :: "(unit, string, unit) engine_view" where
  "sample_view = engine_view_new () () sample_viewport"

definition sample_loading :: "(unit, string, unit) engine_view" where
  "sample_loading = sample_view\<lparr>navigation_generation := 1, active_navigation := Some 1, requested_url := Some ''a''\<rparr>"

definition sample_created :: "(unit, string, unit, u8 list) actor" where
  "sample_created =
     \<lparr>ew_views = [(ViewId 1, sample_view)], ew_profiles = [(ProfileId 1, ())], inflight_navigations = 0, fetches = [],
      out = envelope (MEvent (ViewCreated (ViewId 1)))\<rparr>"

definition sample_worker :: "(unit, string, unit, u8 list) actor" where
  "sample_worker = sample_created\<lparr>ew_views := [(ViewId 1, sample_loading)], inflight_navigations := 1,
     fetches := [sample_fetch],
     out := out sample_created @ envelope (MEvent (LoadStateChanged (ViewId 1) LoadStarted))\<rparr>"

lemma emit_fits:
  "write_pipe E = byte_pipe \<Longrightarrow> message_fits (MEvent ev) \<Longrightarrow>
    emit E ev a = (Inr (), a\<lparr>out := out a @ envelope (MEvent ev)\<rparr>)"
  using encode_fits [of "MEvent ev"] by (simp add: emit_def write_event_def write_engine_message_def byte_pipe_def)

lemma sample_fits [simp]:
  "event_fits (ViewCreated v)" "event_fits (LoadStateChanged v l)" "event_fits (UrlChanged v ''a'')"
  by (simp_all add: event_fits_def str_fits_def MAX_STRING_BYTES_def)

lemmas sample_exec = sample_env_def emit_fits sm_then_def sm_bind_def sm_do_def sm_return_def sm_lift_def find_view_def
  view_mut_def Let_def

lemma sample_create:
  "handle_command sample_env (CreateView (ViewId 1) (ProfileId 1) sample_viewport) (worker_new []) = (Inr True, sample_created)"
  by (simp add: handle_command_def create_view_def profile_config_def worker_new_def sample_created_def sample_view_def sample_exec)

lemma sample_navigate:
  "handle_command sample_env (Navigate (ViewId 1) \<lparr>nav_url = ''a''\<rparr>) sample_created = (Inr True, sample_worker)"
  by (simp add: handle_command_def start_navigation_def sample_created_def sample_worker_def sample_exec
      MAX_INFLIGHT_NAVIGATIONS_def sample_loading_def sample_view_def engine_view_new_def sample_fetch_def saturating_add_def)

lemma sample_worker_reachable: "actor_reachable sample_env [] sample_worker"
  by (rule reach_actor [OF reach_actor [OF reach_worker step_command [OF sample_create]] step_command [OF sample_navigate]])

lemma sample_pipe: "write_pipe sample_env = byte_pipe"
  by (simp add: sample_env_def)

theorem worker_events_conform_witness:
  "\<exists>evs. out sample_worker = event_bytes evs \<and> observe evs Map.empty = Some (view_phases (ew_views sample_worker))"
  by (rule worker_events_conform [OF sample_pipe sample_worker_reachable])

definition sample_complete :: "(unit, string, unit, u8 list) actor" where
  "sample_complete = snd (handle_navigation_complete sample_env (ViewId 1) 1 (Inr ''a'') (sample_worker\<lparr>fetches := []\<rparr>))"

lemma sample_completes:
  "handle_navigation_complete sample_env (ViewId 1) 1 (Inr ''a'') (sample_worker\<lparr>fetches := []\<rparr>) = (Inr (), sample_complete)"
  "map_of (ew_views sample_complete) (ViewId 1) \<noteq> Some sample_loading"
  by (simp_all add: sample_complete_def handle_navigation_complete_def finish_page_def take_build_buffers_def
      sample_created_def sample_worker_def sample_exec sample_loading_def sample_view_def engine_view_new_def)

theorem no_stale_page_witness:
  "fetches sample_worker = [sample_fetch] \<and> ViewId 1 = fetch_view sample_fetch
    \<and> requested_url sample_loading = Some (fetch_url sample_fetch)"
proof (rule no_stale_page [OF sample_pipe sample_worker_reachable])
  show "sample_fetch \<in> set (fetches sample_worker)" by (simp add: sample_worker_def)
  show "handle_navigation_complete sample_env (fetch_view sample_fetch) (fetch_generation sample_fetch) (Inr ''a'')
      (sample_worker\<lparr>fetches := remove1 sample_fetch (fetches sample_worker)\<rparr>) = (Inr (), sample_complete)"
    using sample_completes(1) by (simp add: sample_fetch_def sample_worker_def)
  show "map_of (ew_views sample_worker) (ViewId 1) = Some sample_loading" by (simp add: sample_worker_def)
  show "map_of (ew_views sample_complete) (ViewId 1) \<noteq> Some sample_loading" by (rule sample_completes(2))
qed

end
