(* ===== verification/Layout_Table.thy ===== *)
theory Layout_Table
  imports Dom_Results
begin

text \<open>
  The layout table (\<open>crates/silksurf-layout/src/neighbor_table.rs\<close>): the render tree listed level by
  level in flat arrays. The filter of subtrees is an argument, a predicate on the nodes of the arena.
\<close>

section \<open>The table\<close>

record layout_table =
  level_starts :: "u32 list"
  parent_idx :: "u32 list"
  bfs_order :: "node_id list"
  child_start :: "u32 list"
  child_count :: "u16 list"
  node_to_bfs_idx :: "node_id \<Rightarrow> u32 option"

definition U32_MAX :: u32 where "U32_MAX = 0xFFFFFFFF"

definition table_empty :: layout_table where
  "table_empty = \<lparr>level_starts = [], parent_idx = [], bfs_order = [], child_start = [], child_count = [],
     node_to_bfs_idx = Map.empty\<rparr>"

text \<open>One node entered under the parent of the given index (the closure \<open>append_child\<close>).\<close>

definition enter_node :: "u32 \<Rightarrow> node_id \<Rightarrow> layout_table \<Rightarrow> layout_table" where
  "enter_node pidx child t =
     t\<lparr>node_to_bfs_idx := (node_to_bfs_idx t)(child \<mapsto> word_of_nat (length (bfs_order t))),
       bfs_order := bfs_order t @ [child], parent_idx := parent_idx t @ [pidx],
       child_start := child_start t @ [U32_MAX], child_count := child_count t @ [0]\<rparr>"

fun append_children :: "(dom \<Rightarrow> node_id \<Rightarrow> bool) \<Rightarrow> dom \<Rightarrow> u32 \<Rightarrow> node_id list \<Rightarrow> nat \<Rightarrow> layout_table \<Rightarrow> nat \<times> layout_table" where
  "append_children skip d pidx [] retained t = (retained, t)"
| "append_children skip d pidx (c # cs) retained t =
     (if \<not> skip d c then append_children skip d pidx cs (retained + 1) (enter_node pidx c t)
      else append_children skip d pidx cs retained t)"

definition children_or_empty :: "dom \<Rightarrow> node_id \<Rightarrow> node_id list" where
  "children_or_empty d i = (case children d i of Inr cs \<Rightarrow> cs | Inl _ \<Rightarrow> [])"

definition shadow_children :: "bool \<Rightarrow> dom \<Rightarrow> node_id \<Rightarrow> node_id list" where
  "shadow_children include_shadow_roots d i =
     (case (if include_shadow_roots then shadow_roots d i else None) of
        Some shadow_root \<Rightarrow> children_or_empty d shadow_root
      | None \<Rightarrow> [])"

definition process_node :: "(dom \<Rightarrow> node_id \<Rightarrow> bool) \<Rightarrow> bool \<Rightarrow> dom \<Rightarrow> nat \<Rightarrow> layout_table \<Rightarrow> layout_table" where
  "process_node skip include_shadow_roots d i t =
     (let node = bfs_order t ! i;
          first = length (bfs_order t);
          (retained, t) = append_children skip d (word_of_nat i) (children_or_empty d node) 0 t;
          (retained, t) = append_children skip d (word_of_nat i) (shadow_children include_shadow_roots d node) retained t
      in t\<lparr>child_start := (child_start t)[i := if retained = 0 then U32_MAX else word_of_nat first],
           child_count := (child_count t)[i := word_of_nat (min retained 0xFFFF)]\<rparr>)"

fun process_range :: "(dom \<Rightarrow> node_id \<Rightarrow> bool) \<Rightarrow> bool \<Rightarrow> dom \<Rightarrow> nat list \<Rightarrow> layout_table \<Rightarrow> layout_table" where
  "process_range skip sh d [] t = t"
| "process_range skip sh d (i # is) t = process_range skip sh d is (process_node skip sh d i t)"

text \<open>The loop over the levels; \<open>None\<close> is a loop without end.\<close>

partial_function (option) level_loop ::
    "(dom \<Rightarrow> node_id \<Rightarrow> bool) \<Rightarrow> bool \<Rightarrow> dom \<Rightarrow> nat \<Rightarrow> layout_table \<Rightarrow> layout_table option" where
  "level_loop skip sh d level_start t =
     (let level_end = length (bfs_order t) in
      if level_end \<le> level_start then Some t
      else
        (let t = process_range skip sh d [level_start..<level_end] t;
             t = (if level_end < length (bfs_order t)
                  then t\<lparr>level_starts := level_starts t @ [word_of_nat level_end]\<rparr> else t)
         in level_loop skip sh d level_end t))"

definition rebuild_internal ::
    "dom \<Rightarrow> node_id \<Rightarrow> (dom \<Rightarrow> node_id \<Rightarrow> bool) \<Rightarrow> bool \<Rightarrow> layout_table \<Rightarrow> layout_table option" where
  "rebuild_internal d root skip include_shadow_roots t =
     (let t = t\<lparr>bfs_order := [], parent_idx := [], child_start := [], child_count := [],
                node_to_bfs_idx := Map.empty, level_starts := []\<rparr>;
          t = t\<lparr>bfs_order := [root], node_to_bfs_idx := [root \<mapsto> 0], parent_idx := [U32_MAX],
                child_start := [U32_MAX], child_count := [0], level_starts := [0]\<rparr>
      in level_loop skip include_shadow_roots d 0 t)"

definition rebuild_filtered :: "dom \<Rightarrow> node_id \<Rightarrow> (dom \<Rightarrow> node_id \<Rightarrow> bool) \<Rightarrow> layout_table \<Rightarrow> layout_table option" where
  "rebuild_filtered d root skip t = rebuild_internal d root skip False t"

definition rebuild_with_shadow_roots_filtered ::
    "dom \<Rightarrow> node_id \<Rightarrow> (dom \<Rightarrow> node_id \<Rightarrow> bool) \<Rightarrow> layout_table \<Rightarrow> layout_table option" where
  "rebuild_with_shadow_roots_filtered d root skip t = rebuild_internal d root skip True t"

definition rebuild_table :: "dom \<Rightarrow> node_id \<Rightarrow> layout_table \<Rightarrow> layout_table option" where
  "rebuild_table d root t = rebuild_filtered d root (\<lambda>_ _. False) t"

definition build_internal :: "dom \<Rightarrow> node_id \<Rightarrow> (dom \<Rightarrow> node_id \<Rightarrow> bool) \<Rightarrow> bool \<Rightarrow> layout_table option" where
  "build_internal d root skip sh = rebuild_internal d root skip sh table_empty"

definition build_filtered :: "dom \<Rightarrow> node_id \<Rightarrow> (dom \<Rightarrow> node_id \<Rightarrow> bool) \<Rightarrow> layout_table option" where
  "build_filtered d root skip = build_internal d root skip False"

definition build_with_shadow_roots_filtered :: "dom \<Rightarrow> node_id \<Rightarrow> (dom \<Rightarrow> node_id \<Rightarrow> bool) \<Rightarrow> layout_table option" where
  "build_with_shadow_roots_filtered d root skip = build_internal d root skip True"

definition build_table :: "dom \<Rightarrow> node_id \<Rightarrow> layout_table option" where
  "build_table d root = build_filtered d root (\<lambda>_ _. False)"

text \<open>\<open>level\<close> indexes and slices: \<open>None\<close> is the panic out of range.\<close>

definition level :: "layout_table \<Rightarrow> nat \<Rightarrow> node_id list option" where
  "level t i =
     (if length (level_starts t) \<le> i then None
      else
        (let start = unat (level_starts t ! i);
             e = (if i + 1 < length (level_starts t) then unat (level_starts t ! (i + 1)) else length (bfs_order t))
         in if start \<le> e \<and> e \<le> length (bfs_order t) then Some (drop start (take e (bfs_order t))) else None))"

definition table_len :: "layout_table \<Rightarrow> nat" where "table_len t = length (bfs_order t)"

definition table_is_empty :: "layout_table \<Rightarrow> bool" where "table_is_empty t \<longleftrightarrow> bfs_order t = []"

definition table_depth :: "layout_table \<Rightarrow> nat" where "table_depth t = length (level_starts t)"

section \<open>The render tree\<close>

definition render_children :: "(dom \<Rightarrow> node_id \<Rightarrow> bool) \<Rightarrow> bool \<Rightarrow> dom \<Rightarrow> node_id \<Rightarrow> node_id list" where
  "render_children skip sh d i =
     filter (\<lambda>c. \<not> skip d c)
       (kids d i @ (case (if sh then shadow_roots d i else None) of Some f \<Rightarrow> kids d f | None \<Rightarrow> []))"

fun render_level :: "(dom \<Rightarrow> node_id \<Rightarrow> bool) \<Rightarrow> bool \<Rightarrow> dom \<Rightarrow> node_id \<Rightarrow> nat \<Rightarrow> node_id list" where
  "render_level skip sh d root 0 = [root]"
| "render_level skip sh d root (Suc k) =
     concat (map (render_children skip sh d) (render_level skip sh d root k))"

lemma children_or_empty_kids [simp]: "children_or_empty d i = kids d i"
  by (simp add: children_or_empty_def children_def node_index_def res_bind_def kids_def)

lemma render_children_eq:
  "render_children skip sh d i =
     filter (\<lambda>c. \<not> skip d c) (kids d i) @ filter (\<lambda>c. \<not> skip d c) (shadow_children sh d i)"
  by (auto simp: render_children_def shadow_children_def split: option.split)

text \<open>
  The layout table is the render tree: its levels are the levels of the tree, the children of each node
  stand in one run at the index the table holds, and the map of nodes to indices is exact. The table
  of any earlier tree may be refilled.
\<close>

section \<open>The render tree under a root\<close>

lemma render_children_cases:
  assumes inv: "tree_inv d" and c: "c \<in> set (render_children skip sh d p)"
  shows "par d c = Some p \<or> (\<exists>f m. par d c = Some f \<and> shadow_hosts d f = Some (p, m))"
proof -
  have host: "\<exists>m. shadow_hosts d f = Some (p, m)" if "shadow_roots d p = Some f" for f
    using inv that by (auto simp: tree_inv_def hosts_ok_def)
  show ?thesis
    using c host tree_inv_links [OF inv]
    by (auto simp: render_children_def split: if_splits option.splits)
qed

lemma shadow_up: "tree_inv d \<Longrightarrow> shadow_hosts d f = Some (h, m) \<Longrightarrow> up d f = Some h"
proof -
  assume inv: "tree_inv d" and s: "shadow_hosts d f = Some (h, m)"
  have "par d f = None" using tree_inv_fragment [OF inv] tree_inv_host_fragment(2) [OF inv s] by blast
  moreover have "template_hosts d f = None" using inv s by (auto simp: tree_inv_def hosts_ok_def)
  ultimately show ?thesis using s by (simp add: up_def)
qed

lemma render_child_below:
  assumes inv: "tree_inv d" and c: "c \<in> set (render_children skip sh d p)"
  shows "(c, p) \<in> (up_rel d)\<^sup>+"
  using render_children_cases [OF assms]
proof
  assume "par d c = Some p"
  then show ?thesis by (auto simp: up_rel_def up_def)
next
  assume "\<exists>f m. par d c = Some f \<and> shadow_hosts d f = Some (p, m)"
  then obtain f m where "par d c = Some f" "shadow_hosts d f = Some (p, m)" by blast
  then have "(c, f) \<in> up_rel d" "(f, p) \<in> up_rel d"
    using shadow_up [OF inv] by (auto simp: up_rel_def up_def)
  then show ?thesis by (meson r_into_trancl trancl_into_trancl)
qed

lemma render_child_range: "tree_inv d \<Longrightarrow> c \<in> set (render_children skip sh d p) \<Longrightarrow> c < length (nodes d)"
  using render_children_cases par_range by blast

lemma not_below_self: "tree_inv d \<Longrightarrow> (c, c) \<notin> (up_rel d)\<^sup>+"
  by (simp add: tree_inv_def acyclic_def)

lemma render_children_distinct:
  assumes inv: "tree_inv d" shows "distinct (render_children skip sh d p)"
proof -
  have k: "distinct (kids d i)" for i using inv by (auto simp: tree_inv_def links_ok_def)
  have "set (kids d p) \<inter> set (kids d f) = {}" if "shadow_roots d p = Some f" for f
  proof -
    obtain m where "shadow_hosts d f = Some (p, m)" using inv \<open>shadow_roots d p = Some f\<close> by (auto simp: tree_inv_def hosts_ok_def)
    then have "f \<noteq> p" using shadow_up [OF inv] not_below_self [OF inv, of f] by (auto simp: up_rel_def)
    then show ?thesis using tree_inv_links [OF inv] by (metis disjoint_iff option.inject)
  qed
  then show ?thesis using k by (cases "shadow_roots d p") (auto simp: render_children_def)
qed

text \<open>In the tree under a root a node has one parent.\<close>

definition in_tree :: "dom \<Rightarrow> node_id \<Rightarrow> node_id \<Rightarrow> bool" where
  "in_tree d root p \<longleftrightarrow> p = root \<or> (p, root) \<in> (up_rel d)\<^sup>+ \<and> par d p \<noteq> None"

lemma render_parent_unique:
  assumes inv: "tree_inv d" and c: "c \<in> set (render_children skip sh d p)" "c \<in> set (render_children skip sh d q)"
    and t: "in_tree d root p" "in_tree d root q"
  shows "p = q"
proof -
  have mixed: False if "par d c = Some x" "par d c = Some f" "shadow_hosts d f = Some (y, m)"
    "in_tree d root x" "in_tree d root y" for x y f m
  proof -
    have x: "x = f" using that by simp
    have "par d f = None" using tree_inv_fragment [OF inv] tree_inv_host_fragment(2) [OF inv that(3)] by blast
    then have r: "f = root" using that(4) x by (simp add: in_tree_def)
    have "(f, y) \<in> up_rel d" using shadow_up [OF inv that(3)] by (simp add: up_rel_def)
    then have "(root, root) \<in> (up_rel d)\<^sup>+"
      using that(5) r by (auto simp: in_tree_def intro: trancl_into_trancl2)
    then show False using not_below_self [OF inv] by blast
  qed
  from render_children_cases [OF inv c(1)] render_children_cases [OF inv c(2)] show ?thesis
    using mixed t by fastforce
qed

lemma level_in_tree:
  assumes inv: "tree_inv d"
  shows "c \<in> set (render_level skip sh d root k) \<Longrightarrow> in_tree d root c"
proof (induction k arbitrary: c)
  case (Suc k)
  then obtain p where p: "p \<in> set (render_level skip sh d root k)" "c \<in> set (render_children skip sh d p)" by auto
  have "(c, root) \<in> (up_rel d)\<^sup>+"
    using render_child_below [OF inv p(2)] Suc.IH [OF p(1)] by (auto simp: in_tree_def)
  moreover have "par d c \<noteq> None" using render_children_cases [OF inv p(2)] by auto
  ultimately show ?case by (simp add: in_tree_def)
qed (simp add: in_tree_def)

lemma level_card:
  assumes inv: "tree_inv d"
  shows "c \<in> set (render_level skip sh d root k) \<Longrightarrow> card (below d c) + k \<le> card (below d root)"
proof (induction k arbitrary: c)
  case (Suc k)
  then obtain p where p: "p \<in> set (render_level skip sh d root k)" "c \<in> set (render_children skip sh d p)" by auto
  show ?case using below_less [OF inv render_child_below [OF inv p(2)]] Suc.IH [OF p(1)] by simp
qed simp

lemma levels_end: "tree_inv d \<Longrightarrow> render_level skip sh d root (Suc (length (nodes d))) = []"
  using level_card [of d _ skip sh root "Suc (length (nodes d))"] below_card [of d root]
  by (metis Suc_n_not_le_n add_leE last_in_set le_trans)

lemma level_range:
  "tree_inv d \<Longrightarrow> root < length (nodes d) \<Longrightarrow> c \<in> set (render_level skip sh d root k) \<Longrightarrow> c < length (nodes d)"
  by (cases k) (auto dest: render_child_range)

lemma level_distinct:
  assumes inv: "tree_inv d" shows "distinct (render_level skip sh d root k)"
proof (induction k)
  case (Suc k)
  have "distinct (concat (map (render_children skip sh d) ps))"
    if "distinct ps" "set ps \<subseteq> set (render_level skip sh d root k)" for ps
    using that
  proof (induction ps)
    case (Cons p ps)
    have "set (render_children skip sh d p) \<inter> set (render_children skip sh d q) = {}" if "q \<in> set ps" for q
      using render_parent_unique [OF inv _ _ level_in_tree [OF inv] level_in_tree [OF inv], of _ skip sh p q skip sh root k skip sh k]
        Cons.prems that by auto
    then show ?case using Cons render_children_distinct [OF inv] by auto
  qed simp
  then show ?case using Suc by simp
qed simp

lemma level_unique:
  assumes inv: "tree_inv d"
  shows "c \<in> set (render_level skip sh d root k) \<Longrightarrow> c \<in> set (render_level skip sh d root m) \<Longrightarrow> k = m"
proof (induction k arbitrary: m c)
  have strict: "root \<notin> set (render_level skip sh d root (Suc j))" for j
  proof
    assume "root \<in> set (render_level skip sh d root (Suc j))"
    then have "card (below d root) + Suc j \<le> card (below d root)" by (rule level_card [OF inv])
    then show False by simp
  qed
  {
    case 0
    then show ?case using strict by (cases m) auto
  next
    case (Suc k)
    show ?case
    proof (cases m)
      case 0
      then show ?thesis using Suc.prems strict [of k] by simp
    next
      case m: (Suc j)
      obtain p where p: "p \<in> set (render_level skip sh d root k)" "c \<in> set (render_children skip sh d p)"
        using Suc.prems(1) by auto
      obtain q where q: "q \<in> set (render_level skip sh d root j)" "c \<in> set (render_children skip sh d q)"
        using Suc.prems(2) m by auto
      have "p = q"
        by (rule render_parent_unique [OF inv p(2) q(2) level_in_tree [OF inv p(1)] level_in_tree [OF inv q(1)]])
      then show ?thesis using Suc.IH p(1) q(1) m by blast
    qed
  }
qed

definition levels_before :: "(dom \<Rightarrow> node_id \<Rightarrow> bool) \<Rightarrow> bool \<Rightarrow> dom \<Rightarrow> node_id \<Rightarrow> nat \<Rightarrow> node_id list" where
  "levels_before skip sh d root k = concat (map (render_level skip sh d root) [0..<k])"

lemma levels_before_Suc [simp]:
  "levels_before skip sh d root 0 = []"
  "levels_before skip sh d root (Suc k) = levels_before skip sh d root k @ render_level skip sh d root k"
  by (simp_all add: levels_before_def)

lemma levels_before_set:
  "c \<in> set (levels_before skip sh d root k) \<longleftrightarrow> (\<exists>j < k. c \<in> set (render_level skip sh d root j))"
  by (induction k) (auto simp: less_Suc_eq)

lemma levels_before_distinct: "tree_inv d \<Longrightarrow> distinct (levels_before skip sh d root k)"
proof (induction k)
  case (Suc k)
  have "c \<notin> set (render_level skip sh d root k)" if "c \<in> set (levels_before skip sh d root k)" for c
    using that level_unique [OF Suc.prems, of c skip sh root] by (fastforce simp: levels_before_set)
  then show ?case using Suc level_distinct [OF Suc.prems] by auto
qed simp

lemma levels_before_length:
  assumes inv: "tree_inv d" "root < length (nodes d)"
  shows "length (levels_before skip sh d root k) \<le> length (nodes d)"
proof -
  have "set (levels_before skip sh d root k) \<subseteq> {..<length (nodes d)}"
    using level_range [OF inv] by (auto simp: levels_before_set)
  then have "card (set (levels_before skip sh d root k)) \<le> card {..<length (nodes d)}" by (intro card_mono) auto
  then show ?thesis using distinct_card [OF levels_before_distinct [OF inv(1)]] by simp
qed

section \<open>One node\<close>

text \<open>The table after the nodes of the first \<open>n\<close> indices: \<open>ch\<close> gives the children of a node.\<close>

definition index_map :: "node_id list \<Rightarrow> node_id \<Rightarrow> u32 option" where
  "index_map xs = map_of (rev (zip xs (map word_of_nat [0..<length xs])))"

definition start_of :: "(node_id \<Rightarrow> node_id list) \<Rightarrow> node_id list \<Rightarrow> nat \<Rightarrow> nat" where
  "start_of ch xs i = 1 + length (concat (map ch (take i xs)))"

definition start_entry :: "(node_id \<Rightarrow> node_id list) \<Rightarrow> node_id list \<Rightarrow> nat \<Rightarrow> u32" where
  "start_entry ch xs i = (if ch (xs ! i) = [] then U32_MAX else word_of_nat (start_of ch xs i))"

definition count_entry :: "(node_id \<Rightarrow> node_id list) \<Rightarrow> node_id list \<Rightarrow> nat \<Rightarrow> u16" where
  "count_entry ch xs i = word_of_nat (min (length (ch (xs ! i))) 0xFFFF)"

definition parent_entries :: "(node_id \<Rightarrow> node_id list) \<Rightarrow> node_id list \<Rightarrow> nat \<Rightarrow> u32 list" where
  "parent_entries ch xs n = U32_MAX # concat (map (\<lambda>i. replicate (length (ch (xs ! i))) (word_of_nat i)) [0..<n])"

definition filled :: "node_id \<Rightarrow> (node_id \<Rightarrow> node_id list) \<Rightarrow> nat \<Rightarrow> layout_table \<Rightarrow> bool" where
  "filled root ch n t \<longleftrightarrow>
     n \<le> length (bfs_order t)
   \<and> bfs_order t = root # concat (map ch (take n (bfs_order t)))
   \<and> parent_idx t = parent_entries ch (bfs_order t) n
   \<and> child_start t = map (start_entry ch (bfs_order t)) [0..<n] @ replicate (length (bfs_order t) - n) U32_MAX
   \<and> child_count t = map (count_entry ch (bfs_order t)) [0..<n] @ replicate (length (bfs_order t) - n) 0
   \<and> node_to_bfs_idx t = index_map (bfs_order t)"

lemma index_map_snoc: "index_map (xs @ [c]) = (index_map xs)(c \<mapsto> word_of_nat (length xs))"
  by (simp add: index_map_def fun_eq_iff)

text \<open>The entries for a list of children.\<close>

definition entered :: "u32 \<Rightarrow> node_id list \<Rightarrow> layout_table \<Rightarrow> layout_table" where
  "entered p cs t = fold (enter_node p) cs t"

lemma append_children_entered:
  "append_children skip d p cs r t =
     (r + length (filter (\<lambda>c. \<not> skip d c) cs), entered p (filter (\<lambda>c. \<not> skip d c) cs) t)"
  by (induction cs arbitrary: r t) (simp_all add: entered_def)

lemma entered_append: "entered p ds (entered p cs t) = entered p (cs @ ds) t"
  by (simp add: entered_def)

lemma entered_fields:
  "bfs_order (entered p cs t) = bfs_order t @ cs"
  "parent_idx (entered p cs t) = parent_idx t @ replicate (length cs) p"
  "child_start (entered p cs t) = child_start t @ replicate (length cs) U32_MAX"
  "child_count (entered p cs t) = child_count t @ replicate (length cs) 0"
  "level_starts (entered p cs t) = level_starts t"
  "node_to_bfs_idx t = index_map (bfs_order t) \<Longrightarrow> node_to_bfs_idx (entered p cs t) = index_map (bfs_order t @ cs)"
proof (induction cs arbitrary: t)
  case (Cons c cs)
  {
    case 6
    have "node_to_bfs_idx (enter_node p c t) = index_map (bfs_order (enter_node p c t))"
      by (simp add: enter_node_def index_map_snoc 6)
    from Cons(6) [OF this] show ?case by (simp add: entered_def enter_node_def)
  }
qed (simp_all add: entered_def enter_node_def)

lemma process_node_entered:
  "process_node skip sh d i t =
     (let cs = render_children skip sh d (bfs_order t ! i); u = entered (word_of_nat i) cs t
      in u\<lparr>child_start := (child_start u)[i := if cs = [] then U32_MAX else word_of_nat (length (bfs_order t))],
           child_count := (child_count u)[i := word_of_nat (min (length cs) 0xFFFF)]\<rparr>)"
  by (simp add: process_node_def append_children_entered entered_append render_children_eq Let_def)

lemma take_snoc: "n < length xs \<Longrightarrow> take (Suc n) (xs @ ys) = take n xs @ [xs ! n]"
  by (simp add: take_Suc_conv_app_nth)

lemma entry_append:
  assumes "i < length xs"
  shows "start_entry ch (xs @ ys) i = start_entry ch xs i" "count_entry ch (xs @ ys) i = count_entry ch xs i"
  using assms by (simp_all add: start_entry_def start_of_def count_entry_def nth_append)

lemma parent_entries_Suc:
  assumes "n < length xs"
  shows "parent_entries ch (xs @ ys) (Suc n) = parent_entries ch xs n @ replicate (length (ch (xs ! n))) (word_of_nat n)"
proof -
  have same: "(xs @ ys) ! i = xs ! i" if "i \<le> n" for i using that assms by (simp add: nth_append)
  have "concat (map (\<lambda>i. replicate (length (ch ((xs @ ys) ! i))) (word_of_nat i)) [0..<n])
      = concat (map (\<lambda>i. replicate (length (ch (xs ! i))) (word_of_nat i :: u32)) [0..<n])"
    by (intro arg_cong [where f = concat] map_cong) (auto simp: same)
  then show ?thesis by (simp add: parent_entries_def same)
qed

lemma update_first: "n < m \<Longrightarrow> (xs @ replicate (m - n) z)[length xs := v] = xs @ v # replicate (m - Suc n) z"
  by (simp add: list_update_append replicate_Suc [symmetric] Suc_diff_Suc del: replicate_Suc)
    (metis Suc_diff_Suc list_update_code(2) replicate_Suc)

lemma process_node_filled:
  assumes f: "filled root (render_children skip sh d) n t" and n: "n < length (bfs_order t)"
  shows "filled root (render_children skip sh d) (Suc n) (process_node skip sh d n t)
    \<and> bfs_order (process_node skip sh d n t) = bfs_order t @ render_children skip sh d (bfs_order t ! n)
    \<and> level_starts (process_node skip sh d n t) = level_starts t"
proof -
  let ?ch = "render_children skip sh d" and ?xs = "bfs_order t"
  let ?cs = "?ch (?xs ! n)" and ?m = "length ?xs" and ?u = "process_node skip sh d n t"
  note e = entered_fields [where p = "word_of_nat n" and cs = ?cs and t = t]
  have order: "bfs_order ?u = ?xs @ ?cs" and ls: "level_starts ?u = level_starts t"
    by (simp_all add: process_node_entered Let_def e)
  have len: "?m = start_of ?ch ?xs n" using f by (metis filled_def start_of_def length_Cons plus_1_eq_Suc)
  have se: "start_entry ?ch (?xs @ ?cs) n = (if ?cs = [] then U32_MAX else word_of_nat ?m)"
  proof -
    have "start_of ?ch (?xs @ ?cs) n = ?m" using len n by (simp add: start_of_def)
    then show ?thesis using n by (simp only: start_entry_def nth_append if_True)
  qed
  have ce: "count_entry ?ch (?xs @ ?cs) n = word_of_nat (min (length ?cs) 0xFFFF)"
    using n by (simp add: count_entry_def nth_append)
  have map_eq: "map (start_entry ?ch (?xs @ ?cs)) [0..<n] = map (start_entry ?ch ?xs) [0..<n]"
    "map (count_entry ?ch (?xs @ ?cs)) [0..<n] = map (count_entry ?ch ?xs) [0..<n]"
    using n by (auto simp: entry_append)
  have room: "?m + length ?cs - Suc n = (?m - Suc n) + length ?cs" using n by simp
  have upd: "(map g [0..<n] @ replicate (?m - n) z @ ws)[n := v] = map g [0..<n] @ v # replicate (?m - Suc n) z @ ws"
    for g :: "nat \<Rightarrow> 'a" and z v ws
    using update_first [OF n, of "map g [0..<n]" z v] n by (simp add: list_update_append)
  have cs: "child_start ?u = map (start_entry ?ch (?xs @ ?cs)) [0..<Suc n] @ replicate (?m + length ?cs - Suc n) U32_MAX"
    using f by (simp add: process_node_entered Let_def e filled_def se map_eq room replicate_add upd)
  have cc: "child_count ?u = map (count_entry ?ch (?xs @ ?cs)) [0..<Suc n] @ replicate (?m + length ?cs - Suc n) 0"
    using f by (simp add: process_node_entered Let_def e filled_def ce map_eq room replicate_add upd)
  have pi: "parent_idx ?u = parent_entries ?ch (?xs @ ?cs) (Suc n)"
    using f by (simp add: process_node_entered Let_def e parent_entries_Suc [OF n] filled_def)
  have nm: "node_to_bfs_idx ?u = index_map (?xs @ ?cs)"
    using f e(6) by (simp add: process_node_entered Let_def filled_def)
  have bo: "?xs @ ?cs = root # concat (map ?ch (take (Suc n) (?xs @ ?cs)))"
    using f n by (simp only: take_snoc [OF n] map_append concat_append) (simp add: filled_def flip: append_Cons)
  have "filled root ?ch (Suc n) ?u"
    unfolding filled_def order length_append using n by (intro conjI bo pi cs cc nm) simp
  then show ?thesis using order ls by simp
qed

section \<open>One level\<close>

lemma process_range_filled:
  assumes "filled root (render_children skip sh d) n t" "n + k \<le> length (bfs_order t)"
  shows "filled root (render_children skip sh d) (n + k) (process_range skip sh d [n..<n + k] t)
    \<and> bfs_order (process_range skip sh d [n..<n + k] t)
        = bfs_order t @ concat (map (render_children skip sh d) (take k (drop n (bfs_order t))))
    \<and> level_starts (process_range skip sh d [n..<n + k] t) = level_starts t"
  using assms
proof (induction k arbitrary: n t)
  case (Suc k)
  let ?ch = "render_children skip sh d" and ?u = "process_node skip sh d n t"
  have n: "n < length (bfs_order t)" using Suc.prems by simp
  note u = process_node_filled [OF Suc.prems(1) n]
  have "Suc n + k \<le> length (bfs_order ?u)" using u Suc.prems by simp
  note ih = Suc.IH [OF conjunct1 [OF u] this]
  have "take k (drop (Suc n) (bfs_order ?u)) = take k (drop (Suc n) (bfs_order t))"
    using u Suc.prems by simp
  then have "?ch (bfs_order t ! n) @ concat (map ?ch (take k (drop (Suc n) (bfs_order ?u))))
      = concat (map ?ch (take (Suc k) (drop n (bfs_order t))))"
    by (simp add: Cons_nth_drop_Suc [OF n, symmetric])
  moreover have "[n..<n + Suc k] = n # [Suc n..<Suc n + k]" by (simp add: upt_conv_Cons)
  ultimately show ?case
    using ih u by (simp del: upt_Suc)
qed simp

definition level_offsets :: "(dom \<Rightarrow> node_id \<Rightarrow> bool) \<Rightarrow> bool \<Rightarrow> dom \<Rightarrow> node_id \<Rightarrow> nat \<Rightarrow> u32 list" where
  "level_offsets skip sh d root n = map (\<lambda>j. word_of_nat (length (levels_before skip sh d root j))) [0..<n]"

text \<open>The state of the loop before level \<open>k\<close>.\<close>

definition at_level :: "(dom \<Rightarrow> node_id \<Rightarrow> bool) \<Rightarrow> bool \<Rightarrow> dom \<Rightarrow> node_id \<Rightarrow> nat \<Rightarrow> layout_table \<Rightarrow> bool" where
  "at_level skip sh d root k t \<longleftrightarrow>
     bfs_order t = levels_before skip sh d root (Suc k)
   \<and> filled root (render_children skip sh d) (length (levels_before skip sh d root k)) t
   \<and> level_starts t = level_offsets skip sh d root (if render_level skip sh d root k = [] then k else Suc k)
   \<and> (\<forall>j < k. render_level skip sh d root j \<noteq> [])"

lemma level_step:
  assumes a: "at_level skip sh d root k t" and ne: "render_level skip sh d root k \<noteq> []"
    and u: "u = process_range skip sh d [length (levels_before skip sh d root k)..<length (bfs_order t)] t"
    and v: "v = (if length (bfs_order t) < length (bfs_order u)
                 then u\<lparr>level_starts := level_starts u @ [word_of_nat (length (bfs_order t))]\<rparr> else u)"
  shows "at_level skip sh d root (Suc k) v"
proof -
  let ?lv = "render_level skip sh d root" and ?n = "length (levels_before skip sh d root k)"
  have order: "bfs_order t = levels_before skip sh d root k @ ?lv k" using a by (simp add: at_level_def)
  have len: "length (bfs_order t) = ?n + length (?lv k)" by (simp add: order)
  have f: "filled root (render_children skip sh d) ?n t" using a by (simp add: at_level_def)
  have "?n + length (?lv k) \<le> length (bfs_order t)" by (simp only: len)
  note r = process_range_filled [OF f this]
  have u': "u = process_range skip sh d [?n..<?n + length (?lv k)] t" by (simp only: u len)
  have "take (length (?lv k)) (drop ?n (bfs_order t)) = ?lv k" by (simp add: order)
  then have bu: "bfs_order u = levels_before skip sh d root (Suc (Suc k))"
    using conjunct1 [OF conjunct2 [OF r]] order unfolding u' by simp
  have "length (levels_before skip sh d root (Suc k)) = ?n + length (?lv k)" by simp
  then have fu: "filled root (render_children skip sh d) (length (levels_before skip sh d root (Suc k))) u"
    using conjunct1 [OF r] unfolding u' by (simp only:)
  have lu: "level_starts u = level_offsets skip sh d root (Suc k)"
    using conjunct2 [OF conjunct2 [OF r]] a ne unfolding u' by (simp add: at_level_def)
  have bt: "bfs_order t = levels_before skip sh d root (Suc k)" by (simp add: order)
  have grew: "length (bfs_order t) < length (bfs_order u) \<longleftrightarrow> ?lv (Suc k) \<noteq> []" by (simp add: bu bt)
  have v': "bfs_order v = bfs_order u" "level_starts v = level_offsets skip sh d root (if ?lv (Suc k) = [] then Suc k else Suc (Suc k))"
    unfolding v grew by (simp_all add: lu level_offsets_def bt)
  have "filled root (render_children skip sh d) (length (levels_before skip sh d root (Suc k))) v"
    using fu unfolding v by (simp add: filled_def)
  moreover have "\<forall>j < Suc k. ?lv j \<noteq> []" using a ne by (auto simp: at_level_def less_Suc_eq)
  ultimately show ?thesis using v' bu by (simp only: at_level_def)
qed

lemma level_loop_end:
  assumes inv: "tree_inv d"
  shows "at_level skip sh d root k t \<Longrightarrow>
    \<exists>u m. level_loop skip sh d (length (levels_before skip sh d root k)) t = Some u
      \<and> at_level skip sh d root m u \<and> render_level skip sh d root m = []"
proof (induction "Suc (length (nodes d)) - k" arbitrary: k t rule: less_induct)
  case less
  let ?lv = "render_level skip sh d root" and ?n = "length (levels_before skip sh d root k)"
  have len: "length (bfs_order t) = ?n + length (?lv k)" using less.prems by (simp add: at_level_def)
  show ?case
  proof (cases "?lv k = []")
    case True
    then show ?thesis
      using less.prems len by (intro exI [of _ t] exI [of _ k]) (subst level_loop.simps, simp add: Let_def)
  next
    case False
    define u where "u = process_range skip sh d [?n..<length (bfs_order t)] t"
    define v where "v = (if length (bfs_order t) < length (bfs_order u)
      then u\<lparr>level_starts := level_starts u @ [word_of_nat (length (bfs_order t))]\<rparr> else u)"
    have "k < Suc (length (nodes d))"
    proof (rule ccontr)
      assume "\<not> k < Suc (length (nodes d))"
      obtain c where c: "c \<in> set (?lv k)" using False by (cases "?lv k") auto
      show False using level_card [OF inv c] below_card [OF inv, of root] \<open>\<not> k < _\<close> by simp
    qed
    then have "Suc (length (nodes d)) - Suc k < Suc (length (nodes d)) - k" by simp
    from less.hyps [OF this level_step [OF less.prems False u_def v_def]]
    obtain w m where w: "level_loop skip sh d (length (levels_before skip sh d root (Suc k))) v = Some w"
      "at_level skip sh d root m w" "?lv m = []" by blast
    have "level_loop skip sh d ?n t = level_loop skip sh d (length (bfs_order t)) v"
    proof -
      have ne: "\<not> length (bfs_order t) \<le> ?n" using False len by simp
      show ?thesis by (subst level_loop.simps) (simp only: Let_def ne if_False u_def v_def)
    qed
    then show ?thesis using w len by (intro exI [of _ w] exI [of _ m]) simp
  qed
qed

section \<open>The whole table\<close>

lemma concat_slice:
  assumes "i < length ys"
  shows "take (length (ys ! i)) (drop (length (concat (take i ys))) (concat ys)) = ys ! i"
proof -
  have "concat ys = concat (take i ys) @ ys ! i @ concat (drop (Suc i) ys)"
    using assms by (metis concat.simps(2) concat_append id_take_nth_drop)
  then show ?thesis by simp
qed

lemma concat_slice_nth:
  assumes "i < length ys" "j < length (ys ! i)"
  shows "concat ys ! (length (concat (take i ys)) + j) = ys ! i ! j"
proof -
  have "concat ys = concat (take i ys) @ ys ! i @ concat (drop (Suc i) ys)"
    using assms by (metis concat.simps(2) concat_append id_take_nth_drop)
  then show ?thesis using assms by (simp add: nth_append)
qed

lemma filled_children:
  assumes f: "filled root ch (length (bfs_order t)) t" and i: "i < length (bfs_order t)"
  shows "take (length (ch (bfs_order t ! i))) (drop (start_of ch (bfs_order t) i) (bfs_order t)) = ch (bfs_order t ! i)"
proof -
  let ?ys = "map ch (bfs_order t)"
  have "bfs_order t = root # concat ?ys" using f by (simp add: filled_def)
  then have "drop (start_of ch (bfs_order t) i) (bfs_order t) = drop (length (concat (take i ?ys))) (concat ?ys)"
    by (metis drop_Suc_Cons plus_1_eq_Suc start_of_def take_map)
  then show ?thesis using concat_slice [of i ?ys] i by simp
qed

lemma filled_parents:
  assumes f: "filled root ch (length (bfs_order t)) t" and i: "i < length (bfs_order t)" and j: "j < length (ch (bfs_order t ! i))"
  shows "parent_idx t ! (start_of ch (bfs_order t) i + j) = word_of_nat i"
proof -
  let ?F = "\<lambda>i. replicate (length (ch (bfs_order t ! i))) (word_of_nat i :: u32)" and ?n = "length (bfs_order t)"
  have "map (length \<circ> ?F) [0..<i] = map (length \<circ> ch) (take i (bfs_order t))"
    using i by (intro nth_equalityI) simp_all
  then have off: "length (concat (take i (map ?F [0..<?n]))) = length (concat (map ch (take i (bfs_order t))))"
    using i by (simp add: length_concat take_map o_def)
  have "parent_idx t = U32_MAX # concat (map ?F [0..<?n])" using f by (simp add: filled_def parent_entries_def)
  then have "parent_idx t ! (start_of ch (bfs_order t) i + j)
      = concat (map ?F [0..<?n]) ! (length (concat (take i (map ?F [0..<?n]))) + j)"
    by (simp add: start_of_def off)
  also have "\<dots> = map ?F [0..<?n] ! i ! j" by (rule concat_slice_nth) (use i j in simp_all)
  finally show ?thesis using i j by simp
qed

lemma index_map_nth:
  assumes "distinct xs" "i < length xs" shows "index_map xs (xs ! i) = Some (word_of_nat i)"
proof -
  let ?ps = "rev (zip xs (map word_of_nat [0..<length xs])) :: (node_id \<times> u32) list"
  have "map fst ?ps = rev xs" by (simp add: rev_map [symmetric])
  then have "distinct (map fst ?ps)" using assms(1) by simp
  moreover have "(xs ! i, word_of_nat i) \<in> set ?ps" using assms(2) by (auto simp: set_zip)
  ultimately show ?thesis unfolding index_map_def by (simp add: map_of_is_SomeI)
qed

lemma index_map_dom: "dom (index_map xs) = set xs"
proof -
  have "fst ` set (zip xs (map word_of_nat [0..<length xs])) = set xs"
    by (metis length_map length_upt map_fst_zip minus_nat.diff_0 set_map)
  then show ?thesis by (simp add: index_map_def dom_map_of_conv_image_fst)
qed

text \<open>What the table says of the render tree.\<close>

definition child_run :: "(node_id \<Rightarrow> node_id list) \<Rightarrow> layout_table \<Rightarrow> nat \<Rightarrow> bool" where
  "child_run ch t i \<longleftrightarrow>
     (let cs = ch (bfs_order t ! i); s = unat (child_start t ! i) in
        child_count t ! i = word_of_nat (min (length cs) 0xFFFF)
      \<and> (if cs = [] then child_start t ! i = U32_MAX
         else take (length cs) (drop s (bfs_order t)) = cs
            \<and> (\<forall>j < length cs. parent_idx t ! (s + j) = word_of_nat i)))"

definition lists_render_tree :: "(dom \<Rightarrow> node_id \<Rightarrow> bool) \<Rightarrow> bool \<Rightarrow> dom \<Rightarrow> node_id \<Rightarrow> layout_table \<Rightarrow> bool" where
  "lists_render_tree skip sh d root t \<longleftrightarrow>
     distinct (bfs_order t)
   \<and> (\<forall>k. level t k = (if render_level skip sh d root k = [] then None else Some (render_level skip sh d root k)))
   \<and> (\<forall>i < table_len t. child_run (render_children skip sh d) t i)
   \<and> (\<forall>i < table_len t. node_to_bfs_idx t (bfs_order t ! i) = Some (word_of_nat i))
   \<and> dom (node_to_bfs_idx t) = set (bfs_order t)"

lemma empty_level_up: "render_level skip sh d root m = [] \<Longrightarrow> m \<le> k \<Longrightarrow> render_level skip sh d root k = []"
  by (induction k) (auto simp: le_Suc_eq)

lemma levels_before_mono: "j \<le> k \<Longrightarrow> length (levels_before skip sh d root j) \<le> length (levels_before skip sh d root k)"
  by (induction k) (auto simp: le_Suc_eq)

lemma levels_before_take:
  "j \<le> k \<Longrightarrow> take (length (levels_before skip sh d root j)) (levels_before skip sh d root k) = levels_before skip sh d root j"
  by (induction k) (auto simp: le_Suc_eq levels_before_mono)

lemma word_small: "n < 2 ^ 32 \<Longrightarrow> unat (word_of_nat n :: u32) = n"
  by (simp add: unat_of_nat take_bit_nat_eq_self)

lemma level_slice:
  assumes a: "at_level skip sh d root m t" and e: "render_level skip sh d root m = []"
    and small: "length (bfs_order t) < 2 ^ 32"
  shows "level t k = (if render_level skip sh d root k = [] then None else Some (render_level skip sh d root k))"
proof (cases "k < m")
  case True
  let ?off = "\<lambda>j. length (levels_before skip sh d root j)"
  have order: "bfs_order t = levels_before skip sh d root m" using a e by (simp add: at_level_def)
  have off: "?off j < 2 ^ 32" if "j \<le> m" for j
    using levels_before_mono [OF that, of skip sh d root] small order by simp
  have starts: "level_starts t = map (\<lambda>j. word_of_nat (?off j)) [0..<m]" using a e by (simp add: at_level_def level_offsets_def)
  have st: "unat (level_starts t ! j) = ?off j" if "j < m" for j
    using that off [of j] word_small by (simp add: starts)
  have e: "(if k + 1 < length (level_starts t) then unat (level_starts t ! (k + 1)) else length (bfs_order t)) = ?off (Suc k)"
  proof (cases "k + 1 < m")
    case False
    then have "m = Suc k" using True by simp
    then show ?thesis using starts order by simp
  qed (use st [of "k + 1"] starts in simp)
  have "drop (?off k) (take (?off (Suc k)) (bfs_order t)) = render_level skip sh d root k"
    using levels_before_take [of "Suc k" m skip sh d root] True unfolding order by simp
  moreover have "?off k \<le> ?off (Suc k)" "?off (Suc k) \<le> length (bfs_order t)"
    using True levels_before_mono [of "Suc k" m skip sh d root] unfolding order by simp_all
  moreover have "render_level skip sh d root k \<noteq> []" using a True by (simp add: at_level_def)
  ultimately show ?thesis
    using True st [OF True] e starts unfolding level_def by (simp add: Let_def)
next
  case False
  have "level_starts t = map (\<lambda>j. word_of_nat (length (levels_before skip sh d root j))) [0..<m]"
    using a e by (simp add: at_level_def level_offsets_def)
  then show ?thesis using False empty_level_up [OF e, of k] by (simp add: level_def)
qed

lemma table_child_run:
  assumes f: "filled root ch (length (bfs_order t)) t" and i: "i < length (bfs_order t)"
    and small: "length (bfs_order t) < 2 ^ 32"
  shows "child_run ch t i"
proof -
  have cc: "child_count t ! i = count_entry ch (bfs_order t) i" and cs: "child_start t ! i = start_entry ch (bfs_order t) i"
    using f i by (simp_all add: filled_def)
  show ?thesis
  proof (cases "ch (bfs_order t ! i) = []")
    case True
    then show ?thesis by (simp add: child_run_def cc cs count_entry_def start_entry_def)
  next
    case False
    have "start_of ch (bfs_order t) i < length (bfs_order t)"
      using filled_children [OF f i] False by (metis drop_eq_Nil not_le take_Nil)
    then have "unat (child_start t ! i) = start_of ch (bfs_order t) i"
      using False small by (simp add: cs start_entry_def word_small)
    then show ?thesis
      using False filled_children [OF f i] filled_parents [OF f i] by (simp add: child_run_def cc count_entry_def)
  qed
qed

text \<open>C27: refilling the table of a well-formed arena with fewer than \<open>2 ^ 32\<close> nodes returns, whatever the table
  held, and the table lists the render tree: level by level with no node twice, the children of every
  node in one run at the index it holds (the count capped at 65535), each with the index of its parent,
  and every node at the index the map gives.\<close>

theorem table_exact:
  assumes inv: "tree_inv d" and root: "root < length (nodes d)" and small: "length (nodes d) < 2 ^ 32"
  shows "\<exists>t. rebuild_internal d root skip sh old = Some t \<and> lists_render_tree skip sh d root t"
proof -
  let ?ch = "render_children skip sh d"
  define t0 where "t0 = old\<lparr>bfs_order := [root], node_to_bfs_idx := [root \<mapsto> 0], parent_idx := [U32_MAX],
    child_start := [U32_MAX], child_count := [0], level_starts := [0]\<rparr>"
  have a0: "at_level skip sh d root 0 t0"
    by (simp add: at_level_def t0_def filled_def parent_entries_def index_map_def level_offsets_def)
  obtain t m where t: "level_loop skip sh d 0 t0 = Some t" "at_level skip sh d root m t" "render_level skip sh d root m = []"
    using level_loop_end [OF inv a0] by auto
  have order: "bfs_order t = levels_before skip sh d root m" using t by (simp add: at_level_def)
  have len: "length (bfs_order t) < 2 ^ 32"
    using levels_before_length [OF inv root, of skip sh m] small order by simp
  have dist: "distinct (bfs_order t)" unfolding order by (rule levels_before_distinct [OF inv])
  have f: "filled root ?ch (length (bfs_order t)) t" using t by (simp add: at_level_def)
  have "node_to_bfs_idx t = index_map (bfs_order t)" using f by (simp add: filled_def)
  then have "lists_render_tree skip sh d root t"
    using dist level_slice [OF t(2,3) len] table_child_run [OF f _ len] index_map_nth [OF dist]
    by (simp add: lists_render_tree_def table_len_def index_map_dom)
  moreover have "rebuild_internal d root skip sh old = Some t"
    using t(1) by (simp add: rebuild_internal_def Let_def t0_def)
  ultimately show ?thesis by blast
qed

theorem table_exact_witness:
  "\<exists>t. rebuild_internal example_dom 0 (\<lambda>d i. tag d i = ''p'') True table_empty = Some t
    \<and> lists_render_tree (\<lambda>d i. tag d i = ''p'') True example_dom 0 t"
  by (rule table_exact [OF example_tree_inv]) (simp_all add: example_value)

end
