(* ===== verification/Html_Sink.thy ===== *)
theory Html_Sink
  imports Dom_Results
begin

text \<open>
  The tree sink of the HTML parser (\<open>crates/silksurf-html/src/treesink.rs\<close>): the calls the tree
  builder makes, what each does to the arena and answers, a whole document and a fragment. The tree
  builder itself (html5ever) is not under the repository: it is an argument, a function that gives the
  next call from the answers to the calls so far.
\<close>

section \<open>The sink\<close>

record qual_name =
  qn_prefix :: "string option"
  qn_ns :: string
  qn_local :: string

record html5_attr =
  h5_name :: qual_name
  h5_value :: string

record sink =
  sink_dom :: dom
  sink_errors :: "string list"
  elem_names :: "node_id \<Rightarrow> qual_name option"

definition sink_new :: "u32 \<Rightarrow> sink" where
  "sink_new inst =
     \<lparr>sink_dom = snd (create_document (dom_new inst)), sink_errors = [], elem_names = Map.empty\<rparr>"

definition HTML_NS :: string where "HTML_NS = ''http://www.w3.org/1999/xhtml''"
definition SVG_NS :: string where "SVG_NS = ''http://www.w3.org/2000/svg''"
definition MATHML_NS :: string where "MATHML_NS = ''http://www.w3.org/1998/Math/MathML''"

definition html5ever_ns_to_silk :: "string \<Rightarrow> namespace" where
  "html5ever_ns_to_silk ns =
     (if ns = HTML_NS then NsHtml else if ns = SVG_NS then NsSvg else if ns = MATHML_NS then NsMathMl
      else NsOther ns)"

text \<open>An operation on the arena whose result is dropped, and the same with the result kept.\<close>

definition on_dom :: "'a dom_op \<Rightarrow> sink \<Rightarrow> sink" where
  "on_dom m s = s\<lparr>sink_dom := snd (m (sink_dom s))\<rparr>"

definition make_node :: "(dom \<Rightarrow> node_id \<times> dom) \<Rightarrow> sink \<Rightarrow> node_id \<times> sink" where
  "make_node g s = (let (i, d) = g (sink_dom s) in (i, s\<lparr>sink_dom := d\<rparr>))"

datatype node_or_text = AppendNode node_id | AppendText string

fun set_attributes :: "node_id \<Rightarrow> html5_attr list \<Rightarrow> sink \<Rightarrow> sink" where
  "set_attributes i [] s = s"
| "set_attributes i (a # as) s =
     set_attributes i as (on_dom (set_attribute i (qn_local (h5_name a)) (h5_value a)) s)"

definition sink_create_element :: "qual_name \<Rightarrow> html5_attr list \<Rightarrow> sink \<Rightarrow> node_id \<times> sink" where
  "sink_create_element q as s =
     (let (i, s) = make_node (create_element_ns_local (qn_local q) (qn_prefix q) (html5ever_ns_to_silk (qn_ns q))) s;
          s = set_attributes i as s
      in (i, s\<lparr>elem_names := (elem_names s)(i \<mapsto> q)\<rparr>))"

definition sink_create_pi :: "string \<Rightarrow> string \<Rightarrow> sink \<Rightarrow> node_id \<times> sink" where
  "sink_create_pi tgt content s = make_node (create_comment (''?'' @ tgt @ '' '' @ content)) s"

definition sink_append :: "node_id \<Rightarrow> node_or_text \<Rightarrow> sink \<Rightarrow> sink" where
  "sink_append p child s =
     (case child of
        AppendNode c \<Rightarrow> on_dom (append_child p c) s
      | AppendText t \<Rightarrow> on_dom (append_text p t) s)"

definition append_before_sibling :: "node_id \<Rightarrow> node_or_text \<Rightarrow> sink \<Rightarrow> sink" where
  "append_before_sibling sibling new_node s =
     (case parent (sink_dom s) sibling of
        Inr (Some p) \<Rightarrow>
          (case new_node of
             AppendNode c \<Rightarrow> on_dom (insert_before p c sibling) s
           | AppendText t \<Rightarrow>
               (let (text_id, s) = make_node (create_text t) s
                in on_dom (insert_before p text_id sibling) s))
      | _ \<Rightarrow> s)"

definition append_based_on_parent_node :: "node_id \<Rightarrow> node_id \<Rightarrow> node_or_text \<Rightarrow> sink \<Rightarrow> sink" where
  "append_based_on_parent_node element prev_element child s =
     (case parent (sink_dom s) element of
        Inr (Some _) \<Rightarrow> append_before_sibling element child s
      | _ \<Rightarrow> sink_append prev_element child s)"

definition non_empty :: "string \<Rightarrow> string option" where
  "non_empty x = (if x = [] then None else Some x)"

definition append_doctype_to_document :: "string \<Rightarrow> string \<Rightarrow> string \<Rightarrow> sink \<Rightarrow> sink" where
  "append_doctype_to_document name public_id system_id s =
     (let (dt, s) = make_node (create_doctype (Some name) (non_empty public_id) (non_empty system_id)) s
      in on_dom (append_child 0 dt) s)"

text \<open>The names already there are collected before the first attribute is set.\<close>

definition existing_names :: "dom \<Rightarrow> node_id \<Rightarrow> string list" where
  "existing_names d i = (case attributes d i of Inr as \<Rightarrow> map (\<lambda>a. attr_as_str (attr_name a)) as | Inl _ \<Rightarrow> [])"

definition add_attrs_if_missing :: "node_id \<Rightarrow> html5_attr list \<Rightarrow> sink \<Rightarrow> sink" where
  "add_attrs_if_missing tgt as s =
     (let existing = existing_names (sink_dom s) tgt
      in set_attributes tgt
           (filter (\<lambda>a. \<not> list_ex (\<lambda>n. eq_ignore_ascii_case n (qn_local (h5_name a))) existing) as) s)"

definition remove_from_parent :: "node_id \<Rightarrow> sink \<Rightarrow> sink" where
  "remove_from_parent tgt s =
     (case parent (sink_dom s) tgt of
        Inr (Some p) \<Rightarrow> on_dom (remove_child p tgt) s
      | _ \<Rightarrow> s)"

fun move_children :: "node_id \<Rightarrow> node_id \<Rightarrow> node_id list \<Rightarrow> sink \<Rightarrow> sink" where
  "move_children i new_parent [] s = s"
| "move_children i new_parent (c # cs) s =
     move_children i new_parent cs (on_dom (append_child new_parent c) (on_dom (remove_child i c) s))"

definition reparent_children :: "node_id \<Rightarrow> node_id \<Rightarrow> sink \<Rightarrow> sink" where
  "reparent_children i new_parent s =
     (case children (sink_dom s) i of
        Inr cs \<Rightarrow> move_children i new_parent cs s
      | Inl _ \<Rightarrow> s)"

definition sink_finish :: "sink \<Rightarrow> dom" where
  "sink_finish s = materialize_resolve_table (sink_dom s)"

section \<open>Calls and answers\<close>

datatype sink_call =
    GetDocument | ElemName node_id | SameNode node_id node_id | SetQuirksMode | ParseError string
  | CreateElement qual_name "html5_attr list" | CreateComment string | CreatePi string string
  | AppendTo node_id node_or_text | AppendBasedOnParent node_id node_id node_or_text
  | AppendBeforeSibling node_id node_or_text | AppendDoctype string string string
  | GetTemplateContents node_id | AddAttrsIfMissing node_id "html5_attr list"
  | RemoveFromParent node_id | ReparentChildren node_id node_id

datatype sink_answer = Handle node_id | Name string string | IsSame bool | NoAnswer

text \<open>\<open>None\<close> is the panic of an \<open>expect\<close>: a name or a template content the sink does not have.\<close>

definition sink_elem_name :: "node_id \<Rightarrow> sink \<Rightarrow> sink_answer option" where
  "sink_elem_name i s = map_option (\<lambda>q. Name (qn_ns q) (qn_local q)) (elem_names s i)"

definition sink_template_contents :: "node_id \<Rightarrow> sink \<Rightarrow> sink_answer option" where
  "sink_template_contents i s = map_option Handle (template_contents (sink_dom s) i)"

definition run_sink_call :: "sink_call \<Rightarrow> sink \<Rightarrow> sink_answer option \<times> sink" where
  "run_sink_call c s =
     (let unit_call = (\<lambda>t. (Some NoAnswer, t)); new_node = (\<lambda>(i, t). (Some (Handle i), t))
      in case c of
        GetDocument \<Rightarrow> (Some (Handle 0), s)
      | ElemName i \<Rightarrow> (sink_elem_name i s, s)
      | SameNode i j \<Rightarrow> (Some (IsSame (i = j)), s)
      | SetQuirksMode \<Rightarrow> unit_call s
      | ParseError msg \<Rightarrow> unit_call (s\<lparr>sink_errors := sink_errors s @ [msg]\<rparr>)
      | CreateElement q as \<Rightarrow> new_node (sink_create_element q as s)
      | CreateComment t \<Rightarrow> new_node (make_node (create_comment t) s)
      | CreatePi tgt content \<Rightarrow> new_node (sink_create_pi tgt content s)
      | AppendTo p child \<Rightarrow> unit_call (sink_append p child s)
      | AppendBasedOnParent element prev child \<Rightarrow> unit_call (append_based_on_parent_node element prev child s)
      | AppendBeforeSibling sibling child \<Rightarrow> unit_call (append_before_sibling sibling child s)
      | AppendDoctype name public_id system_id \<Rightarrow> unit_call (append_doctype_to_document name public_id system_id s)
      | GetTemplateContents i \<Rightarrow> (sink_template_contents i s, s)
      | AddAttrsIfMissing i as \<Rightarrow> unit_call (add_attrs_if_missing i as s)
      | RemoveFromParent i \<Rightarrow> unit_call (remove_from_parent i s)
      | ReparentChildren i p \<Rightarrow> unit_call (reparent_children i p s))"

text \<open>The run of a tree builder: \<open>None\<close> is a run without end, \<open>Inl\<close> a panic of the sink.\<close>

type_synonym tree_builder = "sink_answer list \<Rightarrow> sink_call option"

datatype sink_panic = SinkPanic

partial_function (option) drive :: "tree_builder \<Rightarrow> sink_answer list \<Rightarrow> sink \<Rightarrow> (sink_panic + sink) option" where
  "drive builder answers s =
     (case builder answers of
        None \<Rightarrow> Some (Inr s)
      | Some c \<Rightarrow>
          (case run_sink_call c s of
             (None, _) \<Rightarrow> Some (Inl SinkPanic)
           | (Some a, t) \<Rightarrow> drive builder (answers @ [a]) t))"

definition finished :: "(sink_panic + sink) option \<Rightarrow> (sink_panic + dom) option" where
  "finished r = map_option (map_sum id sink_finish) r"

text \<open>\<open>parse_html_with_scripting\<close>: the tree builder of a document from the scripting flag and the text.\<close>

definition parse_html_with_scripting ::
    "(bool \<Rightarrow> string \<Rightarrow> tree_builder) \<Rightarrow> u32 \<Rightarrow> string \<Rightarrow> bool \<Rightarrow> (sink_panic + dom) option" where
  "parse_html_with_scripting html5ever inst input scripting_enabled =
     finished (drive (html5ever scripting_enabled input) [] (sink_new inst))"

definition parse_html :: "(bool \<Rightarrow> string \<Rightarrow> tree_builder) \<Rightarrow> u32 \<Rightarrow> string \<Rightarrow> (sink_panic + dom) option" where
  "parse_html html5ever inst input = parse_html_with_scripting html5ever inst input True"

section \<open>Fragments\<close>

fun silk_ns_to_html5ever :: "namespace \<Rightarrow> string" where
  "silk_ns_to_html5ever NsHtml = HTML_NS"
| "silk_ns_to_html5ever NsSvg = SVG_NS"
| "silk_ns_to_html5ever NsMathMl = MATHML_NS"
| "silk_ns_to_html5ever (NsOther uri) = uri"

definition context_local_name :: "namespace \<Rightarrow> string \<Rightarrow> string" where
  "context_local_name ns context_tag = (if ns = NsHtml then to_ascii_lowercase context_tag else context_tag)"

text \<open>Importing the children of the synthetic root; a child whose import fails is left out.\<close>

fun import_children :: "dom \<Rightarrow> node_id \<Rightarrow> bool \<Rightarrow> node_id list \<Rightarrow> dom \<Rightarrow> dom" where
  "import_children scratch p in_select [] d = d"
| "import_children scratch p in_select (c # cs) d =
     import_children scratch p in_select cs
       (if in_select \<and> element_name scratch c = Inr (Some ''input'') then d
        else snd (import_subtree (length (nodes scratch) + 1) scratch c p d))"

definition splice_fragment_output :: "dom \<Rightarrow> node_id \<Rightarrow> bool \<Rightarrow> dom \<Rightarrow> dom" where
  "splice_fragment_output scratch p in_select d =
     (case children scratch 0 of
        Inr (container # _) \<Rightarrow>
          (case children scratch container of
             Inr cs \<Rightarrow> import_children scratch p in_select cs d
           | Inl _ \<Rightarrow> d)
      | _ \<Rightarrow> d)"

definition parse_fragment_into_in_context ::
    "(qual_name \<Rightarrow> bool \<Rightarrow> string \<Rightarrow> tree_builder) \<Rightarrow> u32 \<Rightarrow> node_id \<Rightarrow> string \<Rightarrow> namespace \<Rightarrow> string \<Rightarrow> bool
      \<Rightarrow> dom \<Rightarrow> (sink_panic + dom) option" where
  "parse_fragment_into_in_context html5ever inst p context_tag context_namespace html scripting_enabled d =
     (let context_name = \<lparr>qn_prefix = None, qn_ns = silk_ns_to_html5ever context_namespace,
                          qn_local = context_local_name context_namespace context_tag\<rparr>;
          in_select = (context_namespace = NsHtml \<and> eq_ignore_ascii_case context_tag ''select'')
      in map_option (map_sum id (\<lambda>scratch. splice_fragment_output scratch p in_select d))
           (finished (drive (html5ever context_name scripting_enabled html) [] (sink_new inst))))"

definition parse_fragment_into_with_scripting ::
    "(qual_name \<Rightarrow> bool \<Rightarrow> string \<Rightarrow> tree_builder) \<Rightarrow> u32 \<Rightarrow> node_id \<Rightarrow> string \<Rightarrow> string \<Rightarrow> bool \<Rightarrow> dom
      \<Rightarrow> (sink_panic + dom) option" where
  "parse_fragment_into_with_scripting html5ever inst p context_tag html scripting_enabled d =
     parse_fragment_into_in_context html5ever inst p context_tag NsHtml html scripting_enabled d"

definition parse_fragment_into ::
    "(qual_name \<Rightarrow> bool \<Rightarrow> string \<Rightarrow> tree_builder) \<Rightarrow> u32 \<Rightarrow> node_id \<Rightarrow> string \<Rightarrow> string \<Rightarrow> dom
      \<Rightarrow> (sink_panic + dom) option" where
  "parse_fragment_into html5ever inst p context_tag html d =
     parse_fragment_into_with_scripting html5ever inst p context_tag html False d"

section \<open>The arena of the sink is reachable\<close>

text \<open>Several steps of the arena: a call of the sink makes some calls of the arena's operations.\<close>

definition dom_steps :: "dom \<Rightarrow> dom \<Rightarrow> bool" where
  "dom_steps = dom_step\<^sup>*\<^sup>*"

lemma dom_steps_refl [simp]: "dom_steps d d"
  by (simp add: dom_steps_def)

lemma dom_steps_more: "dom_steps d e \<Longrightarrow> dom_step e f \<Longrightarrow> dom_steps d f"
  by (simp add: dom_steps_def)

lemma dom_steps_trans: "dom_steps d e \<Longrightarrow> dom_steps e f \<Longrightarrow> dom_steps d f"
  by (simp add: dom_steps_def)

lemma dom_steps_reachable: "dom_steps d e \<Longrightarrow> dom_reachable inst d \<Longrightarrow> dom_reachable inst e"
  unfolding dom_steps_def by (induction rule: rtranclp_induct) (auto intro: reach_step)

named_theorems stepping

lemma stepping_one: "dom_step d e \<Longrightarrow> dom_steps d e"
  using dom_steps_more [OF dom_steps_refl] .

lemma stepping_set_attributes [stepping]: "dom_steps d (sink_dom s) \<Longrightarrow> dom_steps d (sink_dom (set_attributes i as s))"
proof (induction as arbitrary: s)
  case (Cons a as)
  have "dom_steps d (sink_dom (on_dom (set_attribute i (qn_local (h5_name a)) (h5_value a)) s))"
    using Cons.prems by (auto simp: on_dom_def intro: dom_steps_more dom_step.intros(16))
  then show ?case using Cons.IH by simp
qed simp

lemma stepping_create_element [stepping]:
  "dom_steps (sink_dom s) (sink_dom (snd (sink_create_element q as s)))"
proof -
  obtain i t where t: "make_node (create_element_ns_local (qn_local q) (qn_prefix q) (html5ever_ns_to_silk (qn_ns q))) s = (i, t)"
    by fastforce
  then have "sink_dom t = snd (create_element_ns_local (qn_local q) (qn_prefix q) (html5ever_ns_to_silk (qn_ns q)) (sink_dom s))"
    by (auto simp: make_node_def split: prod.splits)
  then have "dom_steps (sink_dom s) (sink_dom t)" by (simp add: stepping_one dom_step.intros(4))
  then show ?thesis by (simp add: sink_create_element_def t Let_def stepping_set_attributes)
qed

lemma make_node_dom: "sink_dom (snd (make_node g s)) = snd (g (sink_dom s))"
  by (simp add: make_node_def split: prod.split)

lemma on_dom_dom [simp]: "sink_dom (on_dom m s) = snd (m (sink_dom s))"
  by (simp add: on_dom_def)

lemma stepping_append [stepping]: "dom_steps d (sink_dom s) \<Longrightarrow> dom_steps d (sink_dom (sink_append p child s))"
  by (auto simp: sink_append_def split: node_or_text.split intro: dom_steps_more dom_step.intros(11,14))

lemma stepping_insert_before: "dom_steps d e \<Longrightarrow> dom_steps d (snd (insert_before p c r e))"
  by (erule dom_steps_more) (rule dom_step.intros(12))

lemma stepping_before_sibling [stepping]:
  "dom_steps d (sink_dom s) \<Longrightarrow> dom_steps d (sink_dom (append_before_sibling i child s))"
proof (cases child)
  case (AppendText t)
  assume st: "dom_steps d (sink_dom s)"
  have "dom_steps d (sink_dom (snd (make_node (create_text t) s)))"
    using st by (auto simp: make_node_dom intro: dom_steps_more dom_step.intros(6))
  then show ?thesis
    using st AppendText
    by (auto simp: append_before_sibling_def case_prod_beta Let_def split: sum.split option.split
        intro: stepping_insert_before)
qed (auto simp: append_before_sibling_def split: sum.split option.split intro: stepping_insert_before)

lemma stepping_doctype [stepping]:
  "dom_steps (sink_dom s) (sink_dom (append_doctype_to_document n p i s))"
proof -
  have "dom_steps (sink_dom s) (sink_dom (snd (make_node (create_doctype (Some n) (non_empty p) (non_empty i)) s)))"
    by (auto simp: make_node_dom intro: stepping_one dom_step.intros(8))
  then show ?thesis
    by (auto simp: append_doctype_to_document_def case_prod_beta Let_def intro: dom_steps_more dom_step.intros(11))
qed

lemma stepping_move [stepping]:
  "dom_steps d (sink_dom s) \<Longrightarrow> dom_steps d (sink_dom (move_children i p cs s))"
proof (induction cs arbitrary: s)
  case (Cons c cs)
  have "dom_steps d (snd (remove_child i c (sink_dom s)))"
    using Cons.prems by (rule dom_steps_more) (rule dom_step.intros(13))
  then have "dom_steps d (snd (append_child p c (snd (remove_child i c (sink_dom s)))))"
    by (rule dom_steps_more) (rule dom_step.intros(11))
  then show ?case using Cons.IH by simp
qed simp

lemma stepping_remove [stepping]: "dom_steps (sink_dom s) (sink_dom (remove_from_parent i s))"
  by (auto simp: remove_from_parent_def split: sum.split option.split intro: stepping_one dom_step.intros(13))

lemma sink_call_steps: "dom_steps (sink_dom s) (sink_dom (snd (run_sink_call c s)))"
proof (cases c)
  case (CreateComment t)
  then show ?thesis by (auto simp: run_sink_call_def case_prod_beta make_node_dom intro: stepping_one dom_step.intros(7))
next
  case (CreatePi x y)
  then show ?thesis
    by (auto simp: run_sink_call_def sink_create_pi_def case_prod_beta make_node_dom intro: stepping_one dom_step.intros(7))
next
  case (CreateElement q as)
  then show ?thesis by (simp add: run_sink_call_def case_prod_beta stepping)
next
  case (AppendBasedOnParent e p t)
  then show ?thesis
    by (simp add: run_sink_call_def append_based_on_parent_node_def stepping split: sum.split option.split)
next
  case (ReparentChildren i p)
  then show ?thesis by (simp add: run_sink_call_def reparent_children_def stepping split: sum.split)
qed (simp_all add: run_sink_call_def stepping add_attrs_if_missing_def Let_def)

lemma sink_new_reachable: "dom_reachable inst (sink_dom (sink_new inst))"
  unfolding sink_new_def by (simp add: reach_step [OF reach_new dom_step.intros(1)])

text \<open>
  What the sink gives the tree builder: handles keep their names and template contents, so a tree
  builder that only asks for what it was given never makes the sink panic, and whatever it does the
  document is a reachable arena. Splicing a parsed fragment always returns and keeps the tree.
\<close>

section \<open>Template contents are never taken away\<close>

definition steady :: "'a dom_op \<Rightarrow> bool" where
  "steady m \<longleftrightarrow> (\<forall>d. template_contents (snd (m d)) = template_contents d)"

named_theorems steady

lemma steadyD: "steady m \<Longrightarrow> template_contents (snd (m d)) = template_contents d"
  by (simp add: steady_def)

lemma steady_bind [steady]: "steady m \<Longrightarrow> (\<And>a. steady (f a)) \<Longrightarrow> steady (sm_bind m f)"
  unfolding steady_def sm_bind_def by (simp split: prod.split sum.split) (metis snd_conv)

lemma steady_then [steady]: "steady m \<Longrightarrow> steady k \<Longrightarrow> steady (sm_then m k)"
  unfolding sm_then_def by (rule steady_bind)

lemma steady_basic [steady]:
  "steady (sm_return a)" "steady (sm_fail e)" "steady (sm_read f)"
  "(\<And>d. template_contents (g d) = template_contents d) \<Longrightarrow> steady (sm_do g)"
  "(\<And>d. template_contents (snd (h d)) = template_contents d) \<Longrightarrow> steady (sm_lift h)"
  by (simp_all add: steady_def sm_return_def sm_fail_def sm_read_def sm_do_def sm_lift_def case_prod_beta)

lemma steady_splice_loop [simp]: "template_contents (splice_loop p pos cs d) = template_contents d"
  by (induction p pos cs d rule: splice_loop.induct) simp_all

lemma steady_splice [steady]: "steady (splice_fragment p f r)"
  unfolding splice_fragment_def by (auto intro!: steady simp: Let_def)

lemma steady_append_child [steady]: "steady (append_child p c)"
  unfolding append_child_def
  by (auto intro!: steady) (simp_all add: steady_def Let_def)

lemma steady_remove_child [steady]: "steady (remove_child p c)"
  unfolding remove_child_def by (auto intro!: steady simp: Let_def)

lemma steady_leave:
  "steady (\<lambda>d. case node_parent (nodes d ! i) of Some q \<Rightarrow> remove_child q c d | None \<Rightarrow> (Inr (), d))"
  using steady_remove_child by (auto simp: steady_def split: option.split)

lemma steady_insert_before [steady]: "steady (insert_before p c r)"
  unfolding insert_before_def by (auto intro!: steady steady_leave simp: Let_def)

lemma steady_append_text [steady]: "steady (append_text p t)"
proof -
  have old: "steady (\<lambda>d. let d = set_kind l (Text (x @ t)) d; d = mark_dirty l (mark_dirty p (record_text_change d))
      in (Inr l, queue_mutation l (CharacterDataRecord x) d))" for l x
    by (simp add: steady_def Let_def)
  have new: "steady (\<lambda>d. (Inr i, mark_dirty i (mark_dirty p d)))" for i
    by (simp add: steady_def)
  show ?thesis
    unfolding append_text_def
    by (auto intro!: steady old [unfolded Let_def] new simp: create_text_def split: option.split)
qed

lemma put_checked_contents [simp]: "template_contents (put_checked i b c d) = template_contents d"
  by (simp add: put_checked_def)

lemma clear_group_contents [simp]: "template_contents (snd (clear_group i ss b d)) = template_contents d"
  by (induction i ss b d rule: clear_group.induct) simp_all

lemma steady_set_input_checked [steady]: "steady (set_input_checked i b)"
proof -
  have "template_contents (snd (set_input_checked i b d)) = template_contents d" for d
  proof -
    have "template_contents (snd (clear_group i ss c (put_checked i b True d))) = template_contents d" for ss c
      by simp
    then show ?thesis
      by (simp add: set_input_checked_def Let_def case_prod_beta split: option.split)
  qed
  then show ?thesis by (simp add: steady_def)
qed

lemma steady_checked_attribute_changed [steady]: "steady (checked_attribute_changed i b)"
proof -
  have "template_contents (snd (checked_attribute_changed i b d)) = template_contents d" for d
  proof -
    obtain r e where e: "set_input_checked i b d = (r, e)" by fastforce
    have "template_contents e = template_contents d" using steadyD [OF steady_set_input_checked, of i b d] e by simp
    then show ?thesis
      by (simp add: checked_attribute_changed_def e split: sum.split dom_fault.split option.split)
  qed
  then show ?thesis by (simp add: steady_def)
qed

lemma map_intern_contents [simp]: "template_contents (snd (map_st dom_intern vs d)) = template_contents d"
  by (induction vs arbitrary: d) (simp_all add: case_prod_beta)

lemma attribute_atoms_contents [simp]: "template_contents (snd (attribute_atoms a v d)) = template_contents d"
  by (simp add: attribute_atoms_def Let_def case_prod_beta)

lemma steady_set_attribute [steady]: "steady (set_attribute i n v)"
proof -
  have "template_contents (snd (set_attribute i n v d)) = template_contents d" for d
  proof -
    obtain r e where e: "attribute_atoms (attr_from_str_in n (element_namespace d i)) v d = (r, e)" by fastforce
    have te: "template_contents e = template_contents d"
      using attribute_atoms_contents [of "attr_from_str_in n (element_namespace d i)" v d] e by simp
    have "steady (sm_then (if b then checked_attribute_changed i True else sm_return ())
        (sm_do (queue_mutation i k)))" for b k
      by (auto intro!: steady)
    note tail = steadyD [OF this]
    have "template_contents (snd (sm_then (if b then checked_attribute_changed i True else sm_return ())
        (sm_do (queue_mutation i k)) (mark_dirty i (record_style_change (set_kind j kd e))))) = template_contents d" for b k j kd
      by (simp only: tail) (simp add: te)
    note tail = this
    show ?thesis
      unfolding set_attribute_def e Let_def
      by (cases r) (auto simp only: tail te prod.case snd_conv split: sum.split node_kind.split)
  qed
  then show ?thesis by (simp add: steady_def)
qed

section \<open>What the sink has given\<close>

definition grows :: "sink \<Rightarrow> sink \<Rightarrow> bool" where
  "grows s t \<longleftrightarrow> dom (elem_names s) \<subseteq> dom (elem_names t)
     \<and> dom (template_contents (sink_dom s)) \<subseteq> dom (template_contents (sink_dom t))"

definition quiet :: "sink \<Rightarrow> sink \<Rightarrow> bool" where
  "quiet s t \<longleftrightarrow> elem_names t = elem_names s \<and> template_contents (sink_dom t) = template_contents (sink_dom s)"

lemma quiet_refl [simp]: "quiet s s"
  by (simp add: quiet_def)

lemma quiet_trans: "quiet s t \<Longrightarrow> quiet t u \<Longrightarrow> quiet s u"
  by (simp add: quiet_def)

lemma quiet_grows: "quiet s t \<Longrightarrow> grows s t"
  by (simp add: quiet_def grows_def)

lemma quiet_on_dom [simp]: "steady m \<Longrightarrow> quiet s (on_dom m t) = quiet s t"
  by (simp add: quiet_def on_dom_def steadyD)

lemma quiet_set_attributes [simp]: "quiet s (set_attributes i as t) = quiet s t"
  by (induction as arbitrary: t) (simp_all add: steady)

lemma quiet_move [simp]: "quiet s (move_children i p cs t) = quiet s t"
  by (induction cs arbitrary: t) (simp_all add: steady)

lemma quiet_make_node: "(\<And>d. template_contents (snd (g d)) = template_contents d) \<Longrightarrow> quiet s (snd (make_node g s))"
  by (simp add: quiet_def make_node_def case_prod_beta)

lemma quiet_create: "quiet s (snd (make_node (create_text t) s))"
  "quiet s (snd (make_node (create_comment t) s))" "quiet s (snd (make_node (create_doctype n p i) s))"
  by (rule quiet_make_node, simp add: create_text_def create_comment_def create_doctype_def)+

lemma quiet_append [simp]: "quiet s (sink_append p c s)"
  by (simp add: sink_append_def steady split: node_or_text.split)

lemma quiet_before [simp]: "quiet s (append_before_sibling i c s)"
  by (simp add: append_before_sibling_def steady case_prod_beta Let_def quiet_create
      split: node_or_text.split sum.split option.split)

lemma template_tag: "tag_as_str (local_tag_name ''template'' NsHtml) = ''template''"
  by code_simp

lemma template_has_contents:
  "fst (create_element_ns_local ''template'' p NsHtml d)
     \<in> dom (template_contents (snd (create_element_ns_local ''template'' p NsHtml d)))"
  by (simp add: create_element_ns_local_def template_tag case_prod_beta Let_def push_node_def)

lemma create_element_contents:
  "grows s (snd (sink_create_element q as s))"
  "elem_names (snd (sink_create_element q as s)) = (elem_names s)(fst (sink_create_element q as s) \<mapsto> q)"
  "qn_ns q = HTML_NS \<Longrightarrow> qn_local q = ''template'' \<Longrightarrow>
    fst (sink_create_element q as s) \<in> dom (template_contents (sink_dom (snd (sink_create_element q as s))))"
proof -
  let ?mk = "create_element_ns_local (qn_local q) (qn_prefix q) (html5ever_ns_to_silk (qn_ns q))"
  obtain i t where t: "make_node ?mk s = (i, t)" by fastforce
  have q: "quiet t (set_attributes i as t)" by simp
  have dm: "fst (?mk (sink_dom s)) = i" "sink_dom t = snd (?mk (sink_dom s))" "elem_names t = elem_names s"
    using t by (auto simp: make_node_def split: prod.splits)
  have grow: "dom (template_contents (sink_dom s)) \<subseteq> dom (template_contents (sink_dom t))"
    unfolding dm create_element_ns_local_def
    by (auto simp: case_prod_beta Let_def create_document_fragment_def)
  show "grows s (snd (sink_create_element q as s))"
    using q grow dm by (auto simp: sink_create_element_def t quiet_def grows_def)
  show "elem_names (snd (sink_create_element q as s)) = (elem_names s)(fst (sink_create_element q as s) \<mapsto> q)"
    using q dm by (simp add: sink_create_element_def t quiet_def Let_def)
  assume "qn_ns q = HTML_NS" "qn_local q = ''template''"
  then have "i \<in> dom (template_contents (sink_dom t))"
    using template_has_contents [of "qn_prefix q" "sink_dom s"] dm(1,2) by (simp add: html5ever_ns_to_silk_def)
  then show "fst (sink_create_element q as s) \<in> dom (template_contents (sink_dom (snd (sink_create_element q as s))))"
    using q by (simp add: sink_create_element_def t quiet_def Let_def)
qed

lemma sink_call_grows: "grows s (snd (run_sink_call c s))"
proof (cases c)
  case (CreateElement q as)
  then show ?thesis by (simp add: run_sink_call_def case_prod_beta create_element_contents)
next
  case (AppendDoctype n p i)
  then show ?thesis
    by (simp add: run_sink_call_def append_doctype_to_document_def case_prod_beta Let_def steady quiet_create quiet_grows)
next
  case (ReparentChildren i p)
  then show ?thesis by (simp add: run_sink_call_def reparent_children_def quiet_grows split: sum.split)
next
  case (RemoveFromParent i)
  then show ?thesis
    by (simp add: run_sink_call_def remove_from_parent_def steady quiet_grows split: sum.split option.split)
next
  case (AppendBasedOnParent e p c)
  then show ?thesis
    by (simp add: run_sink_call_def append_based_on_parent_node_def quiet_grows split: sum.split option.split)
qed (simp_all add: run_sink_call_def case_prod_beta sink_create_pi_def add_attrs_if_missing_def Let_def
    quiet_create quiet_grows, simp add: quiet_def grows_def)

section \<open>Whole runs\<close>

text \<open>
  What the sink relies on: the tree builder asks for the name of an element only when a call of its own
  made that element, and for template contents only of an HTML template it made.
\<close>

definition made_by :: "tree_builder \<Rightarrow> sink_answer list \<Rightarrow> (qual_name \<Rightarrow> bool) \<Rightarrow> node_id \<Rightarrow> bool" where
  "made_by b as Q i \<longleftrightarrow>
     (\<exists>k < length as. as ! k = Handle i \<and> (\<exists>q ats. b (take k as) = Some (CreateElement q ats) \<and> Q q))"

definition html_template :: "qual_name \<Rightarrow> bool" where
  "html_template q \<longleftrightarrow> qn_ns q = HTML_NS \<and> qn_local q = ''template''"

definition courteous :: "tree_builder \<Rightarrow> bool" where
  "courteous b \<longleftrightarrow> (\<forall>as i.
     (b as = Some (ElemName i) \<longrightarrow> made_by b as (\<lambda>_. True) i)
   \<and> (b as = Some (GetTemplateContents i) \<longrightarrow> made_by b as html_template i))"

definition stops_by :: "nat \<Rightarrow> tree_builder \<Rightarrow> bool" where
  "stops_by n b \<longleftrightarrow> (\<forall>as. n \<le> length as \<longrightarrow> b as = None)"

definition given_ok :: "tree_builder \<Rightarrow> sink_answer list \<Rightarrow> sink \<Rightarrow> bool" where
  "given_ok b as s \<longleftrightarrow> (\<forall>i.
     (made_by b as (\<lambda>_. True) i \<longrightarrow> i \<in> dom (elem_names s))
   \<and> (made_by b as html_template i \<longrightarrow> i \<in> dom (template_contents (sink_dom s))))"

lemma made_by_Nil [simp]: "\<not> made_by b [] Q i"
  by (simp add: made_by_def)

lemma made_by_snoc:
  "made_by b (as @ [a]) Q i \<longleftrightarrow>
     made_by b as Q i \<or> a = Handle i \<and> (\<exists>q ats. b as = Some (CreateElement q ats) \<and> Q q)"
  unfolding made_by_def length_append_singleton Ex_less_Suc
  by (simp add: nth_append cong: conj_cong) blast

lemma sink_call_given:
  assumes ok: "given_ok b as s" and b: "b as = Some c" and r: "run_sink_call c s = (Some a, t)"
  shows "given_ok b (as @ [a]) t"
proof -
  have g: "grows s t" using sink_call_grows [of s c] r by simp
  have new: "i \<in> dom (elem_names t) \<and> (html_template q \<longrightarrow> i \<in> dom (template_contents (sink_dom t)))"
    if "a = Handle i" "c = CreateElement q ats" for i q ats
  proof -
    have "sink_create_element q ats s = (i, t)" using r that by (auto simp: run_sink_call_def split: prod.splits)
    then show ?thesis
      using create_element_contents(2,3) [of q ats s] by (auto simp: html_template_def)
  qed
  have old: "made_by b as (\<lambda>_. True) i \<Longrightarrow> i \<in> dom (elem_names t)"
    "made_by b as html_template i \<Longrightarrow> i \<in> dom (template_contents (sink_dom t))" for i
    using ok g unfolding given_ok_def grows_def by blast+
  show ?thesis
    unfolding given_ok_def
  proof (intro allI conjI impI)
    fix i assume "made_by b (as @ [a]) (\<lambda>_. True) i"
    then show "i \<in> dom (elem_names t)"
      unfolding made_by_snoc using old(1) new b by force
  next
    fix i assume "made_by b (as @ [a]) html_template i"
    then show "i \<in> dom (template_contents (sink_dom t))"
      unfolding made_by_snoc using old(2) new b by force
  qed
qed

lemma sink_call_answers:
  assumes "courteous b" "given_ok b as s" "b as = Some c"
  obtains a t where "run_sink_call c s = (Some a, t)"
proof -
  have "fst (run_sink_call c s) \<noteq> None"
  proof (cases c)
    case (ElemName i)
    then have "made_by b as (\<lambda>_. True) i" using assms(1,3) by (simp add: courteous_def)
    then have "i \<in> dom (elem_names s)" using assms(2) by (simp add: given_ok_def)
    then show ?thesis using ElemName by (auto simp: run_sink_call_def sink_elem_name_def)
  next
    case (GetTemplateContents i)
    then have "made_by b as html_template i" using assms(1,3) by (simp add: courteous_def)
    then have "i \<in> dom (template_contents (sink_dom s))" using assms(2) by (simp add: given_ok_def)
    then show ?thesis using GetTemplateContents by (auto simp: run_sink_call_def sink_template_contents_def)
  qed (simp_all add: run_sink_call_def case_prod_beta)
  then show ?thesis using that by (cases "run_sink_call c s") auto
qed

lemma drive_returns:
  assumes "courteous b" "stops_by n b"
  shows "given_ok b as s \<Longrightarrow> \<exists>t. drive b as s = Some (Inr t) \<and> dom_steps (sink_dom s) (sink_dom t)"
proof (induction "n - length as" arbitrary: as s rule: less_induct)
  case less
  show ?case
  proof (cases "b as")
    case None
    then show ?thesis by (subst drive.simps) auto
  next
    case (Some c)
    obtain a t where r: "run_sink_call c s = (Some a, t)"
      using sink_call_answers [OF assms(1) less.prems Some] by blast
    have "length as < n" using assms(2) Some by (auto simp: stops_by_def not_less [symmetric])
    then have "n - length (as @ [a]) < n - length as" by simp
    from less.hyps [OF this sink_call_given [OF less.prems Some r]]
    obtain u where "drive b (as @ [a]) t = Some (Inr u)" "dom_steps (sink_dom t) (sink_dom u)" by blast
    moreover have "dom_steps (sink_dom s) (sink_dom t)" using sink_call_steps [of s c] r by simp
    ultimately show ?thesis
      using Some r by (subst drive.simps) (auto intro: dom_steps_trans)
  qed
qed

lemma run_returns:
  assumes "courteous b" "stops_by n b"
  shows "\<exists>d. finished (drive b [] (sink_new inst)) = Some (Inr d) \<and> dom_reachable inst d"
proof -
  have "given_ok b [] (sink_new inst)" by (simp add: given_ok_def)
  from drive_returns [OF assms this] obtain t
    where t: "drive b [] (sink_new inst) = Some (Inr t)" "dom_steps (sink_dom (sink_new inst)) (sink_dom t)" by blast
  have "dom_reachable inst (sink_dom t)" by (rule dom_steps_reachable [OF t(2) sink_new_reachable])
  then have "dom_reachable inst (sink_finish t)"
    unfolding sink_finish_def by (rule reach_step) (rule dom_step.intros(23))
  then show ?thesis by (simp add: finished_def t)
qed

section \<open>Fragments\<close>

lemma import_children_steps: "dom_steps e d \<Longrightarrow> dom_steps e (import_children scratch p sel cs d)"
proof (induction cs arbitrary: d)
  case (Cons c cs)
  have "dom_steps e (snd (import_subtree (length (nodes scratch) + 1) scratch c p d))"
    using Cons.prems by (rule dom_steps_more) (rule dom_step.intros(20))
  then show ?case using Cons by simp
qed simp

lemma splice_steps: "dom_steps d (splice_fragment_output scratch p sel d)"
  by (auto simp: splice_fragment_output_def import_children_steps split: sum.split list.split)

text \<open>The bound of the import is never reached: the scratch document is well formed.\<close>

lemma fragment_import_returns:
  assumes "dom_reachable inst scratch" "tree_inv d"
  shows "fst (import_subtree (length (nodes scratch) + 1) scratch c p d) \<noteq> Inl Diverges"
proof -
  have inv: "tree_inv scratch" using assms(1) by (rule dom_reachable_inv)
  have "safe_op (import_subtree (length (nodes scratch) + 1) scratch c p)"
    by (rule safe_import_subtree [OF inv]) (use below_card [OF inv, of c] in simp)
  then show ?thesis using assms(2) by (rule safe_fst)
qed

section \<open>Properties\<close>

text \<open>C26: parsing a document returns, whatever the tree builder calls in whatever order, as long as it
  stops and asks names and template contents only of elements it made: no \<open>expect\<close> of the sink panics,
  and the document is an arena the operations reach, so a well-formed tree.\<close>

theorem parse_html_returns:
  assumes "courteous (html5ever scripting input)" "stops_by n (html5ever scripting input)"
  shows "\<exists>d. parse_html_with_scripting html5ever inst input scripting = Some (Inr d)
    \<and> dom_reachable inst d \<and> tree_inv d"
  using run_returns [OF assms, of inst] dom_reachable_inv unfolding parse_html_with_scripting_def by blast

text \<open>A tree builder that makes an element, attaches it and asks for its name.\<close>

definition html_root_name :: qual_name where
  "html_root_name = \<lparr>qn_prefix = None, qn_ns = HTML_NS, qn_local = ''html''\<rparr>"

fun small_builder :: tree_builder where
  "small_builder [] = Some (CreateElement html_root_name [])"
| "small_builder [Handle i] = Some (AppendTo 0 (AppendNode i))"
| "small_builder [Handle i, a] = Some (ElemName i)"
| "small_builder _ = None"

lemma small_courteous: "courteous small_builder"
proof -
  have "made_by small_builder as (\<lambda>_. True) i" if "small_builder as = Some (ElemName i)" for as i
    using that
  proof (cases as rule: small_builder.cases)
    case (3 j a)
    then show ?thesis using that by (auto simp: made_by_def intro!: exI [of _ "0::nat"])
  qed simp_all
  moreover have "small_builder as \<noteq> Some (GetTemplateContents i)" for as i
    by (cases as rule: small_builder.cases) simp_all
  ultimately show ?thesis by (simp add: courteous_def)
qed

lemma small_stops: "stops_by 3 small_builder"
proof -
  have "small_builder as = None" if "3 \<le> length as" for as
    using that by (cases as rule: small_builder.cases) simp_all
  then show ?thesis by (simp add: stops_by_def)
qed

theorem parse_html_returns_witness:
  "\<exists>d. parse_html_with_scripting (\<lambda>_ _. small_builder) 7 ''<html>'' True = Some (Inr d)
    \<and> dom_reachable 7 d \<and> tree_inv d"
  by (rule parse_html_returns [OF small_courteous small_stops])

lemma parse_fragment_returns:
  assumes "courteous (html5ever \<lparr>qn_prefix = None, qn_ns = silk_ns_to_html5ever ns, qn_local = context_local_name ns tg\<rparr> sc html)"
    and "stops_by n (html5ever \<lparr>qn_prefix = None, qn_ns = silk_ns_to_html5ever ns, qn_local = context_local_name ns tg\<rparr> sc html)"
  shows "\<exists>e. parse_fragment_into_in_context html5ever inst p tg ns html sc d = Some (Inr e) \<and> dom_steps d e"
proof -
  obtain scratch where "finished (drive (html5ever \<lparr>qn_prefix = None, qn_ns = silk_ns_to_html5ever ns,
      qn_local = context_local_name ns tg\<rparr> sc html) [] (sink_new inst)) = Some (Inr scratch)"
    using run_returns [OF assms, of inst] by blast
  then show ?thesis
    by (auto simp: parse_fragment_into_in_context_def Let_def splice_steps)
qed

end
