(* ===== verification/Html_Serialize.thy ===== *)
theory Html_Serialize
  imports Dom_Results
begin

text \<open>
  Serialization of a fragment (\<open>crates/silksurf-html/src/serialize.rs\<close>): the loop over the pending
  nodes, and that it makes exactly the calls of the recursive traversal of the tree, template contents
  included. The serializer it writes to (html5ever's) is an argument: its first state, one call, and the
  bytes written.
\<close>

section \<open>The loop\<close>

record ser_name =
  sn_ns :: string
  sn_local :: string

datatype ser_event =
    StartElem ser_name "(ser_name \<times> string) list" | EndElem ser_name
  | WriteText string | WriteComment string | WriteDoctype string

datatype 'e io_fault = DomFault dom_fault | SerializerError 'e | InvalidData

type_synonym ('s, 'e) emitter = "ser_event \<Rightarrow> 's \<Rightarrow> 'e + 's"

definition namespace_uri :: "namespace \<Rightarrow> string" where
  "namespace_uri ns =
     (case ns of
        NsHtml \<Rightarrow> ''http://www.w3.org/1999/xhtml''
      | NsSvg \<Rightarrow> ''http://www.w3.org/2000/svg''
      | NsMathMl \<Rightarrow> ''http://www.w3.org/1998/Math/MathML''
      | NsOther uri \<Rightarrow> uri)"

definition qualified_name :: "string \<Rightarrow> string option \<Rightarrow> namespace \<Rightarrow> ser_name" where
  "qualified_name name pfx ns =
     \<lparr>sn_ns = namespace_uri ns, sn_local = (case pfx of None \<Rightarrow> name | Some p \<Rightarrow> p @ '':'' @ name)\<rparr>"

definition void_names :: "string list" where
  "void_names =
     [''area'', ''base'', ''basefont'', ''bgsound'', ''link'', ''meta'', ''hr'', ''br'', ''img'', ''embed'',
      ''param'', ''input'', ''keygen'', ''source'', ''track'', ''wbr'']"

definition void_element :: "namespace \<Rightarrow> string \<Rightarrow> bool" where
  "void_element ns name \<longleftrightarrow> ns = NsHtml \<and> name \<in> set void_names"

definition attribute_events :: "attribute list \<Rightarrow> (ser_name \<times> string) list" where
  "attribute_events as = map (\<lambda>a. (\<lparr>sn_ns = [], sn_local = attr_as_str (attr_name a)\<rparr>, attr_value a)) as"

definition content_of :: "dom \<Rightarrow> node_id \<Rightarrow> node_id" where
  "content_of d i = (case template_contents d i of Some c \<Rightarrow> c | None \<Rightarrow> i)"

text \<open>The pending list has its end, the next to pop, first.\<close>

definition push_children :: "dom \<Rightarrow> node_id \<Rightarrow> (node_id \<times> bool) list \<Rightarrow> 'e io_fault + (node_id \<times> bool) list" where
  "push_children d i pending =
     (case children d (content_of d i) of
        Inl e \<Rightarrow> Inl (DomFault e)
      | Inr cs \<Rightarrow> Inr (map (\<lambda>c. (c, False)) cs @ pending))"

definition emit_event :: "('s, 'e) emitter \<Rightarrow> ser_event \<Rightarrow> 's \<Rightarrow> 'e io_fault + 's" where
  "emit_event emit ev s = (case emit ev s of Inl e \<Rightarrow> Inl (SerializerError e) | Inr t \<Rightarrow> Inr t)"

definition serialize_node ::
    "('s, 'e) emitter \<Rightarrow> dom \<Rightarrow> node_id \<Rightarrow> bool \<Rightarrow> 's \<Rightarrow> (node_id \<times> bool) list
      \<Rightarrow> 'e io_fault + 's \<times> (node_id \<times> bool) list" where
  "serialize_node emit d i closing s pending =
     (let leaf = (\<lambda>ev. res_bind (emit_event emit ev s) (\<lambda>s. Inr (s, pending))) in
      case node_at d i of
        Inl e \<Rightarrow> Inl (DomFault e)
      | Inr n \<Rightarrow>
          (case kind n of
             Element name pfx ns attrs \<Rightarrow>
               (let qn = qualified_name (tag_as_str name) pfx ns
                in if closing then leaf (EndElem qn)
                   else res_bind (emit_event emit (StartElem qn (attribute_events attrs)) s) (\<lambda>s.
                     if void_element ns (tag_as_str name) then Inr (s, (i, True) # pending)
                     else res_bind (push_children d i ((i, True) # pending)) (\<lambda>pending. Inr (s, pending))))
           | Text x \<Rightarrow> leaf (WriteText x)
           | Comment x \<Rightarrow> leaf (WriteComment x)
           | Doctype name _ _ \<Rightarrow> leaf (WriteDoctype (case name of Some x \<Rightarrow> x | None \<Rightarrow> []))
           | _ \<Rightarrow> res_bind (push_children d i pending) (\<lambda>pending. Inr (s, pending))))"

partial_function (option) serialize_loop ::
    "('s, 'e) emitter \<Rightarrow> dom \<Rightarrow> (node_id \<times> bool) list \<Rightarrow> 's \<Rightarrow> ('e io_fault + 's) option" where
  "serialize_loop emit d pending s =
     (case pending of
        [] \<Rightarrow> Some (Inr s)
      | (i, closing) # rest \<Rightarrow>
          (case serialize_node emit d i closing s rest of
             Inl e \<Rightarrow> Some (Inl e)
           | Inr (t, pending) \<Rightarrow> serialize_loop emit d pending t))"

definition scope_name :: "node_kind \<Rightarrow> ser_name option" where
  "scope_name k =
     (case k of Element name pfx ns _ \<Rightarrow> Some (qualified_name (tag_as_str name) pfx ns) | _ \<Rightarrow> None)"

definition written_string :: "('s \<Rightarrow> u8 list) \<Rightarrow> 's \<Rightarrow> 'e io_fault + string" where
  "written_string written s =
     (if utf8_valid (written s) then Inr (bytes_str (written s)) else Inl InvalidData)"

definition serialize_fragment ::
    "(ser_name option \<Rightarrow> 's) \<Rightarrow> ('s, 'e) emitter \<Rightarrow> ('s \<Rightarrow> u8 list) \<Rightarrow> dom \<Rightarrow> node_id
      \<Rightarrow> ('e io_fault + string) option" where
  "serialize_fragment start emit written d root =
     (case node_at d root of
        Inl e \<Rightarrow> Some (Inl (DomFault e))
      | Inr n \<Rightarrow>
          (case push_children d root [] of
             Inl e \<Rightarrow> Some (Inl e)
           | Inr pending \<Rightarrow>
               map_option (\<lambda>r. res_bind r (written_string written))
                 (serialize_loop emit d pending (start (scope_name (kind n))))))"

section \<open>The traversal\<close>

text \<open>The calls a node stands for, with a bound on the depth of the tree below it.\<close>

fun node_events :: "nat \<Rightarrow> dom \<Rightarrow> node_id \<Rightarrow> ser_event list" where
  "node_events 0 d i = []"
| "node_events (Suc n) d i =
     (let inner = concat (map (node_events n d) (kids d (content_of d i))) in
      case knd d i of
        Element name pfx ns attrs \<Rightarrow>
          (let qn = qualified_name (tag_as_str name) pfx ns
           in StartElem qn (attribute_events attrs)
              # (if void_element ns (tag_as_str name) then [] else inner) @ [EndElem qn])
      | Text x \<Rightarrow> [WriteText x]
      | Comment x \<Rightarrow> [WriteComment x]
      | Doctype name _ _ \<Rightarrow> [WriteDoctype (case name of Some x \<Rightarrow> x | None \<Rightarrow> [])]
      | _ \<Rightarrow> inner)"

definition fragment_events :: "dom \<Rightarrow> node_id \<Rightarrow> ser_event list" where
  "fragment_events d root =
     concat (map (node_events (length (nodes d) + 1) d) (kids d (content_of d root)))"

fun emit_all :: "('s, 'e) emitter \<Rightarrow> ser_event list \<Rightarrow> 's \<Rightarrow> 'e io_fault + 's" where
  "emit_all emit [] s = Inr s"
| "emit_all emit (ev # evs) s = res_bind (emit_event emit ev s) (emit_all emit evs)"

lemma emit_all_append: "emit_all emit (xs @ ys) s = res_bind (emit_all emit xs s) (emit_all emit ys)"
  by (induction xs arbitrary: s) (auto simp: res_bind_def split: sum.split)

text \<open>The loop on pending nodes that stand for \<open>evs\<close>: it makes those calls and goes on.\<close>

definition stands_for :: "('s, 'e) emitter \<Rightarrow> dom \<Rightarrow> (node_id \<times> bool) list \<Rightarrow> ser_event list \<Rightarrow> bool" where
  "stands_for emit d ps evs \<longleftrightarrow> (\<forall>rest s.
     serialize_loop emit d (ps @ rest) s =
       (case emit_all emit evs s of Inl e \<Rightarrow> Some (Inl e) | Inr t \<Rightarrow> serialize_loop emit d rest t))"

lemma stands_for_Nil [simp]: "stands_for emit d [] []"
  by (simp add: stands_for_def)

lemma stands_for_append:
  "stands_for emit d ps xs \<Longrightarrow> stands_for emit d qs ys \<Longrightarrow> stands_for emit d (ps @ qs) (xs @ ys)"
  by (simp add: stands_for_def emit_all_append res_bind_def split: sum.split)

lemma stands_for_step:
  assumes "\<And>s rest. serialize_node emit d i b s rest =
      res_bind (emit_event emit ev s) (\<lambda>s. Inr (s, ps @ rest))"
    and "stands_for emit d ps evs"
  shows "stands_for emit d [(i, b)] (ev # evs)"
  unfolding stands_for_def
proof (intro allI)
  fix rest s
  show "serialize_loop emit d ([(i, b)] @ rest) s =
      (case emit_all emit (ev # evs) s of Inl e \<Rightarrow> Some (Inl e) | Inr t \<Rightarrow> serialize_loop emit d rest t)"
    using assms(2) unfolding stands_for_def
    by (subst serialize_loop.simps) (simp add: assms(1) res_bind_def split: sum.split)
qed

lemma stands_for_silent:
  assumes "\<And>s rest. serialize_node emit d i b s rest = Inr (s, ps @ rest)" and "stands_for emit d ps evs"
  shows "stands_for emit d [(i, b)] evs"
  unfolding stands_for_def
proof (intro allI)
  fix rest s
  show "serialize_loop emit d ([(i, b)] @ rest) s =
      (case emit_all emit evs s of Inl e \<Rightarrow> Some (Inl e) | Inr t \<Rightarrow> serialize_loop emit d rest t)"
    using assms(2) unfolding stands_for_def by (subst serialize_loop.simps) (simp add: assms(1))
qed

lemma content_kids:
  assumes inv: "tree_inv d" and i: "i < length (nodes d)"
  shows "children d (content_of d i) = Inr (kids d (content_of d i))"
proof -
  have "content_of d i < length (nodes d)"
  proof (cases "template_contents d i")
    case (Some f)
    then have "knd d f = DocumentFragment" using inv by (auto simp: tree_inv_def hosts_ok_def)
    then have "f < length (nodes d)" by (intro knd_range) simp
    then show ?thesis by (simp add: content_of_def Some)
  qed (simp add: content_of_def i)
  then show ?thesis by (simp add: children_def node_index_def res_bind_def kids_def)
qed

lemma content_below: "tree_inv d \<Longrightarrow> c \<in> set (kids d (content_of d i)) \<Longrightarrow> (c, i) \<in> (up_rel d)\<^sup>+"
  by (auto simp: content_of_def intro: kids_below template_below split: option.splits)

lemma closing_stands_for:
  assumes "i < length (nodes d)" "knd d i = Element name pfx ns attrs"
  shows "stands_for emit d [(i, True)] [EndElem (qualified_name (tag_as_str name) pfx ns)]"
  by (rule stands_for_step [where ps = "[]"]) (simp_all add: serialize_node_def node_at_knd assms)

lemma leaf_stands_for:
  assumes "i < length (nodes d)"
    "(\<exists>x. knd d i = Text x \<and> ev = WriteText x) \<or> (\<exists>x. knd d i = Comment x \<and> ev = WriteComment x)
      \<or> (\<exists>n p q. knd d i = Doctype n p q \<and> ev = WriteDoctype (case n of Some x \<Rightarrow> x | None \<Rightarrow> []))"
  shows "stands_for emit d [(i, False)] [ev]"
  by (rule stands_for_step [where ps = "[]"])
    (use assms in \<open>auto simp: serialize_node_def node_at_knd\<close>)

lemma nodes_stand_for:
  assumes inv: "tree_inv d"
  shows "card (below d i) < n \<Longrightarrow> i < length (nodes d) \<Longrightarrow> stands_for emit d [(i, False)] (node_events n d i)"
proof (induction n arbitrary: i)
  case (Suc n)
  let ?cs = "kids d (content_of d i)"
  have kid: "stands_for emit d [(c, False)] (node_events n d c)" if "c \<in> set ?cs" for c
    using that Suc.prems(1) below_less [OF inv content_below [OF inv that]] tree_inv_ranges [OF inv that]
    by (intro Suc.IH) simp_all
  have forest: "stands_for emit d (map (\<lambda>c. (c, False)) cs) (concat (map (node_events n d) cs))"
    if "set cs \<subseteq> set ?cs" for cs
    using that
  proof (induction cs)
    case (Cons c cs)
    then show ?case using stands_for_append [OF kid [of c] Cons.IH] by simp
  qed simp
  have push: "push_children d i ps = Inr (map (\<lambda>c. (c, False)) ?cs @ ps)" for ps
    by (simp add: push_children_def content_kids [OF inv Suc.prems(2)])
  note at = node_at_knd [OF Suc.prems(2)]
  show ?case
  proof (cases "knd d i")
    case (Element name pfx ns attrs)
    let ?q = "qualified_name (tag_as_str name) pfx ns"
    let ?inner = "if void_element ns (tag_as_str name) then [] else concat (map (node_events n d) ?cs)"
    let ?ps = "if void_element ns (tag_as_str name) then [] else map (\<lambda>c. (c, False)) ?cs"
    have "stands_for emit d ?ps ?inner" using forest [of ?cs] by simp
    then have inner: "stands_for emit d (?ps @ [(i, True)]) (?inner @ [EndElem ?q])"
      using closing_stands_for [OF Suc.prems(2) Element] by (rule stands_for_append)
    have "stands_for emit d [(i, False)] (StartElem ?q (attribute_events attrs) # ?inner @ [EndElem ?q])"
      by (rule stands_for_step [OF _ inner])
        (simp add: serialize_node_def at Element push res_bind_def split: sum.split)
    then show ?thesis by (simp add: Element Let_def)
  next
    case Document
    have "stands_for emit d [(i, False)] (concat (map (node_events n d) ?cs))"
      by (rule stands_for_silent [OF _ forest [of ?cs]]) (simp_all add: serialize_node_def at Document push res_bind_def)
    then show ?thesis by (simp add: Document Let_def)
  next
    case DocumentFragment
    have "stands_for emit d [(i, False)] (concat (map (node_events n d) ?cs))"
      by (rule stands_for_silent [OF _ forest [of ?cs]]) (simp_all add: serialize_node_def at DocumentFragment push res_bind_def)
    then show ?thesis by (simp add: DocumentFragment Let_def)
  qed (auto simp: Let_def intro!: leaf_stands_for [OF Suc.prems(2)])
qed simp

section \<open>Properties\<close>

text \<open>Serializing the content of a node of a well-formed arena returns, and calls the serializer exactly
  as the recursive traversal does: each element's start before and its end after what it contains, template
  contents in the place of children, nothing inside a void element, in tree order, until the first error.\<close>

theorem serialize_traversal:
  assumes inv: "tree_inv d" and root: "root < length (nodes d)"
  shows "serialize_fragment start emit written d root =
    Some (res_bind (emit_all emit (fragment_events d root) (start (scope_name (knd d root))))
      (written_string written))"
proof -
  let ?cs = "kids d (content_of d root)" and ?n = "length (nodes d) + 1"
  have kid: "stands_for emit d [(c, False)] (node_events ?n d c)" if "c \<in> set ?cs" for c
    using below_card [OF inv, of c] tree_inv_ranges [OF inv that] by (intro nodes_stand_for [OF inv]) simp_all
  have "stands_for emit d (map (\<lambda>c. (c, False)) cs) (concat (map (node_events ?n d) cs))" if "set cs \<subseteq> set ?cs" for cs
    using that
  proof (induction cs)
    case (Cons c cs)
    then show ?case using stands_for_append [OF kid [of c] Cons.IH] by simp
  qed simp
  then have all: "stands_for emit d (map (\<lambda>c. (c, False)) ?cs) (fragment_events d root)"
    by (simp add: fragment_events_def)
  have stop: "serialize_loop emit d [] t = Some (Inr t)" for t
    by (subst serialize_loop.simps) simp
  have loop: "serialize_loop emit d (map (\<lambda>c. (c, False)) ?cs) s =
      (case emit_all emit (fragment_events d root) s of Inl e \<Rightarrow> Some (Inl e) | Inr t \<Rightarrow> Some (Inr t))" for s
    using all [unfolded stands_for_def, rule_format, of "[]" s] by (simp add: stop split: sum.split)
  show ?thesis
    by (simp add: serialize_fragment_def node_at_knd [OF root] push_children_def content_kids [OF inv root] loop
        split: sum.split)
qed

theorem serialize_traversal_witness:
  "serialize_fragment (\<lambda>_. []) (\<lambda>ev evs. Inr (evs @ [ev]) :: unit + ser_event list) (\<lambda>_. []) example_dom 1 =
    Some (res_bind (emit_all (\<lambda>ev evs. Inr (evs @ [ev]) :: unit + ser_event list) (fragment_events example_dom 1) [])
      (written_string (\<lambda>_. [])))"
  using serialize_traversal [OF example_tree_inv, of 1 "\<lambda>_. []" "\<lambda>ev evs. Inr (evs @ [ev]) :: unit + ser_event list" "\<lambda>_. []"]
  by (simp add: example_value)

end
