(* ===== verification/Html_Tokenizer.thy ===== *)
theory Html_Tokenizer
  imports Rust_Chars Rust_Num
begin

text \<open>
  The streaming HTML tokenizer (\<open>crates/silksurf-html/src/lib.rs\<close>). The buffer is the bytes of a
  \<open>String\<close> and positions are byte offsets into it; a \<open>str\<close> slice out of range or off a character
  boundary panics, which is a fault of its own beside the errors the code returns.
\<close>

section \<open>Data\<close>

definition MAX_TOKENS_PER_FEED :: nat where
  "MAX_TOKENS_PER_FEED = 1000000"

record html_attribute =
  ha_name :: string
  ha_value :: "string option"

datatype html_token =
    HtDoctype "string option" "string option" "string option" bool
  | HtStartTag string "html_attribute list" bool
  | HtEndTag string
  | HtComment string
  | HtCharacter string
  | HtEof

datatype html_state =
    StData | StTagOpen | StEndTagOpen | StTagName | StAttributeName | StAttributeValue
  | StSelfClosingStartTag | StMarkupDeclarationOpen

datatype html_fault = TokenizeError html_state nat string | StrPanic

record html_tokenizer =
  ht_buffer :: string
  ht_cursor :: nat
  raw_text_tag :: "string option"

definition html_new :: html_tokenizer where
  "html_new = \<lparr>ht_buffer = [], ht_cursor = 0, raw_text_tag = None\<rparr>"

section \<open>Slices and scans\<close>

text \<open>\<open>&s[a..b]\<close> of a \<open>str\<close>.\<close>

definition str_slice :: "string \<Rightarrow> nat \<Rightarrow> nat \<Rightarrow> html_fault + string" where
  "str_slice s a b =
     (if a \<le> b \<and> b \<le> length s \<and> at_boundary (drop a s) \<and> at_boundary (drop b s)
      then Inr (take (b - a) (drop a s)) else Inl StrPanic)"

text \<open>\<open>memchr\<close>, \<open>memchr2\<close>, \<open>memchr3\<close>: the first position of one of the bytes.\<close>

definition memchr :: "char list \<Rightarrow> string \<Rightarrow> nat option" where
  "memchr cs s = position (\<lambda>c. c \<in> set cs) s"

abbreviation "TAB_CHAR \<equiv> CHR 0x09"
abbreviation "LF_CHAR \<equiv> CHR 0x0A"
abbreviation "FF_CHAR \<equiv> CHR 0x0C"
abbreviation "CR_CHAR \<equiv> CHR 0x0D"
abbreviation "DQ_CHAR \<equiv> CHR 0x22"
abbreviation "SQ_CHAR \<equiv> CHR 0x27"

definition html_whitespace :: "char \<Rightarrow> bool" where
  "html_whitespace c \<longleftrightarrow> c \<in> {CHR '' '', LF_CHAR, TAB_CHAR, CR_CHAR, FF_CHAR}"

definition tag_name_char :: "char \<Rightarrow> bool" where
  "tag_name_char c \<longleftrightarrow> ascii_lower c \<or> ascii_upper c \<or> ascii_digit c \<or> c = CHR ''-''"

definition attr_name_char :: "char \<Rightarrow> bool" where
  "attr_name_char c \<longleftrightarrow> tag_name_char c \<or> c = CHR ''_'' \<or> c = CHR '':''"

text \<open>Every byte, lowered, as the character of its number.\<close>

definition normalize_tag_name :: "string \<Rightarrow> string" where
  "normalize_tag_name name = concat (map (\<lambda>c. utf8_encode (byte_of (lower_char c))) name)"

definition skip_html_whitespace :: "string \<Rightarrow> nat \<Rightarrow> nat" where
  "skip_html_whitespace b cursor = cursor + length (takeWhile html_whitespace (drop cursor b))"

definition skip_to_gt :: "string \<Rightarrow> nat \<Rightarrow> nat" where
  "skip_to_gt b cursor =
     (case memchr [CHR ''>''] (drop cursor b) of Some pos \<Rightarrow> cursor + pos | None \<Rightarrow> length b)"

definition scan_tag_name_end :: "string \<Rightarrow> nat \<Rightarrow> nat" where
  "scan_tag_name_end b start =
     (let rest = drop start b;
          e = (case memchr [CHR '' '', CHR ''>'', CHR ''/''] rest of Some pos \<Rightarrow> pos | None \<Rightarrow> length rest);
          e = (case memchr [LF_CHAR, TAB_CHAR] (take e rest) of Some pos \<Rightarrow> pos | None \<Rightarrow> e);
          e = (case memchr [CR_CHAR, FF_CHAR] (take e rest) of Some pos \<Rightarrow> pos | None \<Rightarrow> e)
      in start + e)"

definition nearer :: "string \<Rightarrow> char list \<Rightarrow> nat \<Rightarrow> nat" where
  "nearer rest cs e = (case memchr cs rest of Some pos \<Rightarrow> min e pos | None \<Rightarrow> e)"

definition scan_attr_name_end :: "string \<Rightarrow> nat \<Rightarrow> nat" where
  "scan_attr_name_end b start =
     (let rest = drop start b;
          e = nearer rest [CHR '' '', CHR ''='', CHR ''>''] (length rest);
          e = nearer rest [CHR ''/'', LF_CHAR] e;
          e = nearer rest [TAB_CHAR, CR_CHAR] e;
          e = nearer rest [FF_CHAR] e
      in start + e)"

text \<open>\<open>windows(n).position(...)\<close>.\<close>

fun find_window :: "string \<Rightarrow> string \<Rightarrow> nat option" where
  "find_window needle [] = None"
| "find_window needle (c # s) =
     (if length needle \<le> length (c # s) \<and> take (length needle) (c # s) = needle then Some 0
      else map_option Suc (find_window needle s))"

definition find_subsequence :: "string \<Rightarrow> nat \<Rightarrow> string \<Rightarrow> nat option" where
  "find_subsequence b start needle = map_option ((+) start) (find_window needle (drop start b))"

definition starts_with_at :: "string \<Rightarrow> nat \<Rightarrow> string \<Rightarrow> html_fault + bool" where
  "starts_with_at b start needle =
     res_bind (str_slice b start (length b)) (\<lambda>rest. Inr (starts_with needle rest))"

definition starts_with_case_insensitive :: "string \<Rightarrow> nat \<Rightarrow> string \<Rightarrow> html_fault + bool" where
  "starts_with_case_insensitive b start needle =
     (let e = start + length needle
      in if length b < e then Inr False
         else res_bind (str_slice b start e) (\<lambda>s.
           Inr (list_all (\<lambda>(x, y). lower_char x = lower_char y) (zip s needle))))"

datatype quoted_parse = QuotedParsed string nat | QuotedIncomplete | MissingQuote

definition parse_quoted_string :: "string \<Rightarrow> nat \<Rightarrow> html_fault + quoted_parse" where
  "parse_quoted_string b cursor =
     (if length b \<le> cursor then Inr QuotedIncomplete
      else
        (let quote = b ! cursor
         in if quote \<noteq> DQ_CHAR \<and> quote \<noteq> SQ_CHAR then Inr MissingQuote
            else (case memchr [quote] (drop (cursor + 1) b) of
              None \<Rightarrow> Inr QuotedIncomplete
            | Some rel \<Rightarrow>
                (let e = cursor + 1 + rel
                 in res_bind (str_slice b (cursor + 1) e) (\<lambda>v. Inr (QuotedParsed v (e + 1)))))))"

section \<open>Character references\<close>

definition radix_digit :: "nat \<Rightarrow> char \<Rightarrow> bool" where
  "radix_digit radix c \<longleftrightarrow> (if radix = 16 then hex_digit c else ascii_digit c)"

definition digit_of :: "char \<Rightarrow> nat" where
  "digit_of c =
     (if ascii_digit c then byte_of c - 48 else if 97 \<le> byte_of c then byte_of c - 87 else byte_of c - 55)"

definition radix_value :: "nat \<Rightarrow> string \<Rightarrow> nat" where
  "radix_value radix ds = foldl (\<lambda>v c. v * radix + digit_of c) 0 ds"

definition parse_numeric_reference :: "string \<Rightarrow> nat \<Rightarrow> nat \<Rightarrow> (string \<times> nat) option" where
  "parse_numeric_reference s radix prefix_len =
     (let ds = takeWhile (radix_digit radix) s; e = length ds
      in case drop e s of
           [] \<Rightarrow> None
         | c # _ \<Rightarrow>
             if c \<noteq> CHR '';'' \<or> e = 0 \<or> 2 ^ 32 \<le> radix_value radix ds then None
             else
               (let ch = (case char_from_u32 (radix_value radix ds) of Some ch \<Rightarrow> ch | None \<Rightarrow> 0xFFFD)
                in Some (utf8_encode ch, prefix_len + e + 1)))"

definition named_references :: "(string \<times> string) list" where
  "named_references =
     [(''amp'', ''&''), (''lt'', ''<''), (''gt'', ''>''), (''quot'', [DQ_CHAR]), (''apos'', [SQ_CHAR])]"

fun named_reference :: "string \<Rightarrow> (string \<times> string) list \<Rightarrow> (string \<times> nat) option" where
  "named_reference s [] = None"
| "named_reference s ((name, v) # rest) =
     (if starts_with name s \<and> starts_with '';'' (drop (length name) s) then Some (v, length name + 1)
      else named_reference s rest)"

definition parse_character_reference_at :: "string \<Rightarrow> (string \<times> nat) option" where
  "parse_character_reference_at s =
     (case (case strip_prefix ''#x'' s of Some r \<Rightarrow> Some r | None \<Rightarrow> strip_prefix ''#X'' s) of
        Some rest \<Rightarrow> parse_numeric_reference rest 16 2
      | None \<Rightarrow>
          (case strip_prefix ''#'' s of
             Some rest \<Rightarrow> parse_numeric_reference rest 10 1
           | None \<Rightarrow> named_reference s named_references))"

text \<open>The text from the cursor on. The slices are at ampersands and semicolons, so on boundaries.\<close>

function decode_references :: "string \<Rightarrow> string" where
  "decode_references s =
     (case memchr [CHR ''&''] s of
        None \<Rightarrow> s
      | Some pos \<Rightarrow>
          take pos s @
          (case parse_character_reference_at (drop (pos + 1) s) of
             Some (decoded, consumed) \<Rightarrow> decoded @ decode_references (drop consumed (drop (pos + 1) s))
           | None \<Rightarrow> ''&'' @ decode_references (drop (pos + 1) s)))"
  by auto
termination
  by (relation "measure length") (auto simp: memchr_def dest!: position_SomeD)

declare decode_references.simps [simp del]

definition decode_character_references :: "string \<Rightarrow> string" where
  "decode_character_references s =
     (if memchr [CHR ''&''] s = None then s else decode_references s)"

section \<open>Tags\<close>

datatype attribute_parse = AttrParsed html_attribute nat | AttrIncomplete

text \<open>The position of the first byte of a slice that breaks a rule.\<close>

definition bad_char :: "(char \<Rightarrow> bool) \<Rightarrow> string \<Rightarrow> nat \<Rightarrow> nat \<Rightarrow> nat option" where
  "bad_char ok b a e = position (\<lambda>c. \<not> ok c) (take (e - a) (drop a b))"

definition parse_html_value :: "string \<Rightarrow> string \<Rightarrow> nat \<Rightarrow> html_fault + attribute_parse" where
  "parse_html_value b name cursor =
     (let quote = b ! cursor
      in if quote = DQ_CHAR \<or> quote = SQ_CHAR then
           (case memchr [quote] (drop (cursor + 1) b) of
              None \<Rightarrow> Inr AttrIncomplete
            | Some rel \<Rightarrow>
                (let value_end = cursor + 1 + rel
                 in res_bind (str_slice b (cursor + 1) value_end) (\<lambda>v.
                      Inr (AttrParsed \<lparr>ha_name = name, ha_value = Some (decode_character_references v)\<rparr> (value_end + 1)))))
         else
           (let rest = drop cursor b;
                rel = (case memchr [CHR ''>'', CHR ''/''] rest of Some pos \<Rightarrow> pos | None \<Rightarrow> length rest);
                e = cursor + length (takeWhile (\<lambda>c. \<not> html_whitespace c) (take rel rest))
            in res_bind (str_slice b cursor e) (\<lambda>v.
                 Inr (AttrParsed \<lparr>ha_name = name, ha_value = Some (decode_character_references v)\<rparr> e))))"

definition parse_attribute :: "string \<Rightarrow> nat \<Rightarrow> html_fault + attribute_parse" where
  "parse_attribute b start =
     (let name_end = scan_attr_name_end b start
      in if name_end = start then Inl (TokenizeError StAttributeName start ''invalid attribute name'')
         else (case bad_char attr_name_char b start name_end of
           Some offset \<Rightarrow> Inl (TokenizeError StAttributeName (start + offset) ''invalid attribute name'')
         | None \<Rightarrow>
             res_bind (str_slice b start name_end) (\<lambda>name.
               let cursor = skip_html_whitespace b name_end
               in if length b \<le> cursor then Inr AttrIncomplete
                  else if b ! cursor \<noteq> CHR ''='' then Inr (AttrParsed \<lparr>ha_name = name, ha_value = None\<rparr> cursor)
                  else
                    (let cursor = skip_html_whitespace b (cursor + 1)
                     in if length b \<le> cursor then Inr AttrIncomplete
                        else parse_html_value b name cursor))))"

lemma skip_html_whitespace_ge: "cursor \<le> skip_html_whitespace b cursor"
  by (simp add: skip_html_whitespace_def)

lemma scan_attr_name_end_ge: "start \<le> scan_attr_name_end b start"
  by (simp add: scan_attr_name_end_def Let_def)

lemma res_bind_Inr: "res_bind m f = Inr b \<longleftrightarrow> (\<exists>a. m = Inr a \<and> f a = Inr b)"
  by (cases m) (auto simp: res_bind_def)

lemma parse_html_value_progress:
  "parse_html_value b name cursor = Inr (AttrParsed attr next) \<Longrightarrow> cursor \<le> next"
  by (auto simp: parse_html_value_def Let_def res_bind_Inr split: if_splits option.splits)

lemma parse_attribute_progress:
  assumes "parse_attribute b start = Inr (AttrParsed attr next)" shows "start < next"
proof -
  let ?e = "scan_attr_name_end b start"
  let ?c = "skip_html_whitespace b ?e"
  let ?v = "skip_html_whitespace b (?c + 1)"
  have "?e \<noteq> start" using assms by (auto simp: parse_attribute_def Let_def)
  then have "start < ?e" using scan_attr_name_end_ge [of start b] by simp
  also have "?e \<le> ?c" by (rule skip_html_whitespace_ge)
  finally have c: "start < ?c" .
  have v: "?c + 1 \<le> ?v" by (rule skip_html_whitespace_ge)
  obtain name where "(if b ! ?c \<noteq> CHR ''='' then Inr (AttrParsed \<lparr>ha_name = name, ha_value = None\<rparr> ?c)
      else if length b \<le> ?v then Inr AttrIncomplete else parse_html_value b name ?v)
      = Inr (AttrParsed attr next)"
    using assms by (auto simp: parse_attribute_def Let_def res_bind_Inr split: if_splits option.splits)
  then show ?thesis using c v parse_html_value_progress [of b name ?v attr "next"]
    by (auto split: if_splits)
qed

text \<open>The attributes of a start tag, whether it closes itself, and where it ends; or that the input ends
  inside it.\<close>

function attribute_loop ::
    "string \<Rightarrow> nat \<Rightarrow> html_attribute list \<Rightarrow> html_fault + (html_attribute list \<times> bool \<times> nat) option" where
  "attribute_loop b start attributes =
     (let cursor = skip_html_whitespace b start
      in if length b \<le> cursor then Inr None
         else if b ! cursor = CHR ''>'' then Inr (Some (attributes, False, cursor + 1))
         else if b ! cursor = CHR ''/'' then
           (if length b \<le> cursor + 1 then Inr None
            else if b ! (cursor + 1) \<noteq> CHR ''>'' then
              Inl (TokenizeError StSelfClosingStartTag cursor (''expected '' @ [SQ_CHAR] @ ''/>'' @ [SQ_CHAR]))
            else Inr (Some (attributes, True, cursor + 2)))
         else
           (case parse_attribute b cursor of
              Inl e \<Rightarrow> Inl e
            | Inr AttrIncomplete \<Rightarrow> Inr None
            | Inr (AttrParsed attr next_cursor) \<Rightarrow> attribute_loop b next_cursor (attributes @ [attr])))"
  by auto
termination
proof (relation "measure (\<lambda>(b, cursor, _). length b - cursor)")
  fix b :: string and start cursor "next" attr and attributes :: "html_attribute list" and p a
  assume c: "cursor = skip_html_whitespace b start" "\<not> length b \<le> cursor"
    and p: "parse_attribute b cursor = Inr p" "p = AttrParsed a next"
  have "start \<le> cursor" using c(1) skip_html_whitespace_ge by simp
  moreover have "cursor < next" using p parse_attribute_progress by blast
  ultimately show "((b, next, attributes @ [a]), b, start, attributes) \<in> measure (\<lambda>(b, cursor, _). length b - cursor)"
    using c(2) by auto
qed simp

declare attribute_loop.simps [simp del]

text \<open>What a parse of one construct gives: the token and where it ends, or that the input ends inside it.\<close>

type_synonym 'a parsed = "html_fault + ('a \<times> nat) option"

definition parse_start_tag :: "string \<Rightarrow> nat \<Rightarrow> html_token parsed" where
  "parse_start_tag b start =
     (let name_start = start + 1
      in if length b \<le> name_start then Inr None
         else
           (let name_end = scan_tag_name_end b name_start
            in if name_end = name_start then Inl (TokenizeError StTagName name_start ''missing tag name'')
               else (case bad_char tag_name_char b name_start name_end of
                 Some offset \<Rightarrow> Inl (TokenizeError StTagName (name_start + offset) ''invalid tag name'')
               | None \<Rightarrow>
                   res_bind (str_slice b name_start name_end) (\<lambda>raw_name.
                     res_bind (attribute_loop b name_end []) (\<lambda>r. case r of
                       None \<Rightarrow> Inr None
                     | Some (attributes, self_closing, cursor) \<Rightarrow>
                         Inr (Some (HtStartTag (normalize_tag_name raw_name) attributes self_closing, cursor)))))))"

definition parse_end_tag :: "string \<Rightarrow> nat \<Rightarrow> html_token parsed" where
  "parse_end_tag b start =
     (let name_start = start + 2
      in if length b \<le> name_start then Inr None
         else
           (let name_end = scan_tag_name_end b name_start
            in if name_end = name_start then Inl (TokenizeError StEndTagOpen name_start ''missing end tag name'')
               else (case bad_char tag_name_char b name_start name_end of
                 Some offset \<Rightarrow> Inl (TokenizeError StEndTagOpen (name_start + offset) ''invalid end tag name'')
               | None \<Rightarrow>
                   res_bind (str_slice b name_start name_end) (\<lambda>name.
                     let cursor = skip_html_whitespace b name_end
                     in if length b \<le> cursor then Inr None
                        else if b ! cursor \<noteq> CHR ''>'' then
                          Inl (TokenizeError StEndTagOpen cursor (''expected '' @ [SQ_CHAR] @ ''>'' @ [SQ_CHAR]))
                        else Inr (Some (HtEndTag (normalize_tag_name name), cursor + 1))))))"

section \<open>Doctype and comments\<close>

text \<open>The identifiers: public, system, whether quirks are forced, and where the parse stands.\<close>

type_synonym doctype_ids = "html_fault + (string option \<times> string option \<times> bool \<times> nat) option"

definition parse_system_id :: "string \<Rightarrow> string option \<Rightarrow> bool \<Rightarrow> nat \<Rightarrow> doctype_ids" where
  "parse_system_id b public_id force_quirks cursor =
     res_bind (parse_quoted_string b cursor) (\<lambda>q. case q of
       QuotedParsed v next_cursor \<Rightarrow> Inr (Some (public_id, Some v, force_quirks, next_cursor))
     | QuotedIncomplete \<Rightarrow> Inr None
     | MissingQuote \<Rightarrow> Inr (Some (public_id, None, True, skip_to_gt b cursor)))"

definition parse_public_id :: "string \<Rightarrow> bool \<Rightarrow> nat \<Rightarrow> doctype_ids" where
  "parse_public_id b force_quirks cursor =
     (let system = (\<lambda>public_id force_quirks cursor.
            if cursor < length b \<and> b ! cursor \<noteq> CHR ''>'' then parse_system_id b public_id force_quirks cursor
            else Inr (Some (public_id, None, force_quirks, cursor)))
      in res_bind (parse_quoted_string b cursor) (\<lambda>q. case q of
           QuotedParsed v next_cursor \<Rightarrow> system (Some v) force_quirks (skip_html_whitespace b next_cursor)
         | QuotedIncomplete \<Rightarrow> Inr None
         | MissingQuote \<Rightarrow> system None True (skip_to_gt b cursor)))"

definition parse_doctype_ids :: "string \<Rightarrow> bool \<Rightarrow> nat \<Rightarrow> doctype_ids" where
  "parse_doctype_ids b force_quirks cursor =
     res_bind (starts_with_case_insensitive b cursor ''public'') (\<lambda>public.
       if public then parse_public_id b force_quirks (skip_html_whitespace b (cursor + length ''public''))
       else res_bind (starts_with_case_insensitive b cursor ''system'') (\<lambda>system.
         if system then parse_system_id b None force_quirks (skip_html_whitespace b (cursor + length ''system''))
         else Inr (Some (None, None, True, skip_to_gt b cursor))))"

definition doctype_name_char :: "char \<Rightarrow> bool" where
  "doctype_name_char c \<longleftrightarrow> \<not> html_whitespace c \<and> c \<noteq> CHR ''>''"

text \<open>From the end of the name on, and the end of the declaration.\<close>

definition doctype_end :: "string \<Rightarrow> string option \<Rightarrow> string option \<times> string option \<times> bool \<times> nat \<Rightarrow> html_token parsed" where
  "doctype_end b name = (\<lambda>(public_id, system_id, force_quirks, cursor).
     let cursor = skip_to_gt b cursor
     in if length b \<le> cursor then Inr None
        else Inr (Some (HtDoctype name public_id system_id force_quirks, cursor + 1)))"

definition parse_doctype_rest :: "string \<Rightarrow> string option \<Rightarrow> nat \<Rightarrow> html_token parsed" where
  "parse_doctype_rest b name name_end =
     (let force_quirks = (name = None); cursor = skip_html_whitespace b name_end
      in if length b \<le> cursor then Inr None
         else res_bind (if b ! cursor \<noteq> CHR ''>'' then parse_doctype_ids b force_quirks cursor
                        else Inr (Some (None, None, force_quirks, cursor))) (\<lambda>r. case r of
           None \<Rightarrow> Inr None
         | Some ids \<Rightarrow> doctype_end b name ids))"

definition parse_doctype :: "string \<Rightarrow> nat \<Rightarrow> html_token parsed" where
  "parse_doctype b start =
     (let name_start = skip_html_whitespace b (start + 2 + length ''doctype'')
      in if length b \<le> name_start then Inr None
         else
           (let name_end = name_start + length (takeWhile doctype_name_char (drop name_start b))
            in if length b \<le> name_end then Inr None
               else
                 res_bind (if name_start < name_end then res_bind (str_slice b name_start name_end) (\<lambda>n. Inr (Some n))
                           else Inr None) (\<lambda>name. parse_doctype_rest b name name_end)))"

definition parse_comment :: "string \<Rightarrow> nat \<Rightarrow> html_token parsed" where
  "parse_comment b start =
     (let comment_start = start + 4
      in if length b < comment_start then Inr None
         else (case find_subsequence b comment_start ''-->'' of
           Some e \<Rightarrow> res_bind (str_slice b comment_start e) (\<lambda>d. Inr (Some (HtComment d, e + 3)))
         | None \<Rightarrow> Inr None))"

definition parse_markup_declaration :: "string \<Rightarrow> nat \<Rightarrow> html_token parsed" where
  "parse_markup_declaration b start =
     (if length b \<le> start + 2 then Inr None
      else res_bind (starts_with_at b (start + 2) ''--'') (\<lambda>comment.
        if comment then parse_comment b start
        else res_bind (starts_with_case_insensitive b (start + 2) ''doctype'') (\<lambda>doctype.
          if doctype then parse_doctype b start
          else Inl (TokenizeError StMarkupDeclarationOpen (start + 1) ''unsupported markup declaration''))))"

definition parse_tag :: "string \<Rightarrow> nat \<Rightarrow> html_token parsed" where
  "parse_tag b start =
     (if b ! start \<noteq> CHR ''<'' then
        Inl (TokenizeError StData start (''expected '' @ [SQ_CHAR] @ ''<'' @ [SQ_CHAR]))
      else if length b \<le> start + 1 then Inr None
      else
        (let c = b ! (start + 1)
         in if c = CHR ''!'' then parse_markup_declaration b start
            else if c = CHR ''/'' then parse_end_tag b start
            else if ascii_lower c \<or> ascii_upper c then parse_start_tag b start
            else Inl (TokenizeError StTagOpen (start + 1) ''unexpected tag opener'')))"

section \<open>Raw text\<close>

text \<open>The loop looks for the end tag at the \<open><\<close> bytes from the cursor on: its start, when there is one.\<close>

function raw_text_end :: "string \<Rightarrow> string \<Rightarrow> nat \<Rightarrow> html_fault + nat option" where
  "raw_text_end b tag cursor =
     (if length b \<le> cursor then Inr None
      else (case memchr [CHR ''<''] (drop cursor b) of
        None \<Rightarrow> Inr None
      | Some pos \<Rightarrow>
          (let cursor = cursor + pos; name_start = cursor + 2; e = name_start + length tag
           in if cursor + 1 < length b \<and> b ! (cursor + 1) = CHR ''/'' then
                (case starts_with_case_insensitive b name_start tag of
                   Inl f \<Rightarrow> Inl f
                 | Inr same \<Rightarrow>
                     if same \<and> e < length b \<and> b ! e = CHR ''>'' then Inr (Some cursor)
                     else raw_text_end b tag (cursor + 1))
              else raw_text_end b tag (cursor + 1))))"
  by auto
termination
  by (relation "measure (\<lambda>(b, tag, cursor). length b - cursor)") auto

declare raw_text_end.simps [simp del]

definition parse_raw_text :: "string \<Rightarrow> string \<Rightarrow> nat \<Rightarrow> html_token list parsed" where
  "parse_raw_text b tag start =
     res_bind (raw_text_end b tag start) (\<lambda>r. case r of
       None \<Rightarrow> Inr None
     | Some cursor \<Rightarrow>
         res_bind (str_slice b start cursor) (\<lambda>d.
           Inr (Some ((if d = [] then [] else [HtCharacter d]) @ [HtEndTag (normalize_tag_name tag)],
                      cursor + 2 + length tag + 1))))"

section \<open>Feeding\<close>

text \<open>The element whose content is raw text, after a token.\<close>

definition raw_text_after :: "html_token \<Rightarrow> string option" where
  "raw_text_after t =
     (case t of HtStartTag name _ self_closing \<Rightarrow>
        if \<not> self_closing \<and> (name = ''script'' \<or> name = ''style'') then Some name else None
      | _ \<Rightarrow> None)"

text \<open>One turn of the loop: a fault, the end of the loop, or the tokens and the next state. The tag
  parsers are entered with no raw text pending.\<close>

datatype 'a turn = Fault html_fault | Stop 'a | Go 'a

definition feed_turn :: "html_tokenizer \<Rightarrow> html_token list \<Rightarrow> (html_token list \<times> html_tokenizer) turn" where
  "feed_turn t tokens =
     (let b = ht_buffer t; cursor = ht_cursor t
      in if length b \<le> cursor then Stop (tokens, t)
         else if MAX_TOKENS_PER_FEED \<le> length tokens then
           Fault (TokenizeError StData cursor ''token count exceeded MAX_TOKENS_PER_FEED'')
         else (case raw_text_tag t of
           Some tag \<Rightarrow>
             (case parse_raw_text b tag cursor of
                Inl f \<Rightarrow> Fault f
              | Inr None \<Rightarrow> Stop (tokens, t)
              | Inr (Some (ts, next_cursor)) \<Rightarrow>
                  Go (tokens @ ts, t\<lparr>ht_cursor := next_cursor, raw_text_tag := None\<rparr>))
         | None \<Rightarrow>
             (case str_slice b cursor (length b) of
                Inl f \<Rightarrow> Fault f
              | Inr remainder \<Rightarrow>
                  (case memchr [CHR ''<''] remainder of
                     Some pos \<Rightarrow>
                       if pos = 0 then
                         (case parse_tag b cursor of
                            Inl f \<Rightarrow> Fault f
                          | Inr None \<Rightarrow> Stop (tokens, t)
                          | Inr (Some (tok, next_cursor)) \<Rightarrow>
                              Go (tokens @ [tok], t\<lparr>ht_cursor := next_cursor, raw_text_tag := raw_text_after tok\<rparr>))
                       else
                         Go (tokens @ [HtCharacter (decode_character_references (take pos remainder))],
                             t\<lparr>ht_cursor := cursor + pos\<rparr>)
                   | None \<Rightarrow>
                       Stop (tokens @ [HtCharacter (decode_character_references remainder)],
                             t\<lparr>ht_cursor := length b\<rparr>)))))"

text \<open>Every parse that ends gives a position behind its start and within the buffer.\<close>

lemma memchr_bound: "memchr cs s = Some i \<Longrightarrow> i < length s \<and> s ! i \<in> set cs"
  by (auto simp: memchr_def dest: position_SomeD)

lemma skip_html_whitespace_le: "cursor \<le> length b \<Longrightarrow> skip_html_whitespace b cursor \<le> length b"
  using length_takeWhile_le [of html_whitespace "drop cursor b"] by (simp add: skip_html_whitespace_def)

lemma skip_to_gt_bound: "cursor \<le> length b \<Longrightarrow> cursor \<le> skip_to_gt b cursor \<and> skip_to_gt b cursor \<le> length b"
  by (auto simp: skip_to_gt_def split: option.split dest!: memchr_bound)

lemma scan_tag_name_end_bound:
  assumes "start \<le> length b" shows "start \<le> scan_tag_name_end b start \<and> scan_tag_name_end b start \<le> length b"
proof -
  have cut: "(case memchr cs (take e r) of Some pos \<Rightarrow> pos | None \<Rightarrow> e) \<le> e" for cs e r
    by (auto split: option.split dest: memchr_bound)
  have first: "(case memchr cs r of Some pos \<Rightarrow> pos | None \<Rightarrow> length r) \<le> length r" for cs r
    by (auto split: option.split dest: memchr_bound)
  let ?r = "drop start b"
  define e1 where "e1 = (case memchr [CHR '' '', CHR ''>'', CHR ''/''] ?r of Some pos \<Rightarrow> pos | None \<Rightarrow> length ?r)"
  define e2 where "e2 = (case memchr [LF_CHAR, TAB_CHAR] (take e1 ?r) of Some pos \<Rightarrow> pos | None \<Rightarrow> e1)"
  define e3 where "e3 = (case memchr [CR_CHAR, FF_CHAR] (take e2 ?r) of Some pos \<Rightarrow> pos | None \<Rightarrow> e2)"
  have "e3 \<le> e2" "e2 \<le> e1" "e1 \<le> length ?r"
    unfolding e3_def e2_def e1_def using cut first by blast+
  moreover have "scan_tag_name_end b start = start + e3"
    unfolding scan_tag_name_end_def Let_def e1_def [symmetric] e2_def [symmetric] e3_def [symmetric] by simp
  ultimately show ?thesis using assms by simp
qed

lemma nearer_le: "nearer rest cs e \<le> e"
  by (simp add: nearer_def split: option.split)

lemma scan_attr_name_end_le: "start \<le> length b \<Longrightarrow> scan_attr_name_end b start \<le> length b"
  unfolding scan_attr_name_end_def Let_def
  using order_trans [OF nearer_le order_trans [OF nearer_le order_trans [OF nearer_le nearer_le]]]
  by (metis add.commute le_diff_conv2 length_drop)

lemma str_slice_ok: "str_slice b i j = Inr s \<Longrightarrow> i \<le> j \<and> j \<le> length b \<and> s = take (j - i) (drop i b)"
  by (auto simp: str_slice_def split: if_splits)

lemma parse_html_value_bound:
  "parse_html_value b name cursor = Inr (AttrParsed attr next) \<Longrightarrow> cursor < length b \<Longrightarrow> next \<le> length b"
  by (auto simp: parse_html_value_def Let_def res_bind_Inr split: if_splits option.splits
      dest!: str_slice_ok dest: memchr_bound)

lemma parse_attribute_bound:
  assumes "parse_attribute b start = Inr (AttrParsed attr next)" "start \<le> length b" shows "next \<le> length b"
proof -
  let ?c = "skip_html_whitespace b (scan_attr_name_end b start)"
  let ?v = "skip_html_whitespace b (?c + 1)"
  obtain name where "(if length b \<le> ?c then Inr AttrIncomplete
      else if b ! ?c \<noteq> CHR ''='' then Inr (AttrParsed \<lparr>ha_name = name, ha_value = None\<rparr> ?c)
      else if length b \<le> ?v then Inr AttrIncomplete else parse_html_value b name ?v)
      = Inr (AttrParsed attr next)"
    using assms(1) by (auto simp: parse_attribute_def Let_def res_bind_Inr split: if_splits option.splits)
  then show ?thesis by (auto split: if_splits dest: parse_html_value_bound)
qed

lemma attribute_loop_bound:
  "attribute_loop b start as = Inr (Some (bs, sc, c)) \<Longrightarrow> start \<le> length b \<Longrightarrow> start < c \<and> c \<le> length b"
proof (induction b start as rule: attribute_loop.induct)
  case (1 b start as)
  define cur where "cur = skip_html_whitespace b start"
  have ge: "start \<le> cur" by (simp add: cur_def skip_html_whitespace_ge)
  consider (close) "c = cur + 1" "cur < length b" | (self) "c = cur + 2" "cur + 1 < length b"
    | (attr) a n where "cur < length b" "b ! cur \<noteq> CHR ''>''" "b ! cur \<noteq> CHR ''/''"
        "parse_attribute b cur = Inr (AttrParsed a n)" "attribute_loop b n (as @ [a]) = Inr (Some (bs, sc, c))"
    using 1(2) by (subst (asm) attribute_loop.simps)
      (auto simp: Let_def cur_def [symmetric] not_le split: if_splits sum.splits attribute_parse.splits)
  then show ?case
  proof cases
    case attr
    have "n < c \<and> c \<le> length b"
      using 1(1) [OF cur_def _ attr(2,3,4) refl attr(5)] attr(1) parse_attribute_bound [OF attr(4)] by simp
    then show ?thesis using parse_attribute_progress [OF attr(4)] ge by simp
  qed (use ge in simp_all)
qed

lemma parse_start_tag_bound:
  "parse_start_tag b start = Inr (Some (t, c)) \<Longrightarrow> start < c \<and> c \<le> length b"
proof -
  assume p: "parse_start_tag b start = Inr (Some (t, c))"
  let ?e = "scan_tag_name_end b (start + 1)"
  have s: "start + 1 \<le> length b" using p by (auto simp: parse_start_tag_def Let_def split: if_splits)
  obtain as sc where "attribute_loop b ?e [] = Inr (Some (as, sc, c))"
    using p by (auto simp: parse_start_tag_def Let_def res_bind_Inr split: if_splits option.splits)
  from attribute_loop_bound [OF this] scan_tag_name_end_bound [OF s] show ?thesis by simp
qed

lemma parse_end_tag_bound:
  "parse_end_tag b start = Inr (Some (t, c)) \<Longrightarrow> start < c \<and> c \<le> length b"
proof -
  assume p: "parse_end_tag b start = Inr (Some (t, c))"
  let ?e = "scan_tag_name_end b (start + 2)"
  have s: "start + 2 \<le> length b" using p by (auto simp: parse_end_tag_def Let_def split: if_splits)
  have "c = skip_html_whitespace b ?e + 1" "skip_html_whitespace b ?e < length b"
    using p by (auto simp: parse_end_tag_def Let_def res_bind_Inr not_le split: if_splits option.splits)
  moreover have "?e \<le> skip_html_whitespace b ?e" by (rule skip_html_whitespace_ge)
  ultimately show ?thesis using scan_tag_name_end_bound [OF s] by simp
qed

text \<open>The last byte of a doctype is a \<open>></\<close> found from some position on, so a position before it is passed.\<close>

lemma parse_quoted_string_bound:
  "parse_quoted_string b cursor = Inr (QuotedParsed v next) \<Longrightarrow> cursor < next \<and> next \<le> length b"
  by (auto simp: parse_quoted_string_def Let_def res_bind_Inr split: if_splits option.splits
      dest!: str_slice_ok dest: memchr_bound)

lemma parse_system_id_bound:
  assumes "parse_system_id b p q cursor = Inr (Some (p', s', q', c))" "cursor \<le> length b"
  shows "cursor \<le> c \<and> c \<le> length b"
proof -
  obtain r where r: "parse_quoted_string b cursor = Inr r"
    using assms(1) by (auto simp: parse_system_id_def res_bind_Inr)
  show ?thesis
    using assms r by (cases r) (auto simp: parse_system_id_def res_bind_def dest: parse_quoted_string_bound skip_to_gt_bound)
qed

lemma parse_public_id_bound:
  assumes "parse_public_id b q cursor = Inr (Some (p', s', q', c))" "cursor \<le> length b"
  shows "cursor \<le> c \<and> c \<le> length b"
proof -
  have sys: "cursor \<le> c \<and> c \<le> length b"
    if "(if k < length b \<and> b ! k \<noteq> CHR ''>'' then parse_system_id b p q k else Inr (Some (p, None, q, k)))
          = Inr (Some (p', s', q', c))" "cursor \<le> k" "k \<le> length b" for p q k
    using that by (auto split: if_splits dest: parse_system_id_bound)
  obtain r where r: "parse_quoted_string b cursor = Inr r"
    using assms(1) by (auto simp: parse_public_id_def Let_def res_bind_Inr)
  show ?thesis
  proof (cases r)
    case (QuotedParsed v n)
    have n: "cursor < n" "n \<le> length b" using parse_quoted_string_bound r QuotedParsed by blast+
    show ?thesis
      using assms(1) n skip_html_whitespace_ge [of n b] skip_html_whitespace_le [OF n(2)]
      by (intro sys [of "skip_html_whitespace b n" "Some v" q]) (simp_all add: parse_public_id_def Let_def res_bind_def r QuotedParsed)
  next
    case QuotedIncomplete
    then show ?thesis using assms(1) by (simp add: parse_public_id_def Let_def res_bind_def r)
  next
    case MissingQuote
    show ?thesis
      using assms skip_to_gt_bound [OF assms(2)]
      by (intro sys [of "skip_to_gt b cursor" None True]) (simp_all add: parse_public_id_def Let_def res_bind_def r MissingQuote)
  qed
qed

lemma prefix_within: "starts_with_case_insensitive b cursor w = Inr True \<Longrightarrow> cursor + length w \<le> length b"
  by (auto simp: starts_with_case_insensitive_def Let_def split: if_splits)

lemma parse_doctype_ids_bound:
  assumes "parse_doctype_ids b q cursor = Inr (Some (p', s', q', c))" "cursor \<le> length b"
  shows "cursor \<le> c \<and> c \<le> length b"
proof -
  have kw: "cursor \<le> c \<and> c \<le> length b"
    if "skip_html_whitespace b (cursor + length w) \<le> c \<and> c \<le> length b" for w
    using that skip_html_whitespace_ge [of "cursor + length w" b] by simp
  obtain public where pub: "starts_with_case_insensitive b cursor ''public'' = Inr public"
    using assms(1) by (auto simp: parse_doctype_ids_def res_bind_Inr)
  show ?thesis
  proof (cases public)
    case True
    have le: "skip_html_whitespace b (cursor + length ''public'') \<le> length b"
      using prefix_within [of b cursor "''public''"] pub True by (intro skip_html_whitespace_le) simp
    have "parse_public_id b q (skip_html_whitespace b (cursor + length ''public'')) = Inr (Some (p', s', q', c))"
      using assms(1) pub True by (simp add: parse_doctype_ids_def res_bind_def)
    from kw [OF parse_public_id_bound [OF this le]] show ?thesis .
  next
    case False
    then obtain system where sys: "starts_with_case_insensitive b cursor ''system'' = Inr system"
      using assms(1) pub by (auto simp: parse_doctype_ids_def res_bind_Inr)
    show ?thesis
    proof (cases system)
      case True
      have le: "skip_html_whitespace b (cursor + length ''system'') \<le> length b"
        using prefix_within [of b cursor "''system''"] sys True by (intro skip_html_whitespace_le) simp
      have "parse_system_id b None q (skip_html_whitespace b (cursor + length ''system'')) = Inr (Some (p', s', q', c))"
        using assms(1) pub False sys True by (simp add: parse_doctype_ids_def res_bind_def)
      from kw [OF parse_system_id_bound [OF this le]] show ?thesis .
    next
      case no: False
      then show ?thesis
        using assms pub False sys skip_to_gt_bound [OF assms(2)] by (simp add: parse_doctype_ids_def res_bind_def)
    qed
  qed
qed

lemma parse_doctype_rest_bound:
  assumes "parse_doctype_rest b name e = Inr (Some (t, c))" shows "e < c \<and> c \<le> length b"
proof -
  let ?c = "skip_html_whitespace b e" and ?q = "name = None"
  have len: "?c < length b" using assms by (auto simp: parse_doctype_rest_def Let_def not_le split: if_splits)
  obtain ids where ids: "(if b ! ?c \<noteq> CHR ''>'' then parse_doctype_ids b ?q ?c else Inr (Some (None, None, ?q, ?c)))
      = Inr (Some ids)" and e: "doctype_end b name ids = Inr (Some (t, c))"
    using assms len by (auto simp: parse_doctype_rest_def Let_def res_bind_Inr split: option.splits)
  obtain p' s' q' k where k: "ids = (p', s', q', k)" by (cases ids) auto
  have c: "c = skip_to_gt b k + 1" "skip_to_gt b k < length b"
    using e by (auto simp: doctype_end_def k Let_def split: if_splits)
  have "?c \<le> k \<and> k \<le> length b"
    using ids len parse_doctype_ids_bound [of b ?q ?c] by (auto simp: k split: if_splits)
  then show ?thesis using c skip_html_whitespace_ge [of e b] skip_to_gt_bound [of k b] by simp
qed

lemma parse_doctype_bound:
  assumes "parse_doctype b start = Inr (Some (t, c))" shows "start < c \<and> c \<le> length b"
proof -
  let ?n = "skip_html_whitespace b (start + 2 + length ''doctype'')"
  let ?e = "?n + length (takeWhile doctype_name_char (drop ?n b))"
  have n: "start < ?n" using skip_html_whitespace_ge [of "start + 2 + length ''doctype''" b] by simp
  obtain name where "parse_doctype_rest b name ?e = Inr (Some (t, c))"
    using assms unfolding parse_doctype_def Let_def res_bind_Inr by (auto simp: res_bind_Inr split: if_splits)
  from parse_doctype_rest_bound [OF this] n show ?thesis by simp
qed

lemma find_window_bound: "find_window w s = Some i \<Longrightarrow> i + length w \<le> length s"
  by (induction s arbitrary: i) (auto split: if_splits)

lemma parse_comment_bound: "parse_comment b start = Inr (Some (t, c)) \<Longrightarrow> start < c \<and> c \<le> length b"
  by (auto simp: parse_comment_def Let_def find_subsequence_def res_bind_Inr split: if_splits option.splits
      dest!: find_window_bound)

lemma parse_tag_bound:
  assumes "parse_tag b start = Inr (Some (t, c))" shows "start < c \<and> c \<le> length b"
proof -
  consider "parse_start_tag b start = Inr (Some (t, c))" | "parse_end_tag b start = Inr (Some (t, c))"
    | "parse_comment b start = Inr (Some (t, c))" | "parse_doctype b start = Inr (Some (t, c))"
    using assms by (auto simp: parse_tag_def parse_markup_declaration_def Let_def res_bind_Inr split: if_splits)
  then show ?thesis
    by cases (auto dest: parse_start_tag_bound parse_end_tag_bound parse_comment_bound parse_doctype_bound)
qed

lemma raw_text_end_step:
  assumes "raw_text_end b tag cursor = Inr (Some c)"
  obtains pos where "memchr [CHR ''<''] (drop cursor b) = Some pos" "cursor < length b"
    "c = cursor + pos \<and> cursor + pos + 2 + length tag < length b
      \<or> raw_text_end b tag (cursor + pos + 1) = Inr (Some c)"
proof -
  obtain pos where p: "memchr [CHR ''<''] (drop cursor b) = Some pos" "cursor < length b"
    using assms by (subst (asm) raw_text_end.simps) (auto split: if_splits option.splits)
  have "c = cursor + pos \<and> cursor + pos + 2 + length tag < length b
      \<or> raw_text_end b tag (cursor + pos + 1) = Inr (Some c)"
    using assms p by (subst (asm) raw_text_end.simps) (auto simp: Let_def split: if_splits sum.splits)
  with p show ?thesis by (rule that)
qed

lemma raw_text_end_bound:
  "raw_text_end b tag cursor = Inr (Some c) \<Longrightarrow> cursor \<le> c \<and> c + 2 + length tag < length b"
proof (induction "length b - cursor" arbitrary: cursor rule: less_induct)
  case less
  from less.prems obtain pos where p: "cursor < length b" and or: "c = cursor + pos \<and> cursor + pos + 2 + length tag < length b
      \<or> raw_text_end b tag (cursor + pos + 1) = Inr (Some c)" by (rule raw_text_end_step)
  from or show ?case
  proof
    assume "raw_text_end b tag (cursor + pos + 1) = Inr (Some c)"
    moreover have "length b - (cursor + pos + 1) < length b - cursor" using p by simp
    ultimately show ?thesis using less.hyps [of "cursor + pos + 1"] by fastforce
  qed auto
qed

lemma parse_raw_text_bound:
  "parse_raw_text b tag start = Inr (Some (ts, c)) \<Longrightarrow> start < c \<and> c \<le> length b"
  by (auto simp: parse_raw_text_def res_bind_Inr split: option.splits dest!: raw_text_end_bound)

lemma feed_turn_progress:
  "feed_turn t tokens = Go (ts, u) \<Longrightarrow>
    ht_buffer u = ht_buffer t \<and> ht_cursor t < ht_cursor u \<and> ht_cursor u \<le> length (ht_buffer t)"
  by (auto simp: feed_turn_def Let_def split: if_splits option.splits sum.splits
      dest!: parse_raw_text_bound parse_tag_bound str_slice_ok dest: memchr_bound)

function html_feed_loop :: "html_tokenizer \<Rightarrow> html_token list \<Rightarrow> (html_fault + html_token list) \<times> html_tokenizer" where
  "html_feed_loop t tokens =
     (case feed_turn t tokens of
        Fault f \<Rightarrow> (Inl f, t)
      | Stop (ts, u) \<Rightarrow> (Inr ts, u)
      | Go (ts, u) \<Rightarrow> html_feed_loop u ts)"
  by auto
termination
  by (relation "measure (\<lambda>(t, _). length (ht_buffer t) - ht_cursor t)") (auto dest!: feed_turn_progress)

declare html_feed_loop.simps [simp del]

text \<open>\<open>feed\<close>: what is consumed is drained from the buffer at the end, but not after an error.\<close>

definition html_feed :: "string \<Rightarrow> html_tokenizer \<Rightarrow> (html_fault + html_token list) \<times> html_tokenizer" where
  "html_feed input t =
     (case html_feed_loop (t\<lparr>ht_buffer := ht_buffer t @ input\<rparr>) [] of
        (Inl f, u) \<Rightarrow> (Inl f, u)
      | (Inr tokens, u) \<Rightarrow>
          if 0 < ht_cursor u then
            (if ht_cursor u \<le> length (ht_buffer u) \<and> at_boundary (drop (ht_cursor u) (ht_buffer u))
             then (Inr tokens, u\<lparr>ht_buffer := drop (ht_cursor u) (ht_buffer u), ht_cursor := 0\<rparr>)
             else (Inl StrPanic, u))
          else (Inr tokens, u))"

definition html_finish :: "html_tokenizer \<Rightarrow> (html_fault + html_token list) \<times> html_tokenizer" where
  "html_finish t =
     (case html_feed [] t of (Inl f, u) \<Rightarrow> (Inl f, u) | (Inr tokens, u) \<Rightarrow> (Inr (tokens @ [HtEof]), u))"

end
