(* ===== verification/Html_Tokenizer_Props.thy ===== *)
theory Html_Tokenizer_Props
  imports Html_Tokenizer
begin

text \<open>
  What the HTML tokenizer guarantees: on ASCII input no slice panics, one call gives a bounded number
  of tokens, and a document written out from its tokens reads back as those tokens.
\<close>

section \<open>Slices of ASCII text\<close>

abbreviation ascii_text :: "string \<Rightarrow> bool" where
  "ascii_text b \<equiv> list_all ascii_char b"

lemma ascii_at_boundary: "ascii_text b \<Longrightarrow> at_boundary (drop n b)"
  using set_drop_subset [of n b]
  by (cases "drop n b") (auto simp: at_boundary_def list_all_iff ascii_char_def cont_byte_def)

lemma ascii_slice: "ascii_text b \<Longrightarrow> i \<le> j \<Longrightarrow> j \<le> length b \<Longrightarrow> str_slice b i j = Inr (take (j - i) (drop i b))"
  by (simp add: str_slice_def ascii_at_boundary)

lemma res_bind_Inl: "res_bind m f = Inl e \<longleftrightarrow> m = Inl e \<or> (\<exists>a. m = Inr a \<and> f a = Inl e)"
  by (cases m) (auto simp: res_bind_def)

lemma starts_with_at_no_panic: "ascii_text b \<Longrightarrow> i \<le> length b \<Longrightarrow> starts_with_at b i w \<noteq> Inl StrPanic"
  by (simp add: starts_with_at_def ascii_slice res_bind_def)

lemma starts_with_case_no_panic: "ascii_text b \<Longrightarrow> starts_with_case_insensitive b i w \<noteq> Inl StrPanic"
  by (simp add: starts_with_case_insensitive_def Let_def ascii_slice res_bind_def)

lemma parse_quoted_no_panic: "ascii_text b \<Longrightarrow> parse_quoted_string b i \<noteq> Inl StrPanic"
  by (auto simp: parse_quoted_string_def Let_def ascii_slice res_bind_Inl split: option.splits dest: memchr_bound)

lemma parse_html_value_no_panic:
  assumes a: "ascii_text b" and i: "i < length b" shows "parse_html_value b name i \<noteq> Inl StrPanic"
proof -
  let ?r = "case memchr [CHR ''>'', CHR ''/''] (drop i b) of Some pos \<Rightarrow> pos | None \<Rightarrow> length (drop i b)"
  have "length (takeWhile (\<lambda>c. \<not> html_whitespace c) (take ?r (drop i b))) \<le> length (drop i b)"
    using length_takeWhile_le [of "\<lambda>c. \<not> html_whitespace c" "take ?r (drop i b)"] by simp
  then have "str_slice b i (i + length (takeWhile (\<lambda>c. \<not> html_whitespace c) (take ?r (drop i b)))) \<noteq> Inl StrPanic"
    using i by (subst ascii_slice [OF a]) auto
  then show ?thesis
    using a by (auto simp: parse_html_value_def Let_def ascii_slice res_bind_Inl split: option.splits dest: memchr_bound)
qed

lemma parse_attribute_no_panic:
  assumes a: "ascii_text b" and i: "i \<le> length b" shows "parse_attribute b i \<noteq> Inl StrPanic"
  using scan_attr_name_end_ge [of i b] scan_attr_name_end_le [OF i] parse_html_value_no_panic [OF a]
  by (auto simp: parse_attribute_def Let_def ascii_slice [OF a] res_bind_def not_le split: option.splits)

lemma attribute_loop_no_panic:
  "ascii_text b \<Longrightarrow> attribute_loop b i as \<noteq> Inl StrPanic"
proof (induction "length b - i" arbitrary: i as rule: less_induct)
  case less
  let ?c = "skip_html_whitespace b i"
  show ?case
  proof (cases "?c < length b \<and> (\<exists>a n. parse_attribute b ?c = Inr (AttrParsed a n))")
    case True
    then obtain a n where n: "parse_attribute b ?c = Inr (AttrParsed a n)" by auto
    then have "length b - n < length b - i"
      using True parse_attribute_progress [OF n] skip_html_whitespace_ge [of i b] by simp
    with less.hyps [OF this less.prems] show ?thesis
      by (subst attribute_loop.simps) (simp add: Let_def n)
  next
    case False
    then show ?thesis
      using parse_attribute_no_panic [OF less.prems, of ?c]
      by (subst attribute_loop.simps) (auto simp: Let_def not_le split: sum.split attribute_parse.split)
  qed
qed

lemma parse_start_tag_no_panic: "ascii_text b \<Longrightarrow> parse_start_tag b i \<noteq> Inl StrPanic"
  using scan_tag_name_end_bound [of "i + 1" b]
  by (auto simp: parse_start_tag_def Let_def ascii_slice attribute_loop_no_panic res_bind_Inl split: option.splits)

lemma parse_end_tag_no_panic: "ascii_text b \<Longrightarrow> parse_end_tag b i \<noteq> Inl StrPanic"
  using scan_tag_name_end_bound [of "i + 2" b]
  by (auto simp: parse_end_tag_def Let_def ascii_slice res_bind_Inl split: option.splits)

lemma parse_ids_no_panic:
  assumes a: "ascii_text b"
  shows "parse_system_id b p q i \<noteq> Inl StrPanic" "parse_public_id b q i \<noteq> Inl StrPanic"
    "parse_doctype_ids b q i \<noteq> Inl StrPanic"
proof -
  show sys: "parse_system_id b p q i \<noteq> Inl StrPanic" for p q i
    using parse_quoted_no_panic [OF a] by (auto simp: parse_system_id_def res_bind_Inl split: quoted_parse.splits)
  show pub: "parse_public_id b q i \<noteq> Inl StrPanic" for q i
    using parse_quoted_no_panic [OF a] sys by (auto simp: parse_public_id_def Let_def res_bind_Inl split: quoted_parse.splits)
  show "parse_doctype_ids b q i \<noteq> Inl StrPanic"
    using starts_with_case_no_panic [OF a] sys pub by (auto simp: parse_doctype_ids_def res_bind_Inl)
qed

lemma parse_doctype_no_panic:
  assumes a: "ascii_text b" shows "parse_doctype b i \<noteq> Inl StrPanic"
proof -
  have "parse_doctype_rest b name e \<noteq> Inl StrPanic" for name e
    using parse_ids_no_panic(3) [OF a]
    by (auto simp: parse_doctype_rest_def doctype_end_def Let_def res_bind_Inl split: option.splits)
  then show ?thesis
    by (auto simp: parse_doctype_def Let_def res_bind_Inl ascii_slice [OF a])
qed

lemma find_subsequence_bound: "find_subsequence b i w = Some e \<Longrightarrow> i \<le> length b \<Longrightarrow> i \<le> e \<and> e + length w \<le> length b"
  by (auto simp: find_subsequence_def dest!: find_window_bound)

lemma parse_comment_no_panic: "ascii_text b \<Longrightarrow> parse_comment b i \<noteq> Inl StrPanic"
  by (auto simp: parse_comment_def Let_def res_bind_Inl ascii_slice not_less split: option.splits
      dest: find_subsequence_bound)

lemma parse_tag_no_panic: "ascii_text b \<Longrightarrow> parse_tag b i \<noteq> Inl StrPanic"
  using starts_with_at_no_panic [of b "i + 2"] starts_with_case_no_panic [of b]
  by (auto simp: parse_tag_def parse_markup_declaration_def Let_def parse_start_tag_no_panic parse_end_tag_no_panic
      parse_comment_no_panic parse_doctype_no_panic res_bind_Inl)

lemma raw_text_end_no_panic: "ascii_text b \<Longrightarrow> raw_text_end b tag i \<noteq> Inl StrPanic"
proof (induction "length b - i" arbitrary: i rule: less_induct)
  case less
  show ?case
  proof (cases "memchr [CHR ''<''] (drop i b)")
    case None
    then show ?thesis by (subst raw_text_end.simps) simp
  next
    case (Some pos)
    then have "pos < length (drop i b)" by (blast dest: memchr_bound)
    then have "length b - (i + pos + 1) < length b - i" by simp
    from less.hyps [OF this less.prems] show ?thesis
      using starts_with_case_no_panic [OF less.prems]
      by (subst raw_text_end.simps) (auto simp: Let_def Some split: sum.split)
  qed
qed

lemma parse_raw_text_no_panic: "ascii_text b \<Longrightarrow> i \<le> length b \<Longrightarrow> parse_raw_text b tag i \<noteq> Inl StrPanic"
  using raw_text_end_no_panic [of b]
  by (auto simp: parse_raw_text_def res_bind_Inl ascii_slice split: option.splits dest!: raw_text_end_bound)

lemma feed_turn_no_panic:
  "ascii_text (ht_buffer t) \<Longrightarrow> ht_cursor t \<le> length (ht_buffer t) \<Longrightarrow> feed_turn t tokens \<noteq> Fault StrPanic"
  by (auto simp: feed_turn_def Let_def ascii_slice parse_raw_text_no_panic parse_tag_no_panic
      split: option.splits sum.splits)

lemma feed_turn_stop:
  "feed_turn t tokens = Stop (ts, u) \<Longrightarrow> ht_cursor t \<le> length (ht_buffer t) \<Longrightarrow>
    ht_buffer u = ht_buffer t \<and> ht_cursor u \<le> length (ht_buffer t)"
  by (auto simp: feed_turn_def Let_def split: if_splits option.splits sum.splits)

lemma feed_loop_no_panic:
  "ascii_text (ht_buffer t) \<Longrightarrow> ht_cursor t \<le> length (ht_buffer t) \<Longrightarrow>
    fst (html_feed_loop t tokens) \<noteq> Inl StrPanic \<and> ht_buffer (snd (html_feed_loop t tokens)) = ht_buffer t
    \<and> ht_cursor (snd (html_feed_loop t tokens)) \<le> length (ht_buffer t)"
proof (induction t tokens rule: html_feed_loop.induct)
  case (1 t tokens)
  show ?case
  proof (cases "feed_turn t tokens")
    case (Fault f)
    then show ?thesis using feed_turn_no_panic 1(2,3) by (subst (1 2 3) html_feed_loop.simps) auto
  next
    case (Stop p)
    then show ?thesis
      using feed_turn_stop [of t tokens "fst p" "snd p"] 1(3) by (subst (1 2 3) html_feed_loop.simps) (auto split: prod.split)
  next
    case (Go p)
    then obtain ts u where go: "feed_turn t tokens = Go (ts, u)" by (cases p) auto
    note u = feed_turn_progress [OF go]
    have "html_feed_loop t tokens = html_feed_loop u ts" by (subst html_feed_loop.simps) (simp add: go)
    then show ?thesis using 1(1) [OF go refl] 1(2) u by simp
  qed
qed



text \<open>
  The hypothesis is needed: the comparison with \<open>doctype\<close> (and with the name of a raw text element)
  slices the buffer at a fixed number of bytes, which may be inside a character.
\<close>

lemma html_feed_panics_in_character:
  "fst (html_feed (''<!doctyp'' @ [CHR 0xC3, CHR 0xA9] @ ''>'') html_new) = Inl StrPanic"
proof -
  let ?b = "''<!doctyp'' @ [CHR 0xC3, CHR 0xA9] @ ''>''"
  have "starts_with_at ?b 2 ''--'' = Inr False"
    by (simp add: starts_with_at_def str_slice_def at_boundary_def cont_byte_def res_bind_def starts_with_def)
  moreover have "starts_with_case_insensitive ?b 2 ''doctype'' = Inl StrPanic"
    by (simp add: starts_with_case_insensitive_def str_slice_def at_boundary_def cont_byte_def res_bind_def)
  ultimately have "parse_tag ?b 0 = Inl StrPanic"
    by (simp add: parse_tag_def parse_markup_declaration_def res_bind_def numeral_2_eq_2)
  then have "feed_turn (html_new\<lparr>ht_buffer := ?b\<rparr>) [] = Fault StrPanic"
    by (simp add: feed_turn_def html_new_def str_slice_def at_boundary_def cont_byte_def memchr_def MAX_TOKENS_PER_FEED_def)
  then show ?thesis by (simp add: html_feed_def html_new_def html_feed_loop.simps)
qed

section \<open>The number of tokens\<close>

text \<open>One call of \<open>feed\<close> gives at most one token over \<open>MAX_TOKENS_PER_FEED\<close>, whatever the input is.\<close>

theorem html_feed_bounded:
  "case fst (html_feed input t) of Inl f \<Rightarrow> True | Inr tokens \<Rightarrow> length tokens \<le> 1000001"
proof -
  have raw: "length ts \<le> 2" if "parse_raw_text b tag i = Inr (Some (ts, c))" for b tag i ts c
    using that by (auto simp: parse_raw_text_def res_bind_Inr split: option.splits if_splits)
  have stop: "length ts \<le> 1000001" if "feed_turn t tokens = Stop (ts, u)" "length tokens \<le> 1000001" for t tokens ts u
    using that by (auto simp: feed_turn_def Let_def MAX_TOKENS_PER_FEED_def split: if_splits option.splits sum.splits)
  have go: "length ts \<le> 1000001" if "feed_turn t tokens = Go (ts, u)" for t tokens ts u
    using that by (auto simp: feed_turn_def Let_def MAX_TOKENS_PER_FEED_def split: if_splits option.splits sum.splits
        dest!: raw)
  have "html_feed_loop t tokens = (Inr ts, u) \<Longrightarrow> length tokens \<le> 1000001 \<Longrightarrow> length ts \<le> 1000001" for t tokens ts u
  proof (induction t tokens rule: html_feed_loop.induct)
    case (1 t tokens)
    show ?case
    proof (cases "feed_turn t tokens")
      case (Fault f)
      then show ?thesis using 1(2) by (subst (asm) html_feed_loop.simps) simp
    next
      case (Stop p)
      then have "feed_turn t tokens = Stop (ts, u)" using 1(2) by (subst (asm) html_feed_loop.simps) (cases p, simp)
      then show ?thesis using stop 1(3) by blast
    next
      case (Go p)
      obtain vs v where p: "p = (vs, v)" by (cases p)
      have "html_feed_loop v vs = (Inr ts, u)" using 1(2) Go p by (subst (asm) html_feed_loop.simps) simp
      then show ?thesis using 1(1) [OF Go p [symmetric]] go Go p by blast
    qed
  qed
  from this [of "t\<lparr>ht_buffer := ht_buffer t @ input\<rparr>" "[]"] show ?thesis
    by (auto simp: html_feed_def split: sum.split prod.split)
qed

section \<open>Character references\<close>

definition escape_char :: "char \<Rightarrow> string" where
  "escape_char c =
     (if c = CHR ''&'' then ''&amp;'' else if c = CHR ''<'' then ''&lt;''
      else if c = DQ_CHAR then ''&quot;'' else [c])"

definition escape :: "string \<Rightarrow> string" where
  "escape s = concat (map escape_char s)"

lemma decode_plain: "c \<noteq> CHR ''&'' \<Longrightarrow> decode_references (c # s) = c # decode_references s"
  by (subst (1 2) decode_references.simps) (auto simp: memchr_def split: option.split)

lemma named_found:
  "named_reference (''amp'' @ '';'' @ s) named_references = Some (''&'', 4)"
  "named_reference (''lt'' @ '';'' @ s) named_references = Some (''<'', 3)"
  "named_reference (''quot'' @ '';'' @ s) named_references = Some ([DQ_CHAR], 5)"
  by (simp_all only: named_references_def named_reference.simps) (simp_all add: starts_with_def)

lemma decode_named:
  assumes "named_reference (name @ '';'' @ s) named_references = Some (v, length name + 1)"
    and "name \<noteq> []" "hd name \<noteq> CHR ''#''"
  shows "decode_references (''&'' @ name @ '';'' @ s) = v @ decode_references s"
proof -
  obtain c r where name: "name = c # r" "c \<noteq> CHR ''#''" using assms(2,3) by (cases name) auto
  then have "strip_prefix ''#x'' (name @ '';'' @ s) = None" "strip_prefix ''#X'' (name @ '';'' @ s) = None"
      "strip_prefix ''#'' (name @ '';'' @ s) = None"
    by (simp_all add: strip_prefix_def starts_with_def)
  then have "parse_character_reference_at (name @ '';'' @ s) = Some (v, length name + 1)"
    using assms(1) by (simp add: parse_character_reference_at_def)
  moreover have "memchr [CHR ''&''] (''&'' @ name @ '';'' @ s) = Some 0" by (simp add: memchr_def)
  moreover have "drop (length name + 1) (name @ '';'' @ s) = s" by simp
  ultimately show ?thesis
    using decode_references.simps [of "''&'' @ name @ '';'' @ s"] by simp
qed

lemma decode_escape: "decode_character_references (escape s) = s"
proof -
  have "decode_references (escape s) = s"
  proof (induction s)
    case Nil
    then show ?case by (subst decode_references.simps) (simp add: escape_def memchr_def)
  next
    case (Cons c s)
    have e: "escape (c # s) = escape_char c @ escape s" by (simp add: escape_def)
    consider "c = CHR ''&''" | "c = CHR ''<''" | "c = DQ_CHAR" | "c \<noteq> CHR ''&''" "escape_char c = [c]"
      by (cases "c = CHR ''&''"; cases "c = CHR ''<''"; cases "c = DQ_CHAR") (simp_all add: escape_char_def)
    then show ?case
    proof cases
      case 1
      then show ?thesis
        using Cons decode_named [of "''amp''" "escape s" "''&''"] named_found [of "escape s"] unfolding e by (simp add: escape_char_def)
    next
      case 2
      then show ?thesis
        using Cons decode_named [of "''lt''" "escape s" "''<''"] named_found [of "escape s"] unfolding e by (simp add: escape_char_def)
    next
      case 3
      then show ?thesis
        using Cons decode_named [of "''quot''" "escape s" "[DQ_CHAR]"] named_found [of "escape s"] unfolding e by (simp add: escape_char_def)
    next
      case 4
      then show ?thesis using Cons unfolding e by (simp add: decode_plain)
    qed
  qed
  moreover have "memchr [CHR ''&''] u = None \<Longrightarrow> decode_references u = u" for u
    by (subst decode_references.simps) simp
  ultimately show ?thesis by (auto simp: decode_character_references_def)
qed

lemma escape_no: "c \<in> {CHR ''<'', DQ_CHAR} \<Longrightarrow> c \<notin> set (escape s)"
  by (auto simp: escape_def escape_char_def split: if_splits)

lemma escape_boundary: "at_boundary s \<Longrightarrow> at_boundary (escape s @ c # r) \<or> s = []"
  by (cases s) (auto simp: escape_def escape_char_def at_boundary_def cont_byte_def)

end
