(* ===== verification/Html_Roundtrip.thy ===== *)
theory Html_Roundtrip
  imports Html_Tokenizer_Props
begin

text \<open>
  Writing a document out from its tokens, and reading it back: the tokenizer returns the same tokens.
  Text and attribute values are escaped, raw text is not; the lemmas follow the parsers, each at a
  position behind an arbitrary text and before another.
\<close>

section \<open>Writing tokens\<close>

definition write_attribute :: "html_attribute \<Rightarrow> string" where
  "write_attribute a =
     '' '' @ ha_name a @ (case ha_value a of None \<Rightarrow> [] | Some v \<Rightarrow> ''='' @ [DQ_CHAR] @ escape v @ [DQ_CHAR])"

definition write_attributes :: "html_attribute list \<Rightarrow> string" where
  "write_attributes as = concat (map write_attribute as)"

definition tag_close :: "bool \<Rightarrow> string" where
  "tag_close self_closing = (if self_closing then ''/>'' else ''>'')"

fun write_token :: "html_token \<Rightarrow> string" where
  "write_token (HtStartTag name as sc) = ''<'' @ name @ write_attributes as @ tag_close sc"
| "write_token (HtEndTag name) = ''</'' @ name @ ''>''"
| "write_token (HtComment d) = ''<!--'' @ d @ ''-->''"
| "write_token (HtDoctype (Some name) _ _ _) = ''<!DOCTYPE '' @ name @ ''>''"
| "write_token (HtCharacter s) = escape s"
| "write_token _ = []"

text \<open>Inside a raw text element (the first argument) text is written as it is.\<close>

fun write_tokens :: "bool \<Rightarrow> html_token list \<Rightarrow> string" where
  "write_tokens raw [] = []"
| "write_tokens raw (t # ts) =
     (if raw then (case t of HtCharacter s \<Rightarrow> s @ write_tokens True ts | _ \<Rightarrow> write_token t @ write_tokens False ts)
      else write_token t @ write_tokens (raw_text_after t \<noteq> None) ts)"

section \<open>Tokens that can be written\<close>

definition plain_name :: "string \<Rightarrow> bool" where
  "plain_name name \<longleftrightarrow> name \<noteq> [] \<and> list_all (\<lambda>c. tag_name_char c \<and> \<not> ascii_upper c) name"

definition attribute_ok :: "html_attribute \<Rightarrow> bool" where
  "attribute_ok a \<longleftrightarrow> ha_name a \<noteq> [] \<and> list_all attr_name_char (ha_name a)
     \<and> (case ha_value a of None \<Rightarrow> True | Some v \<Rightarrow> at_boundary v)"

definition text_ok :: "string \<Rightarrow> bool" where
  "text_ok s \<longleftrightarrow> s \<noteq> [] \<and> at_boundary s"

fun token_ok :: "html_token \<Rightarrow> bool" where
  "token_ok (HtStartTag name as sc) \<longleftrightarrow> plain_name name \<and> ascii_lower (hd name) \<and> list_all attribute_ok as"
| "token_ok (HtEndTag name) \<longleftrightarrow> plain_name name"
| "token_ok (HtComment d) \<longleftrightarrow> at_boundary (d @ ''-'') \<and> find_window ''-->'' (d @ ''--'') = None"
| "token_ok (HtDoctype (Some name) p s q) \<longleftrightarrow>
     name \<noteq> [] \<and> list_all doctype_name_char name \<and> at_boundary name \<and> p = None \<and> s = None \<and> \<not> q"
| "token_ok (HtCharacter s) \<longleftrightarrow> text_ok s"
| "token_ok _ \<longleftrightarrow> False"

text \<open>Text does not follow text; a raw text element holds at most one text without \<open></\<close> and then ends.\<close>

fun is_text :: "html_token \<Rightarrow> bool" where
  "is_text (HtCharacter _) = True"
| "is_text _ = False"

fun writable :: "string option \<Rightarrow> html_token list \<Rightarrow> bool" where
  "writable None [] \<longleftrightarrow> True"
| "writable None (t # ts) \<longleftrightarrow>
     token_ok t \<and> (is_text t \<longrightarrow> (case ts of [] \<Rightarrow> True | u # _ \<Rightarrow> \<not> is_text u)) \<and> writable (raw_text_after t) ts"
| "writable (Some tag) (HtEndTag name # ts) \<longleftrightarrow> name = tag \<and> writable None ts"
| "writable (Some tag) (HtCharacter s # HtEndTag name # ts) \<longleftrightarrow>
     text_ok s \<and> find_window ''</'' s = None \<and> name = tag \<and> writable None ts"
| "writable (Some tag) _ \<longleftrightarrow> False"

section \<open>Scanning\<close>

lemma memchr_here: "c \<in> set cs \<Longrightarrow> \<forall>x \<in> set s. x \<notin> set cs \<Longrightarrow> memchr cs (s @ c # r) = Some (length s)"
  by (induction s) (auto simp: memchr_def)

lemma memchr_none: "\<forall>x \<in> set s. x \<notin> set cs \<Longrightarrow> memchr cs s = None"
  by (auto simp: memchr_def position_None_iff)

lemma position_append: "position p (s @ r) = (case position p s of Some i \<Rightarrow> Some i | None \<Rightarrow> map_option ((+) (length s)) (position p r))"
  by (cases "position p r"; induction s) (auto split: option.split)

lemma nearer_name:
  assumes "\<forall>x \<in> set s. x \<notin> set cs" "length s \<le> e"
  shows "length s \<le> nearer (s @ r) cs e" and "r \<noteq> [] \<Longrightarrow> hd r \<in> set cs \<Longrightarrow> nearer (s @ r) cs e = length s"
proof -
  have "position (\<lambda>c. c \<in> set cs) s = None" using assms(1) by (auto simp: position_None_iff)
  then have m: "memchr cs (s @ r) = map_option ((+) (length s)) (position (\<lambda>c. c \<in> set cs) r)"
    by (simp add: memchr_def position_append)
  show "length s \<le> nearer (s @ r) cs e" using assms(2) by (auto simp: nearer_def m split: option.split)
  show "nearer (s @ r) cs e = length s" if "r \<noteq> []" "hd r \<in> set cs"
    using that assms(2) m by (cases r) (simp_all add: nearer_def)
qed

lemma delimiters_not_tag_char:
  "\<not> tag_name_char (CHR '' '')" "\<not> tag_name_char (CHR ''>'')" "\<not> tag_name_char (CHR ''/'')"
  "\<not> tag_name_char LF_CHAR" "\<not> tag_name_char TAB_CHAR" "\<not> tag_name_char CR_CHAR" "\<not> tag_name_char FF_CHAR"
  "\<not> tag_name_char (CHR ''='')" "\<not> tag_name_char DQ_CHAR" "\<not> tag_name_char SQ_CHAR"
  "\<not> tag_name_char (CHR ''<'')" "\<not> tag_name_char (CHR ''!'')"
  by (simp_all add: tag_name_char_def ascii_lower_def ascii_upper_def ascii_digit_def)

definition delimiters :: "char set" where
  "delimiters = {CHR '' '', CHR ''>'', CHR ''/'', LF_CHAR, TAB_CHAR, CR_CHAR, FF_CHAR, CHR ''='', DQ_CHAR, SQ_CHAR}"

lemma tag_char_not_delim: "tag_name_char c \<Longrightarrow> c \<notin> delimiters"
  unfolding delimiters_def using delimiters_not_tag_char by blast

lemma attr_char_not_delim: "attr_name_char c \<Longrightarrow> c \<notin> delimiters"
  using tag_char_not_delim [of c] by (cases "tag_name_char c") (auto simp: attr_name_char_def delimiters_def)

lemma whitespace_delimits: "html_whitespace c \<Longrightarrow> c \<in> delimiters"
  by (auto simp: html_whitespace_def delimiters_def)

lemma tag_char_not_cont: "tag_name_char c \<Longrightarrow> \<not> cont_byte c"
  by (auto simp: tag_name_char_def ascii_lower_def ascii_upper_def ascii_digit_def cont_byte_def)

lemma attr_char_ascii: "attr_name_char c \<Longrightarrow> \<not> cont_byte c \<and> \<not> html_whitespace c"
  using attr_char_not_delim [of c] whitespace_delimits [of c] tag_char_not_cont [of c]
  by (auto simp: attr_name_char_def cont_byte_def)

lemma scan_tag_name:
  assumes "list_all tag_name_char name" "c \<in> {CHR '' '', CHR ''>'', CHR ''/''}"
  shows "scan_tag_name_end (pre @ name @ c # r) (length pre) = length pre + length name"
proof -
  have n: "x \<notin> delimiters" if "x \<in> set name" for x
    using that assms(1) tag_char_not_delim [of x] by (simp add: list_all_iff)
  have "memchr [CHR '' '', CHR ''>'', CHR ''/''] (name @ c # r) = Some (length name)"
    using assms(2) n unfolding delimiters_def by (intro memchr_here) auto
  moreover have "memchr [LF_CHAR, TAB_CHAR] name = None" "memchr [CR_CHAR, FF_CHAR] name = None"
    using n unfolding delimiters_def by (intro memchr_none; auto)+
  ultimately show ?thesis by (simp add: scan_tag_name_end_def Let_def)
qed

lemma scan_attr_name:
  assumes "list_all attr_name_char name" "c \<in> {CHR '' '', CHR ''='', CHR ''>'', CHR ''/''}"
  shows "scan_attr_name_end (pre @ name @ c # r) (length pre) = length pre + length name"
proof -
  have n: "x \<notin> delimiters" if "x \<in> set name" for x
    using that assms(1) attr_char_not_delim [of x] by (simp add: list_all_iff)
  note n = n [unfolded delimiters_def]
  define e1 where "e1 = nearer (name @ c # r) [CHR '' '', CHR ''='', CHR ''>''] (length (name @ c # r))"
  define e2 where "e2 = nearer (name @ c # r) [CHR ''/'', LF_CHAR] e1"
  define e3 where "e3 = nearer (name @ c # r) [TAB_CHAR, CR_CHAR] e2"
  define e4 where "e4 = nearer (name @ c # r) [FF_CHAR] e3"
  have 1: "length name \<le> e1" unfolding e1_def using n by (intro nearer_name(1)) auto
  then have 2: "length name \<le> e2" unfolding e2_def using n by (intro nearer_name(1)) auto
  then have 3: "length name \<le> e3" unfolding e3_def using n by (intro nearer_name(1)) auto
  then have 4: "length name \<le> e4" unfolding e4_def using n by (intro nearer_name(1)) auto
  have "e2 \<le> length name"
  proof (cases "c = CHR ''/''")
    case True
    have "e2 = length name" unfolding e2_def using n 1 True by (intro nearer_name(2)) auto
    then show ?thesis by simp
  next
    case False
    have "e1 = length name" unfolding e1_def using n assms(2) False by (intro nearer_name(2)) auto
    then show ?thesis using nearer_le [of "name @ c # r" "[CHR ''/'', LF_CHAR]" e1] by (simp add: e2_def)
  qed
  moreover have "e4 \<le> e3" "e3 \<le> e2" unfolding e4_def e3_def by (rule nearer_le)+
  ultimately have "e4 = length name" using 4 by simp
  then show ?thesis
    unfolding e4_def e3_def e2_def e1_def by (simp add: scan_attr_name_end_def Let_def)
qed

lemma skip_here: "\<not> html_whitespace c \<Longrightarrow> skip_html_whitespace (pre @ c # r) (length pre) = length pre"
  by (simp add: skip_html_whitespace_def)

lemma skip_space: "\<not> html_whitespace c \<Longrightarrow> skip_html_whitespace (pre @ CHR '' '' # c # r) (length pre) = length pre + 1"
  by (simp add: skip_html_whitespace_def html_whitespace_def)

lemma skip_skip: "skip_html_whitespace b (skip_html_whitespace b i) = skip_html_whitespace b i"
proof -
  let ?n = "length (takeWhile html_whitespace (drop i b))"
  have "takeWhile html_whitespace (dropWhile html_whitespace xs) = []" for xs
    by (induction xs) auto
  then have "takeWhile html_whitespace (drop ?n (drop i b)) = []"
    by (simp only: dropWhile_eq_drop [symmetric])
  then show ?thesis by (simp add: skip_html_whitespace_def add.commute)
qed

lemma slice_here:
  "s = [] \<or> \<not> cont_byte (hd s) \<Longrightarrow> r = [] \<or> \<not> cont_byte (hd r) \<Longrightarrow> i = length pre \<Longrightarrow> j = i + length s \<Longrightarrow>
    str_slice (pre @ s @ r) i j = Inr s"
  by (cases s; cases r) (auto simp: str_slice_def at_boundary_def)

section \<open>Attributes\<close>

lemma no_bad_char:
  "list_all ok s \<Longrightarrow> bad_char ok (pre @ s @ r) (length pre) (length pre + length s) = None"
  by (simp add: bad_char_def position_None_iff list_all_iff)

lemma escape_start: "at_boundary v \<Longrightarrow> escape v = [] \<or> \<not> cont_byte (hd (escape v))"
  by (cases v) (auto simp: escape_def escape_char_def at_boundary_def cont_byte_def)

text \<open>After a written attribute comes the next one, or the end of the tag.\<close>

definition after_attribute :: "string \<Rightarrow> bool" where
  "after_attribute r \<longleftrightarrow> (\<exists>u. r = CHR ''>'' # u \<or> r = CHR ''/'' # u \<or>
     (\<exists>c. r = CHR '' '' # c # u \<and> \<not> html_whitespace c \<and> c \<noteq> CHR ''=''))"

lemma after_attribute_skip:
  assumes "after_attribute r"
  shows "skip_html_whitespace (pre @ r) (length pre) < length (pre @ r)
    \<and> (pre @ r) ! skip_html_whitespace (pre @ r) (length pre) \<noteq> CHR ''=''"
  using assms
  by (auto simp: after_attribute_def skip_here skip_space nth_append html_whitespace_def)

lemma after_attribute_hd:
  assumes "after_attribute r"
  shows "\<exists>c u. r = c # u \<and> c \<in> {CHR '' '', CHR ''='', CHR ''>'', CHR ''/''} \<and> \<not> cont_byte c"
  using assms unfolding after_attribute_def by (elim exE disjE conjE) (simp_all add: cont_byte_def)

text \<open>The two branches of \<open>parse_attribute\<close> that give an attribute.\<close>

lemma parse_attribute_no_value:
  assumes "scan_attr_name_end b i = e" "e \<noteq> i" "bad_char attr_name_char b i e = None" "str_slice b i e = Inr name"
    and "skip_html_whitespace b e = c" "c < length b" "b ! c \<noteq> CHR ''=''"
  shows "parse_attribute b i = Inr (AttrParsed \<lparr>ha_name = name, ha_value = None\<rparr> c)"
  using assms by (simp add: parse_attribute_def Let_def res_bind_def)

lemma parse_attribute_with_value:
  assumes "scan_attr_name_end b i = e" "e \<noteq> i" "bad_char attr_name_char b i e = None" "str_slice b i e = Inr name"
    and "skip_html_whitespace b e = c" "c < length b" "b ! c = CHR ''=''"
    and "skip_html_whitespace b (c + 1) = k" "k < length b"
  shows "parse_attribute b i = parse_html_value b name k"
  using assms by (simp add: parse_attribute_def Let_def res_bind_def)

lemma parse_written_attribute:
  assumes a: "attribute_ok a" and r: "after_attribute r"
  shows "\<exists>n. parse_attribute (pre @ ha_name a @ (case ha_value a of None \<Rightarrow> [] | Some v \<Rightarrow> ''='' @ [DQ_CHAR] @ escape v @ [DQ_CHAR]) @ r) (length pre)
        = Inr (AttrParsed a n)
    \<and> skip_html_whitespace (pre @ ha_name a @ (case ha_value a of None \<Rightarrow> [] | Some v \<Rightarrow> ''='' @ [DQ_CHAR] @ escape v @ [DQ_CHAR]) @ r) n
      = skip_html_whitespace (pre @ ha_name a @ (case ha_value a of None \<Rightarrow> [] | Some v \<Rightarrow> ''='' @ [DQ_CHAR] @ escape v @ [DQ_CHAR]) @ r)
          (length pre + length (ha_name a) + length (case ha_value a of None \<Rightarrow> [] | Some v \<Rightarrow> ''='' @ [DQ_CHAR] @ escape v @ [DQ_CHAR]))"
proof -
  let ?name = "ha_name a"
  have name: "?name \<noteq> []" "list_all attr_name_char ?name" using a by (auto simp: attribute_ok_def)
  then have start: "\<not> cont_byte (hd ?name)" using attr_char_ascii by (cases ?name) auto
  show ?thesis
  proof (cases "ha_value a")
    case None
    let ?b = "pre @ ?name @ r" and ?c = "skip_html_whitespace (pre @ ?name @ r) (length pre + length ?name)"
    obtain c u where cu: "r = c # u" "c \<in> {CHR '' '', CHR ''='', CHR ''>'', CHR ''/''}" "\<not> cont_byte c"
      using after_attribute_hd [OF r] by blast
    have c: "?c < length ?b" "?b ! ?c \<noteq> CHR ''=''"
      using after_attribute_skip [OF r, of "pre @ ?name"] by simp_all
    have "str_slice ?b (length pre) (length pre + length ?name) = Inr ?name"
      by (rule slice_here) (use start cu in auto)
    then have "parse_attribute ?b (length pre) = Inr (AttrParsed \<lparr>ha_name = ?name, ha_value = None\<rparr> ?c)"
      using parse_attribute_no_value [of ?b "length pre" "length pre + length ?name" ?name ?c]
        scan_attr_name [OF name(2) cu(2), of pre u] no_bad_char [OF name(2), of pre r] name(1) c cu(1) by simp
    then show ?thesis using None by (intro exI [of _ ?c]) (simp add: skip_skip)
  next
    case (Some v)
    let ?e = "escape v"
    let ?b = "pre @ ?name @ ''='' @ [DQ_CHAR] @ ?e @ [DQ_CHAR] @ r"
    let ?i = "length pre + length ?name"
    have v: "at_boundary v" using a Some by (simp add: attribute_ok_def)
    have slice: "str_slice ?b (length pre) ?i = Inr ?name"
      by (rule slice_here) (use start in \<open>auto simp: cont_byte_def\<close>)
    have skip1: "skip_html_whitespace ?b ?i = ?i"
      using skip_here [of "CHR ''=''" "pre @ ?name"] by (simp add: html_whitespace_def)
    have skip2: "skip_html_whitespace ?b (?i + 1) = ?i + 1"
      using skip_here [of DQ_CHAR "pre @ ?name @ ''=''"] by (simp add: html_whitespace_def)
    have quote: "memchr [DQ_CHAR] (drop (?i + 1 + 1) ?b) = Some (length ?e)"
      using memchr_here [of DQ_CHAR "[DQ_CHAR]" ?e r] escape_no [of DQ_CHAR v] by auto
    have slice2: "str_slice ?b (?i + 1 + 1) (?i + 1 + 1 + length ?e) = Inr ?e"
      using slice_here [OF escape_start [OF v], of "[DQ_CHAR] @ r" "?i + 1 + 1" "pre @ ?name @ ''='' @ [DQ_CHAR]" "?i + 1 + 1 + length ?e"]
      by (simp add: cont_byte_def)
    have "parse_html_value ?b ?name (?i + 1) = Inr (AttrParsed \<lparr>ha_name = ?name, ha_value = Some v\<rparr> (?i + 1 + 1 + length ?e + 1))"
      using quote slice2 decode_escape [of v] by (simp add: parse_html_value_def Let_def res_bind_def nth_append)
    then have "parse_attribute ?b (length pre) = Inr (AttrParsed \<lparr>ha_name = ?name, ha_value = Some v\<rparr> (?i + 1 + 1 + length ?e + 1))"
      using parse_attribute_with_value [of ?b "length pre" ?i ?name ?i "?i + 1"]
        scan_attr_name [OF name(2), of "CHR ''=''" pre "[DQ_CHAR] @ ?e @ [DQ_CHAR] @ r"]
        no_bad_char [OF name(2), of pre "''='' @ [DQ_CHAR] @ ?e @ [DQ_CHAR] @ r"] name(1) slice skip1 skip2
      by (simp add: nth_append)
    then show ?thesis using Some by (intro exI [of _ "?i + 1 + 1 + length ?e + 1"]) (simp add: add.assoc)
  qed
qed

lemma after_tag_close: "after_attribute (tag_close sc @ r)"
  by (simp add: after_attribute_def tag_close_def)

lemma after_attributes: "list_all attribute_ok as \<Longrightarrow> after_attribute (write_attributes as @ tag_close sc @ r)"
proof (cases as)
  case (Cons a as')
  assume ok: "list_all attribute_ok as"
  then obtain c u where c: "ha_name a = c # u" "attr_name_char c"
    using Cons by (cases "ha_name a") (auto simp: attribute_ok_def)
  then have "\<not> html_whitespace c" "c \<noteq> CHR ''=''"
    using attr_char_ascii attr_char_not_delim [of c] by (auto simp: delimiters_def)
  then show ?thesis
    by (auto simp: after_attribute_def write_attributes_def write_attribute_def Cons c(1))
qed (simp add: write_attributes_def after_tag_close)

lemma attribute_loop_skip: "attribute_loop b i as = attribute_loop b (skip_html_whitespace b i) as"
  by (subst (1 2) attribute_loop.simps) (simp add: skip_skip)

lemma attribute_loop_written:
  "list_all attribute_ok as \<Longrightarrow>
    attribute_loop (pre @ write_attributes as @ tag_close sc @ r) (length pre) acc
      = Inr (Some (acc @ as, sc, length pre + length (write_attributes as) + length (tag_close sc)))"
proof (induction as arbitrary: pre acc)
  case Nil
  show ?case
    by (subst attribute_loop.simps)
       (auto simp: write_attributes_def tag_close_def Let_def skip_here html_whitespace_def nth_append)
next
  case (Cons a as)
  let ?v = "case ha_value a of None \<Rightarrow> [] | Some v \<Rightarrow> ''='' @ [DQ_CHAR] @ escape v @ [DQ_CHAR]"
  let ?rest = "write_attributes as @ tag_close sc @ r"
  let ?b = "pre @ write_attributes (a # as) @ tag_close sc @ r"
  have b: "?b = (pre @ '' '') @ ha_name a @ ?v @ ?rest"
    by (simp add: write_attributes_def write_attribute_def)
  obtain c u where c: "ha_name a = c # u" "attr_name_char c"
    using Cons.prems by (cases "ha_name a") (auto simp: attribute_ok_def)
  have plain: "\<not> html_whitespace c" "c \<noteq> CHR ''>''" "c \<noteq> CHR ''/''"
    using attr_char_ascii [OF c(2)] attr_char_not_delim [OF c(2)] by (auto simp: delimiters_def)
  have skip: "skip_html_whitespace ?b (length pre) = length (pre @ '' '')"
    using skip_space [OF plain(1), of pre] unfolding b by (simp add: c(1))
  have here: "?b ! length (pre @ '' '') = c" "length (pre @ '' '') < length ?b" unfolding b by (simp_all add: c(1) nth_append)
  obtain n where n: "parse_attribute ?b (length (pre @ '' '')) = Inr (AttrParsed a n)"
      "skip_html_whitespace ?b n = skip_html_whitespace ?b (length (pre @ '' '') + length (ha_name a) + length ?v)"
    using parse_written_attribute [of a ?rest "pre @ '' ''"] Cons.prems after_attributes [of as sc r] unfolding b by auto
  have "attribute_loop ?b (length pre) acc = attribute_loop ?b n (acc @ [a])"
    using here plain n(1) by (subst attribute_loop.simps) (simp add: Let_def skip)
  also have "\<dots> = attribute_loop ?b (length (pre @ '' '') + length (ha_name a) + length ?v) (acc @ [a])"
    by (metis attribute_loop_skip n(2))
  also have "\<dots> = attribute_loop ((pre @ '' '' @ ha_name a @ ?v) @ ?rest) (length (pre @ '' '' @ ha_name a @ ?v)) (acc @ [a])"
    unfolding b by (simp add: add.assoc)
  also have "\<dots> = Inr (Some ((acc @ [a]) @ as, sc, length (pre @ '' '' @ ha_name a @ ?v) + length (write_attributes as) + length (tag_close sc)))"
    using Cons.prems by (intro Cons.IH) simp
  also have "length (pre @ '' '' @ ha_name a @ ?v) + length (write_attributes as) = length pre + length (write_attributes (a # as))"
    by (simp add: write_attributes_def write_attribute_def)
  finally show ?case by simp
qed

section \<open>Tags, comments and doctypes\<close>

lemma normalize_plain: "list_all (\<lambda>c. tag_name_char c \<and> \<not> ascii_upper c) name \<Longrightarrow> normalize_tag_name name = name"
proof (induction name)
  case (Cons c name)
  have "byte_of c < 0x80" using Cons.prems
    by (auto simp: tag_name_char_def ascii_lower_def ascii_upper_def ascii_digit_def)
  then have "utf8_encode (byte_of (lower_char c)) = [c]"
    using Cons.prems by (simp add: lower_char_def utf8_encode_def byte_of_def)
  then show ?case using Cons by (simp add: normalize_tag_name_def)
qed (simp add: normalize_tag_name_def)

lemma plain_name_facts:
  assumes "plain_name name"
  shows "name \<noteq> []" "list_all tag_name_char name" "normalize_tag_name name = name" "\<not> cont_byte (hd name)"
  using assms normalize_plain [of name] tag_char_not_cont [of "hd name"]
  by (auto simp: plain_name_def list_all_iff intro: tag_char_not_cont)

lemma tag_close_hd: "\<exists>c u. tag_close sc @ r = c # u \<and> c \<in> {CHR '' '', CHR ''>'', CHR ''/''} \<and> \<not> cont_byte c"
  by (simp add: tag_close_def cont_byte_def)

lemma attributes_hd:
  "\<exists>c u. write_attributes as @ tag_close sc @ r = c # u \<and> c \<in> {CHR '' '', CHR ''>'', CHR ''/''} \<and> \<not> cont_byte c"
proof (cases as)
  case Nil
  then show ?thesis using tag_close_hd by (simp add: write_attributes_def)
next
  case (Cons a as')
  then show ?thesis by (simp add: write_attributes_def write_attribute_def cont_byte_def)
qed

lemma parse_start_tag_written:
  assumes "token_ok (HtStartTag name as sc)"
  shows "parse_start_tag (pre @ write_token (HtStartTag name as sc) @ r) (length pre)
    = Inr (Some (HtStartTag name as sc, length pre + length (write_token (HtStartTag name as sc))))"
proof -
  let ?rest = "write_attributes as @ tag_close sc @ r"
  let ?b = "(pre @ ''<'') @ name @ ?rest"
  let ?i = "length (pre @ ''<'')"
  note n = plain_name_facts [of name]
  have ok: "plain_name name" "list_all attribute_ok as" using assms by auto
  obtain c u where c: "?rest = c # u" "c \<in> {CHR '' '', CHR ''>'', CHR ''/''}" "\<not> cont_byte c"
    using attributes_hd by blast
  have e: "scan_tag_name_end ?b ?i = ?i + length name"
    unfolding c(1) by (rule scan_tag_name [OF n(2) [OF ok(1)] c(2)])
  have bad: "bad_char tag_name_char ?b ?i (?i + length name) = None" by (rule no_bad_char [OF n(2) [OF ok(1)]])
  have slice: "str_slice ?b ?i (?i + length name) = Inr name"
    by (rule slice_here) (use n(4) [OF ok(1)] c in auto)
  have loop: "attribute_loop ?b (?i + length name) []
      = Inr (Some (as, sc, ?i + length name + length (write_attributes as) + length (tag_close sc)))"
    using attribute_loop_written [OF ok(2), of "pre @ ''<'' @ name" sc r "[]"] by (simp add: add.assoc)
  have "?i < length ?b" using n(1) [OF ok(1)] by simp
  then have "parse_start_tag ?b (length pre)
      = Inr (Some (HtStartTag name as sc, ?i + length name + length (write_attributes as) + length (tag_close sc)))"
    using e bad slice loop n(1,3) [OF ok(1)] by (simp add: parse_start_tag_def Let_def res_bind_def)
  then show ?thesis by (simp add: add.assoc)
qed

lemma parse_end_tag_written:
  assumes "plain_name name"
  shows "parse_end_tag (pre @ write_token (HtEndTag name) @ r) (length pre)
    = Inr (Some (HtEndTag name, length pre + length (write_token (HtEndTag name))))"
proof -
  let ?b = "(pre @ ''</'') @ name @ ''>'' @ r"
  let ?i = "length (pre @ ''</'')"
  note n = plain_name_facts [OF assms]
  have e: "scan_tag_name_end ?b ?i = ?i + length name"
    using scan_tag_name [OF n(2), of "CHR ''>''" "pre @ ''</''" r] by simp
  have bad: "bad_char tag_name_char ?b ?i (?i + length name) = None" by (rule no_bad_char [OF n(2)])
  have slice: "str_slice ?b ?i (?i + length name) = Inr name"
    by (rule slice_here) (use n(4) in \<open>auto simp: cont_byte_def\<close>)
  have skip: "skip_html_whitespace ?b (?i + length name) = ?i + length name"
    using skip_here [of "CHR ''>''" "pre @ ''</'' @ name" r] by (simp add: html_whitespace_def)
  have here: "?b ! (?i + length name) = CHR ''>''" by (simp add: nth_append)
  have "?i < length ?b" "?i + length name < length ?b" using n(1) by simp_all
  then have "parse_end_tag ?b (length pre) = Inr (Some (HtEndTag name, ?i + length name + 1))"
    using e bad slice skip here n(1,3) by (simp add: parse_end_tag_def Let_def res_bind_def)
  then show ?thesis by simp
qed

lemma find_window_append:
  "find_window w (d @ butlast w) = None \<Longrightarrow> w \<noteq> [] \<Longrightarrow> find_window w (d @ w @ r) = Some (length d)"
proof (induction d)
  case Nil
  then show ?case by (cases w) auto
next
  case (Cons c d)
  have "length w \<le> length (c # d @ butlast w)" by simp
  moreover have "c # d @ w @ r = (c # d @ butlast w) @ last w # r" using Cons.prems(2) by (simp add: append_butlast_last_id)
  ultimately have "take (length w) (c # d @ w @ r) = take (length w) (c # d @ butlast w)"
    by (metis take_append append_Nil2 diff_is_0_eq take_eq_Nil2)
  then show ?case using Cons by (auto split: if_splits)
qed

lemma at_boundary_append: "at_boundary (s @ c # r) \<longleftrightarrow> at_boundary (s @ [c])"
  by (cases s) (simp_all add: at_boundary_def)

lemma at_boundary_hd: "at_boundary s \<Longrightarrow> s = [] \<or> \<not> cont_byte (hd s)"
  by (cases s) (simp_all add: at_boundary_def)

lemma skip_to_gt_here: "skip_to_gt (pre @ CHR ''>'' # r) (length pre) = length pre"
  by (simp add: skip_to_gt_def memchr_def)

lemma doctype_keyword: "list_all (\<lambda>(x, y). lower_char x = lower_char y) (zip ''DOCTYPE'' ''doctype'')"
  by code_simp

lemma parse_comment_written:
  assumes "token_ok (HtComment d)"
  shows "parse_comment (pre @ write_token (HtComment d) @ r) (length pre)
    = Inr (Some (HtComment d, length pre + length (write_token (HtComment d))))"
proof -
  let ?b = "(pre @ ''<!--'') @ d @ ''-->'' @ r"
  let ?i = "length (pre @ ''<!--'')"
  have ok: "at_boundary (d @ ''-'')" "find_window ''-->'' (d @ ''--'') = None" using assms by simp_all
  have "find_window ''-->'' (d @ ''-->'' @ r) = Some (length d)"
    by (rule find_window_append) (use ok(2) in simp_all)
  then have f: "find_subsequence ?b ?i ''-->'' = Some (?i + length d)" by (simp add: find_subsequence_def)
  have slice: "str_slice ?b ?i (?i + length d) = Inr d"
    by (rule slice_here) (use at_boundary_hd [OF ok(1)] in \<open>auto simp: cont_byte_def hd_append split: if_splits\<close>)
  have "length pre + 4 = ?i" by simp
  then have "parse_comment ?b (length pre) = Inr (Some (HtComment d, ?i + length d + 3))"
    using f slice by (simp only: parse_comment_def Let_def) (simp add: res_bind_def)
  then show ?thesis by simp
qed

lemma parse_doctype_written:
  assumes "token_ok (HtDoctype (Some name) None None False)"
  shows "parse_doctype (pre @ write_token (HtDoctype (Some name) None None False) @ r) (length pre)
    = Inr (Some (HtDoctype (Some name) None None False,
        length pre + length (write_token (HtDoctype (Some name) None None False))))"
proof -
  let ?b = "(pre @ ''<!DOCTYPE '') @ name @ ''>'' @ r"
  let ?i = "length (pre @ ''<!DOCTYPE '')"
  have ok: "name \<noteq> []" "list_all doctype_name_char name" "at_boundary name" using assms by simp_all
  obtain c u where name: "name = c # u" "doctype_name_char c" using ok by (cases name) auto
  have skip: "skip_html_whitespace ?b (length pre + 2 + length ''doctype'') = ?i"
    using skip_space [of c "pre @ ''<!DOCTYPE''" "u @ ''>'' @ r"] name by (simp add: doctype_name_char_def)
  have tw: "takeWhile doctype_name_char (drop ?i ?b) = name"
    using ok(2) by (simp add: takeWhile_append list_all_iff doctype_name_char_def)
  have slice: "str_slice ?b ?i (?i + length name) = Inr name"
    by (rule slice_here) (use at_boundary_hd [OF ok(3)] in \<open>auto simp: cont_byte_def\<close>)
  have skip2: "skip_html_whitespace ?b (?i + length name) = ?i + length name"
    using skip_here [of "CHR ''>''" "pre @ ''<!DOCTYPE '' @ name" r] by (simp add: html_whitespace_def)
  have here: "?b ! (?i + length name) = CHR ''>''" by (simp add: nth_append)
  have gt: "skip_to_gt ?b (?i + length name) = ?i + length name"
    using skip_to_gt_here [of "pre @ ''<!DOCTYPE '' @ name" r] by simp
  have len: "?i + length name < length ?b" by simp
  have "parse_doctype_rest ?b (Some name) (?i + length name) = Inr (Some (HtDoctype (Some name) None None False, ?i + length name + 1))"
    unfolding parse_doctype_rest_def Let_def skip2 here
    using len gt by (simp add: res_bind_def doctype_end_def Let_def)
  then have "parse_doctype ?b (length pre) = Inr (Some (HtDoctype (Some name) None None False, ?i + length name + 1))"
    unfolding parse_doctype_def Let_def skip tw using len slice ok(1) by (simp add: res_bind_def)
  then show ?thesis by simp
qed

text \<open>The dispatch on the bytes after the \<open><\<close>.\<close>

lemma parse_tag_dispatch:
  assumes "\<not> is_text t" "token_ok t"
  shows "parse_tag (pre @ write_token t @ r) (length pre) = Inr (Some (t, length pre + length (write_token t)))"
proof (cases t)
  case (HtStartTag name as sc)
  then have ok: "plain_name name" "ascii_lower (hd name)" using assms(2) by auto
  then obtain c u where c: "name = c # u" "ascii_lower c" by (cases name) (auto simp: plain_name_def)
  have "(pre @ write_token t @ r) ! length pre = CHR ''<''" "(pre @ write_token t @ r) ! (length pre + 1) = c"
    by (simp_all add: HtStartTag c(1) nth_append)
  moreover have "c \<noteq> CHR ''!''" "c \<noteq> CHR ''/''" using c(2) by (auto simp: ascii_lower_def)
  moreover have "length pre + 1 < length (pre @ write_token t @ r)" by (simp add: HtStartTag c(1))
  ultimately have "parse_tag (pre @ write_token t @ r) (length pre) = parse_start_tag (pre @ write_token t @ r) (length pre)"
    using c(2) by (simp add: parse_tag_def Let_def)
  then show ?thesis using parse_start_tag_written [of name as sc pre r] assms(2) unfolding HtStartTag by simp
next
  case (HtEndTag name)
  have "parse_tag (pre @ write_token t @ r) (length pre) = parse_end_tag (pre @ write_token t @ r) (length pre)"
    by (simp add: HtEndTag parse_tag_def Let_def nth_append)
  then show ?thesis using parse_end_tag_written [of name pre r] assms(2) unfolding HtEndTag by simp
next
  case (HtComment d)
  let ?b = "pre @ write_token t @ r"
  have "starts_with_at ?b (length pre + 2) ''--'' = Inr True"
    using slice_here [of "''--'' @ d @ ''-->'' @ r" "[]" "length pre + 2" "pre @ ''<!''"]
    by (simp add: HtComment starts_with_at_def res_bind_def cont_byte_def starts_with_def)
  then have "parse_tag ?b (length pre) = parse_comment ?b (length pre)"
    by (simp add: HtComment parse_tag_def parse_markup_declaration_def Let_def nth_append res_bind_def)
  then show ?thesis using parse_comment_written [of d pre r] assms(2) unfolding HtComment by simp
next
  case (HtDoctype n p s q)
  then obtain name where n: "n = Some name" "p = None" "s = None" "\<not> q" using assms(2) by (cases n) auto
  let ?b = "pre @ write_token t @ r"
  have b: "?b = (pre @ ''<!'') @ ''DOCTYPE'' @ '' '' @ name @ ''>'' @ r" by (simp add: HtDoctype n)
  have "str_slice ?b (length pre + 2) (length ?b) = Inr (''DOCTYPE'' @ '' '' @ name @ ''>'' @ r)"
    unfolding b using slice_here [of "''DOCTYPE'' @ '' '' @ name @ ''>'' @ r" "[]" "length pre + 2" "pre @ ''<!''"]
    by (simp add: cont_byte_def)
  then have no: "starts_with_at ?b (length pre + 2) ''--'' = Inr False"
    by (simp add: starts_with_at_def res_bind_def starts_with_def)
  have "str_slice ?b (length pre + 2) (length pre + 2 + length ''doctype'') = Inr ''DOCTYPE''"
    unfolding b by (rule slice_here) (simp_all add: cont_byte_def)
  then have yes: "starts_with_case_insensitive ?b (length pre + 2) ''doctype'' = Inr True"
    using doctype_keyword unfolding starts_with_case_insensitive_def Let_def
    by (simp add: b res_bind_def)
  have "parse_tag ?b (length pre) = parse_doctype ?b (length pre)"
    using no yes by (simp add: HtDoctype n(1) parse_tag_def parse_markup_declaration_def Let_def nth_append res_bind_def)
  then show ?thesis using parse_doctype_written [of name pre r] assms(2) n unfolding HtDoctype by simp
qed (use assms in auto)

section \<open>Raw text\<close>

lemma end_tag_same:
  assumes "plain_name tag"
  shows "starts_with_case_insensitive (pre @ tag @ ''>'' @ r) (length pre) tag = Inr True"
proof -
  have "str_slice (pre @ tag @ ''>'' @ r) (length pre) (length pre + length tag) = Inr tag"
    by (rule slice_here) (use plain_name_facts [OF assms] in \<open>auto simp: cont_byte_def\<close>)
  then show ?thesis
    by (auto simp: starts_with_case_insensitive_def Let_def res_bind_def list_all_iff zip_same)
qed

lemma find_window_suffix: "find_window w (x @ r) = None \<Longrightarrow> find_window w r = None"
  by (induction x) (simp_all split: if_splits)

lemma raw_text_end_here:
  assumes tag: "plain_name tag"
  shows "find_window ''</'' s = None \<Longrightarrow>
    raw_text_end (pre @ s @ ''</'' @ tag @ ''>'' @ r) tag (length pre) = Inr (Some (length pre + length s))"
proof (induction "length s" arbitrary: pre s rule: less_induct)
  case less
  let ?b = "pre @ s @ ''</'' @ tag @ ''>'' @ r"
  show ?case
  proof (cases "CHR ''<'' \<in> set s")
    case False
    then have m: "memchr [CHR ''<''] (drop (length pre) ?b) = Some (length s)"
      using memchr_here [of "CHR ''<''" "[CHR ''<'']" s "''/'' @ tag @ ''>'' @ r"] by auto
    have "starts_with_case_insensitive ?b (length pre + length s + 2) tag = Inr True"
      using end_tag_same [OF tag, of "pre @ s @ ''</''" r] by simp
    moreover have "?b ! (length pre + length s + 1) = CHR ''/''" "?b ! (length pre + length s + 2 + length tag) = CHR ''>''"
      by (simp_all add: nth_append)
    ultimately show ?thesis using m by (subst raw_text_end.simps) (simp add: Let_def)
  next
    case True
    then obtain x y where xy: "s = x @ CHR ''<'' # y" "CHR ''<'' \<notin> set x" by (meson split_list_first)
    have m: "memchr [CHR ''<''] (drop (length pre) ?b) = Some (length x)"
      using memchr_here [of "CHR ''<''" "[CHR ''<'']" x] xy by auto
    have y: "find_window ''</'' y = None \<and> (y = [] \<or> hd y \<noteq> CHR ''/'')"
      using find_window_suffix [OF less.prems [unfolded xy(1)]] by (cases y) (auto split: if_splits)
    then have no: "?b ! (length pre + length x + 1) \<noteq> CHR ''/''"
      by (cases y) (simp_all add: xy(1) nth_append)
    have "raw_text_end ?b tag (length pre) = raw_text_end ?b tag (length pre + length x + 1)"
      using m no by (subst raw_text_end.simps) (simp add: Let_def)
    also have "\<dots> = raw_text_end ((pre @ x @ ''<'') @ y @ ''</'' @ tag @ ''>'' @ r) tag (length (pre @ x @ ''<''))"
      by (simp add: xy(1))
    also have "\<dots> = Inr (Some (length (pre @ x @ ''<'') + length y))"
      using y by (intro less.hyps) (simp_all add: xy(1))
    finally show ?thesis by (simp add: xy(1))
  qed
qed

lemma parse_raw_text_written:
  assumes tag: "plain_name tag" and s: "find_window ''</'' s = None" "at_boundary s"
  shows "parse_raw_text (pre @ s @ write_token (HtEndTag tag) @ r) tag (length pre)
    = Inr (Some ((if s = [] then [] else [HtCharacter s]) @ [HtEndTag tag],
        length pre + length s + length (write_token (HtEndTag tag))))"
proof -
  have "raw_text_end (pre @ s @ write_token (HtEndTag tag) @ r) tag (length pre) = Inr (Some (length pre + length s))"
    using raw_text_end_here [OF tag s(1), of pre r] by simp
  moreover have "str_slice (pre @ s @ write_token (HtEndTag tag) @ r) (length pre) (length pre + length s) = Inr s"
    by (rule slice_here) (use at_boundary_hd [OF s(2)] in \<open>auto simp: cont_byte_def\<close>)
  ultimately show ?thesis
    using plain_name_facts(3) [OF tag] by (simp add: parse_raw_text_def res_bind_def)
qed

section \<open>The whole document\<close>

lemma write_token_hd:
  "token_ok t \<Longrightarrow> \<not> is_text t \<Longrightarrow> \<exists>u. write_token t = CHR ''<'' # u"
  by (cases t rule: write_token.cases) auto

lemma writable_start:
  assumes "writable None ts" "case ts of [] \<Rightarrow> True | u # _ \<Rightarrow> \<not> is_text u"
  shows "ts = [] \<or> (\<exists>u. write_tokens False ts = CHR ''<'' # u)"
proof (cases ts)
  case (Cons t us)
  then have "\<exists>u. write_token t = CHR ''<'' # u" using assms by (intro write_token_hd) auto
  then show ?thesis using Cons by auto
qed simp

lemma loop_go:
  "feed_turn t tokens = Go (us, u) \<Longrightarrow> html_feed_loop t tokens = html_feed_loop u us"
  by (subst html_feed_loop.simps) simp

lemma loop_stop:
  "feed_turn t tokens = Stop (us, u) \<Longrightarrow> html_feed_loop t tokens = (Inr us, u)"
  by (subst html_feed_loop.simps) simp

abbreviation tokenizer_at :: "string \<Rightarrow> nat \<Rightarrow> string option \<Rightarrow> html_tokenizer" where
  "tokenizer_at b cursor raw \<equiv> \<lparr>ht_buffer = b, ht_cursor = cursor, raw_text_tag = raw\<rparr>"

lemma turn_tag:
  assumes "token_ok t" "\<not> is_text t" "length tokens < MAX_TOKENS_PER_FEED"
  shows "feed_turn (tokenizer_at (pre @ write_token t @ r) (length pre) None) tokens
    = Go (tokens @ [t], tokenizer_at (pre @ write_token t @ r) (length pre + length (write_token t)) (raw_text_after t))"
proof -
  obtain u where u: "write_token t = CHR ''<'' # u" using write_token_hd assms by blast
  have "str_slice (pre @ write_token t @ r) (length pre) (length (pre @ write_token t @ r)) = Inr (write_token t @ r)"
    using slice_here [of "write_token t @ r" "[]" "length pre" pre] by (simp add: u cont_byte_def)
  then show ?thesis
    using parse_tag_dispatch [OF assms(2,1), of pre r] assms(3)
    by (simp add: feed_turn_def Let_def u memchr_def)
qed

lemma turn_text:
  assumes s: "text_ok s" and n: "length tokens < MAX_TOKENS_PER_FEED"
  shows "feed_turn (tokenizer_at (pre @ escape s) (length pre) None) tokens
      = Stop (tokens @ [HtCharacter s], tokenizer_at (pre @ escape s) (length (pre @ escape s)) None)"
    and "feed_turn (tokenizer_at (pre @ escape s @ CHR ''<'' # r) (length pre) None) tokens
      = Go (tokens @ [HtCharacter s], tokenizer_at (pre @ escape s @ CHR ''<'' # r) (length pre + length (escape s)) None)"
proof -
  have e: "escape s \<noteq> []" using s by (cases s) (auto simp: text_ok_def escape_def escape_char_def)
  have b: "escape s = [] \<or> \<not> cont_byte (hd (escape s))" using s escape_start by (simp add: text_ok_def)
  have "str_slice (pre @ escape s @ []) (length pre) (length (pre @ escape s)) = Inr (escape s)"
    by (rule slice_here) (use b in auto)
  moreover have "memchr [CHR ''<''] (escape s) = None" using escape_no by (intro memchr_none) auto
  ultimately show "feed_turn (tokenizer_at (pre @ escape s) (length pre) None) tokens
      = Stop (tokens @ [HtCharacter s], tokenizer_at (pre @ escape s) (length (pre @ escape s)) None)"
    using n e decode_escape by (simp add: feed_turn_def Let_def)
  have "str_slice (pre @ (escape s @ CHR ''<'' # r) @ []) (length pre) (length (pre @ escape s @ CHR ''<'' # r))
      = Inr (escape s @ CHR ''<'' # r)"
    by (rule slice_here) (use b e in auto)
  moreover have "memchr [CHR ''<''] (escape s @ CHR ''<'' # r) = Some (length (escape s))"
    using escape_no [of "CHR ''<''" s] by (intro memchr_here) auto
  ultimately show "feed_turn (tokenizer_at (pre @ escape s @ CHR ''<'' # r) (length pre) None) tokens
      = Go (tokens @ [HtCharacter s], tokenizer_at (pre @ escape s @ CHR ''<'' # r) (length pre + length (escape s)) None)"
    using n e decode_escape by (simp add: feed_turn_def Let_def)
qed

lemma turn_raw:
  assumes "plain_name tag" "find_window ''</'' s = None" "at_boundary s" "length tokens < MAX_TOKENS_PER_FEED"
  shows "feed_turn (tokenizer_at (pre @ s @ write_token (HtEndTag tag) @ r) (length pre) (Some tag)) tokens
    = Go (tokens @ (if s = [] then [] else [HtCharacter s]) @ [HtEndTag tag],
        tokenizer_at (pre @ s @ write_token (HtEndTag tag) @ r) (length pre + length s + length (write_token (HtEndTag tag))) None)"
  using parse_raw_text_written [OF assms(1-3), of pre r] assms(4)
  by (simp add: feed_turn_def Let_def)

lemma loop_written:
  "writable m ts \<Longrightarrow> (\<And>tag. m = Some tag \<Longrightarrow> plain_name tag) \<Longrightarrow> length tokens + length ts \<le> MAX_TOKENS_PER_FEED \<Longrightarrow>
    html_feed_loop (tokenizer_at (pre @ write_tokens (m \<noteq> None) ts) (length pre) m) tokens
    = (Inr (tokens @ ts), tokenizer_at (pre @ write_tokens (m \<noteq> None) ts) (length (pre @ write_tokens (m \<noteq> None) ts)) None)"
proof (induction m ts arbitrary: pre tokens rule: writable.induct)
  case 1
  have "feed_turn (tokenizer_at pre (length pre) None) tokens = Stop (tokens, tokenizer_at pre (length pre) None)"
    by (simp add: feed_turn_def)
  then show ?case by (simp add: loop_stop)
next
  case (2 t ts)
  let ?rest = "write_tokens (raw_text_after t \<noteq> None) ts"
  have ok: "token_ok t" "writable (raw_text_after t) ts" using 2(2) by auto
  have n: "length tokens < MAX_TOKENS_PER_FEED" "length (tokens @ [t]) + length ts \<le> MAX_TOKENS_PER_FEED" using 2(4) by auto
  have raw: "plain_name tag" if "raw_text_after t = Some tag" for tag
    using that ok(1) by (cases t) (auto simp: raw_text_after_def split: if_splits)
  note IH = 2(1) [OF ok(2) raw n(2), of "pre @ write_token t"]
  show ?case
  proof (cases "is_text t")
    case False
    have "html_feed_loop (tokenizer_at (pre @ write_token t @ ?rest) (length pre) None) tokens
        = html_feed_loop (tokenizer_at (pre @ write_token t @ ?rest) (length pre + length (write_token t)) (raw_text_after t)) (tokens @ [t])"
      by (rule loop_go [OF turn_tag [OF ok(1) False n(1)]])
    then show ?thesis using IH by simp
  next
    case True
    then obtain s where t: "t = HtCharacter s" by (cases t) auto
    have s: "text_ok s" using ok(1) t by simp
    have r: "raw_text_after t = None" by (simp add: t raw_text_after_def)
    have "ts = [] \<or> (\<exists>u. write_tokens False ts = CHR ''<'' # u)"
      using 2(2) True r by (intro writable_start) auto
    then show ?thesis
    proof (elim disjE exE)
      assume "ts = []"
      then show ?thesis using loop_stop [OF turn_text(1) [OF s n(1), of pre]] by (simp add: t)
    next
      fix u assume u: "write_tokens False ts = CHR ''<'' # u"
      then show ?thesis using loop_go [OF turn_text(2) [OF s n(1), of pre u]] IH by (simp add: t r raw_text_after_def)
    qed
  qed
next
  case (3 tag name ts)
  have n: "name = tag" "writable None ts" using 3(2) by auto
  have tag: "plain_name tag" using 3(3) by simp
  have "length tokens < MAX_TOKENS_PER_FEED" "length (tokens @ [HtEndTag tag]) + length ts \<le> MAX_TOKENS_PER_FEED"
    using 3(4) by auto
  then show ?case
    using loop_go [OF turn_raw [OF tag, of "[]" tokens pre "write_tokens False ts"]] 3(1) [OF n(2), of "tokens @ [HtEndTag tag]" "pre @ write_token (HtEndTag tag)"]
    by (simp add: n(1) at_boundary_def)
next
  case (4 tag s name ts)
  have n: "name = tag" "writable None ts" "text_ok s" "find_window ''</'' s = None" using 4(2) by auto
  have tag: "plain_name tag" using 4(3) by simp
  have "length tokens < MAX_TOKENS_PER_FEED" "length (tokens @ [HtCharacter s, HtEndTag tag]) + length ts \<le> MAX_TOKENS_PER_FEED"
    using 4(4) by auto
  then show ?case
    using loop_go [OF turn_raw [OF tag n(4), of tokens pre "write_tokens False ts"]]
      4(1) [OF n(2), of "tokens @ [HtCharacter s, HtEndTag tag]" "pre @ s @ write_token (HtEndTag tag)"] n(3)
    by (simp add: n(1) text_ok_def add.assoc)
qed simp_all

text \<open>C3: a document written out from its tokens reads back as exactly those tokens, and nothing is left in
  the tokenizer: tags with their attributes, comments, doctypes, escaped text and attribute values,
  and the unescaped text of script and style elements.\<close>

theorem html_round_trip:
  assumes "writable None ts" "length ts \<le> MAX_TOKENS_PER_FEED"
  shows "html_feed (write_tokens False ts) html_new = (Inr ts, html_new)"
proof -
  have "html_feed_loop (tokenizer_at (write_tokens False ts) 0 None) []
      = (Inr ts, tokenizer_at (write_tokens False ts) (length (write_tokens False ts)) None)"
    using loop_written [OF assms(1), of "[]" "[]"] assms(2) by simp
  then show ?thesis by (simp add: html_feed_def html_new_def at_boundary_def)
qed

definition sample_tokens :: "html_token list" where
  "sample_tokens =
     [HtDoctype (Some ''html'') None None False,
      HtStartTag ''a'' [\<lparr>ha_name = ''href'', ha_value = Some ''x&y''\<rparr>, \<lparr>ha_name = ''b'', ha_value = None\<rparr>] False,
      HtCharacter ''1<2'', HtEndTag ''a'', HtStartTag ''script'' [] False, HtCharacter ''if(a<b)'',
      HtEndTag ''script'', HtComment ''c'']"

theorem html_round_trip_witness:
  "html_feed (write_tokens False sample_tokens) html_new = (Inr sample_tokens, html_new)"
  by (rule html_round_trip)
     (simp_all add: sample_tokens_def plain_name_def attribute_ok_def text_ok_def raw_text_after_def tag_name_char_def
        attr_name_char_def doctype_name_char_def html_whitespace_def ascii_lower_def ascii_upper_def ascii_digit_def
        at_boundary_def cont_byte_def MAX_TOKENS_PER_FEED_def)

end
