(* ===== verification/Spec2Isabelle.thy ===== *)
theory Spec2Isabelle
  imports Prelude Shell_State Shell_Address Shell_Navigation Shell_History Rust_Utf8 Protocol_Codec Protocol_Messages Protocol_Wire Protocol_Roundtrip Protocol_Envelope Protocol_Negotiation Protocol_Lifecycle Rust_Str Interner Dom_Names Dom_State Dom_Tree Dom_Invariant Dom_Preserve Dom_Insert Dom_Attributes Dom_Steps Dom_Walks Dom_Model Dom_Results Dom_Order Dom_Atoms Dom_Reading Rust_Chars Css_Token Css_Token_Safe Css_Token_Valid Css_Selector Css_Selector_Parse Css_Property Css_Parser Css_Intern Css_Match Css_Match_Spec Css_Match_Exact Css_View Css_Specificity Css_Parser_Props Css_Parser_Total Rust_Num Net_Sse Bpe Rust_Ip Psl Http_Date Net_Cookie Net_Cache Engine_Origin Css_Variables Css_Media Css_Supports Css_Layers Css_Index Css_Index_Exact Css_Index_Props Css_Cascade Css_Cascade_Props Net_Response Net_Http Net_Client_Props Dom_Diff Engine_Transport Engine_Ingress Engine_Worker Engine_Worker_Props Layout_Table Html_Sink Html_Serialize Html_Tokenizer Html_Tokenizer_Props Html_Roundtrip
begin

text \<open>
  Silksurf is a browser written in Rust. This library models the parts of it that decide
  something (the document tree, the parsers, the cascade, the network client, the process
  boundary, the shell) as functions and step relations over explicit state and proves what makes
  them correct. Paths are those of the repository, below \<open>crates/\<close> where no other directory is named.

  How the parts meet. \<open>silksurf-html\<close> turns bytes into calls on the document of
  \<open>silksurf-dom\<close>; \<open>silksurf-css\<close> parses style sheets, finds the rules that match an
  element of the document and orders their declarations; \<open>silksurf-layout\<close> flattens the tree
  it styles; \<open>silksurf-net\<close> fetches what the page names under the cookies and the cache of a
  partition, which \<open>silksurf-engine\<close> derives from origins and the public suffix list of
  \<open>silksurf-core\<close>. A page runs in a worker process: \<open>silksurf-app\<close> writes commands
  and reads events in the wire format of \<open>silksurf-core\<close>. So here Dom_State and its
  successors are imported by the HTML sink, by selector matching and by the layout table; Rust_Str,
  Rust_Chars and Rust_Num (the string functions of Rust's standard library on byte strings) by every
  parser; Protocol_Envelope by Engine_Transport; Psl by Net_Cookie and Engine_Origin.

  Conventions. A struct is a record, an enum a datatype, an integer a word of its width
  where it can wrap, and a natural number where a length or an index bounds it. A \<open>String\<close> is
  a list of bytes (Isabelle characters); rust_str says that it is valid UTF-8. A hash map is a list
  of entries with distinct keys or a map, so that nothing depends on its iteration order.
  A \<open>Result\<close> is a sum type (Inl the error), an \<open>Option\<close> an option. A function over a \<open>&mut\<close>
  argument returns the new value beside its result. Where the source panics (a slice off a character
  boundary, an index out of range) or may recurse for ever, the result is an option or has an
  outcome of its own: None is the panic or the missing answer, and a separate property shows when it cannot
  occur. \<open>partial_function (option)\<close> stands for a loop the source does not bound.

  What is a parameter. Code outside the repository is an argument of the definitions that use it:
  \<open>f32\<close> arithmetic and parsing, the substring search of memchr, the url and idna crates, httparse and
  the decompressors, connections and TLS, the JSON codec, clocks and the file hash of the cache, the
  tree builder and the serializer of html5ever, the pipe and the threads of the engine process. What
  a theorem needs of such an argument is a named hypothesis, and its witness gives a concrete one.

  The theories.

  Prelude: result and state operations shared by all, saturating word arithmetic, list lemmas.
  Rust_Utf8, Rust_Str, Rust_Chars, Rust_Num, Rust_Ip: strings, characters, numbers and
  addresses of the standard library.

  Interner (\<open>silksurf-core/src/interner.rs\<close>): ids of interned strings. Bpe (\<open>bpe.rs\<close>): the byte trie
  and the greedy encoder; bpe_longest_match says that each token is the longest known one. Psl
  (\<open>psl.rs\<close>): the rule tables and the registrable domain.

  Protocol_Codec, Protocol_Messages, Protocol_Wire (\<open>silksurf-core/src/engine_protocol/\<close>): the bounded
  reader and writer, the messages, the codec of each. Protocol_Roundtrip and Protocol_Envelope: decoding an
  encoded message gives it back, and what decodes is the encoding of the result.
  Protocol_Negotiation: versions and capabilities. Protocol_Lifecycle: the three transition
  tables as step relations.

  Dom_Names, Dom_State, Dom_Tree, Dom_Attributes (\<open>silksurf-dom/src/lib.rs\<close>, \<open>mutation.rs\<close>, \<open>forms.rs\<close>):
  the arena, its generations, batches and mutation log, and every operation on it. Dom_Invariant, Dom_Preserve,
  Dom_Insert, Dom_Steps, Dom_Model: the tree invariant, that each operation keeps it, and that
  insertion refines the insertion into an ordered tree. Dom_Walks, Dom_Results: the loops over the tree end
  and the operations return; a rejected one changes nothing. Dom_Order, Dom_Atoms, Dom_Reading: tree
  order, form controls, and the atoms cached on attributes. Dom_Diff (\<open>diff.rs\<close>): the difference
  of two documents.

  Html_Tokenizer, Html_Tokenizer_Props, Html_Roundtrip (\<open>silksurf-html/src/lib.rs\<close>): the tokenizer, that
  it never panics, and that it reads back what a writer of tokens wrote. Html_Sink (\<open>treesink.rs\<close>):
  what the tree builder does to the document. Html_Serialize (\<open>serialize.rs\<close>): the traversal.

  Css_Token, Css_Token_Safe, Css_Token_Valid (\<open>silksurf-css/src/lib.rs\<close>): the tokenizer over the
  bytes of a chunk. Css_Selector, Css_Selector_Parse (\<open>selector.rs\<close>), Css_Property
  (\<open>property_id.rs\<close>), Css_Parser, Css_Parser_Props, Css_Parser_Total (\<open>parser.rs\<close>), Css_Intern: style
  sheets and their limits. Css_Match, Css_Match_Spec, Css_Match_Exact (\<open>matching.rs\<close>): matching against
  the document, and that it agrees with the relation selectors denote. Css_View (\<open>cascade_view.rs\<close>): the
  flat view of the document that matching may read in its place. Css_Specificity, Css_Variables
  (\<open>custom_properties.rs\<close>), Css_Media (\<open>media.rs\<close>), Css_Supports (\<open>supports.rs\<close>), Css_Layers, Css_Index, Css_Index_Exact,
  Css_Index_Props, Css_Cascade, Css_Cascade_Props (\<open>style.rs\<close>): conditions, layers, the rule index,
  and the order in which declarations win.

  Net_Sse (\<open>silksurf-net/src/sse.rs\<close>), Http_Date, Net_Cookie (\<open>cookie.rs\<close>), Net_Cache
  (\<open>cache.rs\<close>), Net_Response, Net_Http, Net_Client_Props (\<open>lib.rs\<close>, \<open>client_hints.rs\<close>):
  event streams, cookies, the cache, reading a response off a connection, writing a request and
  following redirects. Engine_Origin (\<open>silksurf-engine/src/sandbox.rs\<close>, \<open>privacy.rs\<close>):
  origins and partitions.

  Layout_Table (\<open>silksurf-layout/src/neighbor_table.rs\<close>): the table by levels.

  Engine_Transport, Engine_Ingress (\<open>silksurf-app/src/engine_process.rs\<close>): messages on the pipes and the
  event queue between the reader thread and the shell, as a step relation over both threads.
  Engine_Worker, Engine_Worker_Props: the runtime actor, whose steps are a command or a page that
  finished loading.

  Shell_State, Shell_Address, Shell_Navigation (\<open>silksurf-app/src/input.rs\<close>, \<open>runtime_repaint.rs\<close>,
  \<open>window_frame.rs\<close>, \<open>redraw_geometry.rs\<close>): the shell's state and what of it has to be painted again, the
  address bar, and navigations with their worker threads and the session history. Shell_Address shows that
  the bar is an editor of characters; Shell_History that the shell refines a machine without
  generations, channels and indices, as long as the 64-bit generation counter has not come to its end.

  Locales. An interface is a locale where a client relies on its laws: the interner (interner_iface),
  a field of the wire format (wire_field, fixed_field), a bit set, a byte enum, a lifecycle, a reader of
  nodes that selector matching asks (node_reader, with the document and the cascade view as its two
  instances), a key space of the rule index, and a store in which the best ranked offer wins. Each is
  interpreted on the definitions that provide it, and the properties use the facts of the interpretation.

  Bounds and fuel. Recursion over a counter occurs where the source counts (the connected walk, the
  nesting of blocks, the redirect limit) and in import_subtree, whose fuel is the number of nodes of the source
  document plus one: its depth cannot exceed that, and operations_return shows that it is enough. Everything else
  terminates by a measure or is a partial function with a proof that it returns.

  Not modelled. Values of properties, layout boxes, painting, text and canvas are \<open>f32\<close>
  arithmetic over taffy, tiny-skia and cosmic-text: without that arithmetic nothing of the code remains.
  The JavaScript bindings are calls into the boa engine over its own heap.
  Image decoding, TLS, HTTP/2 and WebSocket are configuration of other crates. The window back ends
  and the rest of the shell are platform calls, threads and clocks around the parts above. In the
  parts that are modelled, spawning and reaping the worker process, byte input of style sheets in
  another encoding and the parsing of values in the cascade are left out. The manifest lists each of
  these files with its reason.
\<close>

end
